(* ===== verification/Prelude.thy ===== *)
theory Prelude
  imports Complex_Main "HOL-Library.AList" "HOL-Library.Sublist"
begin

text \<open>
  Shared vocabulary of the development: the JavaScript idioms the modelled modules rely on
  (searching for an index, slicing, truthiness of optional strings, insertion ordered maps and
  sets) and the generic list lemmas their proofs share.

  A JavaScript \<open>Map\<close> is an association list in insertion order: \<open>AList.update\<close> replaces the
  value of a present key in place and appends an absent one, and \<open>AList.delete\<close> removes it,
  exactly as \<open>Map.prototype.set\<close> and \<open>Map.prototype.delete\<close> do.  A JavaScript \<open>Set\<close> is a list
  without duplicates, in insertion order.
\<close>

named_theorems list_facts
named_theorems wf_intros

type_synonym ('k, 'v) js_map = "('k \<times> 'v) list"

section \<open>Optional strings and safe indexing\<close>

definition truthy :: "string option \<Rightarrow> string option" where
  "truthy s = (case s of None \<Rightarrow> None | Some t \<Rightarrow> if t = [] then None else Some t)"

lemma truthy_simps [simp]:
  "truthy None = None" "truthy (Some []) = None" "truthy (Some (c # cs)) = Some (c # cs)"
  by (simp_all add: truthy_def)

definition or_else :: "'a option \<Rightarrow> 'a option \<Rightarrow> 'a option" where
  "or_else a b = (case a of Some x \<Rightarrow> Some x | None \<Rightarrow> b)"

lemma or_else_simps [simp]: "or_else None b = b" "or_else (Some x) b = Some x"
  by (simp_all add: or_else_def)

definition default :: "'a \<Rightarrow> 'a option \<Rightarrow> 'a" where
  "default d a = (case a of Some x \<Rightarrow> x | None \<Rightarrow> d)"

lemma default_simps [simp]: "default d None = d" "default d (Some x) = x"
  by (simp_all add: default_def)

definition nth_opt :: "'a list \<Rightarrow> nat \<Rightarrow> 'a option" where
  "nth_opt xs i = (if i < length xs then Some (xs ! i) else None)"

lemma nth_opt_simps [simp]:
  "nth_opt [] i = None" "nth_opt (x # xs) 0 = Some x" "nth_opt (x # xs) (Suc i) = nth_opt xs i"
  by (simp_all add: nth_opt_def)

lemma nth_opt_Some: "nth_opt xs i = Some x \<longleftrightarrow> i < length xs \<and> xs ! i = x"
  by (simp add: nth_opt_def)

lemma nth_opt_mem: "nth_opt xs i = Some x \<Longrightarrow> x \<in> set xs"
  by (auto simp: nth_opt_Some)

definition first_opt :: "'a list \<Rightarrow> 'a option" where
  "first_opt xs = (case xs of [] \<Rightarrow> None | x # _ \<Rightarrow> Some x)"

definition last_opt :: "'a list \<Rightarrow> 'a option" where
  "last_opt xs = (case xs of [] \<Rightarrow> None | _ # _ \<Rightarrow> Some (last xs))"

lemma first_opt_simps [simp]: "first_opt [] = None" "first_opt (x # xs) = Some x"
  by (simp_all add: first_opt_def)

lemma last_opt_eq: "xs \<noteq> [] \<Longrightarrow> last_opt xs = Some (last xs)"
  by (cases xs) (simp_all add: last_opt_def)

lemma last_opt_simps [simp]:
  "last_opt [] = None" "last_opt (xs @ [x]) = Some x" "last_opt [y] = Some y"
  by (simp_all add: last_opt_eq) (simp add: last_opt_def)

lemma first_opt_eq: "xs \<noteq> [] \<Longrightarrow> first_opt xs = Some (hd xs)"
  by (cases xs) simp_all

lemma last_opt_None [simp]: "last_opt xs = None \<longleftrightarrow> xs = []"
  by (cases xs) (simp_all add: last_opt_def)

lemma last_opt_Some: "last_opt xs = Some x \<longleftrightarrow> xs \<noteq> [] \<and> last xs = x"
  by (cases xs) (auto simp: last_opt_def)

section \<open>Computations that may throw\<close>

definition bind_sum :: "'e + 'a \<Rightarrow> ('a \<Rightarrow> 'e + 'b) \<Rightarrow> 'e + 'b" where
  "bind_sum r f = (case r of Inl e \<Rightarrow> Inl e | Inr x \<Rightarrow> f x)"

lemma bind_sum_simps [simp]: "bind_sum (Inl e) f = Inl e" "bind_sum (Inr x) f = f x"
  by (simp_all add: bind_sum_def)

lemma bind_sum_Inr: "bind_sum r f = Inr y \<longleftrightarrow> (\<exists>x. r = Inr x \<and> f x = Inr y)"
  by (cases r) simp_all

section \<open>findIndex and slices\<close>

primrec find_index :: "('a \<Rightarrow> bool) \<Rightarrow> 'a list \<Rightarrow> nat option" where
  "find_index P [] = None"
| "find_index P (x # xs) = (if P x then Some 0 else map_option Suc (find_index P xs))"

lemma find_index_None: "find_index P xs = None \<longleftrightarrow> (\<forall>x\<in>set xs. \<not> P x)"
  by (induction xs) auto

lemma find_index_Some:
  "find_index P xs = Some i \<Longrightarrow> i < length xs \<and> P (xs ! i) \<and> (\<forall>j<i. \<not> P (xs ! j))"
proof (induction xs arbitrary: i)
  case Nil
  then show ?case by simp
next
  case (Cons x xs)
  show ?case
  proof (cases "P x")
    case True
    with Cons.prems show ?thesis by simp
  next
    case False
    with Cons.prems obtain k where k: "find_index P xs = Some k" "i = Suc k" by auto
    from Cons.IH [OF k(1)] False k(2) show ?thesis
      by (auto simp: nth_Cons split: nat.split)
  qed
qed

lemma find_index_drop: "find_index P xs = Some i \<Longrightarrow> drop i xs = dropWhile (\<lambda>x. \<not> P x) xs"
  by (induction xs arbitrary: i) (auto split: if_splits)

lemma find_index_take: "find_index P xs = Some i \<Longrightarrow> take i xs = takeWhile (\<lambda>x. \<not> P x) xs"
  by (induction xs arbitrary: i) (auto split: if_splits)

text \<open>\<open>xs.slice(xs.length - n)\<close> for \<open>n < xs.length\<close>.\<close>

definition take_last :: "nat \<Rightarrow> 'a list \<Rightarrow> 'a list" where
  "take_last n xs = drop (length xs - n) xs"

lemma take_last_suffix: "suffix (take_last n xs) xs"
  by (simp add: take_last_def suffix_drop)

lemma length_take_last [simp]: "length (take_last n xs) = min n (length xs)"
  by (simp add: take_last_def min_def)

lemma take_last_append: "take (length xs - n) xs @ take_last n xs = xs"
  by (simp add: take_last_def)

lemma take_last_all: "length xs \<le> n \<Longrightarrow> take_last n xs = xs"
  by (simp add: take_last_def)

lemma take_last_Nil: "take_last n xs = [] \<longleftrightarrow> n = 0 \<or> xs = []"
  using length_take_last [of n xs] by (auto simp: min_def simp flip: length_0_conv split: if_splits)

lemma take_last_snoc: "take_last n (take_last n xs @ [x]) = take_last n (xs @ [x])"
  by (cases n; cases "n \<le> length xs") (auto simp: take_last_def Suc_diff_Suc Suc_le_eq)

text \<open>\<open>Array.from(new Set(xs))\<close>: the first occurrence of every element, in order.\<close>

definition js_set :: "'a list \<Rightarrow> 'a list" where
  "js_set xs = rev (remdups (rev xs))"

lemma set_js_set [simp]: "set (js_set xs) = set xs"
  by (simp add: js_set_def)

lemma distinct_js_set [simp]: "distinct (js_set xs)"
  by (simp add: js_set_def)

lemma concat_map_update:
  assumes "i < length xs"
  shows "concat (map f (xs[i := x])) = concat (map f (take i xs)) @ f x @ concat (map f (drop (Suc i) xs))"
    "concat (map f xs) = concat (map f (take i xs)) @ f (xs ! i) @ concat (map f (drop (Suc i) xs))"
  using assms by (simp_all add: upd_conv_take_nth_drop)
    (metis concat.simps(2) concat_append id_take_nth_drop list.simps(9) map_append)

section \<open>Lists with a strictly increasing key\<close>

definition increasing :: "('a \<Rightarrow> 'b::linorder) \<Rightarrow> 'a list \<Rightarrow> bool" where
  "increasing f xs \<longleftrightarrow> sorted_wrt (\<lambda>a b. f a < f b) xs"

lemma increasing_simps [simp]:
  "increasing f []" "increasing f (x # xs) \<longleftrightarrow> (\<forall>y\<in>set xs. f x < f y) \<and> increasing f xs"
  by (simp_all add: increasing_def)

lemma increasing_append:
  "increasing f (xs @ ys) \<longleftrightarrow>
     increasing f xs \<and> increasing f ys \<and> (\<forall>x\<in>set xs. \<forall>y\<in>set ys. f x < f y)"
  by (simp add: increasing_def sorted_wrt_append)

lemma increasing_filter: "increasing f xs \<Longrightarrow> increasing f (filter P xs)"
  by (induction xs) auto

lemma increasing_take: "increasing f xs \<Longrightarrow> increasing f (take n xs)"
  by (metis append_take_drop_id increasing_append)

lemma increasing_drop: "increasing f xs \<Longrightarrow> increasing f (drop n xs)"
  by (metis append_take_drop_id increasing_append)

lemma increasing_distinct: "increasing f xs \<Longrightarrow> distinct xs"
  by (induction xs) auto

lemma increasing_inj:
  assumes "increasing f xs" "x \<in> set xs" "y \<in> set xs" "f x = f y"
  shows "x = y"
  using assms by (induction xs) (force simp: less_le)+

lemma increasing_nth_less:
  assumes "increasing f xs" "i < j" "j < length xs"
  shows "f (xs ! i) < f (xs ! j)"
  using assms sorted_wrt_nth_less [of "\<lambda>a b. f a < f b" xs i j] by (simp add: increasing_def)

lemma increasing_hd_le: "increasing f xs \<Longrightarrow> x \<in> set xs \<Longrightarrow> f (hd xs) \<le> f x"
  by (cases xs) (auto simp: less_imp_le)

lemma increasing_le_last: "increasing f xs \<Longrightarrow> x \<in> set xs \<Longrightarrow> f x \<le> f (last xs)"
  by (induction xs) (auto simp: less_imp_le)

lemma increasing_dropWhile_filter:
  "increasing f xs \<Longrightarrow> dropWhile (\<lambda>x. \<not> c < f x) xs = filter (\<lambda>x. c < f x) xs"
proof (induction xs)
  case (Cons x xs)
  then show ?case by (auto intro!: filter_True [symmetric] dest: less_trans)
qed simp

lemma increasing_takeWhile_filter:
  "increasing f xs \<Longrightarrow> takeWhile (\<lambda>x. \<not> c \<le> f x) xs = filter (\<lambda>x. \<not> c \<le> f x) xs"
proof (induction xs)
  case (Cons x xs)
  then show ?case by (auto intro!: filter_False [symmetric] dest: less_imp_le le_less_trans)
qed simp

lemma increasing_update:
  assumes "increasing f xs" and "i < length xs" and "f x = f (xs ! i)"
  shows "increasing f (xs[i := x])"
proof -
  have "xs = take i xs @ xs ! i # drop (Suc i) xs" using assms(2) by (rule id_take_nth_drop)
  then have "increasing f (take i xs @ xs ! i # drop (Suc i) xs)" using assms(1) by simp
  with assms(2,3) show ?thesis by (simp add: upd_conv_take_nth_drop increasing_append)
qed

lemma increasing_rev: "increasing f xs \<Longrightarrow> increasing (\<lambda>x. - f x) (rev xs)" for f :: "'a \<Rightarrow> int"
  by (induction xs) (auto simp: increasing_append)

lemmas increasing_facts [list_facts] =
  increasing_append increasing_filter increasing_take increasing_drop increasing_distinct

section \<open>Insertion ordered maps\<close>

definition alist_ok :: "('k, 'v) js_map \<Rightarrow> bool" where
  "alist_ok m \<longleftrightarrow> distinct (map fst m)"

lemma alist_ok_Nil [simp, wf_intros]: "alist_ok []"
  by (simp add: alist_ok_def)

lemma alist_ok_update [simp, wf_intros]: "alist_ok m \<Longrightarrow> alist_ok (AList.update k v m)"
  by (simp add: alist_ok_def distinct_update)

lemma alist_ok_delete [simp, wf_intros]: "alist_ok m \<Longrightarrow> alist_ok (AList.delete k m)"
  by (simp add: alist_ok_def distinct_delete)

lemma alist_ok_filter: "alist_ok m \<Longrightarrow> alist_ok (filter P m)"
  by (simp add: alist_ok_def distinct_map_filter)

lemma update_new: "k \<notin> fst ` set m \<Longrightarrow> AList.update k v m = m @ [(k, v)]"
  by (induction m) auto

lemma delete_new: "k \<notin> fst ` set m \<Longrightarrow> AList.delete k m = m"
  by (induction m) (auto simp: AList.delete_eq)

lemma alist_mem: "alist_ok m \<Longrightarrow> (k, v) \<in> set m \<longleftrightarrow> map_of m k = Some v"
  by (auto simp: alist_ok_def dest: map_of_SomeD)

lemma map_of_None_iff: "map_of m k = None \<longleftrightarrow> k \<notin> fst ` set m"
  by (simp add: map_of_eq_None_iff)

text \<open>Object spread \<open>{...a, ...b}\<close>: the properties of \<open>b\<close> are written over those of \<open>a\<close>.\<close>

definition spread :: "('k, 'v) js_map \<Rightarrow> ('k, 'v) js_map \<Rightarrow> ('k, 'v) js_map" where
  "spread a b = fold (\<lambda>(k, v) m. AList.update k v m) b a"

lemma map_of_fold_update:
  "map_of (fold (\<lambda>(k, v) m. AList.update k v m) b a) = map_of a ++ map_of (rev b)"
  by (induction b arbitrary: a) (auto simp: update_conv' map_add_def fun_eq_iff split: option.splits)

lemma map_of_rev_distinct: "distinct (map fst b) \<Longrightarrow> map_of (rev b) = map_of b"
  by (simp add: map_of_inject_set rev_map [symmetric])

lemma map_of_spread: "alist_ok b \<Longrightarrow> map_of (spread a b) = map_of a ++ map_of b"
  unfolding spread_def map_of_fold_update alist_ok_def by (simp add: map_of_rev_distinct)

section \<open>Array.prototype.sort\<close>

text \<open>
  The stable sort by a comparator with an integer result.  \<open>localeCompare\<close> depends on the ICU data
  of the host; the definitions that use it take it as an argument.
\<close>

primrec js_insert :: "('a \<Rightarrow> 'a \<Rightarrow> int) \<Rightarrow> 'a \<Rightarrow> 'a list \<Rightarrow> 'a list" where
  "js_insert cmp x [] = [x]"
| "js_insert cmp x (y # ys) = (if cmp x y \<le> 0 then x # y # ys else y # js_insert cmp x ys)"

definition js_sort :: "('a \<Rightarrow> 'a \<Rightarrow> int) \<Rightarrow> 'a list \<Rightarrow> 'a list" where
  "js_sort cmp xs = foldr (js_insert cmp) xs []"

lemma js_sort_simps [simp]:
  "js_sort cmp [] = []" "js_sort cmp (x # xs) = js_insert cmp x (js_sort cmp xs)"
  by (simp_all add: js_sort_def)

lemma set_js_insert [simp]: "set (js_insert cmp x xs) = insert x (set xs)"
  by (induction xs) auto

lemma set_js_sort [simp]: "set (js_sort cmp xs) = set xs"
  by (induction xs) simp_all

lemma length_js_insert [simp]: "length (js_insert cmp x xs) = Suc (length xs)"
  by (induction xs) auto

lemma length_js_sort [simp]: "length (js_sort cmp xs) = length xs"
  by (induction xs) simp_all

lemma distinct_js_insert: "distinct (js_insert cmp x xs) \<longleftrightarrow> x \<notin> set xs \<and> distinct xs"
  by (induction xs) auto

lemma distinct_js_sort [simp]: "distinct (js_sort cmp xs) = distinct xs"
  by (induction xs) (simp_all add: distinct_js_insert)

lemma js_insert_increasing:
  fixes f :: "'a \<Rightarrow> int"
  assumes "\<And>y. y \<in> set ys \<Longrightarrow> f x \<noteq> f y \<and> (cmp x y \<le> 0) = (f x < f y)" and "increasing f ys"
  shows "increasing f (js_insert cmp x ys)"
  using assms
proof (induction ys)
  case (Cons y ys)
  have y: "f x \<noteq> f y" "(cmp x y \<le> 0) = (f x < f y)" using Cons.prems(1) [of y] by simp_all
  have "increasing f (js_insert cmp x ys)" using Cons.IH Cons.prems by simp
  with y Cons.prems(2) show ?case
    by (cases "f x < f y") (auto dest: less_trans simp: not_less less_le)
qed simp

lemma js_sort_increasing:
  fixes f :: "'a \<Rightarrow> int"
  assumes "\<And>x y. x \<in> set xs \<Longrightarrow> y \<in> set xs \<Longrightarrow> f x \<noteq> f y \<Longrightarrow> (cmp x y \<le> 0) = (f x < f y)"
    and "distinct (map f xs)"
  shows "increasing f (js_sort cmp xs)"
  using assms
proof (induction xs)
  case (Cons x xs)
  have neq: "f x \<noteq> f y" if "y \<in> set xs" for y using that Cons.prems(2) by auto
  have "increasing f (js_sort cmp xs)" using Cons by simp
  moreover have "f x \<noteq> f y \<and> (cmp x y \<le> 0) = (f x < f y)" if "y \<in> set (js_sort cmp xs)" for y
    using that neq [of y] Cons.prems(1) [of x y] by simp
  ultimately show ?case using js_insert_increasing [of "js_sort cmp xs" f x cmp] by simp
qed simp

end
