(* ===== verification/Timeline_Items.thy ===== *)
theory Timeline_Items
  imports Prelude
begin

text \<open>
  The data every agent timeline is made of: the tool call details, timeline items and stream
  events of \<open>packages/server/src/server/agent/agent-sdk-types.ts\<close>, the identity function of
  \<open>packages/protocol/src/timeline-identity.ts\<close>, and the content limits of
  \<open>agent-timeline-content.ts\<close>.  Types that the modelled code only carries around (usage counters,
  permission requests, provider payloads) are \<open>json\<close> values.  An optional property \<open>p?: T\<close> is a
  \<open>T option\<close>; a property that may also be \<open>null\<close> is a \<open>T option option\<close>.
\<close>

datatype json =
    JNull
  | JBool bool
  | JNum rat
  | JStr string
  | JArr "json list"
  | JObj "(string \<times> json) list"

datatype tool_call_icon =
  Wrench | SquareTerminal | Eye | Pencil | SearchIcon | Bot | Sparkles | Brain | MicVocal

datatype search_tool = ToolSearch | ToolGrep | ToolGlob | ToolWebSearch
datatype search_mode = ModeContent | ModeFilesWithMatches | ModeCount
datatype setup_status = SetupRunning | SetupCompleted | SetupFailed

record web_result =
  wr_title :: string
  wr_url :: string

record setup_command =
  sc_index :: rat
  sc_command :: string
  sc_cwd :: string
  sc_log :: string
  sc_status :: setup_status
  sc_exitCode :: "rat option"
  sc_durationMs :: "rat option"

record sub_agent_action =
  sa_index :: rat
  sa_toolName :: string
  sa_summary :: "string option"

record search_detail =
  sd_query :: string
  sd_toolName :: "search_tool option"
  sd_content :: "string option"
  sd_filePaths :: "string list option"
  sd_webResults :: "web_result list option"
  sd_annotations :: "string list option"
  sd_numFiles :: "rat option"
  sd_numMatches :: "rat option"
  sd_durationMs :: "rat option"
  sd_durationSeconds :: "rat option"
  sd_truncated :: "bool option"
  sd_mode :: "search_mode option"

record fetch_detail =
  fd_url :: string
  fd_prompt :: "string option"
  fd_result :: "string option"
  fd_code :: "rat option"
  fd_codeText :: "string option"
  fd_bytes :: "rat option"
  fd_durationMs :: "rat option"

text \<open>
  \<open>DShell command cwd output exitCode\<close>, \<open>DRead filePath content offset limit\<close>,
  \<open>DEdit filePath oldString newString unifiedDiff\<close>, \<open>DWrite filePath content\<close>,
  \<open>DWorktreeSetup worktreePath branchName log commands truncated\<close>,
  \<open>DSubAgent subAgentType description childSessionId log actions\<close>,
  \<open>DPlainText label text icon\<close>, \<open>DPlan text\<close>, \<open>DUnknown input output\<close>.
\<close>

datatype tool_call_detail =
    DShell string "string option" "string option" "rat option option"
  | DRead string "string option" "rat option" "rat option"
  | DEdit string "string option" "string option" "string option"
  | DWrite string "string option"
  | DSearch search_detail
  | DFetch fetch_detail
  | DWorktreeSetup string string string "setup_command list" "bool option"
  | DSubAgent "string option" "string option" "string option" string "sub_agent_action list option"
  | DPlainText "string option" "string option" "tool_call_icon option"
  | DPlan string
  | DUnknown json json

datatype tool_call_status = Running | Completed | Failed | Canceled

text \<open>
  A tool call item.  \<open>tc_error\<close> is \<open>None\<close> for \<open>undefined\<close> and \<open>Some JNull\<close> for \<open>null\<close>; \<open>tc_extra\<close>
  holds the properties of the index signature of \<open>ToolCallBase\<close>.
\<close>

record tool_call =
  tc_callId :: string
  tc_name :: string
  tc_detail :: tool_call_detail
  tc_metadata :: "(string, json) js_map option"
  tc_status :: tool_call_status
  tc_error :: "json option"
  tc_extra :: "(string, json) js_map"

datatype task_status = TaskPending | TaskInProgress | TaskCompleted

record agent_task_item =
  ti_text :: string
  ti_completed :: bool
  ti_id :: "string option"
  ti_status :: "task_status option"
  ti_activeForm :: "string option"

datatype notification_level = LevelInfo | LevelWarning | LevelError
datatype compaction_status = CompactionLoading | CompactionCompleted
datatype compaction_trigger = TriggerAuto | TriggerManual

record plugin_item =
  pi_id :: string
  pi_pluginId :: string
  pi_kind :: string
  pi_version :: rat
  pi_data :: json

text \<open>
  \<open>UserMessage text messageId clientMessageId\<close>, \<open>AssistantMessage text messageId\<close>,
  \<open>Compaction status trigger preTokens extra\<close>.
\<close>

datatype timeline_item =
    UserMessage string "string option" "string option"
  | AssistantMessage string "string option"
  | Reasoning string
  | ToolCall tool_call
  | Todo "agent_task_item list"
  | ErrorItem string
  | Notification notification_level string
  | Compaction compaction_status "compaction_trigger option" "rat option" "(string, json) js_map"
  | Plugin plugin_item

datatype attention_reason = AttentionFinished | AttentionError | AttentionPermission

datatype agent_stream_event =
    ThreadStarted string string
  | TurnStarted string "string option"
  | TurnCompleted string "json option" "string option"
  | UsageUpdated string json "string option"
  | ModeChanged string "string option" "json list"
  | ModelChanged string json
  | ThinkingOptionChanged string "string option"
  | TurnFailed string string "string option" "string option" "string option"
  | TurnCanceled string string "string option"
  | TimelineEvent timeline_item string "string option" "string option"
  | PermissionRequested string json "string option"
  | PermissionResolved string string json "string option"
  | AttentionRequired string attention_reason string
  | ProviderSubagent string json

fun getAgentStreamEventTurnId :: "agent_stream_event \<Rightarrow> string option" where
  "getAgentStreamEventTurnId (TurnStarted _ t) = t"
| "getAgentStreamEventTurnId (TurnCompleted _ _ t) = t"
| "getAgentStreamEventTurnId (UsageUpdated _ _ t) = t"
| "getAgentStreamEventTurnId (TurnFailed _ _ _ _ t) = t"
| "getAgentStreamEventTurnId (TurnCanceled _ _ t) = t"
| "getAgentStreamEventTurnId (TimelineEvent _ _ t _) = t"
| "getAgentStreamEventTurnId (PermissionRequested _ _ t) = t"
| "getAgentStreamEventTurnId (PermissionResolved _ _ _ t) = t"
| "getAgentStreamEventTurnId _ = None"

section \<open>Item identity\<close>

fun timelineItemIdentity :: "timeline_item \<Rightarrow> string option" where
  "timelineItemIdentity (ToolCall t) = Some (tc_callId t)"
| "timelineItemIdentity (Plugin p) = Some (pi_pluginId p @ ''/'' @ pi_id p)"
| "timelineItemIdentity _ = None"

section \<open>Content limits\<close>

definition TOOL_CALL_CONTENT_MAX_LENGTH :: nat where
  "TOOL_CALL_CONTENT_MAX_LENGTH = 64 * 1024"

definition cut :: "string \<Rightarrow> string" where
  "cut s = take TOOL_CALL_CONTENT_MAX_LENGTH s"

definition limitFailedShellError :: "timeline_item \<Rightarrow> timeline_item" where
  "limitFailedShellError item = (case item of
     ToolCall t \<Rightarrow> (case tc_detail t of
       DShell _ _ _ _ \<Rightarrow>
         (if tc_status t \<noteq> Failed then item
          else (case tc_error t of
            Some (JObj flds) \<Rightarrow> (case map_of flds ''content'' of
              Some (JStr content) \<Rightarrow>
                (if length content \<le> TOOL_CALL_CONTENT_MAX_LENGTH then item
                 else ToolCall (t\<lparr>tc_error :=
                        Some (JObj (AList.update ''content'' (JStr (cut content)) flds))\<rparr>))
            | _ \<Rightarrow> item)
          | _ \<Rightarrow> item))
     | _ \<Rightarrow> item)
   | _ \<Rightarrow> item)"

definition limitPlainText :: "timeline_item \<Rightarrow> timeline_item" where
  "limitPlainText item = (case item of
     ToolCall t \<Rightarrow> (case tc_detail t of
       DPlainText label (Some text) icon \<Rightarrow>
         (if length text \<le> TOOL_CALL_CONTENT_MAX_LENGTH then item
          else ToolCall (t\<lparr>tc_detail := DPlainText label (Some (cut text)) icon\<rparr>))
     | _ \<Rightarrow> item)
   | _ \<Rightarrow> item)"

definition limitAgentTimelineItemContent :: "timeline_item \<Rightarrow> timeline_item" where
  "limitAgentTimelineItemContent item0 =
     (let item = limitPlainText (limitFailedShellError item0) in
      case item of
        ToolCall t \<Rightarrow> (case tc_detail t of
          DShell command cwd (Some out) exitCode \<Rightarrow>
            (if length out \<le> TOOL_CALL_CONTENT_MAX_LENGTH then item
             else ToolCall (t\<lparr>tc_detail := DShell command cwd (Some (cut out)) exitCode\<rparr>))
        | _ \<Rightarrow> item)
      | _ \<Rightarrow> item)"

text \<open>The content that the limits bound, as an observation on items.\<close>

definition over_limit :: "string \<Rightarrow> bool" where
  "over_limit s \<longleftrightarrow> length s > TOOL_CALL_CONTENT_MAX_LENGTH"

fun error_content :: "json option \<Rightarrow> string option" where
  "error_content (Some (JObj flds)) =
     (case map_of flds ''content'' of Some (JStr c) \<Rightarrow> Some c | _ \<Rightarrow> None)"
| "error_content _ = None"

fun within_limits :: "timeline_item \<Rightarrow> bool" where
  "within_limits (ToolCall t) = (case tc_detail t of
      DShell _ _ out _ \<Rightarrow>
        (\<forall>s\<in>set_option out. \<not> over_limit s) \<and>
        (tc_status t = Failed \<longrightarrow> (\<forall>s\<in>set_option (error_content (tc_error t)). \<not> over_limit s))
    | DPlainText _ text _ \<Rightarrow> (\<forall>s\<in>set_option text. \<not> over_limit s)
    | _ \<Rightarrow> True)"
| "within_limits _ = True"

lemma length_le_limit [simp]: "length s \<le> TOOL_CALL_CONTENT_MAX_LENGTH \<longleftrightarrow> \<not> over_limit s"
  by (auto simp: over_limit_def)

lemma cut_ok [simp]: "\<not> over_limit (cut s)"
  by (simp add: cut_def over_limit_def min_def)

lemma cut_id: "\<not> over_limit s \<Longrightarrow> cut s = s"
  by (simp add: cut_def over_limit_def)

lemma within_limits_unchanged:
  "within_limits item \<Longrightarrow> limitAgentTimelineItemContent item = item"
  by (cases item)
     (auto simp: limitAgentTimelineItemContent_def limitFailedShellError_def limitPlainText_def Let_def split: tool_call_detail.splits option.splits json.splits if_splits)

lemma identity_of_limited:
  "timelineItemIdentity (limitAgentTimelineItemContent item) = timelineItemIdentity item"
  by (cases item)
     (auto simp: limitAgentTimelineItemContent_def limitFailedShellError_def limitPlainText_def
        Let_def split: tool_call_detail.splits option.splits json.splits)

lemma limit_error_ok:
  assumes "tc_detail t = DShell a b c d" "tc_status t = Failed"
  shows "\<exists>t'. limitFailedShellError (ToolCall t) = ToolCall t' \<and> tc_detail t' = tc_detail t \<and>
     tc_status t' = tc_status t \<and> (\<forall>s\<in>set_option (error_content (tc_error t')). \<not> over_limit s)"
  using assms
  by (auto simp: limitFailedShellError_def update_conv'
      split: option.splits json.splits)

text \<open>
  whatever the provider sent, after \<open>limitAgentTimelineItemContent\<close> no shell output, plain
  text or failed shell error content exceeds the 64 Ki limit, and applying the limiter again
  changes nothing.
\<close>

lemma limit_content_bounded:
  "within_limits (limitAgentTimelineItemContent item) \<and>
   limitAgentTimelineItemContent (limitAgentTimelineItemContent item) =
     limitAgentTimelineItemContent item"
proof -
  have "within_limits (limitAgentTimelineItemContent item)"
  proof (cases item)
    case (ToolCall t)
    show ?thesis
    proof (cases "tc_detail t")
      case (DShell a b c d)
      show ?thesis
      proof (cases "tc_status t = Failed")
        case True
        from limit_error_ok [OF DShell True] obtain t' where t':
          "limitFailedShellError (ToolCall t) = ToolCall t'" "tc_detail t' = DShell a b c d"
          "\<forall>s\<in>set_option (error_content (tc_error t')). \<not> over_limit s"
          using DShell by auto
        then show ?thesis
          using ToolCall by (cases c)
            (auto simp: limitAgentTimelineItemContent_def limitPlainText_def Let_def)
      next
        case False
        with ToolCall DShell show ?thesis
          by (cases c) (auto simp: limitAgentTimelineItemContent_def limitFailedShellError_def
              limitPlainText_def Let_def)
      qed
    next
      case (DPlainText a b c)
      with ToolCall show ?thesis
        by (cases b) (auto simp: limitAgentTimelineItemContent_def limitFailedShellError_def
            limitPlainText_def Let_def)
    qed (auto simp: ToolCall limitAgentTimelineItemContent_def limitFailedShellError_def
        limitPlainText_def Let_def)
  qed (auto simp: limitAgentTimelineItemContent_def limitFailedShellError_def limitPlainText_def)
  then show ?thesis by (simp add: within_limits_unchanged)
qed

end
