(* ===== verification/Paging.thy ===== *)
theory Paging
  imports Prelude
begin

text \<open>
  The contract between a paged log and the client that drains it.  A provider holds rows with
  strictly increasing integer keys and answers "the rows after cursor \<open>c\<close>, and is there more?".
  The locale states the four laws a client relies on; its lemmas show that the client loop that
  follows the last key it received gets every row after its cursor, once, in order, in at most as
  many requests as there are rows.
\<close>

text \<open>
  The client loop: ask for the page after \<open>c\<close>; stop when the provider says there is nothing newer.
  The first argument of the recursion bounds the number of requests.
\<close>

primrec drain :: "(int \<Rightarrow> 'r list \<times> bool) \<Rightarrow> ('r \<Rightarrow> int) \<Rightarrow> nat \<Rightarrow> int \<Rightarrow> 'r list" where
  "drain page key 0 c = []"
| "drain page key (Suc n) c =
     (let (rs, more) = page c in
      rs @ (if more \<and> rs \<noteq> [] then drain page key n (key (last rs)) else []))"

abbreviation rows_after :: "('r \<Rightarrow> int) \<Rightarrow> int \<Rightarrow> 'r list \<Rightarrow> 'r list" where
  "rows_after key c rs \<equiv> filter (\<lambda>r. c < key r) rs"

lemma rows_after_prefix:
  assumes "increasing key rs" and "rows_after key c rs = ps @ qs" and "ps \<noteq> []"
  shows "rows_after key (key (last ps)) rs = qs"
proof -
  have inc: "increasing key (ps @ qs)"
    using assms(1,2) by (metis increasing_filter)
  have c: "c < key (last ps)"
  proof -
    have "last ps \<in> set (rows_after key c rs)"
      using assms(3) by (simp add: assms(2))
    then show ?thesis by simp
  qed
  have "rows_after key (key (last ps)) rs
      = filter (\<lambda>r. key (last ps) < key r) (rows_after key c rs)"
    using c by (auto simp: filter_filter intro!: filter_cong)
  also have "\<dots> = filter (\<lambda>r. key (last ps) < key r) (ps @ qs)"
    by (simp add: assms(2))
  also have "\<dots> = qs"
    using inc assms(3) increasing_le_last [of key ps]
    by (auto simp: increasing_append leD intro!: filter_True filter_False)
  finally show ?thesis .
qed

locale cursor_log =
  fixes ok :: "'s \<Rightarrow> bool"
    and valid :: "'s \<Rightarrow> int \<Rightarrow> bool"
    and rows :: "'s \<Rightarrow> 'r list"
    and key :: "'r \<Rightarrow> int"
    and page :: "'s \<Rightarrow> int \<Rightarrow> 'r list \<times> bool"
  assumes rows_increasing: "ok s \<Longrightarrow> increasing key (rows s)"
    and page_prefix: "ok s \<Longrightarrow> valid s c \<Longrightarrow> prefix (fst (page s c)) (rows_after key c (rows s))"
    and page_progress: "ok s \<Longrightarrow> valid s c \<Longrightarrow> rows_after key c (rows s) \<noteq> [] \<Longrightarrow> fst (page s c) \<noteq> []"
    and page_more: "ok s \<Longrightarrow> valid s c \<Longrightarrow>
      snd (page s c) \<longleftrightarrow> fst (page s c) \<noteq> rows_after key c (rows s)"
    and valid_row: "ok s \<Longrightarrow> valid s c \<Longrightarrow> r \<in> set (rows s) \<Longrightarrow> valid s (key r)"
begin

lemma drain_complete:
  assumes "ok s" and "valid s c" and "length (rows_after key c (rows s)) \<le> n"
  shows "drain (page s) key n c = rows_after key c (rows s)"
  using assms(2,3)
proof (induction n arbitrary: c)
  case 0
  then show ?case by simp
next
  case (Suc n)
  obtain rs more where p: "page s c = (rs, more)" by fastforce
  from page_prefix [OF assms(1) Suc.prems(1)] p obtain qs where
    split: "rows_after key c (rows s) = rs @ qs" by (auto elim: prefixE)
  show ?case
  proof (cases "rs = []")
    case True
    with page_progress [OF assms(1) Suc.prems(1)] p have "rows_after key c (rows s) = []"
      by auto
    with p True show ?thesis by simp
  next
    case False
    let ?c = "key (last rs)"
    have next_rows: "rows_after key ?c (rows s) = qs"
      by (rule rows_after_prefix [OF rows_increasing [OF assms(1)] split False])
    have "last rs \<in> set (rows s)"
      using split False last_in_set [OF False]
      by (metis Un_iff filter_is_subset set_append subsetD)
    then have valid: "valid s ?c" by (rule valid_row [OF assms(1) Suc.prems(1)])
    have len: "length qs \<le> n"
      using Suc.prems(2) split False by (cases rs) auto
    show ?thesis
    proof (cases more)
      case True
      have "drain (page s) key n ?c = qs"
        using Suc.IH [OF valid] len next_rows by simp
      with p True False split show ?thesis by simp
    next
      case False
      with page_more [OF assms(1) Suc.prems(1)] p split show ?thesis by simp
    qed
  qed
qed

text \<open>No row is delivered twice along the loop.\<close>

lemma drain_distinct:
  assumes "ok s" and "valid s c" and "length (rows_after key c (rows s)) \<le> n"
  shows "distinct (drain (page s) key n c)"
  using drain_complete [OF assms] increasing_distinct [OF increasing_filter [OF rows_increasing]]
    assms(1) by simp

end

end
