(* ===== verification/Timeline_Store.thy ===== *)
theory Timeline_Store
  imports Timeline_Items Paging
begin

text \<open>
  \<open>packages/server/src/server/agent/agent-timeline-store.ts\<close>: the daemon's in-memory timeline, one
  append-only list of numbered rows per agent, and the paged \<open>fetch\<close> that clients resume from a
  cursor.  The \<open>states\<close> map of \<open>InMemoryAgentTimelineStore\<close> is only read and written by key, so it
  is a partial map; every method takes and returns it.  A thrown error is an \<open>Inl\<close>.  The clock
  and \<open>randomUUID\<close> are arguments.  \<open>cloneRow\<close> is the identity on values.
\<close>

record timeline_row =
  row_seq :: int
  row_timestamp :: string
  row_item :: timeline_item
  row_turnId :: "string option"
  row_providerMessageId :: "string option"

record timeline_cursor =
  cur_epoch :: string
  cur_seq :: int

datatype fetch_direction = Tail | Before | After

record fetch_options =
  fo_direction :: "fetch_direction option"
  fo_cursor :: "timeline_cursor option"
  fo_limit :: "rat option"

record timeline_window =
  win_minSeq :: int
  win_maxSeq :: int
  win_nextSeq :: int

record fetch_result =
  fr_epoch :: string
  fr_direction :: fetch_direction
  fr_reset :: bool
  fr_staleCursor :: bool
  fr_gap :: bool
  fr_window :: timeline_window
  fr_hasOlder :: bool
  fr_hasNewer :: bool
  fr_rows :: "timeline_row list"

record seed_options =
  so_items :: "timeline_item list option"
  so_rows :: "timeline_row list option"
  so_epoch :: "string option"
  so_nextSeq :: "int option"
  so_timestamp :: "string option"

record timeline_state =
  ts_epoch :: string
  ts_rows :: "timeline_row list"
  ts_nextSeq :: int

type_synonym timeline_store = "string \<rightharpoonup> timeline_state"

datatype store_error = UnknownAgent string | TypeError

definition DEFAULT_TIMELINE_FETCH_LIMIT :: nat where
  "DEFAULT_TIMELINE_FETCH_LIMIT = 200"

definition requireState :: "timeline_store \<Rightarrow> string \<Rightarrow> store_error + timeline_state" where
  "requireState st a = (case st a of None \<Rightarrow> Inl (UnknownAgent a) | Some s \<Rightarrow> Inr s)"

section \<open>The fetch strategies\<close>

record fetch_context =
  fc_state :: timeline_state
  fc_direction :: fetch_direction
  fc_limit :: nat
  fc_selectAll :: bool
  fc_cursor :: "timeline_cursor option"
  fc_minSeq :: int
  fc_maxSeq :: int
  fc_window :: timeline_window

definition older_than :: "int \<Rightarrow> timeline_row list \<Rightarrow> bool" where
  "older_than minSeq selected =
     (case selected of [] \<Rightarrow> False | r # _ \<Rightarrow> minSeq < row_seq r)"

text \<open>\<open>selectAll || limit >= rows.length ? rows : rows.slice(rows.length - limit)\<close>.\<close>

definition select_last :: "bool \<Rightarrow> nat \<Rightarrow> 'a list \<Rightarrow> 'a list" where
  "select_last selectAll limit rows =
     (if selectAll \<or> length rows \<le> limit then rows else take_last limit rows)"

definition fetchTail :: "fetch_context \<Rightarrow> fetch_result" where
  "fetchTail ctx =
     (let rows = ts_rows (fc_state ctx);
          selected = select_last (fc_selectAll ctx) (fc_limit ctx) rows
      in \<lparr>fr_epoch = ts_epoch (fc_state ctx), fr_direction = fc_direction ctx, fr_reset = False,
          fr_staleCursor = False, fr_gap = False, fr_window = fc_window ctx,
          fr_hasOlder = older_than (fc_minSeq ctx) selected, fr_hasNewer = False,
          fr_rows = selected\<rparr>)"

text \<open>\<open>cursor?.seq ?? 0\<close>.\<close>

definition base_seq :: "timeline_cursor option \<Rightarrow> int" where
  "base_seq c = (case c of Some k \<Rightarrow> cur_seq k | None \<Rightarrow> 0)"

text \<open>\<open>selected[0].seq\<close> of an empty selection would raise a \<open>TypeError\<close>.\<close>

definition fetchAfter :: "fetch_context \<Rightarrow> store_error + fetch_result" where
  "fetchAfter ctx =
     (let rows = ts_rows (fc_state ctx);
          baseSeq = base_seq (fc_cursor ctx)
      in case find_index (\<lambda>row. baseSeq < row_seq row) rows of
           None \<Rightarrow> Inr
             \<lparr>fr_epoch = ts_epoch (fc_state ctx), fr_direction = fc_direction ctx, fr_reset = False,
              fr_staleCursor = False, fr_gap = False, fr_window = fc_window ctx,
              fr_hasOlder = fc_minSeq ctx \<le> baseSeq, fr_hasNewer = False, fr_rows = []\<rparr>
         | Some startIdx \<Rightarrow>
             (let selected = (if fc_selectAll ctx then drop startIdx rows
                              else take (fc_limit ctx) (drop startIdx rows))
              in case selected of
                   [] \<Rightarrow> Inl TypeError
                 | r # rs \<Rightarrow> Inr
                     \<lparr>fr_epoch = ts_epoch (fc_state ctx), fr_direction = fc_direction ctx,
                      fr_reset = False, fr_staleCursor = False, fr_gap = False,
                      fr_window = fc_window ctx, fr_hasOlder = fc_minSeq ctx < row_seq r,
                      fr_hasNewer = row_seq (last selected) < fc_maxSeq ctx,
                      fr_rows = selected\<rparr>))"

definition fetchBefore :: "fetch_context \<Rightarrow> fetch_result" where
  "fetchBefore ctx =
     (let rows = ts_rows (fc_state ctx);
          beforeSeq = (case fc_cursor ctx of Some c \<Rightarrow> cur_seq c | None \<Rightarrow> ts_nextSeq (fc_state ctx));
          endExclusive = find_index (\<lambda>row. beforeSeq \<le> row_seq row) rows;
          boundedRows = (case endExclusive of None \<Rightarrow> rows | Some e \<Rightarrow> take e rows);
          selected = select_last (fc_selectAll ctx) (fc_limit ctx) boundedRows
      in \<lparr>fr_epoch = ts_epoch (fc_state ctx), fr_direction = fc_direction ctx, fr_reset = False,
          fr_staleCursor = False, fr_gap = False, fr_window = fc_window ctx,
          fr_hasOlder = older_than (fc_minSeq ctx) selected,
          fr_hasNewer = (endExclusive \<noteq> None), fr_rows = selected\<rparr>)"

definition fetchReset :: "fetch_context \<Rightarrow> bool \<Rightarrow> bool \<Rightarrow> fetch_result" where
  "fetchReset ctx staleCursor gap =
     (let all = ts_rows (fc_state ctx);
          rows = select_last (fc_selectAll ctx) (fc_limit ctx) all
      in \<lparr>fr_epoch = ts_epoch (fc_state ctx), fr_direction = fc_direction ctx, fr_reset = True,
          fr_staleCursor = staleCursor, fr_gap = gap, fr_window = fc_window ctx,
          fr_hasOlder = older_than (fc_minSeq ctx) rows, fr_hasNewer = False, fr_rows = rows\<rparr>)"

text \<open>\<open>Math.max(0, Math.floor(requestedLimit))\<close>; \<open>nat\<close> sends negative integers to 0.\<close>

definition fetch_limit :: "rat option \<Rightarrow> nat" where
  "fetch_limit l = (case l of None \<Rightarrow> DEFAULT_TIMELINE_FETCH_LIMIT | Some q \<Rightarrow> nat \<lfloor>q\<rfloor>)"

definition min_seq :: "timeline_row list \<Rightarrow> int" where
  "min_seq rows = (case rows of [] \<Rightarrow> 0 | r # _ \<Rightarrow> row_seq r)"

definition max_seq :: "timeline_row list \<Rightarrow> int" where
  "max_seq rows = (case rows of [] \<Rightarrow> 0 | _ # _ \<Rightarrow> row_seq (last rows))"

definition fetch_context_of :: "timeline_state \<Rightarrow> fetch_options \<Rightarrow> fetch_context" where
  "fetch_context_of s opts =
     (let limit = fetch_limit (fo_limit opts)
      in \<lparr>fc_state = s, fc_direction = default Tail (fo_direction opts), fc_limit = limit,
          fc_selectAll = (limit = 0), fc_cursor = fo_cursor opts,
          fc_minSeq = min_seq (ts_rows s), fc_maxSeq = max_seq (ts_rows s),
          fc_window = \<lparr>win_minSeq = min_seq (ts_rows s), win_maxSeq = max_seq (ts_rows s),
                       win_nextSeq = ts_nextSeq s\<rparr>\<rparr>)"

definition stale_cursor :: "timeline_state \<Rightarrow> timeline_cursor option \<Rightarrow> bool" where
  "stale_cursor s c = (case c of None \<Rightarrow> False | Some k \<Rightarrow> cur_epoch k \<noteq> ts_epoch s)"

definition gap_cursor :: "timeline_state \<Rightarrow> fetch_direction \<Rightarrow> timeline_cursor option \<Rightarrow> bool" where
  "gap_cursor s d c = (case c of None \<Rightarrow> False
     | Some k \<Rightarrow> d = After \<and> ts_rows s \<noteq> [] \<and> cur_seq k < min_seq (ts_rows s) - 1)"

definition fetch :: "timeline_store \<Rightarrow> string \<Rightarrow> fetch_options \<Rightarrow> store_error + fetch_result" where
  "fetch st agentId opts =
     (case requireState st agentId of
        Inl e \<Rightarrow> Inl e
      | Inr s \<Rightarrow>
          (let ctx = fetch_context_of s opts in
           if stale_cursor s (fo_cursor opts) then Inr (fetchReset ctx True False)
           else if gap_cursor s (fc_direction ctx) (fo_cursor opts)
             then Inr (fetchReset ctx False True)
           else if ts_rows s = [] then Inr
             \<lparr>fr_epoch = ts_epoch s, fr_direction = fc_direction ctx, fr_reset = False,
              fr_staleCursor = False, fr_gap = False, fr_window = fc_window ctx,
              fr_hasOlder = False, fr_hasNewer = False, fr_rows = []\<rparr>
           else case fc_direction ctx of
                  Tail \<Rightarrow> Inr (fetchTail ctx)
                | After \<Rightarrow> fetchAfter ctx
                | Before \<Rightarrow> Inr (fetchBefore ctx)))"

section \<open>The other operations\<close>

definition has_agent :: "timeline_store \<Rightarrow> string \<Rightarrow> bool" where
  "has_agent st a \<longleftrightarrow> st a \<noteq> None"

primrec buildRowsFromItems :: "timeline_item list \<Rightarrow> int \<Rightarrow> string \<Rightarrow> timeline_row list" where
  "buildRowsFromItems [] nextSeq timestamp = []"
| "buildRowsFromItems (i # its) nextSeq timestamp =
     \<lparr>row_seq = nextSeq, row_timestamp = timestamp, row_item = i,
      row_turnId = None, row_providerMessageId = None\<rparr>
     # buildRowsFromItems its (nextSeq + 1) timestamp"

definition empty_seed :: seed_options where
  "empty_seed = \<lparr>so_items = None, so_rows = None, so_epoch = None, so_nextSeq = None,
                 so_timestamp = None\<rparr>"

definition seed_rows :: "seed_options \<Rightarrow> string \<Rightarrow> timeline_row list" where
  "seed_rows opts now =
     (let timestamp = default now (so_timestamp opts) in
      case so_rows opts of
        Some (r # rs) \<Rightarrow> r # rs
      | _ \<Rightarrow> buildRowsFromItems (default [] (so_items opts)) (default 1 (so_nextSeq opts)) timestamp)"

definition initialize ::
  "timeline_store \<Rightarrow> string \<Rightarrow> seed_options \<Rightarrow> string \<Rightarrow> string \<Rightarrow> timeline_store" where
  "initialize st agentId opts uuid now =
     (let rows = seed_rows opts now;
          nextSeq = default (if rows = [] then 1 else row_seq (last rows) + 1) (so_nextSeq opts)
      in st(agentId \<mapsto> \<lparr>ts_epoch = default uuid (so_epoch opts), ts_rows = rows,
                        ts_nextSeq = nextSeq\<rparr>))"

definition delete_agent :: "timeline_store \<Rightarrow> string \<Rightarrow> timeline_store" where
  "delete_agent st a = st(a := None)"

definition getItems :: "timeline_store \<Rightarrow> string \<Rightarrow> store_error + timeline_item list" where
  "getItems st a = (case requireState st a of Inl e \<Rightarrow> Inl e
     | Inr s \<Rightarrow> Inr (map row_item (ts_rows s)))"

definition getRows :: "timeline_store \<Rightarrow> string \<Rightarrow> store_error + timeline_row list" where
  "getRows st a = (case requireState st a of Inl e \<Rightarrow> Inl e | Inr s \<Rightarrow> Inr (ts_rows s))"

definition is_submitted :: "string \<Rightarrow> timeline_row \<Rightarrow> bool" where
  "is_submitted clientMessageId row = (case row_item row of
     UserMessage _ _ c \<Rightarrow> c = Some clientMessageId | _ \<Rightarrow> False)"

definition getSubmittedUserMessage ::
  "timeline_store \<Rightarrow> string \<Rightarrow> string \<Rightarrow> store_error + timeline_row option" where
  "getSubmittedUserMessage st a c = (case requireState st a of Inl e \<Rightarrow> Inl e
     | Inr s \<Rightarrow> Inr (find (is_submitted c) (ts_rows s)))"

definition enrichSubmittedUserMessage ::
  "timeline_store \<Rightarrow> string \<Rightarrow> string \<Rightarrow> string \<Rightarrow>
     store_error + (timeline_row option \<times> timeline_store)" where
  "enrichSubmittedUserMessage st a clientMessageId providerMessageId =
     (case requireState st a of
        Inl e \<Rightarrow> Inl e
      | Inr s \<Rightarrow>
          (case find_index (is_submitted clientMessageId) (ts_rows s) of
             None \<Rightarrow> Inr (None, st)
           | Some i \<Rightarrow>
               (let enriched = (ts_rows s ! i)\<lparr>row_providerMessageId := Some providerMessageId\<rparr>
                in Inr (Some enriched,
                        st(a \<mapsto> s\<lparr>ts_rows := (ts_rows s)[i := enriched]\<rparr>)))))"

definition getEpoch :: "timeline_store \<Rightarrow> string \<Rightarrow> store_error + string" where
  "getEpoch st a = (case requireState st a of Inl e \<Rightarrow> Inl e | Inr s \<Rightarrow> Inr (ts_epoch s))"

record append_options =
  ao_timestamp :: "string option"
  ao_providerMessageId :: "string option"
  ao_turnId :: "string option"

definition append_row ::
  "timeline_store \<Rightarrow> string \<Rightarrow> timeline_item \<Rightarrow> append_options \<Rightarrow> string \<Rightarrow>
     store_error + (timeline_row \<times> timeline_store)" where
  "append_row st a item opts now =
     (case requireState st a of
        Inl e \<Rightarrow> Inl e
      | Inr s \<Rightarrow>
          (let row = \<lparr>row_seq = ts_nextSeq s, row_timestamp = default now (ao_timestamp opts),
                      row_item = item, row_turnId = truthy (ao_turnId opts),
                      row_providerMessageId = truthy (ao_providerMessageId opts)\<rparr>
           in Inr (row, st(a \<mapsto> s\<lparr>ts_nextSeq := ts_nextSeq s + 1,
                                  ts_rows := ts_rows s @ [row]\<rparr>))))"

definition getLastItem :: "timeline_store \<Rightarrow> string \<Rightarrow> store_error + timeline_item option" where
  "getLastItem st a = (case requireState st a of Inl e \<Rightarrow> Inl e
     | Inr s \<Rightarrow> Inr (map_option row_item (last_opt (ts_rows s))))"

text \<open>
  The backward scan of \<open>getLastAssistantMessage\<close> over the reversed rows: \<open>chunks\<close> grows at its
  end while the scan walks backwards, skips other items before the first chunk and stops at the
  first other item after it.
\<close>

fun scan_assistant :: "timeline_row list \<Rightarrow> string list \<Rightarrow> string list" where
  "scan_assistant [] chunks = chunks"
| "scan_assistant (row # rows) chunks =
     (case row_item row of
        AssistantMessage text _ \<Rightarrow> scan_assistant rows (chunks @ [text])
      | _ \<Rightarrow> (if chunks \<noteq> [] then chunks else scan_assistant rows chunks))"

definition getLastAssistantMessage :: "timeline_store \<Rightarrow> string \<Rightarrow> store_error + string option" where
  "getLastAssistantMessage st a =
     (case requireState st a of Inl e \<Rightarrow> Inl e
      | Inr s \<Rightarrow>
          (let chunks = scan_assistant (rev (ts_rows s)) [] in
           Inr (if chunks = [] then None else Some (concat (rev chunks)))))"

section \<open>Well-formed timelines\<close>

text \<open>The rows of an agent carry consecutive sequence numbers ending just below \<open>nextSeq\<close>.\<close>

definition consecutive_from :: "int \<Rightarrow> timeline_row list \<Rightarrow> bool" where
  "consecutive_from n rows \<longleftrightarrow> (\<forall>i<length rows. row_seq (rows ! i) = n + int i)"

definition state_ok :: "timeline_state \<Rightarrow> bool" where
  "state_ok s \<longleftrightarrow> consecutive_from (ts_nextSeq s - int (length (ts_rows s))) (ts_rows s)"

definition store_ok :: "timeline_store \<Rightarrow> bool" where
  "store_ok st \<longleftrightarrow> (\<forall>a s. st a = Some s \<longrightarrow> state_ok s)"

lemma state_ok_nth:
  "state_ok s \<Longrightarrow> i < length (ts_rows s) \<Longrightarrow>
     row_seq (ts_rows s ! i) = ts_nextSeq s - int (length (ts_rows s)) + int i"
  by (simp add: state_ok_def consecutive_from_def)

lemma consecutive_last:
  "consecutive_from n rows \<Longrightarrow> rows \<noteq> [] \<Longrightarrow> row_seq (last rows) = n + int (length rows) - 1"
  by (simp add: consecutive_from_def last_conv_nth of_nat_diff Suc_leI)

lemma increasing_nthI:
  assumes "\<And>i j. i < j \<Longrightarrow> j < length xs \<Longrightarrow> f (xs ! i) < f (xs ! j)"
  shows "increasing f xs"
  using assms by (simp add: increasing_def sorted_wrt_iff_nth_less)

lemma state_ok_increasing: "state_ok s \<Longrightarrow> increasing row_seq (ts_rows s)"
  by (rule increasing_nthI) (simp add: state_ok_nth)

lemma state_ok_bounds:
  assumes "state_ok s" and "r \<in> set (ts_rows s)"
  shows "min_seq (ts_rows s) \<le> row_seq r" and "row_seq r \<le> max_seq (ts_rows s)"
    and "row_seq r < ts_nextSeq s"
proof -
  note inc = state_ok_increasing [OF assms(1)]
  show "min_seq (ts_rows s) \<le> row_seq r"
    using increasing_hd_le [OF inc assms(2)] assms(2) by (cases "ts_rows s") (auto simp: min_seq_def)
  show "row_seq r \<le> max_seq (ts_rows s)"
    using increasing_le_last [OF inc assms(2)] assms(2) by (cases "ts_rows s") (auto simp: max_seq_def)
  from assms show "row_seq r < ts_nextSeq s"
    by (auto simp: in_set_conv_nth state_ok_nth)
qed

lemma length_buildRows [simp]: "length (buildRowsFromItems its n t) = length its"
  by (induction its arbitrary: n) auto

lemma consecutive_buildRows: "consecutive_from n (buildRowsFromItems its n t)"
proof (induction its arbitrary: n)
  case (Cons x its)
  from Cons [of "n + 1"] show ?case
    by (auto simp: consecutive_from_def nth_Cons split: nat.split)
qed (simp add: consecutive_from_def)

lemma items_of_buildRows [simp]: "map row_item (buildRowsFromItems its n t) = its"
  by (induction its arbitrary: n) auto

text \<open>
  The seeds the callers pass: no rows and no \<open>nextSeq\<close> with items, or consecutive rows whose
  \<open>nextSeq\<close>, when given, follows the last of them.
\<close>

definition seed_ok :: "seed_options \<Rightarrow> bool" where
  "seed_ok opts \<longleftrightarrow> (case so_rows opts of
      Some (r # rs) \<Rightarrow> consecutive_from (row_seq r) (r # rs) \<and>
        (\<forall>n\<in>set_option (so_nextSeq opts). n = row_seq r + int (length (r # rs)))
    | _ \<Rightarrow> default [] (so_items opts) = [] \<or> so_nextSeq opts = None)"

lemma state_okI:
  "consecutive_from n (ts_rows s) \<Longrightarrow>
     (ts_rows s \<noteq> [] \<Longrightarrow> ts_nextSeq s = n + int (length (ts_rows s))) \<Longrightarrow> state_ok s"
  by (cases "ts_rows s") (auto simp: state_ok_def consecutive_from_def)

lemma initialize_state_ok:
  assumes "seed_ok opts" and "initialize st a opts uuid now a = Some s"
  shows "state_ok s"
proof -
  let ?rows = "seed_rows opts now"
  have s: "ts_rows s = ?rows" "ts_nextSeq s =
      default (if ?rows = [] then 1 else row_seq (last ?rows) + 1) (so_nextSeq opts)"
    using assms(2) by (auto simp: initialize_def Let_def)
  show ?thesis
  proof (cases "default [] (so_rows opts)")
    case Nil
    then have rows: "?rows = buildRowsFromItems (default [] (so_items opts))
        (default 1 (so_nextSeq opts)) (default now (so_timestamp opts))"
      by (cases "so_rows opts") (simp_all add: seed_rows_def)
    have cons: "consecutive_from (default 1 (so_nextSeq opts)) ?rows"
      unfolding rows by (rule consecutive_buildRows)
    moreover have "so_nextSeq opts = None" if "?rows \<noteq> []"
      using that rows Nil assms(1) by (cases "so_rows opts") (auto simp: seed_ok_def)
    ultimately show ?thesis
      by (intro state_okI [of "default 1 (so_nextSeq opts)"]) (auto simp: s consecutive_last)
  next
    case (Cons r rs)
    then have so: "so_rows opts = Some (r # rs)" by (cases "so_rows opts") auto
    then have rows: "?rows = r # rs" by (simp add: seed_rows_def)
    from assms(1) so have ok: "consecutive_from (row_seq r) (r # rs)"
      "\<forall>n\<in>set_option (so_nextSeq opts). n = row_seq r + int (length (r # rs))"
      by (simp_all add: seed_ok_def)
    have "ts_nextSeq s = row_seq r + int (length (r # rs))"
      using s(2) ok(2) consecutive_last [OF ok(1)] unfolding rows
      by (cases "so_nextSeq opts") simp_all
    with ok(1) show ?thesis by (intro state_okI) (simp_all only: s rows)
  qed
qed

lemma append_row_spec:
  assumes "st a = Some s"
  shows "\<exists>row st'. append_row st a item opts now = Inr (row, st') \<and>
     row_seq row = ts_nextSeq s \<and> row_item row = item \<and>
     st' = st(a \<mapsto> s\<lparr>ts_nextSeq := ts_nextSeq s + 1, ts_rows := ts_rows s @ [row]\<rparr>)"
  using assms by (simp add: append_row_def requireState_def Let_def)

lemma append_state_ok:
  assumes "state_ok s" and "row_seq row = ts_nextSeq s"
  shows "state_ok (s\<lparr>ts_nextSeq := ts_nextSeq s + 1, ts_rows := ts_rows s @ [row]\<rparr>)"
  using assms by (auto simp: state_ok_def consecutive_from_def nth_append less_Suc_eq)

lemma enrich_state_ok:
  assumes "state_ok s"
  shows "state_ok (s\<lparr>ts_rows := (ts_rows s)[i := (ts_rows s ! i)\<lparr>row_providerMessageId := m\<rparr>]\<rparr>)"
proof -
  have "row_seq ((ts_rows s)[i := (ts_rows s ! i)\<lparr>row_providerMessageId := m\<rparr>] ! j)
      = row_seq (ts_rows s ! j)" if "j < length (ts_rows s)" for j
    using that by (cases "i = j") simp_all
  with assms show ?thesis by (simp add: state_ok_def consecutive_from_def)
qed

section \<open>The operations as steps\<close>

inductive store_step :: "timeline_store \<Rightarrow> timeline_store \<Rightarrow> bool" where
  step_initialize: "seed_ok opts \<Longrightarrow> store_step st (initialize st a opts uuid now)"
| step_append: "append_row st a item opts now = Inr (row, st') \<Longrightarrow> store_step st st'"
| step_enrich: "enrichSubmittedUserMessage st a c p = Inr (res, st') \<Longrightarrow> store_step st st'"
| step_delete: "store_step st (delete_agent st a)"

inductive store_reachable :: "timeline_store \<Rightarrow> bool" where
  store_start: "store_reachable Map.empty"
| store_next: "store_reachable st \<Longrightarrow> store_step st st' \<Longrightarrow> store_reachable st'"

lemma store_ok_update: "store_ok st \<Longrightarrow> state_ok s \<Longrightarrow> store_ok (st(a \<mapsto> s))"
  by (simp add: store_ok_def)

lemma store_step_ok: "store_step st st' \<Longrightarrow> store_ok st \<Longrightarrow> store_ok st'"
proof (induction rule: store_step.induct)
  case (step_initialize opts st a uuid now)
  then show ?case
    using initialize_state_ok [OF step_initialize(1), of st a uuid now]
    by (auto simp: store_ok_def initialize_def Let_def)
next
  case (step_append st a item opts now row st')
  then obtain s where s: "st a = Some s"
    by (cases "st a") (auto simp: append_row_def requireState_def)
  obtain row' where row': "row_seq row' = ts_nextSeq s"
    and st': "st' = st(a \<mapsto> s\<lparr>ts_nextSeq := ts_nextSeq s + 1, ts_rows := ts_rows s @ [row']\<rparr>)"
    using append_row_spec [where a = a and st = st, OF s] step_append(1) by (metis Inr_inject Pair_inject)
  have "state_ok s" using step_append(2) s by (simp add: store_ok_def)
  with row' show ?case
    unfolding st' by (intro store_ok_update [OF step_append(2)] append_state_ok)
next
  case (step_enrich st a c p res st')
  show ?case
  proof (cases "st a")
    case None
    with step_enrich(1) show ?thesis by (simp add: enrichSubmittedUserMessage_def requireState_def)
  next
    case (Some s)
    with step_enrich(2) have "state_ok s" by (simp add: store_ok_def)
    then show ?thesis
      using step_enrich Some store_ok_update [OF step_enrich(2) enrich_state_ok]
      by (auto simp: enrichSubmittedUserMessage_def requireState_def Let_def split: option.splits)
  qed
next
  case (step_delete st a)
  then show ?case by (auto simp: store_ok_def delete_agent_def)
qed

lemma store_reachable_ok: "store_reachable st \<Longrightarrow> store_ok st"
  by (induction rule: store_reachable.induct)
    (simp add: store_ok_def, blast intro: store_step_ok)

text \<open>
  C4: in every store reachable from the empty one through initialize (with the seeds the daemon
  uses), append, enrich and delete, each agent's rows carry consecutive sequence numbers that end
  just below the next number to be handed out, so no number is ever reused or skipped.
\<close>

theorem reachable_store_consecutive:
  assumes "store_reachable st" and "st a = Some s" and "i < length (ts_rows s)"
  shows "row_seq (ts_rows s ! i) = ts_nextSeq s - int (length (ts_rows s)) + int i"
  using store_reachable_ok [OF assms(1)] assms(2,3) by (simp add: store_ok_def state_ok_nth)

section \<open>What fetch returns\<close>

definition page_of :: "nat \<Rightarrow> 'a list \<Rightarrow> 'a list" where
  "page_of n xs = (if n = 0 then xs else take n xs)"

definition last_page_of :: "nat \<Rightarrow> 'a list \<Rightarrow> 'a list" where
  "last_page_of n xs = (if n = 0 then xs else take_last n xs)"

lemma page_of_prefix: "prefix (page_of n xs) xs"
  by (simp add: page_of_def take_is_prefix)

lemma page_of_Nil [simp]: "page_of n xs = [] \<longleftrightarrow> xs = []"
  by (auto simp: page_of_def)

lemma last_page_of_suffix: "suffix (last_page_of n xs) xs"
  by (simp add: last_page_of_def take_last_suffix)

lemma last_page_of_Nil [simp]: "last_page_of n xs = [] \<longleftrightarrow> xs = []"
  by (cases xs) (auto simp: last_page_of_def take_last_def)

lemma select_last_page [simp]: "select_last (n = 0) n xs = last_page_of n xs"
  by (auto simp: select_last_def last_page_of_def take_last_all)

lemma max_seq_last: "rows \<noteq> [] \<Longrightarrow> max_seq rows = row_seq (last rows)"
  by (cases rows) (simp_all add: max_seq_def)

lemma min_seq_hd: "rows \<noteq> [] \<Longrightarrow> min_seq rows = row_seq (hd rows)"
  by (cases rows) (simp_all add: min_seq_def)

lemma rows_from_index:
  assumes "increasing row_seq rows" and "find_index (\<lambda>r. c < row_seq r) rows = Some i"
  shows "drop i rows = rows_after row_seq c rows"
  using find_index_drop [OF assms(2)] increasing_dropWhile_filter [OF assms(1), of c] by simp

lemma last_lt_max_iff:
  assumes "increasing row_seq rows" and "ps \<noteq> []" and "suffix (ps @ qs) rows"
  shows "row_seq (last ps) < max_seq rows \<longleftrightarrow> qs \<noteq> []"
proof -
  from assms(3) obtain pre where rows: "rows = pre @ ps @ qs" by (auto elim: suffixE)
  then have max: "max_seq rows = row_seq (last (ps @ qs))"
    using assms(2) by (simp add: max_seq_last)
  show ?thesis
  proof (cases "qs = []")
    case True
    with max show ?thesis by simp
  next
    case False
    with assms(1,2) rows max show ?thesis by (simp add: increasing_append)
  qed
qed

lemma fetchAfter_spec:
  fixes s opts
  defines "ctx \<equiv> fetch_context_of s opts"
    and "newer \<equiv> rows_after row_seq (base_seq (fo_cursor opts)) (ts_rows s)"
  assumes "state_ok s"
  shows "\<exists>r. fetchAfter ctx = Inr r \<and> fr_rows r = page_of (fetch_limit (fo_limit opts)) newer \<and>
     fr_hasNewer r = (fr_rows r \<noteq> newer) \<and> \<not> fr_reset r \<and> fr_epoch r = ts_epoch s"
proof -
  let ?n = "fetch_limit (fo_limit opts)" and ?c = "base_seq (fo_cursor opts)"
  note inc = state_ok_increasing [OF assms(3)]
  have ctx: "fc_state ctx = s" "fc_selectAll ctx = (?n = 0)" "fc_limit ctx = ?n"
    "fc_cursor ctx = fo_cursor opts" "fc_maxSeq ctx = max_seq (ts_rows s)"
    by (simp_all add: ctx_def fetch_context_of_def Let_def)
  show ?thesis
  proof (cases "find_index (\<lambda>r. ?c < row_seq r) (ts_rows s)")
    case None
    then have "newer = []" by (auto simp: newer_def find_index_None filter_empty_conv)
    with None show ?thesis
      by (simp add: fetchAfter_def ctx Let_def page_of_def)
  next
    case (Some i)
    have rows: "drop i (ts_rows s) = newer"
      unfolding newer_def by (rule rows_from_index [OF inc Some])
    let ?sel = "page_of ?n newer"
    have "newer \<noteq> []" using find_index_Some [OF Some] rows by auto
    then have sel: "?sel \<noteq> []" by simp
    have "suffix (?sel @ drop (length ?sel) newer) (ts_rows s)"
      by (metis append_eq_conv_conj page_of_prefix prefix_def rows suffix_drop)
    from last_lt_max_iff [OF inc sel this]
    have more: "row_seq (last ?sel) < max_seq (ts_rows s) \<longleftrightarrow> ?sel \<noteq> newer"
      by (metis append_eq_conv_conj append_self_conv page_of_prefix prefix_def)
    have "(if fc_selectAll ctx then drop i (ts_rows s)
        else take (fc_limit ctx) (drop i (ts_rows s))) = ?sel"
      by (simp add: rows page_of_def ctx)
    moreover obtain r rs where "?sel = r # rs" using sel by (cases ?sel) auto
    ultimately show ?thesis
      using Some more by (simp add: fetchAfter_def ctx Let_def)
  qed
qed

lemma fetch_After:
  assumes "st a = Some s" and "state_ok s" and "fo_direction opts = Some After"
    and "fo_cursor opts = Some \<lparr>cur_epoch = ts_epoch s, cur_seq = c\<rparr>"
    and "ts_rows s = [] \<or> min_seq (ts_rows s) - 1 \<le> c"
  shows "\<exists>r. fetch st a opts = Inr r \<and>
     fr_rows r = page_of (fetch_limit (fo_limit opts)) (rows_after row_seq c (ts_rows s)) \<and>
     fr_hasNewer r = (fr_rows r \<noteq> rows_after row_seq c (ts_rows s)) \<and> \<not> fr_reset r"
proof -
  have d: "fc_direction (fetch_context_of s opts) = After"
    by (simp add: fetch_context_of_def assms(3) Let_def)
  have ok: "\<not> stale_cursor s (fo_cursor opts)"
    "\<not> gap_cursor s After (fo_cursor opts)" "base_seq (fo_cursor opts) = c"
    using assms(4,5) by (auto simp: stale_cursor_def gap_cursor_def base_seq_def)
  show ?thesis
  proof (cases "ts_rows s = []")
    case True
    with assms(1) ok d show ?thesis
      by (simp add: fetch_def requireState_def Let_def page_of_def)
  next
    case False
    with assms(1) ok d fetchAfter_spec [OF assms(2), of opts] show ?thesis
      by (auto simp: fetch_def requireState_def Let_def)
  qed
qed

text \<open>
  Resuming from a cursor of the current epoch that is not below the retained window loses
  nothing: \<open>fetch\<close> answers, without a reset, with exactly the first \<open>limit\<close> rows newer than the
  cursor (all of them for limit 0), and \<open>hasNewer\<close> says whether any newer row was left out.
\<close>

lemma fetch_after_exact:
  assumes "store_reachable st" and "st a = Some s"
    and "fo_direction opts = Some After"
    and "fo_cursor opts = Some \<lparr>cur_epoch = ts_epoch s, cur_seq = c\<rparr>"
    and "ts_rows s = [] \<or> min_seq (ts_rows s) - 1 \<le> c"
  shows "\<exists>r. fetch st a opts = Inr r \<and> \<not> fr_reset r \<and>
     fr_rows r = page_of (fetch_limit (fo_limit opts)) (filter (\<lambda>row. c < row_seq row) (ts_rows s)) \<and>
     fr_hasNewer r = (fr_rows r \<noteq> filter (\<lambda>row. c < row_seq row) (ts_rows s))"
proof -
  have "state_ok s" using store_reachable_ok [OF assms(1)] assms(2) by (simp add: store_ok_def)
  with assms(2) show ?thesis using assms(3-5) fetch_After by blast
qed

section \<open>Draining a timeline\<close>

text \<open>
  The paging contract of \<open>Paging\<close>, provided by \<open>fetch\<close>: the provider state is a store, an agent and
  a page limit, the page after \<open>c\<close> is the answer to a fetch with direction \<open>after\<close>.
\<close>

definition after_options :: "string \<Rightarrow> int \<Rightarrow> rat option \<Rightarrow> fetch_options" where
  "after_options epoch c limit =
     \<lparr>fo_direction = Some After, fo_cursor = Some \<lparr>cur_epoch = epoch, cur_seq = c\<rparr>,
      fo_limit = limit\<rparr>"

type_synonym fetch_session = "timeline_store \<times> string \<times> rat option"

definition session_rows :: "fetch_session \<Rightarrow> timeline_row list" where
  "session_rows = (\<lambda>(st, a, limit). case st a of Some s \<Rightarrow> ts_rows s | None \<Rightarrow> [])"

definition fetch_page :: "fetch_session \<Rightarrow> int \<Rightarrow> timeline_row list \<times> bool" where
  "fetch_page = (\<lambda>(st, a, limit) c. case st a of
      None \<Rightarrow> ([], False)
    | Some s \<Rightarrow> (case fetch st a (after_options (ts_epoch s) c limit) of
        Inl _ \<Rightarrow> ([], False)
      | Inr r \<Rightarrow> (fr_rows r, fr_hasNewer r)))"

definition session_ok :: "fetch_session \<Rightarrow> bool" where
  "session_ok = (\<lambda>(st, a, limit). store_ok st)"

definition session_valid :: "fetch_session \<Rightarrow> int \<Rightarrow> bool" where
  "session_valid ss c \<longleftrightarrow> session_rows ss = [] \<or> min_seq (session_rows ss) - 1 \<le> c"

lemma fetch_page_spec:
  assumes "session_ok ss" and "session_valid ss c"
  shows "\<exists>n. fetch_page ss c = (page_of n (rows_after row_seq c (session_rows ss)),
     page_of n (rows_after row_seq c (session_rows ss)) \<noteq> rows_after row_seq c (session_rows ss))"
proof -
  obtain st a limit where ss: "ss = (st, a, limit)" by (cases ss)
  show ?thesis
  proof (cases "st a")
    case None
    with ss show ?thesis by (simp add: fetch_page_def session_rows_def page_of_def)
  next
    case (Some s)
    with assms ss have "state_ok s" "ts_rows s = [] \<or> min_seq (ts_rows s) - 1 \<le> c"
      by (auto simp: session_ok_def store_ok_def session_valid_def session_rows_def)
    with fetch_After [where st = st and a = a and opts = "after_options (ts_epoch s) c limit"
          and c = c, OF Some]
    show ?thesis
      by (auto simp: ss fetch_page_def session_rows_def Some after_options_def)
  qed
qed

lemma session_increasing: "session_ok ss \<Longrightarrow> increasing row_seq (session_rows ss)"
  by (auto simp: session_ok_def session_rows_def store_ok_def state_ok_increasing
      split: prod.splits option.splits)

interpretation timeline_log: cursor_log session_ok session_valid session_rows row_seq fetch_page
proof (unfold_locales, goal_cases)
  case (1 ss)
  then show ?case by (rule session_increasing)
next
  case (2 ss c)
  with fetch_page_spec [OF 2] show ?case by (auto simp: page_of_prefix)
next
  case (3 ss c)
  with fetch_page_spec [OF 3(1,2)] show ?case by auto
next
  case (4 ss c)
  with fetch_page_spec [OF 4] show ?case by auto
next
  case (5 ss c r)
  then have "min_seq (session_rows ss) \<le> row_seq r"
    using increasing_hd_le [OF session_increasing [OF 5(1)] 5(3)]
    by (cases "session_rows ss") (auto simp: min_seq_hd)
  then show ?case by (simp add: session_valid_def)
qed

text \<open>
  C5: a client that starts from any cursor not below the retained window and keeps asking for the
  rows after the last one it received, until \<open>hasNewer\<close> is false, ends with exactly the rows
  newer than its cursor, in order and without duplicates, whatever the page limit, in at most as
  many requests as there are such rows.
\<close>

theorem timeline_drain_complete:
  assumes "store_reachable st" and "st a = Some s"
    and "ts_rows s = [] \<or> min_seq (ts_rows s) - 1 \<le> c"
    and "length (filter (\<lambda>row. c < row_seq row) (ts_rows s)) \<le> n"
  shows "drain (fetch_page (st, a, limit)) row_seq n c =
     filter (\<lambda>row. c < row_seq row) (ts_rows s)"
proof -
  have rows: "session_rows (st, a, limit) = ts_rows s" by (simp add: session_rows_def assms(2))
  have "session_ok (st, a, limit)"
    using store_reachable_ok [OF assms(1)] by (simp add: session_ok_def)
  moreover have "session_valid (st, a, limit) c"
    using assms(3) by (simp add: session_valid_def rows)
  ultimately show ?thesis
    using timeline_log.drain_complete [of "(st, a, limit)" c n] assms(4) rows by simp
qed

section \<open>The other directions, resets and errors\<close>

lemma rows_before_index:
  assumes "increasing row_seq rows"
  shows "(case find_index (\<lambda>r. c \<le> row_seq r) rows of None \<Rightarrow> rows | Some e \<Rightarrow> take e rows)
     = filter (\<lambda>r. row_seq r < c) rows"
proof (cases "find_index (\<lambda>r. c \<le> row_seq r) rows")
  case None
  then have "filter (\<lambda>r. row_seq r < c) rows = rows"
    by (auto simp: find_index_None not_le intro!: filter_True)
  with None show ?thesis by simp
next
  case (Some e)
  then show ?thesis
    using find_index_take [OF Some] increasing_takeWhile_filter [OF assms, of c]
    by (simp add: not_le)
qed

lemma older_than_iff:
  assumes "increasing row_seq rows" and "rows \<noteq> []"
  shows "older_than (min_seq rows) ps \<longleftrightarrow>
     ps \<noteq> [] \<and> (\<exists>row\<in>set rows. row_seq row < row_seq (hd ps))"
proof (cases ps)
  case (Cons p ps')
  have "min_seq rows < row_seq p \<longleftrightarrow> (\<exists>row\<in>set rows. row_seq row < row_seq p)"
    using increasing_hd_le [OF assms(1)] assms(2) by (auto simp: min_seq_hd intro: le_less_trans)
  with Cons show ?thesis by (simp add: older_than_def)
qed (simp add: older_than_def)

text \<open>
  scrolling back: fetching with direction \<open>before\<close> a cursor of the current epoch answers with
  the last \<open>limit\<close> rows older than the cursor, \<open>hasOlder\<close> holds exactly when a row older than the
  page exists, and \<open>hasNewer\<close> exactly when some row is at or after the cursor.
\<close>

lemma fetch_before_exact:
  assumes "store_reachable st" and "st a = Some s" and "ts_rows s \<noteq> []"
    and "fo_direction opts = Some Before"
    and "fo_cursor opts = Some \<lparr>cur_epoch = ts_epoch s, cur_seq = c\<rparr>"
  shows "\<exists>r. fetch st a opts = Inr r \<and> \<not> fr_reset r \<and>
     fr_rows r = last_page_of (fetch_limit (fo_limit opts)) (filter (\<lambda>row. row_seq row < c) (ts_rows s)) \<and>
     fr_hasNewer r = (\<exists>row\<in>set (ts_rows s). c \<le> row_seq row) \<and>
     fr_hasOlder r = (fr_rows r \<noteq> [] \<and> (\<exists>row\<in>set (ts_rows s). row_seq row < row_seq (hd (fr_rows r))))"
proof -
  let ?n = "fetch_limit (fo_limit opts)" and ?ctx = "fetch_context_of s opts"
  let ?old = "filter (\<lambda>row. row_seq row < c) (ts_rows s)"
  have "state_ok s" using store_reachable_ok [OF assms(1)] assms(2) by (simp add: store_ok_def)
  note inc = state_ok_increasing [OF this]
  have ctx: "fc_state ?ctx = s" "fc_selectAll ?ctx = (?n = 0)" "fc_limit ?ctx = ?n"
    "fc_cursor ?ctx = Some \<lparr>cur_epoch = ts_epoch s, cur_seq = c\<rparr>" "fc_direction ?ctx = Before"
    "fc_minSeq ?ctx = min_seq (ts_rows s)"
    by (simp_all add: fetch_context_of_def Let_def assms(4,5))
  have f: "fetch st a opts = Inr (fetchBefore ?ctx)"
    using assms(2,3,5) ctx(5)
    by (simp add: fetch_def requireState_def Let_def stale_cursor_def gap_cursor_def)
  have rows: "fr_rows (fetchBefore ?ctx) = last_page_of ?n ?old"
    using rows_before_index [OF inc, of c]
    by (simp add: fetchBefore_def ctx Let_def split: option.splits)
  have newer: "fr_hasNewer (fetchBefore ?ctx) = (\<exists>row\<in>set (ts_rows s). c \<le> row_seq row)"
    by (simp add: fetchBefore_def ctx Let_def find_index_None del: not_None_eq)
  have older: "fr_hasOlder (fetchBefore ?ctx) = older_than (min_seq (ts_rows s)) (last_page_of ?n ?old)"
    using rows_before_index [OF inc, of c]
    by (simp add: fetchBefore_def ctx Let_def split: option.splits)
  note older_than_iff [OF inc assms(3), of "last_page_of ?n ?old"]
  with f rows newer older show ?thesis by (simp add: fetchBefore_def Let_def)
qed

text \<open>
  \<open>fetch\<close> raises only for an agent the store does not know, and for a known agent it answers
  with a reset exactly when the cursor belongs to another epoch or, for direction \<open>after\<close>, when
  rows between the cursor and the retained window are gone; a reset restarts from the newest rows.
\<close>

lemma fetch_total_and_reset:
  assumes "store_reachable st"
  shows "(case st a of
      None \<Rightarrow> fetch st a opts = Inl (UnknownAgent a)
    | Some s \<Rightarrow> \<exists>r. fetch st a opts = Inr r \<and> fr_epoch r = ts_epoch s \<and>
        fr_reset r = (stale_cursor s (fo_cursor opts) \<or>
                      gap_cursor s (default Tail (fo_direction opts)) (fo_cursor opts)) \<and>
        (fr_reset r \<longrightarrow> fr_rows r = last_page_of (fetch_limit (fo_limit opts)) (ts_rows s) \<and>
                       fr_staleCursor r = stale_cursor s (fo_cursor opts)))"
proof (cases "st a")
  case None
  then show ?thesis by (simp add: fetch_def requireState_def)
next
  case (Some s)
  then have "state_ok s" using store_reachable_ok [OF assms] by (simp add: store_ok_def)
  note spec = fetchAfter_spec [OF this, of opts]
  have ctx: "fc_direction (fetch_context_of s opts) = default Tail (fo_direction opts)"
    "fc_state (fetch_context_of s opts) = s"
    "fc_selectAll (fetch_context_of s opts) = (fetch_limit (fo_limit opts) = 0)"
    "fc_limit (fetch_context_of s opts) = fetch_limit (fo_limit opts)"
    by (simp_all add: fetch_context_of_def Let_def)
  show ?thesis
    using spec by (cases "default Tail (fo_direction opts)")
      (auto simp: Some fetch_def requireState_def Let_def ctx fetchReset_def fetchTail_def
        fetchBefore_def gap_cursor_def split: option.splits)
qed

section \<open>The last assistant message\<close>

definition assistant_text :: "timeline_row \<Rightarrow> string option" where
  "assistant_text row = (case row_item row of AssistantMessage t _ \<Rightarrow> Some t | _ \<Rightarrow> None)"

lemma scan_assistant_Cons:
  "scan_assistant (row # rows) chunks =
     (case assistant_text row of
        Some t \<Rightarrow> scan_assistant rows (chunks @ [t])
      | None \<Rightarrow> (if chunks \<noteq> [] then chunks else scan_assistant rows chunks))"
  by (auto simp: assistant_text_def split: timeline_item.split)

declare scan_assistant.simps(2) [simp del]

lemma scan_skips:
  "\<forall>r\<in>set post. assistant_text r = None \<Longrightarrow> scan_assistant (post @ rows) [] = scan_assistant rows []"
  by (induction post) (auto simp: scan_assistant_Cons)

lemma scan_collects:
  "\<forall>r\<in>set run. assistant_text r \<noteq> None \<Longrightarrow>
     scan_assistant (run @ rows) chunks =
     scan_assistant rows (chunks @ map (the \<circ> assistant_text) run)"
  by (induction run arbitrary: chunks) (auto simp: scan_assistant_Cons)

lemma scan_stops:
  "chunks \<noteq> [] \<Longrightarrow> rows = [] \<or> assistant_text (hd rows) = None \<Longrightarrow>
     scan_assistant rows chunks = chunks"
  by (cases rows) (auto simp: scan_assistant_Cons)

text \<open>
  \<open>getLastAssistantMessage\<close> is the concatenation, in timeline order, of the last maximal run of
  adjacent assistant chunks; rows of other kinds after that run do not hide it.
\<close>

lemma last_assistant_message_spec:
  assumes "st a = Some s" and "ts_rows s = pre @ run @ post" and "run \<noteq> []"
    and "\<forall>r\<in>set run. assistant_text r \<noteq> None" and "\<forall>r\<in>set post. assistant_text r = None"
    and "pre = [] \<or> assistant_text (last pre) = None"
  shows "getLastAssistantMessage st a = Inr (Some (concat (map (the \<circ> assistant_text) run)))"
proof -
  have stop: "rev pre = [] \<or> assistant_text (hd (rev pre)) = None"
    using assms(6) by (simp add: hd_rev)
  have "scan_assistant (rev (ts_rows s)) [] = rev (map (the \<circ> assistant_text) run)"
    using assms(3-5) scan_collects [of "rev run" "rev pre" "[]"] scan_stops [OF _ stop]
    by (simp add: assms(2) scan_skips rev_map)
  with assms(1,3) show ?thesis
    by (simp add: getLastAssistantMessage_def requireState_def Let_def)
qed

section \<open>A seed that reuses sequence numbers\<close>

text \<open>
  seeding a timeline with items and an explicit \<open>nextSeq\<close> numbers the seeded rows from
  \<open>nextSeq\<close> itself and leaves \<open>nextSeq\<close> unchanged, so the first appended row gets the sequence
  number that the first seeded row already has.
\<close>

lemma seed_items_with_nextSeq_reuses:
  assumes "so_rows opts = None" and "so_items opts = Some (i # its)" and "so_nextSeq opts = Some n"
  shows "\<exists>s row st'. initialize st a opts uuid now a = Some s \<and>
     append_row (initialize st a opts uuid now) a item aopts now = Inr (row, st') \<and>
     row_seq row = row_seq (hd (ts_rows s))"
  using assms by (simp add: initialize_def seed_rows_def append_row_def requireState_def Let_def)

section \<open>A concrete store\<close>

definition example_seed :: seed_options where
  "example_seed = empty_seed\<lparr>so_epoch := Some ''e'',
     so_items := Some [AssistantMessage ''a'' None, AssistantMessage ''b'' None, Reasoning ''c'']\<rparr>"

definition example_store :: timeline_store where
  "example_store = initialize Map.empty ''agent'' example_seed ''uuid'' ''t''"

definition example_row :: "int \<Rightarrow> timeline_item \<Rightarrow> timeline_row" where
  "example_row n i = \<lparr>row_seq = n, row_timestamp = ''t'', row_item = i, row_turnId = None,
     row_providerMessageId = None\<rparr>"

definition example_state :: timeline_state where
  "example_state = \<lparr>ts_epoch = ''e'', ts_rows =
     [example_row 1 (AssistantMessage ''a'' None), example_row 2 (AssistantMessage ''b'' None),
      example_row 3 (Reasoning ''c'')], ts_nextSeq = 4\<rparr>"

lemma example_lookup: "example_store ''agent'' = Some example_state"
  by (simp add: example_store_def initialize_def seed_rows_def example_seed_def empty_seed_def
      example_state_def example_row_def Let_def)

lemma example_reachable: "store_reachable example_store"
proof -
  have "seed_ok example_seed" by (simp add: seed_ok_def example_seed_def empty_seed_def)
  then show ?thesis
    unfolding example_store_def by (intro store_next [OF store_start] step_initialize)
qed

lemmas example_facts = example_state_def example_row_def after_options_def fetch_limit_def
  page_of_def last_page_of_def take_last_def min_seq_def

theorem reachable_store_consecutive_witness:
  "store_reachable example_store \<and> row_seq (ts_rows example_state ! 2) = 3"
  using example_reachable reachable_store_consecutive
    [where st = example_store and a = "''agent''" and s = example_state and i = 2]
  by (simp add: example_lookup) (simp add: example_state_def)

theorem fetch_after_exact_witness:
  "\<exists>r. fetch example_store ''agent'' (after_options ''e'' 1 (Some 1)) = Inr r \<and>
     map row_seq (fr_rows r) = [2] \<and> fr_hasNewer r"
  using fetch_after_exact [where st = example_store and a = "''agent''" and s = example_state
      and opts = "after_options ''e'' 1 (Some 1)" and c = 1, OF example_reachable example_lookup]
  by (auto simp: example_facts)

theorem timeline_drain_complete_witness:
  "map row_seq (drain (fetch_page (example_store, ''agent'', Some 1)) row_seq 3 0) = [1, 2, 3]"
  using timeline_drain_complete [where st = example_store and a = "''agent''" and s = example_state
      and c = 0 and n = 3 and limit = "Some 1", OF example_reachable example_lookup]
  by (simp add: example_facts)

theorem fetch_before_exact_witness:
  "\<exists>r. fetch example_store ''agent'' \<lparr>fo_direction = Some Before,
       fo_cursor = Some \<lparr>cur_epoch = ''e'', cur_seq = 3\<rparr>, fo_limit = Some 1\<rparr> = Inr r \<and>
     map row_seq (fr_rows r) = [2] \<and> fr_hasOlder r \<and> fr_hasNewer r"
  using fetch_before_exact [where st = example_store and a = "''agent''" and s = example_state
      and opts = "\<lparr>fo_direction = Some Before,
       fo_cursor = Some \<lparr>cur_epoch = ''e'', cur_seq = 3\<rparr>, fo_limit = Some 1\<rparr>" and c = 3,
      OF example_reachable example_lookup]
  by (auto simp: example_facts)

theorem fetch_total_and_reset_witness:
  "\<exists>r. fetch example_store ''agent'' (after_options ''old'' 1 (Some 1)) = Inr r \<and>
     fr_reset r \<and> fr_staleCursor r \<and> map row_seq (fr_rows r) = [3]"
  using fetch_total_and_reset [where st = example_store and a = "''agent''"
      and opts = "after_options ''old'' 1 (Some 1)", OF example_reachable]
  by (auto simp: example_lookup stale_cursor_def example_facts)

theorem last_assistant_message_spec_witness:
  "getLastAssistantMessage example_store ''agent'' = Inr (Some ''ab'')"
  using last_assistant_message_spec [where st = example_store and a = "''agent''"
      and s = example_state and pre = "[]"
      and run = "[example_row 1 (AssistantMessage ''a'' None), example_row 2 (AssistantMessage ''b'' None)]"
      and post = "[example_row 3 (Reasoning ''c'')]", OF example_lookup]
  by (simp add: example_state_def example_row_def assistant_text_def)

theorem seed_items_with_nextSeq_reuses_witness:
  "\<exists>s row st'. initialize Map.empty ''agent''
       (empty_seed\<lparr>so_items := Some [Reasoning ''x''], so_nextSeq := Some 5\<rparr>) ''u'' ''t'' ''agent'' = Some s \<and>
     append_row (initialize Map.empty ''agent''
       (empty_seed\<lparr>so_items := Some [Reasoning ''x''], so_nextSeq := Some 5\<rparr>) ''u'' ''t'')
       ''agent'' (Reasoning ''y'') \<lparr>ao_timestamp = None, ao_providerMessageId = None, ao_turnId = None\<rparr>
       ''t'' = Inr (row, st') \<and> row_seq row = row_seq (hd (ts_rows s))"
  by (rule seed_items_with_nextSeq_reuses [where i = "Reasoning ''x''" and its = "[]" and n = 5])
    (simp_all add: empty_seed_def)

end
