(* ===== verification/Timeline_Projection.thy ===== *)
theory Timeline_Projection
  imports Timeline_Store "HOL-Library.Multiset"
begin

text \<open>
  \<open>packages/server/src/server/agent/timeline-projection.ts\<close>: the projection of canonical timeline
  rows to display entries (tool call lifecycles and plugin items collapse by identity, adjacent
  assistant and reasoning chunks merge).  The loops of the source are folds whose accumulator is
  the \<open>output\<close> array; \<open>indexByIdentity\<close> is only read and written by key and so a partial map.
  The lemmas show that the projection accounts for every source row exactly once, keeps what was
  said in order, and folds each tool call of a turn into one entry.
\<close>

datatype projection_mode = Canonical | Projected
datatype projection_kind = AssistantMerge | ReasoningMerge | ToolLifecycle | IdentityMerge

record seq_range =
  sr_start :: int
  sr_end :: int

record projection_entry =
  pe_item :: timeline_item
  pe_turnId :: "string option"
  pe_timestamp :: string
  pe_seqStart :: int
  pe_seqEnd :: int
  pe_ranges :: "seq_range list"
  pe_collapsed :: "projection_kind list"

section \<open>Merging\<close>

definition appendSeqToRanges :: "seq_range list \<Rightarrow> int \<Rightarrow> seq_range list" where
  "appendSeqToRanges ranges seq =
     (if ranges = [] then [\<lparr>sr_start = seq, sr_end = seq\<rparr>]
      else let l = last ranges in
        if seq \<le> sr_end l + 1 then butlast ranges @ [l\<lparr>sr_end := max (sr_end l) seq\<rparr>]
        else ranges @ [\<lparr>sr_start = seq, sr_end = seq\<rparr>])"

definition mergeSeqRanges :: "seq_range list \<Rightarrow> seq_range list \<Rightarrow> seq_range list" where
  "mergeSeqRanges existing incoming =
     fold (\<lambda>range merged. fold (\<lambda>seq m. appendSeqToRanges m seq) [sr_start range..sr_end range] merged)
       incoming existing"

fun is_unknown_detail :: "tool_call_detail \<Rightarrow> bool" where
  "is_unknown_detail (DUnknown _ _) = True"
| "is_unknown_detail _ = False"

definition mergeToolCallDetail :: "tool_call_detail \<Rightarrow> tool_call_detail \<Rightarrow> tool_call_detail" where
  "mergeToolCallDetail existing incoming =
     (if is_unknown_detail existing \<and> \<not> is_unknown_detail incoming then incoming
      else if is_unknown_detail incoming \<and> \<not> is_unknown_detail existing then existing
      else incoming)"

definition mergeToolCallItems :: "tool_call \<Rightarrow> tool_call \<Rightarrow> tool_call" where
  "mergeToolCallItems existing incoming =
     \<lparr>tc_callId = tc_callId incoming, tc_name = tc_name incoming,
      tc_detail = mergeToolCallDetail (tc_detail existing) (tc_detail incoming),
      tc_metadata = (if tc_metadata existing \<noteq> None \<or> tc_metadata incoming \<noteq> None
        then Some (spread (default [] (tc_metadata existing)) (default [] (tc_metadata incoming)))
        else None),
      tc_status = tc_status incoming,
      tc_error = (if tc_status incoming = Failed then tc_error incoming
        else if tc_status incoming = Completed \<or> tc_status incoming = Canceled then Some JNull
        else or_else (tc_error incoming) (tc_error existing)),
      tc_extra = spread (tc_extra existing) (tc_extra incoming)\<rparr>"

definition canonical_entry :: "timeline_row \<Rightarrow> projection_entry" where
  "canonical_entry row =
     \<lparr>pe_item = row_item row, pe_turnId = truthy (row_turnId row),
      pe_timestamp = row_timestamp row, pe_seqStart = row_seq row, pe_seqEnd = row_seq row,
      pe_ranges = [\<lparr>sr_start = row_seq row, sr_end = row_seq row\<rparr>], pe_collapsed = []\<rparr>"

definition makeCanonicalEntries :: "timeline_row list \<Rightarrow> projection_entry list" where
  "makeCanonicalEntries rows = map canonical_entry rows"

definition mergeIdentityMetadata ::
  "projection_entry \<Rightarrow> projection_entry \<Rightarrow> projection_kind \<Rightarrow> seq_range list \<times> projection_kind list" where
  "mergeIdentityMetadata existing entry kind =
     (mergeSeqRanges (pe_ranges existing) (pe_ranges entry),
      if kind \<in> set (pe_collapsed existing) then pe_collapsed existing
      else pe_collapsed existing @ [kind])"

definition mergeIdentityEntries ::
  "projection_entry \<Rightarrow> projection_entry \<Rightarrow> projection_entry option" where
  "mergeIdentityEntries existing entry = (case pe_item entry of
      ToolCall t \<Rightarrow> (case pe_item existing of
          ToolCall t0 \<Rightarrow>
            (if pe_turnId existing \<noteq> pe_turnId entry then None
             else let (ranges, collapsed) = mergeIdentityMetadata existing entry ToolLifecycle in
               Some (existing\<lparr>pe_item := ToolCall (mergeToolCallItems t0 t),
                 pe_timestamp := pe_timestamp entry,
                 pe_seqEnd := max (pe_seqEnd existing) (pe_seqEnd entry),
                 pe_ranges := ranges, pe_collapsed := collapsed\<rparr>))
        | _ \<Rightarrow> None)
    | Plugin p \<Rightarrow> (case pe_item existing of
          Plugin _ \<Rightarrow>
            (let (ranges, collapsed) = mergeIdentityMetadata existing entry IdentityMerge in
               Some (entry\<lparr>pe_seqStart := pe_seqStart existing, pe_ranges := ranges,
                 pe_collapsed := collapsed\<rparr>))
        | _ \<Rightarrow> None)
    | _ \<Rightarrow> None)"

type_synonym collapse_state = "projection_entry list \<times> (string \<rightharpoonup> nat)"

definition collapse_step :: "projection_entry \<Rightarrow> collapse_state \<Rightarrow> collapse_state" where
  "collapse_step entry = (\<lambda>(output, indexByIdentity).
     case timelineItemIdentity (pe_item entry) of
       None \<Rightarrow> (output @ [entry], indexByIdentity)
     | Some identity \<Rightarrow>
         (case indexByIdentity identity of
            None \<Rightarrow> (output @ [entry], indexByIdentity(identity \<mapsto> length output))
          | Some i \<Rightarrow>
              (case Option.bind (nth_opt output i) (\<lambda>existing. mergeIdentityEntries existing entry) of
                 None \<Rightarrow> (output @ [entry], indexByIdentity(identity \<mapsto> length output))
               | Some merged \<Rightarrow> (output[i := merged], indexByIdentity))))"

definition collapseByIdentity :: "projection_entry list \<Rightarrow> projection_entry list" where
  "collapseByIdentity entries = fst (fold collapse_step entries ([], Map.empty))"

text \<open>
  The two chunk merges differ in the kind of item, and the assistant merge also keeps chunks of
  different messages apart.  \<open>chunk_merge kind item previous entry\<close> is the entry both write back.
\<close>

definition adjacent :: "projection_entry \<Rightarrow> projection_entry \<Rightarrow> bool" where
  "adjacent previous entry \<longleftrightarrow>
     pe_seqEnd previous + 1 = pe_seqStart entry \<and> pe_turnId previous = pe_turnId entry"

definition chunk_merge ::
  "projection_kind \<Rightarrow> timeline_item \<Rightarrow> projection_entry \<Rightarrow> projection_entry \<Rightarrow> projection_entry" where
  "chunk_merge kind item previous entry =
     previous\<lparr>pe_item := item, pe_timestamp := pe_timestamp entry, pe_seqEnd := pe_seqEnd entry,
       pe_ranges := mergeSeqRanges (pe_ranges previous) (pe_ranges entry),
       pe_collapsed := js_set (pe_collapsed previous @ pe_collapsed entry @ [kind])\<rparr>"

definition reasoning_merged :: "projection_entry \<Rightarrow> projection_entry \<Rightarrow> projection_entry option" where
  "reasoning_merged previous entry = (case (pe_item previous, pe_item entry) of
      (Reasoning a, Reasoning b) \<Rightarrow>
        (if adjacent previous entry
         then Some (chunk_merge ReasoningMerge (Reasoning (a @ b)) previous entry) else None)
    | _ \<Rightarrow> None)"

definition assistant_merged :: "projection_entry \<Rightarrow> projection_entry \<Rightarrow> projection_entry option" where
  "assistant_merged previous entry = (case (pe_item previous, pe_item entry) of
      (AssistantMessage a ma, AssistantMessage b mb) \<Rightarrow>
        (if adjacent previous entry \<and> \<not> (mb \<noteq> None \<and> ma \<noteq> mb)
         then Some (chunk_merge AssistantMerge (AssistantMessage (a @ b) (truthy ma)) previous entry)
         else None)
    | _ \<Rightarrow> None)"

definition merge_step ::
  "(projection_entry \<Rightarrow> projection_entry \<Rightarrow> projection_entry option) \<Rightarrow>
     projection_entry \<Rightarrow> projection_entry list \<Rightarrow> projection_entry list" where
  "merge_step merged entry output =
     (case Option.bind (last_opt output) (\<lambda>previous. merged previous entry) of
        None \<Rightarrow> output @ [entry]
      | Some e \<Rightarrow> butlast output @ [e])"

definition mergeReasoningChunks :: "projection_entry list \<Rightarrow> projection_entry list" where
  "mergeReasoningChunks entries = fold (merge_step reasoning_merged) entries []"

definition mergeAssistantChunks :: "projection_entry list \<Rightarrow> projection_entry list" where
  "mergeAssistantChunks entries = fold (merge_step assistant_merged) entries []"

definition projectTimelineRows :: "timeline_row list \<Rightarrow> projection_mode \<Rightarrow> projection_entry list" where
  "projectTimelineRows rows mode =
     (let canonical = makeCanonicalEntries rows in
      case mode of
        Canonical \<Rightarrow> canonical
      | Projected \<Rightarrow> mergeReasoningChunks (mergeAssistantChunks (collapseByIdentity canonical)))"

section \<open>Source ranges\<close>

definition range_seqs :: "seq_range list \<Rightarrow> int list" where
  "range_seqs rs = concat (map (\<lambda>r. [sr_start r..sr_end r]) rs)"

definition entry_seqs :: "projection_entry \<Rightarrow> int list" where
  "entry_seqs e = range_seqs (pe_ranges e)"

text \<open>Non-empty ranges in ascending order, no two of them overlapping or touching.\<close>

definition ranges_ok :: "seq_range list \<Rightarrow> bool" where
  "ranges_ok rs \<longleftrightarrow> rs \<noteq> [] \<and> (\<forall>r\<in>set rs. sr_start r \<le> sr_end r) \<and>
     sorted_wrt (\<lambda>a b. sr_end a + 1 < sr_start b) rs"

definition entry_ok :: "projection_entry \<Rightarrow> bool" where
  "entry_ok e \<longleftrightarrow> ranges_ok (pe_ranges e) \<and> sr_start (hd (pe_ranges e)) = pe_seqStart e \<and>
     sr_end (last (pe_ranges e)) = pe_seqEnd e"

lemma ranges_ok_single [simp]: "ranges_ok [r] \<longleftrightarrow> sr_start r \<le> sr_end r"
  by (simp add: ranges_ok_def)

lemma range_seqs_snoc [simp]: "range_seqs (rs @ [r]) = range_seqs rs @ [sr_start r..sr_end r]"
  by (simp add: range_seqs_def)

lemma range_seqs_Cons [simp]: "range_seqs (r # rs) = [sr_start r..sr_end r] @ range_seqs rs"
  by (simp add: range_seqs_def)

lemma range_seqs_Nil [simp]: "range_seqs [] = []"
  by (simp add: range_seqs_def)

lemma upto_snoc: "a \<le> b + 1 \<Longrightarrow> [a..b + 1] = [a..b] @ [b + 1]" for a b :: int
  using upto_rec2 [of a "b + 1"] by simp

lemma appendSeq_new:
  assumes "ranges_ok rs" and "sr_end (last rs) < seq"
  shows "ranges_ok (appendSeqToRanges rs seq) \<and>
    range_seqs (appendSeqToRanges rs seq) = range_seqs rs @ [seq] \<and>
    sr_start (hd (appendSeqToRanges rs seq)) = sr_start (hd rs) \<and>
    sr_end (last (appendSeqToRanges rs seq)) = seq"
proof -
  from assms(1) obtain ps l where rs: "rs = ps @ [l]"
    by (cases rs rule: rev_cases) (auto simp: ranges_ok_def)
  have l: "sr_start l \<le> sr_end l" using assms(1) by (simp add: rs ranges_ok_def)
  show ?thesis
  proof (cases "seq = sr_end l + 1")
    case True
    have "[sr_start l..seq] = [sr_start l..sr_end l] @ [seq]"
      using upto_snoc [of "sr_start l" "sr_end l"] l True by simp
    with True l assms(1) show ?thesis
      by (cases ps) (auto simp: rs appendSeqToRanges_def Let_def ranges_ok_def sorted_wrt_append)
  next
    case False
    with assms have "sr_end l + 1 < seq" by (simp add: rs)
    then have step: "appendSeqToRanges rs seq = rs @ [\<lparr>sr_start = seq, sr_end = seq\<rparr>]"
      by (simp add: rs appendSeqToRanges_def Let_def)
    have "\<forall>p\<in>set ps. sr_end p + 1 < seq"
      using assms(1) \<open>sr_end l + 1 < seq\<close> l by (fastforce simp: rs ranges_ok_def sorted_wrt_append)
    with assms(1) \<open>sr_end l + 1 < seq\<close> have "ranges_ok (rs @ [\<lparr>sr_start = seq, sr_end = seq\<rparr>])"
      by (auto simp: rs ranges_ok_def sorted_wrt_append)
    moreover have "rs \<noteq> []" by (simp add: rs)
    ultimately show ?thesis by (simp add: step)
  qed
qed

lemma append_seqs_new:
  assumes "ranges_ok rs" and "sr_end (last rs) < a" and "a \<le> b"
  shows "let m = fold (\<lambda>seq m. appendSeqToRanges m seq) [a..b] rs in
    ranges_ok m \<and> range_seqs m = range_seqs rs @ [a..b] \<and> sr_start (hd m) = sr_start (hd rs) \<and>
    sr_end (last m) = b"
  using assms
proof (induction "nat (b - a)" arbitrary: a rs)
  case 0
  then have "b = a" by simp
  with 0 appendSeq_new [of rs a] show ?case by (simp add: Let_def)
next
  case (Suc n)
  let ?rs = "appendSeqToRanges rs a"
  have new: "ranges_ok ?rs" "range_seqs ?rs = range_seqs rs @ [a]"
    "sr_start (hd ?rs) = sr_start (hd rs)" "sr_end (last ?rs) = a"
    using appendSeq_new [OF Suc.prems(1,2)] by simp_all
  have "n = nat (b - (a + 1))" "a + 1 \<le> b" using Suc.hyps(2) Suc.prems(3) by arith+
  note Suc.hyps(1) [OF this(1) new(1) _ this(2)]
  moreover have "[a..b] = a # [a + 1..b]" using Suc.prems(3) upto_rec1 by simp
  ultimately show ?case using new by (simp add: Let_def)
qed

lemma mergeSeqRanges_append:
  assumes "ranges_ok rs" and "ranges_ok inc" and "sr_end (last rs) < sr_start (hd inc)"
  shows "ranges_ok (mergeSeqRanges rs inc) \<and>
    range_seqs (mergeSeqRanges rs inc) = range_seqs rs @ range_seqs inc \<and>
    sr_start (hd (mergeSeqRanges rs inc)) = sr_start (hd rs) \<and>
    sr_end (last (mergeSeqRanges rs inc)) = sr_end (last inc)"
  using assms
proof (induction inc arbitrary: rs)
  case Nil
  then show ?case by (simp add: ranges_ok_def)
next
  case (Cons r inc)
  let ?m = "fold (\<lambda>seq m. appendSeqToRanges m seq) [sr_start r..sr_end r] rs"
  have "sr_start r \<le> sr_end r" using Cons.prems(2) by (simp add: ranges_ok_def)
  then have m: "ranges_ok ?m" "range_seqs ?m = range_seqs rs @ [sr_start r..sr_end r]"
    "sr_start (hd ?m) = sr_start (hd rs)" "sr_end (last ?m) = sr_end r"
    using append_seqs_new [OF Cons.prems(1), of "sr_start r" "sr_end r"] Cons.prems(3)
    by (simp_all add: Let_def)
  show ?case
  proof (cases inc)
    case Nil
    with m show ?thesis by (simp add: mergeSeqRanges_def range_seqs_def)
  next
    case (Cons r' inc')
    with Cons.prems(2) have "ranges_ok inc" "sr_end r < sr_start (hd inc)"
      by (auto simp: ranges_ok_def)
    with Cons.IH [OF m(1)] m Cons show ?thesis
      by (simp add: mergeSeqRanges_def range_seqs_def)
  qed
qed

lemma mem_range_seqs: "x \<in> set (range_seqs rs) \<longleftrightarrow> (\<exists>r\<in>set rs. sr_start r \<le> x \<and> x \<le> sr_end r)"
  by (auto simp: range_seqs_def)

lemma ranges_bounds:
  assumes "ranges_ok rs" and "r \<in> set rs"
  shows "sr_start (hd rs) \<le> sr_start r \<and> sr_end r \<le> sr_end (last rs)"
  using assms
proof (induction rs)
  case (Cons a rs)
  show ?case
  proof (cases rs)
    case Nil
    with Cons.prems show ?thesis by simp
  next
    case (Cons b rs')
    then have ok: "ranges_ok rs" and ab: "sr_start a \<le> sr_end a" "sr_end a + 1 < sr_start b"
      "sr_start b \<le> sr_end b"
      using Cons.prems(1) by (auto simp: ranges_ok_def)
    have "sr_end b \<le> sr_end (last rs)"
    proof (cases "rs' = []")
      case False
      then have "last rs' \<in> set rs'" by simp
      with ok Cons have "sr_end b + 1 < sr_start (last rs')" "sr_start (last rs') \<le> sr_end (last rs')"
        by (auto simp: ranges_ok_def)
      with Cons False show ?thesis by simp
    qed (simp add: Cons)
    then show ?thesis
      using Cons.IH [OF ok] Cons.prems Cons ab by auto
  qed
qed (simp add: ranges_ok_def)

lemma entry_seq_bounds:
  assumes "entry_ok e" and "x \<in> set (entry_seqs e)"
  shows "pe_seqStart e \<le> x \<and> x \<le> pe_seqEnd e"
  using assms ranges_bounds [of "pe_ranges e"]
  by (fastforce simp: entry_ok_def entry_seqs_def mem_range_seqs)

lemma entry_ends_mem:
  assumes "entry_ok e"
  shows "pe_seqStart e \<in> set (entry_seqs e) \<and> pe_seqEnd e \<in> set (entry_seqs e)"
proof -
  have "pe_ranges e \<noteq> []" using assms by (simp add: entry_ok_def ranges_ok_def)
  then have mem: "hd (pe_ranges e) \<in> set (pe_ranges e)" "last (pe_ranges e) \<in> set (pe_ranges e)"
    by simp_all
  have "\<forall>r\<in>set (pe_ranges e). sr_start r \<le> sr_end r"
    using assms by (simp add: entry_ok_def ranges_ok_def)
  moreover have "sr_start (hd (pe_ranges e)) = pe_seqStart e" "sr_end (last (pe_ranges e)) = pe_seqEnd e"
    using assms by (simp_all add: entry_ok_def)
  ultimately show ?thesis
    unfolding entry_seqs_def mem_range_seqs using mem by (metis order_refl)
qed

lemma entry_start_le_end: "entry_ok e \<Longrightarrow> pe_seqStart e \<le> pe_seqEnd e"
  using entry_ends_mem entry_seq_bounds by blast

section \<open>The structure of a projection\<close>

abbreviation all_seqs :: "projection_entry list \<Rightarrow> int list" where
  "all_seqs es \<equiv> concat (map entry_seqs es)"

text \<open>
  \<open>merges p e q\<close>: the entry \<open>q\<close> is \<open>p\<close> extended by the later entry \<open>e\<close>, as far as the sequence
  numbers are concerned.
\<close>

definition extends :: "projection_entry \<Rightarrow> projection_entry \<Rightarrow> projection_entry \<Rightarrow> bool" where
  "extends p e q \<longleftrightarrow> pe_seqStart q = pe_seqStart p \<and> pe_seqEnd q = pe_seqEnd e \<and>
     pe_ranges q = mergeSeqRanges (pe_ranges p) (pe_ranges e)"

lemma extends_ok:
  assumes "extends p e q" and "entry_ok p" and "entry_ok e" and "pe_seqEnd p < pe_seqStart e"
  shows "entry_ok q \<and> entry_seqs q = entry_seqs p @ entry_seqs e"
  using assms mergeSeqRanges_append [of "pe_ranges p" "pe_ranges e"]
  by (auto simp: extends_def entry_ok_def entry_seqs_def)

definition projection_ok :: "projection_entry list \<Rightarrow> bool" where
  "projection_ok es \<longleftrightarrow> (\<forall>e\<in>set es. entry_ok e) \<and> increasing pe_seqStart es \<and> distinct (all_seqs es)"

lemma canonical_entry_ok [simp]: "entry_ok (canonical_entry row)"
  "entry_seqs (canonical_entry row) = [row_seq row]"
  by (simp_all add: canonical_entry_def entry_ok_def entry_seqs_def)

lemma identity_merge_extends:
  assumes "mergeIdentityEntries existing entry = Some q"
    and "pe_seqEnd existing < pe_seqStart entry" and "entry_ok entry"
  shows "extends existing entry q \<and> (\<exists>t t'. pe_item q = ToolCall t \<and> pe_item entry = ToolCall t' \<or>
      (\<exists>p. pe_item entry = Plugin p \<and> pe_item q = Plugin p))"
  using assms entry_start_le_end [OF assms(3)]
  by (auto simp: mergeIdentityEntries_def mergeIdentityMetadata_def extends_def
      split: timeline_item.splits if_splits)

lemma identity_merge_item:
  assumes "mergeIdentityEntries existing entry = Some q"
  shows "timelineItemIdentity (pe_item q) = timelineItemIdentity (pe_item entry)"
  using assms
  by (auto simp: mergeIdentityEntries_def mergeIdentityMetadata_def mergeToolCallItems_def
      split: timeline_item.splits if_splits)

text \<open>What was said: everything but tool calls and plugin items, which are replaced in place.\<close>

datatype utterance = Said char | Thought char | Stated timeline_item

fun utterances :: "timeline_item \<Rightarrow> utterance list" where
  "utterances (AssistantMessage t _) = map Said t"
| "utterances (Reasoning t) = map Thought t"
| "utterances (ToolCall _) = []"
| "utterances (Plugin _) = []"
| "utterances item = [Stated item]"

abbreviation said :: "projection_entry list \<Rightarrow> utterance list" where
  "said es \<equiv> concat (map (\<lambda>e. utterances (pe_item e)) es)"

lemma identity_silent: "timelineItemIdentity item = Some c \<Longrightarrow> utterances item = []"
  by (cases item) simp_all

text \<open>The invariant of the loop of \<open>collapseByIdentity\<close> after the rows read so far.\<close>

definition collapse_inv :: "timeline_row list \<Rightarrow> collapse_state \<Rightarrow> bool" where
  "collapse_inv rows cs \<longleftrightarrow> (\<forall>e\<in>set (fst cs). entry_ok e) \<and> increasing pe_seqStart (fst cs) \<and>
     mset (all_seqs (fst cs)) = mset (map row_seq rows) \<and>
     said (fst cs) = concat (map (\<lambda>r. utterances (row_item r)) rows) \<and>
     (\<forall>c i. snd cs c = Some i \<longrightarrow>
        i < length (fst cs) \<and> timelineItemIdentity (pe_item (fst cs ! i)) = Some c)"

lemma collapse_inv_push:
  assumes inv: "collapse_inv rows cs" and newer: "\<forall>r\<in>set rows. row_seq r < row_seq row"
    and idx: "\<forall>c i. m c = Some i \<longrightarrow> snd cs c = Some i \<or>
       i = length (fst cs) \<and> timelineItemIdentity (row_item row) = Some c"
  shows "collapse_inv (rows @ [row]) (fst cs @ [canonical_entry row], m)"
proof -
  have "pe_seqStart e < row_seq row" if "e \<in> set (fst cs)" for e
  proof -
    have "pe_seqStart e \<in> set (all_seqs (fst cs))"
      using that inv entry_ends_mem [of e] by (auto simp: collapse_inv_def)
    also have "set (all_seqs (fst cs)) = row_seq ` set rows"
      using inv mset_eq_setD [of "all_seqs (fst cs)" "map row_seq rows"]
      by (simp add: collapse_inv_def)
    finally show ?thesis using newer by auto
  qed
  then have "increasing pe_seqStart (fst cs @ [canonical_entry row])"
    using inv by (auto simp: increasing_append collapse_inv_def canonical_entry_def)
  then show ?thesis
    using inv idx
    by (fastforce simp: collapse_inv_def nth_append canonical_entry_def entry_ok_def entry_seqs_def)
qed

lemma collapse_inv_merge:
  assumes inv: "collapse_inv rows (output, m)" and newer: "\<forall>r\<in>set rows. row_seq r < row_seq row"
    and i: "i < length output" "m c = Some i" "timelineItemIdentity (row_item row) = Some c"
    and merged: "mergeIdentityEntries (output ! i) (canonical_entry row) = Some q"
  shows "collapse_inv (rows @ [row]) (output[i := q], m)"
proof -
  let ?e = "canonical_entry row"
  have e: "pe_seqStart ?e = row_seq row" "pe_item ?e = row_item row" by (simp_all add: canonical_entry_def)
  have ok: "entry_ok (output ! i)" using inv i(1) by (simp add: collapse_inv_def)
  have "pe_seqEnd (output ! i) \<in> set (all_seqs output)"
    using entry_ends_mem [OF ok] i(1) by (auto intro!: bexI [of _ "output ! i"])
  also have "set (all_seqs output) = row_seq ` set rows"
    using inv mset_eq_setD [of "all_seqs output" "map row_seq rows"] by (simp add: collapse_inv_def)
  finally have less: "pe_seqEnd (output ! i) < pe_seqStart ?e" using newer by (auto simp: e)
  have ext: "extends (output ! i) ?e q"
    using identity_merge_extends [OF merged less] by simp
  have q: "entry_ok q" "entry_seqs q = entry_seqs (output ! i) @ [row_seq row]"
    using extends_ok [OF ext ok _ less] by simp_all
  have same: "timelineItemIdentity (pe_item q) = Some c" "timelineItemIdentity (pe_item (output ! i)) = Some c"
    using identity_merge_item [OF merged] i inv by (simp_all add: e collapse_inv_def)
  note upd = concat_map_update [OF i(1)]
  have "mset (all_seqs (output[i := q])) = mset (map row_seq (rows @ [row]))"
    using inv upd(2) [of entry_seqs] by (simp add: upd(1) q(2) collapse_inv_def)
  moreover have "said (output[i := q]) = said output"
    using identity_silent [OF same(1)] identity_silent [OF same(2)]
      upd(2) [of "\<lambda>e. utterances (pe_item e)"] by (simp add: upd(1))
  moreover have "increasing pe_seqStart (output[i := q])"
    using inv i(1) ext by (intro increasing_update) (simp_all add: collapse_inv_def extends_def)
  moreover have "utterances (row_item row) = []" using i(3) by (rule identity_silent)
  moreover have "\<forall>e\<in>set (output[i := q]). entry_ok e"
    using inv q(1) set_update_subset_insert [of "output" i q] by (auto simp: collapse_inv_def)
  moreover have "j < length (output[i := q]) \<and>
      timelineItemIdentity (pe_item (output[i := q] ! j)) = Some c'" if "m c' = Some j" for c' j
    using inv that same by (cases "j = i") (auto simp: collapse_inv_def)
  moreover have "said output = concat (map (\<lambda>r. utterances (row_item r)) rows)"
    using inv by (simp add: collapse_inv_def)
  ultimately show ?thesis by (simp add: collapse_inv_def)
qed

lemma collapse_inv_step:
  assumes inv: "collapse_inv rows cs" and newer: "\<forall>r\<in>set rows. row_seq r < row_seq row"
  shows "collapse_inv (rows @ [row]) (collapse_step (canonical_entry row) cs)"
proof -
  obtain out m where cs: "cs = (out, m)" by fastforce
  note push = collapse_inv_push [OF inv newer]
  have item: "pe_item (canonical_entry row) = row_item row" by (simp add: canonical_entry_def)
  show ?thesis
  proof (cases "timelineItemIdentity (row_item row)")
    case None
    with push [of m] show ?thesis by (simp add: cs collapse_step_def item)
  next
    case (Some c)
    have new: "collapse_inv (rows @ [row]) (out @ [canonical_entry row], m(c \<mapsto> length out))"
      using push [of "m(c \<mapsto> length out)"] Some by (simp add: cs)
    show ?thesis
    proof (cases "Option.bind (m c) (\<lambda>i. Option.bind (nth_opt out i)
        (\<lambda>existing. mergeIdentityEntries existing (canonical_entry row)))")
      case None
      with new Some show ?thesis by (cases "m c") (auto simp: cs collapse_step_def item)
    next
      case q: (Some q)
      then obtain i where i: "m c = Some i" "i < length out"
        "mergeIdentityEntries (out ! i) (canonical_entry row) = Some q"
        by (auto simp: bind_eq_Some_conv nth_opt_Some)
      with Some collapse_inv_merge [OF inv [unfolded cs] newer i(2,1) Some i(3)] show ?thesis
        by (simp add: cs collapse_step_def item nth_opt_def)
    qed
  qed
qed

lemma collapse_inv_fold:
  assumes "increasing row_seq rows"
  shows "collapse_inv rows (fold collapse_step (makeCanonicalEntries rows) ([], Map.empty))"
  using assms
proof (induction rows rule: rev_induct)
  case Nil
  then show ?case by (simp add: collapse_inv_def makeCanonicalEntries_def)
next
  case (snoc row rows)
  then show ?case
    using collapse_inv_step [of rows _ row] by (simp add: increasing_append makeCanonicalEntries_def)
qed

text \<open>
  What the two chunk merges have in common: an entry is only ever folded into the entry right
  before it, whose last sequence number precedes it, and the text of both is kept.
\<close>

locale chunk_merger =
  fixes merged :: "projection_entry \<Rightarrow> projection_entry \<Rightarrow> projection_entry option"
  assumes merged_extends: "merged p e = Some q \<Longrightarrow> extends p e q \<and> pe_seqEnd p < pe_seqStart e"
    and merged_utterances: "merged p e = Some q \<Longrightarrow>
      utterances (pe_item q) = utterances (pe_item p) @ utterances (pe_item e)"
    and merged_anonymous: "merged p e = Some q \<Longrightarrow> timelineItemIdentity (pe_item p) = None \<and>
      timelineItemIdentity (pe_item e) = None \<and> timelineItemIdentity (pe_item q) = None"
begin

abbreviation chunks :: "projection_entry list \<Rightarrow> projection_entry list" where
  "chunks es \<equiv> fold (merge_step merged) es []"

lemma chunk_step_cases:
  obtains "merge_step merged e es = es @ [e]"
  | ps p q where "es = ps @ [p]" "merged p e = Some q" "merge_step merged e es = ps @ [q]"
proof (cases es rule: rev_cases)
  case Nil
  with that(1) show ?thesis by (simp add: merge_step_def)
next
  case (snoc ps p)
  show ?thesis
  proof (cases "merged p e")
    case None
    with snoc that(1) show ?thesis by (simp add: merge_step_def)
  next
    case (Some q)
    with snoc that(2) show ?thesis by (simp add: merge_step_def)
  qed
qed

lemma chunks_said: "said (chunks es) = said es"
proof (induction es rule: rev_induct)
  case (snoc e es)
  show ?case
    by (cases rule: chunk_step_cases [of e "chunks es"])
      (use snoc merged_utterances in auto)
qed simp

lemma chunks_identified:
  "filter (\<lambda>x. timelineItemIdentity (pe_item x) \<noteq> None) (chunks es) =
   filter (\<lambda>x. timelineItemIdentity (pe_item x) \<noteq> None) es"
proof (induction es rule: rev_induct)
  case (snoc e es)
  show ?case
    by (cases rule: chunk_step_cases [of e "chunks es"])
      (use snoc in \<open>auto dest!: merged_anonymous\<close>)
qed simp

lemma chunks_ok:
  assumes "projection_ok es"
  shows "projection_ok (chunks es) \<and> all_seqs (chunks es) = all_seqs es \<and>
     (\<forall>x\<in>set (chunks es). \<exists>y\<in>set es. pe_seqStart x = pe_seqStart y)"
  using assms
proof (induction es rule: rev_induct)
  case Nil
  then show ?case by simp
next
  case (snoc e es)
  from snoc.prems have es: "projection_ok es" and e: "entry_ok e"
    and less: "\<forall>x\<in>set es. pe_seqStart x < pe_seqStart e" and dist: "distinct (all_seqs (es @ [e]))"
    by (auto simp: projection_ok_def increasing_append)
  note IH = snoc.IH [OF es]
  show ?case
  proof (cases rule: chunk_step_cases [of e "chunks es"])
    case 1
    have "increasing pe_seqStart (chunks es @ [e])"
      using IH less by (fastforce simp: projection_ok_def increasing_append)
    moreover have "distinct (all_seqs (chunks es @ [e]))" using IH dist by simp
    ultimately show ?thesis using 1 IH e by (auto simp: projection_ok_def)
  next
    case (2 ps p q)
    note ext = merged_extends [OF 2(2)]
    have p: "entry_ok p" using IH 2(1) by (simp add: projection_ok_def)
    have q: "entry_ok q" "entry_seqs q = entry_seqs p @ entry_seqs e"
      using extends_ok [OF _ p e, of q] ext by simp_all
    have start: "pe_seqStart q = pe_seqStart p" using ext by (simp add: extends_def)
    have "all_seqs (ps @ [q]) = all_seqs (es @ [e])" using IH 2(1) q(2) by simp
    moreover have "increasing pe_seqStart (ps @ [q])"
      using IH 2(1) start by (simp add: projection_ok_def increasing_append)
    moreover have "\<forall>x\<in>set ps. entry_ok x" using IH 2(1) by (simp add: projection_ok_def)
    moreover have "\<forall>x\<in>set (ps @ [q]). \<exists>y\<in>set (es @ [e]). pe_seqStart x = pe_seqStart y"
      using IH 2(1) start by auto
    ultimately show ?thesis using 2(3) q(1) dist by (simp add: projection_ok_def)
  qed
qed

end

interpretation reasoning: chunk_merger reasoning_merged
  by unfold_locales
    (auto simp: reasoning_merged_def chunk_merge_def adjacent_def extends_def
      split: timeline_item.splits if_splits)

interpretation assistant: chunk_merger assistant_merged
  by unfold_locales
    (auto simp: assistant_merged_def chunk_merge_def adjacent_def extends_def
      split: timeline_item.splits if_splits)

lemma collapse_projection_ok:
  assumes "increasing row_seq rows"
  shows "projection_ok (collapseByIdentity (makeCanonicalEntries rows))"
proof -
  have inv: "collapse_inv rows (fold collapse_step (makeCanonicalEntries rows) ([], Map.empty))"
    by (rule collapse_inv_fold [OF assms])
  have "distinct (map row_seq rows)"
    using assms by (induction rows) (auto simp: less_le)
  with inv show ?thesis
    by (metis collapse_inv_def collapseByIdentity_def projection_ok_def mset_eq_imp_distinct_iff)
qed

lemma projected_eq:
  "projectTimelineRows rows Projected =
     reasoning.chunks (assistant.chunks (collapseByIdentity (makeCanonicalEntries rows)))"
  by (simp add: projectTimelineRows_def mergeReasoningChunks_def mergeAssistantChunks_def)

lemma projected_ok:
  assumes "increasing row_seq rows"
  shows "projection_ok (projectTimelineRows rows Projected)"
  using collapse_projection_ok [OF assms] reasoning.chunks_ok assistant.chunks_ok
  by (simp add: projected_eq)

lemma projected_seqs:
  assumes "increasing row_seq rows"
  shows "mset (all_seqs (projectTimelineRows rows Projected)) = mset (map row_seq rows)"
proof -
  let ?c = "collapseByIdentity (makeCanonicalEntries rows)"
  have ok: "projection_ok ?c" by (rule collapse_projection_ok [OF assms])
  then have "projection_ok (assistant.chunks ?c)" using assistant.chunks_ok by blast
  then have "all_seqs (projectTimelineRows rows Projected) = all_seqs ?c"
    using assistant.chunks_ok [OF ok] reasoning.chunks_ok by (simp add: projected_eq)
  moreover have "mset (all_seqs ?c) = mset (map row_seq rows)"
    using collapse_inv_fold [OF assms] by (simp add: collapse_inv_def collapseByIdentity_def)
  ultimately show ?thesis by metis
qed

lemma projected_covers:
  assumes "increasing row_seq rows"
  shows "(\<exists>e\<in>set (projectTimelineRows rows Projected). x \<in> set (entry_seqs e)) \<longleftrightarrow>
    x \<in> row_seq ` set rows"
  using mset_eq_setD [OF projected_seqs [OF assms]] by auto

text \<open>
  C18: the projection accounts for every source row exactly once: its entries carry non-empty
  ascending ranges that begin at \<open>seqStart\<close> and end at \<open>seqEnd\<close>, the entries are ordered by
  \<open>seqStart\<close>, and the sequence numbers in the ranges of all entries together are the sequence
  numbers of the rows, each occurring once.
\<close>

theorem projection_accounts_for_rows:
  assumes "increasing row_seq rows"
  shows "(\<forall>e\<in>set (projectTimelineRows rows Projected). entry_ok e) \<and>
     increasing pe_seqStart (projectTimelineRows rows Projected) \<and>
     mset (all_seqs (projectTimelineRows rows Projected)) = mset (map row_seq rows)"
  using projected_ok [OF assms] projected_seqs [OF assms] by (simp add: projection_ok_def)

text \<open>
  the projection loses and reorders nothing that was said: the characters of assistant
  messages and of reasoning, and every item that is neither a tool call nor a plugin item, appear
  in the projected entries in the order of the rows, however the chunks were merged.
\<close>

lemma projection_keeps_utterances:
  assumes "increasing row_seq rows"
  shows "said (projectTimelineRows rows Projected) = concat (map (\<lambda>r. utterances (row_item r)) rows)"
proof -
  have "said (projectTimelineRows rows Projected) =
      said (collapseByIdentity (makeCanonicalEntries rows))"
    by (simp add: projected_eq reasoning.chunks_said assistant.chunks_said)
  then show ?thesis
    using collapse_inv_fold [OF assms] by (simp add: collapse_inv_def collapseByIdentity_def)
qed

section \<open>The life of a tool call\<close>

definition has_identity :: "string \<Rightarrow> timeline_item \<Rightarrow> bool" where
  "has_identity c item \<longleftrightarrow> timelineItemIdentity item = Some c"

fun call_of :: "timeline_item \<Rightarrow> tool_call option" where
  "call_of (ToolCall t) = Some t"
| "call_of _ = None"

definition updates :: "string \<Rightarrow> timeline_row list \<Rightarrow> timeline_row list" where
  "updates c rows = filter (\<lambda>r. has_identity c (row_item r)) rows"

primrec folded_call :: "timeline_row list \<Rightarrow> tool_call option" where
  "folded_call [] = None"
| "folded_call (r # rs) = foldl (\<lambda>t r. case (t, call_of (row_item r)) of
     (Some existing, Some incoming) \<Rightarrow> Some (mergeToolCallItems existing incoming) | _ \<Rightarrow> None)
     (call_of (row_item r)) rs"

definition call_entry :: "string option \<Rightarrow> timeline_row list \<Rightarrow> projection_entry \<Rightarrow> bool" where
  "call_entry turn calls e \<longleftrightarrow> call_of (pe_item e) = folded_call calls \<and> folded_call calls \<noteq> None \<and>
     pe_turnId e = turn \<and> entry_seqs e = map row_seq calls \<and>
     pe_timestamp e = row_timestamp (last calls)"

definition one_turn_call :: "string \<Rightarrow> string option \<Rightarrow> timeline_row \<Rightarrow> bool" where
  "one_turn_call c turn row \<longleftrightarrow> (has_identity c (row_item row) \<longrightarrow>
     call_of (row_item row) \<noteq> None \<and> truthy (row_turnId row) = turn)"

lemma updates_snoc: "updates c (rows @ [row]) =
    updates c rows @ (if has_identity c (row_item row) then [row] else [])"
  by (simp add: updates_def)

lemma call_of_Some: "call_of item = Some t \<longleftrightarrow> item = ToolCall t"
  by (cases item) simp_all

lemma folded_call_snoc:
  "calls \<noteq> [] \<Longrightarrow> folded_call calls = Some t \<Longrightarrow> call_of (row_item row) = Some t' \<Longrightarrow>
     folded_call (calls @ [row]) = Some (mergeToolCallItems t t')"
  by (cases calls) simp_all

definition life_inv :: "string \<Rightarrow> string option \<Rightarrow> timeline_row list \<Rightarrow> collapse_state \<Rightarrow> bool" where
  "life_inv c turn rows cs \<longleftrightarrow>
     (if updates c rows = [] then snd cs c = None \<and> (\<forall>e\<in>set (fst cs). \<not> has_identity c (pe_item e))
      else \<exists>pre e post. fst cs = pre @ e # post \<and> snd cs c = Some (length pre) \<and>
        call_entry turn (updates c rows) e \<and>
        (\<forall>x\<in>set pre \<union> set post. \<not> has_identity c (pe_item x)))"

lemma collapse_step_cases:
  assumes "collapse_inv rows cs"
  obtains (push) m where "collapse_step e cs = (fst cs @ [e], m)"
      "\<forall>d. \<not> has_identity d (pe_item e) \<longrightarrow> m d = snd cs d"
      "\<forall>d. has_identity d (pe_item e) \<longrightarrow> m d = Some (length (fst cs))"
      "\<forall>d i. has_identity d (pe_item e) \<longrightarrow> snd cs d = Some i \<longrightarrow>
         mergeIdentityEntries (fst cs ! i) e = None"
  | (merge) d i q where "collapse_step e cs = ((fst cs)[i := q], snd cs)"
      "has_identity d (pe_item e)" "snd cs d = Some i" "i < length (fst cs)"
      "has_identity d (pe_item (fst cs ! i))" "mergeIdentityEntries (fst cs ! i) e = Some q"
proof -
  obtain out m where cs: "cs = (out, m)" by fastforce
  have slot: "i < length out \<and> timelineItemIdentity (pe_item (out ! i)) = Some d"
    if "m d = Some i" for d i
    using assms that by (auto simp: collapse_inv_def cs)
  show thesis
  proof (cases "timelineItemIdentity (pe_item e)")
    case None
    with push [of m] show thesis by (simp add: cs collapse_step_def has_identity_def)
  next
    case (Some d)
    show thesis
    proof (cases "m d")
      case None
      with Some push [of "m(d \<mapsto> length out)"] show thesis
        by (simp add: cs collapse_step_def has_identity_def)
    next
      case i: (Some i)
      show thesis
      proof (cases "mergeIdentityEntries (out ! i) e")
        case None
        with Some i slot [OF i] push [of "m(d \<mapsto> length out)"] show thesis
          by (simp add: cs collapse_step_def has_identity_def nth_opt_def)
      next
        case (Some q)
        with \<open>timelineItemIdentity (pe_item e) = Some d\<close> i slot [OF i] merge [of i q d] show thesis
          by (simp add: cs collapse_step_def has_identity_def nth_opt_def)
      qed
    qed
  qed
qed

lemma call_entry_merge:
  assumes "call_entry turn calls x" and "calls \<noteq> []" and "entry_ok x"
    and "call_of (row_item row) = Some t'" and "truthy (row_turnId row) = turn"
    and "pe_seqEnd x < row_seq row"
  shows "\<exists>q. mergeIdentityEntries x (canonical_entry row) = Some q \<and> call_entry turn (calls @ [row]) q"
proof -
  let ?e = "canonical_entry row"
  from assms(1) obtain t where t: "folded_call calls = Some t" "pe_item x = ToolCall t"
    by (auto simp: call_entry_def call_of_Some)
  have e: "pe_item ?e = ToolCall t'" "pe_turnId ?e = turn" "pe_seqStart ?e = row_seq row"
    using assms(4,5) by (simp_all add: canonical_entry_def call_of_Some)
  have "pe_turnId x = turn" using assms(1) by (simp add: call_entry_def)
  with t e obtain q where q: "mergeIdentityEntries x ?e = Some q"
    "pe_item q = ToolCall (mergeToolCallItems t t')" "pe_turnId q = turn"
    "pe_timestamp q = row_timestamp row"
    by (simp add: mergeIdentityEntries_def mergeIdentityMetadata_def canonical_entry_def Let_def)
  have less: "pe_seqEnd x < pe_seqStart ?e" using assms(6) by (simp add: e)
  have ext: "extends x ?e q" using identity_merge_extends [OF q(1) less] by simp
  have "entry_seqs q = map row_seq (calls @ [row])"
    using extends_ok [OF ext assms(3) _ less] assms(1) by (simp add: call_entry_def)
  with q folded_call_snoc [OF assms(2) t(1) assms(4)] show ?thesis by (simp add: call_entry_def)
qed

lemma life_invI:
  assumes "updates c rows \<noteq> []" and "fst cs = pre @ e # post" and "snd cs c = Some (length pre)"
    and "call_entry turn (updates c rows) e" and "\<forall>x\<in>set pre. \<not> has_identity c (pe_item x)"
    and "\<forall>x\<in>set post. \<not> has_identity c (pe_item x)"
  shows "life_inv c turn rows cs"
proof -
  have "\<exists>pre e post. fst cs = pre @ e # post \<and> snd cs c = Some (length pre) \<and>
      call_entry turn (updates c rows) e \<and>
      (\<forall>x\<in>set pre \<union> set post. \<not> has_identity c (pe_item x))"
    using assms(2-6) by (intro exI [of _ pre] exI [of _ e] exI [of _ post]) auto
  with assms(1) show ?thesis by (simp add: life_inv_def)
qed

lemma life_invE:
  assumes "life_inv c turn rows cs" and "updates c rows \<noteq> []"
  obtains pre e post where "fst cs = pre @ e # post" "snd cs c = Some (length pre)"
    "call_entry turn (updates c rows) e" "\<forall>x\<in>set pre. \<not> has_identity c (pe_item x)"
    "\<forall>x\<in>set post. \<not> has_identity c (pe_item x)"
  using assms unfolding life_inv_def by auto

lemma collapse_slot:
  "collapse_inv rows cs \<Longrightarrow> snd cs c = Some i \<Longrightarrow>
     i < length (fst cs) \<and> has_identity c (pe_item (fst cs ! i))"
  by (simp add: collapse_inv_def has_identity_def)

lemma life_inv_own:
  assumes inv: "collapse_inv rows cs" and life: "life_inv c turn rows cs"
    and newer: "\<forall>r\<in>set rows. row_seq r < row_seq row"
    and own: "has_identity c (row_item row)" and one: "one_turn_call c turn row"
  shows "life_inv c turn (rows @ [row]) (collapse_step (canonical_entry row) cs)"
proof -
  let ?e = "canonical_entry row"
  have item: "pe_item ?e = row_item row" by (simp add: canonical_entry_def)
  have only: "d = c" if "has_identity d (pe_item ?e)" for d
    using that own by (simp add: item has_identity_def)
  from own one obtain t' where t': "call_of (row_item row) = Some t'" "truthy (row_turnId row) = turn"
    by (auto simp: one_turn_call_def)
  note ups = updates_snoc [of c rows row]
  show ?thesis
  proof (cases "updates c rows = []")
    case True
    with life have fresh: "snd cs c = None" "\<forall>x\<in>set (fst cs). \<not> has_identity c (pe_item x)"
      by (simp_all add: life_inv_def)
    have entry: "call_entry turn [row] ?e"
      using t' by (simp add: call_entry_def canonical_entry_def entry_seqs_def)
    show ?thesis
    proof (cases rule: collapse_step_cases [OF inv, of ?e])
      case (1 m)
      then have "m c = Some (length (fst cs))" using own by (simp add: item)
      with 1(1) entry fresh True own ups show ?thesis
        by (intro life_invI [of _ _ _ "fst cs" ?e "[]"]) simp_all
    next
      case (2 d i q)
      with only fresh show ?thesis by auto
    qed
  next
    case False
    with life obtain pre x post where x: "fst cs = pre @ x # post" "snd cs c = Some (length pre)"
      "call_entry turn (updates c rows) x" "\<forall>y\<in>set pre. \<not> has_identity c (pe_item y)"
      "\<forall>y\<in>set post. \<not> has_identity c (pe_item y)"
      by (rule life_invE)
    have ok: "entry_ok x" using inv x(1) by (simp add: collapse_inv_def)
    have "pe_seqEnd x \<in> row_seq ` set (updates c rows)"
      using entry_ends_mem [OF ok] x(3) by (simp add: call_entry_def)
    then have "pe_seqEnd x < row_seq row" using newer by (auto simp: updates_def)
    from call_entry_merge [OF x(3) False ok t' this] obtain q where
      q: "mergeIdentityEntries x ?e = Some q" "call_entry turn (updates c rows @ [row]) q" by blast
    show ?thesis
    proof (cases rule: collapse_step_cases [OF inv, of ?e])
      case (1 m)
      with x q own show ?thesis by (auto simp: item)
    next
      case (2 d i q')
      with only [OF 2(2)] x q have "i = length pre" "q' = q" by (simp_all add: nth_append)
      with 2(1) x q own ups show ?thesis
        by (intro life_invI [of _ _ _ pre q post]) simp_all
    qed
  qed
qed

lemma life_inv_other:
  assumes inv: "collapse_inv rows cs" and life: "life_inv c turn rows cs"
    and other: "\<not> has_identity c (row_item row)"
  shows "life_inv c turn (rows @ [row]) (collapse_step (canonical_entry row) cs)"
proof -
  let ?e = "canonical_entry row"
  have item: "pe_item ?e = row_item row" by (simp add: canonical_entry_def)
  have ups: "updates c (rows @ [row]) = updates c rows" using other by (simp add: updates_snoc)
  show ?thesis
  proof (cases rule: collapse_step_cases [OF inv, of ?e])
    case (1 m)
    then have m: "m c = snd cs c" using other by (simp add: item)
    show ?thesis
    proof (cases "updates c rows = []")
      case True
      with life 1(1) m ups other show ?thesis by (simp add: life_inv_def item)
    next
      case False
      from life_invE [OF life this] obtain pre x post where x: "fst cs = pre @ x # post"
        "snd cs c = Some (length pre)" "call_entry turn (updates c rows) x"
        "\<forall>y\<in>set pre. \<not> has_identity c (pe_item y)" "\<forall>y\<in>set post. \<not> has_identity c (pe_item y)" .
      with 1(1) m False ups other show ?thesis
        by (intro life_invI [of _ _ _ pre x "post @ [?e]"]) (simp_all add: item)
    qed
  next
    case (2 d i q)
    have q: "has_identity d (pe_item q)" "d \<noteq> c"
      using 2(2,6) other identity_merge_item by (auto simp: has_identity_def item)
    then have silent: "\<not> has_identity c (pe_item q)" by (simp add: has_identity_def)
    have no: "\<forall>y\<in>set (xs[j := q]). \<not> has_identity c (pe_item y)"
      if "\<forall>y\<in>set xs. \<not> has_identity c (pe_item y)" for xs j
      using that silent set_update_subset_insert [of xs j q] by auto
    show ?thesis
    proof (cases "updates c rows = []")
      case True
      with life 2(1) ups no [of "fst cs" i] show ?thesis by (simp add: life_inv_def)
    next
      case False
      with life obtain pre x post where x: "fst cs = pre @ x # post" "snd cs c = Some (length pre)"
        "call_entry turn (updates c rows) x" "\<forall>y\<in>set pre. \<not> has_identity c (pe_item y)"
        "\<forall>y\<in>set post. \<not> has_identity c (pe_item y)"
        by (rule life_invE)
      have "has_identity c (pe_item x)" using collapse_slot [OF inv x(2)] x(1) by simp
      then have "i \<noteq> length pre" using 2(5) q(2) x(1) by (auto simp: has_identity_def nth_append)
      then consider "i < length pre" | k where "i = Suc (length pre + k)"
        by (metis less_imp_Suc_add linorder_neqE_nat)
      then show ?thesis
      proof cases
        case 1
        then have "(fst cs)[i := q] = pre[i := q] @ x # post" by (simp add: x(1) list_update_append)
        with 2(1) x no [OF x(4)] False ups show ?thesis
          by (intro life_invI [of _ _ _ "pre[i := q]" x post]) simp_all
      next
        case k: 2
        then have "(fst cs)[i := q] = pre @ x # post[k := q]" by (simp add: x(1) list_update_append)
        with 2(1) x no [OF x(5), of k] False ups show ?thesis
          by (intro life_invI [of _ _ _ pre x "post[k := q]"]) simp_all
      qed
    qed
  qed
qed

lemma life_inv_fold:
  assumes "increasing row_seq rows" and "\<forall>row\<in>set rows. one_turn_call c turn row"
  shows "life_inv c turn rows (fold collapse_step (makeCanonicalEntries rows) ([], Map.empty))"
  using assms
proof (induction rows rule: rev_induct)
  case Nil
  then show ?case by (simp add: life_inv_def updates_def makeCanonicalEntries_def)
next
  case (snoc row rows)
  then have inc: "increasing row_seq rows" and newer: "\<forall>r\<in>set rows. row_seq r < row_seq row"
    by (simp_all add: increasing_append)
  have "life_inv c turn rows (fold collapse_step (makeCanonicalEntries rows) ([], Map.empty))"
    using snoc inc by simp
  note life_inv_own [OF collapse_inv_fold [OF inc] this newer]
    life_inv_other [OF collapse_inv_fold [OF inc] this]
  with snoc.prems(2) show ?case
    by (cases "has_identity c (row_item row)") (simp_all add: makeCanonicalEntries_def)
qed

lemma folded_call_last:
  assumes "folded_call calls = Some t" and "calls \<noteq> []"
  shows "\<exists>t'. call_of (row_item (last calls)) = Some t' \<and> tc_status t = tc_status t' \<and>
    tc_callId t = tc_callId t' \<and>
    (tl calls \<noteq> [] \<and> tc_status t \<in> {Completed, Canceled} \<longrightarrow> tc_error t = Some JNull)"
proof (cases calls rule: rev_cases)
  case (snoc cs r)
  show ?thesis
  proof (cases cs)
    case Nil
    with assms snoc show ?thesis by simp
  next
    case (Cons d ds)
    with assms snoc show ?thesis
      by (auto simp: mergeToolCallItems_def split: option.splits)
  qed
qed (use assms in simp)

lemma filter_identified:
  assumes "\<And>x. P x \<Longrightarrow> Q x" and "filter Q xs = filter Q ys"
  shows "filter P xs = filter P ys"
proof -
  have "filter P zs = filter P (filter Q zs)" for zs
    using assms(1) by (auto simp: filter_filter intro: filter_cong)
  then show ?thesis using assms(2) by metis
qed

text \<open>
  all updates of one tool call within one turn fold into exactly one projected entry, at the
  place of the first of them: its ranges list precisely the rows of the updates, its time is that
  of the last update, its item is the updates merged in order, its status and call id are those of
  the last update, and the error of a call that was updated to completed or canceled is null.
\<close>

lemma tool_call_folds_to_one_entry:
  assumes "increasing row_seq rows" and "\<forall>row\<in>set rows. one_turn_call c turn row"
    and "updates c rows \<noteq> []"
  shows "\<exists>e t t'. filter (\<lambda>e. has_identity c (pe_item e)) (projectTimelineRows rows Projected) = [e] \<and>
     call_entry turn (updates c rows) e \<and> pe_item e = ToolCall t \<and>
     call_of (row_item (last (updates c rows))) = Some t' \<and> tc_status t = tc_status t' \<and>
     tc_callId t = tc_callId t' \<and>
     (length (updates c rows) > 1 \<and> tc_status t \<in> {Completed, Canceled} \<longrightarrow> tc_error t = Some JNull)"
proof -
  let ?collapsed = "collapseByIdentity (makeCanonicalEntries rows)"
  let ?P = "\<lambda>e. has_identity c (pe_item e)"
  from life_invE [OF life_inv_fold [OF assms(1,2)] assms(3)] obtain pre e post where
    e: "?collapsed = pre @ e # post" and
      slot: "snd (fold collapse_step (makeCanonicalEntries rows) ([], Map.empty)) c = Some (length pre)"
    and e': "call_entry turn (updates c rows) e" "\<forall>x\<in>set pre. \<not> ?P x" "\<forall>x\<in>set post. \<not> ?P x"
    by (auto simp: collapseByIdentity_def)
  have "?P e"
    using collapse_slot [OF collapse_inv_fold [OF assms(1)] slot] e by (simp add: collapseByIdentity_def)
  with e e' have "filter ?P ?collapsed = [e]" by (simp add: filter_False)
  moreover have "filter ?P (projectTimelineRows rows Projected) = filter ?P ?collapsed"
    by (rule filter_identified [of _ "\<lambda>x. timelineItemIdentity (pe_item x) \<noteq> None"])
      (simp_all add: has_identity_def projected_eq reasoning.chunks_identified
        assistant.chunks_identified del: not_None_eq)
  moreover from e'(1) obtain t where t: "folded_call (updates c rows) = Some t" "pe_item e = ToolCall t"
    by (auto simp: call_entry_def call_of_Some)
  ultimately show ?thesis
    using e'(1) folded_call_last [OF t(1) assms(3)]
    by (cases "updates c rows") auto
qed

section \<open>A concrete projection\<close>

definition example_call :: "tool_call_status \<Rightarrow> tool_call" where
  "example_call status = \<lparr>tc_callId = ''call'', tc_name = ''shell'',
     tc_detail = DShell ''ls'' None None None, tc_metadata = None, tc_status = status,
     tc_error = None, tc_extra = []\<rparr>"

definition example_rows :: "timeline_row list" where
  "example_rows = [example_row 1 (ToolCall (example_call Running)),
     example_row 2 (AssistantMessage ''a'' None), example_row 3 (AssistantMessage ''b'' None),
     example_row 4 (ToolCall (example_call Completed))]"

lemma example_rows_increasing [simp]: "increasing row_seq example_rows"
  by (simp add: example_rows_def example_row_def)

theorem projection_accounts_for_rows_witness:
  "mset (all_seqs (projectTimelineRows example_rows Projected)) = mset [1, 2, 3, 4]"
  using projection_accounts_for_rows [OF example_rows_increasing]
  by (simp add: example_rows_def example_row_def)

theorem projection_keeps_utterances_witness:
  "said (projectTimelineRows example_rows Projected) = [Said (CHR ''a''), Said (CHR ''b'')]"
  using projection_keeps_utterances [OF example_rows_increasing]
  by (simp add: example_rows_def example_row_def)

theorem tool_call_folds_to_one_entry_witness:
  "\<exists>e t. filter (\<lambda>e. has_identity ''call'' (pe_item e)) (projectTimelineRows example_rows Projected) = [e] \<and>
     entry_seqs e = [1, 4] \<and> pe_item e = ToolCall t \<and> tc_status t = Completed \<and> tc_error t = Some JNull"
proof -
  have ups: "updates ''call'' example_rows =
      [example_row 1 (ToolCall (example_call Running)), example_row 4 (ToolCall (example_call Completed))]"
    by (simp add: updates_def example_rows_def example_row_def has_identity_def example_call_def)
  have one: "\<forall>row\<in>set example_rows. one_turn_call ''call'' None row"
    by (simp add: example_rows_def example_row_def one_turn_call_def has_identity_def)
  show ?thesis
    using tool_call_folds_to_one_entry [OF example_rows_increasing one]
    by (fastforce simp: ups call_entry_def example_row_def example_call_def)
qed

end
