(* ===== verification/Timeline_Pages.thy ===== *)
theory Timeline_Pages
  imports Timeline_Projection "HOL-Library.Product_Lexorder"
begin

text \<open>
  The second half of \<open>packages/server/src/server/agent/timeline-projection.ts\<close>: the selection of
  windows and pages of the projected timeline.  The window of \<open>computeWindowBounds\<close> is \<open>None\<close> for
  the empty selection, where the source has the pair of infinities.  The lemmas show that a window
  never cuts a projected entry, that paging backwards delivers every projected entry once, and
  that paging forwards advances only over rows it delivered.
\<close>

record window_selection =
  ws_projectedEntries :: "projection_entry list"
  ws_selectedRows :: "timeline_row list"
  ws_minSeq :: "int option"
  ws_maxSeq :: "int option"

record page_selection =
  ps_entries :: "projection_entry list"
  ps_startSeq :: "int option"
  ps_endSeq :: "int option"
  ps_hasOlder :: bool
  ps_hasNewer :: bool

section \<open>Windows\<close>

definition computeWindowBounds :: "projection_entry list \<Rightarrow> (int \<times> int) option" where
  "computeWindowBounds entries = (case entries of
      [] \<Rightarrow> None
    | e # es \<Rightarrow> Some (fold (\<lambda>x m. min (pe_seqStart x) m) es (pe_seqStart e),
                     fold (\<lambda>x m. max (pe_seqEnd x) m) es (pe_seqEnd e)))"

definition overlapping :: "projection_entry list \<Rightarrow> (int \<times> int) option \<Rightarrow> projection_entry list" where
  "overlapping entries bounds = (case bounds of
      None \<Rightarrow> []
    | Some (lo, hi) \<Rightarrow> filter (\<lambda>e. pe_seqStart e \<le> hi \<and> lo \<le> pe_seqEnd e) entries)"

primrec expand_window ::
  "projection_entry list \<Rightarrow> nat \<Rightarrow> projection_entry list \<Rightarrow> (int \<times> int) option \<Rightarrow>
     projection_entry list \<times> (int \<times> int) option" where
  "expand_window projectedAll 0 expanded bounds = (expanded, bounds)"
| "expand_window projectedAll (Suc n) expanded bounds =
     (let ov = overlapping projectedAll bounds; nb = computeWindowBounds ov in
      if length ov = length expanded \<and> nb = bounds then (ov, bounds)
      else expand_window projectedAll n ov nb)"

definition empty_window :: window_selection where
  "empty_window = \<lparr>ws_projectedEntries = [], ws_selectedRows = [], ws_minSeq = None, ws_maxSeq = None\<rparr>"

definition selectTimelineWindowByProjectedLimit ::
  "timeline_row list \<Rightarrow> fetch_direction \<Rightarrow> nat \<Rightarrow> window_selection" where
  "selectTimelineWindowByProjectedLimit rows direction limit =
     (let projectedAll = projectTimelineRows rows Projected in
      if projectedAll = [] then empty_window
      else
        let projectedEntries =
              (if limit = 0 \<or> length projectedAll \<le> limit then projectedAll
               else if direction = After then take limit projectedAll
               else take_last limit projectedAll)
        in if projectedEntries = [] then empty_window
           else
             let (expanded, bounds) =
                   expand_window projectedAll (length projectedAll + 1) projectedEntries
                     (computeWindowBounds projectedEntries)
             in \<lparr>ws_projectedEntries = expanded,
                 ws_selectedRows = (case bounds of None \<Rightarrow> []
                   | Some (lo, hi) \<Rightarrow> filter (\<lambda>r. lo \<le> row_seq r \<and> row_seq r \<le> hi) rows),
                 ws_minSeq = map_option fst bounds, ws_maxSeq = map_option snd bounds\<rparr>)"

section \<open>Pages\<close>

definition getTimelineBounds :: "timeline_row list \<Rightarrow> (int \<times> int) option" where
  "getTimelineBounds rows = (case rows of [] \<Rightarrow> None
     | r # _ \<Rightarrow> Some (row_seq r, row_seq (last rows)))"

fun first_in_ranges :: "seq_range list \<Rightarrow> int \<Rightarrow> int \<Rightarrow> int option" where
  "first_in_ranges [] startSeq endSeq = None"
| "first_in_ranges (r # rs) startSeq endSeq =
     (let firstSeq = max (sr_start r) startSeq in
      if firstSeq \<le> min (sr_end r) endSeq then Some firstSeq
      else first_in_ranges rs startSeq endSeq)"

definition firstSourceSeqInRange :: "projection_entry \<Rightarrow> int \<Rightarrow> int \<Rightarrow> int option" where
  "firstSourceSeqInRange entry startSeq endSeq = first_in_ranges (pe_ranges entry) startSeq endSeq"

text \<open>Candidates are triples of an entry, its index and its first source sequence in range.\<close>

type_synonym candidate = "projection_entry \<times> nat \<times> int"

definition eligible_candidates ::
  "projection_entry list \<Rightarrow> int \<Rightarrow> int \<Rightarrow> candidate list" where
  "eligible_candidates entries startSeq maxSeq =
     sort_key (\<lambda>(e, i, f). (f, i))
       (List.map_filter (\<lambda>(i, e). map_option (\<lambda>f. (e, i, f)) (firstSourceSeqInRange e startSeq maxSeq))
          (enumerate 0 entries))"

text \<open>
  The walk over the source rows; the remaining ranges stand for \<open>selectedRanges\<close> from \<open>rangeIndex\<close> on.
\<close>

fun covered_end ::
  "int \<Rightarrow> int \<Rightarrow> timeline_row list \<Rightarrow> seq_range list \<Rightarrow> int \<Rightarrow> int" where
  "covered_end startSeq maxSeq [] ranges endSeq = endSeq"
| "covered_end startSeq maxSeq (row # rows) ranges endSeq =
     (if row_seq row < startSeq then covered_end startSeq maxSeq rows ranges endSeq
      else if maxSeq < row_seq row \<or> row_seq row \<noteq> endSeq + 1 then endSeq
      else let rest = dropWhile (\<lambda>r. sr_end r < row_seq row) ranges in
        case rest of
          [] \<Rightarrow> endSeq
        | r # _ \<Rightarrow>
            (if row_seq row < sr_start r \<or> sr_end r < row_seq row then endSeq
             else covered_end startSeq maxSeq rows rest (row_seq row)))"

definition selectProjectedEntriesAfter ::
  "projection_entry list \<Rightarrow> timeline_row list \<Rightarrow> int \<Rightarrow> int \<Rightarrow> nat \<Rightarrow>
     projection_entry list \<times> int option" where
  "selectProjectedEntriesAfter entries rows startSeq maxSeq limit =
     (let eligible = eligible_candidates entries startSeq maxSeq;
          selected = (if limit = 0 then eligible else take limit eligible);
          selectedEntries = map fst (sort_key (\<lambda>(e, i, f). i) selected)
      in if selectedEntries = [] then ([], None)
         else
           let selectedRanges = sort_key (\<lambda>r. (sr_start r, sr_end r))
                 (concat (map pe_ranges selectedEntries));
               endSeq = covered_end startSeq maxSeq rows selectedRanges (startSeq - 1)
           in (selectedEntries, if startSeq \<le> endSeq then Some endSeq else None))"

definition selectProjectedEntriesBefore ::
  "projection_entry list \<Rightarrow> int \<Rightarrow> nat \<Rightarrow> projection_entry list \<times> int option \<times> bool" where
  "selectProjectedEntriesBefore entries endSeq limit =
     (let eligible = filter (\<lambda>e. pe_seqStart e \<le> endSeq) entries;
          selected = select_last (limit = 0) limit eligible
      in (selected, map_option pe_seqStart (first_opt selected), length selected < length eligible))"

definition empty_page :: "bool \<Rightarrow> bool \<Rightarrow> page_selection" where
  "empty_page hasOlder hasNewer =
     \<lparr>ps_entries = [], ps_startSeq = None, ps_endSeq = None, ps_hasOlder = hasOlder,
      ps_hasNewer = hasNewer\<rparr>"

definition selectProjectedTimelinePage ::
  "timeline_row list \<Rightarrow> (int \<times> int) option \<Rightarrow> fetch_direction \<Rightarrow> int option \<Rightarrow> rat option \<Rightarrow>
     page_selection" where
  "selectProjectedTimelinePage rows given_bounds direction given_cursor given_limit =
     (let limit = (case given_limit of None \<Rightarrow> 0 | Some q \<Rightarrow> nat \<lfloor>q\<rfloor>);
          projectedAll = projectTimelineRows rows Projected
      in case or_else given_bounds (getTimelineBounds rows) of
           None \<Rightarrow> empty_page False False
         | Some (minSeq, maxSeq) \<Rightarrow>
             (if projectedAll = [] then
                (case direction of
                   After \<Rightarrow> (let c = default (minSeq - 1) given_cursor in
                             empty_page (minSeq \<le> c) (c < maxSeq))
                 | Before \<Rightarrow> (let c = default (maxSeq + 1) given_cursor in
                             empty_page (minSeq < c) (c \<le> maxSeq))
                 | Tail \<Rightarrow> empty_page False False)
              else
                (case direction of
                   Tail \<Rightarrow>
                     (let w = selectTimelineWindowByProjectedLimit rows Tail limit in
                      \<lparr>ps_entries = ws_projectedEntries w, ps_startSeq = ws_minSeq w,
                       ps_endSeq = ws_maxSeq w,
                       ps_hasOlder = (case ws_minSeq w of None \<Rightarrow> False | Some m \<Rightarrow> minSeq < m),
                       ps_hasNewer = False\<rparr>)
                 | After \<Rightarrow>
                     (let c = default (minSeq - 1) given_cursor;
                          startSeq = max minSeq (c + 1);
                          (es, endSeq) = selectProjectedEntriesAfter projectedAll rows startSeq maxSeq limit
                      in \<lparr>ps_entries = es,
                          ps_startSeq = (case endSeq of None \<Rightarrow> None | Some _ \<Rightarrow> Some startSeq),
                          ps_endSeq = endSeq, ps_hasOlder = (minSeq < startSeq),
                          ps_hasNewer = (case endSeq of None \<Rightarrow> False | Some e \<Rightarrow> e < maxSeq)\<rparr>)
                 | Before \<Rightarrow>
                     (let c = default (maxSeq + 1) given_cursor;
                          endSeq = min maxSeq (c - 1)
                      in if endSeq < minSeq then empty_page False (endSeq < maxSeq)
                         else
                           let (es, startSeq, older) =
                                 selectProjectedEntriesBefore projectedAll endSeq limit
                           in \<lparr>ps_entries = es, ps_startSeq = startSeq, ps_endSeq = Some endSeq,
                               ps_hasOlder = older, ps_hasNewer = (endSeq < maxSeq)\<rparr>))))"

definition index_row :: "nat \<Rightarrow> timeline_item \<Rightarrow> timeline_row" where
  "index_row i item = \<lparr>row_seq = int i + 1, row_timestamp = [], row_item = item, row_turnId = None,
     row_providerMessageId = None\<rparr>"

record item_selection =
  is_items :: "timeline_item list"
  is_totalProjected :: nat
  is_shownProjected :: nat

definition selectItemsByProjectedLimit ::
  "timeline_item list \<Rightarrow> fetch_direction \<Rightarrow> nat \<Rightarrow> item_selection" where
  "selectItemsByProjectedLimit items direction limit =
     (let rows = map (\<lambda>(i, item). index_row i item) (enumerate 0 items);
          projectedAll = projectTimelineRows rows Projected;
          window = selectTimelineWindowByProjectedLimit rows direction limit
      in \<lparr>is_items = map row_item (ws_selectedRows window), is_totalProjected = length projectedAll,
          is_shownProjected = length (ws_projectedEntries window)\<rparr>)"

section \<open>A window never cuts an entry\<close>

definition bounds_of :: "projection_entry list \<Rightarrow> int \<Rightarrow> int \<Rightarrow> bool" where
  "bounds_of es lo hi \<longleftrightarrow> (\<forall>e\<in>set es. lo \<le> pe_seqStart e \<and> pe_seqEnd e \<le> hi) \<and>
     (\<exists>e\<in>set es. pe_seqStart e = lo) \<and> (\<exists>e\<in>set es. pe_seqEnd e = hi)"

lemma fold_min_bounds:
  fixes f :: "'a \<Rightarrow> int"
  shows "fold (\<lambda>x m. min (f x) m) es a \<le> a \<and> (\<forall>e\<in>set es. fold (\<lambda>x m. min (f x) m) es a \<le> f e) \<and>
    (fold (\<lambda>x m. min (f x) m) es a = a \<or> (\<exists>e\<in>set es. fold (\<lambda>x m. min (f x) m) es a = f e))"
proof (induction es arbitrary: a)
  case (Cons e es)
  show ?case using Cons.IH [of "min (f e) a"] by (cases "f e \<le> a") (auto simp: min_def)
qed simp

lemma fold_max_bounds:
  fixes f :: "'a \<Rightarrow> int"
  shows "a \<le> fold (\<lambda>x m. max (f x) m) es a \<and> (\<forall>e\<in>set es. f e \<le> fold (\<lambda>x m. max (f x) m) es a) \<and>
    (fold (\<lambda>x m. max (f x) m) es a = a \<or> (\<exists>e\<in>set es. fold (\<lambda>x m. max (f x) m) es a = f e))"
proof (induction es arbitrary: a)
  case (Cons e es)
  show ?case using Cons.IH [of "max (f e) a"] by (cases "a \<le> f e") (auto simp: max_def)
qed simp

lemma computeWindowBounds_bounds:
  assumes "es \<noteq> []"
  obtains lo hi where "computeWindowBounds es = Some (lo, hi)" "bounds_of es lo hi"
proof (cases es)
  case Nil
  with assms show ?thesis by simp
next
  case (Cons e es')
  show ?thesis
    by (rule that [OF _ , of "fold (\<lambda>x m. min (pe_seqStart x) m) es' (pe_seqStart e)"
          "fold (\<lambda>x m. max (pe_seqEnd x) m) es' (pe_seqEnd e)"])
      (use fold_min_bounds [of pe_seqStart es' "pe_seqStart e"]
          fold_max_bounds [of "pe_seqEnd e" pe_seqEnd es'] in
        \<open>auto simp: Cons computeWindowBounds_def bounds_of_def\<close>)
qed

lemma bounds_of_unique: "bounds_of es lo hi \<Longrightarrow> bounds_of es lo' hi' \<Longrightarrow> lo = lo' \<and> hi = hi'"
  by (auto simp: bounds_of_def intro: antisym)

lemma filter_grows:
  assumes "es = filter P xs" and "\<And>x. x \<in> set xs \<Longrightarrow> P x \<Longrightarrow> Q x"
  shows "length es \<le> length (filter Q xs) \<and> (length (filter Q xs) = length es \<longrightarrow> filter Q xs = es)"
proof -
  have "length (filter P xs) \<le> length (filter Q xs) \<and>
      (length (filter Q xs) = length (filter P xs) \<longrightarrow> filter Q xs = filter P xs)"
    using assms(2) by (induction xs) (auto simp: Suc_le_eq)
  then show ?thesis by (simp add: assms(1))
qed

text \<open>
  Every round of the expansion that does not end it adds an entry, so the bound of one more round
  than there are entries is never what stops the loop.
\<close>

lemma expand_window_fixpoint:
  assumes "\<forall>e\<in>set xs. pe_seqStart e \<le> pe_seqEnd e"
    and "es = filter P xs" and "es \<noteq> []" and "computeWindowBounds es = Some b"
    and "length xs < n + length es"
  shows "\<exists>es' lo hi. expand_window xs n es (Some b) = (es', Some (lo, hi)) \<and> bounds_of es' lo hi \<and>
     es' = overlapping xs (Some (lo, hi)) \<and> set es \<subseteq> set es'"
  using assms(2-5)
proof (induction n arbitrary: es b P)
  case 0
  have "length es \<le> length xs" unfolding 0(1) by (rule length_filter_le)
  with 0(4) show ?case by linarith
next
  case (Suc n)
  obtain lo hi where lohi: "computeWindowBounds es = Some (lo, hi)" "bounds_of es lo hi"
    by (rule computeWindowBounds_bounds [OF Suc.prems(2)])
  then have b: "b = (lo, hi)" "bounds_of es lo hi" using Suc.prems(3) by simp_all
  let ?Q = "\<lambda>e. pe_seqStart e \<le> hi \<and> lo \<le> pe_seqEnd e"
  let ?ov = "overlapping xs (Some b)"
  have ov: "?ov = filter ?Q xs" by (simp add: overlapping_def b(1))
  have grows: "length es \<le> length ?ov \<and> (length ?ov = length es \<longrightarrow> ?ov = es)"
    unfolding ov using Suc.prems(1)
  proof (rule filter_grows)
    fix x assume "x \<in> set xs" "P x"
    then have "x \<in> set es" by (simp add: Suc.prems(1))
    then show "?Q x" using b(2) assms(1) \<open>x \<in> set xs\<close> by (fastforce simp: bounds_of_def)
  qed
  have sub: "set es \<subseteq> set ?ov"
    using b(2) assms(1) Suc.prems(1) by (fastforce simp: ov bounds_of_def)
  then have ne: "?ov \<noteq> []" using Suc.prems(2) by auto
  obtain b' where b': "computeWindowBounds ?ov = Some b'"
    by (rule computeWindowBounds_bounds [OF ne])
  show ?case
  proof (cases "length ?ov = length es")
    case True
    with grows have "?ov = es" by simp
    with Suc.prems(3) b sub show ?thesis by (auto simp: Let_def)
  next
    case False
    with grows have "length xs < n + length ?ov" using Suc.prems(4) by simp
    from Suc.IH [OF ov ne b' this] obtain es' lo' hi' where
      "expand_window xs n ?ov (Some b') = (es', Some (lo', hi'))" "bounds_of es' lo' hi'"
      "es' = overlapping xs (Some (lo', hi'))" "set ?ov \<subseteq> set es'" by blast
    moreover have "expand_window xs (Suc n) es (Some b) = expand_window xs n ?ov (Some b')"
      using False b' by (simp add: Let_def)
    ultimately show ?thesis using sub by auto
  qed
qed

definition requested :: "fetch_direction \<Rightarrow> nat \<Rightarrow> 'a list \<Rightarrow> 'a list" where
  "requested direction limit xs =
     (if limit = 0 then xs else if direction = After then take limit xs else take_last limit xs)"

lemma requested_filter:
  assumes "distinct xs"
  shows "requested direction limit xs = filter (\<lambda>x. x \<in> set (requested direction limit xs)) xs"
proof -
  have "ys = filter (\<lambda>x. x \<in> set ys) (ys @ zs)" "zs = filter (\<lambda>x. x \<in> set zs) (ys @ zs)"
    if "distinct (ys @ zs)" for ys zs :: "'a list"
    using that by (auto intro!: filter_True [symmetric] filter_False)
  from this [of "take limit xs" "drop limit xs"]
    this [of "take (length xs - limit) xs" "drop (length xs - limit) xs"] assms
  show ?thesis by (simp add: requested_def take_last_def)
qed

lemma filter_concat_map:
  assumes "\<forall>x\<in>set xs. if Q x then \<forall>y\<in>set (f x). P y else \<forall>y\<in>set (f x). \<not> P y"
  shows "concat (map f (filter Q xs)) = filter P (concat (map f xs))"
  using assms by (induction xs) (auto split: if_splits)

text \<open>
  The window selected for a projected-entry limit never cuts through a projected entry: its
  entries are exactly those that lie in the returned bounds, every other entry lies outside of
  them, the requested entries are among them, and the selected rows are precisely the source rows
  of the entries.  In particular the bounded expansion loop always reaches its fixed point.
\<close>

lemma window_never_cuts:
  assumes "increasing row_seq rows" and "rows \<noteq> []"
  shows "\<exists>lo hi. let w = selectTimelineWindowByProjectedLimit rows direction limit;
       es = projectTimelineRows rows Projected in
     ws_minSeq w = Some lo \<and> ws_maxSeq w = Some hi \<and>
     ws_projectedEntries w = filter (\<lambda>e. lo \<le> pe_seqStart e \<and> pe_seqEnd e \<le> hi) es \<and>
     (\<forall>e\<in>set es. (lo \<le> pe_seqStart e \<and> pe_seqEnd e \<le> hi) \<noteq> (hi < pe_seqStart e \<or> pe_seqEnd e < lo)) \<and>
     set (requested direction limit es) \<subseteq> set (ws_projectedEntries w) \<and>
     mset (all_seqs (ws_projectedEntries w)) = mset (map row_seq (ws_selectedRows w))"
proof -
  let ?es = "projectTimelineRows rows Projected"
  let ?r = "requested direction limit ?es"
  have ok: "projection_ok ?es" by (rule projected_ok [OF assms(1)])
  have "row_seq (hd rows) \<in> set (all_seqs ?es)"
    using projected_covers [OF assms(1), of "row_seq (hd rows)"] assms(2) by auto
  then have ne: "?es \<noteq> []" by auto
  then have rne: "?r \<noteq> []" by (simp add: requested_def take_last_Nil)
  have le: "\<forall>e\<in>set ?es. pe_seqStart e \<le> pe_seqEnd e"
    using ok entry_start_le_end by (auto simp: projection_ok_def)
  have dist: "distinct ?es" using ok by (auto simp: projection_ok_def intro: increasing_distinct)
  obtain b where b: "computeWindowBounds ?r = Some b"
    by (rule computeWindowBounds_bounds [OF rne])
  have "length ?es < length ?es + 1 + length ?r" by simp
  from expand_window_fixpoint [OF le requested_filter [OF dist] rne b this]
  obtain es' lo hi where ex: "expand_window ?es (length ?es + 1) ?r (Some b) = (es', Some (lo, hi))"
    "bounds_of es' lo hi" "es' = overlapping ?es (Some (lo, hi))" "set ?r \<subseteq> set es'" by blast
  have fetched: "(if limit = 0 \<or> length ?es \<le> limit then ?es
      else if direction = After then take limit ?es else take_last limit ?es) = ?r"
    by (auto simp: requested_def take_last_def)
  have w: "selectTimelineWindowByProjectedLimit rows direction limit =
      \<lparr>ws_projectedEntries = es', ws_selectedRows = filter (\<lambda>r. lo \<le> row_seq r \<and> row_seq r \<le> hi) rows,
       ws_minSeq = Some lo, ws_maxSeq = Some hi\<rparr>"
    unfolding selectTimelineWindowByProjectedLimit_def Let_def fetched
    using ne rne b ex(1) by simp
  let ?in = "\<lambda>e. lo \<le> pe_seqStart e \<and> pe_seqEnd e \<le> hi"
  have inside: "?in e \<longleftrightarrow> pe_seqStart e \<le> hi \<and> lo \<le> pe_seqEnd e" if "e \<in> set ?es" for e
    using that ex(2,3) le by (auto simp: bounds_of_def overlapping_def)
  have entries: "es' = filter ?in ?es"
    using ex(3) inside by (auto simp: overlapping_def intro!: filter_cong)
  have "all_seqs (filter ?in ?es) = filter (\<lambda>x. lo \<le> x \<and> x \<le> hi) (all_seqs ?es)"
  proof (rule filter_concat_map, intro ballI)
    fix e assume e: "e \<in> set ?es"
    then have "entry_ok e" using ok by (simp add: projection_ok_def)
    with inside [OF e] show "if ?in e then \<forall>y\<in>set (entry_seqs e). lo \<le> y \<and> y \<le> hi
        else \<forall>y\<in>set (entry_seqs e). \<not> (lo \<le> y \<and> y \<le> hi)"
      by (auto dest: entry_seq_bounds)
  qed
  then have "mset (all_seqs es') = filter_mset (\<lambda>x. lo \<le> x \<and> x \<le> hi) (mset (map row_seq rows))"
    using projected_seqs [OF assms(1)] by (metis entries mset_filter)
  also have "\<dots> = mset (map row_seq (filter (\<lambda>r. lo \<le> row_seq r \<and> row_seq r \<le> hi) rows))"
    by (simp add: filter_map o_def flip: mset_filter mset_map)
  finally show ?thesis
    using inside ex(4) entries by (intro exI [of _ lo] exI [of _ hi]) (auto simp: w Let_def)
qed

section \<open>Paging backwards\<close>

text \<open>
  Scrolling back is an instance of the paged log contract, mirrored: the log is the projection
  from its end, its keys are the negated \<open>seqStart\<close>, and the next cursor is the start of the
  oldest entry received.
\<close>

type_synonym projected_view = "timeline_row list \<times> rat option"

definition older_page :: "projected_view \<Rightarrow> int \<Rightarrow> projection_entry list \<times> bool" where
  "older_page v c = (let p = selectProjectedTimelinePage (fst v) None Before (Some (- c)) (snd v) in
     (rev (ps_entries p), ps_hasOlder p))"

definition page_limit :: "rat option \<Rightarrow> nat" where
  "page_limit limit = (case limit of None \<Rightarrow> 0 | Some q \<Rightarrow> nat \<lfloor>q\<rfloor>)"

lemma rev_last_page: "rev (last_page_of n xs) = page_of n (rev xs)"
  by (cases "n \<le> length xs") (auto simp: last_page_of_def page_of_def take_last_def rev_drop)

lemma page_of_all: "length (last_page_of n xs) < length xs \<longleftrightarrow> page_of n (rev xs) \<noteq> rev xs"
  by (auto simp: last_page_of_def page_of_def take_all_iff)

lemma projected_Nil: "increasing row_seq rows \<Longrightarrow> projectTimelineRows rows Projected = [] \<longleftrightarrow> rows = []"
proof
  assume inc: "increasing row_seq rows" and "projectTimelineRows rows Projected = []"
  with projected_covers [OF inc] show "rows = []" by (cases rows) auto
next
  assume "rows = []"
  then show "projectTimelineRows rows Projected = []"
    by (simp add: projectTimelineRows_def makeCanonicalEntries_def collapseByIdentity_def
        mergeAssistantChunks_def mergeReasoningChunks_def)
qed

lemma projected_entry_rows:
  assumes "increasing row_seq rows" and "e \<in> set (projectTimelineRows rows Projected)"
  shows "row_seq (hd rows) \<le> pe_seqStart e" "pe_seqEnd e \<le> row_seq (last rows)"
proof -
  have "entry_ok e" using projected_ok [OF assms(1)] assms(2) by (simp add: projection_ok_def)
  from entry_ends_mem [OF this] have "pe_seqStart e \<in> row_seq ` set rows" "pe_seqEnd e \<in> row_seq ` set rows"
    using projected_covers [OF assms(1)] assms(2) by blast+
  then show "row_seq (hd rows) \<le> pe_seqStart e" "pe_seqEnd e \<le> row_seq (last rows)"
    using increasing_hd_le [OF assms(1)] increasing_le_last [OF assms(1)] by auto
qed

lemma older_page_spec:
  assumes "increasing row_seq rows"
  shows "older_page (rows, limit) c =
    (let older = rows_after (\<lambda>e. - pe_seqStart e) c (rev (projectTimelineRows rows Projected)) in
     (page_of (page_limit limit) older, page_of (page_limit limit) older \<noteq> older))"
proof (cases "rows = []")
  case True
  then show ?thesis
    using projected_Nil [OF assms]
    by (simp add: older_page_def selectProjectedTimelinePage_def getTimelineBounds_def Let_def
        empty_page_def page_of_def)
next
  case False
  let ?es = "projectTimelineRows rows Projected"
  let ?max = "row_seq (last rows)" and ?min = "row_seq (hd rows)"
  let ?older = "filter (\<lambda>e. c < - pe_seqStart e) ?es"
  let ?endSeq = "min ?max (- c - 1)"
  have bounds: "getTimelineBounds rows = Some (?min, ?max)"
    using False by (cases rows) (simp_all add: getTimelineBounds_def)
  have start: "pe_seqStart e \<le> ?max" if "e \<in> set ?es" for e
    using projected_entry_rows [OF assms that] projected_ok [OF assms] that entry_start_le_end [of e]
    by (auto simp: projection_ok_def)
  have older: "filter (\<lambda>e. pe_seqStart e \<le> ?endSeq) ?es = ?older"
    using start by (auto intro!: filter_cong)
  show ?thesis
  proof (cases "?endSeq < ?min")
    case True
    then have "?older = []"
      unfolding older [symmetric] using projected_entry_rows(1) [OF assms]
      by (meson filter_False not_le order_less_le_trans)
    with True bounds False projected_Nil [OF assms] show ?thesis
      by (simp add: older_page_def selectProjectedTimelinePage_def Let_def empty_page_def page_of_def
          rev_filter [symmetric])
  next
    case False
    with bounds \<open>rows \<noteq> []\<close> projected_Nil [OF assms] show ?thesis
      by (simp add: older_page_def selectProjectedTimelinePage_def Let_def
          selectProjectedEntriesBefore_def older older [simplified] page_limit_def [symmetric] rev_last_page page_of_all
          rev_filter [symmetric] del: not_less)
  qed
qed

interpretation older_entries: cursor_log "\<lambda>v. increasing row_seq (fst v)" "\<lambda>v c. True"
  "\<lambda>v. rev (projectTimelineRows (fst v) Projected)" "\<lambda>e. - pe_seqStart e" older_page
proof unfold_locales
  fix v :: projected_view and c :: int
  obtain rows limit where v: "v = (rows, limit)" by fastforce
  assume "increasing row_seq (fst v)"
  then have inc: "increasing row_seq rows" by (simp add: v)
  note spec = older_page_spec [OF inc, of limit c]
  show "increasing (\<lambda>e. - pe_seqStart e) (rev (projectTimelineRows (fst v) Projected))"
    using projected_ok [OF inc] by (simp add: v projection_ok_def increasing_rev)
  show "prefix (fst (older_page v c)) (rows_after (\<lambda>e. - pe_seqStart e) c (rev (projectTimelineRows (fst v) Projected)))"
    by (simp add: v spec Let_def page_of_prefix)
  show "snd (older_page v c) = (fst (older_page v c) \<noteq>
      rows_after (\<lambda>e. - pe_seqStart e) c (rev (projectTimelineRows (fst v) Projected)))"
    by (simp add: v spec Let_def)
  assume "rows_after (\<lambda>e. - pe_seqStart e) c (rev (projectTimelineRows (fst v) Projected)) \<noteq> []"
  then show "fst (older_page v c) \<noteq> []" by (simp add: v spec Let_def)
qed simp

text \<open>
  C30: scrolling back through the projected timeline, each request before the start of the oldest
  entry received and until \<open>hasOlder\<close> is false, delivers every projected entry that starts before
  the first cursor, newest first, each exactly once, whatever the page limit.
\<close>

theorem scroll_back_complete:
  assumes "increasing row_seq rows"
    and "length (filter (\<lambda>e. pe_seqStart e < c) (projectTimelineRows rows Projected)) \<le> n"
  shows "drain (older_page (rows, limit)) (\<lambda>e. - pe_seqStart e) n (- c) =
     rev (filter (\<lambda>e. pe_seqStart e < c) (projectTimelineRows rows Projected))"
  using older_entries.drain_complete [of "(rows, limit)" "- c" n] assms
  by (simp add: rev_filter [symmetric])

section \<open>Paging forwards\<close>

lemma first_in_ranges_sound:
  "first_in_ranges rs a b = Some f \<Longrightarrow> f \<in> set (range_seqs rs) \<and> a \<le> f \<and> f \<le> b"
  by (induction rs) (auto simp: Let_def split: if_splits)

lemma first_in_ranges_start:
  assumes "sorted_wrt (\<lambda>x y. sr_end x < sr_start y) rs" and "a \<in> set (range_seqs rs)" and "a \<le> b"
  shows "first_in_ranges rs a b = Some a"
  using assms
proof (induction rs)
  case (Cons r rs)
  show ?case
  proof (cases "sr_start r \<le> a \<and> a \<le> sr_end r")
    case True
    with Cons.prems(3) show ?thesis by (simp add: Let_def max_absorb2)
  next
    case False
    with Cons.prems(2) have rs: "a \<in> set (range_seqs rs)" by auto
    then obtain y where "y \<in> set rs" "sr_start y \<le> a" by (auto simp: mem_range_seqs)
    with Cons.prems(1) have "sr_end r < a" by fastforce
    with Cons rs show ?thesis by (simp add: Let_def)
  qed
qed simp

text \<open>
  The eligible candidates are the entries with a source row in range, each with its index.
\<close>

lemma mem_eligible:
  "(e, i, f) \<in> set (eligible_candidates es a b) \<longleftrightarrow>
     i < length es \<and> es ! i = e \<and> firstSourceSeqInRange e a b = Some f"
  by (auto simp: eligible_candidates_def map_filter_def in_set_enumerate_eq image_iff
      intro!: bexI [of _ "(i, e)"])

lemma distinct_eligible: "distinct (eligible_candidates es a b)"
proof -
  have "inj_on (\<lambda>x. the (case x of (i, e) \<Rightarrow> map_option (\<lambda>f. (e, i, f)) (firstSourceSeqInRange e a b)))
      (set (filter (\<lambda>x. (case x of (i, e) \<Rightarrow> map_option (\<lambda>f. (e, i, f)) (firstSourceSeqInRange e a b)) \<noteq> None)
        (enumerate 0 es)))"
    by (auto simp: inj_on_def)
  moreover have "distinct (enumerate 0 es)"
    using distinct_zipI1 [of "[0..<0 + length es]" es] by (simp add: enumerate_eq_zip)
  ultimately show ?thesis
    by (simp add: eligible_candidates_def map_filter_def distinct_map comp_def distinct_filter)
qed

definition selected_after :: "projection_entry list \<Rightarrow> int \<Rightarrow> int \<Rightarrow> nat \<Rightarrow> projection_entry list" where
  "selected_after es a b limit = (let eligible = eligible_candidates es a b in
     map fst (sort_key (\<lambda>(e, i, f). i) (if limit = 0 then eligible else take limit eligible)))"

lemma selected_after_facts:
  assumes "distinct es"
  shows "distinct (selected_after es a b limit) \<and> set (selected_after es a b limit) \<subseteq> set es \<and>
    (limit \<noteq> 0 \<longrightarrow> length (selected_after es a b limit) \<le> limit) \<and>
    (\<forall>e\<in>set (selected_after es a b limit). firstSourceSeqInRange e a b \<noteq> None)"
proof -
  let ?el = "eligible_candidates es a b"
  let ?sel = "if limit = 0 then ?el else take limit ?el"
  have sub: "set ?sel \<subseteq> set ?el" using set_take_subset [of limit ?el] by auto
  have "distinct ?sel" using distinct_eligible by (simp add: distinct_take)
  moreover have "inj_on fst (set ?sel)"
  proof (rule inj_onI)
    fix x y :: candidate
    obtain e i f e' j f' where xy: "x = (e, i, f)" "y = (e', j, f')" by (metis prod_cases3)
    assume "x \<in> set ?sel" "y \<in> set ?sel" "fst x = fst y"
    with sub xy have "i < length es" "es ! i = e" "j < length es" "es ! j = e"
      "firstSourceSeqInRange e a b = Some f" "firstSourceSeqInRange e a b = Some f'"
      by (auto simp: mem_eligible)
    with assms xy \<open>fst x = fst y\<close> show "x = y" by (auto simp: nth_eq_iff_index_eq)
  qed
  ultimately have "distinct (selected_after es a b limit)"
    by (simp add: selected_after_def Let_def distinct_map)
  moreover have "\<forall>x\<in>set ?sel. fst x \<in> set es \<and> firstSourceSeqInRange (fst x) a b \<noteq> None"
  proof
    fix x assume x: "x \<in> set ?sel"
    obtain e i f where xe: "x = (e, i, f)" by (metis prod_cases3)
    with x sub have "(e, i, f) \<in> set ?el" by blast
    then show "fst x \<in> set es \<and> firstSourceSeqInRange (fst x) a b \<noteq> None"
      unfolding mem_eligible by (auto simp: xe)
  qed
  ultimately show ?thesis by (auto simp: selected_after_def Let_def)
qed

lemma selected_after_start:
  assumes "e \<in> set es" and "entry_ok e" and "a \<in> set (entry_seqs e)" and "a \<le> b"
  shows "\<exists>e'\<in>set (selected_after es a b limit). a \<in> set (entry_seqs e')"
proof -
  let ?el = "eligible_candidates es a b"
  have "sorted_wrt (\<lambda>x y. sr_end x < sr_start y) (pe_ranges e)"
    using assms(2) by (auto simp: entry_ok_def ranges_ok_def elim: sorted_wrt_mono_rel [rotated])
  then have "firstSourceSeqInRange e a b = Some a"
    using assms(3,4) by (simp add: firstSourceSeqInRange_def first_in_ranges_start entry_seqs_def)
  moreover obtain i where "i < length es" "es ! i = e" using assms(1) by (auto simp: in_set_conv_nth)
  ultimately have "(e, i, a) \<in> set ?el" by (simp add: mem_eligible)
  moreover obtain e' j f where h: "hd ?el = (e', j, f)" by (metis prod_cases3)
  ultimately have mem: "(e', j, f) \<in> set ?el" by (metis hd_in_set list.set_cases list.distinct(1))
  have "sorted (map (\<lambda>(e, i, f). (f, i)) ?el)" by (simp add: eligible_candidates_def)
  with h \<open>(e, i, a) \<in> set ?el\<close> have "(f, j) \<le> (a, i)"
    by (cases ?el) (auto split: prod.splits)
  moreover have "a \<le> f" "f \<in> set (entry_seqs e')"
    using mem first_in_ranges_sound [of "pe_ranges e'" a b f]
    by (auto simp: mem_eligible firstSourceSeqInRange_def entry_seqs_def)
  ultimately have "a \<in> set (entry_seqs e')" by (auto simp: less_eq_prod_def)
  moreover have "(e', j, f) \<in> set (if limit = 0 then ?el else take limit ?el)"
    using h mem by (cases ?el; cases limit) auto
  then have "e' \<in> set (selected_after es a b limit)"
    by (force simp: selected_after_def Let_def)
  ultimately show ?thesis by blast
qed

text \<open>The walk over the source rows.\<close>

abbreviation disjoint_ranges :: "seq_range list \<Rightarrow> bool" where
  "disjoint_ranges rs \<equiv> sorted_wrt (\<lambda>x y. sr_end x < sr_start y) rs"

lemma consecutive_Cons:
  "consecutive_from n (r # rs) \<longleftrightarrow> row_seq r = n \<and> consecutive_from (n + 1) rs"
  by (auto simp: consecutive_from_def nth_Cons less_Suc_eq_0_disj split: nat.splits)

lemma dropWhile_covers:
  "k \<le> x \<Longrightarrow> x \<in> set (range_seqs (dropWhile (\<lambda>r. sr_end r < k) rs)) \<longleftrightarrow> x \<in> set (range_seqs rs)"
  by (induction rs) auto

lemma sorted_wrt_dropWhile: "sorted_wrt R xs \<Longrightarrow> sorted_wrt R (dropWhile Q xs)"
  by (metis dropWhile_eq_drop sorted_wrt_drop)

lemma covered_end_spec:
  assumes "consecutive_from (endSeq + 1) rows" and "startSeq \<le> endSeq + 1"
    and "maxSeq = endSeq + int (length rows)" and "disjoint_ranges ranges"
  shows "let e = covered_end startSeq maxSeq rows ranges endSeq in
     endSeq \<le> e \<and> e \<le> maxSeq \<and> {endSeq + 1..e} \<subseteq> set (range_seqs ranges) \<and>
     (e = maxSeq \<or> e + 1 \<notin> set (range_seqs ranges))"
  using assms
proof (induction rows arbitrary: endSeq ranges)
  case Nil
  then show ?case by simp
next
  case (Cons row rows)
  let ?k = "endSeq + 1"
  let ?rest = "dropWhile (\<lambda>r. sr_end r < ?k) ranges"
  from Cons.prems(1) have row: "row_seq row = ?k" and rows: "consecutive_from (?k + 1) rows"
    by (simp_all add: consecutive_Cons)
  have max: "?k \<le> maxSeq" "maxSeq = ?k + int (length rows)" using Cons.prems(3) by simp_all
  have rest: "x \<in> set (range_seqs ?rest) \<longleftrightarrow> x \<in> set (range_seqs ranges)" if "?k \<le> x" for x
    by (rule dropWhile_covers [OF that])
  have disj: "disjoint_ranges ?rest" using Cons.prems(4) by (rule sorted_wrt_dropWhile)
  show ?case
  proof (cases "?k \<in> set (range_seqs ranges)")
    case False
    then have "?rest = [] \<or> (\<exists>r rs. ?rest = r # rs \<and> \<not> (sr_start r \<le> ?k \<and> ?k \<le> sr_end r))"
      using rest [of ?k] by (cases ?rest) auto
    then have "covered_end startSeq maxSeq (row # rows) ranges endSeq = endSeq"
      using Cons.prems(2) max by (elim disjE exE conjE) (auto simp: row Let_def simp del: dropWhile_eq_Nil_conv)
    with False max show ?thesis by simp
  next
    case True
    then have "?rest \<noteq> []" using rest [of ?k] by (auto simp del: dropWhile_eq_Nil_conv)
    then obtain r rs where r: "?rest = r # rs" by (meson neq_Nil_conv)
    then have "\<not> sr_end r < ?k" by (metis hd_dropWhile list.sel(1) list.distinct(1))
    moreover have "sr_start r \<le> ?k"
    proof (rule ccontr)
      assume no: "\<not> sr_start r \<le> ?k"
      have "?k \<in> set (range_seqs (r # rs))" using True rest [of ?k] r by simp
      with no obtain y where "y \<in> set rs" "sr_start y \<le> ?k" by (auto simp: mem_range_seqs)
      with disj r no \<open>\<not> sr_end r < ?k\<close> show False by fastforce
    qed
    ultimately have "covered_end startSeq maxSeq (row # rows) ranges endSeq =
        covered_end startSeq maxSeq rows ?rest ?k"
      using Cons.prems(2) max r by (simp add: row Let_def)
    moreover define e where "e = covered_end startSeq maxSeq rows ?rest ?k"
    moreover have IH: "?k \<le> e" "e \<le> maxSeq" "{?k + 1..e} \<subseteq> set (range_seqs ?rest)"
      "e = maxSeq \<or> e + 1 \<notin> set (range_seqs ?rest)"
      using Cons.IH [OF rows _ max(2) disj] Cons.prems(2) by (simp_all add: e_def Let_def)
    moreover have "{?k..e} \<subseteq> set (range_seqs ranges)"
    proof
      fix x assume "x \<in> {?k..e}"
      then have "?k \<le> x" "x = ?k \<or> x \<in> {?k + 1..e}" by auto
      with IH(3) True rest show "x \<in> set (range_seqs ranges)" by blast
    qed
    moreover have "e = maxSeq \<or> e + 1 \<notin> set (range_seqs ranges)"
      using IH(1,4) rest [of "e + 1"] by simp
    ultimately show ?thesis by (simp add: Let_def)
  qed
qed

lemma covered_end_skip:
  assumes "consecutive_from n rows" and "n \<le> startSeq"
  shows "covered_end startSeq maxSeq rows ranges endSeq =
    covered_end startSeq maxSeq (drop (nat (startSeq - n)) rows) ranges endSeq"
  using assms
proof (induction rows arbitrary: n)
  case (Cons row rows)
  then have row: "row_seq row = n" "consecutive_from (n + 1) rows" by (simp_all add: consecutive_Cons)
  show ?case
  proof (cases "n = startSeq")
    case False
    with Cons.prems(2) have "nat (startSeq - n) = Suc (nat (startSeq - (n + 1)))" by simp
    with Cons.IH [OF row(2)] row(1) False Cons.prems(2) show ?thesis by simp
  qed simp
qed simp

lemma mset_concat_sort: "mset (concat (map f (sort_key k xs))) = mset (concat (map f xs))"
proof -
  have "mset (concat (map f (insort_key k x ys))) = mset (f x) + mset (concat (map f ys))" for x ys
    by (induction ys) simp_all
  then show ?thesis by (induction xs) (simp_all add: sort_key_def)
qed

lemma sorted_disjoint:
  assumes "distinct (range_seqs rs)" and "\<forall>r\<in>set rs. sr_start r \<le> sr_end r"
    and "sorted (map (\<lambda>r. (sr_start r, sr_end r)) rs)"
  shows "disjoint_ranges rs"
  using assms
proof (induction rs)
  case (Cons r rs)
  have "sr_end r < sr_start y" if y: "y \<in> set rs" for y
  proof (rule ccontr)
    assume "\<not> sr_end r < sr_start y"
    moreover have "sr_start r \<le> sr_start y"
      using Cons.prems(3) y by (fastforce simp: less_eq_prod_def)
    moreover have "sr_start y \<in> set (range_seqs rs)"
      using y Cons.prems(2) by (auto simp: mem_range_seqs)
    ultimately show False using Cons.prems(1) by (auto simp: disjoint_iff)
  qed
  with Cons show ?case by simp
qed simp

lemma distinct_concat_subset:
  assumes "distinct (concat (map f xs))" and "\<forall>x\<in>set xs. f x \<noteq> []" and "distinct xs"
    and "distinct ys" and "set ys \<subseteq> set xs"
  shows "distinct (concat (map f ys))"
proof -
  have disj: "set (f x) \<inter> set (f y) = {}" if "x \<in> set xs" "y \<in> set xs" "x \<noteq> y" for x y
    using assms(1,3) that by (induction xs) auto
  have each: "distinct (f x)" if "x \<in> set xs" for x
    using assms(1) that by (induction xs) auto
  show ?thesis
    using assms(4,5)
  proof (induction ys)
    case (Cons y ys)
    then have "set (f y) \<inter> set (concat (map f ys)) = {}" using disj by fastforce
    with Cons each show ?case by simp
  qed simp
qed

lemma after_selection:
  assumes "consecutive_from n rows" and "rows \<noteq> []" and "n \<le> a" and "a \<le> row_seq (last rows)"
  defines "es \<equiv> projectTimelineRows rows Projected"
  shows "\<exists>e. selectProjectedEntriesAfter es rows a (row_seq (last rows)) limit =
      (selected_after es a (row_seq (last rows)) limit, Some e) \<and>
     a \<le> e \<and> e \<le> row_seq (last rows) \<and>
     {a..e} \<subseteq> set (all_seqs (selected_after es a (row_seq (last rows)) limit)) \<and>
     (e = row_seq (last rows) \<or>
      e + 1 \<notin> set (all_seqs (selected_after es a (row_seq (last rows)) limit)))"
proof -
  let ?max = "row_seq (last rows)"
  let ?sel = "selected_after es a ?max limit"
  let ?ranges = "sort_key (\<lambda>r. (sr_start r, sr_end r)) (concat (map pe_ranges ?sel))"
  have len: "?max = n + int (length rows) - 1"
    using assms(1,2) by (simp add: consecutive_from_def last_conv_nth of_nat_diff Suc_leI)
  have inc: "increasing row_seq rows"
    using assms(1) by (auto simp: increasing_def sorted_wrt_iff_nth_less consecutive_from_def)
  have ok: "projection_ok es" unfolding es_def by (rule projected_ok [OF inc])
  then have dist: "distinct es" by (auto simp: projection_ok_def intro: increasing_distinct)
  note sel = selected_after_facts [OF dist, of a ?max limit]
  have entries: "\<forall>e\<in>set ?sel. entry_ok e" using sel ok by (auto simp: projection_ok_def)
  have "rows ! nat (a - n) \<in> set rows" "row_seq (rows ! nat (a - n)) = a"
    using assms(1,3,4) len by (auto simp: consecutive_from_def)
  then obtain e where "e \<in> set es" "a \<in> set (entry_seqs e)"
    using projected_covers [OF inc, of a] by (metis es_def imageI)
  with ok selected_after_start [of e es a ?max limit] assms(4) have start: "a \<in> set (all_seqs ?sel)"
    by (auto simp: projection_ok_def)
  then have ne: "?sel \<noteq> []" by auto
  have seqs: "range_seqs (concat (map pe_ranges xs)) = all_seqs xs" for xs
    by (induction xs) (simp_all add: range_seqs_def entry_seqs_def)
  have ranges: "mset (range_seqs ?ranges) = mset (all_seqs ?sel)"
    by (simp add: range_seqs_def mset_concat_sort flip: seqs)
  have nonempty: "\<forall>x\<in>set es. entry_seqs x \<noteq> []"
    using ok entry_ends_mem by (fastforce simp: projection_ok_def)
  have "distinct (all_seqs es)" using ok by (simp add: projection_ok_def)
  from distinct_concat_subset [OF this nonempty dist] sel have "distinct (all_seqs ?sel)" by blast
  with ranges have "distinct (range_seqs ?ranges)" by (metis mset_eq_imp_distinct_iff)
  then have disj: "disjoint_ranges ?ranges"
    using entries by (intro sorted_disjoint) (auto simp: entry_ok_def ranges_ok_def)
  let ?rows = "drop (nat (a - n)) rows"
  let ?e = "covered_end a ?max rows ?ranges (a - 1)"
  have "consecutive_from ((a - 1) + 1) ?rows"
    using assms(1,3) by (auto simp: consecutive_from_def)
  moreover have "?max = (a - 1) + int (length ?rows)" using len assms(2,3,4) by auto
  ultimately have spec: "a - 1 \<le> ?e \<and> ?e \<le> ?max \<and> {(a - 1) + 1..?e} \<subseteq> set (range_seqs ?ranges) \<and>
     (?e = ?max \<or> ?e + 1 \<notin> set (range_seqs ?ranges))"
    using covered_end_spec [of "a - 1" ?rows a ?max ?ranges] disj covered_end_skip [OF assms(1,3)]
    by (simp add: Let_def)
  have set_eq: "set (range_seqs ?ranges) = set (all_seqs ?sel)" using mset_eq_setD [OF ranges] .
  have "?e \<noteq> a - 1" using spec start assms(4) set_eq by auto
  then have "a \<le> ?e" using spec by simp
  moreover have "selectProjectedEntriesAfter es rows a ?max limit = (?sel, Some ?e)"
    using ne calculation unfolding selectProjectedEntriesAfter_def Let_def selected_after_def by auto
  ultimately show ?thesis using spec set_eq by auto
qed

text \<open>
  catching up never skips and always advances: on the consecutive rows of a timeline, the
  page after a cursor below the newest row ends at some \<open>endSeq\<close> beyond the cursor; every row up
  to it is covered by an entry of the page, the row right after it by none of them, so \<open>endSeq\<close> is
  as far as the page reaches; the page respects its limit, holds only entries with a row beyond
  the cursor, and \<open>hasNewer\<close> says whether rows beyond \<open>endSeq\<close> remain.
\<close>

lemma catch_up_advances:
  assumes "consecutive_from n rows" and "rows \<noteq> []" and "c < row_seq (last rows)"
  shows "\<exists>e. let p = selectProjectedTimelinePage rows None After (Some c) limit; a = max n (c + 1) in
     ps_startSeq p = Some a \<and> ps_endSeq p = Some e \<and> a \<le> e \<and> e \<le> row_seq (last rows) \<and>
     (\<forall>x\<in>{a..e}. \<exists>entry\<in>set (ps_entries p). x \<in> set (entry_seqs entry)) \<and>
     (e = row_seq (last rows) \<or> (\<forall>entry\<in>set (ps_entries p). e + 1 \<notin> set (entry_seqs entry))) \<and>
     (page_limit limit \<noteq> 0 \<longrightarrow> length (ps_entries p) \<le> page_limit limit) \<and>
     (\<forall>entry\<in>set (ps_entries p). entry \<in> set (projectTimelineRows rows Projected) \<and>
        (\<exists>x\<in>set (entry_seqs entry). c < x)) \<and>
     ps_hasNewer p = (e < row_seq (last rows))"
proof -
  let ?es = "projectTimelineRows rows Projected" and ?max = "row_seq (last rows)"
  let ?a = "max n (c + 1)"
  let ?sel = "selected_after ?es ?a ?max (page_limit limit)"
  have inc: "increasing row_seq rows"
    using assms(1) by (auto simp: increasing_def sorted_wrt_iff_nth_less consecutive_from_def)
  have hd: "row_seq (hd rows) = n" using assms(1,2) by (auto simp: consecutive_from_def hd_conv_nth)
  then have bounds: "getTimelineBounds rows = Some (n, ?max)"
    using assms(2) by (cases rows) (simp_all add: getTimelineBounds_def)
  have "n \<le> ?max"
    using assms(1,2) by (simp add: consecutive_from_def last_conv_nth of_nat_diff Suc_leI)
  then have a: "n \<le> ?a" "?a \<le> ?max" using assms(3) by auto
  from after_selection [OF assms(1,2) a] obtain e where e:
    "selectProjectedEntriesAfter ?es rows ?a ?max (page_limit limit) = (?sel, Some e)"
    "?a \<le> e" "e \<le> ?max" "{?a..e} \<subseteq> set (all_seqs ?sel)"
    "e = ?max \<or> e + 1 \<notin> set (all_seqs ?sel)" by blast
  have dist: "distinct ?es"
    using projected_ok [OF inc] by (auto simp: projection_ok_def intro: increasing_distinct)
  note facts = selected_after_facts [OF dist, of ?a ?max "page_limit limit"]
  have beyond: "\<exists>x\<in>set (entry_seqs entry). c < x" if "entry \<in> set ?sel" for entry
  proof -
    from facts that obtain f where "firstSourceSeqInRange entry ?a ?max = Some f" by blast
    from first_in_ranges_sound [OF this [unfolded firstSourceSeqInRange_def]]
    show ?thesis by (intro bexI [of _ f]) (simp_all add: entry_seqs_def)
  qed
  have page: "selectProjectedTimelinePage rows None After (Some c) limit =
      \<lparr>ps_entries = ?sel, ps_startSeq = Some ?a, ps_endSeq = Some e, ps_hasOlder = (n < ?a),
       ps_hasNewer = (e < ?max)\<rparr>"
    using bounds assms(2) projected_Nil [OF inc] e(1)
    by (simp add: selectProjectedTimelinePage_def page_limit_def [symmetric] Let_def)
  show ?thesis
    unfolding page Let_def using e facts beyond by (intro exI [of _ e]) (auto simp: subset_iff)
qed

section \<open>Concrete pages\<close>

lemma example_rows_consecutive: "consecutive_from 1 example_rows"
  by (simp add: consecutive_Cons example_rows_def example_row_def) (simp add: consecutive_from_def)

lemma example_rows_Nil [simp]: "example_rows \<noteq> []"
  by (simp add: example_rows_def)

theorem window_never_cuts_witness:
  "\<exists>lo hi. ws_minSeq (selectTimelineWindowByProjectedLimit example_rows Tail 1) = Some lo \<and>
     ws_maxSeq (selectTimelineWindowByProjectedLimit example_rows Tail 1) = Some hi"
  using window_never_cuts [OF example_rows_increasing example_rows_Nil, of Tail 1]
  by (auto simp: Let_def)

lemma last_example_row: "row_seq (last example_rows) = 4"
  by (simp add: example_rows_def example_row_def)

theorem catch_up_advances_witness:
  "\<exists>e. ps_endSeq (selectProjectedTimelinePage example_rows None After (Some 1) (Some 1)) = Some e \<and>
     2 \<le> e \<and> e \<le> 4"
proof -
  have "(1 :: int) < row_seq (last example_rows)" by (simp add: last_example_row)
  from catch_up_advances [OF example_rows_consecutive example_rows_Nil this, of "Some 1"]
  show ?thesis by (auto simp: Let_def last_example_row)
qed

lemma example_projection_short:
  "length (filter (\<lambda>e. pe_seqStart e < 5) (projectTimelineRows example_rows Projected)) \<le> 4"
  by code_simp

theorem scroll_back_complete_witness:
  "drain (older_page (example_rows, Some 1)) (\<lambda>e. - pe_seqStart e) 4 (- 5) =
     rev (filter (\<lambda>e. pe_seqStart e < 5) (projectTimelineRows example_rows Projected))"
  by (rule scroll_back_complete [OF example_rows_increasing example_projection_short])

end
