(* ===== verification/Run_State.thy ===== *)
theory Run_State
  imports Timeline_Items
begin

text \<open>
  \<open>packages/server/src/server/agent/agent-run-state.ts\<close>: which run (a foreground turn or an
  autonomous one) an agent is in, and the streams that hand its events to the callers that wait
  for the turn.  Runs are shared, mutable objects, so they live in a store indexed by their token
  (\<open>randomUUID\<close>, an argument here) and the \<open>runs\<close> map holds tokens; \<open>rs_resolved\<close> logs the calls
  of \<open>resolveSettled\<close>.  The object literals that \<open>agent-manager.ts\<close> writes to \<open>pendingRun.start\<close>
  and \<open>pendingRun.stagedEvents\<close> are the operations \<open>setStart\<close> and \<open>stageEvent\<close>.
\<close>

datatype run_start = StartPending | StartStarted string | StartFailed string

datatype run_kind =
    Foreground "agent_stream_event list" run_start
  | Autonomous "string option"

record tracked_run =
  tr_token :: string
  tr_kind :: run_kind
  tr_settled :: bool

record run_state =
  rs_objects :: "string \<rightharpoonup> tracked_run"
  rs_runs :: "string \<rightharpoonup> string"
  rs_resolved :: "string list"

definition empty_runs :: run_state where
  "empty_runs = \<lparr>rs_objects = Map.empty, rs_runs = Map.empty, rs_resolved = []\<rparr>"

definition settleTrackedRun :: "tracked_run \<Rightarrow> run_state \<Rightarrow> run_state" where
  "settleTrackedRun run st =
     (if tr_settled run then st
      else st\<lparr>rs_objects := (rs_objects st)(tr_token run \<mapsto> run\<lparr>tr_settled := True\<rparr>),
              rs_resolved := rs_resolved st @ [tr_token run]\<rparr>)"

definition clearRun :: "string \<Rightarrow> tracked_run \<Rightarrow> run_state \<Rightarrow> run_state" where
  "clearRun agentId run st = settleTrackedRun run (st\<lparr>rs_runs := (rs_runs st)(agentId := None)\<rparr>)"

definition createPendingForegroundRun :: "string \<Rightarrow> tracked_run" where
  "createPendingForegroundRun token =
     \<lparr>tr_token = token, tr_kind = Foreground [] StartPending, tr_settled = False\<rparr>"

definition createPendingRun :: "string \<Rightarrow> string \<Rightarrow> run_state \<Rightarrow> run_state" where
  "createPendingRun agentId token st =
     st\<lparr>rs_objects := (rs_objects st)(token \<mapsto> createPendingForegroundRun token),
        rs_runs := (rs_runs st)(agentId \<mapsto> token)\<rparr>"

definition getRun :: "string \<Rightarrow> run_state \<Rightarrow> tracked_run option" where
  "getRun agentId st = Option.bind (rs_runs st agentId) (rs_objects st)"

definition getPendingRun :: "string \<Rightarrow> run_state \<Rightarrow> tracked_run option" where
  "getPendingRun agentId st = (case getRun agentId st of
      None \<Rightarrow> None
    | Some run \<Rightarrow> (case tr_kind run of Foreground _ _ \<Rightarrow> Some run | Autonomous _ \<Rightarrow> None))"

definition hasPendingRun :: "string \<Rightarrow> run_state \<Rightarrow> bool" where
  "hasPendingRun agentId st \<longleftrightarrow> getPendingRun agentId st \<noteq> None"

definition hasRun :: "string \<Rightarrow> run_state \<Rightarrow> bool" where
  "hasRun agentId st \<longleftrightarrow> rs_runs st agentId \<noteq> None"

definition getTurnId :: "string \<Rightarrow> run_state \<Rightarrow> string option" where
  "getTurnId agentId st = (case getRun agentId st of
      None \<Rightarrow> None
    | Some run \<Rightarrow> (case tr_kind run of
          Autonomous turnId \<Rightarrow> turnId
        | Foreground _ (StartStarted turnId) \<Rightarrow> Some turnId
        | Foreground _ _ \<Rightarrow> None))"

definition trackAutonomousRun :: "string \<Rightarrow> string option \<Rightarrow> string \<Rightarrow> run_state \<Rightarrow> run_state" where
  "trackAutonomousRun agentId turnId token st =
     (case getRun agentId st of
        Some _ \<Rightarrow> st
      | None \<Rightarrow> st\<lparr>rs_objects := (rs_objects st)(token \<mapsto>
            \<lparr>tr_token = token, tr_kind = Autonomous turnId, tr_settled = False\<rparr>),
          rs_runs := (rs_runs st)(agentId \<mapsto> token)\<rparr>)"

definition terminal_ignored :: "run_kind \<Rightarrow> string option \<Rightarrow> bool" where
  "terminal_ignored kind turnId = (case kind of
      Foreground _ (StartStarted t) \<Rightarrow> turnId \<noteq> Some t
    | Foreground _ _ \<Rightarrow> True
    | Autonomous (Some t) \<Rightarrow> turnId \<noteq> None \<and> turnId \<noteq> Some t
    | Autonomous None \<Rightarrow> False)"

definition settleTerminalRun :: "string \<Rightarrow> string option \<Rightarrow> run_state \<Rightarrow> run_state" where
  "settleTerminalRun agentId turnId st = (case getRun agentId st of
      None \<Rightarrow> st
    | Some run \<Rightarrow> if terminal_ignored (tr_kind run) turnId then st else clearRun agentId run st)"

definition settleForegroundRun :: "string \<Rightarrow> string \<Rightarrow> run_state \<Rightarrow> run_state" where
  "settleForegroundRun agentId token st = (case getRun agentId st of
      None \<Rightarrow> st
    | Some run \<Rightarrow> (case tr_kind run of
          Autonomous _ \<Rightarrow> st
        | Foreground _ _ \<Rightarrow> if tr_token run \<noteq> token then st else clearRun agentId run st))"

definition clearAgentRun :: "string \<Rightarrow> run_state \<Rightarrow> run_state" where
  "clearAgentRun agentId st = (case getRun agentId st of
      None \<Rightarrow> st | Some run \<Rightarrow> clearRun agentId run st)"

text \<open>The manager's writes to a run it holds, settled or not.\<close>

definition setStart :: "string \<Rightarrow> run_start \<Rightarrow> run_state \<Rightarrow> run_state" where
  "setStart token start st = (case rs_objects st token of
      Some run \<Rightarrow> (case tr_kind run of
          Foreground staged _ \<Rightarrow>
            st\<lparr>rs_objects := (rs_objects st)(token \<mapsto> run\<lparr>tr_kind := Foreground staged start\<rparr>)\<rparr>
        | Autonomous _ \<Rightarrow> st)
    | None \<Rightarrow> st)"

definition stageEvent :: "string \<Rightarrow> agent_stream_event \<Rightarrow> run_state \<Rightarrow> run_state" where
  "stageEvent token event st = (case rs_objects st token of
      Some run \<Rightarrow> (case tr_kind run of
          Foreground staged start \<Rightarrow>
            st\<lparr>rs_objects := (rs_objects st)(token \<mapsto>
              run\<lparr>tr_kind := Foreground (staged @ [event]) start\<rparr>)\<rparr>
        | Autonomous _ \<Rightarrow> st)
    | None \<Rightarrow> st)"

section \<open>The life of a run\<close>

text \<open>
  The steps of the run table.  As in \<open>streamAgent\<close> and \<open>rewind\<close>, a pending run is created only
  for an agent without a run, and tokens are fresh.
\<close>

inductive run_step :: "run_state \<Rightarrow> run_state \<Rightarrow> bool" where
  step_create: "\<not> hasRun a st \<Longrightarrow> rs_objects st tok = None \<Longrightarrow> run_step st (createPendingRun a tok st)"
| step_autonomous: "rs_objects st tok = None \<Longrightarrow> run_step st (trackAutonomousRun a turn tok st)"
| step_start: "run_step st (setStart tok start st)"
| step_stage: "run_step st (stageEvent tok event st)"
| step_terminal: "run_step st (settleTerminalRun a turn' st)"
| step_foreground: "run_step st (settleForegroundRun a tok st)"
| step_clear: "run_step st (clearAgentRun a st)"

inductive run_reachable :: "run_state \<Rightarrow> bool" where
  run_init: "run_reachable empty_runs"
| run_next: "run_reachable st \<Longrightarrow> run_step st st' \<Longrightarrow> run_reachable st'"

inductive_cases run_stepE: "run_step st st'"

definition is_settled :: "run_state \<Rightarrow> string \<Rightarrow> bool" where
  "is_settled st tok \<longleftrightarrow> (\<exists>run. rs_objects st tok = Some run \<and> tr_settled run)"

definition run_ok :: "run_state \<Rightarrow> bool" where
  "run_ok st \<longleftrightarrow>
     (\<forall>tok run. rs_objects st tok = Some run \<longrightarrow> tr_token run = tok) \<and>
     (\<forall>a tok. rs_runs st a = Some tok \<longrightarrow> rs_objects st tok \<noteq> None) \<and>
     (\<forall>a b tok. rs_runs st a = Some tok \<longrightarrow> rs_runs st b = Some tok \<longrightarrow> a = b) \<and>
     (\<forall>tok. rs_objects st tok \<noteq> None \<longrightarrow> (is_settled st tok \<longleftrightarrow> (\<forall>a. rs_runs st a \<noteq> Some tok))) \<and>
     distinct (rs_resolved st) \<and> (\<forall>tok. tok \<in> set (rs_resolved st) \<longleftrightarrow> is_settled st tok)"

lemma run_okD:
  assumes "run_ok st" and "getRun a st = Some run"
  shows "rs_runs st a = Some (tr_token run)" "rs_objects st (tr_token run) = Some run"
    "\<not> tr_settled run" "\<And>b. rs_runs st b = Some (tr_token run) \<Longrightarrow> b = a"
proof -
  from assms(2) obtain tok where tok: "rs_runs st a = Some tok" "rs_objects st tok = Some run"
    by (auto simp: getRun_def bind_eq_Some_conv)
  moreover have "tr_token run = tok" using assms(1) tok(2) by (simp add: run_ok_def)
  moreover have "\<not> is_settled st tok" using assms(1) tok by (auto simp: run_ok_def)
  ultimately show "rs_runs st a = Some (tr_token run)" "rs_objects st (tr_token run) = Some run"
    "\<not> tr_settled run" by (auto simp: is_settled_def)
  then show "b = a" if "rs_runs st b = Some (tr_token run)" for b
    using assms(1) that unfolding run_ok_def by blast
qed

lemma getRun_None: "run_ok st \<Longrightarrow> getRun a st = None \<longleftrightarrow> rs_runs st a = None"
  by (cases "rs_runs st a") (auto simp: getRun_def run_ok_def)

lemma clearRun_eq:
  assumes "run_ok st" and "getRun a st = Some run"
  shows "clearRun a run st = \<lparr>rs_objects = (rs_objects st)(tr_token run \<mapsto> run\<lparr>tr_settled := True\<rparr>),
     rs_runs = (rs_runs st)(a := None), rs_resolved = rs_resolved st @ [tr_token run]\<rparr>"
  using run_okD(3) [OF assms] by (simp add: clearRun_def settleTrackedRun_def)

lemma run_ok_clear:
  assumes ok: "run_ok st" and run: "getRun a st = Some run"
  shows "run_ok (clearRun a run st)"
proof -
  note facts = run_okD [OF ok run]
  let ?t = "tr_token run" and ?st = "clearRun a run st"
  note eq = clearRun_eq [OF ok run]
  have settled: "is_settled ?st tok \<longleftrightarrow> tok = ?t \<or> is_settled st tok" for tok
    by (simp add: eq is_settled_def)
  have unsettled: "\<not> is_settled st ?t" using facts(2,3) by (simp add: is_settled_def)
  have runs: "rs_runs ?st b = Some tok \<longleftrightarrow> b \<noteq> a \<and> rs_runs st b = Some tok" for b tok
    by (simp add: eq)
  have gone: "rs_runs ?st b \<noteq> Some ?t" for b using facts(4) runs by blast
  have other: "(\<forall>b. rs_runs ?st b \<noteq> Some tok) \<longleftrightarrow> (\<forall>b. rs_runs st b \<noteq> Some tok)" if "tok \<noteq> ?t" for tok
    using that facts(1) runs by (metis option.inject)
  have "tok = ?t \<or> is_settled st tok \<longleftrightarrow> (\<forall>b. rs_runs ?st b \<noteq> Some tok)"
    if "rs_objects ?st tok \<noteq> None" for tok
    using that ok gone other [of tok] by (cases "tok = ?t") (auto simp: eq run_ok_def)
  moreover have "?t \<notin> set (rs_resolved st)" using ok unsettled by (simp add: run_ok_def)
  ultimately show ?thesis
    using ok unfolding run_ok_def settled by (auto simp: eq split: if_splits)
qed

lemma run_ok_new:
  assumes ok: "run_ok st" and free: "rs_runs st a = None" and fresh: "rs_objects st tok = None"
    and "tr_token run = tok" and "\<not> tr_settled run"
  shows "run_ok (st\<lparr>rs_objects := (rs_objects st)(tok \<mapsto> run), rs_runs := (rs_runs st)(a \<mapsto> tok)\<rparr>)"
proof -
  let ?st = "st\<lparr>rs_objects := (rs_objects st)(tok \<mapsto> run), rs_runs := (rs_runs st)(a \<mapsto> tok)\<rparr>"
  have unused: "rs_runs st b \<noteq> Some tok" for b
    using ok fresh unfolding run_ok_def by metis
  have settled: "is_settled ?st t \<longleftrightarrow> is_settled st t" for t
    using fresh assms(5) by (auto simp: is_settled_def)
  have same: "(\<forall>b. rs_runs ?st b \<noteq> Some t) \<longleftrightarrow> (\<forall>b. rs_runs st b \<noteq> Some t)" if "t \<noteq> tok" for t
    using that free by (auto split: if_splits) (metis option.distinct(1))
  have "\<not> is_settled st tok" using fresh by (simp add: is_settled_def)
  then have "is_settled st t \<longleftrightarrow> (\<forall>b. rs_runs ?st b \<noteq> Some t)" if "rs_objects ?st t \<noteq> None" for t
    using that ok same [of t] by (cases "t = tok") (auto simp: run_ok_def)
  then show ?thesis
    using ok unused assms(4) unfolding run_ok_def settled by (auto split: if_splits)
qed

lemma run_ok_write:
  assumes ok: "run_ok st" and "rs_objects st tok = Some run"
  shows "run_ok (st\<lparr>rs_objects := (rs_objects st)(tok \<mapsto> run\<lparr>tr_kind := k\<rparr>)\<rparr>)"
proof -
  have "is_settled (st\<lparr>rs_objects := (rs_objects st)(tok \<mapsto> run\<lparr>tr_kind := k\<rparr>)\<rparr>) t \<longleftrightarrow> is_settled st t" for t
    using assms(2) by (auto simp: is_settled_def)
  then show ?thesis
    using assms unfolding run_ok_def by (auto split: if_splits)
qed

lemma run_ok_step: "run_step st st' \<Longrightarrow> run_ok st \<Longrightarrow> run_ok st'"
proof (induction rule: run_step.induct)
  case (step_create a st tok)
  then show ?case
    using run_ok_new [of st a tok "createPendingForegroundRun tok"]
    by (simp add: createPendingRun_def hasRun_def createPendingForegroundRun_def)
next
  case (step_autonomous st tok a turn)
  then show ?case
    using run_ok_new [of st a tok] getRun_None [of st a]
    by (auto simp: trackAutonomousRun_def split: option.split)
next
  case (step_start tok start st)
  then show ?case
    by (auto simp: setStart_def split: option.split run_kind.split intro: run_ok_write)
next
  case (step_stage tok event st)
  then show ?case
    by (auto simp: stageEvent_def split: option.split run_kind.split intro: run_ok_write)
next
  case (step_terminal a turn st)
  then show ?case by (auto simp: settleTerminalRun_def split: option.split intro: run_ok_clear)
next
  case (step_foreground a tok st)
  then show ?case
    by (auto simp: settleForegroundRun_def split: option.split run_kind.split intro: run_ok_clear)
next
  case (step_clear a st)
  then show ?case by (auto simp: clearAgentRun_def split: option.split intro: run_ok_clear)
qed

lemma run_reachable_ok: "run_reachable st \<Longrightarrow> run_ok st"
proof (induction rule: run_reachable.induct)
  case run_init
  then show ?case by (simp add: run_ok_def empty_runs_def is_settled_def)
qed (rule run_ok_step)

text \<open>
  C13: in every reachable run table a run is settled exactly when no agent is in it any more, each
  run belongs to at most one agent, and its promise is resolved exactly once: the log of
  \<open>resolveSettled\<close> calls has no duplicates and lists precisely the settled runs.
\<close>

theorem runs_settle_exactly_once:
  assumes "run_reachable st"
  shows "distinct (rs_resolved st) \<and> (\<forall>tok. tok \<in> set (rs_resolved st) \<longleftrightarrow> is_settled st tok) \<and>
     (\<forall>tok. rs_objects st tok \<noteq> None \<longrightarrow> is_settled st tok \<noteq> (\<exists>!a. rs_runs st a = Some tok)) \<and>
     (\<forall>tok. is_settled st tok \<longrightarrow> (\<forall>a. rs_runs st a \<noteq> Some tok))"
proof -
  note ok = run_reachable_ok [OF assms, unfolded run_ok_def]
  have "is_settled st tok \<noteq> (\<exists>!a. rs_runs st a = Some tok)" if "rs_objects st tok \<noteq> None" for tok
    using ok that by metis
  moreover have "\<forall>a. rs_runs st a \<noteq> Some tok" if "is_settled st tok" for tok
    using ok that by (auto simp: is_settled_def)
  ultimately show ?thesis using ok by blast
qed

fun may_end :: "run_kind \<Rightarrow> string option \<Rightarrow> bool" where
  "may_end (Foreground _ start) turn = (\<exists>t. start = StartStarted t \<and> turn = Some t)"
| "may_end (Autonomous t) turn = (t = None \<or> turn = None \<or> t = turn)"

text \<open>
  a terminal event of turn \<open>turn\<close> ends a run only when it may be its own: a foreground run
  must have started exactly that turn (a run still pending or failed to start is never ended by an
  event), an autonomous run is spared only when both turn ids are known and differ.  When the run
  is ended its promise is resolved and the agent is free; in every other case, and for every other
  agent, nothing changes.
\<close>

lemma terminal_event_settles:
  assumes "run_reachable st" and "getRun a st = Some run"
  shows "(may_end (tr_kind run) turn \<longrightarrow> getRun a (settleTerminalRun a turn st) = None \<and>
         rs_resolved (settleTerminalRun a turn st) = rs_resolved st @ [tr_token run] \<and>
         is_settled (settleTerminalRun a turn st) (tr_token run)) \<and>
     (\<not> may_end (tr_kind run) turn \<longrightarrow> settleTerminalRun a turn st = st) \<and>
     (\<forall>b. b \<noteq> a \<longrightarrow> getRun b (settleTerminalRun a turn st) = getRun b st)"
proof -
  have ok: "run_ok st" by (rule run_reachable_ok [OF assms(1)])
  note eq = clearRun_eq [OF ok assms(2)]
  have own: "terminal_ignored (tr_kind run) turn \<longleftrightarrow> \<not> may_end (tr_kind run) turn"
    by (cases "tr_kind run") (auto simp: terminal_ignored_def split: run_start.splits option.splits)
  have step: "settleTerminalRun a turn st = (if may_end (tr_kind run) turn then clearRun a run st else st)"
    by (simp add: settleTerminalRun_def assms(2) own)
  have others: "getRun b (clearRun a run st) = getRun b st" if "b \<noteq> a" for b
  proof -
    have "rs_runs st b \<noteq> Some (tr_token run)" using that run_okD(4) [OF ok assms(2)] by blast
    with that show ?thesis by (cases "rs_runs st b") (simp_all add: getRun_def eq)
  qed
  show ?thesis
    using others by (auto simp: step) (simp_all add: eq getRun_def is_settled_def)
qed

section \<open>Streams and their waiters\<close>

text \<open>
  A \<open>ForegroundTurnStream\<close> with its waiter.  \<open>fs_pc\<close> is where the generator \<open>events\<close> stands: not
  started, suspended at a \<open>yield\<close>, awaiting the promise whose resolver is \<open>queueResolve\<close>
  (\<open>fs_waiting\<close>), or finished.  \<open>fs_pushed\<close> and \<open>fs_yielded\<close> are logs of what went in and out.
  Waiters are compared by identity, so an agent holds references \<open>nat\<close> into a store of streams.
\<close>

datatype stream_pc = NotStarted | AtYield agent_stream_event | Awaiting | Finished

record turn_stream =
  fs_turnId :: string
  fs_settled :: bool
  fs_queue :: "agent_stream_event list"
  fs_waiting :: bool
  fs_pc :: stream_pc
  fs_pushed :: "agent_stream_event list"
  fs_yielded :: "agent_stream_event list"

type_synonym stream_store = "nat \<rightharpoonup> turn_stream"

record foreground_agent =
  fa_waiters :: "nat list"
  fa_finalized :: "string list"

definition createTurnStream :: "string \<Rightarrow> turn_stream" where
  "createTurnStream turnId = \<lparr>fs_turnId = turnId, fs_settled = False, fs_queue = [],
     fs_waiting = False, fs_pc = NotStarted, fs_pushed = [], fs_yielded = []\<rparr>"

definition wake :: "turn_stream \<Rightarrow> turn_stream" where
  "wake s = (if \<not> fs_waiting s then s else s\<lparr>fs_waiting := False\<rparr>)"

definition waiter_callback :: "agent_stream_event \<Rightarrow> turn_stream \<Rightarrow> turn_stream" where
  "waiter_callback event s =
     wake (s\<lparr>fs_queue := fs_queue s @ [event], fs_pushed := fs_pushed s @ [event]\<rparr>)"

definition settle_stream :: "turn_stream \<Rightarrow> turn_stream" where
  "settle_stream s = (if fs_settled s then s else s\<lparr>fs_settled := True\<rparr>)"

definition on_waiter :: "(turn_stream \<Rightarrow> turn_stream) \<Rightarrow> nat \<Rightarrow> stream_store \<Rightarrow> stream_store" where
  "on_waiter f w h = (case h w of None \<Rightarrow> h | Some s \<Rightarrow> h(w \<mapsto> f s))"

definition settleWaiter :: "nat \<Rightarrow> stream_store \<Rightarrow> stream_store" where
  "settleWaiter w h = on_waiter settle_stream w h"

definition addWaiter :: "nat \<Rightarrow> foreground_agent \<Rightarrow> foreground_agent" where
  "addWaiter w agent = agent\<lparr>fa_waiters :=
     (if w \<in> set (fa_waiters agent) then fa_waiters agent else fa_waiters agent @ [w])\<rparr>"

definition deleteWaiter :: "nat \<Rightarrow> foreground_agent \<Rightarrow> stream_store \<Rightarrow> foreground_agent \<times> stream_store" where
  "deleteWaiter w agent h =
     (agent\<lparr>fa_waiters := filter (\<lambda>x. x \<noteq> w) (fa_waiters agent)\<rparr>, settleWaiter w h)"

definition getMatchingWaiters :: "foreground_agent \<Rightarrow> stream_store \<Rightarrow> string option \<Rightarrow> nat list" where
  "getMatchingWaiters agent h turnId = (case turnId of
      None \<Rightarrow> []
    | Some t \<Rightarrow> filter (\<lambda>w. \<exists>s. h w = Some s \<and> fs_turnId s = t \<and> \<not> fs_settled s) (fa_waiters agent))"

definition notifyWaiters :: "nat list \<Rightarrow> agent_stream_event \<Rightarrow> bool \<Rightarrow> stream_store \<Rightarrow> stream_store" where
  "notifyWaiters waiters event terminal h =
     fold (\<lambda>w h. let h1 = on_waiter (waiter_callback event) w h in
       if terminal then settleWaiter w h1 else h1) waiters h"

definition notifyAgentWaiters ::
  "foreground_agent \<Rightarrow> agent_stream_event \<Rightarrow> bool option \<Rightarrow> stream_store \<Rightarrow> stream_store" where
  "notifyAgentWaiters agent event terminal h =
     notifyWaiters (getMatchingWaiters agent h (getAgentStreamEventTurnId event)) event
       (default False terminal) h"

definition cancelWaiters ::
  "foreground_agent \<Rightarrow> (string \<Rightarrow> agent_stream_event) \<Rightarrow> stream_store \<Rightarrow> foreground_agent \<times> stream_store" where
  "cancelWaiters agent createEvent h =
     (agent\<lparr>fa_waiters := []\<rparr>,
      fold (\<lambda>w h. settleWaiter w (on_waiter (\<lambda>s. waiter_callback (createEvent (fs_turnId s)) s) w h))
        (fa_waiters agent) h)"

definition rememberFinalizedTurn :: "foreground_agent \<Rightarrow> string \<Rightarrow> foreground_agent" where
  "rememberFinalizedTurn agent turnId =
     (let ids = fa_finalized agent;
          added = (if turnId \<in> set ids then ids else ids @ [turnId]) in
      if length added \<le> 50 then agent\<lparr>fa_finalized := added\<rparr>
      else case added of
        [] \<Rightarrow> agent\<lparr>fa_finalized := added\<rparr>
      | oldest # rest \<Rightarrow> agent\<lparr>fa_finalized := (if oldest \<noteq> [] then rest else added)\<rparr>)"

definition hasFinalizedTurn :: "foreground_agent \<Rightarrow> string \<Rightarrow> bool" where
  "hasFinalizedTurn agent turnId \<longleftrightarrow> turnId \<in> set (fa_finalized agent)"

text \<open>
  One resumption of the generator: it runs until it yields, awaits or returns.  A generator whose
  promise is still unresolved cannot be resumed.
\<close>

definition stream_loop :: "turn_stream \<Rightarrow> turn_stream" where
  "stream_loop s = (case fs_queue s of
      event # rest \<Rightarrow> s\<lparr>fs_queue := rest, fs_pc := AtYield event, fs_yielded := fs_yielded s @ [event]\<rparr>
    | [] \<Rightarrow> if fs_settled s then s\<lparr>fs_pc := Finished\<rparr> else s\<lparr>fs_pc := Awaiting, fs_waiting := True\<rparr>)"

definition resume :: "(agent_stream_event \<Rightarrow> bool) \<Rightarrow> turn_stream \<Rightarrow> turn_stream" where
  "resume isTerminalEvent s = (case fs_pc s of
      NotStarted \<Rightarrow> stream_loop s
    | AtYield event \<Rightarrow> if isTerminalEvent event then s\<lparr>fs_pc := Finished\<rparr> else stream_loop s
    | Awaiting \<Rightarrow> if fs_waiting s then s else stream_loop s
    | Finished \<Rightarrow> s)"

inductive stream_step ::
  "(agent_stream_event \<Rightarrow> bool) \<Rightarrow> turn_stream \<Rightarrow> turn_stream \<Rightarrow> bool" for isT where
  stream_push: "stream_step isT s (waiter_callback event s)"
| stream_settle: "stream_step isT s (settle_stream s)"
| stream_resume: "stream_step isT s (resume isT s)"

inductive stream_reachable ::
  "(agent_stream_event \<Rightarrow> bool) \<Rightarrow> string \<Rightarrow> turn_stream \<Rightarrow> bool" for isT turnId where
  stream_start: "stream_reachable isT turnId (createTurnStream turnId)"
| stream_next: "stream_reachable isT turnId s \<Longrightarrow> stream_step isT s s' \<Longrightarrow> stream_reachable isT turnId s'"

definition stream_ok :: "(agent_stream_event \<Rightarrow> bool) \<Rightarrow> turn_stream \<Rightarrow> bool" where
  "stream_ok isT s \<longleftrightarrow>
     fs_yielded s @ fs_queue s = fs_pushed s \<and>
     (fs_waiting s \<longrightarrow> fs_pc s = Awaiting \<and> fs_queue s = []) \<and>
     (\<forall>e\<in>set (butlast (fs_yielded s)). \<not> isT e) \<and>
     (case fs_pc s of
        NotStarted \<Rightarrow> fs_yielded s = []
      | AtYield e \<Rightarrow> fs_yielded s \<noteq> [] \<and> last (fs_yielded s) = e
      | Awaiting \<Rightarrow> \<forall>e\<in>set (fs_yielded s). \<not> isT e
      | Finished \<Rightarrow> (fs_yielded s \<noteq> [] \<and> isT (last (fs_yielded s))) \<or>
          fs_settled s \<and> (\<forall>e\<in>set (fs_yielded s). \<not> isT e))"

lemma stream_loop_ok:
  assumes "stream_ok isT s" and "\<not> fs_waiting s" and "\<forall>e\<in>set (fs_yielded s). \<not> isT e"
  shows "stream_ok isT (stream_loop s)"
  using assms by (cases "fs_queue s") (auto simp: stream_ok_def stream_loop_def)

lemma butlast_last_all: "xs \<noteq> [] \<Longrightarrow> \<forall>e\<in>set (butlast xs). P e \<Longrightarrow> P (last xs) \<Longrightarrow> \<forall>e\<in>set xs. P e"
  by (metis append_butlast_last_id in_set_conv_decomp_last Un_iff set_append set_ConsD empty_iff empty_set list.set(2) insertE)

lemma stream_ok_resume: "stream_ok isT s \<Longrightarrow> stream_ok isT (resume isT s)"
proof (cases "fs_pc s")
  case NotStarted
  moreover assume "stream_ok isT s"
  ultimately have "stream_ok isT s" "\<not> fs_waiting s" "\<forall>e\<in>set (fs_yielded s). \<not> isT e"
    by (auto simp: stream_ok_def)
  with NotStarted show ?thesis by (simp add: resume_def stream_loop_ok)
next
  case (AtYield e)
  moreover assume ok: "stream_ok isT s"
  ultimately have y: "fs_yielded s \<noteq> []" "last (fs_yielded s) = e" "\<not> fs_waiting s"
    "\<forall>e\<in>set (butlast (fs_yielded s)). \<not> isT e" by (auto simp: stream_ok_def)
  show ?thesis
  proof (cases "isT e")
    case True
    with AtYield y ok show ?thesis by (simp add: resume_def stream_ok_def)
  next
    case False
    with y have "\<forall>e\<in>set (fs_yielded s). \<not> isT e" using butlast_last_all [of "fs_yielded s"] by blast
    with AtYield False y ok show ?thesis by (simp add: resume_def stream_loop_ok)
  qed
next
  case Awaiting
  moreover assume "stream_ok isT s"
  ultimately have "stream_ok isT s" "\<forall>e\<in>set (fs_yielded s). \<not> isT e"
    by (auto simp: stream_ok_def)
  with Awaiting show ?thesis by (simp add: resume_def stream_loop_ok)
qed (simp add: resume_def)

lemma stream_reachable_ok: "stream_reachable isT turnId s \<Longrightarrow> stream_ok isT s"
proof (induction rule: stream_reachable.induct)
  case stream_start
  then show ?case by (simp add: stream_ok_def createTurnStream_def)
next
  case (stream_next s s')
  from stream_next.hyps(2) stream_next.IH show ?case
  proof cases
    case (stream_push event)
    with stream_next.IH show ?thesis
      by (auto simp: stream_ok_def waiter_callback_def wake_def split: stream_pc.splits)
  next
    case stream_settle
    with stream_next.IH show ?thesis
      by (auto simp: stream_ok_def settle_stream_def split: stream_pc.splits)
  next
    case stream_resume
    with stream_next.IH show ?thesis by (simp add: stream_ok_resume)
  qed
qed

text \<open>
  Whatever the interleaving of the daemon's callbacks and settlements with the caller's
  requests, the caller of a turn stream sees the pushed events in order without loss or
  duplication: what it was given plus what is queued is what was pushed, a terminal event is never
  followed by another one, the generator sleeps only on an empty queue (no lost wake-up), and it
  ends only after a terminal event or once the waiter was settled.
\<close>

lemma turn_stream_in_order:
  assumes "stream_reachable isT turnId s"
  shows "fs_yielded s @ fs_queue s = fs_pushed s \<and> (fs_waiting s \<longrightarrow> fs_queue s = []) \<and>
     (\<forall>e\<in>set (butlast (fs_yielded s)). \<not> isT e) \<and>
     (fs_pc s = Finished \<longrightarrow> fs_settled s \<or> (fs_yielded s \<noteq> [] \<and> isT (last (fs_yielded s))))"
  using stream_reachable_ok [OF assms] by (auto simp: stream_ok_def)

lemma drain_queue:
  assumes "stream_ok isT s" and "fs_queue s = before @ t # after" and "\<forall>e\<in>set before. \<not> isT e"
    and "isT t" and "\<forall>e\<in>set (fs_yielded s). \<not> isT e" and "fs_pc s \<noteq> Finished"
  shows "let s' = (resume isT ^^ (length before + 2)) s in
     fs_pc s' = Finished \<and> fs_yielded s' = fs_yielded s @ before @ [t]"
  using assms
proof (induction before arbitrary: s)
  case Nil
  then have step: "resume isT s = stream_loop s"
    by (auto simp: resume_def stream_ok_def split: stream_pc.splits)
  with Nil show ?case by (simp add: stream_loop_def resume_def [of isT "_\<lparr>fs_queue := _, fs_pc := _, fs_yielded := _\<rparr>"])
next
  case (Cons e before)
  let ?s = "resume isT s"
  have "resume isT s = stream_loop s"
    using Cons.prems by (auto simp: resume_def stream_ok_def split: stream_pc.splits)
  then have s: "fs_queue ?s = before @ t # after" "fs_yielded ?s = fs_yielded s @ [e]" "fs_pc ?s = AtYield e"
    using Cons.prems(2) by (simp_all add: stream_loop_def)
  have "stream_ok isT ?s" using Cons.prems(1) by (rule stream_ok_resume)
  from Cons.IH [OF this s(1)] Cons.prems(3-5) s show ?case
    by (simp add: funpow_swap1 Let_def)
qed

text \<open>
  once a terminal event is queued behind \<open>k\<close> others, a caller that is not already past a
  terminal event gets all of them and then the end of the stream in \<open>k + 2\<close> requests, without
  waiting for anything else.
\<close>

lemma turn_stream_completes:
  assumes "stream_reachable isT turnId s" and "fs_queue s = before @ t # after"
    and "\<forall>e\<in>set before. \<not> isT e" and "isT t" and "\<forall>e\<in>set (fs_yielded s). \<not> isT e"
    and "fs_pc s \<noteq> Finished"
  shows "fs_pc ((resume isT ^^ (length before + 2)) s) = Finished \<and>
     fs_yielded ((resume isT ^^ (length before + 2)) s) = fs_yielded s @ before @ [t]"
  using drain_queue [OF stream_reachable_ok [OF assms(1)] assms(2-)] by (simp add: Let_def)

section \<open>Notifying, cancelling, remembering\<close>

lemma on_waiter_apply: "on_waiter f w h x = (if x = w then map_option f (h x) else h x)"
  by (cases "h w") (auto simp: on_waiter_def)

lemma fold_on_waiter:
  "distinct ws \<Longrightarrow> fold (\<lambda>w. on_waiter f w) ws h x = (if x \<in> set ws then map_option f (h x) else h x)"
  by (induction ws arbitrary: h) (auto simp: on_waiter_apply)

definition deliver :: "agent_stream_event \<Rightarrow> bool \<Rightarrow> turn_stream \<Rightarrow> turn_stream" where
  "deliver event terminal s =
     (if terminal then settle_stream (waiter_callback event s) else waiter_callback event s)"

lemma notify_step:
  "(let h1 = on_waiter (waiter_callback event) w h in if terminal then settleWaiter w h1 else h1) =
     on_waiter (deliver event terminal) w h"
  by (auto simp: settleWaiter_def deliver_def on_waiter_def fun_eq_iff split: option.splits)

lemma notifyWaiters_apply:
  "distinct ws \<Longrightarrow> notifyWaiters ws event terminal h x =
     (if x \<in> set ws then map_option (deliver event terminal) (h x) else h x)"
  by (simp add: notifyWaiters_def notify_step fold_on_waiter)

lemma deliver_fields [simp]:
  "fs_pushed (deliver event terminal s) = fs_pushed s @ [event]"
  "fs_queue (deliver event terminal s) = fs_queue s @ [event]"
  "\<not> fs_waiting (deliver event terminal s)"
  "fs_settled (deliver event terminal s) = (terminal \<or> fs_settled s)"
  "fs_turnId (deliver event terminal s) = fs_turnId s"
  by (auto simp: deliver_def waiter_callback_def settle_stream_def wake_def)

text \<open>
  an event reaches exactly the unsettled waiters of its own turn: each of them gets it once
  and is woken, every other stream is untouched, and after a terminal notification no later
  notification of that turn changes any stream.
\<close>

lemma notify_reaches_its_turn:
  assumes "distinct (fa_waiters agent)" and "h w = Some s"
  shows "(\<exists>s'. notifyAgentWaiters agent event terminal h w = Some s' \<and>
       (if w \<in> set (fa_waiters agent) \<and> getAgentStreamEventTurnId event = Some (fs_turnId s) \<and> \<not> fs_settled s
        then fs_pushed s' = fs_pushed s @ [event] \<and> \<not> fs_waiting s' \<and>
          fs_settled s' = (terminal = Some True)
        else s' = s)) \<and>
     (terminal = Some True \<and> getAgentStreamEventTurnId later = getAgentStreamEventTurnId event \<longrightarrow>
        notifyAgentWaiters agent later again (notifyAgentWaiters agent event terminal h) =
        notifyAgentWaiters agent event terminal h)"
proof -
  let ?ws = "getMatchingWaiters agent h (getAgentStreamEventTurnId event)"
  let ?h = "notifyAgentWaiters agent event terminal h"
  have dist: "distinct ?ws" using assms(1) by (auto simp: getMatchingWaiters_def split: option.split)
  have tm: "default False terminal = (terminal = Some True)" by (cases terminal) auto
  have applied: "?h x = (if x \<in> set ?ws then map_option (deliver event (terminal = Some True)) (h x) else h x)" for x
    by (simp add: notifyAgentWaiters_def notifyWaiters_apply [OF dist] tm)
  have mem: "x \<in> set ?ws \<longleftrightarrow> x \<in> set (fa_waiters agent) \<and>
      (\<exists>s. h x = Some s \<and> getAgentStreamEventTurnId event = Some (fs_turnId s) \<and> \<not> fs_settled s)" for x
    by (auto simp: getMatchingWaiters_def split: option.splits)
  have silent: "getMatchingWaiters agent ?h (getAgentStreamEventTurnId event) = []"
    if "terminal = Some True"
  proof -
    have "fs_settled s'" if x: "x \<in> set (fa_waiters agent)" "?h x = Some s'"
      "getAgentStreamEventTurnId event = Some (fs_turnId s')" for x s'
      using applied [of x] mem [of x] x \<open>terminal = Some True\<close> by (cases "x \<in> set ?ws") auto
    then show ?thesis by (auto simp: getMatchingWaiters_def filter_empty_conv split: option.split)
  qed
  have "notifyAgentWaiters agent later again ?h = ?h"
    if "terminal = Some True" "getAgentStreamEventTurnId later = getAgentStreamEventTurnId event"
    using silent that by (simp add: notifyAgentWaiters_def [of agent later] notifyWaiters_def)
  moreover have "?h w = Some (if w \<in> set (fa_waiters agent) \<and>
      getAgentStreamEventTurnId event = Some (fs_turnId s) \<and> \<not> fs_settled s
      then deliver event (terminal = Some True) s else s)"
    by (simp add: applied mem assms(2))
  ultimately show ?thesis by auto
qed

lemma remember_cases:
  assumes "length (fa_finalized agent) \<le> 50" and "[] \<notin> set (fa_finalized agent)" and "turn \<noteq> []"
  shows "fa_finalized (rememberFinalizedTurn agent turn) =
    (if turn \<in> set (fa_finalized agent) then fa_finalized agent
     else take_last 50 (fa_finalized agent @ [turn]))"
proof (cases "fa_finalized agent")
  case Nil
  then show ?thesis by (simp add: rememberFinalizedTurn_def take_last_all)
next
  case (Cons x xs)
  with assms show ?thesis
    by (cases "length xs = 49") (auto simp: rememberFinalizedTurn_def Let_def take_last_def)
qed

lemma finalized_fold:
  assumes "fa_finalized agent = []" and "[] \<notin> set turns"
  shows "let ids = fa_finalized (fold (\<lambda>t a. rememberFinalizedTurn a t) turns agent) in
    length ids \<le> 50 \<and> distinct ids \<and> set ids \<subseteq> set turns \<and> (turns \<noteq> [] \<longrightarrow> last turns \<in> set ids) \<and>
    (distinct turns \<longrightarrow> ids = take_last 50 turns)"
  using assms
proof (induction turns rule: rev_induct)
  case Nil
  then show ?case by (simp add: take_last_def)
next
  case (snoc t turns)
  let ?a = "fold (\<lambda>t a. rememberFinalizedTurn a t) turns agent"
  have IH: "length (fa_finalized ?a) \<le> 50" "distinct (fa_finalized ?a)"
    "set (fa_finalized ?a) \<subseteq> set turns" "distinct turns \<longrightarrow> fa_finalized ?a = take_last 50 turns"
    using snoc by (simp_all add: Let_def)
  then have "[] \<notin> set (fa_finalized ?a)" "t \<noteq> []" using snoc.prems(2) by auto
  note step = remember_cases [OF IH(1) this]
  have sub: "set (take_last 50 (fa_finalized ?a @ [t])) \<subseteq> set (fa_finalized ?a @ [t])"
    using set_mono_suffix [OF take_last_suffix] .
  have "t \<in> set (take_last 50 (fa_finalized ?a @ [t]))" by (simp add: take_last_def)
  moreover have "distinct (take_last 50 (fa_finalized ?a @ [t]))" if "t \<notin> set (fa_finalized ?a)"
    using that IH(2) distinct_drop [of "fa_finalized ?a @ [t]"] by (simp add: take_last_def del: drop_append)
  moreover have "fa_finalized (rememberFinalizedTurn ?a t) = take_last 50 (turns @ [t])"
    if "distinct (turns @ [t])"
    using that IH(3,4) step by (auto simp: take_last_snoc)
  ultimately show ?case using step IH sub by (auto simp: Let_def)
qed

text \<open>
  the memory of finalized turns is bounded and recent: remembering any sequence of turn ids
  keeps at most 50 of them, without duplicates, the latest always among them, and exactly the last
  50 when the ids are distinct.
\<close>

lemma finalized_turns_recent:
  assumes "fa_finalized agent = []" and "[] \<notin> set turns"
  defines "final \<equiv> fold (\<lambda>t a. rememberFinalizedTurn a t) turns agent"
  shows "length (fa_finalized final) \<le> 50 \<and> distinct (fa_finalized final) \<and>
     (turns \<noteq> [] \<longrightarrow> hasFinalizedTurn final (last turns)) \<and>
     (distinct turns \<longrightarrow> fa_finalized final = take_last 50 turns)"
  using finalized_fold [OF assms(1,2)] by (simp add: final_def Let_def hasFinalizedTurn_def)

section \<open>Concrete runs and streams\<close>

definition example_runs :: run_state where
  "example_runs = setStart ''r'' (StartStarted ''t1'') (createPendingRun ''agent'' ''r'' empty_runs)"

lemma example_runs_reachable: "run_reachable example_runs"
  unfolding example_runs_def
  by (intro run_next [OF run_next [OF run_init step_create] step_start])
    (simp_all add: hasRun_def empty_runs_def)

lemma example_runs_get: "getRun ''agent'' example_runs =
    Some \<lparr>tr_token = ''r'', tr_kind = Foreground [] (StartStarted ''t1''), tr_settled = False\<rparr>"
  by (simp add: example_runs_def createPendingRun_def createPendingForegroundRun_def setStart_def
      empty_runs_def getRun_def)

theorem runs_settle_exactly_once_witness:
  "\<exists>!a. rs_runs (settleTerminalRun ''b'' None example_runs) a = Some ''r''"
proof -
  have "run_reachable (settleTerminalRun ''b'' None example_runs)"
    by (intro run_next [OF example_runs_reachable] step_terminal)
  from runs_settle_exactly_once [OF this] show ?thesis
    by (auto simp: example_runs_def createPendingRun_def createPendingForegroundRun_def setStart_def
        empty_runs_def getRun_def settleTerminalRun_def is_settled_def)
qed

theorem terminal_event_settles_witness:
  "getRun ''agent'' (settleTerminalRun ''agent'' (Some ''t1'') example_runs) = None \<and>
   settleTerminalRun ''agent'' (Some ''t0'') example_runs = example_runs"
  using terminal_event_settles [OF example_runs_reachable example_runs_get, of "Some ''t1''"]
    terminal_event_settles [OF example_runs_reachable example_runs_get, of "Some ''t0''"]
  by simp

definition example_event :: "string \<Rightarrow> agent_stream_event" where
  "example_event text = TimelineEvent (AssistantMessage text None) ''p'' (Some ''t1'') None"

definition is_turn_end :: "agent_stream_event \<Rightarrow> bool" where
  "is_turn_end e = (case e of TurnCompleted _ _ _ \<Rightarrow> True | _ \<Rightarrow> False)"

definition example_stream :: turn_stream where
  "example_stream = waiter_callback (TurnCompleted ''p'' None (Some ''t1''))
     (waiter_callback (example_event ''a'') (resume is_turn_end (createTurnStream ''t1'')))"

lemma example_stream_reachable: "stream_reachable is_turn_end ''t1'' example_stream"
  unfolding example_stream_def
  by (rule stream_next [OF stream_next [OF stream_next [OF stream_start stream_resume] stream_push] stream_push])

lemma example_stream_fields:
  "fs_queue example_stream = [example_event ''a'', TurnCompleted ''p'' None (Some ''t1'')]"
  "fs_yielded example_stream = []" "fs_pc example_stream = Awaiting" "\<not> fs_waiting example_stream"
  "fs_turnId example_stream = ''t1''" "\<not> fs_settled example_stream"
  by (simp_all add: example_stream_def createTurnStream_def resume_def stream_loop_def waiter_callback_def wake_def)

theorem turn_stream_in_order_witness:
  "fs_pushed example_stream = [example_event ''a'', TurnCompleted ''p'' None (Some ''t1'')]"
  using turn_stream_in_order [OF example_stream_reachable] by (simp add: example_stream_fields)

theorem turn_stream_completes_witness:
  "fs_pc ((resume is_turn_end ^^ 3) example_stream) = Finished \<and>
   fs_yielded ((resume is_turn_end ^^ 3) example_stream) =
     [example_event ''a'', TurnCompleted ''p'' None (Some ''t1'')]"
  using turn_stream_completes [OF example_stream_reachable, of "[example_event ''a'']"
      "TurnCompleted ''p'' None (Some ''t1'')" "[]"]
  by (simp add: example_stream_fields is_turn_end_def example_event_def numeral_eq_Suc)

theorem notify_reaches_its_turn_witness:
  "\<exists>s'. notifyAgentWaiters \<lparr>fa_waiters = [0], fa_finalized = []\<rparr> (example_event ''b'') (Some True)
       [0 \<mapsto> example_stream] 0 = Some s' \<and> fs_settled s' \<and> \<not> fs_waiting s'"
  using notify_reaches_its_turn [of "\<lparr>fa_waiters = [0], fa_finalized = []\<rparr>" "[0 \<mapsto> example_stream]" 0
      example_stream "example_event ''b''" "Some True" "example_event ''c''" None]
  by (auto simp: example_stream_fields example_event_def)

theorem finalized_turns_recent_witness:
  "hasFinalizedTurn (fold (\<lambda>t a. rememberFinalizedTurn a t) [''x'', ''y'']
     \<lparr>fa_waiters = [], fa_finalized = []\<rparr>) ''y''"
  using finalized_turns_recent [of "\<lparr>fa_waiters = [], fa_finalized = []\<rparr>" "[''x'', ''y'']"] by simp

end
