(* ===== verification/Stream_Coalescer.thy ===== *)
theory Stream_Coalescer
  imports Timeline_Items
begin

text \<open>
  \<open>packages/server/src/server/agent/agent-stream-coalescer.ts\<close>: per agent buffers that batch
  streamed text and tool call updates.  A buffer is a shared object; \<open>sb_id\<close> is its identity, which
  the timer callback compares (\<open>expectedBuffer\<close>).  \<open>co_timers\<close> are the timeouts that are set and
  not cleared, with what their callback closes over; \<open>fire\<close> runs one.  \<open>co_out\<close> logs the calls of
  \<open>onFlush\<close>, which is taken not to call back into the coalescer.  The clock is an argument of the
  operations that read it.  The entries of a batch are collapsed by a fold over the output array.
\<close>

definition AGENT_STREAM_COALESCE_DEFAULT_WINDOW_MS :: int where
  "AGENT_STREAM_COALESCE_DEFAULT_WINDOW_MS = 60"

datatype pending_entry =
    PendingText timeline_item string string "string option"
  | PendingTool tool_call string "string option"

record coalescer_flush =
  fl_agentId :: string
  fl_item :: timeline_item
  fl_provider :: string
  fl_turnId :: "string option"

record stream_buffer =
  sb_id :: nat
  sb_entries :: "pending_entry list"
  sb_toolIndexes :: "string \<rightharpoonup> nat"
  sb_timer :: "nat option"
  sb_flushing :: bool
  sb_lastFlushAt :: "int option"

record coalescer =
  co_buffers :: "(string, stream_buffer) js_map"
  co_windowMs :: int
  co_timers :: "(nat \<times> string \<times> nat) list"
  co_fresh :: nat
  co_out :: "coalescer_flush list"

definition new_coalescer :: "int option \<Rightarrow> coalescer" where
  "new_coalescer windowMs = \<lparr>co_buffers = [],
     co_windowMs = default AGENT_STREAM_COALESCE_DEFAULT_WINDOW_MS windowMs,
     co_timers = [], co_fresh = 0, co_out = []\<rparr>"

fun coalescable :: "agent_stream_event \<Rightarrow> (timeline_item \<times> string \<times> string option) option" where
  "coalescable (TimelineEvent item provider turnId _) = (case item of
      AssistantMessage _ _ \<Rightarrow> Some (item, provider, turnId)
    | Reasoning _ \<Rightarrow> Some (item, provider, turnId)
    | ToolCall _ \<Rightarrow> Some (item, provider, turnId)
    | _ \<Rightarrow> None)"
| "coalescable _ = None"

definition isCoalescableTimelineEvent :: "agent_stream_event \<Rightarrow> bool" where
  "isCoalescableTimelineEvent event \<longleftrightarrow> coalescable event \<noteq> None"

fun item_text :: "timeline_item \<Rightarrow> string option" where
  "item_text (AssistantMessage t _) = Some t"
| "item_text (Reasoning t) = Some t"
| "item_text _ = None"

definition isTextTimelineItem :: "timeline_item \<Rightarrow> bool" where
  "isTextTimelineItem item \<longleftrightarrow> item_text item \<noteq> None"

fun isTerminalToolCall :: "timeline_item \<Rightarrow> bool" where
  "isTerminalToolCall (ToolCall t) = (tc_status t \<in> {Completed, Failed, Canceled})"
| "isTerminalToolCall _ = False"

definition same_text_stream :: "timeline_item \<Rightarrow> timeline_item \<Rightarrow> bool" where
  "same_text_stream previous next_item = (case (previous, next_item) of
      (AssistantMessage _ ma, AssistantMessage _ mb) \<Rightarrow> ma = mb
    | (Reasoning _, Reasoning _) \<Rightarrow> True
    | _ \<Rightarrow> False)"

text \<open>\<open>{...entry.item, text}\<close>\<close>

fun with_text :: "timeline_item \<Rightarrow> string \<Rightarrow> timeline_item" where
  "with_text (AssistantMessage _ m) t = AssistantMessage t m"
| "with_text (Reasoning _) t = Reasoning t"
| "with_text item t = item"

fun collapse_entry :: "pending_entry \<Rightarrow> pending_entry list \<Rightarrow> pending_entry list" where
  "collapse_entry (PendingText item text provider turnId) collapsed =
     (case last_opt collapsed of
        Some (PendingText item0 text0 provider0 turnId0) \<Rightarrow>
          (if same_text_stream item0 item \<and> provider0 = provider \<and> turnId0 = turnId
           then butlast collapsed @ [PendingText item0 (text0 @ text) provider0 turnId0]
           else collapsed @ [PendingText item text provider turnId])
      | _ \<Rightarrow> collapsed @ [PendingText item text provider turnId])"
| "collapse_entry (PendingTool t provider turnId) collapsed = collapsed @ [PendingTool t provider turnId]"

definition collapseEntries :: "pending_entry list \<Rightarrow> pending_entry list" where
  "collapseEntries entries = fold collapse_entry entries []"

fun flush_payload :: "string \<Rightarrow> pending_entry \<Rightarrow> coalescer_flush" where
  "flush_payload agentId (PendingText item text provider turnId) =
     \<lparr>fl_agentId = agentId, fl_item = with_text item text, fl_provider = provider, fl_turnId = turnId\<rparr>"
| "flush_payload agentId (PendingTool t provider turnId) =
     \<lparr>fl_agentId = agentId, fl_item = ToolCall t, fl_provider = provider, fl_turnId = turnId\<rparr>"

definition set_buffer :: "string \<Rightarrow> stream_buffer \<Rightarrow> coalescer \<Rightarrow> coalescer" where
  "set_buffer agentId b st = st\<lparr>co_buffers := AList.update agentId b (co_buffers st)\<rparr>"

abbreviation buffer_of :: "coalescer \<Rightarrow> string \<Rightarrow> stream_buffer option" where
  "buffer_of st agentId \<equiv> map_of (co_buffers st) agentId"

definition clearTimer :: "string \<Rightarrow> stream_buffer \<Rightarrow> coalescer \<Rightarrow> stream_buffer \<times> coalescer" where
  "clearTimer agentId b st = (case sb_timer b of
      None \<Rightarrow> (b, st)
    | Some t \<Rightarrow> (let b1 = b\<lparr>sb_timer := None\<rparr> in
        (b1, set_buffer agentId b1 (st\<lparr>co_timers := filter (\<lambda>x. fst x \<noteq> t) (co_timers st)\<rparr>))))"

definition flushBuffer :: "string \<Rightarrow> nat option \<Rightarrow> int \<Rightarrow> coalescer \<Rightarrow> coalescer" where
  "flushBuffer agentId expectedBuffer now st = (case buffer_of st agentId of
      None \<Rightarrow> st
    | Some b \<Rightarrow>
        if expectedBuffer \<noteq> None \<and> expectedBuffer \<noteq> Some (sb_id b) then st
        else if sb_flushing b then st
        else let (b1, st1) = clearTimer agentId b st in
          if sb_entries b1 = [] then st1
          else let entries = sb_entries b1;
              b2 = b1\<lparr>sb_entries := [], sb_toolIndexes := Map.empty, sb_flushing := True,
                      sb_lastFlushAt := Some now\<rparr>;
              st2 = set_buffer agentId b2 st1;
              st3 = st2\<lparr>co_out := co_out st2 @ map (flush_payload agentId) (collapseEntries entries)\<rparr>
            in set_buffer agentId (b2\<lparr>sb_flushing := False\<rparr>) st3)"

definition getOrCreateBuffer :: "string \<Rightarrow> coalescer \<Rightarrow> stream_buffer \<times> coalescer" where
  "getOrCreateBuffer agentId st = (case buffer_of st agentId of
      Some b \<Rightarrow> (b, st)
    | None \<Rightarrow> (let b = \<lparr>sb_id = co_fresh st, sb_entries = [], sb_toolIndexes = Map.empty,
          sb_timer = None, sb_flushing = False, sb_lastFlushAt = None\<rparr> in
        (b, set_buffer agentId b (st\<lparr>co_fresh := co_fresh st + 1\<rparr>))))"

definition append_tool ::
  "tool_call \<Rightarrow> string \<Rightarrow> string option \<Rightarrow> stream_buffer \<Rightarrow> stream_buffer" where
  "append_tool t provider turnId b = (case sb_toolIndexes b (tc_callId t) of
      Some i \<Rightarrow> b\<lparr>sb_entries := (sb_entries b)[i := PendingTool t provider turnId]\<rparr>
    | None \<Rightarrow> b\<lparr>sb_toolIndexes := (sb_toolIndexes b)(tc_callId t \<mapsto> length (sb_entries b)),
                 sb_entries := sb_entries b @ [PendingTool t provider turnId]\<rparr>)"

definition appendToBuffer ::
  "timeline_item \<Rightarrow> string \<Rightarrow> string option \<Rightarrow> stream_buffer \<Rightarrow> stream_buffer" where
  "appendToBuffer item provider turnId b = (case item of
      ToolCall t \<Rightarrow> append_tool t provider turnId b
    | _ \<Rightarrow> (case item_text item of
        Some text \<Rightarrow> b\<lparr>sb_entries := sb_entries b @ [PendingText item text provider turnId]\<rparr>
      | None \<Rightarrow> b))"

definition scheduleFlush :: "string \<Rightarrow> stream_buffer \<Rightarrow> coalescer \<Rightarrow> coalescer" where
  "scheduleFlush agentId b st =
     set_buffer agentId (b\<lparr>sb_timer := Some (co_fresh st)\<rparr>)
       (st\<lparr>co_timers := co_timers st @ [(co_fresh st, agentId, sb_id b)], co_fresh := co_fresh st + 1\<rparr>)"

definition handle :: "string \<Rightarrow> agent_stream_event \<Rightarrow> int \<Rightarrow> coalescer \<Rightarrow> bool \<times> coalescer" where
  "handle agentId event now st = (case coalescable event of
      None \<Rightarrow> (False, st)
    | Some (item, provider, turnId) \<Rightarrow>
        if item_text item = Some [] then (True, st)
        else let (b0, st1) = getOrCreateBuffer agentId st;
            b = appendToBuffer item provider turnId b0;
            st2 = set_buffer agentId b st1
          in if isTerminalToolCall item then (True, flushBuffer agentId None now st2)
             else if sb_timer b = None then
               (if (case sb_lastFlushAt b of None \<Rightarrow> True | Some t \<Rightarrow> co_windowMs st \<le> now - t)
                then (True, flushBuffer agentId None now st2)
                else (True, scheduleFlush agentId b st2))
             else (True, st2))"

definition flushFor :: "string \<Rightarrow> int \<Rightarrow> coalescer \<Rightarrow> coalescer" where
  "flushFor agentId now st = flushBuffer agentId None now st"

definition flushAll :: "int \<Rightarrow> coalescer \<Rightarrow> coalescer" where
  "flushAll now st = fold (\<lambda>agentId st. flushBuffer agentId None now st) (map fst (co_buffers st)) st"

definition flushAndDiscard :: "string \<Rightarrow> int \<Rightarrow> coalescer \<Rightarrow> coalescer" where
  "flushAndDiscard agentId now st =
     (let st1 = flushBuffer agentId None now st in
      case buffer_of st1 agentId of
        None \<Rightarrow> st1
      | Some b \<Rightarrow> (let (b1, st2) = clearTimer agentId b st1 in
          st2\<lparr>co_buffers := AList.delete agentId (co_buffers st2)\<rparr>))"

text \<open>A timeout of \<open>scheduleFlush\<close> expires: it leaves the timers and runs its callback.\<close>

definition fire :: "nat \<Rightarrow> int \<Rightarrow> coalescer \<Rightarrow> coalescer" where
  "fire t now st = (case map_of (co_timers st) t of
      None \<Rightarrow> st
    | Some (agentId, bid) \<Rightarrow>
        flushBuffer agentId (Some bid) now (st\<lparr>co_timers := filter (\<lambda>x. fst x \<noteq> t) (co_timers st)\<rparr>))"

section \<open>What was said\<close>

text \<open>
  A character of streamed text with everything it is attributed to: kind of item and message id,
  provider, turn.
\<close>

type_synonym said_char = "char \<times> (string option + unit) \<times> string \<times> string option"

fun text_kind :: "timeline_item \<Rightarrow> string option + unit" where
  "text_kind (AssistantMessage _ m) = Inl m"
| "text_kind _ = Inr ()"

definition attributed :: "timeline_item \<Rightarrow> string \<Rightarrow> string \<Rightarrow> string option \<Rightarrow> said_char list" where
  "attributed item text provider turnId = map (\<lambda>c. (c, text_kind item, provider, turnId)) text"

fun entry_said :: "pending_entry \<Rightarrow> said_char list" where
  "entry_said (PendingText item text provider turnId) = attributed item text provider turnId"
| "entry_said (PendingTool _ _ _) = []"

definition flush_said :: "coalescer_flush \<Rightarrow> said_char list" where
  "flush_said f = (case item_text (fl_item f) of
      None \<Rightarrow> [] | Some text \<Rightarrow> attributed (fl_item f) text (fl_provider f) (fl_turnId f))"

definition event_said :: "agent_stream_event \<Rightarrow> said_char list" where
  "event_said event = (case coalescable event of
      None \<Rightarrow> []
    | Some (item, provider, turnId) \<Rightarrow>
        (case item_text item of None \<Rightarrow> [] | Some text \<Rightarrow> attributed item text provider turnId))"

definition out_said :: "coalescer \<Rightarrow> string \<Rightarrow> said_char list" where
  "out_said st a = concat (map flush_said (filter (\<lambda>f. fl_agentId f = a) (co_out st)))"

definition pending :: "coalescer \<Rightarrow> string \<Rightarrow> pending_entry list" where
  "pending st a = (case buffer_of st a of None \<Rightarrow> [] | Some b \<Rightarrow> sb_entries b)"

definition total_said :: "coalescer \<Rightarrow> string \<Rightarrow> said_char list" where
  "total_said st a = out_said st a @ concat (map entry_said (pending st a))"

fun entry_wf :: "pending_entry \<Rightarrow> bool" where
  "entry_wf (PendingText item _ _ _) = isTextTimelineItem item"
| "entry_wf (PendingTool _ _ _) = True"

lemma same_stream_kind: "same_text_stream a b \<Longrightarrow> text_kind a = text_kind b"
  by (auto simp: same_text_stream_def split: timeline_item.splits)

lemma collapse_entry_cases:
  obtains (push) "collapse_entry e es = es @ [e]"
  | (join) ps item0 text0 p u item str where "es = ps @ [PendingText item0 text0 p u]"
      "e = PendingText item str p u" "same_text_stream item0 item"
      "collapse_entry e es = ps @ [PendingText item0 (text0 @ str) p u]"
proof (cases e)
  case e: (PendingText item str p u)
  show ?thesis
  proof (cases es rule: rev_cases)
    case Nil
    with e push show ?thesis by simp
  next
    case (snoc ps l)
    show ?thesis
    proof (cases l)
      case (PendingText item0 text0 p0 u0)
      with e snoc push join show ?thesis
        by (cases "same_text_stream item0 item \<and> p0 = p \<and> u0 = u") simp_all
    next
      case (PendingTool t p0 u0)
      with e snoc push show ?thesis by simp
    qed
  qed
next
  case (PendingTool t p u)
  with push show ?thesis by simp
qed

lemma collapse_entry_said:
  "concat (map entry_said (collapse_entry e es)) = concat (map entry_said es) @ entry_said e"
  by (cases rule: collapse_entry_cases [of e es]) (simp_all add: attributed_def same_stream_kind)

lemma collapse_entry_wf:
  "entry_wf e \<Longrightarrow> \<forall>x\<in>set es. entry_wf x \<Longrightarrow> \<forall>x\<in>set (collapse_entry e es). entry_wf x"
  by (cases rule: collapse_entry_cases [of e es]) simp_all

definition tool_entry :: "string \<Rightarrow> pending_entry \<Rightarrow> bool" where
  "tool_entry c e \<longleftrightarrow> (\<exists>t p u. e = PendingTool t p u \<and> tc_callId t = c)"

lemma collapse_entry_tools:
  "filter (tool_entry c) (collapse_entry e es) = filter (tool_entry c) es @ filter (tool_entry c) [e]"
  by (cases rule: collapse_entry_cases [of e es]) (simp_all add: tool_entry_def)

lemma collapseEntries_snoc:
  "collapseEntries [] = []" "collapseEntries (es @ [e]) = collapse_entry e (collapseEntries es)"
  by (simp_all add: collapseEntries_def)

lemma collapseEntries_said: "concat (map entry_said (collapseEntries es)) = concat (map entry_said es)"
  by (induction es rule: rev_induct) (simp_all only: collapseEntries_snoc collapse_entry_said
    map_append concat_append list.map concat.simps append_Nil2)

lemma collapseEntries_tools:
  "filter (tool_entry c) (collapseEntries es) = filter (tool_entry c) es"
  by (induction es rule: rev_induct) (simp_all only: collapseEntries_snoc collapse_entry_tools filter_append)

lemma collapseEntries_wf: "\<forall>x\<in>set es. entry_wf x \<Longrightarrow> \<forall>x\<in>set (collapseEntries es). entry_wf x"
proof (induction es rule: rev_induct)
  case (snoc e es)
  then have "entry_wf e" "\<forall>x\<in>set es. entry_wf x" by simp_all
  from collapse_entry_wf [OF this(1) snoc.IH [OF this(2)]] show ?case
    by (simp only: collapseEntries_snoc)
qed (simp add: collapseEntries_snoc)

lemma payload_said: "entry_wf e \<Longrightarrow> flush_said (flush_payload a e) = entry_said e"
proof (cases e)
  case (PendingText item str p u)
  moreover assume "entry_wf e"
  ultimately show ?thesis
    by (cases item) (simp_all add: flush_said_def isTextTimelineItem_def attributed_def)
qed (simp add: flush_said_def)

lemma payload_agent [simp]: "fl_agentId (flush_payload a e) = a"
  by (cases e) simp_all

lemma payloads_said:
  "\<forall>x\<in>set es. entry_wf x \<Longrightarrow>
     concat (map flush_said (map (flush_payload a) es)) = concat (map entry_said es)"
  by (induction es) (simp_all add: payload_said)

section \<open>The invariant of the buffers\<close>

definition buffer_ok :: "coalescer \<Rightarrow> string \<Rightarrow> stream_buffer \<Rightarrow> bool" where
  "buffer_ok st a b \<longleftrightarrow> \<not> sb_flushing b \<and> (\<forall>e\<in>set (sb_entries b). entry_wf e) \<and>
     (\<forall>c i. sb_toolIndexes b c = Some i \<longleftrightarrow> i < length (sb_entries b) \<and> tool_entry c (sb_entries b ! i)) \<and>
     (\<forall>t. sb_timer b = Some t \<longrightarrow> map_of (co_timers st) t = Some (a, sb_id b))"

definition coalescer_ok :: "coalescer \<Rightarrow> bool" where
  "coalescer_ok st \<longleftrightarrow> (\<forall>t\<in>set (co_timers st). fst t < co_fresh st) \<and>
     (\<forall>a b. buffer_of st a = Some b \<longrightarrow> buffer_ok st a b \<and> (sb_entries b \<noteq> [] \<longrightarrow> sb_timer b \<noteq> None))"

lemma coalescer_okD:
  "coalescer_ok st \<Longrightarrow> buffer_of st a = Some b \<Longrightarrow>
     buffer_ok st a b \<and> (sb_entries b \<noteq> [] \<longrightarrow> sb_timer b \<noteq> None)"
  by (simp add: coalescer_ok_def)

lemma buffer_of_set: "buffer_of (set_buffer a b st) x = (if x = a then Some b else buffer_of st x)"
  by (simp add: set_buffer_def update_conv')

lemma set_buffer_fields [simp]:
  "co_out (set_buffer a b st) = co_out st" "co_timers (set_buffer a b st) = co_timers st"
  "co_fresh (set_buffer a b st) = co_fresh st" "co_windowMs (set_buffer a b st) = co_windowMs st"
  by (simp_all add: set_buffer_def)

lemma map_of_timers_filter:
  "map_of (filter (\<lambda>x. fst x \<noteq> t) ts) t' = (if t' = t then None else map_of ts t')"
  by (induction ts) auto

text \<open>
  A flush: what it does to the buffers and to the output.  It also runs where the timer of the
  buffer has just fired, so nothing is assumed of the entries and the timer of its own buffer.
\<close>

definition flushed :: "int \<Rightarrow> stream_buffer \<Rightarrow> stream_buffer" where
  "flushed now b = (if sb_entries b = [] then b\<lparr>sb_timer := None\<rparr>
     else b\<lparr>sb_timer := None, sb_entries := [], sb_toolIndexes := Map.empty, sb_flushing := False,
            sb_lastFlushAt := Some now\<rparr>)"

lemma flushBuffer_spec:
  assumes "buffer_of st a = Some b" and "\<not> sb_flushing b" and "e = None \<or> e = Some (sb_id b)"
  shows "buffer_of (flushBuffer a e now st) x = (if x = a then Some (flushed now b) else buffer_of st x)"
    and "co_out (flushBuffer a e now st) = co_out st @ map (flush_payload a) (collapseEntries (sb_entries b))"
    and "co_timers (flushBuffer a e now st) = (case sb_timer b of None \<Rightarrow> co_timers st
      | Some t \<Rightarrow> filter (\<lambda>x. fst x \<noteq> t) (co_timers st))"
    and "co_fresh (flushBuffer a e now st) = co_fresh st"
  using assms
  by (auto simp: flushBuffer_def clearTimer_def Let_def flushed_def buffer_of_set collapseEntries_def
      split: option.splits)

lemma flushBuffer_none: "buffer_of st a = None \<Longrightarrow> flushBuffer a e now st = st"
  by (simp add: flushBuffer_def)

text \<open>A state in which only the buffer of \<open>a\<close> may be waiting without a timer.\<close>

definition nearly_ok :: "string \<Rightarrow> coalescer \<Rightarrow> bool" where
  "nearly_ok a st \<longleftrightarrow> (\<forall>t\<in>set (co_timers st). fst t < co_fresh st) \<and>
     (\<forall>x b. buffer_of st x = Some b \<longrightarrow> x \<noteq> a \<longrightarrow> buffer_ok st x b \<and> (sb_entries b \<noteq> [] \<longrightarrow> sb_timer b \<noteq> None)) \<and>
     (\<forall>b. buffer_of st a = Some b \<longrightarrow> \<not> sb_flushing b \<and> (\<forall>e\<in>set (sb_entries b). entry_wf e) \<and>
        (\<forall>c i. sb_toolIndexes b c = Some i \<longleftrightarrow> i < length (sb_entries b) \<and> tool_entry c (sb_entries b ! i)) \<and>
        (\<forall>t. sb_timer b = Some t \<longrightarrow> map_of (co_timers st) t \<in> {None, Some (a, sb_id b)}))"

lemma ok_nearly: "coalescer_ok st \<Longrightarrow> nearly_ok a st"
  by (auto simp: coalescer_ok_def nearly_ok_def buffer_ok_def)

lemma nearly_okI:
  assumes "\<forall>t\<in>set (co_timers st). fst t < co_fresh st" and "buffer_of st a = Some b"
    and "\<And>x c. buffer_of st x = Some c \<Longrightarrow> x \<noteq> a \<Longrightarrow>
      buffer_ok st x c \<and> (sb_entries c \<noteq> [] \<longrightarrow> sb_timer c \<noteq> None)"
    and "\<not> sb_flushing b" and "\<forall>e\<in>set (sb_entries b). entry_wf e"
    and "\<forall>c i. sb_toolIndexes b c = Some i \<longleftrightarrow> i < length (sb_entries b) \<and> tool_entry c (sb_entries b ! i)"
    and "\<And>t. sb_timer b = Some t \<Longrightarrow> map_of (co_timers st) t \<in> {None, Some (a, sb_id b)}"
  shows "nearly_ok a st"
  unfolding nearly_ok_def using assms by simp

lemma flush_ok:
  assumes "nearly_ok a st" and "buffer_of st a = Some b" and "e = None \<or> e = Some (sb_id b)"
  shows "coalescer_ok (flushBuffer a e now st)" and "pending (flushBuffer a e now st) a = []"
    and "total_said (flushBuffer a e now st) x = total_said st x"
proof -
  let ?st = "flushBuffer a e now st"
  have own: "\<not> sb_flushing b" "\<forall>e\<in>set (sb_entries b). entry_wf e"
    "\<And>c i. sb_toolIndexes b c = Some i \<longleftrightarrow> i < length (sb_entries b) \<and> tool_entry c (sb_entries b ! i)"
    "\<And>t. sb_timer b = Some t \<Longrightarrow> map_of (co_timers st) t \<in> {None, Some (a, sb_id b)}"
    using assms(1,2) unfolding nearly_ok_def by blast+
  note spec = flushBuffer_spec [OF assms(2) own(1) assms(3)]
  have timers: "map_of (co_timers ?st) t = (if sb_timer b = Some t then None else map_of (co_timers st) t)" for t
    by (auto simp: spec(3) map_of_timers_filter split: option.split)
  have fresh: "\<forall>t\<in>set (co_timers ?st). fst t < co_fresh ?st"
    using assms(1) by (auto simp: spec(3,4) nearly_ok_def split: option.splits)
  have others: "buffer_ok ?st x c \<and> (sb_entries c \<noteq> [] \<longrightarrow> sb_timer c \<noteq> None)"
    if "buffer_of st x = Some c" "x \<noteq> a" for x c
  proof -
    from assms(1) that have c: "buffer_ok st x c \<and> (sb_entries c \<noteq> [] \<longrightarrow> sb_timer c \<noteq> None)"
      unfolding nearly_ok_def by blast
    moreover have "sb_timer b \<noteq> Some t" if "sb_timer c = Some t" for t
      using c that own(4) [of t] \<open>x \<noteq> a\<close> by (auto simp: buffer_ok_def)
    ultimately show ?thesis by (auto simp: buffer_ok_def timers)
  qed
  have empty: "sb_entries (flushed now b) = []" "sb_timer (flushed now b) = None"
    "\<not> sb_flushing (flushed now b)" using own(1) by (simp_all add: flushed_def)
  have "sb_toolIndexes (flushed now b) c = None" for c
  proof (cases "sb_entries b = []")
    case True
    then have "sb_toolIndexes b c \<noteq> Some i" for i using own(3) [of c i] by simp
    with True show ?thesis by (simp add: flushed_def) (metis not_Some_eq)
  qed (simp add: flushed_def)
  then have "buffer_ok ?st a (flushed now b)" by (simp add: buffer_ok_def empty)
  then show "coalescer_ok ?st"
    using fresh others empty by (simp add: coalescer_ok_def spec(1) split: if_splits)
  show "pending ?st a = []" by (simp add: pending_def spec(1) empty)
  show "total_said ?st x = total_said st x"
  proof (cases "x = a")
    case True
    have "concat (map flush_said (map (flush_payload a) (collapseEntries (sb_entries b)))) =
        concat (map entry_said (sb_entries b))"
      using payloads_said [OF collapseEntries_wf [OF own(2)]] collapseEntries_said by simp
    then show ?thesis
      using True assms(2) by (simp add: total_said_def out_said_def pending_def spec(1,2) empty filter_map comp_def)
  next
    case False
    then show ?thesis
      by (simp add: total_said_def out_said_def pending_def spec(1,2) filter_map comp_def)
  qed
qed

section \<open>The operations keep the invariant\<close>

lemma get_buffer_ok:
  assumes "coalescer_ok st" and "getOrCreateBuffer a st = (b, st1)"
  shows "coalescer_ok st1" "buffer_of st1 a = Some b" "total_said st1 x = total_said st x"
    "co_out st1 = co_out st"
proof -
  have "coalescer_ok st1 \<and> buffer_of st1 a = Some b \<and>
      total_said st1 x = total_said st x \<and> co_out st1 = co_out st"
  proof (cases "buffer_of st a")
  case None
  with assms(2) have st1: "st1 = set_buffer a b (st\<lparr>co_fresh := co_fresh st + 1\<rparr>)" and
    b: "sb_entries b = []" "sb_timer b = None" "\<not> sb_flushing b" "sb_toolIndexes b = Map.empty"
    by (auto simp: getOrCreateBuffer_def Let_def)
  have "\<forall>t\<in>set (co_timers st). fst t < co_fresh st + 1"
    using assms(1) by (auto simp: coalescer_ok_def intro: less_SucI)
  then have "coalescer_ok st1"
    using assms(1) b by (simp add: coalescer_ok_def st1 buffer_of_set buffer_ok_def)
  moreover have "total_said st1 x = total_said st x"
    using None b by (simp add: total_said_def out_said_def pending_def st1 buffer_of_set)
  ultimately show ?thesis
    by (simp add: st1 buffer_of_set)
next
  case (Some b')
  with assms show ?thesis
    by (simp add: getOrCreateBuffer_def)
qed
  then show "coalescer_ok st1" "buffer_of st1 a = Some b" "total_said st1 x = total_said st x"
    "co_out st1 = co_out st" by blast+
qed

definition indexed :: "stream_buffer \<Rightarrow> bool" where
  "indexed b \<longleftrightarrow> (\<forall>c i. sb_toolIndexes b c = Some i \<longleftrightarrow> i < length (sb_entries b) \<and> tool_entry c (sb_entries b ! i))"

definition entries_said :: "stream_buffer \<Rightarrow> said_char list" where
  "entries_said b = concat (map entry_said (sb_entries b))"

definition item_said :: "timeline_item \<Rightarrow> string \<Rightarrow> string option \<Rightarrow> said_char list" where
  "item_said item provider turnId =
     (case item_text item of None \<Rightarrow> [] | Some text \<Rightarrow> attributed item text provider turnId)"

lemma append_tool_facts:
  assumes "indexed b" and "\<forall>e\<in>set (sb_entries b). entry_wf e"
  shows "indexed (append_tool t p u b)" "entries_said (append_tool t p u b) = entries_said b"
    "\<forall>e\<in>set (sb_entries (append_tool t p u b)). entry_wf e"
    "filter (tool_entry (tc_callId t)) (sb_entries (append_tool t p u b)) = [PendingTool t p u]"
proof -
  let ?new = "PendingTool t p u" and ?c = "tc_callId t"
  have new: "tool_entry c ?new \<longleftrightarrow> c = ?c" for c by (auto simp: tool_entry_def)
  have unique: "c = d" if "tool_entry c e" "tool_entry d e" for c d e
    using that by (auto simp: tool_entry_def)
  have silent: "entry_said e = []" if "tool_entry c e" for c e using that by (auto simp: tool_entry_def)
  have "indexed (append_tool t p u b) \<and> entries_said (append_tool t p u b) = entries_said b \<and>
      (\<forall>e\<in>set (sb_entries (append_tool t p u b)). entry_wf e) \<and>
      filter (tool_entry ?c) (sb_entries (append_tool t p u b)) = [?new]"
  proof (cases "sb_toolIndexes b ?c")
    case None
    then have no: "\<not> tool_entry ?c (sb_entries b ! i)" if "i < length (sb_entries b)" for i
      using assms(1) that unfolding indexed_def by (metis option.distinct(1))
    then have "filter (tool_entry ?c) (sb_entries b) = []"
      by (auto simp: filter_empty_conv in_set_conv_nth)
    moreover have "sb_toolIndexes (append_tool t p u b) c = Some i \<longleftrightarrow>
        i < length (sb_entries b @ [?new]) \<and> tool_entry c ((sb_entries b @ [?new]) ! i)" for c i
    proof (cases "c = ?c")
      case True
      have "length (sb_entries b) = i \<longleftrightarrow>
          i < length (sb_entries b @ [?new]) \<and> tool_entry ?c ((sb_entries b @ [?new]) ! i)"
        using no [of i] by (cases "i < length (sb_entries b)") (auto simp: nth_append new less_Suc_eq)
      with True None show ?thesis by (simp add: append_tool_def)
    next
      case False
      then show ?thesis
        using assms(1) None
        by (cases "i = length (sb_entries b)") (auto simp: append_tool_def indexed_def nth_append new less_Suc_eq)
    qed
    ultimately show ?thesis
      using assms(2) None by (simp add: indexed_def entries_said_def new) (simp add: append_tool_def new)
  next
    case (Some i)
    then have i: "i < length (sb_entries b)" "tool_entry ?c (sb_entries b ! i)"
      using assms(1) unfolding indexed_def by blast+
    have step: "append_tool t p u b = b\<lparr>sb_entries := (sb_entries b)[i := ?new]\<rparr>"
      by (simp add: append_tool_def Some)
    have at: "j = i" if "j < length (sb_entries b)" "tool_entry ?c (sb_entries b ! j)" for j
      using assms(1) that Some unfolding indexed_def by (metis option.inject)
    have "tool_entry c ((sb_entries b)[i := ?new] ! j) \<longleftrightarrow> tool_entry c (sb_entries b ! j)"
      if "j < length (sb_entries b)" for c j
      using that i new unique by (cases "j = i") auto
    then have "indexed (append_tool t p u b)"
      using assms(1) unfolding step indexed_def by auto
    moreover have "entries_said (append_tool t p u b) = entries_said b"
      using concat_map_update [OF i(1), of entry_said] silent [OF i(2)]
      by (simp add: step entries_said_def)
    moreover have "\<forall>e\<in>set (sb_entries (append_tool t p u b)). entry_wf e"
      using assms(2) set_update_subset_insert [of "sb_entries b" i ?new] by (auto simp: step)
    moreover have "filter (tool_entry ?c) (take i (sb_entries b)) = []"
    proof -
      have "\<not> tool_entry ?c (sb_entries b ! j)" if "j < i" for j using at [of j] i(1) that by auto
      then show ?thesis by (auto simp: filter_empty_conv in_set_conv_nth)
    qed
    moreover have "filter (tool_entry ?c) (drop (Suc i) (sb_entries b)) = []"
    proof -
      have "\<not> tool_entry ?c (sb_entries b ! (Suc i + j))" if "Suc i + j < length (sb_entries b)" for j
        using at [of "Suc i + j"] that by auto
      then show ?thesis by (auto simp: filter_empty_conv in_set_conv_nth less_diff_conv add.commute)
    qed
    ultimately show ?thesis using i(1) by (simp add: step upd_conv_take_nth_drop new)
  qed
  then show "indexed (append_tool t p u b)" "entries_said (append_tool t p u b) = entries_said b"
    "\<forall>e\<in>set (sb_entries (append_tool t p u b)). entry_wf e"
    "filter (tool_entry ?c) (sb_entries (append_tool t p u b)) = [?new]" by blast+
qed

lemma append_keeps [simp]:
  "sb_timer (appendToBuffer item p u b) = sb_timer b" "sb_id (appendToBuffer item p u b) = sb_id b"
  "sb_flushing (appendToBuffer item p u b) = sb_flushing b"
  "sb_lastFlushAt (appendToBuffer item p u b) = sb_lastFlushAt b"
  by (auto simp: appendToBuffer_def append_tool_def split: timeline_item.split option.split)

lemma append_facts:
  assumes "indexed b" and "\<forall>e\<in>set (sb_entries b). entry_wf e"
  shows "indexed (appendToBuffer item p u b)"
    "entries_said (appendToBuffer item p u b) = entries_said b @ item_said item p u"
    "\<forall>e\<in>set (sb_entries (appendToBuffer item p u b)). entry_wf e"
proof -
  have "indexed (b\<lparr>sb_entries := sb_entries b @ [PendingText item str p u]\<rparr>)" for str
    using assms(1) by (auto simp: indexed_def nth_append tool_entry_def less_Suc_eq)
  with assms append_tool_facts [OF assms] show "indexed (appendToBuffer item p u b)"
    "entries_said (appendToBuffer item p u b) = entries_said b @ item_said item p u"
    "\<forall>e\<in>set (sb_entries (appendToBuffer item p u b)). entry_wf e"
    by (auto simp: appendToBuffer_def entries_said_def item_said_def isTextTimelineItem_def
        split: timeline_item.split option.split)
qed

lemma schedule_ok:
  assumes "nearly_ok a st" and "buffer_of st a = Some b" and "sb_timer b = None"
  shows "coalescer_ok (scheduleFlush a b st)" "total_said (scheduleFlush a b st) x = total_said st x"
proof -
  let ?st = "scheduleFlush a b st"
  have timers: "map_of (co_timers ?st) t = (if map_of (co_timers st) t = None \<and> t = co_fresh st
      then Some (a, sb_id b) else map_of (co_timers st) t)" for t
    by (auto simp: scheduleFlush_def map_add_def split: option.split)
  have less: "\<forall>t\<in>set (co_timers st). fst t < co_fresh st"
    using assms(1) by (simp add: nearly_ok_def)
  then have "map_of (co_timers st) (co_fresh st) = None"
    by (auto simp: map_of_eq_None_iff)
  then have timers': "map_of (co_timers ?st) t = (if t = co_fresh st then Some (a, sb_id b)
      else map_of (co_timers st) t)" for t
    by (simp add: timers)
  have "buffer_ok ?st x c \<and> (sb_entries c \<noteq> [] \<longrightarrow> sb_timer c \<noteq> None)"
    if "buffer_of st x = Some c" "x \<noteq> a" for x c
  proof -
    from assms(1) that have c: "buffer_ok st x c \<and> (sb_entries c \<noteq> [] \<longrightarrow> sb_timer c \<noteq> None)"
      unfolding nearly_ok_def by blast
    moreover have "t < co_fresh st" if "sb_timer c = Some t" for t
    proof -
      have "(t, x, sb_id c) \<in> set (co_timers st)"
        using c that by (auto simp: buffer_ok_def dest: map_of_SomeD)
      then show ?thesis using less by auto
    qed
    ultimately show ?thesis by (auto simp: buffer_ok_def timers')
  qed
  moreover have "buffer_ok ?st a (b\<lparr>sb_timer := Some (co_fresh st)\<rparr>)"
    using assms(1,2) unfolding nearly_ok_def buffer_ok_def by (simp add: timers')
  moreover have "\<forall>t\<in>set (co_timers ?st). fst t < co_fresh ?st"
    using less by (auto simp: scheduleFlush_def intro: less_SucI)
  moreover have bufs: "buffer_of ?st x = (if x = a then Some (b\<lparr>sb_timer := Some (co_fresh st)\<rparr>)
      else buffer_of st x)" for x
    by (simp add: scheduleFlush_def buffer_of_set)
  ultimately show "coalescer_ok ?st" by (auto simp: coalescer_ok_def)
  show "total_said ?st x = total_said st x"
    using assms(2) by (simp add: total_said_def pending_def bufs out_said_def) (simp add: scheduleFlush_def)
qed

lemma nearly_ok_timed:
  assumes "nearly_ok a st" and "buffer_of st a = Some b" and "buffer_ok st a b" and "sb_timer b \<noteq> None"
  shows "coalescer_ok st"
  unfolding coalescer_ok_def
proof (intro conjI allI impI)
  show "\<forall>t\<in>set (co_timers st). fst t < co_fresh st" using assms(1) by (simp add: nearly_ok_def)
  fix x c assume c: "buffer_of st x = Some c"
  have "buffer_ok st x c \<and> (sb_entries c \<noteq> [] \<longrightarrow> sb_timer c \<noteq> None)"
  proof (cases "x = a")
    case True
    with c assms show ?thesis by simp
  next
    case False
    with c assms(1) show ?thesis unfolding nearly_ok_def by blast
  qed
  then show "buffer_ok st x c" "sb_entries c \<noteq> [] \<Longrightarrow> sb_timer c \<noteq> None" by blast+
qed

lemma handle_ok:
  assumes ok: "coalescer_ok st"
  shows "coalescer_ok (snd (handle a event now st))"
    "total_said (snd (handle a event now st)) x =
       total_said st x @ (if x = a then event_said event else [])"
proof -
  have "coalescer_ok (snd (handle a event now st)) \<and> total_said (snd (handle a event now st)) x =
       total_said st x @ (if x = a then event_said event else [])"
  proof (cases "coalescable event")
  case None
  with ok show ?thesis
    by (simp add: handle_def event_said_def)
next
  case (Some triple)
  obtain item p u where triple: "triple = (item, p, u)" by (metis prod_cases3)
  have said: "event_said event = item_said item p u"
    by (simp add: event_said_def item_said_def Some triple)
  obtain b0 st1 where get: "getOrCreateBuffer a st = (b0, st1)" by fastforce
  note g = get_buffer_ok [OF ok get]
  let ?b = "appendToBuffer item p u b0"
  let ?st2 = "set_buffer a ?b st1"
  have b0: "indexed b0" "\<forall>e\<in>set (sb_entries b0). entry_wf e" "buffer_ok st1 a b0"
    "sb_entries b0 \<noteq> [] \<longrightarrow> sb_timer b0 \<noteq> None"
    using g(1,2) by (auto simp: coalescer_ok_def buffer_ok_def indexed_def)
  note b = append_facts [OF b0(1,2), of item p u]
  have near: "nearly_ok a ?st2"
    using g(1) b b0(3) unfolding nearly_ok_def coalescer_ok_def buffer_ok_def indexed_def
    by (simp add: buffer_of_set)
  have get2: "buffer_of ?st2 a = Some ?b" by (simp add: buffer_of_set)
  have total2: "total_said ?st2 x = total_said st x @ (if x = a then item_said item p u else [])"
    using b(2) g(2) g(3) [of x]
    by (auto simp: total_said_def pending_def buffer_of_set out_said_def entries_said_def g(4))
  note flush = flush_ok [OF near get2, of None]
  have timed: "coalescer_ok ?st2" if "sb_timer ?b \<noteq> None"
  proof (rule nearly_ok_timed [OF near get2 _ that])
    show "buffer_ok ?st2 a ?b" using b(1,3) b0(3) by (simp add: buffer_ok_def indexed_def)
  qed
  note sched = schedule_ok [OF near get2]
  show ?thesis
  proof (cases "item_text item = Some []")
    case True
    with ok show ?thesis by (simp add: handle_def Some triple said item_said_def attributed_def)
  next
    case False
    show ?thesis
    proof (cases "isTerminalToolCall item")
      case True
      then have "snd (handle a event now st) = flushBuffer a None now ?st2"
        using False by (simp add: handle_def Some triple get)
      with flush total2 said show ?thesis by simp
    next
      case live: False
      show ?thesis
      proof (cases "sb_timer ?b")
        case None
        then have "snd (handle a event now st) = flushBuffer a None now ?st2 \<or>
            snd (handle a event now st) = scheduleFlush a ?b ?st2"
          using False live by (simp add: handle_def Some triple get Let_def)
        with flush sched [OF None] total2 said show ?thesis by auto
      next
        case (Some t)
        then have "snd (handle a event now st) = ?st2"
          using False live \<open>coalescable event = Some triple\<close>
          by (simp add: handle_def triple get Let_def)
        with timed Some total2 said show ?thesis by simp
      qed
    qed
  qed
qed
  then show "coalescer_ok (snd (handle a event now st))" "total_said (snd (handle a event now st)) x =
       total_said st x @ (if x = a then event_said event else [])" by blast+
qed

lemma flush_any_ok:
  assumes "coalescer_ok st"
  shows "coalescer_ok (flushBuffer a None now st)"
    "total_said (flushBuffer a None now st) x = total_said st x"
    "pending (flushBuffer a None now st) a = []"
proof -
  have "coalescer_ok (flushBuffer a None now st) \<and> total_said (flushBuffer a None now st) x = total_said st x \<and>
      pending (flushBuffer a None now st) a = []"
  proof (cases "buffer_of st a")
    case None
    with assms show ?thesis by (simp add: flushBuffer_none pending_def)
  next
    case (Some b)
    show ?thesis using flush_ok [OF ok_nearly [OF assms] Some] by blast
  qed
  then show "coalescer_ok (flushBuffer a None now st)"
    "total_said (flushBuffer a None now st) x = total_said st x"
    "pending (flushBuffer a None now st) a = []" by blast+
qed

lemma flushAll_ok:
  assumes "coalescer_ok st"
  shows "coalescer_ok (flushAll now st) \<and> total_said (flushAll now st) x = total_said st x"
proof -
  have "coalescer_ok (fold (\<lambda>a st. flushBuffer a None now st) as st) \<and>
      total_said (fold (\<lambda>a st. flushBuffer a None now st) as st) x = total_said st x" for as
    using assms by (induction as arbitrary: st) (simp_all add: flush_any_ok)
  then show ?thesis by (simp add: flushAll_def)
qed

lemma map_of_delete_any: "map_of (AList.delete k m) x = (if x = k then None else map_of m x)"
  by (simp add: delete_conv')

lemma discard_ok:
  assumes "coalescer_ok st"
  shows "coalescer_ok (flushAndDiscard a now st) \<and> total_said (flushAndDiscard a now st) x = total_said st x"
proof -
  let ?st = "flushBuffer a None now st"
  note f = flush_any_ok [OF assms, where a = a and now = now]
  show ?thesis
  proof (cases "buffer_of ?st a")
    case None
    with f show ?thesis by (simp add: flushAndDiscard_def Let_def)
  next
    case (Some b)
    have "buffer_of st a \<noteq> None" using Some by (metis flushBuffer_none option.distinct(1))
    then obtain b0 where b0: "buffer_of st a = Some b0" by blast
    have "\<not> sb_flushing b0" using assms b0 by (simp add: coalescer_ok_def buffer_ok_def)
    then have "b = flushed now b0"
      using flushBuffer_spec(1) [OF b0, of None now a] Some by simp
    then have "sb_timer b = None" by (simp add: flushed_def)
    then have eq: "flushAndDiscard a now st = ?st\<lparr>co_buffers := AList.delete a (co_buffers ?st)\<rparr>"
      by (simp add: flushAndDiscard_def Some clearTimer_def Let_def)
    have "coalescer_ok (flushAndDiscard a now st)"
      using f(1) by (simp add: eq coalescer_ok_def map_of_delete_any buffer_ok_def)
    moreover have "total_said (flushAndDiscard a now st) x = total_said ?st x"
      using f(3) by (simp add: eq total_said_def out_said_def pending_def map_of_delete_any)
    ultimately show ?thesis using f(2) by simp
  qed
qed

lemma fire_ok:
  assumes "coalescer_ok st"
  shows "coalescer_ok (fire t now st) \<and> total_said (fire t now st) x = total_said st x"
proof (cases "map_of (co_timers st) t")
  case None
  with assms show ?thesis by (simp add: fire_def)
next
  case (Some entry)
  obtain a bid where entry: "entry = (a, bid)" by fastforce
  let ?st = "st\<lparr>co_timers := filter (\<lambda>x. fst x \<noteq> t) (co_timers st)\<rparr>"
  have fire: "fire t now st = flushBuffer a (Some bid) now ?st" by (simp add: fire_def Some entry)
  have timers: "map_of (co_timers ?st) u = (if u = t then None else map_of (co_timers st) u)" for u
    by (simp add: map_of_timers_filter)
  have less: "\<forall>t\<in>set (co_timers ?st). fst t < co_fresh ?st" using assms by (simp add: coalescer_ok_def)
  have others: "buffer_ok ?st y c \<and> (sb_entries c \<noteq> [] \<longrightarrow> sb_timer c \<noteq> None)"
    if "buffer_of st y = Some c" "sb_timer c \<noteq> Some t" for y c
    using coalescer_okD [OF assms that(1)] that(2) by (auto simp: buffer_ok_def map_of_timers_filter)
  have total: "total_said ?st x = total_said st x" by (simp add: total_said_def out_said_def pending_def)
  show ?thesis
  proof (cases "\<exists>b. buffer_of st a = Some b \<and> sb_id b = bid")
    case True
    then obtain b where b: "buffer_of st a = Some b" "sb_id b = bid" by blast
    have timer: "sb_timer c \<noteq> Some t" if "buffer_of st y = Some c" "y \<noteq> a" for y c
      using coalescer_okD [OF assms that(1)] that(2) Some entry by (auto simp: buffer_ok_def)
    have own: "buffer_ok st a b" using coalescer_okD [OF assms b(1)] by blast
    have "nearly_ok a ?st"
    proof (rule nearly_okI [OF less, of a b])
      show "buffer_of ?st a = Some b" using b(1) by simp
      show "buffer_ok ?st y c \<and> (sb_entries c \<noteq> [] \<longrightarrow> sb_timer c \<noteq> None)"
        if "buffer_of ?st y = Some c" "y \<noteq> a" for y c
        using that timer [of y c] others [of y c] by simp
      show "map_of (co_timers ?st) u \<in> {None, Some (a, sb_id b)}" if "sb_timer b = Some u" for u
        using own that by (simp add: buffer_ok_def map_of_timers_filter)
    qed (use own in \<open>simp_all add: buffer_ok_def\<close>)
    moreover have "buffer_of ?st a = Some b" using b(1) by simp
    ultimately have "coalescer_ok (flushBuffer a (Some bid) now ?st)"
      "total_said (flushBuffer a (Some bid) now ?st) x = total_said ?st x"
      using flush_ok(1,3) [of a ?st b "Some bid" now] b(2) by simp_all
    with total show ?thesis by (simp add: fire)
  next
    case False
    then have "flushBuffer a (Some bid) now ?st = ?st"
      by (auto simp: flushBuffer_def split: option.split)
    moreover have "sb_timer c \<noteq> Some t" if "buffer_of st y = Some c" for y c
      using coalescer_okD [OF assms that] that Some entry False by (auto simp: buffer_ok_def)
    then have "coalescer_ok ?st" using less others by (simp add: coalescer_ok_def)
    ultimately show ?thesis using total by (simp add: fire)
  qed
qed

text \<open>Every way the coalescer is driven, with the log of the events it was given.\<close>

inductive coalescing :: "(string \<times> agent_stream_event) list \<Rightarrow> coalescer \<Rightarrow> bool" where
  co_start: "coalescing [] (new_coalescer windowMs)"
| co_handle: "coalescing evs st \<Longrightarrow> coalescing (evs @ [(a, event)]) (snd (handle a event now st))"
| co_flushFor: "coalescing evs st \<Longrightarrow> coalescing evs (flushFor a now st)"
| co_flushAll: "coalescing evs st \<Longrightarrow> coalescing evs (flushAll now st)"
| co_discard: "coalescing evs st \<Longrightarrow> coalescing evs (flushAndDiscard a now st)"
| co_fire: "coalescing evs st \<Longrightarrow> coalescing evs (fire t now st)"

lemma coalescing_inv:
  assumes "coalescing evs st"
  shows "coalescer_ok st \<and>
     total_said st a = concat (map (\<lambda>(_, event). event_said event) (filter (\<lambda>(x, _). x = a) evs))"
  using assms
proof (induction rule: coalescing.induct)
  case (co_start windowMs)
  then show ?case
    by (simp add: new_coalescer_def coalescer_ok_def total_said_def out_said_def pending_def)
next
  case (co_handle evs st x event now)
  then show ?case using handle_ok(1) [of st x event now] handle_ok(2) [of st x event now a] by auto
qed (simp_all add: flushFor_def flush_any_ok flushAll_ok discard_ok fire_ok)

text \<open>
  C10: streamed text survives coalescing: for every agent, the text flushed so far followed by the
  text still in its buffer is the text of all events handled for it, character by character and in
  order, each character still attributed to its message, provider and turn, whatever mix of
  windows, timers, flushes and discards happened.
\<close>

theorem coalescing_keeps_text:
  assumes "coalescing evs st"
  shows "out_said st a @ concat (map entry_said (pending st a)) =
     concat (map (\<lambda>(_, event). event_said event) (filter (\<lambda>(x, _). x = a) evs))"
  using coalescing_inv [OF assms] by (simp add: total_said_def)

text \<open>
  nothing waits for ever: a buffer with entries always has a timer that is still set and
  closes over this very buffer, and when that timer fires the buffer is flushed empty.
\<close>

lemma pending_has_live_timer:
  assumes "coalescing evs st" and "pending st a \<noteq> []"
  shows "\<exists>t b. buffer_of st a = Some b \<and> sb_timer b = Some t \<and>
     map_of (co_timers st) t = Some (a, sb_id b) \<and> pending (fire t now st) a = []"
proof -
  have ok: "coalescer_ok st" using coalescing_inv [OF assms(1)] by blast
  from assms(2) obtain b where b: "buffer_of st a = Some b" "sb_entries b \<noteq> []"
    by (auto simp: pending_def split: option.splits)
  with coalescer_okD [OF ok b(1)] obtain t where t: "sb_timer b = Some t"
    "map_of (co_timers st) t = Some (a, sb_id b)" "\<not> sb_flushing b"
    by (auto simp: buffer_ok_def)
  let ?st = "st\<lparr>co_timers := filter (\<lambda>x. fst x \<noteq> t) (co_timers st)\<rparr>"
  have "buffer_of ?st a = Some b" using b(1) by simp
  from flushBuffer_spec(1) [OF this t(3) disjI2 [OF refl], of now a]
  have "pending (fire t now st) a = []"
    by (simp add: fire_def t(2) pending_def flushed_def)
  with b t show ?thesis by blast
qed

text \<open>
  the end of a tool call is never delayed: handling its terminal update empties the buffer in
  the same call, and the flushed batch holds exactly one entry of that call, the terminal update
  itself, whatever updates of it were still buffered.
\<close>

lemma terminal_tool_call_flushes:
  assumes "coalescing evs st" and "tc_status t \<in> {Completed, Failed, Canceled}"
  shows "\<exists>batch. co_out (snd (handle a (TimelineEvent (ToolCall t) p u ts) now st)) = co_out st @ batch \<and>
     filter (\<lambda>f. \<exists>t'. fl_item f = ToolCall t' \<and> tc_callId t' = tc_callId t) batch =
       [\<lparr>fl_agentId = a, fl_item = ToolCall t, fl_provider = p, fl_turnId = u\<rparr>] \<and>
     pending (snd (handle a (TimelineEvent (ToolCall t) p u ts) now st)) a = []"
proof -
  have ok: "coalescer_ok st" using coalescing_inv [OF assms(1)] by blast
  obtain b0 st1 where get: "getOrCreateBuffer a st = (b0, st1)" by fastforce
  note g = get_buffer_ok [OF ok get]
  have b0: "indexed b0" "\<forall>e\<in>set (sb_entries b0). entry_wf e" "\<not> sb_flushing b0"
    using g(1,2) by (auto simp: coalescer_ok_def buffer_ok_def indexed_def)
  let ?b = "append_tool t p u b0"
  let ?st2 = "set_buffer a ?b st1"
  have step: "snd (handle a (TimelineEvent (ToolCall t) p u ts) now st) = flushBuffer a None now ?st2"
    using assms(2) by (simp add: handle_def get appendToBuffer_def)
  have get2: "buffer_of ?st2 a = Some ?b" by (simp add: buffer_of_set)
  have "\<not> sb_flushing ?b" using b0(3) by (simp add: append_tool_def split: option.split)
  note spec = flushBuffer_spec [OF get2 this disjI1 [OF refl], of now]
  let ?batch = "map (flush_payload a) (collapseEntries (sb_entries ?b))"
  have same: "(\<exists>t'. fl_item (flush_payload a e) = ToolCall t' \<and> tc_callId t' = tc_callId t) \<longleftrightarrow>
      tool_entry (tc_callId t) e" if "entry_wf e" for e
    using that
  proof (cases e)
    case (PendingText item str p u)
    with that show ?thesis by (cases item) (simp_all add: tool_entry_def isTextTimelineItem_def)
  qed (auto simp: tool_entry_def)
  have wf: "\<forall>e\<in>set (collapseEntries (sb_entries ?b)). entry_wf e"
    by (rule collapseEntries_wf [OF append_tool_facts(3) [OF b0(1,2)]])
  have "filter (\<lambda>e. \<exists>t'. fl_item (flush_payload a e) = ToolCall t' \<and> tc_callId t' = tc_callId t)
        (collapseEntries (sb_entries ?b)) =
      filter (tool_entry (tc_callId t)) (collapseEntries (sb_entries ?b))"
    using same wf by (intro filter_cong) auto
  then have "filter (\<lambda>f. \<exists>t'. fl_item f = ToolCall t' \<and> tc_callId t' = tc_callId t) ?batch =
      map (flush_payload a) (filter (tool_entry (tc_callId t)) (collapseEntries (sb_entries ?b)))"
    by (simp add: filter_map comp_def)
  also have "\<dots> = [flush_payload a (PendingTool t p u)]"
    by (simp add: collapseEntries_tools append_tool_facts(4) [OF b0(1,2)])
  finally show ?thesis
    using spec(1) [of a] spec(2) g(4) by (simp add: step pending_def flushed_def)
qed

section \<open>A concrete run\<close>

definition text_event :: "string \<Rightarrow> agent_stream_event" where
  "text_event s = TimelineEvent (Reasoning s) ''p'' None None"

definition example_coalescer :: coalescer where
  "example_coalescer = snd (handle ''a'' (text_event ''y'') 10
     (snd (handle ''a'' (text_event ''x'') 0 (new_coalescer None))))"

lemma example_coalescing: "coalescing [(''a'', text_event ''x''), (''a'', text_event ''y'')] example_coalescer"
  unfolding example_coalescer_def using co_handle [OF co_handle [OF co_start]] by simp

lemma example_pending: "pending example_coalescer ''a'' = [PendingText (Reasoning ''y'') ''y'' ''p'' None]"
  by (simp add: example_coalescer_def text_event_def new_coalescer_def handle_def getOrCreateBuffer_def
      appendToBuffer_def flushBuffer_def clearTimer_def set_buffer_def scheduleFlush_def pending_def Let_def
      AGENT_STREAM_COALESCE_DEFAULT_WINDOW_MS_def)

theorem coalescing_keeps_text_witness:
  "map fst (out_said example_coalescer ''a'') = ''x''"
  using coalescing_keeps_text [OF example_coalescing, of "''a''"]
  by (simp add: example_pending text_event_def event_said_def attributed_def)

theorem pending_has_live_timer_witness:
  "\<exists>t. pending (fire t 70 example_coalescer) ''a'' = []"
  using pending_has_live_timer [OF example_coalescing, of "''a''" 70] by (auto simp: example_pending)

theorem terminal_tool_call_flushes_witness:
  "pending (snd (handle ''a'' (TimelineEvent (ToolCall \<lparr>tc_callId = ''c'', tc_name = ''n'',
     tc_detail = DPlan [], tc_metadata = None, tc_status = Completed, tc_error = None, tc_extra = []\<rparr>)
     ''p'' None None) 20 example_coalescer)) ''a'' = []"
  using terminal_tool_call_flushes [OF example_coalescing, of "\<lparr>tc_callId = ''c'', tc_name = ''n'',
     tc_detail = DPlan [], tc_metadata = None, tc_status = Completed, tc_error = None, tc_extra = []\<rparr>"
     "''a''" "''p''" None None 20] by auto

end
