(* ===== verification/Versioned_Collection.thy ===== *)
theory Versioned_Collection
  imports Prelude
begin

text \<open>
  \<open>packages/server/src/server/directory-sync/internal/versioned-collection.ts\<close>: the latest state of
  one directory entity type with a sequence number per change, from which clients catch up.  The
  \<open>getId\<close> and \<open>fingerprint\<close> of the options are fields of \<open>vc_options\<close>; \<open>localeCompare\<close> is an
  argument.  The locale \<open>change_feed\<close> states what a client relies on when it keeps a copy in sync
  by reading from the cursor of its last read.
\<close>

record 'v vc_options =
  vo_getId :: "'v \<Rightarrow> string"
  vo_fingerprint :: "'v \<Rightarrow> string"
  vo_maxTombstones :: nat

record 'v stored_value =
  sv_seq :: int
  sv_value :: 'v
  sv_fingerprint :: string

record 'v versioned_value =
  vv_seq :: int
  vv_value :: 'v

record versioned_removal =
  vr_id :: string
  vr_seq :: int

datatype read_mode = Changes | Snapshot
datatype snapshot_reason = NoCursor | GenerationChanged | CursorExpired

record 'v collection_read =
  cr_mode :: read_mode
  cr_reason :: "snapshot_reason option"
  cr_headSeq :: int
  cr_values :: "'v versioned_value list"
  cr_removals :: "versioned_removal list"

datatype 'v published_change = Upsert int 'v | Remove int string

record 'v versioned_collection =
  vc_values :: "(string, 'v stored_value) js_map"
  vc_tombstones :: "(string, int) js_map"
  vc_expiredThroughSeq :: int
  vc_nextSeq :: int

definition default_max_tombstones :: nat where
  "default_max_tombstones = 5000"

definition new_collection :: "'v versioned_collection" where
  "new_collection = \<lparr>vc_values = [], vc_tombstones = [], vc_expiredThroughSeq = 0, vc_nextSeq = 0\<rparr>"

definition headSeq :: "'v versioned_collection \<Rightarrow> int" where
  "headSeq c = vc_nextSeq c"

definition sequenceFor :: "string \<Rightarrow> 'v versioned_collection \<Rightarrow> int option" where
  "sequenceFor k c = or_else (map_option sv_seq (map_of (vc_values c) k)) (map_of (vc_tombstones c) k)"

definition advance :: "'v versioned_collection \<Rightarrow> int \<times> 'v versioned_collection" where
  "advance c = (vc_nextSeq c + 1, c\<lparr>vc_nextSeq := vc_nextSeq c + 1\<rparr>)"

definition replace ::
  "'v vc_options \<Rightarrow> 'v \<Rightarrow> 'v versioned_collection \<Rightarrow> 'v published_change option \<times> 'v versioned_collection" where
  "replace opts value c =
     (let k = vo_getId opts value; fp = vo_fingerprint opts value in
      if map_option sv_fingerprint (map_of (vc_values c) k) = Some fp then (None, c)
      else let (seq, c1) = advance c in
        (Some (Upsert seq value),
         c1\<lparr>vc_values := AList.update k \<lparr>sv_seq = seq, sv_value = value, sv_fingerprint = fp\<rparr> (vc_values c1),
            vc_tombstones := AList.delete k (vc_tombstones c1)\<rparr>))"

text \<open>
  The loop that drops the oldest tombstones: its measure is the number of tombstones.
\<close>

function trim_tombstones :: "nat \<Rightarrow> (string, int) js_map \<Rightarrow> int \<Rightarrow> (string, int) js_map \<times> int" where
  "trim_tombstones maxTombstones tombs expired =
     (if length tombs \<le> maxTombstones then (tombs, expired)
      else case tombs of
        [] \<Rightarrow> (tombs, expired)
      | (k, seq) # rest \<Rightarrow> trim_tombstones maxTombstones (AList.delete k tombs) (max expired seq))"
  by pat_completeness auto

termination
  by (relation "measure (\<lambda>(_, tombs, _). length tombs)")
    (auto simp: le_imp_less_Suc length_delete_le)

declare trim_tombstones.simps [simp del]

definition trimTombstones :: "'v vc_options \<Rightarrow> 'v versioned_collection \<Rightarrow> 'v versioned_collection" where
  "trimTombstones opts c =
     (let (tombs, expired) =
         trim_tombstones (vo_maxTombstones opts) (vc_tombstones c) (vc_expiredThroughSeq c)
      in c\<lparr>vc_tombstones := tombs, vc_expiredThroughSeq := expired\<rparr>)"

definition remove_id ::
  "'v vc_options \<Rightarrow> string \<Rightarrow> 'v versioned_collection \<Rightarrow> 'v published_change option \<times> 'v versioned_collection" where
  "remove_id opts k c =
     (let live = map_of (vc_values c) k \<noteq> None; dead = map_of (vc_tombstones c) k \<noteq> None in
      if \<not> live \<and> dead then (None, c)
      else let c1 = c\<lparr>vc_values := AList.delete k (vc_values c)\<rparr> in
        if \<not> live \<and> \<not> dead then (None, c1)
        else let (seq, c2) = advance c1;
            c3 = c2\<lparr>vc_tombstones := AList.update k seq (AList.delete k (vc_tombstones c2))\<rparr>
          in (Some (Remove seq k), trimTombstones opts c3))"

definition replaceAll :: "'v vc_options \<Rightarrow> 'v list \<Rightarrow> 'v versioned_collection \<Rightarrow> 'v versioned_collection" where
  "replaceAll opts values c =
     (let c1 = fold (\<lambda>value c. snd (replace opts value c)) values c;
          retained = map (vo_getId opts) values
      in fold (\<lambda>k c. if k \<in> set retained then c else snd (remove_id opts k c)) (map fst (vc_values c1)) c1)"

definition sortedValues ::
  "(string \<Rightarrow> string \<Rightarrow> int) \<Rightarrow> 'v vc_options \<Rightarrow> 'v versioned_collection \<Rightarrow> 'v versioned_value list" where
  "sortedValues localeCompare opts c =
     js_sort (\<lambda>l r. if vv_seq l - vv_seq r \<noteq> 0 then vv_seq l - vv_seq r
                else localeCompare (vo_getId opts (vv_value l)) (vo_getId opts (vv_value r)))
       (map (\<lambda>(_, s). \<lparr>vv_seq = sv_seq s, vv_value = sv_value s\<rparr>) (vc_values c))"

definition readSnapshot ::
  "(string \<Rightarrow> string \<Rightarrow> int) \<Rightarrow> 'v vc_options \<Rightarrow> snapshot_reason \<Rightarrow> 'v versioned_collection \<Rightarrow> 'v collection_read" where
  "readSnapshot localeCompare opts reason c =
     \<lparr>cr_mode = Snapshot, cr_reason = Some reason, cr_headSeq = headSeq c,
      cr_values = sortedValues localeCompare opts c, cr_removals = []\<rparr>"

definition readAfter ::
  "(string \<Rightarrow> string \<Rightarrow> int) \<Rightarrow> 'v vc_options \<Rightarrow> int \<Rightarrow> 'v versioned_collection \<Rightarrow> 'v collection_read" where
  "readAfter localeCompare opts afterSeq c =
     (if afterSeq < vc_expiredThroughSeq c \<or> afterSeq > headSeq c
      then readSnapshot localeCompare opts CursorExpired c
      else \<lparr>cr_mode = Changes, cr_reason = None, cr_headSeq = headSeq c,
            cr_values = filter (\<lambda>e. vv_seq e > afterSeq) (sortedValues localeCompare opts c),
            cr_removals = js_sort (\<lambda>l r. if vr_seq l - vr_seq r \<noteq> 0 then vr_seq l - vr_seq r
                else localeCompare (vr_id l) (vr_id r))
              (filter (\<lambda>e. vr_seq e > afterSeq)
                (map (\<lambda>(k, seq). \<lparr>vr_id = k, vr_seq = seq\<rparr>) (vc_tombstones c)))\<rparr>)"

section \<open>A copy that follows a feed\<close>

text \<open>
  A client keeps a copy and the head of its last read.  The provider promises that reading from a
  cursor brings a copy from the contents at the cursor to the present contents, that a cursor
  beyond its head restores the copy from anything, and that its invariant is kept.
\<close>

primrec follow ::
  "('s \<Rightarrow> int) \<Rightarrow> ('s \<Rightarrow> int \<Rightarrow> ('k \<rightharpoonup> 'v) \<Rightarrow> ('k \<rightharpoonup> 'v)) \<Rightarrow> 's list \<Rightarrow> int \<Rightarrow> ('k \<rightharpoonup> 'v) \<Rightarrow>
     int \<times> ('k \<rightharpoonup> 'v)" where
  "follow head sync [] c r = (c, r)"
| "follow head sync (s # ss) c r = follow head sync ss (head s) (sync s c r)"

locale change_feed =
  fixes ok :: "'s \<Rightarrow> bool"
    and step :: "'s \<Rightarrow> 's \<Rightarrow> bool"
    and head :: "'s \<Rightarrow> int"
    and contents :: "'s \<Rightarrow> 'k \<rightharpoonup> 'v"
    and sync :: "'s \<Rightarrow> int \<Rightarrow> ('k \<rightharpoonup> 'v) \<Rightarrow> ('k \<rightharpoonup> 'v)"
  assumes step_ok: "ok s \<Longrightarrow> step s s' \<Longrightarrow> ok s'"
    and catch_up: "ok s \<Longrightarrow> step\<^sup>*\<^sup>* s s' \<Longrightarrow> sync s' (head s) (contents s) = contents s'"
    and resync: "ok s \<Longrightarrow> head s < c \<Longrightarrow> sync s c r = contents s"
begin

lemma steps_ok: "step\<^sup>*\<^sup>* s s' \<Longrightarrow> ok s \<Longrightarrow> ok s'"
  by (induction rule: rtranclp_induct) (auto intro: step_ok)

lemma follow_in_sync:
  assumes "ok s" and "sorted_wrt step\<^sup>*\<^sup>* (s # ss)" and "ss \<noteq> []"
  shows "follow head sync ss (head s) (contents s) = (head (last ss), contents (last ss))"
  using assms
proof (induction ss arbitrary: s)
  case (Cons s' ss)
  then have steps: "step\<^sup>*\<^sup>* s s'" "ok s'" by (auto intro: steps_ok)
  show ?case
  proof (cases "ss = []")
    case True
    with steps Cons.prems(1) show ?thesis by (simp add: catch_up)
  next
    case False
    with Cons steps show ?thesis by (simp add: catch_up)
  qed
qed simp

text \<open>A client whose cursor is of another life of the provider recovers at its first read.\<close>

lemma follow_recovers:
  assumes "ok s" and "sorted_wrt step\<^sup>*\<^sup>* (s # ss)" and "head s < c"
  shows "follow head sync (s # ss) c r = (head (last (s # ss)), contents (last (s # ss)))"
  using follow_in_sync [OF assms(1,2)] resync [OF assms(1,3)] by (cases "ss = []") simp_all

end

section \<open>The collection as a feed\<close>

definition contents :: "'v versioned_collection \<Rightarrow> string \<rightharpoonup> 'v" where
  "contents c k = map_option sv_value (map_of (vc_values c) k)"

definition apply_values :: "('v \<Rightarrow> string) \<Rightarrow> 'v versioned_value list \<Rightarrow> (string \<rightharpoonup> 'v) \<Rightarrow> (string \<rightharpoonup> 'v)" where
  "apply_values getId vs r = fold (\<lambda>e r. r(getId (vv_value e) \<mapsto> vv_value e)) vs r"

definition apply_removals :: "versioned_removal list \<Rightarrow> (string \<rightharpoonup> 'v) \<Rightarrow> (string \<rightharpoonup> 'v)" where
  "apply_removals rs r = fold (\<lambda>e r. r(vr_id e := None)) rs r"

text \<open>What a client does with a read: a snapshot replaces its copy, changes are applied to it.\<close>

definition apply_read :: "'v vc_options \<Rightarrow> 'v collection_read \<Rightarrow> (string \<rightharpoonup> 'v) \<Rightarrow> (string \<rightharpoonup> 'v)" where
  "apply_read opts read r = (case cr_mode read of
      Snapshot \<Rightarrow> apply_values (vo_getId opts) (cr_values read) Map.empty
    | Changes \<Rightarrow> apply_removals (cr_removals read) (apply_values (vo_getId opts) (cr_values read) r))"

definition sync_copy ::
  "(string \<Rightarrow> string \<Rightarrow> int) \<Rightarrow> 'v vc_options \<Rightarrow> 'v versioned_collection \<Rightarrow> int \<Rightarrow>
     (string \<rightharpoonup> 'v) \<Rightarrow> (string \<rightharpoonup> 'v)" where
  "sync_copy localeCompare opts c cursor r = apply_read opts (readAfter localeCompare opts cursor c) r"

definition collection_ok :: "'v vc_options \<Rightarrow> 'v versioned_collection \<Rightarrow> bool" where
  "collection_ok opts c \<longleftrightarrow> alist_ok (vc_values c) \<and> alist_ok (vc_tombstones c) \<and>
     (\<forall>k s. map_of (vc_values c) k = Some s \<longrightarrow>
        vo_getId opts (sv_value s) = k \<and> sv_seq s \<le> vc_nextSeq c \<and> map_of (vc_tombstones c) k = None) \<and>
     (\<forall>k q. map_of (vc_tombstones c) k = Some q \<longrightarrow> q \<le> vc_nextSeq c) \<and>
     vc_expiredThroughSeq c \<le> vc_nextSeq c"

inductive collection_step :: "'v vc_options \<Rightarrow> 'v versioned_collection \<Rightarrow> 'v versioned_collection \<Rightarrow> bool"
  for opts where
  step_replace: "collection_step opts c (snd (replace opts v c))"
| step_remove: "collection_step opts c (snd (remove_id opts k c))"

inductive_cases collection_stepE: "collection_step opts c c'"

lemma apply_values_at:
  assumes "\<forall>e\<in>set vs. \<forall>e'\<in>set vs. getId (vv_value e) = getId (vv_value e') \<longrightarrow> e = e'"
  shows "apply_values getId vs r k = (case find (\<lambda>e. getId (vv_value e) = k) vs of
      Some e \<Rightarrow> Some (vv_value e) | None \<Rightarrow> r k)"
  using assms
proof (induction vs arbitrary: r)
  case (Cons e vs)
  have IH: "apply_values getId vs r' k = (case find (\<lambda>e. getId (vv_value e) = k) vs of
      Some e \<Rightarrow> Some (vv_value e) | None \<Rightarrow> r' k)" for r'
    using Cons.IH Cons.prems by simp
  have "find (\<lambda>e. getId (vv_value e) = k) vs = Some e' \<Longrightarrow> getId (vv_value e) = k \<Longrightarrow> e' = e" for e'
    using Cons.prems by (auto simp: find_Some_iff dest: nth_mem)
  with IH show ?case by (auto simp: apply_values_def split: option.splits)
qed (simp add: apply_values_def)

lemma apply_removals_at: "apply_removals rs r k = (if k \<in> vr_id ` set rs then None else r k)"
  by (induction rs arbitrary: r) (auto simp: apply_removals_def)

lemma mem_sortedValues:
  assumes "collection_ok opts c"
  shows "e \<in> set (sortedValues cmp opts c) \<longleftrightarrow>
     (\<exists>k s. map_of (vc_values c) k = Some s \<and> e = \<lparr>vv_seq = sv_seq s, vv_value = sv_value s\<rparr>)"
proof -
  have "alist_ok (vc_values c)" using assms by (simp add: collection_ok_def)
  from alist_mem [OF this] show ?thesis by (force simp: sortedValues_def image_iff)
qed

lemma collection_okD:
  assumes "collection_ok opts c" and "map_of (vc_values c) k = Some s"
  shows "vo_getId opts (sv_value s) = k" "sv_seq s \<le> vc_nextSeq c" "map_of (vc_tombstones c) k = None"
  using assms by (simp_all add: collection_ok_def)

lemma apply_sorted:
  assumes ok: "collection_ok opts c"
  shows "apply_values (vo_getId opts) (filter P (sortedValues cmp opts c)) r k =
    (case map_of (vc_values c) k of
       Some s \<Rightarrow> if P \<lparr>vv_seq = sv_seq s, vv_value = sv_value s\<rparr> then Some (sv_value s) else r k
     | None \<Rightarrow> r k)"
proof -
  let ?vs = "filter P (sortedValues cmp opts c)"
  have mem: "e \<in> set ?vs \<longleftrightarrow> P e \<and> (\<exists>s. map_of (vc_values c) (vo_getId opts (vv_value e)) = Some s \<and>
      e = \<lparr>vv_seq = sv_seq s, vv_value = sv_value s\<rparr>)" for e
  proof
    assume "e \<in> set ?vs"
    then obtain k s where s: "P e" "map_of (vc_values c) k = Some s"
      "e = \<lparr>vv_seq = sv_seq s, vv_value = sv_value s\<rparr>"
      using mem_sortedValues [OF ok, of e cmp] by auto
    moreover have "vo_getId opts (vv_value e) = k" using collection_okD(1) [OF ok s(2)] s(3) by simp
    ultimately show "P e \<and> (\<exists>s. map_of (vc_values c) (vo_getId opts (vv_value e)) = Some s \<and>
      e = \<lparr>vv_seq = sv_seq s, vv_value = sv_value s\<rparr>)" by blast
  next
    assume "P e \<and> (\<exists>s. map_of (vc_values c) (vo_getId opts (vv_value e)) = Some s \<and>
      e = \<lparr>vv_seq = sv_seq s, vv_value = sv_value s\<rparr>)"
    then show "e \<in> set ?vs" using mem_sortedValues [OF ok, of e cmp] by auto
  qed
  then have "\<forall>e\<in>set ?vs. \<forall>e'\<in>set ?vs. vo_getId opts (vv_value e) = vo_getId opts (vv_value e') \<longrightarrow> e = e'"
  proof (intro ballI impI)
    fix e e' assume "e \<in> set ?vs" "e' \<in> set ?vs" and eq: "vo_getId opts (vv_value e) = vo_getId opts (vv_value e')"
    then obtain s s' where "map_of (vc_values c) (vo_getId opts (vv_value e)) = Some s"
      "e = \<lparr>vv_seq = sv_seq s, vv_value = sv_value s\<rparr>"
      "map_of (vc_values c) (vo_getId opts (vv_value e')) = Some s'"
      "e' = \<lparr>vv_seq = sv_seq s', vv_value = sv_value s'\<rparr>"
      unfolding mem by blast
    with eq show "e = e'" by (metis option.inject)
  qed
  note at = apply_values_at [OF this, of r k]
  show ?thesis
  proof (cases "find (\<lambda>e. vo_getId opts (vv_value e) = k) ?vs")
    case None
    then have none: "\<forall>e\<in>set ?vs. vo_getId opts (vv_value e) \<noteq> k" by (simp add: find_None_iff)
    have "\<not> P \<lparr>vv_seq = sv_seq s, vv_value = sv_value s\<rparr>" if s: "map_of (vc_values c) k = Some s" for s
    proof
      assume "P \<lparr>vv_seq = sv_seq s, vv_value = sv_value s\<rparr>"
      moreover have "\<lparr>vv_seq = sv_seq s, vv_value = sv_value s\<rparr> \<in> set (sortedValues cmp opts c)"
        using mem_sortedValues [OF ok] s by blast
      ultimately have "vo_getId opts (sv_value s) \<noteq> k" using none by fastforce
      then show False using collection_okD(1) [OF ok s] by simp
    qed
    with at None show ?thesis by (auto split: option.split)
  next
    case (Some e)
    then have "e \<in> set ?vs" "vo_getId opts (vv_value e) = k" by (auto simp: find_Some_iff dest: nth_mem)
    with at Some mem [of e] show ?thesis by auto
  qed
qed

lemma sync_at:
  assumes ok: "collection_ok opts c"
  shows "sync_copy cmp opts c cursor r k =
    (if cursor < vc_expiredThroughSeq c \<or> headSeq c < cursor then contents c k
     else case map_of (vc_values c) k of
       Some s \<Rightarrow> if cursor < sv_seq s then Some (sv_value s) else r k
     | None \<Rightarrow> (case map_of (vc_tombstones c) k of
           Some q \<Rightarrow> if cursor < q then None else r k
         | None \<Rightarrow> r k))"
proof (cases "cursor < vc_expiredThroughSeq c \<or> headSeq c < cursor")
  case True
  then show ?thesis
    using apply_sorted [OF ok, of "\<lambda>_. True" cmp Map.empty k]
    by (auto simp: sync_copy_def readAfter_def readSnapshot_def apply_read_def contents_def split: option.split)
next
  case False
  have "alist_ok (vc_tombstones c)" using ok by (simp add: collection_ok_def)
  note mem = alist_mem [OF this]
  have "vr_id ` set (cr_removals (readAfter cmp opts cursor c)) =
      fst ` {x \<in> set (vc_tombstones c). cursor < snd x}"
    using False by (force simp: readAfter_def)
  then have tombs: "k \<in> vr_id ` set (cr_removals (readAfter cmp opts cursor c)) \<longleftrightarrow>
      (\<exists>q. map_of (vc_tombstones c) k = Some q \<and> cursor < q)"
    by (auto simp: mem [symmetric] image_iff)
  have "sync_copy cmp opts c cursor r k =
      (if \<exists>q. map_of (vc_tombstones c) k = Some q \<and> cursor < q then None
       else apply_values (vo_getId opts) (filter (\<lambda>e. vv_seq e > cursor) (sortedValues cmp opts c)) r k)"
  proof -
    have "cr_mode (readAfter cmp opts cursor c) = Changes"
      "cr_values (readAfter cmp opts cursor c) = filter (\<lambda>e. vv_seq e > cursor) (sortedValues cmp opts c)"
      using False by (simp_all add: readAfter_def)
    then show ?thesis
      by (simp only: sync_copy_def apply_read_def apply_removals_at tombs read_mode.case)
  qed
  then show ?thesis
    using False apply_sorted [OF ok, of "\<lambda>e. vv_seq e > cursor" cmp r k] collection_okD(3) [OF ok]
    by (auto split: option.splits)
qed

section \<open>Steps keep the invariant\<close>

lemma map_of_alist_delete: "map_of (AList.delete k m) x = (if x = k then None else map_of m x)"
  by (simp add: delete_conv')

lemma map_of_alist_update: "map_of (AList.update k v m) x = (if x = k then Some v else map_of m x)"
  by (simp add: update_conv')

lemma trim_spec:
  assumes "alist_ok tombs" and "\<forall>k q. map_of tombs k = Some q \<longrightarrow> q \<le> n" and "expired \<le> n"
    and "trim_tombstones limit tombs expired = (tombs', expired')"
  shows "alist_ok tombs' \<and> length tombs' \<le> max limit 0 \<and> expired \<le> expired' \<and> expired' \<le> n \<and>
    (\<forall>k. map_of tombs' k = map_of tombs k \<or>
       map_of tombs' k = None \<and> (\<exists>q. map_of tombs k = Some q \<and> q \<le> expired'))"
  using assms
proof (induction limit tombs expired rule: trim_tombstones.induct)
  case (1 limit tombs expired)
  show ?case
  proof (cases "length tombs \<le> limit")
    case True
    with 1 show ?thesis by (auto simp: trim_tombstones.simps [of limit tombs])
  next
    case False
    then obtain k seq rest where tombs: "tombs = (k, seq) # rest"
      by (cases tombs) auto
    let ?t = "AList.delete k tombs"
    have step: "trim_tombstones limit ?t (max expired seq) = (tombs', expired')"
      using 1(5) False by (simp add: tombs trim_tombstones.simps [of limit "(k, seq) # rest"])
    have seq: "map_of tombs k = Some seq" by (simp add: tombs)
    with 1(3) have seq_le: "seq \<le> n" by blast
    have t: "alist_ok ?t" "\<forall>k q. map_of ?t k = Some q \<longrightarrow> q \<le> n" "max expired seq \<le> n"
      using 1(2,3,4) seq_le by (simp_all add: map_of_alist_delete)
    from 1(1) [OF False tombs refl t step] have IH: "alist_ok tombs'" "length tombs' \<le> max limit 0"
      "max expired seq \<le> expired'" "expired' \<le> n"
      "\<And>x. map_of tombs' x = map_of ?t x \<or>
        map_of tombs' x = None \<and> (\<exists>q. map_of ?t x = Some q \<and> q \<le> expired')" by blast+
    have "map_of tombs' x = map_of tombs x \<or>
        map_of tombs' x = None \<and> (\<exists>q. map_of tombs x = Some q \<and> q \<le> expired')" for x
      using IH(3) IH(5) [of x] seq by (cases "x = k") (auto simp: map_of_alist_delete)
    with IH show ?thesis by auto
  qed
qed

lemma replace_cases:
  assumes "collection_ok opts c"
  obtains (same) "replace opts v c = (None, c)"
      "\<exists>s. map_of (vc_values c) (vo_getId opts v) = Some s \<and> sv_fingerprint s = vo_fingerprint opts v"
  | (new) c' where "replace opts v c = (Some (Upsert (headSeq c + 1) v), c')" "collection_ok opts c'"
      "headSeq c' = headSeq c + 1" "vc_expiredThroughSeq c' = vc_expiredThroughSeq c"
      "\<And>k. map_of (vc_values c') k = (if k = vo_getId opts v
        then Some \<lparr>sv_seq = headSeq c + 1, sv_value = v, sv_fingerprint = vo_fingerprint opts v\<rparr>
        else map_of (vc_values c) k)"
      "\<And>k. map_of (vc_tombstones c') k = (if k = vo_getId opts v then None else map_of (vc_tombstones c) k)"
proof (cases "map_option sv_fingerprint (map_of (vc_values c) (vo_getId opts v)) = Some (vo_fingerprint opts v)")
  case True
  with same show ?thesis by (auto simp: replace_def)
next
  case False
  have less: "sv_seq s \<le> vc_nextSeq c + 1" if "map_of (vc_values c) k = Some s" for k s
    using collection_okD(2) [OF assms that] by simp
  let ?c = "snd (replace opts v c)"
  have eq: "replace opts v c = (Some (Upsert (headSeq c + 1) v), ?c)"
    using False by (auto simp: replace_def advance_def headSeq_def Let_def)
  have c': "?c = c\<lparr>vc_nextSeq := vc_nextSeq c + 1,
      vc_values := AList.update (vo_getId opts v) \<lparr>sv_seq = vc_nextSeq c + 1, sv_value = v,
        sv_fingerprint = vo_fingerprint opts v\<rparr> (vc_values c),
      vc_tombstones := AList.delete (vo_getId opts v) (vc_tombstones c)\<rparr>"
    using False by (auto simp: replace_def advance_def Let_def)
  have "collection_ok opts ?c"
    using assms less unfolding collection_ok_def c'
    by (auto simp: map_of_alist_update map_of_alist_delete intro: order_trans [OF _ less_imp_le])
  then show ?thesis
    by (rule new [OF eq]) (simp_all add: c' headSeq_def map_of_alist_update map_of_alist_delete)
qed

lemma remove_cases:
  assumes "collection_ok opts c"
  obtains (gone) "remove_id opts k c = (None, c)" "map_of (vc_values c) k = None"
  | (removed) c' where "remove_id opts k c = (Some (Remove (headSeq c + 1) k), c')" "collection_ok opts c'"
      "map_of (vc_values c) k \<noteq> None" "headSeq c' = headSeq c + 1"
      "vc_expiredThroughSeq c \<le> vc_expiredThroughSeq c'"
      "\<And>x. map_of (vc_values c') x = (if x = k then None else map_of (vc_values c) x)"
      "\<And>x. map_of (vc_tombstones c') x =
          (if x = k then Some (headSeq c + 1) else map_of (vc_tombstones c) x) \<or>
        map_of (vc_tombstones c') x = None \<and>
          (\<exists>q. (if x = k then Some (headSeq c + 1) else map_of (vc_tombstones c) x) = Some q \<and>
               q \<le> vc_expiredThroughSeq c')"
proof (cases "map_of (vc_values c) k")
  case None
  then have "AList.delete k (vc_values c) = vc_values c"
    by (simp add: delete_new map_of_None_iff)
  with None gone show ?thesis by (cases "map_of (vc_tombstones c) k") (auto simp: remove_id_def Let_def)
next
  case (Some s)
  let ?t = "AList.update k (vc_nextSeq c + 1) (AList.delete k (vc_tombstones c))"
  obtain tombs' expired' where trim:
    "trim_tombstones (vo_maxTombstones opts) ?t (vc_expiredThroughSeq c) = (tombs', expired')" by fastforce
  have "alist_ok ?t" using assms by (simp add: collection_ok_def)
  moreover have "\<forall>k q. map_of ?t k = Some q \<longrightarrow> q \<le> vc_nextSeq c + 1"
    using assms by (auto simp: collection_ok_def map_of_alist_update map_of_alist_delete intro: order_trans [OF _ less_imp_le])
  moreover have "vc_expiredThroughSeq c \<le> vc_nextSeq c + 1" using assms by (simp add: collection_ok_def)
  ultimately have spec: "alist_ok tombs'" "vc_expiredThroughSeq c \<le> expired'" "expired' \<le> vc_nextSeq c + 1"
    "\<And>x. map_of tombs' x = map_of ?t x \<or>
      map_of tombs' x = None \<and> (\<exists>q. map_of ?t x = Some q \<and> q \<le> expired')"
    using trim_spec [of ?t "vc_nextSeq c + 1" "vc_expiredThroughSeq c" "vo_maxTombstones opts"] trim by blast+
  let ?c = "c\<lparr>vc_values := AList.delete k (vc_values c), vc_nextSeq := vc_nextSeq c + 1,
      vc_tombstones := tombs', vc_expiredThroughSeq := expired'\<rparr>"
  have eq: "remove_id opts k c = (Some (Remove (headSeq c + 1) k), ?c)"
    using trim by (simp add: remove_id_def Let_def Some advance_def trimTombstones_def headSeq_def)
  have tomb: "map_of ?t x = (if x = k then Some (vc_nextSeq c + 1) else map_of (vc_tombstones c) x)" for x
    by (simp add: map_of_alist_update map_of_alist_delete)
  have "map_of tombs' x = None" if "map_of (vc_values c) x \<noteq> None" "x \<noteq> k" for x
    using spec(4) [of x] that assms by (auto simp: tomb collection_ok_def)
  moreover have "q \<le> vc_nextSeq c + 1" if "map_of tombs' x = Some q" for x q
    using spec(4) [of x] that assms by (auto simp: tomb collection_ok_def split: if_splits intro: order_trans [OF _ less_imp_le])
  moreover have "sv_seq s \<le> vc_nextSeq c + 1" if "map_of (vc_values c) x = Some s" for x s
    using collection_okD(2) [OF assms that] by simp
  ultimately have "collection_ok opts ?c"
    using assms spec(1,3) unfolding collection_ok_def by (auto simp: map_of_alist_delete)
  then show ?thesis
  proof (rule removed [OF eq])
    fix x show "map_of (vc_tombstones ?c) x =
          (if x = k then Some (headSeq c + 1) else map_of (vc_tombstones c) x) \<or>
        map_of (vc_tombstones ?c) x = None \<and>
          (\<exists>q. (if x = k then Some (headSeq c + 1) else map_of (vc_tombstones c) x) = Some q \<and>
               q \<le> vc_expiredThroughSeq ?c)"
      using spec(4) [of x] unfolding tomb headSeq_def by simp
  qed (use Some spec(2) in \<open>simp_all add: headSeq_def map_of_alist_delete\<close>)
qed

lemma collection_step_ok:
  assumes "collection_step opts c c'" and ok: "collection_ok opts c"
  shows "collection_ok opts c'"
  using assms(1)
proof cases
  case (step_replace v)
  with ok show ?thesis by (cases rule: replace_cases [OF ok, of v]) auto
next
  case (step_remove k)
  with ok show ?thesis by (cases rule: remove_cases [OF ok, of k]) auto
qed

text \<open>
  What reading from the cursor of an earlier state relies on: nothing but what changed since the
  cursor differs, and what disappeared left a tombstone newer than the cursor, unless tombstones
  newer than the cursor have expired.
\<close>

definition since_at :: "int \<Rightarrow> (string \<rightharpoonup> 'v) \<Rightarrow> 'v versioned_collection \<Rightarrow> string \<Rightarrow> bool" where
  "since_at cursor r c k \<longleftrightarrow> (case map_of (vc_values c) k of
      Some s \<Rightarrow> cursor < sv_seq s \<or> r k = Some (sv_value s)
    | None \<Rightarrow> r k = None \<or> (\<exists>q. map_of (vc_tombstones c) k = Some q \<and> cursor < q))"

definition since :: "int \<Rightarrow> (string \<rightharpoonup> 'v) \<Rightarrow> 'v versioned_collection \<Rightarrow> bool" where
  "since cursor r c \<longleftrightarrow> cursor \<le> headSeq c \<and>
     (cursor < vc_expiredThroughSeq c \<or> (\<forall>k. since_at cursor r c k))"

lemma since_step:
  assumes "collection_step opts c c'" and ok: "collection_ok opts c" and since: "since cursor r c"
  shows "since cursor r c'"
  using assms(1)
proof cases
  case (step_replace v)
  show ?thesis
  proof (cases rule: replace_cases [OF ok, of v])
    case 1
    with since step_replace show ?thesis by simp
  next
    case (2 d)
    have d: "c' = d" using step_replace 2(1) by simp
    have "since_at cursor r d k" if "since_at cursor r c k" "cursor \<le> headSeq c" for k
      using that 2(5) [of k] 2(6) [of k] by (cases "k = vo_getId opts v") (auto simp: since_at_def split: option.splits)
    with since 2(3,4) show ?thesis by (auto simp: since_def d)
  qed
next
  case (step_remove k)
  show ?thesis
  proof (cases rule: remove_cases [OF ok, of k])
    case 1
    with since step_remove show ?thesis by simp
  next
    case (2 d)
    have d: "c' = d" using step_remove 2(1) by simp
    have "since_at cursor r d x"
      if "since_at cursor r c x" "cursor \<le> headSeq c" "\<not> cursor < vc_expiredThroughSeq d" for x
      using that 2(6) [of x] 2(7) [of x] by (cases "x = k") (auto simp: since_at_def split: option.splits)
    with since 2(4,5) show ?thesis by (auto simp: since_def d)
  qed
qed

lemma since_sync:
  assumes "collection_ok opts c" and "since cursor r c"
  shows "sync_copy cmp opts c cursor r = contents c"
proof
  fix k
  show "sync_copy cmp opts c cursor r k = contents c k"
  proof (cases "cursor < vc_expiredThroughSeq c")
    case True
    then show ?thesis by (simp add: sync_at [OF assms(1)])
  next
    case False
    then have "since_at cursor r c k" using assms(2) by (simp add: since_def)
    with False show ?thesis
      by (auto simp: sync_at [OF assms(1)] contents_def since_at_def split: option.splits)
  qed
qed

interpretation directory: change_feed "collection_ok opts" "collection_step opts" headSeq contents
  "sync_copy cmp opts" for opts :: "'v vc_options" and cmp
proof
  fix c c' :: "'v versioned_collection"
  assume ok: "collection_ok opts c"
  show "collection_ok opts c'" if "collection_step opts c c'" using collection_step_ok that ok .
  show "sync_copy cmp opts c' (headSeq c) (contents c) = contents c'" if steps: "(collection_step opts)\<^sup>*\<^sup>* c c'"
  proof -
    have "since (headSeq c) (contents c) c"
      by (auto simp: since_def since_at_def contents_def split: option.split)
    with steps ok have "collection_ok opts c' \<and> since (headSeq c) (contents c) c'"
      by (induction rule: rtranclp_induct) (auto intro: collection_step_ok since_step)
    then show ?thesis by (auto intro: since_sync)
  qed
next
  fix c :: "'v versioned_collection" and cursor r
  assume "collection_ok opts c" "headSeq c < cursor"
  then show "sync_copy cmp opts c cursor r = contents c" by (auto simp: sync_at fun_eq_iff)
qed

text \<open>
  C6: directory sync converges: a client that holds the contents of the collection at its cursor
  and reads from it at any later moments, however many changes, removals, re-creations and
  expirations of tombstones lie between, holds the contents of the collection at each read; a
  client whose cursor is ahead of the collection (of another generation) recovers them from any
  copy at its first read.
\<close>

theorem directory_sync_converges:
  assumes "collection_ok opts c" and "sorted_wrt (collection_step opts)\<^sup>*\<^sup>* (c # cs)" and "cs \<noteq> []"
  shows "follow headSeq (sync_copy cmp opts) cs (headSeq c) (contents c) =
       (headSeq (last cs), contents (last cs)) \<and>
     (headSeq c < cursor \<longrightarrow> follow headSeq (sync_copy cmp opts) (c # cs) cursor copy =
       (headSeq (last cs), contents (last cs)))"
  using directory.follow_in_sync [OF assms] directory.follow_recovers [OF assms(1,2)] assms(3) by simp

fun apply_change :: "'v vc_options \<Rightarrow> 'v published_change option \<Rightarrow> (string \<rightharpoonup> 'v) \<Rightarrow> (string \<rightharpoonup> 'v)" where
  "apply_change opts None r = r"
| "apply_change opts (Some (Upsert seq v)) r = r(vo_getId opts v \<mapsto> v)"
| "apply_change opts (Some (Remove seq k)) r = r(k := None)"

fun change_seq :: "'v published_change option \<Rightarrow> int option" where
  "change_seq None = None"
| "change_seq (Some (Upsert seq v)) = Some seq"
| "change_seq (Some (Remove seq k)) = Some seq"

text \<open>
  the changes the collection publishes are exact: applying the change returned by
  \<open>replace\<close> or \<open>remove\<close> to the previous contents gives the new contents; a published change
  carries the next sequence number, which becomes the head, and when nothing is published nothing
  changed and the head stays.
\<close>

lemma published_changes_exact:
  assumes "collection_ok opts c" and "r = replace opts v c \<or> r = remove_id opts k c"
  shows "contents (snd r) = apply_change opts (fst r) (contents c) \<and>
     (case change_seq (fst r) of None \<Rightarrow> snd r = c | Some seq \<Rightarrow> seq = headSeq c + 1 \<and> headSeq (snd r) = seq)"
  using assms(2)
proof
  assume r: "r = replace opts v c"
  show ?thesis
    by (cases rule: replace_cases [OF assms(1), of v]) (auto simp: r contents_def fun_eq_iff)
next
  assume r: "r = remove_id opts k c"
  show ?thesis
    by (cases rule: remove_cases [OF assms(1), of k]) (auto simp: r contents_def fun_eq_iff)
qed

lemma replace_contents:
  assumes "collection_ok opts c"
    and faithful: "\<And>x y. vo_getId opts x = vo_getId opts y \<Longrightarrow> vo_fingerprint opts x = vo_fingerprint opts y \<Longrightarrow> x = y"
    and stored: "\<forall>k s. map_of (vc_values c) k = Some s \<longrightarrow> sv_fingerprint s = vo_fingerprint opts (sv_value s)"
  shows "collection_ok opts (snd (replace opts v c)) \<and>
    contents (snd (replace opts v c)) = (contents c)(vo_getId opts v \<mapsto> v) \<and>
    (\<forall>k s. map_of (vc_values (snd (replace opts v c))) k = Some s \<longrightarrow>
       sv_fingerprint s = vo_fingerprint opts (sv_value s))"
proof (cases rule: replace_cases [OF assms(1), of v])
  case 1
  then obtain s where s: "map_of (vc_values c) (vo_getId opts v) = Some s"
    "sv_fingerprint s = vo_fingerprint opts v" by blast
  have "sv_value s = v"
  proof (rule faithful)
    show "vo_getId opts (sv_value s) = vo_getId opts v" using collection_okD(1) [OF assms(1) s(1)] .
    show "vo_fingerprint opts (sv_value s) = vo_fingerprint opts v" using stored s by simp
  qed
  with s have "contents c = (contents c)(vo_getId opts v \<mapsto> v)" by (auto simp: contents_def fun_eq_iff)
  with 1 assms(1) stored show ?thesis by simp
next
  case (2 c')
  then show ?thesis using stored by (auto simp: contents_def fun_eq_iff)
qed

lemma remove_contents:
  assumes "collection_ok opts c"
  shows "collection_ok opts (snd (remove_id opts k c)) \<and>
    contents (snd (remove_id opts k c)) = (contents c)(k := None) \<and>
    map_of (vc_values (snd (remove_id opts k c))) x = (if x = k then None else map_of (vc_values c) x)"
  using assms
  by (cases rule: remove_cases [OF assms, of k]) (auto simp: contents_def fun_eq_iff)

lemma removes_contents:
  assumes "collection_ok opts c"
  shows "contents (fold (\<lambda>k c. if k \<in> R then c else snd (remove_id opts k c)) ks c) x =
    (if x \<in> set ks - R then None else contents c x)"
  using assms
proof (induction ks arbitrary: c)
  case (Cons k ks)
  show ?case
  proof (cases "k \<in> R")
    case True
    with Cons show ?thesis by auto
  next
    case False
    have "collection_ok opts (snd (remove_id opts k c))" "contents (snd (remove_id opts k c)) = (contents c)(k := None)"
      using remove_contents [OF Cons.prems] by blast+
    with False Cons.IH [of "snd (remove_id opts k c)"] show ?thesis by auto
  qed
qed simp

text \<open>
  \<open>replaceAll\<close> makes the collection hold exactly the given values: for every id the last value
  given for it, and nothing for ids that were not given, provided equal fingerprints of one id
  mean equal values.
\<close>

lemma replaceAll_exact:
  assumes "collection_ok opts c"
    and "\<And>x y. vo_getId opts x = vo_getId opts y \<Longrightarrow> vo_fingerprint opts x = vo_fingerprint opts y \<Longrightarrow> x = y"
    and "\<forall>k s. map_of (vc_values c) k = Some s \<longrightarrow> sv_fingerprint s = vo_fingerprint opts (sv_value s)"
  shows "contents (replaceAll opts vs c) k = find (\<lambda>v. vo_getId opts v = k) (rev vs)"
proof -
  let ?c = "fold (\<lambda>value c. snd (replace opts value c)) vs c"
  have "collection_ok opts ?c \<and>
      (\<forall>k s. map_of (vc_values ?c) k = Some s \<longrightarrow> sv_fingerprint s = vo_fingerprint opts (sv_value s)) \<and>
      (\<forall>k. contents ?c k = or_else (find (\<lambda>v. vo_getId opts v = k) (rev vs)) (contents c k))"
  proof (induction vs rule: rev_induct)
    case Nil
    with assms(1,3) show ?case by simp
  next
    case (snoc v vs)
    then show ?case
      using replace_contents [of opts "fold (\<lambda>value c. snd (replace opts value c)) vs c" v] assms(2)
      by auto
  qed
  note c = this
  have dom: "k \<in> set (map fst (vc_values ?c)) \<longleftrightarrow> contents ?c k \<noteq> None"
    by (simp add: contents_def map_of_None_iff image_iff del: not_None_eq)
  have found: "k \<in> set (map (vo_getId opts) vs) \<longleftrightarrow> find (\<lambda>v. vo_getId opts v = k) (rev vs) \<noteq> None"
    by (auto simp: find_None_iff)
  have "contents (replaceAll opts vs c) k =
      (if k \<in> set (map fst (vc_values ?c)) - set (map (vo_getId opts) vs) then None else contents ?c k)"
    unfolding replaceAll_def Let_def using removes_contents [of opts ?c] c by blast
  then show ?thesis
    using c dom found by (cases "find (\<lambda>v. vo_getId opts v = k) (rev vs)") auto
qed

section \<open>A concrete directory\<close>

definition example_opts :: "(string \<times> string) vc_options" where
  "example_opts = \<lparr>vo_getId = fst, vo_fingerprint = snd, vo_maxTombstones = 1\<rparr>"

definition dir0 :: "(string \<times> string) versioned_collection" where
  "dir0 = snd (replace example_opts (''b'', ''1'') (snd (replace example_opts (''a'', ''1'') new_collection)))"

definition dir1 :: "(string \<times> string) versioned_collection" where
  "dir1 = snd (remove_id example_opts ''a'' dir0)"

lemma new_collection_ok: "collection_ok opts new_collection"
  by (simp add: collection_ok_def new_collection_def)

lemma dir0_ok: "collection_ok example_opts dir0"
  unfolding dir0_def by (intro collection_step_ok [OF step_replace] new_collection_ok)

theorem directory_sync_converges_witness:
  "follow headSeq (sync_copy (\<lambda>_ _. 0) example_opts) [dir1] (headSeq dir0) (contents dir0) =
     (headSeq dir1, contents dir1)"
proof -
  have "sorted_wrt (collection_step example_opts)\<^sup>*\<^sup>* [dir0, dir1]"
    unfolding dir1_def by (auto intro: step_remove)
  from directory_sync_converges [OF dir0_ok this] show ?thesis by simp
qed

theorem published_changes_exact_witness:
  "contents (snd (remove_id example_opts ''a'' dir0)) =
     apply_change example_opts (fst (remove_id example_opts ''a'' dir0)) (contents dir0)"
  using published_changes_exact [OF dir0_ok disjI2 [OF refl]] by blast

theorem replaceAll_exact_witness:
  "contents (replaceAll example_opts [(''b'', ''2''), (''c'', ''1'')] new_collection) ''b'' = Some (''b'', ''2'')"
proof -
  have "contents (replaceAll example_opts [(''b'', ''2''), (''c'', ''1'')] new_collection) ''b'' =
      find (\<lambda>v. vo_getId example_opts v = ''b'') (rev [(''b'', ''2''), (''c'', ''1'')])"
    by (rule replaceAll_exact [OF new_collection_ok])
      (auto simp: example_opts_def new_collection_def)
  then show ?thesis by (simp add: example_opts_def)
qed

end
