(* ===== verification/Js_Text.thy ===== *)
theory Js_Text
  imports Prelude
begin

text \<open>
  The string functions of JavaScript that the modelled modules use: \<open>trim\<close>, \<open>split\<close>,
  \<open>Number.parseInt(_, 10)\<close>, \<open>String(n)\<close> for integers, and the test \<open>/^\\d+$/\<close>.  Strings are lists of
  8-bit characters, so the white space beyond Latin-1 does not occur; numbers are exact, which
  \<open>Number\<close> is for numerals below \<open>2 ^ 53\<close>.
\<close>

definition is_space :: "char \<Rightarrow> bool" where
  "is_space c \<longleftrightarrow> (let n = of_char c :: nat in 9 \<le> n \<and> n \<le> 13 \<or> n = 32 \<or> n = 160)"

definition trim :: "string \<Rightarrow> string" where
  "trim s = rev (dropWhile is_space (rev (dropWhile is_space s)))"

primrec split_on :: "char \<Rightarrow> string \<Rightarrow> string list" where
  "split_on c [] = [[]]"
| "split_on c (x # xs) =
     (if x = c then [] # split_on c xs
      else case split_on c xs of [] \<Rightarrow> [[x]] | w # ws \<Rightarrow> (x # w) # ws)"

text \<open>\<open>s.split(/\\s+/)\<close> for a trimmed string.\<close>

fun split_spaces :: "string \<Rightarrow> string list" where
  "split_spaces [] = [[]]"
| "split_spaces (x # xs) =
     (if is_space x then (if xs \<noteq> [] \<and> is_space (hd xs) then split_spaces xs else [] # split_spaces xs)
      else case split_spaces xs of [] \<Rightarrow> [[x]] | w # ws \<Rightarrow> (x # w) # ws)"

definition is_digit :: "char \<Rightarrow> bool" where
  "is_digit c \<longleftrightarrow> (let n = of_char c :: nat in 48 \<le> n \<and> n \<le> 57)"

definition digit_value :: "char \<Rightarrow> nat" where
  "digit_value c = of_char c - 48"

definition digit_char :: "nat \<Rightarrow> char" where
  "digit_char d = char_of (48 + d)"

definition digits_value :: "string \<Rightarrow> nat" where
  "digits_value s = foldl (\<lambda>n c. 10 * n + digit_value c) 0 s"

definition all_digits :: "string \<Rightarrow> bool" where
  "all_digits s \<longleftrightarrow> s \<noteq> [] \<and> list_all is_digit s"

text \<open>\<open>Number.parseInt(s, 10)\<close>; \<open>None\<close> is \<open>NaN\<close>.\<close>

definition parse_unsigned :: "string \<Rightarrow> int option" where
  "parse_unsigned s = (let ds = takeWhile is_digit s in
     if ds = [] then None else Some (int (digits_value ds)))"

definition parseInt :: "string \<Rightarrow> int option" where
  "parseInt s0 = (let s = dropWhile is_space s0 in
     case s of
       CHR ''-'' # r \<Rightarrow> map_option uminus (parse_unsigned r)
     | CHR ''+'' # r \<Rightarrow> parse_unsigned r
     | _ \<Rightarrow> parse_unsigned s)"

function show_nat :: "nat \<Rightarrow> string" where
  "show_nat n = (if n < 10 then [digit_char n] else show_nat (n div 10) @ [digit_char (n mod 10)])"
  by pat_completeness auto
termination by (relation "measure id") auto

declare show_nat.simps [simp del]

definition show_int :: "int \<Rightarrow> string" where
  "show_int n = (if n < 0 then CHR ''-'' # show_nat (nat (- n)) else show_nat (nat n))"

section \<open>Printing and parsing numbers\<close>

lemma digit_char_facts:
  assumes "d < 10"
  shows "is_digit (digit_char d)" "digit_value (digit_char d) = d" "\<not> is_space (digit_char d)"
    "digit_char d \<noteq> CHR ''-''" "digit_char d \<noteq> CHR ''+''" "digit_char d \<noteq> CHR '',''"
    "digit_char d \<noteq> CHR ''/''" "digit_char d \<noteq> CHR ''*''"
proof -
  have code: "of_char (digit_char d) = 48 + d" using assms by (simp add: digit_char_def)
  then show "is_digit (digit_char d)" "digit_value (digit_char d) = d" "\<not> is_space (digit_char d)"
    using assms by (simp_all add: is_digit_def digit_value_def is_space_def)
  have "digit_char d \<noteq> c" if "of_char c \<noteq> (48 + d :: nat)" for c using code that by auto
  then show "digit_char d \<noteq> CHR ''-''" "digit_char d \<noteq> CHR ''+''" "digit_char d \<noteq> CHR '',''"
    "digit_char d \<noteq> CHR ''/''" "digit_char d \<noteq> CHR ''*''"
    using assms by simp_all
qed

lemma show_nat_digits: "list_all is_digit (show_nat n)"
  by (induction n rule: show_nat.induct) (subst show_nat.simps, auto simp: digit_char_facts)

lemma show_nat_Nil [simp]: "show_nat n \<noteq> []"
  by (subst show_nat.simps) auto

lemma all_digits_show [simp]: "all_digits (show_nat n)"
  by (simp add: all_digits_def show_nat_digits)

lemma digits_value_snoc: "digits_value (s @ [c]) = 10 * digits_value s + digit_value c"
  by (simp add: digits_value_def)

lemma digits_value_show [simp]: "digits_value (show_nat n) = n"
proof (induction n rule: show_nat.induct)
  case (1 n)
  show ?case
  proof (cases "n < 10")
    case True
    then have "show_nat n = [digit_char n]" by (simp add: show_nat.simps)
    with True show ?thesis by (simp add: digits_value_def digit_char_facts)
  next
    case False
    then have "show_nat n = show_nat (n div 10) @ [digit_char (n mod 10)]" by (simp add: show_nat.simps [of n])
    then show ?thesis using 1 False by (simp add: digits_value_snoc digit_char_facts)
  qed
qed

lemma is_digit_char: "is_digit c \<Longrightarrow> \<exists>d<10. c = digit_char d"
proof -
  assume "is_digit c"
  then have "48 \<le> (of_char c :: nat)" "(of_char c :: nat) \<le> 57" by (auto simp: is_digit_def Let_def)
  moreover have "c = char_of (48 + (of_char c - 48 :: nat))" using calculation by simp
  ultimately show ?thesis unfolding digit_char_def by (intro exI [of _ "of_char c - 48"]) auto
qed

lemma digit_not_special:
  assumes "is_digit c"
  shows "\<not> is_space c" "c \<noteq> CHR ''-''" "c \<noteq> CHR ''+''" "c \<noteq> CHR '',''" "c \<noteq> CHR ''/''" "c \<noteq> CHR ''*''"
  using is_digit_char [OF assms] digit_char_facts by auto

lemma special_not_digit [simp]:
  "\<not> is_digit (CHR ''-'')" "\<not> is_digit (CHR ''+'')" "\<not> is_digit (CHR '','')"
  "\<not> is_digit (CHR ''/'')" "\<not> is_digit (CHR ''*'')"
  by (simp_all add: is_digit_def)

lemma takeWhile_digits: "list_all is_digit s \<Longrightarrow> takeWhile is_digit s = s"
  by (induction s) simp_all

lemma parseInt_digits:
  assumes "all_digits s"
  shows "parseInt s = Some (int (digits_value s))"
proof (cases s)
  case Nil
  with assms show ?thesis by (simp add: all_digits_def)
next
  case (Cons c r)
  with assms have c: "is_digit c" "list_all is_digit r" by (simp_all add: all_digits_def)
  note no = digit_not_special [OF c(1)]
  have "parseInt s = parse_unsigned s"
    using no(1,2,3) by (simp add: parseInt_def Cons Let_def split: char.splits bool.splits)
  then show ?thesis using c by (simp add: parse_unsigned_def Cons takeWhile_digits)
qed

lemma parseInt_show [simp]: "parseInt (show_nat n) = Some (int n)"
  by (simp add: parseInt_digits)

lemma show_int_nat [simp]: "show_int (int n) = show_nat n"
  by (simp add: show_int_def)

section \<open>Splitting and trimming\<close>

lemma trim_id: "s = [] \<or> \<not> is_space (hd s) \<and> \<not> is_space (last s) \<Longrightarrow> trim s = s"
proof -
  assume s: "s = [] \<or> \<not> is_space (hd s) \<and> \<not> is_space (last s)"
  then have "dropWhile is_space s = s" "dropWhile is_space (rev s) = rev s"
    by (auto simp: dropWhile_eq_self_iff hd_rev)
  then show ?thesis by (simp add: trim_def)
qed

lemma trim_ends:
  assumes "trim s \<noteq> []"
  shows "\<not> is_space (hd (trim s)) \<and> \<not> is_space (last (trim s))"
proof -
  let ?u = "dropWhile is_space s"
  have t: "trim s = rev (dropWhile is_space (rev ?u))" by (simp add: trim_def)
  then obtain k where k: "trim s = take k ?u"
    by (metis dropWhile_eq_drop rev_drop rev_rev_ident)
  have "\<not> is_space (hd (trim s))"
    using assms k hd_dropWhile [of is_space s] by (cases ?u; cases k) auto
  moreover have "\<not> is_space (last (trim s))"
    using assms t hd_dropWhile [of is_space "rev ?u"] by (auto simp: last_rev)
  ultimately show ?thesis ..
qed

lemma trim_Nil [simp]: "trim [] = []"
  by (simp add: trim_def)

lemma trim_trim [simp]: "trim (trim s) = trim s"
  using trim_ends [of s] trim_id [of "trim s"] by (cases "trim s = []") auto

lemma split_on_none: "c \<notin> set s \<Longrightarrow> split_on c s = [s]"
  by (induction s) auto

lemma split_on_append: "c \<notin> set s \<Longrightarrow> split_on c (s @ c # t) = s # split_on c t"
  by (induction s) auto

primrec join_with :: "char \<Rightarrow> string list \<Rightarrow> string" where
  "join_with c [] = []"
| "join_with c (w # ws) = (if ws = [] then w else w @ c # join_with c ws)"

lemma split_join: "ws \<noteq> [] \<Longrightarrow> \<forall>w\<in>set ws. c \<notin> set w \<Longrightarrow> split_on c (join_with c ws) = ws"
  by (induction ws) (auto simp: split_on_none split_on_append)

lemma split_spaces_none: "\<forall>c\<in>set s. \<not> is_space c \<Longrightarrow> split_spaces s = [s]"
  by (induction s) auto

lemma split_spaces_append:
  "\<forall>c\<in>set s. \<not> is_space c \<Longrightarrow> is_space x \<Longrightarrow> t \<noteq> [] \<Longrightarrow> \<not> is_space (hd t) \<Longrightarrow>
     split_spaces (s @ x # t) = s # split_spaces t"
  by (induction s) auto

end
