(* ===== verification/Cron.thy ===== *)
theory Cron
  imports Js_Text
begin

text \<open>
  \<open>packages/protocol/src/schedule/cron-expression.ts\<close> (the parser of five-field cron expressions)
  and \<open>packages/server/src/server/schedule/cron.ts\<close> (the next run of a cadence).  A thrown error is
  an \<open>Inl\<close> with its message.  A \<open>Date\<close> is its time value, an \<open>int\<close> of milliseconds; the calendar
  fields in UTC are those of the proleptic Gregorian calendar.  \<open>Intl.DateTimeFormat\<close> is an
  argument: for a time zone it gives the reader of year, month, day, hour and minute, or nothing
  when the zone is invalid.  The range of valid dates is not bounded.
\<close>

record cron_field_bounds =
  cb_min :: nat
  cb_max :: nat
  cb_name :: string

record cron_expression =
  ce_minute :: "nat list"
  ce_hour :: "nat list"
  ce_dayOfMonth :: "nat list"
  ce_month :: "nat list"
  ce_dayOfWeek :: "nat list"

definition minute_bounds :: cron_field_bounds where
  "minute_bounds = \<lparr>cb_min = 0, cb_max = 59, cb_name = ''minute''\<rparr>"
definition hour_bounds :: cron_field_bounds where
  "hour_bounds = \<lparr>cb_min = 0, cb_max = 23, cb_name = ''hour''\<rparr>"
definition day_bounds :: cron_field_bounds where
  "day_bounds = \<lparr>cb_min = 1, cb_max = 31, cb_name = ''day-of-month''\<rparr>"
definition month_bounds :: cron_field_bounds where
  "month_bounds = \<lparr>cb_min = 1, cb_max = 12, cb_name = ''month''\<rparr>"
definition weekday_bounds :: cron_field_bounds where
  "weekday_bounds = \<lparr>cb_min = 0, cb_max = 6, cb_name = ''day-of-week''\<rparr>"

definition cron_error :: "cron_field_bounds \<Rightarrow> string \<Rightarrow> string" where
  "cron_error bounds what = ''Invalid cron '' @ cb_name bounds @ '' '' @ what"

text \<open>The source only calls it with a positive step; the model of a zero step is empty.\<close>

function createRange :: "nat \<Rightarrow> nat \<Rightarrow> nat \<Rightarrow> nat list" where
  "createRange start final step =
     (if step = 0 \<or> final < start then [] else start # createRange (start + step) final step)"
  by pat_completeness auto
termination by (relation "measure (\<lambda>(start, final, step). final + 1 - start)") auto

declare createRange.simps [simp del]

definition parseStepPart :: "string \<Rightarrow> cron_field_bounds \<Rightarrow> string + (string \<times> nat)" where
  "parseStepPart part bounds = (case split_on (CHR ''/'') part of
      [base] \<Rightarrow> Inr (base, 1)
    | [base, stepSource] \<Rightarrow>
        (let normalizedStep = trim stepSource in
         case parseInt normalizedStep of
           None \<Rightarrow> Inl (cron_error bounds ''step'')
         | Some step \<Rightarrow>
             if step \<le> 0 \<or> show_int step \<noteq> normalizedStep then Inl (cron_error bounds ''step'')
             else Inr (base, nat step))
    | _ \<Rightarrow> Inl (cron_error bounds ''step''))"

definition match_range :: "string \<Rightarrow> (nat \<times> nat) option" where
  "match_range base = (case split_on (CHR ''-'') base of
      [a, b] \<Rightarrow> if all_digits a \<and> all_digits b then Some (digits_value a, digits_value b) else None
    | _ \<Rightarrow> None)"

definition parsePart :: "cron_field_bounds \<Rightarrow> string \<Rightarrow> string + nat list" where
  "parsePart bounds rawPart =
     (let part = trim rawPart in
      if part = [] then Inl (cron_error bounds ''field'')
      else case parseStepPart part bounds of
        Inl e \<Rightarrow> Inl e
      | Inr (base, step) \<Rightarrow>
          if base = ''*'' then Inr (createRange (cb_min bounds) (cb_max bounds) step)
          else case match_range base of
            Some (start, final) \<Rightarrow>
              if start > final \<or> start < cb_min bounds \<or> final > cb_max bounds
              then Inl (cron_error bounds ''range'') else Inr (createRange start final step)
          | None \<Rightarrow>
              if \<not> all_digits base then Inl (cron_error bounds ''value'')
              else let value = digits_value base in
                if value < cb_min bounds \<or> value > cb_max bounds
                then Inl (cron_error bounds ''value'') else Inr [value])"

primrec parseParts :: "cron_field_bounds \<Rightarrow> string list \<Rightarrow> string + nat list" where
  "parseParts bounds [] = Inr []"
| "parseParts bounds (p # ps) = (case parsePart bounds p of
      Inl e \<Rightarrow> Inl e
    | Inr vs \<Rightarrow> (case parseParts bounds ps of Inl e \<Rightarrow> Inl e | Inr ws \<Rightarrow> Inr (vs @ ws)))"

definition parseField :: "string \<Rightarrow> cron_field_bounds \<Rightarrow> string + nat list" where
  "parseField source bounds =
     (let trimmed = trim source in
      if trimmed = [] then Inl (cron_error bounds ''field'')
      else case parseParts bounds (split_on (CHR '','') trimmed) of
        Inl e \<Rightarrow> Inl e | Inr allowed \<Rightarrow> Inr (js_set allowed))"

definition parseCronExpression :: "string \<Rightarrow> string + cron_expression" where
  "parseCronExpression expression = (case split_spaces (trim expression) of
      [p0, p1, p2, p3, p4] \<Rightarrow>
        bind_sum (parseField p0 minute_bounds) (\<lambda>minute.
        bind_sum (parseField p1 hour_bounds) (\<lambda>hour.
        bind_sum (parseField p2 day_bounds) (\<lambda>dayOfMonth.
        bind_sum (parseField p3 month_bounds) (\<lambda>month.
        bind_sum (parseField p4 weekday_bounds) (\<lambda>dayOfWeek.
          Inr \<lparr>ce_minute = minute, ce_hour = hour, ce_dayOfMonth = dayOfMonth, ce_month = month,
               ce_dayOfWeek = dayOfWeek\<rparr>)))))
    | _ \<Rightarrow> Inl ''Cron expressions must have 5 fields'')"

definition validateCronExpression :: "string \<Rightarrow> string option" where
  "validateCronExpression expression =
     (case parseCronExpression expression of Inl e \<Rightarrow> Some e | Inr _ \<Rightarrow> None)"

section \<open>Calendar\<close>

text \<open>Days since 1970-01-01 of a date, and the date of a day, by eras of 400 years.\<close>

definition days_from_civil :: "int \<Rightarrow> int \<Rightarrow> int \<Rightarrow> int" where
  "days_from_civil y0 m d =
     (let y = (if m \<le> 2 then y0 - 1 else y0);
          era = y div 400;
          yoe = y - era * 400;
          doy = (153 * (m + (if m > 2 then - 3 else 9)) + 2) div 5 + d - 1;
          doe = yoe * 365 + yoe div 4 - yoe div 100 + doy
      in era * 146097 + doe - 719468)"

definition civil_from_days :: "int \<Rightarrow> int \<times> int \<times> int" where
  "civil_from_days z0 =
     (let z = z0 + 719468;
          era = z div 146097;
          doe = z - era * 146097;
          yoe = (doe - doe div 1460 + doe div 36524 - doe div 146096) div 365;
          doy = doe - (365 * yoe + yoe div 4 - yoe div 100);
          mp = (5 * doy + 2) div 153;
          d = doy - (153 * mp + 2) div 5 + 1;
          m = (if mp < 10 then mp + 3 else mp - 9)
      in (yoe + era * 400 + (if m \<le> 2 then 1 else 0), m, d))"

definition weekday :: "int \<Rightarrow> int" where
  "weekday days = (days + 4) mod 7"

record cron_date_parts =
  cd_minute :: int
  cd_hour :: int
  cd_dayOfMonth :: int
  cd_month :: int
  cd_dayOfWeek :: int

definition utc_parts :: "int \<Rightarrow> cron_date_parts" where
  "utc_parts t =
     (let days = t div 86400000; (y, m, d) = civil_from_days days
      in \<lparr>cd_minute = (t div 60000) mod 60, cd_hour = (t div 3600000) mod 24, cd_dayOfMonth = d,
          cd_month = m, cd_dayOfWeek = weekday days\<rparr>)"

type_synonym zone_reader = "int \<Rightarrow> int \<times> int \<times> int \<times> int \<times> int"

definition zone_parts :: "zone_reader \<Rightarrow> int \<Rightarrow> cron_date_parts" where
  "zone_parts reader t =
     (let (year, month, day, hour, minute) = reader t
      in \<lparr>cd_minute = minute, cd_hour = hour, cd_dayOfMonth = day, cd_month = month,
          cd_dayOfWeek = weekday (days_from_civil year month day)\<rparr>)"

definition startOfNextMinute :: "int \<Rightarrow> int" where
  "startOfNextMinute t = (t div 60000 + 1) * 60000"

definition createCronDatePartsReader ::
  "(string \<Rightarrow> zone_reader option) \<Rightarrow> string option \<Rightarrow> string + (int \<Rightarrow> cron_date_parts)" where
  "createCronDatePartsReader intl timeZone = (case timeZone of
      None \<Rightarrow> Inr utc_parts
    | Some tz \<Rightarrow> (case intl tz of
          None \<Rightarrow> Inl (''Invalid cron time zone: '' @ tz)
        | Some reader \<Rightarrow> Inr (zone_parts reader)))"

section \<open>The next run\<close>

datatype schedule_cadence = Every int | CronCadence string "string option"

definition validateScheduleCadence :: "(string \<Rightarrow> zone_reader option) \<Rightarrow> schedule_cadence \<Rightarrow> string option" where
  "validateScheduleCadence intl cadence = (case cadence of
      Every _ \<Rightarrow> None
    | CronCadence expression timezone \<Rightarrow>
        (case parseCronExpression expression of
           Inl e \<Rightarrow> Some e
         | Inr _ \<Rightarrow> (case timezone of
               None \<Rightarrow> None
             | Some tz \<Rightarrow> if intl tz = None then Some (''Invalid cron time zone: '' @ tz) else None)))"

definition cron_matches :: "cron_expression \<Rightarrow> cron_date_parts \<Rightarrow> bool" where
  "cron_matches cron p \<longleftrightarrow>
     cd_minute p \<in> int ` set (ce_minute cron) \<and> cd_hour p \<in> int ` set (ce_hour cron) \<and>
     cd_dayOfMonth p \<in> int ` set (ce_dayOfMonth cron) \<and> cd_month p \<in> int ` set (ce_month cron) \<and>
     cd_dayOfWeek p \<in> int ` set (ce_dayOfWeek cron)"

primrec next_match :: "(int \<Rightarrow> bool) \<Rightarrow> nat \<Rightarrow> int \<Rightarrow> int option" where
  "next_match P 0 cursor = None"
| "next_match P (Suc n) cursor = (if P cursor then Some cursor else next_match P n (cursor + 60000))"

definition search_limit :: nat where
  "search_limit = 366 * 24 * 60"

definition computeNextRunAt ::
  "(string \<Rightarrow> zone_reader option) \<Rightarrow> schedule_cadence \<Rightarrow> int \<Rightarrow> string + int" where
  "computeNextRunAt intl cadence after = (case cadence of
      Every everyMs \<Rightarrow> Inr (after + everyMs)
    | CronCadence expression timezone \<Rightarrow>
        bind_sum (parseCronExpression expression) (\<lambda>cron.
        bind_sum (createCronDatePartsReader intl timezone) (\<lambda>readDateParts.
          case next_match (\<lambda>t. cron_matches cron (readDateParts t)) search_limit (startOfNextMinute after) of
            Some t \<Rightarrow> Inr t
          | None \<Rightarrow> Inl (''Unable to compute next run time for cron expression: '' @ expression))))"

section \<open>The search finds the first match\<close>

lemma next_match_Some:
  "next_match P n c = Some t \<Longrightarrow> \<exists>i<n. t = c + 60000 * int i \<and> P t \<and> (\<forall>j<i. \<not> P (c + 60000 * int j))"
proof (induction n arbitrary: c)
  case (Suc n)
  show ?case
  proof (cases "P c")
    case True
    with Suc.prems show ?thesis by (intro exI [of _ 0]) simp
  next
    case False
    with Suc obtain i where i: "i < n" "t = c + 60000 + 60000 * int i" "P t"
      "\<forall>j<i. \<not> P (c + 60000 + 60000 * int j)" by auto
    have "\<not> P (c + 60000 * int j)" if "j < Suc i" for j
      using that i(4) False by (cases j) (auto simp: algebra_simps)
    with i show ?thesis by (intro exI [of _ "Suc i"]) simp
  qed
qed simp

lemma next_match_None: "next_match P n c = None \<Longrightarrow> \<forall>i<n. \<not> P (c + 60000 * int i)"
proof (induction n arbitrary: c)
  case (Suc n)
  then have "\<not> P c" "\<forall>i<n. \<not> P (c + 60000 + 60000 * int i)" by (auto split: if_splits)
  then show ?case by (auto simp: less_Suc_eq_0_disj algebra_simps)
qed simp

lemma minute_grid:
  assumes "after < t" and "t mod 60000 = 0"
  obtains i where "t = startOfNextMinute after + 60000 * int i"
proof -
  have t: "t = 60000 * (t div 60000)" using assms(2) div_mult_mod_eq [of t 60000] by linarith
  have "60000 * (after div 60000) \<le> after"
    using div_mult_mod_eq [of after 60000] pos_mod_sign [of 60000 after] by linarith
  with assms(1) t have "after div 60000 < t div 60000" by linarith
  then have "t = startOfNextMinute after + 60000 * int (nat (t div 60000 - (after div 60000 + 1)))"
    using t by (simp add: startOfNextMinute_def algebra_simps)
  then show thesis by (rule that)
qed

lemma startOfNextMinute_bounds:
  "after < startOfNextMinute after \<and> startOfNextMinute after \<le> after + 60000 \<and> startOfNextMinute after mod 60000 = 0"
proof -
  have split: "60000 * (after div 60000) + after mod 60000 = after" by simp
  have "after < 60000 * (after div 60000) + 60000"
    using split pos_mod_bound [of 60000 after] by linarith
  moreover have "60000 * (after div 60000) \<le> after"
    using split pos_mod_sign [of 60000 after] by linarith
  ultimately show ?thesis by (simp add: startOfNextMinute_def)
qed

lemma cron_first_match:
  assumes "parseCronExpression expression = Inr cron"
    and "createCronDatePartsReader intl timezone = Inr reader"
  shows "(case computeNextRunAt intl (CronCadence expression timezone) after of
      Inr t \<Rightarrow> after < t \<and> t \<le> after + 366 * 86400000 \<and> t mod 60000 = 0 \<and> cron_matches cron (reader t) \<and>
        (\<forall>t'. after < t' \<and> t' < t \<and> t' mod 60000 = 0 \<longrightarrow> \<not> cron_matches cron (reader t'))
    | Inl _ \<Rightarrow> \<forall>t'. after < t' \<and> t' \<le> after + 366 * 86400000 \<and> t' mod 60000 = 0 \<longrightarrow>
        \<not> cron_matches cron (reader t'))"
proof -
  let ?P = "\<lambda>t. cron_matches cron (reader t)" and ?s = "startOfNextMinute after"
  note s = startOfNextMinute_bounds [of after]
  have run: "computeNextRunAt intl (CronCadence expression timezone) after =
      (case next_match ?P search_limit ?s of Some t \<Rightarrow> Inr t
       | None \<Rightarrow> Inl (''Unable to compute next run time for cron expression: '' @ expression))"
    by (simp add: computeNextRunAt_def assms bind_sum_def)
  show ?thesis
  proof (cases "next_match ?P search_limit ?s")
    case None
    have "\<not> ?P t" if t: "after < t" "t \<le> after + 366 * 86400000" "t mod 60000 = 0" for t
    proof -
      from minute_grid [OF t(1,3)] obtain i where i: "t = ?s + 60000 * int i" .
      with t(2) s have "i < search_limit" by (simp add: search_limit_def)
      with next_match_None [OF None] i show ?thesis by blast
    qed
    with None show ?thesis by (simp add: run)
  next
    case (Some t)
    from next_match_Some [OF Some] obtain i where
      i: "i < search_limit" "t = ?s + 60000 * int i" "?P t" "\<forall>j<i. \<not> ?P (?s + 60000 * int j)" by blast
    have "\<not> ?P t'" if t': "after < t'" "t' < t" "t' mod 60000 = 0" for t'
    proof -
      from minute_grid [OF t'(1,3)] obtain j where "t' = ?s + 60000 * int j" .
      with t'(2) i show ?thesis by auto
    qed
    moreover have "t mod 60000 = 0" using s i(2) by presburger
    ultimately show ?thesis using Some i s by (simp add: run search_limit_def)
  qed
qed

text \<open>
  C15: for a valid expression and time zone, the next run is the first minute after the given
  moment whose calendar fields match the expression, no later than 366 days ahead; and it is
  refused precisely when no minute of those 366 days matches.
\<close>

theorem next_run_is_first_match:
  assumes "parseCronExpression expression = Inr cron"
    and "createCronDatePartsReader intl timezone = Inr reader"
  shows "(case computeNextRunAt intl (CronCadence expression timezone) after of
      Inr t \<Rightarrow> after < t \<and> t \<le> after + 366 * 86400000 \<and> t mod 60000 = 0 \<and> cron_matches cron (reader t) \<and>
        (\<forall>t'. after < t' \<and> t' < t \<and> t' mod 60000 = 0 \<longrightarrow> \<not> cron_matches cron (reader t'))
    | Inl _ \<Rightarrow> \<forall>t'. after < t' \<and> t' \<le> after + 366 * 86400000 \<and> t' mod 60000 = 0 \<longrightarrow>
        \<not> cron_matches cron (reader t'))"
  using assms by (rule cron_first_match)

section \<open>Parsing what was printed\<close>

datatype cron_part = AnyEvery nat | SpanEvery nat nat nat | Exactly nat

fun print_part :: "cron_part \<Rightarrow> string" where
  "print_part (AnyEvery s) = ''*/'' @ show_nat s"
| "print_part (SpanEvery a b s) = show_nat a @ ''-'' @ show_nat b @ ''/'' @ show_nat s"
| "print_part (Exactly n) = show_nat n"

fun part_ok :: "cron_field_bounds \<Rightarrow> cron_part \<Rightarrow> bool" where
  "part_ok bounds (AnyEvery s) = (0 < s)"
| "part_ok bounds (SpanEvery a b s) = (0 < s \<and> a \<le> b \<and> cb_min bounds \<le> a \<and> b \<le> cb_max bounds)"
| "part_ok bounds (Exactly n) = (cb_min bounds \<le> n \<and> n \<le> cb_max bounds)"

fun part_allows :: "cron_field_bounds \<Rightarrow> cron_part \<Rightarrow> nat \<Rightarrow> bool" where
  "part_allows bounds (AnyEvery s) v = (cb_min bounds \<le> v \<and> v \<le> cb_max bounds \<and> (v - cb_min bounds) mod s = 0)"
| "part_allows bounds (SpanEvery a b s) v = (a \<le> v \<and> v \<le> b \<and> (v - a) mod s = 0)"
| "part_allows bounds (Exactly n) v = (v = n)"

definition print_field :: "cron_part list \<Rightarrow> string" where
  "print_field parts = join_with (CHR '','') (map print_part parts)"

lemma mem_createRange:
  "0 < step \<Longrightarrow> v \<in> set (createRange start final step) \<longleftrightarrow> start \<le> v \<and> v \<le> final \<and> (v - start) mod step = 0"
proof (induction start final step rule: createRange.induct)
  case (1 start final step)
  show ?case
  proof (cases "final < start")
    case True
    then show ?thesis by (auto simp: createRange.simps [of start])
  next
    case False
    have "v = start \<or> (start + step \<le> v \<and> v \<le> final \<and> (v - (start + step)) mod step = 0) \<longleftrightarrow>
        start \<le> v \<and> v \<le> final \<and> (v - start) mod step = 0"
    proof (cases "start + step \<le> v")
      case True
      then have "(v - start) mod step = (v - (start + step)) mod step"
        by (metis diff_diff_left le_diff_conv2 le_mod_geq ordered_cancel_comm_monoid_diff_class.add_diff_inverse
            add_leD1 le_add1 add.commute diff_le_mono add_diff_cancel_left')
      with True 1(2) False show ?thesis by auto
    next
      case less: False
      have "(v - start) mod step = v - start" if "start \<le> v" using less that by simp
      with less False 1(2) show ?thesis by auto
    qed
    with 1 False show ?thesis by (simp add: createRange.simps [of start])
  qed
qed

lemma digits_free: "\<not> is_digit c \<Longrightarrow> c \<notin> set (show_nat n)"
  using show_nat_digits [of n] by (auto simp: list_all_iff)

lemma digits_nospace: "\<forall>c\<in>set (show_nat n). \<not> is_space c"
  using show_nat_digits [of n] digit_not_special(1) by (auto simp: list_all_iff)

lemma part_nospace: "\<forall>c\<in>set (print_part p). \<not> is_space c"
  using digits_nospace by (cases p) (auto simp: is_space_def)

lemma part_nocomma: "CHR '','' \<notin> set (print_part p)"
  using digits_free by (cases p) auto

lemma part_Nil [simp]: "print_part p \<noteq> []"
  by (cases p) simp_all

lemma trim_nospace: "\<forall>c\<in>set s. \<not> is_space c \<Longrightarrow> trim s = s"
  by (rule trim_id) (cases s; auto)

lemma step_printed:
  assumes "CHR ''/'' \<notin> set base" and "0 < s"
  shows "parseStepPart (base @ CHR ''/'' # show_nat s) bounds = Inr (base, s)"
  using assms split_on_append [OF assms(1), of "show_nat s"] split_on_none [of "CHR ''/''" "show_nat s"]
  by (simp add: parseStepPart_def digits_free trim_nospace [OF digits_nospace])

lemma part_printed:
  assumes "part_ok bounds p"
  shows "\<exists>vs. parsePart bounds (print_part p) = Inr vs \<and> (\<forall>v. v \<in> set vs \<longleftrightarrow> part_allows bounds p v)"
proof (cases p)
  case (AnyEvery s)
  with assms have "0 < s" by simp
  with AnyEvery show ?thesis
    using step_printed [of "''*''" s bounds] trim_nospace [OF part_nospace [of p]]
    by (simp add: parsePart_def mem_createRange)
next
  case (SpanEvery a b s)
  let ?base = "show_nat a @ CHR ''-'' # show_nat b"
  have "match_range ?base = Some (a, b)"
    by (simp add: match_range_def split_on_append split_on_none digits_free)
  moreover have "?base \<noteq> ''*''" using digits_free [of "CHR ''*''" a] by (cases "show_nat a") auto
  moreover have "parseStepPart (?base @ CHR ''/'' # show_nat s) bounds = Inr (?base, s)"
    using assms by (intro step_printed) (auto simp: SpanEvery digits_free)
  ultimately show ?thesis
    using assms trim_nospace [OF part_nospace [of p]]
    by (simp add: parsePart_def SpanEvery mem_createRange)
next
  case (Exactly n)
  have "parseStepPart (show_nat n) bounds = Inr (show_nat n, 1)"
    by (simp add: parseStepPart_def split_on_none digits_free)
  moreover have "match_range (show_nat n) = None"
    by (simp add: match_range_def split_on_none digits_free)
  moreover have "show_nat n \<noteq> ''*''" using digits_free [of "CHR ''*''" n] by auto
  ultimately show ?thesis
    using assms trim_nospace [OF digits_nospace [of n]] by (simp add: parsePart_def Exactly)
qed

lemma parts_printed:
  assumes "\<forall>p\<in>set parts. part_ok bounds p"
  shows "\<exists>vs. parseParts bounds (map print_part parts) = Inr vs \<and>
    (\<forall>v. v \<in> set vs \<longleftrightarrow> (\<exists>p\<in>set parts. part_allows bounds p v))"
  using assms
proof (induction parts)
  case (Cons p parts)
  then obtain vs ws where "parsePart bounds (print_part p) = Inr vs" "\<forall>v. v \<in> set vs \<longleftrightarrow> part_allows bounds p v"
    "parseParts bounds (map print_part parts) = Inr ws"
    "\<forall>v. v \<in> set ws \<longleftrightarrow> (\<exists>p\<in>set parts. part_allows bounds p v)"
    using part_printed [of bounds p] by auto
  then show ?case by (intro exI [of _ "vs @ ws"]) auto
qed simp

lemma join_chars: "x \<in> set (join_with c ws) \<Longrightarrow> x = c \<or> (\<exists>w\<in>set ws. x \<in> set w)"
  by (induction ws) (auto split: if_splits)

lemma field_nospace: "\<forall>c\<in>set (print_field parts). \<not> is_space c"
  using part_nospace by (auto simp: print_field_def is_space_def dest!: join_chars)

lemma field_Nil [simp]: "parts \<noteq> [] \<Longrightarrow> print_field parts \<noteq> []"
  by (cases parts) (simp_all add: print_field_def)

lemma field_printed:
  assumes "parts \<noteq> []" and "\<forall>p\<in>set parts. part_ok bounds p"
  shows "\<exists>vs. parseField (print_field parts) bounds = Inr vs \<and>
    (\<forall>v. v \<in> set vs \<longleftrightarrow> (\<exists>p\<in>set parts. part_allows bounds p v))"
proof -
  have "split_on (CHR '','') (print_field parts) = map print_part parts"
    unfolding print_field_def using assms(1) part_nocomma by (intro split_join) auto
  with parts_printed [OF assms(2)] assms(1) show ?thesis
    by (auto simp: parseField_def Let_def trim_nospace [OF field_nospace])
qed

definition print_cron :: "cron_part list \<Rightarrow> cron_part list \<Rightarrow> cron_part list \<Rightarrow> cron_part list \<Rightarrow>
    cron_part list \<Rightarrow> string" where
  "print_cron a b c d e = join_with (CHR '' '') (map print_field [a, b, c, d, e])"

text \<open>
  C31: an expression made of lists of steps, ranges and values within the bounds of the five
  fields is accepted, and each field then matches exactly the values its parts allow.
\<close>

theorem cron_round_trip:
  assumes "\<forall>ps\<in>{a, b, c, d, e}. ps \<noteq> []"
    and "\<forall>p\<in>set a. part_ok minute_bounds p" and "\<forall>p\<in>set b. part_ok hour_bounds p"
    and "\<forall>p\<in>set c. part_ok day_bounds p" and "\<forall>p\<in>set d. part_ok month_bounds p"
    and "\<forall>p\<in>set e. part_ok weekday_bounds p"
  shows "\<exists>cron. parseCronExpression (print_cron a b c d e) = Inr cron \<and>
     (\<forall>v. v \<in> set (ce_minute cron) \<longleftrightarrow> (\<exists>p\<in>set a. part_allows minute_bounds p v)) \<and>
     (\<forall>v. v \<in> set (ce_hour cron) \<longleftrightarrow> (\<exists>p\<in>set b. part_allows hour_bounds p v)) \<and>
     (\<forall>v. v \<in> set (ce_dayOfMonth cron) \<longleftrightarrow> (\<exists>p\<in>set c. part_allows day_bounds p v)) \<and>
     (\<forall>v. v \<in> set (ce_month cron) \<longleftrightarrow> (\<exists>p\<in>set d. part_allows month_bounds p v)) \<and>
     (\<forall>v. v \<in> set (ce_dayOfWeek cron) \<longleftrightarrow> (\<exists>p\<in>set e. part_allows weekday_bounds p v))"
proof -
  have ne: "a \<noteq> []" "b \<noteq> []" "c \<noteq> []" "d \<noteq> []" "e \<noteq> []" using assms(1) by simp_all
  have space: "is_space (CHR '' '')" by (simp add: is_space_def)
  have hd: "\<not> is_space (hd (print_field ps))" if "ps \<noteq> []" for ps
    using field_nospace [of ps] that by (cases "print_field ps") auto
  have tl: "\<not> is_space (last (print_field ps))" if "ps \<noteq> []" for ps
    using field_nospace [of ps] that by simp
  have "trim (print_cron a b c d e) = print_cron a b c d e"
    by (rule trim_id) (simp add: print_cron_def ne hd tl)
  moreover have "split_spaces (print_cron a b c d e) = map print_field [a, b, c, d, e]"
    by (simp add: print_cron_def split_spaces_append split_spaces_none field_nospace space ne hd)
  ultimately show ?thesis
    using field_printed [OF ne(1) assms(2)] field_printed [OF ne(2) assms(3)]
      field_printed [OF ne(3) assms(4)] field_printed [OF ne(4) assms(5)] field_printed [OF ne(5) assms(6)]
    by (auto simp: parseCronExpression_def bind_sum_def)
qed

section \<open>Leap days\<close>

definition leap_cron :: string where
  "leap_cron = ''0 0 29 2 *''"

definition march_2025 :: int where
  "march_2025 = days_from_civil 2025 3 1 * 86400000"

lemma leap_cron_parses:
  "parseCronExpression leap_cron = Inr \<lparr>ce_minute = [0], ce_hour = [0], ce_dayOfMonth = [29],
     ce_month = [2], ce_dayOfWeek = [0, 1, 2, 3, 4, 5, 6]\<rparr>"
  by code_simp

lemma no_leap_day:
  "list_all (\<lambda>d. let (y, m, day) = civil_from_days d in \<not> (m = 2 \<and> day = 29))
     [days_from_civil 2025 3 1..days_from_civil 2025 3 1 + 366]"
  by code_simp

text \<open>
  a schedule for 29 February in UTC passes validation, but from 1 March 2025 no next run is
  found: the search ends after 366 days, before the next leap day.
\<close>

lemma leap_day_schedule_refused:
  "validateScheduleCadence intl (CronCadence leap_cron None) = None \<and>
   computeNextRunAt intl (CronCadence leap_cron None) march_2025 =
     Inl (''Unable to compute next run time for cron expression: '' @ leap_cron)"
proof -
  let ?cron = "\<lparr>ce_minute = [0], ce_hour = [0], ce_dayOfMonth = [29], ce_month = [2],
    ce_dayOfWeek = [0, 1, 2, 3, 4, 5, 6]\<rparr> :: cron_expression"
  let ?d = "days_from_civil 2025 3 1"
  have "\<not> cron_matches ?cron (utc_parts (startOfNextMinute march_2025 + 60000 * int i))"
    if "i < search_limit" for i
  proof
    let ?t = "startOfNextMinute march_2025 + 60000 * int i"
    assume "cron_matches ?cron (utc_parts ?t)"
    then have "case civil_from_days (?t div 86400000) of (y, m, day) \<Rightarrow> m = 2 \<and> day = 29"
      by (auto simp: cron_matches_def utc_parts_def Let_def split: prod.splits)
    moreover have "?d \<le> ?t div 86400000" "?t div 86400000 \<le> ?d + 366"
      using that by (simp_all add: march_2025_def startOfNextMinute_def search_limit_def)
    then have "?t div 86400000 \<in> set [?d..?d + 366]" by simp
    ultimately show False using no_leap_day by (auto simp: list_all_iff Let_def split: prod.splits)
  qed
  note no = this
  have "next_match (\<lambda>t. cron_matches ?cron (utc_parts t)) search_limit (startOfNextMinute march_2025) = None"
  proof (rule ccontr)
    assume "next_match (\<lambda>t. cron_matches ?cron (utc_parts t)) search_limit (startOfNextMinute march_2025) \<noteq> None"
    then obtain t where
      "next_match (\<lambda>t. cron_matches ?cron (utc_parts t)) search_limit (startOfNextMinute march_2025) = Some t"
      by blast
    from next_match_Some [OF this] no show False by blast
  qed
  then show ?thesis
    by (simp add: validateScheduleCadence_def computeNextRunAt_def leap_cron_parses bind_sum_def
        createCronDatePartsReader_def)
qed

section \<open>A concrete schedule\<close>

theorem next_run_is_first_match_witness:
  "case computeNextRunAt (\<lambda>_. None) (CronCadence leap_cron None) 0 of
     Inl _ \<Rightarrow> \<forall>t'. 0 < t' \<and> t' \<le> 366 * 86400000 \<and> t' mod 60000 = 0 \<longrightarrow>
       \<not> (cd_dayOfMonth (utc_parts t') = 29 \<and> cd_month (utc_parts t') = 2 \<and>
          cd_hour (utc_parts t') = 0 \<and> cd_minute (utc_parts t') = 0 \<and> cd_dayOfWeek (utc_parts t') = 0)
   | Inr t \<Rightarrow> 0 < t"
  using next_run_is_first_match [OF leap_cron_parses, of "\<lambda>_. None" None utc_parts 0]
  by (simp add: createCronDatePartsReader_def cron_matches_def split: sum.splits)

theorem cron_round_trip_witness:
  "\<exists>cron. parseCronExpression (print_cron [AnyEvery 15] [SpanEvery 9 17 2] [Exactly 1] [AnyEvery 1] [AnyEvery 1]) = Inr cron \<and>
     30 \<in> set (ce_minute cron) \<and> 11 \<in> set (ce_hour cron)"
  using cron_round_trip [of "[AnyEvery 15]" "[SpanEvery 9 17 2]" "[Exactly 1]" "[AnyEvery 1]" "[AnyEvery 1]"]
  by (force simp: minute_bounds_def hour_bounds_def day_bounds_def)

end
