(* ===== verification/Tab_Targets.thy ===== *)
theory Tab_Targets
  imports Js_Text
begin

text \<open>
  What a workspace tab shows: \<open>packages/app/src/workspace-tabs/model.ts\<close>, \<open>identity.ts\<close> and
  \<open>new-tab.ts\<close>, the location helpers of \<open>workspace/file-open/index.ts\<close> and the resource keys and
  hosts of \<open>panels/panel-manifest.ts\<close>.  Values have their declared types: the run-time tests of
  \<open>typeof\<close> for values of other types have no counterpart.  An absent or \<open>null\<close> field is \<open>None\<close>;
  a number of a location is an exact rational, so never \<open>NaN\<close> or infinite; the values of
  \<open>featureValues\<close> are scalars, on which \<open>Object.is\<close> is equality.  Properties of \<open>Object.prototype\<close>
  are out of the model.
\<close>

datatype js_scalar = ScalarNull | ScalarBool bool | ScalarNumber rat | ScalarString string

datatype json_value =
    JsonNull | JsonBool bool | JsonNumber rat | JsonString string
  | JsonArray "json_value list" | JsonObject "(string \<times> json_value) list"

record draft_setup =
  ds_profileId :: "string option"
  ds_provider :: string
  ds_cwd :: string
  ds_modeId :: "string option"
  ds_model :: "string option"
  ds_thinkingOptionId :: "string option"
  ds_featureValues :: "(string, js_scalar) js_map"

datatype plugin_context = WorkspaceContext | AgentContext string

datatype tab_target =
    NewTab
  | Draft string "draft_setup option"
  | AgentTab string
  | ProviderSubagent string string
  | TerminalTab string
  | BrowserTab string
  | ChangesTree
  | FilesTab
  | PullRequest
  | FileTab string "rat option" "rat option"
  | WorkingDiff "string option" "rat option"
  | PluginTab string string plugin_context
  | SetupTab string
  | CommitDiff string

datatype tab_kind =
    KNewTab | KDraft | KAgent | KProviderSubagent | KTerminal | KBrowser | KChangesTree | KFiles
  | KPullRequest | KFile | KWorkingDiff | KPlugin | KSetup | KCommitDiff

primrec kind_of :: "tab_target \<Rightarrow> tab_kind" where
  "kind_of NewTab = KNewTab"
| "kind_of (Draft _ _) = KDraft"
| "kind_of (AgentTab _) = KAgent"
| "kind_of (ProviderSubagent _ _) = KProviderSubagent"
| "kind_of (TerminalTab _) = KTerminal"
| "kind_of (BrowserTab _) = KBrowser"
| "kind_of ChangesTree = KChangesTree"
| "kind_of FilesTab = KFiles"
| "kind_of PullRequest = KPullRequest"
| "kind_of (FileTab _ _ _) = KFile"
| "kind_of (WorkingDiff _ _) = KWorkingDiff"
| "kind_of (PluginTab _ _ _) = KPlugin"
| "kind_of (SetupTab _) = KSetup"
| "kind_of (CommitDiff _) = KCommitDiff"

primrec kind_name :: "tab_kind \<Rightarrow> string" where
  "kind_name KNewTab = ''new_tab''"
| "kind_name KDraft = ''draft''"
| "kind_name KAgent = ''agent''"
| "kind_name KProviderSubagent = ''provider_subagent''"
| "kind_name KTerminal = ''terminal''"
| "kind_name KBrowser = ''browser''"
| "kind_name KChangesTree = ''changes_tree''"
| "kind_name KFiles = ''files''"
| "kind_name KPullRequest = ''pull_request''"
| "kind_name KFile = ''file''"
| "kind_name KWorkingDiff = ''working_diff''"
| "kind_name KPlugin = ''plugin''"
| "kind_name KSetup = ''setup''"
| "kind_name KCommitDiff = ''commit_diff''"

record workspace_tab =
  wt_tabId :: string
  wt_target :: tab_target
  wt_createdAt :: rat
  wt_state :: "json_value option"

definition createNewWorkspaceTab :: "string \<Rightarrow> rat \<Rightarrow> workspace_tab" where
  "createNewWorkspaceTab messageId now =
     \<lparr>wt_tabId = ''tab_'' @ messageId, wt_target = NewTab, wt_createdAt = now, wt_state = None\<rparr>"

section \<open>Normal form of a target\<close>

definition trimNonEmpty :: "string option \<Rightarrow> string option" where
  "trimNonEmpty value = (case value of
      None \<Rightarrow> None
    | Some s \<Rightarrow> let trimmed = trim s in if trimmed = [] then None else Some trimmed)"

definition trimOptionalString :: "string option \<Rightarrow> string option" where
  "trimOptionalString value = (case value of None \<Rightarrow> None | Some s \<Rightarrow> trimNonEmpty (Some s))"

definition normalizePositiveInteger :: "rat option \<Rightarrow> rat option" where
  "normalizePositiveInteger value = (case value of
      Some v \<Rightarrow> if 0 < v then Some (of_int (floor v)) else None
    | None \<Rightarrow> None)"

text \<open>The test \<open>value ? ... : ...\<close> on a number: zero counts as absent.\<close>

definition truthy_number :: "rat option \<Rightarrow> rat option" where
  "truthy_number value = (case value of Some v \<Rightarrow> if v = 0 then None else Some v | None \<Rightarrow> None)"

definition backslash_to_slash :: "string \<Rightarrow> string" where
  "backslash_to_slash s = map (\<lambda>c. if c = CHR 0x5C then CHR ''/'' else c) s"

definition normalizeLineNumber :: "rat option \<Rightarrow> rat option" where
  "normalizeLineNumber value = (case value of
      Some v \<Rightarrow> if 0 < v then Some (of_int (floor v)) else None
    | None \<Rightarrow> None)"

definition normalizeWorkspaceFileLocation ::
  "string \<Rightarrow> rat option \<Rightarrow> rat option \<Rightarrow> (string \<times> rat option \<times> rat option) option" where
  "normalizeWorkspaceFileLocation rawPath rawStart rawEnd =
     (let path = backslash_to_slash (trim rawPath) in
      if path = [] then None
      else let lineStart = truthy_number (normalizeLineNumber rawStart);
               lineEnd = truthy_number (normalizeLineNumber rawEnd)
           in Some (path, lineStart,
                case (lineStart, lineEnd) of
                  (Some s, Some e) \<Rightarrow> if s \<le> e then Some e else None
                | _ \<Rightarrow> None))"

definition normalizeFileTabTarget :: "string \<Rightarrow> rat option \<Rightarrow> rat option \<Rightarrow> tab_target option" where
  "normalizeFileTabTarget path lineStart lineEnd =
     (case normalizeWorkspaceFileLocation path lineStart lineEnd of
        None \<Rightarrow> None | Some (p, s, e) \<Rightarrow> Some (FileTab p s e))"

definition normalizeWorkingDiffTabTarget :: "string option \<Rightarrow> rat option \<Rightarrow> tab_target option" where
  "normalizeWorkingDiffTabTarget rawPath rawRequest =
     (let focusPath = truthy (map_option backslash_to_slash (trimNonEmpty rawPath));
          focusRequestId = truthy_number (normalizePositiveInteger rawRequest)
      in Some (WorkingDiff focusPath focusRequestId))"

definition normalizePluginTabTarget :: "string \<Rightarrow> string \<Rightarrow> plugin_context \<Rightarrow> tab_target option" where
  "normalizePluginTabTarget rawPlugin rawPanel ctx =
     (case (trimNonEmpty (Some rawPlugin), trimNonEmpty (Some rawPanel)) of
        (Some pluginId, Some panelId) \<Rightarrow>
          (case ctx of
             WorkspaceContext \<Rightarrow> Some (PluginTab pluginId panelId WorkspaceContext)
           | AgentContext a \<Rightarrow> (case trimNonEmpty (Some a) of
                 Some agentId \<Rightarrow> Some (PluginTab pluginId panelId (AgentContext agentId))
               | None \<Rightarrow> None))
      | _ \<Rightarrow> None)"

definition normalizeWorkspaceDraftTabSetup :: "draft_setup option \<Rightarrow> draft_setup option" where
  "normalizeWorkspaceDraftTabSetup value = (case value of
      None \<Rightarrow> None
    | Some setup \<Rightarrow>
        (case (trimNonEmpty (Some (ds_provider setup)), trimNonEmpty (Some (ds_cwd setup))) of
           (Some provider, Some cwd) \<Rightarrow>
             Some \<lparr>ds_profileId = None, ds_provider = provider, ds_cwd = cwd,
                   ds_modeId = trimOptionalString (ds_modeId setup),
                   ds_model = trimOptionalString (ds_model setup),
                   ds_thinkingOptionId = trimOptionalString (ds_thinkingOptionId setup),
                   ds_featureValues = ds_featureValues setup\<rparr>
         | _ \<Rightarrow> None))"

definition normalizeSimpleWorkspaceTabTarget :: "tab_target \<Rightarrow> tab_target option" where
  "normalizeSimpleWorkspaceTabTarget value = (case value of
      AgentTab agentId \<Rightarrow> map_option AgentTab (trimNonEmpty (Some agentId))
    | TerminalTab terminalId \<Rightarrow> map_option TerminalTab (trimNonEmpty (Some terminalId))
    | BrowserTab browserId \<Rightarrow> map_option BrowserTab (trimNonEmpty (Some browserId))
    | ChangesTree \<Rightarrow> Some ChangesTree
    | FilesTab \<Rightarrow> Some FilesTab
    | PullRequest \<Rightarrow> Some PullRequest
    | SetupTab workspaceId \<Rightarrow> map_option SetupTab (trimNonEmpty (Some workspaceId))
    | CommitDiff sha \<Rightarrow> map_option CommitDiff (trimNonEmpty (Some sha))
    | _ \<Rightarrow> None)"

definition normalizeWorkspaceTabTarget :: "tab_target \<Rightarrow> tab_target option" where
  "normalizeWorkspaceTabTarget value = (case value of
      Draft rawId setup \<Rightarrow>
        (case trimNonEmpty (Some rawId) of
           None \<Rightarrow> None
         | Some draftId \<Rightarrow> Some (Draft draftId (normalizeWorkspaceDraftTabSetup setup)))
    | NewTab \<Rightarrow> Some NewTab
    | AgentTab agentId \<Rightarrow> map_option AgentTab (trimNonEmpty (Some agentId))
    | ProviderSubagent rawParent rawSubagent \<Rightarrow>
        (case (trimNonEmpty (Some rawParent), trimNonEmpty (Some rawSubagent)) of
           (Some parentAgentId, Some subagentId) \<Rightarrow> Some (ProviderSubagent parentAgentId subagentId)
         | _ \<Rightarrow> None)
    | FileTab path lineStart lineEnd \<Rightarrow> normalizeFileTabTarget path lineStart lineEnd
    | WorkingDiff focusPath focusRequestId \<Rightarrow> normalizeWorkingDiffTabTarget focusPath focusRequestId
    | PluginTab pluginId panelId ctx \<Rightarrow> normalizePluginTabTarget pluginId panelId ctx
    | _ \<Rightarrow> normalizeSimpleWorkspaceTabTarget value)"

section \<open>Equality and identity\<close>

definition recordsShallowEqual :: "(string, js_scalar) js_map \<Rightarrow> (string, js_scalar) js_map \<Rightarrow> bool" where
  "recordsShallowEqual left right \<longleftrightarrow>
     length left = length right \<and>
     list_all (\<lambda>(key, value). map_of right key = Some value) left"

definition workspaceDraftTabSetupsEqual :: "draft_setup option \<Rightarrow> draft_setup option \<Rightarrow> bool" where
  "workspaceDraftTabSetupsEqual left right = (case (left, right) of
      (Some l, Some r) \<Rightarrow>
        ds_provider l = ds_provider r \<and> ds_cwd l = ds_cwd r \<and> ds_modeId l = ds_modeId r \<and>
        ds_model l = ds_model r \<and> ds_thinkingOptionId l = ds_thinkingOptionId r \<and>
        recordsShallowEqual (ds_featureValues l) (ds_featureValues r)
    | (None, None) \<Rightarrow> True
    | _ \<Rightarrow> False)"

definition workspaceFileLocationsEqual ::
  "string \<times> rat option \<times> rat option \<Rightarrow> string \<times> rat option \<times> rat option \<Rightarrow> bool" where
  "workspaceFileLocationsEqual left right \<longleftrightarrow>
     fst left = fst right \<and> fst (snd left) = fst (snd right) \<and> snd (snd left) = snd (snd right)"

definition secondaryWorkspaceTabTargetsEqual :: "tab_target \<Rightarrow> tab_target \<Rightarrow> bool" where
  "secondaryWorkspaceTabTargetsEqual left right = (case left of
      BrowserTab l \<Rightarrow> (case right of BrowserTab r \<Rightarrow> l = r | _ \<Rightarrow> False)
    | FileTab lp ls le \<Rightarrow>
        (case right of FileTab rp rs re \<Rightarrow> workspaceFileLocationsEqual (lp, ls, le) (rp, rs, re) | _ \<Rightarrow> False)
    | WorkingDiff lp li \<Rightarrow> (case right of WorkingDiff rp ri \<Rightarrow> lp = rp \<and> li = ri | _ \<Rightarrow> False)
    | FilesTab \<Rightarrow> right = FilesTab
    | ChangesTree \<Rightarrow> right = ChangesTree
    | PullRequest \<Rightarrow> right = PullRequest
    | SetupTab l \<Rightarrow> (case right of SetupTab r \<Rightarrow> l = r | _ \<Rightarrow> False)
    | CommitDiff l \<Rightarrow> (case right of CommitDiff r \<Rightarrow> l = r | _ \<Rightarrow> False)
    | _ \<Rightarrow> False)"

definition workspaceTabTargetsEqual :: "tab_target \<Rightarrow> tab_target \<Rightarrow> bool" where
  "workspaceTabTargetsEqual left right =
     (if kind_of left \<noteq> kind_of right then False
      else case left of
        Draft l ls \<Rightarrow>
          (case right of Draft r rs \<Rightarrow> l = r \<and> workspaceDraftTabSetupsEqual ls rs | _ \<Rightarrow> False)
      | AgentTab l \<Rightarrow> (case right of AgentTab r \<Rightarrow> l = r | _ \<Rightarrow> False)
      | ProviderSubagent lp ls \<Rightarrow>
          (case right of ProviderSubagent rp rs \<Rightarrow> lp = rp \<and> ls = rs | _ \<Rightarrow> False)
      | TerminalTab l \<Rightarrow> (case right of TerminalTab r \<Rightarrow> l = r | _ \<Rightarrow> False)
      | PluginTab lp lq lc \<Rightarrow>
          (case right of PluginTab rp rq rc \<Rightarrow> lp = rp \<and> lq = rq \<and> lc = rc | _ \<Rightarrow> False)
      | _ \<Rightarrow> secondaryWorkspaceTabTargetsEqual left right)"

definition length_prefixed :: "string \<Rightarrow> string" where
  "length_prefixed s = show_nat (length s) @ ''_'' @ s"

definition buildDeterministicWorkspaceTabId :: "tab_target \<Rightarrow> string + string" where
  "buildDeterministicWorkspaceTabId target = (case target of
      NewTab \<Rightarrow> Inl ''New tabs do not have deterministic target identities''
    | Draft draftId _ \<Rightarrow> Inr draftId
    | AgentTab agentId \<Rightarrow> Inr (''agent_'' @ agentId)
    | ProviderSubagent parentAgentId subagentId \<Rightarrow>
        Inr (''provider_subagent_'' @ length_prefixed parentAgentId @ ''_'' @ length_prefixed subagentId)
    | TerminalTab terminalId \<Rightarrow> Inr (''terminal_'' @ terminalId)
    | BrowserTab browserId \<Rightarrow> Inr (''browser_'' @ browserId)
    | SetupTab workspaceId \<Rightarrow> Inr (''setup_'' @ workspaceId)
    | CommitDiff sha \<Rightarrow> Inr (''commit_diff_'' @ sha)
    | WorkingDiff _ _ \<Rightarrow> Inr ''working_diff''
    | ChangesTree \<Rightarrow> Inr ''changes_tree''
    | FilesTab \<Rightarrow> Inr ''files''
    | PullRequest \<Rightarrow> Inr ''pull_request''
    | PluginTab pluginId panelId ctx \<Rightarrow>
        (let identity = length_prefixed pluginId @ ''_'' @ length_prefixed panelId in
         Inr (case ctx of
           WorkspaceContext \<Rightarrow> ''plugin_workspace_'' @ identity
         | AgentContext agentId \<Rightarrow> ''plugin_agent_'' @ identity @ ''_'' @ length_prefixed agentId))
    | FileTab path _ _ \<Rightarrow> Inr (''file_'' @ path))"

section \<open>Panel manifests\<close>

datatype pane_host = MainHost | ExplorerHost

definition supportedHosts :: "tab_kind \<Rightarrow> pane_host list" where
  "supportedHosts kind = (case kind of
      KBrowser \<Rightarrow> [MainHost]
    | KChangesTree \<Rightarrow> [ExplorerHost]
    | KFiles \<Rightarrow> [ExplorerHost]
    | KSetup \<Rightarrow> [MainHost]
    | _ \<Rightarrow> [MainHost, ExplorerHost])"

definition panelSupportsHost :: "tab_kind \<Rightarrow> pane_host \<Rightarrow> bool" where
  "panelSupportsHost kind host \<longleftrightarrow> host \<in> set (supportedHosts kind)"

definition resourceKey :: "tab_target \<Rightarrow> string" where
  "resourceKey target = (case target of
      NewTab \<Rightarrow> ''new_tab''
    | Draft draftId _ \<Rightarrow> draftId
    | AgentTab agentId \<Rightarrow> agentId
    | ProviderSubagent parentAgentId subagentId \<Rightarrow> parentAgentId @ '':'' @ subagentId
    | TerminalTab terminalId \<Rightarrow> terminalId
    | BrowserTab browserId \<Rightarrow> browserId
    | ChangesTree \<Rightarrow> ''changes_tree''
    | FilesTab \<Rightarrow> ''files''
    | PullRequest \<Rightarrow> ''pull_request''
    | FileTab path _ _ \<Rightarrow> path
    | WorkingDiff _ _ \<Rightarrow> ''working_diff''
    | PluginTab pluginId panelId ctx \<Rightarrow>
        (case ctx of
           AgentContext agentId \<Rightarrow> pluginId @ '':'' @ panelId @ '':agent:'' @ agentId
         | WorkspaceContext \<Rightarrow> pluginId @ '':'' @ panelId @ '':workspace'')
    | SetupTab workspaceId \<Rightarrow> workspaceId
    | CommitDiff sha \<Rightarrow> sha)"

definition panelResourceKey :: "tab_target \<Rightarrow> string" where
  "panelResourceKey target = kind_name (kind_of target) @ '':'' @ resourceKey target"


section \<open>Normalisation is idempotent\<close>

lemma trimNonEmpty_Some [simp]:
  "trimNonEmpty v = Some s \<longleftrightarrow> (\<exists>r. v = Some r \<and> s = trim r \<and> trim r \<noteq> [])"
  by (auto simp: trimNonEmpty_def Let_def split: option.splits)

lemma trimNonEmpty_None [simp]: "trimNonEmpty v = None \<longleftrightarrow> (\<forall>r. v = Some r \<longrightarrow> trim r = [])"
  by (auto simp: trimNonEmpty_def Let_def split: option.splits)

lemma trimOptional_idem [simp]: "trimOptionalString (trimOptionalString v) = trimOptionalString v"
  by (auto simp: trimOptionalString_def trimNonEmpty_def Let_def split: option.splits)

lemma slash_idem [simp]: "backslash_to_slash (backslash_to_slash s) = backslash_to_slash s"
  by (simp add: backslash_to_slash_def)

lemma slash_Nil [simp]: "backslash_to_slash s = [] \<longleftrightarrow> s = []"
  by (simp add: backslash_to_slash_def)

lemma slash_space: "is_space (if c = CHR 0x5C then CHR ''/'' else c) = is_space c"
  by (simp add: is_space_def)

lemma trim_slash: "trim (backslash_to_slash s) = backslash_to_slash (trim s)"
  by (simp add: trim_def backslash_to_slash_def dropWhile_map comp_def slash_space rev_map)

lemma normal_number_idem:
  "truthy_number (normalizePositiveInteger (truthy_number (normalizePositiveInteger v))) =
     truthy_number (normalizePositiveInteger v)"
proof (cases v)
  case (Some x)
  have "0 < x \<Longrightarrow> \<lfloor>x\<rfloor> = 0 \<or> 0 < \<lfloor>x\<rfloor>" using zero_le_floor [of x] by linarith
  with Some show ?thesis by (auto simp: truthy_number_def normalizePositiveInteger_def simp del: floor_less_one zero_less_floor)
qed (simp add: truthy_number_def normalizePositiveInteger_def)

lemma normal_line: "normalizeLineNumber = normalizePositiveInteger"
  by (simp add: fun_eq_iff normalizeLineNumber_def normalizePositiveInteger_def)

lemma normal_location_idem:
  assumes "normalizeWorkspaceFileLocation p s e = Some (p', s', e')"
  shows "normalizeWorkspaceFileLocation p' s' e' = Some (p', s', e')"
proof -
  have "trim p \<noteq> []" "p' = backslash_to_slash (trim p)" "s' = truthy_number (normalizeLineNumber s)"
    and e: "e' = (case (s', truthy_number (normalizeLineNumber e)) of
      (Some s, Some e) \<Rightarrow> if s \<le> e then Some e else None | _ \<Rightarrow> None)"
    using assms by (auto simp: normalizeWorkspaceFileLocation_def Let_def split: if_splits)
  moreover have "truthy_number (normalizeLineNumber e') = e'"
  proof (cases e')
    case None
    then show ?thesis by (simp add: normalizeLineNumber_def truthy_number_def)
  next
    case (Some n)
    with e have "truthy_number (normalizeLineNumber e) = e'" by (auto split: option.splits if_splits)
    then show ?thesis using normal_number_idem [of e] by (simp add: normal_line)
  qed
  moreover have "truthy_number (normalizeLineNumber s') = s'"
    using calculation(3) normal_number_idem [of s] by (simp add: normal_line)
  ultimately show ?thesis
    by (auto simp: normalizeWorkspaceFileLocation_def trim_slash Let_def split: option.splits)
qed

lemma normal_setup_idem:
  "normalizeWorkspaceDraftTabSetup (normalizeWorkspaceDraftTabSetup v) = normalizeWorkspaceDraftTabSetup v"
  by (auto simp: normalizeWorkspaceDraftTabSetup_def split: option.splits)

lemma normal_target_idem:
  assumes "normalizeWorkspaceTabTarget t = Some u"
  shows "normalizeWorkspaceTabTarget u = Some u"
proof (cases t)
  case (Draft i s)
  with assms show ?thesis
    by (auto simp: normalizeWorkspaceTabTarget_def normal_setup_idem split: option.splits)
next
  case (FileTab p s e)
  with assms show ?thesis
    by (auto simp: normalizeWorkspaceTabTarget_def normalizeFileTabTarget_def
        dest: normal_location_idem split: option.splits)
next
  case (WorkingDiff p r)
  have "truthy (map_option backslash_to_slash (trimNonEmpty (truthy (map_option backslash_to_slash (trimNonEmpty p))))) =
      truthy (map_option backslash_to_slash (trimNonEmpty p))"
    by (auto simp: trimNonEmpty_def truthy_def Let_def trim_slash split: option.splits)
  with WorkingDiff assms show ?thesis
    by (auto simp: normalizeWorkspaceTabTarget_def normalizeWorkingDiffTabTarget_def Let_def normal_number_idem)
next
  case (PluginTab a b c)
  with assms show ?thesis
    by (auto simp: normalizeWorkspaceTabTarget_def normalizePluginTabTarget_def
        split: option.splits plugin_context.splits)
qed (use assms in \<open>auto simp: normalizeWorkspaceTabTarget_def normalizeSimpleWorkspaceTabTarget_def
      split: option.splits\<close>)

section \<open>Identifiers and resources\<close>

lemma digits_split:
  assumes "list_all is_digit a" and "list_all is_digit b" and "a @ CHR ''_'' # u = b @ CHR ''_'' # v"
  shows "a = b \<and> u = v"
proof -
  have "\<not> is_digit (CHR ''_'')" by (simp add: is_digit_def)
  then have "takeWhile is_digit (a @ CHR ''_'' # u) = a" "takeWhile is_digit (b @ CHR ''_'' # v) = b"
    using assms(1,2) by (simp_all add: takeWhile_append2 list_all_iff)
  with assms(3) show ?thesis by simp
qed

lemma show_nat_inject: "show_nat a = show_nat b \<longleftrightarrow> a = b"
  by (metis digits_value_show)

lemma length_prefixed_append:
  "length_prefixed a @ u = length_prefixed b @ v \<longleftrightarrow> a = b \<and> u = v"
proof
  assume "length_prefixed a @ u = length_prefixed b @ v"
  then have "show_nat (length a) @ CHR ''_'' # (a @ u) = show_nat (length b) @ CHR ''_'' # (b @ v)"
    by (simp add: length_prefixed_def)
  from digits_split [OF show_nat_digits show_nat_digits this]
  have "length a = length b" "a @ u = b @ v" by (simp_all add: show_nat_inject)
  then show "a = b \<and> u = v" by simp
qed simp

lemma length_prefixed_inject: "length_prefixed a = length_prefixed b \<longleftrightarrow> a = b"
  using length_prefixed_append [of a "[]" b "[]"] by simp

text \<open>The target without the part that \<open>panelResourceKey\<close> and the tab id leave out.\<close>

fun resource_of :: "tab_target \<Rightarrow> tab_target" where
  "resource_of (Draft i _) = Draft i None"
| "resource_of (FileTab p _ _) = FileTab p None None"
| "resource_of (WorkingDiff _ _) = WorkingDiff None None"
| "resource_of t = t"

lemma key_of_resource: "resource_of t = resource_of u \<Longrightarrow> panelResourceKey t = panelResourceKey u"
  by (cases t; cases u) (simp_all add: panelResourceKey_def resourceKey_def)

lemma resource_of_equal: "workspaceTabTargetsEqual t u \<Longrightarrow> resource_of t = resource_of u"
  by (cases t; cases u)
    (auto simp: workspaceTabTargetsEqual_def secondaryWorkspaceTabTargetsEqual_def workspaceFileLocationsEqual_def)

text \<open>
  Apart from drafts, whose ids are their own, two targets get the same deterministic tab id
  exactly when they denote the same resource, and then they have the same resource key.
\<close>

lemma tab_ids_identify_resources:
  assumes "kind_of t \<notin> {KDraft, KNewTab}" and "kind_of u \<notin> {KDraft, KNewTab}"
  shows "(buildDeterministicWorkspaceTabId t = buildDeterministicWorkspaceTabId u \<longleftrightarrow>
      resource_of t = resource_of u) \<and>
    (resource_of t = resource_of u \<longrightarrow> panelResourceKey t = panelResourceKey u)"
  using assms key_of_resource [of t u]
  by (cases t; cases u)
    (simp_all add: buildDeterministicWorkspaceTabId_def Let_def length_prefixed_append length_prefixed_inject
      split: plugin_context.split)

theorem tab_ids_identify_resources_witness:
  "buildDeterministicWorkspaceTabId (ProviderSubagent ''a'' ''b:c'') \<noteq>
     buildDeterministicWorkspaceTabId (ProviderSubagent ''a:b'' ''c'') \<and>
   panelResourceKey (FileTab ''a.ts'' (Some 3) None) = panelResourceKey (FileTab ''a.ts'' None None)"
  using tab_ids_identify_resources [of "ProviderSubagent ''a'' ''b:c''" "ProviderSubagent ''a:b'' ''c''"]
    tab_ids_identify_resources [of "FileTab ''a.ts'' (Some 3) None" "FileTab ''a.ts'' None None"]
  by simp

end
