(* ===== verification/Layout_Tree.thy ===== *)
theory Layout_Tree
  imports Tab_Targets
begin

text \<open>
  The split tree of a workspace and the operations on it, from
  \<open>packages/app/src/stores/workspace-layout-actions.ts\<close>.  A node is a pane with its tabs or a group
  of nodes with their sizes.  A failed \<open>invariant\<close> is an \<open>Inl\<close> with its message.  Sizes are exact
  rationals, where the source has floating point numbers; they are never \<open>NaN\<close> or infinite.  The
  random part of a new tab's id and the clock are the record \<open>fresh_env\<close>.
\<close>

record split_pane =
  sp_id :: string
  sp_tabIds :: "string list"
  sp_focusedTabId :: "string option"
  sp_hidden :: bool
  sp_tabs :: "workspace_tab list"

datatype split_direction = Horizontal | Vertical

datatype split_node = Pane split_pane | Group string split_direction "split_node list" "rat list"

record workspace_layout =
  wl_root :: split_node
  wl_focusedPaneId :: "string option"
  wl_parents :: "(string, string) js_map option"

record fresh_env =
  fe_messageId :: string
  fe_now :: rat

definition new_tab_of :: "fresh_env \<Rightarrow> workspace_tab" where
  "new_tab_of env = createNewWorkspaceTab (fe_messageId env) (fe_now env)"

definition MIN_SPLIT_SIZE :: rat where
  "MIN_SPLIT_SIZE = 1 / 10"

definition DEFAULT_PANE_ID :: string where
  "DEFAULT_PANE_ID = ''main''"

definition EXPLORER_SIDEBAR_PANE_ID :: string where
  "EXPLORER_SIDEBAR_PANE_ID = ''explorer''"

definition DEFAULT_LAYOUT_GROUP_ID :: string where
  "DEFAULT_LAYOUT_GROUP_ID = ''workspace-root''"

section \<open>Normal tabs\<close>

primrec tab_ids_from :: "string list \<Rightarrow> string list \<Rightarrow> string list" where
  "tab_ids_from seen [] = []"
| "tab_ids_from seen (value # list) = (case trimNonEmpty (Some value) of
      None \<Rightarrow> tab_ids_from seen list
    | Some tabId \<Rightarrow>
        if tabId \<in> set seen then tab_ids_from seen list else tabId # tab_ids_from (tabId # seen) list)"

definition normalizeTabIds :: "string list \<Rightarrow> string list" where
  "normalizeTabIds list = tab_ids_from [] list"

definition normalizeWorkspaceTab :: "workspace_tab \<Rightarrow> workspace_tab option" where
  "normalizeWorkspaceTab tab = (case normalizeWorkspaceTabTarget (wt_target tab) of
      None \<Rightarrow> None
    | Some target \<Rightarrow>
        (case trimNonEmpty (Some (wt_tabId tab)) of
           Some tabId \<Rightarrow> Some (tab\<lparr>wt_tabId := tabId, wt_target := target\<rparr>)
         | None \<Rightarrow>
             (case buildDeterministicWorkspaceTabId target of
                Inl _ \<Rightarrow> None
              | Inr tabId \<Rightarrow>
                  if tabId = [] then None else Some (tab\<lparr>wt_tabId := tabId, wt_target := target\<rparr>))))"

primrec tabs_from :: "string list \<Rightarrow> workspace_tab list \<Rightarrow> workspace_tab list" where
  "tabs_from seen [] = []"
| "tabs_from seen (value # input) = (case normalizeWorkspaceTab value of
      None \<Rightarrow> tabs_from seen input
    | Some tab \<Rightarrow>
        if wt_tabId tab \<in> set seen then tabs_from seen input
        else tab # tabs_from (wt_tabId tab # seen) input)"

definition normalizeWorkspaceTabs :: "workspace_tab list \<Rightarrow> workspace_tab list" where
  "normalizeWorkspaceTabs input = tabs_from [] input"

section \<open>Sizes\<close>

definition normalizeSizes :: "rat list \<Rightarrow> nat \<Rightarrow> rat list" where
  "normalizeSizes sizes count =
     (if count = 0 then []
      else let raw = take count sizes @ replicate (count - length sizes) 1;
               sanitized = map (\<lambda>value. if 0 < value then value else 1) raw;
               total = sum_list sanitized
           in if total \<le> 0 then replicate count (1 / of_nat count)
              else map (\<lambda>value. value / total) sanitized)"

definition weight_of :: "rat list \<Rightarrow> nat list \<Rightarrow> rat" where
  "weight_of normalized unlocked = sum_list (map (\<lambda>i. normalized ! i) unlocked)"

definition set_all :: "rat list \<Rightarrow> nat list \<Rightarrow> (nat \<Rightarrow> rat) \<Rightarrow> rat list" where
  "set_all xs indices f = fold (\<lambda>i ys. ys[i := f i]) indices xs"

function clamp_loop :: "rat list \<Rightarrow> nat list \<Rightarrow> rat \<Rightarrow> rat list \<Rightarrow> rat list" where
  "clamp_loop normalized unlocked remainingTotal nextSizes =
     (if unlocked = [] then nextSizes
      else let unlockedWeight = weight_of normalized unlocked in
        if unlockedWeight \<le> 0
        then set_all nextSizes unlocked (\<lambda>_. remainingTotal / of_nat (length unlocked))
        else let proposed = (\<lambda>i. normalized ! i / unlockedWeight * remainingTotal);
                 nextLocked = filter (\<lambda>i. proposed i < MIN_SPLIT_SIZE) unlocked
             in if nextLocked = [] then set_all nextSizes unlocked proposed
                else clamp_loop normalized (filter (\<lambda>i. i \<notin> set nextLocked) unlocked)
                  (remainingTotal - of_nat (length nextLocked) * MIN_SPLIT_SIZE)
                  (set_all nextSizes nextLocked (\<lambda>_. MIN_SPLIT_SIZE)))"
  by pat_completeness auto
termination
proof (relation "measure (\<lambda>(_, unlocked, _). length unlocked)", goal_cases)
  case (2 normalized unlocked remainingTotal nextSizes w f locked)
  then obtain i where "i \<in> set unlocked" "f i < MIN_SPLIT_SIZE" by (auto simp: filter_empty_conv)
  with 2 have "length (filter (\<lambda>i. i \<notin> set locked) unlocked) < length unlocked"
    by (intro length_filter_less [of i]) auto
  then show ?case by simp
qed simp

declare clamp_loop.simps [simp del]

definition clampNormalizedSizes :: "rat list \<Rightarrow> rat list" where
  "clampNormalizedSizes sizes =
     (let n = length sizes; normalized = normalizeSizes sizes n in
      if n = 0 then []
      else if n = 1 then [1]
      else if of_nat n * MIN_SPLIT_SIZE > 1 then replicate n (1 / of_nat n)
      else normalizeSizes (clamp_loop normalized [0..<n] 1 (replicate n 0)) n)"

section \<open>Panes and groups\<close>

definition focus_within :: "string option \<Rightarrow> string list \<Rightarrow> string option" where
  "focus_within focusedTabId tabIds =
     (if default [] focusedTabId \<in> set tabIds then focusedTabId else last_opt tabIds)"

definition createPaneNode :: "string \<Rightarrow> workspace_tab list \<Rightarrow> string option \<Rightarrow> bool \<Rightarrow> split_node" where
  "createPaneNode pid tabs focusedTabId hidden =
     (let normalizedTabs = normalizeWorkspaceTabs tabs; tabIds = map wt_tabId normalizedTabs
      in Pane \<lparr>sp_id = pid, sp_tabIds = tabIds, sp_focusedTabId = focus_within focusedTabId tabIds,
               sp_hidden = hidden, sp_tabs = normalizedTabs\<rparr>)"

definition normalizePaneAfterTabChange :: "split_pane \<Rightarrow> split_pane" where
  "normalizePaneAfterTabChange pane =
     (let tabs = normalizeWorkspaceTabs (sp_tabs pane); tabIds = map wt_tabId tabs
      in \<lparr>sp_id = sp_id pane, sp_tabIds = tabIds,
          sp_focusedTabId = focus_within (sp_focusedTabId pane) tabIds,
          sp_hidden = sp_hidden pane, sp_tabs = tabs\<rparr>)"

definition ensureRetainedPaneHasTab :: "fresh_env \<Rightarrow> split_pane \<Rightarrow> split_pane" where
  "ensureRetainedPaneHasTab env pane =
     (if sp_tabs pane \<noteq> [] then pane
      else let newTab = new_tab_of env
           in normalizePaneAfterTabChange
                (pane\<lparr>sp_tabs := [newTab], sp_focusedTabId := Some (wt_tabId newTab)\<rparr>))"

definition isSoleNewTabPane :: "split_pane \<Rightarrow> bool" where
  "isSoleNewTabPane pane = (case sp_tabs pane of [tab] \<Rightarrow> wt_target tab = NewTab | _ \<Rightarrow> False)"

definition createGroupNode ::
  "string \<Rightarrow> split_direction \<Rightarrow> split_node list \<Rightarrow> rat list option \<Rightarrow> split_node" where
  "createGroupNode gid direction children sizes =
     Group gid direction children
       (normalizeSizes (default (map (\<lambda>_. 1 / of_nat (max (length children) 1)) children) sizes)
          (length children))"

primrec tabs_unseen :: "string list \<Rightarrow> workspace_tab list \<Rightarrow> workspace_tab list" where
  "tabs_unseen seen [] = []"
| "tabs_unseen seen (tab # tabs) =
     (if wt_tabId tab \<in> set seen then tabs_unseen seen tabs
      else tab # tabs_unseen (wt_tabId tab # seen) tabs)"

definition reorderTabsForPane :: "split_pane \<Rightarrow> string list \<Rightarrow> split_pane" where
  "reorderTabsForPane pane tabIds =
     (let nextIds = normalizeTabIds tabIds;
          byId = fold (\<lambda>tab m. m(wt_tabId tab \<mapsto> tab)) (sp_tabs pane) Map.empty;
          reordered = List.map_filter byId nextIds;
          others = tabs_unseen (map wt_tabId reordered) (sp_tabs pane)
      in normalizePaneAfterTabChange (pane\<lparr>sp_tabs := reordered @ others\<rparr>))"

section \<open>Paths\<close>

text \<open>
  \<open>findPanePathById\<close>, \<open>findPanePathContainingTab\<close> and \<open>findGroupPathById\<close> share one traversal, and so
  do \<open>findPaneById\<close> and \<open>findPaneContainingTab\<close>.
\<close>

primrec find_path :: "(split_node \<Rightarrow> bool) \<Rightarrow> split_node \<Rightarrow> nat list \<Rightarrow> nat list option"
  and find_path_in :: "(split_node \<Rightarrow> bool) \<Rightarrow> split_node list \<Rightarrow> nat \<Rightarrow> nat list \<Rightarrow> nat list option"
where
  "find_path P (Pane pane) path = (if P (Pane pane) then Some path else None)"
| "find_path P (Group gid dir children sizes) path =
     (if P (Group gid dir children sizes) then Some path else find_path_in P children 0 path)"
| "find_path_in P [] index path = None"
| "find_path_in P (child # children) index path = (case find_path P child (path @ [index]) of
      Some childPath \<Rightarrow> Some childPath
    | None \<Rightarrow> find_path_in P children (Suc index) path)"

definition findPanePathById :: "split_node \<Rightarrow> string \<Rightarrow> nat list option" where
  "findPanePathById node paneId =
     find_path (\<lambda>n. case n of Pane pane \<Rightarrow> sp_id pane = paneId | _ \<Rightarrow> False) node []"

definition findPanePathContainingTab :: "split_node \<Rightarrow> string \<Rightarrow> nat list option" where
  "findPanePathContainingTab node tabId =
     find_path (\<lambda>n. case n of
       Pane pane \<Rightarrow> list_ex (\<lambda>tab. wt_tabId tab = tabId) (sp_tabs pane) | _ \<Rightarrow> False) node []"

definition findGroupPathById :: "split_node \<Rightarrow> string \<Rightarrow> nat list option" where
  "findGroupPathById node groupId =
     find_path (\<lambda>n. case n of Group gid _ _ _ \<Rightarrow> gid = groupId | _ \<Rightarrow> False) node []"

primrec find_pane :: "(split_pane \<Rightarrow> bool) \<Rightarrow> split_node \<Rightarrow> split_pane option"
  and find_pane_in :: "(split_pane \<Rightarrow> bool) \<Rightarrow> split_node list \<Rightarrow> split_pane option"
where
  "find_pane P (Pane pane) = (if P pane then Some pane else None)"
| "find_pane P (Group gid dir children sizes) = find_pane_in P children"
| "find_pane_in P [] = None"
| "find_pane_in P (child # children) = (case find_pane P child of
      Some pane \<Rightarrow> Some pane | None \<Rightarrow> find_pane_in P children)"

definition findPaneById :: "split_node \<Rightarrow> string option \<Rightarrow> split_pane option" where
  "findPaneById tree paneId = (case truthy paneId of
      None \<Rightarrow> None | Some x \<Rightarrow> find_pane (\<lambda>pane. sp_id pane = x) tree)"

definition findPaneContainingTab :: "split_node \<Rightarrow> string \<Rightarrow> split_pane option" where
  "findPaneContainingTab tree tabId =
     find_pane (\<lambda>pane. list_ex (\<lambda>tab. wt_tabId tab = tabId) (sp_tabs pane)) tree"

primrec getTreeDepth :: "split_node \<Rightarrow> nat" and max_depth :: "split_node list \<Rightarrow> nat" where
  "getTreeDepth (Pane pane) = 1"
| "getTreeDepth (Group gid dir children sizes) = 1 + max_depth children"
| "max_depth [] = 0"
| "max_depth (child # children) = max (getTreeDepth child) (max_depth children)"

primrec collectAllTabs :: "split_node \<Rightarrow> workspace_tab list"
  and tabs_of_children :: "split_node list \<Rightarrow> workspace_tab list"
where
  "collectAllTabs (Pane pane) = sp_tabs pane"
| "collectAllTabs (Group gid dir children sizes) = tabs_of_children children"
| "tabs_of_children [] = []"
| "tabs_of_children (child # children) = collectAllTabs child @ tabs_of_children children"

primrec collectAllPanes :: "split_node \<Rightarrow> split_pane list"
  and panes_of_children :: "split_node list \<Rightarrow> split_pane list"
where
  "collectAllPanes (Pane pane) = (if sp_hidden pane then [] else [pane])"
| "collectAllPanes (Group gid dir children sizes) = panes_of_children children"
| "panes_of_children [] = []"
| "panes_of_children (child # children) = collectAllPanes child @ panes_of_children children"

primrec listPaneIds :: "split_node \<Rightarrow> string list"
  and pane_ids_of_children :: "split_node list \<Rightarrow> string list"
where
  "listPaneIds (Pane pane) = (if sp_hidden pane then [] else [sp_id pane])"
| "listPaneIds (Group gid dir children sizes) = pane_ids_of_children children"
| "pane_ids_of_children [] = []"
| "pane_ids_of_children (child # children) = listPaneIds child @ pane_ids_of_children children"

fun getNodeAtPath :: "split_node \<Rightarrow> nat list \<Rightarrow> string + split_node" where
  "getNodeAtPath node [] = Inr node"
| "getNodeAtPath (Pane pane) (index # path) = Inl ''Expected group while traversing split tree''"
| "getNodeAtPath (Group gid dir children sizes) (index # path) =
     (if index < length children then getNodeAtPath (children ! index) path
      else Inl ''Cannot read properties of undefined'')"

definition findParentGroup :: "split_node \<Rightarrow> nat list \<Rightarrow> string + split_node option" where
  "findParentGroup tree targetPath =
     (if targetPath = [] then Inr None
      else bind_sum (getNodeAtPath tree (butlast targetPath)) (\<lambda>n. Inr (Some n)))"

fun replaceNodeAtPath ::
  "split_node \<Rightarrow> nat list \<Rightarrow> (split_node \<Rightarrow> string + split_node) \<Rightarrow> string + split_node" where
  "replaceNodeAtPath node [] updater = updater node"
| "replaceNodeAtPath (Pane pane) (index # rest) updater =
     Inl ''Expected group while replacing split tree node''"
| "replaceNodeAtPath (Group gid dir children sizes) (index # rest) updater =
     (if index < length children
      then bind_sum (replaceNodeAtPath (children ! index) rest updater) (\<lambda>child.
             Inr (createGroupNode gid dir (children[index := child]) (Some sizes)))
      else Inr (createGroupNode gid dir children (Some sizes)))"

definition insertChildIntoGroup ::
  "split_node \<Rightarrow> nat \<Rightarrow> split_node \<Rightarrow> rat list \<Rightarrow> string + split_node" where
  "insertChildIntoGroup groupNode index node sizes = (case groupNode of
      Pane _ \<Rightarrow> Inl ''Expected group for split insertion''
    | Group gid dir children _ \<Rightarrow>
        Inr (createGroupNode gid dir (take index children @ node # drop index children) (Some sizes)))"

primrec first_some :: "('a \<Rightarrow> 'b option) \<Rightarrow> 'a list \<Rightarrow> 'b option" where
  "first_some f [] = None"
| "first_some f (x # xs) = (case f x of Some y \<Rightarrow> Some y | None \<Rightarrow> first_some f xs)"

definition sibling_pane :: "split_node list \<Rightarrow> nat \<Rightarrow> string option" where
  "sibling_pane children childIndex =
     (case first_some (\<lambda>i. last_opt (listPaneIds (children ! i))) (rev [0..<childIndex]) of
        Some paneId \<Rightarrow> Some paneId
      | None \<Rightarrow> first_some (\<lambda>i. first_opt (listPaneIds (children ! i))) [Suc childIndex..<length children])"

primrec nearest_sibling :: "split_node \<Rightarrow> nat list \<Rightarrow> nat \<Rightarrow> string + string option" where
  "nearest_sibling tree path 0 = Inr None"
| "nearest_sibling tree path (Suc depth) =
     bind_sum (getNodeAtPath tree (take depth path)) (\<lambda>parentNode. case parentNode of
       Pane _ \<Rightarrow> Inl ''Expected parent group for pane lookup''
     | Group _ _ children _ \<Rightarrow>
         (case sibling_pane children (path ! depth) of
            Some paneId \<Rightarrow> Inr (Some paneId)
          | None \<Rightarrow> nearest_sibling tree path depth))"

definition findNearestSiblingPaneId :: "split_node \<Rightarrow> string \<Rightarrow> string + string option" where
  "findNearestSiblingPaneId tree paneId = (case findPanePathById tree paneId of
      None \<Rightarrow> Inr None
    | Some path \<Rightarrow> nearest_sibling tree path (length path))"

section \<open>Operations on the tree\<close>

definition removePaneByPath :: "fresh_env \<Rightarrow> split_node \<Rightarrow> nat list \<Rightarrow> string + split_node" where
  "removePaneByPath env tree path =
     (if path = [] then (case tree of
          Pane pane \<Rightarrow> Inr (createPaneNode (sp_id pane) [new_tab_of env] None False)
        | Group _ _ _ _ \<Rightarrow> Inl ''Expected pane at root while removing pane'')
      else let parentPath = butlast path; removeIndex = last path in
        bind_sum (getNodeAtPath tree parentPath) (\<lambda>parentNode. case parentNode of
          Pane _ \<Rightarrow> Inl ''Expected parent group while removing pane''
        | Group gid dir children sizes \<Rightarrow>
            (let nextParentChildren = take removeIndex children @ drop (Suc removeIndex) children in
             if nextParentChildren = [] then Inl ''Split tree cannot remove the final pane''
             else let nextParentNode = (case nextParentChildren of
                    [only] \<Rightarrow> only
                  | _ \<Rightarrow> createGroupNode gid dir nextParentChildren
                      (Some (take removeIndex sizes @ drop (Suc removeIndex) sizes)))
             in replaceNodeAtPath tree parentPath (\<lambda>_. Inr nextParentNode))))"

record detach_result =
  dr_root :: split_node
  dr_tab :: "workspace_tab option"
  dr_sourcePaneId :: "string option"

definition detachTabFromTree ::
  "fresh_env \<Rightarrow> split_node \<Rightarrow> string \<Rightarrow> string option \<Rightarrow> string + detach_result" where
  "detachTabFromTree env tree tabId preserveEmptyPaneId =
     (case findPanePathContainingTab tree tabId of
        None \<Rightarrow> Inr \<lparr>dr_root = tree, dr_tab = None, dr_sourcePaneId = None\<rparr>
      | Some panePath \<Rightarrow>
          bind_sum (getNodeAtPath tree panePath) (\<lambda>paneNode. case paneNode of
            Group _ _ _ _ \<Rightarrow> Inl ''Expected pane while detaching tab''
          | Pane pane \<Rightarrow>
              (case find (\<lambda>entry. wt_tabId entry = tabId) (sp_tabs pane) of
                 None \<Rightarrow> Inr \<lparr>dr_root = tree, dr_tab = None, dr_sourcePaneId = Some (sp_id pane)\<rparr>
               | Some tab \<Rightarrow>
                   let nextPane = normalizePaneAfterTabChange
                         (pane\<lparr>sp_tabs := filter (\<lambda>entry. wt_tabId entry \<noteq> tabId) (sp_tabs pane)\<rparr>);
                       done = (\<lambda>r. Inr \<lparr>dr_root = r, dr_tab = Some tab, dr_sourcePaneId = Some (sp_id pane)\<rparr>)
                   in bind_sum (replaceNodeAtPath tree panePath (\<lambda>_. Inr (Pane nextPane))) (\<lambda>nextRoot.
                        if sp_tabs nextPane \<noteq> [] then done nextRoot
                        else if Some (sp_id nextPane) = preserveEmptyPaneId
                        then bind_sum (replaceNodeAtPath nextRoot panePath
                               (\<lambda>_. Inr (Pane (ensureRetainedPaneHasTab env nextPane)))) done
                        else bind_sum (removePaneByPath env nextRoot panePath) done))))"

definition insertTabIntoPane ::
  "split_node \<Rightarrow> string \<Rightarrow> workspace_tab \<Rightarrow> string option \<Rightarrow> string + split_node" where
  "insertTabIntoPane tree paneId tab focusTabId = (case findPanePathById tree paneId of
      None \<Rightarrow> Inl (''Pane not found: '' @ paneId)
    | Some panePath \<Rightarrow> replaceNodeAtPath tree panePath (\<lambda>node. case node of
        Group _ _ _ _ \<Rightarrow> Inl ''Expected pane while inserting tab''
      | Pane pane \<Rightarrow>
          (let nextTabs =
                 (if wt_target tab \<noteq> NewTab \<and> isSoleNewTabPane pane then [tab]
                  else case find_index (\<lambda>t. wt_tabId t = wt_tabId tab) (sp_tabs pane) of
                    Some existingIndex \<Rightarrow> (sp_tabs pane)[existingIndex := tab]
                  | None \<Rightarrow> sp_tabs pane @ [tab])
           in Inr (Pane (normalizePaneAfterTabChange (pane\<lparr>sp_tabs := nextTabs,
                sp_focusedTabId := or_else focusTabId (Some (wt_tabId tab))\<rparr>))))))"

definition focusTabInPane :: "split_node \<Rightarrow> string \<Rightarrow> string \<Rightarrow> string + split_node" where
  "focusTabInPane tree paneId tabId = (case findPanePathById tree paneId of
      None \<Rightarrow> Inl (''Pane not found: '' @ paneId)
    | Some panePath \<Rightarrow> replaceNodeAtPath tree panePath (\<lambda>node. case node of
        Group _ _ _ _ \<Rightarrow> Inl ''Expected pane while focusing tab''
      | Pane pane \<Rightarrow> Inr (Pane (normalizePaneAfterTabChange
          (pane\<lparr>sp_focusedTabId := Some tabId, sp_hidden := False\<rparr>)))))"

definition replaceTabInTree ::
  "split_node \<Rightarrow> string \<Rightarrow> string \<Rightarrow> tab_target \<Rightarrow> json_value option \<Rightarrow> string + split_node" where
  "replaceTabInTree tree tabId nextTabId target state = (case findPanePathContainingTab tree tabId of
      None \<Rightarrow> Inl (''Tab not found: '' @ tabId)
    | Some panePath \<Rightarrow> replaceNodeAtPath tree panePath (\<lambda>node. case node of
        Group _ _ _ _ \<Rightarrow> Inl ''Expected pane while replacing tab''
      | Pane pane \<Rightarrow> Inr (Pane (normalizePaneAfterTabChange (pane\<lparr>
          sp_tabs := map (\<lambda>tab. if wt_tabId tab \<noteq> tabId then tab
            else \<lparr>wt_tabId = nextTabId, wt_target = target, wt_createdAt = wt_createdAt tab,
                  wt_state = state\<rparr>) (sp_tabs pane),
          sp_focusedTabId := (if sp_focusedTabId pane = Some tabId then Some nextTabId
            else sp_focusedTabId pane)\<rparr>)))))"

definition updateGroupSizesInTree :: "split_node \<Rightarrow> string \<Rightarrow> rat list \<Rightarrow> string + split_node" where
  "updateGroupSizesInTree tree groupId sizes = (case findGroupPathById tree groupId of
      None \<Rightarrow> Inr tree
    | Some groupPath \<Rightarrow> replaceNodeAtPath tree groupPath (\<lambda>node. case node of
        Pane _ \<Rightarrow> Inl ''Expected group while resizing split''
      | Group gid dir children old \<Rightarrow>
          if length sizes \<noteq> length children then Inr node
          else Inr (createGroupNode gid dir children (Some (clampNormalizedSizes sizes)))))"

definition updatePaneInTree ::
  "split_node \<Rightarrow> string \<Rightarrow> (split_pane \<Rightarrow> split_pane) \<Rightarrow> string + split_node" where
  "updatePaneInTree tree paneId updater = (case findPanePathById tree paneId of
      None \<Rightarrow> Inr tree
    | Some panePath \<Rightarrow> replaceNodeAtPath tree panePath (\<lambda>node. case node of
        Group _ _ _ _ \<Rightarrow> Inl ''Expected pane while updating pane''
      | Pane pane \<Rightarrow> Inr (Pane (normalizePaneAfterTabChange (updater pane)))))"

datatype split_position = LeftOf | RightOf | AboveOf | BelowOf

definition split_direction_of :: "split_position \<Rightarrow> split_direction" where
  "split_direction_of position = (if position = LeftOf \<or> position = RightOf then Horizontal else Vertical)"

definition inserts_after :: "split_position \<Rightarrow> bool" where
  "inserts_after position \<longleftrightarrow> position = RightOf \<or> position = BelowOf"

datatype node_id_prefix = PanePrefix | GroupPrefix

text \<open>The part that \<open>insertSplitInternal\<close> and \<open>splitPaneEmptyInLayout\<close> have in common.\<close>

definition split_beside ::
  "(node_id_prefix \<Rightarrow> string) \<Rightarrow> split_node \<Rightarrow> nat list \<Rightarrow> split_node \<Rightarrow> split_node \<Rightarrow> split_position \<Rightarrow>
     string + split_node" where
  "split_beside createNodeId tree targetPath targetNode newPaneNode position =
     (let direction = split_direction_of position; insertAfter = inserts_after position;
          parentPath = butlast targetPath;
          targetIndex = default 0 (last_opt targetPath);
          newGroup = createGroupNode (createNodeId GroupPrefix) direction
            (if insertAfter then [targetNode, newPaneNode] else [newPaneNode, targetNode])
            (Some [1 / 2, 1 / 2]);
          wrap = replaceNodeAtPath tree targetPath (\<lambda>_. Inr newGroup)
      in bind_sum (findParentGroup tree targetPath) (\<lambda>parentNode. case parentNode of
           Some (Group gid dir children sizes) \<Rightarrow>
             if dir = direction then
               let targetSize = default 0 (nth_opt sizes targetIndex);
                   insertIndex = (if insertAfter then targetIndex + 1 else targetIndex);
                   inserted = take insertIndex sizes @ (targetSize / 2) # drop insertIndex sizes;
                   nextSizes = inserted[targetIndex + (if insertAfter then 0 else 1) := targetSize / 2]
               in replaceNodeAtPath tree parentPath
                    (\<lambda>_. insertChildIntoGroup (Group gid dir children sizes) insertIndex newPaneNode nextSizes)
             else wrap
         | _ \<Rightarrow> wrap))"

definition insertSplitInternal ::
  "fresh_env \<Rightarrow> (node_id_prefix \<Rightarrow> string) \<Rightarrow> split_node \<Rightarrow> string \<Rightarrow> string \<Rightarrow> split_position \<Rightarrow>
     string + (split_node \<times> string)" where
  "insertSplitInternal env createNodeId tree targetPaneId tabId position =
     (case findPanePathById tree targetPaneId of
        None \<Rightarrow> Inl (''Target pane not found: '' @ targetPaneId)
      | Some _ \<Rightarrow>
          bind_sum (detachTabFromTree env tree tabId (Some targetPaneId)) (\<lambda>detached.
          case dr_tab detached of
            None \<Rightarrow> Inl (''Tab not found: '' @ tabId)
          | Some tab \<Rightarrow>
              (case findPanePathById (dr_root detached) targetPaneId of
                 None \<Rightarrow> Inl (''Target pane not found after detach: '' @ targetPaneId)
               | Some targetPath \<Rightarrow>
                   bind_sum (getNodeAtPath (dr_root detached) targetPath) (\<lambda>targetNode. case targetNode of
                     Group _ _ _ _ \<Rightarrow> Inl ''Expected target pane after detach''
                   | Pane _ \<Rightarrow>
                       (let newPaneId = createNodeId PanePrefix;
                            newPaneNode = createPaneNode newPaneId [tab] (Some (wt_tabId tab)) False
                        in bind_sum (split_beside createNodeId (dr_root detached) targetPath targetNode
                             newPaneNode position) (\<lambda>r. Inr (r, newPaneId)))))))"

end
