(* ===== verification/Layout_Facts.thy ===== *)
theory Layout_Facts
  imports Layout_Tree
begin

text \<open>
  Facts about the split tree: the panes of a node in order, what a path leaves before and after it,
  normal tabs and panes, sizes, and the well-formed trees that the operations keep.
\<close>

section \<open>The panes of a tree\<close>

primrec panes :: "split_node \<Rightarrow> split_pane list" and panes_in :: "split_node list \<Rightarrow> split_pane list" where
  "panes (Pane pane) = [pane]"
| "panes (Group gid dir children sizes) = panes_in children"
| "panes_in [] = []"
| "panes_in (child # children) = panes child @ panes_in children"

lemma panes_in_concat: "panes_in cs = concat (map panes cs)"
  by (induction cs) simp_all

lemma panes_createGroupNode [simp]: "panes (createGroupNode g d cs ss) = panes_in cs"
  by (simp add: createGroupNode_def)

lemma panes_in_append [simp]: "panes_in (as @ bs) = panes_in as @ panes_in bs"
  by (simp add: panes_in_concat)

lemma collectAllTabs_panes:
  "collectAllTabs n = concat (map sp_tabs (panes n))" "tabs_of_children cs = concat (map sp_tabs (panes_in cs))"
  by (induction n and cs rule: collectAllTabs.induct tabs_of_children.induct) simp_all

lemma collectAllPanes_panes:
  "collectAllPanes n = filter (\<lambda>p. \<not> sp_hidden p) (panes n)"
  "panes_of_children cs = filter (\<lambda>p. \<not> sp_hidden p) (panes_in cs)"
  by (induction n and cs rule: collectAllPanes.induct panes_of_children.induct) simp_all

lemma listPaneIds_panes:
  "listPaneIds n = map sp_id (filter (\<lambda>p. \<not> sp_hidden p) (panes n))"
  "pane_ids_of_children cs = map sp_id (filter (\<lambda>p. \<not> sp_hidden p) (panes_in cs))"
  by (induction n and cs rule: listPaneIds.induct pane_ids_of_children.induct) simp_all

lemma find_append: "find P (xs @ ys) = (case find P xs of Some x \<Rightarrow> Some x | None \<Rightarrow> find P ys)"
  by (induction xs) simp_all

lemma find_pane_panes: "find_pane P n = find P (panes n)" "find_pane_in P cs = find P (panes_in cs)"
  by (induction n and cs rule: find_pane.induct find_pane_in.induct)
    (auto simp: find_append split: option.splits)

section \<open>Sizes\<close>

definition sizes_ok :: "rat list \<Rightarrow> nat \<Rightarrow> bool" where
  "sizes_ok sizes n \<longleftrightarrow> length sizes = n \<and> (\<forall>s\<in>set sizes. 0 < s) \<and> sum_list sizes = 1"

lemma sum_list_divide: "sum_list (map (\<lambda>v. v / c) xs) = sum_list xs / (c :: rat)"
  by (induction xs) (simp_all add: add_divide_distrib)

lemma sum_list_pos: "xs \<noteq> [] \<Longrightarrow> \<forall>x\<in>set xs. (0 :: rat) < x \<Longrightarrow> 0 < sum_list xs"
  by (induction xs rule: list_nonempty_induct) (simp_all add: add_pos_pos)

lemma normalizeSizes_ok:
  assumes "0 < n"
  shows "sizes_ok (normalizeSizes sizes n) n"
proof -
  define s where "s = map (\<lambda>v. if 0 < v then v else 1) (take n sizes @ replicate (n - length sizes) (1 :: rat))"
  have len: "length s = n" by (simp add: s_def)
  have pos: "\<forall>x\<in>set s. 0 < x" by (auto simp: s_def)
  have total: "0 < sum_list s" using len pos assms by (intro sum_list_pos) auto
  have "normalizeSizes sizes n = (if n = 0 then [] else if sum_list s \<le> 0
      then replicate n (1 / of_nat n) else map (\<lambda>v. v / sum_list s) s)"
    by (simp only: normalizeSizes_def Let_def s_def)
  with assms total have "normalizeSizes sizes n = map (\<lambda>v. v / sum_list s) s" by simp
  with len pos total show ?thesis by (simp add: sizes_ok_def sum_list_divide)
qed

lemma normalizeSizes_id: "sizes_ok sizes n \<Longrightarrow> normalizeSizes sizes n = sizes"
proof -
  assume ok: "sizes_ok sizes n"
  then have "map (\<lambda>v. if 0 < v then v else 1) sizes = sizes" by (intro map_idI) (auto simp: sizes_ok_def)
  with ok show ?thesis by (auto simp: normalizeSizes_def sizes_ok_def Let_def)
qed

section \<open>Shape\<close>

primrec shape :: "split_node \<Rightarrow> bool" and shapes :: "split_node list \<Rightarrow> bool" where
  "shape (Pane pane) = True"
| "shape (Group gid dir children sizes) =
     (2 \<le> length children \<and> sizes_ok sizes (length children) \<and> shapes children)"
| "shapes [] = True"
| "shapes (child # children) = (shape child \<and> shapes children)"

lemma shapes_all: "shapes cs \<longleftrightarrow> (\<forall>c\<in>set cs. shape c)"
  by (induction cs) simp_all

lemma shape_createGroupNode:
  "shape (createGroupNode g d cs ss) \<longleftrightarrow> 2 \<le> length cs \<and> shapes cs"
  by (cases cs) (auto simp: createGroupNode_def normalizeSizes_ok)

section \<open>Paths\<close>

fun pre :: "split_node \<Rightarrow> nat list \<Rightarrow> split_pane list" where
  "pre n [] = []"
| "pre (Pane p) (i # path) = []"
| "pre (Group g d cs ss) (i # path) =
     panes_in (take i cs) @ (if i < length cs then pre (cs ! i) path else [])"

fun post :: "split_node \<Rightarrow> nat list \<Rightarrow> split_pane list" where
  "post n [] = []"
| "post (Pane p) (i # path) = []"
| "post (Group g d cs ss) (i # path) =
     (if i < length cs then post (cs ! i) path else []) @ panes_in (drop (Suc i) cs)"

lemma panes_in_nth: "i < length cs \<Longrightarrow> panes_in cs = panes_in (take i cs) @ panes (cs ! i) @ panes_in (drop (Suc i) cs)"
  by (subst id_take_nth_drop [of i cs]) simp_all

lemma panes_at: "getNodeAtPath n path = Inr m \<Longrightarrow> panes n = pre n path @ panes m @ post n path"
  by (induction n path rule: getNodeAtPath.induct) (auto simp: panes_in_nth split: if_splits)

lemma replace_at:
  assumes "getNodeAtPath n path = Inr m" and "f m = Inr m'"
  shows "\<exists>r. replaceNodeAtPath n path f = Inr r \<and> getNodeAtPath r path = Inr m' \<and>
    pre r path = pre n path \<and> post r path = post n path \<and>
    panes r = pre n path @ panes m' @ post n path \<and> (shape n \<and> shape m' \<longrightarrow> shape r)"
  using assms
proof (induction n path rule: getNodeAtPath.induct)
  case (3 g d cs ss i path)
  then have i: "i < length cs" and at: "getNodeAtPath (cs ! i) path = Inr m" by (auto split: if_splits)
  from 3 i at obtain c where c: "replaceNodeAtPath (cs ! i) path f = Inr c" "getNodeAtPath c path = Inr m'"
    "pre c path = pre (cs ! i) path" "post c path = post (cs ! i) path"
    "panes c = pre (cs ! i) path @ panes m' @ post (cs ! i) path"
    "shape (cs ! i) \<and> shape m' \<longrightarrow> shape c" by blast
  have "shapes cs \<and> shape m' \<longrightarrow> shapes (cs[i := c])"
    using c(6) i set_update_subset_insert [of cs i c] by (auto simp: shapes_all)
  moreover have "panes_in (cs[i := c]) = panes_in (take i cs) @ panes c @ panes_in (drop (Suc i) cs)"
    using i panes_in_nth [of i "cs[i := c]"] by simp
  ultimately show ?case
    using c(1-5) i by (intro exI [of _ "createGroupNode g d (cs[i := c]) (Some ss)"])
      (simp add: shape_createGroupNode del: shapes.simps, simp add: createGroupNode_def)
qed auto

text \<open>The three searches for a pane or a group.\<close>

definition on_pane :: "(split_pane \<Rightarrow> bool) \<Rightarrow> split_node \<Rightarrow> bool" where
  "on_pane Q n = (case n of Pane p \<Rightarrow> Q p | _ \<Rightarrow> False)"

lemma find_path_None:
  "find_path (on_pane Q) n acc = None \<longleftrightarrow> (\<forall>p\<in>set (panes n). \<not> Q p)"
  "find_path_in (on_pane Q) cs i acc = None \<longleftrightarrow> (\<forall>p\<in>set (panes_in cs). \<not> Q p)"
proof (induction n and cs arbitrary: acc and i acc rule: find_path.induct find_path_in.induct, goal_cases)
  case (4 c cs i acc)
  show ?case using 4(1) [of "acc @ [i]"] 4(2) [of "Suc i" acc]
    by (cases "find_path (on_pane Q) c (acc @ [i])") (simp_all add: ball_Un, blast?)
qed (simp_all add: on_pane_def)

lemma find_path_Some:
  "find_path (on_pane Q) n acc = Some q \<Longrightarrow> \<exists>path p. q = acc @ path \<and>
     getNodeAtPath n path = Inr (Pane p) \<and> Q p \<and> (\<forall>x\<in>set (pre n path). \<not> Q x)"
  "find_path_in (on_pane Q) cs i acc = Some q \<Longrightarrow> \<exists>j path p. j < length cs \<and> q = acc @ (i + j) # path \<and>
     getNodeAtPath (cs ! j) path = Inr (Pane p) \<and> Q p \<and>
     (\<forall>x\<in>set (panes_in (take j cs) @ pre (cs ! j) path). \<not> Q x)"
proof (induction n and cs arbitrary: acc q and i acc q rule: find_path.induct find_path_in.induct, goal_cases)
  case (1 pane acc q)
  then show ?case by (auto simp: on_pane_def split: if_splits)
next
  case (2 g d cs ss acc q)
  then have "find_path_in (on_pane Q) cs 0 acc = Some q" by (simp add: on_pane_def)
  from 2(1) [OF this] obtain j path p where j: "j < length cs" "q = acc @ j # path"
    "getNodeAtPath (cs ! j) path = Inr (Pane p)" "Q p"
    "\<forall>x\<in>set (panes_in (take j cs) @ pre (cs ! j) path). \<not> Q x" by auto
  then show ?case by (intro exI [of _ "j # path"] exI [of _ p]) auto
next
  case 3
  then show ?case by simp
next
  case (4 c cs i acc q)
  show ?case
  proof (cases "find_path (on_pane Q) c (acc @ [i])")
    case (Some r)
    from 4(1) [OF this] 4(3) Some show ?thesis by (intro exI [of _ 0]) auto
  next
    case None
    with 4(3) have "find_path_in (on_pane Q) cs (Suc i) acc = Some q" by simp
    from 4(2) [OF this] obtain j path p where j: "j < length cs" "q = acc @ (Suc i + j) # path"
      "getNodeAtPath (cs ! j) path = Inr (Pane p)" "Q p"
      "\<forall>x\<in>set (panes_in (take j cs) @ pre (cs ! j) path). \<not> Q x" by blast
    moreover have "\<forall>x\<in>set (panes c). \<not> Q x" using None by (simp add: find_path_None)
    ultimately show ?thesis by (intro exI [of _ "Suc j"] exI [of _ path] exI [of _ p]) auto
  qed
qed


lemma getNode_append:
  "getNodeAtPath n (p @ q) = bind_sum (getNodeAtPath n p) (\<lambda>m. getNodeAtPath m q)"
  by (induction n p rule: getNodeAtPath.induct) auto

lemma pre_append: "getNodeAtPath n p = Inr m \<Longrightarrow> pre n (p @ q) = pre n p @ pre m q"
  by (induction n p rule: getNodeAtPath.induct) (auto split: if_splits)

lemma post_append: "getNodeAtPath n p = Inr m \<Longrightarrow> post n (p @ q) = post m q @ post n p"
  by (induction n p rule: getNodeAtPath.induct) (auto split: if_splits)

lemma shape_at: "shape n \<Longrightarrow> getNodeAtPath n p = Inr m \<Longrightarrow> shape m"
  by (induction n p rule: getNodeAtPath.induct) (auto simp: shapes_all split: if_splits)

lemma parent_at:
  assumes "getNodeAtPath n path = Inr m" and "path \<noteq> []"
  obtains g d cs ss where "getNodeAtPath n (butlast path) = Inr (Group g d cs ss)"
    "last path < length cs" "cs ! last path = m"
    "pre n path = pre n (butlast path) @ panes_in (take (last path) cs)"
    "post n path = panes_in (drop (Suc (last path)) cs) @ post n (butlast path)"
proof -
  have "getNodeAtPath n (butlast path @ [last path]) = Inr m" using assms by simp
  then obtain q where q: "getNodeAtPath n (butlast path) = Inr q" "getNodeAtPath q [last path] = Inr m"
    unfolding getNode_append bind_sum_Inr by blast
  then obtain g d cs ss where node: "q = Group g d cs ss" "last path < length cs" "cs ! last path = m"
    by (cases q) (auto split: if_splits)
  have "pre n path = pre n (butlast path) @ pre q [last path]"
    "post n path = post q [last path] @ post n (butlast path)"
    using pre_append [OF q(1), of "[last path]"] post_append [OF q(1), of "[last path]"] assms(2) by simp_all
  then show thesis using that [of g d cs ss] q(1) node by simp
qed

lemma remove_at:
  assumes "shape n" and "getNodeAtPath n path = Inr m" and "path \<noteq> []"
  shows "\<exists>r. removePaneByPath env n path = Inr r \<and> shape r \<and> panes r = pre n path @ post n path"
proof -
  let ?up = "butlast path" and ?i = "last path"
  from parent_at [OF assms(2,3)] obtain g d cs ss where q: "getNodeAtPath n ?up = Inr (Group g d cs ss)"
    and i: "?i < length cs" and pre: "pre n path = pre n ?up @ panes_in (take ?i cs)"
    and post: "post n path = panes_in (drop (Suc ?i) cs) @ post n ?up" by metis
  let ?rest = "take ?i cs @ drop (Suc ?i) cs"
  let ?new = "case ?rest of [only] \<Rightarrow> only
    | _ \<Rightarrow> createGroupNode g d ?rest (Some (take ?i ss @ drop (Suc ?i) ss))"
  have "shape (Group g d cs ss)" by (rule shape_at [OF assms(1) q])
  then have two: "2 \<le> length cs" and all: "shapes ?rest"
    by (auto simp: shapes_all dest: in_set_takeD in_set_dropD)
  have len: "length ?rest = length cs - 1" using i by simp
  with two have "0 < length ?rest" by linarith
  then have ne: "?rest \<noteq> []" by (simp only: length_greater_0_conv simp_thms)
  have "shape ?new \<and> panes ?new = panes_in ?rest"
  proof (cases ?rest)
    case (Cons a as)
    with all show ?thesis
      by (cases as) (simp_all only: list.case shape_createGroupNode panes_createGroupNode, simp_all)
  qed (use ne in simp)
  with replace_at [OF q, of "\<lambda>_. Inr ?new" ?new] assms(1) obtain r where
    "replaceNodeAtPath n ?up (\<lambda>_. Inr ?new) = Inr r" "shape r" "panes r = pre n ?up @ panes_in ?rest @ post n ?up"
    by auto
  then show ?thesis
    using assms(3) q ne pre post by (simp add: removePaneByPath_def Let_def)
qed

lemma split_at:
  assumes "shape n" and "getNodeAtPath n path = Inr (Pane p)"
  shows "\<exists>r. split_beside ids n path (Pane p) (Pane q) position = Inr r \<and> shape r \<and>
    panes r = pre n path @ (if inserts_after position then [p, q] else [q, p]) @ post n path"
proof -
  let ?dir = "split_direction_of position"
  let ?two = "if inserts_after position then [Pane p, Pane q] else [Pane q, Pane p]"
  let ?wrapped = "createGroupNode (ids GroupPrefix) ?dir ?two (Some [1 / 2, 1 / 2])"
  have wrap: "\<exists>r. replaceNodeAtPath n path (\<lambda>_. Inr ?wrapped) = Inr r \<and> shape r \<and>
    panes r = pre n path @ (if inserts_after position then [p, q] else [q, p]) @ post n path"
    using replace_at [OF assms(2), of "\<lambda>_. Inr ?wrapped" ?wrapped] assms(1)
    by (auto simp: shape_createGroupNode)
  show ?thesis
  proof (cases "path = []")
    case True
    with wrap show ?thesis by (simp add: split_beside_def findParentGroup_def Let_def)
  next
    case False
    let ?up = "butlast path" and ?i = "last path"
    let ?at = "if inserts_after position then ?i + 1 else ?i"
    from parent_at [OF assms(2) False] obtain g d cs ss where up: "getNodeAtPath n ?up = Inr (Group g d cs ss)"
      and i: "?i < length cs" "cs ! ?i = Pane p" and pre: "pre n path = pre n ?up @ panes_in (take ?i cs)"
      and post: "post n path = panes_in (drop (Suc ?i) cs) @ post n ?up" by metis
    show ?thesis
    proof (cases "d = ?dir")
      case dir: True
      define sizes where "sizes = (let targetSize = default 0 (nth_opt ss ?i);
        inserted = take ?at ss @ (targetSize / 2) # drop ?at ss
        in inserted[?i + (if inserts_after position then 0 else 1) := targetSize / 2])"
      let ?cs = "take ?at cs @ Pane q # drop ?at cs"
      let ?new = "createGroupNode g d ?cs (Some sizes)"
      have "shape (Group g d cs ss)" by (rule shape_at [OF assms(1) up])
      then have "shape ?new"
        by (auto simp: shape_createGroupNode shapes_all dest: in_set_takeD in_set_dropD)
      moreover have "panes_in ?cs = panes_in (take ?i cs) @
          (if inserts_after position then [p, q] else [q, p]) @ panes_in (drop (Suc ?i) cs)"
        using i by (simp add: take_Suc_conv_app_nth Cons_nth_drop_Suc [symmetric])
      ultimately obtain r where "replaceNodeAtPath n ?up (\<lambda>_. Inr ?new) = Inr r" "shape r"
        "panes r = pre n path @ (if inserts_after position then [p, q] else [q, p]) @ post n path"
        using replace_at [OF up, of "\<lambda>_. Inr ?new" ?new] assms(1) pre post by auto
      moreover have "split_beside ids n path (Pane p) (Pane q) position = replaceNodeAtPath n ?up (\<lambda>_. Inr ?new)"
        using False up dir by (simp add: split_beside_def findParentGroup_def insertChildIntoGroup_def
            last_opt_eq sizes_def Let_def)
      ultimately show ?thesis by simp
    next
      case False
      with wrap up \<open>path \<noteq> []\<close> show ?thesis by (simp add: split_beside_def findParentGroup_def Let_def)
    qed
  qed
qed

lemma first_some_mem: "first_some f xs = Some y \<Longrightarrow> \<exists>x\<in>set xs. f x = Some y"
  by (induction xs) (auto split: option.splits)

lemma listPaneIds_sub:
  "i < length cs \<Longrightarrow> set (listPaneIds (cs ! i)) \<subseteq> set (map sp_id (filter (\<lambda>p. \<not> sp_hidden p) (panes_in cs)))"
  by (auto simp: listPaneIds_panes panes_in_nth)

lemma sibling_pane_mem:
  assumes "sibling_pane cs i = Some x" and "i < length cs"
  shows "x \<in> set (map sp_id (filter (\<lambda>p. \<not> sp_hidden p) (panes_in cs)))"
proof -
  have "\<exists>j<length cs. x \<in> set (listPaneIds (cs ! j))"
  proof (cases "first_some (\<lambda>i. last_opt (listPaneIds (cs ! i))) (rev [0..<i])")
    case (Some y)
    from first_some_mem [OF Some] obtain j where "j < i" "last_opt (listPaneIds (cs ! j)) = Some y" by auto
    moreover have "x = y" using assms(1) Some by (simp add: sibling_pane_def)
    ultimately show ?thesis using assms(2) by (intro exI [of _ j]) (auto simp: last_opt_Some)
  next
    case None
    with assms have "first_some (\<lambda>i. first_opt (listPaneIds (cs ! i))) [Suc i..<length cs] = Some x"
      by (simp add: sibling_pane_def)
    from first_some_mem [OF this] show ?thesis
      by (force simp: first_opt_def split: list.splits)
  qed
  with listPaneIds_sub [of _ cs] show ?thesis by blast
qed

lemma nearest_sibling_spec:
  assumes "getNodeAtPath n path = Inr m" and "d \<le> length path"
  shows "\<exists>r. nearest_sibling n path d = Inr r \<and>
    (\<forall>x. r = Some x \<longrightarrow> x \<in> set (map sp_id (filter (\<lambda>p. \<not> sp_hidden p) (panes n))))"
  using assms(2)
proof (induction d)
  case (Suc d)
  then have "path = take d path @ path ! d # drop (Suc d) path" by (simp add: id_take_nth_drop)
  with assms(1) obtain q where q: "getNodeAtPath n (take d path) = Inr q"
    "getNodeAtPath q (path ! d # drop (Suc d) path) = Inr m"
    by (metis (no_types, lifting) getNode_append bind_sum_Inr)
  then obtain g dir cs ss where node: "q = Group g dir cs ss" "path ! d < length cs"
    by (cases q) (auto split: if_splits)
  with panes_at [OF q(1)] have "set (panes_in cs) \<subseteq> set (panes n)" by auto
  show ?case
  proof (cases "sibling_pane cs (path ! d)")
    case None
    with Suc q(1) node(1) show ?thesis by simp
  next
    case (Some x)
    with sibling_pane_mem [OF Some node(2)] \<open>set (panes_in cs) \<subseteq> _\<close> q(1) node(1) show ?thesis by auto
  qed
qed simp

section \<open>Normal tabs and panes\<close>

definition tab_ok :: "workspace_tab \<Rightarrow> bool" where
  "tab_ok tab \<longleftrightarrow> normalizeWorkspaceTabTarget (wt_target tab) = Some (wt_target tab) \<and>
     trim (wt_tabId tab) = wt_tabId tab \<and> wt_tabId tab \<noteq> []"

lemma normal_id_trimmed:
  assumes "normalizeWorkspaceTabTarget u = Some t" and "buildDeterministicWorkspaceTabId t = Inr i"
  shows "trim i = i \<and> i \<noteq> []"
proof -
  have fin: "\<not> is_space (last s)" if "trim s = s" "s \<noteq> []" for s using trim_ends [of s] that by simp
  note t = normal_target_idem [OF assms(1)]
  have "i \<noteq> [] \<and> (kind_of t \<noteq> KDraft \<longrightarrow> \<not> is_space (hd i) \<and> \<not> is_space (last i)) \<and>
    (kind_of t = KDraft \<longrightarrow> trim i = i)"
  proof (cases t)
    case (FileTab p s e)
    with t have "p = backslash_to_slash (trim p)" "trim p \<noteq> []"
      by (auto simp: normalizeWorkspaceTabTarget_def normalizeFileTabTarget_def
          normalizeWorkspaceFileLocation_def Let_def split: if_splits)
    then have "trim p = p" "p \<noteq> []" by (metis trim_slash trim_trim, metis trim_Nil)
    with FileTab assms(2) fin show ?thesis
      by (auto simp: buildDeterministicWorkspaceTabId_def is_space_def)
  qed (use t assms(2) fin in \<open>auto simp: normalizeWorkspaceTabTarget_def normalizeSimpleWorkspaceTabTarget_def
      normalizePluginTabTarget_def buildDeterministicWorkspaceTabId_def length_prefixed_def is_space_def Let_def
      split: option.splits plugin_context.splits\<close>)
  then show ?thesis using trim_id [of i] by (cases "kind_of t = KDraft") auto
qed

lemma normalized_tab_ok: "normalizeWorkspaceTab t = Some u \<Longrightarrow> tab_ok u"
  by (auto simp: normalizeWorkspaceTab_def tab_ok_def split: option.splits sum.splits if_splits
      dest: normal_target_idem normal_id_trimmed)

lemma normalize_tab_id: "tab_ok t \<Longrightarrow> normalizeWorkspaceTab t = Some t"
  by (auto simp: normalizeWorkspaceTab_def tab_ok_def trimNonEmpty_def)

lemma tabs_from_ok:
  "(\<forall>t\<in>set (tabs_from seen ts). tab_ok t \<and> wt_tabId t \<notin> set seen) \<and>
   distinct (map wt_tabId (tabs_from seen ts))"
proof (induction ts arbitrary: seen)
  case (Cons t ts)
  show ?case
  proof (cases "normalizeWorkspaceTab t")
    case (Some u)
    with Cons.IH [of "wt_tabId u # seen"] Cons.IH [of seen] normalized_tab_ok [OF Some] show ?thesis
      by auto
  qed (use Cons.IH [of seen] in simp)
qed simp

lemma tabs_from_id:
  "\<forall>t\<in>set ts. tab_ok t \<and> wt_tabId t \<notin> set seen \<Longrightarrow> distinct (map wt_tabId ts) \<Longrightarrow> tabs_from seen ts = ts"
proof (induction ts arbitrary: seen)
  case (Cons t ts)
  then have "tabs_from (wt_tabId t # seen) ts = ts" by (intro Cons.IH) (auto simp: image_iff)
  with Cons.prems show ?case by (simp add: normalize_tab_id)
qed simp

lemma normalized_tabs_ok:
  "t \<in> set (normalizeWorkspaceTabs ts) \<Longrightarrow> tab_ok t" "distinct (map wt_tabId (normalizeWorkspaceTabs ts))"
  using tabs_from_ok [of "[]" ts] by (auto simp: normalizeWorkspaceTabs_def)

lemma normalizeWorkspaceTabs_id:
  "\<forall>t\<in>set ts. tab_ok t \<Longrightarrow> distinct (map wt_tabId ts) \<Longrightarrow> normalizeWorkspaceTabs ts = ts"
  by (simp add: normalizeWorkspaceTabs_def tabs_from_id)

definition focus_ok :: "string option \<Rightarrow> string list \<Rightarrow> bool" where
  "focus_ok focused tabIds \<longleftrightarrow> (case focused of None \<Rightarrow> tabIds = [] | Some f \<Rightarrow> f \<in> set tabIds)"

definition pane_ok :: "split_pane \<Rightarrow> bool" where
  "pane_ok p \<longleftrightarrow> sp_tabIds p = map wt_tabId (sp_tabs p) \<and> distinct (sp_tabIds p) \<and>
     (\<forall>t\<in>set (sp_tabs p). tab_ok t) \<and> focus_ok (sp_focusedTabId p) (sp_tabIds p)"

lemma focus_within_ok: "[] \<notin> set tabIds \<Longrightarrow> focus_ok (focus_within f tabIds) tabIds"
  by (cases f) (auto simp: focus_within_def focus_ok_def last_opt_Some split: option.splits)

lemma focus_within_id: "focus_ok f tabIds \<Longrightarrow> [] \<notin> set tabIds \<Longrightarrow> focus_within f tabIds = f"
  by (cases f) (auto simp: focus_within_def focus_ok_def)

lemma tab_ids_nonempty: "\<forall>t\<in>set ts. tab_ok t \<Longrightarrow> [] \<notin> set (map wt_tabId ts)"
  by (auto simp: tab_ok_def)

lemma pane_ok_normalize [simp]: "pane_ok (normalizePaneAfterTabChange p)"
proof -
  have ok: "\<forall>t\<in>set (normalizeWorkspaceTabs (sp_tabs p)). tab_ok t"
    by (simp add: normalized_tabs_ok)
  from focus_within_ok [OF tab_ids_nonempty [OF this]] show ?thesis
    using ok normalized_tabs_ok(2) [of "sp_tabs p"]
    by (simp add: pane_ok_def normalizePaneAfterTabChange_def Let_def)
qed

lemma pane_ok_create: "\<exists>p. createPaneNode i ts f h = Pane p \<and> pane_ok p \<and> sp_id p = i \<and> sp_hidden p = h \<and>
    sp_tabs p = normalizeWorkspaceTabs ts"
proof -
  have ok: "\<forall>t\<in>set (normalizeWorkspaceTabs ts). tab_ok t"
    by (simp add: normalized_tabs_ok)
  from focus_within_ok [OF tab_ids_nonempty [OF this]] show ?thesis
    using ok normalized_tabs_ok(2) [of ts]
    by (simp add: pane_ok_def createPaneNode_def Let_def)
qed

lemma normalize_pane_fields [simp]:
  "sp_id (normalizePaneAfterTabChange p) = sp_id p"
  "sp_hidden (normalizePaneAfterTabChange p) = sp_hidden p"
  "sp_tabs (normalizePaneAfterTabChange p) = normalizeWorkspaceTabs (sp_tabs p)"
  by (simp_all add: normalizePaneAfterTabChange_def Let_def)

lemma normalize_pane_id: "pane_ok p \<Longrightarrow> normalizePaneAfterTabChange p = p"
proof -
  assume ok: "pane_ok p"
  then have "normalizeWorkspaceTabs (sp_tabs p) = sp_tabs p"
    by (intro normalizeWorkspaceTabs_id) (auto simp: pane_ok_def)
  moreover have "focus_within (sp_focusedTabId p) (sp_tabIds p) = sp_focusedTabId p"
    using ok tab_ids_nonempty [of "sp_tabs p"] by (intro focus_within_id) (auto simp: pane_ok_def)
  ultimately show ?thesis using ok by (simp add: pane_ok_def normalizePaneAfterTabChange_def Let_def)
qed

section \<open>Well-formed trees\<close>

text \<open>
  \<open>panes_ok\<close>: every pane has an id and at least one tab, its tabs are normal and its focus is one of
  them; no two panes share an id and no two tabs of the tree share an id.
\<close>

definition tab_ids :: "split_pane list \<Rightarrow> string list" where
  "tab_ids ps = map wt_tabId (concat (map sp_tabs ps))"

definition panes_ok :: "split_pane list \<Rightarrow> bool" where
  "panes_ok ps \<longleftrightarrow> (\<forall>p\<in>set ps. pane_ok p \<and> sp_tabs p \<noteq> [] \<and> sp_id p \<noteq> []) \<and>
     distinct (map sp_id ps) \<and> distinct (tab_ids ps)"

definition wf_tree :: "split_node \<Rightarrow> bool" where
  "wf_tree n \<longleftrightarrow> shape n \<and> panes_ok (panes n)"

definition set_pane :: "split_pane \<Rightarrow> split_pane list \<Rightarrow> split_pane list" where
  "set_pane p' ps = map (\<lambda>q. if sp_id q = sp_id p' then p' else q) ps"

definition drop_pane :: "string \<Rightarrow> split_pane list \<Rightarrow> split_pane list" where
  "drop_pane x ps = filter (\<lambda>q. sp_id q \<noteq> x) ps"

lemma tab_ids_simps [simp]:
  "tab_ids [] = []" "tab_ids (p # ps) = map wt_tabId (sp_tabs p) @ tab_ids ps"
  "tab_ids (ps @ qs) = tab_ids ps @ tab_ids qs"
  by (simp_all add: tab_ids_def)

lemma tab_ids_collect: "map wt_tabId (collectAllTabs n) = tab_ids (panes n)"
  by (simp add: tab_ids_def collectAllTabs_panes)

lemma mem_tab_ids: "i \<in> set (tab_ids ps) \<longleftrightarrow> (\<exists>p\<in>set ps. i \<in> set (map wt_tabId (sp_tabs p)))"
  by (auto simp: tab_ids_def)

lemma pane_of_mem:
  assumes "panes_ok ps" and "p \<in> set ps"
  shows "pane_ok p" "sp_tabs p \<noteq> []" "sp_id p \<noteq> []"
  using assms by (simp_all add: panes_ok_def)

lemma pane_unique:
  assumes "panes_ok ps" and "p \<in> set ps" and "q \<in> set ps" and "sp_id p = sp_id q"
  shows "p = q"
  using assms by (auto simp: panes_ok_def distinct_map inj_on_def)

lemma splitsE:
  assumes "p \<in> set ps"
  obtains xs ys where "ps = xs @ p # ys"
  using assms by (meson split_list)

lemma notin_image: "a \<notin> f ` S \<longleftrightarrow> (\<forall>x\<in>S. f x \<noteq> a)"
  by auto

lemma set_pane_split:
  assumes "distinct (map sp_id (xs @ p # ys))" and "sp_id p' = sp_id p"
  shows "set_pane p' (xs @ p # ys) = xs @ p' # ys"
  using assms by (auto simp: set_pane_def notin_image intro!: map_idI)

lemma drop_pane_split:
  assumes "distinct (map sp_id (xs @ p # ys))"
  shows "drop_pane (sp_id p) (xs @ p # ys) = xs @ ys"
  using assms by (simp add: drop_pane_def notin_image)

lemma pane_of_tab_unique:
  assumes "panes_ok ps" and "p \<in> set ps" and "q \<in> set ps"
    and "i \<in> set (map wt_tabId (sp_tabs p))" and "i \<in> set (map wt_tabId (sp_tabs q))"
  shows "p = q"
proof (rule ccontr)
  assume ne: "p \<noteq> q"
  from splitsE [OF assms(2)] obtain xs ys where "ps = xs @ p # ys" .
  moreover from this ne assms(3,5) have "i \<in> set (tab_ids xs) \<or> i \<in> set (tab_ids ys)"
    by (auto simp: mem_tab_ids)
  ultimately show False using assms(1,4) by (auto simp: panes_ok_def)
qed

lemma panes_ok_set:
  assumes ok: "panes_ok ps" and p: "p \<in> set ps" and same: "sp_id p' = sp_id p"
    and p': "pane_ok p'" "sp_tabs p' \<noteq> []"
    and new: "\<forall>i\<in>set (map wt_tabId (sp_tabs p')). i \<in> set (map wt_tabId (sp_tabs p)) \<or> i \<notin> set (tab_ids ps)"
  shows "panes_ok (set_pane p' ps)"
proof -
  from splitsE [OF p] obtain xs ys where ps: "ps = xs @ p # ys" .
  have "set_pane p' ps = xs @ p' # ys"
    using ok ps same set_pane_split [of xs p ys p'] by (simp add: panes_ok_def)
  moreover have "distinct (map wt_tabId (sp_tabs p'))" using p' by (auto simp: pane_ok_def)
  moreover have "set (map wt_tabId (sp_tabs p')) \<inter> (set (tab_ids xs) \<union> set (tab_ids ys)) = {}"
    using ok new by (fastforce simp: ps panes_ok_def)
  ultimately show ?thesis using ok p' same unfolding ps panes_ok_def
    by (simp add: Int_Un_distrib Int_commute)
qed

lemma panes_ok_drop: "panes_ok ps \<Longrightarrow> panes_ok (drop_pane x ps)"
proof -
  assume ok: "panes_ok ps"
  have sub: "set (tab_ids (filter P qs)) \<subseteq> set (tab_ids qs)" for P and qs :: "split_pane list"
    by (fastforce simp: mem_tab_ids)
  have filt: "distinct (tab_ids (filter P qs))" if "distinct (tab_ids qs)" for P and qs :: "split_pane list"
    using that
  proof (induction qs)
    case (Cons q qs)
    then show ?case using sub [of P qs] by auto
  qed simp
  show ?thesis using ok filt [of ps "\<lambda>q. sp_id q \<noteq> x"] by (simp add: panes_ok_def drop_pane_def distinct_map_filter)
qed

lemma panes_ok_insert:
  assumes "panes_ok (xs @ p # ys)" and "pane_ok q" "sp_tabs q \<noteq> []" "sp_id q \<noteq> []"
    and "sp_id q \<notin> set (map sp_id (xs @ p # ys))"
    and "set (map wt_tabId (sp_tabs q)) \<inter> set (tab_ids (xs @ p # ys)) = {}"
  shows "panes_ok (xs @ p # q # ys) \<and> panes_ok (xs @ q # p # ys)"
proof -
  have "distinct (map wt_tabId (sp_tabs q))" using assms(2) by (auto simp: pane_ok_def)
  with assms show ?thesis by (auto simp: panes_ok_def)
qed

section \<open>What the searches find\<close>

lemma path_searches:
  "findPanePathById n x = find_path (on_pane (\<lambda>p. sp_id p = x)) n []"
  "findPanePathContainingTab n i = find_path (on_pane (\<lambda>p. list_ex (\<lambda>t. wt_tabId t = i) (sp_tabs p))) n []"
  by (simp_all add: findPanePathById_def findPanePathContainingTab_def on_pane_def [abs_def])

lemma pane_path_None:
  "findPanePathById n x = None \<longleftrightarrow> x \<notin> set (map sp_id (panes n))"
  "findPanePathContainingTab n i = None \<longleftrightarrow> i \<notin> set (tab_ids (panes n))"
  by (auto simp: path_searches find_path_None mem_tab_ids list_ex_iff)

lemma pane_path_SomeD:
  "findPanePathById n x = Some path \<Longrightarrow> \<exists>p. getNodeAtPath n path = Inr (Pane p) \<and> sp_id p = x"
  "findPanePathContainingTab n i = Some path \<Longrightarrow>
     \<exists>p. getNodeAtPath n path = Inr (Pane p) \<and> i \<in> set (map wt_tabId (sp_tabs p))"
  unfolding path_searches by (drule find_path_Some(1), auto simp: list_ex_iff)+

lemma pane_path_Some:
  assumes "p \<in> set (panes n)" and "panes_ok (panes n)"
  obtains path where "findPanePathById n (sp_id p) = Some path" "getNodeAtPath n path = Inr (Pane p)"
proof -
  from assms(1) obtain path where path: "findPanePathById n (sp_id p) = Some path"
    using pane_path_None(1) [of n "sp_id p"] by (cases "findPanePathById n (sp_id p)") auto
  from pane_path_SomeD(1) [OF this] obtain q where q: "getNodeAtPath n path = Inr (Pane q)" "sp_id q = sp_id p" by blast
  then have "q \<in> set (panes n)" using panes_at [OF q(1)] by simp
  with pane_unique [OF assms(2) this assms(1)] q path that show thesis by simp
qed

lemma tab_path_Some:
  assumes "p \<in> set (panes n)" and "panes_ok (panes n)" and "i \<in> set (map wt_tabId (sp_tabs p))"
  obtains path where "findPanePathContainingTab n i = Some path" "getNodeAtPath n path = Inr (Pane p)"
proof -
  from assms(1,3) obtain path where path: "findPanePathContainingTab n i = Some path"
    using pane_path_None(2) [of n i] by (cases "findPanePathContainingTab n i") (auto simp: mem_tab_ids)
  from pane_path_SomeD(2) [OF this] obtain q where
    q: "getNodeAtPath n path = Inr (Pane q)" "i \<in> set (map wt_tabId (sp_tabs q))" by blast
  then have "q \<in> set (panes n)" using panes_at [OF q(1)] by simp
  with pane_of_tab_unique [OF assms(2) this assms(1) q(2) assms(3)] q path that show thesis by simp
qed

lemma replace_pane:
  assumes "wf_tree n" and "getNodeAtPath n path = Inr (Pane p)" and "f (Pane p) = Inr (Pane p')"
    and "sp_id p' = sp_id p"
  shows "\<exists>r. replaceNodeAtPath n path f = Inr r \<and> shape r \<and> panes r = set_pane p' (panes n) \<and>
    getNodeAtPath r path = Inr (Pane p')"
proof -
  from replace_at [where f = f, OF assms(2,3)] obtain r where r: "replaceNodeAtPath n path f = Inr r"
    "getNodeAtPath r path = Inr (Pane p')" "panes r = pre n path @ p' # post n path" "shape n \<longrightarrow> shape r" by auto
  have "panes n = pre n path @ p # post n path" using panes_at [OF assms(2)] by simp
  then have "panes r = set_pane p' (panes n)"
    using assms(1,4) r(3) set_pane_split [of "pre n path" p "post n path" p'] by (simp add: wf_tree_def panes_ok_def)
  with r assms(1) show ?thesis by (simp add: wf_tree_def)
qed

section \<open>The operations on well-formed trees\<close>

lemma replace_cong:
  "getNodeAtPath n path = Inr m \<Longrightarrow> f m = g m \<Longrightarrow> replaceNodeAtPath n path f = replaceNodeAtPath n path g"
  by (induction n path rule: getNodeAtPath.induct) (auto split: if_splits)

text \<open>A pane rewritten in place: the frame of most operations.\<close>

lemma replace_pane_wf:
  assumes "wf_tree n" and "getNodeAtPath n path = Inr (Pane p)"
    and "sp_id p' = sp_id p" and "pane_ok p'" and "sp_tabs p' \<noteq> []"
    and "\<forall>i\<in>set (map wt_tabId (sp_tabs p')). i \<in> set (map wt_tabId (sp_tabs p)) \<or> i \<notin> set (tab_ids (panes n))"
    and "f (Pane p) = Inr (Pane p')"
  shows "\<exists>r. replaceNodeAtPath n path f = Inr r \<and> wf_tree r \<and> panes r = set_pane p' (panes n)"
proof -
  have p: "p \<in> set (panes n)" using panes_at [OF assms(2)] by simp
  have "panes_ok (panes n)" using assms(1) by (simp add: wf_tree_def)
  from panes_ok_set [OF this p assms(3,4,5,6)] replace_pane [where f = f, OF assms(1,2,7,3)] show ?thesis
    by (auto simp: wf_tree_def)
qed

lemma panes_nonempty: "shape n \<Longrightarrow> panes n \<noteq> []" "shapes cs \<Longrightarrow> cs \<noteq> [] \<Longrightarrow> panes_in cs \<noteq> []"
  by (induction n and cs rule: panes.induct panes_in.induct) (auto simp: Suc_le_length_iff numeral_2_eq_2)

lemma others_exist:
  assumes "shape n" and "getNodeAtPath n path = Inr m" and "path \<noteq> []"
  shows "pre n path @ post n path \<noteq> []"
proof -
  from parent_at [OF assms(2,3)] obtain g d cs ss where up: "getNodeAtPath n (butlast path) = Inr (Group g d cs ss)"
    and i: "last path < length cs" and pre: "pre n path = pre n (butlast path) @ panes_in (take (last path) cs)"
    and post: "post n path = panes_in (drop (Suc (last path)) cs) @ post n (butlast path)" by metis
  have "shape (Group g d cs ss)" by (rule shape_at [OF assms(1) up])
  then have "2 \<le> length cs" and all: "shapes (take (last path) cs)" "shapes (drop (Suc (last path)) cs)"
    by (auto simp: shapes_all dest: in_set_takeD in_set_dropD)
  with i have "take (last path) cs \<noteq> [] \<or> drop (Suc (last path)) cs \<noteq> []" by auto
  with panes_nonempty(2) [OF all(1)] panes_nonempty(2) [OF all(2)] pre post show ?thesis by auto
qed

definition fresh_for :: "fresh_env \<Rightarrow> split_node \<Rightarrow> bool" where
  "fresh_for env n \<longleftrightarrow> tab_ok (new_tab_of env) \<and> wt_tabId (new_tab_of env) \<notin> set (tab_ids (panes n))"

definition without_tab :: "split_pane \<Rightarrow> string \<Rightarrow> split_pane" where
  "without_tab p i = normalizePaneAfterTabChange (p\<lparr>sp_tabs := filter (\<lambda>t. wt_tabId t \<noteq> i) (sp_tabs p)\<rparr>)"

lemma normalized_sub:
  assumes "pane_ok p" and "distinct (map wt_tabId ts)" and "\<forall>t\<in>set ts. tab_ok t"
  shows "sp_tabs (normalizePaneAfterTabChange (p\<lparr>sp_tabs := ts\<rparr>)) = ts"
  using assms by (simp add: normalizeWorkspaceTabs_id)

lemma sp_tabs_without: "pane_ok p \<Longrightarrow> sp_tabs (without_tab p i) = filter (\<lambda>t. wt_tabId t \<noteq> i) (sp_tabs p)"
  unfolding without_tab_def by (rule normalized_sub) (auto simp: pane_ok_def distinct_map_filter)

lemma without_fields [simp]: "sp_id (without_tab p i) = sp_id p" "pane_ok (without_tab p i)"
  "sp_hidden (without_tab p i) = sp_hidden p"
  by (simp_all add: without_tab_def)

lemma retained:
  assumes "tab_ok (new_tab_of env)" and "sp_tabs p = []"
  shows "pane_ok (ensureRetainedPaneHasTab env p)" "sp_id (ensureRetainedPaneHasTab env p) = sp_id p"
    "sp_tabs (ensureRetainedPaneHasTab env p) = [new_tab_of env]"
  using assms by (simp_all add: ensureRetainedPaneHasTab_def Let_def normalizeWorkspaceTabs_id)

lemma find_tab: "i \<in> set (map wt_tabId ts) \<Longrightarrow> \<exists>t. find (\<lambda>t. wt_tabId t = i) ts = Some t \<and> t \<in> set ts \<and> wt_tabId t = i"
  by (induction ts) auto

text \<open>
  Detaching a tab leaves the other panes alone.  Its own pane loses it; a pane left without tabs
  gets a new tab when it is to be preserved or is the whole tree, and goes away otherwise.
\<close>

lemma detach_spec:
  assumes wf: "wf_tree n" and fresh: "fresh_for env n"
    and p: "p \<in> set (panes n)" and i: "i \<in> set (map wt_tabId (sp_tabs p))"
  obtains r t xs ys ps where
    "detachTabFromTree env n i preserve = Inr \<lparr>dr_root = r, dr_tab = Some t, dr_sourcePaneId = Some (sp_id p)\<rparr>"
    "t \<in> set (sp_tabs p)" "wt_tabId t = i" "panes n = xs @ p # ys" "panes r = xs @ ps @ ys" "wf_tree r"
    "sp_tabs (without_tab p i) \<noteq> [] \<and> ps = [without_tab p i] \<or>
     sp_tabs (without_tab p i) = [] \<and> preserve \<noteq> Some (sp_id p) \<and> ps = [] \<and> xs @ ys \<noteq> [] \<or>
     sp_tabs (without_tab p i) = [] \<and> (preserve = Some (sp_id p) \<or> xs @ ys = []) \<and>
       (\<exists>q. ps = [q] \<and> sp_id q = sp_id p \<and> sp_tabs q = [new_tab_of env])"
proof -
  note result = that
  have ok: "panes_ok (panes n)" and sh: "shape n" using wf by (simp_all add: wf_tree_def)
  from tab_path_Some [OF p ok i] obtain path where
    path: "findPanePathContainingTab n i = Some path" "getNodeAtPath n path = Inr (Pane p)" .
  from find_tab [OF i] obtain t where t: "find (\<lambda>t. wt_tabId t = i) (sp_tabs p) = Some t" "t \<in> set (sp_tabs p)" "wt_tabId t = i"
    by blast
  note split = panes_at [OF path(2), simplified]
  let ?p = "without_tab p i"
  have pane: "pane_ok p" using pane_of_mem [OF ok p] by simp
  from replace_pane [OF wf path(2), of "\<lambda>_. Inr (Pane ?p)" ?p] obtain n1 where
    n1: "replaceNodeAtPath n path (\<lambda>_. Inr (Pane ?p)) = Inr n1" "shape n1" "getNodeAtPath n1 path = Inr (Pane ?p)"
    by auto
  from replace_at [where f = "\<lambda>_. Inr (Pane ?p)", OF path(2) refl] n1(1) have
    same: "pre n1 path = pre n path" "post n1 path = post n path" by auto
  let ?done = "\<lambda>r. \<lparr>dr_root = r, dr_tab = Some t, dr_sourcePaneId = Some (sp_id p)\<rparr>"
  have run: "detachTabFromTree env n i preserve =
     (if sp_tabs ?p \<noteq> [] then Inr (?done n1)
      else if Some (sp_id p) = preserve
      then bind_sum (replaceNodeAtPath n1 path (\<lambda>_. Inr (Pane (ensureRetainedPaneHasTab env ?p)))) (\<lambda>r. Inr (?done r))
      else bind_sum (removePaneByPath env n1 path) (\<lambda>r. Inr (?done r)))"
    using path t(1) n1(1) by (simp add: detachTabFromTree_def Let_def without_tab_def)
  have keep: thesis if "detachTabFromTree env n i preserve = Inr (?done r)" "shape r"
      "panes r = pre n path @ q # post n path" "pane_ok q" "sp_id q = sp_id p" "sp_tabs q \<noteq> []"
      "set (map wt_tabId (sp_tabs q)) \<subseteq> set (map wt_tabId (sp_tabs p)) \<or> sp_tabs q = [new_tab_of env]"
      "sp_tabs ?p \<noteq> [] \<and> q = ?p \<or> sp_tabs ?p = [] \<and> sp_tabs q = [new_tab_of env] \<and>
         (preserve = Some (sp_id p) \<or> pre n path @ post n path = [])" for r q
  proof -
    have "panes r = set_pane q (panes n)"
      using that(3,5) split ok set_pane_split [of "pre n path" p "post n path" q] by (simp add: panes_ok_def)
    moreover have "\<forall>j\<in>set (map wt_tabId (sp_tabs q)). j \<in> set (map wt_tabId (sp_tabs p)) \<or> j \<notin> set (tab_ids (panes n))"
      using that(7) fresh by (auto simp: fresh_for_def)
    ultimately have "wf_tree r" using panes_ok_set [OF ok p that(5,4,6)] that(2) by (simp add: wf_tree_def)
    from result [OF that(1) t(2,3) split _ this, of "[q]"] that show thesis by auto
  qed
  show thesis
  proof (cases "sp_tabs ?p = []")
    case False
    have "set (map wt_tabId (sp_tabs ?p)) \<subseteq> set (map wt_tabId (sp_tabs p))"
      by (auto simp: sp_tabs_without [OF pane])
    with False run n1(2) panes_at [OF n1(3)] same show thesis by (intro keep [of n1 ?p]) simp_all
  next
    case True
    have new: "tab_ok (new_tab_of env)" using fresh by (simp add: fresh_for_def)
    show thesis
    proof (cases "preserve = Some (sp_id p)")
      case pres: True
      let ?q = "ensureRetainedPaneHasTab env ?p"
      from replace_at [where f = "\<lambda>_. Inr (Pane ?q)", OF n1(3) refl] n1(2) same obtain r where
        "replaceNodeAtPath n1 path (\<lambda>_. Inr (Pane ?q)) = Inr r" "panes r = pre n path @ ?q # post n path" "shape r"
        by auto
      with True pres run retained [OF new True] show thesis by (intro keep [of r ?q]) simp_all
    next
      case pres: False
      show thesis
      proof (cases "path = []")
        case root: True
        with n1(3) have "n1 = Pane ?p" by simp
        with root True pres run have "detachTabFromTree env n i preserve =
            Inr (?done (createPaneNode (sp_id p) [new_tab_of env] None False))"
          by (auto simp: removePaneByPath_def)
        moreover obtain q where "createPaneNode (sp_id p) [new_tab_of env] None False = Pane q" "pane_ok q"
          "sp_id q = sp_id p" "sp_tabs q = [new_tab_of env]"
          using pane_ok_create [of "sp_id p" "[new_tab_of env]" None False] new
          by (auto simp: normalizeWorkspaceTabs_id)
        ultimately show thesis using root True by (intro keep [of "Pane q" q]) simp_all
      next
        case False
        from remove_at [OF n1(2,3) False, of env] same obtain r where
          r: "removePaneByPath env n1 path = Inr r" "shape r" "panes r = pre n path @ post n path" by auto
        have "panes r = drop_pane (sp_id p) (panes n)"
          using r(3) split ok drop_pane_split [of "pre n path" p "post n path"] by (simp add: panes_ok_def)
        then have "wf_tree r" using r(2) panes_ok_drop [OF ok] by (simp add: wf_tree_def)
        with r run True pres others_exist [OF sh path(2) False] result [OF _ t(2,3) split, of r "[]"] show thesis
          by auto
      qed
    qed
  qed
qed

definition with_tab :: "split_pane \<Rightarrow> workspace_tab \<Rightarrow> string option \<Rightarrow> split_pane" where
  "with_tab q t focus = normalizePaneAfterTabChange (q\<lparr>
     sp_tabs := (if wt_target t \<noteq> NewTab \<and> isSoleNewTabPane q then [t]
       else case find_index (\<lambda>u. wt_tabId u = wt_tabId t) (sp_tabs q) of
         Some j \<Rightarrow> (sp_tabs q)[j := t] | None \<Rightarrow> sp_tabs q @ [t]),
     sp_focusedTabId := or_else focus (Some (wt_tabId t))\<rparr>)"

lemma distinct_replaced:
  assumes "distinct (map f xs)" and "find_index (\<lambda>u. f u = f t) xs = Some j"
  shows "map f (xs[j := t]) = map f xs"
  using find_index_Some [OF assms(2)] by (simp add: map_update list_update_same_conv)

text \<open>The tabs of a pane after an insertion: the pane's own or, for a lone new tab, only the inserted one.\<close>

lemma with_tab_tabs:
  assumes "pane_ok q" and "tab_ok t"
  shows "sp_tabs (with_tab q t f) = (if wt_target t \<noteq> NewTab \<and> isSoleNewTabPane q then [t]
    else case find_index (\<lambda>u. wt_tabId u = wt_tabId t) (sp_tabs q) of
      Some j \<Rightarrow> (sp_tabs q)[j := t] | None \<Rightarrow> sp_tabs q @ [t])" (is "_ = ?ts")
proof -
  have q: "distinct (map wt_tabId (sp_tabs q))" "\<forall>u\<in>set (sp_tabs q). tab_ok u"
    using assms(1) by (auto simp: pane_ok_def)
  have "distinct (map wt_tabId ?ts)"
    using q(1) distinct_replaced [OF q(1), of t]
    by (auto simp: find_index_None notin_image split: option.split)
  moreover have "\<forall>u\<in>set ?ts. tab_ok u"
    using q(2) assms(2) by (auto dest!: set_update_subset_insert [THEN subsetD] split: option.split)
  ultimately show ?thesis by (simp add: with_tab_def normalizeWorkspaceTabs_id)
qed

lemma with_tab_fields [simp]: "sp_id (with_tab q t f) = sp_id q" "pane_ok (with_tab q t f)"
  "sp_hidden (with_tab q t f) = sp_hidden q"
  by (simp_all add: with_tab_def)

lemma with_tab_ids:
  assumes "pane_ok q" and "tab_ok t"
  shows "set (map wt_tabId (sp_tabs (with_tab q t f))) \<subseteq> insert (wt_tabId t) (set (map wt_tabId (sp_tabs q)))"
    and "t \<in> set (sp_tabs (with_tab q t f))"
proof -
  have q: "distinct (map wt_tabId (sp_tabs q))" using assms(1) by (auto simp: pane_ok_def)
  show "set (map wt_tabId (sp_tabs (with_tab q t f))) \<subseteq> insert (wt_tabId t) (set (map wt_tabId (sp_tabs q)))"
    using distinct_replaced [OF q, of t] unfolding with_tab_tabs [OF assms]
    by (auto simp del: set_map split: option.split)
  show "t \<in> set (sp_tabs (with_tab q t f))"
    unfolding with_tab_tabs [OF assms]
    by (auto dest: find_index_Some intro: set_update_memI split: option.split)
qed

lemma insert_spec:
  assumes wf: "wf_tree n" and q: "q \<in> set (panes n)" and t: "tab_ok t"
    and new: "wt_tabId t \<in> set (map wt_tabId (sp_tabs q)) \<or> wt_tabId t \<notin> set (tab_ids (panes n))"
  shows "\<exists>r. insertTabIntoPane n (sp_id q) t f = Inr r \<and> wf_tree r \<and> panes r = set_pane (with_tab q t f) (panes n)"
proof -
  have ok: "panes_ok (panes n)" using wf by (simp add: wf_tree_def)
  note pane = pane_of_mem [OF ok q]
  from pane_path_Some [OF q ok] obtain path where
    path: "findPanePathById n (sp_id q) = Some path" "getNodeAtPath n path = Inr (Pane q)" .
  have ids: "\<forall>i\<in>set (map wt_tabId (sp_tabs (with_tab q t f))).
      i \<in> set (map wt_tabId (sp_tabs q)) \<or> i \<notin> set (tab_ids (panes n))"
    using with_tab_ids(1) [OF pane(1) t, of f] new by blast
  have "sp_tabs (with_tab q t f) \<noteq> []" using with_tab_ids(2) [OF pane(1) t, of f] by auto
  from replace_pane_wf [OF wf path(2) _ _ this ids] show ?thesis
    by (simp add: insertTabIntoPane_def path(1) with_tab_def Let_def)
qed

definition focused_on :: "split_pane \<Rightarrow> string \<Rightarrow> split_pane" where
  "focused_on p i = normalizePaneAfterTabChange (p\<lparr>sp_focusedTabId := Some i, sp_hidden := False\<rparr>)"

lemma focused_on_fields:
  assumes "pane_ok p" and "i \<in> set (map wt_tabId (sp_tabs p))"
  shows "sp_id (focused_on p i) = sp_id p" "sp_tabs (focused_on p i) = sp_tabs p" "pane_ok (focused_on p i)"
    "sp_focusedTabId (focused_on p i) = Some i" "sp_hidden (focused_on p i) = False"
proof -
  have tabs: "normalizeWorkspaceTabs (sp_tabs p) = sp_tabs p"
    using assms(1) by (intro normalizeWorkspaceTabs_id) (auto simp: pane_ok_def)
  show "sp_id (focused_on p i) = sp_id p" "sp_tabs (focused_on p i) = sp_tabs p" "pane_ok (focused_on p i)"
    "sp_hidden (focused_on p i) = False"
    by (simp_all add: focused_on_def tabs)
  show "sp_focusedTabId (focused_on p i) = Some i"
    using assms(2) by (simp add: focused_on_def normalizePaneAfterTabChange_def tabs focus_within_def Let_def)
qed

lemma focus_spec:
  assumes wf: "wf_tree n" and p: "p \<in> set (panes n)" and i: "i \<in> set (map wt_tabId (sp_tabs p))"
  shows "\<exists>r. focusTabInPane n (sp_id p) i = Inr r \<and> wf_tree r \<and> panes r = set_pane (focused_on p i) (panes n)"
proof -
  have ok: "panes_ok (panes n)" using wf by (simp add: wf_tree_def)
  note pane = pane_of_mem [OF ok p] and f = focused_on_fields [OF pane_of_mem(1) [OF ok p] i]
  from pane_path_Some [OF p ok] obtain path where
    path: "findPanePathById n (sp_id p) = Some path" "getNodeAtPath n path = Inr (Pane p)" .
  show ?thesis
    unfolding focusTabInPane_def path(1) option.case
    by (rule replace_pane_wf [OF wf path(2)]) (use f(1-3) pane in \<open>auto simp: focused_on_def\<close>)
qed

definition retabbed :: "split_pane \<Rightarrow> string \<Rightarrow> string \<Rightarrow> tab_target \<Rightarrow> json_value option \<Rightarrow> split_pane" where
  "retabbed p i j target state = normalizePaneAfterTabChange (p\<lparr>
     sp_tabs := map (\<lambda>t. if wt_tabId t \<noteq> i then t
       else \<lparr>wt_tabId = j, wt_target = target, wt_createdAt = wt_createdAt t, wt_state = state\<rparr>) (sp_tabs p),
     sp_focusedTabId := (if sp_focusedTabId p = Some i then Some j else sp_focusedTabId p)\<rparr>)"

lemma retabbed_tabs:
  assumes p: "pane_ok p" and target: "normalizeWorkspaceTabTarget target = Some target"
    and j: "trim j = j" "j \<noteq> []" "j = i \<or> j \<notin> set (map wt_tabId (sp_tabs p))"
  shows "sp_tabs (retabbed p i j target state) = map (\<lambda>t. if wt_tabId t \<noteq> i then t
    else \<lparr>wt_tabId = j, wt_target = target, wt_createdAt = wt_createdAt t, wt_state = state\<rparr>) (sp_tabs p)"
    (is "_ = map ?f _")
proof -
  have tabs: "distinct (map wt_tabId (sp_tabs p))" "\<forall>u\<in>set (sp_tabs p). tab_ok u"
    using p by (auto simp: pane_ok_def)
  have "distinct (map wt_tabId (map ?f ts))" if "distinct (map wt_tabId ts)" "j = i \<or> j \<notin> set (map wt_tabId ts)" for ts
    using that by (induction ts) (auto simp: notin_image)
  then have "distinct (map wt_tabId (map ?f (sp_tabs p)))" using tabs(1) j(3) by blast
  moreover have "\<forall>u\<in>set (map ?f (sp_tabs p)). tab_ok u" using tabs(2) target j by (auto simp: tab_ok_def)
  ultimately show ?thesis by (simp add: retabbed_def normalizeWorkspaceTabs_id)
qed

lemma retabbed_fields [simp]: "sp_id (retabbed p i j g s) = sp_id p" "pane_ok (retabbed p i j g s)"
  "sp_hidden (retabbed p i j g s) = sp_hidden p"
  by (simp_all add: retabbed_def)

lemma replace_tab_spec:
  assumes wf: "wf_tree n" and p: "p \<in> set (panes n)" and i: "i \<in> set (map wt_tabId (sp_tabs p))"
    and target: "normalizeWorkspaceTabTarget target = Some target"
    and j: "trim j = j" "j \<noteq> []" "j = i \<or> j \<notin> set (tab_ids (panes n))"
  shows "\<exists>r. replaceTabInTree n i j target state = Inr r \<and> wf_tree r \<and>
    panes r = set_pane (retabbed p i j target state) (panes n)"
proof -
  have ok: "panes_ok (panes n)" using wf by (simp add: wf_tree_def)
  note pane = pane_of_mem [OF ok p]
  from tab_path_Some [OF p ok i] obtain path where
    path: "findPanePathContainingTab n i = Some path" "getNodeAtPath n path = Inr (Pane p)" .
  have "j = i \<or> j \<notin> set (map wt_tabId (sp_tabs p))" using j(3) p by (auto simp: mem_tab_ids)
  note tabs = retabbed_tabs [OF pane(1) target j(1,2) this, of state]
  have "sp_tabs (retabbed p i j target state) \<noteq> []" using tabs pane(2) by simp
  moreover have "\<forall>k\<in>set (map wt_tabId (sp_tabs (retabbed p i j target state))).
      k \<in> set (map wt_tabId (sp_tabs p)) \<or> k \<notin> set (tab_ids (panes n))"
    using tabs i j(3) by auto
  ultimately show ?thesis
    unfolding replaceTabInTree_def path(1) option.case
    by (rule replace_pane_wf [OF wf path(2) retabbed_fields(1,2)]) (simp add: retabbed_def)
qed

lemma update_pane_spec:
  assumes wf: "wf_tree n" and p: "p \<in> set (panes n)"
    and u: "sp_id (u p) = sp_id p" "normalizeWorkspaceTabs (sp_tabs (u p)) \<noteq> []"
      "set (map wt_tabId (normalizeWorkspaceTabs (sp_tabs (u p)))) \<subseteq> set (map wt_tabId (sp_tabs p))"
  shows "\<exists>r. updatePaneInTree n (sp_id p) u = Inr r \<and> wf_tree r \<and>
    panes r = set_pane (normalizePaneAfterTabChange (u p)) (panes n)"
proof -
  have ok: "panes_ok (panes n)" using wf by (simp add: wf_tree_def)
  from pane_path_Some [OF p ok] obtain path where
    path: "findPanePathById n (sp_id p) = Some path" "getNodeAtPath n path = Inr (Pane p)" .
  show ?thesis
    unfolding updatePaneInTree_def path(1) option.case
    by (rule replace_pane_wf [OF wf path(2)]) (use u in auto)
qed

end
