(* ===== verification/Layout_Sizes.thy ===== *)
theory Layout_Sizes
  imports Layout_Facts
begin

text \<open>The sizes of a resized group: \<open>clampNormalizedSizes\<close> in \<open>workspace-layout-actions.ts\<close>.\<close>

lemma length_set_all [simp]: "length (set_all xs is f) = length xs"
  unfolding set_all_def by (induction "is" arbitrary: xs) simp_all

lemma nth_set_all: "i < length xs \<Longrightarrow> set_all xs is f ! i = (if i \<in> set is then f i else xs ! i)"
  unfolding set_all_def by (induction "is" arbitrary: xs) (auto simp: nth_list_update)

lemma sum_list_nth: "sum_list (xs :: rat list) = (\<Sum>i<length xs. xs ! i)"
  by (simp add: sum_list_sum_nth atLeast0LessThan)

lemma weight_sum: "distinct is \<Longrightarrow> weight_of w is = (\<Sum>i\<in>set is. w ! i)"
  by (simp add: weight_of_def sum_list_distinct_conv_sum_set)

text \<open>
  The loop with the weights \<open>w\<close>: the locked indices have the minimal size, and what remains is
  shared by the others in proportion to their weights.
\<close>

definition clamp_inv :: "rat list \<Rightarrow> nat list \<Rightarrow> rat \<Rightarrow> rat list \<Rightarrow> bool" where
  "clamp_inv w unlocked remaining sizes \<longleftrightarrow>
     distinct unlocked \<and> set unlocked \<subseteq> {..<length w} \<and> unlocked \<noteq> [] \<and> length sizes = length w \<and>
     (\<forall>i<length w. 0 < w ! i) \<and> (\<forall>i<length w. i \<notin> set unlocked \<longrightarrow> sizes ! i = MIN_SPLIT_SIZE) \<and>
     remaining = 1 - of_nat (length w - length unlocked) * MIN_SPLIT_SIZE"

lemma clamp_invD:
  assumes "clamp_inv w u r s" and "length w \<le> 10"
  shows "0 < weight_of w u" and "of_nat (length u) * MIN_SPLIT_SIZE \<le> r"
    and "(\<Sum>i\<in>set u. w ! i / weight_of w u * r) = r"
proof -
  have u: "distinct u" "set u \<subseteq> {..<length w}" "u \<noteq> []" "\<forall>i<length w. 0 < w ! i"
    using assms(1) by (simp_all add: clamp_inv_def)
  have "0 < (\<Sum>i\<in>set u. w ! i)" using u by (intro sum_pos) auto
  then show pos: "0 < weight_of w u" using u(1) by (simp add: weight_sum)
  have "length u \<le> length w"
    using u(1,2) card_mono [of "{..<length w}" "set u"] by (simp add: distinct_card)
  then have "r = 1 - (of_nat (length w) - of_nat (length u)) / 10"
    using assms(1) by (simp add: clamp_inv_def MIN_SPLIT_SIZE_def of_nat_diff)
  moreover have "(of_nat (length w) :: rat) \<le> of_nat 10" by (rule of_nat_mono) (rule assms(2))
  ultimately show "of_nat (length u) * MIN_SPLIT_SIZE \<le> r" by (simp add: MIN_SPLIT_SIZE_def field_simps)
  have "(\<Sum>i\<in>set u. w ! i / weight_of w u * r) = (\<Sum>i\<in>set u. w ! i) / weight_of w u * r"
    by (simp add: sum_divide_distrib sum_distrib_right)
  with pos u(1) show "(\<Sum>i\<in>set u. w ! i / weight_of w u * r) = r" by (simp add: weight_sum)
qed

definition clamped :: "rat list \<Rightarrow> nat \<Rightarrow> bool" where
  "clamped sizes n \<longleftrightarrow> length sizes = n \<and> (\<forall>s\<in>set sizes. MIN_SPLIT_SIZE \<le> s) \<and> sum_list sizes = 1"

lemma clamp_done:
  assumes inv: "clamp_inv w u r s" and n: "length w \<le> 10"
    and big: "\<forall>i\<in>set u. MIN_SPLIT_SIZE \<le> w ! i / weight_of w u * r"
  shows "clamped (set_all s u (\<lambda>i. w ! i / weight_of w u * r)) (length w)"
proof -
  let ?f = "\<lambda>i. w ! i / weight_of w u * r" and ?s = "set_all s u (\<lambda>i. w ! i / weight_of w u * r)"
  have u: "distinct u" "set u \<subseteq> {..<length w}" "length s = length w"
    "\<forall>i<length w. i \<notin> set u \<longrightarrow> s ! i = MIN_SPLIT_SIZE"
    "r = 1 - of_nat (length w - length u) * MIN_SPLIT_SIZE"
    using inv by (simp_all add: clamp_inv_def)
  have "sum_list ?s = (\<Sum>i<length w. if i \<in> set u then ?f i else MIN_SPLIT_SIZE)"
    using u by (auto simp: sum_list_nth nth_set_all intro!: sum.cong)
  also have "\<dots> = (\<Sum>i\<in>set u. ?f i) + (\<Sum>i\<in>{..<length w} - set u. MIN_SPLIT_SIZE)"
    using u(2) by (simp add: sum.If_cases Int_absorb1 Diff_eq)
  also have "\<dots> = r + of_nat (length w - length u) * MIN_SPLIT_SIZE"
    using u(1,2) clamp_invD(3) [OF inv n] by (simp add: card_Diff_subset distinct_card)
  finally have "sum_list ?s = 1" using u(5) by simp
  moreover have "\<forall>x\<in>set ?s. MIN_SPLIT_SIZE \<le> x"
    using u big by (auto simp: in_set_conv_nth nth_set_all)
  ultimately show ?thesis using u(3) by (simp add: clamped_def)
qed

lemma clamp_step:
  assumes inv: "clamp_inv w u r s" and n: "length w \<le> 10"
    and l: "l = filter (\<lambda>i. w ! i / weight_of w u * r < MIN_SPLIT_SIZE) u"
  shows "clamp_inv w (filter (\<lambda>i. i \<notin> set l) u) (r - of_nat (length l) * MIN_SPLIT_SIZE)
    (set_all s l (\<lambda>_. MIN_SPLIT_SIZE))"
proof -
  have u: "distinct u" "set u \<subseteq> {..<length w}" "u \<noteq> []" "length s = length w"
    "\<forall>i<length w. 0 < w ! i" "\<forall>i<length w. i \<notin> set u \<longrightarrow> s ! i = MIN_SPLIT_SIZE"
    "r = 1 - of_nat (length w - length u) * MIN_SPLIT_SIZE"
    using inv by (simp_all add: clamp_inv_def)
  let ?rest = "filter (\<lambda>i. i \<notin> set l) u"
  have rest: "?rest = filter (\<lambda>i. \<not> w ! i / weight_of w u * r < MIN_SPLIT_SIZE) u"
    by (rule filter_cong) (auto simp: l)
  then have len: "length l + length ?rest = length u" by (simp add: l sum_length_filter_compl)
  have "?rest \<noteq> []"
  proof
    assume "?rest = []"
    then have "\<forall>i\<in>set u. w ! i / weight_of w u * r < MIN_SPLIT_SIZE" by (simp add: rest filter_empty_conv)
    then have "(\<Sum>i\<in>set u. w ! i / weight_of w u * r) < (\<Sum>i\<in>set u. MIN_SPLIT_SIZE)"
      using u(3) by (intro sum_strict_mono) auto
    with clamp_invD [OF inv n] u(1) show False by (simp add: distinct_card)
  qed
  moreover have "length u \<le> length w"
    using u(1,2) card_mono [of "{..<length w}" "set u"] by (simp add: distinct_card)
  with len have "length w - length ?rest = (length w - length u) + length l" by linarith
  then have "r - of_nat (length l) * MIN_SPLIT_SIZE = 1 - of_nat (length w - length ?rest) * MIN_SPLIT_SIZE"
    unfolding u(7) by (simp only: of_nat_add ring_distribs diff_diff_eq)
  ultimately show ?thesis using u l by (auto simp: clamp_inv_def nth_set_all)
qed

lemma clamp_loop_clamped:
  assumes "clamp_inv w u r s" and "length w \<le> 10"
  shows "clamped (clamp_loop w u r s) (length w)"
  using assms
proof (induction w u r s rule: clamp_loop.induct)
  case (1 w u r s)
  let ?p = "\<lambda>i. w ! i / weight_of w u * r"
  let ?l = "filter (\<lambda>i. ?p i < MIN_SPLIT_SIZE) u"
  have u: "u \<noteq> []" "\<not> weight_of w u \<le> 0" using 1(2,3) clamp_invD(1) [of w u r s] by (auto simp: clamp_inv_def)
  show ?case
  proof (cases "?l = []")
    case True
    then have "\<forall>i\<in>set u. MIN_SPLIT_SIZE \<le> ?p i" by (auto simp: filter_empty_conv not_less)
    from clamp_done [OF 1(2,3) this] u True show ?thesis
      by (simp add: clamp_loop.simps [of w u] Let_def)
  next
    case False
    from 1(1) [OF u(1) refl u(2) refl refl False clamp_step [OF 1(2,3) refl] 1(3)] u False show ?thesis
      by (simp add: clamp_loop.simps [of w u] Let_def)
  qed
qed

lemma sizes_of_clamped: "clamped sizes n \<Longrightarrow> sizes_ok sizes n"
  by (auto simp: clamped_def sizes_ok_def MIN_SPLIT_SIZE_def)

text \<open>
  The sizes given to a resized group are positive and add up to one; with at most ten children
  none is below a tenth, and sizes that need no correction are only scaled.
\<close>

lemma clamped_sizes:
  assumes "sizes \<noteq> []"
  shows "sizes_ok (clampNormalizedSizes sizes) (length sizes) \<and>
    (length sizes \<le> 10 \<longrightarrow> (\<forall>s\<in>set (clampNormalizedSizes sizes). MIN_SPLIT_SIZE \<le> s)) \<and>
    (length sizes \<le> 10 \<and> (\<forall>s\<in>set (normalizeSizes sizes (length sizes)). MIN_SPLIT_SIZE \<le> s) \<longrightarrow>
      clampNormalizedSizes sizes = normalizeSizes sizes (length sizes))"
proof -
  let ?n = "length sizes" and ?w = "normalizeSizes sizes (length sizes)"
  have w: "sizes_ok ?w ?n" using assms by (intro normalizeSizes_ok) simp
  consider (one) "?n = 1" | (many) "10 < ?n" | (some) "2 \<le> ?n" "?n \<le> 10"
    using length_greater_0_conv [THEN iffD2, OF assms] by linarith
  then show ?thesis
  proof cases
    case one
    with w obtain x where "?w = [x]" by (auto simp: sizes_ok_def length_Suc_conv)
    with w one show ?thesis by (auto simp: clampNormalizedSizes_def Let_def sizes_ok_def MIN_SPLIT_SIZE_def)
  next
    case many
    then have "of_nat ?n * MIN_SPLIT_SIZE > (1 :: rat)" by (simp add: MIN_SPLIT_SIZE_def)
    with many show ?thesis
      by (auto simp: clampNormalizedSizes_def Let_def sizes_ok_def sum_list_replicate)
  next
    case some
    then have small: "\<not> of_nat ?n * MIN_SPLIT_SIZE > (1 :: rat)" by (simp add: MIN_SPLIT_SIZE_def)
    let ?loop = "clamp_loop ?w [0..<?n] 1 (replicate ?n 0)"
    have len: "length ?w = ?n" using w by (simp add: sizes_ok_def)
    have inv: "clamp_inv ?w [0..<?n] 1 (replicate ?n 0)"
      using w some len by (auto simp: clamp_inv_def sizes_ok_def)
    from clamp_loop_clamped [OF this] some len have loop: "clamped ?loop ?n" by simp
    then have eq: "clampNormalizedSizes sizes = ?loop"
      using assms some small normalizeSizes_id [OF sizes_of_clamped [OF loop]]
      by (simp add: clampNormalizedSizes_def Let_def)
    have same: "?loop = ?w" if big: "\<forall>s\<in>set ?w. MIN_SPLIT_SIZE \<le> s"
    proof -
      have weight: "weight_of ?w [0..<?n] = 1"
        using w len by (simp add: weight_sum sizes_ok_def sum_list_nth atLeast0LessThan)
      have "filter (\<lambda>i. ?w ! i < MIN_SPLIT_SIZE) [0..<?n] = []"
        using big len by (auto simp: filter_empty_conv not_less)
      with assms some weight have "?loop = set_all (replicate ?n 0) [0..<?n] (\<lambda>i. ?w ! i)"
        by (simp add: clamp_loop.simps [of ?w] Let_def)
      also have "\<dots> = ?w" using len by (intro nth_equalityI) (simp_all add: nth_set_all)
      finally show ?thesis .
    qed
    from loop same show ?thesis unfolding eq by (auto simp: sizes_of_clamped clamped_def)
  qed
qed

theorem clamped_sizes_witness:
  "clampNormalizedSizes [9, 1 / 100, 1] \<noteq> [] \<and>
   sizes_ok (clampNormalizedSizes [9, 1 / 100, 1]) 3 \<and>
   list_all (\<lambda>s. 1 / 10 \<le> s) (clampNormalizedSizes [9, 1 / 100, 1])"
  using clamped_sizes [of "[9, 1 / 100, 1]"] by (auto simp: MIN_SPLIT_SIZE_def sizes_ok_def list_all_iff)

end
