(* ===== verification/Layout_Ops.thy ===== *)
theory Layout_Ops
  imports Layout_Facts
begin

text \<open>
  The operations on a workspace layout, from \<open>packages/app/src/stores/workspace-layout-actions.ts\<close>.
  A result of \<open>null\<close> is \<open>Inr None\<close>, a failed \<open>invariant\<close> an \<open>Inl\<close>.  The callbacks \<open>createTabId\<close> and
  \<open>createNodeId\<close> are the values they return.
\<close>

section \<open>Parents and focus\<close>

definition normalizeParentTabMap ::
  "(string, string) js_map option \<Rightarrow> string set \<Rightarrow> (string, string) js_map option" where
  "normalizeParentTabMap raw openTabIds = (case raw of
      None \<Rightarrow> None
    | Some entries \<Rightarrow>
        (let next = fold (\<lambda>(rawChildId, rawParentId) m.
               case (trimNonEmpty (Some rawChildId), trimNonEmpty (Some rawParentId)) of
                 (Some childId, Some parentId) \<Rightarrow>
                   if childId = parentId \<or> childId \<notin> openTabIds \<or> parentId \<notin> openTabIds then m
                   else AList.update childId parentId m
               | _ \<Rightarrow> m) entries []
         in if next = [] then None else Some next))"

definition open_tab_ids :: "split_node \<Rightarrow> string set" where
  "open_tab_ids n = set (map wt_tabId (collectAllTabs n))"

definition normalizeLayoutParentTabMap :: "workspace_layout \<Rightarrow> (string, string) js_map option" where
  "normalizeLayoutParentTabMap layout =
     normalizeParentTabMap (wl_parents layout) (open_tab_ids (wl_root layout))"

definition withNormalizedParentTabMap :: "workspace_layout \<Rightarrow> workspace_layout" where
  "withNormalizedParentTabMap layout = layout\<lparr>wl_parents := normalizeLayoutParentTabMap layout\<rparr>"

text \<open>The layout with a new tree and focus, as most operations return it.\<close>

definition relaid :: "workspace_layout \<Rightarrow> split_node \<Rightarrow> string option \<Rightarrow> workspace_layout" where
  "relaid layout tree focused = withNormalizedParentTabMap
     \<lparr>wl_root = tree, wl_focusedPaneId = focused, wl_parents = wl_parents layout\<rparr>"

definition next_to :: "string list \<Rightarrow> string \<Rightarrow> string option" where
  "next_to tabIds tabId = (case find_index (\<lambda>i. i = tabId) tabIds of
      None \<Rightarrow> nth_opt tabIds 0
    | Some tabIndex \<Rightarrow>
        or_else (nth_opt tabIds (tabIndex + 1))
          (if tabIndex > 0 then nth_opt tabIds (tabIndex - 1) else None))"

definition getCloseSuccessorTabId ::
  "split_pane \<Rightarrow> string \<Rightarrow> string set \<Rightarrow> (string, string) js_map option \<Rightarrow> string option" where
  "getCloseSuccessorTabId pane tabId openTabIds parents =
     (if sp_focusedTabId pane \<noteq> Some tabId then None
      else case truthy (map_of (default [] parents) tabId) of
        Some parentTabId \<Rightarrow>
          if parentTabId \<in> openTabIds then Some parentTabId else next_to (sp_tabIds pane) tabId
      | None \<Rightarrow> next_to (sp_tabIds pane) tabId)"

definition getFocusedPaneIdAfterTabClose ::
  "split_node \<Rightarrow> string option \<Rightarrow> string option \<Rightarrow> string option \<Rightarrow> string option" where
  "getFocusedPaneIdAfterTabClose tree focusedPaneId fallbackPaneId excludedPaneId =
     (if focusedPaneId = None then None
      else or_else
        (if focusedPaneId \<noteq> excludedPaneId then map_option sp_id (findPaneById tree focusedPaneId) else None)
        (or_else
          (if truthy fallbackPaneId \<noteq> None \<and> fallbackPaneId \<noteq> excludedPaneId
           then map_option sp_id (findPaneById tree fallbackPaneId) else None)
          (or_else
            (map_option sp_id (find (\<lambda>pane. Some (sp_id pane) \<noteq> excludedPaneId) (collectAllPanes tree)))
            (Some DEFAULT_PANE_ID))))"

section \<open>Focusing, closing and hiding\<close>

definition focusTabInLayout :: "workspace_layout \<Rightarrow> string \<Rightarrow> string + workspace_layout option" where
  "focusTabInLayout layout tabId = (case findPaneContainingTab (wl_root layout) tabId of
      None \<Rightarrow> Inr None
    | Some pane \<Rightarrow>
        if sp_focusedTabId pane = Some tabId \<and> wl_focusedPaneId layout = Some (sp_id pane) \<and> \<not> sp_hidden pane
        then Inr None
        else bind_sum (focusTabInPane (wl_root layout) (sp_id pane) tabId) (\<lambda>tree.
          Inr (Some (relaid layout tree (Some (sp_id pane))))))"

definition selectTabInPaneInLayout ::
  "workspace_layout \<Rightarrow> string \<Rightarrow> string \<Rightarrow> string + workspace_layout option" where
  "selectTabInPaneInLayout layout paneId tabId = (case findPaneById (wl_root layout) (Some paneId) of
      None \<Rightarrow> Inr None
    | Some pane \<Rightarrow>
        if tabId \<notin> set (sp_tabIds pane) \<or> sp_focusedTabId pane = Some tabId then Inr None
        else bind_sum (focusTabInPane (wl_root layout) paneId tabId) (\<lambda>tree.
          Inr (Some (relaid layout tree (wl_focusedPaneId layout)))))"

definition closeTabInLayout ::
  "fresh_env \<Rightarrow> workspace_layout \<Rightarrow> string \<Rightarrow> string option \<Rightarrow> string + workspace_layout option" where
  "closeTabInLayout env layout tabId preserve = (case findPaneContainingTab (wl_root layout) tabId of
      None \<Rightarrow> Inr None
    | Some pane \<Rightarrow>
        (let preserveEmptyPaneId = or_else preserve
               (if sp_id pane = DEFAULT_PANE_ID \<or> sp_id pane = EXPLORER_SIDEBAR_PANE_ID
                then Some (sp_id pane) else None);
             closeSuccessorTabId = getCloseSuccessorTabId pane tabId (open_tab_ids (wl_root layout))
               (wl_parents layout)
         in bind_sum (findNearestSiblingPaneId (wl_root layout) (sp_id pane)) (\<lambda>fallbackPaneId.
            bind_sum (detachTabFromTree env (wl_root layout) tabId preserveEmptyPaneId) (\<lambda>detached.
              let nextRoot = dr_root detached;
                  parents = normalizeParentTabMap (wl_parents layout) (open_tab_ids nextRoot);
                  nextLayout = \<lparr>wl_root = nextRoot,
                    wl_focusedPaneId = getFocusedPaneIdAfterTabClose nextRoot (wl_focusedPaneId layout)
                      fallbackPaneId None,
                    wl_parents = parents\<rparr>
              in case truthy closeSuccessorTabId of
                   Some successor \<Rightarrow>
                     if findPaneContainingTab nextRoot successor \<noteq> None
                     then bind_sum (focusTabInLayout nextLayout successor) (\<lambda>focused.
                       let focusedLayout = default nextLayout focused
                       in Inr (Some (if parents \<noteq> None then focusedLayout\<lparr>wl_parents := parents\<rparr>
                                     else focusedLayout)))
                     else Inr (Some nextLayout)
                 | None \<Rightarrow> Inr (Some nextLayout)))))"

definition canDismissPaneInLayout :: "workspace_layout \<Rightarrow> string \<Rightarrow> string option \<Rightarrow> bool" where
  "canDismissPaneInLayout layout paneId explorerSidebarPaneId =
     (case findPaneById (wl_root layout) (Some paneId) of
        None \<Rightarrow> False
      | Some pane \<Rightarrow>
          if sp_hidden pane then False
          else let ordinaryPanes = filter (\<lambda>c. Some (sp_id c) \<noteq> explorerSidebarPaneId)
                     (collectAllPanes (wl_root layout))
               in if Some paneId = explorerSidebarPaneId then length ordinaryPanes > 0
                  else length ordinaryPanes > 1)"

definition closePaneInLayout ::
  "fresh_env \<Rightarrow> workspace_layout \<Rightarrow> string \<Rightarrow> string option \<Rightarrow> string + workspace_layout option" where
  "closePaneInLayout env layout paneId explorerSidebarPaneId =
     (case findPanePathById (wl_root layout) paneId of
        None \<Rightarrow> Inr None
      | Some panePath \<Rightarrow>
          (let visibleOrdinaryPaneIds = filter (\<lambda>x. Some x \<noteq> explorerSidebarPaneId) (listPaneIds (wl_root layout))
           in if Some paneId \<noteq> explorerSidebarPaneId \<and> length visibleOrdinaryPaneIds \<le> 1 \<and>
                 paneId \<in> set visibleOrdinaryPaneIds
              then Inr None
              else bind_sum (findNearestSiblingPaneId (wl_root layout) paneId) (\<lambda>fallbackPaneId.
                bind_sum (removePaneByPath env (wl_root layout) panePath) (\<lambda>nextRoot.
                  Inr (Some (relaid layout nextRoot (getFocusedPaneIdAfterTabClose nextRoot
                    (wl_focusedPaneId layout) fallbackPaneId explorerSidebarPaneId)))))))"

definition setPaneHiddenInLayout ::
  "workspace_layout \<Rightarrow> string \<Rightarrow> bool \<Rightarrow> string + workspace_layout option" where
  "setPaneHiddenInLayout layout paneId hidden = (case findPaneById (wl_root layout) (Some paneId) of
      None \<Rightarrow> Inr None
    | Some pane \<Rightarrow>
        if sp_hidden pane = hidden then Inr None
        else if hidden \<and> length (collectAllPanes (wl_root layout)) = 1 then Inr None
        else bind_sum (updatePaneInTree (wl_root layout) paneId (\<lambda>currentPane. currentPane\<lparr>sp_hidden := hidden\<rparr>))
          (\<lambda>tree. Inr (Some (relaid layout tree
            (if hidden \<and> wl_focusedPaneId layout = Some paneId
             then map_option sp_id (first_opt (collectAllPanes tree)) else wl_focusedPaneId layout)))))"

definition focusPaneInLayout :: "workspace_layout \<Rightarrow> string \<Rightarrow> string + workspace_layout option" where
  "focusPaneInLayout layout paneId = (case findPaneById (wl_root layout) (Some paneId) of
      None \<Rightarrow> Inr None
    | Some pane \<Rightarrow>
        if wl_focusedPaneId layout = Some paneId \<and> \<not> sp_hidden pane then Inr None
        else bind_sum (if sp_hidden pane
            then updatePaneInTree (wl_root layout) paneId (\<lambda>currentPane. currentPane\<lparr>sp_hidden := False\<rparr>)
            else Inr (wl_root layout))
          (\<lambda>tree. Inr (Some (relaid layout tree (Some paneId)))))"

definition moveTabToPaneInLayout ::
  "fresh_env \<Rightarrow> workspace_layout \<Rightarrow> string \<Rightarrow> string \<Rightarrow> string option \<Rightarrow> string + workspace_layout option" where
  "moveTabToPaneInLayout env layout tabId toPaneId explorerSidebarPaneId =
     (case (findPaneContainingTab (wl_root layout) tabId, findPaneById (wl_root layout) (Some toPaneId)) of
        (Some sourcePane, Some targetPane) \<Rightarrow>
          if sp_hidden targetPane then Inr None
          else
            (let sourceTab = find (\<lambda>tab. wt_tabId tab = tabId) (collectAllTabs (wl_root layout));
                 isMovingSoleNewTab = sp_id sourcePane \<noteq> toPaneId \<and> length (sp_tabIds sourcePane) = 1 \<and>
                   map_option wt_target sourceTab = Some NewTab
             in if isMovingSoleNewTab \<and> Some toPaneId \<noteq> explorerSidebarPaneId
                then (if Some (sp_id sourcePane) = explorerSidebarPaneId
                      then setPaneHiddenInLayout layout (sp_id sourcePane) True
                      else closePaneInLayout env layout (sp_id sourcePane) explorerSidebarPaneId)
                else bind_sum (detachTabFromTree env (wl_root layout) tabId
                    (if sp_id sourcePane = toPaneId \<or> Some (sp_id sourcePane) = explorerSidebarPaneId \<or>
                        Some toPaneId = explorerSidebarPaneId
                     then Some (sp_id sourcePane) else None)) (\<lambda>detached.
                  case dr_tab detached of
                    None \<Rightarrow> Inr None
                  | Some tab \<Rightarrow>
                      bind_sum (insertTabIntoPane (dr_root detached) toPaneId tab (Some tabId)) (\<lambda>tree.
                        Inr (Some (relaid layout tree (Some toPaneId))))))
      | _ \<Rightarrow> Inr None)"

section \<open>Opening tabs\<close>

datatype tab_placement = InPane string | Prefer string | InFocused | Ambient

definition requested_pane :: "tab_placement \<Rightarrow> string option" where
  "requested_pane placement = (case placement of InPane p \<Rightarrow> Some p | Prefer p \<Rightarrow> Some p | _ \<Rightarrow> None)"

definition resolvePlacementPane ::
  "workspace_layout \<Rightarrow> tab_target \<Rightarrow> tab_placement \<Rightarrow> string option \<Rightarrow> split_pane option" where
  "resolvePlacementPane layout target placement explorerSidebarPaneId =
     (let supportsTarget = (\<lambda>pane. panelSupportsHost (kind_of target)
            (if Some (sp_id pane) = explorerSidebarPaneId then ExplorerHost else MainHost));
          supported = (\<lambda>P candidate. case candidate of
            Some pane \<Rightarrow> if P pane \<and> supportsTarget pane then Some pane else None | None \<Rightarrow> None)
      in or_else (supported (\<lambda>_. True) (findPaneById (wl_root layout) (requested_pane placement)))
        (or_else (supported (\<lambda>pane. \<not> sp_hidden pane) (findPaneById (wl_root layout) (wl_focusedPaneId layout)))
          (or_else (find supportsTarget (collectAllPanes (wl_root layout)))
            (supported (\<lambda>_. True) (findPaneById (wl_root layout) explorerSidebarPaneId)))))"

definition insertNewTabIntoPane ::
  "workspace_layout \<Rightarrow> tab_target \<Rightarrow> rat \<Rightarrow> tab_placement \<Rightarrow> string option \<Rightarrow> string + string \<Rightarrow>
     json_value option \<Rightarrow> bool \<Rightarrow> string + (workspace_layout \<times> string) option" where
  "insertNewTabIntoPane layout target now placement explorerSidebarPaneId createTabId state focus =
     (case resolvePlacementPane layout target placement explorerSidebarPaneId of
        None \<Rightarrow> Inr None
      | Some targetPane \<Rightarrow>
          bind_sum createTabId (\<lambda>tabId.
            let nextTab = \<lparr>wt_tabId = tabId, wt_target = target, wt_createdAt = now, wt_state = state\<rparr>;
                focused = (if focus then Some (sp_id targetPane) else wl_focusedPaneId layout)
            in if isSoleNewTabPane targetPane \<and> target \<noteq> NewTab
               then bind_sum (replaceTabInTree (wl_root layout) (wt_tabId (hd (sp_tabs targetPane))) tabId
                   target state) (\<lambda>tree. Inr (Some (relaid layout tree focused, tabId)))
               else let preservedFocusTabId = or_else (sp_focusedTabId targetPane) (Some tabId)
                    in bind_sum (insertTabIntoPane (wl_root layout) (sp_id targetPane) nextTab
                        (if focus then Some tabId else preservedFocusTabId)) (\<lambda>tree.
                      Inr (Some (relaid layout tree focused, tabId)))))"

definition findExistingTabForTarget :: "split_node \<Rightarrow> tab_target \<Rightarrow> workspace_tab option" where
  "findExistingTabForTarget tree target =
     (if target = NewTab then None
      else find (\<lambda>tab. panelResourceKey (wt_target tab) = panelResourceKey target) (collectAllTabs tree))"

definition updateExistingTabTarget ::
  "workspace_layout \<Rightarrow> workspace_tab \<Rightarrow> tab_target \<Rightarrow> string + workspace_layout" where
  "updateExistingTabTarget layout tab target =
     (if workspaceTabTargetsEqual (wt_target tab) target then Inr layout
      else bind_sum (replaceTabInTree (wl_root layout) (wt_tabId tab) (wt_tabId tab) target (wt_state tab))
        (\<lambda>tree. Inr (relaid layout tree (wl_focusedPaneId layout))))"

definition revealExistingTab ::
  "fresh_env \<Rightarrow> workspace_layout \<Rightarrow> string \<Rightarrow> tab_placement \<Rightarrow> string + workspace_layout" where
  "revealExistingTab env layout tabId placement =
     (let focus = bind_sum (focusTabInLayout layout tabId) (\<lambda>focused. Inr (default layout focused))
      in case placement of
        InPane paneId \<Rightarrow>
          if map_option sp_id (findPaneContainingTab (wl_root layout) tabId) \<noteq> Some paneId
          then bind_sum (moveTabToPaneInLayout env layout tabId paneId None) (\<lambda>moved.
            case moved of Some l \<Rightarrow> Inr l | None \<Rightarrow> focus)
          else focus
      | _ \<Rightarrow> focus)"

definition openTabInLayoutFocused ::
  "fresh_env \<Rightarrow> workspace_layout \<Rightarrow> tab_target \<Rightarrow> rat \<Rightarrow> tab_placement \<Rightarrow> string option \<Rightarrow>
     string + (workspace_layout \<times> string) option" where
  "openTabInLayoutFocused env layout target now placement explorerSidebarPaneId =
     (case findExistingTabForTarget (wl_root layout) target of
        Some existingTab \<Rightarrow>
          bind_sum (updateExistingTabTarget layout existingTab target) (\<lambda>nextLayout.
          bind_sum (revealExistingTab env nextLayout (wt_tabId existingTab) placement) (\<lambda>revealed.
            Inr (Some (revealed, wt_tabId existingTab))))
      | None \<Rightarrow> insertNewTabIntoPane layout target now placement explorerSidebarPaneId
          (buildDeterministicWorkspaceTabId target) None True)"

definition createTabInLayout ::
  "workspace_layout \<Rightarrow> tab_target \<Rightarrow> rat \<Rightarrow> tab_placement \<Rightarrow> string option \<Rightarrow> string + string \<Rightarrow>
     json_value option \<Rightarrow> string + (workspace_layout \<times> string) option" where
  "createTabInLayout layout target now placement explorerSidebarPaneId createTabId state =
     insertNewTabIntoPane layout target now placement explorerSidebarPaneId createTabId state True"

definition revealTargetInLayout ::
  "fresh_env \<Rightarrow> workspace_layout \<Rightarrow> tab_target \<Rightarrow> rat \<Rightarrow> tab_placement \<Rightarrow> string option \<Rightarrow>
     json_value option \<Rightarrow> string + (workspace_layout \<times> string) option" where
  "revealTargetInLayout env layout target now placement explorerSidebarPaneId state =
     (case findExistingTabForTarget (wl_root layout) target of
        Some existingTab \<Rightarrow>
          bind_sum (updateExistingTabTarget layout existingTab target) (\<lambda>nextLayout.
          bind_sum (revealExistingTab env nextLayout (wt_tabId existingTab) placement) (\<lambda>revealed.
            Inr (Some (revealed, wt_tabId existingTab))))
      | None \<Rightarrow> createTabInLayout layout target now placement explorerSidebarPaneId
          (buildDeterministicWorkspaceTabId target) state)"

definition openTabInLayoutBackground ::
  "workspace_layout \<Rightarrow> tab_target \<Rightarrow> rat \<Rightarrow> tab_placement \<Rightarrow> string option \<Rightarrow>
     string + (workspace_layout \<times> string) option" where
  "openTabInLayoutBackground layout target now placement explorerSidebarPaneId =
     (case findExistingTabForTarget (wl_root layout) target of
        Some existingTab \<Rightarrow>
          bind_sum (updateExistingTabTarget layout existingTab target) (\<lambda>nextLayout.
            Inr (Some (nextLayout, wt_tabId existingTab)))
      | None \<Rightarrow> insertNewTabIntoPane layout target now placement explorerSidebarPaneId
          (buildDeterministicWorkspaceTabId target) None False)"

section \<open>Replacing the target of a tab\<close>

definition find_tab_by_id :: "split_node \<Rightarrow> string \<Rightarrow> workspace_tab option" where
  "find_tab_by_id tree tabId = find (\<lambda>tab. wt_tabId tab = tabId) (collectAllTabs tree)"

text \<open>Close one tab and focus another, as two of the operations below do.\<close>

definition close_then_focus ::
  "fresh_env \<Rightarrow> workspace_layout \<Rightarrow> string \<Rightarrow> string \<Rightarrow> string + workspace_layout" where
  "close_then_focus env layout tabId focusId =
     bind_sum (closeTabInLayout env layout tabId None) (\<lambda>closed.
       let nextLayout = default layout closed
       in bind_sum (focusTabInLayout nextLayout focusId) (\<lambda>focused. Inr (default nextLayout focused)))"

definition retargetTabInLayout ::
  "fresh_env \<Rightarrow> workspace_layout \<Rightarrow> string \<Rightarrow> tab_target \<Rightarrow> string + (workspace_layout \<times> string) option" where
  "retargetTabInLayout env layout tabId target =
     (if findPaneContainingTab (wl_root layout) tabId = None then Inr None
      else let currentTab = find_tab_by_id (wl_root layout) tabId in
        if (case currentTab of Some tab \<Rightarrow> workspaceTabTargetsEqual (wt_target tab) target | None \<Rightarrow> False)
        then Inr (Some (layout, tabId))
        else case find (\<lambda>tab. wt_tabId tab \<noteq> tabId \<and> workspaceTabTargetsEqual (wt_target tab) target)
            (collectAllTabs (wl_root layout)) of
          Some existingTargetTab \<Rightarrow>
            bind_sum (close_then_focus env layout tabId (wt_tabId existingTargetTab)) (\<lambda>l.
              Inr (Some (l, wt_tabId existingTargetTab)))
        | None \<Rightarrow>
            bind_sum (if map_option (kind_of \<circ> wt_target) currentTab = Some KDraft then Inr tabId
                      else buildDeterministicWorkspaceTabId target) (\<lambda>nextTabId.
            bind_sum (replaceTabInTree (wl_root layout) tabId nextTabId target None) (\<lambda>tree.
              Inr (Some (relaid layout tree (wl_focusedPaneId layout), nextTabId)))))"

definition transferReplacedTabParent ::
  "(string, string) js_map option \<Rightarrow> string \<Rightarrow> string \<Rightarrow> (string, string) js_map option" where
  "transferReplacedTabParent parents replacedTabId replacementTabId = (case parents of
      None \<Rightarrow> None
    | Some entries \<Rightarrow>
        (let rename = (\<lambda>i. if i = replacedTabId then replacementTabId else i);
             renamed = fold (\<lambda>(childTabId, currentParentTabId) m.
               if childTabId = replacedTabId then m
               else AList.update childTabId (rename currentParentTabId) m) entries [];
             withParent = (case truthy (map_of entries replacedTabId) of
               Some parentTabId \<Rightarrow> AList.update replacementTabId (rename parentTabId) renamed
             | None \<Rightarrow> renamed)
         in if withParent = [] then None else Some withParent))"

definition replaceTabTargetInLayout ::
  "workspace_layout \<Rightarrow> string \<Rightarrow> tab_target \<Rightarrow> string \<Rightarrow> json_value option \<Rightarrow>
     string + (workspace_layout \<times> string) option" where
  "replaceTabTargetInLayout layout tabId target createdTabId state =
     (if findPaneContainingTab (wl_root layout) tabId = None then Inr None
      else let currentTab = find_tab_by_id (wl_root layout) tabId;
               currentKind = map_option (kind_of \<circ> wt_target) currentTab in
        if (case currentTab of Some tab \<Rightarrow> workspaceTabTargetsEqual (wt_target tab) target | None \<Rightarrow> False)
        then (if state = None then Inr (Some (layout, tabId))
              else bind_sum (replaceTabInTree (wl_root layout) tabId tabId target state) (\<lambda>tree.
                Inr (Some (relaid layout tree (wl_focusedPaneId layout), tabId))))
        else bind_sum
          (if currentKind = Some KNewTab \<or> currentKind = Some KDraft \<or> currentKind = Some (kind_of target)
           then Inr tabId
           else if kind_of target = KDraft then buildDeterministicWorkspaceTabId target
           else Inr createdTabId) (\<lambda>nextTabId.
          let parents = transferReplacedTabParent (wl_parents layout) tabId nextTabId;
              nextState = (if state \<noteq> None then state
                else if currentKind = Some (kind_of target) then Option.bind currentTab wt_state else None)
          in bind_sum (replaceTabInTree (wl_root layout) tabId nextTabId target nextState) (\<lambda>tree.
            Inr (Some (relaid (layout\<lparr>wl_parents := parents\<rparr>) tree (wl_focusedPaneId layout), nextTabId)))))"

definition setTabStateInLayout ::
  "workspace_layout \<Rightarrow> string \<Rightarrow> json_value option \<Rightarrow> string + workspace_layout option" where
  "setTabStateInLayout layout tabId state = (case find_tab_by_id (wl_root layout) tabId of
      None \<Rightarrow> Inr None
    | Some tab \<Rightarrow>
        bind_sum (replaceTabInTree (wl_root layout) (wt_tabId tab) (wt_tabId tab) (wt_target tab) state) (\<lambda>tree.
          Inr (Some (relaid layout tree (wl_focusedPaneId layout)))))"

definition convertDraftToAgentInLayout ::
  "fresh_env \<Rightarrow> workspace_layout \<Rightarrow> string \<Rightarrow> string \<Rightarrow> string + (workspace_layout \<times> string) option" where
  "convertDraftToAgentInLayout env layout tabId agentId =
     (case find_tab_by_id (wl_root layout) tabId of
        None \<Rightarrow> Inr None
      | Some currentTab \<Rightarrow>
          if kind_of (wt_target currentTab) \<noteq> KDraft then Inr None
          else bind_sum (buildDeterministicWorkspaceTabId (AgentTab agentId)) (\<lambda>canonicalTabId.
            if find_tab_by_id (wl_root layout) canonicalTabId \<noteq> None \<and> canonicalTabId \<noteq> tabId
            then bind_sum (close_then_focus env layout tabId canonicalTabId) (\<lambda>l.
              Inr (Some (l, canonicalTabId)))
            else bind_sum (replaceTabInTree (wl_root layout) tabId canonicalTabId (AgentTab agentId) None) (\<lambda>tree.
              Inr (Some (relaid layout tree (wl_focusedPaneId layout), canonicalTabId)))))"

section \<open>Splitting, resizing and reordering\<close>

definition splitPaneInLayout ::
  "fresh_env \<Rightarrow> (node_id_prefix \<Rightarrow> string) \<Rightarrow> workspace_layout \<Rightarrow> string \<Rightarrow> string \<Rightarrow> split_position \<Rightarrow> nat \<Rightarrow>
     string + (workspace_layout \<times> string) option" where
  "splitPaneInLayout env createNodeId layout tabId targetPaneId position maxTreeDepth =
     (if findPaneById (wl_root layout) (Some targetPaneId) = None then Inr None
      else if findPaneContainingTab (wl_root layout) tabId = None then Inr None
      else bind_sum (insertSplitInternal env createNodeId (wl_root layout) targetPaneId tabId position)
        (\<lambda>(tree, newPaneId).
          if getTreeDepth tree > maxTreeDepth then Inr None
          else Inr (Some (relaid layout tree (Some newPaneId), newPaneId))))"

definition splitPaneEmptyInLayout ::
  "fresh_env \<Rightarrow> (node_id_prefix \<Rightarrow> string) \<Rightarrow> workspace_layout \<Rightarrow> string \<Rightarrow> split_position \<Rightarrow> nat \<Rightarrow>
     string + (workspace_layout \<times> string) option" where
  "splitPaneEmptyInLayout env createNodeId layout targetPaneId position maxTreeDepth =
     (if findPaneById (wl_root layout) (Some targetPaneId) = None then Inr None
      else case findPanePathById (wl_root layout) targetPaneId of
        None \<Rightarrow> Inl (''Target pane not found: '' @ targetPaneId)
      | Some targetPath \<Rightarrow>
          bind_sum (getNodeAtPath (wl_root layout) targetPath) (\<lambda>targetNode. case targetNode of
            Group _ _ _ _ \<Rightarrow> Inl ''Expected target pane''
          | Pane _ \<Rightarrow>
              (let newPaneId = createNodeId PanePrefix;
                   newPaneNode = createPaneNode newPaneId [new_tab_of env] None False
               in bind_sum (split_beside createNodeId (wl_root layout) targetPath targetNode newPaneNode position)
                 (\<lambda>tree. if getTreeDepth tree > maxTreeDepth then Inr None
                    else Inr (Some (relaid layout tree (Some newPaneId), newPaneId))))))"

definition splitWorkspaceRootRightInLayout ::
  "fresh_env \<Rightarrow> (node_id_prefix \<Rightarrow> string) \<Rightarrow> workspace_layout \<Rightarrow> nat \<Rightarrow> (workspace_layout \<times> string) option" where
  "splitWorkspaceRootRightInLayout env createNodeId layout maxTreeDepth =
     (let paneId = createNodeId PanePrefix;
          tree = createGroupNode (createNodeId GroupPrefix) Horizontal
            [wl_root layout, createPaneNode paneId [new_tab_of env] None False] (Some [7 / 10, 3 / 10])
      in if getTreeDepth tree > maxTreeDepth then None
         else Some (relaid layout tree (Some paneId), paneId))"

definition resizeSplitInLayout :: "workspace_layout \<Rightarrow> string \<Rightarrow> rat list \<Rightarrow> string + workspace_layout" where
  "resizeSplitInLayout layout groupId sizes =
     bind_sum (updateGroupSizesInTree (wl_root layout) groupId sizes) (\<lambda>tree.
       Inr (relaid layout tree (wl_focusedPaneId layout)))"

definition reorderPaneTabsInLayout ::
  "workspace_layout \<Rightarrow> string \<Rightarrow> string list \<Rightarrow> string + workspace_layout option" where
  "reorderPaneTabsInLayout layout paneId tabIds =
     (if findPaneById (wl_root layout) (Some paneId) = None then Inr None
      else bind_sum (updatePaneInTree (wl_root layout) paneId (\<lambda>pane. reorderTabsForPane pane tabIds)) (\<lambda>tree.
        Inr (Some (relaid layout tree (wl_focusedPaneId layout)))))"

definition reorderFocusedPaneTabsInLayout ::
  "workspace_layout \<Rightarrow> string list \<Rightarrow> string + workspace_layout option" where
  "reorderFocusedPaneTabsInLayout layout tabIds = (case truthy (wl_focusedPaneId layout) of
      None \<Rightarrow> Inr None
    | Some paneId \<Rightarrow>
        if findPaneById (wl_root layout) (Some paneId) = None then Inr None
        else bind_sum (updatePaneInTree (wl_root layout) paneId (\<lambda>pane. reorderTabsForPane pane tabIds)) (\<lambda>tree.
          Inr (Some (relaid layout tree (wl_focusedPaneId layout)))))"

end
