(* ===== verification/Layout_Invariant.thy ===== *)
theory Layout_Invariant
  imports Layout_Ops
begin

text \<open>
  Every operation on a well-formed layout returns (no \<open>invariant\<close> fails) and gives a well-formed
  layout, provided that the identifiers it is given are fresh.
\<close>

section \<open>Well-formed layouts\<close>

definition parents_ok :: "(string, string) js_map option \<Rightarrow> string set \<Rightarrow> bool" where
  "parents_ok parents tabIds \<longleftrightarrow> (case parents of
      None \<Rightarrow> True
    | Some m \<Rightarrow> m \<noteq> [] \<and> distinct (map fst m) \<and> (\<forall>(c, p)\<in>set m. c \<noteq> p \<and> c \<in> tabIds \<and> p \<in> tabIds))"

definition wf_layout :: "workspace_layout \<Rightarrow> bool" where
  "wf_layout l \<longleftrightarrow> wf_tree (wl_root l) \<and> parents_ok (wl_parents l) (open_tab_ids (wl_root l))"

lemma open_tab_ids_panes: "open_tab_ids n = set (tab_ids (panes n))"
  by (simp only: open_tab_ids_def tab_ids_collect)

lemma normalizeParentTabMap_ok: "parents_ok (normalizeParentTabMap raw ids) ids"
proof (cases raw)
  case (Some entries)
  define ok where "ok m \<longleftrightarrow> distinct (map fst m) \<and> (\<forall>(c, p)\<in>set m. c \<noteq> p \<and> c \<in> ids \<and> p \<in> ids)"
    for m :: "(string, string) js_map"
  let ?step = "\<lambda>(rawChildId, rawParentId) m. case (trimNonEmpty (Some rawChildId), trimNonEmpty (Some rawParentId)) of
      (Some childId, Some parentId) \<Rightarrow>
        if childId = parentId \<or> childId \<notin> ids \<or> parentId \<notin> ids then m else AList.update childId parentId m
    | _ \<Rightarrow> m"
  have sub: "set (AList.update k v m) \<subseteq> insert (k, v) (set m)" for k v and m :: "(string, string) js_map"
    by (induction m) auto
  have upd: "ok (AList.update c p m)" if "ok m" "c \<noteq> p" "c \<in> ids" "p \<in> ids" for c p m
    using that sub [of c p m] by (auto simp: ok_def distinct_update)
  have "ok (fold ?step entries m)" if "ok m" for m
    using that
  proof (induction entries arbitrary: m)
    case (Cons e es)
    obtain c p where e: "e = (c, p)" by (cases e)
    have "ok (?step e m)" using Cons.prems by (auto simp: e intro: upd split: option.split)
    from Cons.IH [OF this] show ?case by simp
  qed simp
  from this [of "[]"] Some show ?thesis by (simp add: normalizeParentTabMap_def parents_ok_def ok_def Let_def)
qed (simp add: normalizeParentTabMap_def parents_ok_def)

lemma relaid_fields [simp]: "wl_root (relaid l n f) = n" "wl_focusedPaneId (relaid l n f) = f"
  by (simp_all add: relaid_def withNormalizedParentTabMap_def)

lemma wf_relaid: "wf_tree n \<Longrightarrow> wf_layout (relaid l n f)"
  by (simp add: wf_layout_def relaid_def withNormalizedParentTabMap_def normalizeLayoutParentTabMap_def
      normalizeParentTabMap_ok)

lemma wf_layoutD: "wf_layout l \<Longrightarrow> wf_tree (wl_root l)" "wf_layout l \<Longrightarrow> panes_ok (panes (wl_root l))"
  "wf_layout l \<Longrightarrow> shape (wl_root l)"
  by (simp_all add: wf_layout_def wf_tree_def)

section \<open>What the lookups find\<close>

lemma containing_Some: "findPaneContainingTab n i = Some p \<Longrightarrow> p \<in> set (panes n) \<and> i \<in> set (map wt_tabId (sp_tabs p))"
  by (auto simp: findPaneContainingTab_def find_pane_panes find_Some_iff list_ex_iff)

lemma containing_None: "findPaneContainingTab n i = None \<longleftrightarrow> i \<notin> set (tab_ids (panes n))"
  by (auto simp: findPaneContainingTab_def find_pane_panes find_None_iff list_ex_iff mem_tab_ids)

lemma containing_iff:
  assumes "panes_ok (panes n)" and "p \<in> set (panes n)" and "i \<in> set (map wt_tabId (sp_tabs p))"
  shows "findPaneContainingTab n i = Some p"
proof (cases "findPaneContainingTab n i")
  case None
  with assms(2,3) show ?thesis by (auto simp: containing_None mem_tab_ids)
next
  case (Some q)
  from containing_Some [OF this] pane_of_tab_unique [OF assms(1) _ assms(2) _ assms(3)] Some show ?thesis by auto
qed

lemma by_id_Some: "findPaneById n x = Some p \<Longrightarrow> p \<in> set (panes n) \<and> x = Some (sp_id p)"
  by (auto simp: findPaneById_def find_pane_panes find_Some_iff truthy_def split: option.splits if_splits)

lemma by_id_None: "findPaneById n (Some x) = None \<longleftrightarrow> x = [] \<or> x \<notin> set (map sp_id (panes n))"
  by (auto simp: findPaneById_def find_pane_panes find_None_iff truthy_def)

lemma find_tab_Some: "find_tab_by_id n i = Some t \<Longrightarrow> t \<in> set (collectAllTabs n) \<and> wt_tabId t = i"
  by (auto simp: find_tab_by_id_def find_Some_iff)

lemma tab_in_pane: "t \<in> set (collectAllTabs n) \<Longrightarrow> \<exists>p\<in>set (panes n). t \<in> set (sp_tabs p)"
  by (auto simp: collectAllTabs_panes)

lemma nearest_ok: "\<exists>r. findNearestSiblingPaneId n x = Inr r"
proof (cases "findPanePathById n x")
  case (Some path)
  with pane_path_SomeD(1) [OF Some] nearest_sibling_spec [of n path _ "length path"] show ?thesis
    by (auto simp: findNearestSiblingPaneId_def)
qed (simp add: findNearestSiblingPaneId_def)

section \<open>Each operation\<close>

definition returns_wf :: "string + workspace_layout option \<Rightarrow> bool" where
  "returns_wf result \<longleftrightarrow> (\<exists>r. result = Inr r \<and> (\<forall>l. r = Some l \<longrightarrow> wf_layout l))"

definition returns_wf_id :: "string + (workspace_layout \<times> string) option \<Rightarrow> bool" where
  "returns_wf_id result \<longleftrightarrow> (\<exists>r. result = Inr r \<and> (\<forall>l i. r = Some (l, i) \<longrightarrow> wf_layout l))"

lemma returns_simps [simp]:
  "returns_wf (Inr None)" "returns_wf (Inr (Some l)) \<longleftrightarrow> wf_layout l" "\<not> returns_wf (Inl e)"
  "returns_wf_id (Inr None)" "returns_wf_id (Inr (Some (l, i))) \<longleftrightarrow> wf_layout l" "\<not> returns_wf_id (Inl e)"
  by (simp_all add: returns_wf_def returns_wf_id_def)

lemma bind_returns:
  "\<exists>m. c = Inr m \<and> P m \<Longrightarrow> (\<And>m. P m \<Longrightarrow> returns_wf (f m)) \<Longrightarrow> returns_wf (bind_sum c f)"
  "\<exists>m. c = Inr m \<and> P m \<Longrightarrow> (\<And>m. P m \<Longrightarrow> returns_wf_id (g m)) \<Longrightarrow> returns_wf_id (bind_sum c g)"
  by auto

lemma set_pane_tab_ids:
  assumes "panes_ok ps" and "p \<in> set ps" and "sp_id p' = sp_id p"
    and "map wt_tabId (sp_tabs p') = map wt_tabId (sp_tabs p)"
  shows "tab_ids (set_pane p' ps) = tab_ids ps"
proof -
  from splitsE [OF assms(2)] obtain xs ys where ps: "ps = xs @ p # ys" .
  with assms set_pane_split [of xs p ys p'] show ?thesis by (simp add: panes_ok_def)
qed

lemma focusTab_ok: "wf_layout l \<Longrightarrow> returns_wf (focusTabInLayout l i)"
proof (cases "findPaneContainingTab (wl_root l) i")
  case (Some p)
  assume wf: "wf_layout l"
  with containing_Some [OF Some] focus_spec [of "wl_root l" p i] Some show ?thesis
    by (auto simp: focusTabInLayout_def wf_layoutD intro: wf_relaid)
qed (simp add: focusTabInLayout_def)

lemma selectTab_ok: "wf_layout l \<Longrightarrow> returns_wf (selectTabInPaneInLayout l x i)"
proof (cases "findPaneById (wl_root l) (Some x)")
  case (Some p)
  assume wf: "wf_layout l"
  from by_id_Some [OF Some] have p: "p \<in> set (panes (wl_root l))" "sp_id p = x" by auto
  show ?thesis
  proof (cases "i \<in> set (sp_tabIds p)")
    case True
    with pane_of_mem [OF wf_layoutD(2) [OF wf] p(1)] have "i \<in> set (map wt_tabId (sp_tabs p))"
      by (auto simp: pane_ok_def)
    with wf p focus_spec [of "wl_root l" p i] Some show ?thesis
      by (auto simp: selectTabInPaneInLayout_def wf_layoutD intro: wf_relaid)
  qed (simp add: selectTabInPaneInLayout_def Some)
qed (simp add: selectTabInPaneInLayout_def)

text \<open>What a detached tree keeps.\<close>

lemma detach_frame:
  assumes wf: "wf_tree n" and fresh: "fresh_for env n"
    and p: "p \<in> set (panes n)" and i: "i \<in> set (map wt_tabId (sp_tabs p))"
  obtains r t where
    "detachTabFromTree env n i preserve = Inr \<lparr>dr_root = r, dr_tab = Some t, dr_sourcePaneId = Some (sp_id p)\<rparr>"
    "t \<in> set (sp_tabs p)" "wt_tabId t = i" "wf_tree r" "i \<notin> set (tab_ids (panes r))"
    "set (tab_ids (panes r)) \<subseteq> insert (wt_tabId (new_tab_of env)) (set (tab_ids (panes n)))"
    "set (map sp_id (panes r)) \<subseteq> set (map sp_id (panes n))"
    "\<forall>q\<in>set (panes n). q \<noteq> p \<longrightarrow> q \<in> set (panes r)"
    "preserve = Some (sp_id p) \<longrightarrow> sp_id p \<in> set (map sp_id (panes r))"
proof -
  obtain r t xs ys ps where d:
    "detachTabFromTree env n i preserve = Inr \<lparr>dr_root = r, dr_tab = Some t, dr_sourcePaneId = Some (sp_id p)\<rparr>"
    "t \<in> set (sp_tabs p)" "wt_tabId t = i" "panes n = xs @ p # ys" "panes r = xs @ ps @ ys" "wf_tree r"
    "sp_tabs (without_tab p i) \<noteq> [] \<and> ps = [without_tab p i] \<or>
     sp_tabs (without_tab p i) = [] \<and> preserve \<noteq> Some (sp_id p) \<and> ps = [] \<and> xs @ ys \<noteq> [] \<or>
     sp_tabs (without_tab p i) = [] \<and> (preserve = Some (sp_id p) \<or> xs @ ys = []) \<and>
       (\<exists>q. ps = [q] \<and> sp_id q = sp_id p \<and> sp_tabs q = [new_tab_of env])"
    by (rule detach_spec [OF wf fresh p i])
  have ok: "panes_ok (panes n)" and pane: "pane_ok p" using wf p by (simp_all add: wf_tree_def panes_ok_def)
  have ps: "set (tab_ids ps) \<subseteq> insert (wt_tabId (new_tab_of env)) (set (map wt_tabId (sp_tabs p)) - {i})"
    using d(7) by (auto simp: sp_tabs_without [OF pane])
  have out: "i \<notin> set (tab_ids xs)" "i \<notin> set (tab_ids ys)"
    using ok i by (auto simp: d(4) panes_ok_def)
  have "wt_tabId (new_tab_of env) \<noteq> i" using fresh i p by (auto simp: fresh_for_def mem_tab_ids)
  then have "i \<notin> set (tab_ids (panes r))" using ps out by (auto simp: d(5))
  moreover have "set (tab_ids (panes r)) \<subseteq> insert (wt_tabId (new_tab_of env)) (set (tab_ids (panes n)))"
    using ps by (auto simp: d(4,5))
  moreover have "set (map sp_id (panes r)) \<subseteq> set (map sp_id (panes n))" using d(7) by (auto simp: d(4,5))
  moreover have "\<forall>q\<in>set (panes n). q \<noteq> p \<longrightarrow> q \<in> set (panes r)" by (auto simp: d(4,5))
  moreover have "preserve = Some (sp_id p) \<longrightarrow> sp_id p \<in> set (map sp_id (panes r))" using d(7) by (auto simp: d(5))
  ultimately show thesis using that [OF d(1,2,3,6)] by blast
qed

lemma closeTab_ok: "wf_layout l \<Longrightarrow> fresh_for env (wl_root l) \<Longrightarrow> returns_wf (closeTabInLayout env l i preserve)"
proof (cases "findPaneContainingTab (wl_root l) i")
  case (Some p)
  assume wf: "wf_layout l" and fresh: "fresh_for env (wl_root l)"
  let ?pres = "or_else preserve (if sp_id p = DEFAULT_PANE_ID \<or> sp_id p = EXPLORER_SIDEBAR_PANE_ID
    then Some (sp_id p) else None)"
  from containing_Some [OF Some] detach_frame [OF wf_layoutD(1) [OF wf] fresh, of p i ?pres] obtain r t where
    r: "detachTabFromTree env (wl_root l) i ?pres =
      Inr \<lparr>dr_root = r, dr_tab = Some t, dr_sourcePaneId = Some (sp_id p)\<rparr>" "wf_tree r" by metis
  from nearest_ok [of "wl_root l" "sp_id p"] obtain f where
    f: "findNearestSiblingPaneId (wl_root l) (sp_id p) = Inr f" by blast
  let ?parents = "normalizeParentTabMap (wl_parents l) (open_tab_ids r)"
  let ?next = "\<lparr>wl_root = r, wl_focusedPaneId = getFocusedPaneIdAfterTabClose r (wl_focusedPaneId l) f None,
    wl_parents = ?parents\<rparr>"
  have next_wf: "wf_layout ?next" using r(2) by (simp add: wf_layout_def normalizeParentTabMap_ok)
  have focused: "wf_layout (if ?parents \<noteq> None then (default ?next l')\<lparr>wl_parents := ?parents\<rparr> else default ?next l')"
    if "focusTabInLayout ?next s = Inr l'" for s l'
  proof (cases l')
    case (Some m)
    with that focusTab_ok [OF next_wf, of s] have "wf_layout m" by simp
    moreover have "open_tab_ids (wl_root m) = open_tab_ids r"
    proof -
      from that Some obtain q where q: "findPaneContainingTab r s = Some q" "focusTabInPane r (sp_id q) s = Inr (wl_root m)"
        by (auto simp: focusTabInLayout_def bind_sum_Inr split: option.splits if_splits)
      from containing_Some [OF q(1)] focus_spec [OF r(2), of q s] q(2)
      have "panes (wl_root m) = set_pane (focused_on q s) (panes r)" and q': "q \<in> set (panes r)" by auto
      moreover have ok: "panes_ok (panes r)" using r(2) by (simp add: wf_tree_def)
      moreover have "sp_tabs (focused_on q s) = sp_tabs q" "sp_id (focused_on q s) = sp_id q"
        using focused_on_fields [OF pane_of_mem(1) [OF ok q']] containing_Some [OF q(1)] by auto
      ultimately show ?thesis using set_pane_tab_ids [OF ok q', of "focused_on q s"] by (simp add: open_tab_ids_panes)
    qed
    ultimately show ?thesis using Some by (auto simp: wf_layout_def normalizeParentTabMap_ok)
  next
    case None
    with next_wf show ?thesis by (cases "?parents = None") simp_all
  qed
  have total: "\<exists>l'. focusTabInLayout ?next s = Inr l'" for s
    using focusTab_ok [OF next_wf, of s] by (auto simp: returns_wf_def)
  show ?thesis
  proof (cases "truthy (getCloseSuccessorTabId p i (open_tab_ids (wl_root l)) (wl_parents l))")
    case None
    then show ?thesis using next_wf by (simp add: closeTabInLayout_def Some r(1) f Let_def)
  next
    case (Some s)
    from total [of s] obtain l' where "focusTabInLayout ?next s = Inr l'" by blast
    with focused [OF this] next_wf show ?thesis
      by (cases "?parents = None")
        (simp_all add: closeTabInLayout_def \<open>findPaneContainingTab (wl_root l) i = Some p\<close> r(1) f Some Let_def
          del: not_None_eq)
  qed
qed (simp add: closeTabInLayout_def)

lemma remove_pane_wf:
  assumes wf: "wf_tree n" and fresh: "tab_ok (new_tab_of env)" and path: "findPanePathById n x = Some path"
  shows "\<exists>r. removePaneByPath env n path = Inr r \<and> wf_tree r"
proof -
  from pane_path_SomeD(1) [OF path] obtain p where p: "getNodeAtPath n path = Inr (Pane p)" "sp_id p = x" by blast
  have ok: "panes_ok (panes n)" and sh: "shape n" using wf by (simp_all add: wf_tree_def)
  show ?thesis
  proof (cases "path = []")
    case True
    with p have n: "n = Pane p" by simp
    obtain q where "createPaneNode (sp_id p) [new_tab_of env] None False = Pane q" "pane_ok q" "sp_id q = sp_id p"
      "sp_tabs q = [new_tab_of env]"
      using pane_ok_create [of "sp_id p" "[new_tab_of env]" None False] fresh
      by (auto simp: normalizeWorkspaceTabs_id)
    with True n ok show ?thesis by (simp add: removePaneByPath_def wf_tree_def panes_ok_def)
  next
    case False
    from remove_at [OF sh p(1) False] obtain r where
      r: "removePaneByPath env n path = Inr r" "shape r" "panes r = pre n path @ post n path" by blast
    have "panes n = pre n path @ p # post n path" using panes_at [OF p(1)] by simp
    with r(3) ok drop_pane_split [of "pre n path" p "post n path"] have "panes r = drop_pane (sp_id p) (panes n)"
      by (simp add: panes_ok_def)
    with r panes_ok_drop [OF ok, of "sp_id p"] show ?thesis by (simp add: wf_tree_def)
  qed
qed

lemma closePane_ok:
  "wf_layout l \<Longrightarrow> tab_ok (new_tab_of env) \<Longrightarrow> returns_wf (closePaneInLayout env l x explorer)"
proof (cases "findPanePathById (wl_root l) x")
  case (Some path)
  assume wf: "wf_layout l" and fresh: "tab_ok (new_tab_of env)"
  from remove_pane_wf [OF wf_layoutD(1) [OF wf] fresh Some] nearest_ok [of "wl_root l" x] show ?thesis
    by (auto simp: closePaneInLayout_def Some Let_def intro: wf_relaid)
qed (simp add: closePaneInLayout_def)

lemma hidden_same_tabs:
  assumes "pane_ok p"
  shows "normalizeWorkspaceTabs (sp_tabs (p\<lparr>sp_hidden := h\<rparr>)) = sp_tabs p"
  using assms by (auto simp: pane_ok_def intro!: normalizeWorkspaceTabs_id)

lemma set_hidden_wf:
  assumes "wf_layout l" and "p \<in> set (panes (wl_root l))"
  shows "\<exists>r. updatePaneInTree (wl_root l) (sp_id p) (\<lambda>c. c\<lparr>sp_hidden := h\<rparr>) = Inr r \<and> wf_tree r"
proof -
  note pane = pane_of_mem [OF wf_layoutD(2) [OF assms(1)] assms(2)]
  from update_pane_spec [OF wf_layoutD(1) [OF assms(1)] assms(2), of "\<lambda>c. c\<lparr>sp_hidden := h\<rparr>"]
  show ?thesis using pane hidden_same_tabs [OF pane(1), of h] by auto
qed

lemma setHidden_ok: "wf_layout l \<Longrightarrow> returns_wf (setPaneHiddenInLayout l x h)"
proof (cases "findPaneById (wl_root l) (Some x)")
  case (Some p)
  assume wf: "wf_layout l"
  from by_id_Some [OF Some] have p: "p \<in> set (panes (wl_root l))" "sp_id p = x" by auto
  from set_hidden_wf [OF wf p(1), of h] p(2) show ?thesis
    by (auto simp: setPaneHiddenInLayout_def Some intro: wf_relaid)
qed (simp add: setPaneHiddenInLayout_def)

lemma focusPane_ok: "wf_layout l \<Longrightarrow> returns_wf (focusPaneInLayout l x)"
proof (cases "findPaneById (wl_root l) (Some x)")
  case (Some p)
  assume wf: "wf_layout l"
  from by_id_Some [OF Some] have p: "p \<in> set (panes (wl_root l))" "sp_id p = x" by auto
  from set_hidden_wf [OF wf p(1), of False] p(2) wf show ?thesis
    by (auto simp: focusPaneInLayout_def Some wf_layoutD intro: wf_relaid)
qed (simp add: focusPaneInLayout_def)

lemma tab_ok_of_pane: "panes_ok (panes n) \<Longrightarrow> p \<in> set (panes n) \<Longrightarrow> t \<in> set (sp_tabs p) \<Longrightarrow> tab_ok t"
  by (auto simp: panes_ok_def pane_ok_def)

lemma moveTab_ok:
  "wf_layout l \<Longrightarrow> fresh_for env (wl_root l) \<Longrightarrow> returns_wf (moveTabToPaneInLayout env l i x explorer)"
proof (cases "findPaneContainingTab (wl_root l) i"; cases "findPaneById (wl_root l) (Some x)")
  fix p q
  assume wf: "wf_layout l" and fresh: "fresh_for env (wl_root l)"
    and src: "findPaneContainingTab (wl_root l) i = Some p" and tgt: "findPaneById (wl_root l) (Some x) = Some q"
  let ?n = "wl_root l"
  have ok: "panes_ok (panes ?n)" using wf_layoutD(2) [OF wf] .
  have new: "tab_ok (new_tab_of env)" using fresh by (simp add: fresh_for_def)
  note p = containing_Some [OF src, THEN conjunct1] containing_Some [OF src, THEN conjunct2]
  from by_id_Some [OF tgt] have q: "q \<in> set (panes ?n)" "sp_id q = x" by auto
  let ?pres = "if sp_id p = x \<or> Some (sp_id p) = explorer \<or> Some x = explorer then Some (sp_id p) else None"
  from detach_frame [OF wf_layoutD(1) [OF wf] fresh p, of ?pres] obtain r t where
    r: "detachTabFromTree env ?n i ?pres = Inr \<lparr>dr_root = r, dr_tab = Some t, dr_sourcePaneId = Some (sp_id p)\<rparr>"
    "t \<in> set (sp_tabs p)" "wt_tabId t = i" "wf_tree r" "i \<notin> set (tab_ids (panes r))"
    "\<forall>q\<in>set (panes ?n). q \<noteq> p \<longrightarrow> q \<in> set (panes r)"
    "?pres = Some (sp_id p) \<longrightarrow> sp_id p \<in> set (map sp_id (panes r))" by metis
  have "\<exists>q'\<in>set (panes r). sp_id q' = x"
  proof (cases "q = p")
    case True
    with q r(7) show ?thesis by auto
  qed (use q r(6) in auto)
  then obtain q' where "q' \<in> set (panes r)" "sp_id q' = x" by blast
  with insert_spec [OF r(4), of q' t "Some i"] tab_ok_of_pane [OF ok p(1) r(2)] r(3,5) obtain m where
    m: "insertTabIntoPane r x t (Some i) = Inr m" "wf_tree m" by auto
  show ?thesis
    using setHidden_ok [OF wf, of "sp_id p" True] closePane_ok [OF wf new, of "sp_id p" explorer] m wf_relaid [OF m(2)]
    by (simp add: moveTabToPaneInLayout_def src tgt r(1) Let_def)
qed (simp_all add: moveTabToPaneInLayout_def)

section \<open>Opening\<close>

lemma resolve_mem: "resolvePlacementPane l target pl explorer = Some p \<Longrightarrow> p \<in> set (panes (wl_root l))"
  by (auto simp: resolvePlacementPane_def Let_def or_else_def collectAllPanes_panes find_Some_iff
      dest!: by_id_Some nth_mem split: option.splits if_splits)

text \<open>A tab may be given the id \<open>j\<close>: it is trimmed, not empty and not in use.\<close>

definition free_id :: "string + string \<Rightarrow> split_node \<Rightarrow> bool" where
  "free_id created n \<longleftrightarrow> (case created of
     Inl _ \<Rightarrow> False | Inr j \<Rightarrow> trim j = j \<and> j \<noteq> [] \<and> j \<notin> set (tab_ids (panes n)))"

lemma insertNew_ok:
  assumes wf: "wf_layout l" and target: "normalizeWorkspaceTabTarget target = Some target"
    and free: "free_id created (wl_root l)"
  shows "returns_wf_id (insertNewTabIntoPane l target now pl explorer created state focus)"
proof (cases "resolvePlacementPane l target pl explorer")
  case (Some p)
  let ?n = "wl_root l"
  from free obtain j where j: "created = Inr j" "trim j = j" "j \<noteq> []" "j \<notin> set (tab_ids (panes ?n))"
    by (auto simp: free_id_def split: sum.splits)
  have p: "p \<in> set (panes ?n)" by (rule resolve_mem [OF Some])
  note pane = pane_of_mem [OF wf_layoutD(2) [OF wf] p]
  let ?t = "\<lparr>wt_tabId = j, wt_target = target, wt_createdAt = now, wt_state = state\<rparr>"
  have "wt_tabId (hd (sp_tabs p)) \<in> set (map wt_tabId (sp_tabs p))" using pane(2) by simp
  with replace_tab_spec [OF wf_layoutD(1) [OF wf] p _ target j(2,3), of "wt_tabId (hd (sp_tabs p))" state] j(4)
  obtain r where r: "replaceTabInTree ?n (wt_tabId (hd (sp_tabs p))) j target state = Inr r" "wf_tree r" by auto
  have "tab_ok ?t" using j target by (simp add: tab_ok_def)
  with insert_spec [OF wf_layoutD(1) [OF wf] p this] j(4) have
    ins: "\<exists>m. insertTabIntoPane ?n (sp_id p) ?t f = Inr m \<and> wf_tree m" for f by auto
  from r show ?thesis
    by (auto simp: insertNewTabIntoPane_def Some j(1) Let_def intro!: wf_relaid bind_returns(2) [OF ins])
qed (simp add: insertNewTabIntoPane_def)

lemma existing_mem: "findExistingTabForTarget n target = Some t \<Longrightarrow> t \<in> set (collectAllTabs n)"
  by (auto simp: findExistingTabForTarget_def find_Some_iff split: if_splits)

lemma retarget_same_id:
  assumes wf: "wf_layout l" and t: "t \<in> set (collectAllTabs (wl_root l))"
    and target: "normalizeWorkspaceTabTarget target = Some target"
  shows "\<exists>r. replaceTabInTree (wl_root l) (wt_tabId t) (wt_tabId t) target state = Inr r \<and>
    (wf_tree r \<and> tab_ids (panes r) = tab_ids (panes (wl_root l)))"
proof -
  let ?i = "wt_tabId t"
  note ok = wf_layoutD(2) [OF wf]
  from tab_in_pane [OF t] obtain p where p: "p \<in> set (panes (wl_root l))" "t \<in> set (sp_tabs p)" by blast
  have t_ok: "trim ?i = ?i" "?i \<noteq> []" using tab_ok_of_pane [OF ok p] by (simp_all add: tab_ok_def)
  have "map wt_tabId (sp_tabs (retabbed p ?i ?i target state)) = map wt_tabId (sp_tabs p)"
    using retabbed_tabs [OF pane_of_mem(1) [OF ok p(1)] target t_ok, of ?i state] by simp
  from set_pane_tab_ids [OF ok p(1) _ this]
    replace_tab_spec [OF wf_layoutD(1) [OF wf] p(1) _ target t_ok, of ?i state] p(2) show ?thesis by auto
qed

lemma updateExisting_ok:
  assumes "wf_layout l" and "t \<in> set (collectAllTabs (wl_root l))"
    and "normalizeWorkspaceTabTarget target = Some target"
  shows "\<exists>m. updateExistingTabTarget l t target = Inr m \<and>
    (wf_layout m \<and> tab_ids (panes (wl_root m)) = tab_ids (panes (wl_root l)))"
  using retarget_same_id [OF assms, of "wt_state t"] assms(1)
  by (auto simp: updateExistingTabTarget_def intro: wf_relaid)

lemma revealExisting_ok:
  assumes "wf_layout l" and "fresh_for env (wl_root l)"
  shows "\<exists>m. revealExistingTab env l i pl = Inr m \<and> wf_layout m"
proof -
  have focus: "\<exists>m. bind_sum (focusTabInLayout l i) (\<lambda>focused. Inr (default l focused)) = Inr m \<and> wf_layout m"
    using focusTab_ok [OF assms(1), of i] assms(1) by (auto simp: returns_wf_def default_def split: option.split)
  show ?thesis
  proof (cases pl)
    case (InPane x)
    from moveTab_ok [OF assms, of i x None] focus show ?thesis
      by (auto simp: revealExistingTab_def InPane Let_def returns_wf_def split: option.split)
  qed (use focus in \<open>simp_all add: revealExistingTab_def\<close>)
qed

text \<open>What the opens need: a normal target, and a free id when no tab shows the target.\<close>

definition openable :: "tab_target \<Rightarrow> split_node \<Rightarrow> bool" where
  "openable target n \<longleftrightarrow> normalizeWorkspaceTabTarget target = Some target \<and>
     (findExistingTabForTarget n target = None \<longrightarrow> free_id (buildDeterministicWorkspaceTabId target) n)"

lemma existing_ok:
  assumes "wf_layout l" and "fresh_for env (wl_root l)" and "openable target (wl_root l)"
    and "findExistingTabForTarget (wl_root l) target = Some t"
  shows "\<exists>m. updateExistingTabTarget l t target = Inr m \<and> (wf_layout m \<and> fresh_for env (wl_root m))"
  using updateExisting_ok [OF assms(1) existing_mem [OF assms(4)], of target] assms(2,3)
  by (auto simp: fresh_for_def openable_def)

lemma openFocused_ok:
  assumes "wf_layout l" and "fresh_for env (wl_root l)" and "openable target (wl_root l)"
  shows "returns_wf_id (openTabInLayoutFocused env l target now pl explorer)"
    and "returns_wf_id (revealTargetInLayout env l target now pl explorer state)"
proof -
  let ?old = "findExistingTabForTarget (wl_root l) target"
  have new: "returns_wf_id (insertNewTabIntoPane l target now pl explorer
      (buildDeterministicWorkspaceTabId target) s True)" if "?old = None" for s
    using that assms by (intro insertNew_ok) (auto simp: openable_def)
  have old: "returns_wf_id (bind_sum (updateExistingTabTarget l t target) (\<lambda>nextLayout.
      bind_sum (revealExistingTab env nextLayout (wt_tabId t) pl) (\<lambda>revealed. Inr (Some (revealed, wt_tabId t)))))"
    if "?old = Some t" for t
    by (rule bind_returns(2) [OF existing_ok [OF assms that]])
      (rule bind_returns(2) [OF revealExisting_ok], auto)
  show "returns_wf_id (openTabInLayoutFocused env l target now pl explorer)"
    "returns_wf_id (revealTargetInLayout env l target now pl explorer state)"
    using new old
    by (auto simp: openTabInLayoutFocused_def revealTargetInLayout_def createTabInLayout_def split: option.split)
qed

lemma openBackground_ok:
  assumes "wf_layout l" and "openable target (wl_root l)"
  shows "returns_wf_id (openTabInLayoutBackground l target now pl explorer)"
proof (cases "findExistingTabForTarget (wl_root l) target")
  case None
  with assms show ?thesis by (auto simp: openTabInLayoutBackground_def openable_def intro: insertNew_ok)
next
  case (Some t)
  with updateExisting_ok [OF assms(1) existing_mem [OF Some], of target] assms(2) show ?thesis
    by (auto simp: openTabInLayoutBackground_def openable_def)
qed

section \<open>Replacing targets\<close>

lemma close_then_focus_ok:
  assumes "wf_layout l" and "fresh_for env (wl_root l)"
  shows "\<exists>m. close_then_focus env l i j = Inr m \<and> wf_layout m"
proof -
  from closeTab_ok [OF assms, of i None] obtain c where
    c: "closeTabInLayout env l i None = Inr c" "wf_layout (default l c)"
    using assms(1) by (auto simp: returns_wf_def default_def split: option.splits)
  from focusTab_ok [OF c(2), of j] c show ?thesis
    by (auto simp: close_then_focus_def returns_wf_def default_def Let_def split: option.splits)
qed

lemma rename_ok:
  assumes wf: "wf_layout l" and i: "i \<in> set (tab_ids (panes (wl_root l)))"
    and target: "normalizeWorkspaceTabTarget target = Some target"
    and j: "j = i \<or> free_id (Inr j) (wl_root l)"
  shows "\<exists>r. replaceTabInTree (wl_root l) i j target state = Inr r \<and> wf_tree r"
proof -
  from i obtain p where p: "p \<in> set (panes (wl_root l))" "i \<in> set (map wt_tabId (sp_tabs p))"
    by (auto simp: mem_tab_ids)
  then have "trim i = i \<and> i \<noteq> []" using tab_ok_of_pane [OF wf_layoutD(2) [OF wf] p(1)] by (auto simp: tab_ok_def)
  with j replace_tab_spec [OF wf_layoutD(1) [OF wf] p target, of j state] show ?thesis
    by (auto simp: free_id_def)
qed

text \<open>Replacing a target keeps the tab's id, or needs a free one.\<close>

definition retargetable :: "string \<Rightarrow> tab_target \<Rightarrow> split_node \<Rightarrow> bool" where
  "retargetable i target n \<longleftrightarrow> normalizeWorkspaceTabTarget target = Some target \<and>
     (buildDeterministicWorkspaceTabId target = Inr i \<or> free_id (buildDeterministicWorkspaceTabId target) n)"

lemma retarget_ok:
  assumes wf: "wf_layout l" and fresh: "fresh_for env (wl_root l)" and target: "retargetable i target (wl_root l)"
  shows "returns_wf_id (retargetTabInLayout env l i target)"
proof (cases "findPaneContainingTab (wl_root l) i = None")
  case False
  then have i: "i \<in> set (tab_ids (panes (wl_root l)))" by (simp add: containing_None)
  obtain j where j: "buildDeterministicWorkspaceTabId target = Inr j" "j = i \<or> free_id (Inr j) (wl_root l)"
    using target by (auto simp: retargetable_def free_id_def split: sum.splits)
  have norm: "normalizeWorkspaceTabTarget target = Some target" using target by (simp add: retargetable_def)
  note r = rename_ok [OF wf i norm]
  show ?thesis
    unfolding retargetTabInLayout_def Let_def
    using False wf r [of i None] r [OF j(2), of None] j(1)
    by (auto intro!: bind_returns(2) [OF close_then_focus_ok [OF wf fresh]] wf_relaid split: option.split)
qed (simp add: retargetTabInLayout_def)

lemma replaceTarget_ok:
  assumes wf: "wf_layout l" and target: "normalizeWorkspaceTabTarget target = Some target"
    and created: "free_id (Inr created) (wl_root l)"
    and draft: "kind_of target = KDraft \<Longrightarrow> retargetable i target (wl_root l)"
  shows "returns_wf_id (replaceTabTargetInLayout l i target created state)"
proof (cases "findPaneContainingTab (wl_root l) i = None")
  case False
  then have i: "i \<in> set (tab_ids (panes (wl_root l)))" by (simp add: containing_None)
  let ?kind = "map_option (kind_of \<circ> wt_target) (find_tab_by_id (wl_root l) i)"
  let ?next = "if ?kind = Some KNewTab \<or> ?kind = Some KDraft \<or> ?kind = Some (kind_of target) then Inr i
    else if kind_of target = KDraft then buildDeterministicWorkspaceTabId target else Inr created"
  have "\<exists>j. ?next = Inr j \<and> (j = i \<or> free_id (Inr j) (wl_root l))"
    using created draft by (auto simp: retargetable_def free_id_def split: sum.splits)
  then obtain j where j: "?next = Inr j" "j = i \<or> free_id (Inr j) (wl_root l)" by blast
  note r = rename_ok [OF wf i target]
  show ?thesis
    unfolding replaceTabTargetInLayout_def Let_def j(1)
    using False wf by (auto intro!: bind_returns(2) [OF r] j(2) wf_relaid split: option.split)
qed (simp add: replaceTabTargetInLayout_def)

lemma setState_ok: "wf_layout l \<Longrightarrow> returns_wf (setTabStateInLayout l i state)"
proof (cases "find_tab_by_id (wl_root l) i")
  case (Some t)
  assume wf: "wf_layout l"
  from find_tab_Some [OF Some] have t: "t \<in> set (collectAllTabs (wl_root l))" by simp
  from tab_in_pane [OF this] tab_ok_of_pane [OF wf_layoutD(2) [OF wf]] have "tab_ok t" by blast
  with retarget_same_id [OF wf t, of "wt_target t" state] show ?thesis
    by (auto simp: setTabStateInLayout_def Some tab_ok_def intro: wf_relaid)
qed (simp add: setTabStateInLayout_def)

lemma find_tab_None: "find_tab_by_id n i = None \<longleftrightarrow> i \<notin> set (tab_ids (panes n))"
  by (auto simp: find_tab_by_id_def find_None_iff simp flip: tab_ids_collect)

lemma convertDraft_ok:
  assumes wf: "wf_layout l" and fresh: "fresh_for env (wl_root l)"
    and target: "normalizeWorkspaceTabTarget (AgentTab a) = Some (AgentTab a)"
  shows "returns_wf_id (convertDraftToAgentInLayout env l i a)"
proof (cases "find_tab_by_id (wl_root l) i")
  case (Some t)
  let ?j = "''agent_'' @ a"
  have i: "i \<in> set (tab_ids (panes (wl_root l)))" using Some find_tab_None [of "wl_root l" i] by auto
  have build: "buildDeterministicWorkspaceTabId (AgentTab a) = Inr ?j"
    by (simp add: buildDeterministicWorkspaceTabId_def)
  with normal_id_trimmed [OF target build] have free: "?j = i \<or> free_id (Inr ?j) (wl_root l)"
    if "find_tab_by_id (wl_root l) ?j = None \<or> ?j = i" using that by (auto simp: free_id_def find_tab_None)
  show ?thesis
    unfolding convertDraftToAgentInLayout_def Some option.case build bind_sum_simps
    using rename_ok [OF wf i target free, of None]
    by (auto intro!: bind_returns(2) [OF close_then_focus_ok [OF wf fresh]] wf_relaid)
qed (simp add: convertDraftToAgentInLayout_def)

section \<open>Splitting, resizing, reordering\<close>

definition fresh_pane :: "(node_id_prefix \<Rightarrow> string) \<Rightarrow> split_node \<Rightarrow> bool" where
  "fresh_pane ids n \<longleftrightarrow> ids PanePrefix \<noteq> [] \<and> ids PanePrefix \<notin> set (map sp_id (panes n))"

lemma split_wf:
  assumes wf: "wf_tree n" and path: "getNodeAtPath n path = Inr (Pane p)"
    and q: "pane_ok q" "sp_tabs q \<noteq> []" "sp_id q \<noteq> []" "sp_id q \<notin> set (map sp_id (panes n))"
      "set (map wt_tabId (sp_tabs q)) \<inter> set (tab_ids (panes n)) = {}"
  shows "\<exists>r. split_beside ids n path (Pane p) (Pane q) position = Inr r \<and> wf_tree r"
proof -
  have "panes n = pre n path @ p # post n path" using panes_at [OF path] by simp
  with panes_ok_insert [of "pre n path" p "post n path" q] wf q
  have "panes_ok (pre n path @ p # q # post n path) \<and> panes_ok (pre n path @ q # p # post n path)"
    by (simp add: wf_tree_def)
  with split_at [OF _ path, of ids q position] wf show ?thesis by (auto simp: wf_tree_def)
qed

lemma create_one:
  assumes "tab_ok t"
  obtains q where "createPaneNode x [t] f False = Pane q" "pane_ok q" "sp_id q = x" "sp_tabs q = [t]"
  using pane_ok_create [of x "[t]" f False] assms by (auto simp: normalizeWorkspaceTabs_id)

lemma splitPane_ok:
  assumes wf: "wf_layout l" and fresh: "fresh_for env (wl_root l)" and new: "fresh_pane ids (wl_root l)"
  shows "returns_wf_id (splitPaneInLayout env ids l i x position depth)"
proof (cases "findPaneById (wl_root l) (Some x) = None \<or> findPaneContainingTab (wl_root l) i = None")
  case False
  let ?n = "wl_root l"
  from False obtain q p where fq: "findPaneById ?n (Some x) = Some q" and fp: "findPaneContainingTab ?n i = Some p"
    by auto
  from by_id_Some [OF fq] have q: "q \<in> set (panes ?n)" "sp_id q = x" by auto
  from containing_Some [OF fp] have p: "p \<in> set (panes ?n)" "i \<in> set (map wt_tabId (sp_tabs p))" by auto
  note ok = wf_layoutD(2) [OF wf]
  from detach_frame [OF wf_layoutD(1) [OF wf] fresh p, of "Some x"] obtain r t where
    r: "detachTabFromTree env ?n i (Some x) = Inr \<lparr>dr_root = r, dr_tab = Some t, dr_sourcePaneId = Some (sp_id p)\<rparr>"
    "t \<in> set (sp_tabs p)" "wt_tabId t = i" "wf_tree r" "i \<notin> set (tab_ids (panes r))"
    "set (map sp_id (panes r)) \<subseteq> set (map sp_id (panes ?n))"
    "\<forall>q\<in>set (panes ?n). q \<noteq> p \<longrightarrow> q \<in> set (panes r)"
    "Some x = Some (sp_id p) \<longrightarrow> sp_id p \<in> set (map sp_id (panes r))" by metis
  have "x \<in> set (map sp_id (panes r))"
  proof (cases "q = p")
    case False
    with q r(7) have "q \<in> set (panes r)" by blast
    with q(2) show ?thesis by auto
  qed (use q r(8) in simp)
  then obtain tp where tp: "findPanePathById r x = Some tp"
    using pane_path_None(1) [of r x] by (cases "findPanePathById r x") auto
  from pane_path_SomeD(1) [OF this] obtain p' where p': "getNodeAtPath r tp = Inr (Pane p')" by blast
  from create_one [OF tab_ok_of_pane [OF ok p(1) r(2)]] obtain s where
    s: "createPaneNode (ids PanePrefix) [t] (Some i) False = Pane s" "pane_ok s" "sp_id s = ids PanePrefix" "sp_tabs s = [t]"
    by metis
  from split_wf [OF r(4) p' s(2), of ids position] s(3,4) new r(3,5,6) obtain m where
    m: "split_beside ids r tp (Pane p') (Pane s) position = Inr m" "wf_tree m" by (auto simp: fresh_pane_def)
  obtain path where "findPanePathById ?n x = Some path" using pane_path_Some [OF q(1) ok] q(2) by metis
  then have "insertSplitInternal env ids ?n x i position = Inr (m, ids PanePrefix)"
    using r(1,3) tp p' s(1) m(1) by (simp add: insertSplitInternal_def Let_def)
  with False m(2) show ?thesis by (auto simp: splitPaneInLayout_def intro: wf_relaid)
qed (auto simp: splitPaneInLayout_def)

lemma splitEmpty_ok:
  assumes wf: "wf_layout l" and fresh: "fresh_for env (wl_root l)" and new: "fresh_pane ids (wl_root l)"
  shows "returns_wf_id (splitPaneEmptyInLayout env ids l x position depth)"
proof (cases "findPaneById (wl_root l) (Some x)")
  case (Some q)
  from by_id_Some [OF Some] have q: "q \<in> set (panes (wl_root l))" "sp_id q = x" by auto
  from pane_path_Some [OF q(1) wf_layoutD(2) [OF wf]] q(2) obtain path where
    path: "findPanePathById (wl_root l) x = Some path" "getNodeAtPath (wl_root l) path = Inr (Pane q)" by metis
  have t: "tab_ok (new_tab_of env)" using fresh by (simp add: fresh_for_def)
  obtain s where s: "createPaneNode (ids PanePrefix) [new_tab_of env] None False = Pane s" "pane_ok s"
    "sp_id s = ids PanePrefix" "sp_tabs s = [new_tab_of env]" by (rule create_one [OF t])
  from split_wf [OF wf_layoutD(1) [OF wf] path(2) s(2), of ids position] s(3,4) new fresh obtain m where
    "split_beside ids (wl_root l) path (Pane q) (Pane s) position = Inr m" "wf_tree m"
    by (auto simp: fresh_pane_def fresh_for_def)
  then show ?thesis using path s(1) Some by (auto simp: splitPaneEmptyInLayout_def Let_def intro: wf_relaid)
qed (simp add: splitPaneEmptyInLayout_def)

lemma splitRoot_ok:
  assumes wf: "wf_layout l" and fresh: "fresh_for env (wl_root l)" and new: "fresh_pane ids (wl_root l)"
    and res: "splitWorkspaceRootRightInLayout env ids l depth = Some (m, x)"
  shows "wf_layout m"
proof -
  have t: "tab_ok (new_tab_of env)" using fresh by (simp add: fresh_for_def)
  obtain s where s: "createPaneNode (ids PanePrefix) [new_tab_of env] None False = Pane s" "pane_ok s"
    "sp_id s = ids PanePrefix" "sp_tabs s = [new_tab_of env]" by (rule create_one [OF t])
  obtain xs p where xs: "panes (wl_root l) = xs @ [p]"
    using panes_nonempty(1) [OF wf_layoutD(3) [OF wf]] by (metis append_butlast_last_id)
  with panes_ok_insert [of xs p "[]" s] wf_layoutD(2) [OF wf] s new fresh have "panes_ok (panes (wl_root l) @ [s])"
    by (auto simp: fresh_pane_def fresh_for_def)
  then have "wf_tree (createGroupNode (ids GroupPrefix) Horizontal [wl_root l, Pane s] (Some [7 / 10, 3 / 10]))"
    using wf_layoutD(3) [OF wf] by (simp add: wf_tree_def shape_createGroupNode)
  with res s(1) show ?thesis
    by (auto simp: splitWorkspaceRootRightInLayout_def Let_def intro: wf_relaid split: if_splits)
qed

lemma find_path_at:
  "find_path P n acc = Some q \<Longrightarrow> \<exists>path m. q = acc @ path \<and> getNodeAtPath n path = Inr m \<and> P m"
  "find_path_in P cs i acc = Some q \<Longrightarrow>
     \<exists>j path m. j < length cs \<and> q = acc @ (i + j) # path \<and> getNodeAtPath (cs ! j) path = Inr m \<and> P m"
proof (induction n and cs arbitrary: acc q and i acc q rule: find_path.induct find_path_in.induct, goal_cases)
  case (2 g d cs ss acc q)
  show ?case
  proof (cases "P (Group g d cs ss)")
    case False
    with 2(2) have "find_path_in P cs 0 acc = Some q" by simp
    from 2(1) [OF this] obtain j path m where "j < length cs" "q = acc @ j # path"
      "getNodeAtPath (cs ! j) path = Inr m" "P m" by auto
    then show ?thesis by (intro exI [of _ "j # path"] exI [of _ m]) simp
  qed (use 2(2) in auto)
next
  case (4 c cs i acc q)
  show ?case
  proof (cases "find_path P c (acc @ [i])")
    case (Some r)
    from 4(1) [OF this] 4(3) Some show ?thesis by (intro exI [of _ 0]) auto
  next
    case None
    with 4(3) have "find_path_in P cs (Suc i) acc = Some q" by simp
    from 4(2) [OF this] obtain j path m where "j < length cs" "q = acc @ (Suc i + j) # path"
      "getNodeAtPath (cs ! j) path = Inr m" "P m" by blast
    then show ?thesis by (intro exI [of _ "Suc j"] exI [of _ path] exI [of _ m]) simp
  qed
qed (auto split: if_splits)

lemma resize_spec:
  assumes "wf_tree n"
  shows "\<exists>r. updateGroupSizesInTree n g sizes = Inr r \<and> (wf_tree r \<and> panes r = panes n)"
proof (cases "findGroupPathById n g")
  case (Some path)
  then obtain m where m: "getNodeAtPath n path = Inr m" "case m of Group gid _ _ _ \<Rightarrow> gid = g | _ \<Rightarrow> False"
    using find_path_at(1) [of _ n "[]" path] by (auto simp: findGroupPathById_def)
  then obtain d cs ss where at: "getNodeAtPath n path = Inr (Group g d cs ss)" by (cases m) auto
  have "shape (Group g d cs ss)" by (rule shape_at [OF _ at]) (use assms in \<open>simp add: wf_tree_def\<close>)
  then have new: "shape (createGroupNode g d cs (Some s))" for s by (simp add: shape_createGroupNode)
  let ?m = "if length sizes \<noteq> length cs then Group g d cs ss
    else createGroupNode g d cs (Some (clampNormalizedSizes sizes))"
  have m: "shape ?m" "panes ?m = panes (Group g d cs ss)" using \<open>shape (Group g d cs ss)\<close> new by simp_all
  have "updateGroupSizesInTree n g sizes = replaceNodeAtPath n path (\<lambda>_. Inr ?m)"
    unfolding updateGroupSizesInTree_def Some option.case by (rule replace_cong [OF at]) simp
  with replace_at [where f = "\<lambda>_. Inr ?m", OF at refl] m assms panes_at [OF at] show ?thesis
    by (auto simp: wf_tree_def)
qed (use assms in \<open>simp add: updateGroupSizesInTree_def\<close>)

lemma resize_ok: "wf_layout l \<Longrightarrow> \<exists>m. resizeSplitInLayout l g sizes = Inr m \<and> wf_layout m"
  using resize_spec [of "wl_root l" g sizes] by (auto simp: resizeSplitInLayout_def wf_layoutD intro: wf_relaid)

lemma map_of_tabs:
  assumes "distinct (map wt_tabId ts)"
  shows "fold (\<lambda>tab m. m(wt_tabId tab \<mapsto> tab)) ts m0 i =
    (case find (\<lambda>t. wt_tabId t = i) ts of Some t \<Rightarrow> Some t | None \<Rightarrow> m0 i)"
  using assms
proof (induction ts arbitrary: m0)
  case (Cons t ts)
  have "find (\<lambda>u. wt_tabId u = wt_tabId t) ts = None"
    using Cons.prems by (auto simp: find_None_iff notin_image)
  with Cons show ?case by simp
qed simp

lemma tabs_unseen_filter:
  "distinct (map wt_tabId ts) \<Longrightarrow> tabs_unseen seen ts = filter (\<lambda>t. wt_tabId t \<notin> set seen) ts"
proof (induction ts arbitrary: seen)
  case (Cons t ts)
  have "filter (\<lambda>u. wt_tabId u \<notin> set (wt_tabId t # seen)) ts = filter (\<lambda>u. wt_tabId u \<notin> set seen) ts"
    using Cons.prems by (auto simp: notin_image intro!: filter_cong)
  with Cons show ?case by simp
qed simp

lemma distinct_tab_ids_from: "distinct (tab_ids_from seen ids) \<and> set (tab_ids_from seen ids) \<inter> set seen = {}"
proof (induction ids arbitrary: seen)
  case (Cons i ids)
  show ?case
  proof (cases "trimNonEmpty (Some i)")
    case (Some j)
    with Cons [of "j # seen"] Cons [of seen] show ?thesis by (auto simp del: trimNonEmpty_Some)
  next
    case None
    with Cons [of seen] show ?thesis by (simp del: trimNonEmpty_None)
  qed
qed simp

lemma map_filter_ids:
  assumes "\<And>i t. f i = Some t \<Longrightarrow> wt_tabId t = i"
  shows "map wt_tabId (List.map_filter f ids) = filter (\<lambda>i. f i \<noteq> None) ids"
  using assms by (induction ids) (auto simp: List.map_filter_simps split: option.split)

lemma set_map_filter: "set (List.map_filter f ids) = {t. \<exists>i\<in>set ids. f i = Some t}"
  by (force simp: List.map_filter_def)

text \<open>Reordering permutes the tabs of a pane.\<close>

lemma reorder_tabs:
  assumes "pane_ok p"
  shows "set (sp_tabs (reorderTabsForPane p ids)) = set (sp_tabs p)" and "sp_id (reorderTabsForPane p ids) = sp_id p"
    and "pane_ok (reorderTabsForPane p ids)"
proof -
  let ?byId = "fold (\<lambda>tab m. m(wt_tabId tab \<mapsto> tab)) (sp_tabs p) Map.empty"
  let ?re = "List.map_filter ?byId (normalizeTabIds ids)"
  let ?all = "?re @ tabs_unseen (map wt_tabId ?re) (sp_tabs p)"
  have d: "distinct (map wt_tabId (sp_tabs p))" and ok: "\<forall>t\<in>set (sp_tabs p). tab_ok t"
    using assms by (auto simp: pane_ok_def)
  have by_id: "?byId i = find (\<lambda>t. wt_tabId t = i) (sp_tabs p)" for i
    by (simp add: map_of_tabs [OF d] split: option.split)
  then have some: "?byId i = Some t \<Longrightarrow> wt_tabId t = i \<and> t \<in> set (sp_tabs p)" for i t
    by (auto simp: find_Some_iff)
  have "distinct (map wt_tabId ?re)"
    using some distinct_tab_ids_from [of "[]" ids] by (subst map_filter_ids) (auto simp: normalizeTabIds_def)
  moreover have sub: "set ?re \<subseteq> set (sp_tabs p)" using some by (auto simp: set_map_filter)
  moreover have "distinct (map wt_tabId (filter P (sp_tabs p)))" for P using d by (simp add: distinct_map_filter)
  ultimately have dist: "distinct (map wt_tabId ?all)" by (auto simp: tabs_unseen_filter [OF d] notin_image)
  have set: "set ?all = set (sp_tabs p)"
  proof (intro equalityI subsetI)
    fix t
    assume t: "t \<in> set (sp_tabs p)"
    show "t \<in> set ?all"
    proof (cases "wt_tabId t \<in> set (map wt_tabId ?re)")
      case True
      then obtain u where "u \<in> set ?re" "wt_tabId u = wt_tabId t" by auto
      with sub t d have "u = t" by (auto simp: distinct_map inj_on_def)
      with \<open>u \<in> set ?re\<close> show ?thesis by simp
    qed (use t in \<open>simp add: tabs_unseen_filter [OF d]\<close>)
  qed (use sub in \<open>auto simp: tabs_unseen_filter [OF d]\<close>)
  have "normalizeWorkspaceTabs ?all = ?all" using ok set dist by (intro normalizeWorkspaceTabs_id) blast+
  then show "set (sp_tabs (reorderTabsForPane p ids)) = set (sp_tabs p)"
    using set by (simp add: reorderTabsForPane_def Let_def del: set_append)
  show "sp_id (reorderTabsForPane p ids) = sp_id p" "pane_ok (reorderTabsForPane p ids)"
    by (simp_all add: reorderTabsForPane_def Let_def)
qed

lemma reorder_spec:
  assumes wf: "wf_tree n" and p: "p \<in> set (panes n)"
  shows "\<exists>r. updatePaneInTree n (sp_id p) (\<lambda>pane. reorderTabsForPane pane ids) = Inr r \<and>
    (wf_tree r \<and> panes r = set_pane (reorderTabsForPane p ids) (panes n))"
proof -
  have ok: "panes_ok (panes n)" using wf by (simp add: wf_tree_def)
  note pane = pane_of_mem [OF ok p]
  note re = reorder_tabs [OF pane(1), of ids]
  have id: "normalizeWorkspaceTabs (sp_tabs (reorderTabsForPane p ids)) = sp_tabs (reorderTabsForPane p ids)"
    using normalize_pane_fields(3) [of "reorderTabsForPane p ids"] normalize_pane_id [OF re(3)] by simp
  have "sp_tabs (reorderTabsForPane p ids) \<noteq> []" using re(1) pane(2) by auto
  with update_pane_spec [OF wf p, of "\<lambda>pane. reorderTabsForPane pane ids"] re id
  show ?thesis by (simp add: normalize_pane_id [OF re(3)])
qed

lemma reorder_ok: "wf_layout l \<Longrightarrow> returns_wf (reorderPaneTabsInLayout l x ids)"
proof (cases "findPaneById (wl_root l) (Some x)")
  case (Some p)
  assume wf: "wf_layout l"
  from by_id_Some [OF Some] have p: "p \<in> set (panes (wl_root l))" "sp_id p = x" by auto
  from reorder_spec [OF wf_layoutD(1) [OF wf] p(1), of ids] p(2) show ?thesis
    by (auto simp: reorderPaneTabsInLayout_def Some intro: wf_relaid)
qed (simp add: reorderPaneTabsInLayout_def)

lemma reorderFocused_ok: "wf_layout l \<Longrightarrow> returns_wf (reorderFocusedPaneTabsInLayout l ids)"
proof (cases "truthy (wl_focusedPaneId l)")
  case (Some x)
  assume wf: "wf_layout l"
  from reorder_ok [OF wf, of x ids] show ?thesis
    by (simp add: reorderFocusedPaneTabsInLayout_def reorderPaneTabsInLayout_def Some)
qed (simp add: reorderFocusedPaneTabsInLayout_def)

end
