(* ===== verification/Layout_Normal.thy ===== *)
theory Layout_Normal
  imports Layout_Invariant
begin

text \<open>
  Reading and writing a layout, from \<open>packages/app/src/stores/workspace-layout-actions.ts\<close>: the normal
  form of a stored layout, the layouts a workspace starts from, the removal of ephemeral tabs before
  a layout is stored and the refilling of empty panes after it is read.
\<close>

section \<open>Normal form\<close>

definition normalizePaneNode :: "rat \<Rightarrow> split_pane \<Rightarrow> split_node option" where
  "normalizePaneNode now rawPane = (case trimNonEmpty (Some (sp_id rawPane)) of
      None \<Rightarrow> None
    | Some paneId \<Rightarrow>
        (let tabs = normalizeWorkspaceTabs (sp_tabs rawPane);
             tabIds = normalizeTabIds (sp_tabIds rawPane);
             mergedTabs = (if tabs \<noteq> [] then tabs
               else map (\<lambda>tabId. \<lparr>wt_tabId = tabId, wt_target = Draft tabId None, wt_createdAt = now,
                 wt_state = None\<rparr>) tabIds)
         in Some (createPaneNode paneId mergedTabs (trimNonEmpty (sp_focusedTabId rawPane)) (sp_hidden rawPane))))"

primrec normalizeNode :: "rat \<Rightarrow> split_node \<Rightarrow> split_node option"
  and normalize_children :: "rat \<Rightarrow> split_node list \<Rightarrow> split_node list"
where
  "normalizeNode now (Pane pane) = normalizePaneNode now pane"
| "normalizeNode now (Group gid dir children sizes) = (case trimNonEmpty (Some gid) of
      None \<Rightarrow> None
    | Some groupId \<Rightarrow> (case normalize_children now children of
        [] \<Rightarrow> None
      | [only] \<Rightarrow> Some only
      | several \<Rightarrow> Some (createGroupNode groupId dir several (Some sizes))))"
| "normalize_children now [] = []"
| "normalize_children now (child # children) = (case normalizeNode now child of
      None \<Rightarrow> normalize_children now children
    | Some c \<Rightarrow> c # normalize_children now children)"

definition createDefaultLayout :: "fresh_env \<Rightarrow> workspace_layout" where
  "createDefaultLayout env =
     \<lparr>wl_root = createPaneNode DEFAULT_PANE_ID [new_tab_of env] None False,
      wl_focusedPaneId = Some DEFAULT_PANE_ID, wl_parents = None\<rparr>"

definition normalizeLayout :: "fresh_env \<Rightarrow> workspace_layout \<Rightarrow> workspace_layout" where
  "normalizeLayout env rawLayout =
     (let tree = default (wl_root (createDefaultLayout env)) (normalizeNode (fe_now env) (wl_root rawLayout));
          resolvedFocusedPaneId = (case trimNonEmpty (wl_focusedPaneId rawLayout) of
            None \<Rightarrow> None
          | Some x \<Rightarrow> or_else (map_option sp_id (findPaneById tree (Some x)))
              (or_else (map_option sp_id (first_opt (collectAllPanes tree))) (Some DEFAULT_PANE_ID)))
      in \<lparr>wl_root = tree, wl_focusedPaneId = resolvedFocusedPaneId,
          wl_parents = normalizeParentTabMap (wl_parents rawLayout) (open_tab_ids tree)\<rparr>)"

definition createDefaultExplorerSidebarTabs :: "rat \<Rightarrow> workspace_tab list" where
  "createDefaultExplorerSidebarTabs createdAt =
     map (\<lambda>target. \<lparr>wt_tabId = (case buildDeterministicWorkspaceTabId target of Inr i \<Rightarrow> i | Inl _ \<Rightarrow> []),
       wt_target = target, wt_createdAt = createdAt, wt_state = None\<rparr>) [FilesTab, ChangesTree]"

definition createWorkspaceLayoutWithExplorerSidebar :: "fresh_env \<Rightarrow> workspace_layout" where
  "createWorkspaceLayoutWithExplorerSidebar env =
     \<lparr>wl_root = createGroupNode DEFAULT_LAYOUT_GROUP_ID Horizontal
        [createPaneNode DEFAULT_PANE_ID [new_tab_of env] None False,
         createPaneNode EXPLORER_SIDEBAR_PANE_ID (createDefaultExplorerSidebarTabs (fe_now env)) None True]
        (Some [78 / 100, 22 / 100]),
      wl_focusedPaneId = Some DEFAULT_PANE_ID, wl_parents = None\<rparr>"

section \<open>Ephemeral tabs and empty panes\<close>

definition isEphemeralTab :: "workspace_tab \<Rightarrow> bool" where
  "isEphemeralTab tab \<longleftrightarrow> kind_of (wt_target tab) = KCommitDiff \<or> kind_of (wt_target tab) = KNewTab"

primrec stripEphemeralTabsFromNode :: "split_node \<Rightarrow> split_node"
  and strip_children :: "split_node list \<Rightarrow> split_node list"
where
  "stripEphemeralTabsFromNode (Pane pane) =
     (let nextTabs = filter (\<lambda>tab. \<not> isEphemeralTab tab) (sp_tabs pane) in
      if length nextTabs = length (sp_tabs pane) then Pane pane
      else createPaneNode (sp_id pane) nextTabs (sp_focusedTabId pane) (sp_hidden pane))"
| "stripEphemeralTabsFromNode (Group gid dir children sizes) =
     createGroupNode gid dir (strip_children children) (Some sizes)"
| "strip_children [] = []"
| "strip_children (child # children) = stripEphemeralTabsFromNode child # strip_children children"

definition stripEphemeralTabsFromLayout :: "workspace_layout \<Rightarrow> workspace_layout" where
  "stripEphemeralTabsFromLayout layout =
     relaid layout (stripEphemeralTabsFromNode (wl_root layout)) (wl_focusedPaneId layout)"

text \<open>Every empty pane gets a new tab of its own: \<open>envs k\<close> is the \<open>k\<close>-th call for one.\<close>

primrec restoreEmptyPanesInNode ::
  "(nat \<Rightarrow> fresh_env) \<Rightarrow> string option \<Rightarrow> split_node \<Rightarrow> nat \<Rightarrow> split_node \<times> nat"
  and restore_children ::
  "(nat \<Rightarrow> fresh_env) \<Rightarrow> string option \<Rightarrow> split_node list \<Rightarrow> nat \<Rightarrow> split_node list \<times> nat"
where
  "restoreEmptyPanesInNode envs explorer (Pane pane) k =
     (if sp_tabs pane \<noteq> [] then (Pane pane, k)
      else (createPaneNode (sp_id pane)
        (if Some (sp_id pane) = explorer then createDefaultExplorerSidebarTabs (fe_now (envs k))
         else [new_tab_of (envs k)]) None (sp_hidden pane), Suc k))"
| "restoreEmptyPanesInNode envs explorer (Group gid dir children sizes) k =
     (let (children', k') = restore_children envs explorer children k
      in (createGroupNode gid dir children' (Some sizes), k'))"
| "restore_children envs explorer [] k = ([], k)"
| "restore_children envs explorer (child # children) k =
     (let (child', k') = restoreEmptyPanesInNode envs explorer child k;
          (children', k'') = restore_children envs explorer children k'
      in (child' # children', k''))"

definition restoreEmptyPanesInLayout ::
  "fresh_env \<Rightarrow> (nat \<Rightarrow> fresh_env) \<Rightarrow> workspace_layout \<Rightarrow> string option \<Rightarrow> workspace_layout" where
  "restoreEmptyPanesInLayout env envs layout explorerSidebarPaneId =
     (let normalized = normalizeLayout env layout
      in normalized\<lparr>wl_root := fst (restoreEmptyPanesInNode envs explorerSidebarPaneId (wl_root normalized) 0)\<rparr>)"

section \<open>Further exported operations\<close>

definition getFocusedBrowserId :: "workspace_layout option \<Rightarrow> string option" where
  "getFocusedBrowserId layout = (case layout of
      None \<Rightarrow> None
    | Some l \<Rightarrow> (case findPaneById (wl_root l) (wl_focusedPaneId l) of
        None \<Rightarrow> None
      | Some pane \<Rightarrow> (case truthy (sp_focusedTabId pane) of
          None \<Rightarrow> None
        | Some focused \<Rightarrow>
            if sp_hidden pane then None
            else (case find (\<lambda>tab. wt_tabId tab = focused) (collectAllTabs (wl_root l)) of
              Some tab \<Rightarrow> (case wt_target tab of BrowserTab browserId \<Rightarrow> Some browserId | _ \<Rightarrow> None)
            | None \<Rightarrow> None))))"

definition insertSplit ::
  "fresh_env \<Rightarrow> split_node \<Rightarrow> string \<Rightarrow> string \<Rightarrow> split_position \<Rightarrow> (node_id_prefix \<Rightarrow> string) \<Rightarrow>
     string + split_node" where
  "insertSplit env tree targetPaneId tabId position createNodeId =
     bind_sum (insertSplitInternal env createNodeId tree targetPaneId tabId position) (\<lambda>(r, _). Inr r)"

definition removePaneFromTree :: "fresh_env \<Rightarrow> split_node \<Rightarrow> string \<Rightarrow> string + split_node" where
  "removePaneFromTree env tree paneId = (case findPanePathById tree paneId of
      None \<Rightarrow> Inr tree | Some panePath \<Rightarrow> removePaneByPath env tree panePath)"

definition removeTabFromTree :: "fresh_env \<Rightarrow> split_node \<Rightarrow> string \<Rightarrow> string + split_node" where
  "removeTabFromTree env tree tabId =
     bind_sum (detachTabFromTree env tree tabId (Some DEFAULT_PANE_ID)) (\<lambda>d. Inr (dr_root d))"

section \<open>The starting layouts are well-formed\<close>

lemma default_pane:
  assumes "tab_ok (new_tab_of env)"
  obtains q where "createPaneNode DEFAULT_PANE_ID [new_tab_of env] None False = Pane q" "pane_ok q"
    "sp_id q = DEFAULT_PANE_ID" "sp_tabs q = [new_tab_of env]"
  by (rule create_one [OF assms])

lemma explorer_tabs:
  "\<forall>t\<in>set (createDefaultExplorerSidebarTabs now). tab_ok t"
  "map wt_tabId (createDefaultExplorerSidebarTabs now) = [''files'', ''changes_tree'']"
proof -
  have "trim ''files'' = ''files''" "trim ''changes_tree'' = ''changes_tree''" by code_simp+
  then show "\<forall>t\<in>set (createDefaultExplorerSidebarTabs now). tab_ok t"
    "map wt_tabId (createDefaultExplorerSidebarTabs now) = [''files'', ''changes_tree'']"
    by (simp_all add: createDefaultExplorerSidebarTabs_def buildDeterministicWorkspaceTabId_def tab_ok_def
        normalizeWorkspaceTabTarget_def normalizeSimpleWorkspaceTabTarget_def)
qed

lemma new_tab_id: "wt_tabId (new_tab_of env) = ''tab_'' @ fe_messageId env"
  by (simp add: new_tab_of_def createNewWorkspaceTab_def)

lemma createDefaultLayout_wf: "tab_ok (new_tab_of env) \<Longrightarrow> wf_layout (createDefaultLayout env)"
  by (erule default_pane [of env])
    (simp add: createDefaultLayout_def wf_layout_def wf_tree_def panes_ok_def parents_ok_def DEFAULT_PANE_ID_def)

lemma createWorkspaceLayout_wf:
  assumes "tab_ok (new_tab_of env)"
  shows "wf_layout (createWorkspaceLayoutWithExplorerSidebar env)"
proof -
  let ?ts = "createDefaultExplorerSidebarTabs (fe_now env)"
  from default_pane [OF assms] obtain q where q: "createPaneNode DEFAULT_PANE_ID [new_tab_of env] None False = Pane q"
    "pane_ok q" "sp_id q = DEFAULT_PANE_ID" "sp_tabs q = [new_tab_of env]" by blast
  have "normalizeWorkspaceTabs ?ts = ?ts" by (rule normalizeWorkspaceTabs_id) (simp_all add: explorer_tabs)
  with pane_ok_create [of EXPLORER_SIDEBAR_PANE_ID ?ts None True] obtain e where
    e: "createPaneNode EXPLORER_SIDEBAR_PANE_ID ?ts None True = Pane e" "pane_ok e"
      "sp_id e = EXPLORER_SIDEBAR_PANE_ID" "sp_tabs e = ?ts" by auto
  have "?ts \<noteq> []" using explorer_tabs(2) [of "fe_now env"] by auto
  with q e have "panes_ok [q, e]"
    by (simp add: panes_ok_def explorer_tabs(2) new_tab_id DEFAULT_PANE_ID_def EXPLORER_SIDEBAR_PANE_ID_def)
  with q(1) e(1) show ?thesis
    by (simp add: createWorkspaceLayoutWithExplorerSidebar_def wf_layout_def wf_tree_def parents_ok_def
        shape_createGroupNode)
qed

section \<open>The normal form\<close>

lemma create_id: "pane_ok q \<Longrightarrow> createPaneNode (sp_id q) (sp_tabs q) (sp_focusedTabId q) (sp_hidden q) = Pane q"
  using normalize_pane_id [of q] by (simp add: createPaneNode_def normalizePaneAfterTabChange_def Let_def)

lemma trimmed_focus: "pane_ok q \<Longrightarrow> trimNonEmpty (sp_focusedTabId q) = sp_focusedTabId q"
  by (cases "sp_focusedTabId q") (auto simp: pane_ok_def focus_ok_def tab_ok_def trimNonEmpty_def)

text \<open>The ids of groups are trimmed and not empty.\<close>

primrec named :: "split_node \<Rightarrow> bool" and all_named :: "split_node list \<Rightarrow> bool" where
  "named (Pane p) = True"
| "named (Group g d cs ss) = (trim g = g \<and> g \<noteq> [] \<and> all_named cs)"
| "all_named [] = True"
| "all_named (c # cs) = (named c \<and> all_named cs)"

lemma all_named_all: "all_named cs \<longleftrightarrow> (\<forall>c\<in>set cs. named c)"
  by (induction cs) simp_all

definition normal_pane :: "split_pane \<Rightarrow> bool" where
  "normal_pane p \<longleftrightarrow> pane_ok p \<and> trim (sp_id p) = sp_id p \<and> sp_id p \<noteq> []"

definition normal_node :: "split_node \<Rightarrow> bool" where
  "normal_node n \<longleftrightarrow> shape n \<and> named n \<and> (\<forall>p\<in>set (panes n). normal_pane p)"

lemma normal_Pane [simp]: "normal_node (Pane p) \<longleftrightarrow> normal_pane p"
  by (simp add: normal_node_def)

lemma normal_create: "normal_node (createGroupNode g d cs ss) \<longleftrightarrow>
    2 \<le> length cs \<and> trim g = g \<and> g \<noteq> [] \<and> (\<forall>c\<in>set cs. normal_node c)"
  by (cases cs)
    (auto simp: normal_node_def panes_in_concat shapes_all all_named_all createGroupNode_def normalizeSizes_ok)

lemma normal_Group: "normal_node (Group g d cs ss) \<longleftrightarrow>
    2 \<le> length cs \<and> sizes_ok ss (length cs) \<and> trim g = g \<and> g \<noteq> [] \<and> (\<forall>c\<in>set cs. normal_node c)"
  by (auto simp: normal_node_def panes_in_concat shapes_all all_named_all)

lemma normal_pane_fixed:
  assumes "normal_pane q"
  shows "normalizePaneNode now q = Some (Pane q)"
proof -
  have q: "pane_ok q" "trimNonEmpty (Some (sp_id q)) = Some (sp_id q)" using assms by (simp_all add: normal_pane_def)
  have "sp_tabs q = [] \<Longrightarrow> sp_tabIds q = []" "normalizeWorkspaceTabs (sp_tabs q) = sp_tabs q"
    using q(1) by (auto simp: pane_ok_def intro!: normalizeWorkspaceTabs_id)
  with q(2) create_id [OF q(1)] show ?thesis
    by (cases "sp_tabs q = []")
      (simp_all add: normalizePaneNode_def trimmed_focus [OF q(1)] normalizeTabIds_def Let_def
        del: trimNonEmpty_Some)
qed

lemma normal_fixed:
  "normal_node n \<Longrightarrow> normalizeNode now n = Some n"
  "\<forall>c\<in>set cs. normal_node c \<Longrightarrow> normalize_children now cs = cs"
proof (induction n and cs rule: normalizeNode.induct normalize_children.induct)
  case (Group g d cs ss)
  then obtain a b as where cs: "cs = a # b # as" by (auto simp: normal_Group Suc_le_length_iff numeral_2_eq_2)
  have "trimNonEmpty (Some g) = Some g" using Group.prems by (simp add: normal_Group)
  moreover have "normalize_children now cs = cs" using Group by (simp add: normal_Group)
  moreover have "createGroupNode g d cs (Some ss) = Group g d cs ss"
    using Group.prems by (simp add: createGroupNode_def normal_Group normalizeSizes_id)
  ultimately show ?case by (simp add: cs del: trimNonEmpty_Some normalize_children.simps)
qed (simp_all add: normal_pane_fixed)

lemma normalizeNode_normal:
  "normalizeNode now n = Some m \<Longrightarrow> normal_node m"
  "\<forall>c\<in>set (normalize_children now cs). normal_node c"
proof (induction n and cs arbitrary: m and rule: normalizeNode.induct normalize_children.induct, goal_cases)
  case (1 p m)
  then obtain ts f where x: "trim (sp_id p) \<noteq> []" "createPaneNode (trim (sp_id p)) ts f (sp_hidden p) = m"
    by (auto simp: normalizePaneNode_def Let_def trimNonEmpty_def split: if_splits option.splits)
  with pane_ok_create [of "trim (sp_id p)" ts f "sp_hidden p"] obtain q where
    "m = Pane q" "pane_ok q" "sp_id q = trim (sp_id p)" by auto
  with x(1) show ?case by (simp add: normal_pane_def)
next
  case (2 g d cs ss m)
  let ?g = "trim g" and ?cs = "normalize_children now cs"
  from 2(2) have g: "?g \<noteq> []" by (auto simp: trimNonEmpty_def split: if_splits)
  from 2(2) consider (one) c where "?cs = [c]" "m = c"
    | (several) "2 \<le> length ?cs" "m = createGroupNode ?g d ?cs (Some ss)"
    by (auto simp: trimNonEmpty_def Let_def split: if_splits list.splits)
  then show ?case using 2(1) g by cases (simp_all add: normal_create)
next
  case 3
  then show ?case by simp
next
  case (4 c cs)
  then show ?case by (auto split: option.split)
qed

lemma parent_map_idem:
  assumes "\<forall>i\<in>ids. trim i = i \<and> i \<noteq> []"
  shows "normalizeParentTabMap (normalizeParentTabMap raw ids) ids = normalizeParentTabMap raw ids"
proof (cases "normalizeParentTabMap raw ids")
  case (Some m)
  let ?step = "\<lambda>(rawChildId, rawParentId) m. case (trimNonEmpty (Some rawChildId), trimNonEmpty (Some rawParentId)) of
      (Some childId, Some parentId) \<Rightarrow>
        if childId = parentId \<or> childId \<notin> ids \<or> parentId \<notin> ids then m else AList.update childId parentId m
    | _ \<Rightarrow> m"
  have m: "m \<noteq> []" "distinct (map fst m)" "\<forall>(c, p)\<in>set m. c \<noteq> p \<and> c \<in> ids \<and> p \<in> ids"
    using normalizeParentTabMap_ok [of raw ids] Some by (simp_all add: parents_ok_def)
  have "fold ?step es acc = acc @ es"
    if "distinct (map fst (acc @ es))" "\<forall>(c, p)\<in>set es. c \<noteq> p \<and> c \<in> ids \<and> p \<in> ids" for es acc
    using that
  proof (induction es arbitrary: acc)
    case (Cons e es)
    obtain c p where e: "e = (c, p)" by (cases e)
    with Cons.prems assms have "trimNonEmpty (Some c) = Some c" "trimNonEmpty (Some p) = Some p" by auto
    moreover have "AList.update c p acc = acc @ [(c, p)]" using Cons.prems(1) e by (intro update_new) auto
    ultimately have "?step e acc = acc @ [e]" using Cons.prems(2) e by (auto simp del: trimNonEmpty_Some)
    moreover have "fold ?step es (acc @ [e]) = (acc @ [e]) @ es" using Cons.prems by (intro Cons.IH) auto
    ultimately show ?case by simp
  qed simp
  from this [of "[]" m] m Some show ?thesis by (simp add: normalizeParentTabMap_def)
qed (simp add: normalizeParentTabMap_def)

definition resolved_focus :: "split_node \<Rightarrow> string \<Rightarrow> string option" where
  "resolved_focus n x = or_else (map_option sp_id (findPaneById n (Some x)))
     (or_else (map_option sp_id (first_opt (collectAllPanes n))) (Some DEFAULT_PANE_ID))"

lemma resolved_focus_idem:
  assumes n: "normal_node n" and y: "resolved_focus n x = Some y"
  shows "trimNonEmpty (Some y) = Some y \<and> resolved_focus n y = Some y"
proof -
  have pane: "trimNonEmpty (Some (sp_id p)) = Some (sp_id p) \<and> resolved_focus n (sp_id p) = Some (sp_id p)"
    if p: "p \<in> set (panes n)" for p
  proof -
    have id: "trim (sp_id p) = sp_id p" "sp_id p \<noteq> []" using n p by (simp_all add: normal_node_def normal_pane_def)
    with p obtain q where q: "findPaneById n (Some (sp_id p)) = Some q"
      using by_id_None [of n "sp_id p"] by (cases "findPaneById n (Some (sp_id p))") auto
    with by_id_Some [OF q] id show ?thesis by (auto simp: resolved_focus_def)
  qed
  consider (found) p where "findPaneById n (Some x) = Some p" "y = sp_id p"
    | (first) p where "first_opt (collectAllPanes n) = Some p" "y = sp_id p"
    | (none) "first_opt (collectAllPanes n) = None" "y = DEFAULT_PANE_ID"
    using y by (auto simp: resolved_focus_def or_else_def split: option.splits)
  then show ?thesis
  proof cases
    case found
    with pane [of p] by_id_Some [OF found(1)] show ?thesis by blast
  next
    case first
    then have "p \<in> set (collectAllPanes n)" by (auto simp: first_opt_def split: list.splits)
    then have "p \<in> set (panes n)" by (simp add: collectAllPanes_panes)
    with pane [of p] first(2) show ?thesis by blast
  next
    case none
    have "trimNonEmpty (Some DEFAULT_PANE_ID) = Some DEFAULT_PANE_ID" by code_simp
    with none by_id_Some [of n "Some DEFAULT_PANE_ID"] show ?thesis
      by (auto simp: resolved_focus_def or_else_def split: option.split)
  qed
qed

lemma default_normal: "tab_ok (new_tab_of env) \<Longrightarrow> normal_node (wl_root (createDefaultLayout env))"
proof (erule default_pane)
  fix q assume "createPaneNode DEFAULT_PANE_ID [new_tab_of env] None False = Pane q" "pane_ok q"
    "sp_id q = DEFAULT_PANE_ID" "sp_tabs q = [new_tab_of env]"
  moreover have "trim DEFAULT_PANE_ID = DEFAULT_PANE_ID" by code_simp
  ultimately show ?thesis by (simp add: createDefaultLayout_def normal_pane_def DEFAULT_PANE_ID_def)
qed

lemma normalizeLayout_root:
  "tab_ok (new_tab_of env) \<Longrightarrow> normal_node (wl_root (normalizeLayout env l))"
  using normalizeNode_normal(1) [of "fe_now env" "wl_root l"] default_normal [of env]
  by (cases "normalizeNode (fe_now env) (wl_root l)") (simp_all add: normalizeLayout_def Let_def)

text \<open>In exact arithmetic, where sizes are normalised to fixed values, normalising a layout again changes nothing.\<close>

lemma normalizeLayout_idempotent:
  assumes "tab_ok (new_tab_of env)"
  shows "normal_node (wl_root (normalizeLayout env l)) \<and>
    parents_ok (wl_parents (normalizeLayout env l)) (open_tab_ids (wl_root (normalizeLayout env l))) \<and>
    normalizeLayout env (normalizeLayout env l) = normalizeLayout env l"
proof -
  let ?l = "normalizeLayout env l" and ?n = "wl_root (normalizeLayout env l)"
  note n = normalizeLayout_root [OF assms, of l]
  have parents: "wl_parents ?l = normalizeParentTabMap (wl_parents l) (open_tab_ids ?n)"
    by (simp add: normalizeLayout_def Let_def)
  have focus: "wl_focusedPaneId (normalizeLayout env m) =
      Option.bind (trimNonEmpty (wl_focusedPaneId m)) (resolved_focus (wl_root (normalizeLayout env m)))" for m
    by (cases "trimNonEmpty (wl_focusedPaneId m)")
      (simp_all add: normalizeLayout_def Let_def resolved_focus_def del: trimNonEmpty_Some trimNonEmpty_None)
  have again: "wl_root (normalizeLayout env ?l) = ?n"
    using normal_fixed(1) [OF n] by (simp add: normalizeLayout_def [of env ?l] Let_def)
  have "\<forall>p\<in>set (panes ?n). \<forall>t\<in>set (sp_tabs p). tab_ok t"
    using n by (auto simp: normal_node_def normal_pane_def pane_ok_def)
  then have trimmed: "\<forall>i\<in>open_tab_ids ?n. trim i = i \<and> i \<noteq> []"
    by (force simp: open_tab_ids_panes mem_tab_ids tab_ok_def)
  have "wl_parents (normalizeLayout env ?l) = wl_parents ?l"
    using parent_map_idem [OF trimmed, of "wl_parents l"] normal_fixed(1) [OF n]
    by (simp add: normalizeLayout_def [of env ?l] Let_def flip: parents)
  moreover have "wl_focusedPaneId (normalizeLayout env ?l) =
      Option.bind (trimNonEmpty (wl_focusedPaneId ?l)) (resolved_focus ?n)"
    using focus [of ?l] again by simp
  moreover have "Option.bind (trimNonEmpty (wl_focusedPaneId ?l)) (resolved_focus ?n) = wl_focusedPaneId ?l"
  proof (cases "wl_focusedPaneId ?l")
    case (Some y)
    then obtain x where "resolved_focus ?n x = Some y" using focus [of l] by (auto simp: bind_eq_Some_conv)
    from resolved_focus_idem [OF n this] show ?thesis unfolding Some by (simp del: trimNonEmpty_Some)
  qed (simp add: trimNonEmpty_def)
  ultimately have "normalizeLayout env ?l = ?l" using again by simp
  then show ?thesis using n normalizeParentTabMap_ok parents by simp
qed

subsection \<open>The structure without the sizes\<close>

text \<open>
  The code computes sizes in floating point numbers, which a second pass may change in the last digit.  What
  does not depend on the arithmetic is the structure: the layout with all sizes erased.
\<close>

primrec erase :: "split_node \<Rightarrow> split_node" and erase_all :: "split_node list \<Rightarrow> split_node list" where
  "erase (Pane p) = Pane p"
| "erase (Group g d cs ss) = Group g d (erase_all cs) []"
| "erase_all [] = []"
| "erase_all (c # cs) = erase c # erase_all cs"

definition structure_of :: "workspace_layout \<Rightarrow> workspace_layout" where
  "structure_of l = l\<lparr>wl_root := erase (wl_root l)\<rparr>"

lemma erase_all_map: "erase_all cs = map erase cs"
  by (induction cs) simp_all

lemma erase_find:
  "find_pane P (erase n) = find_pane P n" "find_pane_in P (erase_all cs) = find_pane_in P cs"
  by (induction n and cs rule: erase.induct erase_all.induct) (simp_all split: option.split)

lemma erase_panes:
  "collectAllPanes (erase n) = collectAllPanes n" "panes_of_children (erase_all cs) = panes_of_children cs"
  by (induction n and cs rule: erase.induct erase_all.induct) simp_all

lemma erase_tabs:
  "collectAllTabs (erase n) = collectAllTabs n" "tabs_of_children (erase_all cs) = tabs_of_children cs"
  by (induction n and cs rule: erase.induct erase_all.induct) simp_all

lemma erase_same:
  assumes "erase n = erase m"
  shows "findPaneById n = findPaneById m" "collectAllPanes n = collectAllPanes m" "open_tab_ids n = open_tab_ids m"
proof -
  have "find_pane P n = find_pane P m" for P using assms erase_find(1) [of P n] erase_find(1) [of P m] by simp
  then show "findPaneById n = findPaneById m" by (auto simp: findPaneById_def split: option.split)
  show "collectAllPanes n = collectAllPanes m" using assms erase_panes(1) [of n] erase_panes(1) [of m] by simp
  show "open_tab_ids n = open_tab_ids m" using assms erase_tabs(1) [of n] erase_tabs(1) [of m] by (simp add: open_tab_ids_def)
qed

lemma erase_create [simp]: "erase (createGroupNode g d cs ss) = Group g d (map erase cs) []"
  by (simp add: createGroupNode_def erase_all_map)

lemma erase_normalize:
  "erase n = erase m \<Longrightarrow> map_option erase (normalizeNode now n) = map_option erase (normalizeNode now m)"
  "erase_all cs = erase_all ds \<Longrightarrow> map erase (normalize_children now cs) = map erase (normalize_children now ds)"
proof (induction n and cs arbitrary: m and ds rule: normalizeNode.induct normalize_children.induct)
  case (Pane p)
  then show ?case by (cases m) simp_all
next
  case (Group g d cs ss)
  then obtain ds ts where m: "m = Group g d ds ts" "erase_all cs = erase_all ds" by (cases m) auto
  have c: "map erase (normalize_children now cs) = map erase (normalize_children now ds)" by (rule Group.IH [OF m(2)])
  have "map_option erase (case xs of [] \<Rightarrow> None | [only] \<Rightarrow> Some only | several \<Rightarrow> Some (createGroupNode i d several (Some ss))) =
      map_option erase (case ys of [] \<Rightarrow> None | [only] \<Rightarrow> Some only | several \<Rightarrow> Some (createGroupNode i d several (Some ts)))"
    if "map erase xs = map erase ys" for xs ys i
    using that by (cases xs; cases "tl xs"; cases ys; cases "tl ys") auto
  note several = this [OF c]
  show ?case
  proof (cases "trimNonEmpty (Some g)")
    case None
    show ?thesis unfolding m(1) normalizeNode.simps None option.case by (rule refl)
  next
    case (Some i)
    show ?thesis unfolding m(1) normalizeNode.simps Some option.case by (rule several)
  qed
next
  case (Cons_split_node c cs)
  then obtain e es where ds: "ds = e # es" "erase c = erase e" "erase_all cs = erase_all es" by (cases ds) auto
  with Cons_split_node.IH(1) [of e] Cons_split_node.IH(2) [of es] show ?case
    by (cases "normalizeNode now c"; cases "normalizeNode now e") simp_all
qed (auto simp: erase_all_map)

text \<open>The structure of the normal form is a function of the structure of the layout.\<close>

lemma structure_of_normal:
  assumes "structure_of k = structure_of l"
  shows "structure_of (normalizeLayout env k) = structure_of (normalizeLayout env l)"
proof -
  have e: "erase (wl_root k) = erase (wl_root l)" "wl_focusedPaneId k = wl_focusedPaneId l" "wl_parents k = wl_parents l"
    using assms by (cases k; cases l; simp add: structure_of_def)+
  have "map_option erase (normalizeNode (fe_now env) (wl_root k)) = map_option erase (normalizeNode (fe_now env) (wl_root l))"
    by (rule erase_normalize(1) [OF e(1)])
  then have root: "erase (wl_root (normalizeLayout env k)) = erase (wl_root (normalizeLayout env l))"
    by (cases "normalizeNode (fe_now env) (wl_root k)"; cases "normalizeNode (fe_now env) (wl_root l)")
      (simp_all add: normalizeLayout_def Let_def)
  note same = erase_same [OF root]
  have focus: "wl_focusedPaneId (normalizeLayout env m) =
      Option.bind (trimNonEmpty (wl_focusedPaneId m)) (resolved_focus (wl_root (normalizeLayout env m)))" for m
    by (cases "trimNonEmpty (wl_focusedPaneId m)")
      (simp_all add: normalizeLayout_def Let_def resolved_focus_def del: trimNonEmpty_Some trimNonEmpty_None)
  have "resolved_focus (wl_root (normalizeLayout env k)) = resolved_focus (wl_root (normalizeLayout env l))"
    by (rule ext) (simp add: resolved_focus_def same)
  then have "wl_focusedPaneId (normalizeLayout env k) = wl_focusedPaneId (normalizeLayout env l)"
    by (simp add: focus e(2))
  moreover have parents: "wl_parents (normalizeLayout env m) =
      normalizeParentTabMap (wl_parents m) (open_tab_ids (wl_root (normalizeLayout env m)))" for m
    by (simp add: normalizeLayout_def Let_def)
  ultimately show ?thesis using root by (simp add: structure_of_def parents same(3) e(3))
qed

text \<open>Groups of at least two nodes with trimmed ids and a size for every node, whatever the sizes.\<close>

primrec framed :: "split_node \<Rightarrow> bool" and all_framed :: "split_node list \<Rightarrow> bool" where
  "framed (Pane p) = True"
| "framed (Group g d cs ss) = (2 \<le> length cs \<and> length ss = length cs \<and> trim g = g \<and> g \<noteq> [] \<and> all_framed cs)"
| "all_framed [] = True"
| "all_framed (c # cs) = (framed c \<and> all_framed cs)"

lemma normal_framed: "normal_node n \<Longrightarrow> framed n" "\<forall>c\<in>set cs. normal_node c \<Longrightarrow> all_framed cs"
  by (induction n and cs rule: framed.induct all_framed.induct) (auto simp: normal_Group sizes_ok_def)

text \<open>
  C32: the normal form of a layout has groups of at least two nodes with a size for each, panes with
  normal tabs and a focused tab of their own, and parents among the open tabs.  Its structure, that is
  everything but the sizes, depends on the structure of the layout alone, and it is settled: a layout with the
  structure of a normal form, whatever its sizes, keeps that structure when it is normalised (again).
\<close>

theorem normalizeLayout_settles_structure:
  assumes "tab_ok (new_tab_of env)"
  shows "framed (wl_root (normalizeLayout env l)) \<and> (\<forall>p\<in>set (panes (wl_root (normalizeLayout env l))). normal_pane p) \<and>
    parents_ok (wl_parents (normalizeLayout env l)) (open_tab_ids (wl_root (normalizeLayout env l))) \<and>
    (\<forall>k. structure_of k = structure_of l \<longrightarrow>
       structure_of (normalizeLayout env k) = structure_of (normalizeLayout env l)) \<and>
    (\<forall>k. structure_of k = structure_of (normalizeLayout env l) \<longrightarrow>
       structure_of (normalizeLayout env k) = structure_of k)"
proof -
  note idem = normalizeLayout_idempotent [OF assms, of l]
  then have "structure_of (normalizeLayout env k) = structure_of k"
    if "structure_of k = structure_of (normalizeLayout env l)" for k
    using structure_of_normal [OF that, of env] that by simp
  moreover have "framed (wl_root (normalizeLayout env l))" using idem normal_framed(1) by blast
  moreover have "\<forall>p\<in>set (panes (wl_root (normalizeLayout env l))). normal_pane p" using idem by (simp add: normal_node_def)
  ultimately show ?thesis using idem structure_of_normal by blast
qed

theorem normalizeLayout_settles_structure_witness:
  "let env = \<lparr>fe_messageId = ''m1'', fe_now = 0\<rparr>; l = \<lparr>wl_root = Group '' g '' Horizontal
      [Pane \<lparr>sp_id = '' a '', sp_tabIds = [''t1''], sp_focusedTabId = None, sp_hidden = False, sp_tabs = []\<rparr>]
      [3], wl_focusedPaneId = Some ''b'', wl_parents = None\<rparr>
   in structure_of (normalizeLayout env (normalizeLayout env l)) = structure_of (normalizeLayout env l) \<and>
      wl_focusedPaneId (normalizeLayout env l) = Some ''a''"
proof -
  let ?env = "\<lparr>fe_messageId = ''m1'', fe_now = 0\<rparr>"
  have "tab_ok (new_tab_of ?env)" by (simp add: tab_ok_def new_tab_of_def createNewWorkspaceTab_def
      normalizeWorkspaceTabTarget_def) code_simp
  note settled = normalizeLayout_settles_structure [OF this]
  have "structure_of (normalizeLayout ?env (normalizeLayout ?env l)) = structure_of (normalizeLayout ?env l)" for l
    using settled [of l] by blast
  moreover have "wl_focusedPaneId (normalizeLayout ?env \<lparr>wl_root = Group '' g '' Horizontal
      [Pane \<lparr>sp_id = '' a '', sp_tabIds = [''t1''], sp_focusedTabId = None, sp_hidden = False, sp_tabs = []\<rparr>]
      [3], wl_focusedPaneId = Some ''b'', wl_parents = None\<rparr>) = Some ''a''"
    by code_simp
  ultimately show ?thesis by (simp only: Let_def simp_thms)
qed

section \<open>Storing and reading back\<close>

definition durable :: "split_pane \<Rightarrow> workspace_tab list" where
  "durable p = filter (\<lambda>t. \<not> isEphemeralTab t) (sp_tabs p)"

lemma filter_all: "length (filter P xs) = length xs \<Longrightarrow> filter P xs = xs"
proof (induction xs)
  case (Cons x xs)
  then show ?case using length_filter_le [of P xs] by (cases "P x") simp_all
qed simp

lemma strip_normal:
  "normal_node n \<Longrightarrow> normal_node (stripEphemeralTabsFromNode n) \<and>
     list_all2 (\<lambda>p q. sp_id q = sp_id p \<and> sp_hidden q = sp_hidden p \<and> sp_tabs q = durable p)
       (panes n) (panes (stripEphemeralTabsFromNode n))"
  "\<forall>c\<in>set cs. normal_node c \<Longrightarrow> length (strip_children cs) = length cs \<and>
     (\<forall>c\<in>set (strip_children cs). normal_node c) \<and>
     list_all2 (\<lambda>p q. sp_id q = sp_id p \<and> sp_hidden q = sp_hidden p \<and> sp_tabs q = durable p)
       (panes_in cs) (panes_in (strip_children cs))"
proof (induction n and cs rule: stripEphemeralTabsFromNode.induct strip_children.induct)
  case (Pane p)
  then have p: "normal_pane p" by simp
  show ?case
  proof (cases "length (durable p) = length (sp_tabs p)")
    case True
    then have "durable p = sp_tabs p" by (simp add: durable_def filter_all)
    with True p show ?thesis by (simp add: Let_def flip: durable_def)
  next
    case False
    have "normalizeWorkspaceTabs (durable p) = durable p"
      using p by (intro normalizeWorkspaceTabs_id)
        (auto simp: durable_def normal_pane_def pane_ok_def distinct_map_filter)
    with pane_ok_create [of "sp_id p" "durable p" "sp_focusedTabId p" "sp_hidden p"] False p show ?thesis
      by (auto simp: Let_def normal_pane_def simp flip: durable_def)
  qed
next
  case (Group g d cs ss)
  then show ?case by (simp add: normal_Group normal_create)
qed (simp_all add: list_all2_appendI)

definition refilled :: "string option \<Rightarrow> split_pane \<Rightarrow> split_pane \<Rightarrow> bool" where
  "refilled explorer p q \<longleftrightarrow> (if sp_tabs p \<noteq> [] then q = p
     else sp_id q = sp_id p \<and> sp_hidden q = sp_hidden p \<and> map wt_target (sp_tabs q) =
       (if Some (sp_id p) = explorer then [FilesTab, ChangesTree] else [NewTab]))"

lemma restore_panes:
  assumes "\<forall>k. tab_ok (new_tab_of (envs k))"
  shows "list_all2 (refilled explorer) (panes n) (panes (fst (restoreEmptyPanesInNode envs explorer n k)))"
    and "list_all2 (refilled explorer) (panes_in cs) (panes_in (fst (restore_children envs explorer cs k)))"
proof (induction n and cs arbitrary: k and k rule: restoreEmptyPanesInNode.induct restore_children.induct)
  case (Pane p)
  let ?ts = "if Some (sp_id p) = explorer then createDefaultExplorerSidebarTabs (fe_now (envs k))
    else [new_tab_of (envs k)]"
  have "normalizeWorkspaceTabs ?ts = ?ts"
    using assms explorer_tabs by (intro normalizeWorkspaceTabs_id) auto
  with pane_ok_create [of "sp_id p" ?ts None "sp_hidden p"] show ?case
    by (auto simp: refilled_def createDefaultExplorerSidebarTabs_def new_tab_of_def createNewWorkspaceTab_def)
qed (simp_all add: Let_def split_def list_all2_appendI)

text \<open>
  Storing a layout and reading it back keeps every pane, with its durable tabs in order; a pane
  that had only ephemeral tabs comes back with a new tab, or with the two explorer tabs when it is
  the explorer.
\<close>

lemma stored_layout_comes_back:
  assumes "normal_node (wl_root l)" and "\<forall>k. tab_ok (new_tab_of (envs k))"
  shows "list_all2 (\<lambda>p q. sp_id q = sp_id p \<and> sp_hidden q = sp_hidden p \<and>
      (if durable p \<noteq> [] then sp_tabs q = durable p
       else map wt_target (sp_tabs q) = (if Some (sp_id p) = explorer then [FilesTab, ChangesTree] else [NewTab])))
    (panes (wl_root l))
    (panes (wl_root (restoreEmptyPanesInLayout env envs (stripEphemeralTabsFromLayout l) explorer)))"
proof -
  let ?s = "stripEphemeralTabsFromNode (wl_root l)"
  note strip = strip_normal(1) [OF assms(1)]
  have "wl_root (normalizeLayout env (stripEphemeralTabsFromLayout l)) = ?s"
    using normal_fixed(1) [of ?s] strip
    by (simp add: normalizeLayout_def stripEphemeralTabsFromLayout_def Let_def)
  then have "wl_root (restoreEmptyPanesInLayout env envs (stripEphemeralTabsFromLayout l) explorer) =
      fst (restoreEmptyPanesInNode envs explorer ?s 0)" by (simp add: restoreEmptyPanesInLayout_def Let_def)
  then show ?thesis
    by (simp only:, intro list_all2_trans [OF _ conjunct2 [OF strip] restore_panes(1) [OF assms(2)]])
      (auto simp: refilled_def)
qed

theorem stored_layout_comes_back_witness:
  "let env = \<lparr>fe_messageId = ''m1'', fe_now = 0\<rparr>;
       l = createWorkspaceLayoutWithExplorerSidebar env;
       back = restoreEmptyPanesInLayout env (\<lambda>_. env) (stripEphemeralTabsFromLayout l) (Some EXPLORER_SIDEBAR_PANE_ID)
   in list_all2 (\<lambda>p q. sp_id q = sp_id p \<and> sp_hidden q = sp_hidden p \<and>
        (if durable p \<noteq> [] then sp_tabs q = durable p
         else map wt_target (sp_tabs q) =
           (if Some (sp_id p) = Some EXPLORER_SIDEBAR_PANE_ID then [FilesTab, ChangesTree] else [NewTab])))
      (panes (wl_root l)) (panes (wl_root back))"
proof -
  let ?env = "\<lparr>fe_messageId = ''m1'', fe_now = 0\<rparr>"
  have "tab_ok (new_tab_of ?env)" by (simp add: tab_ok_def new_tab_of_def createNewWorkspaceTab_def
      normalizeWorkspaceTabTarget_def) code_simp
  moreover have "normal_node (wl_root (createWorkspaceLayoutWithExplorerSidebar ?env))" by code_simp
  ultimately show ?thesis unfolding Let_def by (intro stored_layout_comes_back) simp_all
qed

end
