(* ===== verification/Layout_Safety.thy ===== *)
theory Layout_Safety
  imports Layout_Normal
begin

text \<open>
  The layouts a workspace can reach: the actions of the user as data, the step each takes, and the
  guarantees that hold along every sequence of steps.  The last section runs two sequences of calls
  in which the operations break what their comments say.
\<close>

section \<open>Actions\<close>

datatype layout_action =
    FocusTab string
  | SelectTab string string
  | CloseTab string "string option"
  | ClosePane string "string option"
  | SetPaneHidden string bool
  | FocusPane string
  | MoveTab string string "string option"
  | OpenFocused tab_target tab_placement "string option"
  | OpenBackground tab_target tab_placement "string option"
  | RevealTarget tab_target tab_placement "string option" "json_value option"
  | CreateTab tab_target tab_placement "string option" string "json_value option"
  | Retarget string tab_target
  | ReplaceTarget string tab_target string "json_value option"
  | SetTabState string "json_value option"
  | ConvertDraft string string
  | SplitPane string string split_position nat
  | SplitPaneEmpty string split_position nat
  | SplitRootRight nat
  | ResizeSplit string "rat list"
  | ReorderPane string "string list"
  | ReorderFocused "string list"

definition or_same :: "workspace_layout \<Rightarrow> string + workspace_layout option \<Rightarrow> string + workspace_layout" where
  "or_same l result = bind_sum result (\<lambda>r. Inr (default l r))"

definition or_same_id ::
  "workspace_layout \<Rightarrow> string + (workspace_layout \<times> string) option \<Rightarrow> string + workspace_layout" where
  "or_same_id l result = bind_sum result (\<lambda>r. Inr (case r of None \<Rightarrow> l | Some (m, _) \<Rightarrow> m))"

fun run_action ::
  "fresh_env \<Rightarrow> (node_id_prefix \<Rightarrow> string) \<Rightarrow> workspace_layout \<Rightarrow> layout_action \<Rightarrow> string + workspace_layout"
where
  "run_action env ids l (FocusTab i) = or_same l (focusTabInLayout l i)"
| "run_action env ids l (SelectTab x i) = or_same l (selectTabInPaneInLayout l x i)"
| "run_action env ids l (CloseTab i preserve) = or_same l (closeTabInLayout env l i preserve)"
| "run_action env ids l (ClosePane x explorer) = or_same l (closePaneInLayout env l x explorer)"
| "run_action env ids l (SetPaneHidden x hidden) = or_same l (setPaneHiddenInLayout l x hidden)"
| "run_action env ids l (FocusPane x) = or_same l (focusPaneInLayout l x)"
| "run_action env ids l (MoveTab i x explorer) = or_same l (moveTabToPaneInLayout env l i x explorer)"
| "run_action env ids l (OpenFocused target pl explorer) =
     or_same_id l (openTabInLayoutFocused env l target (fe_now env) pl explorer)"
| "run_action env ids l (OpenBackground target pl explorer) =
     or_same_id l (openTabInLayoutBackground l target (fe_now env) pl explorer)"
| "run_action env ids l (RevealTarget target pl explorer state) =
     or_same_id l (revealTargetInLayout env l target (fe_now env) pl explorer state)"
| "run_action env ids l (CreateTab target pl explorer created state) =
     or_same_id l (createTabInLayout l target (fe_now env) pl explorer (Inr created) state)"
| "run_action env ids l (Retarget i target) = or_same_id l (retargetTabInLayout env l i target)"
| "run_action env ids l (ReplaceTarget i target created state) =
     or_same_id l (replaceTabTargetInLayout l i target created state)"
| "run_action env ids l (SetTabState i state) = or_same l (setTabStateInLayout l i state)"
| "run_action env ids l (ConvertDraft i a) = or_same_id l (convertDraftToAgentInLayout env l i a)"
| "run_action env ids l (SplitPane i x position depth) =
     or_same_id l (splitPaneInLayout env ids l i x position depth)"
| "run_action env ids l (SplitPaneEmpty x position depth) =
     or_same_id l (splitPaneEmptyInLayout env ids l x position depth)"
| "run_action env ids l (SplitRootRight depth) =
     or_same_id l (Inr (splitWorkspaceRootRightInLayout env ids l depth))"
| "run_action env ids l (ResizeSplit g sizes) = resizeSplitInLayout l g sizes"
| "run_action env ids l (ReorderPane x tabs) = or_same l (reorderPaneTabsInLayout l x tabs)"
| "run_action env ids l (ReorderFocused tabs) = or_same l (reorderFocusedPaneTabsInLayout l tabs)"

text \<open>What a caller has to know: targets are normal, and ids of new tabs and panes are not in use.\<close>

fun admissible :: "(node_id_prefix \<Rightarrow> string) \<Rightarrow> split_node \<Rightarrow> layout_action \<Rightarrow> bool" where
  "admissible ids n (OpenFocused target _ _) = openable target n"
| "admissible ids n (OpenBackground target _ _) = openable target n"
| "admissible ids n (RevealTarget target _ _ _) = openable target n"
| "admissible ids n (CreateTab target _ _ created _) =
     (normalizeWorkspaceTabTarget target = Some target \<and> free_id (Inr created) n)"
| "admissible ids n (Retarget i target) = retargetable i target n"
| "admissible ids n (ReplaceTarget i target created _) =
     (normalizeWorkspaceTabTarget target = Some target \<and> free_id (Inr created) n \<and>
      (kind_of target = KDraft \<longrightarrow> retargetable i target n))"
| "admissible ids n (ConvertDraft i a) = (normalizeWorkspaceTabTarget (AgentTab a) = Some (AgentTab a))"
| "admissible ids n (SplitPane _ _ _ _) = fresh_pane ids n"
| "admissible ids n (SplitPaneEmpty _ _ _) = fresh_pane ids n"
| "admissible ids n (SplitRootRight _) = fresh_pane ids n"
| "admissible ids n _ = True"

inductive reachable :: "workspace_layout \<Rightarrow> bool" where
  single: "tab_ok (new_tab_of env) \<Longrightarrow> reachable (createDefaultLayout env)"
| with_explorer: "tab_ok (new_tab_of env) \<Longrightarrow> reachable (createWorkspaceLayoutWithExplorerSidebar env)"
| act: "reachable l \<Longrightarrow> fresh_for env (wl_root l) \<Longrightarrow> admissible ids (wl_root l) a \<Longrightarrow>
    run_action env ids l a = Inr m \<Longrightarrow> reachable m"

section \<open>Safety\<close>

lemma or_same_wf:
  "wf_layout l \<Longrightarrow> returns_wf r \<Longrightarrow> \<exists>m. or_same l r = Inr m \<and> wf_layout m"
  "wf_layout l \<Longrightarrow> returns_wf_id r' \<Longrightarrow> \<exists>m. or_same_id l r' = Inr m \<and> wf_layout m"
proof -
  show "\<exists>m. or_same l r = Inr m \<and> wf_layout m" if "wf_layout l" "returns_wf r"
  proof -
    from that(2) obtain r' where "r = Inr r'" "\<forall>m. r' = Some m \<longrightarrow> wf_layout m" by (auto simp: returns_wf_def)
    with that(1) show ?thesis by (cases r') (simp_all add: or_same_def)
  qed
  show "\<exists>m. or_same_id l r' = Inr m \<and> wf_layout m" if "wf_layout l" "returns_wf_id r'"
    using that by (auto simp: returns_wf_id_def or_same_id_def split: option.split)
qed

lemma action_ok:
  assumes wf: "wf_layout l" and fresh: "fresh_for env (wl_root l)" and ok: "admissible ids (wl_root l) a"
  shows "\<exists>m. run_action env ids l a = Inr m \<and> wf_layout m"
proof -
  have new: "tab_ok (new_tab_of env)" using fresh by (simp add: fresh_for_def)
  note same = or_same_wf [OF wf]
  show ?thesis
  proof (cases a)
    case (OpenFocused target pl explorer)
    with ok openFocused_ok(1) [OF wf fresh] show ?thesis by (simp add: same(2))
  next
    case (OpenBackground target pl explorer)
    with ok openBackground_ok [OF wf] show ?thesis by (simp add: same(2))
  next
    case (RevealTarget target pl explorer state)
    with ok openFocused_ok(2) [OF wf fresh] show ?thesis by (simp add: same(2))
  next
    case (CreateTab target pl explorer created state)
    with ok insertNew_ok [OF wf] show ?thesis by (simp add: same(2) createTabInLayout_def)
  next
    case (Retarget i target)
    with ok retarget_ok [OF wf fresh] show ?thesis by (simp add: same(2))
  next
    case (ReplaceTarget i target created state)
    with ok replaceTarget_ok [OF wf] show ?thesis by (simp add: same(2))
  next
    case (ConvertDraft i a)
    with ok convertDraft_ok [OF wf fresh] show ?thesis by (simp add: same(2))
  next
    case (SplitPane i x position depth)
    with ok splitPane_ok [OF wf fresh] show ?thesis by (simp add: same(2))
  next
    case (SplitPaneEmpty x position depth)
    with ok splitEmpty_ok [OF wf fresh] show ?thesis by (simp add: same(2))
  next
    case (SplitRootRight depth)
    have "returns_wf_id (Inr (splitWorkspaceRootRightInLayout env ids l depth))"
      using splitRoot_ok [OF wf fresh] ok SplitRootRight by (auto simp: returns_wf_id_def)
    with SplitRootRight show ?thesis by (simp add: same(2))
  qed (simp_all add: same focusTab_ok selectTab_ok closeTab_ok closePane_ok setHidden_ok focusPane_ok moveTab_ok
      setState_ok resize_ok reorder_ok reorderFocused_ok wf fresh new)
qed

lemma reachable_wf: "reachable l \<Longrightarrow> wf_layout l"
proof (induction rule: reachable.induct)
  case (act l env ids a m)
  then show ?case using action_ok [of l env ids a] by auto
qed (simp_all add: createDefaultLayout_wf createWorkspaceLayout_wf)

text \<open>
  C1: in every layout a workspace can reach the tree is well-formed (every group has at least two
  nodes and sizes that add up to one, every pane a tab, an id of its own and a focus among its tabs,
  and no tab id occurs twice), and every further operation with fresh ids returns: none of the
  \<open>invariant\<close>s in the code fails.
\<close>

theorem layout_actions_safe:
  assumes "reachable l" and "fresh_for env (wl_root l)" and "admissible ids (wl_root l) a"
  shows "wf_layout l \<and> (\<exists>m. run_action env ids l a = Inr m \<and> reachable m)"
  using action_ok [OF reachable_wf [OF assms(1)] assms(2,3)] reachable.act [OF assms] reachable_wf [OF assms(1)] by blast

lemma new_tab_ok: "trim m = m \<Longrightarrow> trim (''tab_'' @ m) = ''tab_'' @ m \<Longrightarrow> tab_ok (new_tab_of \<lparr>fe_messageId = m, fe_now = t\<rparr>)"
  by (simp add: tab_ok_def new_tab_of_def createNewWorkspaceTab_def normalizeWorkspaceTabTarget_def
      normalizeSimpleWorkspaceTabTarget_def)

theorem layout_actions_safe_witness:
  "let l = createWorkspaceLayoutWithExplorerSidebar \<lparr>fe_messageId = ''m1'', fe_now = 0\<rparr>;
       env = \<lparr>fe_messageId = ''m2'', fe_now = 1\<rparr>;
       ids = (\<lambda>p. if p = PanePrefix then ''pane-2'' else ''group-2'')
   in \<exists>m. run_action env ids l (SplitPaneEmpty ''main'' RightOf 4) = Inr m \<and> reachable m"
proof -
  let ?l = "createWorkspaceLayoutWithExplorerSidebar \<lparr>fe_messageId = ''m1'', fe_now = 0\<rparr>"
  let ?env = "\<lparr>fe_messageId = ''m2'', fe_now = 1\<rparr>"
  let ?ids = "\<lambda>p. if p = PanePrefix then ''pane-2'' else ''group-2''"
  have "tab_ok (new_tab_of \<lparr>fe_messageId = ''m1'', fe_now = 0\<rparr>)" "tab_ok (new_tab_of ?env)"
    by (rule new_tab_ok; code_simp)+
  moreover have "wt_tabId (new_tab_of ?env) \<notin> set (tab_ids (panes (wl_root ?l)))" by code_simp
  moreover have "admissible ?ids (wl_root ?l) (SplitPaneEmpty ''main'' RightOf 4)" by code_simp
  ultimately show ?thesis
    unfolding Let_def
    by (intro layout_actions_safe [THEN conjunct2] reachable.with_explorer) (simp_all add: fresh_for_def)
qed

end
