(* ===== verification/Layout_Content.thy ===== *)
theory Layout_Content
  imports Layout_Safety "HOL-Library.Multiset"
begin

text \<open>
  What the operations do to the tabs themselves.  The content of a layout is the multiset of its tabs
  other than the placeholder \<open>new_tab\<close>s that fill empty panes.
\<close>

definition pane_content :: "split_pane \<Rightarrow> workspace_tab multiset" where
  "pane_content p = filter_mset (\<lambda>t. wt_target t \<noteq> NewTab) (mset (sp_tabs p))"

primrec content :: "split_pane list \<Rightarrow> workspace_tab multiset" where
  "content [] = {#}"
| "content (p # ps) = pane_content p + content ps"

definition content_of :: "workspace_layout \<Rightarrow> workspace_tab multiset" where
  "content_of l = content (panes (wl_root l))"

definition tab_content :: "workspace_tab \<Rightarrow> workspace_tab multiset" where
  "tab_content t = (if wt_target t = NewTab then {#} else {#t#})"

lemma content_append [simp]: "content (ps @ qs) = content ps + content qs"
  by (induction ps) (simp_all add: ac_simps)

lemma content_collect: "content (panes n) = filter_mset (\<lambda>t. wt_target t \<noteq> NewTab) (mset (collectAllTabs n))"
proof -
  have "content ps = filter_mset (\<lambda>t. wt_target t \<noteq> NewTab) (mset (concat (map sp_tabs ps)))" for ps
    by (induction ps) (simp_all add: pane_content_def)
  then show ?thesis by (simp add: collectAllTabs_panes)
qed

lemma content_relaid [simp]: "content_of (relaid l n f) = content (panes n)"
  by (simp add: content_of_def)

lemma content_new: "sp_tabs q = [new_tab_of env] \<Longrightarrow> pane_content q = {#}"
  by (simp add: pane_content_def new_tab_of_def createNewWorkspaceTab_def)

lemma content_one: "sp_tabs q = [t] \<Longrightarrow> pane_content q = tab_content t"
  by (simp add: pane_content_def tab_content_def)

lemma content_set:
  assumes "panes_ok ps" and "p \<in> set ps" and "sp_id p' = sp_id p"
  shows "content (set_pane p' ps) + pane_content p = content ps + pane_content p'"
proof -
  from splitsE [OF assms(2)] obtain xs ys where ps: "ps = xs @ p # ys" .
  with assms set_pane_split [of xs p ys p'] have "set_pane p' ps = xs @ p' # ys" by (simp add: panes_ok_def)
  then show ?thesis by (simp add: ps ac_simps)
qed

lemma mset_filter_key:
  assumes "distinct (map f xs)" and "t \<in> set xs"
  shows "mset (filter (\<lambda>u. f u \<noteq> f t) xs) + {#t#} = mset xs"
proof -
  from split_list [OF assms(2)] obtain as bs where xs: "xs = as @ t # bs" by blast
  with assms(1) have "filter (\<lambda>u. f u \<noteq> f t) as = as" "filter (\<lambda>u. f u \<noteq> f t) bs = bs"
    by (auto simp: filter_id_conv image_iff)
  then show ?thesis by (simp add: xs)
qed

lemma content_without:
  assumes "pane_ok p" and "t \<in> set (sp_tabs p)"
  shows "pane_content (without_tab p (wt_tabId t)) + tab_content t = pane_content p"
proof -
  have "distinct (map wt_tabId (sp_tabs p))" using assms(1) by (auto simp: pane_ok_def)
  from arg_cong [OF mset_filter_key [OF this assms(2)], of "filter_mset (\<lambda>t. wt_target t \<noteq> NewTab)"] show ?thesis
    by (simp add: pane_content_def sp_tabs_without [OF assms(1)] tab_content_def split: if_splits)
qed

text \<open>Detaching takes the tab away and adds at most a new tab; inserting adds the tab.\<close>

lemma content_detach:
  assumes "wf_tree n" and "fresh_for env n" and "detachTabFromTree env n i preserve = Inr d" and "dr_tab d = Some t"
  shows "content (panes (dr_root d)) + tab_content t = content (panes n) \<and> wt_tabId t = i"
proof -
  from assms(3,4) obtain path where "findPanePathContainingTab n i = Some path"
    by (auto simp: detachTabFromTree_def split: option.splits)
  then have "i \<in> set (tab_ids (panes n))" using pane_path_None(2) [of n i] by auto
  then obtain p where p: "p \<in> set (panes n)" "i \<in> set (map wt_tabId (sp_tabs p))" by (auto simp: mem_tab_ids)
  obtain r u xs ys ps where d:
    "detachTabFromTree env n i preserve = Inr \<lparr>dr_root = r, dr_tab = Some u, dr_sourcePaneId = Some (sp_id p)\<rparr>"
    "u \<in> set (sp_tabs p)" "wt_tabId u = i" "panes n = xs @ p # ys" "panes r = xs @ ps @ ys" "wf_tree r"
    "sp_tabs (without_tab p i) \<noteq> [] \<and> ps = [without_tab p i] \<or>
     sp_tabs (without_tab p i) = [] \<and> preserve \<noteq> Some (sp_id p) \<and> ps = [] \<and> xs @ ys \<noteq> [] \<or>
     sp_tabs (without_tab p i) = [] \<and> (preserve = Some (sp_id p) \<or> xs @ ys = []) \<and>
       (\<exists>q. ps = [q] \<and> sp_id q = sp_id p \<and> sp_tabs q = [new_tab_of env])"
    by (rule detach_spec [OF assms(1,2) p])
  have "pane_ok p" using assms(1) p(1) by (simp add: wf_tree_def panes_ok_def)
  note w = content_without [OF this d(2)]
  have "content ps = pane_content (without_tab p i)"
    using d(7) by (auto simp: content_new) (simp_all add: pane_content_def)
  with w d(1,3,4,5) assms(3,4) show ?thesis by (auto simp: ac_simps)
qed

lemma content_with_tab:
  assumes "pane_ok q" and "tab_ok t" and "wt_tabId t \<notin> set (map wt_tabId (sp_tabs q))"
  shows "pane_content (with_tab q t f) = pane_content q + tab_content t"
proof -
  have "find_index (\<lambda>u. wt_tabId u = wt_tabId t) (sp_tabs q) = None"
    unfolding find_index_None
  proof (intro ballI notI)
    fix u
    assume "u \<in> set (sp_tabs q)" and "wt_tabId u = wt_tabId t"
    then have "wt_tabId t \<in> set (map wt_tabId (sp_tabs q))" by (metis image_eqI list.set_map)
    with assms(3) show False by simp
  qed
  then show ?thesis
    by (auto simp: pane_content_def with_tab_tabs [OF assms(1,2)] tab_content_def isSoleNewTabPane_def split: list.splits)
qed

lemma content_insert:
  assumes "wf_tree n" and "q \<in> set (panes n)" and "tab_ok t" and "wt_tabId t \<notin> set (tab_ids (panes n))"
    and "insertTabIntoPane n (sp_id q) t f = Inr r"
  shows "content (panes r) = content (panes n) + tab_content t"
proof -
  have ok: "panes_ok (panes n)" using assms(1) by (simp add: wf_tree_def)
  have "wt_tabId t \<notin> set (map wt_tabId (sp_tabs q))" using assms(2,4) by (auto simp: mem_tab_ids)
  note added = content_with_tab [OF pane_of_mem(1) [OF ok assms(2)] assms(3) this, of f]
  have "panes r = set_pane (with_tab q t f) (panes n)"
    using insert_spec [OF assms(1-3) disjI2 [OF assms(4)], of f] assms(5) by simp
  moreover note content_set [OF ok assms(2), of "with_tab q t f"]
  ultimately show ?thesis unfolding added by (simp add: ac_simps)
qed

section \<open>Each operation\<close>

lemma bind_sumE:
  assumes "bind_sum c f = Inr y"
  obtains x where "c = Inr x" and "f x = Inr y"
  using assms by (auto simp: bind_sum_Inr)

lemma content_same_tabs:
  assumes "wf_tree n" and "p \<in> set (panes n)" and "sp_id p' = sp_id p" and "mset (sp_tabs p') = mset (sp_tabs p)"
    and "panes r = set_pane p' (panes n)"
  shows "content (panes r) = content (panes n)"
proof -
  have "pane_content p' = pane_content p" using assms(4) by (simp add: pane_content_def)
  with content_set [OF _ assms(2,3)] assms(1,5) show ?thesis by (simp add: wf_tree_def)
qed

lemma focusInPane_content:
  assumes "wf_layout l" and "p \<in> set (panes (wl_root l))" and "i \<in> set (map wt_tabId (sp_tabs p))"
    and "focusTabInPane (wl_root l) (sp_id p) i = Inr r"
  shows "content (panes r) = content_of l"
proof -
  note f = focused_on_fields [OF pane_of_mem(1) [OF wf_layoutD(2) [OF assms(1)] assms(2)] assms(3)]
  from focus_spec [OF wf_layoutD(1) [OF assms(1)] assms(2,3)] assms(4)
  have "panes r = set_pane (focused_on p i) (panes (wl_root l))" by simp
  from content_same_tabs [OF wf_layoutD(1) [OF assms(1)] assms(2) f(1) _ this] f(2) show ?thesis
    by (simp add: content_of_def)
qed

lemma focusTab_content: "wf_layout l \<Longrightarrow> focusTabInLayout l i = Inr (Some m) \<Longrightarrow> content_of m = content_of l"
  using focusInPane_content [of l _ i]
  by (auto simp: focusTabInLayout_def bind_sum_Inr dest!: containing_Some split: option.splits if_splits)

lemma selectTab_content:
  assumes "wf_layout l" and "selectTabInPaneInLayout l x i = Inr (Some m)"
  shows "content_of m = content_of l"
proof -
  from assms(2) obtain p r where p: "findPaneById (wl_root l) (Some x) = Some p" "i \<in> set (sp_tabIds p)"
    "focusTabInPane (wl_root l) x i = Inr r" "m = relaid l r (wl_focusedPaneId l)"
    by (auto simp: selectTabInPaneInLayout_def bind_sum_Inr split: option.splits if_splits)
  from by_id_Some [OF p(1)] have "p \<in> set (panes (wl_root l))" "x = sp_id p" by auto
  moreover from this pane_of_mem(1) [OF wf_layoutD(2) [OF assms(1)]] p(2) have "i \<in> set (map wt_tabId (sp_tabs p))"
    by (auto simp: pane_ok_def)
  ultimately show ?thesis using focusInPane_content [OF assms(1), of p i r] p(3,4) by simp
qed

lemma updatePane_content:
  assumes "wf_layout l" and "p \<in> set (panes (wl_root l))" and "updatePaneInTree (wl_root l) (sp_id p) u = Inr r"
    and "sp_id (u p) = sp_id p" and "pane_ok (normalizePaneAfterTabChange (u p))"
    and "mset (normalizeWorkspaceTabs (sp_tabs (u p))) = mset (sp_tabs p)"
  shows "content (panes r) = content_of l"
proof -
  note wf = wf_layoutD(1) [OF assms(1)]
  have set: "set (normalizeWorkspaceTabs (sp_tabs (u p))) = set (sp_tabs p)" using assms(6) by (metis set_mset_mset)
  then have "normalizeWorkspaceTabs (sp_tabs (u p)) \<noteq> []"
    using pane_of_mem(2) [OF wf_layoutD(2) [OF assms(1)] assms(2)] by auto
  with update_pane_spec [where u = u, OF wf assms(2,4)] set assms(3)
  have "panes r = set_pane (normalizePaneAfterTabChange (u p)) (panes (wl_root l))" by simp
  from content_same_tabs [OF wf assms(2) _ _ this] assms(4,6) show ?thesis by (simp add: content_of_def)
qed

lemma hidden_content:
  assumes "wf_layout l" and "findPaneById (wl_root l) (Some x) = Some p"
    and "updatePaneInTree (wl_root l) x (\<lambda>c. c\<lparr>sp_hidden := h\<rparr>) = Inr r"
  shows "content (panes r) = content_of l"
proof -
  from by_id_Some [OF assms(2)] have p: "p \<in> set (panes (wl_root l))" "x = sp_id p" by auto
  from hidden_same_tabs [OF pane_of_mem(1) [OF wf_layoutD(2) [OF assms(1)] p(1)], of h]
    updatePane_content [OF assms(1) p(1), of "\<lambda>c. c\<lparr>sp_hidden := h\<rparr>" r] assms(3) p(2) show ?thesis by simp
qed

lemma setHidden_content:
  "wf_layout l \<Longrightarrow> setPaneHiddenInLayout l x h = Inr (Some m) \<Longrightarrow> content_of m = content_of l"
  using hidden_content [of l x _ h]
  by (auto simp: setPaneHiddenInLayout_def bind_sum_Inr split: option.splits if_splits)

lemma focusPane_content:
  "wf_layout l \<Longrightarrow> focusPaneInLayout l x = Inr (Some m) \<Longrightarrow> content_of m = content_of l"
  using hidden_content [of l x _ False]
  by (auto simp: focusPaneInLayout_def bind_sum_Inr content_of_def [of l] split: option.splits if_splits)

lemma reorder_content:
  assumes "wf_layout l" and "reorderPaneTabsInLayout l x ids = Inr (Some m)"
  shows "content_of m = content_of l"
proof -
  from assms(2) obtain p r where p: "findPaneById (wl_root l) (Some x) = Some p"
    "updatePaneInTree (wl_root l) x (\<lambda>pane. reorderTabsForPane pane ids) = Inr r" "m = relaid l r (wl_focusedPaneId l)"
    by (auto simp: reorderPaneTabsInLayout_def bind_sum_Inr split: if_splits)
  from by_id_Some [OF p(1)] have mem: "p \<in> set (panes (wl_root l))" "x = sp_id p" by auto
  note pane = pane_of_mem(1) [OF wf_layoutD(2) [OF assms(1)] mem(1)]
  note re = reorder_tabs [OF pane, of ids]
  have "mset (sp_tabs (reorderTabsForPane p ids)) = mset (sp_tabs p)"
    using re(1,3) pane by (intro set_eq_iff_mset_eq_distinct [THEN iffD1]) (auto simp: pane_ok_def distinct_map)
  moreover have "panes r = set_pane (reorderTabsForPane p ids) (panes (wl_root l))"
    using reorder_spec [OF wf_layoutD(1) [OF assms(1)] mem(1), of ids] p(2) mem(2) by simp
  ultimately show ?thesis
    using content_same_tabs [OF wf_layoutD(1) [OF assms(1)] mem(1) re(2)] p(3) by (simp add: content_of_def)
qed

lemma reorderFocused_content:
  "wf_layout l \<Longrightarrow> reorderFocusedPaneTabsInLayout l ids = Inr (Some m) \<Longrightarrow> content_of m = content_of l"
  using reorder_content [of l "the (wl_focusedPaneId l)" ids m]
  by (auto simp: reorderFocusedPaneTabsInLayout_def reorderPaneTabsInLayout_def truthy_def
      split: option.splits if_splits)

lemma resize_content: "wf_layout l \<Longrightarrow> resizeSplitInLayout l g sizes = Inr m \<Longrightarrow> content_of m = content_of l"
  using resize_spec [of "wl_root l" g sizes]
  by (auto simp: resizeSplitInLayout_def bind_sum_Inr content_of_def wf_layoutD)

text \<open>Removing a pane loses its tabs only; moving a lone new tab therefore loses nothing.\<close>

lemma removePane_content:
  assumes wf: "wf_tree n" and new: "tab_ok (new_tab_of env)" and p: "p \<in> set (panes n)"
    and path: "findPanePathById n (sp_id p) = Some path" and r: "removePaneByPath env n path = Inr r"
  shows "content (panes r) + pane_content p = content (panes n)"
proof -
  have ok: "panes_ok (panes n)" and sh: "shape n" using wf by (simp_all add: wf_tree_def)
  from pane_path_Some [OF p ok] path have at: "getNodeAtPath n path = Inr (Pane p)" by (metis option.inject)
  note around = panes_at [OF at, simplified]
  show ?thesis
  proof (cases "path = []")
    case True
    with at have n: "n = Pane p" by simp
    obtain q where "createPaneNode (sp_id p) [new_tab_of env] None False = Pane q" "sp_tabs q = [new_tab_of env]"
      by (rule create_one [OF new])
    with True n r show ?thesis by (auto simp: removePaneByPath_def content_new)
  next
    case False
    have "panes r = pre n path @ post n path" using remove_at [OF sh at False, of env] r by simp
    then show ?thesis by (simp only: around content_append content.simps ac_simps)
  qed
qed

lemma closePane_content:
  assumes wf: "wf_layout l" and new: "tab_ok (new_tab_of env)" and p: "p \<in> set (panes (wl_root l))"
    and m: "closePaneInLayout env l (sp_id p) explorer = Inr (Some m)"
  shows "content_of m + pane_content p = content_of l"
proof -
  from m obtain path r f where "findPanePathById (wl_root l) (sp_id p) = Some path"
    "removePaneByPath env (wl_root l) path = Inr r" "m = relaid l r f"
    by (auto simp: closePaneInLayout_def bind_sum_Inr Let_def split: option.splits if_splits)
  with removePane_content [OF wf_layoutD(1) [OF wf] new p] show ?thesis by (simp add: content_of_def)
qed

lemma moveTab_content:
  assumes wf: "wf_layout l" and fresh: "fresh_for env (wl_root l)"
    and m: "moveTabToPaneInLayout env l i x explorer = Inr (Some m)"
  shows "content_of m = content_of l"
proof -
  let ?n = "wl_root l"
  have new: "tab_ok (new_tab_of env)" using fresh by (simp add: fresh_for_def)
  note ok = wf_layoutD(2) [OF wf]
  from m obtain p q where src: "findPaneContainingTab ?n i = Some p" and tgt: "findPaneById ?n (Some x) = Some q"
    by (auto simp: moveTabToPaneInLayout_def split: option.splits)
  note p = containing_Some [OF src, THEN conjunct1] containing_Some [OF src, THEN conjunct2]
  from by_id_Some [OF tgt] have q: "q \<in> set (panes ?n)" "sp_id q = x" by auto
  let ?tab = "find (\<lambda>tab. wt_tabId tab = i) (collectAllTabs ?n)"
  let ?pres = "if sp_id p = x \<or> Some (sp_id p) = explorer \<or> Some x = explorer then Some (sp_id p) else None"
  consider (hide) "setPaneHiddenInLayout l (sp_id p) True = Inr (Some m)"
    | (close) "length (sp_tabIds p) = 1" "map_option wt_target ?tab = Some NewTab"
        "closePaneInLayout env l (sp_id p) explorer = Inr (Some m)"
    | (move) d t r where "detachTabFromTree env ?n i ?pres = Inr d" "dr_tab d = Some t"
        "insertTabIntoPane (dr_root d) x t (Some i) = Inr r" "m = relaid l r (Some x)"
    using m by (auto simp: moveTabToPaneInLayout_def src tgt Let_def bind_sum_Inr split: if_splits option.splits)
  then show ?thesis
  proof cases
    case hide
    then show ?thesis by (rule setHidden_content [OF wf])
  next
    case close
    from close(2) obtain t where t: "?tab = Some t" "wt_target t = NewTab" by auto
    then have "t \<in> set (collectAllTabs ?n)" "wt_tabId t = i" by (auto simp: find_Some_iff)
    moreover from this obtain p' where "p' \<in> set (panes ?n)" "t \<in> set (sp_tabs p')" using tab_in_pane by blast
    ultimately have "t \<in> set (sp_tabs p)" using pane_of_tab_unique [OF ok p(1) _ p(2), of p'] by auto
    moreover have "length (sp_tabs p) = 1" using close(1) pane_of_mem(1) [OF ok p(1)] by (simp add: pane_ok_def)
    ultimately have "pane_content p = {#}" using t(2) by (auto simp: pane_content_def length_Suc_conv)
    with closePane_content [OF wf new p(1) close(3)] show ?thesis by simp
  next
    case move
    obtain r' t' where d':
      "detachTabFromTree env ?n i ?pres = Inr \<lparr>dr_root = r', dr_tab = Some t', dr_sourcePaneId = Some (sp_id p)\<rparr>"
      "t' \<in> set (sp_tabs p)" "wt_tabId t' = i" "wf_tree r'" "i \<notin> set (tab_ids (panes r'))"
      by (rule detach_frame [OF wf_layoutD(1) [OF wf] fresh p, of ?pres])
    with move(1,2) have d: "wf_tree (dr_root d)" "t \<in> set (sp_tabs p)" "wt_tabId t = i"
      "i \<notin> set (tab_ids (panes (dr_root d)))" by auto
    from move(3) obtain path where "findPanePathById (dr_root d) x = Some path"
      by (auto simp: insertTabIntoPane_def split: option.splits)
    then obtain q' where "q' \<in> set (panes (dr_root d))" "sp_id q' = x"
      using pane_path_None(1) [of "dr_root d" x] by auto
    with content_insert [OF d(1), of q' t "Some i" r] tab_ok_of_pane [OF ok p(1) d(2)] d(3,4) move(3)
    have "content (panes r) = content (panes (dr_root d)) + tab_content t" by simp
    with content_detach [OF wf_layoutD(1) [OF wf] fresh move(1,2)] move(4) show ?thesis by (simp add: content_of_def)
  qed
qed

lemma split_content:
  assumes "shape n" and "getNodeAtPath n path = Inr (Pane p)"
    and "split_beside ids n path (Pane p) (Pane q) position = Inr r"
  shows "content (panes r) = content (panes n) + pane_content q"
proof -
  have "panes r = pre n path @ (if inserts_after position then [p, q] else [q, p]) @ post n path"
    using split_at [OF assms(1,2), of ids q position] assms(3) by simp
  moreover have "panes n = pre n path @ p # post n path" using panes_at [OF assms(2)] by simp
  ultimately show ?thesis
    by (simp only: content_append content.simps add_0_left add_0_right ac_simps split: if_split) simp
qed

lemma create_tab:
  assumes "tab_ok t" and "createPaneNode x [t] f False = node"
  shows "\<exists>q. node = Pane q \<and> sp_tabs q = [t]"
  using create_one [OF assms(1), of x f] assms(2) by blast

lemma splitPane_content:
  assumes wf: "wf_layout l" and fresh: "fresh_for env (wl_root l)"
    and m: "splitPaneInLayout env ids l i x position depth = Inr (Some (m, y))"
  shows "content_of m = content_of l"
proof -
  let ?n = "wl_root l"
  from m obtain d t path p' s r where d: "detachTabFromTree env ?n i (Some x) = Inr d" "dr_tab d = Some t"
    and at: "getNodeAtPath (dr_root d) path = Inr (Pane p')"
    and s: "createPaneNode (ids PanePrefix) [t] (Some (wt_tabId t)) False = s"
    and r: "split_beside ids (dr_root d) path (Pane p') s position = Inr r" "m = relaid l r (Some y)"
    by (auto simp: splitPaneInLayout_def insertSplitInternal_def Let_def elim!: bind_sumE
        split: if_split_asm option.split_asm split_node.split_asm)
  from m obtain p where src: "findPaneContainingTab ?n i = Some p"
    by (auto simp: splitPaneInLayout_def split: if_splits)
  note p = containing_Some [OF src, THEN conjunct1] containing_Some [OF src, THEN conjunct2]
  obtain r' t' where
    "detachTabFromTree env ?n i (Some x) = Inr \<lparr>dr_root = r', dr_tab = Some t', dr_sourcePaneId = Some (sp_id p)\<rparr>"
    "t' \<in> set (sp_tabs p)" "wf_tree r'"
    by (rule detach_frame [OF wf_layoutD(1) [OF wf] fresh p, of "Some x"])
  with d have w: "wf_tree (dr_root d)" "t \<in> set (sp_tabs p)" by auto
  from create_tab [OF tab_ok_of_pane [OF wf_layoutD(2) [OF wf] p(1) w(2)] s] obtain q where
    q: "s = Pane q" "sp_tabs q = [t]" by blast
  have "content (panes r) = content (panes (dr_root d)) + tab_content t"
    using split_content [of "dr_root d" path p' ids q position r] at r(1) q w(1) content_one [OF q(2)]
    by (simp add: wf_tree_def)
  with content_detach [OF wf_layoutD(1) [OF wf] fresh d] r(2) show ?thesis by (simp add: content_of_def)
qed

lemma splitEmpty_content:
  assumes wf: "wf_layout l" and new: "tab_ok (new_tab_of env)"
    and m: "splitPaneEmptyInLayout env ids l x position depth = Inr (Some (m, y))"
  shows "content_of m = content_of l"
proof -
  let ?s = "createPaneNode (ids PanePrefix) [new_tab_of env] None False"
  from m obtain path p' r where at: "getNodeAtPath (wl_root l) path = Inr (Pane p')"
    and r: "split_beside ids (wl_root l) path (Pane p') ?s position = Inr r" "m = relaid l r (Some y)"
    by (auto simp: splitPaneEmptyInLayout_def Let_def elim!: bind_sumE
        split: if_split_asm option.split_asm split_node.split_asm)
  from create_tab [OF new refl] obtain q where q: "?s = Pane q" "sp_tabs q = [new_tab_of env]" by blast
  with split_content [OF wf_layoutD(3) [OF wf] at, of ids q position r] r content_new [OF q(2)] show ?thesis
    by (simp add: content_of_def)
qed

lemma splitRoot_content:
  assumes wf: "wf_layout l" and new: "tab_ok (new_tab_of env)"
    and m: "splitWorkspaceRootRightInLayout env ids l depth = Some (m, y)"
  shows "content_of m = content_of l"
proof -
  from create_tab [OF new refl] obtain q where
    q: "createPaneNode (ids PanePrefix) [new_tab_of env] None False = Pane q" "sp_tabs q = [new_tab_of env]" by metis
  with m content_new [OF q(2)] show ?thesis
    by (auto simp: splitWorkspaceRootRightInLayout_def Let_def content_of_def split: if_splits)
qed

section \<open>Nothing is lost\<close>

text \<open>The actions that rearrange a layout, as opposed to those that open, close or replace a tab.\<close>

fun rearranges :: "layout_action \<Rightarrow> bool" where
  "rearranges (FocusTab _) = True"
| "rearranges (SelectTab _ _) = True"
| "rearranges (SetPaneHidden _ _) = True"
| "rearranges (FocusPane _) = True"
| "rearranges (MoveTab _ _ _) = True"
| "rearranges (SplitPane _ _ _ _) = True"
| "rearranges (SplitPaneEmpty _ _ _) = True"
| "rearranges (SplitRootRight _) = True"
| "rearranges (ResizeSplit _ _) = True"
| "rearranges (ReorderPane _ _) = True"
| "rearranges (ReorderFocused _) = True"
| "rearranges _ = False"

lemma or_same_content:
  "(\<And>m. r = Inr (Some m) \<Longrightarrow> content_of m = content_of l) \<Longrightarrow> or_same l r = Inr m \<Longrightarrow> content_of m = content_of l"
  "(\<And>m i. r' = Inr (Some (m, i)) \<Longrightarrow> content_of m = content_of l) \<Longrightarrow> or_same_id l r' = Inr m \<Longrightarrow>
    content_of m = content_of l"
  by (auto simp: or_same_def or_same_id_def default_def elim!: bind_sumE split: option.split_asm)

text \<open>
  C22: focusing, hiding, moving, splitting, resizing and reordering never lose, duplicate or change
  a tab: the tabs other than the placeholders for empty panes are the same before and after, as a
  multiset, with their targets, states and times.
\<close>

theorem rearranging_keeps_content:
  assumes "reachable l" and "fresh_for env (wl_root l)" and "rearranges a" and "run_action env ids l a = Inr m"
  shows "content_of m = content_of l"
proof -
  have wf: "wf_layout l" by (rule reachable_wf [OF assms(1)])
  have new: "tab_ok (new_tab_of env)" using assms(2) by (simp add: fresh_for_def)
  note each = focusTab_content [OF wf] selectTab_content [OF wf] setHidden_content [OF wf] focusPane_content [OF wf]
    moveTab_content [OF wf assms(2)] splitPane_content [OF wf assms(2)] splitEmpty_content [OF wf new]
    splitRoot_content [OF wf new] reorder_content [OF wf] reorderFocused_content [OF wf]
  from assms(3,4) show ?thesis
    by (cases a) (auto intro: each resize_content [OF wf] elim!: or_same_content [rotated])
qed

theorem rearranging_keeps_content_witness:
  "let l = createWorkspaceLayoutWithExplorerSidebar \<lparr>fe_messageId = ''m1'', fe_now = 0\<rparr>;
       env = \<lparr>fe_messageId = ''m2'', fe_now = 1\<rparr>
   in \<exists>m. run_action env (\<lambda>_. ''p2'') l (MoveTab ''files'' ''main'' (Some ''explorer'')) = Inr m \<and>
        content_of m = content_of l \<and> wl_focusedPaneId m = Some ''main''"
proof -
  let ?l = "createWorkspaceLayoutWithExplorerSidebar \<lparr>fe_messageId = ''m1'', fe_now = 0\<rparr>"
  let ?env = "\<lparr>fe_messageId = ''m2'', fe_now = 1\<rparr>"
  let ?a = "MoveTab ''files'' ''main'' (Some ''explorer'')"
  have "tab_ok (new_tab_of \<lparr>fe_messageId = ''m1'', fe_now = 0\<rparr>)" "tab_ok (new_tab_of ?env)"
    by (rule new_tab_ok; code_simp)+
  moreover have "wt_tabId (new_tab_of ?env) \<notin> set (tab_ids (panes (wl_root ?l)))" by code_simp
  ultimately have "\<And>m. run_action ?env (\<lambda>_. ''p2'') ?l ?a = Inr m \<Longrightarrow> content_of m = content_of ?l"
    by (intro rearranging_keeps_content [where env = ?env and a = ?a] reachable.with_explorer)
      (simp_all add: fresh_for_def)
  moreover have "(case run_action ?env (\<lambda>_. ''p2'') ?l ?a of
      Inr m \<Rightarrow> wl_focusedPaneId m = Some ''main'' | Inl _ \<Rightarrow> False)" by code_simp
  ultimately show ?thesis unfolding Let_def by (auto split: sum.splits)
qed

lemma find_tab_in_pane:
  assumes "panes_ok (panes n)" and "find_tab_by_id n i = Some t"
    and "p \<in> set (panes n)" and "u \<in> set (sp_tabs p)" and "wt_tabId u = i"
  shows "t = u"
proof -
  from find_tab_Some [OF assms(2)] tab_in_pane [of t n] obtain q where
    q: "q \<in> set (panes n)" "t \<in> set (sp_tabs q)" "wt_tabId t = i" by blast
  moreover have "i \<in> set (map wt_tabId (sp_tabs q))" "i \<in> set (map wt_tabId (sp_tabs p))"
    using q(2,3) assms(4,5) by (metis image_eqI list.set_map)+
  ultimately have "q = p" using pane_of_tab_unique [OF assms(1) q(1) assms(3)] by blast
  moreover have "distinct (map wt_tabId (sp_tabs p))" using pane_of_mem(1) [OF assms(1,3)] by (auto simp: pane_ok_def)
  ultimately show ?thesis using q assms(4,5) by (auto simp: distinct_map inj_on_def)
qed

text \<open>The layout before the focus moves to the successor of a closed tab, and after.\<close>

lemma closeTab_steps:
  assumes "closeTabInLayout env l i preserve = Inr (Some m)" and p: "findPaneContainingTab (wl_root l) i = Some p"
  obtains d next_layout where "detachTabFromTree env (wl_root l) i (or_else preserve
      (if sp_id p = DEFAULT_PANE_ID \<or> sp_id p = EXPLORER_SIDEBAR_PANE_ID then Some (sp_id p) else None)) = Inr d"
    "wl_root next_layout = dr_root d" "wl_parents next_layout = normalizeParentTabMap (wl_parents l) (open_tab_ids (dr_root d))"
    "m = next_layout \<or> (\<exists>s f. focusTabInLayout next_layout s = Inr f \<and> wl_root m = wl_root (default next_layout f))"
proof -
  let ?pres = "or_else preserve (if sp_id p = DEFAULT_PANE_ID \<or> sp_id p = EXPLORER_SIDEBAR_PANE_ID
    then Some (sp_id p) else None)"
  let ?parents = "\<lambda>d. normalizeParentTabMap (wl_parents l) (open_tab_ids (dr_root d))"
  let ?next = "\<lambda>f d. \<lparr>wl_root = dr_root d,
    wl_focusedPaneId = getFocusedPaneIdAfterTabClose (dr_root d) (wl_focusedPaneId l) f None, wl_parents = ?parents d\<rparr>"
  from assms(1) obtain f d where d: "detachTabFromTree env (wl_root l) i ?pres = Inr d"
    and rest: "(case truthy (getCloseSuccessorTabId p i (open_tab_ids (wl_root l)) (wl_parents l)) of
        Some successor \<Rightarrow>
          if findPaneContainingTab (dr_root d) successor \<noteq> None
          then bind_sum (focusTabInLayout (?next f d) successor) (\<lambda>focused.
            let focusedLayout = default (?next f d) focused
            in Inr (Some (if ?parents d \<noteq> None then focusedLayout\<lparr>wl_parents := ?parents d\<rparr> else focusedLayout)))
          else Inr (Some (?next f d))
      | None \<Rightarrow> Inr (Some (?next f d))) = Inr (Some m)"
    unfolding closeTabInLayout_def p option.case Let_def by (elim bind_sumE)
  have "m = ?next f d \<or>
      (\<exists>s x. focusTabInLayout (?next f d) s = Inr x \<and> wl_root m = wl_root (default (?next f d) x))"
  proof (cases "truthy (getCloseSuccessorTabId p i (open_tab_ids (wl_root l)) (wl_parents l))")
    case (Some s)
    show ?thesis
    proof (cases "findPaneContainingTab (dr_root d) s = None")
      case False
      with rest Some obtain x where "focusTabInLayout (?next f d) s = Inr x" "Inr (Some m) = (Inr (Some (
          if ?parents d \<noteq> None then (default (?next f d) x)\<lparr>wl_parents := ?parents d\<rparr> else default (?next f d) x))
          :: string + workspace_layout option)" by (auto simp: Let_def elim!: bind_sumE simp del: not_None_eq)
      then show ?thesis by (intro disjI2 exI conjI) (assumption, simp split: if_split_asm)
    qed (use rest Some in simp)
  qed (use rest in simp)
  then show thesis by (intro that [OF d, of "?next f d"]) simp_all
qed

lemma set_pane_ids: "map sp_id (set_pane p ps) = map sp_id ps"
  by (auto simp: set_pane_def)

lemma focusTab_frame:
  assumes wf: "wf_layout l" and m: "focusTabInLayout l i = Inr (Some m)"
  shows "content_of m = content_of l" "open_tab_ids (wl_root m) = open_tab_ids (wl_root l)"
    "map sp_id (panes (wl_root m)) = map sp_id (panes (wl_root l))"
proof -
  show "content_of m = content_of l" by (rule focusTab_content [OF assms])
  from m obtain q n where q: "findPaneContainingTab (wl_root l) i = Some q"
    "focusTabInPane (wl_root l) (sp_id q) i = Inr n" "wl_root m = n"
    by (auto simp: focusTabInLayout_def elim!: bind_sumE split: option.split_asm if_split_asm)
  note c = containing_Some [OF q(1), THEN conjunct1] containing_Some [OF q(1), THEN conjunct2]
  note f = focused_on_fields [OF pane_of_mem(1) [OF wf_layoutD(2) [OF wf] c(1)] c(2)]
  have ps: "panes n = set_pane (focused_on q i) (panes (wl_root l))"
    using focus_spec [OF wf_layoutD(1) [OF wf] c] q(2) by simp
  with set_pane_tab_ids [OF wf_layoutD(2) [OF wf] c(1) f(1)] f(2) q(3)
  show "open_tab_ids (wl_root m) = open_tab_ids (wl_root l)" by (simp add: open_tab_ids_panes)
  show "map sp_id (panes (wl_root m)) = map sp_id (panes (wl_root l))" using ps q(3) by (simp only: set_pane_ids)
qed

lemma close_facts:
  assumes wf: "wf_layout l" and fresh: "fresh_for env (wl_root l)" and i: "i \<in> open_tab_ids (wl_root l)"
  obtains m t where "closeTabInLayout env l i preserve = Inr (Some m)" "wf_layout m"
    "find_tab_by_id (wl_root l) i = Some t" "content_of m + tab_content t = content_of l"
    "i \<notin> open_tab_ids (wl_root m)"
    "open_tab_ids (wl_root m) \<subseteq> insert (wt_tabId (new_tab_of env)) (open_tab_ids (wl_root l))"
    "EXPLORER_SIDEBAR_PANE_ID \<in> set (map sp_id (panes (wl_root l))) \<longrightarrow> preserve = None \<longrightarrow>
      EXPLORER_SIDEBAR_PANE_ID \<in> set (map sp_id (panes (wl_root m)))"
proof -
  note result = that
  note ok = wf_layoutD(2) [OF wf]
  have i': "i \<in> set (tab_ids (panes (wl_root l)))" using i by (simp add: open_tab_ids_panes)
  then obtain t where t: "find_tab_by_id (wl_root l) i = Some t" using find_tab_None [of "wl_root l" i] by auto
  from i' obtain p where src: "findPaneContainingTab (wl_root l) i = Some p"
    using containing_None [of "wl_root l" i] by auto
  note p = containing_Some [OF src, THEN conjunct1] containing_Some [OF src, THEN conjunct2]
  let ?pres = "or_else preserve (if sp_id p = DEFAULT_PANE_ID \<or> sp_id p = EXPLORER_SIDEBAR_PANE_ID
    then Some (sp_id p) else None)"
  have "closeTabInLayout env l i preserve \<noteq> Inr None"
    by (auto simp: closeTabInLayout_def src Let_def elim!: bind_sumE split: option.split_asm if_split_asm)
  with closeTab_ok [OF wf fresh, of i preserve] obtain m where
    m: "closeTabInLayout env l i preserve = Inr (Some m)" "wf_layout m" by (auto simp: returns_wf_def)
  obtain d l' where d: "detachTabFromTree env (wl_root l) i ?pres = Inr d" "wl_root l' = dr_root d"
    "wl_parents l' = normalizeParentTabMap (wl_parents l) (open_tab_ids (dr_root d))"
    "m = l' \<or> (\<exists>s f. focusTabInLayout l' s = Inr f \<and> wl_root m = wl_root (default l' f))"
    by (rule closeTab_steps [OF m(1) src])
  obtain r u where r:
    "detachTabFromTree env (wl_root l) i ?pres = Inr \<lparr>dr_root = r, dr_tab = Some u, dr_sourcePaneId = Some (sp_id p)\<rparr>"
    "u \<in> set (sp_tabs p)" "wt_tabId u = i" "wf_tree r" "i \<notin> set (tab_ids (panes r))"
    "set (tab_ids (panes r)) \<subseteq> insert (wt_tabId (new_tab_of env)) (set (tab_ids (panes (wl_root l))))"
    "\<forall>q\<in>set (panes (wl_root l)). q \<noteq> p \<longrightarrow> q \<in> set (panes r)"
    "?pres = Some (sp_id p) \<longrightarrow> sp_id p \<in> set (map sp_id (panes r))"
    by (rule detach_frame [OF wf_layoutD(1) [OF wf] fresh p, of ?pres]) blast
  from find_tab_in_pane [OF ok t p(1) r(2,3)] have u: "u = t" by simp
  have root: "wl_root l' = r" and tab: "dr_tab d = Some t" using r(1) d(1,2) u by auto
  have l': "wf_layout l'" using r(4) d(2,3) root by (simp add: wf_layout_def normalizeParentTabMap_ok)
  have same: "content_of m = content_of l' \<and> open_tab_ids (wl_root m) = open_tab_ids (wl_root l') \<and>
    map sp_id (panes (wl_root m)) = map sp_id (panes (wl_root l'))"
  proof (cases "wl_root m = wl_root l'")
    case False
    with d(4) obtain s m' where m': "focusTabInLayout l' s = Inr (Some m')" "wl_root m = wl_root m'"
      by (auto simp: default_def split: option.split_asm)
    from focusTab_frame [OF l' m'(1)] m'(2) show ?thesis by (simp add: content_of_def)
  qed (simp add: content_of_def)
  have "content_of l' + tab_content t = content_of l"
    using content_detach [OF wf_layoutD(1) [OF wf] fresh d(1) tab] d(2) by (simp add: content_of_def)
  moreover have "EXPLORER_SIDEBAR_PANE_ID \<in> set (map sp_id (panes r))"
    if x: "EXPLORER_SIDEBAR_PANE_ID \<in> set (map sp_id (panes (wl_root l)))" and none: "preserve = None"
  proof (cases "sp_id p = EXPLORER_SIDEBAR_PANE_ID")
    case True
    with r(8) none show ?thesis by simp
  next
    case False
    from x obtain q where "q \<in> set (panes (wl_root l))" "sp_id q = EXPLORER_SIDEBAR_PANE_ID" by auto
    with False r(7) have "q \<in> set (panes r)" by auto
    with \<open>sp_id q = EXPLORER_SIDEBAR_PANE_ID\<close> show ?thesis by (metis image_eqI list.set_map)
  qed
  ultimately show thesis
    using result [OF m t] same r(5,6) root by (simp add: open_tab_ids_panes del: set_map)
qed

text \<open>
  Closing an open tab always succeeds, removes that tab only, and leaves a well-formed layout:
  every other tab is kept.
\<close>

lemma closing_removes_one_tab:
  assumes "reachable l" and "fresh_for env (wl_root l)" and "find_tab_by_id (wl_root l) i = Some t"
  shows "\<exists>m. closeTabInLayout env l i preserve = Inr (Some m) \<and> wf_layout m \<and>
    content_of m + tab_content t = content_of l \<and> i \<notin> open_tab_ids (wl_root m)"
proof -
  have "i \<in> open_tab_ids (wl_root l)"
    using assms(3) find_tab_None [of "wl_root l" i] by (auto simp: open_tab_ids_panes)
  from close_facts [OF reachable_wf [OF assms(1)] assms(2) this, of preserve] assms(3) show ?thesis by (metis option.inject)
qed

theorem closing_removes_one_tab_witness:
  "let l = createWorkspaceLayoutWithExplorerSidebar \<lparr>fe_messageId = ''m1'', fe_now = 0\<rparr>
   in \<exists>m. closeTabInLayout \<lparr>fe_messageId = ''m2'', fe_now = 1\<rparr> l ''files'' None = Inr (Some m) \<and> wf_layout m \<and>
        ''files'' \<notin> open_tab_ids (wl_root m)"
proof -
  let ?l = "createWorkspaceLayoutWithExplorerSidebar \<lparr>fe_messageId = ''m1'', fe_now = 0\<rparr>"
  let ?env = "\<lparr>fe_messageId = ''m2'', fe_now = 1\<rparr>"
  have "tab_ok (new_tab_of \<lparr>fe_messageId = ''m1'', fe_now = 0\<rparr>)" "tab_ok (new_tab_of ?env)"
    by (rule new_tab_ok; code_simp)+
  moreover have "wt_tabId (new_tab_of ?env) \<notin> set (tab_ids (panes (wl_root ?l)))" by code_simp
  moreover have "find_tab_by_id (wl_root ?l) ''files'' =
      Some \<lparr>wt_tabId = ''files'', wt_target = FilesTab, wt_createdAt = 0, wt_state = None\<rparr>" by code_simp
  ultimately show ?thesis
    using closing_removes_one_tab [of ?l ?env "''files''" _ None] reachable.with_explorer
    by (fastforce simp: fresh_for_def Let_def)
qed

section \<open>Where the operations break their promises\<close>

primrec run_all ::
  "fresh_env \<Rightarrow> (node_id_prefix \<Rightarrow> string) \<Rightarrow> workspace_layout \<Rightarrow> layout_action list \<Rightarrow> string + workspace_layout"
where
  "run_all env ids l [] = Inr l"
| "run_all env ids l (a # as) = bind_sum (run_action env ids l a) (\<lambda>m. run_all env ids m as)"

text \<open>
  A preview that was reused for another file keeps the id of the first file.  Opening the first
  file again in a side pane then gives a second tab the same id, so the ids of the open tabs are no
  longer distinct.
\<close>

lemma reused_preview_duplicates_an_id:
  "case run_all \<lparr>fe_messageId = ''m2'', fe_now = 1\<rparr> (\<lambda>p. if p = PanePrefix then ''side'' else ''g'')
      (createDefaultLayout \<lparr>fe_messageId = ''m1'', fe_now = 0\<rparr>)
      [RevealTarget (FileTab ''a.ts'' None None) (InPane ''main'') None None,
       ReplaceTarget ''file_a.ts'' (FileTab ''b.ts'' None None) ''tab_m3'' None,
       SplitRootRight 4,
       RevealTarget (FileTab ''a.ts'' None None) (InPane ''side'') None None] of
    Inl _ \<Rightarrow> False
  | Inr m \<Rightarrow> map (\<lambda>t. (wt_tabId t, wt_target t)) (collectAllTabs (wl_root m)) =
      [(''file_a.ts'', FileTab ''b.ts'' None None), (''file_a.ts'', FileTab ''a.ts'' None None)]"
  by code_simp

text \<open>
  When the main pane has been closed and the explorer is hidden, closing the last tab of the last
  visible pane leaves a layout with no visible pane, focused on a main pane that does not exist.
\<close>

lemma closing_the_last_tab_leaves_nothing_visible:
  "case run_all \<lparr>fe_messageId = ''m2'', fe_now = 1\<rparr> (\<lambda>p. if p = PanePrefix then ''side'' else ''g'')
      (createWorkspaceLayoutWithExplorerSidebar \<lparr>fe_messageId = ''m1'', fe_now = 0\<rparr>)
      [SplitPaneEmpty ''main'' RightOf 4,
       OpenFocused (AgentTab ''x'') (InPane ''side'') (Some ''explorer''),
       ClosePane ''main'' (Some ''explorer''),
       CloseTab ''agent_x'' None] of
    Inl _ \<Rightarrow> False
  | Inr m \<Rightarrow> collectAllPanes (wl_root m) = [] \<and> wl_focusedPaneId m = Some ''main'' \<and>
      findPaneById (wl_root m) (wl_focusedPaneId m) = None"
  by code_simp

end
