(* ===== verification/Layout_Reconcile.thy ===== *)
theory Layout_Reconcile
  imports Layout_Content "HOL-Library.List_Lexorder" "HOL-Library.Char_ord"
begin

text \<open>
  \<open>reconcileWorkspaceTabs\<close> of \<open>packages/app/src/stores/workspace-layout-actions.ts\<close>: the tabs of agents
  and terminals follow a snapshot of what runs.  The \<open>k\<close>-th tab that the pass closes or opens has the
  environment \<open>envs k\<close> (its clock, and the id of the new tab an emptied pane may get); \<open>draftId\<close> is the
  result of \<open>generateDraftId\<close>.
\<close>

section \<open>The snapshot\<close>

record reconcile_state =
  rs_layout :: workspace_layout
  rs_pinnedAgentIds :: "string list option"
  rs_pendingAgentIds :: "string list option"
  rs_hiddenAgentIds :: "string list option"
  rs_explorerSidebarPaneId :: "string option"

record tab_snapshot =
  sn_agentsHydrated :: bool
  sn_terminalsHydrated :: bool
  sn_activeAgentIds :: "string list"
  sn_autoOpenAgentIds :: "string list"
  sn_knownAgentIds :: "string list"
  sn_knownTerminalIds :: "string list option"
  sn_standaloneTerminalIds :: "string list"
  sn_hasActivePendingTerminalCreate :: "bool option"
  sn_hasActivePendingDraftCreate :: "bool option"

definition normalizeStringSet :: "string list \<Rightarrow> string set" where
  "normalizeStringSet values = set (List.map_filter (\<lambda>value. trimNonEmpty (Some value)) values)"

definition applyPinnedAndHidden ::
  "string set \<Rightarrow> string list \<Rightarrow> string list \<Rightarrow> string list \<Rightarrow> string set \<Rightarrow> string set" where
  "applyPinnedAndHidden baseAgentIds pinnedAgentIds pendingAgentIds hiddenAgentIds knownAgentIds =
     (let pinned = filter (\<lambda>a. a \<in> knownAgentIds \<or> a \<in> set pendingAgentIds) pinnedAgentIds
      in baseAgentIds \<union> set pinned - set hiddenAgentIds)"

section \<open>One tab per agent and terminal\<close>

definition isEntityTarget :: "tab_target \<Rightarrow> bool" where
  "isEntityTarget target \<longleftrightarrow> kind_of target = KAgent \<or> kind_of target = KTerminal"

record entity_group =
  eg_target :: tab_target
  eg_tabs :: "workspace_tab list"

definition add_to_group ::
  "workspace_tab \<Rightarrow> (string, entity_group) js_map \<Rightarrow> string + (string, entity_group) js_map" where
  "add_to_group tab groups =
     (if \<not> isEntityTarget (wt_target tab) then Inr groups
      else case normalizeWorkspaceTabTarget (wt_target tab) of
        None \<Rightarrow> Inr groups
      | Some canonicalTarget \<Rightarrow>
          bind_sum (buildDeterministicWorkspaceTabId canonicalTarget) (\<lambda>canonicalTabId.
            Inr (case map_of groups canonicalTabId of
              Some currentGroup \<Rightarrow>
                AList.update canonicalTabId (currentGroup\<lparr>eg_tabs := eg_tabs currentGroup @ [tab]\<rparr>) groups
            | None \<Rightarrow> AList.update canonicalTabId \<lparr>eg_target = canonicalTarget, eg_tabs = [tab]\<rparr> groups)))"

primrec entity_groups_from ::
  "workspace_tab list \<Rightarrow> (string, entity_group) js_map \<Rightarrow> string + (string, entity_group) js_map" where
  "entity_groups_from [] groups = Inr groups"
| "entity_groups_from (tab # tabs) groups =
     bind_sum (add_to_group tab groups) (\<lambda>groups'. entity_groups_from tabs groups')"

definition buildEntityTabGroups :: "workspace_tab list \<Rightarrow> string + (string, entity_group) js_map" where
  "buildEntityTabGroups initialTabs = entity_groups_from initialTabs []"

text \<open>A pass over the layout, with the number of environments it has used.\<close>

type_synonym pass = "workspace_layout \<times> nat"

definition close_in_pass :: "(nat \<Rightarrow> fresh_env) \<Rightarrow> string \<Rightarrow> pass \<Rightarrow> string + pass" where
  "close_in_pass envs tabId s = (case s of (l, k) \<Rightarrow>
     bind_sum (closeTabInLayout (envs k) l tabId None) (\<lambda>closed. Inr (default l closed, Suc k)))"

primrec fold_pass :: "('a \<Rightarrow> pass \<Rightarrow> string + pass) \<Rightarrow> 'a list \<Rightarrow> pass \<Rightarrow> string + pass" where
  "fold_pass step [] s = Inr s"
| "fold_pass step (x # xs) s = bind_sum (step x s) (\<lambda>s'. fold_pass step xs s')"

definition keeper_of :: "string \<Rightarrow> entity_group \<Rightarrow> workspace_tab option" where
  "keeper_of canonicalTabId grp =
     or_else (find (\<lambda>tab. wt_tabId tab = canonicalTabId) (eg_tabs grp)) (nth_opt (eg_tabs grp) 0)"

definition retarget_keeper :: "workspace_tab \<Rightarrow> tab_target \<Rightarrow> pass \<Rightarrow> string + pass" where
  "retarget_keeper keeper target s = (case s of (l, k) \<Rightarrow>
     if workspaceTabTargetsEqual (wt_target keeper) target then Inr (l, k)
     else bind_sum (replaceTabInTree (wl_root l) (wt_tabId keeper) (wt_tabId keeper) target None) (\<lambda>tree.
       Inr (relaid l tree (wl_focusedPaneId l), k)))"

definition reconcile_group ::
  "(nat \<Rightarrow> fresh_env) \<Rightarrow> string \<times> entity_group \<Rightarrow> pass \<Rightarrow> string + pass" where
  "reconcile_group envs entry s = (case keeper_of (fst entry) (snd entry) of
      None \<Rightarrow> Inr s
    | Some keeper \<Rightarrow>
        bind_sum (retarget_keeper keeper (eg_target (snd entry)) s) (\<lambda>s'.
          fold_pass (\<lambda>tab. if wt_tabId tab = wt_tabId keeper then Inr else close_in_pass envs (wt_tabId tab))
            (eg_tabs (snd entry)) s'))"

text \<open>The tab to focus in the end: the keeper of the group that held the focused tab.\<close>

definition focus_after_groups :: "(string, entity_group) js_map \<Rightarrow> string option \<Rightarrow> string option" where
  "focus_after_groups groups original =
     fold (\<lambda>(canonicalTabId, grp) current.
       if list_ex (\<lambda>tab. Some (wt_tabId tab) = original) (eg_tabs grp)
       then (case keeper_of canonicalTabId grp of Some keeper \<Rightarrow> Some (wt_tabId keeper) | None \<Rightarrow> current)
       else current) groups original"

section \<open>Closing what is gone, opening what is new\<close>

definition stale_tab :: "tab_snapshot \<Rightarrow> string set \<Rightarrow> string set \<Rightarrow> workspace_tab \<Rightarrow> bool" where
  "stale_tab snapshot visibleAgentIds knownTerminalIds tab = (case wt_target tab of
      AgentTab agentId \<Rightarrow> sn_agentsHydrated snapshot \<and> agentId \<notin> visibleAgentIds
    | TerminalTab terminalId \<Rightarrow> sn_terminalsHydrated snapshot \<and> terminalId \<notin> knownTerminalIds
    | _ \<Rightarrow> False)"

definition collapseStaleEntityTabs ::
  "(nat \<Rightarrow> fresh_env) \<Rightarrow> tab_snapshot \<Rightarrow> string set \<Rightarrow> string set \<Rightarrow> pass \<Rightarrow> string + pass" where
  "collapseStaleEntityTabs envs snapshot visibleAgentIds knownTerminalIds s =
     fold_pass (\<lambda>tab s'. if stale_tab snapshot visibleAgentIds knownTerminalIds tab
         then close_in_pass envs (wt_tabId tab) s' else Inr s')
       (collectAllTabs (wl_root (fst s))) s"

definition openEntityTabWithoutFocusing ::
  "fresh_env \<Rightarrow> workspace_layout \<Rightarrow> tab_target \<Rightarrow> string option \<Rightarrow> string + workspace_layout" where
  "openEntityTabWithoutFocusing env layout target explorerSidebarPaneId =
     bind_sum (insertNewTabIntoPane layout target (fe_now env) Ambient explorerSidebarPaneId
         (buildDeterministicWorkspaceTabId target) None False) (\<lambda>opened.
       Inr (case opened of Some (l, _) \<Rightarrow> l | None \<Rightarrow> layout))"

definition open_in_pass :: "(nat \<Rightarrow> fresh_env) \<Rightarrow> string option \<Rightarrow> tab_target \<Rightarrow> pass \<Rightarrow> string + pass" where
  "open_in_pass envs explorer target s = (case s of (l, k) \<Rightarrow>
     bind_sum (openEntityTabWithoutFocusing (envs k) l target explorer) (\<lambda>l'. Inr (l', Suc k)))"

definition agents_of :: "split_node \<Rightarrow> string set" where
  "agents_of n = set (List.map_filter (\<lambda>tab. case wt_target tab of AgentTab a \<Rightarrow> Some a | _ \<Rightarrow> None) (collectAllTabs n))"

definition terminals_of :: "split_node \<Rightarrow> string set" where
  "terminals_of n = set (List.map_filter (\<lambda>tab. case wt_target tab of TerminalTab i \<Rightarrow> Some i | _ \<Rightarrow> None)
     (collectAllTabs n))"

text \<open>
  The loops skip what is open already; they meet every id once, so that the sets the source adds to
  as it goes are those of the start.
\<close>

definition addMissingEntityTabs ::
  "(nat \<Rightarrow> fresh_env) \<Rightarrow> string set \<Rightarrow> string set \<Rightarrow> string set \<Rightarrow> bool \<Rightarrow> bool \<Rightarrow> string option \<Rightarrow> pass \<Rightarrow>
     string + pass" where
  "addMissingEntityTabs envs autoOpenAgentIds representedAgentIds standaloneTerminalIds
     hasActivePendingTerminalCreate hasActivePendingDraftCreate explorer s =
     (let currentAgentIds = agents_of (wl_root (fst s));
          currentTerminalIds = terminals_of (wl_root (fst s));
          missingAgentIds = filter (\<lambda>a. a \<notin> currentAgentIds \<and>
            \<not> (hasActivePendingDraftCreate \<and> a \<notin> representedAgentIds)) (sorted_list_of_set autoOpenAgentIds);
          missingTerminalIds = (if hasActivePendingTerminalCreate then []
            else filter (\<lambda>i. i \<notin> currentTerminalIds) (sorted_list_of_set standaloneTerminalIds))
      in fold_pass (open_in_pass envs explorer)
           (map AgentTab missingAgentIds @ map TerminalTab missingTerminalIds) s)"

definition seedDraftForEmptyWorkspace ::
  "string \<Rightarrow> rat \<Rightarrow> workspace_layout \<Rightarrow> tab_snapshot \<Rightarrow> string set \<Rightarrow> string set \<Rightarrow> string option \<Rightarrow>
     string + workspace_layout" where
  "seedDraftForEmptyWorkspace draftId now layout snapshot activeAgentIds knownTerminalIds explorer =
     (let ready = sn_agentsHydrated snapshot \<and> sn_terminalsHydrated snapshot;
          creatingContent = sn_hasActivePendingDraftCreate snapshot = Some True \<or>
            sn_hasActivePendingTerminalCreate snapshot = Some True;
          hasWorkspaceEntities = activeAgentIds \<noteq> {} \<or> knownTerminalIds \<noteq> {};
          explorerTabIds = (case findPaneById (wl_root layout) explorer of
            Some pane \<Rightarrow> set (sp_tabIds pane) | None \<Rightarrow> {});
          hasContentTab = list_ex (\<lambda>tab. wt_target tab \<noteq> NewTab \<and> wt_tabId tab \<notin> explorerTabIds)
            (collectAllTabs (wl_root layout))
      in if \<not> ready \<or> creatingContent \<or> hasWorkspaceEntities \<or> hasContentTab then Inr layout
         else bind_sum (createTabInLayout layout (Draft draftId None) now InFocused explorer (Inr draftId) None)
           (\<lambda>created. Inr (case created of Some (l, _) \<Rightarrow> l | None \<Rightarrow> layout)))"

section \<open>The pass\<close>

definition focusIfOpen :: "string option \<Rightarrow> workspace_layout \<Rightarrow> string + workspace_layout" where
  "focusIfOpen tabId layout = (case truthy tabId of
      None \<Rightarrow> Inr layout
    | Some i \<Rightarrow> bind_sum (focusTabInLayout layout i) (\<lambda>focused. Inr (default layout focused)))"

definition visible_agents :: "reconcile_state \<Rightarrow> tab_snapshot \<Rightarrow> string list \<Rightarrow> string set" where
  "visible_agents st snapshot base = applyPinnedAndHidden (normalizeStringSet base)
     (default [] (rs_pinnedAgentIds st)) (default [] (rs_pendingAgentIds st)) (default [] (rs_hiddenAgentIds st))
     (normalizeStringSet (sn_knownAgentIds snapshot))"

definition known_terminals :: "tab_snapshot \<Rightarrow> string set" where
  "known_terminals snapshot = normalizeStringSet
     (default (sn_standaloneTerminalIds snapshot) (sn_knownTerminalIds snapshot))"

definition reconcileWorkspaceTabs ::
  "(nat \<Rightarrow> fresh_env) \<Rightarrow> string \<Rightarrow> reconcile_state \<Rightarrow> tab_snapshot \<Rightarrow> string + reconcile_state" where
  "reconcileWorkspaceTabs envs draftId st snapshot =
     (let layout = rs_layout st; explorer = rs_explorerSidebarPaneId st;
          originalFocusedTabId = Option.bind (findPaneById (wl_root layout) (wl_focusedPaneId layout)) sp_focusedTabId;
          initialTabs = collectAllTabs (wl_root layout);
          representedAgentIds = agents_of (wl_root layout)
      in bind_sum (buildEntityTabGroups initialTabs) (\<lambda>entityGroups.
         let reconciledFocusedTabId = focus_after_groups entityGroups originalFocusedTabId in
         bind_sum (fold_pass (reconcile_group envs) entityGroups (layout, 0)) (\<lambda>grouped.
         bind_sum (collapseStaleEntityTabs envs snapshot (visible_agents st snapshot (sn_activeAgentIds snapshot))
             (known_terminals snapshot) grouped) (\<lambda>collapsed.
         bind_sum (addMissingEntityTabs envs (visible_agents st snapshot (sn_autoOpenAgentIds snapshot))
             representedAgentIds (normalizeStringSet (sn_standaloneTerminalIds snapshot))
             (default False (sn_hasActivePendingTerminalCreate snapshot))
             (default False (sn_hasActivePendingDraftCreate snapshot)) explorer collapsed) (\<lambda>(added, k).
         bind_sum (seedDraftForEmptyWorkspace draftId (fe_now (envs k)) added snapshot
             (normalizeStringSet (sn_activeAgentIds snapshot)) (known_terminals snapshot) explorer) (\<lambda>seeded.
         bind_sum (focusIfOpen reconciledFocusedTabId seeded) (\<lambda>focused.
           Inr (st\<lparr>rs_layout := focused\<rparr>))))))))"

section \<open>What holds throughout the pass\<close>

text \<open>
  The environments give distinct normal ids that no open tab has.  A layout is honest when a tab with the id
  of an agent or terminal shows it.
\<close>

definition new_id :: "fresh_env \<Rightarrow> string" where
  "new_id env = wt_tabId (new_tab_of env)"

definition envs_ok :: "(nat \<Rightarrow> fresh_env) \<Rightarrow> bool" where
  "envs_ok envs \<longleftrightarrow> (\<forall>k. tab_ok (new_tab_of (envs k))) \<and> inj (\<lambda>k. new_id (envs k))"

definition entity_id :: "tab_target \<Rightarrow> string" where
  "entity_id target = (case target of AgentTab a \<Rightarrow> ''agent_'' @ a | TerminalTab i \<Rightarrow> ''terminal_'' @ i | _ \<Rightarrow> [])"

definition honest :: "workspace_layout \<Rightarrow> bool" where
  "honest l \<longleftrightarrow> (\<forall>target. isEntityTarget target \<longrightarrow> entity_id target \<in> open_tab_ids (wl_root l) \<longrightarrow>
     (\<exists>t\<in>#content_of l. wt_tabId t = entity_id target \<and> wt_target t = target))"

definition other_id :: "(nat \<Rightarrow> fresh_env) \<Rightarrow> string \<Rightarrow> bool" where
  "other_id envs i \<longleftrightarrow> (\<forall>k. i \<noteq> new_id (envs k)) \<and> (\<forall>target. isEntityTarget target \<longrightarrow> i \<noteq> entity_id target)"

definition pass_ok :: "(nat \<Rightarrow> fresh_env) \<Rightarrow> string \<Rightarrow> pass \<Rightarrow> bool" where
  "pass_ok envs draftId s \<longleftrightarrow> (case s of (l, k) \<Rightarrow> wf_layout l \<and> honest l \<and>
     (\<forall>j\<ge>k. new_id (envs j) \<notin> open_tab_ids (wl_root l)) \<and> draftId \<notin> open_tab_ids (wl_root l) \<and>
     EXPLORER_SIDEBAR_PANE_ID \<in> set (map sp_id (panes (wl_root l))))"

lemma new_id_new: "new_id env = ''tab_'' @ fe_messageId env"
  by (simp add: new_id_def new_tab_of_def createNewWorkspaceTab_def)

lemma isEntity_iff: "isEntityTarget t \<longleftrightarrow> (\<exists>a. t = AgentTab a) \<or> (\<exists>i. t = TerminalTab i)"
  by (cases t) (simp_all add: isEntityTarget_def)

lemma entity_ids:
  "isEntityTarget t \<Longrightarrow> buildDeterministicWorkspaceTabId t = Inr (entity_id t)"
  "isEntityTarget t \<Longrightarrow> isEntityTarget u \<Longrightarrow> entity_id t = entity_id u \<longleftrightarrow> t = u"
  "isEntityTarget t \<Longrightarrow> entity_id t \<noteq> new_id env"
  by (auto simp: isEntity_iff entity_id_def buildDeterministicWorkspaceTabId_def new_id_new)

lemma entity_not_new: "isEntityTarget t \<Longrightarrow> t \<noteq> NewTab"
  by (auto simp: isEntity_iff)

lemma content_mem: "t \<in># content_of l \<longleftrightarrow> t \<in> set (collectAllTabs (wl_root l)) \<and> wt_target t \<noteq> NewTab"
  by (simp add: content_of_def content_collect)

lemma content_open: "t \<in># content_of l \<Longrightarrow> wt_tabId t \<in> open_tab_ids (wl_root l)"
  by (simp add: content_mem open_tab_ids_def)

lemma pass_fresh: "envs_ok envs \<Longrightarrow> pass_ok envs d (l, k) \<Longrightarrow> fresh_for (envs k) (wl_root l)"
  by (auto simp: envs_ok_def pass_ok_def fresh_for_def open_tab_ids_panes new_id_def)

text \<open>Closing a tab filters the content.\<close>

lemma filter_mset_all: "(\<And>x. x \<in># M \<Longrightarrow> P x) \<Longrightarrow> filter_mset P M = M"
  by (induction M) auto

lemma content_closed:
  assumes "content_of m + tab_content t = content_of l" and "wt_tabId t = i" and "i \<notin> open_tab_ids (wl_root m)"
  shows "content_of m = filter_mset (\<lambda>u. wt_tabId u \<noteq> i) (content_of l)"
proof -
  have "filter_mset (\<lambda>u. wt_tabId u \<noteq> i) (content_of m) = content_of m"
    using assms(3) content_open [of _ m] by (intro filter_mset_all) auto
  moreover have "filter_mset (\<lambda>u. wt_tabId u \<noteq> i) (tab_content t) = {#}" using assms(2) by (simp add: tab_content_def)
  ultimately show ?thesis by (metis add.right_neutral assms(1) filter_union_mset)
qed

lemma close_step:
  assumes envs: "envs_ok envs" and ok: "pass_ok envs d (l, k)" and d: "other_id envs d"
  shows "\<exists>m. close_in_pass envs i (l, k) = Inr (m, Suc k) \<and> pass_ok envs d (m, Suc k) \<and>
    content_of m = filter_mset (\<lambda>u. wt_tabId u \<noteq> i) (content_of l)"
proof (cases "i \<in> open_tab_ids (wl_root l)")
  case True
  have wf: "wf_layout l" using ok by (simp add: pass_ok_def)
  obtain m t where m: "closeTabInLayout (envs k) l i None = Inr (Some m)" "wf_layout m"
    "find_tab_by_id (wl_root l) i = Some t" "content_of m + tab_content t = content_of l"
    "i \<notin> open_tab_ids (wl_root m)"
    "open_tab_ids (wl_root m) \<subseteq> insert (new_id (envs k)) (open_tab_ids (wl_root l))"
    "EXPLORER_SIDEBAR_PANE_ID \<in> set (map sp_id (panes (wl_root m)))"
    using close_facts [OF wf pass_fresh [OF envs ok] True, of None] ok by (auto simp: pass_ok_def new_id_def)
  have id: "wt_tabId t = i" using find_tab_Some [OF m(3)] by simp
  note content = content_closed [OF m(4) id m(5)]
  have "honest m" unfolding honest_def
  proof (intro allI impI)
    fix target
    assume e: "isEntityTarget target" "entity_id target \<in> open_tab_ids (wl_root m)"
    with m(6) entity_ids(3) [OF e(1), of "envs k"] have "entity_id target \<in> open_tab_ids (wl_root l)" by auto
    with ok e(1) obtain u where "u \<in># content_of l" "wt_tabId u = entity_id target" "wt_target u = target"
      by (auto simp: pass_ok_def honest_def)
    moreover from this e(2) m(5) have "wt_tabId u \<noteq> i" by auto
    ultimately show "\<exists>t\<in>#content_of m. wt_tabId t = entity_id target \<and> wt_target t = target"
      unfolding content by auto
  qed
  moreover have "new_id (envs j) \<notin> open_tab_ids (wl_root m)" if "j \<ge> Suc k" for j
  proof -
    have "new_id (envs j) \<noteq> new_id (envs k)" using envs that by (auto simp: envs_ok_def dest: injD)
    with m(6) ok that show ?thesis by (auto simp: pass_ok_def)
  qed
  moreover have "d \<notin> open_tab_ids (wl_root m)" using m(6) ok d by (auto simp: pass_ok_def other_id_def)
  ultimately have "pass_ok envs d (m, Suc k)" using m(2,7) by (simp add: pass_ok_def)
  with content m(1) show ?thesis by (simp add: close_in_pass_def)
next
  case False
  then have "closeTabInLayout (envs k) l i None = Inr None"
    using containing_None [of "wl_root l" i] by (simp add: closeTabInLayout_def open_tab_ids_panes)
  moreover have "filter_mset (\<lambda>u. wt_tabId u \<noteq> i) (content_of l) = content_of l"
    using False content_open [of _ l] by (intro filter_mset_all) auto
  ultimately show ?thesis using ok by (simp add: close_in_pass_def pass_ok_def)
qed

text \<open>A run of closings.\<close>

lemma fold_pass_append:
  "fold_pass step (xs @ ys) s = bind_sum (fold_pass step xs s) (fold_pass step ys)"
  by (induction xs arbitrary: s) (auto simp: bind_sum_def split: sum.split)

lemma close_some:
  assumes envs: "envs_ok envs" and d: "other_id envs d" and ok: "pass_ok envs d s"
  shows "\<exists>s'. fold_pass (\<lambda>tab. if P tab then close_in_pass envs (wt_tabId tab) else Inr) tabs s = Inr s' \<and>
    pass_ok envs d s' \<and>
    content_of (fst s') = filter_mset (\<lambda>u. wt_tabId u \<notin> wt_tabId ` set (filter P tabs)) (content_of (fst s))"
  using ok
proof (induction tabs arbitrary: s)
  case Nil
  then show ?case by simp
next
  case (Cons tab tabs)
  obtain l k where s: "s = (l, k)" by (cases s)
  show ?case
  proof (cases "P tab")
    case True
    from close_step [OF envs Cons.prems [unfolded s] d, of "wt_tabId tab"] obtain m where
      m: "close_in_pass envs (wt_tabId tab) (l, k) = Inr (m, Suc k)" "pass_ok envs d (m, Suc k)"
        "content_of m = filter_mset (\<lambda>u. wt_tabId u \<noteq> wt_tabId tab) (content_of l)" by blast
    from Cons.IH [OF m(2)] m(1,3) True s show ?thesis
      by (auto simp: filter_filter_mset intro!: exI filter_mset_cong)
  next
    case False
    with Cons show ?thesis by simp
  qed
qed

section \<open>The groups\<close>

definition groups_ok :: "workspace_tab list \<Rightarrow> (string, entity_group) js_map \<Rightarrow> bool" where
  "groups_ok tabs gs \<longleftrightarrow> distinct (map fst gs) \<and>
     (\<forall>i g. map_of gs i = Some g \<longrightarrow> isEntityTarget (eg_target g) \<and> i = entity_id (eg_target g) \<and>
       eg_target g \<in> wt_target ` set tabs \<and> eg_tabs g = filter (\<lambda>t. wt_target t = eg_target g) tabs) \<and>
     (\<forall>t\<in>set tabs. isEntityTarget (wt_target t) \<longrightarrow> map_of gs (entity_id (wt_target t)) \<noteq> None)"

lemma groups_okD:
  assumes "groups_ok tabs gs" and "map_of gs i = Some g"
  shows "isEntityTarget (eg_target g)" "i = entity_id (eg_target g)" "eg_target g \<in> wt_target ` set tabs"
    "eg_tabs g = filter (\<lambda>t. wt_target t = eg_target g) tabs" "eg_tabs g \<noteq> []"
proof -
  show all: "isEntityTarget (eg_target g)" "i = entity_id (eg_target g)" "eg_target g \<in> wt_target ` set tabs"
    "eg_tabs g = filter (\<lambda>t. wt_target t = eg_target g) tabs"
    using assms unfolding groups_ok_def by blast+
  from all(3) show "eg_tabs g \<noteq> []" by (auto simp: all(4) filter_empty_conv)
qed

lemma groups_step:
  assumes ok: "groups_ok tabs gs" and tab: "tab_ok tab"
  shows "\<exists>gs'. add_to_group tab gs = Inr gs' \<and> groups_ok (tabs @ [tab]) gs'"
proof (cases "isEntityTarget (wt_target tab)")
  case False
  have "wt_target tab \<noteq> eg_target g" if "map_of gs i = Some g" for i g
    using groups_okD(1) [OF ok that] False by auto
  then have same: "filter (\<lambda>t. wt_target t = eg_target g) (tabs @ [tab]) = eg_tabs g" if "map_of gs i = Some g" for i g
    using groups_okD(4) [OF ok that] that by simp
  have "groups_ok (tabs @ [tab]) gs"
    unfolding groups_ok_def
  proof (intro conjI allI impI)
    fix i g
    assume g: "map_of gs i = Some g"
    show "isEntityTarget (eg_target g)" "i = entity_id (eg_target g)" by (rule groups_okD [OF ok g])+
    show "eg_target g \<in> wt_target ` set (tabs @ [tab])" using groups_okD(3) [OF ok g] by auto
    show "eg_tabs g = filter (\<lambda>t. wt_target t = eg_target g) (tabs @ [tab])" using same [OF g] by simp
  next
    show "\<forall>t\<in>set (tabs @ [tab]). isEntityTarget (wt_target t) \<longrightarrow> map_of gs (entity_id (wt_target t)) \<noteq> None"
      using ok False unfolding groups_ok_def by auto
  qed (use ok in \<open>simp add: groups_ok_def\<close>)
  moreover have "add_to_group tab gs = Inr gs" using False by (simp add: add_to_group_def)
  ultimately show ?thesis by simp
next
  case True
  let ?t = "wt_target tab" and ?i = "entity_id (wt_target tab)"
  have norm: "normalizeWorkspaceTabTarget ?t = Some ?t" using tab by (simp add: tab_ok_def)
  have others: "eg_target h \<noteq> ?t" if "map_of gs j = Some h" "j \<noteq> ?i" for j h
    using groups_okD(2) [OF ok that(1)] that(2) by auto
  define g' where "g' = (case map_of gs ?i of Some g \<Rightarrow> g\<lparr>eg_tabs := eg_tabs g @ [tab]\<rparr>
    | None \<Rightarrow> \<lparr>eg_target = ?t, eg_tabs = [tab]\<rparr>)"
  have g': "eg_target g' = ?t \<and> eg_tabs g' = filter (\<lambda>t. wt_target t = ?t) (tabs @ [tab])"
  proof (cases "map_of gs ?i")
    case (Some g)
    from groups_okD [OF ok Some] entity_ids(2) [OF True, of "eg_target g"] have "eg_target g = ?t" by simp
    with groups_okD(4) [OF ok Some] Some show ?thesis by (simp add: g'_def)
  next
    case None
    have "wt_target t \<noteq> ?t" if "t \<in> set tabs" for t
    proof
      assume "wt_target t = ?t"
      with ok that True have "map_of gs ?i \<noteq> None" unfolding groups_ok_def by metis
      with None show False by simp
    qed
    then show ?thesis using None by (simp add: g'_def)
  qed
  have "groups_ok (tabs @ [tab]) (AList.update ?i g' gs)"
    unfolding groups_ok_def
  proof (intro conjI allI impI)
    fix i g
    assume "map_of (AList.update ?i g' gs) i = Some g"
    then consider (new) "i = ?i" "g = g'" | (old) "i \<noteq> ?i" "map_of gs i = Some g"
      by (auto simp: update_conv' split: if_split_asm)
    then have "isEntityTarget (eg_target g) \<and> i = entity_id (eg_target g) \<and> eg_target g \<in> wt_target ` set (tabs @ [tab]) \<and>
        eg_tabs g = filter (\<lambda>t. wt_target t = eg_target g) (tabs @ [tab])"
    proof cases
      case old
      from groups_okD [OF ok old(2)] others [OF old(2,1)] show ?thesis by auto
    qed (use g' True in auto)
    then show "isEntityTarget (eg_target g)" "i = entity_id (eg_target g)" "eg_target g \<in> wt_target ` set (tabs @ [tab])"
      "eg_tabs g = filter (\<lambda>t. wt_target t = eg_target g) (tabs @ [tab])" by blast+
  next
    show "\<forall>t\<in>set (tabs @ [tab]). isEntityTarget (wt_target t) \<longrightarrow>
        map_of (AList.update ?i g' gs) (entity_id (wt_target t)) \<noteq> None"
      using ok unfolding groups_ok_def by (auto simp: update_conv')
  qed (use ok in \<open>simp add: groups_ok_def distinct_update\<close>)
  moreover have "add_to_group tab gs = Inr (AList.update ?i g' gs)"
    using True norm by (simp add: add_to_group_def entity_ids(1) g'_def split: option.split)
  ultimately show ?thesis by simp
qed

lemma groups_from:
  "groups_ok seen gs \<Longrightarrow> \<forall>t\<in>set tabs. tab_ok t \<Longrightarrow>
     \<exists>gs'. entity_groups_from tabs gs = Inr gs' \<and> groups_ok (seen @ tabs) gs'"
proof (induction tabs arbitrary: seen gs)
  case (Cons tab tabs)
  from groups_step [OF Cons.prems(1), of tab] Cons.prems(2) obtain gs1 where
    "add_to_group tab gs = Inr gs1" "groups_ok (seen @ [tab]) gs1" by auto
  with Cons.IH [of "seen @ [tab]" gs1] Cons.prems(2) show ?case by simp
qed simp

lemma groups_of:
  assumes "wf_layout l"
  shows "\<exists>gs. buildEntityTabGroups (collectAllTabs (wl_root l)) = Inr gs \<and> groups_ok (collectAllTabs (wl_root l)) gs"
proof -
  have "\<forall>t\<in>set (collectAllTabs (wl_root l)). tab_ok t"
    using tab_in_pane [of _ "wl_root l"] tab_ok_of_pane [OF wf_layoutD(2) [OF assms]] by blast
  with groups_from [of "[]" "[]"] show ?thesis by (simp add: buildEntityTabGroups_def groups_ok_def)
qed

lemma keeper_mem: "keeper_of i g = Some t \<Longrightarrow> t \<in> set (eg_tabs g)"
  by (auto simp: keeper_of_def or_else_def find_Some_iff dest: nth_opt_mem split: option.split_asm)

lemma keeper_some: "eg_tabs g \<noteq> [] \<Longrightarrow> keeper_of i g \<noteq> None"
  by (cases "eg_tabs g") (auto simp: keeper_of_def or_else_def split: option.split)

definition keeper_id :: "string \<times> entity_group \<Rightarrow> string" where
  "keeper_id entry = (case keeper_of (fst entry) (snd entry) of Some t \<Rightarrow> wt_tabId t | None \<Rightarrow> [])"

definition dropped_ids :: "string \<times> entity_group \<Rightarrow> string set" where
  "dropped_ids entry = wt_tabId ` set (eg_tabs (snd entry)) - {keeper_id entry}"

lemma group_step:
  assumes envs: "envs_ok envs" "other_id envs d" and ok: "pass_ok envs d s"
    and g: "eg_tabs g \<noteq> []" "\<forall>t\<in>set (eg_tabs g). wt_target t = eg_target g" "isEntityTarget (eg_target g)"
  shows "\<exists>s'. reconcile_group envs (i, g) s = Inr s' \<and> pass_ok envs d s' \<and>
    content_of (fst s') = filter_mset (\<lambda>u. wt_tabId u \<notin> dropped_ids (i, g)) (content_of (fst s))"
proof -
  from keeper_some [OF g(1), of i] obtain t where t: "keeper_of i g = Some t" by blast
  have "wt_target t = eg_target g" using keeper_mem [OF t] g(2) by simp
  then have same: "retarget_keeper t (eg_target g) s = Inr s"
    using g(3) by (cases s) (auto simp: retarget_keeper_def isEntity_iff workspaceTabTargetsEqual_def)
  have flip: "(\<lambda>tab. if wt_tabId tab = wt_tabId t then Inr else close_in_pass envs (wt_tabId tab)) =
      (\<lambda>tab. if wt_tabId tab \<noteq> wt_tabId t then close_in_pass envs (wt_tabId tab) else Inr)" by auto
  have ids: "wt_tabId ` set (filter (\<lambda>tab. wt_tabId tab \<noteq> wt_tabId t) (eg_tabs g)) = dropped_ids (i, g)"
    using t by (auto simp: dropped_ids_def keeper_id_def)
  show ?thesis
    using close_some [OF envs ok, of "\<lambda>tab. wt_tabId tab \<noteq> wt_tabId t" "eg_tabs g", unfolded ids]
    by (simp add: reconcile_group_def t same flip)
qed

lemma groups_pass:
  assumes envs: "envs_ok envs" "other_id envs d"
  shows "pass_ok envs d s \<Longrightarrow>
    \<forall>(i, g)\<in>set gs. eg_tabs g \<noteq> [] \<and> (\<forall>t\<in>set (eg_tabs g). wt_target t = eg_target g) \<and> isEntityTarget (eg_target g) \<Longrightarrow>
    \<exists>s'. fold_pass (reconcile_group envs) gs s = Inr s' \<and> pass_ok envs d s' \<and>
      content_of (fst s') = filter_mset (\<lambda>u. wt_tabId u \<notin> \<Union> (dropped_ids ` set gs)) (content_of (fst s))"
proof (induction gs arbitrary: s)
  case (Cons e gs)
  obtain i g where e: "e = (i, g)" by (cases e)
  from group_step [OF envs Cons.prems(1), of g i] Cons.prems(2) e obtain s1 where
    s1: "reconcile_group envs e s = Inr s1" "pass_ok envs d s1"
      "content_of (fst s1) = filter_mset (\<lambda>u. wt_tabId u \<notin> dropped_ids e) (content_of (fst s))" by auto
  from Cons.IH [OF s1(2)] Cons.prems(2) s1(1,3) show ?case
    by (auto simp: filter_filter_mset intro!: exI filter_mset_cong)
qed simp

section \<open>Opening\<close>

lemma tab_ids_set_pane: "set (tab_ids (set_pane q ps)) \<subseteq> set (tab_ids ps) \<union> set (map wt_tabId (sp_tabs q))"
proof
  fix i
  assume "i \<in> set (tab_ids (set_pane q ps))"
  then obtain p where "p \<in> set (set_pane q ps)" "i \<in> set (map wt_tabId (sp_tabs p))" by (auto simp: mem_tab_ids)
  moreover from this(1) have "p = q \<or> p \<in> set ps" by (auto simp: set_pane_def)
  ultimately show "i \<in> set (tab_ids ps) \<union> set (map wt_tabId (sp_tabs q))" by (auto simp: mem_tab_ids)
qed

lemma insertNew_content:
  assumes wf: "wf_layout l" and target: "normalizeWorkspaceTabTarget target = Some target" "target \<noteq> NewTab"
    and free: "free_id (Inr j) (wl_root l)"
    and m: "insertNewTabIntoPane l target now pl explorer (Inr j) state focus = Inr (Some (m, i))"
  obtains t where "wf_layout m" "content_of m = content_of l + {#t#}" "wt_target t = target" "wt_tabId t = j"
    "open_tab_ids (wl_root m) \<subseteq> insert j (open_tab_ids (wl_root l))"
    "map sp_id (panes (wl_root m)) = map sp_id (panes (wl_root l))"
proof -
  let ?n = "wl_root l"
  note result = that and ok = wf_layoutD(2) [OF wf]
  have j: "trim j = j" "j \<noteq> []" "j \<notin> set (tab_ids (panes ?n))" using free by (simp_all add: free_id_def)
  have m_ok: "wf_layout m" using insertNew_ok [OF wf target(1) free, of now pl explorer state focus] m by simp
  from m obtain p where res: "resolvePlacementPane l target pl explorer = Some p"
    by (auto simp: insertNewTabIntoPane_def split: option.split_asm)
  note p = resolve_mem [OF res]
  show thesis
  proof (cases "isSoleNewTabPane p")
    case True
    then obtain t0 where t0: "sp_tabs p = [t0]" "wt_target t0 = NewTab"
      by (auto simp: isSoleNewTabPane_def split: list.split_asm)
    let ?p' = "retabbed p (wt_tabId t0) j target state"
    let ?t = "\<lparr>wt_tabId = j, wt_target = target, wt_createdAt = wt_createdAt t0, wt_state = state\<rparr>"
    from m res True t0(1) target(2) obtain r f where r: "replaceTabInTree ?n (wt_tabId t0) j target state = Inr r"
      "m = relaid l r f" by (auto simp: insertNewTabIntoPane_def Let_def elim!: bind_sumE)
    have ps: "panes r = set_pane ?p' (panes ?n)"
      using replace_tab_spec [OF wf_layoutD(1) [OF wf] p _ target(1) j(1,2), of "wt_tabId t0" state] j(3) r(1) t0(1) by simp
    have "j = wt_tabId t0 \<or> j \<notin> set (map wt_tabId (sp_tabs p))" using j(3) p by (auto simp: mem_tab_ids)
    from retabbed_tabs [OF pane_of_mem(1) [OF ok p] target(1) j(1,2) this, of state] t0(1) have ts: "sp_tabs ?p' = [?t]"
      by simp
    have "content (panes r) = content (panes ?n) + {#?t#}"
      using content_set [OF ok p, of ?p'] ps ts t0 target(2) by (simp add: pane_content_def)
    moreover have "open_tab_ids r \<subseteq> insert j (open_tab_ids ?n)"
      using tab_ids_set_pane [of ?p' "panes ?n"] ts ps by (auto simp: open_tab_ids_panes)
    moreover have "map sp_id (panes r) = map sp_id (panes ?n)" by (simp only: ps set_pane_ids)
    ultimately show ?thesis using result [of ?t] m_ok r(2) by (simp add: content_of_def)
  next
    case False
    let ?t = "\<lparr>wt_tabId = j, wt_target = target, wt_createdAt = now, wt_state = state\<rparr>"
    have t: "tab_ok ?t" using target(1) j by (simp add: tab_ok_def)
    from m res False obtain r f g where r: "insertTabIntoPane ?n (sp_id p) ?t g = Inr r" "m = relaid l r f"
      by (auto simp: insertNewTabIntoPane_def Let_def elim!: bind_sumE)
    have "wt_tabId ?t \<notin> set (tab_ids (panes ?n))" using j(3) by simp
    from content_insert [OF wf_layoutD(1) [OF wf] p t this r(1)]
    have c: "content (panes r) = content (panes ?n) + {#?t#}" using target(2) by (simp add: tab_content_def)
    have ps: "panes r = set_pane (with_tab p ?t g) (panes ?n)"
      using insert_spec [OF wf_layoutD(1) [OF wf] p t, of g] j(3) r(1) by simp
    have "open_tab_ids r \<subseteq> insert j (open_tab_ids ?n)"
    proof -
      have "set (map wt_tabId (sp_tabs p)) \<subseteq> set (tab_ids (panes ?n))"
        using p unfolding subset_iff mem_tab_ids by blast
      with tab_ids_set_pane [of "with_tab p ?t g" "panes ?n"] with_tab_ids(1) [OF pane_of_mem(1) [OF ok p] t, of g]
      have "set (tab_ids (panes r)) \<subseteq> insert j (set (tab_ids (panes ?n)))" unfolding ps by simp blast
      then show ?thesis by (simp add: open_tab_ids_panes)
    qed
    moreover have "map sp_id (panes r) = map sp_id (panes ?n)" by (simp only: ps set_pane_ids)
    ultimately show ?thesis using result [of ?t] m_ok r(2) c by (simp add: content_of_def)
  qed
qed

lemma find_first: "x \<in> set xs \<Longrightarrow> P x \<Longrightarrow> find P xs \<noteq> None"
  by (auto simp: find_None_iff)

lemma explorer_hosts:
  assumes "isEntityTarget target" and "EXPLORER_SIDEBAR_PANE_ID \<in> set (map sp_id (panes (wl_root l)))"
  shows "resolvePlacementPane l target pl (Some EXPLORER_SIDEBAR_PANE_ID) \<noteq> None"
proof -
  have host: "panelSupportsHost (kind_of target) h" for h
    using assms(1) by (cases h) (auto simp: isEntity_iff panelSupportsHost_def supportedHosts_def)
  from assms(2) obtain p where "findPaneById (wl_root l) (Some EXPLORER_SIDEBAR_PANE_ID) = Some p"
    using by_id_None [of "wl_root l" EXPLORER_SIDEBAR_PANE_ID] by (auto simp: EXPLORER_SIDEBAR_PANE_ID_def)
  then show ?thesis by (auto simp: resolvePlacementPane_def Let_def or_else_def host split: option.split)
qed

text \<open>Opening an agent or terminal that has no tab adds one.\<close>

lemma open_step:
  assumes envs: "envs_ok envs" "other_id envs d" and ok: "pass_ok envs d (l, k)"
    and e: "isEntityTarget target" "normalizeWorkspaceTabTarget target = Some target"
    and new: "target \<notin> wt_target ` set_mset (content_of l)"
  shows "\<exists>m t. open_in_pass envs (Some EXPLORER_SIDEBAR_PANE_ID) target (l, k) = Inr (m, Suc k) \<and>
    pass_ok envs d (m, Suc k) \<and> content_of m = content_of l + {#t#} \<and> wt_target t = target"
proof -
  let ?i = "entity_id target" and ?ex = "Some EXPLORER_SIDEBAR_PANE_ID"
  have wf: "wf_layout l" using ok by (simp add: pass_ok_def)
  have "?i \<notin> open_tab_ids (wl_root l)" using ok e(1) new by (force simp: pass_ok_def honest_def)
  moreover have "trim ?i = ?i" "?i \<noteq> []"
  proof -
    show "trim ?i = ?i" "?i \<noteq> []" using normal_id_trimmed [OF e(2) entity_ids(1) [OF e(1)]] by blast+
  qed
  ultimately have free: "free_id (Inr ?i) (wl_root l)" by (simp add: free_id_def open_tab_ids_panes)
  have res: "resolvePlacementPane l target Ambient ?ex \<noteq> None"
    using explorer_hosts [OF e(1)] ok by (auto simp: pass_ok_def)
  let ?call = "insertNewTabIntoPane l target (fe_now (envs k)) Ambient ?ex (Inr ?i) None False"
  from insertNew_ok [OF wf e(2) free, of "fe_now (envs k)" Ambient ?ex None False] obtain r where
    r: "?call = Inr r" by (auto simp: returns_wf_id_def)
  moreover have "r \<noteq> None"
    using r res by (auto simp: insertNewTabIntoPane_def Let_def elim!: bind_sumE split: option.split_asm if_split_asm)
  ultimately obtain m j where m: "?call = Inr (Some (m, j))" by auto
  obtain t where t: "wf_layout m" "content_of m = content_of l + {#t#}" "wt_target t = target" "wt_tabId t = ?i"
    "open_tab_ids (wl_root m) \<subseteq> insert ?i (open_tab_ids (wl_root l))"
    "map sp_id (panes (wl_root m)) = map sp_id (panes (wl_root l))"
    by (rule insertNew_content [OF wf e(2) entity_not_new [OF e(1)] free m])
  have "honest m" unfolding honest_def
  proof (intro allI impI)
    fix u
    assume u: "isEntityTarget u" "entity_id u \<in> open_tab_ids (wl_root m)"
    show "\<exists>t\<in>#content_of m. wt_tabId t = entity_id u \<and> wt_target t = u"
    proof (cases "u = target")
      case False
      with u t(5) entity_ids(2) [OF u(1) e(1)] have "entity_id u \<in> open_tab_ids (wl_root l)" by auto
      with ok u(1) show ?thesis by (auto simp: pass_ok_def honest_def t(2))
    qed (use t in auto)
  qed
  moreover have "new_id (envs j) \<notin> open_tab_ids (wl_root m)" if "j \<ge> Suc k" for j
    using t(5) ok that entity_ids(3) [OF e(1), of "envs j"] by (auto simp: pass_ok_def)
  moreover have "d \<notin> open_tab_ids (wl_root m)" using t(5) ok envs(2) e(1) by (auto simp: pass_ok_def other_id_def)
  ultimately have "pass_ok envs d (m, Suc k)" using t(1,6) ok by (simp add: pass_ok_def del: set_map)
  moreover have "open_in_pass envs ?ex target (l, k) = Inr (m, Suc k)"
    using m by (simp add: open_in_pass_def openEntityTabWithoutFocusing_def entity_ids(1) [OF e(1)])
  ultimately show ?thesis using t by blast
qed

lemma open_many:
  assumes envs: "envs_ok envs" "other_id envs d"
  shows "pass_ok envs d s \<Longrightarrow>
    \<forall>target\<in>set targets. isEntityTarget target \<and> normalizeWorkspaceTabTarget target = Some target \<Longrightarrow>
    distinct targets \<Longrightarrow> set targets \<inter> wt_target ` set_mset (content_of (fst s)) = {} \<Longrightarrow>
    \<exists>s' ts. fold_pass (open_in_pass envs (Some EXPLORER_SIDEBAR_PANE_ID)) targets s = Inr s' \<and> pass_ok envs d s' \<and>
      content_of (fst s') = content_of (fst s) + mset ts \<and> map wt_target ts = targets"
proof (induction targets arbitrary: s)
  case (Cons target targets)
  obtain l k where s: "s = (l, k)" by (cases s)
  from open_step [OF envs Cons.prems(1) [unfolded s], of target] Cons.prems(2,4) s obtain m t where
    m: "open_in_pass envs (Some EXPLORER_SIDEBAR_PANE_ID) target (l, k) = Inr (m, Suc k)" "pass_ok envs d (m, Suc k)"
      "content_of m = content_of l + {#t#}" "wt_target t = target" by auto
  have "set targets \<inter> wt_target ` set_mset (content_of m) = {}" using Cons.prems(3,4) m(3,4) s by auto
  with Cons.IH [OF m(2)] Cons.prems(2,3) obtain s' ts where
    "fold_pass (open_in_pass envs (Some EXPLORER_SIDEBAR_PANE_ID)) targets (m, Suc k) = Inr s'" "pass_ok envs d s'"
    "content_of (fst s') = content_of m + mset ts" "map wt_target ts = targets" by auto
  with m s show ?case by (intro exI [of _ s'] exI [of _ "t # ts"]) simp
qed simp

section \<open>What each phase does to the content\<close>

definition shown :: "workspace_tab multiset \<Rightarrow> tab_target set" where
  "shown c = {target \<in> wt_target ` set_mset c. isEntityTarget target}"

definition unique_entities :: "workspace_tab multiset \<Rightarrow> bool" where
  "unique_entities c \<longleftrightarrow> (\<forall>t u. t \<in># c \<longrightarrow> u \<in># c \<longrightarrow> isEntityTarget (wt_target t) \<longrightarrow>
     wt_target t = wt_target u \<longrightarrow> t = u)"

definition others :: "workspace_tab multiset \<Rightarrow> workspace_tab multiset" where
  "others c = filter_mset (\<lambda>t. \<not> isEntityTarget (wt_target t)) c"

lemma entity_names:
  "(case target of AgentTab a \<Rightarrow> Some a | _ \<Rightarrow> None) = Some a \<longleftrightarrow> target = AgentTab a"
  "(case target of TerminalTab i \<Rightarrow> Some i | _ \<Rightarrow> None) = Some i \<longleftrightarrow> target = TerminalTab i"
  by (cases target; simp)+

lemma shown_agents:
  "agents_of (wl_root l) = {a. AgentTab a \<in> shown (content_of l)}"
  "terminals_of (wl_root l) = {i. TerminalTab i \<in> shown (content_of l)}"
proof -
  have "AgentTab a \<in> wt_target ` set (collectAllTabs (wl_root l)) \<longleftrightarrow> AgentTab a \<in> shown (content_of l)"
    "TerminalTab a \<in> wt_target ` set (collectAllTabs (wl_root l)) \<longleftrightarrow> TerminalTab a \<in> shown (content_of l)" for a
    using content_mem [of _ l] by (auto simp: shown_def isEntity_iff image_iff) (metis tab_target.distinct(1-100))+
  moreover have "agents_of (wl_root l) = {a. AgentTab a \<in> wt_target ` set (collectAllTabs (wl_root l))}"
    "terminals_of (wl_root l) = {i. TerminalTab i \<in> wt_target ` set (collectAllTabs (wl_root l))}"
    by (auto simp: agents_of_def terminals_of_def set_map_filter entity_names image_iff) (metis entity_names)+
  ultimately show "agents_of (wl_root l) = {a. AgentTab a \<in> shown (content_of l)}"
    "terminals_of (wl_root l) = {i. TerminalTab i \<in> shown (content_of l)}" by simp_all
qed

lemma distinct_tabs:
  assumes "wf_layout l" and "t \<in> set (collectAllTabs (wl_root l))" and "u \<in> set (collectAllTabs (wl_root l))"
    and "wt_tabId t = wt_tabId u"
  shows "t = u"
proof -
  have "distinct (map wt_tabId (collectAllTabs (wl_root l)))"
    using wf_layoutD(2) [OF assms(1)] by (simp only: tab_ids_collect panes_ok_def)
  with assms(2-4) show ?thesis by (auto simp: distinct_map inj_on_def)
qed

lemma dropped_tab:
  assumes wf: "wf_layout l" and gs: "groups_ok (collectAllTabs (wl_root l)) gs" and t: "t \<in># content_of l"
    and i: "wt_tabId t \<in> \<Union> (dropped_ids ` set gs)"
  shows "isEntityTarget (wt_target t) \<and> (\<exists>g. map_of gs (entity_id (wt_target t)) = Some g \<and>
    wt_tabId t \<noteq> keeper_id (entity_id (wt_target t), g))"
proof -
  from i obtain j g u where e: "(j, g) \<in> set gs" "u \<in> set (eg_tabs g)" "wt_tabId t = wt_tabId u" "wt_tabId t \<noteq> keeper_id (j, g)"
    by (auto simp: dropped_ids_def)
  have g: "map_of gs j = Some g" using e(1) gs by (simp add: groups_ok_def)
  note D = groups_okD [OF gs g]
  have u: "u \<in> set (collectAllTabs (wl_root l))" "wt_target u = eg_target g" using e(2) by (simp_all add: D(4))
  have "t = u" using distinct_tabs [OF wf _ u(1) e(3)] t by (simp add: content_mem)
  with u D(1,2) g e(4) show ?thesis by auto
qed

lemma grouped_content:
  assumes wf: "wf_layout l" and gs: "groups_ok (collectAllTabs (wl_root l)) gs"
    and c: "c = filter_mset (\<lambda>u. wt_tabId u \<notin> \<Union> (dropped_ids ` set gs)) (content_of l)"
  shows "shown c = shown (content_of l)" "unique_entities c" "others c = others (content_of l)"
proof -
  have drop: "t \<in># c \<longleftrightarrow> t \<in># content_of l \<and> wt_tabId t \<notin> \<Union> (dropped_ids ` set gs)" for t by (auto simp: c)
  show "others c = others (content_of l)"
    unfolding others_def c filter_filter_mset
    by (rule filter_mset_cong [OF refl]) (use dropped_tab [OF wf gs] in blast)
  have "target \<in> shown c" if "target \<in> shown (content_of l)" for target
  proof -
    from that obtain t where t: "t \<in># content_of l" "wt_target t = target" "isEntityTarget target" by (auto simp: shown_def)
    then obtain g where g: "map_of gs (entity_id target) = Some g"
      using gs by (auto simp: groups_ok_def content_mem)
    note D = groups_okD [OF gs g]
    have target: "eg_target g = target" using entity_ids(2) [OF t(3) D(1)] D(2) by simp
    from keeper_some [OF D(5), of "entity_id target"] obtain u where u: "keeper_of (entity_id target) g = Some u" by blast
    from keeper_mem [OF this] have mem: "u \<in> set (collectAllTabs (wl_root l))" "wt_target u = target"
      by (simp_all add: D(4) target)
    have in_l: "u \<in># content_of l" using mem t(3) entity_not_new by (simp add: content_mem)
    have "wt_tabId u \<notin> \<Union> (dropped_ids ` set gs)"
      using dropped_tab [OF wf gs in_l] mem(2) g u by (auto simp: keeper_id_def)
    with in_l mem(2) t(3) show ?thesis by (auto simp: shown_def drop)
  qed
  moreover have "shown c \<subseteq> shown (content_of l)" by (auto simp: shown_def drop)
  ultimately show "shown c = shown (content_of l)" by blast
  have kept: "wt_tabId t = keeper_id (entity_id (wt_target t), g)"
    if "t \<in># c" "isEntityTarget (wt_target t)" "map_of gs (entity_id (wt_target t)) = Some g" for t g
  proof (rule ccontr)
    assume ne: "wt_tabId t \<noteq> keeper_id (entity_id (wt_target t), g)"
    note D = groups_okD [OF gs that(3)]
    have "eg_target g = wt_target t" using entity_ids(2) [OF that(2) D(1)] D(2) by simp
    then have "t \<in> set (eg_tabs g)" using that(1) by (simp add: D(4) drop content_mem)
    with ne map_of_SomeD [OF that(3)] have "wt_tabId t \<in> \<Union> (dropped_ids ` set gs)"
      by (force simp: dropped_ids_def)
    with that(1) show False by (simp add: drop)
  qed
  show "unique_entities c"
    unfolding unique_entities_def
  proof (intro allI impI)
    fix t u
    assume t: "t \<in># c" "u \<in># c" "isEntityTarget (wt_target t)" "wt_target t = wt_target u"
    obtain g where "map_of gs (entity_id (wt_target t)) = Some g"
      using gs t(1,3) by (auto simp: groups_ok_def drop content_mem)
    with kept [OF t(1)] kept [OF t(2)] t(3,4) have "wt_tabId t = wt_tabId u" by simp
    with distinct_tabs [OF wf] t(1,2) show "t = u" by (auto simp: drop content_mem)
  qed
qed

lemma collapsed_content:
  assumes wf: "wf_layout l"
  shows "filter_mset (\<lambda>u. wt_tabId u \<notin> wt_tabId ` set (filter P (collectAllTabs (wl_root l)))) (content_of l) =
    filter_mset (\<lambda>u. \<not> P u) (content_of l)"
proof (rule filter_mset_cong [OF refl])
  fix u
  assume "u \<in># content_of l"
  then have u: "u \<in> set (collectAllTabs (wl_root l))" by (simp add: content_mem)
  have "P u" if "t \<in> set (collectAllTabs (wl_root l))" "P t" "wt_tabId u = wt_tabId t" for t
    using distinct_tabs [OF wf u that(1,3)] that(2) by simp
  with u show "(wt_tabId u \<notin> wt_tabId ` set (filter P (collectAllTabs (wl_root l)))) = (\<not> P u)" by auto
qed

lemma stale_entity: "stale_tab sn v k t \<Longrightarrow> isEntityTarget (wt_target t)"
  by (auto simp: stale_tab_def isEntity_iff split: tab_target.split_asm)

lemma filtered_content:
  assumes "unique_entities c" and c': "c' = filter_mset (\<lambda>u. \<not> stale_tab sn v k u) c"
  shows "unique_entities c'" "others c' = others c"
    "AgentTab a \<in> shown c' \<longleftrightarrow> AgentTab a \<in> shown c \<and> (sn_agentsHydrated sn \<longrightarrow> a \<in> v)"
    "TerminalTab i \<in> shown c' \<longleftrightarrow> TerminalTab i \<in> shown c \<and> (sn_terminalsHydrated sn \<longrightarrow> i \<in> k)"
proof -
  show "unique_entities c'" using assms(1) by (auto simp: unique_entities_def c')
  show "others c' = others c"
    unfolding others_def c' filter_filter_mset by (rule filter_mset_cong [OF refl]) (use stale_entity in blast)
  show "AgentTab a \<in> shown c' \<longleftrightarrow> AgentTab a \<in> shown c \<and> (sn_agentsHydrated sn \<longrightarrow> a \<in> v)"
    "TerminalTab i \<in> shown c' \<longleftrightarrow> TerminalTab i \<in> shown c \<and> (sn_terminalsHydrated sn \<longrightarrow> i \<in> k)"
    by (auto simp: shown_def c' stale_tab_def isEntity_iff split: tab_target.split_asm)
qed

lemma added_content:
  assumes "unique_entities c" and "c' = c + mset ts" and "distinct (map wt_target ts)"
    and "set (map wt_target ts) \<inter> wt_target ` set_mset c = {}" and "\<forall>t\<in>set ts. isEntityTarget (wt_target t)"
  shows "unique_entities c'" "others c' = others c" "shown c' = shown c \<union> set (map wt_target ts)"
proof -
  have "t = u" if "t \<in> set ts" "u \<in> set ts" "wt_target t = wt_target u" for t u
    using that assms(3) by (auto simp: distinct_map inj_on_def)
  with assms(1,4) show "unique_entities c'" by (auto simp: unique_entities_def assms(2))
  have "filter_mset (\<lambda>t. \<not> isEntityTarget (wt_target t)) (mset ts) = {#}" using assms(5) by (simp add: filter_mset_eq_conv)
  then show "others c' = others c" by (simp add: others_def assms(2))
  show "shown c' = shown c \<union> set (map wt_target ts)" using assms(5) by (auto simp: shown_def assms(2))
qed

section \<open>The result of the pass\<close>

text \<open>
  What the caller has to provide: a well-formed and honest layout with the explorer pane, fresh ids, and
  pinned agents with normal ids.
\<close>

definition reconcilable :: "(nat \<Rightarrow> fresh_env) \<Rightarrow> string \<Rightarrow> reconcile_state \<Rightarrow> bool" where
  "reconcilable envs draftId st \<longleftrightarrow> envs_ok envs \<and> other_id envs draftId \<and> trim draftId = draftId \<and> draftId \<noteq> [] \<and>
     pass_ok envs draftId (rs_layout st, 0) \<and> rs_explorerSidebarPaneId st = Some EXPLORER_SIDEBAR_PANE_ID \<and>
     (\<forall>a\<in>set (default [] (rs_pinnedAgentIds st)). trim a = a \<and> a \<noteq> [])"

definition expected_agents :: "reconcile_state \<Rightarrow> tab_snapshot \<Rightarrow> string set" where
  "expected_agents st sn =
     {a \<in> agents_of (wl_root (rs_layout st)). sn_agentsHydrated sn \<longrightarrow> a \<in> visible_agents st sn (sn_activeAgentIds sn)} \<union>
     {a \<in> visible_agents st sn (sn_autoOpenAgentIds sn).
        a \<in> agents_of (wl_root (rs_layout st)) \<or> \<not> default False (sn_hasActivePendingDraftCreate sn)}"

definition expected_terminals :: "reconcile_state \<Rightarrow> tab_snapshot \<Rightarrow> string set" where
  "expected_terminals st sn =
     {i \<in> terminals_of (wl_root (rs_layout st)). sn_terminalsHydrated sn \<longrightarrow> i \<in> known_terminals sn} \<union>
     (if default False (sn_hasActivePendingTerminalCreate sn) then {}
      else normalizeStringSet (sn_standaloneTerminalIds sn))"

lemma normal_strings: "a \<in> normalizeStringSet xs \<Longrightarrow> trim a = a \<and> a \<noteq> []"
  by (auto simp: normalizeStringSet_def set_map_filter trimNonEmpty_def Let_def split: if_split_asm)

lemma finite_strings [simp]: "finite (normalizeStringSet xs)"
  by (simp add: normalizeStringSet_def)

lemma visible_normal:
  assumes "\<forall>a\<in>set (default [] (rs_pinnedAgentIds st)). trim a = a \<and> a \<noteq> []" and "a \<in> visible_agents st sn base"
  shows "trim a = a \<and> a \<noteq> []"
  using assms normal_strings [of a base] by (auto simp: visible_agents_def applyPinnedAndHidden_def Let_def)

lemma finite_visible [simp]: "finite (visible_agents st sn base)"
  by (simp add: visible_agents_def applyPinnedAndHidden_def Let_def)

lemma normal_entities:
  "trim a = a \<and> a \<noteq> [] \<Longrightarrow> isEntityTarget (AgentTab a) \<and> normalizeWorkspaceTabTarget (AgentTab a) = Some (AgentTab a)"
  "trim a = a \<and> a \<noteq> [] \<Longrightarrow> isEntityTarget (TerminalTab a) \<and>
    normalizeWorkspaceTabTarget (TerminalTab a) = Some (TerminalTab a)"
  by (simp_all add: isEntity_iff normalizeWorkspaceTabTarget_def normalizeSimpleWorkspaceTabTarget_def)

lemma add_phase:
  assumes envs: "envs_ok envs" "other_id envs d" and ok: "pass_ok envs d s"
    and ids: "\<forall>a\<in>autos. trim a = a \<and> a \<noteq> []" "\<forall>i\<in>standalone. trim i = i \<and> i \<noteq> []" "finite autos" "finite standalone"
    and u: "unique_entities (content_of (fst s))"
  shows "\<exists>s'. addMissingEntityTabs envs autos represented standalone pt pd (Some EXPLORER_SIDEBAR_PANE_ID) s = Inr s' \<and>
    pass_ok envs d s' \<and> unique_entities (content_of (fst s')) \<and> others (content_of (fst s')) = others (content_of (fst s)) \<and>
    agents_of (wl_root (fst s')) = agents_of (wl_root (fst s)) \<union> {a \<in> autos. a \<in> represented \<or> \<not> pd} \<and>
    terminals_of (wl_root (fst s')) = terminals_of (wl_root (fst s)) \<union> (if pt then {} else standalone)"
proof -
  define ags where "ags = filter (\<lambda>a. a \<notin> agents_of (wl_root (fst s)) \<and> \<not> (pd \<and> a \<notin> represented)) (sorted_list_of_set autos)"
  define tms where "tms = (if pt then [] else filter (\<lambda>i. i \<notin> terminals_of (wl_root (fst s))) (sorted_list_of_set standalone))"
  let ?targets = "map AgentTab ags @ map TerminalTab tms"
  have sets: "set ags = {a \<in> autos. a \<notin> agents_of (wl_root (fst s)) \<and> (a \<in> represented \<or> \<not> pd)}"
    "set tms = (if pt then {} else standalone - terminals_of (wl_root (fst s)))"
    using ids(3,4) by (auto simp: ags_def tms_def)
  have normal: "\<forall>target\<in>set ?targets. isEntityTarget target \<and> normalizeWorkspaceTabTarget target = Some target"
    using normal_entities ids(1,2) by (auto simp: sets split: if_split_asm)
  have dist: "distinct ?targets" by (auto simp: ags_def tms_def distinct_map inj_on_def)
  have new: "set ?targets \<inter> wt_target ` set_mset (content_of (fst s)) = {}"
  proof -
    have "target \<notin> shown (content_of (fst s))" if "target \<in> set ?targets" for target
      using that by (auto simp: sets shown_agents split: if_split_asm)
    with normal show ?thesis by (auto simp: shown_def)
  qed
  from open_many [OF envs ok normal dist new] obtain s' ts where
    s': "fold_pass (open_in_pass envs (Some EXPLORER_SIDEBAR_PANE_ID)) ?targets s = Inr s'" "pass_ok envs d s'"
      "content_of (fst s') = content_of (fst s) + mset ts" "map wt_target ts = ?targets" by blast
  have "distinct (map wt_target ts)" "set (map wt_target ts) \<inter> wt_target ` set_mset (content_of (fst s)) = {}"
    using dist new by (simp_all only: s'(4))
  moreover have "\<forall>t\<in>set ts. isEntityTarget (wt_target t)"
  proof
    fix t assume "t \<in> set ts"
    then have "wt_target t \<in> set (map wt_target ts)" by simp
    with normal show "isEntityTarget (wt_target t)" by (simp only: s'(4))
  qed
  ultimately have c: "unique_entities (content_of (fst s'))" "others (content_of (fst s')) = others (content_of (fst s))"
    "shown (content_of (fst s')) = shown (content_of (fst s)) \<union> set ?targets"
    using added_content [OF u s'(3)] by (simp_all only: s'(4))
  have "addMissingEntityTabs envs autos represented standalone pt pd (Some EXPLORER_SIDEBAR_PANE_ID) s = Inr s'"
    using s'(1) by (simp add: addMissingEntityTabs_def ags_def tms_def)
  moreover have "agents_of (wl_root (fst s')) = agents_of (wl_root (fst s)) \<union> {a \<in> autos. a \<in> represented \<or> \<not> pd}"
    unfolding shown_agents c(3) using sets(1) by (auto simp: shown_agents)
  moreover have "terminals_of (wl_root (fst s')) = terminals_of (wl_root (fst s)) \<union> (if pt then {} else standalone)"
    unfolding shown_agents c(3) using sets(2) by (auto simp: shown_agents)
  ultimately show ?thesis using s'(2) c(1,2) by blast
qed

lemma draft_not_entity: "\<not> isEntityTarget (Draft x y)"
  by (simp add: isEntity_iff)

lemma seed_phase:
  assumes ok: "pass_ok envs d (l, k)" and d: "trim d = d" "d \<noteq> []"
  shows "\<exists>m D. seedDraftForEmptyWorkspace d now l sn active known explorer = Inr m \<and> wf_layout m \<and>
    content_of m = content_of l + D \<and>
    (D = {#} \<or> active = {} \<and> known = {} \<and> (\<exists>t. D = {#t#} \<and> wt_target t = Draft d None))"
proof -
  let ?t = "Draft d None"
  let ?call = "createTabInLayout l ?t now InFocused explorer (Inr d) None"
  have wf: "wf_layout l" using ok by (simp add: pass_ok_def)
  have norm: "normalizeWorkspaceTabTarget ?t = Some ?t"
    using d by (simp add: normalizeWorkspaceTabTarget_def trimNonEmpty_def normalizeWorkspaceDraftTabSetup_def)
  have free: "free_id (Inr d) (wl_root l)" using ok d by (simp add: free_id_def pass_ok_def open_tab_ids_panes)
  from insertNew_ok [OF wf norm free, of now InFocused explorer None True] obtain r where r: "?call = Inr r"
    by (auto simp: createTabInLayout_def returns_wf_id_def)
  have "\<exists>D. wf_layout (case r of Some (m, _) \<Rightarrow> m | None \<Rightarrow> l) \<and>
      content_of (case r of Some (m, _) \<Rightarrow> m | None \<Rightarrow> l) = content_of l + D \<and>
      (D = {#} \<or> (\<exists>t. D = {#t#} \<and> wt_target t = ?t))"
  proof (cases r)
    case (Some z)
    obtain m i where z: "z = (m, i)" by (cases z)
    with Some r have m: "insertNewTabIntoPane l ?t now InFocused explorer (Inr d) None True = Inr (Some (m, i))"
      by (simp add: createTabInLayout_def)
    obtain t where "wf_layout m" "content_of m = content_of l + {#t#}" "wt_target t = ?t"
      by (rule insertNew_content [OF wf norm _ free m]) auto
    then show ?thesis using Some z by (intro exI [of _ "{#t#}"]) simp
  next
    case None
    then show ?thesis using wf by (intro exI [of _ "{#}"]) simp
  qed
  then show ?thesis using r wf by (auto simp: seedDraftForEmptyWorkspace_def Let_def intro: exI [of _ "{#}"])
qed

lemma focus_phase:
  assumes "wf_layout l"
  shows "\<exists>m. focusIfOpen i l = Inr m \<and> wf_layout m \<and> content_of m = content_of l"
proof (cases "truthy i")
  case (Some j)
  from focusTab_ok [OF assms, of j] obtain r where r: "focusTabInLayout l j = Inr r" by (auto simp: returns_wf_def)
  with Some assms focusTab_ok [OF assms, of j] focusTab_content [OF assms, of j] show ?thesis
    by (cases r) (auto simp: focusIfOpen_def)
qed (simp add: focusIfOpen_def assms)

lemma seeded_content:
  assumes "unique_entities c" and "D = {#} \<or> (\<exists>t. D = {#t#} \<and> wt_target t = Draft d None)"
  shows "unique_entities (c + D)" "shown (c + D) = shown c" "others (c + D) = others c + D"
  using assms draft_not_entity by (auto simp: unique_entities_def shown_def others_def)

text \<open>The two phases that close tabs.\<close>

lemma close_phase:
  assumes envs: "envs_ok envs" "other_id envs d" and ok: "pass_ok envs d (l, 0)"
  obtains gs s1 s where "buildEntityTabGroups (collectAllTabs (wl_root l)) = Inr gs"
    "fold_pass (reconcile_group envs) gs (l, 0) = Inr s1" "collapseStaleEntityTabs envs sn v k s1 = Inr s"
    "pass_ok envs d s" "unique_entities (content_of (fst s))" "others (content_of (fst s)) = others (content_of l)"
    "agents_of (wl_root (fst s)) = {a \<in> agents_of (wl_root l). sn_agentsHydrated sn \<longrightarrow> a \<in> v}"
    "terminals_of (wl_root (fst s)) = {i \<in> terminals_of (wl_root l). sn_terminalsHydrated sn \<longrightarrow> i \<in> k}"
proof -
  have wf: "wf_layout l" using ok by (simp add: pass_ok_def)
  from groups_of [OF wf] obtain gs where gs: "buildEntityTabGroups (collectAllTabs (wl_root l)) = Inr gs"
    "groups_ok (collectAllTabs (wl_root l)) gs" by blast
  have all: "\<forall>(i, g)\<in>set gs. eg_tabs g \<noteq> [] \<and> (\<forall>t\<in>set (eg_tabs g). wt_target t = eg_target g) \<and> isEntityTarget (eg_target g)"
  proof clarify
    fix i g assume "(i, g) \<in> set gs"
    then have "map_of gs i = Some g" using gs(2) by (simp add: groups_ok_def)
    from groups_okD [OF gs(2) this] show "eg_tabs g \<noteq> [] \<and> (\<forall>t\<in>set (eg_tabs g). wt_target t = eg_target g) \<and>
      isEntityTarget (eg_target g)" by simp
  qed
  from groups_pass [OF envs ok all] obtain s1 where s1: "fold_pass (reconcile_group envs) gs (l, 0) = Inr s1"
    "pass_ok envs d s1"
    "content_of (fst s1) = filter_mset (\<lambda>u. wt_tabId u \<notin> \<Union> (dropped_ids ` set gs)) (content_of l)" by auto
  note c1 = grouped_content [OF wf gs(2) s1(3)]
  let ?stale = "stale_tab sn v k"
  have eta: "(\<lambda>tab s'. if ?stale tab then close_in_pass envs (wt_tabId tab) s' else Inr s') =
      (\<lambda>tab. if ?stale tab then close_in_pass envs (wt_tabId tab) else Inr)" by auto
  from close_some [OF envs s1(2), of ?stale "collectAllTabs (wl_root (fst s1))"] obtain s2 where
    s2: "collapseStaleEntityTabs envs sn v k s1 = Inr s2" "pass_ok envs d s2"
      "content_of (fst s2) = filter_mset (\<lambda>u. wt_tabId u \<notin>
        wt_tabId ` set (filter ?stale (collectAllTabs (wl_root (fst s1))))) (content_of (fst s1))"
    unfolding collapseStaleEntityTabs_def eta by blast
  have wf1: "wf_layout (fst s1)" using s1(2) by (cases s1) (simp add: pass_ok_def)
  note c2 = filtered_content [OF c1(2) s2(3) [unfolded collapsed_content [OF wf1]]]
  show thesis
    by (rule that [OF gs(1) s1(1) s2(1,2) c2(1)])
      (simp_all only: c2(2) c1(3) shown_agents c2(3,4) c1(1) mem_Collect_eq)
qed

text \<open>
  C23: reconciling the tabs with a snapshot always returns, with a well-formed layout in which every
  agent and terminal has at most one tab; the agents and terminals shown are exactly those the
  snapshot asks for, and every other tab is kept, save for a draft in a workspace with nothing in it.
\<close>

theorem reconcile_follows_snapshot:
  assumes "reconcilable envs draftId st"
  shows "\<exists>st' D. reconcileWorkspaceTabs envs draftId st sn = Inr st' \<and> wf_layout (rs_layout st') \<and>
    unique_entities (content_of (rs_layout st')) \<and>
    agents_of (wl_root (rs_layout st')) = expected_agents st sn \<and>
    terminals_of (wl_root (rs_layout st')) = expected_terminals st sn \<and>
    others (content_of (rs_layout st')) = others (content_of (rs_layout st)) + D \<and>
    (D = {#} \<or> normalizeStringSet (sn_activeAgentIds sn) = {} \<and> known_terminals sn = {} \<and>
      (\<exists>t. D = {#t#} \<and> wt_target t = Draft draftId None))"
proof -
  let ?l = "rs_layout st" and ?ex = "Some EXPLORER_SIDEBAR_PANE_ID"
  let ?vis = "visible_agents st sn (sn_activeAgentIds sn)" and ?auto = "visible_agents st sn (sn_autoOpenAgentIds sn)"
  let ?known = "known_terminals sn" and ?alone = "normalizeStringSet (sn_standaloneTerminalIds sn)"
  let ?pt = "default False (sn_hasActivePendingTerminalCreate sn)"
  let ?pd = "default False (sn_hasActivePendingDraftCreate sn)"
  note st = assms [unfolded reconcilable_def]
  have envs: "envs_ok envs" "other_id envs draftId" using st by simp_all
  obtain gs s1 s2 where s2: "buildEntityTabGroups (collectAllTabs (wl_root ?l)) = Inr gs"
    "fold_pass (reconcile_group envs) gs (?l, 0) = Inr s1" "collapseStaleEntityTabs envs sn ?vis ?known s1 = Inr s2"
    "pass_ok envs draftId s2" "unique_entities (content_of (fst s2))" "others (content_of (fst s2)) = others (content_of ?l)"
    "agents_of (wl_root (fst s2)) = {a \<in> agents_of (wl_root ?l). sn_agentsHydrated sn \<longrightarrow> a \<in> ?vis}"
    "terminals_of (wl_root (fst s2)) = {i \<in> terminals_of (wl_root ?l). sn_terminalsHydrated sn \<longrightarrow> i \<in> ?known}"
    by (rule close_phase [OF envs, of ?l sn ?vis ?known]) (use st in simp)
  have ids: "\<forall>a\<in>?auto. trim a = a \<and> a \<noteq> []" "\<forall>i\<in>?alone. trim i = i \<and> i \<noteq> []"
    using visible_normal [of st] normal_strings st by blast+
  obtain s3 where s3: "addMissingEntityTabs envs ?auto (agents_of (wl_root ?l)) ?alone ?pt ?pd ?ex s2 = Inr s3"
    "pass_ok envs draftId s3" "unique_entities (content_of (fst s3))"
    "others (content_of (fst s3)) = others (content_of (fst s2))"
    "agents_of (wl_root (fst s3)) = agents_of (wl_root (fst s2)) \<union> {a \<in> ?auto. a \<in> agents_of (wl_root ?l) \<or> \<not> ?pd}"
    "terminals_of (wl_root (fst s3)) = terminals_of (wl_root (fst s2)) \<union> (if ?pt then {} else ?alone)"
    using add_phase [OF envs s2(4) ids finite_visible finite_strings s2(5)] by blast
  obtain l3 k3 where k3: "s3 = (l3, k3)" by (cases s3)
  from seed_phase [OF s3(2) [unfolded k3], of "fe_now (envs k3)" sn "normalizeStringSet (sn_activeAgentIds sn)" ?known ?ex] st
  obtain l4 D where l4: "seedDraftForEmptyWorkspace draftId (fe_now (envs k3)) l3 sn
      (normalizeStringSet (sn_activeAgentIds sn)) ?known ?ex = Inr l4" "wf_layout l4" "content_of l4 = content_of l3 + D"
    and D: "D = {#} \<or> normalizeStringSet (sn_activeAgentIds sn) = {} \<and> ?known = {} \<and>
      (\<exists>t. D = {#t#} \<and> wt_target t = Draft draftId None)" by blast
  have "D = {#} \<or> (\<exists>t. D = {#t#} \<and> wt_target t = Draft draftId None)" using D by blast
  note c4 = seeded_content [OF s3(3) this]
  let ?focus = "focus_after_groups gs (Option.bind (findPaneById (wl_root ?l) (wl_focusedPaneId ?l)) sp_focusedTabId)"
  from focus_phase [OF l4(2), of ?focus] obtain l5 where
    l5: "focusIfOpen ?focus l4 = Inr l5" "wf_layout l5" "content_of l5 = content_of l4" by blast
  have run: "reconcileWorkspaceTabs envs draftId st sn = Inr (st\<lparr>rs_layout := l5\<rparr>)"
    using s3(1) l4(1) l5(1) st by (simp add: reconcileWorkspaceTabs_def Let_def s2(1-3) k3)
  have c5: "content_of l5 = content_of (fst s3) + D" using l5(3) l4(3) k3 by simp
  have "agents_of (wl_root l5) = expected_agents st sn" "terminals_of (wl_root l5) = expected_terminals st sn"
  proof -
    have "agents_of (wl_root l5) = agents_of (wl_root (fst s3))" "terminals_of (wl_root l5) = terminals_of (wl_root (fst s3))"
      by (simp_all only: shown_agents c5 c4(2))
    then show "agents_of (wl_root l5) = expected_agents st sn" "terminals_of (wl_root l5) = expected_terminals st sn"
      by (simp_all only: s3(5,6) s2(7,8) expected_agents_def expected_terminals_def)
  qed
  moreover have "others (content_of l5) = others (content_of ?l) + D" "unique_entities (content_of l5)"
    using c4(1) by (simp_all only: c5 c4(3) s3(4) s2(6))
  ultimately show ?thesis using run l5(2) D by (intro exI [of _ "st\<lparr>rs_layout := l5\<rparr>"] exI [of _ D]) simp
qed

definition example_env :: "nat \<Rightarrow> fresh_env" where
  "example_env k = \<lparr>fe_messageId = ''m'' @ replicate k CHR ''x'', fe_now = of_nat k\<rparr>"

definition example_state :: reconcile_state where
  "example_state = \<lparr>rs_layout = createWorkspaceLayoutWithExplorerSidebar \<lparr>fe_messageId = ''base'', fe_now = 0\<rparr>,
     rs_pinnedAgentIds = None, rs_pendingAgentIds = None, rs_hiddenAgentIds = None,
     rs_explorerSidebarPaneId = Some EXPLORER_SIDEBAR_PANE_ID\<rparr>"

definition example_snapshot :: tab_snapshot where
  "example_snapshot = \<lparr>sn_agentsHydrated = True, sn_terminalsHydrated = True, sn_activeAgentIds = ['' a1 ''],
     sn_autoOpenAgentIds = [''a1''], sn_knownAgentIds = [''a1''], sn_knownTerminalIds = None,
     sn_standaloneTerminalIds = [''t1''], sn_hasActivePendingTerminalCreate = None,
     sn_hasActivePendingDraftCreate = None\<rparr>"

lemma example_new_id: "new_id (example_env k) = ''tab_m'' @ replicate k CHR ''x''"
  by (simp add: new_id_new example_env_def)

lemma example_open: "open_tab_ids (wl_root (rs_layout example_state)) = {''tab_base'', ''files'', ''changes_tree''}"
  by code_simp

lemma example_reconcilable: "reconcilable example_env ''draft_1'' example_state"
proof -
  have last: "\<not> is_space (last (''tab_m'' @ replicate k CHR ''x''))" for k
    by (cases k) (simp_all add: last_replicate is_space_def)
  have "trim (''tab_m'' @ replicate k CHR ''x'') = ''tab_m'' @ replicate k CHR ''x''" for k
    using last [of k] by (intro trim_id) (simp_all add: is_space_def)
  then have "tab_ok (new_tab_of (example_env k))" for k
    by (simp add: example_env_def tab_ok_def new_tab_of_def createNewWorkspaceTab_def normalizeWorkspaceTabTarget_def)
  moreover have "inj (\<lambda>k. new_id (example_env k))" by (auto simp: example_new_id inj_def dest: arg_cong [of _ _ length])
  ultimately have "envs_ok example_env" by (simp add: envs_ok_def)
  moreover have "other_id example_env ''draft_1''" by (auto simp: other_id_def example_new_id isEntity_iff entity_id_def)
  moreover have "wf_layout (rs_layout example_state)"
    unfolding example_state_def reconcile_state.simps by (rule createWorkspaceLayout_wf, rule new_tab_ok; code_simp)
  moreover have "honest (rs_layout example_state)"
    unfolding honest_def example_open by (auto simp: isEntity_iff entity_id_def)
  moreover have "EXPLORER_SIDEBAR_PANE_ID \<in> set (map sp_id (panes (wl_root (rs_layout example_state))))" by code_simp
  moreover have "trim ''draft_1'' = ''draft_1''" by code_simp
  ultimately show ?thesis
    by (auto simp: reconcilable_def pass_ok_def example_open example_new_id) (simp_all add: example_state_def)
qed

theorem reconcile_follows_snapshot_witness:
  "\<exists>st'. reconcileWorkspaceTabs example_env ''draft_1'' example_state example_snapshot = Inr st' \<and>
     agents_of (wl_root (rs_layout st')) = {''a1''} \<and> terminals_of (wl_root (rs_layout st')) = {''t1''}"
proof -
  have "expected_agents example_state example_snapshot = {''a1''}"
    "expected_terminals example_state example_snapshot = {''t1''}" by code_simp+
  with reconcile_follows_snapshot [OF example_reconcilable, of example_snapshot] show ?thesis by auto
qed

end
