(* ===== verification/Js_Bytes.thy ===== *)
theory Js_Bytes
  imports Prelude "HOL-Library.Word"
begin

text \<open>
  \<open>Uint8Array\<close> and \<open>ArrayBuffer\<close> as lists of 8-bit words, and the code of a character.
\<close>

type_synonym bytes = "8 word list"

text \<open>The union \<open>string | ArrayBuffer\<close> of what transports and frames carry.\<close>

datatype wire_data = Text string | Buffer bytes

definition char_code :: "char \<Rightarrow> nat" where
  "char_code c = of_char c"

lemma byte_bound [simp]: "unat w < 256" for w :: "8 word"
  using unsigned_less [of w, where ?'a = nat] by simp

lemma char_code_char: "char_of (char_code c) = c"
  by (simp add: char_code_def)

lemma char_code_eq: "char_code c = n \<Longrightarrow> c = char_of n"
  by (auto simp: char_code_def)

lemma char_code_bound [simp]: "char_code c < 256"
  by (simp add: char_code_def)

lemma unat_of_small [simp]: "n < 256 \<Longrightarrow> unat (word_of_nat n :: 8 word) = n"
  by (simp add: unat_of_nat)

text \<open>Latin-1 text as bytes: one byte per character.\<close>

definition latin1_bytes :: "string \<Rightarrow> bytes" where
  "latin1_bytes s = map (\<lambda>c. word_of_nat (char_code c)) s"

definition latin1_text :: "bytes \<Rightarrow> string" where
  "latin1_text b = map (\<lambda>w. char_of (unat w)) b"

lemma latin1_round_trip [simp]: "latin1_text (latin1_bytes s) = s" "latin1_bytes (latin1_text b) = b"
  by (simp_all add: latin1_text_def latin1_bytes_def comp_def char_code_char) (simp add: char_code_def)

text \<open>The order of \<open>sort()\<close> on strings: by their code units.\<close>

fun compare_text :: "string \<Rightarrow> string \<Rightarrow> int" where
  "compare_text [] [] = 0"
| "compare_text [] (d # ds) = - 1"
| "compare_text (c # cs) [] = 1"
| "compare_text (c # cs) (d # ds) =
     (if char_code c < char_code d then - 1 else if char_code d < char_code c then 1 else compare_text cs ds)"

end
