(* ===== verification/Js_Json.thy ===== *)
theory Js_Json
  imports Js_Text Js_Bytes
begin

text \<open>
  \<open>JSON.stringify\<close> without spacing and \<open>JSON.parse\<close> of JavaScript, as the modelled modules use them.
  A number whose value is an integer is \<open>JNum\<close>; any other number is kept as its lexeme.  An object is the
  list of its members in the order of the text, the last of two members with one key in the place of the
  first.  Strings are lists of 8-bit characters, so an escape above \<open>00FF\<close> is not represented and is refused.
\<close>

section \<open>Values and their text\<close>

datatype json =
    JNull
  | JBool bool
  | JNum int
  | JFraction string
  | JStr string
  | JArr "json list"
  | JObj "(string \<times> json) list"

definition hex_digit :: "nat \<Rightarrow> char" where
  "hex_digit d = (if d < 10 then char_of (48 + d) else char_of (87 + d))"

definition escape_char :: "char \<Rightarrow> string" where
  "escape_char c = (let n = char_code c in
     if n = 34 \<or> n = 92 then [CHR 0x5C, c]
     else if n = 8 then [CHR 0x5C, CHR ''b'']
     else if n = 9 then [CHR 0x5C, CHR ''t'']
     else if n = 10 then [CHR 0x5C, CHR ''n'']
     else if n = 12 then [CHR 0x5C, CHR ''f'']
     else if n = 13 then [CHR 0x5C, CHR ''r'']
     else if n < 32 then [CHR 0x5C, CHR ''u'', CHR ''0'', CHR ''0'', hex_digit (n div 16), hex_digit (n mod 16)]
     else [c])"

definition quote :: "string \<Rightarrow> string" where
  "quote s = CHR 0x22 # concat (map escape_char s) @ [CHR 0x22]"

fun commas :: "string list \<Rightarrow> string" where
  "commas [] = []"
| "commas [w] = w"
| "commas (w # ws) = w @ CHR '','' # commas ws"

fun JSON_stringify :: "json \<Rightarrow> string" where
  "JSON_stringify JNull = ''null''"
| "JSON_stringify (JBool b) = (if b then ''true'' else ''false'')"
| "JSON_stringify (JNum n) = show_int n"
| "JSON_stringify (JFraction s) = s"
| "JSON_stringify (JStr s) = quote s"
| "JSON_stringify (JArr vs) = CHR ''['' # commas (map JSON_stringify vs) @ '']''"
| "JSON_stringify (JObj ms) = CHR ''{'' # commas (map (\<lambda>(k, v). quote k @ CHR '':'' # JSON_stringify v) ms) @ ''}''"

section \<open>Parsing\<close>

definition json_space :: "char \<Rightarrow> bool" where
  "json_space c \<longleftrightarrow> char_code c \<in> {32, 9, 10, 13}"

definition skip_ws :: "string \<Rightarrow> string" where
  "skip_ws s = dropWhile json_space s"

definition hex_value :: "char \<Rightarrow> nat option" where
  "hex_value c = (let n = char_code c in
     if 48 \<le> n \<and> n \<le> 57 then Some (n - 48)
     else if 97 \<le> n \<and> n \<le> 102 then Some (n - 87)
     else if 65 \<le> n \<and> n \<le> 70 then Some (n - 55) else None)"

definition simple_escape :: "char \<Rightarrow> char option" where
  "simple_escape c =
     (if c = CHR 0x22 \<or> c = CHR 0x5C \<or> c = CHR ''/'' then Some c
      else if c = CHR ''b'' then Some (CHR 0x08)
      else if c = CHR ''f'' then Some (CHR 0x0C)
      else if c = CHR ''n'' then Some (CHR 0x0A)
      else if c = CHR ''r'' then Some (CHR 0x0D)
      else if c = CHR ''t'' then Some (CHR 0x09) else None)"

text \<open>What follows the opening quote of a string: its characters and the rest of the text.\<close>

definition cons_fst :: "'a \<Rightarrow> ('a list \<times> 'b) option \<Rightarrow> ('a list \<times> 'b) option" where
  "cons_fst x r = map_option (\<lambda>(xs, y). (x # xs, y)) r"

lemma cons_fst_simps [simp]: "cons_fst x None = None" "cons_fst x (Some (xs, y)) = Some (x # xs, y)"
  by (simp_all add: cons_fst_def)

lemma cons_fst_Some: "cons_fst x r = Some z \<longleftrightarrow> (\<exists>xs y. r = Some (xs, y) \<and> z = (x # xs, y))"
  by (cases r) auto

definition unicode_char :: "char \<Rightarrow> char \<Rightarrow> char \<Rightarrow> char \<Rightarrow> char option" where
  "unicode_char a b c d = (case (hex_value a, hex_value b, hex_value c, hex_value d) of
     (Some w, Some x, Some y, Some z) \<Rightarrow>
       (let n = 4096 * w + 256 * x + 16 * y + z in if n < 256 then Some (char_of n) else None)
   | _ \<Rightarrow> None)"

fun parse_string :: "string \<Rightarrow> (string \<times> string) option" where
  "parse_string [] = None"
| "parse_string (c # s) =
     (if c = CHR 0x22 then Some ([], s)
      else if c = CHR 0x5C then
        (case s of
           [] \<Rightarrow> None
         | e # r \<Rightarrow>
             if e = CHR ''u'' then
               (case r of
                  a # b # x # y # r' \<Rightarrow>
                    (case unicode_char a b x y of None \<Rightarrow> None | Some u \<Rightarrow> cons_fst u (parse_string r'))
                | _ \<Rightarrow> None)
             else (case simple_escape e of None \<Rightarrow> None | Some u \<Rightarrow> cons_fst u (parse_string r)))
      else if char_code c < 32 then None
      else cons_fst c (parse_string s))"

text \<open>
  A number: \<open>-?(0|[1-9][0-9]*)(\.[0-9]+)?([eE][+-]?[0-9]+)?\<close>.  \<open>number_value\<close> is its value when that is an
  integer: the digits of both parts, scaled by the exponent.
\<close>

definition take_digits :: "string \<Rightarrow> string \<times> string" where
  "take_digits s = (takeWhile is_digit s, dropWhile is_digit s)"

definition number_value :: "bool \<Rightarrow> string \<Rightarrow> string \<Rightarrow> int \<Rightarrow> int option" where
  "number_value neg whole decimals ex =
     (let m = int (digits_value (whole @ decimals)); k = ex - int (length decimals); s = (if neg then -1 else 1) in
      if m = 0 then Some 0
      else if 0 \<le> k then Some (s * m * 10 ^ nat k)
      else if m mod 10 ^ nat (- k) = 0 then Some (s * (m div 10 ^ nat (- k))) else None)"

definition parse_fraction :: "string \<Rightarrow> (string \<times> string) option" where
  "parse_fraction s = (case s of
     c # r \<Rightarrow> if c = CHR ''.'' then
               (let (ds, r') = take_digits r in if ds = [] then None else Some (ds, r'))
             else Some ([], s)
   | [] \<Rightarrow> Some ([], []))"

definition parse_exponent :: "string \<Rightarrow> (int \<times> string) option" where
  "parse_exponent s = (case s of
     c # r \<Rightarrow> if c = CHR ''e'' \<or> c = CHR ''E'' then
               (let neg = (r \<noteq> [] \<and> hd r = CHR ''-'');
                    r1 = (if r \<noteq> [] \<and> (hd r = CHR ''-'' \<or> hd r = CHR ''+'') then tl r else r);
                    (ds, r') = take_digits r1
                in if ds = [] then None
                   else Some ((if neg then - int (digits_value ds) else int (digits_value ds)), r'))
             else Some (0, s)
   | [] \<Rightarrow> Some (0, []))"

definition parse_number :: "string \<Rightarrow> (json \<times> string) option" where
  "parse_number s0 =
     (let neg = (s0 \<noteq> [] \<and> hd s0 = CHR ''-'');
          s = (if neg then tl s0 else s0);
          (all_whole, all_rest) = take_digits s;
          (whole, r1) = (if all_whole \<noteq> [] \<and> hd all_whole = CHR ''0''
                         then (''0'', tl all_whole @ all_rest) else (all_whole, all_rest))
      in if whole = [] then None
         else case parse_fraction r1 of None \<Rightarrow> None | Some (decimals, r2) \<Rightarrow>
           (case parse_exponent r2 of None \<Rightarrow> None | Some (ex, r3) \<Rightarrow>
             (case number_value neg whole decimals ex of
                Some n \<Rightarrow> Some (JNum n, r3)
              | None \<Rightarrow> Some (JFraction (take (length s0 - length r3) s0), r3))))"

definition strip_prefix :: "string \<Rightarrow> string \<Rightarrow> string option" where
  "strip_prefix p s = (if take (length p) s = p then Some (drop (length p) s) else None)"

definition parse_literal :: "string \<Rightarrow> (json \<times> string) option" where
  "parse_literal s =
     (case strip_prefix ''null'' s of Some r \<Rightarrow> Some (JNull, r) | None \<Rightarrow>
     (case strip_prefix ''true'' s of Some r \<Rightarrow> Some (JBool True, r) | None \<Rightarrow>
     (case strip_prefix ''false'' s of Some r \<Rightarrow> Some (JBool False, r) | None \<Rightarrow> parse_number s)))"

definition members :: "(string \<times> json) list \<Rightarrow> (string \<times> json) list" where
  "members ms = fold (\<lambda>(k, v) m. AList.update k v m) ms []"

text \<open>The fuel bounds the depth of the calls; \<open>2 * length s + 2\<close> always suffices (\<open>parse_fuel\<close> below).\<close>

fun parse_value :: "nat \<Rightarrow> string \<Rightarrow> (json \<times> string) option"
and parse_elements :: "nat \<Rightarrow> string \<Rightarrow> (json list \<times> string) option"
and parse_members :: "nat \<Rightarrow> string \<Rightarrow> ((string \<times> json) list \<times> string) option" where
  "parse_value 0 s = None"
| "parse_value (Suc n) s = (case skip_ws s of
      [] \<Rightarrow> None
    | c # r \<Rightarrow>
        if c = CHR 0x22 then map_option (\<lambda>(t, r'). (JStr t, r')) (parse_string r)
        else if c = CHR ''['' then
          (case skip_ws r of [] \<Rightarrow> None | d # r' \<Rightarrow>
             if d = CHR '']'' then Some (JArr [], r')
             else map_option (\<lambda>(vs, r''). (JArr vs, r'')) (parse_elements n r))
        else if c = CHR ''{'' then
          (case skip_ws r of [] \<Rightarrow> None | d # r' \<Rightarrow>
             if d = CHR ''}'' then Some (JObj [], r')
             else map_option (\<lambda>(ms, r''). (JObj (members ms), r'')) (parse_members n r))
        else parse_literal (c # r))"
| "parse_elements 0 s = None"
| "parse_elements (Suc n) s = (case parse_value n s of
      None \<Rightarrow> None
    | Some (v, r) \<Rightarrow> (case skip_ws r of
        [] \<Rightarrow> None
      | d # r' \<Rightarrow> if d = CHR '','' then cons_fst v (parse_elements n r')
                  else if d = CHR '']'' then Some ([v], r') else None))"
| "parse_members 0 s = None"
| "parse_members (Suc n) s = (case skip_ws s of
      [] \<Rightarrow> None
    | c # r0 \<Rightarrow> if c \<noteq> CHR 0x22 then None else
        (case parse_string r0 of None \<Rightarrow> None | Some (k, r1) \<Rightarrow>
          (case skip_ws r1 of [] \<Rightarrow> None | d # r2 \<Rightarrow> if d \<noteq> CHR '':'' then None else
            (case parse_value n r2 of None \<Rightarrow> None | Some (v, r3) \<Rightarrow>
              (case skip_ws r3 of [] \<Rightarrow> None | e # r4 \<Rightarrow>
                 if e = CHR '','' then cons_fst (k, v) (parse_members n r4)
                 else if e = CHR ''}'' then Some ([(k, v)], r4) else None)))))"

definition JSON_parse :: "string \<Rightarrow> json option" where
  "JSON_parse s = (case parse_value (2 * length s + 2) s of
     Some (v, r) \<Rightarrow> if skip_ws r = [] then Some v else None | None \<Rightarrow> None)"

section \<open>The fuel suffices\<close>

lemma skip_ws_length: "length (skip_ws s) \<le> length s"
  by (simp add: skip_ws_def length_dropWhile_le)

lemma skip_ws_Cons: "skip_ws s = c # r \<Longrightarrow> length r < length s"
  using skip_ws_length [of s] by simp

lemma parse_string_shorter: "parse_string s = Some (t, r) \<Longrightarrow> length r < length s"
proof (induction "length s" arbitrary: s t r rule: less_induct)
  case less
  obtain c u where s: "s = c # u" using less.prems by (cases s) auto
  have IH: "length r < length y" if "parse_string y = Some (t', r)" "length y \<le> length u" for y t'
    using less.hyps [of y t' r] that s by simp
  show ?case
    using less.prems IH [of u] unfolding s parse_string.simps
    by (auto simp: cons_fst_Some split: if_split_asm list.split_asm option.split_asm dest!: IH)
qed

lemma take_digits_length: "take_digits s = (ds, r) \<Longrightarrow> length ds + length r = length s"
  by (auto simp: take_digits_def simp flip: length_append)

lemma parse_fraction_length: "parse_fraction s = Some (ds, r) \<Longrightarrow> length r \<le> length s"
  by (auto simp: parse_fraction_def split: list.split_asm if_split_asm prod.split_asm dest!: take_digits_length)

lemma parse_exponent_length: "parse_exponent s = Some (n, r) \<Longrightarrow> length r \<le> length s"
  by (cases s) (auto simp: parse_exponent_def Let_def split: if_split_asm prod.split_asm dest!: take_digits_length)

lemma parse_number_shorter:
  assumes "parse_number s = Some (v, r)"
  shows "length r < length s"
proof -
  let ?s = "if s \<noteq> [] \<and> hd s = CHR ''-'' then tl s else s"
  obtain ds rest where t: "take_digits ?s = (ds, rest)" by fastforce
  let ?r1 = "if ds \<noteq> [] \<and> hd ds = CHR ''0'' then tl ds @ rest else rest"
  have l: "length ds + length rest = length ?s" using t by (rule take_digits_length)
  from assms t have ds: "ds \<noteq> []" by (auto simp: parse_number_def Let_def split: if_split_asm)
  from assms t ds obtain fr r2 ex r3 where f: "parse_fraction ?r1 = Some (fr, r2)" and e: "parse_exponent r2 = Some (ex, r3)"
    and r: "r = r3"
    by (auto simp: parse_number_def Let_def split: if_split_asm option.split_asm)
  have "length ?r1 < length ?s" using l ds by (cases ds) auto
  moreover have "length ?s \<le> length s" by simp
  ultimately show ?thesis using parse_fraction_length [OF f] parse_exponent_length [OF e]
    unfolding r by (meson le_trans le_less_trans less_le_trans)
qed

lemma strip_prefix_shorter: "strip_prefix p s = Some r \<Longrightarrow> length s = length p + length r"
  by (metis append_take_drop_id length_append option.distinct(1) option.inject strip_prefix_def)

lemma parse_literal_shorter:
  assumes "parse_literal s = Some (v, r)"
  shows "length r < length s"
  using assms unfolding parse_literal_def
  by (auto split: option.split_asm dest!: strip_prefix_shorter intro: parse_number_shorter)

lemma parse_shorter:
  "parse_value n s = Some (v, r) \<Longrightarrow> length r < length s"
  "parse_elements n s = Some (vs, r) \<Longrightarrow> length r < length s"
  "parse_members n s = Some (ms, r) \<Longrightarrow> length r < length s"
proof (induction n arbitrary: s v vs ms r)
  case (Suc n)
  {
    case 1
    then show ?case
      by (auto split: list.split_asm if_split_asm option.split_asm prod.split_asm
          dest!: skip_ws_Cons parse_string_shorter parse_literal_shorter Suc.IH)
  next
    case 2
    then show ?case
      by (auto simp: cons_fst_Some split: list.split_asm if_split_asm option.split_asm prod.split_asm
          dest!: skip_ws_Cons Suc.IH)
  next
    case 3
    then show ?case
      by (auto simp: cons_fst_Some split: list.split_asm if_split_asm option.split_asm prod.split_asm
          dest!: skip_ws_Cons parse_string_shorter Suc.IH)
  }
qed simp_all

lemma parse_fuel_irrelevant:
  "2 * length s < n \<Longrightarrow> 2 * length s < m \<Longrightarrow> parse_value n s = parse_value m s"
  "2 * length s + 1 < n \<Longrightarrow> 2 * length s + 1 < m \<Longrightarrow> parse_elements n s = parse_elements m s"
  "2 * length s + 1 < n \<Longrightarrow> 2 * length s + 1 < m \<Longrightarrow> parse_members n s = parse_members m s"
proof (induction n arbitrary: s m)
  case (Suc n)
  note IH = Suc.IH [where m = "m - 1"]
  {
    case 1
    then obtain m' where m: "m = Suc m'" by (cases m) auto
    show ?case
    proof (cases "skip_ws s")
      case (Cons c r)
      with 1 m show ?thesis using skip_ws_Cons [OF Cons] Suc.IH(2,3) [of r m']
        by (auto split: list.split)
    qed (simp add: m)
  next
    case 2
    then obtain m' where m: "m = Suc m'" by (cases m) auto
    have v: "parse_value n s = parse_value m' s" using 2 m Suc.IH(1) [of s m'] by simp
    have e: "parse_elements n t = parse_elements m' t" if "length t < length s" for t
      using 2 m that Suc.IH(2) [of t m'] by simp
    show ?case
      using e by (auto simp: m v split: option.split list.split dest!: skip_ws_Cons parse_shorter(1))
  next
    case 3
    then obtain m' where m: "m = Suc m'" by (cases m) auto
    have v: "parse_value n t = parse_value m' t" if "length t < length s" for t
      using 3 m that Suc.IH(1) [of t m'] by simp
    have e: "parse_members n t = parse_members m' t" if "length t < length s" for t
      using 3 m that Suc.IH(3) [of t m'] by simp
    show ?case
    proof (cases "skip_ws s")
      case c: (Cons c r0)
      show ?thesis
      proof (cases "parse_string r0")
        case (Some z)
        then obtain k r1 where k: "parse_string r0 = Some (k, r1)" by (cases z) auto
        show ?thesis
        proof (cases "skip_ws r1")
          case d: (Cons d r2)
          have l: "length r2 < length s"
            using skip_ws_Cons [OF c] parse_string_shorter [OF k] skip_ws_Cons [OF d] by simp
          show ?thesis
          proof (cases "parse_value m' r2")
            case (Some y)
            then obtain w r3 where w: "parse_value m' r2 = Some (w, r3)" by (cases y) auto
            have "length r' < length s" if "skip_ws r3 = x # r'" for x r'
              using skip_ws_Cons [OF that] parse_shorter(1) [OF w] l by simp
            then show ?thesis using e by (simp add: m c k d v [OF l] w split: list.split)
          qed (simp add: m c k d v [OF l])
        qed (simp add: m c k)
      qed (simp add: m c)
    qed (simp add: m)
  }
qed simp_all

text \<open>So \<open>JSON_parse\<close> does not depend on the fuel.\<close>

lemma parse_fuel: "2 * length s < n \<Longrightarrow> JSON_parse s =
    (case parse_value n s of Some (v, r) \<Rightarrow> if skip_ws r = [] then Some v else None | None \<Rightarrow> None)"
  using parse_fuel_irrelevant(1) [of s n "2 * length s + 2"] by (simp add: JSON_parse_def)

section \<open>What is printed is read back\<close>

fun json_ok :: "json \<Rightarrow> bool" where
  "json_ok (JFraction s) = False"
| "json_ok (JArr vs) = list_all json_ok vs"
| "json_ok (JObj ms) = (distinct (map fst ms) \<and> list_all (\<lambda>(k, v). json_ok v) ms)"
| "json_ok _ = True"

lemma hex_digit_value: "d < 16 \<Longrightarrow> hex_value (hex_digit d) = Some d"
  by (simp add: hex_value_def hex_digit_def char_code_def)

lemma unicode_escape:
  assumes "n < 256"
  shows "unicode_char (CHR ''0'') (CHR ''0'') (hex_digit (n div 16)) (hex_digit (n mod 16)) = Some (char_of n)"
proof -
  have z: "hex_value (CHR ''0'') = Some 0" by (simp add: hex_value_def char_code_def)
  have "16 * (n div 16) + n mod 16 = n" by simp
  with assms show ?thesis by (simp add: unicode_char_def z hex_digit_value)
qed

lemma char_of_codes [simp]:
  "(char_of (8 :: nat) :: char) = CHR 0x08" "(char_of (9 :: nat) :: char) = CHR 0x09"
  "(char_of (10 :: nat) :: char) = CHR 0x0A" "(char_of (12 :: nat) :: char) = CHR 0x0C"
  "(char_of (13 :: nat) :: char) = CHR 0x0D" "(char_of (34 :: nat) :: char) = CHR 0x22"
  "(char_of (92 :: nat) :: char) = CHR 0x5C"
  by code_simp+

lemma parse_escape: "parse_string (escape_char c @ r) = cons_fst c (parse_string r)"
proof -
  have u: "unicode_char (CHR ''0'') (CHR ''0'') (hex_digit (char_code c div 16)) (hex_digit (char_code c mod 16)) = Some c"
    if "char_code c < 32"
    using unicode_escape [of "char_code c"] that by (simp add: char_code_char)
  have e: "simple_escape (CHR ''b'') = Some (CHR 0x08)" "simple_escape (CHR ''t'') = Some (CHR 0x09)"
    "simple_escape (CHR ''n'') = Some (CHR 0x0A)" "simple_escape (CHR ''f'') = Some (CHR 0x0C)"
    "simple_escape (CHR ''r'') = Some (CHR 0x0D)"
    by (simp_all add: simple_escape_def)
  have q: "char_code c = 34 \<or> char_code c = 92 \<Longrightarrow> simple_escape c = Some c \<and> c \<noteq> CHR ''u''"
    by (auto simp: simple_escape_def dest!: char_code_eq)
  have p: "c \<noteq> CHR 0x22 \<and> c \<noteq> CHR 0x5C" if "char_code c \<noteq> 34" "char_code c \<noteq> 92"
    using that by (auto simp: char_code_def)
  show ?thesis
    using u e q p by (auto simp: escape_char_def Let_def char_code_char dest: char_code_eq)
qed

lemma parse_string_quote: "parse_string (concat (map escape_char s) @ CHR 0x22 # r) = Some (s, r)"
  by (induction s) (simp_all add: parse_escape)

lemma quote_Cons: "quote s @ r = CHR 0x22 # concat (map escape_char s) @ CHR 0x22 # r"
  by (simp add: quote_def)

text \<open>What may follow a value inside a text.\<close>

definition delimited :: "string \<Rightarrow> bool" where
  "delimited r \<longleftrightarrow> r = [] \<or> hd r \<in> {CHR '','', CHR '']'', CHR ''}''}"

lemma hd_show_nat: "0 < n \<Longrightarrow> hd (show_nat n) \<noteq> CHR ''0''"
proof (induction n rule: show_nat.induct)
  case (1 n)
  show ?case
  proof (cases "n < 10")
    case True
    then have d: "show_nat n = [digit_char n]" by (simp add: show_nat.simps)
    have "digit_value (digit_char n) = n" using True by (rule digit_char_facts)
    with d 1(2) show ?thesis by (auto simp: digit_value_def)
  next
    case False
    then have "show_nat n = show_nat (n div 10) @ [digit_char (n mod 10)]" by (simp add: show_nat.simps [of n])
    with 1 False show ?thesis by (simp add: hd_append)
  qed
qed

lemma delimited_facts:
  assumes "delimited r"
  shows "takeWhile is_digit r = []" "dropWhile is_digit r = r" "parse_fraction r = Some ([], r)"
    "parse_exponent r = Some (0, r)"
  using assms by (cases r; auto simp: delimited_def parse_fraction_def parse_exponent_def is_digit_def)+

lemma take_digits_show: "delimited r \<Longrightarrow> take_digits (show_nat n @ r) = (show_nat n, r)"
  using show_nat_digits [of n] delimited_facts(1,2) [of r]
  by (simp add: take_digits_def takeWhile_append2 dropWhile_append2 list_all_iff takeWhile_digits)

lemma show_nat_zero: "show_nat 0 = ''0''"
  by (simp add: show_nat.simps digit_char_def) code_simp

lemma whole_part: "(if show_nat n \<noteq> [] \<and> hd (show_nat n) = CHR ''0''
    then (''0'', tl (show_nat n) @ r) else (show_nat n, r)) = (show_nat n, r)"
  using hd_show_nat [of n] by (cases "n = 0") (simp_all add: show_nat_zero)

lemma number_value_show: "number_value neg (show_nat n) [] 0 = Some (if neg then - int n else int n)"
  by (simp add: number_value_def Let_def)

lemma hd_show_digit: "is_digit (hd (show_nat n))"
  using show_nat_digits [of n] by (cases "show_nat n") simp_all

lemma parse_number_show:
  assumes "delimited r"
  shows "parse_number (show_int n @ r) = Some (JNum n, r)"
proof (cases "n < 0")
  case True
  then have "show_int n @ r = CHR ''-'' # show_nat (nat (- n)) @ r" by (simp add: show_int_def)
  with True hd_show_nat [of "nat (- n)"] show ?thesis
    by (simp add: parse_number_def take_digits_show [OF assms] whole_part number_value_show delimited_facts [OF assms]
)
next
  case False
  have "hd (show_nat (nat n) @ r) \<noteq> CHR ''-''" using hd_show_digit [of "nat n"] by (auto simp: is_digit_def)
  moreover have "show_int n @ r = show_nat (nat n) @ r" using False by (simp add: show_int_def)
  ultimately show ?thesis using False hd_show_nat [of "nat n"]
      take_digits_show [OF assms, of 0] number_value_show [of False 0]
    by (cases "n = 0") (simp_all add: show_nat_zero parse_number_def take_digits_show [OF assms] whole_part number_value_show delimited_facts [OF assms]
        del: hd_append2)
qed

lemma strip_prefix_head: "p \<noteq> [] \<Longrightarrow> s \<noteq> [] \<Longrightarrow> hd s \<noteq> hd p \<Longrightarrow> strip_prefix p s = None"
  by (cases p; cases s) (auto simp: strip_prefix_def)

lemma strip_prefix_append [simp]: "strip_prefix p (p @ r) = Some r"
  by (simp add: strip_prefix_def)

lemma hd_show_int: "show_int n \<noteq> [] \<and> (hd (show_int n) = CHR ''-'' \<or> is_digit (hd (show_int n)))"
  by (simp add: show_int_def hd_show_digit)

lemma digit_facts:
  assumes "is_digit c"
  shows "c \<noteq> CHR ''n''" "c \<noteq> CHR ''t''" "c \<noteq> CHR ''f''" "c \<noteq> CHR 0x22" "c \<noteq> CHR ''[''" "c \<noteq> CHR ''{''"
    "c \<noteq> CHR '']''" "\<not> json_space c"
  using assms unfolding is_digit_def Let_def json_space_def char_code_def by auto

lemma parse_literal_show: "delimited r \<Longrightarrow> parse_literal (show_int n @ r) = Some (JNum n, r)"
  using hd_show_int [of n]
  by (auto simp: parse_literal_def strip_prefix_head parse_number_show digit_facts)

text \<open>The first character of a printed value decides which branch reads it.\<close>

lemma skip_ws_none: "s \<noteq> [] \<Longrightarrow> \<not> json_space (hd s) \<Longrightarrow> skip_ws s = s"
  by (cases s) (simp_all add: skip_ws_def)

lemma skip_ws_Cons_id: "\<not> json_space c \<Longrightarrow> skip_ws (c # r) = c # r"
  by (simp add: skip_ws_def)

lemma marks_not_space [simp]: "\<not> json_space (CHR 0x22)" "\<not> json_space (CHR '','')" "\<not> json_space (CHR '':'')"
  "\<not> json_space (CHR ''['')" "\<not> json_space (CHR '']'')" "\<not> json_space (CHR ''{'')" "\<not> json_space (CHR ''}'')"
  by (simp_all add: json_space_def char_code_def)

lemma minus_not_space: "\<not> json_space (CHR ''-'')"
  by (simp add: json_space_def char_code_def)

lemma parse_value_number:
  assumes "delimited r"
  shows "parse_value (Suc n) (show_int k @ r) = Some (JNum k, r)"
proof -
  from hd_show_int [of k] obtain c u where s: "show_int k = c # u" and c: "c = CHR ''-'' \<or> is_digit c"
    by (cases "show_int k") auto
  have "\<not> json_space c" using c by (auto dest: digit_facts simp: minus_not_space)
  moreover have "c \<noteq> CHR 0x22" "c \<noteq> CHR ''[''" "c \<noteq> CHR ''{''" using c by (auto dest: digit_facts)
  ultimately show ?thesis using parse_literal_show [OF assms, of k] by (simp add: s skip_ws_Cons_id)
qed

lemma parse_value_constant:
  assumes "s = ''null'' \<and> v = JNull \<or> s = ''true'' \<and> v = JBool True \<or> s = ''false'' \<and> v = JBool False"
  shows "parse_value (Suc n) (s @ r) = Some (v, r)"
proof -
  have "strip_prefix ''null'' (''null'' @ r) = Some r" "strip_prefix ''true'' (''true'' @ r) = Some r"
    "strip_prefix ''false'' (''false'' @ r) = Some r" by (rule strip_prefix_append)+
  moreover have "strip_prefix ''null'' (''true'' @ r) = None" "strip_prefix ''null'' (''false'' @ r) = None"
    "strip_prefix ''true'' (''false'' @ r) = None" by (simp_all add: strip_prefix_head)
  moreover have "\<not> json_space (CHR ''n'')" "\<not> json_space (CHR ''t'')" "\<not> json_space (CHR ''f'')"
    by (simp_all add: json_space_def char_code_def)
  ultimately show ?thesis using assms by (auto simp: skip_ws_Cons_id parse_literal_def)
qed

lemma stringify_starts:
  assumes "json_ok v"
  shows "\<exists>c u. JSON_stringify v = c # u \<and> \<not> json_space c \<and> c \<noteq> CHR '']''"
proof (cases v)
  case (JNum n)
  from hd_show_int [of n] obtain c u where "show_int n = c # u" "c = CHR ''-'' \<or> is_digit c"
    by (cases "show_int n") auto
  with JNum show ?thesis by (auto dest: digit_facts simp: minus_not_space)
qed (use assms in \<open>auto simp: quote_def json_space_def char_code_def\<close>)

lemma commas_length: "length (commas (w # ws)) = length w + (if ws = [] then 0 else 1 + length (commas ws))"
  by (cases ws) simp_all

lemma parse_elements_show:
  assumes "vs \<noteq> []" and "2 * length (commas (map JSON_stringify vs)) + 3 \<le> n"
    and "\<And>v r n. v \<in> set vs \<Longrightarrow> delimited r \<Longrightarrow> 2 * length (JSON_stringify v) + 1 \<le> n \<Longrightarrow>
           parse_value n (JSON_stringify v @ r) = Some (v, r)"
  shows "parse_elements n (commas (map JSON_stringify vs) @ CHR '']'' # r) = Some (vs, r)"
  using assms
proof (induction vs arbitrary: n)
  case (Cons v vs)
  obtain n' where n: "n = Suc n'" using Cons.prems(2) by (cases n) auto
  show ?case
  proof (cases vs)
    case Nil
    with Cons.prems n show ?thesis by (simp add: delimited_def skip_ws_Cons_id)
  next
    case (Cons w ws)
    let ?r = "CHR '','' # commas (map JSON_stringify vs) @ CHR '']'' # r"
    have "parse_value n' (JSON_stringify v @ ?r) = Some (v, ?r)"
      using Cons.prems n by (intro Cons.prems(3)) (simp_all add: delimited_def commas_length)
    moreover have "parse_elements n' (commas (map JSON_stringify vs) @ CHR '']'' # r) = Some (vs, r)"
      using Cons.prems n Cons by (intro Cons.IH) (simp_all add: commas_length)
    ultimately show ?thesis using Cons by (simp add: n skip_ws_Cons_id)
  qed
qed simp

lemma members_id: "distinct (map fst ms) \<Longrightarrow> members ms = ms"
proof -
  have "distinct (map fst (m @ ms)) \<Longrightarrow> fold (\<lambda>(k, v) m. AList.update k v m) ms m = m @ ms" for m
    by (induction ms arbitrary: m) (auto simp: update_new)
  from this [of "[]"] show "distinct (map fst ms) \<Longrightarrow> members ms = ms" by (simp add: members_def)
qed

definition show_member :: "string \<times> json \<Rightarrow> string" where
  "show_member m = quote (fst m) @ CHR '':'' # JSON_stringify (snd m)"

lemma parse_members_show:
  assumes "ms \<noteq> []" and "2 * length (commas (map show_member ms)) + 3 \<le> n"
    and "\<And>m r n. m \<in> set ms \<Longrightarrow> delimited r \<Longrightarrow> 2 * length (JSON_stringify (snd m)) + 1 \<le> n \<Longrightarrow>
           parse_value n (JSON_stringify (snd m) @ r) = Some (snd m, r)"
  shows "parse_members n (commas (map show_member ms) @ CHR ''}'' # r) = Some (ms, r)"
  using assms
proof (induction ms arbitrary: n)
  case (Cons m ms)
  obtain n' where n: "n = Suc n'" using Cons.prems(2) by (cases n) auto
  have k: "parse_string (concat (map escape_char (fst m)) @ CHR 0x22 # s) = Some (fst m, s)" for s
    by (rule parse_string_quote)
  show ?case
  proof (cases ms)
    case Nil
    with Cons.prems n show ?thesis by (simp add: show_member_def quote_def k delimited_def skip_ws_Cons_id)
  next
    case (Cons w ws)
    let ?r = "CHR '','' # commas (map show_member ms) @ CHR ''}'' # r"
    have "parse_value n' (JSON_stringify (snd m) @ ?r) = Some (snd m, ?r)"
      using Cons.prems n by (intro Cons.prems(3)) (simp_all add: delimited_def commas_length show_member_def)
    moreover have "parse_members n' (commas (map show_member ms) @ CHR ''}'' # r) = Some (ms, r)"
      using Cons.prems n Cons by (intro Cons.IH) (simp_all add: commas_length)
    moreover have "show_member m = CHR 0x22 # concat (map escape_char (fst m)) @ CHR 0x22 # CHR '':'' # JSON_stringify (snd m)"
      by (simp add: show_member_def quote_def)
    ultimately show ?thesis using Cons by (simp add: n k skip_ws_Cons_id)
  qed
qed simp

lemma members_text: "map (\<lambda>(k, v). quote k @ CHR '':'' # JSON_stringify v) ms = map show_member ms"
  by (induction ms) (auto simp: show_member_def)

lemma parse_value_show:
  "json_ok v \<Longrightarrow> delimited r \<Longrightarrow> 2 * length (JSON_stringify v) + 1 \<le> n \<Longrightarrow>
     parse_value n (JSON_stringify v @ r) = Some (v, r)"
proof (induction v arbitrary: r n)
  case JNull
  then show ?case using parse_value_constant [of "''null''" JNull "n - 1" r] by (cases n) simp_all
next
  case (JBool b)
  then show ?case using parse_value_constant [of "JSON_stringify (JBool b)" "JBool b" "n - 1" r] by (cases n; cases b) simp_all
next
  case (JNum k)
  then show ?case using parse_value_number [of r "n - 1" k] by (cases n) simp_all
next
  case (JStr s)
  then show ?case by (cases n) (simp_all add: quote_def skip_ws_Cons_id parse_string_quote)
next
  case (JArr vs)
  then obtain n' where n: "n = Suc n'" by (cases n) auto
  show ?case
  proof (cases vs)
    case Nil
    then show ?thesis by (simp add: n skip_ws_Cons_id)
  next
    case (Cons w ws)
    then obtain c u where "JSON_stringify w = c # u" and c: "\<not> json_space c" "c \<noteq> CHR '']''"
      using JArr.prems(1) stringify_starts [of w] by auto
    with Cons obtain u' where t: "commas (map JSON_stringify vs) = c # u'" by (cases ws) auto
    have "parse_elements n' (commas (map JSON_stringify vs) @ CHR '']'' # r) = Some (vs, r)"
      using JArr.prems n Cons by (intro parse_elements_show JArr.IH) (auto simp: list_all_iff)
    with c show ?thesis by (simp add: n t skip_ws_Cons_id)
  qed
next
  case (JObj ms)
  then obtain n' where n: "n = Suc n'" by (cases n) auto
  show ?case
  proof (cases ms)
    case Nil
    then show ?thesis by (simp add: n skip_ws_Cons_id)
  next
    case (Cons w ws)
    then obtain u' where t: "commas (map show_member ms) = CHR 0x22 # u'"
      by (cases ws) (auto simp: show_member_def quote_def)
    have fuel: "2 * length (commas (map show_member ms)) + 3 \<le> n'"
      using JObj.prems(3) n by (simp only: JSON_stringify.simps members_text) simp
    have "parse_members n' (commas (map show_member ms) @ CHR ''}'' # r) = Some (ms, r)"
    proof (rule parse_members_show)
      fix m r n assume m: "m \<in> set ms" "delimited r" "2 * length (JSON_stringify (snd m)) + 1 \<le> n"
      with JObj.prems(1) have "json_ok (snd m)" by (auto simp: list_all_iff)
      moreover have "snd m \<in> Basic_BNFs.snds m" by (cases m) (simp add: snds.simps)
      ultimately show "parse_value n (JSON_stringify (snd m) @ r) = Some (snd m, r)"
        using m JObj.IH [of m "snd m" r n] by simp
    qed (use Cons fuel in simp_all)
    with JObj.prems(1) show ?thesis
      by (simp only: JSON_stringify.simps members_text n) (simp add: t skip_ws_Cons_id members_id)
  qed
qed simp

lemma JSON_round_trip: "json_ok v \<Longrightarrow> JSON_parse (JSON_stringify v) = Some v"
  using parse_value_show [of v "[]" "2 * length (JSON_stringify v) + 2"]
  by (simp add: JSON_parse_def delimited_def skip_ws_def)

end
