(* ===== verification/Schedule_Store.thy ===== *)
theory Schedule_Store
  imports Cron Js_Json
begin

text \<open>
  \<open>packages/protocol/src/schedule/types.ts\<close> (the records of a schedule and their schema) and
  \<open>packages/server/src/server/schedule/store.ts\<close> (one JSON file per schedule).  A moment is the time value of
  the ISO string the code keeps.  The directory is an association list from ids to the parsed files; a
  mutation of one schedule is atomic, which \<open>serializeScheduleMutation\<close> sees to.
\<close>

section \<open>Records\<close>

datatype schedule_status = ScheduleActive | SchedulePaused | ScheduleCompleted

datatype isolation = LocalIsolation | WorktreeIsolation

record new_agent_config =
  na_provider :: string
  na_cwd :: string
  na_modeId :: "string option"
  na_model :: "string option"
  na_thinkingOptionId :: "string option"
  na_archiveOnFinish :: "bool option"
  na_isolation :: "isolation option"
  na_title :: "string option option"
  na_providerOptions :: "json option"
  na_featureValues :: "json option"
  na_systemPrompt :: "string option"
  na_mcpServers :: "json option"

datatype schedule_target = AgentTarget string | NewAgentTarget new_agent_config

datatype run_status = RunRunning | RunSucceeded | RunFailed

record schedule_run =
  rn_id :: string
  rn_scheduledFor :: int
  rn_startedAt :: int
  rn_endedAt :: "int option"
  rn_status :: run_status
  rn_agentId :: "string option"
  rn_workspaceId :: "string option"
  rn_output :: "string option"
  rn_error :: "string option"

record stored_schedule =
  ss_id :: string
  ss_name :: "string option"
  ss_prompt :: string
  ss_cadence :: schedule_cadence
  ss_target :: schedule_target
  ss_status :: schedule_status
  ss_createdAt :: int
  ss_updatedAt :: int
  ss_nextRunAt :: "int option"
  ss_lastRunAt :: "int option"
  ss_pausedAt :: "int option"
  ss_expiresAt :: "string option"
  ss_maxRuns :: "int option"
  ss_runs :: "schedule_run list"

text \<open>
  What lies outside the sources: the time zones, \<open>new Date(text).getTime()\<close> for a text from a client (nothing
  when it is not a date), and the pattern of \<open>z.guid()\<close>.
\<close>

record schedule_env =
  se_intl :: "string \<Rightarrow> zone_reader option"
  se_parseDate :: "string \<Rightarrow> int option"
  se_isGuid :: "string \<Rightarrow> bool"

section \<open>The schema\<close>

text \<open>\<open>z.string().trim().min(1)\<close>; the text of a schema error is not modelled.\<close>

definition schema_error :: string where
  "schema_error = ''Invalid schedule''"

definition min_trimmed :: "string \<Rightarrow> string + string" where
  "min_trimmed s = (if trim s = [] then Inl schema_error else Inr (trim s))"

definition optional :: "('a \<Rightarrow> string + 'a) \<Rightarrow> 'a option \<Rightarrow> string + 'a option" where
  "optional f a = (case a of None \<Rightarrow> Inr None | Some x \<Rightarrow> bind_sum (f x) (\<lambda>y. Inr (Some y)))"

definition ScheduleCadenceSchema :: "schedule_cadence \<Rightarrow> string + schedule_cadence" where
  "ScheduleCadenceSchema c = (case c of
      Every everyMs \<Rightarrow> if everyMs > 0 then Inr c else Inl schema_error
    | CronCadence expression timezone \<Rightarrow> bind_sum (min_trimmed expression) (\<lambda>e.
        bind_sum (optional min_trimmed timezone) (\<lambda>tz. Inr (CronCadence e tz))))"

definition new_agent_schema :: "new_agent_config \<Rightarrow> string + new_agent_config" where
  "new_agent_schema c =
     bind_sum (min_trimmed (na_cwd c)) (\<lambda>cwd.
     bind_sum (optional min_trimmed (na_modeId c)) (\<lambda>modeId.
     bind_sum (optional min_trimmed (na_model c)) (\<lambda>model.
     bind_sum (optional min_trimmed (na_thinkingOptionId c)) (\<lambda>thinking.
     bind_sum (optional (optional min_trimmed) (na_title c)) (\<lambda>title.
       Inr (c\<lparr>na_cwd := cwd, na_modeId := modeId, na_model := model, na_thinkingOptionId := thinking,
              na_title := title\<rparr>))))))"

definition ScheduleTargetSchema :: "schedule_env \<Rightarrow> schedule_target \<Rightarrow> string + schedule_target" where
  "ScheduleTargetSchema env t = (case t of
      AgentTarget agentId \<Rightarrow> if se_isGuid env agentId then Inr t else Inl schema_error
    | NewAgentTarget config \<Rightarrow> bind_sum (new_agent_schema config) (\<lambda>c. Inr (NewAgentTarget c)))"

definition run_valid :: "schedule_env \<Rightarrow> schedule_run \<Rightarrow> bool" where
  "run_valid env r \<longleftrightarrow> (case rn_agentId r of None \<Rightarrow> True | Some a \<Rightarrow> se_isGuid env a)"

definition maxRuns_valid :: "int option \<Rightarrow> bool" where
  "maxRuns_valid n \<longleftrightarrow> (case n of None \<Rightarrow> True | Some k \<Rightarrow> k > 0)"

definition StoredScheduleSchema :: "schedule_env \<Rightarrow> stored_schedule \<Rightarrow> string + stored_schedule" where
  "StoredScheduleSchema env s =
     (if ss_prompt s = [] \<or> \<not> maxRuns_valid (ss_maxRuns s) \<or> \<not> list_all (run_valid env) (ss_runs s)
      then Inl schema_error
      else bind_sum (ScheduleCadenceSchema (ss_cadence s)) (\<lambda>cadence.
           bind_sum (ScheduleTargetSchema env (ss_target s)) (\<lambda>target.
             Inr (s\<lparr>ss_cadence := cadence, ss_target := target\<rparr>))))"

section \<open>The identity of a named schedule\<close>

fun canonicalize :: "json \<Rightarrow> json" where
  "canonicalize (JArr vs) = JArr (map canonicalize vs)"
| "canonicalize (JObj ms) =
     JObj (js_sort (\<lambda>a b. compare_text (fst a) (fst b)) (map (\<lambda>(k, v). (k, canonicalize v)) ms))"
| "canonicalize v = v"

definition normalizeScheduleName :: "string \<Rightarrow> string + string" where
  "normalizeScheduleName name = (if trim name = [] then Inl ''Schedule name is required'' else Inr (trim name))"

definition normalizeOptionalScheduleName :: "string option \<Rightarrow> string option" where
  "normalizeOptionalScheduleName name = (case name of
      None \<Rightarrow> None | Some n \<Rightarrow> if trim n = [] then None else Some (trim n))"

text \<open>A property that is \<open>undefined\<close> does not occur in \<open>JSON.stringify\<close>.\<close>

definition member :: "string \<Rightarrow> ('a \<Rightarrow> json) \<Rightarrow> 'a option \<Rightarrow> (string \<times> json) list" where
  "member k f v = (case v of None \<Rightarrow> [] | Some x \<Rightarrow> [(k, f x)])"

definition isolation_text :: "isolation \<Rightarrow> string" where
  "isolation_text i = (case i of LocalIsolation \<Rightarrow> ''local'' | WorktreeIsolation \<Rightarrow> ''worktree'')"

definition config_json :: "new_agent_config \<Rightarrow> json" where
  "config_json c = JObj ([(''provider'', JStr (na_provider c)), (''cwd'', JStr (na_cwd c))] @
     member ''modeId'' JStr (na_modeId c) @ member ''model'' JStr (na_model c) @
     member ''thinkingOptionId'' JStr (na_thinkingOptionId c) @
     member ''archiveOnFinish'' JBool (na_archiveOnFinish c) @
     member ''isolation'' (\<lambda>i. JStr (isolation_text i)) (na_isolation c) @
     member ''title'' (\<lambda>t. case t of None \<Rightarrow> JNull | Some s \<Rightarrow> JStr s) (na_title c) @
     member ''providerOptions'' id (na_providerOptions c) @ member ''featureValues'' id (na_featureValues c) @
     member ''systemPrompt'' JStr (na_systemPrompt c) @ member ''mcpServers'' id (na_mcpServers c))"

definition targetIdentity :: "schedule_target \<Rightarrow> json" where
  "targetIdentity target = (case target of
      AgentTarget agentId \<Rightarrow> JObj [(''type'', JStr ''agent''), (''agentId'', JStr agentId)]
    | NewAgentTarget config \<Rightarrow> JObj [(''type'', JStr ''new-agent''), (''config'', config_json config)])"

definition nameTargetIdentityKey :: "string \<Rightarrow> schedule_target \<Rightarrow> string + string" where
  "nameTargetIdentityKey name target = bind_sum (normalizeScheduleName name) (\<lambda>n.
     Inr (JSON_stringify (canonicalize (JObj [(''name'', JStr n), (''target'', targetIdentity target)]))))"

text \<open>Only called with a name that is not blank, so that the two keys exist.\<close>

definition matchesNameAndTarget :: "stored_schedule \<Rightarrow> string \<Rightarrow> schedule_target \<Rightarrow> bool" where
  "matchesNameAndTarget schedule name target \<longleftrightarrow> ss_status schedule \<noteq> ScheduleCompleted \<and>
     (case normalizeOptionalScheduleName (ss_name schedule) of
        None \<Rightarrow> False
      | Some scheduleName \<Rightarrow> Inr scheduleName = normalizeScheduleName name \<and>
          nameTargetIdentityKey scheduleName (ss_target schedule) = nameTargetIdentityKey name target)"

section \<open>The store\<close>

type_synonym schedule_store = "(string, stored_schedule) js_map"

text \<open>An updater returns the schedule it was given (\<open>None\<close>, nothing is written), another one, or throws.\<close>

type_synonym schedule_updater = "stored_schedule \<Rightarrow> string + stored_schedule option"

definition list_schedules :: "schedule_store \<Rightarrow> stored_schedule list" where
  "list_schedules st = js_sort (\<lambda>a b. ss_createdAt a - ss_createdAt b) (map snd st)"

definition store_write :: "stored_schedule \<Rightarrow> schedule_store \<Rightarrow> schedule_store" where
  "store_write s st = AList.update (ss_id s) s st"

definition create_schedule :: "schedule_env \<Rightarrow> stored_schedule \<Rightarrow> string \<Rightarrow> schedule_store \<Rightarrow> string + stored_schedule \<times> schedule_store" where
  "create_schedule env s newId st = bind_sum (StoredScheduleSchema env (s\<lparr>ss_id := newId\<rparr>)) (\<lambda>created.
     Inr (created, store_write created st))"

definition update_schedule :: "schedule_env \<Rightarrow> string \<Rightarrow> schedule_updater \<Rightarrow> schedule_store \<Rightarrow> string + stored_schedule option \<times> schedule_store" where
  "update_schedule env i updater st = (case map_of st i of
      None \<Rightarrow> Inr (None, st)
    | Some current \<Rightarrow> bind_sum (updater current) (\<lambda>r. case r of
        None \<Rightarrow> Inr (Some current, st)
      | Some s \<Rightarrow>
          if ss_id s \<noteq> i then Inl (''Schedule update cannot change id: '' @ i)
          else bind_sum (StoredScheduleSchema env s) (\<lambda>updated. Inr (Some updated, store_write updated st))))"

definition delete_schedule :: "string \<Rightarrow> schedule_store \<Rightarrow> schedule_store" where
  "delete_schedule i st = AList.delete i st"

definition updateMatchedSchedule :: "schedule_env \<Rightarrow> string \<Rightarrow> string \<Rightarrow> schedule_target \<Rightarrow>
    (stored_schedule \<Rightarrow> string + stored_schedule) \<Rightarrow> schedule_store \<Rightarrow> string + stored_schedule option \<times> schedule_store" where
  "updateMatchedSchedule env i name target updater st = (case map_of st i of
      None \<Rightarrow> Inr (None, st)
    | Some current \<Rightarrow>
        if \<not> matchesNameAndTarget current name target then Inr (None, st)
        else bind_sum (updater current) (\<lambda>s.
          if ss_id s \<noteq> i then Inl (''Schedule update cannot change id: '' @ i)
          else bind_sum (StoredScheduleSchema env s) (\<lambda>updated.
            if \<not> matchesNameAndTarget updated name target
            then Inl ''Updated schedule does not match requested identity''
            else Inr (Some updated, store_write updated st))))"

text \<open>
  One round of the loop of \<open>upsertByNameAndTarget\<close>, in two steps: the search of the list, and the write, before
  which other operations may have happened.  No schedule in the result means another round.
\<close>

definition find_match :: "string \<Rightarrow> schedule_target \<Rightarrow> schedule_store \<Rightarrow> string option" where
  "find_match name target st =
     map_option ss_id (List.find (\<lambda>s. matchesNameAndTarget s name target) (list_schedules st))"

definition upsert_found :: "schedule_env \<Rightarrow> string \<Rightarrow> schedule_target \<Rightarrow> string option \<Rightarrow> (string + stored_schedule) \<Rightarrow>
    (stored_schedule \<Rightarrow> string + stored_schedule) \<Rightarrow> string \<Rightarrow> schedule_store \<Rightarrow> string + stored_schedule option \<times> schedule_store" where
  "upsert_found env name target existing create updater newId st = (case existing of
      None \<Rightarrow> bind_sum create (\<lambda>fields.
        bind_sum (StoredScheduleSchema env (fields\<lparr>ss_id := newId\<rparr>)) (\<lambda>created.
          if \<not> matchesNameAndTarget created name target
          then Inl ''Created schedule does not match requested identity''
          else Inr (Some created, store_write created st)))
    | Some i \<Rightarrow> updateMatchedSchedule env i name target updater st)"

section \<open>What the schema ensures\<close>

lemma min_trimmed_idem: "min_trimmed s = Inr t \<Longrightarrow> min_trimmed t = Inr t"
  by (auto simp: min_trimmed_def split: if_splits)

lemma optional_idem:
  assumes "\<And>x y. f x = Inr y \<Longrightarrow> f y = Inr y" and "optional f a = Inr b"
  shows "optional f b = Inr b"
  using assms by (auto simp: optional_def bind_sum_Inr split: option.splits)

lemmas trimmed_idem =
  min_trimmed_idem optional_idem [of min_trimmed, OF min_trimmed_idem]
  optional_idem [of "optional min_trimmed", OF optional_idem [of min_trimmed, OF min_trimmed_idem]]

lemma cadence_idem:
  assumes "ScheduleCadenceSchema c = Inr d"
  shows "ScheduleCadenceSchema d = Inr d"
  using assms trimmed_idem(1,2)
  by (auto simp: ScheduleCadenceSchema_def bind_sum_Inr split: schedule_cadence.splits if_splits)

lemma config_idem:
  assumes "new_agent_schema c = Inr d"
  shows "new_agent_schema d = Inr d"
  using assms trimmed_idem by (auto simp: new_agent_schema_def bind_sum_Inr)

lemma target_idem:
  assumes "ScheduleTargetSchema env t = Inr u"
  shows "ScheduleTargetSchema env u = Inr u"
  using assms config_idem
  by (auto simp: ScheduleTargetSchema_def bind_sum_Inr split: schedule_target.splits if_splits)

text \<open>A file holds a parsed schedule, and parsing it again when it is read changes nothing.\<close>

definition schema_ok :: "schedule_env \<Rightarrow> stored_schedule \<Rightarrow> bool" where
  "schema_ok env s \<longleftrightarrow> StoredScheduleSchema env s = Inr s"

lemma schema_result:
  assumes "StoredScheduleSchema env s = Inr t"
  shows "schema_ok env t \<and> ss_id t = ss_id s \<and> ss_name t = ss_name s \<and> ss_prompt t = ss_prompt s \<and>
    ss_status t = ss_status s \<and> ss_createdAt t = ss_createdAt s \<and> ss_updatedAt t = ss_updatedAt s \<and>
    ss_nextRunAt t = ss_nextRunAt s \<and> ss_lastRunAt t = ss_lastRunAt s \<and> ss_pausedAt t = ss_pausedAt s \<and>
    ss_expiresAt t = ss_expiresAt s \<and> ss_maxRuns t = ss_maxRuns s \<and> ss_runs t = ss_runs s \<and>
    ScheduleCadenceSchema (ss_cadence s) = Inr (ss_cadence t) \<and> ScheduleTargetSchema env (ss_target s) = Inr (ss_target t)"
  using assms cadence_idem target_idem
  by (auto simp: StoredScheduleSchema_def schema_ok_def bind_sum_Inr split: if_splits)

lemma schema_ok_cadence: "schema_ok env s \<Longrightarrow> ScheduleCadenceSchema (ss_cadence s) = Inr (ss_cadence s)"
  using schema_result [of env s s] by (simp add: schema_ok_def)

lemma map_of_write [simp]: "map_of (store_write s st) i = (if i = ss_id s then Some s else map_of st i)"
  by (simp add: store_write_def update_conv')

lemma map_of_delete_schedule [simp]: "map_of (delete_schedule i st) j = (if j = i then None else map_of st j)"
  by (simp add: delete_schedule_def delete_conv')

end
