(* ===== verification/Schedule_Service.thy ===== *)
theory Schedule_Service
  imports Schedule_Store
begin

text \<open>
  \<open>packages/server/src/server/schedule/service.ts\<close>: schedules are created, changed and completed, a timer
  starts the runs that are due, and a restart repairs what was interrupted.  Every \<open>await\<close> lets other
  activities in, so a tick over the list of schedules and a run are kept as pending activities, and an
  event advances one of them.  The agent that executes a run is outside: its outcome is an argument.
\<close>

section \<open>Inputs\<close>

text \<open>A property that may be absent or \<open>null\<close> is an option of an option where the code tells the two apart.\<close>

record create_input =
  ci_name :: "string option"
  ci_prompt :: string
  ci_cadence :: schedule_cadence
  ci_target :: schedule_target
  ci_maxRuns :: "int option"
  ci_expiresAt :: "string option"
  ci_runOnCreate :: "bool option"

record agent_patch =
  ap_provider :: "string option"
  ap_cwd :: "string option"
  ap_model :: "string option option"
  ap_modeId :: "string option option"
  ap_thinkingOptionId :: "string option option"
  ap_archiveOnFinish :: "bool option"
  ap_isolation :: "isolation option"

record update_input =
  ui_id :: string
  ui_name :: "string option option"
  ui_prompt :: "string option"
  ui_cadence :: "schedule_cadence option"
  ui_newAgentConfig :: "agent_patch option"
  ui_maxRuns :: "int option option"
  ui_expiresAt :: "string option option"

definition trimOptionalName :: "string option \<Rightarrow> string option" where
  "trimOptionalName value = (case value of None \<Rightarrow> None | Some v \<Rightarrow> if trim v = [] then None else Some (trim v))"

definition normalizePrompt :: "string \<Rightarrow> string + string" where
  "normalizePrompt prompt = (if trim prompt = [] then Inl ''Schedule prompt is required'' else Inr (trim prompt))"

definition normalizeMaxRuns :: "int option \<Rightarrow> string + int option" where
  "normalizeMaxRuns value = (case value of
      None \<Rightarrow> Inr None
    | Some n \<Rightarrow> if n \<le> 0 then Inl ''maxRuns must be a positive integer'' else Inr (Some n))"

definition required_text :: "string \<Rightarrow> string \<Rightarrow> string option \<Rightarrow> string + string" where
  "required_text what current new = (case new of
      None \<Rightarrow> Inr current
    | Some v \<Rightarrow> if trim v = [] then Inl (what @ '' cannot be empty'') else Inr (trim v))"

definition optional_text :: "string option \<Rightarrow> string option option \<Rightarrow> string option" where
  "optional_text current new = (case new of None \<Rightarrow> current | Some v \<Rightarrow> trimOptionalName v)"

definition applyNewAgentConfig :: "new_agent_config \<Rightarrow> agent_patch \<Rightarrow> string + new_agent_config" where
  "applyNewAgentConfig c p =
     bind_sum (required_text ''provider'' (na_provider c) (ap_provider p)) (\<lambda>provider.
     bind_sum (required_text ''cwd'' (na_cwd c) (ap_cwd p)) (\<lambda>cwd.
       Inr (c\<lparr>na_provider := provider, na_cwd := cwd,
          na_model := optional_text (na_model c) (ap_model p),
          na_modeId := optional_text (na_modeId c) (ap_modeId p),
          na_thinkingOptionId := optional_text (na_thinkingOptionId c) (ap_thinkingOptionId p),
          na_archiveOnFinish := or_else (ap_archiveOnFinish p) (na_archiveOnFinish c),
          na_isolation := or_else (ap_isolation p) (na_isolation c)\<rparr>)))"

definition mergeScheduleCadenceTimezone :: "schedule_cadence \<Rightarrow> schedule_cadence \<Rightarrow> schedule_cadence" where
  "mergeScheduleCadenceTimezone current new = (case (current, new) of
      (CronCadence _ (Some tz), CronCadence e None) \<Rightarrow> CronCadence e (Some tz)
    | _ \<Rightarrow> new)"

section \<open>When a schedule is over\<close>

definition countCompletedRuns :: "stored_schedule \<Rightarrow> int" where
  "countCompletedRuns s = int (length [r \<leftarrow> ss_runs s. rn_status r \<noteq> RunRunning])"

definition expired :: "schedule_env \<Rightarrow> stored_schedule \<Rightarrow> int \<Rightarrow> bool" where
  "expired env s now \<longleftrightarrow> (case truthy (ss_expiresAt s) of
      None \<Rightarrow> False
    | Some t \<Rightarrow> (case se_parseDate env t of None \<Rightarrow> False | Some d \<Rightarrow> d \<le> now))"

definition shouldCompleteSchedule :: "schedule_env \<Rightarrow> stored_schedule \<Rightarrow> int \<Rightarrow> bool" where
  "shouldCompleteSchedule env s now \<longleftrightarrow> expired env s now \<or>
     (case ss_maxRuns s of None \<Rightarrow> False | Some n \<Rightarrow> countCompletedRuns s \<ge> n)"

definition completeSchedule :: "stored_schedule \<Rightarrow> int \<Rightarrow> stored_schedule" where
  "completeSchedule s now =
     s\<lparr>ss_status := ScheduleCompleted, ss_nextRunAt := None, ss_pausedAt := None, ss_updatedAt := now\<rparr>"

definition shouldArchiveScheduleRunWorkspace :: "string option \<Rightarrow> bool option \<Rightarrow> bool" where
  "shouldArchiveScheduleRunWorkspace agentId archiveOnFinish \<longleftrightarrow> agentId = None \<or> default True archiveOnFinish"

section \<open>The next run\<close>

text \<open>
  \<open>while (nextRunAt <= now) nextRunAt = computeNextRunAt(cadence, nextRunAt)\<close>.  Each round moves a valid cadence
  forward by at least a millisecond, so that the fuel suffices; \<open>catch_up_loop\<close> is the equation of the loop.
\<close>

primrec catch_up_fuel :: "nat \<Rightarrow> schedule_env \<Rightarrow> schedule_cadence \<Rightarrow> int \<Rightarrow> int \<Rightarrow> string + int" where
  "catch_up_fuel 0 env cadence now t = Inr t"
| "catch_up_fuel (Suc n) env cadence now t =
     (if t > now then Inr t
      else bind_sum (computeNextRunAt (se_intl env) cadence t) (catch_up_fuel n env cadence now))"

definition catch_up :: "schedule_env \<Rightarrow> schedule_cadence \<Rightarrow> int \<Rightarrow> int \<Rightarrow> string + int" where
  "catch_up env cadence now t = catch_up_fuel (nat (now - t + 1)) env cadence now t"

definition next_after :: "schedule_env \<Rightarrow> schedule_cadence \<Rightarrow> int \<Rightarrow> int \<Rightarrow> string + int" where
  "next_after env cadence base now = bind_sum (computeNextRunAt (se_intl env) cadence base) (catch_up env cadence now)"

section \<open>Creating\<close>

definition first_run :: "schedule_env \<Rightarrow> schedule_cadence \<Rightarrow> bool option \<Rightarrow> int \<Rightarrow> string + int" where
  "first_run env cadence runOnCreate now =
     (if default (case cadence of Every _ \<Rightarrow> True | CronCadence _ _ \<Rightarrow> False) runOnCreate then Inr now
      else computeNextRunAt (se_intl env) cadence now)"

definition buildScheduleRecord :: "schedule_env \<Rightarrow> create_input \<Rightarrow> string option \<Rightarrow> string \<Rightarrow> schedule_target \<Rightarrow> int \<Rightarrow>
    string + stored_schedule" where
  "buildScheduleRecord env input name prompt target now =
     bind_sum (first_run env (ci_cadence input) (ci_runOnCreate input) now) (\<lambda>nextRunAt.
     bind_sum (normalizeMaxRuns (ci_maxRuns input)) (\<lambda>maxRuns.
       Inr \<lparr>ss_id = [], ss_name = name, ss_prompt = prompt, ss_cadence = ci_cadence input, ss_target = target,
            ss_status = ScheduleActive, ss_createdAt = now, ss_updatedAt = now, ss_nextRunAt = Some nextRunAt,
            ss_lastRunAt = None, ss_pausedAt = None, ss_expiresAt = ci_expiresAt input, ss_maxRuns = maxRuns,
            ss_runs = []\<rparr>))"

text \<open>\<open>validateScheduleCadence\<close> throws its message.\<close>

definition validated :: "schedule_env \<Rightarrow> schedule_cadence \<Rightarrow> string + unit" where
  "validated env cadence = (case validateScheduleCadence (se_intl env) cadence of None \<Rightarrow> Inr () | Some e \<Rightarrow> Inl e)"

definition create_service :: "schedule_env \<Rightarrow> create_input \<Rightarrow> string \<Rightarrow> int \<Rightarrow> schedule_store \<Rightarrow>
    string + stored_schedule \<times> schedule_store" where
  "create_service env input newId now st =
     bind_sum (normalizePrompt (ci_prompt input)) (\<lambda>prompt.
     bind_sum (validated env (ci_cadence input)) (\<lambda>_.
     bind_sum (buildScheduleRecord env input (trimOptionalName (ci_name input)) prompt (ci_target input) now) (\<lambda>s.
       create_schedule env s newId st)))"

text \<open>The \<open>update\<close> of \<open>createOrReplace\<close>.\<close>

definition replace_updater :: "schedule_env \<Rightarrow> create_input \<Rightarrow> string \<Rightarrow> string \<Rightarrow> int \<Rightarrow> stored_schedule \<Rightarrow> string + stored_schedule" where
  "replace_updater env input name prompt now current =
     (let cadence = mergeScheduleCadenceTimezone (ss_cadence current) (ci_cadence input) in
      bind_sum (first_run env cadence (ci_runOnCreate input) now) (\<lambda>nextRunAt.
      bind_sum (normalizeMaxRuns (ci_maxRuns input)) (\<lambda>maxRuns.
        Inr (current\<lparr>ss_name := Some name, ss_prompt := prompt, ss_cadence := cadence, ss_target := ci_target input,
          ss_status := ScheduleActive, ss_pausedAt := None, ss_nextRunAt := Some nextRunAt,
          ss_expiresAt := ci_expiresAt input, ss_maxRuns := maxRuns, ss_updatedAt := now\<rparr>))))"

text \<open>\<open>createOrReplace\<close> after its search, which found \<open>existing\<close>; without a schedule it searches again.\<close>

definition createOrReplace_found :: "schedule_env \<Rightarrow> create_input \<Rightarrow> string option \<Rightarrow> string \<Rightarrow> int \<Rightarrow> schedule_store \<Rightarrow>
    string + stored_schedule option \<times> schedule_store" where
  "createOrReplace_found env input existing newId now st =
     bind_sum (normalizePrompt (ci_prompt input)) (\<lambda>prompt.
     bind_sum (validated env (ci_cadence input)) (\<lambda>_.
       case trimOptionalName (ci_name input) of
         None \<Rightarrow> bind_sum (buildScheduleRecord env input None prompt (ci_target input) now) (\<lambda>s.
           bind_sum (create_schedule env s newId st) (\<lambda>(created, st'). Inr (Some created, st')))
       | Some name \<Rightarrow> upsert_found env name (ci_target input) existing
           (buildScheduleRecord env input (Some name) prompt (ci_target input) now)
           (replace_updater env input name prompt now) newId st))"

definition createOrReplace :: "schedule_env \<Rightarrow> create_input \<Rightarrow> string \<Rightarrow> int \<Rightarrow> schedule_store \<Rightarrow>
    string + stored_schedule option \<times> schedule_store" where
  "createOrReplace env input newId now st = createOrReplace_found env input
     (case trimOptionalName (ci_name input) of None \<Rightarrow> None | Some name \<Rightarrow> find_match name (ci_target input) st)
     newId now st"

section \<open>Changing\<close>

definition pause_updater :: "int \<Rightarrow> schedule_updater" where
  "pause_updater now s = (case ss_status s of
      ScheduleCompleted \<Rightarrow> Inl (''Schedule '' @ ss_id s @ '' is already completed'')
    | SchedulePaused \<Rightarrow> Inr None
    | ScheduleActive \<Rightarrow> Inr (Some (s\<lparr>ss_status := SchedulePaused, ss_nextRunAt := None, ss_pausedAt := Some now,
        ss_updatedAt := now\<rparr>)))"

definition resume_updater :: "schedule_env \<Rightarrow> int \<Rightarrow> schedule_updater" where
  "resume_updater env now s = (case ss_status s of
      ScheduleCompleted \<Rightarrow> Inl (''Schedule '' @ ss_id s @ '' is already completed'')
    | ScheduleActive \<Rightarrow> Inr None
    | SchedulePaused \<Rightarrow> bind_sum (computeNextRunAt (se_intl env) (ss_cadence s) now) (\<lambda>t.
        Inr (Some (s\<lparr>ss_status := ScheduleActive, ss_pausedAt := None, ss_nextRunAt := Some t, ss_updatedAt := now\<rparr>))))"

definition change_prompt :: "update_input \<Rightarrow> stored_schedule \<Rightarrow> string + stored_schedule" where
  "change_prompt input s = (case ui_prompt input of
      None \<Rightarrow> Inr s | Some p \<Rightarrow> bind_sum (normalizePrompt p) (\<lambda>prompt. Inr (s\<lparr>ss_prompt := prompt\<rparr>)))"

definition change_name :: "update_input \<Rightarrow> stored_schedule \<Rightarrow> stored_schedule" where
  "change_name input s = (case ui_name input of None \<Rightarrow> s | Some n \<Rightarrow> s\<lparr>ss_name := trimOptionalName n\<rparr>)"

definition change_cadence :: "schedule_env \<Rightarrow> update_input \<Rightarrow> int \<Rightarrow> stored_schedule \<Rightarrow> string + stored_schedule" where
  "change_cadence env input now s = (case ui_cadence input of
      None \<Rightarrow> Inr s
    | Some c \<Rightarrow> let cadence = mergeScheduleCadenceTimezone (ss_cadence s) c in
        bind_sum (validated env cadence) (\<lambda>_.
        if ss_status s = ScheduleActive
        then bind_sum (computeNextRunAt (se_intl env) cadence now) (\<lambda>t.
               Inr (s\<lparr>ss_cadence := cadence, ss_nextRunAt := Some t\<rparr>))
        else Inr (s\<lparr>ss_cadence := cadence, ss_nextRunAt := None\<rparr>)))"

definition change_config :: "update_input \<Rightarrow> stored_schedule \<Rightarrow> string + stored_schedule" where
  "change_config input s = (case ui_newAgentConfig input of
      None \<Rightarrow> Inr s
    | Some patch \<Rightarrow> (case ss_target s of
        AgentTarget _ \<Rightarrow> Inl ''new-agent config updates are only valid for new-agent target schedules''
      | NewAgentTarget config \<Rightarrow> bind_sum (applyNewAgentConfig config patch) (\<lambda>c.
          Inr (s\<lparr>ss_target := NewAgentTarget c\<rparr>))))"

definition change_limits :: "update_input \<Rightarrow> stored_schedule \<Rightarrow> string + stored_schedule" where
  "change_limits input s =
     bind_sum (case ui_maxRuns input of None \<Rightarrow> Inr (ss_maxRuns s) | Some n \<Rightarrow> normalizeMaxRuns n) (\<lambda>maxRuns.
       Inr (s\<lparr>ss_maxRuns := maxRuns, ss_expiresAt := default (ss_expiresAt s) (ui_expiresAt input)\<rparr>))"

definition update_updater :: "schedule_env \<Rightarrow> update_input \<Rightarrow> int \<Rightarrow> schedule_updater" where
  "update_updater env input now s =
     bind_sum (change_prompt input s) (\<lambda>s1.
     bind_sum (change_cadence env input now (change_name input s1)) (\<lambda>s2.
     bind_sum (change_config input s2) (\<lambda>s3.
     bind_sum (change_limits input s3) (\<lambda>s4. Inr (Some (s4\<lparr>ss_updatedAt := now\<rparr>))))))"

definition agent_schedule :: "string \<Rightarrow> stored_schedule \<Rightarrow> bool" where
  "agent_schedule agentId s \<longleftrightarrow> ss_target s = AgentTarget agentId \<and> ss_status s \<noteq> ScheduleCompleted"

definition complete_for_agent_updater :: "string \<Rightarrow> int \<Rightarrow> schedule_updater" where
  "complete_for_agent_updater agentId now s =
     Inr (if agent_schedule agentId s then Some (completeSchedule s now) else None)"

definition complete_due_updater :: "schedule_env \<Rightarrow> int \<Rightarrow> schedule_updater" where
  "complete_due_updater env now s =
     Inr (if ss_status s \<noteq> ScheduleActive \<or> ss_nextRunAt s = None \<or> \<not> shouldCompleteSchedule env s now then None
          else Some (completeSchedule s now))"

section \<open>Runs\<close>

definition append_updater :: "schedule_run \<Rightarrow> schedule_updater" where
  "append_updater r s = Inr (Some (s\<lparr>ss_updatedAt := rn_startedAt r, ss_runs := ss_runs s @ [r]\<rparr>))"

definition workspace_updater :: "string \<Rightarrow> string \<Rightarrow> string option \<Rightarrow> int \<Rightarrow> schedule_updater" where
  "workspace_updater runId workspaceId agentId now s = Inr (Some (s\<lparr>ss_updatedAt := now, ss_runs :=
     map (\<lambda>r. if rn_id r = runId \<and> rn_status r = RunRunning
              then r\<lparr>rn_workspaceId := Some workspaceId, rn_agentId := agentId\<rparr> else r) (ss_runs s)\<rparr>))"

record finish_params =
  fp_runId :: string
  fp_status :: run_status
  fp_agentId :: "string option"
  fp_output :: "string option"
  fp_error :: "string option"
  fp_targetGone :: bool
  fp_manual :: bool

definition finished_run :: "finish_params \<Rightarrow> int \<Rightarrow> schedule_run \<Rightarrow> schedule_run" where
  "finished_run p now r = (if rn_id r = fp_runId p
     then r\<lparr>rn_status := fp_status p, rn_endedAt := Some now, rn_agentId := or_else (fp_agentId p) (rn_agentId r),
            rn_output := fp_output p, rn_error := fp_error p\<rparr> else r)"

definition finish_updater :: "schedule_env \<Rightarrow> finish_params \<Rightarrow> int \<Rightarrow> schedule_updater" where
  "finish_updater env p now s =
     (let updated = s\<lparr>ss_runs := map (finished_run p now) (ss_runs s), ss_lastRunAt := Some now, ss_updatedAt := now\<rparr>
      in if fp_targetGone p then Inr (Some (completeSchedule updated now))
         else if ss_status updated = ScheduleCompleted then Inr (Some updated)
         else if fp_manual p then Inr (Some updated)
         else if shouldCompleteSchedule env updated now then Inr (Some (completeSchedule updated now))
         else if ss_status updated = SchedulePaused then Inr (Some (updated\<lparr>ss_nextRunAt := None\<rparr>))
         else bind_sum (next_after env (ss_cadence updated) (default now (ss_nextRunAt s)) now) (\<lambda>t.
           Inr (Some (updated\<lparr>ss_nextRunAt := Some t\<rparr>))))"

section \<open>Restart\<close>

text \<open>Only the first run still marked as running is closed.\<close>

definition interrupted_run :: "int \<Rightarrow> schedule_run \<Rightarrow> schedule_run" where
  "interrupted_run now r = r\<lparr>rn_status := RunFailed, rn_endedAt := Some now,
     rn_error := Some ''Daemon restarted before the scheduled run completed''\<rparr>"

definition close_interrupted :: "int \<Rightarrow> schedule_run list \<Rightarrow> schedule_run list" where
  "close_interrupted now rs = (case find_index (\<lambda>r. rn_status r = RunRunning) rs of
      None \<Rightarrow> rs | Some i \<Rightarrow> rs[i := interrupted_run now (rs ! i)])"

definition recover_updater :: "schedule_env \<Rightarrow> int \<Rightarrow> schedule_updater" where
  "recover_updater env now s =
     (let runs = close_interrupted now (ss_runs s);
          closed = find_index (\<lambda>r. rn_status r = RunRunning) (ss_runs s) \<noteq> None in
      case (ss_status s, ss_nextRunAt s) of
        (ScheduleActive, Some t) \<Rightarrow>
          (if t \<le> now
           then bind_sum (next_after env (ss_cadence s) t now) (\<lambda>u.
                  Inr (Some (s\<lparr>ss_runs := runs, ss_nextRunAt := Some u, ss_updatedAt := now\<rparr>)))
           else Inr (if closed then Some (s\<lparr>ss_runs := runs, ss_updatedAt := now\<rparr>) else None))
      | _ \<Rightarrow> Inr (if closed then Some (s\<lparr>ss_runs := runs, ss_updatedAt := now\<rparr>) else None))"

text \<open>The workspace that recovery archives, for the run it closed.\<close>

definition interrupted_workspace :: "stored_schedule \<Rightarrow> string option" where
  "interrupted_workspace s = (case find_index (\<lambda>r. rn_status r = RunRunning) (ss_runs s) of
      None \<Rightarrow> None
    | Some i \<Rightarrow> (case (ss_target s, truthy (rn_workspaceId (ss_runs s ! i))) of
        (NewAgentTarget config, Some w) \<Rightarrow>
          (if shouldArchiveScheduleRunWorkspace (rn_agentId (ss_runs s ! i)) (na_archiveOnFinish config)
           then Some w else None)
      | _ \<Rightarrow> None))"

text \<open>\<open>present\<close> tells whether the storage has an agent that is not archived.\<close>

definition sweep_updater :: "(string \<Rightarrow> bool) \<Rightarrow> int \<Rightarrow> schedule_updater" where
  "sweep_updater present now s = Inr (case ss_target s of
      NewAgentTarget _ \<Rightarrow> None
    | AgentTarget agentId \<Rightarrow>
        if ss_status s = ScheduleCompleted \<or> present agentId then None else Some (completeSchedule s now))"

text \<open>
  \<open>Promise.all\<close> over the schedules: every update is carried out, and a failure of one makes the whole call
  fail.  The result has the errors, the store and the archived workspaces.
\<close>

fun update_all :: "schedule_env \<Rightarrow> schedule_updater \<Rightarrow> string list \<Rightarrow> schedule_store \<Rightarrow> string list \<times> schedule_store" where
  "update_all env f [] st = ([], st)"
| "update_all env f (i # is') st = (case update_schedule env i f st of
      Inl e \<Rightarrow> (let (es, st') = update_all env f is' st in (e # es, st'))
    | Inr (_, st1) \<Rightarrow> update_all env f is' st1)"

definition recoverInterruptedRuns :: "schedule_env \<Rightarrow> int \<Rightarrow> schedule_store \<Rightarrow> string list \<times> schedule_store \<times> string list" where
  "recoverInterruptedRuns env now st =
     (let (es, st') = update_all env (recover_updater env now) (map ss_id (list_schedules st)) st in
      (es, st', [w. s \<leftarrow> list_schedules st, isl (recover_updater env now s) = False,
                    w \<leftarrow> (case interrupted_workspace s of None \<Rightarrow> [] | Some w \<Rightarrow> [w])]))"

definition sweepOrphanedSchedules :: "schedule_env \<Rightarrow> (string \<Rightarrow> bool) \<Rightarrow> int \<Rightarrow> schedule_store \<Rightarrow> string list \<times> schedule_store" where
  "sweepOrphanedSchedules env present now st =
     update_all env (sweep_updater present now) (map ss_id (list_schedules st)) st"

text \<open>The number of schedules that were completed.\<close>

definition completeForAgent :: "schedule_env \<Rightarrow> string \<Rightarrow> int \<Rightarrow> schedule_store \<Rightarrow> nat \<times> schedule_store" where
  "completeForAgent env agentId now st =
     (let matches = map ss_id (filter (agent_schedule agentId) (list_schedules st));
          (es, st') = update_all env (complete_for_agent_updater agentId now) matches st
      in (length matches - length es, st'))"

section \<open>Reading\<close>

definition inspect :: "string \<Rightarrow> schedule_store \<Rightarrow> string + stored_schedule" where
  "inspect i st = (case map_of st i of None \<Rightarrow> Inl (''Schedule not found: '' @ i) | Some s \<Rightarrow> Inr s)"

definition logs :: "string \<Rightarrow> schedule_store \<Rightarrow> string + schedule_run list" where
  "logs i st = bind_sum (inspect i st) (\<lambda>s. Inr (js_sort (\<lambda>a b. rn_startedAt a - rn_startedAt b) (ss_runs s)))"

text \<open>The prompt of a run that goes to an existing agent, and what is kept of its result.\<close>

definition buildScheduleFireBody :: "stored_schedule \<Rightarrow> string \<Rightarrow> string" where
  "buildScheduleFireBody s runId =
     (case truthy (ss_name s) of
        Some name \<Rightarrow> ''Schedule '' @ [CHR 0x22] @ name @ [CHR 0x22] @ '' fired (id='' @ ss_id s @ '', run='' @ runId @ '').''
      | None \<Rightarrow> ''Schedule fired (id='' @ ss_id s @ '', run='' @ runId @ '').'') @ [CHR 0x0A] @ ss_prompt s"

definition buildRunOutput :: "string option \<Rightarrow> string \<Rightarrow> string \<Rightarrow> string option" where
  "buildRunOutput outp timelineText finalText =
     (if trim (default [] outp) \<noteq> [] then outp
      else if trim finalText \<noteq> [] then Some (trim finalText)
      else if trim timelineText \<noteq> [] then Some (trim timelineText) else None)"

end
