(* ===== verification/Schedule_Runs.thy ===== *)
theory Schedule_Runs
  imports Schedule_Service
begin

text \<open>
  The schedule service as an event system: its store, the set \<open>runningScheduleIds\<close>, the ticks that are part
  way through their list, and the runs that are in flight.  A tick holds the list it read when it started, and
  waits for each run it starts; the timer starts the next tick all the same.
\<close>

section \<open>State\<close>

text \<open>\<open>fl_rest\<close> is the tick that waits for the run, with what is left of its list.\<close>

record flight =
  fl_schedule :: string
  fl_run :: schedule_run
  fl_manual :: bool
  fl_appended :: bool
  fl_rest :: "(int \<times> stored_schedule list) option"

record schedule_service =
  sv_up :: bool
  sv_store :: schedule_store
  sv_runningIds :: "string set"
  sv_ticks :: "(int \<times> stored_schedule list) list"
  sv_flights :: "flight list"
  sv_archives :: "string list"

definition new_service :: schedule_service where
  "new_service = \<lparr>sv_up = True, sv_store = [], sv_runningIds = {}, sv_ticks = [], sv_flights = [], sv_archives = []\<rparr>"

datatype run_outcome = RunOk "string option" "string option" | RunError string bool

section \<open>A run\<close>

text \<open>\<open>runSchedule\<close> up to its first \<open>await\<close>.\<close>

definition begin_run :: "stored_schedule \<Rightarrow> int \<Rightarrow> bool \<Rightarrow> string \<Rightarrow> (int \<times> stored_schedule list) option \<Rightarrow>
    schedule_service \<Rightarrow> schedule_service" where
  "begin_run s now manual runId rest sv =
     sv\<lparr>sv_runningIds := insert (ss_id s) (sv_runningIds sv),
        sv_flights := sv_flights sv @ [\<lparr>fl_schedule = ss_id s,
          fl_run = \<lparr>rn_id = runId, rn_scheduledFor = (if manual then now else default now (ss_nextRunAt s)),
                    rn_startedAt = now, rn_endedAt = None, rn_status = RunRunning, rn_agentId = None,
                    rn_workspaceId = None, rn_output = None, rn_error = None\<rparr>,
          fl_manual = manual, fl_appended = False, fl_rest = rest\<rparr>]\<rparr>"

definition find_flight :: "string \<Rightarrow> schedule_service \<Rightarrow> flight option" where
  "find_flight runId sv = List.find (\<lambda>f. rn_id (fl_run f) = runId) (sv_flights sv)"

definition drop_flight :: "string \<Rightarrow> schedule_service \<Rightarrow> schedule_service" where
  "drop_flight runId sv = sv\<lparr>sv_flights := filter (\<lambda>f. rn_id (fl_run f) \<noteq> runId) (sv_flights sv)\<rparr>"

text \<open>
  \<open>appendRunningRun\<close> stands before the \<open>try\<close> of \<open>runSchedule\<close>: when it throws, the tick ends and the id stays
  in \<open>runningScheduleIds\<close>.
\<close>

definition append_run :: "schedule_env \<Rightarrow> string \<Rightarrow> schedule_service \<Rightarrow> schedule_service" where
  "append_run env runId sv = (case find_flight runId sv of
      None \<Rightarrow> sv
    | Some f \<Rightarrow> (case update_schedule env (fl_schedule f) (append_updater (fl_run f)) (sv_store sv) of
        Inr (Some _, st) \<Rightarrow> sv\<lparr>sv_store := st, sv_flights :=
          map (\<lambda>g. if rn_id (fl_run g) = runId then g\<lparr>fl_appended := True\<rparr> else g) (sv_flights sv)\<rparr>
      | _ \<Rightarrow> drop_flight runId sv))"

definition finish_run :: "schedule_env \<Rightarrow> string \<Rightarrow> finish_params \<Rightarrow> int \<Rightarrow> schedule_store \<Rightarrow> string + schedule_store" where
  "finish_run env i p now st = bind_sum (update_schedule env i (finish_updater env p now) st) (\<lambda>(r, st').
     case r of None \<Rightarrow> Inl (''Schedule not found: '' @ i) | Some _ \<Rightarrow> Inr st')"

definition success_params :: "flight \<Rightarrow> string option \<Rightarrow> string option \<Rightarrow> finish_params" where
  "success_params f agentId outp = \<lparr>fp_runId = rn_id (fl_run f), fp_status = RunSucceeded, fp_agentId = agentId,
     fp_output = outp, fp_error = None, fp_targetGone = False, fp_manual = fl_manual f\<rparr>"

definition failure_params :: "flight \<Rightarrow> string \<Rightarrow> bool \<Rightarrow> finish_params" where
  "failure_params f err gone = \<lparr>fp_runId = rn_id (fl_run f), fp_status = RunFailed, fp_agentId = None,
     fp_output = None, fp_error = Some err, fp_targetGone = gone, fp_manual = fl_manual f\<rparr>"

text \<open>The \<open>try\<close> and \<open>catch\<close> of \<open>runSchedule\<close>: a failure to record a success is recorded as a failed run.\<close>

definition settle_store :: "schedule_env \<Rightarrow> flight \<Rightarrow> run_outcome \<Rightarrow> int \<Rightarrow> schedule_store \<Rightarrow> string + schedule_store" where
  "settle_store env f outcome now st = (case outcome of
      RunOk agentId outp \<Rightarrow>
        (case finish_run env (fl_schedule f) (success_params f agentId outp) now st of
           Inr st' \<Rightarrow> Inr st'
         | Inl e \<Rightarrow> finish_run env (fl_schedule f) (failure_params f e False) now st)
    | RunError e gone \<Rightarrow> finish_run env (fl_schedule f) (failure_params f e gone) now st)"

definition continue_tick :: "(int \<times> stored_schedule list) option \<Rightarrow> schedule_service \<Rightarrow> schedule_service" where
  "continue_tick rest sv = (case rest of None \<Rightarrow> sv | Some t \<Rightarrow> sv\<lparr>sv_ticks := sv_ticks sv @ [t]\<rparr>)"

definition settle_flight :: "schedule_env \<Rightarrow> string \<Rightarrow> run_outcome \<Rightarrow> int \<Rightarrow> schedule_service \<Rightarrow> schedule_service" where
  "settle_flight env runId outcome now sv = (case find_flight runId sv of
      None \<Rightarrow> sv
    | Some f \<Rightarrow>
        let sv0 = (drop_flight runId sv)\<lparr>sv_runningIds := sv_runningIds sv - {fl_schedule f}\<rparr> in
        (case settle_store env f outcome now (sv_store sv) of
           Inr st \<Rightarrow> continue_tick (fl_rest f) (sv0\<lparr>sv_store := st\<rparr>)
         | Inl e \<Rightarrow> sv0))"

section \<open>A tick\<close>

definition start_tick :: "int \<Rightarrow> schedule_service \<Rightarrow> schedule_service" where
  "start_tick now sv = sv\<lparr>sv_ticks := sv_ticks sv @ [(now, list_schedules (sv_store sv))]\<rparr>"

text \<open>One schedule of the list; the list is the one read at the start of the tick.\<close>

definition tick_step :: "schedule_env \<Rightarrow> int \<times> stored_schedule list \<Rightarrow> string \<Rightarrow> schedule_service \<Rightarrow> schedule_service" where
  "tick_step env tick runId sv =
     (let sv0 = sv\<lparr>sv_ticks := remove1 tick (sv_ticks sv)\<rparr>; now = fst tick in
      case snd tick of
        [] \<Rightarrow> sv0
      | s # rest \<Rightarrow>
          if ss_status s \<noteq> ScheduleActive then continue_tick (Some (now, rest)) sv0
          else case ss_nextRunAt s of
            None \<Rightarrow> continue_tick (Some (now, rest)) sv0
          | Some t \<Rightarrow>
              if ss_id s \<in> sv_runningIds sv then continue_tick (Some (now, rest)) sv0
              else if shouldCompleteSchedule env s now then
                (case update_schedule env (ss_id s) (complete_due_updater env now) (sv_store sv) of
                   Inr (Some _, st) \<Rightarrow> continue_tick (Some (now, rest)) (sv0\<lparr>sv_store := st\<rparr>)
                 | _ \<Rightarrow> sv0)
              else if t > now then continue_tick (Some (now, rest)) sv0
              else begin_run s now False runId (Some (now, rest)) sv0)"

definition run_once :: "string \<Rightarrow> string \<Rightarrow> int \<Rightarrow> schedule_service \<Rightarrow> schedule_service" where
  "run_once i runId now sv = (case map_of (sv_store sv) i of
      None \<Rightarrow> sv
    | Some s \<Rightarrow>
        if ss_status s = ScheduleCompleted then sv
        else if i \<in> sv_runningIds sv then sv
        else begin_run s now True runId None sv)"

section \<open>Start\<close>

text \<open>A new process: what was in memory is gone.  When recovery or the sweep throws, \<open>start()\<close> throws.\<close>

definition start_service :: "schedule_env \<Rightarrow> (string \<Rightarrow> bool) \<Rightarrow> int \<Rightarrow> schedule_service \<Rightarrow> schedule_service" where
  "start_service env present now sv =
     (let (es, st, ws) = recoverInterruptedRuns env now (sv_store sv);
          sv0 = \<lparr>sv_up = False, sv_store = st, sv_runningIds = {}, sv_ticks = [], sv_flights = [],
                 sv_archives = sv_archives sv @ ws\<rparr> in
      if es \<noteq> [] then sv0
      else let (es', st') = sweepOrphanedSchedules env present now st in sv0\<lparr>sv_up := (es' = []), sv_store := st'\<rparr>)"

section \<open>Events\<close>

datatype service_event =
    Create create_input string int
  | CreateOrReplace create_input "string option" string int
  | Pause string int
  | Resume string int
  | Change update_input int
  | Remove string
  | CompleteForAgent string string int
  | RunOnce string string int
  | StartTick int
  | TickStep "int \<times> stored_schedule list" string
  | AppendRun string
  | RecordWorkspace string string "string option" int
  | SettleRun string run_outcome int
  | Restart "string \<Rightarrow> bool" int

definition stored :: "(string + 'a \<times> schedule_store) \<Rightarrow> schedule_service \<Rightarrow> schedule_service" where
  "stored r sv = (case r of Inl e \<Rightarrow> sv | Inr (_, st) \<Rightarrow> sv\<lparr>sv_store := st\<rparr>)"

definition record_workspace :: "schedule_env \<Rightarrow> string \<Rightarrow> string \<Rightarrow> string option \<Rightarrow> int \<Rightarrow> schedule_service \<Rightarrow> schedule_service" where
  "record_workspace env runId w agentId now sv = (case find_flight runId sv of
      None \<Rightarrow> sv
    | Some f \<Rightarrow> stored (update_schedule env (fl_schedule f) (workspace_updater runId w agentId now) (sv_store sv)) sv)"

fun service_step :: "schedule_env \<Rightarrow> service_event \<Rightarrow> schedule_service \<Rightarrow> schedule_service" where
  "service_step env (Create input i now) sv = stored (create_service env input i now (sv_store sv)) sv"
| "service_step env (CreateOrReplace input found i now) sv =
     stored (createOrReplace_found env input found i now (sv_store sv)) sv"
| "service_step env (Pause i now) sv = stored (update_schedule env i (pause_updater now) (sv_store sv)) sv"
| "service_step env (Resume i now) sv = stored (update_schedule env i (resume_updater env now) (sv_store sv)) sv"
| "service_step env (Change input now) sv =
     stored (update_schedule env (ui_id input) (update_updater env input now) (sv_store sv)) sv"
| "service_step env (Remove i) sv = sv\<lparr>sv_store := delete_schedule i (sv_store sv)\<rparr>"
| "service_step env (CompleteForAgent agentId i now) sv =
     stored (update_schedule env i (complete_for_agent_updater agentId now) (sv_store sv)) sv"
| "service_step env (RunOnce i runId now) sv = run_once i runId now sv"
| "service_step env (StartTick now) sv = start_tick now sv"
| "service_step env (TickStep tick runId) sv = tick_step env tick runId sv"
| "service_step env (AppendRun runId) sv = append_run env runId sv"
| "service_step env (RecordWorkspace runId w agentId now) sv = record_workspace env runId w agentId now sv"
| "service_step env (SettleRun runId outcome now) sv = settle_flight env runId outcome now sv"
| "service_step env (Restart present now) sv = start_service env present now sv"

text \<open>\<open>randomUUID\<close> and \<open>randomBytes\<close> give fresh ids.\<close>

definition runs_at :: "schedule_store \<Rightarrow> string \<Rightarrow> schedule_run list" where
  "runs_at st i = (case map_of st i of None \<Rightarrow> [] | Some s \<Rightarrow> ss_runs s)"

definition fresh_run :: "string \<Rightarrow> schedule_service \<Rightarrow> bool" where
  "fresh_run runId sv \<longleftrightarrow> list_all (\<lambda>f. rn_id (fl_run f) \<noteq> runId) (sv_flights sv) \<and>
     list_all (\<lambda>(i, s). list_all (\<lambda>r. rn_id r \<noteq> runId) (ss_runs s)) (sv_store sv)"

definition in_flight :: "string \<Rightarrow> bool \<Rightarrow> schedule_service \<Rightarrow> bool" where
  "in_flight runId appended sv \<longleftrightarrow> (case find_flight runId sv of None \<Rightarrow> False | Some f \<Rightarrow> fl_appended f = appended)"

fun service_enabled :: "schedule_service \<Rightarrow> service_event \<Rightarrow> bool" where
  "service_enabled sv (Create input i now) = (sv_up sv \<and> map_of (sv_store sv) i = None)"
| "service_enabled sv (CreateOrReplace input found i now) = (sv_up sv \<and> map_of (sv_store sv) i = None)"
| "service_enabled sv (RunOnce i runId now) = (sv_up sv \<and> fresh_run runId sv)"
| "service_enabled sv (TickStep tick runId) = (sv_up sv \<and> tick \<in> set (sv_ticks sv) \<and> fresh_run runId sv)"
| "service_enabled sv (AppendRun runId) = (sv_up sv \<and> in_flight runId False sv)"
| "service_enabled sv (RecordWorkspace runId w agentId now) = (sv_up sv \<and> in_flight runId True sv)"
| "service_enabled sv (SettleRun runId outcome now) = (sv_up sv \<and> in_flight runId True sv)"
| "service_enabled sv (Restart present now) = True"
| "service_enabled sv _ = sv_up sv"

definition all_cadences :: "(schedule_cadence \<Rightarrow> bool) \<Rightarrow> schedule_service \<Rightarrow> bool" where
  "all_cadences P sv \<longleftrightarrow> list_all (\<lambda>(i, s). P (ss_cadence s)) (sv_store sv)"

text \<open>The states that are reached while all stored cadences satisfy \<open>P\<close>.\<close>

inductive serviced :: "schedule_env \<Rightarrow> (schedule_cadence \<Rightarrow> bool) \<Rightarrow> schedule_service \<Rightarrow> bool" for env P where
  init: "serviced env P new_service"
| step: "serviced env P sv \<Longrightarrow> service_enabled sv e \<Longrightarrow> all_cadences P (service_step env e sv) \<Longrightarrow>
    serviced env P (service_step env e sv)"

end
