(* ===== verification/Schedule_Updates.thy ===== *)
theory Schedule_Updates
  imports Schedule_Runs
begin

text \<open>
  What every change of a stored schedule keeps: its identity, the agreement of its status with its times, and
  that a completed schedule stays completed.  The contract is the locale \<open>schedule_change\<close>, interpreted for every
  updater of the service; \<open>schedule_edit\<close> adds that the runs are left alone.
\<close>

section \<open>Well-formed schedules and stores\<close>

definition status_ok :: "stored_schedule \<Rightarrow> bool" where
  "status_ok s \<longleftrightarrow> (case ss_status s of
      ScheduleActive \<Rightarrow> ss_nextRunAt s \<noteq> None \<and> ss_pausedAt s = None
    | SchedulePaused \<Rightarrow> ss_nextRunAt s = None \<and> ss_pausedAt s \<noteq> None
    | ScheduleCompleted \<Rightarrow> ss_nextRunAt s = None \<and> ss_pausedAt s = None)"

definition run_ids :: "stored_schedule \<Rightarrow> string list" where
  "run_ids s = map rn_id (ss_runs s)"

definition schedule_ok :: "schedule_env \<Rightarrow> stored_schedule \<Rightarrow> bool" where
  "schedule_ok env s \<longleftrightarrow> schema_ok env s \<and> status_ok s \<and> distinct (run_ids s)"

definition store_ok :: "schedule_env \<Rightarrow> schedule_store \<Rightarrow> bool" where
  "store_ok env st \<longleftrightarrow> alist_ok st \<and> (\<forall>i s. map_of st i = Some s \<longrightarrow> ss_id s = i \<and> schedule_ok env s)"

lemma store_ok_get: "store_ok env st \<Longrightarrow> map_of st i = Some s \<Longrightarrow> ss_id s = i \<and> schedule_ok env s"
  by (simp add: store_ok_def)

lemma store_ok_write: "store_ok env st \<Longrightarrow> schedule_ok env s \<Longrightarrow> store_ok env (store_write s st)"
  by (auto simp: store_ok_def store_write_def update_conv')

lemma store_ok_delete: "store_ok env st \<Longrightarrow> store_ok env (delete_schedule i st)"
  by (auto simp: store_ok_def delete_schedule_def delete_conv')

text \<open>A schedule after a change: it was created at the same time, stays completed, and a settled run stays as it is.\<close>

definition run_le :: "schedule_run \<Rightarrow> schedule_run \<Rightarrow> bool" where
  "run_le r r' \<longleftrightarrow> rn_id r' = rn_id r \<and> rn_startedAt r' = rn_startedAt r \<and> rn_scheduledFor r' = rn_scheduledFor r \<and>
     (rn_status r \<noteq> RunRunning \<longrightarrow> r' = r)"

definition runs_le :: "schedule_run list \<Rightarrow> schedule_run list \<Rightarrow> bool" where
  "runs_le rs rs' \<longleftrightarrow> list_all2 run_le rs (take (length rs) rs')"

definition schedule_le :: "stored_schedule \<Rightarrow> stored_schedule \<Rightarrow> bool" where
  "schedule_le s s' \<longleftrightarrow> ss_createdAt s' = ss_createdAt s \<and>
     (ss_status s = ScheduleCompleted \<longrightarrow> ss_status s' = ScheduleCompleted) \<and> runs_le (ss_runs s) (ss_runs s')"

lemma run_le_refl [simp]: "run_le r r"
  by (simp add: run_le_def)

lemma runs_le_refl [simp]: "runs_le rs rs"
  by (simp add: runs_le_def list_all2_refl)

lemma runs_le_append [simp]: "runs_le rs (rs @ rs2)"
  by (simp add: runs_le_def list_all2_refl)

lemma runs_le_map: "(\<And>r. r \<in> set rs \<Longrightarrow> run_le r (f r)) \<Longrightarrow> runs_le rs (map f rs)"
  by (simp add: runs_le_def list_all2_conv_all_nth)

lemma run_le_trans: "run_le r r' \<Longrightarrow> run_le r' r'' \<Longrightarrow> run_le r r''"
  by (auto simp: run_le_def)

lemma runs_le_trans:
  assumes "runs_le a b" and "runs_le b c"
  shows "runs_le a c"
proof -
  have l: "length a \<le> length b" "length b \<le> length c"
    using assms by (auto simp: runs_le_def list_all2_conv_all_nth)
  have "run_le (a ! i) (c ! i)" if "i < length a" for i
    using assms l that run_le_trans by (auto simp: runs_le_def list_all2_conv_all_nth)
  then show ?thesis using l by (simp add: runs_le_def list_all2_conv_all_nth)
qed

lemma schedule_le_refl [simp]: "schedule_le s s"
  by (simp add: schedule_le_def)

lemma schedule_le_trans: "schedule_le a b \<Longrightarrow> schedule_le b c \<Longrightarrow> schedule_le a c"
  using runs_le_trans by (auto simp: schedule_le_def)

section \<open>The contract of an updater\<close>

text \<open>\<open>ok\<close> is what a change of the runs relies on; an edit needs nothing.\<close>

locale schedule_change =
  fixes f :: schedule_updater and ok :: "stored_schedule \<Rightarrow> bool"
  assumes keeps_id: "f s = Inr (Some t) \<Longrightarrow> ss_id t = ss_id s"
    and keeps_creation: "f s = Inr (Some t) \<Longrightarrow> ss_createdAt t = ss_createdAt s"
    and keeps_status: "f s = Inr (Some t) \<Longrightarrow> status_ok s \<Longrightarrow> status_ok t"
    and keeps_final: "f s = Inr (Some t) \<Longrightarrow> ss_status s = ScheduleCompleted \<Longrightarrow> ss_status t = ScheduleCompleted"
    and keeps_runs: "f s = Inr (Some t) \<Longrightarrow> ok s \<Longrightarrow> runs_le (ss_runs s) (ss_runs t)"
    and keeps_distinct: "f s = Inr (Some t) \<Longrightarrow> ok s \<Longrightarrow> distinct (run_ids s) \<Longrightarrow> distinct (run_ids t)"
begin

lemma change_ok:
  assumes "f s = Inr (Some t)" and "ok s" and "schedule_ok env s" and "StoredScheduleSchema env t = Inr u"
  shows "schedule_ok env u \<and> ss_id u = ss_id s \<and> schedule_le s u"
proof -
  note r = schema_result [OF assms(4)]
  have "status_ok u = status_ok t" "run_ids u = run_ids t" using r by (simp_all add: status_ok_def run_ids_def split: schedule_status.split)
  then show ?thesis
    using r assms(2,3) keeps_id [OF assms(1)] keeps_creation [OF assms(1)] keeps_status [OF assms(1)]
      keeps_final [OF assms(1)] keeps_runs [OF assms(1)] keeps_distinct [OF assms(1)]
    by (simp add: schedule_ok_def schedule_le_def)
qed

lemma update_result:
  assumes "update_schedule env i f st = Inr (r, st')" and "store_ok env st"
    and "\<And>s. map_of st i = Some s \<Longrightarrow> ok s"
  shows "store_ok env st'" and "\<And>j. j \<noteq> i \<Longrightarrow> map_of st' j = map_of st j"
    and "map_of st i = None \<Longrightarrow> r = None \<and> st' = st"
    and "\<And>s. map_of st i = Some s \<Longrightarrow> \<exists>u. r = Some u \<and> map_of st' i = Some u \<and> schedule_le s u \<and>
      (f s = Inr None \<and> u = s \<and> st' = st \<or> (\<exists>t. f s = Inr (Some t) \<and> StoredScheduleSchema env t = Inr u))"
proof -
  have *: "map_of st i = None \<and> r = None \<and> st' = st \<or>
      (\<exists>s. map_of st i = Some s \<and> f s = Inr None \<and> r = Some s \<and> st' = st) \<or>
      (\<exists>s t u. map_of st i = Some s \<and> f s = Inr (Some t) \<and> StoredScheduleSchema env t = Inr u \<and>
         r = Some u \<and> st' = store_write u st)"
  proof (cases "map_of st i")
    case (Some s)
    then show ?thesis using assms(1)
      by (cases "f s") (auto simp: update_schedule_def bind_sum_Inr split: option.splits if_splits)
  qed (use assms(1) in \<open>simp add: update_schedule_def\<close>)
  have c: "schedule_ok env u \<and> ss_id u = i \<and> schedule_le s u"
    if "map_of st i = Some s" "f s = Inr (Some t)" "StoredScheduleSchema env t = Inr u" for s t u
    using change_ok [OF that(2) assms(3) _ that(3)] that(1) store_ok_get [OF assms(2) that(1)] by simp
  show "store_ok env st'" using * c assms(2) by (auto intro: store_ok_write)
  show "map_of st' j = map_of st j" if "j \<noteq> i" for j using * c that by fastforce
  show "r = None \<and> st' = st" if "map_of st i = None" using * that by auto
  show "\<exists>u. r = Some u \<and> map_of st' i = Some u \<and> schedule_le s u \<and>
      (f s = Inr None \<and> u = s \<and> st' = st \<or> (\<exists>t. f s = Inr (Some t) \<and> StoredScheduleSchema env t = Inr u))"
    if "map_of st i = Some s" for s
    using * that
  proof (elim disjE exE conjE)
    fix s' t u assume *: "map_of st i = Some s'" "f s' = Inr (Some t)" "StoredScheduleSchema env t = Inr u"
      "r = Some u" "st' = store_write u st"
    then show ?thesis using c [OF *(1-3)] that by auto
  qed auto
qed

end

locale schedule_edit =
  fixes f :: schedule_updater
  assumes edit_id: "f s = Inr (Some t) \<Longrightarrow> ss_id t = ss_id s"
    and edit_creation: "f s = Inr (Some t) \<Longrightarrow> ss_createdAt t = ss_createdAt s"
    and edit_status: "f s = Inr (Some t) \<Longrightarrow> status_ok s \<Longrightarrow> status_ok t"
    and edit_final: "f s = Inr (Some t) \<Longrightarrow> ss_status s = ScheduleCompleted \<Longrightarrow> ss_status t = ScheduleCompleted"
    and edit_runs: "f s = Inr (Some t) \<Longrightarrow> ss_runs t = ss_runs s"

sublocale schedule_edit \<subseteq> change: schedule_change f "\<lambda>s. True"
  by unfold_locales (auto simp: edit_id edit_creation edit_status edit_final edit_runs run_ids_def)

section \<open>The updaters\<close>

interpretation pausing: schedule_edit "pause_updater now" for now
  by unfold_locales (auto simp: pause_updater_def status_ok_def split: schedule_status.splits)

interpretation resuming: schedule_edit "resume_updater env now" for env now
  by unfold_locales (auto simp: resume_updater_def status_ok_def bind_sum_Inr split: schedule_status.splits)

lemma change_kept:
  "change_prompt input s = Inr t \<Longrightarrow> ss_id t = ss_id s \<and> ss_createdAt t = ss_createdAt s \<and>
     ss_status t = ss_status s \<and> ss_runs t = ss_runs s \<and> ss_nextRunAt t = ss_nextRunAt s \<and> ss_pausedAt t = ss_pausedAt s"
  "ss_id (change_name input s) = ss_id s" "ss_createdAt (change_name input s) = ss_createdAt s"
  "ss_status (change_name input s) = ss_status s" "ss_runs (change_name input s) = ss_runs s"
  "ss_nextRunAt (change_name input s) = ss_nextRunAt s" "ss_pausedAt (change_name input s) = ss_pausedAt s"
  "change_config input s = Inr t \<Longrightarrow> ss_id t = ss_id s \<and> ss_createdAt t = ss_createdAt s \<and>
     ss_status t = ss_status s \<and> ss_runs t = ss_runs s \<and> ss_nextRunAt t = ss_nextRunAt s \<and> ss_pausedAt t = ss_pausedAt s"
  "change_limits input s = Inr t \<Longrightarrow> ss_id t = ss_id s \<and> ss_createdAt t = ss_createdAt s \<and>
     ss_status t = ss_status s \<and> ss_runs t = ss_runs s \<and> ss_nextRunAt t = ss_nextRunAt s \<and> ss_pausedAt t = ss_pausedAt s"
  by (auto simp: change_prompt_def change_name_def change_config_def change_limits_def bind_sum_Inr
      split: option.splits schedule_target.splits)

lemma change_cadence_kept:
  "change_cadence env input now s = Inr t \<Longrightarrow> ss_id t = ss_id s \<and> ss_createdAt t = ss_createdAt s \<and>
     ss_status t = ss_status s \<and> ss_runs t = ss_runs s \<and> ss_pausedAt t = ss_pausedAt s \<and>
     (ss_nextRunAt t = ss_nextRunAt s \<or> ss_status s = ScheduleActive \<and> ss_nextRunAt t \<noteq> None \<or>
      ss_status s \<noteq> ScheduleActive \<and> ss_nextRunAt t = None)"
  by (auto simp: change_cadence_def bind_sum_Inr Let_def split: option.splits if_splits)

lemma update_updater_kept:
  assumes "update_updater env input now s = Inr (Some t)"
  shows "ss_id t = ss_id s \<and> ss_createdAt t = ss_createdAt s \<and> ss_status t = ss_status s \<and> ss_runs t = ss_runs s \<and>
    ss_pausedAt t = ss_pausedAt s \<and>
    (ss_nextRunAt t = ss_nextRunAt s \<or> ss_status s = ScheduleActive \<and> ss_nextRunAt t \<noteq> None \<or>
      ss_status s \<noteq> ScheduleActive \<and> ss_nextRunAt t = None)"
proof -
  obtain s1 s2 s3 s4 where s1: "change_prompt input s = Inr s1"
    and s2: "change_cadence env input now (change_name input s1) = Inr s2"
    and s3: "change_config input s2 = Inr s3" and s4: "change_limits input s3 = Inr s4"
    and t: "t = s4\<lparr>ss_updatedAt := now\<rparr>"
    using assms by (auto simp: update_updater_def bind_sum_Inr)
  show ?thesis
    using change_kept(1) [OF s1] change_cadence_kept [OF s2] change_kept(8) [OF s3] change_kept(9) [OF s4]
    unfolding t change_kept(2-7) by simp
qed

interpretation changing: schedule_edit "update_updater env input now" for env input now
  by unfold_locales (auto simp: status_ok_def dest: update_updater_kept split: schedule_status.splits)

lemma complete_simps [simp]:
  "ss_id (completeSchedule s now) = ss_id s" "ss_createdAt (completeSchedule s now) = ss_createdAt s"
  "ss_status (completeSchedule s now) = ScheduleCompleted" "ss_runs (completeSchedule s now) = ss_runs s"
  "ss_nextRunAt (completeSchedule s now) = None" "ss_pausedAt (completeSchedule s now) = None" "ss_cadence (completeSchedule s now) = ss_cadence s"
  "run_ids (completeSchedule s now) = run_ids s"
  by (simp_all add: completeSchedule_def run_ids_def)

interpretation completing_agent: schedule_edit "complete_for_agent_updater agentId now" for agentId now
  by unfold_locales (auto simp: complete_for_agent_updater_def status_ok_def split: if_splits)

interpretation completing_due: schedule_edit "complete_due_updater env now" for env now
  by unfold_locales (auto simp: complete_due_updater_def status_ok_def split: if_splits)

interpretation sweeping: schedule_edit "sweep_updater present now" for present now
  by unfold_locales (auto simp: sweep_updater_def status_ok_def split: schedule_target.splits if_splits)

interpretation appending: schedule_change "append_updater r" "\<lambda>s. rn_id r \<notin> set (run_ids s)" for r
  by unfold_locales (auto simp: append_updater_def status_ok_def run_ids_def cong: schedule_status.case_cong)

lemma workspace_id: "rn_id (if P then r\<lparr>rn_workspaceId := w, rn_agentId := a\<rparr> else r) = rn_id r"
  by simp

interpretation workspaces: schedule_change "workspace_updater runId w agentId now" "\<lambda>s. True" for runId w agentId now
  by unfold_locales (auto simp: workspace_updater_def status_ok_def run_ids_def run_le_def o_def workspace_id
      intro!: runs_le_map cong: schedule_status.case_cong)

lemma finished_run_id [simp]: "rn_id (finished_run p now r) = rn_id r"
  by (simp add: finished_run_def)

interpretation finishing: schedule_change "finish_updater env p now"
    "\<lambda>s. \<forall>r \<in> set (ss_runs s). rn_id r = fp_runId p \<longrightarrow> rn_status r = RunRunning" for env p now
proof unfold_locales
  note d = finish_updater_def Let_def bind_sum_Inr
  fix s t assume f: "finish_updater env p now s = Inr (Some t)"
  have r: "ss_runs t = map (finished_run p now) (ss_runs s)" and "ss_id t = ss_id s" "ss_createdAt t = ss_createdAt s"
    using f by (auto simp: d split: if_splits)
  then show "ss_id t = ss_id s" "ss_createdAt t = ss_createdAt s" by simp_all
  show "status_ok t" if "status_ok s"
    using f that by (auto simp: d status_ok_def split: if_splits schedule_status.splits)
  show "ss_status t = ScheduleCompleted" if "ss_status s = ScheduleCompleted"
    using f that by (auto simp: d split: if_splits)
  show "runs_le (ss_runs s) (ss_runs t)"
    if "\<forall>r \<in> set (ss_runs s). rn_id r = fp_runId p \<longrightarrow> rn_status r = RunRunning"
    unfolding r by (rule runs_le_map) (use that in \<open>auto simp: run_le_def finished_run_def\<close>)
  show "distinct (run_ids t)" if "distinct (run_ids s)"
    using that by (simp add: run_ids_def r o_def)
qed

lemma close_interrupted_cases:
  obtains "\<forall>r\<in>set rs. rn_status r \<noteq> RunRunning" "close_interrupted now rs = rs"
  | i where "i < length rs" "rn_status (rs ! i) = RunRunning" "\<forall>j<i. rn_status (rs ! j) \<noteq> RunRunning"
      "close_interrupted now rs = rs[i := interrupted_run now (rs ! i)]"
proof (cases "find_index (\<lambda>r. rn_status r = RunRunning) rs")
  case None
  then have "\<forall>r\<in>set rs. rn_status r \<noteq> RunRunning" by (simp add: find_index_None)
  with None show ?thesis using that(1) by (simp add: close_interrupted_def)
next
  case (Some i)
  then show ?thesis using that(2) [of i] find_index_Some [OF Some] by (simp add: close_interrupted_def)
qed

lemma close_interrupted_runs:
  "runs_le rs (close_interrupted now rs)" "map rn_id (close_interrupted now rs) = map rn_id rs"
proof -
  have "runs_le rs (close_interrupted now rs) \<and> map rn_id (close_interrupted now rs) = map rn_id rs"
    by (rule close_interrupted_cases [of rs now])
      (auto simp: runs_le_def list_all2_conv_all_nth nth_list_update run_le_def interrupted_run_def map_update
        intro!: list_update_same_conv [THEN iffD2])
  then show "runs_le rs (close_interrupted now rs)" "map rn_id (close_interrupted now rs) = map rn_id rs" by simp_all
qed

interpretation recovering: schedule_change "recover_updater env now" "\<lambda>s. True" for env now
proof unfold_locales
  fix s t assume f: "recover_updater env now s = Inr (Some t)"
  have r: "ss_runs t = close_interrupted now (ss_runs s)" and k: "ss_id t = ss_id s" "ss_createdAt t = ss_createdAt s"
      "ss_status t = ss_status s" "ss_pausedAt t = ss_pausedAt s"
      "ss_nextRunAt t = ss_nextRunAt s \<or> ss_nextRunAt t \<noteq> None \<and> ss_status s = ScheduleActive"
    using f by (auto simp: recover_updater_def Let_def bind_sum_Inr split: if_splits schedule_status.splits option.splits)
  show "ss_id t = ss_id s" "ss_createdAt t = ss_createdAt s" by fact+
  show "status_ok t" if "status_ok s" using that k by (auto simp: status_ok_def split: schedule_status.splits)
  show "ss_status t = ScheduleCompleted" if "ss_status s = ScheduleCompleted" using that k by simp
  show "runs_le (ss_runs s) (ss_runs t)" by (simp add: r close_interrupted_runs)
  show "distinct (run_ids t)" if "distinct (run_ids s)" using that by (simp add: run_ids_def r close_interrupted_runs)
qed

end
