(* ===== verification/Schedule_Safety.thy ===== *)
theory Schedule_Safety
  imports Schedule_Updates
begin

text \<open>
  The states the schedule service can reach.  \<open>service_ok\<close> is the invariant of every interleaving: consistent
  schedules, and at most one run in flight per schedule.  \<open>settled_ok\<close> adds, as long as the next run of every
  cadence can be computed, that a run marked as running is in flight.
\<close>

section \<open>Changes of the store\<close>

definition store_upd :: "schedule_store \<Rightarrow> schedule_store \<Rightarrow> bool" where
  "store_upd st st' \<longleftrightarrow> (\<forall>i. rel_option schedule_le (map_of st i) (map_of st' i))"

lemma store_upd_refl [simp]: "store_upd st st"
  by (simp add: store_upd_def option.rel_refl)

lemma rel_option_trans: "rel_option schedule_le x y \<Longrightarrow> rel_option schedule_le y z \<Longrightarrow> rel_option schedule_le x z"
  by (cases x; cases y; cases z) (auto intro: schedule_le_trans)

lemma store_upd_trans: "store_upd a b \<Longrightarrow> store_upd b c \<Longrightarrow> store_upd a c"
  unfolding store_upd_def by (blast intro: rel_option_trans)

text \<open>No run is new and none changes its status.\<close>

definition quiet_runs :: "schedule_store \<Rightarrow> schedule_store \<Rightarrow> bool" where
  "quiet_runs st st' \<longleftrightarrow> (\<forall>j. \<forall>r'\<in>set (runs_at st' j). \<exists>r\<in>set (runs_at st j).
     rn_id r = rn_id r' \<and> rn_status r = rn_status r')"

lemma quiet_runs_refl [simp]: "quiet_runs st st"
  by (auto simp: quiet_runs_def)

lemma quiet_runs_trans: "quiet_runs a b \<Longrightarrow> quiet_runs b c \<Longrightarrow> quiet_runs a c"
  unfolding quiet_runs_def by metis

definition history_kept :: "schedule_store \<Rightarrow> schedule_store \<Rightarrow> bool" where
  "history_kept st st' \<longleftrightarrow> (\<forall>i s s'. map_of st i = Some s \<longrightarrow> map_of st' i = Some s' \<longrightarrow> schedule_le s s')"

lemma upd_history: "store_upd st st' \<Longrightarrow> history_kept st st'"
  unfolding store_upd_def history_kept_def by (metis option.rel_inject(2))

context schedule_change begin

lemma update_upd:
  assumes "update_schedule env i f st = Inr (r, st')" and "store_ok env st" and "\<And>s. map_of st i = Some s \<Longrightarrow> ok s"
  shows "store_ok env st' \<and> store_upd st st'"
proof -
  have "rel_option schedule_le (map_of st j) (map_of st' j)" for j
  proof (cases "j = i")
    case True
    then show ?thesis using update_result(3,4) [OF assms] by (cases "map_of st i") auto
  qed (simp add: update_result(2) [OF assms] option.rel_refl)
  then show ?thesis using update_result(1) [OF assms] by (simp add: store_upd_def)
qed

end

context schedule_edit begin

lemma edit_result:
  assumes "update_schedule env i f st = Inr (r, st')" and "store_ok env st"
  shows "store_ok env st' \<and> store_upd st st' \<and> quiet_runs st st'"
proof -
  have "runs_at st' j = runs_at st j" for j
  proof (cases "j = i")
    case True
    show ?thesis
    proof (cases "map_of st i")
      case (Some s)
      from change.update_result(4) [OF assms TrueI this] obtain u where "map_of st' i = Some u"
        "u = s \<or> (\<exists>t. f s = Inr (Some t) \<and> StoredScheduleSchema env t = Inr u)" by auto
      then show ?thesis using True Some edit_runs schema_result by (auto simp: runs_at_def)
    qed (use change.update_result(3) [OF assms TrueI] True in simp)
  qed (use change.update_result(2) [OF assms TrueI] in \<open>simp add: runs_at_def\<close>)
  then show ?thesis using change.update_upd [OF assms TrueI] by (auto simp: quiet_runs_def)
qed

end

context schedule_change begin

lemma update_all_upd:
  assumes "update_all env f is' st = (es, st')" and "store_ok env st" and "\<And>s. ok s"
  shows "store_ok env st' \<and> store_upd st st' \<and> (\<forall>j. j \<notin> set is' \<longrightarrow> map_of st' j = map_of st j)"
  using assms(1,2)
proof (induction is' arbitrary: st es)
  case (Cons i is')
  show ?case
  proof (cases "update_schedule env i f st")
    case (Inl e)
    then show ?thesis using Cons by (auto split: prod.splits)
  next
    case (Inr p)
    then obtain r st1 where u: "update_schedule env i f st = Inr (r, st1)" by (cases p) simp
    note 1 = update_upd [OF u Cons.prems(2)] update_result(2) [OF u Cons.prems(2)]
    have a: "update_all env f is' st1 = (es, st')" using Cons.prems(1) u by simp
    have "store_ok env st' \<and> store_upd st1 st' \<and> (\<forall>j. j \<notin> set is' \<longrightarrow> map_of st' j = map_of st1 j)"
      using Cons.IH [OF a] 1 assms(3) by blast
    then show ?thesis using 1 assms(3) store_upd_trans by auto
  qed
qed simp

end

section \<open>Creating\<close>

definition replace_matched :: "schedule_env \<Rightarrow> create_input \<Rightarrow> string \<Rightarrow> string \<Rightarrow> int \<Rightarrow> schedule_updater" where
  "replace_matched env input name prompt now s =
     (if matchesNameAndTarget s name (ci_target input)
      then bind_sum (replace_updater env input name prompt now s) (\<lambda>t. Inr (Some t)) else Inr None)"

interpretation replacing: schedule_edit "replace_matched env input name prompt now" for env input name prompt now
  by unfold_locales (auto simp: replace_matched_def replace_updater_def status_ok_def matchesNameAndTarget_def
      bind_sum_Inr Let_def split: if_splits)

lemma updateMatched_update:
  assumes "updateMatchedSchedule env i name (ci_target input) (replace_updater env input name prompt now) st = Inr (r, st')"
  shows "\<exists>r'. update_schedule env i (replace_matched env input name prompt now) st = Inr (r', st')"
proof (cases "map_of st i")
  case (Some s)
  then show ?thesis using assms
    by (auto simp: updateMatchedSchedule_def update_schedule_def replace_matched_def bind_sum_Inr split: if_splits)
qed (use assms in \<open>simp add: updateMatchedSchedule_def update_schedule_def\<close>)

lemma built_record:
  assumes "buildScheduleRecord env input name prompt target now = Inr s"
  shows "ss_runs s = [] \<and> status_ok s \<and> ss_name s = name \<and> ss_target s = target"
  using assms by (auto simp: buildScheduleRecord_def bind_sum_Inr status_ok_def)

text \<open>A new file under a fresh id.\<close>

lemma written_new:
  assumes "store_ok env st" and "map_of st i = None" and "ss_runs s = []" and "status_ok s"
    and "StoredScheduleSchema env (s\<lparr>ss_id := i\<rparr>) = Inr c"
  shows "store_ok env (store_write c st) \<and> history_kept st (store_write c st) \<and> quiet_runs st (store_write c st)"
proof -
  note r = schema_result [OF assms(5)]
  have i: "ss_id c = i" "ss_runs c = []" using r assms(3) by simp_all
  have "status_ok c" using r assms(4) by (simp add: status_ok_def split: schedule_status.splits)
  then have "schedule_ok env c" using r assms(3) by (simp add: schedule_ok_def run_ids_def)
  then have "store_ok env (store_write c st)" using assms(1) by (rule store_ok_write [rotated])
  then show ?thesis using assms(2) i by (auto simp: history_kept_def quiet_runs_def runs_at_def)
qed

lemma create_result:
  assumes "create_service env input i now st = Inr (s, st')" and "store_ok env st" and "map_of st i = None"
  shows "store_ok env st' \<and> history_kept st st' \<and> quiet_runs st st'"
  using assms(1) written_new [OF assms(2,3)] built_record
  by (fastforce simp: create_service_def create_schedule_def bind_sum_Inr)

lemma createOrReplace_result:
  assumes "createOrReplace_found env input found i now st = Inr (r, st')" and "store_ok env st" and "map_of st i = None"
  shows "store_ok env st' \<and> history_kept st st' \<and> quiet_runs st st'"
proof (cases "trimOptionalName (ci_name input)")
  case None
  then show ?thesis using assms(1) written_new [OF assms(2,3)] built_record
    by (fastforce simp: createOrReplace_found_def create_schedule_def bind_sum_Inr)
next
  case (Some name)
  show ?thesis
  proof (cases found)
    case None
    with Some show ?thesis using assms(1) written_new [OF assms(2,3)] built_record
      by (fastforce simp: createOrReplace_found_def upsert_found_def bind_sum_Inr split: if_splits)
  next
    case (Some j)
    with \<open>trimOptionalName (ci_name input) = Some name\<close> obtain prompt where
      "updateMatchedSchedule env j name (ci_target input) (replace_updater env input name prompt now) st = Inr (r, st')"
      using assms(1) by (auto simp: createOrReplace_found_def upsert_found_def bind_sum_Inr)
    from updateMatched_update [OF this] replacing.edit_result [OF _ assms(2)] upd_history show ?thesis by blast
  qed
qed

section \<open>Runs in flight\<close>

abbreviation flight_id :: "flight \<Rightarrow> string" where
  "flight_id f \<equiv> rn_id (fl_run f)"

definition flight_ok :: "schedule_service \<Rightarrow> flight \<Rightarrow> bool" where
  "flight_ok sv f \<longleftrightarrow> fl_schedule f \<in> sv_runningIds sv \<and> rn_status (fl_run f) = RunRunning \<and>
     (if fl_appended f
      then \<forall>r\<in>set (runs_at (sv_store sv) (fl_schedule f)). rn_id r = flight_id f \<longrightarrow> rn_status r = RunRunning
      else \<forall>j. \<forall>r\<in>set (runs_at (sv_store sv) j). rn_id r \<noteq> flight_id f)"

definition service_ok :: "schedule_env \<Rightarrow> schedule_service \<Rightarrow> bool" where
  "service_ok env sv \<longleftrightarrow> store_ok env (sv_store sv) \<and> distinct (map fl_schedule (sv_flights sv)) \<and>
     distinct (map flight_id (sv_flights sv)) \<and> (\<forall>f\<in>set (sv_flights sv). flight_ok sv f)"

lemma service_ok_store: "service_ok env sv \<Longrightarrow> store_ok env (sv_store sv)"
  by (simp add: service_ok_def)

lemma flight_unique:
  assumes "service_ok env sv" and "f \<in> set (sv_flights sv)" and "g \<in> set (sv_flights sv)" and "flight_id f = flight_id g"
  shows "f = g"
  using assms by (auto simp: service_ok_def distinct_map inj_on_def)

lemma flight_alone:
  assumes "service_ok env sv" and "f \<in> set (sv_flights sv)" and "g \<in> set (sv_flights sv)" and "fl_schedule f = fl_schedule g"
  shows "f = g"
  using assms by (auto simp: service_ok_def distinct_map inj_on_def)

lemma find_flight_Some: "find_flight runId sv = Some f \<Longrightarrow> f \<in> set (sv_flights sv) \<and> flight_id f = runId"
  by (auto simp: find_flight_def find_Some_iff)

lemma in_flight_obtain:
  assumes "in_flight runId a sv"
  obtains f where "find_flight runId sv = Some f" "f \<in> set (sv_flights sv)" "flight_id f = runId" "fl_appended f = a"
  using assms find_flight_Some by (auto simp: in_flight_def split: option.splits)

lemma history_refl [simp]: "history_kept st st"
  by (auto simp: history_kept_def)

text \<open>The store changes and no run starts or ends.\<close>

lemma flight_ok_quiet:
  assumes "flight_ok sv f" and "quiet_runs (sv_store sv) (sv_store sv')" and "sv_runningIds sv' = sv_runningIds sv"
  shows "flight_ok sv' f"
  using assms unfolding flight_ok_def quiet_runs_def by (smt (verit))

lemma service_ok_quiet:
  assumes "service_ok env sv" and "store_ok env (sv_store sv')" and "quiet_runs (sv_store sv) (sv_store sv')"
    and "sv_runningIds sv' = sv_runningIds sv" and "sv_flights sv' = sv_flights sv"
  shows "service_ok env sv'"
  using assms flight_ok_quiet [OF _ assms(3,4)] by (simp add: service_ok_def)

text \<open>What most steps do: the runs in flight and those of the store go on.\<close>

definition calm_step :: "schedule_service \<Rightarrow> schedule_service \<Rightarrow> bool" where
  "calm_step sv sv' \<longleftrightarrow> quiet_runs (sv_store sv) (sv_store sv') \<and> set (sv_flights sv) \<subseteq> set (sv_flights sv') \<and>
     sv_up sv' = sv_up sv"

lemma calm_step_refl [simp]: "calm_step sv sv"
  by (simp add: calm_step_def)

lemma stored_ok:
  assumes "service_ok env sv"
    and "\<And>r st. x = Inr (r, st) \<Longrightarrow> store_ok env st \<and> history_kept (sv_store sv) st \<and> quiet_runs (sv_store sv) st"
  shows "service_ok env (stored x sv) \<and> history_kept (sv_store sv) (sv_store (stored x sv)) \<and> calm_step sv (stored x sv)"
  using assms by (auto simp: stored_def calm_step_def split: sum.split intro: service_ok_quiet)

lemma continue_tick_simps [simp]:
  "sv_store (continue_tick t sv) = sv_store sv" "sv_flights (continue_tick t sv) = sv_flights sv"
  "sv_runningIds (continue_tick t sv) = sv_runningIds sv" "sv_up (continue_tick t sv) = sv_up sv"
  by (simp_all add: continue_tick_def split: option.split)

lemma continue_tick_ok [simp]: "service_ok env (continue_tick t sv) = service_ok env sv"
  by (simp add: service_ok_def flight_ok_def)

lemma ticks_ok [simp]: "service_ok env (sv\<lparr>sv_ticks := ts\<rparr>) = service_ok env sv"
  by (simp add: service_ok_def flight_ok_def)

text \<open>A run starts.\<close>

lemma fresh_run_at: "fresh_run runId sv \<Longrightarrow> r \<in> set (runs_at (sv_store sv) j) \<Longrightarrow> rn_id r \<noteq> runId"
  by (cases "map_of (sv_store sv) j") (fastforce simp: fresh_run_def runs_at_def list_all_iff dest: map_of_SomeD)+

lemma begin_run_ok:
  assumes "service_ok env sv" and "fresh_run runId sv" and "ss_id s \<notin> sv_runningIds sv"
  shows "service_ok env (begin_run s now manual runId rest sv)"
proof -
  let ?sv = "begin_run s now manual runId rest sv"
  have "flight_ok ?sv f" if "f \<in> set (sv_flights sv)" for f
    using assms(1) that by (auto simp: service_ok_def flight_ok_def begin_run_def)
  moreover have "\<And>f. f \<in> set (sv_flights sv) \<Longrightarrow> fl_schedule f \<noteq> ss_id s \<and> flight_id f \<noteq> runId"
    using assms by (auto simp: service_ok_def flight_ok_def fresh_run_def list_all_iff)
  ultimately show ?thesis using assms(1) fresh_run_at [OF assms(2)]
    by (fastforce simp: service_ok_def begin_run_def flight_ok_def)
qed

lemma begin_run_simps [simp]:
  "sv_store (begin_run s now manual runId rest sv) = sv_store sv" "sv_up (begin_run s now manual runId rest sv) = sv_up sv"
  "f \<in> set (sv_flights sv) \<Longrightarrow> f \<in> set (sv_flights (begin_run s now manual runId rest sv))"
  by (auto simp: begin_run_def)

text \<open>A flight is given up.\<close>

lemma drop_flight_simps [simp]:
  "sv_store (drop_flight i sv) = sv_store sv" "sv_runningIds (drop_flight i sv) = sv_runningIds sv"
  "sv_up (drop_flight i sv) = sv_up sv"
  "set (sv_flights (drop_flight i sv)) = {f \<in> set (sv_flights sv). flight_id f \<noteq> i}"
  by (auto simp: drop_flight_def)

lemma drop_flight_distinct:
  "distinct (map h (sv_flights sv)) \<Longrightarrow> distinct (map h (sv_flights (drop_flight i sv)))"
  by (auto simp: drop_flight_def distinct_map_filter)

lemma drop_flight_ok: "service_ok env sv \<Longrightarrow> service_ok env (drop_flight i sv)"
  by (auto simp: service_ok_def flight_ok_def drop_flight_distinct)

text \<open>The run is appended to its schedule.\<close>

lemma append_run_cases:
  assumes "service_ok env sv" and "find_flight runId sv = Some f" and "fl_appended f = False"
  obtains "append_run env runId sv = drop_flight runId sv"
  | st where "append_run env runId sv = sv\<lparr>sv_store := st, sv_flights :=
          map (\<lambda>g. if flight_id g = runId then g\<lparr>fl_appended := True\<rparr> else g) (sv_flights sv)\<rparr>"
      "store_ok env st" "store_upd (sv_store sv) st"
      "runs_at st (fl_schedule f) = runs_at (sv_store sv) (fl_schedule f) @ [fl_run f]"
      "\<And>j. j \<noteq> fl_schedule f \<Longrightarrow> runs_at st j = runs_at (sv_store sv) j"
proof (cases "update_schedule env (fl_schedule f) (append_updater (fl_run f)) (sv_store sv)")
  case (Inr p)
  then obtain r st where u: "update_schedule env (fl_schedule f) (append_updater (fl_run f)) (sv_store sv) = Inr (r, st)"
    by (cases p) simp
  note so = service_ok_store [OF assms(1)]
  have "flight_ok sv f" using assms(1) find_flight_Some [OF assms(2)] by (auto simp: service_ok_def)
  then have new: "rn_id (fl_run f) \<notin> set (run_ids s)" if "map_of (sv_store sv) (fl_schedule f) = Some s" for s
    using that assms(3) unfolding flight_ok_def run_ids_def by (auto dest!: spec [of _ "fl_schedule f"] simp: runs_at_def)
  note res = appending.update_result [OF u so new]
  show ?thesis
  proof (cases "map_of (sv_store sv) (fl_schedule f)")
    case None
    then show ?thesis using that(1) res(3) u assms(2) by (simp add: append_run_def)
  next
    case (Some s)
    obtain w where w: "r = Some w" "map_of st (fl_schedule f) = Some w" "ss_runs w = ss_runs s @ [fl_run f]"
      using res(4) [OF _ Some] by (auto simp: append_updater_def dest: schema_result)
    then show ?thesis using that(2) [of st] res(1,2) appending.update_upd [OF u so new] Some u assms(2)
      by (simp add: append_run_def runs_at_def)
  qed
qed (use that(1) assms(2) in \<open>simp add: append_run_def\<close>)

lemma append_run_ok:
  assumes "service_ok env sv" and "find_flight runId sv = Some f" and "fl_appended f = False"
  shows "service_ok env (append_run env runId sv) \<and> history_kept (sv_store sv) (sv_store (append_run env runId sv))"
proof (rule append_run_cases [OF assms])
  assume "append_run env runId sv = drop_flight runId sv"
  then show ?thesis using drop_flight_ok [OF assms(1)] by simp
next
  note ff = find_flight_Some [OF assms(2)]
  fix st
  let ?mark = "\<lambda>g. if flight_id g = runId then g\<lparr>fl_appended := True\<rparr> else g"
  assume e: "append_run env runId sv = sv\<lparr>sv_store := st, sv_flights := map ?mark (sv_flights sv)\<rparr>"
    and st: "store_ok env st" "store_upd (sv_store sv) st"
    and own: "runs_at st (fl_schedule f) = runs_at (sv_store sv) (fl_schedule f) @ [fl_run f]"
    and other: "\<And>j. j \<noteq> fl_schedule f \<Longrightarrow> runs_at st j = runs_at (sv_store sv) j"
  let ?A = "append_run env runId sv"
  have A: "sv_store ?A = st" "sv_flights ?A = map ?mark (sv_flights sv)" "sv_runningIds ?A = sv_runningIds sv"
    by (simp_all add: e)
  have okf: "flight_ok sv f" using assms(1) ff by (auto simp: service_ok_def)
  have "flight_ok ?A (?mark g)" if g: "g \<in> set (sv_flights sv)" for g
  proof (cases "flight_id g = runId")
    case True
    then have "g = f" using flight_unique [OF assms(1) g] ff by simp
    then show ?thesis using okf own True assms(3) by (auto simp: flight_ok_def A)
  next
    case False
    then have "g \<noteq> f" using ff by auto
    then have "fl_schedule g \<noteq> fl_schedule f" using flight_alone [OF assms(1) g] ff by auto
    moreover have "flight_ok sv g" using assms(1) g by (auto simp: service_ok_def)
    moreover have "set (runs_at st j) \<subseteq> insert (fl_run f) (set (runs_at (sv_store sv) j))" for j
      using own other by (cases "j = fl_schedule f") auto
    ultimately show ?thesis using False ff other
      by (cases "fl_appended g") (auto simp: flight_ok_def A, metis insertE subsetD)
  qed
  then have "\<forall>g\<in>set (sv_flights ?A). flight_ok ?A g" unfolding A(2) list.set_map by blast
  moreover have "map fl_schedule (sv_flights ?A) = map fl_schedule (sv_flights sv)"
    "map flight_id (sv_flights ?A) = map flight_id (sv_flights sv)" unfolding A(2) by simp_all
  ultimately show ?thesis using assms(1) st upd_history unfolding service_ok_def A(1) by metis
qed

text \<open>The run is settled.\<close>

lemma finish_result:
  assumes "finish_run env i p now st = Inr st'" and "store_ok env st"
    and running: "\<forall>r\<in>set (runs_at st i). rn_id r = fp_runId p \<longrightarrow> rn_status r = RunRunning"
  shows "store_ok env st' \<and> store_upd st st' \<and> (\<forall>j. j \<noteq> i \<longrightarrow> runs_at st' j = runs_at st j) \<and>
    runs_at st' i = map (finished_run p now) (runs_at st i)"
proof -
  obtain w where u: "update_schedule env i (finish_updater env p now) st = Inr (Some w, st')"
    using assms(1) by (auto simp: finish_run_def bind_sum_Inr split: option.splits)
  have ok: "\<forall>r \<in> set (ss_runs s). rn_id r = fp_runId p \<longrightarrow> rn_status r = RunRunning" if "map_of st i = Some s" for s
    using running that by (simp add: runs_at_def)
  note res = finishing.update_result [OF u assms(2)]
  obtain s where s: "map_of st i = Some s" using res(3) ok by fastforce
  have f: "finish_updater env p now s = Inr (Some t) \<Longrightarrow> ss_runs t = map (finished_run p now) (ss_runs s)" for t
    by (auto simp: finish_updater_def Let_def bind_sum_Inr split: if_splits)
  have "\<exists>t u. map_of st' i = Some u \<and> finish_updater env p now s = Inr (Some t) \<and> StoredScheduleSchema env t = Inr u"
    using res(4) [OF ok s] by (auto simp: finish_updater_def Let_def bind_sum_def split: if_splits sum.splits)
  then have "runs_at st' i = map (finished_run p now) (runs_at st i)"
    using f s schema_result by (fastforce simp: runs_at_def)
  moreover have "runs_at st' j = runs_at st j" if "j \<noteq> i" for j using res(2) [OF ok] that by (simp add: runs_at_def)
  ultimately show ?thesis using finishing.update_upd [OF u assms(2) ok] by simp
qed

lemma settle_store_obtain:
  assumes "settle_store env f outcome now st = Inr st'"
  obtains p where "finish_run env (fl_schedule f) p now st = Inr st'" "fp_runId p = flight_id f" "fp_status p \<noteq> RunRunning"
  using assms that [of "success_params f a b" for a b] that [of "failure_params f e g" for e g]
  by (auto simp: settle_store_def success_params_def failure_params_def split: run_outcome.splits sum.splits)

lemma settle_flight_cases:
  assumes "service_ok env sv" and "find_flight runId sv = Some f" and "fl_appended f = True"
  obtains e where "settle_store env f outcome now (sv_store sv) = Inl e"
      "settle_flight env runId outcome now sv = (drop_flight runId sv)\<lparr>sv_runningIds := sv_runningIds sv - {fl_schedule f}\<rparr>"
  | st p where "settle_flight env runId outcome now sv =
        continue_tick (fl_rest f) ((drop_flight runId sv)\<lparr>sv_runningIds := sv_runningIds sv - {fl_schedule f}, sv_store := st\<rparr>)"
      "store_ok env st" "store_upd (sv_store sv) st" "fp_status p \<noteq> RunRunning" "fp_runId p = runId"
      "\<And>j. j \<noteq> fl_schedule f \<Longrightarrow> runs_at st j = runs_at (sv_store sv) j"
      "runs_at st (fl_schedule f) = map (finished_run p now) (runs_at (sv_store sv) (fl_schedule f))"
proof (cases "settle_store env f outcome now (sv_store sv)")
  case (Inl e)
  then show ?thesis using that(1) assms(2) by (simp add: settle_flight_def)
next
  case (Inr st)
  then obtain p where p: "finish_run env (fl_schedule f) p now (sv_store sv) = Inr st" "fp_runId p = flight_id f"
      "fp_status p \<noteq> RunRunning" by (rule settle_store_obtain)
  have "flight_ok sv f" using assms(1) find_flight_Some [OF assms(2)] by (auto simp: service_ok_def)
  then have "\<forall>r\<in>set (runs_at (sv_store sv) (fl_schedule f)). rn_id r = fp_runId p \<longrightarrow> rn_status r = RunRunning"
    using assms(3) p(2) by (simp add: flight_ok_def)
  note res = finish_result [OF p(1) service_ok_store [OF assms(1)] this]
  show ?thesis
    using that(2) [of st p] res p(2,3) find_flight_Some [OF assms(2)] Inr assms(2) by (simp add: settle_flight_def Let_def)
qed

lemma unrun_ok:
  assumes "service_ok env sv" and "find_flight runId sv = Some f" and "store_ok env st"
    and "\<And>g. g \<in> set (sv_flights sv) \<Longrightarrow> g \<noteq> f \<Longrightarrow> flight_ok (sv\<lparr>sv_store := st\<rparr>) g"
  shows "service_ok env ((drop_flight runId sv)\<lparr>sv_runningIds := sv_runningIds sv - {fl_schedule f}, sv_store := st\<rparr>)"
proof -
  note ff = find_flight_Some [OF assms(2)]
  have "g \<noteq> f \<and> fl_schedule g \<noteq> fl_schedule f" if "g \<in> set (sv_flights sv)" "flight_id g \<noteq> runId" for g
    using that ff flight_alone [OF assms(1), of g f] by auto
  then show ?thesis
    using assms(1,3,4) drop_flight_distinct [of _ sv runId] by (auto simp: service_ok_def flight_ok_def)
qed

lemma settle_flight_ok:
  assumes "service_ok env sv" and "find_flight runId sv = Some f" and "fl_appended f = True"
  shows "service_ok env (settle_flight env runId outcome now sv) \<and>
    history_kept (sv_store sv) (sv_store (settle_flight env runId outcome now sv))"
proof (rule settle_flight_cases [OF assms, of outcome now])
  have "flight_ok (sv\<lparr>sv_store := sv_store sv\<rparr>) g" if "g \<in> set (sv_flights sv)" for g
    using assms(1) that by (simp add: service_ok_def)
  from unrun_ok [OF assms(1,2) service_ok_store [OF assms(1)] this] show ?thesis
    if "settle_flight env runId outcome now sv = (drop_flight runId sv)\<lparr>sv_runningIds := sv_runningIds sv - {fl_schedule f}\<rparr>"
    using that by (simp add: service_ok_def flight_ok_def)
next
  note ff = find_flight_Some [OF assms(2)]
  fix st p
  assume e: "settle_flight env runId outcome now sv =
        continue_tick (fl_rest f) ((drop_flight runId sv)\<lparr>sv_runningIds := sv_runningIds sv - {fl_schedule f}, sv_store := st\<rparr>)"
    and st: "store_ok env st" "store_upd (sv_store sv) st"
    and other: "\<And>j. j \<noteq> fl_schedule f \<Longrightarrow> runs_at st j = runs_at (sv_store sv) j"
    and own: "runs_at st (fl_schedule f) = map (finished_run p now) (runs_at (sv_store sv) (fl_schedule f))"
  have ids: "rn_id ` set (runs_at st j) = rn_id ` set (runs_at (sv_store sv) j)" for j
    using own other by (cases "j = fl_schedule f") (auto simp: image_image)
  have "flight_ok (sv\<lparr>sv_store := st\<rparr>) g" if g: "g \<in> set (sv_flights sv)" "g \<noteq> f" for g
  proof -
    have "fl_schedule g \<noteq> fl_schedule f" using flight_alone [OF assms(1) g(1)] ff g(2) by auto
    moreover have "flight_ok sv g" using assms(1) g by (auto simp: service_ok_def)
    ultimately show ?thesis using other ids unfolding flight_ok_def
      by (cases "fl_appended g") (simp_all, metis (no_types, lifting) image_iff)
  qed
  from unrun_ok [OF assms(1,2) st(1) this] show ?thesis using upd_history [OF st(2)] by (simp add: e)
qed

section \<open>The invariant\<close>

lemma tick_step_ok:
  assumes "service_ok env sv" and "fresh_run runId sv"
  shows "service_ok env (tick_step env tick runId sv) \<and>
    history_kept (sv_store sv) (sv_store (tick_step env tick runId sv)) \<and> calm_step sv (tick_step env tick runId sv)"
proof -
  let ?sv = "sv\<lparr>sv_ticks := remove1 tick (sv_ticks sv)\<rparr>"
  have ok: "service_ok env ?sv" "fresh_run runId ?sv" using assms by (simp_all add: fresh_run_def)
  have due: "service_ok env (?sv\<lparr>sv_store := st\<rparr>) \<and> history_kept (sv_store sv) st \<and> quiet_runs (sv_store sv) st"
    if "update_schedule env i (complete_due_updater env now) (sv_store sv) = Inr (r, st)" for i now r st
    using completing_due.edit_result [OF that service_ok_store [OF assms(1)]] upd_history
      service_ok_quiet [OF ok(1), of "?sv\<lparr>sv_store := st\<rparr>"] by simp
  have run: "service_ok env (begin_run s now False runId rest ?sv)"
    if "ss_id s \<notin> sv_runningIds sv" for s now rest
    using begin_run_ok [OF ok, of s now False rest] that by simp
  show ?thesis
  proof (cases "snd tick")
    case Nil
    then show ?thesis using ok by (simp add: tick_step_def calm_step_def)
  next
    case (Cons s rest)
    show ?thesis
    proof (cases "ss_nextRunAt s")
      case None
      then show ?thesis using ok Cons by (simp add: tick_step_def Let_def calm_step_def)
    next
      case (Some t)
      then show ?thesis using ok(1) due run Cons
        by (auto simp: tick_step_def Let_def calm_step_def split: sum.split option.split)
    qed
  qed
qed

lemma run_once_ok:
  assumes "service_ok env sv" and "fresh_run runId sv"
  shows "service_ok env (run_once i runId now sv) \<and> history_kept (sv_store sv) (sv_store (run_once i runId now sv)) \<and>
    calm_step sv (run_once i runId now sv)"
proof (cases "map_of (sv_store sv) i")
  case (Some s)
  moreover have "ss_id s = i" using store_ok_get [OF service_ok_store [OF assms(1)] Some] by simp
  ultimately show ?thesis using assms begin_run_ok [OF assms] by (auto simp: run_once_def calm_step_def)
qed (use assms in \<open>simp add: run_once_def calm_step_def\<close>)

lemma start_store:
  assumes "store_ok env (sv_store sv)"
  shows "store_ok env (sv_store (start_service env present now sv)) \<and>
    store_upd (sv_store sv) (sv_store (start_service env present now sv)) \<and>
    sv_flights (start_service env present now sv) = []"
proof -
  obtain es st where r: "update_all env (recover_updater env now) (map ss_id (list_schedules (sv_store sv))) (sv_store sv) = (es, st)"
    by fastforce
  note 1 = recovering.update_all_upd [OF r assms TrueI]
  obtain es' st' where w: "update_all env (sweep_updater present now) (map ss_id (list_schedules st)) st = (es', st')"
    by fastforce
  have 2: "store_ok env st' \<and> store_upd st st'" using sweeping.change.update_all_upd [OF w] 1 by blast
  show ?thesis using 1 2 store_upd_trans
    by (auto simp: start_service_def recoverInterruptedRuns_def sweepOrphanedSchedules_def r w Let_def)
qed

fun run_event :: "service_event \<Rightarrow> bool" where
  "run_event (AppendRun runId) = True"
| "run_event (SettleRun runId outcome now) = True"
| "run_event (Restart present now) = True"
| "run_event _ = False"

lemma service_step_ok:
  assumes "service_ok env sv" and "service_enabled sv e"
  shows "service_ok env (service_step env e sv) \<and> history_kept (sv_store sv) (sv_store (service_step env e sv)) \<and>
    (\<not> run_event e \<longrightarrow> calm_step sv (service_step env e sv))"
proof (cases e)
  note so = service_ok_store [OF assms(1)]
  note st = stored_ok [OF assms(1)]
  case (Create input i now)
  then show ?thesis using assms(2) create_result [OF _ so] by (auto intro!: st)
next
  note so = service_ok_store [OF assms(1)]
  case (CreateOrReplace input found i now)
  then show ?thesis using assms(2) createOrReplace_result [OF _ so] by (auto intro!: stored_ok [OF assms(1)])
next
  note so = service_ok_store [OF assms(1)]
  case (Pause i now)
  then show ?thesis using pausing.edit_result [OF _ so] upd_history by (auto intro!: stored_ok [OF assms(1)])
next
  note so = service_ok_store [OF assms(1)]
  case (Resume i now)
  then show ?thesis using resuming.edit_result [OF _ so] upd_history by (auto intro!: stored_ok [OF assms(1)])
next
  note so = service_ok_store [OF assms(1)]
  case (Change input now)
  then show ?thesis using changing.edit_result [OF _ so] upd_history by (auto intro!: stored_ok [OF assms(1)])
next
  note so = service_ok_store [OF assms(1)]
  case (CompleteForAgent agentId i now)
  then show ?thesis using completing_agent.edit_result [OF _ so] upd_history by (auto intro!: stored_ok [OF assms(1)])
next
  case (Remove i)
  have "quiet_runs (sv_store sv) (delete_schedule i (sv_store sv))" "history_kept (sv_store sv) (delete_schedule i (sv_store sv))"
    by (auto simp: quiet_runs_def runs_at_def history_kept_def split: if_splits)
  then show ?thesis using Remove calm_step_def service_ok_quiet [OF assms(1)] store_ok_delete [OF service_ok_store [OF assms(1)]] by simp
next
  case (RunOnce i runId now)
  then show ?thesis using assms run_once_ok by simp
next
  case (StartTick now)
  then show ?thesis using assms by (simp add: start_tick_def calm_step_def)
next
  case (TickStep tick runId)
  then show ?thesis using assms tick_step_ok by simp
next
  case (AppendRun runId)
  then show ?thesis using assms append_run_ok by (auto elim!: in_flight_obtain)
next
  case (RecordWorkspace runId w agentId now)
  note so = service_ok_store [OF assms(1)]
  have "quiet_runs (sv_store sv) st" if u: "update_schedule env i (workspace_updater runId w agentId now) (sv_store sv) = Inr (r, st)" for i r st
  proof -
    have "runs_at st j = map (\<lambda>r. if rn_id r = runId \<and> rn_status r = RunRunning
        then r\<lparr>rn_workspaceId := Some w, rn_agentId := agentId\<rparr> else r) (runs_at (sv_store sv) j) \<or>
        runs_at st j = runs_at (sv_store sv) j" for j
    proof (cases "j = i \<and> map_of (sv_store sv) i \<noteq> None")
      case True
      then obtain s where "map_of (sv_store sv) i = Some s" by auto
      then show ?thesis using True workspaces.update_result(4) [OF u so TrueI, of s]
        by (auto simp: runs_at_def workspace_updater_def dest!: schema_result)
    next
      case False
      then show ?thesis using workspaces.update_result(2,3) [OF u so TrueI] by (auto simp: runs_at_def)
    qed
    note same = this
    show ?thesis unfolding quiet_runs_def
    proof (intro allI ballI)
      fix j r' assume "r' \<in> set (runs_at st j)"
      then show "\<exists>r\<in>set (runs_at (sv_store sv) j). rn_id r = rn_id r' \<and> rn_status r = rn_status r'"
        using same [of j] by (auto split: if_splits) blast+
    qed
  qed
  then show ?thesis using RecordWorkspace workspaces.update_upd [OF _ so TrueI] upd_history assms(1)
    by (auto simp: record_workspace_def split: option.split intro!: stored_ok)
next
  case (SettleRun runId outcome now)
  then show ?thesis using assms settle_flight_ok by (auto elim!: in_flight_obtain)
next
  case (Restart present now)
  then show ?thesis using start_store [OF service_ok_store [OF assms(1)], of present now] upd_history
    by (auto simp: service_ok_def)
qed

lemma serviced_ok: "serviced env P sv \<Longrightarrow> service_ok env sv"
proof (induction rule: serviced.induct)
  case init
  then show ?case by (simp add: service_ok_def new_service_def store_ok_def)
qed (simp add: service_step_ok)

end
