(* ===== verification/Schedule_Settling.thy ===== *)
theory Schedule_Settling
  imports Schedule_Safety
begin

text \<open>
  As long as the next run of every stored cadence can be computed, every run is settled: a run marked as running
  is in flight, and a restart closes what was interrupted and comes up.
\<close>

section \<open>The loop of the next run\<close>

lemma compute_progress:
  assumes "ScheduleCadenceSchema cadence = Inr c" and "computeNextRunAt intl cadence t = Inr u"
  shows "t < u"
proof (cases cadence)
  case (Every n)
  then show ?thesis using assms by (auto simp: ScheduleCadenceSchema_def computeNextRunAt_def split: if_splits)
next
  case (CronCadence expression timezone)
  then obtain P where "next_match P search_limit (startOfNextMinute t) = Some u"
    using assms(2) by (auto simp: computeNextRunAt_def bind_sum_Inr split: option.splits)
  from next_match_Some [OF this] show ?thesis using startOfNextMinute_bounds [of t] by auto
qed

text \<open>More fuel than \<open>catch_up\<close> takes changes nothing.\<close>

lemma catch_up_more:
  assumes "ScheduleCadenceSchema cadence = Inr c" and "nat (now - t + 1) \<le> n"
  shows "catch_up_fuel n env cadence now t = catch_up env cadence now t"
  using assms(2)
proof (induction n arbitrary: t rule: less_induct)
  case (less n)
  show ?case
  proof (cases "t > now")
    case True
    then show ?thesis by (cases n) (simp_all add: catch_up_def)
  next
    case False
    then obtain k where k: "n = Suc k" using less.prems by (cases n) auto
    have f: "nat (now - t + 1) = Suc (nat (now - t))" using False by simp
    show ?thesis
    proof (cases "computeNextRunAt (se_intl env) cadence t")
      case (Inr u)
      then have u: "t < u" by (rule compute_progress [OF assms(1)])
      have 1: "catch_up_fuel k env cadence now u = catch_up env cadence now u"
        using less.IH [of k u] less.prems u k by simp
      show ?thesis
      proof (cases "nat (now - t) < n")
        case True
        then have "catch_up_fuel (nat (now - t)) env cadence now u = catch_up env cadence now u"
          using less.IH [of "nat (now - t)" u] u by simp
        with 1 Inr False k show ?thesis unfolding catch_up_def [of _ _ _ t] f by simp
      next
        case False
        then show ?thesis using less.prems f by simp
      qed
    qed (use False k in \<open>simp add: catch_up_def f\<close>)
  qed
qed

lemma catch_up_loop:
  assumes "ScheduleCadenceSchema cadence = Inr c"
  shows "catch_up env cadence now t =
    (if t > now then Inr t else bind_sum (computeNextRunAt (se_intl env) cadence t) (catch_up env cadence now))"
proof (cases "t > now")
  case False
  have f: "nat (now - t + 1) = Suc (nat (now - t))" using False by simp
  show ?thesis
  proof (cases "computeNextRunAt (se_intl env) cadence t")
    case (Inr u)
    then have "t < u" by (rule compute_progress [OF assms])
    then show ?thesis using Inr False catch_up_more [OF assms, of now u "nat (now - t)"]
      unfolding catch_up_def [of _ _ _ t] f by simp
  qed (use False in \<open>simp add: catch_up_def f\<close>)
qed (simp add: catch_up_def)

definition computable :: "schedule_env \<Rightarrow> schedule_cadence \<Rightarrow> bool" where
  "computable env c \<longleftrightarrow> (\<forall>t. \<exists>u. computeNextRunAt (se_intl env) c t = Inr u)"

lemma next_after_computable:
  assumes "computable env c"
  shows "\<exists>u. next_after env c base now = Inr u"
proof -
  have "\<exists>u. catch_up_fuel n env c now t = Inr u" for n t
  proof (induction n arbitrary: t)
    case (Suc n)
    obtain u where "computeNextRunAt (se_intl env) c t = Inr u" using assms by (auto simp: computable_def)
    then show ?case using Suc [of u] by simp
  qed simp
  moreover obtain u where "computeNextRunAt (se_intl env) c base = Inr u" using assms by (auto simp: computable_def)
  ultimately show ?thesis by (simp add: next_after_def catch_up_def)
qed

section \<open>A run can always be settled\<close>

lemma schema_keep:
  assumes "schema_ok env s" and "ss_prompt t = ss_prompt s" and "ss_maxRuns t = ss_maxRuns s"
    and "ss_cadence t = ss_cadence s" and "ss_target t = ss_target s" and "list_all (run_valid env) (ss_runs t)"
  shows "\<exists>u. StoredScheduleSchema env t = Inr u"
proof -
  note r = schema_result [OF assms(1) [unfolded schema_ok_def]]
  have "ss_prompt s \<noteq> []" "maxRuns_valid (ss_maxRuns s)"
    using assms(1) by (auto simp: schema_ok_def StoredScheduleSchema_def split: if_splits)
  then show ?thesis using r assms by (simp add: StoredScheduleSchema_def)
qed

lemma schema_runs: "schema_ok env s \<Longrightarrow> r \<in> set (ss_runs s) \<Longrightarrow> run_valid env r"
  by (auto simp: schema_ok_def StoredScheduleSchema_def list_all_iff split: if_splits)

lemma finish_possible:
  assumes "schedule_ok env s" and "computable env (ss_cadence s)" and "fp_agentId p = None"
  shows "\<exists>t u. finish_updater env p now s = Inr (Some t) \<and> ss_id t = ss_id s \<and> StoredScheduleSchema env t = Inr u"
proof -
  obtain n where n: "next_after env (ss_cadence s) (default now (ss_nextRunAt s)) now = Inr n"
    using next_after_computable [OF assms(2)] by blast
  then have "\<exists>t. finish_updater env p now s = Inr (Some t)" by (simp add: finish_updater_def Let_def)
  then obtain t where t: "finish_updater env p now s = Inr (Some t)" by blast
  then have k: "ss_prompt t = ss_prompt s" "ss_maxRuns t = ss_maxRuns s" "ss_cadence t = ss_cadence s"
    "ss_target t = ss_target s" "ss_runs t = map (finished_run p now) (ss_runs s)"
    by (auto simp: finish_updater_def Let_def n completeSchedule_def split: if_splits)
  have "list_all (run_valid env) (ss_runs t)"
    using schema_runs [of env s] assms(1,3)
    by (auto simp: list_all_iff k finished_run_def run_valid_def schedule_ok_def)
  then show ?thesis using schema_keep [of env s t] k t assms(1) finishing.keeps_id [OF t] by (auto simp: schedule_ok_def)
qed

lemma settle_possible:
  assumes "store_ok env st" and "map_of st (fl_schedule f) = Some s" and "computable env (ss_cadence s)"
  shows "\<exists>st'. settle_store env f outcome now st = Inr st'"
proof -
  have "\<exists>st'. finish_run env (fl_schedule f) (failure_params f e gone) now st = Inr st'" for e gone
    using finish_possible [of env s "failure_params f e gone" now] store_ok_get [OF assms(1,2)] assms(2,3)
    by (auto simp: finish_run_def update_schedule_def failure_params_def)
  then show ?thesis by (auto simp: settle_store_def split: run_outcome.split sum.split)
qed

section \<open>No run is left behind\<close>

definition tracked :: "schedule_service \<Rightarrow> bool" where
  "tracked sv \<longleftrightarrow> (\<forall>j. \<forall>r\<in>set (runs_at (sv_store sv) j). rn_status r = RunRunning \<longrightarrow>
     (\<exists>f\<in>set (sv_flights sv). fl_appended f \<and> fl_schedule f = j \<and> flight_id f = rn_id r))"

lemma tracked_calm:
  assumes "tracked sv" and "calm_step sv sv'"
  shows "tracked sv'"
  using assms unfolding tracked_def calm_step_def quiet_runs_def by (metis subsetD)

lemma distinct_runs: "store_ok env st \<Longrightarrow> distinct (map rn_id (runs_at st j))"
  by (auto simp: runs_at_def store_ok_def schedule_ok_def run_ids_def split: option.split)

lemma tracked_single:
  assumes "service_ok env sv" and "tracked sv"
    and "r \<in> set (runs_at (sv_store sv) j)" and "r' \<in> set (runs_at (sv_store sv) j)"
    and "rn_status r = RunRunning" and "rn_status r' = RunRunning"
  shows "r = r'"
proof -
  obtain f g where "f \<in> set (sv_flights sv)" "fl_schedule f = j" "flight_id f = rn_id r"
    "g \<in> set (sv_flights sv)" "fl_schedule g = j" "flight_id g = rn_id r'"
    using assms(2-) unfolding tracked_def by metis
  then have "rn_id r = rn_id r'" using flight_alone [OF assms(1)] by metis
  then show ?thesis
    using distinct_runs [OF service_ok_store [OF assms(1)], of j] assms(3,4) by (auto simp: distinct_map inj_on_def)
qed

lemma tracked_append:
  assumes "service_ok env sv" and "tracked sv" and "find_flight runId sv = Some f" and "fl_appended f = False"
  shows "tracked (append_run env runId sv)"
proof (rule append_run_cases [OF assms(1,3,4)])
  note ff = find_flight_Some [OF assms(3)]
  assume e: "append_run env runId sv = drop_flight runId sv"
  have "g \<in> set (sv_flights sv) \<Longrightarrow> fl_appended g \<Longrightarrow> flight_id g \<noteq> runId" for g
    using flight_unique [OF assms(1), of g f] ff assms(4) by auto
  then show ?thesis using assms(2) unfolding tracked_def e by simp metis
next
  note ff = find_flight_Some [OF assms(3)]
  fix st
  let ?mark = "\<lambda>g. if flight_id g = runId then g\<lparr>fl_appended := True\<rparr> else g"
  assume e: "append_run env runId sv = sv\<lparr>sv_store := st, sv_flights := map ?mark (sv_flights sv)\<rparr>"
    and own: "runs_at st (fl_schedule f) = runs_at (sv_store sv) (fl_schedule f) @ [fl_run f]"
    and other: "\<And>j. j \<noteq> fl_schedule f \<Longrightarrow> runs_at st j = runs_at (sv_store sv) j"
  show ?thesis unfolding tracked_def
  proof (intro allI ballI impI)
    fix j r assume r: "r \<in> set (runs_at (sv_store (append_run env runId sv)) j)" "rn_status r = RunRunning"
    then have "r \<in> set (runs_at (sv_store sv) j) \<or> j = fl_schedule f \<and> r = fl_run f"
      using own other by (cases "j = fl_schedule f") (auto simp: e)
    then obtain g where g: "g \<in> set (sv_flights sv)" "fl_schedule g = j" "flight_id g = rn_id r" "fl_appended g \<or> g = f"
      using assms(2) r(2) ff unfolding tracked_def by metis
    then have "?mark g \<in> set (sv_flights (append_run env runId sv)) \<and> fl_appended (?mark g)"
      using ff by (auto simp: e)
    then show "\<exists>h\<in>set (sv_flights (append_run env runId sv)). fl_appended h \<and> fl_schedule h = j \<and> flight_id h = rn_id r"
      using g by (intro bexI [of _ "?mark g"]) auto
  qed
qed

lemma tracked_settle:
  assumes "service_ok env sv" and "tracked sv" and "find_flight runId sv = Some f" and "fl_appended f = True"
    and "all_cadences (computable env) sv"
  shows "tracked (settle_flight env runId outcome now sv)"
proof (rule settle_flight_cases [OF assms(1,3,4), of outcome now])
  note ff = find_flight_Some [OF assms(3)]
  fix e assume e: "settle_store env f outcome now (sv_store sv) = Inl e"
    "settle_flight env runId outcome now sv = (drop_flight runId sv)\<lparr>sv_runningIds := sv_runningIds sv - {fl_schedule f}\<rparr>"
  have "map_of (sv_store sv) (fl_schedule f) = None"
  proof (cases "map_of (sv_store sv) (fl_schedule f)")
    case (Some s)
    then have "computable env (ss_cadence s)" using assms(5) map_of_SomeD by (fastforce simp: all_cadences_def list_all_iff)
    then obtain st where "settle_store env f outcome now (sv_store sv) = Inr st"
      using settle_possible [OF service_ok_store [OF assms(1)] Some] by blast
    with e(1) show ?thesis by simp
  qed
  then have "runs_at (sv_store sv) (fl_schedule f) = []" by (simp add: runs_at_def)
  moreover have "g \<in> set (sv_flights sv) \<Longrightarrow> fl_schedule g \<noteq> fl_schedule f \<Longrightarrow> flight_id g \<noteq> runId" for g
    using flight_unique [OF assms(1), of g f] ff by auto
  ultimately show ?thesis using assms(2) unfolding tracked_def e
    by simp (metis emptyE list.set(1))
next
  note ff = find_flight_Some [OF assms(3)]
  fix st p
  assume e: "settle_flight env runId outcome now sv =
        continue_tick (fl_rest f) ((drop_flight runId sv)\<lparr>sv_runningIds := sv_runningIds sv - {fl_schedule f}, sv_store := st\<rparr>)"
    and p: "fp_status p \<noteq> RunRunning" "fp_runId p = runId"
    and other: "\<And>j. j \<noteq> fl_schedule f \<Longrightarrow> runs_at st j = runs_at (sv_store sv) j"
    and own: "runs_at st (fl_schedule f) = map (finished_run p now) (runs_at (sv_store sv) (fl_schedule f))"
  have "r \<in> set (runs_at (sv_store sv) j) \<and> (j = fl_schedule f \<longrightarrow> rn_id r \<noteq> runId)"
    if "r \<in> set (runs_at st j)" "rn_status r = RunRunning" for r j
    using that own other p by (cases "j = fl_schedule f") (auto simp: finished_run_def split: if_splits)
  moreover have "g \<in> set (sv_flights sv) \<Longrightarrow> flight_id g = runId \<Longrightarrow> g = f" for g
    using flight_unique [OF assms(1), of g f] ff by auto
  ultimately show ?thesis using assms(2) unfolding tracked_def e
    by simp metis
qed

section \<open>A restart\<close>

lemma list_schedules_ids:
  assumes "store_ok env st"
  shows "distinct (map ss_id (list_schedules st))" "set (map ss_id (list_schedules st)) = dom (map_of st)"
proof -
  have k: "(i, s) \<in> set st \<Longrightarrow> ss_id s = i" for i s
    using assms map_of_is_SomeI [of st i s] by (auto simp: store_ok_def alist_ok_def)
  then have m: "map ss_id (map snd st) = map fst st" by (auto simp: o_def)
  then have "distinct (map snd st)" "inj_on ss_id (set (map snd st))"
    using assms by (metis alist_ok_def store_ok_def distinct_map)+
  then show "distinct (map ss_id (list_schedules st))" by (simp add: list_schedules_def distinct_map)
  have "ss_id ` set (map snd st) = fst ` set st" using m by (metis list.set_map)
  then show "set (map ss_id (list_schedules st)) = dom (map_of st)" by (simp add: list_schedules_def dom_map_of_conv_image_fst)
qed

lemma close_interrupted_valid:
  assumes "list_all (run_valid env) rs"
  shows "list_all (run_valid env) (close_interrupted now rs)"
proof (rule close_interrupted_cases [of rs now])
  fix i assume "i < length rs" "close_interrupted now rs = rs[i := interrupted_run now (rs ! i)]"
  moreover have "set (rs[i := interrupted_run now (rs ! i)]) \<subseteq> insert (interrupted_run now (rs ! i)) (set rs)"
    by (rule set_update_subset_insert)
  moreover have "run_valid env (interrupted_run now r) = run_valid env r" for r
    by (simp add: run_valid_def interrupted_run_def)
  ultimately show ?thesis using assms by (auto simp: list_all_iff)
qed (use assms in simp)

lemma recover_possible:
  assumes "schedule_ok env s" and "computable env (ss_cadence s)"
  shows "\<exists>x. recover_updater env now s = Inr x \<and> (\<forall>t. x = Some t \<longrightarrow> ss_id t = ss_id s \<and>
    ss_runs t = close_interrupted now (ss_runs s) \<and> (\<exists>u. StoredScheduleSchema env t = Inr u)) \<and>
    (x = None \<longrightarrow> (\<forall>r\<in>set (ss_runs s). rn_status r \<noteq> RunRunning))"
proof -
  have v: "list_all (run_valid env) (close_interrupted now (ss_runs s))"
    using schema_runs [of env s] assms(1) by (intro close_interrupted_valid) (simp add: list_all_iff schedule_ok_def)
  have "\<forall>t. \<exists>u. next_after env (ss_cadence s) t now = Inr u" using next_after_computable [OF assms(2)] by blast
  then obtain n where n: "\<And>t. next_after env (ss_cadence s) t now = Inr (n t)" by (auto dest: choice)
  have "\<exists>x. recover_updater env now s = Inr x"
    by (auto simp: n recover_updater_def Let_def split: schedule_status.split option.split)
  then obtain x where x: "recover_updater env now s = Inr x" by blast
  have k: "ss_id t = ss_id s \<and> ss_runs t = close_interrupted now (ss_runs s) \<and> ss_prompt t = ss_prompt s \<and>
      ss_maxRuns t = ss_maxRuns s \<and> ss_cadence t = ss_cadence s \<and> ss_target t = ss_target s" if "x = Some t" for t
    using x that
    by (auto simp: recover_updater_def Let_def n split: if_splits schedule_status.splits option.splits)
  have none: "\<forall>r\<in>set (ss_runs s). rn_status r \<noteq> RunRunning" if "x = None"
    using x that unfolding find_index_None [symmetric]
    by (auto simp: recover_updater_def Let_def n split: if_splits schedule_status.splits option.splits)
  have "\<exists>u. StoredScheduleSchema env t = Inr u" if "x = Some t" for t
    using k [OF that] v assms(1) by (intro schema_keep [of env s]) (simp_all add: schedule_ok_def)
  then show ?thesis using x k none by blast
qed

definition one_running :: "schedule_run list \<Rightarrow> bool" where
  "one_running rs \<longleftrightarrow> (\<forall>i < length rs. \<forall>j < length rs.
     rn_status (rs ! i) = RunRunning \<longrightarrow> rn_status (rs ! j) = RunRunning \<longrightarrow> i = j)"

lemma close_interrupted_all:
  assumes "one_running rs"
  shows "\<forall>r\<in>set (close_interrupted now rs). rn_status r \<noteq> RunRunning"
proof (rule close_interrupted_cases [of rs now])
  fix i assume i: "i < length rs" "rn_status (rs ! i) = RunRunning"
    and e: "close_interrupted now rs = rs[i := interrupted_run now (rs ! i)]"
  show ?thesis
  proof
    fix r assume "r \<in> set (close_interrupted now rs)"
    then obtain j where "j < length rs" "r = rs[i := interrupted_run now (rs ! i)] ! j"
      unfolding e in_set_conv_nth by auto
    then show "rn_status r \<noteq> RunRunning" using assms i
      by (cases "j = i") (auto simp: one_running_def interrupted_run_def nth_list_update)
  qed
qed simp

lemma recover_all:
  assumes "update_all env (recover_updater env now) is' st = (es, st')" and "store_ok env st" and "distinct is'"
    and "\<And>i s. map_of st i = Some s \<Longrightarrow> computable env (ss_cadence s) \<and> one_running (ss_runs s)"
  shows "es = [] \<and> (\<forall>i\<in>set is'. \<forall>r\<in>set (runs_at st' i). rn_status r \<noteq> RunRunning)"
  using assms
proof (induction is' arbitrary: st es)
  case (Cons i is')
  have "\<exists>r st1. update_schedule env i (recover_updater env now) st = Inr (r, st1) \<and>
      (\<forall>r\<in>set (runs_at st1 i). rn_status r \<noteq> RunRunning) \<and>
      (\<forall>s. map_of st1 i = Some s \<longrightarrow> computable env (ss_cadence s) \<and> one_running (ss_runs s))"
  proof (cases "map_of st i")
    case (Some s)
    note ok = store_ok_get [OF Cons.prems(2) Some] Cons.prems(4) [OF Some]
    obtain x where x: "recover_updater env now s = Inr x"
      "\<forall>t. x = Some t \<longrightarrow> ss_id t = ss_id s \<and> ss_runs t = close_interrupted now (ss_runs s) \<and>
         (\<exists>u. StoredScheduleSchema env t = Inr u)"
      "x = None \<longrightarrow> (\<forall>r\<in>set (ss_runs s). rn_status r \<noteq> RunRunning)"
      using recover_possible [of env s now] ok by blast
    show ?thesis
    proof (cases x)
      case None
      then show ?thesis using x Some ok by (auto simp: update_schedule_def runs_at_def)
    next
      case t: (Some t)
      then obtain u where u: "StoredScheduleSchema env t = Inr u" using x(2) by blast
      have c: "ss_cadence t = ss_cadence s" using x(1) t
        by (auto simp: recover_updater_def Let_def bind_sum_Inr split: if_splits schedule_status.splits option.splits)
      have "ScheduleCadenceSchema (ss_cadence s) = Inr (ss_cadence s)" using ok by (auto simp: schedule_ok_def intro: schema_ok_cadence)
      then have "ss_cadence u = ss_cadence s" "ss_runs u = close_interrupted now (ss_runs s)" "ss_id u = i"
        using schema_result [OF u] c x(2) t ok by auto
      moreover have n: "\<forall>r\<in>set (close_interrupted now (ss_runs s)). rn_status r \<noteq> RunRunning"
        using ok close_interrupted_all by blast
      ultimately show ?thesis using x t u Some ok n
        by (auto simp: update_schedule_def runs_at_def one_running_def)
    qed
  qed (auto simp: update_schedule_def runs_at_def)
  then obtain r st1 where u: "update_schedule env i (recover_updater env now) st = Inr (r, st1)"
    and i: "\<forall>r\<in>set (runs_at st1 i). rn_status r \<noteq> RunRunning"
    and own: "\<And>s. map_of st1 i = Some s \<Longrightarrow> computable env (ss_cadence s) \<and> one_running (ss_runs s)" by blast
  have a: "update_all env (recover_updater env now) is' st1 = (es, st')" using Cons.prems(1) u by simp
  note 1 = recovering.update_result(1,2) [OF u Cons.prems(2) TrueI]
  have "computable env (ss_cadence s) \<and> one_running (ss_runs s)" if "map_of st1 k = Some s" for k s
    using that own 1(2) [of k] Cons.prems(4) [of k s] by (cases "k = i") auto
  then have "es = [] \<and> (\<forall>i\<in>set is'. \<forall>r\<in>set (runs_at st' i). rn_status r \<noteq> RunRunning)"
    using Cons.IH [OF a 1(1)] Cons.prems(3) by simp
  moreover have "map_of st' i = map_of st1 i"
    using recovering.update_all_upd [OF a 1(1) TrueI] Cons.prems(3) by simp
  ultimately show ?case using i by (simp add: runs_at_def)
qed simp

context schedule_edit begin

lemma update_all_quiet:
  assumes "update_all env f is' st = (es, st')" and "store_ok env st"
  shows "quiet_runs st st'"
  using assms
proof (induction is' arbitrary: st es)
  case (Cons i is')
  show ?case
  proof (cases "update_schedule env i f st")
    case (Inr p)
    then obtain r st1 where u: "update_schedule env i f st = Inr (r, st1)" by (cases p) simp
    then show ?thesis using edit_result [OF u Cons.prems(2)] Cons.IH [of st1 es] Cons.prems(1) quiet_runs_trans by auto
  qed (use Cons in \<open>auto split: prod.splits\<close>)
qed simp

end

lemma sweep_all:
  assumes "update_all env (sweep_updater present now) is' st = (es, st')" and "store_ok env st"
  shows "es = []"
  using assms
proof (induction is' arbitrary: st es)
  case (Cons i is')
  have "\<exists>r st1. update_schedule env i (sweep_updater present now) st = Inr (r, st1)"
  proof (cases "map_of st i")
    case (Some s)
    then have s: "schedule_ok env s" "ss_id s = i" using store_ok_get [OF Cons.prems(2)] by auto
    then have "\<exists>u. StoredScheduleSchema env (completeSchedule s now) = Inr u"
      using schema_runs [of env s] by (intro schema_keep [of env s]) (auto simp: schedule_ok_def completeSchedule_def list_all_iff)
    then show ?thesis using Some s
      by (auto simp: update_schedule_def sweep_updater_def split: schedule_target.split)
  qed (simp add: update_schedule_def)
  then obtain r st1 where u: "update_schedule env i (sweep_updater present now) st = Inr (r, st1)" by blast
  then show ?case using Cons.IH [of st1 es] Cons.prems sweeping.edit_result [OF u Cons.prems(2)] by simp
qed simp

lemma restart_settled:
  assumes "service_ok env sv" and "tracked sv" and "all_cadences (computable env) sv"
  shows "sv_up (start_service env present now sv) \<and>
    (\<forall>j. \<forall>r\<in>set (runs_at (sv_store (start_service env present now sv)) j). rn_status r \<noteq> RunRunning)"
proof -
  note so = service_ok_store [OF assms(1)]
  have c: "computable env (ss_cadence s) \<and> one_running (ss_runs s)" if "map_of (sv_store sv) i = Some s" for i s
  proof
    show "computable env (ss_cadence s)"
      using assms(3) map_of_SomeD [OF that] by (auto simp: all_cadences_def list_all_iff)
    have "distinct (ss_runs s)" "set (ss_runs s) = set (runs_at (sv_store sv) i)"
      using distinct_runs [OF so, of i] that by (auto simp: runs_at_def distinct_map)
    then show "one_running (ss_runs s)"
      using tracked_single [OF assms(1,2), of _ i] unfolding one_running_def by (metis nth_eq_iff_index_eq nth_mem)
  qed
  obtain es st where r: "update_all env (recover_updater env now) (map ss_id (list_schedules (sv_store sv))) (sv_store sv) = (es, st)"
    by fastforce
  have "es = [] \<and> (\<forall>i\<in>set (map ss_id (list_schedules (sv_store sv))). \<forall>r\<in>set (runs_at st i). rn_status r \<noteq> RunRunning)"
    by (rule recover_all [OF r so list_schedules_ids(1) [OF so]]) (rule c)
  then have 1: "es = []" "\<And>i. i \<in> dom (map_of (sv_store sv)) \<Longrightarrow> \<forall>r\<in>set (runs_at st i). rn_status r \<noteq> RunRunning"
    unfolding list_schedules_ids(2) [OF so] by blast+
  have 2: "store_ok env st" "dom (map_of st) = dom (map_of (sv_store sv))"
  proof -
    show "store_ok env st" using recovering.update_all_upd [OF r so TrueI] by simp
    have "store_upd (sv_store sv) st" using recovering.update_all_upd [OF r so TrueI] by simp
    then show "dom (map_of st) = dom (map_of (sv_store sv))"
      unfolding store_upd_def dom_def by (metis (no_types, lifting) option.rel_distinct option.exhaust_sel rel_option_None1 rel_option_None2)
  qed
  have quiet: "rn_status r \<noteq> RunRunning" if "r \<in> set (runs_at st j)" for r j
  proof -
    have "j \<in> dom (map_of st)" using that by (cases "map_of st j") (auto simp: runs_at_def)
    then show ?thesis using 1(2) that 2(2) by blast
  qed
  obtain es' st' where w: "update_all env (sweep_updater present now) (map ss_id (list_schedules st)) st = (es', st')"
    by fastforce
  have "quiet_runs st st'" "es' = []" using sweeping.update_all_quiet [OF w 2(1)] sweep_all [OF w 2(1)] by simp_all
  moreover have "sv_up (start_service env present now sv) = (es' = [])" "sv_store (start_service env present now sv) = st'"
    using 1(1) by (simp_all add: start_service_def recoverInterruptedRuns_def sweepOrphanedSchedules_def r w Let_def)
  ultimately show ?thesis using quiet unfolding quiet_runs_def by metis
qed

section \<open>The invariant with cadences that can be computed\<close>

lemma tracked_step:
  assumes "service_ok env sv" and "tracked sv" and "sv_up sv" and "all_cadences (computable env) sv" and "service_enabled sv e"
  shows "tracked (service_step env e sv) \<and> sv_up (service_step env e sv)"
proof (cases "run_event e")
  case False
  then have "calm_step sv (service_step env e sv)" using service_step_ok [OF assms(1,5)] by blast
  then show ?thesis using tracked_calm [OF assms(2)] assms(3) by (simp add: calm_step_def)
next
  case True
  then consider runId where "e = AppendRun runId" | runId outcome now where "e = SettleRun runId outcome now"
    | present now where "e = Restart present now" by (cases e) auto
  then show ?thesis
  proof cases
    case (1 runId)
    then obtain f where f: "find_flight runId sv = Some f" "fl_appended f = False"
      using assms(5) by (auto elim: in_flight_obtain)
    have "sv_up (append_run env runId sv)"
      using append_run_cases [OF assms(1) f, of "sv_up (append_run env runId sv)"] assms(3) by simp
    then show ?thesis using tracked_append [OF assms(1,2) f] 1 by simp
  next
    case (2 runId outcome now)
    then obtain f where f: "find_flight runId sv = Some f" "fl_appended f = True"
      using assms(5) by (auto elim: in_flight_obtain)
    have "sv_up (settle_flight env runId outcome now sv)"
      using settle_flight_cases [OF assms(1) f, of outcome now "sv_up (settle_flight env runId outcome now sv)"] assms(3) by simp
    then show ?thesis using tracked_settle [OF assms(1,2) f assms(4)] 2 by simp
  next
    case (3 present now)
    then show ?thesis using restart_settled [OF assms(1,2,4), of present now] by (auto simp: tracked_def)
  qed
qed

lemma serviced_cadences: "serviced env P sv \<Longrightarrow> all_cadences P sv"
  by (induction rule: serviced.induct) (simp_all add: all_cadences_def new_service_def)

lemma serviced_tracked: "serviced env (computable env) sv \<Longrightarrow> tracked sv \<and> sv_up sv"
proof (induction rule: serviced.induct)
  case init
  then show ?case by (simp add: tracked_def new_service_def runs_at_def)
next
  case (step sv e)
  then show ?case using tracked_step [OF serviced_ok] serviced_cadences by blast
qed

end
