(* ===== verification/Schedule_Claims.thy ===== *)
theory Schedule_Claims
  imports Schedule_Settling
begin

text \<open>
  What the schedule service promises, for every order of its events: consistent schedules, a history that is
  only added to, the grid of the next runs, runs that settle, a create that replaces; and three executions in
  which it does not do what it means to.
\<close>

section \<open>The grid of a cadence\<close>

fun fires :: "schedule_env \<Rightarrow> schedule_cadence \<Rightarrow> int \<Rightarrow> int \<Rightarrow> bool" where
  "fires env (Every n) base t \<longleftrightarrow> (\<exists>k\<ge>1. t = base + k * n)"
| "fires env (CronCadence expression timezone) base t \<longleftrightarrow> base < t \<and> t mod 60000 = 0 \<and>
     (\<exists>cron reader. parseCronExpression expression = Inr cron \<and>
        createCronDatePartsReader (se_intl env) timezone = Inr reader \<and> cron_matches cron (reader t))"

lemma compute_fires:
  assumes "ScheduleCadenceSchema c = Inr d" and "computeNextRunAt (se_intl env) c base = Inr t"
  shows "fires env c base t \<and> (\<forall>v. fires env c base v \<longrightarrow> t \<le> v)"
proof (cases c)
  case (Every n)
  then have "0 < n" "t = base + n"
    using assms by (auto simp: ScheduleCadenceSchema_def computeNextRunAt_def split: if_splits)
  moreover have "n \<le> k * n" if "1 \<le> k" for k :: int using that \<open>0 < n\<close> by simp
  ultimately show ?thesis using Every by (auto intro!: exI [of _ 1])
next
  case (CronCadence e tz)
  then obtain cron reader where cr: "parseCronExpression e = Inr cron" "createCronDatePartsReader (se_intl env) tz = Inr reader"
    using assms(2) by (auto simp: computeNextRunAt_def bind_sum_Inr)
  show ?thesis using cron_first_match [OF cr, of base] assms(2) CronCadence cr by (force simp: not_less)
qed

lemma fires_grid:
  assumes "ScheduleCadenceSchema c = Inr d" and "fires env c base t"
  shows "t < v \<Longrightarrow> fires env c base v \<Longrightarrow> fires env c t v" and "fires env c t v \<Longrightarrow> fires env c base v"
proof -
  show "fires env c t v" if tv: "t < v" and bv: "fires env c base v"
  proof (cases c)
    case (Every n)
    obtain k where k: "t = base + k * n" "1 \<le> k" using assms(2) Every by auto
    moreover obtain l where l: "v = base + l * n" using bv Every by auto
    ultimately have "0 < (l - k) * n" "0 < n" using tv Every assms(1) by (auto simp: ScheduleCadenceSchema_def algebra_simps split: if_splits)
    then have "1 \<le> l - k" by (simp add: zero_less_mult_iff)
    then show ?thesis using Every k l by (auto intro!: exI [of _ "l - k"] simp: algebra_simps)
  qed (use assms(2) that in auto)
  show "fires env c base v" if tv: "fires env c t v"
  proof (cases c)
    case (Every n)
    obtain k where "t = base + k * n" "1 \<le> k" using assms(2) Every by auto
    moreover obtain l where "v = t + l * n" "1 \<le> l" using tv Every by auto
    ultimately show ?thesis using Every by (auto intro!: exI [of _ "k + l"] simp: algebra_simps)
  qed (use assms(2) that in auto)
qed

lemma catch_up_fires:
  assumes "ScheduleCadenceSchema c = Inr d" and "catch_up env c now t = Inr u" and "fires env c base t"
    and "\<forall>v. fires env c base v \<and> now < v \<longrightarrow> t \<le> v"
  shows "now < u \<and> fires env c base u \<and> (\<forall>v. fires env c base v \<and> now < v \<longrightarrow> u \<le> v)"
  using assms(2-)
proof (induction "nat (now - t + 1)" arbitrary: t rule: less_induct)
  case less
  show ?case
  proof (cases "t > now")
    case True
    then show ?thesis using less.prems catch_up_loop [OF assms(1), of env now t] by simp
  next
    case False
    then obtain w where w: "computeNextRunAt (se_intl env) c t = Inr w" "catch_up env c now w = Inr u"
      using less.prems(1) catch_up_loop [OF assms(1), of env now t] by (auto simp: bind_sum_Inr)
    note f = compute_fires [OF assms(1) w(1)]
    have tw: "t < w" using compute_progress [OF assms(1) w(1)] .
    show ?thesis
    proof (rule less.hyps [OF _ w(2)])
      show "fires env c base w" using f fires_grid(2) [OF assms(1) less.prems(2)] by blast
      show "\<forall>v. fires env c base v \<and> now < v \<longrightarrow> w \<le> v"
        using f fires_grid(1) [OF assms(1) less.prems(2)] False by force
    qed (use False tw in simp)
  qed
qed

lemma next_after_fires:
  assumes "ScheduleCadenceSchema c = Inr d" and "next_after env c base now = Inr t"
  shows "now < t \<and> fires env c base t \<and> (\<forall>v. fires env c base v \<and> now < v \<longrightarrow> t \<le> v)"
proof -
  obtain w where w: "computeNextRunAt (se_intl env) c base = Inr w" "catch_up env c now w = Inr t"
    using assms(2) by (auto simp: next_after_def bind_sum_Inr)
  show ?thesis using catch_up_fires [OF assms(1) w(2)] compute_fires [OF assms(1) w(1)] by blast
qed

section \<open>Executions\<close>

text \<open>A script picks the next event from the state; every event must be enabled.\<close>

fun service_run :: "(schedule_cadence \<Rightarrow> bool) \<Rightarrow> schedule_env \<Rightarrow> (schedule_service \<Rightarrow> service_event) list \<Rightarrow>
    schedule_service \<Rightarrow> schedule_service option" where
  "service_run Q env [] sv = Some sv"
| "service_run Q env (pick # es) sv =
     (if service_enabled sv (pick sv) \<and> all_cadences Q (service_step env (pick sv) sv)
      then service_run Q env es (service_step env (pick sv) sv) else None)"

lemma service_run_serviced:
  assumes "service_run Q env es sv = Some sv'" and "serviced env P sv" and "\<And>c. Q c \<Longrightarrow> P c"
  shows "serviced env P sv'"
  using assms(1,2)
proof (induction es arbitrary: sv)
  case (Cons e es)
  have "all_cadences Q x \<Longrightarrow> all_cadences P x" for x using assms(3) by (auto simp: all_cadences_def list_all_iff)
  then show ?case using Cons by (auto split: if_splits intro: serviced.step)
qed simp

definition sample_env :: schedule_env where
  "sample_env = \<lparr>se_intl = (\<lambda>_. None), se_parseDate = (\<lambda>_. None), se_isGuid = (\<lambda>_. True)\<rparr>"

definition sample_input :: "string \<Rightarrow> schedule_cadence \<Rightarrow> int option \<Rightarrow> create_input" where
  "sample_input name cadence maxRuns = \<lparr>ci_name = Some name, ci_prompt = ''go'', ci_cadence = cadence,
     ci_target = AgentTarget name, ci_maxRuns = maxRuns, ci_expiresAt = None, ci_runOnCreate = Some True\<rparr>"

definition step_first_tick :: "string \<Rightarrow> schedule_service \<Rightarrow> service_event" where
  "step_first_tick runId sv = TickStep (hd (sv_ticks sv)) runId"

definition every_minute :: "schedule_cadence \<Rightarrow> bool" where
  "every_minute c \<longleftrightarrow> c = Every 60000"

text \<open>Two schedules are due at the same tick; the run of the first takes longer than a second.\<close>

definition stale_script :: "(schedule_service \<Rightarrow> service_event) list" where
  "stale_script =
     [\<lambda>_. Create (sample_input ''a'' (Every 60000) None) ''a'' 0,
      \<lambda>_. Create (sample_input ''b'' (Every 60000) (Some 1)) ''b'' 0,
      \<lambda>_. StartTick 1, step_first_tick ''r1'', \<lambda>_. AppendRun ''r1'',
      \<lambda>_. StartTick 2, step_first_tick ''r2'', step_first_tick ''r2'', \<lambda>_. AppendRun ''r2'',
      \<lambda>_. SettleRun ''r2'' (RunOk None None) 3,
      \<lambda>_. SettleRun ''r1'' (RunOk None None) 5000,
      \<lambda>sv. TickStep (last (sv_ticks sv)) ''r3'', \<lambda>_. AppendRun ''r3'']"

lemma stale_run:
  "case service_run every_minute sample_env stale_script new_service of
     None \<Rightarrow> False
   | Some sv \<Rightarrow> (case map_of (sv_store sv) ''b'' of
       None \<Rightarrow> False
     | Some s \<Rightarrow> ss_maxRuns s = Some 1 \<and> ss_status s = ScheduleCompleted \<and>
         map rn_scheduledFor (ss_runs s) = [0, 0] \<and> map rn_status (ss_runs s) = [RunSucceeded, RunRunning])"
  by code_simp

section \<open>What holds in every reachable state\<close>

text \<open>
  C3: Whatever order requests, ticks, runs and restarts come in, every stored schedule has a next run exactly
  when it is active and a pause time exactly when it is paused, satisfies its schema and lies under its own id; and
  no schedule ever has two runs in flight, each of which is marked in \<open>runningScheduleIds\<close>.
\<close>

theorem schedules_consistent:
  assumes "serviced env P sv"
  shows "(\<forall>i s. map_of (sv_store sv) i = Some s \<longrightarrow> ss_id s = i \<and> StoredScheduleSchema env s = Inr s \<and>
      (ss_nextRunAt s \<noteq> None) = (ss_status s = ScheduleActive) \<and>
      (ss_pausedAt s \<noteq> None) = (ss_status s = SchedulePaused)) \<and>
    distinct (map fl_schedule (sv_flights sv)) \<and> fl_schedule ` set (sv_flights sv) \<subseteq> sv_runningIds sv"
  using serviced_ok [OF assms] store_ok_get
  by (fastforce simp: service_ok_def flight_ok_def schedule_ok_def schema_ok_def status_ok_def split: schedule_status.splits)

text \<open>
  C12: Completion is final and history is only added to: whatever event happens to a schedule that is
  not deleted, it stays completed once it is, keeps its creation time and every run it had, in place and with its
  times, and a run that has ended is never changed again.
\<close>

theorem schedule_history_final:
  assumes "serviced env P sv" and "service_enabled sv e" and "map_of (sv_store sv) i = Some s"
    and "map_of (sv_store (service_step env e sv)) i = Some s'"
  shows "(ss_status s = ScheduleCompleted \<longrightarrow> ss_status s' = ScheduleCompleted) \<and> ss_createdAt s' = ss_createdAt s \<and>
    length (ss_runs s) \<le> length (ss_runs s') \<and>
    (\<forall>k < length (ss_runs s). rn_id (ss_runs s' ! k) = rn_id (ss_runs s ! k) \<and>
       rn_scheduledFor (ss_runs s' ! k) = rn_scheduledFor (ss_runs s ! k) \<and>
       rn_startedAt (ss_runs s' ! k) = rn_startedAt (ss_runs s ! k) \<and>
       (rn_status (ss_runs s ! k) \<noteq> RunRunning \<longrightarrow> ss_runs s' ! k = ss_runs s ! k))"
proof -
  have "schedule_le s s'" using service_step_ok [OF serviced_ok [OF assms(1)] assms(2)] assms(3,4) by (auto simp: history_kept_def)
  then show ?thesis by (auto simp: schedule_le_def runs_le_def list_all2_conv_all_nth run_le_def)
qed

lemma at_most_one:
  assumes "distinct xs" and "\<And>a b. a \<in> set xs \<Longrightarrow> b \<in> set xs \<Longrightarrow> a = b"
  shows "length xs \<le> 1"
proof (cases xs)
  case (Cons a ys)
  then have "set xs = {a}" using assms(2) by auto
  then show ?thesis using distinct_card [OF assms(1)] by simp
qed simp

text \<open>
  C16: As long as the next run of every stored cadence can be computed, the service is up, a schedule has at
  most one run marked as running and that run is in flight; a restart comes up again with no run marked as running.
\<close>

theorem running_runs_in_flight:
  assumes "serviced env (computable env) sv"
  shows "sv_up sv \<and>
    (\<forall>i s. map_of (sv_store sv) i = Some s \<longrightarrow> length [r \<leftarrow> ss_runs s. rn_status r = RunRunning] \<le> 1 \<and>
       (\<forall>r \<in> set (ss_runs s). rn_status r = RunRunning \<longrightarrow>
          (\<exists>f \<in> set (sv_flights sv). fl_schedule f = i \<and> rn_id (fl_run f) = rn_id r))) \<and>
    sv_up (service_step env (Restart present now) sv) \<and>
    (\<forall>i s. map_of (sv_store (service_step env (Restart present now) sv)) i = Some s \<longrightarrow>
       (\<forall>r \<in> set (ss_runs s). rn_status r \<noteq> RunRunning))"
proof -
  note ok = serviced_ok [OF assms] and t = serviced_tracked [OF assms]
  have "length [r \<leftarrow> ss_runs s. rn_status r = RunRunning] \<le> 1" if s: "map_of (sv_store sv) i = Some s" for i s
  proof -
    let ?l = "[r \<leftarrow> ss_runs s. rn_status r = RunRunning]"
    have "distinct (ss_runs s)" using distinct_runs [OF service_ok_store [OF ok], of i] s by (auto simp: runs_at_def distinct_map)
    then have "distinct ?l" by simp
    moreover have "a = b" if "a \<in> set ?l" "b \<in> set ?l" for a b
      using tracked_single [OF ok, of a i b] t that s by (auto simp: runs_at_def)
    ultimately show ?thesis by (rule at_most_one)
  qed
  moreover have "\<exists>f \<in> set (sv_flights sv). fl_schedule f = i \<and> rn_id (fl_run f) = rn_id r"
    if "map_of (sv_store sv) i = Some s" "r \<in> set (ss_runs s)" "rn_status r = RunRunning" for i s r
  proof -
    have "r \<in> set (runs_at (sv_store sv) i)" using that by (simp add: runs_at_def)
    then show ?thesis using t that(3) unfolding tracked_def by blast
  qed
  moreover have "rn_status r \<noteq> RunRunning"
    if "map_of (sv_store (start_service env present now sv)) i = Some s" "r \<in> set (ss_runs s)" for i s r
  proof -
    have "r \<in> set (runs_at (sv_store (start_service env present now sv)) i)" using that by (simp add: runs_at_def)
    then show ?thesis using restart_settled [OF ok conjunct1 [OF t] serviced_cadences [OF assms], of present now] by blast
  qed
  moreover have "sv_up (start_service env present now sv)"
    using restart_settled [OF ok conjunct1 [OF t] serviced_cadences [OF assms], of present now] by blast
  ultimately show ?thesis using t unfolding service_step.simps by blast
qed

text \<open>
  After a run that was scheduled, and after a restart that finds a schedule overdue, the next run is the
  first point of the schedule's own grid that lies after the present, however many points were missed: a multiple of
  the interval counted from the last planned run, or the first minute that matches the cron expression.
\<close>

lemma next_run_on_grid:
  assumes "ScheduleCadenceSchema (ss_cadence s) = Inr c" and "ss_status s = ScheduleActive" and "ss_nextRunAt s = Some base"
    and "finish_updater env p now s = Inr (Some s') \<and> \<not> fp_manual p \<or>
         recover_updater env now s = Inr (Some s') \<and> base \<le> now"
    and "ss_status s' = ScheduleActive"
  shows "\<exists>t. ss_nextRunAt s' = Some t \<and> now < t \<and> fires env (ss_cadence s) base t \<and>
    (\<forall>v. fires env (ss_cadence s) base v \<and> now < v \<longrightarrow> t \<le> v)"
proof -
  have "\<exists>t. next_after env (ss_cadence s) base now = Inr t \<and> ss_nextRunAt s' = Some t"
    using assms(2-5)
    by (auto simp: finish_updater_def recover_updater_def Let_def bind_sum_Inr split: if_splits)
  then show ?thesis using next_after_fires [OF assms(1)] by blast
qed

section \<open>Creating again\<close>

lemma set_list_schedules: "set (list_schedules st) = snd ` set st"
  by (simp add: list_schedules_def)

lemma find_match_Some:
  assumes "store_ok env st" and "find_match name target st = Some i"
  shows "\<exists>s. map_of st i = Some s \<and> matchesNameAndTarget s name target"
proof -
  obtain s where s: "List.find (\<lambda>s. matchesNameAndTarget s name target) (list_schedules st) = Some s" "i = ss_id s"
    using assms(2) by (auto simp: find_match_def)
  then have "s \<in> set (list_schedules st)" and m: "matchesNameAndTarget s name target"
    by (auto simp: find_Some_iff)
  then obtain k where "(k, s) \<in> set st" by (auto simp: set_list_schedules)
  then have "map_of st k = Some s" using assms(1) by (simp add: store_ok_def flip: alist_mem)
  then show ?thesis using store_ok_get [OF assms(1), of k s] s(2) m by auto
qed

lemma find_match_exists:
  assumes "store_ok env st" and "map_of st i = Some s" and "matchesNameAndTarget s name target"
  shows "find_match name target st \<noteq> None"
proof -
  have "s \<in> set (list_schedules st)" using map_of_SomeD [OF assms(2)] by (force simp: set_list_schedules)
  then show ?thesis using assms(3) by (auto simp: find_match_def find_None_iff)
qed

lemma updateMatched_cases:
  assumes "updateMatchedSchedule env i name target f st = Inr (r, st')"
  obtains "r = None" "st' = st" "\<forall>s. map_of st i = Some s \<longrightarrow> \<not> matchesNameAndTarget s name target"
  | u where "r = Some u" "st' = store_write u st" "ss_id u = i" "matchesNameAndTarget u name target"
proof (cases "map_of st i")
  case None
  then show ?thesis using that(1) assms by (simp add: updateMatchedSchedule_def)
next
  case (Some s)
  show ?thesis
  proof (cases "matchesNameAndTarget s name target")
    case False
    then show ?thesis using that(1) assms Some by (simp add: updateMatchedSchedule_def)
  next
    case True
    then obtain t u where "StoredScheduleSchema env t = Inr u" "ss_id t = i" "matchesNameAndTarget u name target"
      "r = Some u" "st' = store_write u st"
      using assms Some by (auto simp: updateMatchedSchedule_def bind_sum_Inr split: if_splits)
    then show ?thesis using that(2) [of u] schema_result [of env t u] by simp
  qed
qed

lemma upsert_matches:
  assumes "createOrReplace_found env input found i now st = Inr (Some s, st')" and "trimOptionalName (ci_name input) = Some name"
  shows "matchesNameAndTarget s name (ci_target input) \<and> map_of st' (ss_id s) = Some s"
proof (cases found)
  case None
  then show ?thesis using assms
    by (auto simp: createOrReplace_found_def upsert_found_def bind_sum_Inr split: if_splits)
next
  case (Some j)
  then obtain f where "updateMatchedSchedule env j name (ci_target input) f st = Inr (Some s, st')"
    using assms by (auto simp: createOrReplace_found_def upsert_found_def bind_sum_Inr)
  then show ?thesis by (rule updateMatched_cases) auto
qed

lemma found_replaced:
  assumes "updateMatchedSchedule env i name target f st = Inr (r, st')" and "map_of st i = Some s"
    and "matchesNameAndTarget s name target"
  shows "\<exists>u. r = Some u \<and> map fst st' = map fst st \<and> ss_id u = i"
proof (rule updateMatched_cases [OF assms(1)])
  fix u assume "r = Some u" "st' = store_write u st" "ss_id u = i"
  moreover have "i \<in> set (map fst st)" using map_of_SomeD [OF assms(2)] by force
  ultimately show ?thesis by (simp add: store_write_def update_keys)
qed (use assms(2,3) in auto)

text \<open>
  Repeating a create with the same name and target makes no second schedule: it writes to the one that
  exists, which still has that name and target, the directory keeps its entries, and no further round of the
  search is needed.
\<close>

lemma repeated_create_replaces:
  assumes "store_ok env st" and "trimOptionalName (ci_name input) = Some name" and "map_of st i1 = None"
    and "createOrReplace env input i1 now1 st = Inr (Some s1, st1)"
    and "trimOptionalName (ci_name input2) = Some name" and "ci_target input2 = ci_target input"
    and "createOrReplace env input2 i2 now2 st1 = Inr (r, st2)"
  shows "\<exists>s2. r = Some s2 \<and> map fst st2 = map fst st1 \<and> ss_id s2 \<in> set (map fst st1) \<and>
    matchesNameAndTarget s2 name (ci_target input)"
proof -
  have 1: "store_ok env st1" using createOrReplace_result [OF _ assms(1,3)] assms(4) by (auto simp: createOrReplace_def)
  note m = upsert_matches [OF assms(4) [unfolded createOrReplace_def] assms(2)]
  obtain j where j: "find_match name (ci_target input) st1 = Some j"
    using find_match_exists [OF 1] m by blast
  obtain s where s: "map_of st1 j = Some s" "matchesNameAndTarget s name (ci_target input)"
    using find_match_Some [OF 1 j] by blast
  obtain f where "updateMatchedSchedule env j name (ci_target input) f st1 = Inr (r, st2)"
    using assms(5-7) j by (auto simp: createOrReplace_def createOrReplace_found_def upsert_found_def bind_sum_Inr)
  from found_replaced [OF this s] obtain u where u: "r = Some u" "map fst st2 = map fst st1" "ss_id u = j" by blast
  then show ?thesis
    using upsert_matches [OF assms(7) [unfolded createOrReplace_def u(1)] assms(5)] assms(6) map_of_SomeD [OF s(1)] by force
qed

section \<open>What goes wrong\<close>

text \<open>A tick decides about a schedule from its copy of it alone.\<close>

lemma stale_copy_runs:
  assumes "ss_status s = ScheduleActive" "ss_nextRunAt s = Some due" "due \<le> now" "\<not> shouldCompleteSchedule env s now"
    and "ss_id s \<notin> sv_runningIds sv"
  shows "service_step env (TickStep (now, s # rest) runId) sv =
    begin_run s now False runId (Some (now, rest)) (sv\<lparr>sv_ticks := remove1 (now, s # rest) (sv_ticks sv)\<rparr>)"
  using assms by (simp add: tick_step_def Let_def)

lemma find_in_append: "List.find P (xs @ ys) = (case List.find P xs of None \<Rightarrow> List.find P ys | r \<Rightarrow> r)"
  by (induction xs) auto

lemma find_new_flight:
  assumes "fresh_run runId sv" and "sv_flights sv' = sv_flights sv @ [f]" and "rn_id (fl_run f) = runId"
  shows "find_flight runId sv' = Some f"
proof -
  have "List.find (\<lambda>g. rn_id (fl_run g) = runId) (sv_flights sv) = None"
    using assms(1) by (auto simp: fresh_run_def list_all_iff find_None_iff)
  then show ?thesis using assms(2,3) by (simp add: find_flight_def find_in_append)
qed

text \<open>
  C39: A tick goes on with the list it read at its start, however long it waited for a run in between.  Let
  it come to its copy of a schedule, which was active and due, while in the store that schedule has been
  completed meanwhile (its run limit reached by the run of another tick, or its agent gone) and does
  not run now.  Then the tick starts a run for the time of the stale copy, and the completed schedule gets one
  more run, beyond its limit.
\<close>

theorem stale_tick_overruns:
  assumes "serviced env P sv" and "service_enabled sv (TickStep (now, s # rest) runId)"
    and "ss_status s = ScheduleActive" "ss_nextRunAt s = Some due" "due \<le> now" "\<not> shouldCompleteSchedule env s now"
    and "ss_id s \<notin> sv_runningIds sv"
    and "map_of (sv_store sv) (ss_id s) = Some held" and "ss_status held = ScheduleCompleted"
    and "sv1 = service_step env (TickStep (now, s # rest) runId) sv"
  shows "service_enabled sv1 (AppendRun runId) \<and>
    (\<exists>u run. map_of (sv_store (service_step env (AppendRun runId) sv1)) (ss_id s) = Some u \<and>
       ss_status u = ScheduleCompleted \<and> ss_maxRuns u = ss_maxRuns held \<and> ss_runs u = ss_runs held @ [run] \<and>
       rn_id run = runId \<and> rn_status run = RunRunning \<and> rn_scheduledFor run = due \<and> rn_startedAt run = now)"
proof -
  define run where "run = \<lparr>rn_id = runId, rn_scheduledFor = due, rn_startedAt = now, rn_endedAt = None,
    rn_status = RunRunning, rn_agentId = None, rn_workspaceId = None, rn_output = None, rn_error = None\<rparr>"
  define f where "f = \<lparr>fl_schedule = ss_id s, fl_run = run, fl_manual = False, fl_appended = False, fl_rest = Some (now, rest)\<rparr>"
  have sv1: "sv_flights sv1 = sv_flights sv @ [f]" "sv_store sv1 = sv_store sv" "sv_up sv1 = sv_up sv"
    unfolding assms(10) stale_copy_runs [OF assms(3-7)] using assms(4) by (simp_all add: begin_run_def f_def run_def)
  have "fresh_run runId sv" "sv_up sv" using assms(2) by simp_all
  then have ff: "find_flight runId sv1 = Some f" using find_new_flight sv1(1) by (simp add: f_def run_def)
  have ok: "schedule_ok env held" "ss_id held = ss_id s"
    using store_ok_get [OF service_ok_store [OF serviced_ok [OF assms(1)]] assms(8)] by simp_all
  then have sch: "schema_ok env held" by (simp add: schedule_ok_def)
  let ?t = "held\<lparr>ss_updatedAt := now, ss_runs := ss_runs held @ [run]\<rparr>"
  have "list_all (run_valid env) (ss_runs ?t)"
    using schema_runs [OF sch] by (auto simp: list_all_iff run_valid_def run_def)
  then obtain u where u: "StoredScheduleSchema env ?t = Inr u" using schema_keep [OF sch, of ?t] by auto
  note r = schema_result [OF u]
  have "update_schedule env (ss_id s) (append_updater run) (sv_store sv1) = Inr (Some u, store_write u (sv_store sv))"
    using u ok(2) by (simp add: update_schedule_def sv1(2) assms(8) append_updater_def run_def)
  then have "sv_store (service_step env (AppendRun runId) sv1) = store_write u (sv_store sv)"
    using ff by (simp add: append_run_def f_def)
  then have "map_of (sv_store (service_step env (AppendRun runId) sv1)) (ss_id s) = Some u"
    using r ok(2) by simp
  moreover have "service_enabled sv1 (AppendRun runId)"
    using ff \<open>sv_up sv\<close> sv1(3) by (simp add: in_flight_def f_def)
  ultimately show ?thesis using r assms(9) by (auto simp: run_def)
qed

text \<open>
  Such a state is reached: \<open>b\<close>, with \<open>maxRuns\<close> one, was due together with \<open>a\<close>, has been run by the second
  tick and is completed; the first tick comes to it after the run of \<open>a\<close>.
\<close>

definition stale_state :: schedule_service where
  "stale_state = the (service_run every_minute sample_env (take 11 stale_script) new_service)"

definition stale_copy :: stored_schedule where
  "stale_copy = hd (snd (last (sv_ticks stale_state)))"

lemma stale_state_reached: "service_run every_minute sample_env (take 11 stale_script) new_service = Some stale_state"
proof -
  have "service_run every_minute sample_env (take 11 stale_script) new_service \<noteq> None" by code_simp
  then show ?thesis by (auto simp: stale_state_def)
qed

theorem stale_tick_overruns_witness:
  "\<exists>u. map_of (sv_store (service_step sample_env (AppendRun ''r3'')
        (service_step sample_env (TickStep (1, [stale_copy]) ''r3'') stale_state))) ''b'' = Some u \<and>
     ss_status u = ScheduleCompleted \<and> ss_maxRuns u = Some 1 \<and> map rn_scheduledFor (ss_runs u) = [0, 0]"
proof -
  have s: "serviced sample_env (\<lambda>_. True) stale_state"
    by (rule service_run_serviced [OF stale_state_reached serviced.init]) simp
  have e: "service_enabled stale_state (TickStep (1, [stale_copy]) ''r3'')" by code_simp
  have c: "ss_status stale_copy = ScheduleActive" "ss_nextRunAt stale_copy = Some 0" "(0 :: int) \<le> 1"
    "\<not> shouldCompleteSchedule sample_env stale_copy 1" "ss_id stale_copy \<notin> sv_runningIds stale_state"
    and i: "ss_id stale_copy = ''b''" by code_simp+
  have "map_of (sv_store stale_state) (ss_id stale_copy) \<noteq> None" by code_simp
  then obtain held where st: "map_of (sv_store stale_state) (ss_id stale_copy) = Some held" by blast
  have "map_option (\<lambda>x. (ss_status x, ss_maxRuns x, map rn_scheduledFor (ss_runs x)))
      (map_of (sv_store stale_state) (ss_id stale_copy)) = Some (ScheduleCompleted, Some 1, [0])" by code_simp
  with st have d: "ss_status held = ScheduleCompleted" "ss_maxRuns held = Some 1" "map rn_scheduledFor (ss_runs held) = [0]"
    by simp_all
  from stale_tick_overruns [OF s e c st d(1) refl] d(2,3) show ?thesis by (auto simp: i)
qed

lemma update_all_fails:
  assumes "\<And>st. map_of st i = Some s \<Longrightarrow> update_schedule env i (recover_updater env now) st = Inl e"
    and "store_ok env st" and "map_of st i = Some s" and "i \<in> set is'"
  shows "fst (update_all env (recover_updater env now) is' st) \<noteq> []"
  using assms(2-)
proof (induction is' arbitrary: st)
  case (Cons j is')
  show ?case
  proof (cases "update_schedule env j (recover_updater env now) st")
    case (Inr x)
    then obtain r st1 where x: "update_schedule env j (recover_updater env now) st = Inr (r, st1)" by (cases x) simp
    then have "j \<noteq> i" using assms(1) [OF Cons.prems(2)] by auto
    then show ?thesis using Cons recovering.update_result(1,2) [OF x Cons.prems(1) TrueI] x by auto
  qed (simp split: prod.split)
qed simp

text \<open>
  C40: When the next run cannot be computed (a cron expression without a match in 366 days), a run that ends is
  not recorded at all: the store is as before, the run still marked as running and the schedule still due, but no
  longer in \<open>runningScheduleIds\<close>, so that the next tick runs it again; and a restart of the daemon fails.
\<close>

theorem uncomputable_cadence_repeats:
  assumes "serviced env P sv" and "find_flight runId sv = Some f" and "fl_appended f" and "\<not> fl_manual f"
    and "map_of (sv_store sv) (fl_schedule f) = Some s" and "ss_status s = ScheduleActive" and "ss_nextRunAt s = Some base"
    and "ss_maxRuns s = None" and "ss_expiresAt s = None"
    and "computeNextRunAt (se_intl env) (ss_cadence s) base = Inl e" and "\<forall>err. outcome \<noteq> RunError err True"
  shows "sv_store (settle_flight env runId outcome now sv) = sv_store sv \<and>
    fl_schedule f \<notin> sv_runningIds (settle_flight env runId outcome now sv) \<and>
    find_flight runId (settle_flight env runId outcome now sv) = None \<and>
    (base \<le> later \<longrightarrow> \<not> sv_up (start_service env present later sv))"
proof -
  have "next_after env (ss_cadence s) base t = Inl e" for t using assms(10) by (simp add: next_after_def)
  note n = this
  have "\<exists>e'. finish_run env (fl_schedule f) p now (sv_store sv) = Inl e'" if "\<not> fp_targetGone p" "\<not> fp_manual p" for p
    using that assms(5-9) n
    by (simp add: finish_run_def update_schedule_def finish_updater_def Let_def shouldCompleteSchedule_def expired_def)
  note fails = this
  have "\<exists>e'. settle_store env f outcome now (sv_store sv) = Inl e'"
  proof (cases outcome)
    case (RunOk a b)
    obtain e1 where "finish_run env (fl_schedule f) (success_params f a b) now (sv_store sv) = Inl e1"
      using fails [of "success_params f a b"] assms(4) by (auto simp: success_params_def)
    moreover obtain e2 where "finish_run env (fl_schedule f) (failure_params f e1 False) now (sv_store sv) = Inl e2"
      using fails [of "failure_params f e1 False"] assms(4) by (auto simp: failure_params_def)
    ultimately show ?thesis using RunOk by (simp add: settle_store_def)
  next
    case (RunError err gone)
    then show ?thesis using fails [of "failure_params f err gone"] assms(4,11)
      by (simp add: settle_store_def failure_params_def)
  qed
  then have s: "settle_flight env runId outcome now sv =
      (drop_flight runId sv)\<lparr>sv_runningIds := sv_runningIds sv - {fl_schedule f}\<rparr>"
    using assms(2) by (auto simp: settle_flight_def)
  note so = service_ok_store [OF serviced_ok [OF assms(1)]]
  have "update_schedule env (fl_schedule f) (recover_updater env later) st = Inl e"
    if "base \<le> later" "map_of st (fl_schedule f) = Some s" for st
    using that assms(6,7) n by (simp add: update_schedule_def recover_updater_def Let_def)
  then have "base \<le> later \<Longrightarrow> fst (update_all env (recover_updater env later) (map ss_id (list_schedules (sv_store sv))) (sv_store sv)) \<noteq> []"
    using update_all_fails [OF _ so assms(5)] list_schedules_ids(2) [OF so] assms(5) by blast
  then have "base \<le> later \<longrightarrow> \<not> sv_up (start_service env present later sv)"
    by (auto simp: start_service_def recoverInterruptedRuns_def Let_def split: prod.splits)
  then show ?thesis by (auto simp: s find_flight_def drop_flight_def find_None_iff)
qed

section \<open>Concrete executions\<close>

abbreviation stale_end :: "schedule_service option" where
  "stale_end \<equiv> service_run every_minute sample_env stale_script new_service"

lemma stale_end_obtain:
  obtains sv where "stale_end = Some sv" "serviced sample_env (\<lambda>_. True) sv" "serviced sample_env (computable sample_env) sv"
proof -
  obtain sv where sv: "stale_end = Some sv" using stale_run by (cases stale_end) auto
  moreover have "serviced sample_env (\<lambda>_. True) sv" by (rule service_run_serviced [OF sv serviced.init]) simp
  moreover have "serviced sample_env (computable sample_env) sv"
    by (rule service_run_serviced [OF sv serviced.init]) (simp add: every_minute_def computable_def computeNextRunAt_def)
  ultimately show ?thesis by (rule that)
qed

theorem schedules_consistent_witness:
  "\<exists>sv. stale_end = Some sv \<and> distinct (map fl_schedule (sv_flights sv)) \<and> fl_schedule ` set (sv_flights sv) \<subseteq> sv_runningIds sv"
  by (rule stale_end_obtain) (use schedules_consistent [of sample_env "\<lambda>_. True"] in blast)

theorem running_runs_in_flight_witness:
  "\<exists>sv. stale_end = Some sv \<and> sv_up (service_step sample_env (Restart (\<lambda>_. True) 10000) sv)"
  by (rule stale_end_obtain) (use running_runs_in_flight [of sample_env _ "\<lambda>_. True" 10000] in blast)

definition last_settle :: service_event where
  "last_settle = SettleRun ''r3'' (RunOk None None) 9000"

lemma last_settle_enabled:
  "case stale_end of None \<Rightarrow> False | Some sv \<Rightarrow> service_enabled sv last_settle \<and>
     map_of (sv_store sv) ''b'' \<noteq> None \<and> map_of (sv_store (service_step sample_env last_settle sv)) ''b'' \<noteq> None"
  by code_simp

theorem schedule_history_final_witness:
  "\<exists>sv s s'. stale_end = Some sv \<and> map_of (sv_store sv) ''b'' = Some s \<and>
     map_of (sv_store (service_step sample_env last_settle sv)) ''b'' = Some s' \<and> length (ss_runs s) \<le> length (ss_runs s')"
proof (rule stale_end_obtain)
  fix sv assume sv: "stale_end = Some sv" "serviced sample_env (\<lambda>_. True) sv"
  obtain s s' where "service_enabled sv last_settle" "map_of (sv_store sv) ''b'' = Some s"
    "map_of (sv_store (service_step sample_env last_settle sv)) ''b'' = Some s'"
    using last_settle_enabled unfolding sv(1) by auto
  with schedule_history_final [OF sv(2) this] sv(1) show ?thesis by blast
qed

definition minute_schedule :: stored_schedule where
  "minute_schedule = \<lparr>ss_id = ''a'', ss_name = None, ss_prompt = ''go'', ss_cadence = Every 60000,
     ss_target = AgentTarget ''a'', ss_status = ScheduleActive, ss_createdAt = 0, ss_updatedAt = 0, ss_nextRunAt = Some 0,
     ss_lastRunAt = None, ss_pausedAt = None, ss_expiresAt = None, ss_maxRuns = None, ss_runs = []\<rparr>"

lemma minute_recovered:
  "recover_updater sample_env 150000 minute_schedule =
     Inr (Some (minute_schedule\<lparr>ss_runs := [], ss_nextRunAt := Some 180000, ss_updatedAt := 150000\<rparr>))"
proof -
  have "next_after sample_env (Every 60000) 0 150000 = Inr 180000"
    by (simp add: next_after_def computeNextRunAt_def catch_up_loop [of "Every 60000" "Every 60000"] ScheduleCadenceSchema_def)
  then show ?thesis by (simp add: recover_updater_def minute_schedule_def close_interrupted_def)
qed

theorem next_run_on_grid_witness:
  "\<exists>t. t = 180000 \<and> 150000 < t \<and> fires sample_env (Every 60000) 0 t \<and>
     (\<forall>v. fires sample_env (Every 60000) 0 v \<and> 150000 < v \<longrightarrow> t \<le> v)"
  using next_run_on_grid [of minute_schedule "Every 60000" 0 sample_env undefined 150000, OF _ _ _ disjI2 [OF conjI [OF minute_recovered]]]
  by (simp add: minute_schedule_def ScheduleCadenceSchema_def)

lemma created_twice:
  "case createOrReplace sample_env (sample_input ''a'' (Every 60000) None) ''x1'' 0 [] of
     Inr (Some s1, st1) \<Rightarrow>
       (case createOrReplace sample_env (sample_input ''a'' (Every 30000) (Some 2)) ''x2'' 5 st1 of Inr _ \<Rightarrow> True | Inl _ \<Rightarrow> False)
   | _ \<Rightarrow> False"
  by code_simp

theorem repeated_create_replaces_witness:
  "\<exists>s1 st1 s2 st2. createOrReplace sample_env (sample_input ''a'' (Every 60000) None) ''x1'' 0 [] = Inr (Some s1, st1) \<and>
     createOrReplace sample_env (sample_input ''a'' (Every 30000) (Some 2)) ''x2'' 5 st1 = Inr (Some s2, st2) \<and>
     map fst st2 = map fst st1"
proof -
  let ?in1 = "sample_input ''a'' (Every 60000) None" and ?in2 = "sample_input ''a'' (Every 30000) (Some 2)"
  obtain r1 st1 where c: "createOrReplace sample_env ?in1 ''x1'' 0 [] = Inr (r1, st1)"
    using created_twice by (cases "createOrReplace sample_env ?in1 ''x1'' 0 []") auto
  then obtain s1 where 1: "createOrReplace sample_env ?in1 ''x1'' 0 [] = Inr (Some s1, st1)"
    using created_twice by (cases r1) auto
  then obtain r st2 where 2: "createOrReplace sample_env ?in2 ''x2'' 5 st1 = Inr (r, st2)"
    using created_twice by (auto split: sum.splits)
  have "store_ok sample_env []" "trimOptionalName (Some ''a'') = Some ''a''"
    by (simp_all add: store_ok_def trimOptionalName_def trim_def is_space_def)
  then show ?thesis using repeated_create_replaces [OF _ _ _ 1 _ _ 2, of "''a''"] 1 2 by (auto simp: sample_input_def)
qed

definition leap_script :: "(schedule_service \<Rightarrow> service_event) list" where
  "leap_script =
     [\<lambda>_. Create (sample_input ''a'' (CronCadence leap_cron None) None) ''a'' march_2025,
      \<lambda>_. StartTick march_2025, step_first_tick ''r1'', \<lambda>_. AppendRun ''r1'']"

lemma leap_state:
  "case service_run (\<lambda>_. True) sample_env leap_script new_service of
     None \<Rightarrow> False
   | Some sv \<Rightarrow> (case find_flight ''r1'' sv of
       None \<Rightarrow> False
     | Some f \<Rightarrow> fl_appended f \<and> \<not> fl_manual f \<and> (case map_of (sv_store sv) (fl_schedule f) of
         None \<Rightarrow> False
       | Some s \<Rightarrow> ss_status s = ScheduleActive \<and> ss_nextRunAt s = Some march_2025 \<and> ss_maxRuns s = None \<and>
           ss_expiresAt s = None \<and> ss_cadence s = CronCadence leap_cron None))"
  by code_simp

theorem uncomputable_cadence_repeats_witness:
  "\<exists>sv. service_run (\<lambda>_. True) sample_env leap_script new_service = Some sv \<and>
     sv_store (settle_flight sample_env ''r1'' (RunOk None None) (march_2025 + 1) sv) = sv_store sv \<and>
     \<not> sv_up (start_service sample_env (\<lambda>_. True) (march_2025 + 2) sv)"
proof -
  obtain sv f s where sv: "service_run (\<lambda>_. True) sample_env leap_script new_service = Some sv"
    and f: "find_flight ''r1'' sv = Some f" "fl_appended f" "\<not> fl_manual f"
    and s: "map_of (sv_store sv) (fl_schedule f) = Some s" "ss_status s = ScheduleActive" "ss_nextRunAt s = Some march_2025"
      "ss_maxRuns s = None" "ss_expiresAt s = None" "ss_cadence s = CronCadence leap_cron None"
    using leap_state by (auto split: option.splits)
  have r: "serviced sample_env (\<lambda>_. True) sv" by (rule service_run_serviced [OF sv serviced.init])
  obtain e where "computeNextRunAt (se_intl sample_env) (ss_cadence s) march_2025 = Inl e"
    using leap_day_schedule_refused s(6) by auto
  from uncomputable_cadence_repeats [OF r f s(1-5) this, of "RunOk None None" "march_2025 + 1" "march_2025 + 2" "\<lambda>_. True"] sv
  show ?thesis by auto
qed

end
