(* ===== verification/Git_Scheduler.thy ===== *)
theory Git_Scheduler
  imports Prelude "HOL-Library.Multiset" "HOL-Library.Sublist"
begin

text \<open>
  \<open>packages/server/src/utils/git-process-scheduler.ts\<close>: at most so many git processes at a time,
  urgent ones first.  A job is a call of \<open>run\<close>.  The events of the outside are steps: the callback of
  \<open>setImmediate\<close>, \<open>p-throttle\<close> starting or refusing a job it was given, and the exit of a process.  What
  \<open>p-throttle\<close> delays is not bounded here: a job it holds starts at some later step.
\<close>

section \<open>State\<close>

type_synonym job = nat

datatype priority = NormalPriority | HighPriority

text \<open>
  \<open>gs_immediates\<close> counts the callbacks handed to \<open>setImmediate\<close>, \<open>gs_throttled\<close> holds the jobs given to
  \<open>p-throttle\<close> and \<open>gs_executing\<close> those whose process runs; \<open>gs_admissions\<close>, \<open>gs_rejected\<close> and \<open>gs_exited\<close> are logs.
\<close>

record scheduler =
  gs_high :: "job list"
  gs_normal :: "job list"
  gs_admitted :: nat
  gs_running :: nat
  gs_waiting :: nat
  gs_drainScheduled :: bool
  gs_immediates :: nat
  gs_throttled :: "job list"
  gs_executing :: "job list"
  gs_admissions :: "job list"
  gs_rejected :: "job list"
  gs_exited :: "job list"

definition new_scheduler :: scheduler where
  "new_scheduler = \<lparr>gs_high = [], gs_normal = [], gs_admitted = 0, gs_running = 0, gs_waiting = 0,
     gs_drainScheduled = False, gs_immediates = 0, gs_throttled = [], gs_executing = [],
     gs_admissions = [], gs_rejected = [], gs_exited = []\<rparr>"

definition activeCount :: "scheduler \<Rightarrow> nat" where
  "activeCount s = gs_running s"

definition pendingCount :: "scheduler \<Rightarrow> nat" where
  "pendingCount s = gs_waiting s"

section \<open>Operations\<close>

definition scheduleDrain :: "nat \<Rightarrow> scheduler \<Rightarrow> scheduler" where
  "scheduleDrain maxConcurrency s =
     (if gs_drainScheduled s \<or> gs_admitted s \<ge> maxConcurrency then s
      else if gs_high s = [] \<and> gs_normal s = [] then s
      else s\<lparr>gs_drainScheduled := True, gs_immediates := gs_immediates s + 1\<rparr>)"

text \<open>\<open>admit()\<close> hands the job to \<open>p-throttle\<close>.\<close>

definition admit :: "job \<Rightarrow> scheduler \<Rightarrow> scheduler" where
  "admit j s = s\<lparr>gs_throttled := gs_throttled s @ [j], gs_admissions := gs_admissions s @ [j]\<rparr>"

definition shift_queues :: "scheduler \<Rightarrow> (job \<times> scheduler) option" where
  "shift_queues s = (case gs_high s of
      j # rest \<Rightarrow> Some (j, s\<lparr>gs_high := rest\<rparr>)
    | [] \<Rightarrow> (case gs_normal s of j # rest \<Rightarrow> Some (j, s\<lparr>gs_normal := rest\<rparr>) | [] \<Rightarrow> None))"

definition drainOne :: "nat \<Rightarrow> scheduler \<Rightarrow> scheduler" where
  "drainOne maxConcurrency s0 =
     (let s = s0\<lparr>gs_drainScheduled := False\<rparr> in
      if gs_admitted s \<ge> maxConcurrency then s
      else case shift_queues s of
        None \<Rightarrow> s
      | Some (j, s1) \<Rightarrow>
          scheduleDrain maxConcurrency (admit j (s1\<lparr>gs_admitted := gs_admitted s1 + 1\<rparr>)))"

definition enqueue :: "job \<Rightarrow> priority \<Rightarrow> scheduler \<Rightarrow> scheduler" where
  "enqueue j priority s = (case priority of
      HighPriority \<Rightarrow> s\<lparr>gs_high := gs_high s @ [j]\<rparr>
    | NormalPriority \<Rightarrow> s\<lparr>gs_normal := gs_normal s @ [j]\<rparr>)"

definition run_job :: "nat \<Rightarrow> job \<Rightarrow> priority \<Rightarrow> scheduler \<Rightarrow> scheduler" where
  "run_job maxConcurrency j priority s =
     (let s1 = enqueue j priority (s\<lparr>gs_waiting := gs_waiting s + 1\<rparr>) in
      if gs_admitted s1 = 0 \<and> \<not> gs_drainScheduled s1 then drainOne maxConcurrency s1
      else scheduleDrain maxConcurrency s1)"

text \<open>\<open>Math.max(0, n - 1)\<close> is the truncated subtraction of \<open>nat\<close>.\<close>

definition release :: "nat \<Rightarrow> scheduler \<Rightarrow> scheduler" where
  "release maxConcurrency s = scheduleDrain maxConcurrency
     (s\<lparr>gs_running := gs_running s - 1, gs_admitted := gs_admitted s - 1\<rparr>)"

text \<open>The part of \<open>execute\<close> up to \<open>await process.exited\<close>; \<open>start()\<close> may throw.\<close>

definition execute :: "nat \<Rightarrow> job \<Rightarrow> bool \<Rightarrow> scheduler \<Rightarrow> scheduler" where
  "execute maxConcurrency j starts s =
     (let s1 = s\<lparr>gs_waiting := gs_waiting s - 1, gs_running := gs_running s + 1,
                gs_throttled := remove1 j (gs_throttled s)\<rparr>
      in if starts then s1\<lparr>gs_executing := gs_executing s1 @ [j]\<rparr>
         else release maxConcurrency (s1\<lparr>gs_rejected := gs_rejected s1 @ [j]\<rparr>))"

text \<open>The rest of \<open>execute\<close>, when the process has exited.\<close>

definition exited :: "nat \<Rightarrow> job \<Rightarrow> scheduler \<Rightarrow> scheduler" where
  "exited maxConcurrency j s = release maxConcurrency
     (s\<lparr>gs_executing := remove1 j (gs_executing s), gs_exited := gs_exited s @ [j]\<rparr>)"

text \<open>The \<open>catch\<close> of \<open>startThrottled\<close>: \<open>p-throttle\<close> gave the job back.\<close>

definition refused :: "nat \<Rightarrow> job \<Rightarrow> scheduler \<Rightarrow> scheduler" where
  "refused maxConcurrency j s = scheduleDrain maxConcurrency
     (s\<lparr>gs_waiting := gs_waiting s - 1, gs_throttled := remove1 j (gs_throttled s),
        gs_rejected := gs_rejected s @ [j], gs_admitted := gs_admitted s - 1\<rparr>)"

section \<open>Steps\<close>

datatype event =
    Submit job priority
  | Immediate
  | ThrottleStarts job bool
  | ThrottleRefuses job
  | Exits job

fun enabled :: "scheduler \<Rightarrow> event \<Rightarrow> bool" where
  "enabled s (Submit j p) = (j \<notin> set (gs_high s @ gs_normal s @ gs_admissions s))"
| "enabled s Immediate = (gs_immediates s > 0)"
| "enabled s (ThrottleStarts j ok) = (j \<in> set (gs_throttled s))"
| "enabled s (ThrottleRefuses j) = (j \<in> set (gs_throttled s))"
| "enabled s (Exits j) = (j \<in> set (gs_executing s))"

fun step :: "nat \<Rightarrow> event \<Rightarrow> scheduler \<Rightarrow> scheduler" where
  "step m (Submit j p) s = run_job m j p s"
| "step m Immediate s = drainOne m (s\<lparr>gs_immediates := gs_immediates s - 1\<rparr>)"
| "step m (ThrottleStarts j ok) s = execute m j ok s"
| "step m (ThrottleRefuses j) s = refused m j s"
| "step m (Exits j) s = exited m j s"

inductive scheduled :: "nat \<Rightarrow> (job \<times> priority) list \<Rightarrow> scheduler \<Rightarrow> bool" for m where
  init: "scheduled m [] new_scheduler"
| submit: "scheduled m js s \<Longrightarrow> enabled s (Submit j p) \<Longrightarrow> scheduled m (js @ [(j, p)]) (step m (Submit j p) s)"
| event: "scheduled m js s \<Longrightarrow> enabled s e \<Longrightarrow> (\<forall>j p. e \<noteq> Submit j p) \<Longrightarrow> scheduled m js (step m e s)"

section \<open>The invariant\<close>

definition queued :: "scheduler \<Rightarrow> job list" where
  "queued s = gs_high s @ gs_normal s"

definition stalled :: "nat \<Rightarrow> scheduler \<Rightarrow> bool" where
  "stalled m s \<longleftrightarrow> queued s \<noteq> [] \<and> gs_admitted s < m \<and> \<not> gs_drainScheduled s"

text \<open>All but the last conjunct, which \<open>scheduleDrain\<close> restores.\<close>

definition counts_ok :: "nat \<Rightarrow> scheduler \<Rightarrow> bool" where
  "counts_ok m s \<longleftrightarrow> gs_running s = length (gs_executing s) \<and>
     gs_admitted s = length (gs_throttled s) + length (gs_executing s) \<and> gs_admitted s \<le> m \<and>
     gs_waiting s = length (queued s) + length (gs_throttled s) \<and>
     gs_immediates s = (if gs_drainScheduled s then 1 else 0) \<and>
     mset (gs_admissions s) =
       mset (gs_throttled s) + mset (gs_executing s) + mset (gs_exited s) + mset (gs_rejected s)"

definition scheduler_ok :: "nat \<Rightarrow> scheduler \<Rightarrow> bool" where
  "scheduler_ok m s \<longleftrightarrow> counts_ok m s \<and> \<not> stalled m s"

lemma scheduleDrain_ok: "counts_ok m s \<Longrightarrow> scheduler_ok m (scheduleDrain m s)"
  by (auto simp: scheduler_ok_def counts_ok_def stalled_def scheduleDrain_def queued_def)

lemma scheduleDrain_fields [simp]:
  "queued (scheduleDrain m s) = queued s" "gs_high (scheduleDrain m s) = gs_high s"
  "gs_normal (scheduleDrain m s) = gs_normal s"
  "gs_admitted (scheduleDrain m s) = gs_admitted s" "gs_throttled (scheduleDrain m s) = gs_throttled s"
  "gs_executing (scheduleDrain m s) = gs_executing s"
  "gs_exited (scheduleDrain m s) = gs_exited s" "gs_rejected (scheduleDrain m s) = gs_rejected s" "gs_admissions (scheduleDrain m s) = gs_admissions s"
  by (simp_all add: scheduleDrain_def queued_def)

lemma shift_cases:
  assumes "shift_queues s = Some (j, t)"
  shows "queued s = j # queued t" "t = s\<lparr>gs_high := gs_high t, gs_normal := gs_normal t\<rparr>"
  using assms by (auto simp: shift_queues_def queued_def split: list.splits)

lemma shift_None: "shift_queues s = None \<longleftrightarrow> queued s = []"
  by (auto simp: shift_queues_def queued_def split: list.splits)

lemma queued_fields [simp]:
  "queued (s\<lparr>gs_waiting := w\<rparr>) = queued s" "queued (s\<lparr>gs_running := r\<rparr>) = queued s"
  "queued (s\<lparr>gs_admitted := a\<rparr>) = queued s" "queued (s\<lparr>gs_drainScheduled := d\<rparr>) = queued s"
  "queued (s\<lparr>gs_immediates := k\<rparr>) = queued s" "queued (s\<lparr>gs_throttled := js\<rparr>) = queued s"
  "queued (s\<lparr>gs_executing := js\<rparr>) = queued s" "queued (s\<lparr>gs_exited := js\<rparr>) = queued s" "queued (s\<lparr>gs_rejected := js\<rparr>) = queued s"
  "queued (admit j s) = queued s"
  by (simp_all add: queued_def admit_def)

lemma counts_unscheduled:
  "counts_ok m s \<Longrightarrow> \<not> gs_drainScheduled s \<Longrightarrow> counts_ok m (s\<lparr>gs_drainScheduled := False\<rparr>)"
  by (simp add: counts_ok_def)

lemma drainOne_ok:
  assumes ok: "counts_ok m (s\<lparr>gs_drainScheduled := False\<rparr>)"
  shows "scheduler_ok m (drainOne m s)"
proof (cases "gs_admitted s \<ge> m")
  case True
  with ok show ?thesis by (simp add: drainOne_def scheduler_ok_def stalled_def)
next
  case False
  let ?s = "s\<lparr>gs_drainScheduled := False\<rparr>"
  show ?thesis
  proof (cases "shift_queues ?s")
    case None
    then have "queued ?s = []" by (simp only: shift_None)
    with None False ok show ?thesis by (simp add: drainOne_def scheduler_ok_def stalled_def)
  next
    case (Some z)
    then obtain j t where t: "shift_queues ?s = Some (j, t)" by (cases z) auto
    note c = shift_cases [OF t]
    have fields: "gs_running t = gs_running s" "gs_admitted t = gs_admitted s" "gs_waiting t = gs_waiting s"
      "gs_drainScheduled t = False" "gs_immediates t = gs_immediates s" "gs_throttled t = gs_throttled s"
      "gs_executing t = gs_executing s"
      "gs_exited t = gs_exited s" "gs_rejected t = gs_rejected s" "gs_admissions t = gs_admissions s"
      by (subst c(2), simp)+
    have "queued s = j # queued t" using c(1) by simp
    with ok False fields have "counts_ok m (admit j (t\<lparr>gs_admitted := gs_admitted t + 1\<rparr>))"
      by (auto simp: counts_ok_def) (auto simp: admit_def)
    with t False show ?thesis by (simp add: drainOne_def Let_def scheduleDrain_ok)
  qed
qed

lemma enqueue_fields [simp]:
  "gs_running (enqueue j p s) = gs_running s" "gs_admitted (enqueue j p s) = gs_admitted s"
  "gs_waiting (enqueue j p s) = gs_waiting s" "gs_drainScheduled (enqueue j p s) = gs_drainScheduled s"
  "gs_immediates (enqueue j p s) = gs_immediates s" "gs_throttled (enqueue j p s) = gs_throttled s"
  "gs_executing (enqueue j p s) = gs_executing s" "gs_admissions (enqueue j p s) = gs_admissions s"
  "gs_exited (enqueue j p s) = gs_exited s" "gs_rejected (enqueue j p s) = gs_rejected s"
  "length (queued (enqueue j p s)) = Suc (length (queued s))" "set (queued (enqueue j p s)) = insert j (set (queued s))"
  by (auto simp: enqueue_def queued_def split: priority.split)

lemma remove1_rest:
  assumes "j \<in> set js"
  obtains r where "remove1 j js = r" "length js = Suc (length r)" "mset js = add_mset j (mset r)"
proof (rule that [OF refl])
  show "length js = Suc (length (remove1 j js))" 
    using assms length_pos_if_in_set [OF assms] by (simp add: length_remove1)
  show "mset js = add_mset j (mset (remove1 j js))" using assms by simp
qed

text \<open>The three ways a job leaves the throttle or its process.\<close>

lemma counts_execute:
  assumes "counts_ok m s" and j: "j \<in> set (gs_throttled s)"
  shows "counts_ok m (s\<lparr>gs_waiting := gs_waiting s - 1, gs_running := gs_running s + 1,
           gs_throttled := remove1 j (gs_throttled s), gs_executing := gs_executing s @ [j]\<rparr>)"
  using j by (rule remove1_rest) (use assms(1) in \<open>simp add: counts_ok_def\<close>)

lemma counts_drop:
  assumes "counts_ok m s" and j: "j \<in> set (gs_throttled s)"
  shows "counts_ok m (s\<lparr>gs_waiting := gs_waiting s - 1, gs_throttled := remove1 j (gs_throttled s),
           gs_rejected := gs_rejected s @ [j], gs_admitted := gs_admitted s - 1\<rparr>)"
  using j by (rule remove1_rest) (use assms(1) in \<open>simp add: counts_ok_def\<close>)

lemma counts_exit:
  assumes "counts_ok m s" and j: "j \<in> set (gs_executing s)"
  shows "counts_ok m (s\<lparr>gs_executing := remove1 j (gs_executing s), gs_exited := gs_exited s @ [j], gs_running := gs_running s - 1,
           gs_admitted := gs_admitted s - 1\<rparr>)"
  using j by (rule remove1_rest) (use assms(1) in \<open>simp add: counts_ok_def\<close>)

lemma step_ok:
  assumes ok: "scheduler_ok m s" and e: "enabled s e"
  shows "scheduler_ok m (step m e s)"
proof -
  have c: "counts_ok m s" using ok by (simp add: scheduler_ok_def)
  show ?thesis
  proof (cases e)
    case (Submit j p)
    let ?s = "enqueue j p (s\<lparr>gs_waiting := gs_waiting s + 1\<rparr>)"
    have q: "counts_ok m ?s" using c by (simp add: counts_ok_def)
    have d: "counts_ok m (?s\<lparr>gs_drainScheduled := False\<rparr>)" if "\<not> gs_drainScheduled s"
      using counts_unscheduled [OF q] that by simp
    show ?thesis
      unfolding Submit step.simps run_job_def Let_def
      using drainOne_ok [OF d] scheduleDrain_ok [OF q] by simp
  next
    case Immediate
    have "counts_ok m (s\<lparr>gs_immediates := gs_immediates s - 1, gs_drainScheduled := False\<rparr>)"
      using c e Immediate by (simp add: counts_ok_def split: if_split_asm)
    then show ?thesis using Immediate drainOne_ok [of m "s\<lparr>gs_immediates := gs_immediates s - 1\<rparr>"] by simp
  next
    case (ThrottleStarts j starts)
    then have j: "j \<in> set (gs_throttled s)" using e by simp
    show ?thesis
    proof (cases starts)
      case True
      with ThrottleStarts counts_execute [OF c j] ok show ?thesis
        by (simp add: execute_def Let_def scheduler_ok_def stalled_def)
    next
      case False
      with ThrottleStarts scheduleDrain_ok [OF counts_drop [OF c j]] show ?thesis
        by (simp add: execute_def release_def Let_def)
    qed
  next
    case (ThrottleRefuses j)
    with e scheduleDrain_ok [OF counts_drop [OF c, of j]] show ?thesis by (simp add: refused_def)
  next
    case (Exits j)
    with e scheduleDrain_ok [OF counts_exit [OF c, of j]] show ?thesis by (simp add: exited_def release_def)
  qed
qed

section \<open>Order and conservation\<close>

definition of_priority :: "priority \<Rightarrow> (job \<times> priority) list \<Rightarrow> job list" where
  "of_priority p js = [fst z. z \<leftarrow> js, snd z = p]"

definition queue_of :: "priority \<Rightarrow> scheduler \<Rightarrow> job list" where
  "queue_of p s = (case p of HighPriority \<Rightarrow> gs_high s | NormalPriority \<Rightarrow> gs_normal s)"

text \<open>Within a priority: the jobs admitted so far and then the queue are the jobs in the order of \<open>run\<close>.\<close>

definition fifo :: "(job \<times> priority) list \<Rightarrow> scheduler \<Rightarrow> bool" where
  "fifo js s \<longleftrightarrow> distinct (map fst js) \<and> mset (map fst js) = mset (queued s) + mset (gs_admissions s) \<and>
     (\<forall>p. [j \<leftarrow> gs_admissions s. j \<in> set (of_priority p js)] @ queue_of p s = of_priority p js)"

lemma of_priority_snoc: "of_priority p (js @ [(j, q)]) = of_priority p js @ (if q = p then [j] else [])"
  by (simp add: of_priority_def)

lemma of_priority_fst: "j \<in> set (of_priority p js) \<Longrightarrow> j \<in> fst ` set js"
  by (induction js) (auto simp: of_priority_def)

lemma fifo_cong:
  "gs_high s = gs_high t \<Longrightarrow> gs_normal s = gs_normal t \<Longrightarrow> gs_admissions s = gs_admissions t \<Longrightarrow>
     fifo js s \<longleftrightarrow> fifo js t"
  by (simp add: fifo_def queued_def queue_of_def cong: priority.case_cong)

lemma scheduleDrain_fifo [simp]: "fifo js (scheduleDrain m s) \<longleftrightarrow> fifo js s"
  by (rule fifo_cong) simp_all

lemma fifo_enqueue:
  assumes "fifo js s" and "j \<notin> set (queued s)" "j \<notin> set (gs_admissions s)"
  shows "fifo (js @ [(j, p)]) (enqueue j p s)"
proof -
  from assms(1) have m: "mset (map fst js) = mset (queued s) + mset (gs_admissions s)" by (simp add: fifo_def)
  have "set (map fst js) = set (queued s) \<union> set (gs_admissions s)"
    using arg_cong [OF m, of set_mset] by (simp only: set_mset_mset set_mset_union)
  with assms(2,3) have new: "j \<notin> fst ` set js" by auto
  have f: "[i \<leftarrow> gs_admissions s. i \<in> set (of_priority q (js @ [(j, p)]))] = [i \<leftarrow> gs_admissions s. i \<in> set (of_priority q js)]" for q
    by (rule filter_cong) (use assms(3) in \<open>auto simp: of_priority_snoc\<close>)
  have q: "queue_of q (enqueue j p s) = queue_of q s @ (if p = q then [j] else [])" for q
    by (cases p; cases q) (simp_all add: queue_of_def enqueue_def)
  have "mset (queued (enqueue j p s)) = add_mset j (mset (queued s))"
    by (cases p) (simp_all add: enqueue_def queued_def)
  with new m assms(1) show ?thesis
    unfolding fifo_def by (simp only: f q enqueue_fields) (simp add: of_priority_snoc)
qed

text \<open>Taking the head of a queue: a job of normal priority only when no urgent one waits.\<close>

lemma shift_takes:
  assumes "shift_queues s = Some (j, t)"
  obtains p where "queue_of p s = j # queue_of p t" "\<And>q. q \<noteq> p \<Longrightarrow> queue_of q t = queue_of q s"
    "p = NormalPriority \<Longrightarrow> gs_high s = []"
  using assms by (fastforce simp: shift_queues_def queue_of_def split: list.splits priority.splits
      intro: that [of HighPriority] that [of NormalPriority])

lemma drainOne_fifo:
  assumes "fifo js s"
  shows "fifo js (drainOne m s)"
proof (cases "gs_admitted s \<ge> m \<or> shift_queues (s\<lparr>gs_drainScheduled := False\<rparr>) = None")
  case True
  then have "fifo js (drainOne m s) \<longleftrightarrow> fifo js s" by (intro fifo_cong) (auto simp: drainOne_def Let_def)
  with assms show ?thesis by simp
next
  case False
  then obtain j t where t: "shift_queues (s\<lparr>gs_drainScheduled := False\<rparr>) = Some (j, t)" by auto
  let ?t = "admit j (t\<lparr>gs_admitted := gs_admitted t + 1\<rparr>)"
  from t obtain p where p: "queue_of p (s\<lparr>gs_drainScheduled := False\<rparr>) = j # queue_of p t"
    "\<And>q. q \<noteq> p \<Longrightarrow> queue_of q t = queue_of q (s\<lparr>gs_drainScheduled := False\<rparr>)"
    by (rule shift_takes) blast
  have ps: "queue_of p s = j # queue_of p t" "\<And>q. q \<noteq> p \<Longrightarrow> queue_of q s = queue_of q t"
    using p by (auto simp: queue_of_def split: priority.splits)
  have a: "gs_admissions ?t = gs_admissions s @ [j]" by (subst shift_cases(2) [OF t]) (simp add: admit_def)
  have u: "queue_of q ?t = queue_of q t" for q by (simp add: queue_of_def admit_def split: priority.split)
  have "queued s = j # queued t" using shift_cases(1) [OF t] by simp
  then have ms: "mset (queued ?t) + mset (gs_admissions ?t) = mset (queued s) + mset (gs_admissions s)"
    unfolding a by simp
  from assms have d: "distinct (map fst js)"
    and o: "\<And>q. [i \<leftarrow> gs_admissions s. i \<in> set (of_priority q js)] @ queue_of q s = of_priority q js" by (auto simp: fifo_def)
  have jp: "j \<in> set (of_priority p js)" using o [of p] ps(1) by (metis in_set_conv_decomp)
  have other: "j \<notin> set (of_priority q js)" if "q \<noteq> p" for q
    using jp that d by (auto simp: of_priority_def distinct_map inj_on_def)
  have "[i \<leftarrow> gs_admissions ?t. i \<in> set (of_priority q js)] @ queue_of q ?t = of_priority q js" for q
    unfolding a u using o [of q] ps jp other [of q] by (cases "q = p") simp_all
  with assms ms have "fifo js ?t" by (simp add: fifo_def)
  with t False show ?thesis by (simp add: drainOne_def Let_def)
qed

lemma step_fifo:
  assumes "fifo js s" and "enabled s e"
  shows "fifo (case e of Submit j p \<Rightarrow> js @ [(j, p)] | _ \<Rightarrow> js) (step m e s)"
proof (cases e)
  case (Submit j p)
  have "fifo js (s\<lparr>gs_waiting := gs_waiting s + 1\<rparr>)" using assms(1) by (subst fifo_cong [of _ s]) simp_all
  with assms(2) Submit have "fifo (js @ [(j, p)]) (enqueue j p (s\<lparr>gs_waiting := gs_waiting s + 1\<rparr>))"
    by (intro fifo_enqueue) (auto simp: queued_def)
  with Submit show ?thesis by (simp add: run_job_def Let_def drainOne_fifo)
next
  case Immediate
  have "fifo js (s\<lparr>gs_immediates := gs_immediates s - 1\<rparr>)" using assms(1) by (subst fifo_cong [of _ s]) simp_all
  with Immediate show ?thesis by (simp add: drainOne_fifo)
next
  case (ThrottleStarts j starts)
  have "fifo js (step m e s) \<longleftrightarrow> fifo js s"
    unfolding ThrottleStarts by (rule fifo_cong) (simp_all add: execute_def release_def Let_def)
  with assms ThrottleStarts show ?thesis by simp
next
  case (ThrottleRefuses j)
  have "fifo js (step m e s) \<longleftrightarrow> fifo js s"
    unfolding ThrottleRefuses by (rule fifo_cong) (simp_all add: refused_def)
  with assms ThrottleRefuses show ?thesis by simp
next
  case (Exits j)
  have "fifo js (step m e s) \<longleftrightarrow> fifo js s"
    unfolding Exits by (rule fifo_cong) (simp_all add: exited_def release_def)
  with assms Exits show ?thesis by simp
qed

lemma scheduled_ok: "scheduled m js s \<Longrightarrow> scheduler_ok m s \<and> fifo js s"
proof (induction rule: scheduled.induct)
  case init
  show ?case
    by (simp add: new_scheduler_def scheduler_ok_def counts_ok_def stalled_def queued_def fifo_def of_priority_def
        queue_of_def split: priority.split)
next
  case (submit js s j p)
  then show ?case using step_ok [of m s "Submit j p"] step_fifo [of js s "Submit j p" m] by simp
next
  case (event js s e)
  then show ?case using step_ok [of m s e] step_fifo [of js s e m] by (cases e) auto
qed

text \<open>A waiting urgent job is never overtaken by a normal one.\<close>

lemma drainOne_urgent: "gs_high s \<noteq> [] \<Longrightarrow> gs_normal (drainOne m s) = gs_normal s"
  by (auto simp: drainOne_def Let_def shift_queues_def admit_def split: list.split)

lemma step_urgent: "gs_high s \<noteq> [] \<Longrightarrow> prefix (gs_normal s) (gs_normal (step m e s))"
  by (cases e) (auto simp: run_job_def Let_def enqueue_def drainOne_urgent execute_def release_def refused_def
      exited_def split: priority.split)

section \<open>Termination\<close>

definition work :: "scheduler \<Rightarrow> nat" where
  "work s = 4 * length (queued s) + 3 * length (gs_throttled s) + 2 * length (gs_executing s) +
     (if gs_drainScheduled s then 1 else 0)"

fun is_submit :: "event \<Rightarrow> bool" where
  "is_submit (Submit j p) = True"
| "is_submit _ = False"

text \<open>A run of the scheduler in which nothing new is submitted.\<close>

fun settle_run :: "nat \<Rightarrow> event list \<Rightarrow> scheduler \<Rightarrow> scheduler option" where
  "settle_run m [] s = Some s"
| "settle_run m (e # es) s = (if is_submit e \<or> \<not> enabled s e then None else settle_run m es (step m e s))"

definition quiet :: "scheduler \<Rightarrow> bool" where
  "quiet s \<longleftrightarrow> gs_immediates s = 0 \<and> gs_throttled s = [] \<and> gs_executing s = []"

lemma quiet_no_event: "quiet s \<longleftrightarrow> (\<forall>e. enabled s e \<longrightarrow> is_submit e)"
proof
  assume "quiet s"
  show "\<forall>e. enabled s e \<longrightarrow> is_submit e"
  proof
    fix e show "enabled s e \<longrightarrow> is_submit e" using \<open>quiet s\<close> by (cases e) (simp_all add: quiet_def)
  qed
next
  assume n: "\<forall>e. enabled s e \<longrightarrow> is_submit e"
  from n [rule_format, of Immediate] n [rule_format, of "ThrottleRefuses (hd (gs_throttled s))"]
    n [rule_format, of "Exits (hd (gs_executing s))"] show "quiet s"
    by (auto simp: quiet_def) (metis hd_in_set)+
qed

lemma work_scheduleDrain: "work (scheduleDrain m s) \<le> Suc (work (s\<lparr>gs_drainScheduled := False\<rparr>))"
  "work s \<le> Suc (work (s\<lparr>gs_drainScheduled := False\<rparr>))"
  by (simp_all add: work_def scheduleDrain_def)

lemma work_drainOne:
  assumes "gs_drainScheduled s"
  shows "work (drainOne m s) < work s"
proof (cases "gs_admitted s \<ge> m \<or> shift_queues (s\<lparr>gs_drainScheduled := False\<rparr>) = None")
  case True
  with assms show ?thesis by (auto simp: drainOne_def Let_def work_def)
next
  case False
  then obtain j t where t: "shift_queues (s\<lparr>gs_drainScheduled := False\<rparr>) = Some (j, t)" by auto
  have q: "queued s = j # queued t" using shift_cases(1) [OF t] by simp
  have f: "gs_throttled t = gs_throttled s" "gs_executing t = gs_executing s"
    by (subst shift_cases(2) [OF t], simp)+
  let ?t = "admit j (t\<lparr>gs_admitted := gs_admitted t + 1\<rparr>)"
  have "work (?t\<lparr>gs_drainScheduled := False\<rparr>) + 2 = work s"
    using q f assms by (simp add: work_def) (simp add: admit_def)
  with work_scheduleDrain(1) [of m ?t] t False show ?thesis by (simp add: drainOne_def Let_def)
qed

lemma step_work:
  assumes ok: "scheduler_ok m s" and e: "enabled s e" "\<not> is_submit e"
  shows "work (step m e s) < work s"
proof (cases e)
  case Immediate
  with ok e have "gs_drainScheduled s" by (simp add: scheduler_ok_def counts_ok_def split: if_split_asm)
  then have "work (drainOne m (s\<lparr>gs_immediates := gs_immediates s - 1\<rparr>)) < work (s\<lparr>gs_immediates := gs_immediates s - 1\<rparr>)"
    by (intro work_drainOne) simp
  then show ?thesis using Immediate by (simp add: work_def)
next
  case (ThrottleStarts j starts)
  then have "j \<in> set (gs_throttled s)" using e by simp
  then obtain r where r: "remove1 j (gs_throttled s) = r" "length (gs_throttled s) = Suc (length r)" by (rule remove1_rest)
  show ?thesis
    unfolding ThrottleStarts step.simps execute_def release_def Let_def
    by (cases starts) (auto simp: r work_def scheduleDrain_def)
next
  case (ThrottleRefuses j)
  then have "j \<in> set (gs_throttled s)" using e by simp
  then obtain r where r: "remove1 j (gs_throttled s) = r" "length (gs_throttled s) = Suc (length r)" by (rule remove1_rest)
  show ?thesis unfolding ThrottleRefuses step.simps refused_def by (simp add: r work_def scheduleDrain_def)
next
  case (Exits j)
  then have "j \<in> set (gs_executing s)" using e by simp
  then obtain r where r: "remove1 j (gs_executing s) = r" "length (gs_executing s) = Suc (length r)" by (rule remove1_rest)
  show ?thesis unfolding Exits step.simps exited_def release_def by (simp add: r work_def scheduleDrain_def)
qed (use e in simp)

lemma settle_run_bound:
  "scheduled m js s \<Longrightarrow> settle_run m es s = Some t \<Longrightarrow> scheduled m js t \<and> length es + work t \<le> work s"
proof (induction es arbitrary: s)
  case (Cons e es)
  from Cons.prems(2) have e: "enabled s e" "\<not> is_submit e" and r: "settle_run m es (step m e s) = Some t"
    by (auto split: if_split_asm)
  have "scheduled m js (step m e s)" using Cons.prems(1) e by (auto intro!: scheduled.event)
  from Cons.IH [OF this r] step_work [of m s e] e scheduled_ok [OF Cons.prems(1)] show ?case by simp
qed simp

section \<open>Properties\<close>

text \<open>
  C11: Whatever order events come in, no more than the configured number of git processes is
  ever admitted or running, \<open>activeCount\<close> and \<open>pendingCount\<close> count exactly the running and the waiting
  jobs, jobs of one priority are admitted in the order of \<open>run\<close> and none is lost or admitted twice, a
  waiting urgent job is not overtaken by a normal one, and the queues never wait while a slot is free and
  no drain is scheduled.
\<close>

theorem git_scheduler_safe:
  assumes "scheduled m js s"
  shows "activeCount s \<le> gs_admitted s \<and> gs_admitted s \<le> m \<and>
     activeCount s = length (gs_executing s) \<and>
     pendingCount s = length (gs_high s) + length (gs_normal s) + length (gs_throttled s) \<and>
     mset (map fst js) = mset (gs_high s) + mset (gs_normal s) + mset (gs_admissions s) \<and>
     (\<forall>p. [j \<leftarrow> gs_admissions s. j \<in> set (of_priority p js)] @ queue_of p s = of_priority p js) \<and>
     (gs_high s \<noteq> [] \<longrightarrow> (\<forall>e. prefix (gs_normal s) (gs_normal (step m e s)))) \<and> \<not> stalled m s"
proof -
  from scheduled_ok [OF assms] show ?thesis
    by (simp add: scheduler_ok_def counts_ok_def activeCount_def pendingCount_def fifo_def step_urgent)
      (simp add: queued_def)
qed

text \<open>A run used by the witnesses: two slots, three jobs, the last one urgent.\<close>

definition sample_scheduler :: scheduler where
  "sample_scheduler = step 2 (ThrottleStarts 0 True) (step 2 (Submit 2 HighPriority)
     (step 2 (Submit 1 NormalPriority) (step 2 (Submit 0 NormalPriority) new_scheduler)))"

lemmas sample_step = new_scheduler_def run_job_def enqueue_def drainOne_def scheduleDrain_def shift_queues_def
  admit_def execute_def release_def exited_def refused_def Let_def

lemma sample_scheduled:
  "scheduled 2 [(0, NormalPriority), (1, NormalPriority), (2, HighPriority)] sample_scheduler"
proof -
  have "scheduled 2 ((([] @ [(0, NormalPriority)]) @ [(1, NormalPriority)]) @ [(2, HighPriority)]) sample_scheduler"
    unfolding sample_scheduler_def
    by (intro scheduled.event scheduled.submit scheduled.init) (simp_all add: sample_step)
  then show ?thesis by simp
qed

lemma git_scheduler_safe_witness:
  "gs_admitted sample_scheduler \<le> 2 \<and> gs_high sample_scheduler = [2] \<and>
   prefix (gs_normal sample_scheduler) (gs_normal (step 2 Immediate sample_scheduler))"
proof -
  have h: "gs_high sample_scheduler = [2]" by (simp add: sample_scheduler_def sample_step)
  note safe = git_scheduler_safe [OF sample_scheduled]
  have "gs_high sample_scheduler \<noteq> []" using h by simp
  with safe have "prefix (gs_normal sample_scheduler) (gs_normal (step 2 Immediate sample_scheduler))" by blast
  with safe h show ?thesis by blast
qed

text \<open>
  C24: Without new submissions the scheduler comes to rest: every run of events is at most as
  long as the work left, and when no event is left to happen every job ever submitted has exited or was
  rejected, exactly once, and all counters are zero.
\<close>

theorem git_jobs_all_settle:
  assumes "scheduled m js s" and "0 < m" and "settle_run m es s = Some t"
  shows "length es \<le> work s \<and>
     (quiet t \<longrightarrow> mset (gs_exited t) + mset (gs_rejected t) = mset (map fst js) \<and>
        activeCount t = 0 \<and> pendingCount t = 0 \<and> gs_admitted t = 0)"
proof (intro conjI impI)
  note b = settle_run_bound [OF assms(1,3)]
  then show "length es \<le> work s" by simp
  assume q: "quiet t"
  from b have "scheduled m js t" by simp
  from scheduled_ok [OF this] have ok: "scheduler_ok m t" "fifo js t" by simp_all
  from q ok(1) have z: "gs_admitted t = 0" "\<not> gs_drainScheduled t"
    by (auto simp: quiet_def scheduler_ok_def counts_ok_def split: if_split_asm)
  with ok(1) assms(2) have e: "queued t = []" by (simp add: scheduler_ok_def stalled_def)
  show "mset (gs_exited t) + mset (gs_rejected t) = mset (map fst js)"
    using ok q e by (simp add: scheduler_ok_def counts_ok_def fifo_def quiet_def)
  show "activeCount t = 0" "pendingCount t = 0" "gs_admitted t = 0"
    using ok(1) q e z by (simp_all add: scheduler_ok_def counts_ok_def quiet_def activeCount_def pendingCount_def)
qed

definition sample_events :: "event list" where
  "sample_events = [Immediate, ThrottleRefuses 2, Exits 0, Immediate, ThrottleStarts 1 False]"

lemma git_jobs_all_settle_witness:
  "\<exists>t. settle_run 2 sample_events sample_scheduler = Some t \<and> mset (gs_exited t) + mset (gs_rejected t) = {#0, 1, 2#}"
proof -
  let ?t = "the (settle_run 2 sample_events sample_scheduler)"
  have r: "settle_run 2 sample_events sample_scheduler = Some ?t" and q: "quiet ?t"
    by (simp_all add: sample_events_def sample_scheduler_def sample_step quiet_def)
  from git_jobs_all_settle [OF sample_scheduled _ r] q have "mset (gs_exited ?t) + mset (gs_rejected ?t) = {#0, 1, 2#}"
    by simp
  with r show ?thesis by blast
qed

end
