(* ===== verification/Binary_Frames.thy ===== *)
theory Binary_Frames
  imports Js_Json
begin

unbundle bit_operations_syntax

text \<open>
  \<open>packages/protocol/src/binary-frames\<close>: the frames of terminal streams and of file transfers, byte by
  byte, and the switch that tells them apart.  The text codecs of the platform and the parsers that \<open>zod\<close>
  makes of the schemas are the fields of \<open>frame_env\<close>; a validated object is its JSON value.
\<close>

record frame_env =
  fe_encode :: "string \<Rightarrow> bytes"
  fe_decode :: "bytes \<Rightarrow> string"
  fe_metadata :: "json \<Rightarrow> json option"
  fe_resize :: "json \<Rightarrow> json option"
  fe_state :: "json \<Rightarrow> json option"

definition asUint8Array :: "frame_env \<Rightarrow> wire_data \<Rightarrow> bytes" where
  "asUint8Array env data = (case data of Text s \<Rightarrow> fe_encode env s | Buffer b \<Rightarrow> b)"

definition encodeJsonPayload :: "frame_env \<Rightarrow> json \<Rightarrow> bytes" where
  "encodeJsonPayload env v = fe_encode env (JSON_stringify v)"

text \<open>\<open>null\<close> stands for a text that does not parse.\<close>

definition decodeJsonPayload :: "frame_env \<Rightarrow> bytes \<Rightarrow> json" where
  "decodeJsonPayload env b = (case JSON_parse (fe_decode env b) of Some v \<Rightarrow> v | None \<Rightarrow> JNull)"

section \<open>Terminal streams\<close>

datatype terminal_opcode = OutputOp | InputOp | ResizeOp | SnapshotOp | RestoreOp

primrec terminal_code :: "terminal_opcode \<Rightarrow> 8 word" where
  "terminal_code OutputOp = 1"
| "terminal_code InputOp = 2"
| "terminal_code ResizeOp = 3"
| "terminal_code SnapshotOp = 4"
| "terminal_code RestoreOp = 5"

definition isTerminalStreamOpcode :: "8 word \<Rightarrow> terminal_opcode option" where
  "isTerminalStreamOpcode w =
     (if w = 1 then Some OutputOp else if w = 2 then Some InputOp else if w = 3 then Some ResizeOp
      else if w = 4 then Some SnapshotOp else if w = 5 then Some RestoreOp else None)"

record terminal_frame =
  tf_opcode :: terminal_opcode
  tf_slot :: "8 word"
  tf_payload :: bytes

text \<open>The slot is any number; \<open>slot & 0xff\<close> keeps its low byte.\<close>

definition encodeTerminalStreamFrame :: "frame_env \<Rightarrow> terminal_opcode \<Rightarrow> int \<Rightarrow> wire_data option \<Rightarrow> bytes" where
  "encodeTerminalStreamFrame env opcode slot payload =
     terminal_code opcode # word_of_int (slot AND 255) #
     asUint8Array env (case payload of Some p \<Rightarrow> p | None \<Rightarrow> Buffer [])"

definition decodeTerminalStreamFrame :: "bytes \<Rightarrow> terminal_frame option" where
  "decodeTerminalStreamFrame b = (case b of
      opcode # slot # payload \<Rightarrow> (case isTerminalStreamOpcode opcode of
          None \<Rightarrow> None | Some op \<Rightarrow> Some \<lparr>tf_opcode = op, tf_slot = slot, tf_payload = payload\<rparr>)
    | _ \<Rightarrow> None)"

definition encodeTerminalResizePayload :: "frame_env \<Rightarrow> json \<Rightarrow> bytes" where
  "encodeTerminalResizePayload env v = encodeJsonPayload env v"

definition decodeTerminalResizePayload :: "frame_env \<Rightarrow> bytes \<Rightarrow> json option" where
  "decodeTerminalResizePayload env b = fe_resize env (decodeJsonPayload env b)"

definition encodeTerminalSnapshotPayload :: "frame_env \<Rightarrow> json \<Rightarrow> bytes" where
  "encodeTerminalSnapshotPayload env v = encodeJsonPayload env v"

definition decodeTerminalSnapshotPayload :: "frame_env \<Rightarrow> bytes \<Rightarrow> json option" where
  "decodeTerminalSnapshotPayload env b = fe_state env (decodeJsonPayload env b)"

section \<open>File transfers\<close>

datatype file_frame =
    FileBegin string json
  | FileChunk string bytes
  | FileEnd string

datatype file_input =
    BeginInput string json
  | ChunkInput string "wire_data option"
  | EndInput string

definition encodeRequestId :: "frame_env \<Rightarrow> string \<Rightarrow> string + bytes" where
  "encodeRequestId env requestId = (let b = fe_encode env requestId in
     if length b = 0 then Inl ''File transfer requestId is required''
     else if length b > 255 then Inl ''File transfer requestId is too long'' else Inr b)"

text \<open>\<open>DataView.setUint16\<close> and \<open>getUint16\<close>: big-endian.\<close>

definition uint16_bytes :: "nat \<Rightarrow> bytes" where
  "uint16_bytes n = [word_of_nat (n div 256), word_of_nat (n mod 256)]"

definition getUint16 :: "bytes \<Rightarrow> nat" where
  "getUint16 b = 256 * unat (b ! 0) + unat (b ! 1)"

definition encodeFileTransferFrame :: "frame_env \<Rightarrow> file_input \<Rightarrow> string + bytes" where
  "encodeFileTransferFrame env input = (case input of
      BeginInput requestId0 m \<Rightarrow> bind_sum (encodeRequestId env requestId0) (\<lambda>requestId.
        let metadata = encodeJsonPayload env m in
        if length metadata > 65535 then Inl ''FileBegin metadata is too long''
        else Inr (16 # word_of_nat (length requestId) # requestId @ uint16_bytes (length metadata) @ metadata))
    | ChunkInput requestId0 payload \<Rightarrow> bind_sum (encodeRequestId env requestId0) (\<lambda>requestId.
        Inr (17 # word_of_nat (length requestId) # requestId @
             asUint8Array env (case payload of Some p \<Rightarrow> p | None \<Rightarrow> Buffer [])))
    | EndInput requestId0 \<Rightarrow> bind_sum (encodeRequestId env requestId0) (\<lambda>requestId.
        Inr (18 # word_of_nat (length requestId) # requestId)))"

definition isFileTransferOpcode :: "8 word \<Rightarrow> bool" where
  "isFileTransferOpcode w \<longleftrightarrow> w = 16 \<or> w = 17 \<or> w = 18"

definition decodeFileTransferFrame :: "frame_env \<Rightarrow> bytes \<Rightarrow> file_frame option" where
  "decodeFileTransferFrame env b = (case b of
      opcode # len # rest \<Rightarrow>
        if \<not> isFileTransferOpcode opcode then None
        else if unat len = 0 \<or> unat len > length rest then None
        else (let requestId = fe_decode env (take (unat len) rest); body = drop (unat len) rest in
          if opcode = 16 then
            (if length body < 2 then None
             else if getUint16 body \<noteq> length body - 2 then None
             else (case fe_metadata env (decodeJsonPayload env (drop 2 body)) of
                 Some m \<Rightarrow> Some (FileBegin requestId m) | None \<Rightarrow> None))
          else if opcode = 17 then Some (FileChunk requestId body)
          else if length body \<noteq> 0 then None
          else Some (FileEnd requestId))
    | _ \<Rightarrow> None)"

section \<open>Telling frames apart\<close>

datatype binary_frame = TerminalFrame terminal_frame | FileTransferFrame file_frame

definition decodeBinaryFrame :: "frame_env \<Rightarrow> bytes \<Rightarrow> binary_frame option" where
  "decodeBinaryFrame env b = (case b of
      [] \<Rightarrow> None
    | w # _ \<Rightarrow>
        if w = 1 \<or> w = 2 \<or> w = 3 \<or> w = 4 \<or> w = 5 then map_option TerminalFrame (decodeTerminalStreamFrame b)
        else if w = 16 \<or> w = 17 \<or> w = 18 then map_option FileTransferFrame (decodeFileTransferFrame env b)
        else None)"

section \<open>Round trips\<close>

text \<open>What the frames rely on: the codecs of the platform are inverse, and a schema returns a value it accepts.\<close>

definition env_ok :: "frame_env \<Rightarrow> bool" where
  "env_ok env \<longleftrightarrow> (\<forall>s. fe_decode env (fe_encode env s) = s)"

lemma terminal_opcode_code [simp]: "isTerminalStreamOpcode (terminal_code op) = Some op"
  by (cases op) (simp_all add: isTerminalStreamOpcode_def)

lemma terminal_code_opcode: "isTerminalStreamOpcode w = Some op \<Longrightarrow> terminal_code op = w"
  by (auto simp: isTerminalStreamOpcode_def split: if_split_asm)

lemma json_payload_round_trip:
  "env_ok env \<Longrightarrow> json_ok v \<Longrightarrow> decodeJsonPayload env (encodeJsonPayload env v) = v"
  by (simp add: decodeJsonPayload_def encodeJsonPayload_def env_ok_def JSON_round_trip)

lemma uint16_round_trip: "n < 65536 \<Longrightarrow> getUint16 (uint16_bytes n @ b) = n"
  by (simp add: getUint16_def uint16_bytes_def less_mult_imp_div_less)

lemma uint16_length [simp]: "length (uint16_bytes n) = 2" "drop 2 (uint16_bytes n @ b) = b"
  by (simp_all add: uint16_bytes_def)

lemma encodeRequestId_Inr:
  "encodeRequestId env r = Inr b \<longleftrightarrow> b = fe_encode env r \<and> 0 < length b \<and> length b < 256"
  by (auto simp: encodeRequestId_def Let_def)

text \<open>What a decoder makes of a file frame that was encoded.\<close>

fun sent_file_frame :: "frame_env \<Rightarrow> file_input \<Rightarrow> file_frame" where
  "sent_file_frame env (BeginInput r m) = FileBegin r m"
| "sent_file_frame env (ChunkInput r p) = FileChunk r (asUint8Array env (case p of Some d \<Rightarrow> d | None \<Rightarrow> Buffer []))"
| "sent_file_frame env (EndInput r) = FileEnd r"

fun input_metadata :: "file_input \<Rightarrow> json option" where
  "input_metadata (BeginInput r m) = Some m"
| "input_metadata _ = None"

definition metadata_accepted :: "frame_env \<Rightarrow> file_input \<Rightarrow> bool" where
  "metadata_accepted env input = (case input_metadata input of
     Some m \<Rightarrow> json_ok m \<and> fe_metadata env m = Some m | None \<Rightarrow> True)"

lemma file_frame_round_trip:
  assumes "env_ok env" and "metadata_accepted env input" and "encodeFileTransferFrame env input = Inr b"
  shows "decodeFileTransferFrame env b = Some (sent_file_frame env input)"
proof (cases input)
  case (BeginInput r m)
  then obtain i where i: "encodeRequestId env r = Inr i"
    and b: "b = 16 # word_of_nat (length i) # i @ uint16_bytes (length (encodeJsonPayload env m)) @ encodeJsonPayload env m"
    and l: "length (encodeJsonPayload env m) < 65536"
    using assms(3) by (auto simp: encodeFileTransferFrame_def bind_sum_Inr Let_def split: if_split_asm)
  have "i = fe_encode env r" "0 < length i" "length i < 256" using i unfolding encodeRequestId_Inr by auto
  moreover have "fe_metadata env m = Some m" "json_ok m"
    using assms(2) BeginInput by (simp_all add: metadata_accepted_def)
  ultimately show ?thesis using assms(1) l
    by (simp add: b BeginInput decodeFileTransferFrame_def isFileTransferOpcode_def uint16_round_trip
        json_payload_round_trip env_ok_def)
next
  case (ChunkInput r p)
  then show ?thesis using assms(1,3)
    by (auto simp: encodeFileTransferFrame_def bind_sum_Inr encodeRequestId_Inr decodeFileTransferFrame_def
        isFileTransferOpcode_def env_ok_def)
next
  case (EndInput r)
  then show ?thesis using assms(1,3)
    by (auto simp: encodeFileTransferFrame_def bind_sum_Inr encodeRequestId_Inr decodeFileTransferFrame_def
        isFileTransferOpcode_def env_ok_def)
qed

lemma slot_byte: "word_of_int (uint w AND 255) = w" for w :: "8 word"
proof -
  have "uint w AND mask 8 = uint w mod 256" by (simp add: take_bit_eq_mod flip: take_bit_eq_mask)
  moreover have "uint w < 256" using uint_lt2p [of w] by simp
  ultimately show ?thesis by (simp add: mask_eq_exp_minus_1)
qed

lemma terminal_frame_bytes:
  "decodeTerminalStreamFrame b = Some f \<Longrightarrow>
     encodeTerminalStreamFrame env (tf_opcode f) (uint (tf_slot f)) (Some (Buffer (tf_payload f))) = b"
  by (auto simp: decodeTerminalStreamFrame_def encodeTerminalStreamFrame_def asUint8Array_def slot_byte
      terminal_code_opcode split: list.split_asm option.split_asm)

lemma uint16_getUint16:
  assumes "2 \<le> length b"
  shows "uint16_bytes (getUint16 b) = take 2 b"
proof -
  obtain x y r where b: "b = x # y # r" using assms by (cases b; cases "tl b") auto
  have "unat y < 256" by (rule byte_bound)
  then have "(256 * unat x + unat y) div 256 = unat x" "(256 * unat x + unat y) mod 256 = unat y" by simp_all
  then show ?thesis by (simp add: uint16_bytes_def getUint16_def b)
qed

text \<open>The shape of an accepted file frame.\<close>

definition file_frame_shape :: "frame_env \<Rightarrow> bytes \<Rightarrow> file_frame \<Rightarrow> bytes \<Rightarrow> bool" where
  "file_frame_shape env b f i \<longleftrightarrow> i \<noteq> [] \<and> length i < 256 \<and> (case f of
      FileBegin r m \<Rightarrow> r = fe_decode env i \<and> (\<exists>md. length md < 65536 \<and>
        b = 16 # word_of_nat (length i) # i @ uint16_bytes (length md) @ md \<and>
        fe_metadata env (decodeJsonPayload env md) = Some m)
    | FileChunk r p \<Rightarrow> r = fe_decode env i \<and> b = 17 # word_of_nat (length i) # i @ p
    | FileEnd r \<Rightarrow> r = fe_decode env i \<and> b = 18 # word_of_nat (length i) # i)"

lemma file_frame_bytes:
  assumes "decodeFileTransferFrame env b = Some f"
  shows "\<exists>i. file_frame_shape env b f i"
proof -
  obtain op len rest where b: "b = op # len # rest" and op: "isFileTransferOpcode op"
    and l: "unat len \<noteq> 0" "unat len \<le> length rest"
    using assms by (auto simp: decodeFileTransferFrame_def split: list.split_asm if_split_asm)
  let ?i = "take (unat len) rest" and ?body = "drop (unat len) rest"
  have i: "?i \<noteq> []" "length ?i < 256" "word_of_nat (length ?i) = len" using l byte_bound [of len] by auto
  have r: "rest = ?i @ ?body" by simp
  consider "op = 16" | "op = 17" | "op = 18" using op by (auto simp: isFileTransferOpcode_def)
  then have "file_frame_shape env b f ?i"
  proof cases
    case 1
    with assms b op l have k: "2 \<le> length ?body" "getUint16 ?body = length (drop 2 ?body)"
      "\<exists>m. f = FileBegin (fe_decode env ?i) m \<and> fe_metadata env (decodeJsonPayload env (drop 2 ?body)) = Some m"
      by (auto simp: decodeFileTransferFrame_def Let_def split: if_split_asm option.split_asm)
    have "take 2 ?body = uint16_bytes (length (drop 2 ?body))" using uint16_getUint16 [OF k(1)] k(2) by simp
    then have "?body = uint16_bytes (length (drop 2 ?body)) @ drop 2 ?body" by (metis append_take_drop_id)
    moreover have "length (drop 2 ?body) < 65536"
      unfolding k(2) [symmetric] getUint16_def using byte_bound [of "?body ! 0"] byte_bound [of "?body ! 1"] by linarith
    ultimately obtain md where md: "?body = uint16_bytes (length md) @ md" "length md < 65536" "drop 2 ?body = md" by blast
    obtain m where f: "f = FileBegin (fe_decode env ?i) m" "fe_metadata env (decodeJsonPayload env md) = Some m"
      using k(3) md(3) by auto
    have "b = 16 # word_of_nat (length ?i) # ?i @ uint16_bytes (length md) @ md"
      unfolding i(3) md(1) [symmetric] using b 1 by simp
    with f md(2) i(1,2) show ?thesis unfolding file_frame_shape_def by auto
  next
    case 2
    with assms b op l i r show ?thesis
      by (auto simp: decodeFileTransferFrame_def file_frame_shape_def Let_def)
  next
    case 3
    with assms b op l i r show ?thesis
      by (auto simp: decodeFileTransferFrame_def file_frame_shape_def Let_def split: if_split_asm)
  qed
  then show ?thesis by blast
qed

text \<open>
  C25: Every frame that can be encoded is read back by the receiver as the same frame, of
  the right family: terminal frames with the low byte of the slot, file frames with their request id,
  metadata and payload.
\<close>

theorem frames_round_trip:
  assumes "env_ok env" and "metadata_accepted env input" and "encodeFileTransferFrame env input = Inr b"
  shows "decodeBinaryFrame env b = Some (FileTransferFrame (sent_file_frame env input)) \<and>
     decodeBinaryFrame env (encodeTerminalStreamFrame env op slot payload) =
       Some (TerminalFrame \<lparr>tf_opcode = op, tf_slot = word_of_int (slot mod 256),
         tf_payload = asUint8Array env (case payload of Some p \<Rightarrow> p | None \<Rightarrow> Buffer [])\<rparr>)"
proof
  note f = file_frame_round_trip [OF assms]
  then obtain w where "b \<noteq> []" "hd b = w" "w = 16 \<or> w = 17 \<or> w = 18"
    by (auto simp: decodeFileTransferFrame_def isFileTransferOpcode_def split: list.split_asm if_split_asm)
  with f show "decodeBinaryFrame env b = Some (FileTransferFrame (sent_file_frame env input))"
    by (cases b) (auto simp: decodeBinaryFrame_def)
  have "slot AND mask 8 = slot mod 256" by (simp add: take_bit_eq_mod flip: take_bit_eq_mask)
  then have "slot AND 255 = slot mod 256" by (simp add: mask_eq_exp_minus_1)
  then show "decodeBinaryFrame env (encodeTerminalStreamFrame env op slot payload) =
       Some (TerminalFrame \<lparr>tf_opcode = op, tf_slot = word_of_int (slot mod 256),
         tf_payload = asUint8Array env (case payload of Some p \<Rightarrow> p | None \<Rightarrow> Buffer [])\<rparr>)"
    by (cases op) (simp_all add: decodeBinaryFrame_def decodeTerminalStreamFrame_def encodeTerminalStreamFrame_def
        isTerminalStreamOpcode_def)
qed

definition sample_frames :: frame_env where
  "sample_frames = \<lparr>fe_encode = latin1_bytes, fe_decode = latin1_text, fe_metadata = Some, fe_resize = Some, fe_state = Some\<rparr>"

lemma frames_round_trip_witness:
  "decodeBinaryFrame sample_frames [16, 2, 114, 49, 0, 4, 110, 117, 108, 108] =
     Some (FileTransferFrame (FileBegin ''r1'' JNull))"
proof -
  have "encodeFileTransferFrame sample_frames (BeginInput ''r1'' JNull) = Inr [16, 2, 114, 49, 0, 4, 110, 117, 108, 108]"
    by (simp add: encodeFileTransferFrame_def encodeRequestId_def encodeJsonPayload_def sample_frames_def
        latin1_bytes_def char_code_def uint16_bytes_def)
  from frames_round_trip [OF _ _ this] show ?thesis
    by (simp add: env_ok_def sample_frames_def metadata_accepted_def)
qed

text \<open>
  The switch on the first byte is the same as trying the terminal decoder and then the
  file decoder, so no frame is taken for one of the other family; and an accepted frame has exactly one
  encoding: a terminal frame encodes back to the bytes it was read from, a file frame consists of its opcode,
  the length of the request id, the id and the body, with nothing missing and nothing left over.
\<close>

lemma frames_canonical:
  "decodeBinaryFrame env b = (case decodeTerminalStreamFrame b of
       Some f \<Rightarrow> Some (TerminalFrame f) | None \<Rightarrow> map_option FileTransferFrame (decodeFileTransferFrame env b)) \<and>
   (case decodeBinaryFrame env b of
      Some (TerminalFrame f) \<Rightarrow>
        encodeTerminalStreamFrame env (tf_opcode f) (uint (tf_slot f)) (Some (Buffer (tf_payload f))) = b
    | Some (FileTransferFrame f) \<Rightarrow>
        (\<exists>i. file_frame_shape env b f i)
    | None \<Rightarrow> True)"
proof -
  have demux: "decodeBinaryFrame env b = (case decodeTerminalStreamFrame b of
       Some f \<Rightarrow> Some (TerminalFrame f) | None \<Rightarrow> map_option FileTransferFrame (decodeFileTransferFrame env b))"
    by (auto simp: decodeBinaryFrame_def decodeTerminalStreamFrame_def decodeFileTransferFrame_def
        isTerminalStreamOpcode_def isFileTransferOpcode_def split: list.split option.split)
  show ?thesis
  proof (intro conjI demux)
    show "case decodeBinaryFrame env b of
      Some (TerminalFrame f) \<Rightarrow>
        encodeTerminalStreamFrame env (tf_opcode f) (uint (tf_slot f)) (Some (Buffer (tf_payload f))) = b
    | Some (FileTransferFrame f) \<Rightarrow>
        (\<exists>i. file_frame_shape env b f i)
    | None \<Rightarrow> True"
      unfolding demux
      by (cases "decodeTerminalStreamFrame b"; cases "decodeFileTransferFrame env b")
        (auto dest: terminal_frame_bytes [of _ _ env] file_frame_bytes)
  qed
qed

end
