(* ===== verification/Jsonl_Frames.thy ===== *)
theory Jsonl_Frames
  imports Js_Json
begin

text \<open>
  \<open>server/src/server/agent/providers/jsonl-frame-decoder.ts\<close>: JSON lines from a provider process, with large
  messages cut into chunks.  The receiver is the log of its calls.  Node's \<open>Buffer\<close> (Base64) and the
  \<open>TextDecoder\<close> are the fields of \<open>jsonl_env\<close>; all numbers of a chunk header are integers.
\<close>

section \<open>Limits and headers\<close>

definition V2_FRAME_BYTES :: nat where "V2_FRAME_BYTES = 1024 * 1024"
definition V2_REASSEMBLED_BYTES :: nat where "V2_REASSEMBLED_BYTES = 64 * 1024 * 1024"
definition V2_CHUNK_BYTES :: nat where "V2_CHUNK_BYTES = 256 * 1024"
definition V2_BASE64_CHARS :: nat where "V2_BASE64_CHARS = (V2_CHUNK_BYTES + 2) div 3 * 4"
definition V2_MAX_CHUNKS :: nat where
  "V2_MAX_CHUNKS = (V2_REASSEMBLED_BYTES + (V2_CHUNK_BYTES - 1)) div V2_CHUNK_BYTES"

definition MAX_SAFE_INTEGER :: int where "MAX_SAFE_INTEGER = 2 ^ 53 - 1"

lemmas limits = V2_FRAME_BYTES_def V2_REASSEMBLED_BYTES_def V2_CHUNK_BYTES_def V2_BASE64_CHARS_def V2_MAX_CHUNKS_def
  MAX_SAFE_INTEGER_def

datatype jsonl_problem =
    InvalidJson
  | InvalidChunk
  | InvalidBase64
  | OutOfOrderChunk
  | ChunkLengthMismatch
  | InvalidChunkPayload

datatype receiver_call =
    FrameCall "(string \<times> json) list"
  | ProblemCall jsonl_problem

record jsonl_env =
  je_fromBase64 :: "string \<Rightarrow> bytes"
  je_toBase64 :: "bytes \<Rightarrow> string"
  je_decodeFatal :: "bytes \<Rightarrow> string option"

record chunk_header =
  ch_id :: string
  ch_index :: int
  ch_count :: int
  ch_byteLength :: int
  ch_data :: string

record chunk_assembly =
  ca_id :: string
  ca_count :: int
  ca_byteLength :: int
  ca_parts :: "bytes list"
  ca_bytes :: nat

record jsonl_decoder =
  jd_lineBuffer :: string
  jd_assembly :: "chunk_assembly option"
  jd_calls :: "receiver_call list"

definition new_decoder :: jsonl_decoder where
  "new_decoder = \<lparr>jd_lineBuffer = [], jd_assembly = None, jd_calls = []\<rparr>"

definition objectFrame :: "json \<Rightarrow> (string \<times> json) list option" where
  "objectFrame v = (case v of JObj ms \<Rightarrow> Some ms | _ \<Rightarrow> None)"

definition supportsJsonlRpcProtocolV2 :: "(string \<times> json) list \<Rightarrow> bool" where
  "supportsJsonlRpcProtocolV2 message \<longleftrightarrow>
     map_of message ''type'' = Some (JStr ''ready'') \<and>
     (case map_of message ''supportedProtocolVersions'' of Some (JArr vs) \<Rightarrow> List.member vs (JNum 2) | _ \<Rightarrow> False) \<and>
     map_of message ''maxFrameBytes'' = Some (JNum (int V2_FRAME_BYTES)) \<and>
     map_of message ''maxReassembledFrameBytes'' = Some (JNum (int V2_REASSEMBLED_BYTES))"

definition safe_integer :: "json option \<Rightarrow> int option" where
  "safe_integer v = (case v of Some (JNum n) \<Rightarrow> (if \<bar>n\<bar> \<le> MAX_SAFE_INTEGER then Some n else None) | _ \<Rightarrow> None)"

definition chunkHeader :: "(string \<times> json) list \<Rightarrow> chunk_header option" where
  "chunkHeader frame =
     (case map_of frame ''chunkId'' of
        Some (JStr chunkId) \<Rightarrow>
          (case (safe_integer (map_of frame ''index''), safe_integer (map_of frame ''count''),
                 safe_integer (map_of frame ''byteLength'')) of
             (Some index, Some count, Some byteLength) \<Rightarrow>
               (case map_of frame ''data'' of
                  Some (JStr data) \<Rightarrow>
                    if length chunkId = 0 \<or> length chunkId > 128 \<or> index < 0 \<or> count < 2 \<or>
                       count > int V2_MAX_CHUNKS \<or> index \<ge> count \<or> byteLength < int V2_FRAME_BYTES \<or>
                       byteLength > int V2_REASSEMBLED_BYTES \<or> length data = 0 then None
                    else Some \<lparr>ch_id = chunkId, ch_index = index, ch_count = count,
                               ch_byteLength = byteLength, ch_data = data\<rparr>
                | _ \<Rightarrow> None)
           | _ \<Rightarrow> None)
      | _ \<Rightarrow> None)"

definition chunkBytes :: "jsonl_env \<Rightarrow> string \<Rightarrow> bytes option" where
  "chunkBytes env data =
     (if length data > V2_BASE64_CHARS then None
      else let b = je_fromBase64 env data in
        if length b > V2_CHUNK_BYTES \<or> je_toBase64 env b \<noteq> data then None else Some b)"

section \<open>The decoder\<close>

definition call :: "receiver_call \<Rightarrow> jsonl_decoder \<Rightarrow> jsonl_decoder" where
  "call c d = d\<lparr>jd_calls := jd_calls d @ [c]\<rparr>"

definition drop_assembly :: "jsonl_problem \<Rightarrow> jsonl_decoder \<Rightarrow> jsonl_decoder" where
  "drop_assembly p d = call (ProblemCall p) (d\<lparr>jd_assembly := None\<rparr>)"

definition finishAssembly :: "jsonl_env \<Rightarrow> bytes list \<Rightarrow> jsonl_decoder \<Rightarrow> jsonl_decoder" where
  "finishAssembly env parts d =
     (case je_decodeFatal env (concat parts) of
        None \<Rightarrow> call (ProblemCall InvalidChunkPayload) d
      | Some t \<Rightarrow> (case JSON_parse t of
          None \<Rightarrow> call (ProblemCall InvalidChunkPayload) d
        | Some v \<Rightarrow> (case objectFrame v of
            Some frame \<Rightarrow> call (FrameCall frame) d
          | None \<Rightarrow> call (ProblemCall InvalidChunkPayload) d)))"

text \<open>The part of \<open>consumeChunk\<close> after the header and the data have been accepted.\<close>

definition acceptChunk :: "jsonl_env \<Rightarrow> chunk_header \<Rightarrow> bytes \<Rightarrow> chunk_assembly \<Rightarrow> jsonl_decoder \<Rightarrow> jsonl_decoder" where
  "acceptChunk env header bytes assembly d =
     (if ca_id assembly \<noteq> ch_id header \<or> ca_count assembly \<noteq> ch_count header \<or>
         ca_byteLength assembly \<noteq> ch_byteLength header \<or> int (length (ca_parts assembly)) \<noteq> ch_index header
      then drop_assembly OutOfOrderChunk d
      else let a = assembly\<lparr>ca_parts := ca_parts assembly @ [bytes], ca_bytes := ca_bytes assembly + length bytes\<rparr> in
        if int (ca_bytes a) > ca_byteLength a then drop_assembly ChunkLengthMismatch d
        else if int (length (ca_parts a)) < ca_count a then d\<lparr>jd_assembly := Some a\<rparr>
        else let d' = d\<lparr>jd_assembly := None\<rparr> in
          if int (ca_bytes a) \<noteq> ca_byteLength a then call (ProblemCall ChunkLengthMismatch) d'
          else finishAssembly env (ca_parts a) d')"

definition consumeChunk :: "jsonl_env \<Rightarrow> (string \<times> json) list \<Rightarrow> jsonl_decoder \<Rightarrow> jsonl_decoder" where
  "consumeChunk env frame d =
     (case chunkHeader frame of
        None \<Rightarrow> drop_assembly InvalidChunk d
      | Some header \<Rightarrow> (case chunkBytes env (ch_data header) of
          None \<Rightarrow> drop_assembly InvalidBase64 d
        | Some bytes \<Rightarrow> (case jd_assembly d of
            Some assembly \<Rightarrow> acceptChunk env header bytes assembly d
          | None \<Rightarrow>
              if ch_index header \<noteq> 0 then call (ProblemCall OutOfOrderChunk) d
              else acceptChunk env header bytes
                \<lparr>ca_id = ch_id header, ca_count = ch_count header, ca_byteLength = ch_byteLength header,
                 ca_parts = [], ca_bytes = 0\<rparr> d)))"

definition consumeLine :: "jsonl_env \<Rightarrow> string \<Rightarrow> jsonl_decoder \<Rightarrow> jsonl_decoder" where
  "consumeLine env line d =
     (case JSON_parse line of
        None \<Rightarrow> call (ProblemCall InvalidJson) d
      | Some parsed \<Rightarrow> (case objectFrame parsed of
          None \<Rightarrow> d
        | Some frame \<Rightarrow>
            if map_of frame ''type'' \<noteq> Some (JStr ''rpc_chunk'') then call (FrameCall frame) d
            else consumeChunk env frame d))"

text \<open>\<open>line.replace(/\\r$/, "")\<close> and the loop over the newlines of the buffer.\<close>

definition strip_cr :: "string \<Rightarrow> string" where
  "strip_cr line = (if line \<noteq> [] \<and> last line = CHR 0x0D then butlast line else line)"

definition take_line :: "jsonl_env \<Rightarrow> string \<Rightarrow> jsonl_decoder \<Rightarrow> jsonl_decoder" where
  "take_line env raw d = (let line = strip_cr raw in if trim line \<noteq> [] then consumeLine env line d else d)"

text \<open>None of these looks at the line buffer or changes it.\<close>

definition with_buffer :: "string \<Rightarrow> jsonl_decoder \<Rightarrow> jsonl_decoder" where
  "with_buffer t d = d\<lparr>jd_lineBuffer := t\<rparr>"

lemma with_buffer_simps [simp]:
  "with_buffer t (with_buffer u d) = with_buffer t d" "jd_lineBuffer (with_buffer t d) = t"
  "with_buffer (jd_lineBuffer d) d = d" "jd_assembly (with_buffer t d) = jd_assembly d"
  by (simp_all add: with_buffer_def)

lemma call_buffer [simp]: "call c (with_buffer t d) = with_buffer t (call c d)"
  by (simp add: call_def with_buffer_def)

lemma assembly_buffer [simp]: "(with_buffer t d)\<lparr>jd_assembly := a\<rparr> = with_buffer t (d\<lparr>jd_assembly := a\<rparr>)"
  by (simp add: with_buffer_def)

lemma finish_buffer [simp]: "finishAssembly env ps (with_buffer t d) = with_buffer t (finishAssembly env ps d)"
  by (simp add: finishAssembly_def split: option.split)

lemma drop_buffer [simp]: "drop_assembly p (with_buffer t d) = with_buffer t (drop_assembly p d)"
  by (simp add: drop_assembly_def)

lemma accept_buffer [simp]: "acceptChunk env h b a (with_buffer t d) = with_buffer t (acceptChunk env h b a d)"
  by (simp add: acceptChunk_def Let_def)

lemma chunk_buffer [simp]: "consumeChunk env f (with_buffer t d) = with_buffer t (consumeChunk env f d)"
  by (simp add: consumeChunk_def split: option.split)

lemma line_buffer [simp]: "consumeLine env l (with_buffer t d) = with_buffer t (consumeLine env l d)"
  by (simp add: consumeLine_def split: option.split)

lemma take_line_buffer: "take_line env raw (with_buffer t d) = with_buffer t (take_line env raw d)"
  by (simp add: take_line_def Let_def)

lemma lineBuffer_kept [simp]: "jd_lineBuffer (take_line env raw d) = jd_lineBuffer d"
  using take_line_buffer [of env raw "jd_lineBuffer d" d] by (metis with_buffer_simps(2,3))

function consume_lines :: "jsonl_env \<Rightarrow> jsonl_decoder \<Rightarrow> jsonl_decoder" where
  "consume_lines env d =
     (if CHR 0x0A \<in> set (jd_lineBuffer d) then
        let raw = takeWhile (\<lambda>c. c \<noteq> CHR 0x0A) (jd_lineBuffer d);
            rest = drop (Suc (length raw)) (jd_lineBuffer d)
        in consume_lines env (take_line env raw (d\<lparr>jd_lineBuffer := rest\<rparr>))
      else d)"
  by pat_completeness auto
termination
  by (relation "measure (\<lambda>(env, d). length (jd_lineBuffer d))") (auto intro!: diff_less dest: length_pos_if_in_set)

declare consume_lines.simps [simp del]

definition jsonl_write :: "jsonl_env \<Rightarrow> string \<Rightarrow> jsonl_decoder \<Rightarrow> jsonl_decoder" where
  "jsonl_write env t d = consume_lines env (d\<lparr>jd_lineBuffer := jd_lineBuffer d @ t\<rparr>)"

section \<open>Chunks of the stream do not matter\<close>

lemma split_on_Nil [simp]: "split_on c s \<noteq> []"
  by (induction s) (auto split: list.split)

lemma consume_lines_split:
  "consume_lines env (with_buffer s d) = with_buffer (last (split_on (CHR 0x0A) s))
     (fold (take_line env) (butlast (split_on (CHR 0x0A) s)) d)"
proof (induction "length s" arbitrary: s d rule: less_induct)
  case less
  show ?case
  proof (cases "CHR 0x0A \<in> set s")
    case False
    then show ?thesis by (subst consume_lines.simps) (simp add: with_buffer_def split_on_none)
  next
    case True
    then obtain raw rest where s: "s = raw @ CHR 0x0A # rest" and raw: "CHR 0x0A \<notin> set raw"
      by (blast dest: split_list_first)
    have t: "takeWhile (\<lambda>c. c \<noteq> CHR 0x0A) (raw @ CHR 0x0A # rest) = raw"
      using raw by (subst takeWhile_append2) auto
    have "consume_lines env (with_buffer s d) = consume_lines env (with_buffer rest (take_line env raw d))"
      unfolding s by (subst consume_lines.simps)
        (simp add: with_buffer_def t flip: take_line_buffer [unfolded with_buffer_def])
    also have "\<dots> = with_buffer (last (split_on (CHR 0x0A) rest))
       (fold (take_line env) (butlast (split_on (CHR 0x0A) rest)) (take_line env raw d))"
      by (rule less) (simp add: s)
    finally show ?thesis unfolding s split_on_append [OF raw] by simp
  qed
qed

lemma split_on_join_last:
  "split_on c (s @ t) = butlast (split_on c s) @ split_on c (last (split_on c s) @ t)"
proof (induction "length s" arbitrary: s rule: less_induct)
  case less
  show ?case
  proof (cases "c \<in> set s")
    case True
    then obtain u v where s: "s = u @ c # v" and u: "c \<notin> set u" by (blast dest: split_list_first)
    have "split_on c (v @ t) = butlast (split_on c v) @ split_on c (last (split_on c v) @ t)" by (rule less) (simp add: s)
    then show ?thesis by (simp add: s split_on_append [OF u])
  qed (simp add: split_on_none)
qed

lemma split_on_last_free: "c \<notin> set (last (split_on c s))"
proof (induction "length s" arbitrary: s rule: less_induct)
  case less
  show ?case
  proof (cases "c \<in> set s")
    case True
    then obtain u v where s: "s = u @ c # v" and u: "c \<notin> set u" by (blast dest: split_list_first)
    have "c \<notin> set (last (split_on c v))" by (rule less) (simp add: s)
    then show ?thesis by (simp add: s split_on_append [OF u])
  qed (simp add: split_on_none)
qed

lemma fold_buffer: "fold (take_line env) ls (with_buffer t d) = with_buffer t (fold (take_line env) ls d)"
  by (induction ls arbitrary: d) (simp_all add: take_line_buffer)

lemma write_split:
  "jsonl_write env t d = (let ws = split_on (CHR 0x0A) (jd_lineBuffer d @ t)
     in with_buffer (last ws) (fold (take_line env) (butlast ws) d))"
proof -
  have "jsonl_write env t d = consume_lines env (with_buffer (jd_lineBuffer d @ t) d)"
    by (simp add: jsonl_write_def with_buffer_def)
  then show ?thesis by (simp add: consume_lines_split Let_def)
qed

lemma write_append: "jsonl_write env b (jsonl_write env a d) = jsonl_write env (a @ b) d"
proof -
  let ?s = "split_on (CHR 0x0A) (jd_lineBuffer d @ a)"
  let ?r = "split_on (CHR 0x0A) (last ?s @ b)"
  have j: "split_on (CHR 0x0A) (jd_lineBuffer d @ a @ b) = butlast ?s @ ?r"
    using split_on_join_last [of "CHR 0x0A" "jd_lineBuffer d @ a" b] by simp
  have "jsonl_write env (a @ b) d = with_buffer (last ?r) (fold (take_line env) (butlast ?s @ butlast ?r) d)"
    by (simp only: write_split Let_def j) (simp add: butlast_append)
  moreover have "jsonl_write env b (jsonl_write env a d) = with_buffer (last ?r)
      (fold (take_line env) (butlast ?r) (with_buffer (last ?s) (fold (take_line env) (butlast ?s) d)))"
    by (simp add: write_split Let_def)
  ultimately show ?thesis by (simp add: fold_buffer)
qed

text \<open>
  C17: However the stream of a provider is cut into writes, the decoder ends in the same state
  and makes the same calls as for the whole text at once; these are the calls for its complete lines, one
  after the other, and the rest without a newline stays in the buffer.
\<close>

theorem jsonl_chunking_irrelevant:
  "fold (jsonl_write env) ts new_decoder = jsonl_write env (concat ts) new_decoder \<and>
   jd_calls (fold (jsonl_write env) ts new_decoder) =
     jd_calls (fold (take_line env) (butlast (split_on (CHR 0x0A) (concat ts))) new_decoder) \<and>
   jd_lineBuffer (fold (jsonl_write env) ts new_decoder) = last (split_on (CHR 0x0A) (concat ts))"
proof -
  have n: "jsonl_write env [] new_decoder = new_decoder"
    by (simp add: write_split Let_def new_decoder_def with_buffer_def)
  have w: "fold (jsonl_write env) ts (jsonl_write env a new_decoder) = jsonl_write env (a @ concat ts) new_decoder" for a
    by (induction ts arbitrary: a) (simp_all add: write_append)
  have "fold (jsonl_write env) ts new_decoder = jsonl_write env (concat ts) new_decoder"
    using w [of "[]"] n by simp
  then show ?thesis by (simp add: write_split Let_def) (simp add: new_decoder_def with_buffer_def)
qed

section \<open>What an assembly may hold\<close>

definition assembly_ok :: "chunk_assembly \<Rightarrow> bool" where
  "assembly_ok a \<longleftrightarrow> ca_count a \<le> int V2_MAX_CHUNKS \<and> ca_byteLength a \<le> int V2_REASSEMBLED_BYTES \<and>
     int (length (ca_parts a)) < ca_count a \<and> ca_bytes a = length (concat (ca_parts a)) \<and>
     int (ca_bytes a) \<le> ca_byteLength a \<and> list_all (\<lambda>p. length p \<le> V2_CHUNK_BYTES) (ca_parts a)"

definition decoder_ok :: "jsonl_decoder \<Rightarrow> bool" where
  "decoder_ok d \<longleftrightarrow> (case jd_assembly d of None \<Rightarrow> True | Some a \<Rightarrow> assembly_ok a)"

lemma decoder_ok_simps [simp]:
  "decoder_ok (call c d) = decoder_ok d" "decoder_ok (drop_assembly p d)" "decoder_ok (with_buffer t d) = decoder_ok d"
  "decoder_ok (d\<lparr>jd_assembly := None\<rparr>)" "decoder_ok (d\<lparr>jd_assembly := Some a\<rparr>) = assembly_ok a"
  by (simp_all add: decoder_ok_def call_def drop_assembly_def)

lemma finish_ok [simp]: "decoder_ok (finishAssembly env ps d) = decoder_ok d"
  by (simp add: finishAssembly_def split: option.split)

lemma chunkHeader_bounds:
  assumes "chunkHeader frame = Some h"
  shows "2 \<le> ch_count h" "ch_count h \<le> int V2_MAX_CHUNKS" "0 \<le> ch_byteLength h" "ch_byteLength h \<le> int V2_REASSEMBLED_BYTES"
  using assms by (auto simp: chunkHeader_def split: option.split_asm json.split_asm if_split_asm)

lemma chunkBytes_bound: "chunkBytes env data = Some b \<Longrightarrow> length b \<le> V2_CHUNK_BYTES"
  by (auto simp: chunkBytes_def Let_def split: if_split_asm)

lemma acceptChunk_ok:
  assumes "assembly_ok a" and "length b \<le> V2_CHUNK_BYTES" and "decoder_ok d"
  shows "decoder_ok (acceptChunk env h b a d)"
  using assms by (auto simp: acceptChunk_def Let_def assembly_ok_def)

lemma take_line_ok: "decoder_ok d \<Longrightarrow> decoder_ok (take_line env raw d)"
proof -
  assume ok: "decoder_ok d"
  have "decoder_ok (consumeChunk env frame d)" for frame
  proof (cases "chunkHeader frame")
    case (Some h)
    show ?thesis
    proof (cases "chunkBytes env (ch_data h)")
      case (Some b)
      note b = chunkBytes_bound [OF this]
      have "assembly_ok \<lparr>ca_id = ch_id h, ca_count = ch_count h, ca_byteLength = ch_byteLength h, ca_parts = [], ca_bytes = 0\<rparr>"
        using chunkHeader_bounds [OF \<open>chunkHeader frame = Some h\<close>] by (simp add: assembly_ok_def)
      then show ?thesis using ok b \<open>chunkHeader frame = Some h\<close> Some
        by (auto simp: consumeChunk_def acceptChunk_ok decoder_ok_def [of d] split: option.split)
    qed (simp add: consumeChunk_def Some)
  qed (simp add: consumeChunk_def)
  with ok show ?thesis
    by (auto simp: take_line_def consumeLine_def Let_def split: option.split)
qed

lemma write_ok: "decoder_ok d \<Longrightarrow> decoder_ok (jsonl_write env t d)"
proof -
  have "decoder_ok d \<Longrightarrow> decoder_ok (fold (take_line env) ls d)" for ls
    by (induction ls arbitrary: d) (simp_all add: take_line_ok)
  then show "decoder_ok d \<Longrightarrow> decoder_ok (jsonl_write env t d)" by (simp add: write_split Let_def)
qed

text \<open>
  Whatever a provider writes, an unfinished message occupies at most 64 MiB in at most
  255 parts, of at most 256 KiB each, and the byte count of the assembly is the length of its parts.
\<close>

lemma jsonl_assembly_bounded:
  assumes "jd_assembly (fold (jsonl_write env) ts new_decoder) = Some a"
  shows "ca_bytes a = length (concat (ca_parts a)) \<and> ca_bytes a \<le> 67108864 \<and> length (ca_parts a) \<le> 255 \<and>
     list_all (\<lambda>p. length p \<le> 262144) (ca_parts a)"
proof -
  have "decoder_ok d \<Longrightarrow> decoder_ok (fold (jsonl_write env) ts d)" for d
    by (induction ts arbitrary: d) (simp_all add: write_ok)
  from this [of new_decoder] assms have "assembly_ok a" by (simp add: decoder_ok_def new_decoder_def)
  then show ?thesis by (simp add: assembly_ok_def limits)
qed

section \<open>Reassembly\<close>

text \<open>The chunk lines of the protocol, as a provider sends them.\<close>

definition chunk_object :: "jsonl_env \<Rightarrow> string \<Rightarrow> nat \<Rightarrow> nat \<Rightarrow> nat \<Rightarrow> bytes \<Rightarrow> (string \<times> json) list" where
  "chunk_object env i index count byteLength part =
     [(''type'', JStr ''rpc_chunk''), (''chunkId'', JStr i), (''index'', JNum (int index)),
      (''count'', JNum (int count)), (''byteLength'', JNum (int byteLength)), (''data'', JStr (je_toBase64 env part))]"

definition line_of :: "(string \<times> json) list \<Rightarrow> string" where
  "line_of ms = JSON_stringify (JObj ms) @ [CHR 0x0A]"

definition chunk_lines :: "jsonl_env \<Rightarrow> string \<Rightarrow> bytes list \<Rightarrow> string" where
  "chunk_lines env i parts = concat (map (\<lambda>k. line_of (chunk_object env i k (length parts) (length (concat parts)) (parts ! k)))
     [0..<length parts])"

definition jsonl_env_ok :: "jsonl_env \<Rightarrow> bool" where
  "jsonl_env_ok env \<longleftrightarrow> (\<forall>b. je_fromBase64 env (je_toBase64 env b) = b \<and>
     length (je_toBase64 env b) \<le> (length b + 2) div 3 * 4 \<and> (b \<noteq> [] \<longrightarrow> je_toBase64 env b \<noteq> []))"

lemma escape_no_newline: "CHR 0x0A \<notin> set (escape_char c)"
proof -
  have h: "hex_digit d \<noteq> CHR 0x0A" if "d < 16" for d
  proof
    assume "hex_digit d = CHR 0x0A"
    then have "hex_value (CHR 0x0A) = Some d" using hex_digit_value [OF that] by simp
    then show False by (simp add: hex_value_def char_code_def)
  qed
  have "char_code c div 16 < 16" using char_code_bound [of c] by linarith
  then have "hex_digit (char_code c div 16) \<noteq> CHR 0x0A" "hex_digit (char_code c mod 16) \<noteq> CHR 0x0A"
    using h by simp_all
  moreover have "char_code (CHR 0x0A) = 10" by (simp add: char_code_def)
  ultimately show ?thesis by (auto simp: escape_char_def Let_def)
qed

lemma quote_no_newline: "CHR 0x0A \<notin> set (quote s)"
  using escape_no_newline by (auto simp: quote_def)

lemma show_no_newline: "CHR 0x0A \<notin> set (show_int n)"
proof -
  have "CHR 0x0A \<notin> set (show_nat k)" for k using show_nat_digits [of k] by (auto simp: list_all_iff is_digit_def)
  then show ?thesis by (simp add: show_int_def)
qed

lemma commas_newline: "CHR 0x0A \<in> set (commas ws) \<Longrightarrow> \<exists>w \<in> set ws. CHR 0x0A \<in> set w"
  by (induction ws rule: commas.induct) auto

lemma stringify_no_newline: "json_ok v \<Longrightarrow> CHR 0x0A \<notin> set (JSON_stringify v)"
proof (induction v)
  case (JArr vs)
  then show ?case by (auto simp: list_all_iff dest!: commas_newline)
next
  case (JObj ms)
  have "CHR 0x0A \<notin> set (show_member m)" if "m \<in> set ms" for m
  proof -
    have "json_ok (snd m)" using JObj.prems that by (auto simp: list_all_iff)
    moreover have "snd m \<in> Basic_BNFs.snds m" by (cases m) (simp add: snds.simps)
    ultimately show ?thesis using JObj.IH [OF that] quote_no_newline by (simp add: show_member_def)
  qed
  then show ?case by (auto simp: members_text dest!: commas_newline)
qed (simp_all add: quote_no_newline show_no_newline)

text \<open>A line that carries an object is read as that object.\<close>

lemma take_object_line:
  assumes "json_ok (JObj ms)"
  shows "take_line env (JSON_stringify (JObj ms)) d =
    (if map_of ms ''type'' \<noteq> Some (JStr ''rpc_chunk'') then call (FrameCall ms) d else consumeChunk env ms d)"
proof -
  let ?s = "JSON_stringify (JObj ms)"
  have "last ?s = CHR ''}''" "?s \<noteq> []" by simp_all
  then have c: "strip_cr ?s = ?s" by (simp add: strip_cr_def)
  have "trim ?s \<noteq> []"
  proof -
    have "\<not> is_space (CHR ''{'')" "\<not> is_space (CHR ''}'')" by (simp_all add: is_space_def)
    then have "trim ?s = ?s" by (intro trim_id) simp
    then show ?thesis by simp
  qed
  moreover have "JSON_parse ?s = Some (JObj ms)" using assms by (rule JSON_round_trip)
  ultimately show ?thesis by (simp only: take_line_def c Let_def consumeLine_def) (simp add: objectFrame_def)
qed

lemma write_object_line:
  assumes "json_ok (JObj ms)" and "jd_lineBuffer d = []"
  shows "jsonl_write env (line_of ms) d =
    (if map_of ms ''type'' \<noteq> Some (JStr ''rpc_chunk'') then call (FrameCall ms) d else consumeChunk env ms d)"
proof -
  have "split_on (CHR 0x0A) (JSON_stringify (JObj ms) @ CHR 0x0A # []) = [JSON_stringify (JObj ms), []]"
    using split_on_append [OF stringify_no_newline [OF assms(1)], of "[]"] by simp
  then have "jsonl_write env (line_of ms) d = with_buffer [] (take_line env (JSON_stringify (JObj ms)) d)"
    by (simp only: write_split line_of_def assms(2) append_Nil Let_def) simp
  also have "\<dots> = take_line env (JSON_stringify (JObj ms)) d"
    using take_line_buffer [of env _ "[]" d] assms(2) with_buffer_simps(3) [of d] by simp
  finally show ?thesis using take_object_line [OF assms(1)] by simp
qed

text \<open>A message that a provider may send in parts.\<close>

definition chunkable :: "string \<Rightarrow> bytes list \<Rightarrow> bool" where
  "chunkable i parts \<longleftrightarrow> i \<noteq> [] \<and> length i \<le> 128 \<and> 2 \<le> length parts \<and> length parts \<le> V2_MAX_CHUNKS \<and>
     V2_FRAME_BYTES \<le> length (concat parts) \<and> length (concat parts) \<le> V2_REASSEMBLED_BYTES \<and>
     list_all (\<lambda>p. p \<noteq> [] \<and> length p \<le> V2_CHUNK_BYTES) parts"

definition header_of :: "jsonl_env \<Rightarrow> string \<Rightarrow> bytes list \<Rightarrow> nat \<Rightarrow> chunk_header" where
  "header_of env i parts k = \<lparr>ch_id = i, ch_index = int k, ch_count = int (length parts),
     ch_byteLength = int (length (concat parts)), ch_data = je_toBase64 env (parts ! k)\<rparr>"

definition partial :: "string \<Rightarrow> bytes list \<Rightarrow> nat \<Rightarrow> chunk_assembly" where
  "partial i parts k = \<lparr>ca_id = i, ca_count = int (length parts), ca_byteLength = int (length (concat parts)),
     ca_parts = take k parts, ca_bytes = length (concat (take k parts))\<rparr>"

lemma chunk_accepted:
  assumes env: "jsonl_env_ok env" and c: "chunkable i parts" and k: "k < length parts"
  shows "chunkHeader (chunk_object env i k (length parts) (length (concat parts)) (parts ! k)) = Some (header_of env i parts k)"
    "chunkBytes env (je_toBase64 env (parts ! k)) = Some (parts ! k)"
proof -
  have p: "parts ! k \<noteq> []" "length (parts ! k) \<le> V2_CHUNK_BYTES"
    using c k by (auto simp: chunkable_def list_all_length)
  then have d: "je_toBase64 env (parts ! k) \<noteq> []" using env by (simp add: jsonl_env_ok_def)
  have b: "length parts \<le> 256" "length (concat parts) \<le> 67108864" using c by (simp_all add: chunkable_def limits)
  then have s: "safe_integer (Some (JNum (int n))) = Some (int n)" if "n \<le> 67108864" for n
    using that by (simp add: safe_integer_def limits)
  have "safe_integer (Some (JNum (int k))) = Some (int k)"
    "safe_integer (Some (JNum (int (length parts)))) = Some (int (length parts))"
    "safe_integer (Some (JNum (int (length (concat parts))))) = Some (int (length (concat parts)))"
    using b k by (intro s; simp)+
  then show "chunkHeader (chunk_object env i k (length parts) (length (concat parts)) (parts ! k)) = Some (header_of env i parts k)"
    using c k d by (simp add: chunkHeader_def chunk_object_def header_of_def chunkable_def limits)
  have "(length (parts ! k) + 2) div 3 * 4 \<le> V2_BASE64_CHARS"
    unfolding V2_BASE64_CHARS_def using p(2) by (intro mult_right_mono div_le_mono) simp_all
  moreover have "length (je_toBase64 env (parts ! k)) \<le> (length (parts ! k) + 2) div 3 * 4"
    using env by (simp only: jsonl_env_ok_def)
  ultimately have "length (je_toBase64 env (parts ! k)) \<le> V2_BASE64_CHARS" by (rule order.trans [rotated])
  then show "chunkBytes env (je_toBase64 env (parts ! k)) = Some (parts ! k)"
    using env p(2) by (simp add: chunkBytes_def jsonl_env_ok_def)
qed

lemma partial_next:
  assumes "chunkable i parts" and k: "k < length parts"
  shows "acceptChunk env (header_of env i parts k) (parts ! k) (partial i parts k) d =
    (if Suc k < length parts then d\<lparr>jd_assembly := Some (partial i parts (Suc k))\<rparr>
     else finishAssembly env parts (d\<lparr>jd_assembly := None\<rparr>))"
proof -
  have t: "take k parts @ [parts ! k] = take (Suc k) parts" using k by (simp add: take_Suc_conv_app_nth)
  have l: "length (concat (take k parts)) + length (parts ! k) = length (concat (take (Suc k) parts))"
    by (simp flip: t)
  have "length (concat (take (Suc k) parts)) \<le> length (concat parts)"
    by (metis append_take_drop_id concat_append le_add1 length_append)
  moreover have "take (Suc k) parts = parts" if "\<not> Suc k < length parts" using that by simp
  ultimately show ?thesis using k
    by (simp add: acceptChunk_def header_of_def partial_def Let_def t l)
qed

lemma chunk_step:
  assumes env: "jsonl_env_ok env" and c: "chunkable i parts" and k: "k < length parts"
    and d: "jd_lineBuffer d = []" "jd_assembly d = (if k = 0 then None else Some (partial i parts k))"
  shows "jsonl_write env (line_of (chunk_object env i k (length parts) (length (concat parts)) (parts ! k))) d =
    (if Suc k < length parts then d\<lparr>jd_assembly := Some (partial i parts (Suc k))\<rparr>
     else finishAssembly env parts (d\<lparr>jd_assembly := None\<rparr>))"
proof -
  let ?o = "chunk_object env i k (length parts) (length (concat parts)) (parts ! k)"
  have "json_ok (JObj ?o)" "map_of ?o ''type'' = Some (JStr ''rpc_chunk'')" by (simp_all add: chunk_object_def)
  then have "jsonl_write env (line_of ?o) d = consumeChunk env ?o d" using write_object_line d(1) by simp
  also have "\<dots> = acceptChunk env (header_of env i parts k) (parts ! k) (partial i parts k) d"
  proof -
    let ?h = "header_of env i parts k"
    have h: "ch_data ?h = je_toBase64 env (parts ! k)" by (simp add: header_of_def)
    have "consumeChunk env ?o d = (case jd_assembly d of
        Some a \<Rightarrow> acceptChunk env ?h (parts ! k) a d
      | None \<Rightarrow> if ch_index ?h \<noteq> 0 then call (ProblemCall OutOfOrderChunk) d
          else acceptChunk env ?h (parts ! k) \<lparr>ca_id = ch_id ?h, ca_count = ch_count ?h,
            ca_byteLength = ch_byteLength ?h, ca_parts = [], ca_bytes = 0\<rparr> d)"
      by (simp only: consumeChunk_def chunk_accepted [OF env c k] option.case h)
    moreover have "\<lparr>ca_id = ch_id ?h, ca_count = ch_count ?h, ca_byteLength = ch_byteLength ?h, ca_parts = [],
        ca_bytes = 0\<rparr> = partial i parts 0" "ch_index ?h = int k"
      by (simp_all add: partial_def header_of_def)
    ultimately show ?thesis using d(2) by (cases "k = 0") simp_all
  qed
  finally show ?thesis by (simp add: partial_next [OF c k])
qed

text \<open>
  C26: A message cut into chunks by the protocol, of any sizes within the limits, is handed to
  the receiver as exactly that message, in one call, and the decoder is left without an assembly.
\<close>

theorem jsonl_reassembles:
  assumes env: "jsonl_env_ok env" and c: "chunkable i parts"
    and m: "json_ok (JObj ms)" "je_decodeFatal env (concat parts) = Some (JSON_stringify (JObj ms))"
    and d: "jd_lineBuffer d = []" "jd_assembly d = None"
  shows "jsonl_write env (chunk_lines env i parts) d = call (FrameCall ms) d"
proof -
  let ?line = "\<lambda>k. line_of (chunk_object env i k (length parts) (length (concat parts)) (parts ! k))"
  have k: "jsonl_write env (concat (map ?line [0..<k])) d = (if k = 0 then d else d\<lparr>jd_assembly := Some (partial i parts k)\<rparr>)"
    if "k < length parts" for k
    using that
  proof (induction k)
    case 0
    show ?case using d with_buffer_simps(3) [of d] by (simp add: write_split)
  next
    case (Suc k)
    then have IH: "jsonl_write env (concat (map ?line [0..<k])) d = (if k = 0 then d else d\<lparr>jd_assembly := Some (partial i parts k)\<rparr>)"
      by simp
    have "jsonl_write env (concat (map ?line [0..<Suc k])) d = jsonl_write env (?line k) (jsonl_write env (concat (map ?line [0..<k])) d)"
      by (simp add: write_append)
    also have "\<dots> = (jsonl_write env (concat (map ?line [0..<k])) d)\<lparr>jd_assembly := Some (partial i parts (Suc k))\<rparr>"
      using Suc.prems d by (subst chunk_step [OF env c]) (simp_all add: IH)
    finally show ?case by (simp add: IH)
  qed
  obtain n where n: "length parts = Suc n" "n \<noteq> 0" using c by (cases "length parts") (auto simp: chunkable_def)
  let ?d = "d\<lparr>jd_assembly := Some (partial i parts n)\<rparr>"
  have kn: "jsonl_write env (concat (map ?line [0..<n])) d = ?d" using k [of n] n by simp
  have "jsonl_write env (chunk_lines env i parts) d = jsonl_write env (?line n) (jsonl_write env (concat (map ?line [0..<n])) d)"
    by (simp add: chunk_lines_def n(1) write_append)
  also have "\<dots> = finishAssembly env parts (?d\<lparr>jd_assembly := None\<rparr>)"
    unfolding kn using n d by (subst chunk_step [OF env c]) simp_all
  also have "?d\<lparr>jd_assembly := None\<rparr> = d" using d(2) by simp
  finally show ?thesis using m JSON_round_trip [OF m(1)] by (simp add: finishAssembly_def objectFrame_def)
qed

text \<open>A message of a little more than 1 MiB in five parts.\<close>

definition sample_jsonl :: jsonl_env where
  "sample_jsonl = \<lparr>je_fromBase64 = latin1_bytes, je_toBase64 = latin1_text, je_decodeFatal = (\<lambda>b. Some (latin1_text b))\<rparr>"

definition sample_message :: "(string \<times> json) list" where
  "sample_message = [(''x'', JStr (replicate 1048576 (CHR ''a'')))]"

definition cut_bytes :: "nat \<Rightarrow> bytes \<Rightarrow> bytes list" where
  "cut_bytes n b = [take n b, take n (drop n b), take n (drop (2 * n) b), take n (drop (3 * n) b), drop (4 * n) b]"

lemma concat_cut: "concat (cut_bytes n b) = b"
proof -
  have "take n (drop k b) @ drop (n + k) b = drop k b" for k
    by (metis append_take_drop_id drop_drop)
  from this [of n] this [of "2 * n"] this [of "3 * n"] show ?thesis by (simp add: cut_bytes_def mult_2 [symmetric])
qed

lemma cut_chunkable: "length b = 1048584 \<Longrightarrow> chunkable ''m'' (cut_bytes 262144 b)"
  by (simp only: chunkable_def concat_cut limits) (simp add: cut_bytes_def flip: length_greater_0_conv)

definition sample_parts :: "bytes list" where
  "sample_parts = cut_bytes 262144 (latin1_bytes (JSON_stringify (JObj sample_message)))"

lemma sample_chunks:
  "jsonl_env_ok sample_jsonl" "chunkable ''m'' sample_parts"
  "je_decodeFatal sample_jsonl (concat sample_parts) = Some (JSON_stringify (JObj sample_message))"
proof -
  show "jsonl_env_ok sample_jsonl"
    by (simp add: jsonl_env_ok_def sample_jsonl_def) (simp add: latin1_text_def, linarith)
  have e: "concat (map escape_char (replicate n (CHR ''a''))) = replicate n (CHR ''a'')" for n
    by (induction n) (simp_all add: escape_char_def char_code_def)
  have "length (latin1_bytes (JSON_stringify (JObj sample_message))) = 1048584"
    by (simp add: latin1_bytes_def sample_message_def quote_def e) (simp add: escape_char_def char_code_def)
  then show "chunkable ''m'' sample_parts" unfolding sample_parts_def by (rule cut_chunkable)
  show "je_decodeFatal sample_jsonl (concat sample_parts) = Some (JSON_stringify (JObj sample_message))"
    by (simp add: sample_parts_def concat_cut sample_jsonl_def del: JSON_stringify.simps)
qed

lemma jsonl_reassembles_witness:
  "jd_calls (jsonl_write sample_jsonl (chunk_lines sample_jsonl ''m'' sample_parts) new_decoder) = [FrameCall sample_message]"
proof -
  have "json_ok (JObj sample_message)" by (simp add: sample_message_def)
  from jsonl_reassembles [OF sample_chunks(1,2) this sample_chunks(3), of new_decoder] show ?thesis
    by (simp add: new_decoder_def call_def)
qed

lemma jsonl_assembly_bounded_witness:
  "\<exists>t a. jd_assembly (fold (jsonl_write sample_jsonl) [t] new_decoder) = Some a \<and> ca_bytes a \<le> 67108864"
proof -
  let ?t = "line_of (chunk_object sample_jsonl ''m'' 0 (length sample_parts) (length (concat sample_parts)) (sample_parts ! 0))"
  have "2 \<le> length sample_parts" using sample_chunks(2) by (simp add: chunkable_def)
  then have "jsonl_write sample_jsonl ?t new_decoder = new_decoder\<lparr>jd_assembly := Some (partial ''m'' sample_parts 1)\<rparr>"
    by (subst chunk_step [OF sample_chunks(1,2)]) (auto simp: new_decoder_def)
  then have a: "jd_assembly (fold (jsonl_write sample_jsonl) [?t] new_decoder) = Some (partial ''m'' sample_parts 1)" by simp
  from jsonl_assembly_bounded [OF a] a show ?thesis by blast
qed

end
