(* ===== verification/Encrypted_Channel.thy ===== *)
theory Encrypted_Channel
  imports Js_Json
begin

unbundle bit_operations_syntax

text \<open>
  \<open>packages/relay/src/crypto.ts\<close>, \<open>base64.ts\<close> and \<open>encrypted-channel.ts\<close>: the handshake and the
  encrypted channel between an app and its daemon.  An operation returns the new channel and its effects:
  what it hands to the transport and the callbacks it makes, in order.  \<open>tweetnacl\<close>, \<open>base64-js\<close> and the text
  codecs of the platform are the fields of \<open>platform\<close>; a random nonce is an argument of the operation that
  draws it.  A handler runs to its end; the sends of a flush are steps of their own, since the code
  awaits each.
\<close>

section \<open>Keys and boxes\<close>

record platform =
  pf_scalarMult :: "bytes \<Rightarrow> bytes \<Rightarrow> bytes"
  pf_before :: "bytes \<Rightarrow> bytes \<Rightarrow> bytes"
  pf_after :: "bytes \<Rightarrow> bytes \<Rightarrow> bytes \<Rightarrow> bytes"
  pf_openAfter :: "bytes \<Rightarrow> bytes \<Rightarrow> bytes \<Rightarrow> bytes option"
  pf_fromByteArray :: "bytes \<Rightarrow> string"
  pf_toByteArray :: "string \<Rightarrow> string + bytes"
  pf_encode :: "string \<Rightarrow> bytes"
  pf_decode :: "bytes \<Rightarrow> string"
  pf_decodeFatal :: "bytes \<Rightarrow> string + string"

record key_pair =
  kp_publicKey :: bytes
  kp_secretKey :: bytes

definition NONCE_LENGTH :: nat where
  "NONCE_LENGTH = 24"

definition KEY_LENGTH :: nat where
  "KEY_LENGTH = 32"

text \<open>\<open>/^(?:[A-Za-z0-9+/]{4})*(?:[A-Za-z0-9+/]{2}==|[A-Za-z0-9+/]{3}=)?$/\<close> for a text of a length divisible by 4.\<close>

definition base64_char :: "char \<Rightarrow> bool" where
  "base64_char c \<longleftrightarrow> (let n = char_code c in
     65 \<le> n \<and> n \<le> 90 \<or> 97 \<le> n \<and> n \<le> 122 \<or> 48 \<le> n \<and> n \<le> 57 \<or> n = 43 \<or> n = 47)"

definition base64_text :: "string \<Rightarrow> bool" where
  "base64_text s \<longleftrightarrow> length s mod 4 = 0 \<and> dropWhile base64_char s \<in> {'''', ''='', ''==''}"

definition decodePublicKeyBase64 :: "platform \<Rightarrow> string \<Rightarrow> string + bytes" where
  "decodePublicKeyBase64 pf base64 =
     (if \<not> base64_text base64 then Inl ''Invalid public key encoding''
      else bind_sum (pf_toByteArray pf base64) (\<lambda>bytes.
        if pf_fromByteArray pf bytes \<noteq> base64 then Inl ''Invalid public key encoding'' else Inr bytes))"

definition toUint8 :: "platform \<Rightarrow> wire_data \<Rightarrow> bytes" where
  "toUint8 pf data = (case data of Text s \<Rightarrow> pf_encode pf s | Buffer b \<Rightarrow> b)"

definition exportPublicKey :: "platform \<Rightarrow> bytes \<Rightarrow> string + string" where
  "exportPublicKey pf publicKey =
     (if length publicKey \<noteq> KEY_LENGTH then Inl ''Invalid public key length (expected 32)''
      else Inr (pf_fromByteArray pf publicKey))"

definition importPublicKey :: "platform \<Rightarrow> string \<Rightarrow> string + bytes" where
  "importPublicKey pf base64 = bind_sum (decodePublicKeyBase64 pf base64) (\<lambda>bytes.
     if length bytes \<noteq> KEY_LENGTH then Inl ''Invalid public key length (expected 32)'' else Inr bytes)"

definition deriveSharedKey :: "platform \<Rightarrow> bytes \<Rightarrow> bytes \<Rightarrow> string + bytes" where
  "deriveSharedKey pf ourSecretKey peerPublicKey =
     (if length ourSecretKey \<noteq> KEY_LENGTH then Inl ''Invalid secret key length (expected 32)''
      else if length peerPublicKey \<noteq> KEY_LENGTH then Inl ''Invalid peer public key length (expected 32)''
      else if pf_scalarMult pf ourSecretKey peerPublicKey = replicate KEY_LENGTH 0
      then Inl ''Invalid peer public key''
      else Inr (pf_before pf peerPublicKey ourSecretKey))"

definition encrypt :: "platform \<Rightarrow> bytes \<Rightarrow> bytes \<Rightarrow> wire_data \<Rightarrow> bytes" where
  "encrypt pf nonce sharedKey data = nonce @ pf_after pf (toUint8 pf data) nonce sharedKey"

definition decrypt :: "platform \<Rightarrow> bytes \<Rightarrow> bytes \<Rightarrow> string + bytes" where
  "decrypt pf sharedKey bytes =
     (if length bytes < NONCE_LENGTH then Inl ''Ciphertext bundle too short''
      else case pf_openAfter pf (drop NONCE_LENGTH bytes) (take NONCE_LENGTH bytes) sharedKey of
        None \<Rightarrow> Inl ''Decryption failed'' | Some opened \<Rightarrow> Inr opened)"

text \<open>\<open>base64.ts\<close>\<close>

definition url_to_standard :: "char \<Rightarrow> char" where
  "url_to_standard c = (if c = CHR ''-'' then CHR ''+'' else if c = CHR ''_'' then CHR ''/'' else c)"

definition base64ToArrayBuffer :: "platform \<Rightarrow> string \<Rightarrow> string + bytes" where
  "base64ToArrayBuffer pf base64 =
     (let standard = map url_to_standard (trim base64);
          padLen = (4 - length standard mod 4) mod 4
      in pf_toByteArray pf (standard @ replicate padLen (CHR ''='')))"

definition keysEqual :: "bytes \<Rightarrow> bytes \<Rightarrow> bool" where
  "keysEqual a b = (length a = length b \<and>
     foldl (\<lambda>difference i. difference OR (a ! i XOR b ! i)) 0 [0..<length a] = 0)"

section \<open>Messages of the handshake\<close>

definition field :: "string \<Rightarrow> (string \<times> json) list \<Rightarrow> json option" where
  "field k ms = map_of ms k"

definition isE2EECapabilities :: "json option \<Rightarrow> bool" where
  "isE2EECapabilities v = (case v of
      None \<Rightarrow> True
    | Some (JObj ms) \<Rightarrow> (case field ''binaryCiphertext'' ms of None \<Rightarrow> True | Some (JBool b) \<Rightarrow> True | _ \<Rightarrow> False)
    | _ \<Rightarrow> False)"

definition isE2EEHelloMessage :: "json \<Rightarrow> bool" where
  "isE2EEHelloMessage v = (case v of
      JObj ms \<Rightarrow> field ''type'' ms = Some (JStr ''e2ee_hello'') \<and>
        (case field ''key'' ms of Some (JStr k) \<Rightarrow> trim k \<noteq> [] | _ \<Rightarrow> False) \<and>
        isE2EECapabilities (field ''capabilities'' ms)
    | _ \<Rightarrow> False)"

definition isE2EEReadyMessage :: "json \<Rightarrow> bool" where
  "isE2EEReadyMessage v = (case v of
      JObj ms \<Rightarrow> field ''type'' ms = Some (JStr ''e2ee_ready'') \<and> isE2EECapabilities (field ''capabilities'' ms)
    | _ \<Rightarrow> False)"

definition hello_key :: "json \<Rightarrow> string" where
  "hello_key v = (case v of JObj ms \<Rightarrow> (case field ''key'' ms of Some (JStr k) \<Rightarrow> k | _ \<Rightarrow> []) | _ \<Rightarrow> [])"

definition supportsBinaryCiphertext :: "json \<Rightarrow> bool" where
  "supportsBinaryCiphertext v = (case v of
      JObj ms \<Rightarrow> (case field ''capabilities'' ms of
          Some (JObj cs) \<Rightarrow> field ''binaryCiphertext'' cs = Some (JBool True) | _ \<Rightarrow> False)
    | _ \<Rightarrow> False)"

definition capabilities :: "(string \<times> json)" where
  "capabilities = (''capabilities'', JObj [(''binaryCiphertext'', JBool True)])"

definition hello_message :: "string \<Rightarrow> json" where
  "hello_message key = JObj [(''type'', JStr ''e2ee_hello''), (''key'', JStr key), capabilities]"

definition ready_message :: "bool \<Rightarrow> json" where
  "ready_message binaryCiphertext =
     JObj ((''type'', JStr ''e2ee_ready'') # (if binaryCiphertext then [capabilities] else []))"

section \<open>The channel\<close>

datatype channel_state = Connecting | Handshaking | ChannelOpen | ChannelClosed

record channel =
  ec_sharedKey :: bytes
  ec_state :: channel_state
  ec_daemonKeyPair :: "key_pair option"
  ec_binaryCiphertext :: bool
  ec_pendingSends :: "wire_data list"
  ec_flushing :: "wire_data list"

record transport_message =
  tm_data :: wire_data
  tm_isBinary :: bool

datatype effect =
    TransportSend wire_data
  | TransportClose int string
  | OnOpen
  | OnMessage wire_data
  | OnClose int string
  | OnError string
  | ClearRetry

definition new_channel :: "bytes \<Rightarrow> key_pair option \<Rightarrow> bool \<Rightarrow> channel" where
  "new_channel sharedKey daemonKeyPair binaryCiphertext =
     \<lparr>ec_sharedKey = sharedKey, ec_state = Handshaking, ec_daemonKeyPair = daemonKeyPair,
      ec_binaryCiphertext = binaryCiphertext, ec_pendingSends = [], ec_flushing = []\<rparr>"

definition MAX_PENDING_SENDS :: nat where
  "MAX_PENDING_SENDS = 200"

definition decodeTransportText :: "platform \<Rightarrow> wire_data \<Rightarrow> string" where
  "decodeTransportText pf data = (case data of Text s \<Rightarrow> s | Buffer b \<Rightarrow> pf_decode pf b)"

definition requireArrayBuffer :: "wire_data \<Rightarrow> string + bytes" where
  "requireArrayBuffer data = (case data of
      Buffer b \<Rightarrow> Inr b | Text s \<Rightarrow> Inl ''Binary WebSocket frame did not contain bytes'')"

definition decodeLegacyPlaintext :: "platform \<Rightarrow> bytes \<Rightarrow> wire_data" where
  "decodeLegacyPlaintext pf data = (case pf_decodeFatal pf data of Inr s \<Rightarrow> Text s | Inl e \<Rightarrow> Buffer data)"

definition decodePlaintext :: "platform \<Rightarrow> bytes \<Rightarrow> bool option \<Rightarrow> string + wire_data" where
  "decodePlaintext pf data isBinary = (case isBinary of
      Some True \<Rightarrow> Inr (Buffer data)
    | Some False \<Rightarrow> bind_sum (pf_decodeFatal pf data) (\<lambda>s. Inr (Text s))
    | None \<Rightarrow> Inr (decodeLegacyPlaintext pf data))"

definition send :: "platform \<Rightarrow> bytes \<Rightarrow> wire_data \<Rightarrow> channel \<Rightarrow> string + channel \<times> effect list" where
  "send pf nonce data ch =
     (if ec_state ch = Handshaking then
        let pending = (if length (ec_pendingSends ch) \<ge> MAX_PENDING_SENDS then tl (ec_pendingSends ch)
                       else ec_pendingSends ch)
        in Inr (ch\<lparr>ec_pendingSends := pending @ [data]\<rparr>, [])
      else if ec_state ch \<noteq> ChannelOpen then Inl ''Channel not open''
      else let ciphertext = encrypt pf nonce (ec_sharedKey ch) data in
        Inr (ch, [TransportSend (case data of
            Buffer b \<Rightarrow> (if ec_binaryCiphertext ch then Buffer ciphertext else Text (pf_fromByteArray pf ciphertext))
          | Text s \<Rightarrow> Text (pf_fromByteArray pf ciphertext))]))"

text \<open>The \<open>catch\<close> around \<open>flushPendingSends\<close>.\<close>

definition flush_failed :: "string \<Rightarrow> channel \<Rightarrow> channel \<times> effect list" where
  "flush_failed err ch =
     (ch\<lparr>ec_state := ChannelClosed, ec_flushing := []\<rparr>, [OnError err, TransportClose 1011 err])"

text \<open>One turn of the loop of \<open>flushPendingSends\<close>; its list is what is left of \<open>pending\<close>.\<close>

definition flush_next :: "platform \<Rightarrow> bytes \<Rightarrow> channel \<Rightarrow> channel \<times> effect list" where
  "flush_next pf nonce ch = (case ec_flushing ch of
      [] \<Rightarrow> (ch, [])
    | item # items \<Rightarrow> (case send pf nonce item (ch\<lparr>ec_flushing := items\<rparr>) of
        Inr r \<Rightarrow> r | Inl err \<Rightarrow> flush_failed err ch))"

definition ready_text :: "bool \<Rightarrow> wire_data" where
  "ready_text binaryCiphertext = Text (JSON_stringify (ready_message binaryCiphertext))"

definition rejectKeyRotation :: "channel \<Rightarrow> channel \<times> effect list" where
  "rejectKeyRotation ch =
     (ch\<lparr>ec_state := ChannelClosed\<rparr>, [TransportClose 1008 ''E2EE re-handshake key mismatch''])"

text \<open>\<open>Inl\<close> is a throw, which the caller swallows.\<close>

definition handleDaemonRehello :: "platform \<Rightarrow> json \<Rightarrow> channel \<Rightarrow> string + channel \<times> effect list" where
  "handleDaemonRehello pf hello ch = (case ec_daemonKeyPair ch of
      None \<Rightarrow> Inr (ch, [])
    | Some kp \<Rightarrow> bind_sum (importPublicKey pf (hello_key hello)) (\<lambda>clientPublicKey.
        bind_sum (deriveSharedKey pf (kp_secretKey kp) clientPublicKey) (\<lambda>retryKey.
          Inr (if \<not> keysEqual retryKey (ec_sharedKey ch) then rejectKeyRotation ch
               else (ch, [TransportSend (ready_text (ec_binaryCiphertext ch))])))))"

text \<open>What an open channel makes of a message before it decrypts anything.\<close>

datatype plan = Handled "channel \<times> effect list" | Fatal string | Ciphertext

definition plaintext_plan :: "platform \<Rightarrow> transport_message \<Rightarrow> channel \<Rightarrow> plan" where
  "plaintext_plan pf msg ch =
     (let t = decodeTransportText pf (tm_data msg) in
      if tm_isBinary msg \<or> take 1 (trim t) \<noteq> ''{'' then Ciphertext
      else case JSON_parse t of
        None \<Rightarrow> Ciphertext
      | Some parsed \<Rightarrow>
          if isE2EEHelloMessage parsed then
            (case handleDaemonRehello pf parsed ch of Inr r \<Rightarrow> Handled r | Inl e \<Rightarrow> Ciphertext)
          else if isE2EEReadyMessage parsed then Handled (ch, [])
          else Fatal ''Received plaintext frame on encrypted channel'')"

definition ciphertext_of :: "platform \<Rightarrow> transport_message \<Rightarrow> channel \<Rightarrow> string + bytes \<times> bool option" where
  "ciphertext_of pf msg ch =
     (let base64 = base64ToArrayBuffer pf (decodeTransportText pf (tm_data msg)) in
      if ec_binaryCiphertext ch then
        (if tm_isBinary msg then bind_sum (requireArrayBuffer (tm_data msg)) (\<lambda>b. Inr (b, Some True))
         else bind_sum base64 (\<lambda>b. Inr (b, Some False)))
      else if \<not> tm_isBinary msg then bind_sum base64 (\<lambda>b. Inr (b, None))
      else case base64 of Inr b \<Rightarrow> Inr (b, None)
        | Inl e \<Rightarrow> bind_sum (requireArrayBuffer (tm_data msg)) (\<lambda>b. Inr (b, None)))"

definition open_message :: "platform \<Rightarrow> transport_message \<Rightarrow> channel \<Rightarrow> string + wire_data" where
  "open_message pf msg ch = bind_sum (ciphertext_of pf msg ch) (\<lambda>(bytes, isBinary).
     bind_sum (decrypt pf (ec_sharedKey ch) bytes) (\<lambda>plaintext. decodePlaintext pf plaintext isBinary))"

definition handleMessage :: "platform \<Rightarrow> transport_message \<Rightarrow> channel \<Rightarrow> channel \<times> effect list" where
  "handleMessage pf msg ch =
     (if ec_state ch = Handshaking then
        (if tm_isBinary msg then (ch, [])
         else case JSON_parse (decodeTransportText pf (tm_data msg)) of
           None \<Rightarrow> (ch, [])
         | Some parsed \<Rightarrow>
             if isE2EEReadyMessage parsed then
               (ch\<lparr>ec_binaryCiphertext := supportsBinaryCiphertext parsed, ec_state := ChannelOpen,
                   ec_flushing := ec_pendingSends ch, ec_pendingSends := []\<rparr>, [OnOpen, ClearRetry])
             else (ch, []))
      else if ec_state ch \<noteq> ChannelOpen then (ch, [])
      else case plaintext_plan pf msg ch of
        Handled r \<Rightarrow> r
      | Fatal e \<Rightarrow> (ch, [TransportClose 1011 e])
      | Ciphertext \<Rightarrow> (case open_message pf msg ch of
          Inr plaintext \<Rightarrow> (ch, [OnMessage plaintext])
        | Inl e \<Rightarrow> (ch, [TransportClose 1011 e])))"

definition close_channel :: "int \<Rightarrow> string \<Rightarrow> channel \<Rightarrow> channel \<times> effect list" where
  "close_channel code reason ch = (ch\<lparr>ec_state := ChannelClosed\<rparr>, [TransportClose code reason])"

definition transport_closed :: "int \<Rightarrow> string \<Rightarrow> channel \<Rightarrow> channel \<times> effect list" where
  "transport_closed code reason ch = (ch\<lparr>ec_state := ChannelClosed\<rparr>, [OnClose code reason, ClearRetry])"

definition isOpen :: "channel \<Rightarrow> bool" where
  "isOpen ch \<longleftrightarrow> ec_state ch = ChannelOpen"

text \<open>Sizes on the wire; a box is 40 bytes longer than its plaintext.\<close>

definition ENCRYPTED_PAYLOAD_OVERHEAD_BYTES :: int where
  "ENCRYPTED_PAYLOAD_OVERHEAD_BYTES = 40"

definition base64EncryptedWireByteLength :: "int \<Rightarrow> int" where
  "base64EncryptedWireByteLength plaintextBytes =
     4 * \<lceil>rat_of_int (plaintextBytes + ENCRYPTED_PAYLOAD_OVERHEAD_BYTES) / 3\<rceil>"

definition maxBase64EncryptedPlaintextByteLength :: "int \<Rightarrow> int" where
  "maxBase64EncryptedPlaintextByteLength wireBytes =
     \<lfloor>rat_of_int wireBytes / 4\<rfloor> * 3 - ENCRYPTED_PAYLOAD_OVERHEAD_BYTES"

definition outboundWireByteLength :: "platform \<Rightarrow> wire_data \<Rightarrow> channel \<Rightarrow> int" where
  "outboundWireByteLength pf data ch =
     (let plaintextBytes = int (length (toUint8 pf data)) in case data of
        Buffer b \<Rightarrow> (if ec_binaryCiphertext ch then plaintextBytes + ENCRYPTED_PAYLOAD_OVERHEAD_BYTES
                     else base64EncryptedWireByteLength plaintextBytes)
      | Text s \<Rightarrow> base64EncryptedWireByteLength plaintextBytes)"

section \<open>The initiator\<close>

record client =
  cl_channel :: channel
  cl_hello :: wire_data
  cl_retry :: bool

definition createClientChannel :: "platform \<Rightarrow> key_pair \<Rightarrow> string \<Rightarrow> string + client \<times> effect list" where
  "createClientChannel pf keyPair daemonPublicKeyB64 =
     bind_sum (importPublicKey pf daemonPublicKeyB64) (\<lambda>daemonPublicKey.
     bind_sum (deriveSharedKey pf (kp_secretKey keyPair) daemonPublicKey) (\<lambda>sharedKey.
     bind_sum (exportPublicKey pf (kp_publicKey keyPair)) (\<lambda>ourPublicKeyB64.
       let hello = Text (JSON_stringify (hello_message ourPublicKeyB64)) in
       Inr (\<lparr>cl_channel = new_channel sharedKey None False, cl_hello = hello, cl_retry = True\<rparr>,
            [TransportSend hello]))))"

text \<open>The interval that repeats the hello until the channel opens.\<close>

definition retry_tick :: "client \<Rightarrow> client \<times> effect list" where
  "retry_tick cl =
     (if \<not> cl_retry cl then (cl, [])
      else if isOpen (cl_channel cl) then (cl\<lparr>cl_retry := False\<rparr>, [])
      else (cl, [TransportSend (cl_hello cl)]))"

definition client_receive :: "platform \<Rightarrow> transport_message \<Rightarrow> client \<Rightarrow> client \<times> effect list" where
  "client_receive pf msg cl = (let (ch, es) = handleMessage pf msg (cl_channel cl) in
     (cl\<lparr>cl_channel := ch, cl_retry := cl_retry cl \<and> ClearRetry \<notin> set es\<rparr>, es))"

section \<open>The responder\<close>

text \<open>
  \<open>AwaitHello\<close>: \<open>onmessage\<close> is \<open>handleHello\<close>; \<open>Deriving\<close>: it is \<open>bufferNext\<close> while the ready message is sent;
  \<open>Swallowing\<close>: the key of the hello was refused after \<open>bufferNext\<close> had been installed.
\<close>

datatype daemon =
    AwaitHello
  | Deriving bytes bool "transport_message list"
  | Swallowing
  | Running channel

text \<open>What a hello is accepted as; the error of \<open>buildInvalidHelloError\<close> leaves the handler in place.\<close>

definition parseHello :: "platform \<Rightarrow> transport_message \<Rightarrow> json option" where
  "parseHello pf msg =
     (if tm_isBinary msg then None
      else case JSON_parse (decodeTransportText pf (tm_data msg)) of
        None \<Rightarrow> None
      | Some parsed \<Rightarrow> if isE2EEHelloMessage parsed then Some parsed else None)"

definition shouldIgnorePostHelloPlaintext :: "platform \<Rightarrow> transport_message \<Rightarrow> bool" where
  "shouldIgnorePostHelloPlaintext pf msg =
     (if tm_isBinary msg then False
      else case JSON_parse (decodeTransportText pf (tm_data msg)) of
        None \<Rightarrow> False
      | Some parsed \<Rightarrow> isE2EEHelloMessage parsed \<or> isE2EEReadyMessage parsed)"

datatype outcome = Pending | Rejected string | Resolved

definition handleHello :: "platform \<Rightarrow> key_pair \<Rightarrow> transport_message \<Rightarrow> daemon \<times> effect list \<times> outcome" where
  "handleHello pf daemonKeyPair msg = (case parseHello pf msg of
      None \<Rightarrow> (AwaitHello, [], Rejected ''Invalid hello message'')
    | Some hello \<Rightarrow>
        (case bind_sum (importPublicKey pf (hello_key hello)) (deriveSharedKey pf (kp_secretKey daemonKeyPair)) of
           Inl e \<Rightarrow> (Swallowing, [], Rejected e)
         | Inr sharedKey \<Rightarrow>
             (let binaryCiphertext = supportsBinaryCiphertext hello in
              (Deriving sharedKey binaryCiphertext [], [TransportSend (ready_text binaryCiphertext)], Pending))))"

definition daemon_receive :: "platform \<Rightarrow> key_pair \<Rightarrow> transport_message \<Rightarrow> daemon \<Rightarrow> daemon \<times> effect list \<times> outcome" where
  "daemon_receive pf daemonKeyPair msg d = (case d of
      AwaitHello \<Rightarrow> handleHello pf daemonKeyPair msg
    | Deriving sharedKey b buffered \<Rightarrow> (Deriving sharedKey b (buffered @ [msg]), [], Pending)
    | Swallowing \<Rightarrow> (Swallowing, [], Pending)
    | Running ch \<Rightarrow> (let (ch', es) = handleMessage pf msg ch in (Running ch', es, Resolved)))"

primrec replay :: "platform \<Rightarrow> transport_message list \<Rightarrow> channel \<Rightarrow> channel \<times> effect list" where
  "replay pf [] ch = (ch, [])"
| "replay pf (buffered # rest) ch =
     (if shouldIgnorePostHelloPlaintext pf buffered then replay pf rest ch
      else let (ch1, es1) = handleMessage pf buffered ch; (ch2, es2) = replay pf rest ch1 in (ch2, es1 @ es2))"

text \<open>What follows \<open>await transport.send\<close> in \<open>handleHello\<close>.\<close>

definition daemon_ready :: "platform \<Rightarrow> key_pair \<Rightarrow> daemon \<Rightarrow> daemon \<times> effect list \<times> outcome" where
  "daemon_ready pf daemonKeyPair d = (case d of
      Deriving sharedKey binaryCiphertext buffered \<Rightarrow>
        (let ch = new_channel sharedKey (Some daemonKeyPair) binaryCiphertext;
             (ch', es) = replay pf buffered (ch\<lparr>ec_state := ChannelOpen\<rparr>)
         in (Running ch', OnOpen # es, Resolved))
    | _ \<Rightarrow> (d, [], Pending))"

section \<open>Comparison of keys\<close>

lemma fold_or_zero:
  fixes f :: "nat \<Rightarrow> 8 word"
  shows "foldl (\<lambda>d i. d OR f i) d js = 0 \<longleftrightarrow> d = 0 \<and> (\<forall>i \<in> set js. f i = 0)"
  by (induction js arbitrary: d) (auto simp: or_eq_0_iff)

lemma xor_zero: "x XOR y = 0 \<longleftrightarrow> x = y" for x y :: "8 word"
proof
  assume "x XOR y = 0"
  then have "(x XOR y) XOR y = y" by simp
  then show "x = y" by (simp add: xor.assoc)
qed simp

lemma keysEqual_eq: "keysEqual a b \<longleftrightarrow> a = b"
proof -
  have "keysEqual a b \<longleftrightarrow> length a = length b \<and> (\<forall>i < length a. a ! i = b ! i)"
    unfolding keysEqual_def fold_or_zero by (auto simp: xor_zero)
  then show ?thesis by (simp add: list_eq_iff_nth_eq)
qed

section \<open>Messages between honest ends\<close>

text \<open>What the channel relies on in \<open>tweetnacl\<close>, \<open>base64-js\<close> and the codecs of the platform.\<close>

definition platform_ok :: "platform \<Rightarrow> bool" where
  "platform_ok pf \<longleftrightarrow>
     (\<forall>m n k. pf_openAfter pf (pf_after pf m n k) n k = Some m) \<and>
     (\<forall>b. pf_toByteArray pf (pf_fromByteArray pf b) = Inr b \<and> base64_text (pf_fromByteArray pf b) \<and>
        (b \<noteq> [] \<longrightarrow> pf_fromByteArray pf b \<noteq> [])) \<and>
     (\<forall>s. pf_decodeFatal pf (pf_encode pf s) = Inr s)"

definition deliver_wire :: "wire_data \<Rightarrow> transport_message" where
  "deliver_wire w = \<lparr>tm_data = w, tm_isBinary = (case w of Buffer b \<Rightarrow> True | Text s \<Rightarrow> False)\<rparr>"

definition cipher_wire :: "platform \<Rightarrow> bytes \<Rightarrow> bytes \<Rightarrow> bool \<Rightarrow> wire_data \<Rightarrow> wire_data" where
  "cipher_wire pf nonce key binaryCiphertext data = (case data of
      Buffer b \<Rightarrow> (if binaryCiphertext then Buffer (encrypt pf nonce key data)
                   else Text (pf_fromByteArray pf (encrypt pf nonce key data)))
    | Text s \<Rightarrow> Text (pf_fromByteArray pf (encrypt pf nonce key data)))"

lemma send_open:
  "ec_state ch = ChannelOpen \<Longrightarrow> send pf nonce d ch =
     Inr (ch, [TransportSend (cipher_wire pf nonce (ec_sharedKey ch) (ec_binaryCiphertext ch) d)])"
  by (cases d) (simp_all add: send_def cipher_wire_def)

lemma deliver_simps [simp]:
  "tm_data (deliver_wire w) = w" "tm_isBinary (deliver_wire (Text s)) = False" "tm_isBinary (deliver_wire (Buffer b)) = True"
  by (simp_all add: deliver_wire_def)

subsection \<open>Plaintext of the handshake\<close>

lemma hello_parses: "JSON_parse (JSON_stringify (hello_message k)) = Some (hello_message k)"
  by (rule JSON_round_trip) (simp add: hello_message_def capabilities_def)

lemma ready_parses: "JSON_parse (JSON_stringify (ready_message b)) = Some (ready_message b)"
  by (rule JSON_round_trip) (simp add: ready_message_def capabilities_def)

lemma hello_fields [simp]:
  "isE2EEHelloMessage (hello_message k) \<longleftrightarrow> trim k \<noteq> []" "\<not> isE2EEReadyMessage (hello_message k)"
  "hello_key (hello_message k) = k" "supportsBinaryCiphertext (hello_message k)"
  by (simp_all add: isE2EEHelloMessage_def isE2EEReadyMessage_def hello_message_def field_def capabilities_def
      isE2EECapabilities_def hello_key_def supportsBinaryCiphertext_def)

lemma ready_fields [simp]:
  "\<not> isE2EEHelloMessage (ready_message b)" "isE2EEReadyMessage (ready_message b)"
  "supportsBinaryCiphertext (ready_message b) \<longleftrightarrow> b"
  by (simp_all add: isE2EEHelloMessage_def isE2EEReadyMessage_def ready_message_def field_def capabilities_def
      isE2EECapabilities_def supportsBinaryCiphertext_def)

lemma brace_first: "take 1 (trim (JSON_stringify (JObj ms))) = ''{''"
proof -
  let ?s = "JSON_stringify (JObj ms)"
  obtain u where s: "?s = CHR ''{'' # u @ ''}''" by simp
  have "\<not> is_space (CHR ''{'')" "\<not> is_space (CHR ''}'')" by (simp_all add: is_space_def)
  then have "trim ?s = ?s" by (intro trim_id) (simp add: s)
  with s show ?thesis by simp
qed

lemma hello_brace: "take 1 (trim (JSON_stringify (hello_message k))) = ''{''"
  unfolding hello_message_def by (rule brace_first)

lemma ready_brace: "take 1 (trim (JSON_stringify (ready_message b))) = ''{''"
  unfolding ready_message_def by (rule brace_first)

lemma plan_ready: "plaintext_plan pf (deliver_wire (ready_text b)) ch = Handled (ch, [])"
  using ready_brace [of b] by (simp add: plaintext_plan_def ready_text_def decodeTransportText_def ready_parses)

subsection \<open>Ciphertext is never taken for plaintext\<close>

lemma parse_literal_no_object: "parse_literal s \<noteq> Some (JObj ms, r)"
  by (auto simp: parse_literal_def parse_number_def Let_def split: option.split_asm prod.split_asm if_split_asm)

lemma object_text_has_brace:
  assumes "JSON_parse s = Some (JObj ms)"
  shows "CHR ''{'' \<in> set s"
proof -
  obtain r where p: "parse_value (Suc (2 * length s + 1)) s = Some (JObj ms, r)"
    using assms by (auto simp: JSON_parse_def split: option.split_asm if_split_asm)
  then obtain c u where c: "skip_ws s = c # u" by (cases "skip_ws s") auto
  with p have "c = CHR ''{''"
    by (auto simp: parse_literal_no_object split: if_split_asm list.split_asm)
  then show ?thesis using c set_dropWhileD [of "CHR ''{''" json_space s] by (simp add: skip_ws_def)
qed

lemma handshake_is_object:
  "isE2EEHelloMessage v \<or> isE2EEReadyMessage v \<Longrightarrow> \<exists>ms. v = JObj ms"
  by (cases v) (simp_all add: isE2EEHelloMessage_def isE2EEReadyMessage_def)

lemma base64_chars:
  assumes "base64_text s" "c \<in> set s"
  shows "base64_char c \<or> c = CHR ''=''"
proof (rule disjCI)
  assume "c \<noteq> CHR ''=''"
  have "c \<in> set (takeWhile base64_char s) \<or> c \<in> set (dropWhile base64_char s)"
    using assms(2) by (metis Un_iff set_append takeWhile_dropWhile_id)
  with assms(1) \<open>c \<noteq> CHR ''=''\<close> show "base64_char c"
    by (auto simp: base64_text_def dest: set_takeWhileD set_dropWhileD)
qed

lemma base64_char_plain:
  "base64_char c \<or> c = CHR ''='' \<Longrightarrow> \<not> is_space c \<and> c \<noteq> CHR ''{'' \<and> c \<noteq> CHR ''-'' \<and> c \<noteq> CHR ''_''"
  unfolding base64_char_def is_space_def char_code_def Let_def by auto

lemma base64_plain:
  assumes "base64_text s"
  shows "trim s = s" "CHR ''{'' \<notin> set s" "map url_to_standard s = s"
proof -
  note c = base64_char_plain [OF base64_chars [OF assms]]
  show "trim s = s" by (rule trim_id) (use c in \<open>cases "s = []"; simp\<close>)
  show "CHR ''{'' \<notin> set s" using c by blast
  show "map url_to_standard s = s" by (rule map_idI) (use c in \<open>auto simp: url_to_standard_def\<close>)
qed

lemma base64_decodes:
  assumes "platform_ok pf"
  shows "base64ToArrayBuffer pf (pf_fromByteArray pf b) = Inr b"
proof -
  let ?s = "pf_fromByteArray pf b"
  from assms have t: "base64_text ?s" and d: "pf_toByteArray pf ?s = Inr b" by (simp_all add: platform_ok_def)
  have "length ?s mod 4 = 0" using t by (simp add: base64_text_def)
  then show ?thesis by (simp add: base64ToArrayBuffer_def base64_plain [OF t] d)
qed

lemma base64_not_handshake:
  assumes "platform_ok pf"
  shows "\<not> shouldIgnorePostHelloPlaintext pf (deliver_wire (Text (pf_fromByteArray pf b)))"
    "parseHello pf (deliver_wire (Text (pf_fromByteArray pf b))) = None"
    "plaintext_plan pf (deliver_wire (Text (pf_fromByteArray pf b))) ch = Ciphertext"
proof -
  let ?s = "pf_fromByteArray pf b"
  from assms have t: "base64_text ?s" by (simp add: platform_ok_def)
  have n: "\<not> (isE2EEHelloMessage v \<or> isE2EEReadyMessage v)" if "JSON_parse ?s = Some v" for v
    using handshake_is_object [of v] object_text_has_brace [of ?s] that base64_plain(2) [OF t] by blast
  then show "\<not> shouldIgnorePostHelloPlaintext pf (deliver_wire (Text ?s))" "parseHello pf (deliver_wire (Text ?s)) = None"
    by (auto simp: shouldIgnorePostHelloPlaintext_def parseHello_def decodeTransportText_def split: option.split)
  have "take 1 (trim ?s) \<noteq> ''{''" using base64_plain(1,2) [OF t] by (cases ?s) auto
  then show "plaintext_plan pf (deliver_wire (Text ?s)) ch = Ciphertext"
    by (simp add: plaintext_plan_def decodeTransportText_def)
qed

lemma decrypt_encrypt:
  "platform_ok pf \<Longrightarrow> length nonce = NONCE_LENGTH \<Longrightarrow> decrypt pf key (encrypt pf nonce key d) = Inr (toUint8 pf d)"
  by (simp add: decrypt_def encrypt_def platform_ok_def)

text \<open>An open channel with negotiated binary frames delivers exactly what was encrypted, kind included.\<close>

lemma cipher_received:
  assumes pf: "platform_ok pf" and n: "length nonce = NONCE_LENGTH"
    and ch: "ec_state ch = ChannelOpen" "ec_binaryCiphertext ch"
  shows "handleMessage pf (deliver_wire (cipher_wire pf nonce (ec_sharedKey ch) True d)) ch = (ch, [OnMessage d])"
proof (cases d)
  case (Text s)
  have "decodePlaintext pf (toUint8 pf d) (Some False) = Inr d"
    using pf by (simp add: Text decodePlaintext_def toUint8_def platform_ok_def)
  with Text ch show ?thesis
    by (simp add: handleMessage_def cipher_wire_def base64_not_handshake [OF pf] open_message_def ciphertext_of_def
        decodeTransportText_def base64_decodes [OF pf] decrypt_encrypt [OF pf n])
next
  case (Buffer b)
  with ch show ?thesis
    by (simp add: handleMessage_def cipher_wire_def plaintext_plan_def open_message_def ciphertext_of_def
        requireArrayBuffer_def decrypt_encrypt [OF pf n] decodePlaintext_def toUint8_def)
qed

lemma buffer_not_ignored: "\<not> shouldIgnorePostHelloPlaintext pf (deliver_wire (Buffer b))"
  by (simp add: shouldIgnorePostHelloPlaintext_def)

lemma cipher_not_ignored:
  "platform_ok pf \<Longrightarrow> \<not> shouldIgnorePostHelloPlaintext pf (deliver_wire (cipher_wire pf nonce key b d))"
  by (cases d) (simp_all add: cipher_wire_def base64_not_handshake buffer_not_ignored)

end
