(* ===== verification/Encrypted_Link.thy ===== *)
theory Encrypted_Link
  imports Encrypted_Channel
begin

text \<open>
  The initiator and the responder of \<open>encrypted-channel.ts\<close> together: a transport that keeps the order
  of messages in each direction, any interleaving of sends, flushes, retries and deliveries.
\<close>

section \<open>Two honest ends over an ordered transport\<close>

text \<open>
  \<open>lk_up\<close> and \<open>lk_down\<close> are the messages in flight; \<open>lk_upSent\<close> is what the client encrypted, \<open>lk_upGot\<close> what
  the daemon delivered, and likewise downwards; \<open>lk_faults\<close> collects every error and every closing.
  Three fields record the calls of \<open>send\<close> themselves: the client's while it handshakes (\<open>lk_early\<close>) and while
  its channel is open (\<open>lk_late\<close>), and the daemon's (\<open>lk_downCalls\<close>).
\<close>

record link =
  lk_client :: client
  lk_daemon :: daemon
  lk_up :: "transport_message list"
  lk_down :: "transport_message list"
  lk_upSent :: "wire_data list"
  lk_downSent :: "wire_data list"
  lk_upGot :: "wire_data list"
  lk_downGot :: "wire_data list"
  lk_faults :: "effect list"
  lk_early :: "wire_data list"
  lk_late :: "wire_data list"
  lk_downCalls :: "wire_data list"

definition handshaking :: "link \<Rightarrow> bool" where
  "handshaking l \<longleftrightarrow> ec_state (cl_channel (lk_client l)) = Handshaking"

text \<open>The application calls \<open>send\<close> of the client.\<close>

definition client_calls :: "wire_data \<Rightarrow> link \<Rightarrow> link" where
  "client_calls d l = (if handshaking l then l\<lparr>lk_early := lk_early l @ [d]\<rparr> else l\<lparr>lk_late := lk_late l @ [d]\<rparr>)"

fun wires :: "effect list \<Rightarrow> transport_message list" where
  "wires [] = []"
| "wires (TransportSend w # es) = deliver_wire w # wires es"
| "wires (_ # es) = wires es"

fun delivered :: "effect list \<Rightarrow> wire_data list" where
  "delivered [] = []"
| "delivered (OnMessage d # es) = d # delivered es"
| "delivered (_ # es) = delivered es"

fun faults :: "effect list \<Rightarrow> effect list" where
  "faults [] = []"
| "faults (TransportClose c r # es) = TransportClose c r # faults es"
| "faults (OnError e # es) = OnError e # faults es"
| "faults (_ # es) = faults es"

text \<open>The effects of an end go out on its wire, to its application and to the log of faults.\<close>

definition client_acts :: "client \<Rightarrow> effect list \<Rightarrow> wire_data list \<Rightarrow> link \<Rightarrow> link" where
  "client_acts cl es ds l = l\<lparr>lk_client := cl, lk_up := lk_up l @ wires es, lk_upSent := lk_upSent l @ ds,
     lk_downGot := lk_downGot l @ delivered es, lk_faults := lk_faults l @ faults es\<rparr>"

definition daemon_acts :: "daemon \<Rightarrow> effect list \<Rightarrow> wire_data list \<Rightarrow> link \<Rightarrow> link" where
  "daemon_acts d es ds l = l\<lparr>lk_daemon := d, lk_down := lk_down l @ wires es, lk_downSent := lk_downSent l @ ds,
     lk_upGot := lk_upGot l @ delivered es, lk_faults := lk_faults l @ faults es\<rparr>"

text \<open>What a call of \<open>send\<close> or a turn of the flush encrypted: nothing while it only queues.\<close>

definition encrypted :: "effect list \<Rightarrow> wire_data \<Rightarrow> wire_data list" where
  "encrypted es d = (if wires es = [] then [] else [d])"

inductive linked :: "platform \<Rightarrow> key_pair \<Rightarrow> key_pair \<Rightarrow> link \<Rightarrow> bool" for pf kpC kpD where
  connect: "createClientChannel pf kpC (pf_fromByteArray pf (kp_publicKey kpD)) = Inr (cl, es) \<Longrightarrow>
    linked pf kpC kpD \<lparr>lk_client = cl, lk_daemon = AwaitHello, lk_up = wires es, lk_down = [],
      lk_upSent = [], lk_downSent = [], lk_upGot = [], lk_downGot = [], lk_faults = [],
      lk_early = [], lk_late = [], lk_downCalls = []\<rparr>"
| client_sends: "linked pf kpC kpD l \<Longrightarrow> length nonce = NONCE_LENGTH \<Longrightarrow>
    send pf nonce d (cl_channel (lk_client l)) = Inr (ch, es) \<Longrightarrow>
    linked pf kpC kpD (client_acts ((lk_client l)\<lparr>cl_channel := ch\<rparr>) es (encrypted es d) (client_calls d l))"
| client_flushes: "linked pf kpC kpD l \<Longrightarrow> length nonce = NONCE_LENGTH \<Longrightarrow>
    ec_flushing (cl_channel (lk_client l)) = d # ds \<Longrightarrow> flush_next pf nonce (cl_channel (lk_client l)) = (ch, es) \<Longrightarrow>
    linked pf kpC kpD (client_acts ((lk_client l)\<lparr>cl_channel := ch\<rparr>) es (encrypted es d) l)"
| client_retries: "linked pf kpC kpD l \<Longrightarrow> retry_tick (lk_client l) = (cl, es) \<Longrightarrow>
    linked pf kpC kpD (client_acts cl es [] l)"
| client_gets: "linked pf kpC kpD l \<Longrightarrow> lk_down l = msg # msgs \<Longrightarrow> client_receive pf msg (lk_client l) = (cl, es) \<Longrightarrow>
    linked pf kpC kpD (client_acts cl es [] (l\<lparr>lk_down := msgs\<rparr>))"
| daemon_gets: "linked pf kpC kpD l \<Longrightarrow> lk_up l = msg # msgs \<Longrightarrow> daemon_receive pf kpD msg (lk_daemon l) = (d, es, out) \<Longrightarrow>
    linked pf kpC kpD (daemon_acts d es [] (l\<lparr>lk_up := msgs\<rparr>))"
| daemon_opens: "linked pf kpC kpD l \<Longrightarrow> daemon_ready pf kpD (lk_daemon l) = (d, es, out) \<Longrightarrow>
    linked pf kpC kpD (daemon_acts d es [] l)"
| daemon_sends: "linked pf kpC kpD l \<Longrightarrow> length nonce = NONCE_LENGTH \<Longrightarrow> lk_daemon l = Running ch \<Longrightarrow>
    send pf nonce d ch = Inr (ch', es) \<Longrightarrow>
    linked pf kpC kpD (daemon_acts (Running ch') es (encrypted es d) (l\<lparr>lk_downCalls := lk_downCalls l @ [d]\<rparr>))"

text \<open>The two ends derive the same key, as X25519 promises for a pair of generated key pairs.\<close>

definition keys_agree :: "platform \<Rightarrow> key_pair \<Rightarrow> key_pair \<Rightarrow> bytes \<Rightarrow> bool" where
  "keys_agree pf kpC kpD K \<longleftrightarrow>
     length (kp_publicKey kpC) = KEY_LENGTH \<and> length (kp_publicKey kpD) = KEY_LENGTH \<and>
     deriveSharedKey pf (kp_secretKey kpC) (kp_publicKey kpD) = Inr K \<and>
     deriveSharedKey pf (kp_secretKey kpD) (kp_publicKey kpC) = Inr K"

subsection \<open>What the wires carry\<close>

text \<open>A wire carries handshake messages \<open>plain\<close> and the ciphertexts of \<open>ds\<close>, in order.\<close>

inductive carries :: "platform \<Rightarrow> bytes \<Rightarrow> wire_data \<Rightarrow> transport_message list \<Rightarrow> wire_data list \<Rightarrow> bool" for pf K plain where
  none: "carries pf K plain [] []"
| plain: "carries pf K plain ms ds \<Longrightarrow> carries pf K plain (deliver_wire plain # ms) ds"
| cipher: "carries pf K plain ms ds \<Longrightarrow> length n = NONCE_LENGTH \<Longrightarrow>
    carries pf K plain (deliver_wire (cipher_wire pf n K True d) # ms) (d # ds)"

inductive_cases carries_Nil: "carries pf K plain [] ds"
inductive_cases carries_Cons: "carries pf K plain (m # ms) ds"
inductive_cases carries_none: "carries pf K plain (m # ms) []"

lemma carries_cases:
  assumes "carries pf K plain (m # ms) ds"
  obtains (plain) "m = deliver_wire plain" "carries pf K plain ms ds"
    | (cipher) n d ds' where "m = deliver_wire (cipher_wire pf n K True d)" "length n = NONCE_LENGTH" "ds = d # ds'"
        "carries pf K plain ms ds'"
  using assms by (auto elim: carries_Cons)

lemma carries_append:
  "carries pf K plain ms ds \<Longrightarrow> carries pf K plain ns es \<Longrightarrow> carries pf K plain (ms @ ns) (ds @ es)"
  by (induction rule: carries.induct) (auto intro: carries.intros)

lemma carries_split:
  "carries pf K plain (ms @ ns) ds \<Longrightarrow> \<exists>ds1 ds2. carries pf K plain ms ds1 \<and> carries pf K plain ns ds2 \<and> ds = ds1 @ ds2"
proof (induction ms arbitrary: ds)
  case (Cons m ms)
  from Cons.prems have "carries pf K plain (m # (ms @ ns)) ds" by simp
  then show ?case
  proof (cases rule: carries_cases)
    case plain
    with Cons.IH [of ds] show ?thesis by (auto intro: carries.plain)
  next
    case (cipher n d ds')
    with Cons.IH [of ds'] obtain ds1 ds2 where "carries pf K plain ms ds1" "carries pf K plain ns ds2" "ds' = ds1 @ ds2"
      by auto
    with cipher show ?thesis by (intro exI [of _ "d # ds1"] exI [of _ ds2]) (auto intro: carries.cipher)
  qed
qed (auto intro: carries.none)

lemma carries_one:
  "carries pf K plain [deliver_wire plain] []"
  "length n = NONCE_LENGTH \<Longrightarrow> carries pf K plain [deliver_wire (cipher_wire pf n K True d)] [d]"
  by (auto intro: carries.intros)

definition hello_wire :: "platform \<Rightarrow> key_pair \<Rightarrow> wire_data" where
  "hello_wire pf kpC = Text (JSON_stringify (hello_message (pf_fromByteArray pf (kp_publicKey kpC))))"

definition honest :: "platform \<Rightarrow> key_pair \<Rightarrow> key_pair \<Rightarrow> bytes \<Rightarrow> bool" where
  "honest pf kpC kpD K \<longleftrightarrow> platform_ok pf \<and> keys_agree pf kpC kpD K"

lemma import_export:
  assumes "platform_ok pf" "length k = KEY_LENGTH"
  shows "importPublicKey pf (pf_fromByteArray pf k) = Inr k" "trim (pf_fromByteArray pf k) \<noteq> []"
proof -
  have b: "pf_toByteArray pf (pf_fromByteArray pf k) = Inr k" "base64_text (pf_fromByteArray pf k)"
    using assms(1) by (simp_all add: platform_ok_def)
  then show "importPublicKey pf (pf_fromByteArray pf k) = Inr k"
    using assms(2) by (simp add: importPublicKey_def decodePublicKeyBase64_def)
  have "k \<noteq> []" using assms(2) by (auto simp: KEY_LENGTH_def)
  then show "trim (pf_fromByteArray pf k) \<noteq> []" using assms(1) base64_plain(1) [OF b(2)] by (simp add: platform_ok_def)
qed

lemma parse_hello_wire:
  assumes "honest pf kpC kpD K"
  shows "parseHello pf (deliver_wire (hello_wire pf kpC)) = Some (hello_message (pf_fromByteArray pf (kp_publicKey kpC)))"
    "shouldIgnorePostHelloPlaintext pf (deliver_wire (hello_wire pf kpC))"
  using assms import_export(2) [of pf "kp_publicKey kpC"]
  by (simp_all add: honest_def keys_agree_def parseHello_def shouldIgnorePostHelloPlaintext_def hello_wire_def
      decodeTransportText_def hello_parses)

text \<open>The daemon derives the client's key from the hello, at first and again from a repeated one.\<close>

lemma daemon_derives:
  assumes "honest pf kpC kpD K"
  shows "importPublicKey pf (pf_fromByteArray pf (kp_publicKey kpC)) = Inr (kp_publicKey kpC)"
    "deriveSharedKey pf (kp_secretKey kpD) (kp_publicKey kpC) = Inr K"
  using assms import_export(1) [of pf "kp_publicKey kpC"] by (simp_all add: honest_def keys_agree_def)

lemma first_hello:
  assumes "honest pf kpC kpD K"
  shows "handleHello pf kpD (deliver_wire (hello_wire pf kpC)) =
    (Deriving K True [], [TransportSend (ready_text True)], Pending)"
  by (simp add: handleHello_def parse_hello_wire [OF assms] daemon_derives [OF assms])

lemma repeated_hello:
  assumes "honest pf kpC kpD K"
    and "ec_state ch = ChannelOpen" "ec_daemonKeyPair ch = Some kpD" "ec_sharedKey ch = K" "ec_binaryCiphertext ch"
  shows "handleMessage pf (deliver_wire (hello_wire pf kpC)) ch = (ch, [TransportSend (ready_text True)])"
proof -
  have "trim (pf_fromByteArray pf (kp_publicKey kpC)) \<noteq> []"
    using assms(1) import_export(2) by (simp add: honest_def keys_agree_def)
  then have "plaintext_plan pf (deliver_wire (hello_wire pf kpC)) ch = Handled (ch, [TransportSend (ready_text True)])"
    using assms(2-) hello_brace [of "pf_fromByteArray pf (kp_publicKey kpC)"]
    by (simp add: plaintext_plan_def hello_wire_def decodeTransportText_def hello_parses
        handleDaemonRehello_def daemon_derives [OF assms(1)] keysEqual_eq)
  with assms(2) show ?thesis by (simp add: handleMessage_def)
qed

lemma client_ready:
  "ec_state ch = Handshaking \<Longrightarrow> handleMessage pf (deliver_wire (ready_text True)) ch =
     (ch\<lparr>ec_binaryCiphertext := True, ec_state := ChannelOpen, ec_flushing := ec_pendingSends ch,
         ec_pendingSends := []\<rparr>, [OnOpen, ClearRetry])"
  "ec_state ch = ChannelOpen \<Longrightarrow> handleMessage pf (deliver_wire (ready_text True)) ch = (ch, [])"
  by (simp_all add: handleMessage_def plan_ready) (simp add: ready_text_def decodeTransportText_def ready_parses)

text \<open>The messages that came while the ready message was on its way are delivered, in order.\<close>

lemma replay_carries:
  assumes h: "honest pf kpC kpD K"
    and ch: "ec_state ch = ChannelOpen" "ec_sharedKey ch = K" "ec_binaryCiphertext ch"
    and c: "carries pf K (hello_wire pf kpC) ms ds"
  shows "replay pf ms ch = (ch, map OnMessage ds)"
  using c
proof induction
  case (plain ms ds)
  then show ?case by (simp add: parse_hello_wire [OF h])
next
  case (cipher ms ds n d)
  have pf: "platform_ok pf" using h by (simp add: honest_def)
  have "handleMessage pf (deliver_wire (cipher_wire pf n K True d)) ch = (ch, [OnMessage d])"
    using cipher_received [OF pf cipher.hyps(2) ch(1,3)] ch(2) by simp
  then show ?case using cipher.IH by (simp add: cipher_not_ignored [OF pf])
qed simp

lemma effects_map [simp]:
  "wires (map OnMessage ds) = []" "delivered (map OnMessage ds) = ds" "faults (map OnMessage ds) = []"
  by (induction ds) simp_all

subsection \<open>The invariant\<close>

definition buffered :: "daemon \<Rightarrow> transport_message list" where
  "buffered d = (case d of Deriving k b ms \<Rightarrow> ms | _ \<Rightarrow> [])"

lemma buffered_simps [simp]:
  "buffered AwaitHello = []" "buffered (Deriving k b ms) = ms" "buffered Swallowing = []" "buffered (Running ch) = []"
  by (simp_all add: buffered_def)

definition client_ok :: "platform \<Rightarrow> key_pair \<Rightarrow> bytes \<Rightarrow> client \<Rightarrow> bool" where
  "client_ok pf kpC K cl \<longleftrightarrow> (let ch = cl_channel cl in
     cl_hello cl = hello_wire pf kpC \<and> ec_sharedKey ch = K \<and>
     (ec_state ch = Handshaking \<and> ec_flushing ch = [] \<or> ec_state ch = ChannelOpen \<and> ec_binaryCiphertext ch))"

definition daemon_ok :: "key_pair \<Rightarrow> bytes \<Rightarrow> daemon \<Rightarrow> bool" where
  "daemon_ok kpD K d \<longleftrightarrow> (case d of
      AwaitHello \<Rightarrow> True
    | Deriving k b ms \<Rightarrow> k = K \<and> b
    | Swallowing \<Rightarrow> False
    | Running ch \<Rightarrow> ec_state ch = ChannelOpen \<and> ec_daemonKeyPair ch = Some kpD \<and> ec_sharedKey ch = K \<and>
        ec_binaryCiphertext ch)"

definition link_ok :: "platform \<Rightarrow> key_pair \<Rightarrow> key_pair \<Rightarrow> bytes \<Rightarrow> link \<Rightarrow> bool" where
  "link_ok pf kpC kpD K l \<longleftrightarrow>
     client_ok pf kpC K (lk_client l) \<and> daemon_ok kpD K (lk_daemon l) \<and> lk_faults l = [] \<and>
     (\<exists>ds. carries pf K (hello_wire pf kpC) (buffered (lk_daemon l) @ lk_up l) ds \<and> lk_upSent l = lk_upGot l @ ds) \<and>
     (\<exists>ds. carries pf K (ready_text True) (lk_down l) ds \<and> lk_downSent l = lk_downGot l @ ds) \<and>
     (handshaking l \<longrightarrow> lk_upSent l = [] \<and>
        (if lk_daemon l = AwaitHello then lk_up l \<noteq> [] \<and> lk_down l = []
         else \<exists>ms. lk_down l = deliver_wire (ready_text True) # ms)) \<and>
     (lk_daemon l = AwaitHello \<longrightarrow> handshaking l) \<and>
     ((\<exists>k b ms. lk_daemon l = Deriving k b ms) \<longrightarrow> lk_upGot l = [])"

text \<open>An end that sends appends exactly one ciphertext to its wire, or nothing while it handshakes.\<close>

lemma client_acts_ok:
  assumes ok: "link_ok pf kpC kpD K l" and c: "client_ok pf kpC K cl"
    and same: "ec_state (cl_channel cl) = ec_state (cl_channel (lk_client l))"
    and w: "carries pf K (hello_wire pf kpC) (wires es) ds" and n: "delivered es = []" "faults es = []"
    and h: "handshaking l \<Longrightarrow> ds = []"
  shows "link_ok pf kpC kpD K (client_acts cl es ds l)"
proof -
  from ok obtain ds1 where d1: "carries pf K (hello_wire pf kpC) (buffered (lk_daemon l) @ lk_up l) ds1"
    "lk_upSent l = lk_upGot l @ ds1" by (auto simp: link_ok_def)
  have "carries pf K (hello_wire pf kpC) (buffered (lk_daemon l) @ lk_up l @ wires es) (ds1 @ ds)"
    using carries_append [OF d1(1) w] by simp
  then have "\<exists>ds'. carries pf K (hello_wire pf kpC) (buffered (lk_daemon l) @ lk_up l @ wires es) ds' \<and>
      lk_upSent l @ ds = lk_upGot l @ ds'" using d1(2) by (intro exI [of _ "ds1 @ ds"]) simp
  with ok c n h same show ?thesis
    by (simp add: link_ok_def client_acts_def handshaking_def)
qed

lemma daemon_acts_ok:
  assumes ok: "link_ok pf kpC kpD K l" and d: "lk_daemon l = Running ch" "daemon_ok kpD K (Running ch')"
    and w: "carries pf K (ready_text True) (wires es) ds" and n: "delivered es = []" "faults es = []"
  shows "link_ok pf kpC kpD K (daemon_acts (Running ch') es ds l)"
proof -
  from ok obtain ds1 where d1: "carries pf K (ready_text True) (lk_down l) ds1"
    "lk_downSent l = lk_downGot l @ ds1" by (auto simp: link_ok_def)
  have "\<exists>ds'. carries pf K (ready_text True) (lk_down l @ wires es) ds' \<and> lk_downSent l @ ds = lk_downGot l @ ds'"
    using carries_append [OF d1(1) w] d1(2) by (intro exI [of _ "ds1 @ ds"]) simp
  with ok d n show ?thesis by (auto simp: link_ok_def daemon_acts_def handshaking_def)
qed

lemma send_carries:
  assumes "send pf nonce d ch = Inr (ch', es)" and "ec_sharedKey ch = K" and "length nonce = NONCE_LENGTH"
    and "ec_state ch = ChannelOpen \<Longrightarrow> ec_binaryCiphertext ch"
  shows "carries pf K plain (wires es) (encrypted es d)" "delivered es = []" "faults es = []"
    "ec_state ch = Handshaking \<Longrightarrow> encrypted es d = []"
    "ec_state ch' = ec_state ch" "ec_sharedKey ch' = ec_sharedKey ch" "ec_flushing ch' = ec_flushing ch"
    "ec_binaryCiphertext ch' = ec_binaryCiphertext ch" "ec_daemonKeyPair ch' = ec_daemonKeyPair ch"
proof -
  consider "ec_state ch = Handshaking" "es = []" "\<exists>ps. ch' = ch\<lparr>ec_pendingSends := ps\<rparr>"
    | "ec_state ch = ChannelOpen" "ch' = ch" "es = [TransportSend (cipher_wire pf nonce K True d)]"
  proof (cases "ec_state ch = Handshaking")
    case True
    with assms(1) show ?thesis by (intro that(1)) (auto simp: send_def Let_def)
  next
    case False
    then have o: "ec_state ch = ChannelOpen" using assms(1) by (auto simp: send_def split: if_split_asm)
    with assms show ?thesis by (intro that(2)) (auto simp: send_open)
  qed
  then show "carries pf K plain (wires es) (encrypted es d)" "delivered es = []" "faults es = []"
    "ec_state ch = Handshaking \<Longrightarrow> encrypted es d = []"
    "ec_state ch' = ec_state ch" "ec_sharedKey ch' = ec_sharedKey ch" "ec_flushing ch' = ec_flushing ch"
    "ec_binaryCiphertext ch' = ec_binaryCiphertext ch" "ec_daemonKeyPair ch' = ec_daemonKeyPair ch"
    using assms(3) by (cases; auto simp: encrypted_def intro: carries.intros)+
qed

subsection \<open>Every step keeps the invariant\<close>

text \<open>The invariant does not read the record of the calls.\<close>

lemma link_ok_calls [simp]:
  "link_ok pf kpC kpD K (client_calls d l) = link_ok pf kpC kpD K l"
  "link_ok pf kpC kpD K (l\<lparr>lk_downCalls := ds\<rparr>) = link_ok pf kpC kpD K l"
  by (simp_all add: link_ok_def handshaking_def client_calls_def)

lemma client_calls_simps [simp]:
  "lk_client (client_calls d l) = lk_client l" "handshaking (client_calls d l) = handshaking l"
  by (simp_all add: client_calls_def handshaking_def)

lemma connect_ok:
  assumes h: "honest pf kpC kpD K"
    and c: "createClientChannel pf kpC (pf_fromByteArray pf (kp_publicKey kpD)) = Inr (cl, es)"
  shows "link_ok pf kpC kpD K \<lparr>lk_client = cl, lk_daemon = AwaitHello, lk_up = wires es, lk_down = [],
      lk_upSent = [], lk_downSent = [], lk_upGot = [], lk_downGot = [], lk_faults = [],
      lk_early = [], lk_late = [], lk_downCalls = []\<rparr>"
proof -
  from h have i: "importPublicKey pf (pf_fromByteArray pf (kp_publicKey kpD)) = Inr (kp_publicKey kpD)"
    "deriveSharedKey pf (kp_secretKey kpC) (kp_publicKey kpD) = Inr K" "length (kp_publicKey kpC) = KEY_LENGTH"
    by (simp_all add: honest_def keys_agree_def import_export)
  with c have "cl = \<lparr>cl_channel = new_channel K None False, cl_hello = hello_wire pf kpC, cl_retry = True\<rparr>"
    "es = [TransportSend (hello_wire pf kpC)]"
    by (auto simp: createClientChannel_def exportPublicKey_def hello_wire_def Let_def)
  then show ?thesis
    by (auto simp: link_ok_def client_ok_def daemon_ok_def handshaking_def new_channel_def Let_def
        intro: carries_one carries.none)
qed

lemma carries_plain:
  assumes "platform_ok pf" and "shouldIgnorePostHelloPlaintext pf (deliver_wire plain)"
    and "carries pf K plain (deliver_wire plain # ms) ds"
  shows "carries pf K plain ms ds"
  using assms(3)
proof (cases rule: carries_cases)
  case (cipher n d ds')
  with assms(2) cipher_not_ignored [OF assms(1)] show ?thesis by metis
qed

lemma ready_ignored: "shouldIgnorePostHelloPlaintext pf (deliver_wire (ready_text b))"
  by (simp add: shouldIgnorePostHelloPlaintext_def ready_text_def decodeTransportText_def ready_parses)

text \<open>The client takes a message from its wire.\<close>

lemma client_gets_ok:
  assumes h: "honest pf kpC kpD K" and ok: "link_ok pf kpC kpD K l" and w: "lk_down l = msg # msgs"
    and r: "client_receive pf msg (lk_client l) = (cl, es)"
  shows "link_ok pf kpC kpD K (client_acts cl es [] (l\<lparr>lk_down := msgs\<rparr>))"
proof -
  let ?ch = "cl_channel (lk_client l)"
  have pf: "platform_ok pf" using h by (simp add: honest_def)
  from ok have cl: "client_ok pf kpC K (lk_client l)" by (simp add: link_ok_def)
  from ok w obtain ds where d: "carries pf K (ready_text True) (msg # msgs) ds" "lk_downSent l = lk_downGot l @ ds"
    by (auto simp: link_ok_def)
  show ?thesis
  proof (cases "ec_state ?ch = Handshaking")
    case True
    with ok w have m: "msg = deliver_wire (ready_text True)" by (auto simp: link_ok_def handshaking_def split: if_split_asm)
    have "carries pf K (ready_text True) msgs ds" using carries_plain [OF pf ready_ignored] d(1) m by blast
    moreover from r m True have "cl = (lk_client l)\<lparr>cl_channel := ?ch\<lparr>ec_binaryCiphertext := True, ec_state := ChannelOpen,
        ec_flushing := ec_pendingSends ?ch, ec_pendingSends := []\<rparr>, cl_retry := False\<rparr>" "es = [OnOpen, ClearRetry]"
      by (auto simp: client_receive_def client_ready)
    ultimately show ?thesis using ok True d w cl
      by (auto simp: link_ok_def client_acts_def handshaking_def client_ok_def Let_def)
  next
    case False
    with cl have o: "ec_state ?ch = ChannelOpen" "ec_binaryCiphertext ?ch" "ec_sharedKey ?ch = K"
      by (auto simp: client_ok_def Let_def)
    from d(1) obtain ds' where c: "carries pf K (ready_text True) msgs ds'" "ds = delivered es @ ds'"
      "cl = (lk_client l)\<lparr>cl_retry := cl_retry (lk_client l) \<and> ClearRetry \<notin> set es\<rparr>" "wires es = []" "faults es = []"
    proof (cases rule: carries_cases)
      case plain
      with r o that show ?thesis by (auto simp: client_receive_def client_ready)
    next
      case (cipher n d1 ds1)
      with r o that cipher_received [OF pf cipher(2) o(1,2)] show ?thesis by (auto simp: client_receive_def)
    qed
    then show ?thesis using ok w d(2) o False cl
      by (auto simp: link_ok_def client_acts_def handshaking_def client_ok_def Let_def)
  qed
qed

text \<open>The daemon takes a message from its wire.\<close>

lemma daemon_gets_ok:
  assumes h: "honest pf kpC kpD K" and ok: "link_ok pf kpC kpD K l" and w: "lk_up l = msg # msgs"
    and r: "daemon_receive pf kpD msg (lk_daemon l) = (d, es, out)"
  shows "link_ok pf kpC kpD K (daemon_acts d es [] (l\<lparr>lk_up := msgs\<rparr>))"
proof -
  let ?hello = "deliver_wire (hello_wire pf kpC)"
  have pf: "platform_ok pf" using h by (simp add: honest_def)
  from ok obtain us where u: "carries pf K (hello_wire pf kpC) (buffered (lk_daemon l) @ lk_up l) us"
    "lk_upSent l = lk_upGot l @ us" by (auto simp: link_ok_def)
  from ok obtain ds where dn: "carries pf K (ready_text True) (lk_down l) ds" "lk_downSent l = lk_downGot l @ ds"
    by (auto simp: link_ok_def)
  have dn': "carries pf K (ready_text True) (lk_down l @ [deliver_wire (ready_text True)]) ds"
    using carries_append [OF dn(1) carries_one(1)] by simp
  show ?thesis
  proof (cases "lk_daemon l")
    case AwaitHello
    with ok have hs: "handshaking l" "lk_upSent l = []" "lk_down l = []" by (simp_all add: link_ok_def)
    with u AwaitHello w have c: "carries pf K (hello_wire pf kpC) (msg # msgs) []" by simp
    then have m: "msg = ?hello" by (auto elim: carries_none)
    with c carries_plain [OF pf parse_hello_wire(2) [OF h]]
    have "carries pf K (hello_wire pf kpC) msgs []" by blast
    moreover from r m AwaitHello first_hello [OF h]
    have "d = Deriving K True []" "es = [TransportSend (ready_text True)]" by (simp_all add: daemon_receive_def)
    moreover have "ds = []" using dn(1) hs(3) by (auto elim: carries_Nil)
    ultimately show ?thesis using ok hs u dn carries_one(1) [of pf K "ready_text True"]
      by (auto simp: link_ok_def daemon_acts_def handshaking_def daemon_ok_def)
  next
    case (Deriving k b ms)
    with r w u show ?thesis using ok
      by (auto simp: daemon_receive_def link_ok_def daemon_acts_def handshaking_def daemon_ok_def)
  next
    case (Running ch)
    with ok have ch: "ec_state ch = ChannelOpen" "ec_daemonKeyPair ch = Some kpD" "ec_sharedKey ch = K"
      "ec_binaryCiphertext ch" by (simp_all add: link_ok_def daemon_ok_def)
    obtain es' where hm: "handleMessage pf msg ch = (ch, es')" and d: "d = Running ch" "es = es'"
      and e: "es' = [TransportSend (ready_text True)] \<and> msg = ?hello \<or>
        (\<exists>x us'. es' = [OnMessage x] \<and> us = x # us' \<and> carries pf K (hello_wire pf kpC) msgs us')"
    proof -
      from u(1) Running w have "carries pf K (hello_wire pf kpC) (msg # msgs) us" by simp
      then show ?thesis
      proof (cases rule: carries_cases)
        case plain
        with repeated_hello [OF h ch] r Running that show ?thesis by (auto simp: daemon_receive_def)
      next
        case (cipher n x us')
        with cipher_received [OF pf cipher(2) ch(1,4)] ch(3) r Running that show ?thesis by (auto simp: daemon_receive_def)
      qed
    qed
    show ?thesis
      using e
    proof
      assume e': "es' = [TransportSend (ready_text True)] \<and> msg = ?hello"
      have "carries pf K (hello_wire pf kpC) msgs us"
        using carries_plain [OF pf parse_hello_wire(2) [OF h]] u(1) Running w e' by simp
      with e' ok d Running dn dn' u show ?thesis
        by (auto simp: link_ok_def daemon_acts_def handshaking_def daemon_ok_def)
    next
      assume "\<exists>x us'. es' = [OnMessage x] \<and> us = x # us' \<and> carries pf K (hello_wire pf kpC) msgs us'"
      then obtain x us' where "es' = [OnMessage x]" "us = x # us'" "carries pf K (hello_wire pf kpC) msgs us'" by blast
      with ok d Running u(2) show ?thesis
        by (auto simp: link_ok_def daemon_acts_def handshaking_def daemon_ok_def)
    qed
  qed (use ok in \<open>simp add: link_ok_def daemon_ok_def\<close>)
qed

lemma daemon_opens_ok:
  assumes h: "honest pf kpC kpD K" and ok: "link_ok pf kpC kpD K l"
    and r: "daemon_ready pf kpD (lk_daemon l) = (d, es, out)"
  shows "link_ok pf kpC kpD K (daemon_acts d es [] l)"
proof (cases "lk_daemon l")
  case (Deriving k b ms)
  with ok have k: "k = K" "b" "lk_upGot l = []" by (auto simp: link_ok_def daemon_ok_def)
  from ok Deriving obtain us where u: "carries pf K (hello_wire pf kpC) (ms @ lk_up l) us" "lk_upSent l = us"
    by (auto simp: link_ok_def)
  obtain us1 us2 where c: "carries pf K (hello_wire pf kpC) ms us1" "carries pf K (hello_wire pf kpC) (lk_up l) us2"
    "us = us1 @ us2"
    using carries_split [OF u(1)] by blast
  let ?ch = "(new_channel K (Some kpD) True)\<lparr>ec_state := ChannelOpen\<rparr>"
  have "replay pf ms ?ch = (?ch, map OnMessage us1)"
    by (rule replay_carries [OF h _ _ _ c(1)]) (simp_all add: new_channel_def)
  with r Deriving k have "d = Running ?ch" "es = OnOpen # map OnMessage us1"
    by (auto simp: daemon_ready_def Let_def)
  with ok k c(2,3) u(2) Deriving show ?thesis
    by (auto simp: link_ok_def daemon_acts_def handshaking_def daemon_ok_def new_channel_def)
next
  case (Running ch)
  with r have "d = lk_daemon l" "es = []" by (simp_all add: daemon_ready_def)
  with ok Running show ?thesis by (simp add: link_ok_def daemon_acts_def handshaking_def)
qed (use ok r in \<open>auto simp: daemon_ready_def link_ok_def daemon_acts_def handshaking_def\<close>)

lemma linked_ok:
  assumes h: "honest pf kpC kpD K" and l: "linked pf kpC kpD l"
  shows "link_ok pf kpC kpD K l"
  using l
proof induction
  case (connect cl es)
  then show ?case by (rule connect_ok [OF h])
next
  case (client_sends l nonce d ch es)
  then have c: "client_ok pf kpC K (lk_client l)" by (simp add: link_ok_def)
  then have "ec_sharedKey (cl_channel (lk_client l)) = K"
    "ec_state (cl_channel (lk_client l)) = ChannelOpen \<Longrightarrow> ec_binaryCiphertext (cl_channel (lk_client l))"
    by (auto simp: client_ok_def Let_def)
  note s = send_carries [OF client_sends.hyps(3) this(1) client_sends.hyps(2) this(2)]
  from c have "client_ok pf kpC K ((lk_client l)\<lparr>cl_channel := ch\<rparr>)" using s(5-9) by (simp add: client_ok_def Let_def)
  moreover have "link_ok pf kpC kpD K (client_calls d l)" using client_sends.IH by simp
  ultimately show ?case using s by (intro client_acts_ok) (auto simp: handshaking_def)
next
  case (client_flushes l nonce d ds ch es)
  let ?ch = "cl_channel (lk_client l)"
  from client_flushes.IH have c: "client_ok pf kpC K (lk_client l)" by (simp add: link_ok_def)
  with client_flushes.hyps(3) have o: "ec_state ?ch = ChannelOpen" "ec_binaryCiphertext ?ch" "ec_sharedKey ?ch = K"
    by (auto simp: client_ok_def Let_def)
  have e: "send pf nonce d (?ch\<lparr>ec_flushing := ds\<rparr>) = Inr (ch, es)"
    using client_flushes.hyps(3,4) o by (auto simp: flush_next_def send_open)
  have "ec_sharedKey (?ch\<lparr>ec_flushing := ds\<rparr>) = K" "ec_binaryCiphertext (?ch\<lparr>ec_flushing := ds\<rparr>)" using o by simp_all
  note s = send_carries [OF e this(1) client_flushes.hyps(2) this(2)]
  from c have "client_ok pf kpC K ((lk_client l)\<lparr>cl_channel := ch\<rparr>)" using s(5-9) o by (simp add: client_ok_def Let_def)
  then show ?case using s o by (intro client_acts_ok [OF client_flushes.IH]) (auto simp: handshaking_def)
next
  case (client_retries l cl es)
  then have c: "client_ok pf kpC K (lk_client l)" by (simp add: link_ok_def)
  with client_retries.hyps(2) have "es = [] \<or> es = [TransportSend (hello_wire pf kpC)]" "cl_channel cl = cl_channel (lk_client l)"
    "cl_hello cl = cl_hello (lk_client l)"
    by (auto simp: retry_tick_def client_ok_def Let_def split: if_split_asm)
  moreover from this c have "client_ok pf kpC K cl" by (simp add: client_ok_def)
  ultimately show ?case by (intro client_acts_ok [OF client_retries.IH]) (auto intro: carries_one carries.none)
next
  case (client_gets l msg msgs cl es)
  then show ?case by (intro client_gets_ok [OF h])
next
  case (daemon_gets l msg msgs d es out)
  then show ?case by (intro daemon_gets_ok [OF h])
next
  case (daemon_opens l d es out)
  then show ?case by (intro daemon_opens_ok [OF h])
next
  case (daemon_sends l nonce ch d ch' es)
  then have k: "daemon_ok kpD K (Running ch)" by (simp add: link_ok_def)
  then have "ec_sharedKey ch = K" "ec_binaryCiphertext ch" by (simp_all add: daemon_ok_def)
  note s = send_carries [OF daemon_sends.hyps(4) this(1) daemon_sends.hyps(2) this(2)]
  from k have "daemon_ok kpD K (Running ch')" using s(5-9) by (simp add: daemon_ok_def)
  moreover have "link_ok pf kpC kpD K (l\<lparr>lk_downCalls := lk_downCalls l @ [d]\<rparr>)" using daemon_sends.IH by simp
  ultimately show ?case using s daemon_sends.hyps(3) by (intro daemon_acts_ok) simp_all
qed

subsection \<open>The order of the calls\<close>

lemma shuffles_snoc:
  "zs \<in> shuffles xs ys \<Longrightarrow> zs @ [x] \<in> shuffles (xs @ [x]) ys"
  "zs \<in> shuffles xs ys \<Longrightarrow> zs @ [y] \<in> shuffles xs (ys @ [y])"
proof -
  show l: "zs @ [x] \<in> shuffles (xs @ [x]) ys" if "zs \<in> shuffles xs ys" for zs xs ys :: "'a list" and x
    using that
  proof (induction zs arbitrary: xs ys)
    case (Cons z zs)
    from Cons.prems Cons.IH show ?case by (auto simp: Cons_in_shuffles_iff simp del: shuffles.simps)
  qed simp
  show "zs @ [y] \<in> shuffles xs (ys @ [y])" if "zs \<in> shuffles xs ys"
    using l [of zs ys xs y] that by (simp add: shuffles_commutes)
qed

lemma take_last_append_take_last: "take_last n (take_last n xs @ ys) = take_last n (xs @ ys)"
  by (cases "n \<le> length xs") (auto simp: take_last_def add.commute)

text \<open>The queue of \<open>send\<close> keeps the last \<open>MAX_PENDING_SENDS\<close> calls.\<close>

lemma send_queues:
  assumes "ec_state ch = Handshaking" and "ec_pendingSends ch = take_last MAX_PENDING_SENDS ds"
  shows "send pf nonce d ch = Inr (ch\<lparr>ec_pendingSends := take_last MAX_PENDING_SENDS (ds @ [d])\<rparr>, [])"
proof -
  have l: "length (ec_pendingSends ch) \<le> MAX_PENDING_SENDS" using assms(2) by simp
  have "(if length (ec_pendingSends ch) \<ge> MAX_PENDING_SENDS then tl (ec_pendingSends ch) else ec_pendingSends ch) @ [d] =
      take_last MAX_PENDING_SENDS (ec_pendingSends ch @ [d])"
    using l by (auto simp: take_last_def drop_Suc MAX_PENDING_SENDS_def)
  also have "\<dots> = take_last MAX_PENDING_SENDS (ds @ [d])"
    by (simp add: assms(2) take_last_append_take_last)
  finally show ?thesis using assms(1) by (simp add: send_def Let_def)
qed

text \<open>
  \<open>qs\<close> are the queued calls that the flush has encrypted; with those it still holds and those still queued they are
  the last 200 calls of the handshake. What has been encrypted is an interleaving of them with the later calls.
\<close>

definition calls_kept :: "link \<Rightarrow> wire_data list \<Rightarrow> bool" where
  "calls_kept l qs \<longleftrightarrow> lk_upSent l \<in> shuffles qs (lk_late l) \<and>
     qs @ ec_flushing (cl_channel (lk_client l)) @ ec_pendingSends (cl_channel (lk_client l)) =
       take_last MAX_PENDING_SENDS (lk_early l)"

definition calls_ok :: "link \<Rightarrow> bool" where
  "calls_ok l \<longleftrightarrow> (\<exists>qs. calls_kept l qs) \<and> lk_downSent l = lk_downCalls l \<and>
     (if handshaking l then lk_upSent l = [] \<and> lk_late l = [] \<and> ec_flushing (cl_channel (lk_client l)) = []
      else ec_pendingSends (cl_channel (lk_client l)) = [])"

text \<open>A step that neither calls \<open>send\<close> nor touches the client's queue.\<close>

lemma calls_ok_same:
  assumes "calls_ok l" and "lk_upSent l' = lk_upSent l" "lk_late l' = lk_late l" "lk_early l' = lk_early l"
    and "lk_downSent l' = lk_downSent l" "lk_downCalls l' = lk_downCalls l"
    and "cl_channel (lk_client l') = cl_channel (lk_client l)"
  shows "calls_ok l'"
  using assms by (simp add: calls_ok_def calls_kept_def handshaking_def)

lemma calls_send:
  assumes c: "calls_ok l" and ok: "client_ok pf kpC K (lk_client l)"
    and r: "send pf nonce d (cl_channel (lk_client l)) = Inr (ch, es)"
  shows "calls_ok (client_acts ((lk_client l)\<lparr>cl_channel := ch\<rparr>) es (encrypted es d) (client_calls d l))"
proof (cases "handshaking l")
  case True
  with c have "ec_pendingSends (cl_channel (lk_client l)) = take_last MAX_PENDING_SENDS (lk_early l)"
    by (auto simp: calls_ok_def calls_kept_def)
  from send_queues [OF _ this] True r
  have "ch = (cl_channel (lk_client l))\<lparr>ec_pendingSends := take_last MAX_PENDING_SENDS (lk_early l @ [d])\<rparr>" "es = []"
    by (auto simp: handshaking_def)
  with c True show ?thesis
    by (auto simp: calls_ok_def calls_kept_def handshaking_def client_acts_def client_calls_def encrypted_def)
next
  case False
  with ok have o: "ec_state (cl_channel (lk_client l)) = ChannelOpen"
    by (auto simp: handshaking_def client_ok_def Let_def)
  with r have e: "ch = cl_channel (lk_client l)" "encrypted es d = [d]" by (auto simp: send_open encrypted_def)
  from c obtain qs where q: "calls_kept l qs" by (auto simp: calls_ok_def)
  then have "lk_upSent l @ [d] \<in> shuffles qs (lk_late l @ [d])"
    by (auto simp: calls_kept_def intro: shuffles_snoc)
  with q have "calls_kept (client_acts ((lk_client l)\<lparr>cl_channel := ch\<rparr>) es (encrypted es d) (client_calls d l)) qs"
    using False e by (simp add: calls_kept_def client_acts_def client_calls_def)
  with c False e show ?thesis
    by (auto simp: calls_ok_def handshaking_def client_acts_def client_calls_def)
qed

lemma calls_flush:
  assumes c: "calls_ok l" and ok: "client_ok pf kpC K (lk_client l)"
    and f: "ec_flushing (cl_channel (lk_client l)) = d # ds"
    and r: "flush_next pf nonce (cl_channel (lk_client l)) = (ch, es)"
  shows "calls_ok (client_acts ((lk_client l)\<lparr>cl_channel := ch\<rparr>) es (encrypted es d) l)"
proof -
  from c f have h: "\<not> handshaking l" by (auto simp: calls_ok_def)
  with ok have o: "ec_state (cl_channel (lk_client l)) = ChannelOpen"
    by (auto simp: handshaking_def client_ok_def Let_def)
  with r f have e: "ch = (cl_channel (lk_client l))\<lparr>ec_flushing := ds\<rparr>" "encrypted es d = [d]"
    by (auto simp: flush_next_def send_open encrypted_def)
  from c obtain qs where q: "calls_kept l qs" by (auto simp: calls_ok_def)
  then have "lk_upSent l @ [d] \<in> shuffles (qs @ [d]) (lk_late l)"
    by (auto simp: calls_kept_def intro: shuffles_snoc)
  with q have "calls_kept (client_acts ((lk_client l)\<lparr>cl_channel := ch\<rparr>) es (encrypted es d) l) (qs @ [d])"
    using e f by (simp add: calls_kept_def client_acts_def)
  with c h e show ?thesis by (auto simp: calls_ok_def handshaking_def client_acts_def)
qed

text \<open>The ready message hands the queue to the flush; every other message leaves the channel as it is.\<close>

lemma calls_client_gets:
  assumes h: "honest pf kpC kpD K" and ok: "link_ok pf kpC kpD K l" and c: "calls_ok l" and w: "lk_down l = msg # msgs"
    and r: "client_receive pf msg (lk_client l) = (cl, es)"
  shows "calls_ok (client_acts cl es [] (l\<lparr>lk_down := msgs\<rparr>))"
proof -
  let ?ch = "cl_channel (lk_client l)"
  have pf: "platform_ok pf" using h by (simp add: honest_def)
  show ?thesis
  proof (cases "ec_state ?ch = Handshaking")
    case True
    with ok w have m: "msg = deliver_wire (ready_text True)" by (auto simp: link_ok_def handshaking_def split: if_split_asm)
    with r True have "cl_channel cl = ?ch\<lparr>ec_binaryCiphertext := True, ec_state := ChannelOpen,
        ec_flushing := ec_pendingSends ?ch, ec_pendingSends := []\<rparr>"
      by (auto simp: client_receive_def client_ready)
    with c True show ?thesis by (auto simp: calls_ok_def calls_kept_def handshaking_def client_acts_def)
  next
    case False
    with ok have o: "ec_state ?ch = ChannelOpen" "ec_binaryCiphertext ?ch" "ec_sharedKey ?ch = K"
      by (auto simp: link_ok_def client_ok_def Let_def)
    from ok w obtain ds where d: "carries pf K (ready_text True) (msg # msgs) ds" by (auto simp: link_ok_def)
    then have "cl_channel cl = ?ch"
    proof (cases rule: carries_cases)
      case plain
      with r o show ?thesis by (auto simp: client_receive_def client_ready)
    next
      case (cipher n d1 ds1)
      with r o cipher_received [OF pf cipher(2) o(1,2)] show ?thesis by (auto simp: client_receive_def)
    qed
    then show ?thesis by (intro calls_ok_same [OF c]) (simp_all add: client_acts_def)
  qed
qed

lemma linked_calls:
  assumes h: "honest pf kpC kpD K" and l: "linked pf kpC kpD l"
  shows "calls_ok l"
  using l
proof induction
  case (connect cl es)
  then show ?case
    by (auto simp: createClientChannel_def bind_sum_def new_channel_def calls_ok_def calls_kept_def handshaking_def
        take_last_def Let_def split: sum.splits)
next
  case (client_sends l nonce d ch es)
  from linked_ok [OF h client_sends.hyps(1)] have "client_ok pf kpC K (lk_client l)" by (simp add: link_ok_def)
  from calls_send [OF client_sends.IH this client_sends.hyps(3)] show ?case .
next
  case (client_flushes l nonce d ds ch es)
  from linked_ok [OF h client_flushes.hyps(1)] have "client_ok pf kpC K (lk_client l)" by (simp add: link_ok_def)
  from calls_flush [OF client_flushes.IH this client_flushes.hyps(3,4)] show ?case .
next
  case (client_retries l cl es)
  from linked_ok [OF h client_retries.hyps(1)] have "client_ok pf kpC K (lk_client l)" by (simp add: link_ok_def)
  with client_retries.hyps(2) have "cl_channel cl = cl_channel (lk_client l)"
    by (auto simp: retry_tick_def client_ok_def Let_def split: if_split_asm)
  then show ?case by (intro calls_ok_same [OF client_retries.IH]) (simp_all add: client_acts_def)
next
  case (client_gets l msg msgs cl es)
  from calls_client_gets [OF h linked_ok [OF h this(1)] client_gets.IH this(2,3)] show ?case .
next
  case (daemon_gets l msg msgs d es out)
  then show ?case by (intro calls_ok_same [OF daemon_gets.IH]) (simp_all add: daemon_acts_def)
next
  case (daemon_opens l d es out)
  then show ?case by (intro calls_ok_same [OF daemon_opens.IH]) (simp_all add: daemon_acts_def)
next
  case (daemon_sends l nonce ch d ch' es)
  from linked_ok [OF h daemon_sends.hyps(1)] daemon_sends.hyps(3)
  have "ec_state ch = ChannelOpen" by (simp add: link_ok_def daemon_ok_def)
  with daemon_sends.hyps(4) have "encrypted es d = [d]" by (auto simp: send_open encrypted_def)
  with daemon_sends.IH show ?case
    by (simp add: calls_ok_def calls_kept_def handshaking_def daemon_acts_def)
qed

subsection \<open>Properties\<close>

definition idle :: "link \<Rightarrow> bool" where
  "idle l \<longleftrightarrow> lk_up l = [] \<and> lk_down l = [] \<and> (case lk_daemon l of Deriving k b ms \<Rightarrow> False | _ \<Rightarrow> True)"

lemma link_transports:
  assumes "honest pf kpC kpD K" and "linked pf kpC kpD l"
  shows "prefix (lk_upGot l) (lk_upSent l) \<and> prefix (lk_downGot l) (lk_downSent l) \<and> lk_faults l = [] \<and>
     (idle l \<longrightarrow> lk_upGot l = lk_upSent l \<and> lk_downGot l = lk_downSent l \<and> isOpen (cl_channel (lk_client l)) \<and>
        (\<exists>ch. lk_daemon l = Running ch \<and> isOpen ch))"
proof -
  note ok = linked_ok [OF assms]
  then obtain us ds where c: "carries pf K (hello_wire pf kpC) (buffered (lk_daemon l) @ lk_up l) us"
    "lk_upSent l = lk_upGot l @ us" "carries pf K (ready_text True) (lk_down l) ds" "lk_downSent l = lk_downGot l @ ds"
    by (auto simp: link_ok_def)
  have "lk_upGot l = lk_upSent l \<and> lk_downGot l = lk_downSent l \<and> isOpen (cl_channel (lk_client l)) \<and>
        (\<exists>ch. lk_daemon l = Running ch \<and> isOpen ch)" if i: "idle l"
  proof -
    have "us = []" "ds = []"
      using c i by (auto simp: idle_def buffered_def elim: carries_Nil split: daemon.splits)
    moreover have "\<not> handshaking l" using ok i by (auto simp: link_ok_def idle_def split: if_split_asm)
    ultimately show ?thesis using ok c i
      by (auto simp: link_ok_def handshaking_def client_ok_def daemon_ok_def isOpen_def idle_def Let_def split: daemon.splits)
  qed
  with c ok show ?thesis by (auto simp: link_ok_def)
qed

text \<open>
  C2: Two honest ends over a transport that keeps the order, whatever the interleaving of sends,
  flushes, retried hellos and deliveries. What each application has got is a prefix of what the other end
  encrypted, with its kind; no end reports an error or closes. The daemon encrypts its calls of \<open>send\<close> in
  their order, all of them. The client keeps the last 200 calls it makes during the handshake; what it has
  encrypted is an interleaving of a first part of these, in the order of the calls, with all the calls made
  while the channel is open, in their order; the rest of the 200 still waits in its queue. When nothing is
  in flight both channels are open and everything encrypted has arrived, and when the flush is done too
  what the daemon has got is an interleaving of all of the last 200 early calls and the later calls.
\<close>

theorem encrypted_link_in_order:
  assumes "honest pf kpC kpD K" and "linked pf kpC kpD l"
  shows "prefix (lk_upGot l) (lk_upSent l) \<and> prefix (lk_downGot l) (lk_downCalls l) \<and> lk_faults l = [] \<and>
     (\<exists>qs. lk_upSent l \<in> shuffles qs (lk_late l) \<and>
        qs @ ec_flushing (cl_channel (lk_client l)) @ ec_pendingSends (cl_channel (lk_client l)) =
          take_last MAX_PENDING_SENDS (lk_early l)) \<and>
     (idle l \<longrightarrow> lk_upGot l = lk_upSent l \<and> lk_downGot l = lk_downCalls l \<and> isOpen (cl_channel (lk_client l)) \<and>
        (\<exists>ch. lk_daemon l = Running ch \<and> isOpen ch) \<and>
        (ec_flushing (cl_channel (lk_client l)) = [] \<longrightarrow>
          lk_upGot l \<in> shuffles (take_last MAX_PENDING_SENDS (lk_early l)) (lk_late l)))"
proof -
  note t = link_transports [OF assms]
  have c: "calls_ok l" by (rule linked_calls [OF assms])
  then obtain qs where q: "lk_upSent l \<in> shuffles qs (lk_late l)"
    "qs @ ec_flushing (cl_channel (lk_client l)) @ ec_pendingSends (cl_channel (lk_client l)) =
       take_last MAX_PENDING_SENDS (lk_early l)"
    by (auto simp: calls_ok_def calls_kept_def)
  have "lk_upGot l \<in> shuffles (take_last MAX_PENDING_SENDS (lk_early l)) (lk_late l)"
    if "idle l" "ec_flushing (cl_channel (lk_client l)) = []"
  proof -
    have "\<not> handshaking l" using t that(1) by (auto simp: handshaking_def isOpen_def)
    then have "ec_pendingSends (cl_channel (lk_client l)) = []" using c by (simp add: calls_ok_def)
    with q that t show ?thesis by simp
  qed
  with t q c show ?thesis by (auto simp: calls_ok_def)
qed

text \<open>A message does arrive: hello, ready, one ciphertext.\<close>

lemma link_delivers:
  assumes h: "honest pf kpC kpD K"
  shows "\<exists>l. linked pf kpC kpD l \<and> lk_upGot l = [d] \<and> idle l"
proof -
  have pf: "platform_ok pf" using h by (simp add: honest_def)
  let ?cl = "\<lparr>cl_channel = new_channel K None False, cl_hello = hello_wire pf kpC, cl_retry = True\<rparr>"
  let ?n = "replicate NONCE_LENGTH (0 :: 8 word)"
  define ch where "ch = (new_channel K None False)\<lparr>ec_binaryCiphertext := True, ec_state := ChannelOpen\<rparr>"
  define dh where "dh = (new_channel K (Some kpD) True)\<lparr>ec_state := ChannelOpen\<rparr>"
  have "createClientChannel pf kpC (pf_fromByteArray pf (kp_publicKey kpD)) = Inr (?cl, [TransportSend (hello_wire pf kpC)])"
    using h by (simp add: honest_def keys_agree_def createClientChannel_def import_export exportPublicKey_def
        hello_wire_def Let_def)
  from linked.connect [OF this] have "linked pf kpC kpD \<lparr>lk_client = ?cl, lk_daemon = AwaitHello,
      lk_up = [deliver_wire (hello_wire pf kpC)], lk_down = [], lk_upSent = [], lk_downSent = [], lk_upGot = [], lk_downGot = [],
      lk_faults = [], lk_early = [], lk_late = [], lk_downCalls = []\<rparr>" by simp
  from linked.daemon_gets [OF this, of "deliver_wire (hello_wire pf kpC)" "[]"]
  have "linked pf kpC kpD \<lparr>lk_client = ?cl, lk_daemon = Deriving K True [],
      lk_up = [], lk_down = [deliver_wire (ready_text True)], lk_upSent = [], lk_downSent = [], lk_upGot = [], lk_downGot = [],
      lk_faults = [], lk_early = [], lk_late = [], lk_downCalls = []\<rparr>" by (simp add: daemon_receive_def first_hello [OF h] daemon_acts_def)
  from linked.daemon_opens [OF this, of "Running dh" "[OnOpen]" Resolved]
  have "linked pf kpC kpD \<lparr>lk_client = ?cl, lk_daemon = Running dh,
      lk_up = [], lk_down = [deliver_wire (ready_text True)], lk_upSent = [], lk_downSent = [], lk_upGot = [], lk_downGot = [],
      lk_faults = [], lk_early = [], lk_late = [], lk_downCalls = []\<rparr>" by (simp add: daemon_ready_def daemon_acts_def dh_def Let_def)
  moreover have "client_receive pf (deliver_wire (ready_text True)) ?cl = (?cl\<lparr>cl_channel := ch, cl_retry := False\<rparr>, [OnOpen, ClearRetry])"
    by (simp add: client_receive_def client_ready new_channel_def ch_def)
  ultimately have "linked pf kpC kpD \<lparr>lk_client = ?cl\<lparr>cl_channel := ch, cl_retry := False\<rparr>, lk_daemon = Running dh,
      lk_up = [], lk_down = [], lk_upSent = [], lk_downSent = [], lk_upGot = [], lk_downGot = [], lk_faults = [],
      lk_early = [], lk_late = [], lk_downCalls = []\<rparr>"
    using linked.client_gets by (fastforce simp: client_acts_def)
  from linked.client_sends [OF this, of ?n d ch "[TransportSend (cipher_wire pf ?n K True d)]"]
  have "linked pf kpC kpD \<lparr>lk_client = ?cl\<lparr>cl_channel := ch, cl_retry := False\<rparr>, lk_daemon = Running dh,
      lk_up = [deliver_wire (cipher_wire pf ?n K True d)], lk_down = [], lk_upSent = [d], lk_downSent = [], lk_upGot = [],
      lk_downGot = [], lk_faults = [],
      lk_early = [], lk_late = [d], lk_downCalls = []\<rparr>"
    by (simp add: send_open ch_def new_channel_def client_acts_def encrypted_def client_calls_def handshaking_def)
  moreover have "daemon_receive pf kpD (deliver_wire (cipher_wire pf ?n K True d)) (Running dh) = (Running dh, [OnMessage d], Resolved)"
    using cipher_received [OF pf, of ?n dh d] by (simp add: daemon_receive_def dh_def new_channel_def)
  ultimately have "linked pf kpC kpD \<lparr>lk_client = ?cl\<lparr>cl_channel := ch, cl_retry := False\<rparr>, lk_daemon = Running dh,
      lk_up = [], lk_down = [], lk_upSent = [d], lk_downSent = [], lk_upGot = [d], lk_downGot = [], lk_faults = [],
      lk_early = [], lk_late = [d], lk_downCalls = []\<rparr>"
    using linked.daemon_gets by (fastforce simp: daemon_acts_def)
  then show ?thesis by (intro exI conjI) (assumption, simp_all add: idle_def)
qed

subsection \<open>An instance\<close>

text \<open>
  A platform that meets \<open>platform_ok\<close>: boxes that do not hide, and four characters per byte.
\<close>

definition sample_nibble :: "nat \<Rightarrow> char" where
  "sample_nibble d = char_of (65 + d)"

definition sample_text :: "bytes \<Rightarrow> string" where
  "sample_text b = concat (map (\<lambda>w. [CHR ''A'', CHR ''A'', sample_nibble (unat w div 16), sample_nibble (unat w mod 16)]) b)"

fun sample_bytes :: "string \<Rightarrow> bytes" where
  "sample_bytes (a # b # c # d # r) =
     word_of_nat (16 * (char_code c - 65) + (char_code d - 65)) # sample_bytes r"
| "sample_bytes _ = []"

definition sample_platform :: platform where
  "sample_platform = \<lparr>pf_scalarMult = (\<lambda>sk pk. sk), pf_before = (\<lambda>pk sk. replicate 32 7),
     pf_after = (\<lambda>m n k. m), pf_openAfter = (\<lambda>c n k. Some c), pf_fromByteArray = sample_text,
     pf_toByteArray = (\<lambda>s. Inr (sample_bytes s)), pf_encode = latin1_bytes,
     pf_decode = latin1_text, pf_decodeFatal = (\<lambda>b. Inr (latin1_text b))\<rparr>"

definition sample_keys :: key_pair where
  "sample_keys = \<lparr>kp_publicKey = replicate 32 1, kp_secretKey = replicate 32 2\<rparr>"

lemma nibble_bounds [simp]: "unat w div 16 < 16" "unat w mod 16 < 16" for w :: "8 word"
proof -
  have "unat w < 256" by (rule byte_bound)
  then show "unat w div 16 < 16" by linarith
qed simp

lemma sample_nibble_code: "d < 16 \<Longrightarrow> char_code (sample_nibble d) = 65 + d"
  by (simp add: char_code_def sample_nibble_def)

lemma sample_bytes_text: "sample_bytes (sample_text b) = b"
proof (induction b)
  case (Cons w b)
  have "char_code (sample_nibble (unat w div 16)) - 65 = unat w div 16"
    "char_code (sample_nibble (unat w mod 16)) - 65 = unat w mod 16"
    by (simp_all add: sample_nibble_code)
  with Cons show ?case by (simp add: sample_text_def)
qed (simp add: sample_text_def)

lemma sample_text_base64: "base64_text (sample_text b)"
proof -
  have c: "base64_char c" if "c \<in> set (sample_text b)" for c
  proof -
    have "base64_char (sample_nibble (unat w div 16)) \<and> base64_char (sample_nibble (unat w mod 16))" for w :: "8 word"
      
      using nibble_bounds [of w]
      by (simp add: base64_char_def sample_nibble_code Let_def del: nibble_bounds) linarith
    moreover have "base64_char (CHR ''A'')" by (simp add: base64_char_def char_code_def)
    ultimately show ?thesis using that by (auto simp: sample_text_def split: if_split_asm)
  qed
  have "length (sample_text b) = 4 * length b" by (induction b) (simp_all add: sample_text_def)
  moreover have "dropWhile base64_char (sample_text b) = []" using c by (simp add: dropWhile_eq_Nil_conv)
  ultimately show ?thesis by (simp add: base64_text_def)
qed

lemma sample_honest: "honest sample_platform sample_keys sample_keys (replicate 32 7)"
proof -
  have "sample_text b \<noteq> []" if "b \<noteq> []" for b using that by (cases b) (simp_all add: sample_text_def)
  moreover have "replicate 32 (2 :: 8 word) \<noteq> replicate 32 0" by (simp add: replicate_eq_replicate)
  ultimately show ?thesis
    by (simp add: honest_def platform_ok_def keys_agree_def deriveSharedKey_def sample_platform_def sample_keys_def
        KEY_LENGTH_def sample_bytes_text sample_text_base64)
qed

lemma encrypted_link_in_order_witness:
  "\<exists>l. linked sample_platform sample_keys sample_keys l \<and> lk_upGot l = [Text ''hi''] \<and>
     lk_upSent l = [Text ''hi''] \<and> lk_faults l = []"
proof -
  obtain l where l: "linked sample_platform sample_keys sample_keys l" "lk_upGot l = [Text ''hi'']" "idle l"
    using link_delivers [OF sample_honest] by blast
  with encrypted_link_in_order [OF sample_honest l(1)] show ?thesis by metis
qed

end
