(* ===== verification/Encrypted_Safety.thy ===== *)
theory Encrypted_Safety
  imports Encrypted_Link
begin

text \<open>
  One channel of \<open>encrypted-channel.ts\<close> over a transport that may do anything: what leaves it, what it
  delivers, what its queue keeps, and how long its frames are.
\<close>

section \<open>Runs of a channel\<close>

datatype channel_event =
    Receive transport_message
  | Send bytes wire_data
  | FlushNext bytes
  | FlushFails string
  | CloseCall int string
  | TransportClosed int string
  | TransportError string

fun channel_step :: "platform \<Rightarrow> channel_event \<Rightarrow> channel \<Rightarrow> channel \<times> effect list" where
  "channel_step pf (Receive msg) ch = handleMessage pf msg ch"
| "channel_step pf (Send nonce d) ch = (case send pf nonce d ch of Inr r \<Rightarrow> r | Inl e \<Rightarrow> (ch, []))"
| "channel_step pf (FlushNext nonce) ch = flush_next pf nonce ch"
| "channel_step pf (FlushFails err) ch = (if ec_flushing ch = [] then (ch, []) else flush_failed err ch)"
| "channel_step pf (CloseCall code reason) ch = close_channel code reason ch"
| "channel_step pf (TransportClosed code reason) ch = transport_closed code reason ch"
| "channel_step pf (TransportError e) ch = (ch, [OnError e])"

fun channel_run :: "platform \<Rightarrow> channel_event list \<Rightarrow> channel \<Rightarrow> channel \<times> effect list" where
  "channel_run pf [] ch = (ch, [])"
| "channel_run pf (e # es) ch =
     (let (ch1, fx1) = channel_step pf e ch; (ch2, fx2) = channel_run pf es ch1 in (ch2, fx1 @ fx2))"

lemma channel_run_append:
  "channel_run pf (es1 @ es2) ch =
     (let (ch1, fx1) = channel_run pf es1 ch; (ch2, fx2) = channel_run pf es2 ch1 in (ch2, fx1 @ fx2))"
  by (induction es1 arbitrary: ch) (simp_all add: Let_def split: prod.split)

lemma channel_run_snoc:
  "channel_run pf (es @ [e]) ch = (ch2, fx) \<Longrightarrow> \<exists>ch1 fx1 fx2. channel_run pf es ch = (ch1, fx1) \<and>
     channel_step pf e ch1 = (ch2, fx2) \<and> fx = fx1 @ fx2"
  by (auto simp: channel_run_append Let_def split: prod.split_asm)

section \<open>What leaves the channel and what it delivers\<close>

text \<open>Handshake text, or the encryption under the channel's key of one of \<open>ds\<close>.\<close>

definition may_send :: "platform \<Rightarrow> bytes \<Rightarrow> wire_data set \<Rightarrow> wire_data \<Rightarrow> bool" where
  "may_send pf K ds w \<longleftrightarrow> w = ready_text True \<or> w = ready_text False \<or>
     (\<exists>nonce b. \<exists>d \<in> ds. w = cipher_wire pf nonce K b d)"

text \<open>Something that opened under the channel's key.\<close>

definition authentic :: "platform \<Rightarrow> bytes \<Rightarrow> wire_data \<Rightarrow> bool" where
  "authentic pf K d \<longleftrightarrow> (\<exists>ciphertext plaintext k.
     decrypt pf K ciphertext = Inr plaintext \<and> decodePlaintext pf plaintext k = Inr d)"

definition effect_ok :: "platform \<Rightarrow> bytes \<Rightarrow> wire_data set \<Rightarrow> effect \<Rightarrow> bool" where
  "effect_ok pf K ds e \<longleftrightarrow> (case e of
      TransportSend w \<Rightarrow> may_send pf K ds w | OnMessage d \<Rightarrow> authentic pf K d | _ \<Rightarrow> True)"

lemma effect_ok_simps [simp]:
  "effect_ok pf K ds (TransportSend w) = may_send pf K ds w" "effect_ok pf K ds (OnMessage d) = authentic pf K d"
  "effect_ok pf K ds (TransportClose c r)" "effect_ok pf K ds OnOpen" "effect_ok pf K ds (OnClose c r)"
  "effect_ok pf K ds (OnError m)" "effect_ok pf K ds ClearRetry"
  by (simp_all add: effect_ok_def)

lemma ready_may_send [simp]: "may_send pf K ds (ready_text b)"
  by (cases b) (simp_all add: may_send_def)

lemma cipher_may_send: "d \<in> ds \<Longrightarrow> may_send pf K ds (cipher_wire pf n K b d)"
  unfolding may_send_def by blast

definition queued_data :: "channel \<Rightarrow> wire_data set" where
  "queued_data ch = set (ec_pendingSends ch) \<union> set (ec_flushing ch)"

definition sent_data :: "channel_event list \<Rightarrow> wire_data set" where
  "sent_data es = {d. \<exists>nonce. Send nonce d \<in> set es}"

lemma open_message_authentic: "open_message pf msg ch = Inr d \<Longrightarrow> authentic pf (ec_sharedKey ch) d"
  unfolding open_message_def authentic_def by (auto simp: bind_sum_Inr split: prod.split_asm)

lemma rehello_ok:
  "handleDaemonRehello pf hello ch = Inr (ch', fx) \<Longrightarrow>
     ec_sharedKey ch' = ec_sharedKey ch \<and> queued_data ch' = queued_data ch \<and> list_all (effect_ok pf K ds) fx"
  by (auto simp: handleDaemonRehello_def bind_sum_Inr rejectKeyRotation_def queued_data_def
      split: option.split_asm if_split_asm)

lemma plan_ok:
  "plaintext_plan pf msg ch = Handled (ch', fx) \<Longrightarrow>
     ec_sharedKey ch' = ec_sharedKey ch \<and> queued_data ch' = queued_data ch \<and> list_all (effect_ok pf K ds) fx"
  by (auto simp: plaintext_plan_def Let_def dest: rehello_ok split: if_split_asm option.split_asm sum.split_asm)

lemma handleMessage_ok:
  assumes "handleMessage pf msg ch = (ch', fx)"
  shows "ec_sharedKey ch' = ec_sharedKey ch \<and> queued_data ch' \<subseteq> queued_data ch \<and>
     list_all (effect_ok pf (ec_sharedKey ch) ds) fx"
proof (cases "ec_state ch = Handshaking")
  case True
  with assms show ?thesis
    by (auto simp: handleMessage_def queued_data_def split: if_split_asm option.split_asm)
next
  case hs: False
  show ?thesis
  proof (cases "ec_state ch = ChannelOpen")
    case False
    with hs assms show ?thesis by (simp add: handleMessage_def)
  next
    case True
    with assms show ?thesis
      by (cases "plaintext_plan pf msg ch")
        (auto simp: handleMessage_def dest: plan_ok open_message_authentic split: sum.split_asm)
  qed
qed

lemma send_ok:
  assumes "send pf nonce d ch = Inr (ch', fx)" and "d \<in> ds"
  shows "ec_sharedKey ch' = ec_sharedKey ch \<and> queued_data ch' \<subseteq> insert d (queued_data ch) \<and>
     list_all (effect_ok pf (ec_sharedKey ch) ds) fx"
proof (cases "ec_state ch = Handshaking")
  case True
  with assms(1) show ?thesis
    by (auto simp: send_def Let_def queued_data_def split: if_split_asm)
      (metis list.sel(2) list.set_sel(2))
next
  case False
  then have o: "ec_state ch = ChannelOpen" using assms(1) by (auto simp: send_def split: if_split_asm)
  then show ?thesis using assms by (auto simp: send_open cipher_may_send)
qed

lemma channel_step_ok:
  assumes "channel_step pf e ch = (ch', fx)" and "queued_data ch \<subseteq> ds" and "\<And>n d. e = Send n d \<Longrightarrow> d \<in> ds"
  shows "ec_sharedKey ch' = ec_sharedKey ch \<and> queued_data ch' \<subseteq> ds \<and> list_all (effect_ok pf (ec_sharedKey ch) ds) fx"
proof (cases e)
  case (Receive msg)
  with assms(1,2) handleMessage_ok [of pf msg ch ch' fx ds] show ?thesis by auto
next
  case (Send n d)
  with assms show ?thesis
    using send_ok [of pf n d ch ch' fx ds] by (auto split: sum.split_asm)
next
  case (FlushNext n)
  show ?thesis
  proof (cases "ec_flushing ch")
    case (Cons d items)
    with assms(2) have d: "d \<in> ds" "queued_data (ch\<lparr>ec_flushing := items\<rparr>) \<subseteq> ds" by (auto simp: queued_data_def)
    then show ?thesis using assms(1) FlushNext Cons send_ok [of pf n d "ch\<lparr>ec_flushing := items\<rparr>" ch' fx ds] assms(2)
      by (auto simp: flush_next_def flush_failed_def queued_data_def split: sum.split_asm)
  qed (use assms FlushNext in \<open>auto simp: flush_next_def\<close>)
qed (use assms in \<open>auto simp: flush_failed_def close_channel_def transport_closed_def queued_data_def split: if_split_asm\<close>)

lemma channel_run_ok:
  "channel_run pf es ch = (ch', fx) \<Longrightarrow> queued_data ch \<subseteq> ds \<Longrightarrow> sent_data es \<subseteq> ds \<Longrightarrow>
     ec_sharedKey ch' = ec_sharedKey ch \<and> list_all (effect_ok pf (ec_sharedKey ch) ds) fx"
proof (induction es arbitrary: ch fx)
  case (Cons e es)
  obtain ch1 fx1 fx2 where s: "channel_step pf e ch = (ch1, fx1)" and r: "channel_run pf es ch1 = (ch', fx2)" "fx = fx1 @ fx2"
    using Cons.prems(1) by (auto simp: Let_def split: prod.split_asm)
  have "sent_data es \<subseteq> ds" "\<And>n d. e = Send n d \<Longrightarrow> d \<in> ds" using Cons.prems(3) by (auto simp: sent_data_def)
  with channel_step_ok [OF s Cons.prems(2)] Cons.IH [OF r(1)] r(2) show ?case by auto
qed simp

text \<open>
  C14: Over any transport, whatever messages arrive and in whatever state: the key of a channel never
  changes, everything it hands to the transport is a ready message or the encryption under that key of
  something the application sent, and everything it delivers opened under that key.
\<close>

theorem channel_confidential:
  assumes "channel_run pf es (new_channel K keyPair b) = (ch, fx)"
  shows "ec_sharedKey ch = K \<and> (\<forall>w. TransportSend w \<in> set fx \<longrightarrow> may_send pf K (sent_data es) w) \<and>
     (\<forall>d. OnMessage d \<in> set fx \<longrightarrow> authentic pf K d)"
  using channel_run_ok [OF assms, of "sent_data es"]
  by (auto simp: new_channel_def queued_data_def list_all_iff)

lemma sample_ready: "isE2EEReadyMessage (ready_message True)" by simp

lemma ready_received:
  assumes "ec_state ch = Handshaking"
  shows "handleMessage pf (deliver_wire (ready_text b)) ch =
     (ch\<lparr>ec_binaryCiphertext := b, ec_state := ChannelOpen, ec_flushing := ec_pendingSends ch, ec_pendingSends := []\<rparr>,
      [OnOpen, ClearRetry])"
  using assms by (simp add: handleMessage_def ready_text_def decodeTransportText_def ready_parses)

lemma channel_confidential_witness:
  "may_send sample_platform (replicate 32 7) {Text ''hi''}
     (cipher_wire sample_platform (replicate 24 0) (replicate 32 7) True (Text ''hi''))"
proof -
  let ?K = "replicate 32 7 :: bytes" and ?n = "replicate 24 0 :: bytes"
  let ?es = "[Receive (deliver_wire (ready_text True)), Send ?n (Text ''hi'')]"
  let ?ch = "new_channel ?K None False"
  have "fst (channel_run sample_platform ?es ?ch) = fst (channel_run sample_platform ?es ?ch) \<and>
      snd (channel_run sample_platform ?es ?ch) =
        [OnOpen, ClearRetry, TransportSend (cipher_wire sample_platform ?n ?K True (Text ''hi''))]"
    by (simp add: ready_received send_open new_channel_def Let_def)
  then have r: "channel_run sample_platform ?es ?ch = (fst (channel_run sample_platform ?es ?ch),
      [OnOpen, ClearRetry, TransportSend (cipher_wire sample_platform ?n ?K True (Text ''hi''))])"
    by (metis prod.collapse)
  have "sent_data ?es = {Text ''hi''}" by (auto simp: sent_data_def)
  with channel_confidential [OF r] show ?thesis by (metis list.set_intros)
qed

section \<open>After closing\<close>

lemma closed_step:
  assumes "ec_state ch = ChannelClosed" and "channel_step pf e ch = (ch', fx)"
  shows "ec_state ch' = ChannelClosed \<and> TransportSend w \<notin> set fx \<and> OnMessage d \<notin> set fx"
  using assms
  by (cases e) (auto simp: handleMessage_def send_def flush_next_def flush_failed_def close_channel_def
      transport_closed_def split: list.split_asm if_split_asm)

lemma closed_run:
  "ec_state ch = ChannelClosed \<Longrightarrow> channel_run pf es ch = (ch', fx) \<Longrightarrow>
     ec_state ch' = ChannelClosed \<and> TransportSend w \<notin> set fx \<and> OnMessage d \<notin> set fx"
proof (induction es arbitrary: ch fx)
  case (Cons e es)
  obtain ch1 fx1 fx2 where s: "channel_step pf e ch = (ch1, fx1)" and r: "channel_run pf es ch1 = (ch', fx2)" "fx = fx1 @ fx2"
    using Cons.prems(2) by (auto simp: Let_def split: prod.split_asm)
  from closed_step [OF Cons.prems(1) s] Cons.IH [OF _ r(1)] r(2) show ?case by auto
qed simp

text \<open>
  C29: A repeated hello whose key differs closes an open daemon channel with code 1008, and nothing is
  sent or delivered on it ever after; a hello with the same key is answered with the ready message and changes nothing.
\<close>

theorem key_rotation_refused:
  assumes "ec_state ch = ChannelOpen" and "ec_daemonKeyPair ch = Some kp"
    and "importPublicKey pf (hello_key hello) = Inr pk" and "deriveSharedKey pf (kp_secretKey kp) pk = Inr k"
    and "isE2EEHelloMessage hello" and "json_ok hello" and "channel_run pf es ch' = (ch'', fx')"
    and "handleMessage pf (deliver_wire (Text (JSON_stringify hello))) ch = (ch', fx)"
  shows "if k = ec_sharedKey ch then ch' = ch \<and> fx = [TransportSend (ready_text (ec_binaryCiphertext ch))]
    else fx = [TransportClose 1008 ''E2EE re-handshake key mismatch''] \<and> ec_state ch'' = ChannelClosed \<and>
      (\<forall>w. TransportSend w \<notin> set fx') \<and> (\<forall>d. OnMessage d \<notin> set fx')"
proof -
  from assms(5) obtain ms where o: "hello = JObj ms" using handshake_is_object by blast
  have "take 1 (trim (JSON_stringify hello)) = ''{''" unfolding o by (rule brace_first)
  then have p: "plaintext_plan pf (deliver_wire (Text (JSON_stringify hello))) ch = Handled
     (if k \<noteq> ec_sharedKey ch then rejectKeyRotation ch else (ch, [TransportSend (ready_text (ec_binaryCiphertext ch))]))"
    using assms(2-5) JSON_round_trip [OF assms(6)]
    by (simp add: plaintext_plan_def decodeTransportText_def handleDaemonRehello_def keysEqual_eq Let_def)
  show ?thesis
  proof (cases "k = ec_sharedKey ch")
    case True
    with p assms(1,8) show ?thesis by (auto simp: handleMessage_def)
  next
    case False
    with p assms(1,8) have c: "ch' = ch\<lparr>ec_state := ChannelClosed\<rparr>" "fx = [TransportClose 1008 ''E2EE re-handshake key mismatch'']"
      by (simp_all add: handleMessage_def rejectKeyRotation_def)
    with False closed_run [OF _ assms(7)] show ?thesis by simp
  qed
qed

section \<open>The queue of the handshake\<close>

lemma sends_queue:
  assumes "ec_state ch = Handshaking" and "length (ec_pendingSends ch) \<le> MAX_PENDING_SENDS"
  shows "channel_run pf (map (\<lambda>(n, d). Send n d) nds) ch =
     (ch\<lparr>ec_pendingSends := take_last MAX_PENDING_SENDS (ec_pendingSends ch @ map snd nds)\<rparr>, [])"
  using assms
proof (induction nds arbitrary: ch)
  case Nil
  then show ?case by (simp add: take_last_all)
next
  case (Cons nd nds)
  obtain n d where nd: "nd = (n, d)" by fastforce
  let ?q = "take_last MAX_PENDING_SENDS (ec_pendingSends ch @ [d])"
  have q: "(if length (ec_pendingSends ch) \<ge> MAX_PENDING_SENDS then tl (ec_pendingSends ch) else ec_pendingSends ch) @ [d] = ?q"
    using Cons.prems(2) by (auto simp: take_last_def drop_Suc MAX_PENDING_SENDS_def)
  have "take_last MAX_PENDING_SENDS (?q @ map snd nds) = take_last MAX_PENDING_SENDS ((ec_pendingSends ch @ [d]) @ map snd nds)"
    by (rule take_last_append_take_last)
  moreover have "channel_run pf (map (\<lambda>(n, d). Send n d) nds) (ch\<lparr>ec_pendingSends := ?q\<rparr>) =
      (ch\<lparr>ec_pendingSends := take_last MAX_PENDING_SENDS (?q @ map snd nds)\<rparr>, [])"
    using Cons.IH [of "ch\<lparr>ec_pendingSends := ?q\<rparr>"] Cons.prems by simp
  ultimately show ?case using Cons.prems(1) q by (simp add: nd send_def Let_def)
qed

lemma flush_run:
  assumes "ec_state ch = ChannelOpen" and "ec_flushing ch = ds" and "length ns = length ds"
  shows "channel_run pf (map FlushNext ns) ch = (ch\<lparr>ec_flushing := []\<rparr>,
     map2 (\<lambda>n d. TransportSend (cipher_wire pf n (ec_sharedKey ch) (ec_binaryCiphertext ch) d)) ns ds)"
  using assms
proof (induction ns arbitrary: ch ds)
  case Nil
  then show ?case by simp
next
  case (Cons n ns)
  then obtain d ds' where ds: "ds = d # ds'" "length ns = length ds'" by (cases ds) auto
  have "channel_step pf (FlushNext n) ch = (ch\<lparr>ec_flushing := ds'\<rparr>,
      [TransportSend (cipher_wire pf n (ec_sharedKey ch) (ec_binaryCiphertext ch) d)])"
    using Cons.prems ds by (simp add: flush_next_def send_open)
  with Cons.IH [of "ch\<lparr>ec_flushing := ds'\<rparr>" ds'] Cons.prems ds show ?case by simp
qed

text \<open>
  What the application sends before the handshake completes is kept in a queue of at
  most 200; when the ready message arrives, the flush sends exactly the last 200 of these, each encrypted
  under the shared key, in the order of the calls.
\<close>

lemma queued_sends_flushed:
  assumes "length ns = min MAX_PENDING_SENDS (length nds)"
  shows "snd (channel_run pf (map (\<lambda>(n, d). Send n d) nds @ [Receive (deliver_wire (ready_text b))] @ map FlushNext ns)
       (new_channel K None False)) =
     [OnOpen, ClearRetry] @
     map2 (\<lambda>n d. TransportSend (cipher_wire pf n K b d)) ns (take_last MAX_PENDING_SENDS (map snd nds))"
proof -
  let ?q = "take_last MAX_PENDING_SENDS (map snd nds)"
  let ?ch = "(new_channel K None False)\<lparr>ec_pendingSends := ?q\<rparr>"
  have s: "channel_run pf (map (\<lambda>(n, d). Send n d) nds) (new_channel K None False) = (?ch, [])"
    using sends_queue [of "new_channel K None False" pf nds] by (simp add: new_channel_def)
  let ?ch2 = "?ch\<lparr>ec_binaryCiphertext := b, ec_state := ChannelOpen, ec_flushing := ?q, ec_pendingSends := []\<rparr>"
  have r: "channel_run pf [Receive (deliver_wire (ready_text b))] ?ch = (?ch2, [OnOpen, ClearRetry])"
    by (simp add: ready_received new_channel_def)
  have f: "channel_run pf (map FlushNext ns) ?ch2 = (?ch2\<lparr>ec_flushing := []\<rparr>,
      map2 (\<lambda>n d. TransportSend (cipher_wire pf n K b d)) ns ?q)"
    using flush_run [of ?ch2 ?q ns pf] assms by (simp add: new_channel_def)
  show ?thesis by (simp only: channel_run_append s r f Let_def split_conv append_Nil) simp
qed

lemma queued_sends_flushed_witness:
  "snd (channel_run sample_platform (map (\<lambda>(n, d). Send n d) [([], Text ''a''), ([], Text ''b'')] @
       [Receive (deliver_wire (ready_text True))] @ map FlushNext [[1], [2]]) (new_channel [] None False)) =
     [OnOpen, ClearRetry, TransportSend (cipher_wire sample_platform [1] [] True (Text ''a'')),
      TransportSend (cipher_wire sample_platform [2] [] True (Text ''b''))]"
  by (subst queued_sends_flushed) (simp_all add: MAX_PENDING_SENDS_def take_last_def)

text \<open>
  The flush starts only after \<open>onopen\<close> has returned, so what the application sends from there goes out before
  what it queued: with the messages \<open>a\<close> queued and \<open>b\<close> sent on opening, \<open>b\<close> arrives first.
\<close>

lemma sends_on_open_overtake_queue:
  "snd (channel_run pf [Send n1 a, Receive (deliver_wire (ready_text True)), Send n2 b, FlushNext n3] (new_channel K None False)) =
     [OnOpen, ClearRetry, TransportSend (cipher_wire pf n2 K True b), TransportSend (cipher_wire pf n3 K True a)]"
proof -
  have q: "send pf n1 a (new_channel K None False) = Inr ((new_channel K None False)\<lparr>ec_pendingSends := [a]\<rparr>, [])"
    by (simp add: send_def new_channel_def MAX_PENDING_SENDS_def)
  show ?thesis by (simp add: q [unfolded new_channel_def] ready_received send_open new_channel_def flush_next_def)
qed

section \<open>Sizes on the wire\<close>

definition wire_length :: "wire_data \<Rightarrow> nat" where
  "wire_length w = (case w of Text s \<Rightarrow> length s | Buffer b \<Rightarrow> length b)"

text \<open>A box adds 16 bytes to its plaintext; Base64 makes four characters of three bytes, padded.\<close>

definition platform_sizes :: "platform \<Rightarrow> bool" where
  "platform_sizes pf \<longleftrightarrow> (\<forall>m n k. length (pf_after pf m n k) = length m + 16) \<and>
     (\<forall>b. length (pf_fromByteArray pf b) = 4 * ((length b + 2) div 3))"

lemma ceiling_thirds: "\<lceil>rat_of_int n / 3\<rceil> = (n + 2) div 3"
  using ceiling_divide_eq_div [where ?'a = rat, of n 3] by simp

lemma base64_wire_length: "base64EncryptedWireByteLength n = 4 * ((n + 42) div 3)"
  unfolding base64EncryptedWireByteLength_def ceiling_thirds by (simp add: ENCRYPTED_PAYLOAD_OVERHEAD_BYTES_def)

text \<open>
  \<open>outboundWireByteLength\<close> is the exact length of the frame \<open>send\<close> hands to the
  transport, and \<open>maxBase64EncryptedPlaintextByteLength\<close> is exactly the largest plaintext whose frame fits.
\<close>

lemma wire_length_exact:
  assumes "platform_sizes pf" and "length nonce = NONCE_LENGTH" and "ec_state ch = ChannelOpen"
  shows "\<exists>w. send pf nonce d ch = Inr (ch, [TransportSend w]) \<and>
       int (wire_length w) = outboundWireByteLength pf d ch \<and>
       (base64EncryptedWireByteLength n \<le> limit) = (n \<le> maxBase64EncryptedPlaintextByteLength limit)"
proof -
  have e: "length (encrypt pf nonce k d) = length (toUint8 pf d) + 40" for k
    using assms(1,2) by (simp add: encrypt_def platform_sizes_def NONCE_LENGTH_def)
  have t: "int (length (pf_fromByteArray pf (encrypt pf nonce k d))) = base64EncryptedWireByteLength (int (length (toUint8 pf d)))" for k
    using assms(1) by (simp add: platform_sizes_def e base64_wire_length zdiv_int)
  have w: "int (wire_length (cipher_wire pf nonce (ec_sharedKey ch) (ec_binaryCiphertext ch) d)) = outboundWireByteLength pf d ch"
    using e t by (cases d) (simp_all add: wire_length_def cipher_wire_def outboundWireByteLength_def Let_def
        ENCRYPTED_PAYLOAD_OVERHEAD_BYTES_def)
  have "(4 * x \<le> limit) = (x \<le> limit div 4)" for x :: int by presburger
  moreover have "((n + 42) div 3 \<le> y) = (n \<le> y * 3 - 40)" for y :: int by presburger
  ultimately have f: "(4 * ((n + 42) div 3) \<le> limit) = (n \<le> limit div 4 * 3 - 40)" by simp
  have "(base64EncryptedWireByteLength n \<le> limit) = (n \<le> maxBase64EncryptedPlaintextByteLength limit)"
    using floor_divide_of_int_eq [where ?'a = rat, of limit 4]
    by (simp add: base64_wire_length maxBase64EncryptedPlaintextByteLength_def ENCRYPTED_PAYLOAD_OVERHEAD_BYTES_def f)
  with w show ?thesis by (simp add: send_open assms(3))
qed

definition sized_platform :: platform where
  "sized_platform = sample_platform\<lparr>pf_after := (\<lambda>m n k. m @ replicate 16 0),
     pf_fromByteArray := (\<lambda>b. replicate (4 * ((length b + 2) div 3)) (CHR ''A''))\<rparr>"

lemma wire_length_exact_witness:
  "\<exists>w. send sized_platform (replicate 24 0) (Text ''hello'') ((new_channel [] None True)\<lparr>ec_state := ChannelOpen\<rparr>) =
       Inr ((new_channel [] None True)\<lparr>ec_state := ChannelOpen\<rparr>, [TransportSend w]) \<and> wire_length w = 60"
proof -
  let ?ch = "(new_channel [] None True)\<lparr>ec_state := ChannelOpen\<rparr>"
  have "platform_sizes sized_platform" by (simp add: platform_sizes_def sized_platform_def)
  from wire_length_exact [OF this, of "replicate 24 0" ?ch "Text ''hello''"]
  obtain w where w: "send sized_platform (replicate 24 0) (Text ''hello'') ?ch = Inr (?ch, [TransportSend w])"
    "int (wire_length w) = outboundWireByteLength sized_platform (Text ''hello'') ?ch"
    by (auto simp: NONCE_LENGTH_def)
  have "outboundWireByteLength sized_platform (Text ''hello'') ?ch = 60"
    by (simp add: outboundWireByteLength_def base64_wire_length toUint8_def sized_platform_def sample_platform_def
        latin1_bytes_def)
  with w show ?thesis by auto
qed

text \<open>The hypotheses of \<open>key_rotation_refused\<close> hold for the sample keys and a channel of another key.\<close>

lemma key_rotation_refused_witness:
  "\<exists>ch'. handleMessage sample_platform (deliver_wire (hello_wire sample_platform sample_keys))
       ((new_channel [] (Some sample_keys) True)\<lparr>ec_state := ChannelOpen\<rparr>) =
     (ch', [TransportClose 1008 ''E2EE re-handshake key mismatch''])"
proof -
  let ?ch = "(new_channel [] (Some sample_keys) True)\<lparr>ec_state := ChannelOpen\<rparr>"
  let ?hello = "hello_message (pf_fromByteArray sample_platform (kp_publicKey sample_keys))"
  obtain ch' fx where m: "handleMessage sample_platform (deliver_wire (hello_wire sample_platform sample_keys)) ?ch = (ch', fx)"
    by fastforce
  have k: "isE2EEHelloMessage ?hello"
    using sample_honest import_export(2) [of sample_platform "kp_publicKey sample_keys"]
    by (simp add: honest_def keys_agree_def)
  have "fx = [TransportClose 1008 ''E2EE re-handshake key mismatch'']"
    using key_rotation_refused [of ?ch sample_keys sample_platform ?hello "kp_publicKey sample_keys" "replicate 32 7"
        "[]" ch' ch' "[]" fx] daemon_derives [OF sample_honest] k m
    by (simp add: hello_wire_def new_channel_def) (simp add: hello_message_def capabilities_def)
  with m show ?thesis by blast
qed

end
