(* ===== verification/Stream_Items.thy ===== *)
theory Stream_Items
  imports Stream_Ids Timeline_Items
begin

text \<open>
  The rows of the client timeline of \<open>packages/app/src/types/stream.ts\<close> and the functions on user messages.
  A stream is shown as two arrays of rows, the committed \<open>tail\<close> and the live \<open>head\<close>.  The properties that
  every kind of row has are the fields of \<open>stream_item\<close>, the others the arguments of its \<open>si_body\<close>.

  The reducers of the module return their argument itself when nothing changes and callers compare the
  arrays with \<open>!==\<close>; an \<open>update\<close> is such a result: \<open>Kept\<close> is the argument, \<open>Updated s\<close> a new array and
  \<open>Raised e\<close> an exception.  A parsed message consists of new objects, so \<open>===\<close> between a value that is
  kept in a row and one of a new event holds for equal primitive values only.
\<close>

section \<open>Rows\<close>

record timeline_position =
  tp_epoch :: string
  tp_seq :: int

datatype thought_status = ThoughtLoading | ThoughtReady

text \<open>\<open>TaskCreated count\<close> and the activities that carry the text of a task.\<close>

datatype task_activity =
    TaskCreated nat
  | TaskAdded string
  | TaskStarted string
  | TaskFinished string

datatype notification_source = FromError | FromNotification

record agent_tool_data =
  ad_provider :: string
  ad_callId :: string
  ad_name :: string
  ad_status :: tool_call_status
  ad_error :: "Timeline_Items.json option"
  ad_detail :: tool_call_detail
  ad_metadata :: "(string, Timeline_Items.json) js_map option"

datatype tool_payload = AgentCall agent_tool_data | OrchestratorCall Timeline_Items.json

text \<open>
  \<open>UserRow clientMessageId messageId text images attachments\<close>,
  \<open>AssistantRow messageId text blockGroupId blockIndex\<close>, \<open>ThoughtRow text status\<close>,
  \<open>TodoRow provider items activity\<close>, \<open>NotificationRow sourceType level message\<close>,
  \<open>CompactionRow status trigger preTokens\<close>, \<open>PluginRow pluginId pluginItemId itemKind version data\<close>.
\<close>

datatype item_body =
    UserRow "string option" "string option" string "Timeline_Items.json list option" "Timeline_Items.json list option"
  | AssistantRow "string option" string "string option" "nat option"
  | ThoughtRow string thought_status
  | ToolRow tool_payload
  | TodoRow string "agent_task_item list" task_activity
  | NotificationRow notification_source notification_level string
  | CompactionRow compaction_status "compaction_trigger option" "rat option"
  | PluginRow string string string rat Timeline_Items.json

record stream_item =
  si_id :: string
  si_cursor :: "timeline_position option"
  si_turnId :: "string option"
  si_timestamp :: int
  si_body :: item_body

type_synonym stream = "stream_item list"
type_synonym lanes = "stream \<times> stream"

datatype 'a update = Kept | Updated 'a | Raised string

definition then_update :: "'a update \<Rightarrow> ('a \<Rightarrow> 'a update) \<Rightarrow> 'a \<Rightarrow> 'a update" where
  "then_update u f s = (case u of
      Raised e \<Rightarrow> Raised e
    | Kept \<Rightarrow> f s
    | Updated t \<Rightarrow> (case f t of Kept \<Rightarrow> Updated t | v \<Rightarrow> v))"

definition outcome :: "'a update \<Rightarrow> 'a \<Rightarrow> string + 'a" where
  "outcome u s = (case u of Raised e \<Rightarrow> Inl e | Kept \<Rightarrow> Inr s | Updated t \<Rightarrow> Inr t)"

definition is_updated :: "'a update \<Rightarrow> bool" where
  "is_updated u = (case u of Updated _ \<Rightarrow> True | _ \<Rightarrow> False)"

lemma outcome_simps [simp]:
  "outcome Kept s = Inr s" "outcome (Updated t) s = Inr t" "outcome (Raised e) s = Inl e"
  "is_updated Kept = False" "is_updated (Updated t) = True" "is_updated (Raised e) = False"
  by (simp_all add: outcome_def is_updated_def)

lemma outcome_then: "outcome (then_update u f s) s = bind_sum (outcome u s) (\<lambda>t. outcome (f t) t)"
  by (auto simp: then_update_def split: update.splits)

text \<open>\<open>xs.findLastIndex(P)\<close>, \<open>xs[i]\<close> removed, and a value inserted before position \<open>i\<close>.\<close>

definition find_last_index :: "('a \<Rightarrow> bool) \<Rightarrow> 'a list \<Rightarrow> nat option" where
  "find_last_index P xs = map_option (\<lambda>i. length xs - 1 - i) (find_index P (rev xs))"

definition without_index :: "nat \<Rightarrow> 'a list \<Rightarrow> 'a list" where
  "without_index i xs = take i xs @ drop (i + 1) xs"

definition insert_at :: "nat \<Rightarrow> 'a \<Rightarrow> 'a list \<Rightarrow> 'a list" where
  "insert_at i x xs = take i xs @ x # drop i xs"

lemma find_last_index_Some:
  assumes "find_last_index P xs = Some i"
  shows "i < length xs" "P (xs ! i)" "i < j \<Longrightarrow> j < length xs \<Longrightarrow> \<not> P (xs ! j)"
proof -
  from assms obtain k where k: "find_index P (rev xs) = Some k" "i = length xs - 1 - k"
    by (auto simp: find_last_index_def)
  from find_index_Some [OF k(1)] have facts: "k < length xs" "P (rev xs ! k)" "\<forall>j<k. \<not> P (rev xs ! j)"
    by simp_all
  show "i < length xs" using k(2) facts(1) by simp
  show "P (xs ! i)" using facts(1,2) k(2) by (simp add: rev_nth)
  show "\<not> P (xs ! j)" if "i < j" "j < length xs"
  proof -
    have "length xs - 1 - j < k" using that k(2) facts(1) by simp
    with facts(3) have "\<not> P (rev xs ! (length xs - 1 - j))" by blast
    with that show ?thesis by (simp add: rev_nth)
  qed
qed

lemma find_last_index_None: "find_last_index P xs = None \<longleftrightarrow> (\<forall>x\<in>set xs. \<not> P x)"
  by (simp add: find_last_index_def find_index_None)

section \<open>User messages\<close>

text \<open>The parts of a row that is a user message; \<open>None\<close> for other rows.\<close>

fun is_user :: "item_body \<Rightarrow> bool" where
  "is_user (UserRow _ _ _ _ _) = True"
| "is_user _ = False"

fun body_client :: "item_body \<Rightarrow> string option" where
  "body_client (UserRow c _ _ _ _) = c"
| "body_client _ = None"

fun body_message :: "item_body \<Rightarrow> string option" where
  "body_message (UserRow _ m _ _ _) = m"
| "body_message (AssistantRow m _ _ _) = m"
| "body_message _ = None"

fun body_text :: "item_body \<Rightarrow> string" where
  "body_text (UserRow _ _ s _ _) = s"
| "body_text (AssistantRow _ s _ _) = s"
| "body_text (ThoughtRow s _) = s"
| "body_text _ = []"

abbreviation si_user :: "stream_item \<Rightarrow> bool" where "si_user r \<equiv> is_user (si_body r)"
abbreviation si_client :: "stream_item \<Rightarrow> string option" where "si_client r \<equiv> body_client (si_body r)"
abbreviation si_message :: "stream_item \<Rightarrow> string option" where "si_message r \<equiv> body_message (si_body r)"
abbreviation si_text :: "stream_item \<Rightarrow> string" where "si_text r \<equiv> body_text (si_body r)"

record user_input =
  ui_id :: "string option"
  ui_client :: "string option"
  ui_message :: "string option"
  ui_turn :: "string option"
  ui_cursor :: "timeline_position option"
  ui_text :: string
  ui_timestamp :: int
  ui_images :: "Timeline_Items.json list option"
  ui_attachments :: "Timeline_Items.json list option"

definition non_empty :: "'a list option \<Rightarrow> 'a list option" where
  "non_empty l = (case l of Some (x # xs) \<Rightarrow> Some (x # xs) | _ \<Rightarrow> None)"

definition createUserMessage :: "user_input \<Rightarrow> string + stream_item" where
  "createUserMessage i = (case truthy (or_else (ui_id i) (or_else (ui_client i) (ui_message i))) of
      None \<Rightarrow> Inl ''User message identity is required''
    | Some d \<Rightarrow> Inr \<lparr>si_id = d, si_cursor = ui_cursor i, si_turnId = truthy (ui_turn i),
        si_timestamp = ui_timestamp i,
        si_body = UserRow (truthy (ui_client i)) (truthy (ui_message i)) (ui_text i)
          (non_empty (ui_images i)) (non_empty (ui_attachments i))\<rparr>)"

definition isUnreconciledLocalUserMessage :: "stream_item \<Rightarrow> bool" where
  "isUnreconciledLocalUserMessage r \<longleftrightarrow>
     si_client r \<noteq> None \<and> si_message r = None \<and> si_cursor r = None"

definition appendSubmittedUserMessage :: "lanes \<Rightarrow> stream_item \<Rightarrow> string + lanes" where
  "appendSubmittedUserMessage lanes message = (case lanes of (tail, head) \<Rightarrow>
     (case truthy (si_client message) of
        None \<Rightarrow> Inl ''Submitted user message requires client identity''
      | Some c \<Rightarrow>
          if \<exists>r\<in>set (tail @ head). si_user r \<and> si_client r = Some c
          then Inl (''Submitted user message already exists: '' @ c)
          else if head \<noteq> [] then Inr (tail, head @ [message]) else Inr (tail @ [message], head)))"

definition removeSubmittedUserMessage :: "lanes \<Rightarrow> string \<Rightarrow> lanes" where
  "removeSubmittedUserMessage lanes clientMessageId =
     (let keep = filter (\<lambda>r. \<not> si_user r \<or> si_client r \<noteq> Some clientMessageId \<or>
            \<not> isUnreconciledLocalUserMessage r)
      in (keep (fst lanes), keep (snd lanes)))"

definition matchesLegacyCanonicalUserMessage :: "stream_item \<Rightarrow> stream_item \<Rightarrow> bool" where
  "matchesLegacyCanonicalUserMessage submitted canonical \<longleftrightarrow>
     si_client submitted \<noteq> None \<and> si_message submitted = None \<and> si_message canonical \<noteq> None \<and>
     (si_message canonical = si_client submitted \<or> si_text canonical = si_text submitted)"

datatype match_policy = CanonicalIncoming | Handoff

definition matchesUserMessage :: "match_policy \<Rightarrow> stream_item \<Rightarrow> stream_item \<Rightarrow> bool" where
  "matchesUserMessage policy existing incoming =
     (if truthy (si_client existing) \<noteq> None \<and> truthy (si_client incoming) \<noteq> None
      then si_client existing = si_client incoming
      else if truthy (si_message existing) \<noteq> None \<and> truthy (si_message incoming) \<noteq> None
      then si_message existing = si_message incoming
      else matchesLegacyCanonicalUserMessage existing incoming \<or>
        policy = Handoff \<and> matchesLegacyCanonicalUserMessage incoming existing)"

datatype presentation_policy = PresentExisting | PresentIncoming

text \<open>
  \<open>createUserMessage({...presentation, clientMessageId, messageId, timelineCursor})\<close>.  The row whose
  presentation is used has an identifier that is not empty, so \<open>createUserMessage\<close> returns.
\<close>

definition merge_user :: "presentation_policy \<Rightarrow> stream_item \<Rightarrow> stream_item \<Rightarrow> stream_item" where
  "merge_user policy existing incoming =
     (let p = (if policy = PresentIncoming then incoming else existing) in
      case si_body p of
        UserRow c m s images attachments \<Rightarrow>
          \<lparr>si_id = si_id p, si_cursor = or_else (si_cursor incoming) (si_cursor existing),
           si_turnId = truthy (si_turnId p), si_timestamp = si_timestamp p,
           si_body = UserRow (truthy (or_else (si_client incoming) (si_client existing)))
             (truthy (or_else (si_message incoming) (si_message existing))) s
             (non_empty images) (non_empty attachments)\<rparr>
      | _ \<Rightarrow> p)"

text \<open>
  Whether the merged row shows the same as the existing one; then the existing row is kept.  The cursor of
  the incoming row is a new object, so it is the same one only when there is none; a timestamp, images or
  attachments that come from the incoming row are other objects than those of the existing one.
\<close>

definition same_row :: "presentation_policy \<Rightarrow> stream_item \<Rightarrow> stream_item \<Rightarrow> bool" where
  "same_row policy existing incoming =
     (let merged = merge_user policy existing incoming in
      policy = PresentExisting \<and> si_id existing = si_id merged \<and> si_client existing = si_client merged \<and>
      si_message existing = si_message merged \<and> si_cursor incoming = None \<and>
      si_body existing = si_body merged)"

record production =
  up_items :: "stream update"
  up_index :: nat
  up_message :: stream_item
  up_matched :: bool

definition matching_index :: "match_policy \<Rightarrow> stream_item \<Rightarrow> stream \<Rightarrow> nat option" where
  "matching_index policy incoming items =
     find_index (\<lambda>r. si_user r \<and> matchesUserMessage policy r incoming) items"

definition produceUserMessage ::
  "stream \<Rightarrow> stream_item \<Rightarrow> nat option \<Rightarrow> presentation_policy \<Rightarrow> match_policy \<Rightarrow> production" where
  "produceUserMessage items incoming insertAt presentation policy =
     (case matching_index policy incoming items of
        None \<Rightarrow>
          (case insertAt of
             None \<Rightarrow> \<lparr>up_items = Kept, up_index = 0, up_message = incoming, up_matched = False\<rparr>
           | Some i \<Rightarrow> \<lparr>up_items = Updated (insert_at i incoming items), up_index = i,
               up_message = incoming, up_matched = False\<rparr>)
      | Some i \<Rightarrow>
          (let existing = items ! i; merged = merge_user presentation existing incoming in
           if same_row presentation existing incoming
           then \<lparr>up_items = Kept, up_index = i, up_message = existing, up_matched = True\<rparr>
           else \<lparr>up_items = Updated (items[i := merged]), up_index = i, up_message = merged,
             up_matched = True\<rparr>))"

definition upsertUserMessage :: "stream \<Rightarrow> stream_item \<Rightarrow> stream update" where
  "upsertUserMessage items incoming =
     up_items (produceUserMessage items incoming (Some (length items)) PresentExisting CanonicalIncoming)"

definition settled :: "stream update \<Rightarrow> stream \<Rightarrow> stream" where
  "settled u s = (case u of Updated t \<Rightarrow> t | _ \<Rightarrow> s)"

lemma settled_simps [simp]: "settled Kept s = s" "settled (Updated t) s = t" "settled (Raised e) s = s"
  by (simp_all add: settled_def)

end
