(* ===== verification/Stream_Reduce.thy ===== *)
theory Stream_Reduce
  imports Stream_Items
begin

text \<open>
  \<open>reduceStreamUpdate\<close> of \<open>packages/app/src/types/stream.ts\<close>: how one event changes an array of rows.
  One group of definitions per kind of row (messages, thoughts, tool calls, task lists, compactions, plugin
  rows), then the dispatch on the event and \<open>hydrateStreamState\<close>, which folds it over a page.
  \<open>extractTaskEntriesFromToolCall\<close> is in \<open>utils/tool-call-parsers.ts\<close>.  The lemmas show that the status of
  a tool call never goes back and that the rows of two different calls are never merged.
\<close>

datatype update_source = Live | CanonicalSource

section \<open>Messages and thoughts\<close>

text \<open>\<open>{...row, ...(timelineCursor ? { timelineCursor } : {})}\<close>\<close>

definition with_cursor :: "timeline_position option \<Rightarrow> stream_item \<Rightarrow> stream_item" where
  "with_cursor cursor r = r\<lparr>si_cursor := or_else cursor (si_cursor r)\<rparr>"

definition appendUserMessage ::
  "stream \<Rightarrow> string \<Rightarrow> int \<Rightarrow> string option \<Rightarrow> string option \<Rightarrow> timeline_position option \<Rightarrow>
     string option \<Rightarrow> stream update" where
  "appendUserMessage state s timestamp messageId clientMessageId cursor turnId =
     (let (chunk, hasContent) = normalizeChunk s in
      if \<not> hasContent then Kept
      else
        let fallback = createUniqueTimelineId (length state) ''user'' (chunk_seed chunk) timestamp in
        case createUserMessage
          \<lparr>ui_id = or_else messageId (Some fallback), ui_client = clientMessageId, ui_message = messageId,
           ui_turn = turnId, ui_cursor = cursor, ui_text = chunk, ui_timestamp = timestamp,
           ui_images = None, ui_attachments = None\<rparr> of
          Inl e \<Rightarrow> Raised e
        | Inr item \<Rightarrow> upsertUserMessage state item)"

fun extends_assistant :: "string option \<Rightarrow> item_body \<Rightarrow> bool" where
  "extends_assistant messageId (AssistantRow m _ _ _) \<longleftrightarrow> messageId = None \<or> m = messageId"
| "extends_assistant messageId _ \<longleftrightarrow> False"

fun body_append :: "string \<Rightarrow> item_body \<Rightarrow> item_body" where
  "body_append chunk (AssistantRow m s g i) = AssistantRow m (s @ chunk) g i"
| "body_append chunk (ThoughtRow s _) = ThoughtRow (s @ chunk) ThoughtLoading"
| "body_append chunk b = b"

definition extended :: "string \<Rightarrow> int \<Rightarrow> timeline_position option \<Rightarrow> stream_item \<Rightarrow> stream_item" where
  "extended chunk timestamp cursor r =
     (with_cursor cursor r)\<lparr>si_timestamp := timestamp, si_body := body_append chunk (si_body r)\<rparr>"

definition appendAssistantMessage ::
  "stream \<Rightarrow> string \<Rightarrow> int \<Rightarrow> update_source \<Rightarrow> string option \<Rightarrow> string list \<Rightarrow>
     timeline_position option \<Rightarrow> stream update" where
  "appendAssistantMessage state s timestamp source messageId reserved cursor =
     (let (chunk, hasContent) = normalizeChunk s; n = length state in
      if chunk = [] then Kept
      else if 1 \<le> n \<and> extends_assistant messageId (si_body (last state))
      then Updated (butlast state @ [extended chunk timestamp cursor (last state)])
      else if source = Live \<and> 2 \<le> n \<and> si_user (last state) \<and>
        extends_assistant messageId (si_body (state ! (n - 2)))
      then Updated (take (n - 2) state @ [extended chunk timestamp cursor (state ! (n - 2)), last state])
      else if \<not> hasContent then Kept
      else Updated (state @
        [\<lparr>si_id = createAssistantItemId (map si_id state @ reserved) n messageId (chunk_seed chunk) timestamp,
          si_cursor = cursor, si_turnId = None, si_timestamp = timestamp,
          si_body = AssistantRow (truthy messageId) chunk None None\<rparr>]))"

fun is_thought :: "item_body \<Rightarrow> bool" where
  "is_thought (ThoughtRow _ _) = True"
| "is_thought _ = False"

definition appendThought :: "stream \<Rightarrow> string \<Rightarrow> int \<Rightarrow> timeline_position option \<Rightarrow> stream update" where
  "appendThought state s timestamp cursor =
     (let (chunk, hasContent) = normalizeChunk s in
      if chunk = [] then Kept
      else if state \<noteq> [] \<and> is_thought (si_body (last state))
      then Updated (butlast state @ [extended chunk timestamp cursor (last state)])
      else if \<not> hasContent then Kept
      else Updated (state @
        [\<lparr>si_id = createUniqueTimelineId (length state) ''thought'' (chunk_seed chunk) timestamp,
          si_cursor = cursor, si_turnId = None, si_timestamp = timestamp,
          si_body = ThoughtRow chunk ThoughtLoading\<rparr>]))"

fun body_loading :: "item_body \<Rightarrow> bool" where
  "body_loading (ThoughtRow _ st) = (st \<noteq> ThoughtReady)"
| "body_loading _ = False"

fun body_ready :: "item_body \<Rightarrow> item_body" where
  "body_ready (ThoughtRow s _) = ThoughtRow s ThoughtReady"
| "body_ready b = b"

definition markThoughtReady :: "stream_item \<Rightarrow> stream_item" where
  "markThoughtReady r = r\<lparr>si_body := body_ready (si_body r)\<rparr>"

definition finalizeActiveThoughts :: "stream \<Rightarrow> stream update" where
  "finalizeActiveThoughts state =
     (if \<exists>r\<in>set state. body_loading (si_body r) then Updated (map markThoughtReady state) else Kept)"

section \<open>Tool calls\<close>

definition agentToolCallIdentity :: "string \<Rightarrow> string option \<Rightarrow> string" where
  "agentToolCallIdentity callId turnId = (case truthy turnId of
      None \<Rightarrow> callId
    | Some t \<Rightarrow> ''turn:'' @ encodeURIComponent t @ ''/'' @ encodeURIComponent callId)"

fun body_identity :: "string option \<Rightarrow> item_body \<Rightarrow> string option" where
  "body_identity turnId (ToolRow (AgentCall d)) = Some (agentToolCallIdentity (ad_callId d) turnId)"
| "body_identity turnId (PluginRow pluginId itemId _ _ _) = Some (pluginId @ ''/'' @ itemId)"
| "body_identity turnId _ = None"

definition streamTimelineItemIdentity :: "stream_item \<Rightarrow> string option" where
  "streamTimelineItemIdentity r = body_identity (si_turnId r) (si_body r)"

definition findExistingTimelineIdentityIndex :: "stream \<Rightarrow> string \<Rightarrow> nat option" where
  "findExistingTimelineIdentityIndex state d = find_index (\<lambda>r. streamTimelineItemIdentity r = Some d) state"

fun call_data :: "item_body \<Rightarrow> agent_tool_data option" where
  "call_data (ToolRow (AgentCall d)) = Some d"
| "call_data _ = None"

fun hasNonEmptyObject :: "Timeline_Items.json \<Rightarrow> bool" where
  "hasNonEmptyObject (Timeline_Items.JObj flds) = (flds \<noteq> [])"
| "hasNonEmptyObject _ = False"

definition mergeUnknownValue :: "Timeline_Items.json \<Rightarrow> Timeline_Items.json \<Rightarrow> Timeline_Items.json" where
  "mergeUnknownValue existing incoming =
     (if incoming = Timeline_Items.JNull then existing
      else if \<not> hasNonEmptyObject incoming \<and> hasNonEmptyObject existing then existing
      else incoming)"

text \<open>
  \<open>===\<close> between a kept value and one of a new message: equal primitive values.  For the fields of a tool
  call detail, \<open>field_same\<close> is \<open>existing[key] === value\<close> for a primitive field the incoming detail has and
  \<open>absent\<close> says that it does not have an array.
\<close>

fun primitive :: "Timeline_Items.json \<Rightarrow> bool" where
  "primitive (Timeline_Items.JArr _) = False"
| "primitive (Timeline_Items.JObj _) = False"
| "primitive _ = True"

definition same_value :: "Timeline_Items.json option \<Rightarrow> Timeline_Items.json \<Rightarrow> bool" where
  "same_value existing incoming \<longleftrightarrow> primitive incoming \<and> existing = Some incoming"

definition field_same :: "'a option \<Rightarrow> 'a option \<Rightarrow> bool" where
  "field_same existing incoming \<longleftrightarrow> incoming = None \<or> existing = incoming"

definition absent :: "'a list option \<Rightarrow> bool" where
  "absent incoming \<longleftrightarrow> incoming = None"

definition hasSameMetadata ::
  "(string, Timeline_Items.json) js_map \<Rightarrow> (string, Timeline_Items.json) js_map \<Rightarrow> bool" where
  "hasSameMetadata existing incoming = list_all (\<lambda>(k, v). same_value (map_of existing k) v) incoming"

definition mergeToolCallMetadata ::
  "(string, Timeline_Items.json) js_map option \<Rightarrow> (string, Timeline_Items.json) js_map option \<Rightarrow>
     (string, Timeline_Items.json) js_map option" where
  "mergeToolCallMetadata existing incoming = (case incoming of
      None \<Rightarrow> existing
    | Some i \<Rightarrow> (case existing of
        None \<Rightarrow> Some i
      | Some e \<Rightarrow> if hasSameMetadata e i then Some e else Some (spread e i)))"

definition metadata_kept ::
  "(string, Timeline_Items.json) js_map option \<Rightarrow> (string, Timeline_Items.json) js_map option \<Rightarrow> bool" where
  "metadata_kept existing incoming = (case incoming of
      None \<Rightarrow> True
    | Some i \<Rightarrow> (case existing of None \<Rightarrow> False | Some e \<Rightarrow> hasSameMetadata e i))"

text \<open>\<open>{...existing, ...incoming}\<close> for details of the same type, field by field.\<close>

definition spread_search :: "search_detail \<Rightarrow> search_detail \<Rightarrow> search_detail" where
  "spread_search e i = \<lparr>sd_query = sd_query i, sd_toolName = or_else (sd_toolName i) (sd_toolName e),
     sd_content = or_else (sd_content i) (sd_content e),
     sd_filePaths = or_else (sd_filePaths i) (sd_filePaths e),
     sd_webResults = or_else (sd_webResults i) (sd_webResults e),
     sd_annotations = or_else (sd_annotations i) (sd_annotations e),
     sd_numFiles = or_else (sd_numFiles i) (sd_numFiles e),
     sd_numMatches = or_else (sd_numMatches i) (sd_numMatches e),
     sd_durationMs = or_else (sd_durationMs i) (sd_durationMs e),
     sd_durationSeconds = or_else (sd_durationSeconds i) (sd_durationSeconds e),
     sd_truncated = or_else (sd_truncated i) (sd_truncated e),
     sd_mode = or_else (sd_mode i) (sd_mode e)\<rparr>"

definition same_search :: "search_detail \<Rightarrow> search_detail \<Rightarrow> bool" where
  "same_search e i \<longleftrightarrow> sd_query e = sd_query i \<and> field_same (sd_toolName e) (sd_toolName i) \<and>
     field_same (sd_content e) (sd_content i) \<and> absent (sd_filePaths i) \<and> absent (sd_webResults i) \<and>
     absent (sd_annotations i) \<and> field_same (sd_numFiles e) (sd_numFiles i) \<and>
     field_same (sd_numMatches e) (sd_numMatches i) \<and> field_same (sd_durationMs e) (sd_durationMs i) \<and>
     field_same (sd_durationSeconds e) (sd_durationSeconds i) \<and>
     field_same (sd_truncated e) (sd_truncated i) \<and> field_same (sd_mode e) (sd_mode i)"

definition spread_fetch :: "fetch_detail \<Rightarrow> fetch_detail \<Rightarrow> fetch_detail" where
  "spread_fetch e i = \<lparr>fd_url = fd_url i, fd_prompt = or_else (fd_prompt i) (fd_prompt e),
     fd_result = or_else (fd_result i) (fd_result e), fd_code = or_else (fd_code i) (fd_code e),
     fd_codeText = or_else (fd_codeText i) (fd_codeText e), fd_bytes = or_else (fd_bytes i) (fd_bytes e),
     fd_durationMs = or_else (fd_durationMs i) (fd_durationMs e)\<rparr>"

definition same_fetch :: "fetch_detail \<Rightarrow> fetch_detail \<Rightarrow> bool" where
  "same_fetch e i \<longleftrightarrow> fd_url e = fd_url i \<and> field_same (fd_prompt e) (fd_prompt i) \<and>
     field_same (fd_result e) (fd_result i) \<and> field_same (fd_code e) (fd_code i) \<and>
     field_same (fd_codeText e) (fd_codeText i) \<and> field_same (fd_bytes e) (fd_bytes i) \<and>
     field_same (fd_durationMs e) (fd_durationMs i)"

text \<open>\<open>hasSameIncomingFields\<close> on two details of one type; \<open>None\<close> for details of different types.\<close>

definition hasSameIncomingFields :: "tool_call_detail \<Rightarrow> tool_call_detail \<Rightarrow> bool option" where
  "hasSameIncomingFields existing incoming = (case existing of
      DShell a b c d \<Rightarrow> (case incoming of DShell a' b' c' d' \<Rightarrow>
          Some (a = a' \<and> field_same b b' \<and> field_same c c' \<and> field_same d d')
        | _ \<Rightarrow> None)
    | DRead a b c d \<Rightarrow> (case incoming of DRead a' b' c' d' \<Rightarrow>
          Some (a = a' \<and> field_same b b' \<and> field_same c c' \<and> field_same d d')
        | _ \<Rightarrow> None)
    | DEdit a b c d \<Rightarrow> (case incoming of DEdit a' b' c' d' \<Rightarrow>
          Some (a = a' \<and> field_same b b' \<and> field_same c c' \<and> field_same d d')
        | _ \<Rightarrow> None)
    | DWrite a b \<Rightarrow> (case incoming of DWrite a' b' \<Rightarrow>
          Some (a = a' \<and> field_same b b')
        | _ \<Rightarrow> None)
    | DSearch e \<Rightarrow> (case incoming of DSearch i \<Rightarrow>
          Some (same_search e i)
        | _ \<Rightarrow> None)
    | DFetch e \<Rightarrow> (case incoming of DFetch i \<Rightarrow>
          Some (same_fetch e i)
        | _ \<Rightarrow> None)
    | DWorktreeSetup a b c d e \<Rightarrow> (case incoming of DWorktreeSetup a' b' c' d' e' \<Rightarrow>
          Some False
        | _ \<Rightarrow> None)
    | DSubAgent a b c d e \<Rightarrow> (case incoming of DSubAgent a' b' c' d' e' \<Rightarrow>
          Some (field_same a a' \<and> field_same b b' \<and> field_same c c' \<and> d = d' \<and> absent e')
        | _ \<Rightarrow> None)
    | DPlainText a b c \<Rightarrow> (case incoming of DPlainText a' b' c' \<Rightarrow>
          Some (field_same a a' \<and> field_same b b' \<and> field_same c c')
        | _ \<Rightarrow> None)
    | DPlan a \<Rightarrow> (case incoming of DPlan a' \<Rightarrow>
          Some (a = a')
        | _ \<Rightarrow> None)
    | _ \<Rightarrow> None)"

definition spread_detail :: "tool_call_detail \<Rightarrow> tool_call_detail \<Rightarrow> tool_call_detail" where
  "spread_detail existing incoming = (case existing of
      DShell a b c d \<Rightarrow> (case incoming of DShell a' b' c' d' \<Rightarrow>
          DShell a' (or_else b' b) (or_else c' c) (or_else d' d)
        | _ \<Rightarrow> incoming)
    | DRead a b c d \<Rightarrow> (case incoming of DRead a' b' c' d' \<Rightarrow>
          DRead a' (or_else b' b) (or_else c' c) (or_else d' d)
        | _ \<Rightarrow> incoming)
    | DEdit a b c d \<Rightarrow> (case incoming of DEdit a' b' c' d' \<Rightarrow>
          DEdit a' (or_else b' b) (or_else c' c) (or_else d' d)
        | _ \<Rightarrow> incoming)
    | DWrite a b \<Rightarrow> (case incoming of DWrite a' b' \<Rightarrow>
          DWrite a' (or_else b' b)
        | _ \<Rightarrow> incoming)
    | DSearch e \<Rightarrow> (case incoming of DSearch i \<Rightarrow>
          DSearch (spread_search e i)
        | _ \<Rightarrow> incoming)
    | DFetch e \<Rightarrow> (case incoming of DFetch i \<Rightarrow>
          DFetch (spread_fetch e i)
        | _ \<Rightarrow> incoming)
    | DWorktreeSetup a b c d e \<Rightarrow> (case incoming of DWorktreeSetup a' b' c' d' e' \<Rightarrow>
          DWorktreeSetup a' b' c' d' (or_else e' e)
        | _ \<Rightarrow> incoming)
    | DSubAgent a b c d e \<Rightarrow> (case incoming of DSubAgent a' b' c' d' e' \<Rightarrow>
          DSubAgent (or_else a' a) (or_else b' b) (or_else c' c) d' (or_else e' e)
        | _ \<Rightarrow> incoming)
    | DPlainText a b c \<Rightarrow> (case incoming of DPlainText a' b' c' \<Rightarrow>
          DPlainText (or_else a' a) (or_else b' b) (or_else c' c)
        | _ \<Rightarrow> incoming)
    | _ \<Rightarrow> incoming)"

fun unknown_parts :: "tool_call_detail \<Rightarrow> (Timeline_Items.json \<times> Timeline_Items.json) option" where
  "unknown_parts (DUnknown a b) = Some (a, b)"
| "unknown_parts _ = None"

definition mergeStreamToolDetail :: "tool_call_detail \<Rightarrow> tool_call_detail \<Rightarrow> tool_call_detail" where
  "mergeStreamToolDetail existing incoming =
     (case (unknown_parts existing, unknown_parts incoming) of
        (Some _, None) \<Rightarrow> incoming
      | (None, Some _) \<Rightarrow> existing
      | (Some (a, b), Some (a', b')) \<Rightarrow> DUnknown (mergeUnknownValue a a') (mergeUnknownValue b b')
      | (None, None) \<Rightarrow>
          (case hasSameIncomingFields existing incoming of
             Some True \<Rightarrow> existing
           | Some False \<Rightarrow> spread_detail existing incoming
           | None \<Rightarrow> incoming))"

text \<open>Whether the merged detail is the existing object.\<close>

definition unknown_kept :: "Timeline_Items.json \<Rightarrow> Timeline_Items.json \<Rightarrow> bool" where
  "unknown_kept existing incoming \<longleftrightarrow>
     incoming = Timeline_Items.JNull \<or> \<not> hasNonEmptyObject incoming \<and> hasNonEmptyObject existing \<or>
     same_value (Some existing) incoming"

definition detail_kept :: "tool_call_detail \<Rightarrow> tool_call_detail \<Rightarrow> bool" where
  "detail_kept existing incoming =
     (case (unknown_parts existing, unknown_parts incoming) of
        (Some _, None) \<Rightarrow> False
      | (None, Some _) \<Rightarrow> True
      | (Some (a, b), Some (a', b')) \<Rightarrow> unknown_kept a a' \<and> unknown_kept b b'
      | (None, None) \<Rightarrow> hasSameIncomingFields existing incoming = Some True)"

fun mergeAgentToolCallStatus :: "tool_call_status \<Rightarrow> tool_call_status \<Rightarrow> tool_call_status" where
  "mergeAgentToolCallStatus existing incoming =
     (if existing = Failed \<or> incoming = Failed then Failed
      else if existing = Canceled then Canceled
      else if incoming = Canceled then (if existing = Completed then Completed else Canceled)
      else if existing = Completed \<or> incoming = Completed then Completed
      else Running)"

declare mergeAgentToolCallStatus.simps [simp del]

definition nullish :: "Timeline_Items.json option \<Rightarrow> Timeline_Items.json option" where
  "nullish v = (if v = Some Timeline_Items.JNull then None else v)"

definition default_failure :: "Timeline_Items.json" where
  "default_failure = Timeline_Items.JObj [(''message'', Timeline_Items.JStr ''Tool call failed'')]"

definition merge_call_data :: "agent_tool_data \<Rightarrow> agent_tool_data \<Rightarrow> agent_tool_data" where
  "merge_call_data existing data =
     (let st = mergeAgentToolCallStatus (ad_status existing) (ad_status data) in
      data\<lparr>ad_status := st,
        ad_error := Some (if st = Failed
          then default default_failure (or_else (nullish (ad_error data)) (nullish (ad_error existing)))
          else Timeline_Items.JNull),
        ad_detail := mergeStreamToolDetail (ad_detail existing) (ad_detail data),
        ad_metadata := mergeToolCallMetadata (ad_metadata existing) (ad_metadata data)\<rparr>)"

definition mergeAgentToolCallItem ::
  "stream_item \<Rightarrow> agent_tool_data \<Rightarrow> agent_tool_data \<Rightarrow> int \<Rightarrow> timeline_position option \<Rightarrow> stream_item" where
  "mergeAgentToolCallItem existing old data timestamp cursor =
     (with_cursor cursor existing)\<lparr>si_timestamp := timestamp,
        si_body := ToolRow (AgentCall (merge_call_data old data))\<rparr>"

definition error_kept :: "agent_tool_data \<Rightarrow> agent_tool_data \<Rightarrow> bool" where
  "error_kept existing data =
     (if mergeAgentToolCallStatus (ad_status existing) (ad_status data) = Failed
      then (case nullish (ad_error data) of
          Some v \<Rightarrow> same_value (ad_error existing) v
        | None \<Rightarrow> nullish (ad_error existing) \<noteq> None)
      else ad_error existing = Some Timeline_Items.JNull)"

definition same_call :: "agent_tool_data \<Rightarrow> agent_tool_data \<Rightarrow> timeline_position option \<Rightarrow> bool" where
  "same_call existing data cursor \<longleftrightarrow>
     ad_provider data = ad_provider existing \<and> ad_callId data = ad_callId existing \<and>
     ad_name data = ad_name existing \<and>
     mergeAgentToolCallStatus (ad_status existing) (ad_status data) = ad_status existing \<and>
     error_kept existing data \<and> detail_kept (ad_detail existing) (ad_detail data) \<and>
     metadata_kept (ad_metadata existing) (ad_metadata data) \<and> cursor = None"

definition new_call_row ::
  "agent_tool_data \<Rightarrow> int \<Rightarrow> string option \<Rightarrow> timeline_position option \<Rightarrow> stream_item" where
  "new_call_row data timestamp turnId cursor =
     \<lparr>si_id = ''agent_tool_'' @ agentToolCallIdentity (ad_callId data) turnId, si_cursor = cursor,
      si_turnId = truthy turnId, si_timestamp = timestamp,
      si_body = ToolRow (AgentCall (data\<lparr>ad_error :=
        (if ad_status data = Failed then ad_error data else Some Timeline_Items.JNull)\<rparr>))\<rparr>"

definition appendAgentToolCall ::
  "stream \<Rightarrow> agent_tool_data \<Rightarrow> int \<Rightarrow> string option \<Rightarrow> timeline_position option \<Rightarrow> stream update" where
  "appendAgentToolCall state data timestamp turnId cursor =
     (case findExistingTimelineIdentityIndex state (agentToolCallIdentity (ad_callId data) turnId) of
        Some i \<Rightarrow>
          (case call_data (si_body (state ! i)) of
             None \<Rightarrow> Kept
           | Some old \<Rightarrow>
               if same_call old data cursor then Kept
               else Updated (state[i := mergeAgentToolCallItem (state ! i) old data timestamp cursor]))
      | None \<Rightarrow> Updated (state @ [new_call_row data timestamp turnId cursor]))"

end
