(* ===== verification/Stream_Events.thy ===== *)
theory Stream_Events
  imports Stream_Reduce
begin

text \<open>
  The rest of \<open>reduceStreamUpdate\<close> of \<open>packages/app/src/types/stream.ts\<close>: task lists (with
  \<open>extractTaskEntriesFromToolCall\<close> of \<open>utils/tool-call-parsers.ts\<close>), compactions, notifications and plugin
  rows, the dispatch on the event, and \<open>hydrateStreamState\<close>, which folds it over a page.
\<close>

section \<open>Task lists\<close>

fun activity_json :: "task_activity \<Rightarrow> Js_Json.json" where
  "activity_json (TaskCreated n) =
     Js_Json.JObj [(''type'', Js_Json.JStr ''created''), (''count'', Js_Json.JNum (int n))]"
| "activity_json (TaskAdded t) =
     Js_Json.JObj [(''type'', Js_Json.JStr ''added''), (''task'', Js_Json.JStr t)]"
| "activity_json (TaskStarted t) =
     Js_Json.JObj [(''type'', Js_Json.JStr ''started''), (''task'', Js_Json.JStr t)]"
| "activity_json (TaskFinished t) =
     Js_Json.JObj [(''type'', Js_Json.JStr ''completed''), (''task'', Js_Json.JStr t)]"

fun task_status_text :: "task_status \<Rightarrow> string" where
  "task_status_text TaskPending = ''pending''"
| "task_status_text TaskInProgress = ''in_progress''"
| "task_status_text TaskCompleted = ''completed''"

definition optional_member :: "string \<Rightarrow> string option \<Rightarrow> (string \<times> Js_Json.json) list" where
  "optional_member k v = (case v of None \<Rightarrow> [] | Some s \<Rightarrow> [(k, Js_Json.JStr s)])"

definition task_json :: "agent_task_item \<Rightarrow> Js_Json.json" where
  "task_json t = Js_Json.JObj ([(''text'', Js_Json.JStr (ti_text t)),
     (''completed'', Js_Json.JBool (ti_completed t))] @ optional_member ''id'' (ti_id t) @
     optional_member ''status'' (map_option task_status_text (ti_status t)) @
     optional_member ''activeForm'' (ti_activeForm t))"

definition taskStatus :: "agent_task_item \<Rightarrow> task_status" where
  "taskStatus t =
     (if ti_completed t \<or> ti_status t = Some TaskCompleted then TaskCompleted
      else if ti_status t = Some TaskInProgress then TaskInProgress else TaskPending)"

definition taskKey :: "agent_task_item \<Rightarrow> nat \<Rightarrow> string" where
  "taskKey t index = (case ti_id t of Some d \<Rightarrow> d | None \<Rightarrow> show_nat index @ '':'' @ ti_text t)"

definition task_change :: "agent_task_item option \<Rightarrow> agent_task_item \<Rightarrow> task_activity list" where
  "task_change prior t = (case prior of
      None \<Rightarrow> [TaskAdded (ti_text t)]
    | Some p \<Rightarrow>
        if taskStatus p = taskStatus t then []
        else if taskStatus t = TaskCompleted then [TaskFinished (ti_text t)]
        else if taskStatus t = TaskInProgress then [TaskStarted (ti_text t)] else [])"

definition deriveTaskActivities :: "agent_task_item list \<Rightarrow> agent_task_item list \<Rightarrow> task_activity list" where
  "deriveTaskActivities previous current =
     (if previous = [] then (if current \<noteq> [] then [TaskCreated (length current)] else [])
      else
        let byKey = map_of (rev (map (\<lambda>(i, t). (taskKey t i, t)) (enumerate 0 previous)))
        in concat (map (\<lambda>(i, t). task_change (byKey (taskKey t i)) t) (enumerate 0 current)))"

definition normalize_task :: "agent_task_item \<Rightarrow> agent_task_item" where
  "normalize_task t = t\<lparr>ti_id := truthy (ti_id t), ti_activeForm := truthy (ti_activeForm t)\<rparr>"

fun todo_of :: "string \<Rightarrow> item_body \<Rightarrow> (agent_task_item list \<times> task_activity) option" where
  "todo_of provider (TodoRow p items activity) = (if p = provider then Some (items, activity) else None)"
| "todo_of provider _ = None"

definition todo_rows ::
  "string \<Rightarrow> agent_task_item list \<Rightarrow> int \<Rightarrow> timeline_position option \<Rightarrow> task_activity list \<Rightarrow>
     stream \<Rightarrow> stream" where
  "todo_rows provider items timestamp cursor activities state =
     fold (\<lambda>activity next. next @
       [\<lparr>si_id = createUniqueTimelineId (length next) ''todo''
            (provider @ '':'' @ JSON_stringify (activity_json activity) @ '':'' @
             JSON_stringify (Js_Json.JArr (map task_json items))) timestamp,
         si_cursor = cursor, si_turnId = None, si_timestamp = timestamp,
         si_body = TodoRow provider items activity\<rparr>]) activities state"

text \<open>One task was added to a list that was created and of which no task was begun.\<close>

definition grows_created ::
  "task_activity list \<Rightarrow> agent_task_item list \<Rightarrow> (agent_task_item list \<times> task_activity) option \<Rightarrow> bool" where
  "grows_created activities items lastTodo \<longleftrightarrow>
     (case activities of [TaskAdded _] \<Rightarrow> True | _ \<Rightarrow> False) \<and>
     (case lastTodo of Some (_, TaskCreated _) \<Rightarrow> True | _ \<Rightarrow> False) \<and>
     list_all (\<lambda>t. taskStatus t = TaskPending) items"

definition todo_row ::
  "timeline_position option \<Rightarrow> int \<Rightarrow> string \<Rightarrow> agent_task_item list \<Rightarrow> task_activity \<Rightarrow> stream_item \<Rightarrow>
     stream_item" where
  "todo_row cursor timestamp provider items activity r =
     (with_cursor cursor r)\<lparr>si_timestamp := timestamp, si_body := TodoRow provider items activity\<rparr>"

definition appendTodoList ::
  "stream \<Rightarrow> string \<Rightarrow> agent_task_item list \<Rightarrow> int \<Rightarrow> timeline_position option \<Rightarrow> stream update" where
  "appendTodoList state provider items0 timestamp cursor =
     (let items = map normalize_task items0;
          previous = find_last_index (\<lambda>r. todo_of provider (si_body r) \<noteq> None) state;
          previousTodo = Option.bind previous (\<lambda>i. todo_of provider (si_body (state ! i)));
          activities = deriveTaskActivities (default [] (map_option fst previousTodo)) items;
          lastTodo = (if state = [] then None else todo_of provider (si_body (last state)))
      in if activities = [] then
           (case previousTodo of
              None \<Rightarrow> Kept
            | Some (_, activity) \<Rightarrow>
                let i = the previous in
                Updated (state[i := todo_row cursor timestamp provider items activity (state ! i)]))
         else if grows_created activities items lastTodo then
           Updated (butlast state @
             [todo_row cursor timestamp provider items (TaskCreated (length items)) (last state)])
         else Updated (todo_rows provider items timestamp cursor activities state))"

section \<open>Task entries of tool calls\<close>

definition lower_char :: "char \<Rightarrow> char" where
  "lower_char c = (let n = char_code c in if 65 \<le> n \<and> n \<le> 90 \<or> 192 \<le> n \<and> n \<le> 222 \<and> n \<noteq> 215 then char_of (n + 32) else c)"

definition name_separator :: "char \<Rightarrow> bool" where
  "name_separator c \<longleftrightarrow> c = CHR ''.'' \<or> c = CHR ''-'' \<or> is_space c"

fun squeeze_separators :: "string \<Rightarrow> string" where
  "squeeze_separators [] = []"
| "squeeze_separators (c # cs) =
     (if name_separator c
      then (if cs \<noteq> [] \<and> name_separator (hd cs) then squeeze_separators cs
            else CHR ''_'' # squeeze_separators cs)
      else c # squeeze_separators cs)"

definition normalizeToolName :: "string \<Rightarrow> string" where
  "normalizeToolName name = map lower_char (squeeze_separators (trim name))"

fun json_members :: "Timeline_Items.json \<Rightarrow> (string \<times> Timeline_Items.json) list option" where
  "json_members (Timeline_Items.JObj ms) = Some ms"
| "json_members _ = None"

fun json_elements :: "Timeline_Items.json \<Rightarrow> Timeline_Items.json list option" where
  "json_elements (Timeline_Items.JArr es) = Some es"
| "json_elements _ = None"

fun json_text :: "Timeline_Items.json \<Rightarrow> string option" where
  "json_text (Timeline_Items.JStr s) = Some s"
| "json_text _ = None"

definition json_task_status :: "Timeline_Items.json \<Rightarrow> task_status option" where
  "json_task_status v = (case json_text v of
      None \<Rightarrow> None
    | Some s \<Rightarrow> if s = ''pending'' then Some TaskPending
        else if s = ''in_progress'' then Some TaskInProgress
        else if s = ''completed'' then Some TaskCompleted else None)"

definition entry_field :: "string \<Rightarrow> (Timeline_Items.json \<Rightarrow> 'a option) \<Rightarrow>
    (string \<times> Timeline_Items.json) list \<Rightarrow> 'a option" where
  "entry_field k f ms = Option.bind (map_of ms k) f"

definition all_parsed :: "('a \<Rightarrow> 'b option) \<Rightarrow> 'a list \<Rightarrow> 'b list option" where
  "all_parsed f xs = (if \<exists>x\<in>set xs. f x = None then None else Some (map (\<lambda>x. the (f x)) xs))"

text \<open>The text and the status of an entry that satisfies the schema.\<close>

definition todo_entry :: "Timeline_Items.json \<Rightarrow> (string \<times> task_status) option" where
  "todo_entry v = (case json_members v of
      None \<Rightarrow> None
    | Some ms \<Rightarrow>
        (case (entry_field ''content'' json_text ms, entry_field ''status'' json_task_status ms) of
           (Some content, Some st) \<Rightarrow>
             (case map_of ms ''activeForm'' of
                None \<Rightarrow> Some (if trim content \<noteq> [] then trim content else content, st)
              | Some (Timeline_Items.JStr form) \<Rightarrow>
                  Some (if trim form \<noteq> [] then trim form
                        else if trim content \<noteq> [] then trim content else content, st)
              | Some _ \<Rightarrow> None)
         | _ \<Rightarrow> None))"

definition plan_entry :: "Timeline_Items.json \<Rightarrow> (string \<times> task_status) option" where
  "plan_entry v = (case json_members v of
      None \<Rightarrow> None
    | Some ms \<Rightarrow> (case entry_field ''step'' json_text ms of
        None \<Rightarrow> None
      | Some s \<Rightarrow> Some (trim s, default TaskPending (entry_field ''status'' json_task_status ms))))"

definition entries_under :: "string \<Rightarrow> (Timeline_Items.json \<Rightarrow> 'a option) \<Rightarrow> Timeline_Items.json \<Rightarrow>
    'a list option" where
  "entries_under k f v = (case json_members v of
      None \<Rightarrow> None
    | Some ms \<Rightarrow> Option.bind (entry_field k json_elements ms) (all_parsed f))"

definition extractTaskEntriesFromToolCall ::
  "string \<Rightarrow> Timeline_Items.json \<Rightarrow> (string \<times> task_status) list option" where
  "extractTaskEntriesFromToolCall toolName v =
     (let normalized = normalizeToolName toolName in
      if normalized = ''exitplanmode'' then None
      else if normalized = ''todowrite'' \<or> normalized = ''todo_write'' then entries_under ''todos'' todo_entry v
      else if normalized = ''update_plan''
      then map_option (filter (\<lambda>(s, _). s \<noteq> [])) (entries_under ''plan'' plan_entry v)
      else None)"

definition inputFromUnknownDetail :: "tool_call_detail \<Rightarrow> Timeline_Items.json" where
  "inputFromUnknownDetail detail =
     (case unknown_parts detail of Some (a, _) \<Rightarrow> a | None \<Rightarrow> Timeline_Items.JNull)"

definition plain_task :: "string \<times> task_status \<Rightarrow> agent_task_item" where
  "plain_task e = \<lparr>ti_text = fst e, ti_completed = (snd e = TaskCompleted), ti_id = None,
     ti_status = None, ti_activeForm = None\<rparr>"

definition reduceTimelineToolCall ::
  "stream \<Rightarrow> string \<Rightarrow> string option \<Rightarrow> tool_call \<Rightarrow> int \<Rightarrow> timeline_position option \<Rightarrow> stream update" where
  "reduceTimelineToolCall state provider turnId item timestamp cursor =
     (let name = normalizeToolName (tc_name item);
          tasks = extractTaskEntriesFromToolCall (tc_name item) (inputFromUnknownDetail (tc_detail item))
      in if provider = ''claude'' \<and> name = ''exitplanmode'' then Kept
         else if provider = ''claude'' \<and> (name = ''todowrite'' \<or> name = ''todo_write'') then
           (case tasks of None \<Rightarrow> Kept
            | Some ts \<Rightarrow> appendTodoList state provider (map plain_task ts) timestamp cursor)
         else if provider = ''claude'' \<and> name \<in> {''taskcreate'', ''taskupdate'', ''tasklist''} then Kept
         else
           (case tasks of
              Some ts \<Rightarrow> appendTodoList state provider (map plain_task ts) timestamp cursor
            | None \<Rightarrow> appendAgentToolCall state
                \<lparr>ad_provider = provider, ad_callId = tc_callId item, ad_name = tc_name item,
                 ad_status = tc_status item, ad_error = tc_error item, ad_detail = tc_detail item,
                 ad_metadata = tc_metadata item\<rparr> timestamp turnId cursor))"

section \<open>Compactions, notifications and plugin rows\<close>

fun compaction_parts ::
  "item_body \<Rightarrow> (compaction_status \<times> compaction_trigger option \<times> rat option) option" where
  "compaction_parts (CompactionRow st trigger preTokens) = Some (st, trigger, preTokens)"
| "compaction_parts _ = None"

definition loading_compaction :: "stream_item \<Rightarrow> bool" where
  "loading_compaction r \<longleftrightarrow> (case compaction_parts (si_body r) of
     Some (st, _, _) \<Rightarrow> st = CompactionLoading | None \<Rightarrow> False)"

definition complete_compaction ::
  "compaction_trigger option \<Rightarrow> rat option \<Rightarrow> timeline_position option \<Rightarrow> stream_item \<Rightarrow> stream_item" where
  "complete_compaction trigger preTokens cursor r = (case compaction_parts (si_body r) of
      None \<Rightarrow> r
    | Some (_, trigger', preTokens') \<Rightarrow> (with_cursor cursor r)\<lparr>si_body :=
        CompactionRow CompactionCompleted (or_else trigger trigger') (or_else preTokens preTokens')\<rparr>)"

fun compaction_text :: "compaction_status \<Rightarrow> string" where
  "compaction_text CompactionLoading = ''loading''"
| "compaction_text CompactionCompleted = ''completed''"

definition reduceTimelineCompaction ::
  "stream \<Rightarrow> compaction_status \<Rightarrow> compaction_trigger option \<Rightarrow> rat option \<Rightarrow> int \<Rightarrow>
     timeline_position option \<Rightarrow> stream update" where
  "reduceTimelineCompaction state st trigger preTokens timestamp cursor =
     (case (if st = CompactionCompleted then find_index loading_compaction state else None) of
        Some i \<Rightarrow> Updated (state[i := complete_compaction trigger preTokens cursor (state ! i)])
      | None \<Rightarrow> Updated (state @
          [\<lparr>si_id = createUniqueTimelineId (length state) ''compaction'' (compaction_text st) timestamp,
            si_cursor = cursor, si_turnId = None, si_timestamp = timestamp,
            si_body = CompactionRow st trigger preTokens\<rparr>]))"

definition appendNotification :: "stream \<Rightarrow> stream_item \<Rightarrow> stream update" where
  "appendNotification state entry = (case find_index (\<lambda>r. si_id r = si_id entry) state of
      Some i \<Rightarrow> Updated (state[i := entry])
    | None \<Rightarrow> Updated (state @ [entry]))"

definition notification_row ::
  "stream \<Rightarrow> notification_source \<Rightarrow> notification_level \<Rightarrow> string \<Rightarrow> int \<Rightarrow> timeline_position option \<Rightarrow>
     stream_item" where
  "notification_row state source level message timestamp cursor =
     \<lparr>si_id = createUniqueTimelineId (length state)
        (case source of FromError \<Rightarrow> ''error'' | FromNotification \<Rightarrow> ''notification'') message timestamp,
      si_cursor = cursor, si_turnId = None, si_timestamp = timestamp,
      si_body = NotificationRow source level message\<rparr>"

fun is_plugin :: "item_body \<Rightarrow> bool" where
  "is_plugin (PluginRow _ _ _ _ _) = True"
| "is_plugin _ = False"

definition appendPluginTimelineItem ::
  "stream \<Rightarrow> plugin_item \<Rightarrow> int \<Rightarrow> timeline_position option \<Rightarrow> stream update" where
  "appendPluginTimelineItem state item timestamp cursor =
     (case timelineItemIdentity (Plugin item) of
        None \<Rightarrow> Kept
      | Some identity \<Rightarrow>
          let nextItem = \<lparr>si_id = identity, si_cursor = cursor, si_turnId = None, si_timestamp = timestamp,
                si_body = PluginRow (pi_pluginId item) (pi_id item) (pi_kind item) (pi_version item)
                  (pi_data item)\<rparr>
          in case findExistingTimelineIdentityIndex state identity of
               None \<Rightarrow> Updated (state @ [nextItem])
             | Some i \<Rightarrow>
                 if is_plugin (si_body (state ! i))
                 then Updated (state[i := nextItem\<lparr>si_id := si_id (state ! i)\<rparr>]) else Kept)"

section \<open>Events\<close>

definition finalized :: "stream update \<Rightarrow> stream \<Rightarrow> stream update" where
  "finalized u state = then_update u finalizeActiveThoughts state"

fun reduceTimelineItem ::
  "stream \<Rightarrow> timeline_item \<Rightarrow> string \<Rightarrow> string option \<Rightarrow> int \<Rightarrow> update_source \<Rightarrow> string list \<Rightarrow>
     timeline_position option \<Rightarrow> stream update" where
  "reduceTimelineItem state (UserMessage s messageId clientMessageId) provider turnId ts source reserved cursor =
     finalized (appendUserMessage state s ts messageId clientMessageId cursor turnId) state"
| "reduceTimelineItem state (AssistantMessage s messageId) provider turnId ts source reserved cursor =
     finalized (appendAssistantMessage state s ts source messageId reserved cursor) state"
| "reduceTimelineItem state (Reasoning s) provider turnId ts source reserved cursor =
     appendThought state s ts cursor"
| "reduceTimelineItem state (ToolCall item) provider turnId ts source reserved cursor =
     finalized (reduceTimelineToolCall state provider turnId item ts cursor) state"
| "reduceTimelineItem state (Todo items) provider turnId ts source reserved cursor =
     finalized (appendTodoList state provider items ts cursor) state"
| "reduceTimelineItem state (ErrorItem message) provider turnId ts source reserved cursor =
     finalized (appendNotification state
       (notification_row state FromError LevelError message ts cursor)) state"
| "reduceTimelineItem state (Notification level message) provider turnId ts source reserved cursor =
     finalized (appendNotification state
       (notification_row state FromNotification level message ts cursor)) state"
| "reduceTimelineItem state (Compaction st trigger preTokens extra) provider turnId ts source reserved cursor =
     finalized (reduceTimelineCompaction state st trigger preTokens ts cursor) state"
| "reduceTimelineItem state (Plugin item) provider turnId ts source reserved cursor =
     finalized (appendPluginTimelineItem state item ts cursor) state"

definition reconcileCanonicalUserTurnMembership :: "string \<Rightarrow> string option \<Rightarrow> stream \<Rightarrow> stream update" where
  "reconcileCanonicalUserTurnMembership clientMessageId turnId items =
     (case find_index (\<lambda>r. si_user r \<and> si_client r = Some clientMessageId) items of
        None \<Rightarrow> Kept
      | Some i \<Rightarrow>
          if si_turnId (items ! i) = turnId then Kept
          else Updated (items[i := (items ! i)\<lparr>si_turnId := truthy turnId\<rparr>]))"

fun item_client :: "timeline_item \<Rightarrow> string option" where
  "item_client (UserMessage _ _ c) = c"
| "item_client _ = None"

definition applyTimelineTurnId :: "timeline_item \<Rightarrow> string option \<Rightarrow> stream \<Rightarrow> stream update" where
  "applyTimelineTurnId item turnId items = (case truthy (item_client item) of
      Some c \<Rightarrow> reconcileCanonicalUserTurnMembership c turnId items
    | None \<Rightarrow>
        if truthy turnId = None \<or> items = [] then Kept
        else if si_turnId (last items) = turnId then Kept
        else Updated (butlast items @ [(last items)\<lparr>si_turnId := turnId\<rparr>]))"

definition reduceStreamUpdate ::
  "stream \<Rightarrow> agent_stream_event \<Rightarrow> int \<Rightarrow> update_source \<Rightarrow> string list \<Rightarrow> timeline_position option \<Rightarrow>
     stream update" where
  "reduceStreamUpdate state event timestamp source reserved cursor = (case event of
      TimelineEvent item provider turnId _ \<Rightarrow>
        then_update (reduceTimelineItem state item provider turnId timestamp source reserved cursor)
          (applyTimelineTurnId item turnId) state
    | ThreadStarted _ _ \<Rightarrow> finalizeActiveThoughts state
    | TurnStarted _ _ \<Rightarrow> finalizeActiveThoughts state
    | TurnCompleted _ _ _ \<Rightarrow> finalizeActiveThoughts state
    | TurnFailed _ _ _ _ _ \<Rightarrow> finalizeActiveThoughts state
    | TurnCanceled _ _ _ \<Rightarrow> finalizeActiveThoughts state
    | PermissionRequested _ _ _ \<Rightarrow> finalizeActiveThoughts state
    | PermissionResolved _ _ _ _ \<Rightarrow> finalizeActiveThoughts state
    | AttentionRequired _ _ _ \<Rightarrow> finalizeActiveThoughts state
    | _ \<Rightarrow> Kept)"

record stream_event =
  ev_event :: agent_stream_event
  ev_timestamp :: int
  ev_cursor :: "timeline_position option"

text \<open>A fold whose steps may raise an exception.\<close>

fun fold_sum :: "('a \<Rightarrow> 's \<Rightarrow> 'e + 's) \<Rightarrow> 'a list \<Rightarrow> 's \<Rightarrow> 'e + 's" where
  "fold_sum f [] s = Inr s"
| "fold_sum f (x # xs) s = bind_sum (f x s) (fold_sum f xs)"

definition hydrate_step :: "update_source \<Rightarrow> string list \<Rightarrow> stream_event \<Rightarrow> stream \<Rightarrow> string + stream" where
  "hydrate_step source reserved e state = outcome
     (reduceStreamUpdate state (ev_event e) (ev_timestamp e) source reserved (ev_cursor e)) state"

definition finalize_all :: "stream \<Rightarrow> string + stream" where
  "finalize_all state = outcome (finalizeActiveThoughts state) state"

definition hydrateStreamState ::
  "stream_event list \<Rightarrow> update_source \<Rightarrow> string list \<Rightarrow> string + stream" where
  "hydrateStreamState events source reserved =
     bind_sum (fold_sum (hydrate_step source reserved) events []) finalize_all"

end
