(* ===== verification/Stream_Lanes.thy ===== *)
theory Stream_Lanes
  imports Stream_Events
begin

text \<open>
  The two lanes of a client stream in \<open>packages/app/src/types/stream.ts\<close>: user messages are looked up
  across both (\<open>upsertUserMessageAcrossStream\<close>), streamed text grows in the head, finished Markdown blocks are
  promoted and everything else flushes the head into the tail (\<open>applyStreamEvent\<close>).  The argument \<open>parse\<close> is
  the Markdown parser (\<open>Stream_Ids\<close>).
\<close>

section \<open>User messages across the lanes\<close>

datatype lane = TailLane | HeadLane
datatype insert_policy = InsertTail | InsertHead | PrependTail | InsertNone

record user_location =
  ul_lane :: lane
  ul_index :: nat
  ul_message :: stream_item
  ul_matched :: bool

record across =
  ac_tail :: stream
  ac_head :: stream
  ac_changedTail :: bool
  ac_changedHead :: bool
  ac_location :: "user_location option"

definition location_of :: "lane \<Rightarrow> production \<Rightarrow> user_location" where
  "location_of l p = \<lparr>ul_lane = l, ul_index = up_index p, ul_message = up_message p, ul_matched = up_matched p\<rparr>"

definition upsertUserMessageAcrossStream ::
  "stream \<Rightarrow> stream \<Rightarrow> stream_item \<Rightarrow> insert_policy \<Rightarrow> presentation_policy \<Rightarrow> match_policy \<Rightarrow> across" where
  "upsertUserMessageAcrossStream tail head message place presentation policy =
     (let t = produceUserMessage tail message None presentation policy;
          h = produceUserMessage head message None presentation policy
      in if up_matched t then
           \<lparr>ac_tail = settled (up_items t) tail, ac_head = head, ac_changedTail = is_updated (up_items t),
            ac_changedHead = False, ac_location = Some (location_of TailLane t)\<rparr>
         else if up_matched h then
           \<lparr>ac_tail = tail, ac_head = settled (up_items h) head, ac_changedTail = False,
            ac_changedHead = is_updated (up_items h), ac_location = Some (location_of HeadLane h)\<rparr>
         else
           (case place of
              InsertNone \<Rightarrow> \<lparr>ac_tail = tail, ac_head = head, ac_changedTail = False, ac_changedHead = False,
                ac_location = None\<rparr>
            | InsertHead \<Rightarrow>
                (let p = produceUserMessage head message (Some (length head)) presentation policy in
                 \<lparr>ac_tail = tail, ac_head = settled (up_items p) head, ac_changedTail = False,
                  ac_changedHead = True, ac_location = Some (location_of HeadLane p)\<rparr>)
            | _ \<Rightarrow>
                (let p = produceUserMessage tail message
                       (Some (if place = PrependTail then 0 else length tail)) presentation policy in
                 \<lparr>ac_tail = settled (up_items p) tail, ac_head = head, ac_changedTail = True,
                  ac_changedHead = False, ac_location = Some (location_of TailLane p)\<rparr>)))"

definition handoffCreatedAgentUserMessageToStream :: "stream \<Rightarrow> stream \<Rightarrow> stream_item \<Rightarrow> across" where
  "handoffCreatedAgentUserMessageToStream tail head message =
     upsertUserMessageAcrossStream tail head message InsertTail PresentIncoming Handoff"

record placement =
  pl_items :: "stream update"
  pl_message :: stream_item
  pl_matched :: bool

definition placeCanonicalUserMessageAtTail :: "stream \<Rightarrow> stream_item \<Rightarrow> bool \<Rightarrow> placement" where
  "placeCanonicalUserMessageAtTail tail message insertWhenUnmatched =
     (let p = produceUserMessage tail message None PresentExisting CanonicalIncoming in
      if \<not> up_matched p \<and> \<not> insertWhenUnmatched
      then \<lparr>pl_items = up_items p, pl_message = up_message p, pl_matched = up_matched p\<rparr>
      else
        let items = settled (up_items p) tail;
            preceding = (if up_matched p then without_index (up_index p) items else items)
        in \<lparr>pl_items = Updated (preceding @ [up_message p]), pl_message = up_message p,
            pl_matched = up_matched p\<rparr>)"

section \<open>Flushing and promoting\<close>

fun streamable :: "item_body \<Rightarrow> bool" where
  "streamable (AssistantRow _ _ _ _) = True"
| "streamable (ThoughtRow _ _) = True"
| "streamable _ = False"

definition finalizeHeadItems :: "stream \<Rightarrow> stream" where
  "finalizeHeadItems head = map markThoughtReady head"

text \<open>The rows of the head that the tail does not have yet.\<close>

definition unseen :: "stream \<Rightarrow> stream \<Rightarrow> stream" where
  "unseen tail items = filter (\<lambda>r. si_id r \<notin> si_id ` set tail) items"

definition flushHeadToTail :: "stream \<Rightarrow> stream \<Rightarrow> stream update" where
  "flushHeadToTail tail head =
     (let newItems = unseen tail (finalizeHeadItems head) in
      if head = [] \<or> newItems = [] then Kept else Updated (tail @ newItems))"

text \<open>\<open>AssistantRow\<close> with its messageId, text, block group and block index.\<close>

fun assistant_parts :: "item_body \<Rightarrow> (string option \<times> string \<times> string option \<times> nat option) option" where
  "assistant_parts (AssistantRow m s g i) = Some (m, s, g, i)"
| "assistant_parts _ = None"

abbreviation si_assistant :: "stream_item \<Rightarrow> bool" where
  "si_assistant r \<equiv> assistant_parts (si_body r) \<noteq> None"

definition getActiveAssistantHeadIndex :: "stream \<Rightarrow> nat option" where
  "getActiveAssistantHeadIndex head = find_last_index si_assistant head"

definition createAssistantBlockId :: "string \<Rightarrow> nat \<Rightarrow> string" where
  "createAssistantBlockId groupId blockIndex = groupId @ '':block:'' @ show_nat blockIndex"

definition block_row :: "stream_item \<Rightarrow> string option \<Rightarrow> string \<Rightarrow> nat \<Rightarrow> string \<Rightarrow> stream_item" where
  "block_row r messageId groupId index block =
     r\<lparr>si_id := createAssistantBlockId groupId index,
       si_body := AssistantRow messageId block (Some groupId) (Some index)\<rparr>"

definition promoteCompletedAssistantBlocks ::
  "(string \<Rightarrow> (nat \<times> nat) list) \<Rightarrow> stream \<Rightarrow> stream \<Rightarrow> stream update \<times> stream update" where
  "promoteCompletedAssistantBlocks parse tail head =
     (case getActiveAssistantHeadIndex head of
        None \<Rightarrow> (Kept, Kept)
      | Some i \<Rightarrow>
          (case assistant_parts (si_body (head ! i)) of
             None \<Rightarrow> (Kept, Kept)
           | Some (messageId, s, g, first) \<Rightarrow>
               let blocks = splitMarkdownBlocks parse s in
               if length blocks < 2 then (Kept, Kept)
               else
                 let groupId = default (si_id (head ! i)) g;
                     k = default 0 first;
                     completed = butlast blocks;
                     promoted = map (\<lambda>(n, block). block_row (head ! i) messageId groupId n block)
                       (enumerate k completed);
                     live = block_row (head ! i) messageId groupId (k + length completed)
                       (last blocks @ getTrailingNewlineSuffix s)
                 in (flushHeadToTail tail promoted, Updated (head[i := live]))))"

section \<open>Applying an event\<close>

fun getEventItemKind :: "timeline_item \<Rightarrow> (item_body \<Rightarrow> bool) option" where
  "getEventItemKind (AssistantMessage _ _) = Some (\<lambda>b. assistant_parts b \<noteq> None)"
| "getEventItemKind (Reasoning _) = Some is_thought"
| "getEventItemKind _ = None"

text \<open>
  \<open>getEventItemKind\<close> is the test for the rows of the streamable kind that an item produces; items of the
  other kinds flush the head, except that a compaction has no kind.
\<close>

fun flushing_item :: "timeline_item \<Rightarrow> bool" where
  "flushing_item (Compaction _ _ _ _) = False"
| "flushing_item (AssistantMessage _ _) = False"
| "flushing_item (Reasoning _) = False"
| "flushing_item _ = True"

fun getIncomingAssistantMessageId :: "timeline_item \<Rightarrow> string option" where
  "getIncomingAssistantMessageId (AssistantMessage _ m) = m"
| "getIncomingAssistantMessageId _ = None"

definition shouldFlushHead :: "stream \<Rightarrow> timeline_item \<Rightarrow> bool" where
  "shouldFlushHead head item \<longleftrightarrow> head \<noteq> [] \<and>
     (flushing_item item \<or>
      (case getEventItemKind item of
         None \<Rightarrow> False
       | Some same \<Rightarrow>
           (case find_last_index (\<lambda>r. streamable (si_body r)) head of
              None \<Rightarrow> True
            | Some i \<Rightarrow> \<not> same (si_body (head ! i)) \<or>
                si_assistant (head ! i) \<and> getIncomingAssistantMessageId item \<noteq> None \<and>
                si_message (head ! i) \<noteq> getIncomingAssistantMessageId item)))"

definition resumes_tail :: "stream \<Rightarrow> stream \<Rightarrow> timeline_item \<Rightarrow> bool" where
  "resumes_tail tail head item \<longleftrightarrow>
     (case item of AssistantMessage _ _ \<Rightarrow> True | _ \<Rightarrow> False) \<and> head = [] \<and> tail \<noteq> [] \<and>
     si_assistant (last tail) \<and>
     (getIncomingAssistantMessageId item = None \<or>
      si_message (last tail) = getIncomingAssistantMessageId item)"

definition reserved_ids :: "stream \<Rightarrow> string list" where
  "reserved_ids items = concat (map (\<lambda>r. case assistant_parts (si_body r) of
      Some (_, _, g, _) \<Rightarrow> (case truthy g of Some d \<Rightarrow> [si_id r, d] | None \<Rightarrow> [si_id r])
    | None \<Rightarrow> [si_id r]) items)"

record lane_result =
  lr_tail :: stream
  lr_head :: stream
  lr_changedTail :: bool
  lr_changedHead :: bool
  lr_acked :: "string list"

definition unchanged_lanes :: "stream \<Rightarrow> stream \<Rightarrow> lane_result" where
  "unchanged_lanes tail head = \<lparr>lr_tail = tail, lr_head = head, lr_changedTail = False,
     lr_changedHead = False, lr_acked = []\<rparr>"

definition acked_ids :: "bool \<Rightarrow> stream_item \<Rightarrow> string list" where
  "acked_ids matched message =
     (case truthy (si_client message) of Some c \<Rightarrow> if matched then [c] else [] | None \<Rightarrow> [])"

definition with_membership :: "string option \<Rightarrow> string option \<Rightarrow> stream \<Rightarrow> stream update" where
  "with_membership client turnId items = (case client of
      None \<Rightarrow> Kept | Some c \<Rightarrow> reconcileCanonicalUserTurnMembership c turnId items)"

definition canonical_user_input ::
  "nat \<Rightarrow> string \<Rightarrow> string option \<Rightarrow> string option \<Rightarrow> string option \<Rightarrow> int \<Rightarrow>
     timeline_position option \<Rightarrow> user_input" where
  "canonical_user_input len chunk messageId clientMessageId turnId timestamp cursor =
     \<lparr>ui_id = or_else messageId (Some (createUniqueTimelineId len ''user'' (trim chunk) timestamp)),
      ui_client = clientMessageId, ui_message = messageId, ui_turn = turnId, ui_cursor = cursor,
      ui_text = chunk, ui_timestamp = timestamp, ui_images = None, ui_attachments = None\<rparr>"

definition canonical_at_head ::
  "stream \<Rightarrow> stream \<Rightarrow> stream_item \<Rightarrow> bool \<Rightarrow> string option \<Rightarrow> lane_result" where
  "canonical_at_head tail head canonical hasContent turnId =
     (let u = upsertUserMessageAcrossStream tail head canonical
            (if hasContent then InsertHead else InsertNone) PresentExisting CanonicalIncoming;
          t = with_membership (si_client canonical) turnId (ac_tail u);
          h = with_membership (si_client canonical) turnId (ac_head u)
      in \<lparr>lr_tail = settled t (ac_tail u), lr_head = settled h (ac_head u),
          lr_changedTail = (ac_changedTail u \<or> is_updated t),
          lr_changedHead = (ac_changedHead u \<or> is_updated h),
          lr_acked = (case ac_location u of None \<Rightarrow> []
            | Some l \<Rightarrow> acked_ids (ul_matched l) (ul_message l))\<rparr>)"

definition canonical_at_tail ::
  "stream \<Rightarrow> stream \<Rightarrow> stream_item \<Rightarrow> bool \<Rightarrow> string option \<Rightarrow> lane_result" where
  "canonical_at_tail tail head canonical hasContent turnId =
     (let f = flushHeadToTail tail head;
          flushedTail = settled f tail;
          p = placeCanonicalUserMessageAtTail flushedTail canonical hasContent;
          items = settled (pl_items p) flushedTail;
          t = with_membership (si_client canonical) turnId items
      in \<lparr>lr_tail = settled t items, lr_head = [],
          lr_changedTail = (is_updated f \<or> is_updated (pl_items p) \<or> is_updated t),
          lr_changedHead = (head \<noteq> []),
          lr_acked = acked_ids (pl_matched p) (pl_message p)\<rparr>)"

text \<open>\<open>None\<close> for events that are not a user message.\<close>

definition applyCanonicalUserMessageEvent ::
  "stream \<Rightarrow> stream \<Rightarrow> agent_stream_event \<Rightarrow> int \<Rightarrow> timeline_position option \<Rightarrow> lane \<Rightarrow>
     (string + lane_result) option" where
  "applyCanonicalUserMessageEvent tail head event timestamp cursor unmatched = (case event of
      TimelineEvent (UserMessage s messageId clientMessageId) provider turnId _ \<Rightarrow>
        (let (chunk, hasContent) = normalizeChunk s in
         Some (bind_sum
           (createUserMessage (canonical_user_input (length (tail @ head)) chunk messageId clientMessageId
              turnId timestamp cursor))
           (\<lambda>canonical. Inr
             (if unmatched = HeadLane then canonical_at_head tail head canonical hasContent turnId
              else canonical_at_tail tail head canonical hasContent turnId))))
    | _ \<Rightarrow> None)"

definition flush_head :: "lane_result \<Rightarrow> lane_result" where
  "flush_head r =
     (if lr_head r = [] then r
      else let f = flushHeadToTail (lr_tail r) (lr_head r) in
        r\<lparr>lr_tail := settled f (lr_tail r), lr_head := [],
          lr_changedTail := lr_changedTail r \<or> is_updated f, lr_changedHead := True\<rparr>)"

definition resume_tail :: "timeline_item \<Rightarrow> lane_result \<Rightarrow> lane_result" where
  "resume_tail item r =
     (if resumes_tail (lr_tail r) (lr_head r) item
      then r\<lparr>lr_tail := butlast (lr_tail r), lr_head := [last (lr_tail r)], lr_changedTail := True,
             lr_changedHead := True\<rparr>
      else r)"

definition apply_to_tail ::
  "agent_stream_event \<Rightarrow> int \<Rightarrow> update_source \<Rightarrow> timeline_position option \<Rightarrow> lane_result \<Rightarrow>
     string + lane_result" where
  "apply_to_tail event timestamp source cursor r =
     (let u = reduceStreamUpdate (lr_tail r) event timestamp source [] cursor in
      bind_sum (outcome u (lr_tail r)) (\<lambda>t.
        Inr (r\<lparr>lr_tail := t, lr_changedTail := lr_changedTail r \<or> is_updated u\<rparr>)))"

definition apply_to_head ::
  "(string \<Rightarrow> (nat \<times> nat) list) \<Rightarrow> timeline_item \<Rightarrow> agent_stream_event \<Rightarrow> int \<Rightarrow> update_source \<Rightarrow>
     timeline_position option \<Rightarrow> lane_result \<Rightarrow> string + lane_result" where
  "apply_to_head parse item event timestamp source cursor r =
     (let assistant = (case item of AssistantMessage _ _ \<Rightarrow> True | _ \<Rightarrow> False);
          reserved = (if assistant \<and> getActiveAssistantHeadIndex (lr_head r) = None
            then reserved_ids (lr_tail r) else []);
          u = reduceStreamUpdate (lr_head r) event timestamp source reserved cursor
      in bind_sum (outcome u (lr_head r)) (\<lambda>h.
           let (pt, ph) = (if assistant then promoteCompletedAssistantBlocks parse (lr_tail r) h
                 else (Kept, Kept))
           in Inr (r\<lparr>lr_tail := settled pt (lr_tail r), lr_head := settled ph h,
                lr_changedTail := lr_changedTail r \<or> is_updated pt,
                lr_changedHead := lr_changedHead r \<or> is_updated u \<or> is_updated ph\<rparr>)))"

fun completes_turn :: "agent_stream_event \<Rightarrow> bool" where
  "completes_turn (TurnCompleted _ _ _) = True"
| "completes_turn (TurnFailed _ _ _ _ _) = True"
| "completes_turn (TurnCanceled _ _ _) = True"
| "completes_turn _ = False"

definition applyCompletionToTail ::
  "agent_stream_event \<Rightarrow> int \<Rightarrow> update_source \<Rightarrow> lane_result \<Rightarrow> string + lane_result" where
  "applyCompletionToTail event timestamp source r =
     (let f = finalizeActiveThoughts (lr_tail r);
          u = then_update f (\<lambda>t. reduceStreamUpdate t event timestamp source [] None) (lr_tail r)
      in bind_sum (outcome u (lr_tail r)) (\<lambda>t.
           Inr (r\<lparr>lr_tail := t, lr_changedTail := lr_changedTail r \<or> is_updated u\<rparr>)))"

definition applyStreamEvent ::
  "(string \<Rightarrow> (nat \<times> nat) list) \<Rightarrow> stream \<Rightarrow> stream \<Rightarrow> agent_stream_event \<Rightarrow> int \<Rightarrow> update_source \<Rightarrow>
     timeline_position option \<Rightarrow> lane \<Rightarrow> string + lane_result" where
  "applyStreamEvent parse tail head event timestamp source cursor unmatched =
     (case applyCanonicalUserMessageEvent tail head event timestamp cursor unmatched of
        Some result \<Rightarrow> result
      | None \<Rightarrow>
          let start = unchanged_lanes tail head in
          if completes_turn event then applyCompletionToTail event timestamp source (flush_head start)
          else case event of
            TimelineEvent item _ _ _ \<Rightarrow>
              (let flushed = (if shouldFlushHead head item then flush_head start else start);
                   r = resume_tail item flushed
               in if getEventItemKind item \<noteq> None
                  then apply_to_head parse item event timestamp source cursor r
                  else apply_to_tail event timestamp source cursor r)
          | _ \<Rightarrow> apply_to_tail event timestamp source cursor start)"

end
