(* ===== verification/Stream_Text.thy ===== *)
theory Stream_Text
  imports Stream_Lanes
begin

text \<open>
  What the text of a streamed message goes through: splitting it into Markdown blocks and promoting the
  completed blocks keeps every line that is not blank, and a chunk whose last line is white space is joined
  to the line before it.
\<close>

section \<open>Lines that are not blank\<close>

definition visible :: "string list \<Rightarrow> string list" where
  "visible lines = filter (\<lambda>l. \<not> blank l) lines"

definition visible_lines :: "string \<Rightarrow> string list" where
  "visible_lines s = visible (split_on newline s)"

lemma visible_simps [simp]:
  "visible [] = []" "visible (xs @ ys) = visible xs @ visible ys"
  "blank l \<Longrightarrow> visible (l # ls) = visible ls" "\<not> blank l \<Longrightarrow> visible (l # ls) = l # visible ls"
  by (simp_all add: visible_def)

lemma blank_Nil [simp]: "blank []"
  by (simp add: blank_def)

lemma split_on_lines: "l \<in> set (split_on c s) \<Longrightarrow> c \<notin> set l"
  by (induction s arbitrary: l) (auto split: if_splits list.splits)

lemma split_on_not_Nil [simp]: "split_on c s \<noteq> []"
  by (induction s) (auto split: list.splits)

lemma split_fold:
  "fold (split_step structural) ls (blocks, current, sep) = (blocks', current', sep') \<Longrightarrow>
     visible (concat blocks' @ current') = visible (concat blocks @ current) @ visible (map snd ls)"
proof (induction ls arbitrary: blocks current sep)
  case (Cons a ls)
  obtain i line where a: "a = (i, line)" by (cases a)
  obtain b c p where step: "split_step structural a (blocks, current, sep) = (b, c, p)"
    by (metis prod_cases3)
  have "visible (concat b @ c) = visible (concat blocks @ current) @ visible [line]"
    using step by (cases "blank line") (auto simp: a split: if_splits)
  with Cons.IH [of b c p] Cons.prems show ?case
    by (cases "blank line") (simp_all add: step [unfolded a] a del: split_step.simps)
qed simp

lemma split_fold_lines:
  "fold (split_step structural) ls (blocks, current, sep) = (blocks', current', sep') \<Longrightarrow>
     (\<forall>b\<in>set blocks. b \<noteq> [] \<and> set b \<subseteq> L) \<Longrightarrow> (sep \<longrightarrow> current \<noteq> []) \<Longrightarrow> set current \<subseteq> L \<Longrightarrow>
     snd ` set ls \<subseteq> L \<Longrightarrow>
     (\<forall>b\<in>set blocks'. b \<noteq> [] \<and> set b \<subseteq> L) \<and> set current' \<subseteq> L"
proof (induction ls arbitrary: blocks current sep)
  case (Cons a ls)
  obtain i line where a: "a = (i, line)" by (cases a)
  obtain b c p where step: "split_step structural a (blocks, current, sep) = (b, c, p)"
    by (metis prod_cases3)
  have "line \<in> L" "snd ` set ls \<subseteq> L" using Cons.prems(5) by (auto simp: a)
  then have "\<forall>k\<in>set b. k \<noteq> [] \<and> set k \<subseteq> L" "p \<longrightarrow> c \<noteq> []" "set c \<subseteq> L"
    using step Cons.prems(2-4) by (auto simp: a subset_iff split: if_splits)
  with Cons.IH [of b c p] Cons.prems show ?case by (simp add: step [unfolded a] a del: split_step.simps)
qed simp

lemma split_lines_facts:
  "visible (concat (split_lines structural lines)) = visible lines"
  "b \<in> set (split_lines structural lines) \<Longrightarrow> b \<noteq> [] \<and> set b \<subseteq> set lines"
proof -
  obtain blocks current sep where
    f: "fold (split_step structural) (enumerate 0 lines) ([], [], False) = (blocks, current, sep)"
    by (metis prod_cases3)
  have eq: "split_lines structural lines = (if current = [] then blocks else blocks @ [current])"
    by (simp add: split_lines_def f)
  show "visible (concat (split_lines structural lines)) = visible lines"
    using split_fold [OF f] by (cases "current = []") (simp_all add: eq)
  have "snd ` set (enumerate 0 lines) \<subseteq> set lines"
    by (metis map_snd_enumerate list.set_map subset_refl)
  with split_fold_lines [OF f, of "set lines"]
  show "b \<in> set (split_lines structural lines) \<Longrightarrow> b \<noteq> [] \<and> set b \<subseteq> set lines"
    by (auto simp: eq split: if_splits)
qed

lemma visible_lines_join:
  "ls \<noteq> [] \<Longrightarrow> \<forall>l\<in>set ls. newline \<notin> set l \<Longrightarrow> visible_lines (join_with newline ls) = visible ls"
  by (simp add: visible_lines_def split_join)

lemma visible_lines_Nil [simp]: "visible_lines [] = []"
  by (simp add: visible_lines_def)

lemma blocks_keep_lines: "concat (map visible_lines (splitMarkdownBlocks parse s)) = visible_lines s"
proof (cases "s = []")
  case True
  then show ?thesis by (simp add: splitMarkdownBlocks_def)
next
  case False
  let ?S = "split_lines (getStructuralBlankLines parse s) (split_on newline s)"
  have join: "visible_lines (join_with newline b) = visible b" if "b \<in> set ?S" for b
    using split_lines_facts(2) [OF that] split_on_lines [of _ newline s]
    by (intro visible_lines_join) blast+
  have drop: "concat (map visible_lines (filter (\<lambda>b. b \<noteq> []) bs)) = concat (map visible_lines bs)" for bs
    by (induction bs) auto
  have "concat (map visible_lines (splitMarkdownBlocks parse s)) =
      concat (map (\<lambda>b. visible_lines (join_with newline b)) ?S)"
    using False by (simp add: splitMarkdownBlocks_def drop comp_def)
  also have "\<dots> = concat (map visible ?S)" using join by (simp cong: map_cong)
  also have "\<dots> = visible (concat ?S)" by (simp add: visible_def [abs_def] filter_concat)
  finally show ?thesis by (simp add: split_lines_facts(1) visible_lines_def)
qed

section \<open>Promoting blocks\<close>

lemma split_on_snoc: "split_on c (s @ [c]) = split_on c s @ [[]]"
  by (induction s) (auto split: list.splits)

lemma visible_lines_newlines: "visible_lines (s @ replicate n newline) = visible_lines s"
proof (induction n arbitrary: s)
  case (Suc n)
  have "s @ replicate (Suc n) newline = (s @ [newline]) @ replicate n newline" by simp
  then show ?case using Suc [of "s @ [newline]"] by (simp only:) (simp add: visible_lines_def split_on_snoc)
qed simp

lemma trailing_newlines: "\<exists>n. getTrailingNewlineSuffix s = replicate n newline"
proof -
  have "set (getTrailingNewlineSuffix s) \<subseteq> {newline}"
    by (auto simp: getTrailingNewlineSuffix_def dest: set_takeWhileD)
  then show ?thesis using replicate_eqI [of "getTrailingNewlineSuffix s" _ newline] by blast
qed

lemma block_row_simps [simp]:
  "si_text (block_row r m g n b) = b" "si_id (block_row r m g n b) = createAssistantBlockId g n"
  "si_assistant (block_row r m g n b)"
  by (simp_all add: block_row_def)

lemma promoted_texts:
  "map (visible_lines \<circ> si_text) (map (\<lambda>(n, b). block_row r m g n b) (enumerate k bs)) = map visible_lines bs"
  by (induction bs arbitrary: k) simp_all

lemma block_id_inject: "createAssistantBlockId g a = createAssistantBlockId g b \<longleftrightarrow> a = b"
proof
  assume "createAssistantBlockId g a = createAssistantBlockId g b"
  then have "show_nat a = show_nat b" by (simp add: createAssistantBlockId_def)
  from arg_cong [OF this, of digits_value] show "a = b" by simp
qed simp

lemma block_row_ready [simp]: "markThoughtReady (block_row r m g n b) = block_row r m g n b"
  by (simp add: markThoughtReady_def block_row_def)

lemma promoted_ids:
  "map si_id (map (\<lambda>(n, b). block_row r m g n b) (enumerate k bs)) =
     map (createAssistantBlockId g) [k..<k + length bs]"
proof (induction bs arbitrary: k)
  case (Cons b bs)
  have "[k..<k + length (b # bs)] = k # [Suc k..<Suc k + length bs]" by (simp add: upt_conv_Cons del: upt_Suc)
  then show ?case using Cons [of "Suc k"] by (simp del: upt_Suc)
qed simp

lemma promoted_ready:
  "finalizeHeadItems (map (\<lambda>(n, b). block_row r m g n b) (enumerate k bs)) =
     map (\<lambda>(n, b). block_row r m g n b) (enumerate k bs)"
  by (auto simp: finalizeHeadItems_def)

text \<open>No row of a lane has the id of a block of the group from an index on.\<close>

definition blocks_unused :: "string \<Rightarrow> nat \<Rightarrow> stream \<Rightarrow> bool" where
  "blocks_unused g k tail \<longleftrightarrow> (\<forall>r\<in>set tail. \<forall>n\<ge>k. si_id r \<noteq> createAssistantBlockId g n)"

lemma flush_unused:
  assumes "blocks_unused g k tail" and "map si_id rows = map (createAssistantBlockId g) [k..<k + length rows]"
    and "finalizeHeadItems rows = rows" and "rows \<noteq> []"
  shows "flushHeadToTail tail rows = Updated (tail @ rows)"
    and "blocks_unused g (k + length rows) (tail @ rows)"
proof -
  have ids: "si_id ` set rows = createAssistantBlockId g ` {k..<k + length rows}"
    using arg_cong [OF assms(2), of set] by simp
  have id: "\<exists>n. k \<le> n \<and> n < k + length rows \<and> si_id r = createAssistantBlockId g n" if "r \<in> set rows" for r
  proof -
    from that have "si_id r \<in> createAssistantBlockId g ` {k..<k + length rows}" unfolding ids [symmetric] by (rule imageI)
    then show ?thesis by (rule imageE) auto
  qed
  have "si_id r \<notin> si_id ` set tail" if "r \<in> set rows" for r
  proof -
    from id [OF that] obtain n where "n \<ge> k" "si_id r = createAssistantBlockId g n" by blast
    then have "si_id r \<noteq> si_id q" if "q \<in> set tail" for q
      using assms(1) that \<open>n \<ge> k\<close> \<open>si_id r = _\<close> by (auto simp: blocks_unused_def dest!: bspec [of _ _ q])
    then show ?thesis by blast
  qed
  then have "unseen tail rows = rows" by (simp add: unseen_def)
  with assms(3,4) show "flushHeadToTail tail rows = Updated (tail @ rows)" by (simp add: flushHeadToTail_def)
  have "si_id r \<noteq> createAssistantBlockId g n" if "r \<in> set rows" "n \<ge> k + length rows" for r n
  proof -
    from id [OF that(1)] obtain m where "m < k + length rows" "si_id r = createAssistantBlockId g m" by blast
    with that(2) show ?thesis by (simp add: block_id_inject)
  qed
  with assms(1) show "blocks_unused g (k + length rows) (tail @ rows)" by (auto simp: blocks_unused_def)
qed

text \<open>
  C20: completed Markdown blocks of the live message are promoted into the tail without loss.  Let the
  message have the block group \<open>grp\<close> (the row's id when it has none yet) and the next block index
  \<open>first\<close> (0 at the start), and let no row of the tail have the id of a block of the group from there
  on.  Then every promoted row is appended to the tail, under consecutive block ids; the tail keeps its rows;
  of the head only the live row changes, which keeps its message id and takes the next index; and the
  promoted rows and the live row show exactly the lines of the message that are not blank, in order.  The condition holds
  again afterwards, for the next promotion.
\<close>

theorem promotion_keeps_lines:
  assumes "promoteCompletedAssistantBlocks parse tail head = (pt, Updated head')"
    and "getActiveAssistantHeadIndex head = Some i" and "assistant_parts (si_body (head ! i)) = Some (m, s, g, k)"
    and "grp = default (si_id (head ! i)) g" and "first = default 0 k" and "blocks_unused grp first tail"
  shows "\<exists>promoted live t. pt = Updated (tail @ promoted) \<and> promoted \<noteq> [] \<and> head' = head[i := live] \<and>
     map si_id promoted = map (createAssistantBlockId grp) [first..<first + length promoted] \<and>
     assistant_parts (si_body live) = Some (m, t, Some grp, Some (first + length promoted)) \<and>
     concat (map (visible_lines \<circ> si_text) (promoted @ [live])) = visible_lines s \<and>
     blocks_unused grp (first + length promoted) (tail @ promoted)"
proof -
  let ?bs = "splitMarkdownBlocks parse s"
  define promoted where "promoted = map (\<lambda>(n, block). block_row (head ! i) m grp n block) (enumerate first (butlast ?bs))"
  define live where "live = block_row (head ! i) m grp (first + length (butlast ?bs)) (last ?bs @ getTrailingNewlineSuffix s)"
  have two: "\<not> length ?bs < 2"
    using assms(1-3) by (auto simp: promoteCompletedAssistantBlocks_def Let_def split: if_splits)
  have r: "pt = flushHeadToTail tail promoted" "head' = head[i := live]"
    using assms two by (simp_all add: promoteCompletedAssistantBlocks_def Let_def promoted_def live_def)
  have len: "length promoted = length (butlast ?bs)" by (simp add: promoted_def)
  with two have ne: "promoted \<noteq> []" by (cases promoted) auto
  have ids: "map si_id promoted = map (createAssistantBlockId grp) [first..<first + length promoted]"
    unfolding len unfolding promoted_def by (rule promoted_ids)
  have "finalizeHeadItems promoted = promoted" unfolding promoted_def by (rule promoted_ready)
  note f = flush_unused [OF assms(6) ids this ne]
  have parts: "assistant_parts (si_body live) =
      Some (m, last ?bs @ getTrailingNewlineSuffix s, Some grp, Some (first + length promoted))"
    by (simp add: live_def block_row_def len)
  obtain n where n: "getTrailingNewlineSuffix s = replicate n newline" using trailing_newlines by blast
  have "concat (map (visible_lines \<circ> si_text) (promoted @ [live])) =
      concat (map visible_lines (butlast ?bs)) @ visible_lines (last ?bs)"
    unfolding promoted_def live_def
    by (simp only: map_append concat_append promoted_texts) (simp add: n visible_lines_newlines)
  also have "\<dots> = concat (map visible_lines (butlast ?bs @ [last ?bs]))" by simp
  also have "\<dots> = visible_lines s" using two by (subst append_butlast_last_id) (auto simp: blocks_keep_lines)
  finally show ?thesis using r f ids ne parts by blast
qed

definition two_paragraphs :: stream where
  "two_paragraphs = [\<lparr>si_id = ''a'', si_cursor = None, si_turnId = None, si_timestamp = 0,
     si_body = AssistantRow None (''x'' @ [newline, newline] @ ''y'') None None\<rparr>]"

theorem promotion_keeps_lines_witness:
  "\<exists>promoted live.
     promoteCompletedAssistantBlocks (\<lambda>_. [(0, 1), (2, 3)]) [] two_paragraphs = (Updated promoted, Updated [live]) \<and>
     concat (map (visible_lines \<circ> si_text) (promoted @ [live])) = [''x'', ''y'']"
proof -
  let ?p = "promoteCompletedAssistantBlocks (\<lambda>_. [(0, 1), (2, 3)]) [] two_paragraphs"
  have "is_updated (snd ?p)" by code_simp
  then obtain head' where p: "?p = (fst ?p, Updated head')"
    by (cases ?p; cases "snd ?p") simp_all
  have i: "getActiveAssistantHeadIndex two_paragraphs = Some 0" by code_simp
  let ?s = "''x'' @ [newline, newline] @ ''y''"
  have parts: "assistant_parts (si_body (two_paragraphs ! 0)) = Some (None, ?s, None, None)" by (simp_all add: two_paragraphs_def)
  have lines: "visible_lines ?s = [''x'', ''y'']" by code_simp
  have unused: "blocks_unused (default (si_id (two_paragraphs ! 0)) None) (default 0 None) []"
    by (simp add: blocks_unused_def)
  from promotion_keeps_lines [OF p i parts refl refl unused]
  obtain promoted live where "fst ?p = Updated promoted" "head' = two_paragraphs[0 := live]"
    "concat (map (visible_lines \<circ> si_text) (promoted @ [live])) = [''x'', ''y'']"
    unfolding lines by auto
  moreover have "two_paragraphs[0 := live] = [live]" by (simp add: two_paragraphs_def)
  ultimately show ?thesis using p by (metis (no_types, lifting))
qed

section \<open>A chunk that ends in indentation\<close>

definition assistant_chunk :: "string \<Rightarrow> agent_stream_event" where
  "assistant_chunk s = TimelineEvent (AssistantMessage s None) ''claude'' None None"

definition stream_chunk_step :: "(string \<Rightarrow> (nat \<times> nat) list) \<Rightarrow> string \<Rightarrow> lanes \<Rightarrow> string + lanes" where
  "stream_chunk_step parse s lanes = bind_sum
     (applyStreamEvent parse (fst lanes) (snd lanes) (assistant_chunk s) 0 Live None TailLane)
     (\<lambda>r. Inr (lr_tail r, lr_head r))"

definition stream_chunks :: "(string \<Rightarrow> (nat \<times> nat) list) \<Rightarrow> string list \<Rightarrow> string + lanes" where
  "stream_chunks parse chunks = fold_sum (stream_chunk_step parse) chunks ([], [])"

text \<open>Two paragraphs, a chunk that ends within the indentation of the next line, and the rest of that line.\<close>

definition indented_chunk :: string where
  "indented_chunk = ''a'' @ [newline, newline] @ ''b'' @ [newline] @ ''  ''"

definition paragraph_ranges :: "string \<Rightarrow> (nat \<times> nat) list" where
  "paragraph_ranges s = (if s = indented_chunk then [(0, 1), (2, 3)] else [(0, 1)])"

definition shown_lines :: "string + lanes \<Rightarrow> string list" where
  "shown_lines r = (case r of Inl _ \<Rightarrow> []
     | Inr (tail, head) \<Rightarrow> concat (map (visible_lines \<circ> si_text) (tail @ head)))"

text \<open>
  A chunk that ends within the indentation of a line, after a completed block, loses the line break:
  \<open>splitMarkdownBlocks\<close> leaves out the line of white space, \<open>getTrailingNewlineSuffix\<close> finds no newline at the
  end, and the next chunk is joined to the line before.
\<close>

lemma indented_chunk_joins_lines:
  "shown_lines (stream_chunks paragraph_ranges [indented_chunk, ''c'']) = [''a'', ''bc''] \<and>
   visible_lines (indented_chunk @ ''c'') = [''a'', ''b'', ''  c'']"
  by code_simp

end
