(* ===== verification/Stream_Rows.thy ===== *)
theory Stream_Rows
  imports Stream_Lanes
begin

text \<open>
  Facts about the rows of a client stream: which events a reducer accepts without an exception, what a
  sequence of updates makes of a tool call, what the end of a turn leaves behind, and the two places where
  the identity of a row is lost.
\<close>

section \<open>Reducers that return\<close>

fun item_named :: "timeline_item \<Rightarrow> bool" where
  "item_named (UserMessage _ m _) \<longleftrightarrow> m \<noteq> Some []"
| "item_named _ \<longleftrightarrow> True"

fun event_named :: "agent_stream_event \<Rightarrow> bool" where
  "event_named (TimelineEvent item _ _ _) \<longleftrightarrow> item_named item"
| "event_named _ \<longleftrightarrow> True"

definition raises :: "'a update \<Rightarrow> bool" where
  "raises u \<longleftrightarrow> (case u of Raised _ \<Rightarrow> True | _ \<Rightarrow> False)"

lemma raises_simps [simp]: "\<not> raises Kept" "\<not> raises (Updated s)" "raises (Raised e)"
  by (simp_all add: raises_def)

lemma raises_iff: "raises u \<longleftrightarrow> (\<exists>e. u = Raised e)"
  by (cases u) simp_all

lemma raises_then: "\<not> raises u \<Longrightarrow> (\<And>t. \<not> raises (f t)) \<Longrightarrow> \<not> raises (then_update u f s)"
  unfolding raises_iff by (simp add: then_update_def split: update.split)

lemma outcome_returns: "\<not> raises u \<Longrightarrow> outcome u s = Inr (settled u s)"
  by (cases u) simp_all

lemma finalize_returns [simp]: "\<not> raises (finalizeActiveThoughts s)"
  by (simp add: finalizeActiveThoughts_def)

lemma finalized_returns: "\<not> raises u \<Longrightarrow> \<not> raises (finalized u s)"
  by (simp add: finalized_def raises_then)

lemma unique_id_not_Nil [simp]: "createUniqueTimelineId n k s t \<noteq> []"
  by (simp add: createUniqueTimelineId_def)

lemma named_truthy:
  "m \<noteq> Some [] \<Longrightarrow> d \<noteq> [] \<Longrightarrow> truthy (or_else (or_else m (Some d)) x) = Some (default d m)"
  by (cases m) (auto simp: truthy_def split: list.splits)

lemma createUserMessage_returns:
  "m \<noteq> Some [] \<Longrightarrow> d \<noteq> [] \<Longrightarrow> ui_id i = or_else m (Some d) \<Longrightarrow> \<exists>r. createUserMessage i = Inr r \<and>
     si_client r = truthy (ui_client i) \<and> si_user r \<and> si_id r = default d m \<and> si_cursor r = ui_cursor i"
  by (simp add: createUserMessage_def named_truthy)

lemma produce_returns [simp]: "\<not> raises (up_items (produceUserMessage items r i p q))"
  by (auto simp: produceUserMessage_def Let_def split: option.splits)

lemma appendUserMessage_returns:
  "m \<noteq> Some [] \<Longrightarrow> \<not> raises (appendUserMessage state s t m c cursor turn)"
  by (auto simp: appendUserMessage_def upsertUserMessage_def Let_def createUserMessage_def named_truthy
      split: prod.split sum.split)

lemma appendAssistantMessage_returns [simp]: "\<not> raises (appendAssistantMessage st s t src m res cur)"
  by (auto simp: appendAssistantMessage_def Let_def split: prod.split)

lemma appendThought_returns [simp]: "\<not> raises (appendThought st s t cur)"
  by (auto simp: appendThought_def Let_def split: prod.split)

lemma appendAgentToolCall_returns [simp]: "\<not> raises (appendAgentToolCall st d t turn cur)"
  by (auto simp: appendAgentToolCall_def split: option.splits)

lemma appendTodoList_returns [simp]: "\<not> raises (appendTodoList st p its t cur)"
  by (simp add: appendTodoList_def Let_def split: option.split)

lemma reduceTimelineToolCall_returns [simp]: "\<not> raises (reduceTimelineToolCall st p turn item t cur)"
  by (auto simp: reduceTimelineToolCall_def Let_def split: option.splits)

lemma other_rows_return [simp]:
  "\<not> raises (reduceTimelineCompaction st x trig pre t cur)" "\<not> raises (appendNotification st entry)"
  "\<not> raises (appendPluginTimelineItem st p t cur)"
  by (auto simp: reduceTimelineCompaction_def appendNotification_def appendPluginTimelineItem_def Let_def
      split: option.splits)

lemma reduceTimelineItem_returns:
  "item_named item \<Longrightarrow> \<not> raises (reduceTimelineItem st item p turn t src res cur)"
  by (cases item) (auto intro!: finalized_returns appendUserMessage_returns)

lemma turn_id_returns [simp]: "\<not> raises (applyTimelineTurnId item turn items)"
  by (auto simp: applyTimelineTurnId_def reconcileCanonicalUserTurnMembership_def split: option.splits)

lemma reduceStreamUpdate_returns:
  "event_named event \<Longrightarrow> \<not> raises (reduceStreamUpdate st event t src res cur)"
  by (cases event)
     (simp_all add: reduceStreamUpdate_def raises_then reduceTimelineItem_returns)

lemma reduce_outcome:
  "event_named event \<Longrightarrow> \<exists>s. outcome (reduceStreamUpdate st event t src res cur) st0 = Inr s"
  using outcome_returns [OF reduceStreamUpdate_returns] by blast

lemma canonical_input_returns:
  "m \<noteq> Some [] \<Longrightarrow> \<exists>r. createUserMessage (canonical_user_input n chunk m c turn t cur) = Inr r"
  using createUserMessage_returns [of m "createUniqueTimelineId n ''user'' (trim chunk) t"
      "canonical_user_input n chunk m c turn t cur"]
  by (auto simp: canonical_user_input_def)

lemma canonical_user_returns:
  assumes "event_named event" "applyCanonicalUserMessageEvent tail head event t cur w = Some result"
  shows "\<exists>r. result = Inr r"
proof -
  from assms(2) obtain s m c p turn ts where e: "event = TimelineEvent (UserMessage s m c) p turn ts"
    by (auto simp: applyCanonicalUserMessageEvent_def split: agent_stream_event.splits timeline_item.splits)
  with assms(1) have "m \<noteq> Some []" by simp
  from canonical_input_returns [OF this, of "length (tail @ head)" "fst (normalizeChunk s)" c turn t cur]
  obtain r where "createUserMessage (canonical_user_input (length (tail @ head)) (fst (normalizeChunk s)) m c
    turn t cur) = Inr r" by blast
  with assms(2) show ?thesis
    by (auto simp: applyCanonicalUserMessageEvent_def e Let_def case_prod_unfold)
qed

lemma apply_to_tail_returns: "event_named event \<Longrightarrow> \<exists>x. apply_to_tail event t src cur r = Inr x"
  by (simp add: apply_to_tail_def Let_def outcome_returns reduceStreamUpdate_returns)

lemma apply_to_head_returns: "event_named event \<Longrightarrow> \<exists>x. apply_to_head parse item event t src cur r = Inr x"
  by (simp add: apply_to_head_def Let_def outcome_returns reduceStreamUpdate_returns case_prod_unfold)

lemma completion_returns: "event_named event \<Longrightarrow> \<exists>x. applyCompletionToTail event t src r = Inr x"
  by (simp add: applyCompletionToTail_def Let_def outcome_returns raises_then reduceStreamUpdate_returns)

lemma applyStreamEvent_returns:
  assumes "event_named event"
  shows "\<exists>r. applyStreamEvent parse tail head event t src cur w = Inr r"
proof (cases "applyCanonicalUserMessageEvent tail head event t cur w")
  case None
  then show ?thesis
    using assms apply_to_tail_returns apply_to_head_returns completion_returns
    by (cases event) (auto simp: applyStreamEvent_def Let_def)
next
  case (Some result)
  with canonical_user_returns [OF assms Some] show ?thesis by (auto simp: applyStreamEvent_def)
qed

section \<open>The status of a tool call\<close>

text \<open>A failure wins; otherwise the first status that is not running stays.\<close>

fun settled_status :: "tool_call_status list \<Rightarrow> tool_call_status" where
  "settled_status [] = Running"
| "settled_status (st # sts) = (if Failed \<in> set (st # sts) then Failed
     else if st = Running then settled_status sts else st)"

lemma status_fold:
  "fold (\<lambda>d s. mergeAgentToolCallStatus s d) sts s = settled_status (s # sts)"
proof (induction sts arbitrary: s)
  case (Cons d sts)
  show ?case
    unfolding fold_simps comp_apply Cons
    by (cases s; cases d) (auto simp: mergeAgentToolCallStatus.simps)
qed (cases s; simp)

lemma settled_status_snoc:
  "sts \<noteq> [] \<Longrightarrow> settled_status (sts @ [d]) = mergeAgentToolCallStatus (settled_status sts) d"
proof (cases sts)
  case (Cons s rest)
  have "settled_status (s # rest @ [d]) = mergeAgentToolCallStatus (settled_status (s # rest)) d"
    unfolding status_fold [symmetric] by simp
  with Cons show ?thesis by simp
qed simp

text \<open>The updates of one call: its data, the time and the cursor of every event.\<close>

type_synonym call_update = "agent_tool_data \<times> int \<times> timeline_position option"

definition update_call :: "string option \<Rightarrow> call_update \<Rightarrow> stream \<Rightarrow> stream" where
  "update_call turn u state = (case u of (d, t, cur) \<Rightarrow> settled (appendAgentToolCall state d t turn cur) state)"

lemma find_index_append_new:
  "\<forall>y\<in>set xs. \<not> P y \<Longrightarrow> P x \<Longrightarrow> find_index P (xs @ [x]) = Some (length xs)"
  by (induction xs) auto

lemma agentToolCallIdentity_truthy [simp]:
  "agentToolCallIdentity c (truthy turn) = agentToolCallIdentity c turn"
  by (cases turn) (auto simp: agentToolCallIdentity_def truthy_def split: list.splits)

definition call_row :: "string \<Rightarrow> tool_call_status \<Rightarrow> stream_item \<Rightarrow> bool" where
  "call_row identity st r \<longleftrightarrow> streamTimelineItemIdentity r = Some identity \<and>
     si_id r = ''agent_tool_'' @ identity \<and>
     (\<exists>d. si_body r = ToolRow (AgentCall d) \<and> ad_status d = st)"

lemma new_call_row_call:
  "call_row (agentToolCallIdentity (ad_callId d) turn) (ad_status d) (new_call_row d t turn cur)"
  by (simp add: call_row_def new_call_row_def streamTimelineItemIdentity_def)

lemma merged_call_row:
  assumes "call_row identity st r" "si_body r = ToolRow (AgentCall old)"
    "ad_callId d = ad_callId old"
  shows "call_row identity (mergeAgentToolCallStatus st (ad_status d)) (mergeAgentToolCallItem r old d t cur)"
  using assms
  by (auto simp: call_row_def mergeAgentToolCallItem_def streamTimelineItemIdentity_def with_cursor_def
      merge_call_data_def Let_def)

lemma update_call_row:
  assumes "\<forall>r\<in>set state. streamTimelineItemIdentity r \<noteq> Some (agentToolCallIdentity c turn)"
    and "call_row (agentToolCallIdentity c turn) st r" "ad_callId d = c"
    and "si_body r = ToolRow (AgentCall old)" "ad_callId old = c"
  shows "\<exists>r' old'. update_call turn (d, t, cur) (state @ [r]) = state @ [r'] \<and>
    call_row (agentToolCallIdentity c turn) (mergeAgentToolCallStatus st (ad_status d)) r' \<and>
    si_body r' = ToolRow (AgentCall old') \<and> ad_callId old' = c"
proof -
  let ?m = "mergeAgentToolCallItem r old d t cur"
  have find: "findExistingTimelineIdentityIndex (state @ [r]) (agentToolCallIdentity c turn) =
      Some (length state)"
    using assms(1,2)
    by (auto simp: findExistingTimelineIdentityIndex_def call_row_def intro!: find_index_append_new)
  show ?thesis
  proof (cases "same_call old d cur")
    case True
    then have "mergeAgentToolCallStatus st (ad_status d) = st"
      using assms(2,4) by (auto simp: same_call_def call_row_def)
    with True assms find show ?thesis by (auto simp: update_call_def appendAgentToolCall_def)
  next
    case False
    have "si_body ?m = ToolRow (AgentCall (merge_call_data old d))"
      by (simp add: mergeAgentToolCallItem_def)
    moreover have "ad_callId (merge_call_data old d) = c"
      using assms(3) by (simp add: merge_call_data_def Let_def)
    ultimately show ?thesis
      using False assms find merged_call_row [of "agentToolCallIdentity c turn" st r old d t cur]
      by (auto simp: update_call_def appendAgentToolCall_def)
  qed
qed

lemma updates_call_row:
  assumes "\<forall>r\<in>set state. streamTimelineItemIdentity r \<noteq> Some (agentToolCallIdentity c turn)"
    and "us \<noteq> []" "\<forall>u\<in>set us. ad_callId (fst u) = c"
  shows "\<exists>r d. fold (update_call turn) us state = state @ [r] \<and>
    call_row (agentToolCallIdentity c turn) (settled_status (map (\<lambda>u. ad_status (fst u)) us)) r \<and>
    si_body r = ToolRow (AgentCall d) \<and> ad_callId d = c"
  using assms(2,3)
proof (induction us rule: rev_induct)
  case (snoc u us)
  obtain d t cur where u: "u = (d, t, cur)" by (cases u)
  show ?case
  proof (cases "us = []")
    case True
    have "findExistingTimelineIdentityIndex state (agentToolCallIdentity c turn) = None"
      using assms(1) by (simp add: findExistingTimelineIdentityIndex_def find_index_None)
    then have "update_call turn u state = state @ [new_call_row d t turn cur]"
      using snoc.prems by (simp add: u update_call_def appendAgentToolCall_def)
    with True snoc.prems new_call_row_call [of d turn t cur] show ?thesis
      by (auto simp: u new_call_row_def call_row_def)
  next
    case False
    have "\<forall>u\<in>set us. ad_callId (fst u) = c" using snoc.prems by simp
    from snoc.IH [OF False this] obtain r old where r: "fold (update_call turn) us state = state @ [r]"
      "call_row (agentToolCallIdentity c turn) (settled_status (map (\<lambda>u. ad_status (fst u)) us)) r"
      "si_body r = ToolRow (AgentCall old)" "ad_callId old = c" by blast
    have "ad_callId d = c" using snoc.prems u by simp
    from update_call_row [OF assms(1) r(2) this r(3,4), of t cur] False r(1) show ?thesis
      by (simp add: u settled_status_snoc)
  qed
qed simp

text \<open>
  C21: the updates of a tool call of one turn make one row, whatever their number: the row carries the
  identity of the call and its status is \<open>failed\<close> when any update failed and otherwise the first one that
  is not \<open>running\<close>, so a status never goes back; the other rows are untouched.
\<close>

theorem tool_call_settles_in_one_row:
  assumes "\<forall>r\<in>set state. streamTimelineItemIdentity r \<noteq> Some (agentToolCallIdentity c turn)"
    and "us \<noteq> []" and "\<forall>u\<in>set us. ad_callId (fst u) = c"
  shows "\<exists>r. fold (update_call turn) us state = state @ [r] \<and>
    call_row (agentToolCallIdentity c turn) (settled_status (map (\<lambda>u. ad_status (fst u)) us)) r"
  using updates_call_row [OF assms] by blast

definition shell_call :: "string \<Rightarrow> tool_call_status \<Rightarrow> agent_tool_data" where
  "shell_call c st = \<lparr>ad_provider = ''codex'', ad_callId = c, ad_name = ''shell'', ad_status = st, ad_error = None,
     ad_detail = DShell ''ls'' None None None, ad_metadata = None\<rparr>"

theorem tool_call_settles_in_one_row_witness:
  "\<exists>r. fold (update_call None) [(shell_call ''b'' Running, 0, None), (shell_call ''b'' Completed, 0, None),
       (shell_call ''b'' Running, 0, None)] [new_call_row (shell_call ''a'' Running) 0 None None] =
     [new_call_row (shell_call ''a'' Running) 0 None None, r] \<and>
   call_row (agentToolCallIdentity ''b'' None) Completed r"
proof -
  let ?us = "[(shell_call ''b'' Running, 0, None), (shell_call ''b'' Completed, 0, None),
    (shell_call ''b'' Running, 0, None)] :: (agent_tool_data \<times> int \<times> timeline_position option) list"
  have fresh: "\<forall>r\<in>set [new_call_row (shell_call ''a'' Running) 0 None None].
      streamTimelineItemIdentity r \<noteq> Some (agentToolCallIdentity ''b'' None)" by code_simp
  have st: "settled_status (map (\<lambda>u. ad_status (fst u)) ?us) = Completed" by code_simp
  have "\<forall>u\<in>set ?us. ad_callId (fst u) = ''b''" by (simp add: shell_call_def)
  from tool_call_settles_in_one_row [OF fresh _ this] show ?thesis unfolding st by simp
qed

section \<open>The end of a turn\<close>

lemma body_ready_idle: "\<not> body_loading b \<Longrightarrow> body_ready b = b"
  by (cases b) auto

lemma mark_ready_idle: "\<not> body_loading (si_body r) \<Longrightarrow> markThoughtReady r = r"
  by (simp add: markThoughtReady_def body_ready_idle)

lemma body_ready_not_loading [simp]: "\<not> body_loading (body_ready b)"
  by (cases b) auto

lemma ready_not_loading [simp]: "\<not> body_loading (si_body (markThoughtReady r))"
  by (simp add: markThoughtReady_def)

lemma mark_ready_twice [simp]: "markThoughtReady (markThoughtReady r) = markThoughtReady r"
  by (simp add: mark_ready_idle)

lemma mark_ready_id [simp]: "si_id (markThoughtReady r) = si_id r"
  by (simp add: markThoughtReady_def)

lemma settled_finalize: "settled (finalizeActiveThoughts s) s = map markThoughtReady s"
  by (auto simp: finalizeActiveThoughts_def mark_ready_idle intro!: nth_equalityI)

lemma unseen_ready: "unseen tail (map markThoughtReady items) = map markThoughtReady (unseen tail items)"
  by (induction items) (simp_all add: unseen_def)

lemma unseen_Nil: "unseen tail [] = []"
  by (simp add: unseen_def)

lemma settled_flush: "settled (flushHeadToTail tail head) tail = tail @ map markThoughtReady (unseen tail head)"
  by (cases "head = []") (simp_all add: flushHeadToTail_def finalizeHeadItems_def unseen_ready Let_def unseen_Nil)

lemma settled_then:
  "\<not> raises u \<Longrightarrow> \<not> raises (f (settled u s)) \<Longrightarrow>
     settled (then_update u f s) s = settled (f (settled u s)) (settled u s)"
  by (cases u) (auto simp: then_update_def raises_iff split: update.split)

lemma flush_head_lanes:
  "lr_tail (flush_head r) = lr_tail r @ map markThoughtReady (unseen (lr_tail r) (lr_head r))"
  "lr_head (flush_head r) = []" "lr_acked (flush_head r) = lr_acked r"
  by (simp_all add: flush_head_def Let_def settled_flush unseen_Nil)

lemma completion_reduces:
  "completes_turn event \<Longrightarrow> reduceStreamUpdate s event t src res cur = finalizeActiveThoughts s"
  by (cases event) (simp_all add: reduceStreamUpdate_def)

lemma completes_not_user: "completes_turn event \<Longrightarrow> applyCanonicalUserMessageEvent tail head event t cur w = None"
  by (cases event) (simp_all add: applyCanonicalUserMessageEvent_def)

lemma unseen_disjoint: "si_id ` set tail \<inter> si_id ` set head = {} \<Longrightarrow> unseen tail head = head"
  unfolding unseen_def by (rule filter_True) blast

text \<open>
  C27: whatever the lanes hold, the end of a turn (completed, failed or canceled) empties the head and leaves
  every thought ready.  The rows of the head whose id no row of the tail has go to the end of the tail, in
  order, and the others are dropped; so when the lanes share no id, the tail becomes the rows of both
  lanes, in order and with the thoughts ready.
\<close>

theorem turn_end_settles_the_stream:
  assumes "completes_turn event"
  shows "\<exists>r. applyStreamEvent parse tail head event t src cur w = Inr r \<and> lr_head r = [] \<and>
    lr_tail r = map markThoughtReady (tail @ unseen tail head) \<and>
    (si_id ` set tail \<inter> si_id ` set head = {} \<longrightarrow> lr_tail r = map markThoughtReady (tail @ head)) \<and>
    (\<forall>row\<in>set (lr_tail r). \<not> body_loading (si_body row))"
proof -
  let ?f = "flush_head (unchanged_lanes tail head)"
  have flushed: "lr_tail ?f = tail @ map markThoughtReady (unseen tail head)" "lr_head ?f = []"
    by (simp_all add: flush_head_lanes unchanged_lanes_def)
  have "applyStreamEvent parse tail head event t src cur w = applyCompletionToTail event t src ?f"
    using assms by (simp add: applyStreamEvent_def completes_not_user Let_def)
  moreover have "\<exists>r. applyCompletionToTail event t src ?f = Inr r \<and> lr_head r = [] \<and>
      lr_tail r = map markThoughtReady (lr_tail ?f)"
    using assms flushed(2)
    by (simp add: applyCompletionToTail_def Let_def outcome_returns raises_then completion_reduces
        settled_then settled_finalize comp_def)
  ultimately show ?thesis using flushed(1) by (auto simp: unseen_disjoint)
qed

theorem turn_end_settles_the_stream_witness:
  "\<exists>r. applyStreamEvent (\<lambda>_. []) [] [\<lparr>si_id = ''a'', si_cursor = None, si_turnId = None, si_timestamp = 0,
       si_body = ThoughtRow ''x'' ThoughtLoading\<rparr>] (TurnCompleted ''codex'' None None) 0 Live None TailLane = Inr r \<and>
     map si_body (lr_tail r) = [ThoughtRow ''x'' ThoughtReady] \<and> lr_head r = []"
proof -
  have "completes_turn (TurnCompleted ''codex'' None None)" by simp
  from turn_end_settles_the_stream [OF this] show ?thesis
    by (fastforce simp: unseen_def markThoughtReady_def)
qed

section \<open>Rows that lose their identity\<close>

text \<open>The lanes after a list of live events that arrive within one millisecond, without Markdown blocks.\<close>

definition live_event_step :: "agent_stream_event \<Rightarrow> lanes \<Rightarrow> string + lanes" where
  "live_event_step event lanes = bind_sum
     (applyStreamEvent (\<lambda>_. []) (fst lanes) (snd lanes) event 0 Live None TailLane)
     (\<lambda>r. Inr (lr_tail r, lr_head r))"

definition run_events :: "agent_stream_event list \<Rightarrow> string + lanes" where
  "run_events events = fold_sum live_event_step events ([], [])"

definition rows_of_events :: "agent_stream_event list \<Rightarrow> stream" where
  "rows_of_events events = (case run_events events of Inl _ \<Rightarrow> [] | Inr (tail, head) \<Rightarrow> tail @ head)"

definition timeline_event :: "timeline_item \<Rightarrow> string option \<Rightarrow> agent_stream_event" where
  "timeline_event item turn = TimelineEvent item ''codex'' turn None"

definition thought_event :: "string \<Rightarrow> agent_stream_event" where
  "thought_event s = timeline_event (Reasoning s) None"

definition call_event :: "string \<Rightarrow> tool_call_status \<Rightarrow> string \<Rightarrow> agent_stream_event" where
  "call_event c st turn = timeline_event (ToolCall \<lparr>tc_callId = c, tc_name = ''shell'',
     tc_detail = DShell ''ls'' None None None, tc_metadata = None, tc_status = st, tc_error = None,
     tc_extra = []\<rparr>) (Some turn)"

text \<open>
  The id of a thought is made of its text, its time and the length of the lane it starts in, so a
  second thought with the same text in the same millisecond gets the id of the first one when that has
  moved to the tail, and the flush at the end of the turn drops it.
\<close>

lemma repeated_thought_is_dropped:
  "map si_text (filter (\<lambda>r. is_thought (si_body r))
     (rows_of_events [thought_event ''hm'', call_event ''c'' Completed ''t'', thought_event ''hm'',
        TurnCompleted ''codex'' None (Some ''t'')])) = [''hm'']"
  by code_simp

text \<open>\<open>encodeURIComponent\<close> gives different turns different text.\<close>

lemma hex_upper_inject: "a < 16 \<Longrightarrow> b < 16 \<Longrightarrow> hex_upper a = hex_upper b \<Longrightarrow> a = b"
proof -
  assume "a < 16" "b < 16" "hex_upper a = hex_upper b"
  moreover have "\<forall>a\<in>set [0..<16]. \<forall>b\<in>set [0..<16]. hex_upper a = hex_upper b \<longrightarrow> a = b" by code_simp
  ultimately show ?thesis by simp
qed

lemma percent_append_inject:
  assumes "a < 256" "b < 256" "percent a @ u = percent b @ v"
  shows "a = b \<and> u = v"
proof -
  have "a div 16 = b div 16" "a mod 16 = b mod 16" "u = v"
    using assms hex_upper_inject [of "a div 16" "b div 16"] hex_upper_inject [of "a mod 16" "b mod 16"]
    by (simp_all add: percent_def)
  then show ?thesis by (metis div_mult_mod_eq)
qed

definition encoded_char :: "char \<Rightarrow> string" where
  "encoded_char c = (let n = char_code c in
     if unreserved c then [c] else if n < 128 then percent n else percent (192 + n div 64) @ percent (128 + n mod 64))"

lemma encoded_char_cases:
  obtains (plain) "unreserved c" "encoded_char c = [c]"
    | (ascii) "\<not> unreserved c" "char_code c < 128" "encoded_char c = percent (char_code c)"
    | (two) "128 \<le> char_code c" "192 + char_code c div 64 < 256"
        "encoded_char c = percent (192 + char_code c div 64) @ percent (128 + char_code c mod 64)"
proof -
  have "char_code c < 256" by (simp add: char_code_def)
  then have "192 + char_code c div 64 < 256" by linarith
  with that show ?thesis by (cases "unreserved c"; cases "char_code c < 128") (auto simp: encoded_char_def Let_def unreserved_def)
qed

lemma percent_sign: "unreserved c \<Longrightarrow> c \<noteq> CHR ''%''"
  by (auto simp: unreserved_def Let_def char_code_def)

lemma char_code_inject: "char_code a = char_code b \<Longrightarrow> a = b"
  by (simp add: char_code_def)

lemma encoded_char_inject: "encoded_char a @ u = encoded_char b @ v \<Longrightarrow> a = b \<and> u = v"
proof (cases a rule: encoded_char_cases)
  case a: plain
  assume "encoded_char a @ u = encoded_char b @ v"
  with a percent_sign [OF a(1)] show ?thesis by (cases b rule: encoded_char_cases) (auto simp: percent_def)
next
  case a: ascii
  assume e: "encoded_char a @ u = encoded_char b @ v"
  show ?thesis
  proof (cases b rule: encoded_char_cases)
    case plain
    with a e percent_sign show ?thesis by (auto simp: percent_def)
  next
    case ascii
    with a e percent_append_inject [of "char_code a" "char_code b" u v] show ?thesis by (auto dest: char_code_inject)
  next
    case two
    with a e percent_append_inject [of "char_code a" "192 + char_code b div 64" u] show ?thesis by auto
  qed
next
  case a: two
  assume e: "encoded_char a @ u = encoded_char b @ v"
  show ?thesis
  proof (cases b rule: encoded_char_cases)
    case plain
    with a e percent_sign show ?thesis by (auto simp: percent_def)
  next
    case ascii
    with a e percent_append_inject [of "192 + char_code a div 64" "char_code b" _ v] show ?thesis by auto
  next
    case two
    have "192 + char_code a div 64 = 192 + char_code b div 64 \<and>
        percent (128 + char_code a mod 64) @ u = percent (128 + char_code b mod 64) @ v"
      using a two e by (intro percent_append_inject) auto
    then have "char_code a div 64 = char_code b div 64" "char_code a mod 64 = char_code b mod 64 \<and> u = v"
      using percent_append_inject [of "128 + char_code a mod 64" "128 + char_code b mod 64" u v] by auto
    then show ?thesis by (metis char_code_inject div_mult_mod_eq)
  qed
qed

lemma encodeURIComponent_Cons: "encodeURIComponent (c # s) = encoded_char c @ encodeURIComponent s"
  by (simp add: encodeURIComponent_def encoded_char_def Let_def)

lemma encoded_char_not_Nil: "encoded_char c \<noteq> []"
  by (simp add: encoded_char_def percent_def Let_def)

lemma encodeURIComponent_Nil: "encodeURIComponent [] = []"
  by (simp add: encodeURIComponent_def)

lemma encodeURIComponent_inject: "encodeURIComponent s = encodeURIComponent t \<Longrightarrow> s = t"
proof (induction s arbitrary: t)
  case Nil
  then show ?case by (cases t) (simp_all add: encodeURIComponent_Cons encodeURIComponent_Nil encoded_char_not_Nil)
next
  case (Cons c s)
  then obtain d t' where t: "t = d # t'"
    by (cases t) (simp_all add: encodeURIComponent_Cons encodeURIComponent_Nil encoded_char_not_Nil)
  with Cons.prems encoded_char_inject [of c "encodeURIComponent s" d "encodeURIComponent t'"] Cons.IH
  show ?case by (simp add: encodeURIComponent_Cons)
qed

lemma identity_of_turns:
  "t1 \<noteq> [] \<Longrightarrow> t2 \<noteq> [] \<Longrightarrow> agentToolCallIdentity c (Some t1) = agentToolCallIdentity c (Some t2) \<Longrightarrow> t1 = t2"
  by (auto simp: agentToolCallIdentity_def truthy_def neq_Nil_conv dest: encodeURIComponent_inject)

text \<open>Calls that become a row of the call itself, not a list of tasks.\<close>

definition plain_call :: "string \<Rightarrow> tool_call \<Rightarrow> bool" where
  "plain_call provider call \<longleftrightarrow> provider \<noteq> ''claude'' \<and>
     extractTaskEntriesFromToolCall (tc_name call) (inputFromUnknownDetail (tc_detail call)) = None"

definition data_of_call :: "string \<Rightarrow> tool_call \<Rightarrow> agent_tool_data" where
  "data_of_call provider call = \<lparr>ad_provider = provider, ad_callId = tc_callId call, ad_name = tc_name call,
     ad_status = tc_status call, ad_error = tc_error call, ad_detail = tc_detail call, ad_metadata = tc_metadata call\<rparr>"

lemma call_event_applies:
  assumes "plain_call provider call" and "turn \<noteq> []" and "tail \<noteq> []"
    and s: "settled (appendAgentToolCall tail (data_of_call provider call) ts (Some turn) cur) tail = init @ [z]"
  shows "\<exists>x. applyStreamEvent parse tail [] (TimelineEvent (ToolCall call) provider (Some turn) sq) ts src cur w = Inr x \<and>
     lr_head x = [] \<and> lr_tail x = map markThoughtReady init @ [(markThoughtReady z)\<lparr>si_turnId := Some turn\<rparr>]"
proof -
  let ?e = "TimelineEvent (ToolCall call) provider (Some turn) sq"
  let ?a = "appendAgentToolCall tail (data_of_call provider call) ts (Some turn) cur"
  define item where "item = reduceTimelineItem tail (ToolCall call) provider (Some turn) ts src [] cur"
  have i: "item = finalized ?a tail"
    using assms(1) by (simp add: item_def reduceTimelineToolCall_def plain_call_def data_of_call_def Let_def)
  then have ni: "\<not> raises item" by (simp add: finalized_returns)
  have si: "settled item tail = map markThoughtReady init @ [markThoughtReady z]"
    unfolding i finalized_def by (simp add: settled_then settled_finalize s)
  have u: "reduceStreamUpdate tail ?e ts src [] cur = then_update item (applyTimelineTurnId (ToolCall call) (Some turn)) tail"
    by (simp add: reduceStreamUpdate_def item_def)
  have tr: "truthy (None :: string option) = None" "truthy (Some turn) = Some turn"
    using assms(2) by (auto simp: truthy_def split: list.splits)
  have "settled (then_update item (applyTimelineTurnId (ToolCall call) (Some turn)) tail) tail =
      map markThoughtReady init @ [(markThoughtReady z)\<lparr>si_turnId := Some turn\<rparr>]"
    by (subst settled_then) (auto simp: ni si applyTimelineTurnId_def tr)
  moreover have "\<not> raises (then_update item (applyTimelineTurnId (ToolCall call) (Some turn)) tail)"
    by (simp add: raises_then ni)
  ultimately show ?thesis
    by (simp add: applyStreamEvent_def applyCanonicalUserMessageEvent_def Let_def shouldFlushHead_def resume_tail_def
        resumes_tail_def unchanged_lanes_def apply_to_tail_def outcome_returns u)
qed

lemma call_body_ready: "si_body r = ToolRow b \<Longrightarrow> markThoughtReady r = r"
  by (simp add: mark_ready_idle)

lemma merged_call:
  "si_turnId (mergeAgentToolCallItem r old d t cur) = si_turnId r"
  "si_body (mergeAgentToolCallItem r old d t cur) = ToolRow (AgentCall (merge_call_data old d))"
  "ad_callId (merge_call_data old d) = ad_callId d"
  by (simp_all add: mergeAgentToolCallItem_def with_cursor_def merge_call_data_def Let_def)

lemma ready_identity [simp]: "streamTimelineItemIdentity (markThoughtReady r) = streamTimelineItemIdentity r"
  by (cases "si_body r") (simp_all add: streamTimelineItemIdentity_def markThoughtReady_def)

lemma find_index_first:
  "i < length xs \<Longrightarrow> P (xs ! i) \<Longrightarrow> \<forall>j<i. \<not> P (xs ! j) \<Longrightarrow> find_index P xs = Some i"
proof (cases "find_index P xs")
  case None
  assume "i < length xs" "P (xs ! i)"
  with None show ?thesis by (auto simp: find_index_None)
next
  case (Some k)
  assume "P (xs ! i)" "\<forall>j<i. \<not> P (xs ! j)"
  with find_index_Some [OF Some] Some show ?thesis by (metis linorder_neqE_nat)
qed

lemma known_call_updates:
  assumes "i < length rows" "si_body (rows ! i) = ToolRow (AgentCall old)" "ad_callId old = ad_callId d"
    "si_turnId (rows ! i) = Some turn"
    and "\<forall>j<i. streamTimelineItemIdentity (rows ! j) \<noteq> streamTimelineItemIdentity (rows ! i)"
  shows "\<exists>q. settled (appendAgentToolCall (rows @ rest) d t (Some turn) cur) (rows @ rest) = rows[i := q] @ rest \<and>
     streamTimelineItemIdentity q = streamTimelineItemIdentity (rows ! i)"
proof -
  let ?m = "mergeAgentToolCallItem (rows ! i) old d t cur"
  have id: "streamTimelineItemIdentity (rows ! i) = Some (agentToolCallIdentity (ad_callId d) (Some turn))"
    using assms(2-4) by (simp add: streamTimelineItemIdentity_def)
  have f: "findExistingTimelineIdentityIndex (rows @ rest) (agentToolCallIdentity (ad_callId d) (Some turn)) = Some i"
    unfolding findExistingTimelineIdentityIndex_def using assms(1,5) id
    by (intro find_index_first) (auto simp: nth_append)
  have m: "streamTimelineItemIdentity ?m = streamTimelineItemIdentity (rows ! i)"
    using id assms(4) by (simp add: streamTimelineItemIdentity_def merged_call)
  show ?thesis
  proof (cases "same_call old d cur")
    case True
    with f assms(1,2) show ?thesis
      by (intro exI [of _ "rows ! i"]) (simp add: appendAgentToolCall_def nth_append)
  next
    case False
    with f assms(1,2) m show ?thesis
      by (intro exI [of _ ?m]) (simp add: appendAgentToolCall_def nth_append list_update_append)
  qed
qed

text \<open>
  C38: an update of a call of an earlier turn gives its turn to the last row of the stream.  Let the
  last row be a running call of turn \<open>t2\<close>, and let an earlier row be a call of another turn \<open>t1\<close>.  When an
  update of that call arrives, the last row is moved to turn \<open>t1\<close>; the next update of the running call, which names
  turn \<open>t2\<close>, no longer finds its row, leaves it running and appends a second row for the same call.
\<close>

theorem late_update_splits_a_call:
  assumes "i < length rows" "si_body (rows ! i) = ToolRow (AgentCall old)" "ad_callId old = tc_callId late"
    "si_turnId (rows ! i) = Some t1"
    and "\<forall>j<i. streamTimelineItemIdentity (rows ! j) \<noteq> streamTimelineItemIdentity (rows ! i)"
    and r: "si_body r = ToolRow (AgentCall d)" "ad_status d = Running" "si_turnId r = Some t2"
    and "\<forall>q\<in>set rows. streamTimelineItemIdentity q \<noteq> streamTimelineItemIdentity r"
    and "t1 \<noteq> []" "t2 \<noteq> []" "t1 \<noteq> t2"
    and "plain_call p late" and "plain_call p' update" "tc_callId update = ad_callId d"
  shows "\<exists>x y rows'.
     applyStreamEvent parse (rows @ [r]) [] (TimelineEvent (ToolCall late) p (Some t1) sq) ts src cur w = Inr x \<and>
     lr_tail x = rows' @ [r\<lparr>si_turnId := Some t1\<rparr>] \<and> length rows' = length rows \<and>
     applyStreamEvent parse (lr_tail x) (lr_head x) (TimelineEvent (ToolCall update) p' (Some t2) sq') ts' src' cur' w' =
       Inr y \<and>
     lr_tail y = rows' @ [r\<lparr>si_turnId := Some t1\<rparr>, new_call_row (data_of_call p' update) ts' (Some t2) cur']"
proof -
  let ?id = "agentToolCallIdentity (ad_callId d)"
  have "ad_callId old = ad_callId (data_of_call p late)" using assms(3) by (simp add: data_of_call_def)
  from known_call_updates [OF assms(1,2) this assms(4,5)] obtain q where
    q: "settled (appendAgentToolCall (rows @ [r]) (data_of_call p late) ts (Some t1) cur) (rows @ [r]) = rows[i := q] @ [r]"
      "streamTimelineItemIdentity q = streamTimelineItemIdentity (rows ! i)" by blast
  define r1 where "r1 = r\<lparr>si_turnId := Some t1\<rparr>"
  define rows' where "rows' = map markThoughtReady (map markThoughtReady (rows[i := q]))"
  have rows1: "map markThoughtReady (rows[i := q]) = rows'" by (simp add: rows'_def)
  from call_event_applies [OF assms(13,10) _ q(1), of parse sq src w]
  have "\<exists>x. applyStreamEvent parse (rows @ [r]) [] (TimelineEvent (ToolCall late) p (Some t1) sq) ts src cur w = Inr x \<and>
    lr_head x = [] \<and> lr_tail x = rows' @ [r1]"
    unfolding rows1 call_body_ready [OF r(1)] r1_def by simp
  then obtain x where x: "applyStreamEvent parse (rows @ [r]) [] (TimelineEvent (ToolCall late) p (Some t1) sq) ts src cur w = Inr x"
    "lr_head x = []" "lr_tail x = rows' @ [r1]" by blast
  have rid: "streamTimelineItemIdentity r = Some (?id (Some t2))" using r by (simp add: streamTimelineItemIdentity_def)
  have "?id (Some t1) \<noteq> ?id (Some t2)" using identity_of_turns assms(10-12) by blast
  then have one: "streamTimelineItemIdentity r1 \<noteq> Some (?id (Some t2))"
    using r(1) by (simp add: streamTimelineItemIdentity_def r1_def)
  have "streamTimelineItemIdentity v \<noteq> Some (?id (Some t2))" if "v \<in> set (rows[i := q])" for v
  proof -
    from that have "v \<in> set rows \<or> v = q" using set_update_subset_insert [of rows i q] by auto
    then show ?thesis using assms(1,9) q(2) rid by (metis nth_mem)
  qed
  then have others: "\<forall>v\<in>set rows'. streamTimelineItemIdentity v \<noteq> Some (?id (Some t2))"
    by (simp add: rows'_def)
  have cid: "ad_callId (data_of_call p' update) = ad_callId d" using assms(15) by (simp add: data_of_call_def)
  let ?new = "new_call_row (data_of_call p' update) ts' (Some t2) cur'"
  have "findExistingTimelineIdentityIndex (rows' @ [r1]) (?id (Some t2)) = None"
    using one others by (simp add: findExistingTimelineIdentityIndex_def find_index_None)
  then have "settled (appendAgentToolCall (rows' @ [r1]) (data_of_call p' update) ts' (Some t2) cur') (rows' @ [r1]) =
      (rows' @ [r1]) @ [?new]" by (simp add: appendAgentToolCall_def cid)
  from call_event_applies [OF assms(14,11) _ this]
  obtain y where y: "applyStreamEvent parse (rows' @ [r1]) [] (TimelineEvent (ToolCall update) p' (Some t2) sq') ts' src' cur' w' = Inr y"
    "lr_tail y = map markThoughtReady (rows' @ [r1]) @ [(markThoughtReady ?new)\<lparr>si_turnId := Some t2\<rparr>]" by blast
  have "markThoughtReady r1 = r1" using r(1) by (simp add: call_body_ready r1_def)
  moreover have "map markThoughtReady rows' = rows'" by (simp add: rows'_def)
  moreover have "(markThoughtReady ?new)\<lparr>si_turnId := Some t2\<rparr> = ?new"
  proof -
    have "markThoughtReady ?new = ?new" by (rule call_body_ready) (simp add: new_call_row_def)
    then show ?thesis using assms(11) by (cases t2) (simp_all add: new_call_row_def truthy_def)
  qed
  ultimately have "lr_tail y = rows' @ [r1, ?new]" using y(2) by simp
  moreover have "length rows' = length rows" by (simp add: rows'_def)
  ultimately show ?thesis using x y(1) by (intro exI [of _ x] exI [of _ y] exI [of _ rows']) (simp add: r1_def)
qed

definition shell_tool :: "string \<Rightarrow> tool_call_status \<Rightarrow> tool_call" where
  "shell_tool c st = \<lparr>tc_callId = c, tc_name = ''shell'', tc_detail = DShell ''ls'' None None None,
     tc_metadata = None, tc_status = st, tc_error = None, tc_extra = []\<rparr>"

lemma shell_tool_plain: "plain_call ''codex'' (shell_tool ''a'' Completed)" "plain_call ''codex'' (shell_tool ''b'' Completed)"
  by code_simp+

theorem late_update_splits_a_call_witness:
  "\<exists>x y. applyStreamEvent (\<lambda>_. []) [new_call_row (shell_call ''a'' Running) 0 (Some ''t1'') None,
        new_call_row (shell_call ''b'' Running) 0 (Some ''t2'') None] []
        (TimelineEvent (ToolCall (shell_tool ''a'' Completed)) ''codex'' (Some ''t1'') None) 0 Live None TailLane = Inr x \<and>
     applyStreamEvent (\<lambda>_. []) (lr_tail x) (lr_head x)
        (TimelineEvent (ToolCall (shell_tool ''b'' Completed)) ''codex'' (Some ''t2'') None) 0 Live None TailLane = Inr y \<and>
     map (\<lambda>q. map_option ad_status (call_data (si_body q))) (tl (lr_tail y)) = [Some Running, Some Completed]"
proof -
  let ?a = "new_call_row (shell_call ''a'' Running) 0 (Some ''t1'') None"
  let ?b = "new_call_row (shell_call ''b'' Running) 0 (Some ''t2'') None"
  have a: "si_body ([?a] ! 0) = ToolRow (AgentCall ((shell_call ''a'' Running)\<lparr>ad_error := Some Timeline_Items.JNull\<rparr>))"
    "ad_callId ((shell_call ''a'' Running)\<lparr>ad_error := Some Timeline_Items.JNull\<rparr>) = tc_callId (shell_tool ''a'' Completed)"
    "si_turnId ([?a] ! 0) = Some ''t1''"
    by (simp_all add: new_call_row_def shell_call_def shell_tool_def truthy_def)
  have b: "si_body ?b = ToolRow (AgentCall ((shell_call ''b'' Running)\<lparr>ad_error := Some Timeline_Items.JNull\<rparr>))"
    "ad_status ((shell_call ''b'' Running)\<lparr>ad_error := Some Timeline_Items.JNull\<rparr>) = Running"
    "si_turnId ?b = Some ''t2''"
    "tc_callId (shell_tool ''b'' Completed) = ad_callId ((shell_call ''b'' Running)\<lparr>ad_error := Some Timeline_Items.JNull\<rparr>)"
    by (simp_all add: new_call_row_def shell_call_def shell_tool_def truthy_def)
  have d: "\<forall>q\<in>set [?a]. streamTimelineItemIdentity q \<noteq> streamTimelineItemIdentity ?b" by code_simp
  have "0 < length [?a]" "\<forall>j<(0 :: nat). streamTimelineItemIdentity ([?a] ! j) \<noteq> streamTimelineItemIdentity ([?a] ! 0)"
    by simp_all
  from late_update_splits_a_call [OF this(1) a this(2) b(1-3) d _ _ _ shell_tool_plain b(4),
      of "\<lambda>_. []" None 0 Live None TailLane None 0 Live None TailLane]
  obtain x y rows' where
    "applyStreamEvent (\<lambda>_. []) [?a, ?b] []
        (TimelineEvent (ToolCall (shell_tool ''a'' Completed)) ''codex'' (Some ''t1'') None) 0 Live None TailLane = Inr x"
    "applyStreamEvent (\<lambda>_. []) (lr_tail x) (lr_head x)
        (TimelineEvent (ToolCall (shell_tool ''b'' Completed)) ''codex'' (Some ''t2'') None) 0 Live None TailLane = Inr y"
    and y: "length rows' = 1" "lr_tail y = rows' @ [?b\<lparr>si_turnId := Some ''t1''\<rparr>,
      new_call_row (data_of_call ''codex'' (shell_tool ''b'' Completed)) 0 (Some ''t2'') None]"
    by auto
  moreover have "map (\<lambda>q. map_option ad_status (call_data (si_body q))) (tl (lr_tail y)) = [Some Running, Some Completed]"
    using y b(1,2) by (cases rows') (simp_all add: new_call_row_def data_of_call_def shell_tool_def)
  ultimately show ?thesis by (intro exI [of _ x] exI [of _ y] conjI)
qed

end
