(* ===== verification/Stream_Replacement.thy ===== *)
theory Stream_Replacement
  imports Stream_Lanes
begin

text \<open>
  \<open>replaceWithCanonicalStream\<close> of \<open>packages/app/src/types/stream.ts\<close>: an authoritative page takes the place
  of the tail, user messages that the page confirms are acknowledged, and what is only known locally (messages
  being sent, live rows beyond the page) is carried over.
\<close>

record coverage =
  cv_epoch :: string
  cv_endSeq :: "int option"

definition isAfterCanonicalCoverage :: "timeline_position \<Rightarrow> coverage \<Rightarrow> bool" where
  "isAfterCanonicalCoverage p cov \<longleftrightarrow> tp_epoch p = cv_epoch cov \<and>
     (case cv_endSeq cov of None \<Rightarrow> True | Some e \<Rightarrow> e < tp_seq p)"

section \<open>Retained rows that complete a row of the page\<close>

definition replaceTimelineIdentityItem :: "stream \<Rightarrow> stream_item \<Rightarrow> stream option" where
  "replaceTimelineIdentityItem items retained =
     (case Option.bind (streamTimelineItemIdentity retained) (findExistingTimelineIdentityIndex items) of
        None \<Rightarrow> None
      | Some i \<Rightarrow> if is_plugin (si_body (items ! i)) then Some (items[i := retained]) else None)"

definition merge_retained_call :: "stream \<Rightarrow> stream_item \<Rightarrow> agent_tool_data \<Rightarrow> stream option" where
  "merge_retained_call tail retained data =
     (case findExistingTimelineIdentityIndex tail
         (agentToolCallIdentity (ad_callId data) (si_turnId retained)) of
        None \<Rightarrow> None
      | Some i \<Rightarrow>
          (case call_data (si_body (tail ! i)) of
             None \<Rightarrow> None
           | Some old \<Rightarrow> Some (tail[i := mergeAgentToolCallItem (tail ! i) old data
               (si_timestamp retained) (si_cursor retained)])))"

definition merge_retained_todo ::
  "stream \<Rightarrow> stream_item \<Rightarrow> string \<Rightarrow> agent_task_item list \<Rightarrow> stream option" where
  "merge_retained_todo tail retained provider items =
     (case (if tail = [] then None else todo_of provider (si_body (last tail))) of
        None \<Rightarrow> None
      | Some (_, activity) \<Rightarrow> Some (butlast tail @ [(last tail)
          \<lparr>si_cursor := si_cursor retained, si_timestamp := si_timestamp retained,
           si_body := TodoRow provider items activity\<rparr>]))"

definition merge_retained_compaction ::
  "stream \<Rightarrow> stream_item \<Rightarrow> compaction_trigger option \<Rightarrow> rat option \<Rightarrow> stream option" where
  "merge_retained_compaction tail retained trigger preTokens =
     (case find_index loading_compaction tail of
        None \<Rightarrow> None
      | Some i \<Rightarrow> Some (tail[i := complete_compaction trigger preTokens (si_cursor retained) (tail ! i)]))"

definition mergeRetainedLifecycleItem :: "stream \<Rightarrow> stream_item \<Rightarrow> stream option" where
  "mergeRetainedLifecycleItem tail retained =
     (if is_plugin (si_body retained) then replaceTimelineIdentityItem tail retained
      else if si_cursor retained = None then None
      else case si_body retained of
          ToolRow (AgentCall data) \<Rightarrow> merge_retained_call tail retained data
        | TodoRow provider items _ \<Rightarrow> merge_retained_todo tail retained provider items
        | CompactionRow CompactionCompleted trigger preTokens \<Rightarrow>
            merge_retained_compaction tail retained trigger preTokens
        | _ \<Rightarrow> None)"

text \<open>The tail after every retained row was offered to it, and the rows it did not take.\<close>

fun offer_retained :: "stream \<Rightarrow> stream \<Rightarrow> stream \<times> stream" where
  "offer_retained tail [] = (tail, [])"
| "offer_retained tail (r # rs) = (case mergeRetainedLifecycleItem tail r of
      Some tail' \<Rightarrow> offer_retained tail' rs
    | None \<Rightarrow> (let (tail', rest) = offer_retained tail rs in (tail', r # rest)))"

definition reconcileReplacementHeadAgainstTail :: "stream \<Rightarrow> stream \<Rightarrow> lanes" where
  "reconcileReplacementHeadAgainstTail tail retainedHead =
     (let (tail', rest) = offer_retained tail retainedHead in
      (tail', filter (\<lambda>r. si_assistant r \<or> si_id r \<notin> si_id ` set tail') rest))"

section \<open>The live head\<close>

definition retained_head :: "stream \<Rightarrow> stream \<Rightarrow> bool \<Rightarrow> string list \<Rightarrow> coverage \<Rightarrow> stream" where
  "retained_head tail head preserve sending cov =
     (if preserve
      then filter (\<lambda>r. (case si_cursor r of None \<Rightarrow> True | Some p \<Rightarrow> isAfterCanonicalCoverage p cov) \<or>
             si_assistant r \<and> tail \<noteq> [] \<and> si_assistant (last tail) \<and>
             prefix (si_text (last tail)) (si_text r)) head
      else filter (\<lambda>r. si_user r \<and> (case si_client r of None \<Rightarrow> False | Some c \<Rightarrow> c \<in> set sending)) head)"

definition with_row_text :: "string \<Rightarrow> stream_item \<Rightarrow> stream_item" where
  "with_row_text s r = (case assistant_parts (si_body r) of
      None \<Rightarrow> r | Some (m, _, g, i) \<Rightarrow> r\<lparr>si_body := AssistantRow m s g i\<rparr>)"

definition newer_cursor :: "stream_item \<Rightarrow> stream_item \<Rightarrow> bool" where
  "newer_cursor live old = (case (si_cursor live, si_cursor old) of
      (Some p, Some q) \<Rightarrow> tp_epoch p = tp_epoch q \<and> tp_seq q < tp_seq p
    | _ \<Rightarrow> False)"

definition newer_continuation :: "stream_item \<Rightarrow> stream_item \<Rightarrow> bool" where
  "newer_continuation live old \<longleftrightarrow> newer_cursor live old \<and>
     (si_message live \<noteq> None \<and> si_message live = si_message old \<or>
      si_message live = None \<and> si_message old = None \<and> prefix (si_text old) (si_text live))"

definition preserveReplacementHead ::
  "stream \<Rightarrow> stream \<Rightarrow> bool \<Rightarrow> string list \<Rightarrow> coverage \<Rightarrow> lanes" where
  "preserveReplacementHead tail head preserve sending cov =
     (case reconcileReplacementHeadAgainstTail tail (retained_head tail head preserve sending cov) of
        (tail', []) \<Rightarrow> (tail', [])
      | (tail', live # rest) \<Rightarrow>
          if \<not> si_assistant live \<or> tail' = [] \<or> \<not> si_assistant (last tail') then (tail', live # rest)
          else
            let old = last tail'; extends = prefix (si_text old) (si_text live) in
            if newer_continuation live old
            then (butlast tail',
                  with_row_text (if extends then si_text live else si_text old @ si_text live) live # rest)
            else if \<not> extends then (tail', live # rest)
            else (butlast tail', with_row_text (si_text old) live # rest))"

section \<open>Replacing the tail\<close>

record replacing =
  rs_unmatched :: stream
  rs_head :: stream
  rs_tail :: stream
  rs_acked :: "string list"

definition acknowledge :: "stream_item \<Rightarrow> string list \<Rightarrow> string list" where
  "acknowledge message acked = (case truthy (si_client message) of
      None \<Rightarrow> acked | Some c \<Rightarrow> if c \<in> set acked then acked else acked @ [c])"

definition replace_step :: "stream_item \<Rightarrow> replacing \<Rightarrow> replacing" where
  "replace_step item s =
     (if \<not> si_user item then s\<lparr>rs_tail := rs_tail s @ [item]\<rparr>
      else
        let t = produceUserMessage (rs_unmatched s) item None PresentExisting CanonicalIncoming;
            h = produceUserMessage (rs_head s) item None PresentExisting CanonicalIncoming
        in if up_matched t then
             s\<lparr>rs_unmatched := without_index (up_index t) (rs_unmatched s), rs_tail := rs_tail s @ [up_message t],
               rs_acked := acknowledge (up_message t) (rs_acked s)\<rparr>
           else if up_matched h then
             s\<lparr>rs_head := without_index (up_index h) (settled (up_items h) (rs_head s)),
               rs_tail := rs_tail s @ [up_message h],
               rs_acked := acknowledge (up_message h) (rs_acked s)\<rparr>
           else s\<lparr>rs_tail := rs_tail s @ [item]\<rparr>)"

definition preserve_local :: "bool \<Rightarrow> string list \<Rightarrow> stream_item \<Rightarrow> bool" where
  "preserve_local preserve sending r =
     (if preserve then isUnreconciledLocalUserMessage r
      else case si_client r of None \<Rightarrow> False | Some c \<Rightarrow> c \<in> set sending)"

definition retain_beyond :: "bool \<Rightarrow> string list \<Rightarrow> coverage \<Rightarrow> stream_item \<Rightarrow> bool" where
  "retain_beyond preserve sending cov r \<longleftrightarrow> \<not> preserve_local preserve sending r \<and> preserve \<and>
     (case si_cursor r of None \<Rightarrow> False | Some p \<Rightarrow> isAfterCanonicalCoverage p cov)"

definition confirmed :: "stream \<Rightarrow> stream \<Rightarrow> stream \<Rightarrow> replacing" where
  "confirmed canonical previousTail previousHead =
     fold replace_step canonical
       \<lparr>rs_unmatched = filter (\<lambda>r. si_user r \<and> si_client r \<noteq> None) previousTail,
        rs_head = previousHead, rs_tail = [], rs_acked = []\<rparr>"

definition replaceWithCanonicalStream ::
  "stream \<Rightarrow> stream \<Rightarrow> stream \<Rightarrow> string list \<Rightarrow> bool \<Rightarrow> coverage \<Rightarrow> lanes \<times> string list" where
  "replaceWithCanonicalStream canonical previousTail previousHead sending preserve cov =
     (let s = confirmed canonical previousTail previousHead;
          nextTail = rs_tail s @ filter (preserve_local preserve sending) (rs_unmatched s);
          nextHead = filter (retain_beyond preserve sending cov) (rs_unmatched s) @ rs_head s
      in (preserveReplacementHead nextTail nextHead preserve sending cov, rs_acked s))"

end
