(* ===== verification/Stream_Pages.thy ===== *)
theory Stream_Pages
  imports Stream_Replacement Timeline_Pages
begin

text \<open>
  \<open>processTimelineResponse\<close> of \<open>packages/app/src/timeline/session-stream-reducers.ts\<close>: how a page fetched from
  the daemon is joined with the client stream.  A page replaces the stream, is appended after the cursor, is
  put before it, is merged as a window, or is discarded; the cursor is the range of sequence numbers that the
  tail covers, with the ranges of windows retained apart from it.  \<open>new_Date\<close> reads a timestamp.
\<close>

section \<open>Cursors\<close>

record loaded_range =
  rg_start :: int
  rg_end :: int
  rg_hasOlder :: "bool option"

text \<open>No \<open>retainedRanges\<close> and an empty array are the same to every reader.\<close>

record timeline_range =
  cr_epoch :: string
  cr_start :: int
  cr_end :: int
  cr_retained :: "loaded_range list"

definition compare_ranges :: "loaded_range \<Rightarrow> loaded_range \<Rightarrow> int" where
  "compare_ranges l r = (if rg_start l - rg_start r \<noteq> 0 then rg_start l - rg_start r else rg_end l - rg_end r)"

definition coverage_step :: "loaded_range \<Rightarrow> loaded_range list \<Rightarrow> loaded_range list" where
  "coverage_step r merged =
     (if merged = [] \<or> rg_end (last merged) + 1 < rg_start r then merged @ [r]
      else butlast merged @ [(last merged)\<lparr>rg_end := max (rg_end (last merged)) (rg_end r)\<rparr>])"

definition current_range :: "timeline_range \<Rightarrow> loaded_range" where
  "current_range c = \<lparr>rg_start = cr_start c, rg_end = cr_end c, rg_hasOlder = None\<rparr>"

definition merged_ranges :: "timeline_range \<Rightarrow> loaded_range \<Rightarrow> loaded_range list" where
  "merged_ranges current added =
     fold coverage_step (js_sort compare_ranges (current_range current # cr_retained current @ [added])) []"

definition mergeTimelineCoverage :: "timeline_range \<Rightarrow> loaded_range \<Rightarrow> timeline_range" where
  "mergeTimelineCoverage current added =
     (let merged = merged_ranges current added in
      case find_index (\<lambda>r. rg_start r \<le> cr_end current \<and> cr_end current \<le> rg_end r) merged of
        None \<Rightarrow> current
      | Some i \<Rightarrow> \<lparr>cr_epoch = cr_epoch current, cr_start = rg_start (merged ! i), cr_end = rg_end (merged ! i),
          cr_retained = without_index i merged\<rparr>)"

definition timelineCursorEquals :: "timeline_range \<Rightarrow> timeline_range \<Rightarrow> bool" where
  "timelineCursorEquals l r \<longleftrightarrow> l = r"

section \<open>Responses\<close>

record response_entry =
  te_seqStart :: int
  te_seqEnd :: int
  te_ranges :: "seq_range list option"
  te_provider :: string
  te_turnId :: "string option"
  te_item :: timeline_item
  te_timestamp :: string

record timeline_response =
  tr_direction :: fetch_direction
  tr_projection :: projection_mode
  tr_reset :: bool
  tr_epoch :: string
  tr_window :: timeline_window
  tr_start :: "int option"
  tr_end :: "int option"
  tr_entries :: "response_entry list"
  tr_error :: "string option"
  tr_hasNewer :: bool
  tr_hasOlder :: bool
  tr_mergeWindow :: bool

record timeline_unit =
  tu_seq :: int
  tu_seqEnd :: int
  tu_ranges :: "seq_range list"
  tu_item :: timeline_item
  tu_provider :: string
  tu_turnId :: "string option"
  tu_timestamp :: int

definition tu_event :: "timeline_unit \<Rightarrow> agent_stream_event" where
  "tu_event u = TimelineEvent (tu_item u) (tu_provider u) (tu_turnId u) None"

definition unit_cursor :: "string \<Rightarrow> timeline_unit \<Rightarrow> timeline_position" where
  "unit_cursor epoch u = \<lparr>tp_epoch = epoch, tp_seq = tu_seqEnd u\<rparr>"

definition toHydratedEvents :: "string \<Rightarrow> timeline_unit list \<Rightarrow> stream_event list" where
  "toHydratedEvents epoch units =
     map (\<lambda>u. \<lparr>ev_event = tu_event u, ev_timestamp = tu_timestamp u, ev_cursor = Some (unit_cursor epoch u)\<rparr>)
       units"

definition selectEntriesOwnedByTimelinePage :: "timeline_response \<Rightarrow> response_entry list" where
  "selectEntriesOwnedByTimelinePage p =
     (case (tr_start p, tr_end p) of
        (Some a, Some b) \<Rightarrow>
          if tr_direction p = Before \<and> tr_projection p = Projected
          then filter (\<lambda>e. a \<le> te_seqStart e \<and> te_seqStart e \<le> b) (tr_entries p) else tr_entries p
      | _ \<Rightarrow> tr_entries p)"

definition unit_of_entry :: "(string \<Rightarrow> int) \<Rightarrow> response_entry \<Rightarrow> timeline_unit" where
  "unit_of_entry new_Date e = \<lparr>tu_seq = te_seqStart e, tu_seqEnd = te_seqEnd e,
     tu_ranges = (case te_ranges e of Some (r # rs) \<Rightarrow> r # rs
       | _ \<Rightarrow> [\<lparr>sr_start = te_seqStart e, sr_end = te_seqEnd e\<rparr>]),
     tu_item = te_item e, tu_provider = te_provider e, tu_turnId = truthy (te_turnId e),
     tu_timestamp = new_Date (te_timestamp e)\<rparr>"

datatype older_state = OlderAvailable | OlderNone | OlderUnchanged
datatype reducer_effect = CatchUp string int | FlushPendingUpdates

record path_result =
  pr_tail :: stream
  pr_head :: stream
  pr_cursor :: "timeline_range option"
  pr_cursorChanged :: bool
  pr_older :: older_state
  pr_effects :: "reducer_effect list"
  pr_acked :: "string list"

definition unchanged_path :: "stream \<Rightarrow> stream \<Rightarrow> timeline_range option \<Rightarrow> path_result" where
  "unchanged_path tail head cursor = \<lparr>pr_tail = tail, pr_head = head, pr_cursor = cursor,
     pr_cursorChanged = False, pr_older = OlderUnchanged, pr_effects = [], pr_acked = []\<rparr>"

definition older_of :: "bool \<Rightarrow> older_state" where
  "older_of b = (if b then OlderAvailable else OlderNone)"

section \<open>Policies\<close>

datatype seq_decision = Accept | DropStale | DropEpoch | Gap | Init

definition classifySessionTimelineSeq :: "(string \<times> int) option \<Rightarrow> string \<Rightarrow> int \<Rightarrow> seq_decision" where
  "classifySessionTimelineSeq cursor epoch seq = (case cursor of
      None \<Rightarrow> Init
    | Some (e, endSeq) \<Rightarrow>
        if e \<noteq> epoch then DropEpoch
        else if seq \<le> endSeq then DropStale
        else if seq = endSeq + 1 then Accept else Gap)"

definition deriveBootstrapTailTimelinePolicy ::
  "timeline_response \<Rightarrow> bool \<Rightarrow> bool \<Rightarrow> bool \<times> (string \<times> int) option" where
  "deriveBootstrapTailTimelinePolicy p isInitializing hasDeferred =
     (if tr_reset p then (True, None)
      else if \<not> (tr_direction p = Tail \<and> isInitializing \<and> hasDeferred) then (False, None)
      else (True, map_option (\<lambda>e. (tr_epoch p, e)) (tr_end p)))"

datatype resume_policy = NotResume | ResumeDiscard | ResumeAppend | ResumeReplace bool

definition deriveResumeTailPolicy ::
  "timeline_response \<Rightarrow> timeline_range option \<Rightarrow> bool \<Rightarrow> resume_policy" where
  "deriveResumeTailPolicy p cursor bootstrapReplace = (case cursor of
      None \<Rightarrow> NotResume
    | Some c \<Rightarrow>
        if tr_direction p \<noteq> Tail \<or> tr_reset p \<or> bootstrapReplace then NotResume
        else if cr_epoch c \<noteq> tr_epoch p then ResumeReplace False
        else if win_maxSeq (tr_window p) = cr_end c then ResumeDiscard
        else if win_maxSeq (tr_window p) < cr_end c then ResumeReplace False
        else if (case tr_start p of None \<Rightarrow> False | Some s \<Rightarrow> s \<le> cr_end c + 1) then ResumeAppend
        else ResumeReplace True)"

fun resume_replaces :: "resume_policy \<Rightarrow> bool option" where
  "resume_replaces (ResumeReplace b) = Some b"
| "resume_replaces _ = None"

definition shouldPreserveReplacementContinuity ::
  "resume_policy \<Rightarrow> timeline_range option \<Rightarrow> timeline_response \<Rightarrow> bool" where
  "shouldPreserveReplacementContinuity policy cursor p = (case resume_replaces policy of
      Some preserve \<Rightarrow> preserve
    | None \<Rightarrow> map_option cr_epoch cursor = Some (tr_epoch p) \<or> \<not> tr_reset p)"

definition shouldResolveTimelineInit ::
  "bool \<Rightarrow> bool \<Rightarrow> fetch_direction \<Rightarrow> timeline_response \<Rightarrow> bool" where
  "shouldResolveTimelineInit hasDeferred isInitializing initDirection p =
     (if \<not> hasDeferred \<or> \<not> isInitializing then False
      else if tr_reset p then True
      else if tr_direction p = After \<and> tr_hasNewer p then False
      else tr_direction p = initDirection)"

section \<open>Rows a page shows again\<close>

definition crosses :: "int \<Rightarrow> timeline_unit \<Rightarrow> bool" where
  "crosses endSeq u \<longleftrightarrow> (\<exists>r\<in>set (tu_ranges u). sr_start r \<le> endSeq \<and> endSeq < sr_end r)"

definition projected_match :: "string option \<Rightarrow> string \<Rightarrow> stream_item \<Rightarrow> bool" where
  "projected_match messageId s r \<longleftrightarrow> si_assistant r \<and>
     (if truthy messageId \<noteq> None \<and> truthy (si_message r) \<noteq> None then si_message r = messageId
      else prefix (si_text r) s)"

fun body_group :: "item_body \<Rightarrow> string option" where
  "body_group (AssistantRow _ _ g _) = g"
| "body_group _ = None"

text \<open>The first row of the group becomes the replacement, the others are dropped.\<close>

fun replace_group :: "(stream_item \<Rightarrow> bool) \<Rightarrow> stream_item \<Rightarrow> stream \<Rightarrow> bool \<Rightarrow> stream" where
  "replace_group belongs replacement [] inserted = []"
| "replace_group belongs replacement (r # rs) inserted =
     (if \<not> belongs r then r # replace_group belongs replacement rs inserted
      else if \<not> inserted then replacement # replace_group belongs replacement rs True
      else replace_group belongs replacement rs inserted)"

definition assistant_replacement ::
  "string \<Rightarrow> timeline_unit \<Rightarrow> string option \<Rightarrow> string \<Rightarrow> stream_item \<Rightarrow> stream_item" where
  "assistant_replacement epoch u messageId s r =
     \<lparr>si_id = default (si_id r) (body_group (si_body r)), si_cursor = Some (unit_cursor epoch u),
      si_turnId = None, si_timestamp = tu_timestamp u,
      si_body = AssistantRow (or_else messageId (si_message r)) s None None\<rparr>"

definition remove_group :: "string option \<Rightarrow> stream \<Rightarrow> stream" where
  "remove_group g items = (case g of None \<Rightarrow> items
     | Some d \<Rightarrow> filter (\<lambda>r. \<not> (si_assistant r \<and> body_group (si_body r) = Some d)) items)"

definition replace_match :: "string option \<Rightarrow> stream_item \<Rightarrow> nat \<Rightarrow> stream \<Rightarrow> stream" where
  "replace_match g replacement i items = (case truthy g of
      None \<Rightarrow> items[i := replacement]
    | Some d \<Rightarrow> replace_group (\<lambda>r. si_assistant r \<and> body_group (si_body r) = Some d) replacement items False)"

text \<open>\<open>None\<close> when the unit was not reconciled.\<close>

definition reconcileOverlappingProjectedAssistant ::
  "string \<Rightarrow> int \<Rightarrow> timeline_unit \<Rightarrow> lanes \<Rightarrow> lanes option" where
  "reconcileOverlappingProjectedAssistant epoch endSeq u lanes = (case tu_item u of
      AssistantMessage s messageId \<Rightarrow>
        if \<not> crosses endSeq u then None
        else
          (case find_last_index (projected_match messageId s) (snd lanes) of
             Some i \<Rightarrow>
               let r = snd lanes ! i; g = body_group (si_body r);
                   replacement = assistant_replacement epoch u messageId s r
               in Some (remove_group g (fst lanes), replace_match g replacement i (snd lanes))
           | None \<Rightarrow>
               (case find_last_index (projected_match messageId s) (fst lanes) of
                  None \<Rightarrow> None
                | Some i \<Rightarrow>
                    let r = fst lanes ! i; g = body_group (si_body r);
                        replacement = assistant_replacement epoch u messageId s r
                    in Some (replace_match g replacement i (fst lanes), remove_group g (snd lanes))))
    | _ \<Rightarrow> None)"

definition replace_thought :: "string \<Rightarrow> int \<Rightarrow> stream \<Rightarrow> stream option" where
  "replace_thought s timestamp items =
     map_option (\<lambda>i. items[i := (items ! i)\<lparr>si_timestamp := timestamp, si_body := ThoughtRow s ThoughtLoading\<rparr>])
       (find_last_index (\<lambda>r. is_thought (si_body r) \<and> prefix (si_text r) s) items)"

definition reconcileOverlappingProjectedReasoning :: "int \<Rightarrow> timeline_unit \<Rightarrow> lanes \<Rightarrow> lanes option" where
  "reconcileOverlappingProjectedReasoning endSeq u lanes = (case tu_item u of
      Reasoning s \<Rightarrow>
        if \<not> crosses endSeq u then None
        else (case replace_thought s (tu_timestamp u) (snd lanes) of
            Some h \<Rightarrow> Some (fst lanes, h)
          | None \<Rightarrow> map_option (\<lambda>t. (t, snd lanes)) (replace_thought s (tu_timestamp u) (fst lanes)))
    | _ \<Rightarrow> None)"

text \<open>The lanes after reconciling, and the units that were not reconciled.\<close>

fun reconcile_units :: "string \<Rightarrow> int \<Rightarrow> timeline_unit list \<Rightarrow> lanes \<Rightarrow> lanes \<times> timeline_unit list" where
  "reconcile_units epoch endSeq [] lanes = (lanes, [])"
| "reconcile_units epoch endSeq (u # us) lanes =
     (case reconcileOverlappingProjectedAssistant epoch endSeq u lanes of
        Some lanes' \<Rightarrow> reconcile_units epoch endSeq us lanes'
      | None \<Rightarrow>
          (case reconcileOverlappingProjectedReasoning endSeq u lanes of
             Some lanes' \<Rightarrow> reconcile_units epoch endSeq us lanes'
           | None \<Rightarrow> (let (l, rest) = reconcile_units epoch endSeq us lanes in (l, u # rest))))"

definition reconcileOverlappingProjectedStreamItems ::
  "string \<Rightarrow> int option \<Rightarrow> timeline_unit list \<Rightarrow> lanes \<Rightarrow> lanes \<times> timeline_unit list" where
  "reconcileOverlappingProjectedStreamItems epoch endSeq units lanes = (case endSeq of
      None \<Rightarrow> (lanes, units) | Some e \<Rightarrow> reconcile_units epoch e units lanes)"

end
