(* ===== verification/Stream_Responses.thy ===== *)
theory Stream_Responses
  imports Stream_Pages
begin

text \<open>
  The paths of \<open>processTimelineResponse\<close> of \<open>packages/app/src/timeline/session-stream-reducers.ts\<close> and the
  function itself.  An exception of a reducer (a user message without identity) passes through all of them.
\<close>

section \<open>Replacing the stream\<close>

definition applyTimelineReplacePath ::
  "timeline_unit list \<Rightarrow> timeline_response \<Rightarrow> (string \<times> int) option \<Rightarrow> stream \<Rightarrow> stream \<Rightarrow> string list \<Rightarrow>
     bool \<Rightarrow> string + path_result" where
  "applyTimelineReplacePath units p catchUp tail head sending preserve =
     bind_sum (hydrateStreamState (toHydratedEvents (tr_epoch p) units) CanonicalSource [])
       (\<lambda>hydrated.
         let ((t, h), acked) = replaceWithCanonicalStream hydrated tail head sending preserve
               \<lparr>cv_epoch = tr_epoch p, cv_endSeq = tr_end p\<rparr>
         in Inr \<lparr>pr_tail = t, pr_head = h,
              pr_cursor = (case (tr_start p, tr_end p) of
                  (Some a, Some b) \<Rightarrow> Some \<lparr>cr_epoch = tr_epoch p, cr_start = a, cr_end = b, cr_retained = []\<rparr>
                | _ \<Rightarrow> None),
              pr_cursorChanged = True, pr_older = older_of (tr_hasOlder p),
              pr_effects = (case catchUp of None \<Rightarrow> [] | Some (e, n) \<Rightarrow> [CatchUp e n]),
              pr_acked = acked\<rparr>)"

section \<open>Merging a window\<close>

definition matchesProjectedRow :: "stream_item \<Rightarrow> stream_item \<Rightarrow> bool" where
  "matchesProjectedRow existing incoming = (case streamTimelineItemIdentity incoming of
      Some d \<Rightarrow> streamTimelineItemIdentity existing = Some d
    | None \<Rightarrow>
        si_text existing = si_text incoming \<and> si_timestamp existing = si_timestamp incoming \<and>
        (si_assistant existing \<and> si_assistant incoming \<and> si_message existing = si_message incoming \<or>
         is_thought (si_body existing) \<and> is_thought (si_body incoming)))"

record window_merge =
  wm_page :: stream
  wm_tail :: stream
  wm_head :: stream
  wm_acked :: "string list"

definition projected_row :: "stream_item \<Rightarrow> stream_item \<Rightarrow> stream_item" where
  "projected_row existing item = (case (call_data (si_body existing), call_data (si_body item)) of
      (Some old, Some data) \<Rightarrow> mergeAgentToolCallItem existing old data (si_timestamp item) (si_cursor item)
    | _ \<Rightarrow> item\<lparr>si_id := si_id existing\<rparr>)"

definition window_user_step :: "stream_item \<Rightarrow> window_merge \<Rightarrow> window_merge" where
  "window_user_step item s =
     (let u = upsertUserMessageAcrossStream (wm_tail s) (wm_head s) item InsertNone PresentExisting
            CanonicalIncoming
      in case ac_location u of
           None \<Rightarrow> s\<lparr>wm_page := wm_page s @ [item]\<rparr>
         | Some l \<Rightarrow>
             if \<not> ul_matched l then s\<lparr>wm_page := wm_page s @ [item]\<rparr>
             else \<lparr>wm_page = wm_page s @ [ul_message l],
               wm_tail = (if ul_lane l = TailLane then without_index (ul_index l) (ac_tail u) else ac_tail u),
               wm_head = (if ul_lane l = TailLane then ac_head u else without_index (ul_index l) (ac_head u)),
               wm_acked = wm_acked s @ (case si_client item of None \<Rightarrow> [] | Some c \<Rightarrow> [c])\<rparr>)"

definition window_step :: "stream_item \<Rightarrow> window_merge \<Rightarrow> window_merge" where
  "window_step item s =
     (if si_user item then window_user_step item s
      else case find_index (\<lambda>r. matchesProjectedRow r item) (wm_tail s) of
          Some i \<Rightarrow> s\<lparr>wm_tail := (wm_tail s)[i := projected_row (wm_tail s ! i) item]\<rparr>
        | None \<Rightarrow>
            (case find_index (\<lambda>r. matchesProjectedRow r item) (wm_head s) of
               Some i \<Rightarrow> s\<lparr>wm_head := (wm_head s)[i := projected_row (wm_head s ! i) item]\<rparr>
             | None \<Rightarrow> s\<lparr>wm_page := wm_page s @ [item]\<rparr>))"

definition reconcilePromptWindowItems :: "stream \<Rightarrow> stream \<Rightarrow> stream \<Rightarrow> window_merge" where
  "reconcilePromptWindowItems hydrated tail head =
     fold window_step hydrated \<lparr>wm_page = [], wm_tail = tail, wm_head = head, wm_acked = []\<rparr>"

definition compare_seqs :: "stream_item \<Rightarrow> stream_item \<Rightarrow> int" where
  "compare_seqs l r = (case (si_cursor l, si_cursor r) of
      (Some p, Some q) \<Rightarrow> tp_seq p - tp_seq q
    | (None, None) \<Rightarrow> 0
    | (None, Some _) \<Rightarrow> 1
    | (Some _, None) \<Rightarrow> -1)"

definition outside_window :: "string \<Rightarrow> int \<Rightarrow> int \<Rightarrow> stream_item \<Rightarrow> bool" where
  "outside_window epoch a b r = (case si_cursor r of
      None \<Rightarrow> True | Some p \<Rightarrow> tp_epoch p \<noteq> epoch \<or> tp_seq p < a \<or> b < tp_seq p)"

definition earliest_loaded :: "timeline_range \<Rightarrow> int" where
  "earliest_loaded c = foldl min (cr_start c) (map rg_start (cr_retained c))"

definition merge_window_at ::
  "timeline_unit list \<Rightarrow> timeline_response \<Rightarrow> stream \<Rightarrow> stream \<Rightarrow> timeline_range \<Rightarrow> int \<Rightarrow> int \<Rightarrow>
     string + path_result" where
  "merge_window_at units p tail head current a b =
     (let ((t, h), rest) = reconcileOverlappingProjectedStreamItems (tr_epoch p) (Some (cr_end current)) units
            (tail, head);
          retained = filter (outside_window (tr_epoch p) a b) t
      in bind_sum
           (hydrateStreamState (toHydratedEvents (tr_epoch p) rest) CanonicalSource
              (reserved_ids (retained @ h)))
           (\<lambda>hydrated.
             let w = reconcilePromptWindowItems hydrated retained h;
                 cursor = mergeTimelineCoverage current
                   \<lparr>rg_start = a, rg_end = b, rg_hasOlder = Some (tr_hasOlder p)\<rparr>
             in Inr \<lparr>pr_tail = js_sort compare_seqs (wm_tail w @ wm_page w), pr_head = wm_head w,
                  pr_cursor = Some cursor, pr_cursorChanged = (\<not> timelineCursorEquals current cursor),
                  pr_older = (if a \<le> earliest_loaded current then older_of (tr_hasOlder p)
                    else OlderUnchanged),
                  pr_effects = [], pr_acked = wm_acked w\<rparr>))"

definition mergeTimelineWindow ::
  "timeline_unit list \<Rightarrow> timeline_response \<Rightarrow> stream \<Rightarrow> stream \<Rightarrow> timeline_range option \<Rightarrow>
     string + path_result" where
  "mergeTimelineWindow units p tail head cursor = (case (tr_start p, tr_end p, cursor) of
      (Some a, Some b, Some current) \<Rightarrow>
        if cr_epoch current \<noteq> tr_epoch p then Inr (unchanged_path tail head cursor)
        else merge_window_at units p tail head current a b
    | _ \<Rightarrow> Inr (unchanged_path tail head cursor))"

section \<open>Accepting a page next to the cursor\<close>

definition response_bounds :: "timeline_unit list \<Rightarrow> timeline_response \<Rightarrow> (int \<times> int) option" where
  "response_bounds units p =
     (case (or_else (tr_start p) (map_option tu_seq (first_opt units)),
            or_else (tr_end p) (map_option tu_seqEnd (last_opt units))) of
        (Some a, Some b) \<Rightarrow> Some (a, b) | _ \<Rightarrow> None)"

type_synonym acceptance = "timeline_unit list \<times> timeline_range option \<times> (string \<times> int) option"

definition acceptIncrementalTimelineUnits ::
  "timeline_unit list \<Rightarrow> timeline_response \<Rightarrow> timeline_range option \<Rightarrow> acceptance" where
  "acceptIncrementalTimelineUnits units p cursor = (case response_bounds units p of
      None \<Rightarrow> ([], cursor, None)
    | Some (a, b) \<Rightarrow>
        (case cursor of
           None \<Rightarrow> (units, Some \<lparr>cr_epoch = tr_epoch p, cr_start = a, cr_end = b, cr_retained = []\<rparr>, None)
         | Some c \<Rightarrow>
             if cr_epoch c \<noteq> tr_epoch p then ([], cursor, None)
             else if (tr_start p = None \<or> tr_end p = None) \<and> a \<le> cr_end c \<and> cr_end c < b
             then ([], cursor, Some (cr_epoch c, cr_end c))
             else if b \<le> cr_end c then ([], cursor, None)
             else if cr_end c + 1 < a then ([], cursor, Some (cr_epoch c, cr_end c))
             else (units, Some (c\<lparr>cr_end := b\<rparr>), None)))"

definition acceptOlderTimelineUnits ::
  "timeline_unit list \<Rightarrow> timeline_response \<Rightarrow> timeline_range option \<Rightarrow> acceptance" where
  "acceptOlderTimelineUnits units p cursor = (case (cursor, response_bounds units p) of
      (Some c, Some (a, b)) \<Rightarrow>
        if cr_epoch c \<noteq> tr_epoch p \<or> b \<noteq> cr_start c - 1 then ([], cursor, None)
        else (units, Some (mergeTimelineCoverage c
               \<lparr>rg_start = a, rg_end = b, rg_hasOlder = Some (tr_hasOlder p)\<rparr>), None)
    | _ \<Rightarrow> ([], cursor, None))"

section \<open>Putting a page before the stream\<close>

definition mergeTimelineIdentityBoundary :: "stream \<Rightarrow> stream \<Rightarrow> stream option" where
  "mergeTimelineIdentityBoundary older current =
     (if older = [] \<or> current = [] then None
      else
        let l = last older; f = hd current in
        if streamTimelineItemIdentity l = None \<or>
           streamTimelineItemIdentity l \<noteq> streamTimelineItemIdentity f then None
        else if is_plugin (si_body l) \<and> is_plugin (si_body f) then Some (butlast older @ f # tl current)
        else (case (call_data (si_body l), call_data (si_body f)) of
            (Some old, Some data) \<Rightarrow>
              Some (butlast older @ mergeAgentToolCallItem l old data (si_timestamp f) None # tl current)
          | _ \<Rightarrow> None))"

definition prepend_step :: "stream_item \<Rightarrow> stream \<times> stream \<Rightarrow> stream \<times> stream" where
  "prepend_step item s = (case s of (remaining, current) \<Rightarrow>
     (if \<not> si_user item then (remaining @ [item], current)
      else
        let u = upsertUserMessageAcrossStream current [] item PrependTail PresentExisting CanonicalIncoming in
        case ac_location u of
          Some l \<Rightarrow>
            if ul_matched l then (remaining @ [ul_message l], without_index (ul_index l) (ac_tail u))
            else (remaining @ [item], current)
        | None \<Rightarrow> (remaining @ [item], current)))"

definition merge_assistants :: "stream_item \<Rightarrow> stream_item \<Rightarrow> stream_item" where
  "merge_assistants older current = (case assistant_parts (si_body current) of
      None \<Rightarrow> current
    | Some (m, s, g, i) \<Rightarrow> current\<lparr>si_body := AssistantRow (or_else m (si_message older))
        (si_text older @ s) g i\<rparr>)"

definition mergePrependedCanonicalTail :: "stream \<Rightarrow> stream \<Rightarrow> stream" where
  "mergePrependedCanonicalTail olderTail currentTail =
     (if olderTail = [] then currentTail
      else if currentTail = [] then olderTail
      else
        let (older, current) = fold prepend_step olderTail ([], currentTail) in
        if older = [] then current
        else case mergeTimelineIdentityBoundary older current of
            Some merged \<Rightarrow> merged
          | None \<Rightarrow>
              if current = [] \<or> \<not> si_assistant (last older) \<or> \<not> si_assistant (hd current)
              then older @ current
              else butlast older @ merge_assistants (last older) (hd current) # tl current)"

definition position_in :: "string \<Rightarrow> stream_item \<Rightarrow> int option" where
  "position_in epoch r = (case si_cursor r of
      None \<Rightarrow> None | Some p \<Rightarrow> if tp_epoch p = epoch then Some (tp_seq p) else None)"

definition mergeOlderTimelinePage :: "stream \<Rightarrow> stream \<Rightarrow> string \<Rightarrow> int \<Rightarrow> int \<Rightarrow> stream" where
  "mergeOlderTimelinePage page currentTail epoch a b =
     filter (\<lambda>r. case position_in epoch r of None \<Rightarrow> False | Some n \<Rightarrow> n < a) currentTail @
     mergePrependedCanonicalTail page
       (filter (\<lambda>r. case position_in epoch r of None \<Rightarrow> True | Some n \<Rightarrow> \<not> n < a \<and> b < n) currentTail)"

section \<open>Appending a page\<close>

definition replaceLiveAssistantWithProjectedText ::
  "stream \<Rightarrow> timeline_item \<Rightarrow> int \<Rightarrow> timeline_position \<Rightarrow> stream option" where
  "replaceLiveAssistantWithProjectedText head item timestamp cursor = (case item of
      AssistantMessage s _ \<Rightarrow>
        (case find_last_index si_assistant head of
           None \<Rightarrow> None
         | Some i \<Rightarrow>
             if prefix (si_text (head ! i)) s
             then Some (head[i := (with_row_text s (head ! i))\<lparr>si_timestamp := timestamp, si_cursor := Some cursor\<rparr>])
             else None)
    | _ \<Rightarrow> None)"

type_synonym acked_lanes = "lanes \<times> string list"

definition lanes_of :: "lane_result \<Rightarrow> acked_lanes" where
  "lanes_of r = ((lr_tail r, lr_head r), lr_acked r)"

definition map_sum_right :: "('a \<Rightarrow> 'b) \<Rightarrow> 'e + 'a \<Rightarrow> 'e + 'b" where
  "map_sum_right f r = bind_sum r (\<lambda>x. Inr (f x))"

fun is_user_item :: "timeline_item \<Rightarrow> bool" where
  "is_user_item (UserMessage _ _ _) = True"
| "is_user_item _ = False"

fun assistant_item :: "timeline_item \<Rightarrow> bool" where
  "assistant_item (AssistantMessage _ _) = True"
| "assistant_item _ = False"

definition starts_other_message :: "stream \<Rightarrow> timeline_item \<Rightarrow> bool" where
  "starts_other_message head item \<longleftrightarrow> assistant_item item \<and> getIncomingAssistantMessageId item \<noteq> None \<and>
     getIncomingAssistantMessageId item \<noteq>
       (case find_last_index si_assistant head of None \<Rightarrow> None | Some i \<Rightarrow> si_message (head ! i))"

definition applyCanonicalForwardUnit ::
  "(string \<Rightarrow> (nat \<times> nat) list) \<Rightarrow> string \<Rightarrow> timeline_unit \<Rightarrow> lanes \<Rightarrow> string + acked_lanes" where
  "applyCanonicalForwardUnit parse epoch u lanes =
     (let (tail, head) = lanes; cursor = unit_cursor epoch u; event = tu_event u;
          applied = map_sum_right lanes_of
            (applyStreamEvent parse tail head event (tu_timestamp u) CanonicalSource (Some cursor) TailLane);
          reduced = (\<lambda>state. outcome (reduceStreamUpdate state event (tu_timestamp u) CanonicalSource []
            (Some cursor)) state)
      in if is_user_item (tu_item u) then applied
         else if head = [] then map_sum_right (\<lambda>t. ((t, head), [])) (reduced tail)
         else case replaceLiveAssistantWithProjectedText head (tu_item u) (tu_timestamp u) cursor of
             Some h \<Rightarrow> Inr ((tail, h), [])
           | None \<Rightarrow>
               if starts_other_message head (tu_item u)
               then map_sum_right (\<lambda>h. ((settled (flushHeadToTail tail head) tail, h), [])) (reduced [])
               else applied)"

definition acknowledge_all :: "string list \<Rightarrow> string list \<Rightarrow> string list" where
  "acknowledge_all new acked = foldl (\<lambda>a c. if c \<in> set a then a else a @ [c]) acked new"

definition ack_step ::
  "(string \<Rightarrow> (nat \<times> nat) list) \<Rightarrow> string \<Rightarrow> timeline_unit \<Rightarrow> acked_lanes \<Rightarrow> string + acked_lanes" where
  "ack_step parse epoch u s = map_sum_right (\<lambda>r. (fst r, acknowledge_all (snd r) (snd s)))
     (applyCanonicalForwardUnit parse epoch u (fst s))"

definition forward_step ::
  "(string \<Rightarrow> (nat \<times> nat) list) \<Rightarrow> string \<Rightarrow> timeline_unit \<Rightarrow> lanes \<Rightarrow> string + lanes" where
  "forward_step parse epoch u l = map_sum_right fst (applyCanonicalForwardUnit parse epoch u l)"

definition deriveCanonicalAcknowledgements ::
  "(string \<Rightarrow> (nat \<times> nat) list) \<Rightarrow> string \<Rightarrow> timeline_unit list \<Rightarrow> lanes \<Rightarrow> string + string list" where
  "deriveCanonicalAcknowledgements parse epoch units lanes =
     map_sum_right snd
       (fold_sum (ack_step parse epoch) (filter (\<lambda>u. is_user_item (tu_item u)) units) (lanes, []))"

definition applyAcceptedForwardTimelineUnits ::
  "(string \<Rightarrow> (nat \<times> nat) list) \<Rightarrow> string \<Rightarrow> timeline_unit list \<Rightarrow> int option \<Rightarrow> lanes \<Rightarrow>
     string + acked_lanes" where
  "applyAcceptedForwardTimelineUnits parse epoch units endSeq lanes =
     (let (reconciled, rest) = reconcileOverlappingProjectedStreamItems epoch endSeq units lanes in
      bind_sum (fold_sum (forward_step parse epoch) rest reconciled)
        (\<lambda>l. map_sum_right (Pair l) (deriveCanonicalAcknowledgements parse epoch units lanes)))"

definition applyAcceptedTimelinePage ::
  "(string \<Rightarrow> (nat \<times> nat) list) \<Rightarrow> timeline_unit list \<Rightarrow> timeline_response \<Rightarrow> timeline_range option \<Rightarrow>
     lanes \<Rightarrow> string + acked_lanes" where
  "applyAcceptedTimelinePage parse units p cursor lanes =
     (if units = [] then Inr (lanes, [])
      else if tr_direction p \<noteq> Before
      then applyAcceptedForwardTimelineUnits parse (tr_epoch p) units (map_option cr_end cursor) lanes
      else
        map_sum_right
          (\<lambda>older. ((mergeOlderTimelinePage older (fst lanes) (tr_epoch p)
              (default (tu_seq (hd units)) (tr_start p)) (default (tu_seqEnd (last units)) (tr_end p)),
            snd lanes), []))
          (hydrateStreamState (toHydratedEvents (tr_epoch p) units) CanonicalSource
            (reserved_ids (fst lanes))))"

definition resolveOlderTimelineAvailability ::
  "timeline_response \<Rightarrow> timeline_range option \<Rightarrow> timeline_range option \<Rightarrow> older_state" where
  "resolveOlderTimelineAvailability p cursor current = (case (cursor, current) of
      (Some c, Some c0) \<Rightarrow>
        if tr_direction p \<noteq> Before \<or> cr_start c = cr_start c0 then OlderUnchanged
        else older_of (default (tr_hasOlder p)
          (case find_index (\<lambda>r. rg_start r = cr_start c) (cr_retained c0) of
             None \<Rightarrow> None | Some i \<Rightarrow> rg_hasOlder (cr_retained c0 ! i)))
    | _ \<Rightarrow> OlderUnchanged)"

definition applyTimelineIncrementalPath ::
  "(string \<Rightarrow> (nat \<times> nat) list) \<Rightarrow> timeline_unit list \<Rightarrow> timeline_response \<Rightarrow> stream \<Rightarrow> stream \<Rightarrow>
     timeline_range option \<Rightarrow> string + path_result" where
  "applyTimelineIncrementalPath parse units p tail head current =
     (if units = [] \<and> tr_direction p \<noteq> Before then Inr (unchanged_path tail head current)
      else
        let (accepted, cursor, gap) = (if tr_direction p = Before
              then acceptOlderTimelineUnits units p current
              else acceptIncrementalTimelineUnits units p current);
            changed = (case cursor of None \<Rightarrow> False
              | Some c \<Rightarrow> (case current of None \<Rightarrow> True | Some c0 \<Rightarrow> \<not> timelineCursorEquals c0 c))
        in map_sum_right
             (\<lambda>((t, h), acked). \<lparr>pr_tail = t, pr_head = h, pr_cursor = (if changed then cursor else current),
                pr_cursorChanged = changed, pr_older = resolveOlderTimelineAvailability p cursor current,
                pr_effects = (case gap of None \<Rightarrow> [] | Some (e, n) \<Rightarrow> [CatchUp e n]), pr_acked = acked\<rparr>)
             (applyAcceptedTimelinePage parse accepted p current (tail, head)))"

section \<open>processTimelineResponse\<close>

record response_input =
  ri_payload :: timeline_response
  ri_tail :: stream
  ri_head :: stream
  ri_cursor :: "timeline_range option"
  ri_isInitializing :: bool
  ri_hasDeferred :: bool
  ri_initDirection :: fetch_direction
  ri_sending :: "string list"

datatype commit_kind = ApplyCommit | DiscardCommit
datatype init_resolution = ResolveInit | RejectInit

record response_output =
  ro_commit :: commit_kind
  ro_tail :: stream
  ro_head :: stream
  ro_cursor :: "timeline_range option"
  ro_cursorChanged :: bool
  ro_older :: older_state
  ro_initResolution :: "init_resolution option"
  ro_clearInitializing :: bool
  ro_error :: "string option"
  ro_effects :: "reducer_effect list"
  ro_acked :: "string list"

definition failed_response :: "response_input \<Rightarrow> string \<Rightarrow> response_output" where
  "failed_response i e = \<lparr>ro_commit = ApplyCommit, ro_tail = ri_tail i, ro_head = ri_head i,
     ro_cursor = ri_cursor i, ro_cursorChanged = False, ro_older = OlderUnchanged,
     ro_initResolution = (if ri_hasDeferred i then Some RejectInit else None),
     ro_clearInitializing = ri_isInitializing i, ro_error = Some e, ro_effects = [], ro_acked = []\<rparr>"

definition response_units :: "(string \<Rightarrow> int) \<Rightarrow> timeline_response \<Rightarrow> timeline_unit list" where
  "response_units new_Date p = map (unit_of_entry new_Date) (selectEntriesOwnedByTimelinePage p)"

definition resume_of :: "response_input \<Rightarrow> resume_policy" where
  "resume_of i = deriveResumeTailPolicy (ri_payload i) (ri_cursor i)
     (fst (deriveBootstrapTailTimelinePolicy (ri_payload i) (ri_isInitializing i) (ri_hasDeferred i)))"

definition response_path ::
  "(string \<Rightarrow> (nat \<times> nat) list) \<Rightarrow> (string \<Rightarrow> int) \<Rightarrow> response_input \<Rightarrow> string + path_result" where
  "response_path parse new_Date i =
     (let p = ri_payload i; units = response_units new_Date p; tail = ri_tail i; head = ri_head i;
          cursor = ri_cursor i;
          (replaces, catchUp) = deriveBootstrapTailTimelinePolicy p (ri_isInitializing i) (ri_hasDeferred i);
          resume = resume_of i
      in if resume = ResumeDiscard then
           map_sum_right (\<lambda>acked. (unchanged_path tail head cursor)
               \<lparr>pr_acked := filter (\<lambda>c. c \<in> set (ri_sending i)) acked\<rparr>)
             (deriveCanonicalAcknowledgements parse (tr_epoch p) units (tail, head))
         else if tr_mergeWindow p then mergeTimelineWindow units p tail head cursor
         else if replaces \<or> resume_replaces resume \<noteq> None then
           applyTimelineReplacePath units p (if resume_replaces resume \<noteq> None then None else catchUp)
             tail head (ri_sending i) (shouldPreserveReplacementContinuity resume cursor p)
         else
           applyTimelineIncrementalPath parse
             (case (resume, cursor) of
                (ResumeAppend, Some c) \<Rightarrow> filter (\<lambda>u. cr_end c < tu_seqEnd u) units
              | _ \<Rightarrow> units) p tail head cursor)"

definition response_result :: "response_input \<Rightarrow> path_result \<Rightarrow> response_output" where
  "response_result i r =
     (let p = ri_payload i;
          resolves = shouldResolveTimelineInit (ri_hasDeferred i) (ri_isInitializing i) (ri_initDirection i) p
      in \<lparr>ro_commit = (if resume_of i = ResumeDiscard then DiscardCommit else ApplyCommit),
          ro_tail = pr_tail r, ro_head = pr_head r, ro_cursor = pr_cursor r,
          ro_cursorChanged = pr_cursorChanged r, ro_older = pr_older r,
          ro_initResolution = (if resolves then Some ResolveInit else None),
          ro_clearInitializing = ((resolves \<or> ri_isInitializing i \<and> \<not> ri_hasDeferred i) \<and>
            (tr_direction p \<noteq> After \<or> \<not> tr_hasNewer p)),
          ro_error = None, ro_effects = pr_effects r @ [FlushPendingUpdates], ro_acked = pr_acked r\<rparr>)"

definition processTimelineResponse ::
  "(string \<Rightarrow> (nat \<times> nat) list) \<Rightarrow> (string \<Rightarrow> int) \<Rightarrow> response_input \<Rightarrow> string + response_output" where
  "processTimelineResponse parse new_Date i = (case truthy (tr_error (ri_payload i)) of
      Some e \<Rightarrow> Inr (failed_response i e)
    | None \<Rightarrow> map_sum_right (response_result i) (response_path parse new_Date i))"

end
