(* ===== verification/Stream_Live.thy ===== *)
theory Stream_Live
  imports Stream_Responses
begin

text \<open>
  The live side of \<open>packages/app/src/timeline/session-stream-reducers.ts\<close>: the gate that admits an event by
  its sequence number, \<open>processAgentStreamEvent(s)\<close>, and the queue that collects events per agent until a
  flush.  The lemmas show that the admitted events of an epoch are consecutive and each admitted once.
\<close>

section \<open>One event\<close>

record gate_result =
  gt_apply :: bool
  gt_cursor :: "timeline_range option"
  gt_reset :: bool
  gt_effects :: "(string \<times> int) list"

definition gate_base :: gate_result where
  "gate_base = \<lparr>gt_apply = True, gt_cursor = None, gt_reset = False, gt_effects = []\<rparr>"

fun timeline_event_item :: "agent_stream_event \<Rightarrow> timeline_item option" where
  "timeline_event_item (TimelineEvent item _ _ _) = Some item"
| "timeline_event_item _ = None"

definition fresh_range :: "string \<Rightarrow> int \<Rightarrow> timeline_range" where
  "fresh_range epoch seq = \<lparr>cr_epoch = epoch, cr_start = seq, cr_end = seq, cr_retained = []\<rparr>"

text \<open>\<open>cursorChanged\<close> is true exactly when the gate returns a cursor.\<close>

definition processTimelineSequencingGate ::
  "agent_stream_event \<Rightarrow> int option \<Rightarrow> string option \<Rightarrow> timeline_range option \<Rightarrow> bool \<Rightarrow> gate_result" where
  "processTimelineSequencingGate event seq epoch cursor baseline = (case (timeline_event_item event, seq, epoch) of
      (Some _, Some n, Some e) \<Rightarrow>
        if \<not> baseline then gate_base
        else (case classifySessionTimelineSeq (map_option (\<lambda>c. (cr_epoch c, cr_end c)) cursor) e n of
            Init \<Rightarrow> gate_base\<lparr>gt_cursor := Some (fresh_range e n)\<rparr>
          | Accept \<Rightarrow> gate_base\<lparr>gt_cursor :=
              Some ((default (fresh_range e n) cursor)\<lparr>cr_epoch := e, cr_end := n\<rparr>)\<rparr>
          | Gap \<Rightarrow> gate_base\<lparr>gt_apply := False,
              gt_effects := (case cursor of None \<Rightarrow> [] | Some c \<Rightarrow> [(cr_epoch c, cr_end c)])\<rparr>
          | DropEpoch \<Rightarrow>
              if n = 1 then gate_base\<lparr>gt_cursor := Some (fresh_range e n), gt_reset := True\<rparr>
              else gate_base\<lparr>gt_apply := False\<rparr>
          | DropStale \<Rightarrow> gate_base\<lparr>gt_apply := False\<rparr>)
    | _ \<Rightarrow> gate_base)"

record live_event =
  le_event :: agent_stream_event
  le_seq :: "int option"
  le_epoch :: "string option"
  le_timestamp :: int

record live_state =
  lv_tail :: stream
  lv_head :: stream
  lv_cursor :: "timeline_range option"
  lv_changedTail :: bool
  lv_changedHead :: bool
  lv_cursorChanged :: bool
  lv_acked :: "string list"
  lv_tasks :: "agent_task_item list option"
  lv_effects :: "(string \<times> int) list"

definition event_cursor :: "live_event \<Rightarrow> timeline_position option" where
  "event_cursor e = (case (timeline_event_item (le_event e), le_seq e, le_epoch e) of
      (Some _, Some n, Some d) \<Rightarrow> Some \<lparr>tp_epoch = d, tp_seq = n\<rparr>
    | _ \<Rightarrow> None)"

fun is_user_event :: "agent_stream_event \<Rightarrow> bool" where
  "is_user_event (TimelineEvent (UserMessage _ _ _) _ _ _) = True"
| "is_user_event _ = False"

text \<open>Without an authoritative baseline the head is an overlay over the tail, reduced like a stream of its own.\<close>

definition overlay_event ::
  "(string \<Rightarrow> (nat \<times> nat) list) \<Rightarrow> stream \<Rightarrow> stream \<Rightarrow> live_event \<Rightarrow> string + lane_result" where
  "overlay_event parse tail head e =
     (if is_user_event (le_event e)
      then applyStreamEvent parse tail head (le_event e) (le_timestamp e) Live (event_cursor e) HeadLane
      else map_sum_right
        (\<lambda>r. \<lparr>lr_tail = tail, lr_head = lr_tail r @ lr_head r, lr_changedTail = False,
              lr_changedHead = (lr_changedTail r \<or> lr_changedHead r), lr_acked = lr_acked r\<rparr>)
        (applyStreamEvent parse head [] (le_event e) (le_timestamp e) Live (event_cursor e) TailLane))"

definition gated_event ::
  "(string \<Rightarrow> (nat \<times> nat) list) \<Rightarrow> bool \<Rightarrow> stream \<Rightarrow> stream \<Rightarrow> gate_result \<Rightarrow> live_event \<Rightarrow>
     string + lane_result" where
  "gated_event parse baseline tail head g e =
     (if \<not> gt_apply g then Inr (unchanged_lanes tail head)
      else if \<not> baseline then overlay_event parse tail head e
      else applyStreamEvent parse (if gt_reset g then [] else tail) (if gt_reset g then [] else head)
        (le_event e) (le_timestamp e) Live (event_cursor e) TailLane)"

definition gate_of :: "bool \<Rightarrow> timeline_range option \<Rightarrow> live_event \<Rightarrow> gate_result" where
  "gate_of baseline cursor e =
     processTimelineSequencingGate (le_event e) (le_seq e) (le_epoch e) cursor baseline"

definition todo_snapshot :: "gate_result \<Rightarrow> live_event \<Rightarrow> agent_task_item list option" where
  "todo_snapshot g e = (case timeline_event_item (le_event e) of
      Some (Todo items) \<Rightarrow> if gt_apply g then Some items else None
    | _ \<Rightarrow> None)"

text \<open>\<open>processAgentStreamEvent\<close>, with its result as the state of a batch of one event.\<close>

definition processAgentStreamEvent ::
  "(string \<Rightarrow> (nat \<times> nat) list) \<Rightarrow> bool \<Rightarrow> stream \<Rightarrow> stream \<Rightarrow> timeline_range option \<Rightarrow> live_event \<Rightarrow>
     string + live_state" where
  "processAgentStreamEvent parse baseline tail head cursor e =
     (let g = gate_of baseline cursor e in
      map_sum_right
        (\<lambda>r. \<lparr>lv_tail = lr_tail r, lv_head = lr_head r, lv_cursor = gt_cursor g,
              lv_changedTail = lr_changedTail r, lv_changedHead = lr_changedHead r,
              lv_cursorChanged = (gt_cursor g \<noteq> None), lv_acked = lr_acked r,
              lv_tasks = todo_snapshot g e, lv_effects = gt_effects g\<rparr>)
        (gated_event parse baseline tail head g e))"

definition live_start :: "stream \<Rightarrow> stream \<Rightarrow> timeline_range option \<Rightarrow> live_state" where
  "live_start tail head cursor = \<lparr>lv_tail = tail, lv_head = head, lv_cursor = cursor, lv_changedTail = False,
     lv_changedHead = False, lv_cursorChanged = False, lv_acked = [], lv_tasks = None, lv_effects = []\<rparr>"

definition join_live :: "live_state \<Rightarrow> live_state \<Rightarrow> live_state" where
  "join_live s r = \<lparr>lv_tail = lv_tail r, lv_head = lv_head r,
     lv_cursor = (if lv_cursorChanged r then lv_cursor r else lv_cursor s),
     lv_changedTail = (lv_changedTail s \<or> lv_changedTail r),
     lv_changedHead = (lv_changedHead s \<or> lv_changedHead r),
     lv_cursorChanged = (lv_cursorChanged s \<or> lv_cursorChanged r),
     lv_acked = acknowledge_all (lv_acked r) (lv_acked s),
     lv_tasks = or_else (lv_tasks r) (lv_tasks s), lv_effects = lv_effects s @ lv_effects r\<rparr>"

definition live_step ::
  "(string \<Rightarrow> (nat \<times> nat) list) \<Rightarrow> bool \<Rightarrow> live_event \<Rightarrow> live_state \<Rightarrow> string + live_state" where
  "live_step parse baseline e s = map_sum_right (join_live s)
     (processAgentStreamEvent parse baseline (lv_tail s) (lv_head s) (lv_cursor s) e)"

record live_snapshot =
  sn_tail :: stream
  sn_head :: stream
  sn_cursor :: "timeline_range option"
  sn_baseline :: bool
  sn_detached :: bool

definition processAgentStreamEvents ::
  "(string \<Rightarrow> (nat \<times> nat) list) \<Rightarrow> live_event list \<Rightarrow> live_snapshot \<Rightarrow> string + live_state" where
  "processAgentStreamEvents parse events s =
     (let start = live_start (sn_tail s) (sn_head s) (sn_cursor s) in
      if sn_detached s then Inr start else fold_sum (live_step parse (sn_baseline s)) events start)"

section \<open>The queue\<close>

text \<open>
  \<open>'s\<close> is the state of the store that \<open>getSnapshot\<close> reads and \<open>commit\<close> and \<open>handleSideEffects\<close> change; the
  flush that is scheduled is known by its id, and \<open>rq_log\<close> records what the queue asked of the scheduler.
\<close>

datatype flush_call = Schedule nat | Cancel nat

record 's reducer_queue =
  rq_pending :: "(string, live_event list) js_map"
  rq_scheduled :: "nat option"
  rq_next :: nat
  rq_log :: "flush_call list"
  rq_store :: 's

record 's queue_ports =
  qp_snapshot :: "'s \<Rightarrow> string \<Rightarrow> live_snapshot"
  qp_commit :: "string \<Rightarrow> live_state \<Rightarrow> live_event list \<Rightarrow> 's \<Rightarrow> 's"
  qp_effects :: "string \<Rightarrow> (string \<times> int) list \<Rightarrow> 's \<Rightarrow> 's"

definition cancelScheduledFlush :: "'s reducer_queue \<Rightarrow> 's reducer_queue" where
  "cancelScheduledFlush q = (case rq_scheduled q of
      None \<Rightarrow> q | Some i \<Rightarrow> q\<lparr>rq_scheduled := None, rq_log := rq_log q @ [Cancel i]\<rparr>)"

definition queue_scheduleFlush :: "'s reducer_queue \<Rightarrow> 's reducer_queue" where
  "queue_scheduleFlush q = (case rq_scheduled q of
      Some _ \<Rightarrow> q
    | None \<Rightarrow> q\<lparr>rq_scheduled := Some (rq_next q), rq_next := rq_next q + 1,
               rq_log := rq_log q @ [Schedule (rq_next q)]\<rparr>)"

definition queue_enqueue :: "string \<Rightarrow> live_event \<Rightarrow> 's reducer_queue \<Rightarrow> 's reducer_queue" where
  "queue_enqueue agentId e q = queue_scheduleFlush
     (q\<lparr>rq_pending := AList.update agentId (default [] (map_of (rq_pending q) agentId) @ [e]) (rq_pending q)\<rparr>)"

text \<open>An exception leaves the queue as it was when it was raised: the events of the agent are gone.\<close>

definition flushAgent ::
  "(string \<Rightarrow> (nat \<times> nat) list) \<Rightarrow> 's queue_ports \<Rightarrow> string \<Rightarrow> 's reducer_queue \<Rightarrow>
     string option \<times> 's reducer_queue" where
  "flushAgent parse ports agentId q = (case map_of (rq_pending q) agentId of
      None \<Rightarrow> (None, q)
    | Some events \<Rightarrow>
        if events = [] then (None, q)
        else
          let q1 = q\<lparr>rq_pending := AList.delete agentId (rq_pending q)\<rparr>;
              q2 = (if rq_pending q1 = [] then cancelScheduledFlush q1 else q1)
          in case processAgentStreamEvents parse events (qp_snapshot ports (rq_store q2) agentId) of
               Inl e \<Rightarrow> (Some e, q2)
             | Inr r \<Rightarrow>
                 let store = qp_commit ports agentId r events (rq_store q2);
                     store' = (if lv_effects r \<noteq> [] then qp_effects ports agentId (lv_effects r) store else store)
                 in (None, q2\<lparr>rq_store := store'\<rparr>))"

fun flush_agents ::
  "(string \<Rightarrow> (nat \<times> nat) list) \<Rightarrow> 's queue_ports \<Rightarrow> string list \<Rightarrow> 's reducer_queue \<Rightarrow>
     string option \<times> 's reducer_queue" where
  "flush_agents parse ports [] q = (None, q)"
| "flush_agents parse ports (a # rest) q = (case flushAgent parse ports a q of
      (Some e, q') \<Rightarrow> (Some e, q')
    | (None, q') \<Rightarrow> flush_agents parse ports rest q')"

definition queue_flush ::
  "(string \<Rightarrow> (nat \<times> nat) list) \<Rightarrow> 's queue_ports \<Rightarrow> 's reducer_queue \<Rightarrow>
     string option \<times> 's reducer_queue" where
  "queue_flush parse ports q = flush_agents parse ports (map fst (rq_pending q)) q"

definition queue_fire ::
  "(string \<Rightarrow> (nat \<times> nat) list) \<Rightarrow> 's queue_ports \<Rightarrow> 's reducer_queue \<Rightarrow>
     string option \<times> 's reducer_queue" where
  "queue_fire parse ports q = queue_flush parse ports (q\<lparr>rq_scheduled := None\<rparr>)"

definition queue_dispose ::
  "(string \<Rightarrow> (nat \<times> nat) list) \<Rightarrow> 's queue_ports \<Rightarrow> bool \<Rightarrow> 's reducer_queue \<Rightarrow>
     string option \<times> 's reducer_queue" where
  "queue_dispose parse ports flush q0 =
     (let q = cancelScheduledFlush q0 in
      if flush then queue_flush parse ports q else (None, q\<lparr>rq_pending := []\<rparr>))"

end
