(* ===== verification/Client_Session.thy ===== *)
theory Client_Session
  imports Stream_Live
begin

text \<open>
  What the client keeps of the agents of one host, as far as timelines go: the slice of
  \<open>packages/app/src/stores/session-store.ts\<close> that holds the lanes, cursors and flags of every agent, the
  submissions of \<open>composer/submission/model.ts\<close>, the queue of
  \<open>createSessionAgentStreamReducerQueue\<close>, and the responses as \<open>timeline/viewed-timeline-sync.ts\<close> commits
  them.  The order of a JavaScript \<open>Map\<close> is not observed here, so the maps are partial functions.
\<close>

section \<open>Submissions\<close>

record submission =
  sub_client :: string
  sub_acknowledged :: bool
  sub_settled :: bool

definition getActiveMessageSubmissions :: "submission list \<Rightarrow> submission list" where
  "getActiveMessageSubmissions subs = filter (\<lambda>s. \<not> sub_acknowledged s) subs"

definition getSendingClientMessageIds :: "submission list \<Rightarrow> string list" where
  "getSendingClientMessageIds subs = map sub_client (filter (\<lambda>s. \<not> sub_acknowledged s) subs)"

definition beginMessageSubmission :: "submission list \<Rightarrow> string \<Rightarrow> string + submission list" where
  "beginMessageSubmission subs c =
     (if \<exists>s\<in>set subs. sub_client s = c then Inl (''Message submission already exists: '' @ c)
      else Inr (subs @ [\<lparr>sub_client = c, sub_acknowledged = False, sub_settled = False\<rparr>]))"

definition acceptMessageSubmission :: "submission list \<Rightarrow> string \<Rightarrow> submission list" where
  "acceptMessageSubmission subs c = (case find_index (\<lambda>s. sub_client s = c) subs of
      None \<Rightarrow> subs
    | Some i \<Rightarrow>
        if sub_acknowledged (subs ! i) then without_index i subs
        else if sub_settled (subs ! i) then subs
        else subs[i := (subs ! i)\<lparr>sub_settled := True\<rparr>])"

definition observeMessageSubmissionCanonical :: "submission list \<Rightarrow> string list \<Rightarrow> submission list" where
  "observeMessageSubmissionCanonical subs ids =
     concat (map (\<lambda>s.
       if sub_acknowledged s \<or> sub_client s \<notin> set ids then [s]
       else if sub_settled s then [] else [s\<lparr>sub_acknowledged := True\<rparr>]) subs)"

datatype rejection = Rejected | Accepted | UnknownSubmission

definition rejectMessageSubmission :: "submission list \<Rightarrow> string \<Rightarrow> rejection \<times> submission list" where
  "rejectMessageSubmission subs c = (case find_index (\<lambda>s. sub_client s = c) subs of
      None \<Rightarrow> (UnknownSubmission, subs)
    | Some i \<Rightarrow> (if sub_acknowledged (subs ! i) then Accepted else Rejected,
        filter (\<lambda>s. sub_client s \<noteq> c) subs))"

section \<open>The store\<close>

record client_session =
  cs_tail :: "string \<rightharpoonup> stream"
  cs_head :: "string \<rightharpoonup> stream"
  cs_tasks :: "string \<rightharpoonup> agent_task_item list"
  cs_cursor :: "string \<rightharpoonup> timeline_range"
  cs_hasOlder :: "string \<rightharpoonup> bool"
  cs_hasNewer :: "string \<rightharpoonup> bool"
  cs_applied :: "string \<rightharpoonup> bool"
  cs_generation :: int
  cs_synced :: "string \<rightharpoonup> int"
  cs_submissions :: "string \<rightharpoonup> submission list"

datatype timeline_status =
    ColdTimeline
  | PaintedTimeline stream
  | SyncedTimeline stream "timeline_range option" bool bool

definition tail_of :: "client_session \<Rightarrow> string \<Rightarrow> stream" where
  "tail_of s a = default [] (cs_tail s a)"

definition head_of :: "client_session \<Rightarrow> string \<Rightarrow> stream" where
  "head_of s a = default [] (cs_head s a)"

definition subs_of :: "client_session \<Rightarrow> string \<Rightarrow> submission list" where
  "subs_of s a = default [] (cs_submissions s a)"

text \<open>\<open>SyncedTimeline items rng older newer\<close>\<close>

definition selectAgentTimelineState :: "client_session \<Rightarrow> string \<Rightarrow> timeline_status" where
  "selectAgentTimelineState s a =
     (if cs_applied s a = Some True
      then SyncedTimeline (tail_of s a) (cs_cursor s a) (cs_hasOlder s a = Some True)
        (cs_hasNewer s a = Some True)
      else if tail_of s a \<noteq> [] then PaintedTimeline (tail_of s a) else ColdTimeline)"

definition non_empty_list :: "'a list \<Rightarrow> 'a list option" where
  "non_empty_list xs = (if xs = [] then None else Some xs)"

fun latestTasks :: "stream \<Rightarrow> agent_task_item list" where
  "latestTasks [] = []"
| "latestTasks (r # rs) = (case si_body r of TodoRow _ items _ \<Rightarrow> items | _ \<Rightarrow> latestTasks rs)"

definition latestTasksFromStream :: "stream \<Rightarrow> agent_task_item list" where
  "latestTasksFromStream items = latestTasks (rev items)"

definition updateAgentTasks ::
  "(string \<rightharpoonup> agent_task_item list) \<Rightarrow> string \<Rightarrow> agent_task_item list option \<Rightarrow>
     (string \<rightharpoonup> agent_task_item list)" where
  "updateAgentTasks tasks a snapshot = (case snapshot of
      None \<Rightarrow> tasks
    | Some ts \<Rightarrow> if default [] (tasks a) = ts then tasks else tasks(a := non_empty_list ts))"

definition observed :: "client_session \<Rightarrow> string \<Rightarrow> string list \<Rightarrow> (string \<rightharpoonup> submission list)" where
  "observed s a ids = (if observeMessageSubmissionCanonical (subs_of s a) ids = subs_of s a
     then cs_submissions s
     else (cs_submissions s)(a := non_empty_list (observeMessageSubmissionCanonical (subs_of s a) ids)))"

definition setAgentStreamState ::
  "string \<Rightarrow> stream option \<Rightarrow> stream option \<Rightarrow> string list \<Rightarrow> agent_task_item list option \<Rightarrow>
     client_session \<Rightarrow> client_session" where
  "setAgentStreamState a tail head acked tasks s =
     s\<lparr>cs_tail := (case tail of None \<Rightarrow> cs_tail s | Some t \<Rightarrow> (cs_tail s)(a \<mapsto> t)),
       cs_head := (case head of None \<Rightarrow> cs_head s | Some h \<Rightarrow> (cs_head s)(a := non_empty_list h)),
       cs_tasks := updateAgentTasks (cs_tasks s) a tasks,
       cs_submissions := observed s a acked\<rparr>"

definition set_lanes :: "string \<Rightarrow> lanes \<Rightarrow> client_session \<Rightarrow> client_session" where
  "set_lanes a l s =
     s\<lparr>cs_tail := (if fst l = tail_of s a then cs_tail s else (cs_tail s)(a \<mapsto> fst l)),
       cs_head := (if snd l = head_of s a then cs_head s else (cs_head s)(a \<mapsto> snd l))\<rparr>"

definition beginAgentMessageSubmission ::
  "string \<Rightarrow> stream_item \<Rightarrow> client_session \<Rightarrow> string + client_session" where
  "beginAgentMessageSubmission a message s = (case truthy (si_client message) of
      None \<Rightarrow> Inl ''Beginning a message submission requires client identity''
    | Some c \<Rightarrow>
        bind_sum (appendSubmittedUserMessage (tail_of s a, head_of s a) message) (\<lambda>l.
          bind_sum (beginMessageSubmission (subs_of s a) c) (\<lambda>subs.
            Inr ((set_lanes a l s)\<lparr>cs_submissions := (cs_submissions s)(a \<mapsto> subs)\<rparr>))))"

definition acceptAgentMessageSubmission :: "string \<Rightarrow> string \<Rightarrow> client_session \<Rightarrow> client_session" where
  "acceptAgentMessageSubmission a c s =
     (let subs = acceptMessageSubmission (subs_of s a) c in
      if subs = subs_of s a then s
      else s\<lparr>cs_submissions := (cs_submissions s)(a := non_empty_list subs)\<rparr>)"

definition rejectAgentMessageSubmission ::
  "string \<Rightarrow> string \<Rightarrow> client_session \<Rightarrow> rejection \<times> client_session" where
  "rejectAgentMessageSubmission a c s =
     (case rejectMessageSubmission (subs_of s a) c of
        (UnknownSubmission, _) \<Rightarrow> (UnknownSubmission, s)
      | (verdict, subs) \<Rightarrow>
          let l = (tail_of s a, head_of s a);
              l' = (if verdict = Rejected then removeSubmittedUserMessage l c else l)
          in (verdict, (set_lanes a l' s)\<lparr>cs_submissions :=
               (cs_submissions s)(a := non_empty_list subs)\<rparr>))"

definition handoffCreatedAgentUserMessage ::
  "string \<Rightarrow> stream_item \<Rightarrow> client_session \<Rightarrow> bool \<times> client_session" where
  "handoffCreatedAgentUserMessage a message s =
     (let r = handoffCreatedAgentUserMessageToStream (tail_of s a) (head_of s a) message in
      if \<not> ac_changedTail r \<and> \<not> ac_changedHead r then (False, s)
      else (True, s\<lparr>cs_tail := (if ac_changedTail r then (cs_tail s)(a \<mapsto> ac_tail r) else cs_tail s),
                    cs_head := (if ac_changedHead r then (cs_head s)(a \<mapsto> ac_head r) else cs_head s)\<rparr>))"

definition clearAgentStreamHead :: "string \<Rightarrow> client_session \<Rightarrow> client_session" where
  "clearAgentStreamHead a s = s\<lparr>cs_head := (cs_head s)(a := None)\<rparr>"

definition markAgentHistorySynchronized :: "string \<Rightarrow> client_session \<Rightarrow> client_session" where
  "markAgentHistorySynchronized a s = s\<lparr>cs_synced := (cs_synced s)(a \<mapsto> cs_generation s)\<rparr>"

definition applyAgentTimelineResponseState ::
  "string \<Rightarrow> lanes \<Rightarrow> timeline_range option \<Rightarrow> older_state \<Rightarrow> bool \<Rightarrow> bool \<Rightarrow> string list \<Rightarrow>
     client_session \<Rightarrow> client_session" where
  "applyAgentTimelineResponseState a l rng older newer synchronized acked s =
     s\<lparr>cs_tail := (cs_tail s)(a \<mapsto> fst l), cs_head := (cs_head s)(a := non_empty_list (snd l)),
       cs_tasks := (cs_tasks s)(a := non_empty_list (latestTasksFromStream (fst l @ snd l))),
       cs_cursor := (cs_cursor s)(a := rng),
       cs_hasOlder := (if older = OlderUnchanged then cs_hasOlder s
         else (cs_hasOlder s)(a \<mapsto> older = OlderAvailable)),
       cs_hasNewer := (cs_hasNewer s)(a \<mapsto> newer),
       cs_applied := (if synchronized then (cs_applied s)(a \<mapsto> True) else cs_applied s),
       cs_synced := (if synchronized then (cs_synced s)(a \<mapsto> cs_generation s) else cs_synced s),
       cs_submissions := observed s a acked\<rparr>"

section \<open>Live events\<close>

definition session_snapshot :: "client_session \<Rightarrow> string \<Rightarrow> live_snapshot" where
  "session_snapshot s a = (case selectAgentTimelineState s a of
      ColdTimeline \<Rightarrow> \<lparr>sn_tail = [], sn_head = head_of s a, sn_cursor = None, sn_baseline = False,
        sn_detached = False\<rparr>
    | PaintedTimeline items \<Rightarrow> \<lparr>sn_tail = items, sn_head = head_of s a, sn_cursor = None,
        sn_baseline = False, sn_detached = False\<rparr>
    | SyncedTimeline items rng _ newer \<Rightarrow> \<lparr>sn_tail = items, sn_head = head_of s a, sn_cursor = rng,
        sn_baseline = True, sn_detached = newer\<rparr>)"

definition inside_range :: "timeline_range \<Rightarrow> live_event \<Rightarrow> bool" where
  "inside_range c e = (case (le_seq e, le_epoch e) of
      (Some n, Some d) \<Rightarrow> cr_epoch c = d \<and> cr_start c \<le> n \<and> n \<le> cr_end c
    | _ \<Rightarrow> False)"

definition next_cursor ::
  "timeline_range option \<Rightarrow> timeline_range \<Rightarrow> live_event list \<Rightarrow> timeline_range option" where
  "next_cursor current new events = (case current of
      None \<Rightarrow> Some new
    | Some c \<Rightarrow>
        if (case last_opt events of None \<Rightarrow> False | Some e \<Rightarrow> inside_range c e) then Some c
        else if cr_epoch c = cr_epoch new \<and> cr_start c = cr_start new \<and> cr_end c = cr_end new then Some c
        else Some new)"

definition commit_live ::
  "string \<Rightarrow> live_state \<Rightarrow> live_event list \<Rightarrow> client_session \<Rightarrow> client_session" where
  "commit_live a r events s =
     (let s1 = (if lv_changedTail r \<or> lv_changedHead r \<or> lv_acked r \<noteq> [] \<or> lv_tasks r \<noteq> None
            then setAgentStreamState a (if lv_changedTail r then Some (lv_tail r) else None)
              (if lv_changedHead r then Some (lv_head r) else None) (lv_acked r) (lv_tasks r) s
            else s)
      in case (lv_cursorChanged r, lv_cursor r) of
           (True, Some c) \<Rightarrow> s1\<lparr>cs_cursor := (cs_cursor s1)(a := next_cursor (cs_cursor s1 a) c events)\<rparr>
         | _ \<Rightarrow> s1)"

definition session_live ::
  "(string \<Rightarrow> (nat \<times> nat) list) \<Rightarrow> string \<Rightarrow> live_event list \<Rightarrow> client_session \<Rightarrow>
     string + client_session \<times> (string \<times> int) list" where
  "session_live parse a events s =
     map_sum_right (\<lambda>r. (commit_live a r events s, lv_effects r))
       (processAgentStreamEvents parse events (session_snapshot s a))"

section \<open>Responses\<close>

definition isTimelineResumeSnapshotAuthoritative :: "timeline_response \<Rightarrow> bool" where
  "isTimelineResumeSnapshotAuthoritative p \<longleftrightarrow>
     truthy (tr_error p) = None \<and> tr_direction p \<noteq> Before \<and> (tr_direction p = Tail \<or> \<not> tr_hasNewer p)"

definition commitProcessedTimeline ::
  "string \<Rightarrow> timeline_response \<Rightarrow> response_output \<Rightarrow> timeline_range option \<Rightarrow> bool \<Rightarrow> client_session \<Rightarrow>
     client_session" where
  "commitProcessedTimeline a p r current synchronized s =
     (if ro_commit r \<noteq> DiscardCommit then
        applyAgentTimelineResponseState a (ro_tail r, ro_head r)
          (if ro_cursorChanged r then ro_cursor r else current) (ro_older r)
          (if tr_direction p = Before
           then (case selectAgentTimelineState s a of SyncedTimeline _ _ _ newer \<Rightarrow> newer | _ \<Rightarrow> False)
           else tr_hasNewer p) synchronized (ro_acked r) s
      else
        let s1 = (if ro_acked r \<noteq> [] then setAgentStreamState a None None (ro_acked r) None s else s);
            s2 = (if tr_direction p \<noteq> Before
              then s1\<lparr>cs_hasNewer := (cs_hasNewer s1)(a \<mapsto> tr_hasNewer p)\<rparr> else s1)
        in markAgentHistorySynchronized a s2)"

text \<open>\<open>waiting\<close> is the direction of the initialisation the agent waits for, if it does.\<close>

definition session_input ::
  "string \<Rightarrow> timeline_response \<Rightarrow> bool \<Rightarrow> fetch_direction option \<Rightarrow> timeline_range option \<Rightarrow>
     client_session \<Rightarrow> response_input" where
  "session_input a p isInitializing waiting cached s =
     \<lparr>ri_payload = p,
      ri_tail = (case selectAgentTimelineState s a of ColdTimeline \<Rightarrow> [] | _ \<Rightarrow> tail_of s a),
      ri_head = head_of s a,
      ri_cursor = (case selectAgentTimelineState s a of SyncedTimeline _ rng _ _ \<Rightarrow> rng | _ \<Rightarrow> cached),
      ri_isInitializing = isInitializing, ri_hasDeferred = (waiting \<noteq> None),
      ri_initDirection = default Tail waiting,
      ri_sending = getSendingClientMessageIds (subs_of s a)\<rparr>"

definition session_response ::
  "(string \<Rightarrow> (nat \<times> nat) list) \<Rightarrow> (string \<Rightarrow> int) \<Rightarrow> string \<Rightarrow> timeline_response \<Rightarrow> bool \<Rightarrow>
     fetch_direction option \<Rightarrow> timeline_range option \<Rightarrow> client_session \<Rightarrow> string + client_session" where
  "session_response parse new_Date a p isInitializing waiting cached s =
     (let i = session_input a p isInitializing waiting cached s in
      map_sum_right (\<lambda>r.
          if truthy (ro_error r) \<noteq> None then s
          else commitProcessedTimeline a p r (ri_cursor i) (isTimelineResumeSnapshotAuthoritative p) s)
        (processTimelineResponse parse new_Date i))"

end
