(* ===== verification/Stream_Gate.thy ===== *)
theory Stream_Gate
  imports Client_Session Stream_Rows
begin

text \<open>
  The gate in front of the live events: on a synchronised timeline the events of the epoch are applied in the
  order of their sequence numbers, each once, and an event that comes too early makes the client ask for what
  is missing.  At the end stand two ways in which the bookkeeping around the gate goes wrong.
\<close>

section \<open>Admitted events\<close>

definition next_range :: "timeline_range option \<Rightarrow> live_event \<Rightarrow> timeline_range option" where
  "next_range cursor e = or_else (gt_cursor (gate_of True cursor e)) cursor"

fun admitted :: "timeline_range option \<Rightarrow> live_event list \<Rightarrow> live_event list" where
  "admitted cursor [] = []"
| "admitted cursor (e # es) =
     (if gt_apply (gate_of True cursor e) then [e] else []) @ admitted (next_range cursor e) es"

definition seq_of :: "live_event \<Rightarrow> int list" where
  "seq_of e = (case event_cursor e of None \<Rightarrow> [] | Some p \<Rightarrow> [tp_seq p])"

definition apply_live :: "(string \<Rightarrow> (nat \<times> nat) list) \<Rightarrow> live_event \<Rightarrow> lanes \<Rightarrow> string + lanes" where
  "apply_live parse e lanes = map_sum_right (\<lambda>r. (lr_tail r, lr_head r))
     (applyStreamEvent parse (fst lanes) (snd lanes) (le_event e) (le_timestamp e) Live (event_cursor e) TailLane)"

definition of_epoch :: "string \<Rightarrow> live_event \<Rightarrow> bool" where
  "of_epoch epoch e \<longleftrightarrow> (case event_cursor e of None \<Rightarrow> True | Some p \<Rightarrow> tp_epoch p = epoch)"

definition advanced :: "timeline_range \<Rightarrow> nat \<Rightarrow> timeline_range" where
  "advanced c k = c\<lparr>cr_end := cr_end c + int k\<rparr>"

lemma advanced_simps [simp]:
  "cr_epoch (advanced c k) = cr_epoch c" "cr_end (advanced c k) = cr_end c + int k" "advanced c 0 = c"
  "advanced (advanced c k) l = advanced c (k + l)"
  by (simp_all add: advanced_def)

lemma map_sum_right_Inr: "map_sum_right f r = Inr y \<longleftrightarrow> (\<exists>x. r = Inr x \<and> y = f x)"
  by (cases r) (auto simp: map_sum_right_def)

lemma map_sum_right_simps [simp]: "map_sum_right f (Inr x) = Inr (f x)" "map_sum_right f (Inl e) = Inl e"
  by (simp_all add: map_sum_right_def)

lemma gate_cases:
  assumes "of_epoch (cr_epoch c) e"
  shows "gate_of True (Some c) e =
    (case seq_of e of
       [] \<Rightarrow> gate_base
     | n # _ \<Rightarrow>
         if n \<le> cr_end c then gate_base\<lparr>gt_apply := False\<rparr>
         else if n = cr_end c + 1 then gate_base\<lparr>gt_cursor := Some (advanced c 1)\<rparr>
         else gate_base\<lparr>gt_apply := False, gt_effects := [(cr_epoch c, cr_end c)]\<rparr>)"
  using assms
  by (auto simp: gate_of_def processTimelineSequencingGate_def seq_of_def event_cursor_def of_epoch_def
      classifySessionTimelineSeq_def advanced_def split: option.splits)

lemma gate_base_simps [simp]:
  "gt_apply gate_base" "gt_cursor gate_base = None" "\<not> gt_reset gate_base" "gt_effects gate_base = []"
  by (simp_all add: gate_base_def)

lemma no_reset:
  "of_epoch (cr_epoch c) e \<Longrightarrow> \<not> gt_reset (gate_of True (Some c) e)"
  by (simp add: gate_cases split: list.split)

text \<open>One event: what it does to the lanes, to the cursor and to the requests for missing rows.\<close>

lemma live_step_spec:
  assumes "of_epoch (cr_epoch c) e" "lv_cursor s = Some c" "live_step parse True e s = Inr r"
  shows "lv_cursor r = next_range (Some c) e"
    "lv_effects r = lv_effects s @ gt_effects (gate_of True (Some c) e)"
    "(if gt_apply (gate_of True (Some c) e) then apply_live parse e (lv_tail s, lv_head s)
      else Inr (lv_tail s, lv_head s)) = Inr (lv_tail r, lv_head r)"
proof -
  let ?g = "gate_of True (Some c) e"
  from assms(2,3) obtain x where x: "gated_event parse True (lv_tail s) (lv_head s) ?g e = Inr x"
    and r: "r = join_live s \<lparr>lv_tail = lr_tail x, lv_head = lr_head x, lv_cursor = gt_cursor ?g,
        lv_changedTail = lr_changedTail x, lv_changedHead = lr_changedHead x,
        lv_cursorChanged = (gt_cursor ?g \<noteq> None), lv_acked = lr_acked x,
        lv_tasks = todo_snapshot ?g e, lv_effects = gt_effects ?g\<rparr>"
    by (auto simp: live_step_def processAgentStreamEvent_def map_sum_right_Inr Let_def)
  show "lv_cursor r = next_range (Some c) e"
    using assms(2) by (cases "gt_cursor ?g") (simp_all add: r join_live_def next_range_def)
  show "lv_effects r = lv_effects s @ gt_effects ?g" by (simp add: r join_live_def)
  show "(if gt_apply ?g then apply_live parse e (lv_tail s, lv_head s)
      else Inr (lv_tail s, lv_head s)) = Inr (lv_tail r, lv_head r)"
    using x no_reset [OF assms(1)]
    by (auto simp: r join_live_def gated_event_def apply_live_def unchanged_lanes_def split: if_splits)
qed

lemma next_range_cases:
  assumes "of_epoch (cr_epoch c) e"
  shows "next_range (Some c) e = Some (advanced c (if seq_of e = [cr_end c + 1] then 1 else 0))"
  using assms by (auto simp: next_range_def gate_cases seq_of_def split: option.split)

lemma upto_Suc: "[a + 1..a + (1 + int k)] = (a + 1) # [2 + a..a + 1 + int k]"
  by (subst upto_rec1) (simp_all add: algebra_simps)

text \<open>
  A batch that moves the cursor by \<open>k\<close>: the admitted events carry the next \<open>k\<close> numbers, the lanes are those
  after the admitted events alone, and \<open>fx\<close> are the requests for missing rows.
\<close>

definition batch_spec ::
  "(string \<Rightarrow> (nat \<times> nat) list) \<Rightarrow> timeline_range \<Rightarrow> live_event list \<Rightarrow> lanes \<Rightarrow> nat \<Rightarrow>
     lanes \<Rightarrow> (string \<times> int) list \<Rightarrow> bool" where
  "batch_spec parse c events lanes k lanes' fx \<longleftrightarrow>
     concat (map seq_of (admitted (Some c) events)) = [cr_end c + 1..cr_end c + int k] \<and>
     fold_sum (apply_live parse) (admitted (Some c) events) lanes = Inr lanes' \<and>
     (\<forall>f\<in>set fx. fst f = cr_epoch c \<and> cr_end c \<le> snd f \<and> snd f \<le> cr_end c + int k) \<and>
     (\<forall>e\<in>set events. \<forall>n\<in>set (seq_of e). cr_end c + int k < n \<longrightarrow> fx \<noteq> [])"

lemma batch_spec_Cons:
  assumes "of_epoch (cr_epoch c) e"
    and "(if gt_apply (gate_of True (Some c) e) then apply_live parse e lanes else Inr lanes) = Inr lanes1"
    and "batch_spec parse (advanced c j) es lanes1 k lanes2 fx"
    and "j = (if seq_of e = [cr_end c + 1] then 1 else 0)"
  shows "batch_spec parse c (e # es) lanes (j + k) lanes2 (gt_effects (gate_of True (Some c) e) @ fx)"
proof -
  note gate = gate_cases [OF assms(1)] and nxt = next_range_cases [OF assms(1)]
  have adm: "admitted (Some c) (e # es) =
      (if gt_apply (gate_of True (Some c) e) then [e] else []) @ admitted (Some (advanced c j)) es"
    using nxt assms(4) by simp
  note rest = assms(3) [unfolded batch_spec_def]
  have "concat (map seq_of (admitted (Some c) (e # es))) = [cr_end c + 1..cr_end c + int (j + k)]"
    using rest gate assms(4) unfolding adm by (auto simp: seq_of_def upto_Suc split: option.splits)
  moreover have "fold_sum (apply_live parse) (admitted (Some c) (e # es)) lanes = Inr lanes2"
    using rest assms(2) unfolding adm by (simp split: if_splits)
  moreover have "\<forall>f\<in>set (gt_effects (gate_of True (Some c) e) @ fx).
      fst f = cr_epoch c \<and> cr_end c \<le> snd f \<and> snd f \<le> cr_end c + int (j + k)"
    using rest gate by (auto simp: assms(4) split: list.splits if_splits)
  moreover have "\<forall>d\<in>set (e # es). \<forall>n\<in>set (seq_of d). cr_end c + int (j + k) < n \<longrightarrow>
      gt_effects (gate_of True (Some c) e) @ fx \<noteq> []"
  proof (intro ballI impI)
    fix d n
    assume d: "d \<in> set (e # es)" "n \<in> set (seq_of d)" and n: "cr_end c + int (j + k) < n"
    show "gt_effects (gate_of True (Some c) e) @ fx \<noteq> []"
    proof (cases "d \<in> set es")
      case True
      have "cr_end (advanced c j) + int k < n" using n by simp
      with rest True d(2) show ?thesis by blast
    next
      case False
      with d have "seq_of e = [n]" by (cases "event_cursor e") (auto simp: seq_of_def)
      with n assms(4) gate show ?thesis by (auto split: if_splits)
    qed
  qed
  ultimately show ?thesis unfolding batch_spec_def by blast
qed

lemma live_batch:
  assumes "\<forall>e\<in>set events. of_epoch (cr_epoch c) e" "lv_cursor s = Some c"
    and "fold_sum (live_step parse True) events s = Inr r"
  shows "\<exists>k fx. lv_cursor r = Some (advanced c k) \<and> lv_effects r = lv_effects s @ fx \<and>
    batch_spec parse c events (lv_tail s, lv_head s) k (lv_tail r, lv_head r) fx"
  using assms
proof (induction events arbitrary: c s)
  case Nil
  then show ?case by (intro exI [of _ 0] exI [of _ "[]"]) (simp add: batch_spec_def)
next
  case (Cons e es)
  have e: "of_epoch (cr_epoch c) e" using Cons.prems(1) by simp
  from Cons.prems(3) obtain s1 where s1: "live_step parse True e s = Inr s1"
    "fold_sum (live_step parse True) es s1 = Inr r" by (auto simp: bind_sum_Inr)
  note step = live_step_spec [OF e Cons.prems(2) s1(1)]
  let ?j = "if seq_of e = [cr_end c + 1] then 1 else 0 :: nat"
  have "lv_cursor s1 = Some (advanced c ?j)" using step(1) next_range_cases [OF e] by simp
  from Cons.IH [OF _ this s1(2)] Cons.prems(1) obtain k fx where k:
    "lv_cursor r = Some (advanced (advanced c ?j) k)" "lv_effects r = lv_effects s1 @ fx"
    "batch_spec parse (advanced c ?j) es (lv_tail s1, lv_head s1) k (lv_tail r, lv_head r) fx" by auto
  from batch_spec_Cons [OF e step(3) k(3) refl] k(1,2) step(2) show ?case
    by (intro exI [of _ "?j + k"] exI [of _ "gt_effects (gate_of True (Some c) e) @ fx"]) simp
qed

text \<open>
  C9: a batch of live events on a synchronised timeline, with sequenced events of its epoch, moves the cursor
  over the numbers of the admitted events, which are consecutive from the cursor on, each once; the stream is
  what the admitted events alone make of it; and when an event lies beyond the new cursor, the client asks for
  the rows after a point between the old and the new cursor.
\<close>

theorem live_events_exactly_once:
  assumes "processAgentStreamEvents parse events snap = Inr r"
    and "sn_baseline snap" and "\<not> sn_detached snap" and "sn_cursor snap = Some c"
    and "\<forall>e\<in>set events. of_epoch (cr_epoch c) e"
  shows "\<exists>k. lv_cursor r = Some (c\<lparr>cr_end := cr_end c + int k\<rparr>) \<and>
    concat (map seq_of (admitted (Some c) events)) = [cr_end c + 1..cr_end c + int k] \<and>
    fold_sum (apply_live parse) (admitted (Some c) events) (sn_tail snap, sn_head snap) =
      Inr (lv_tail r, lv_head r) \<and>
    (\<forall>f\<in>set (lv_effects r). fst f = cr_epoch c \<and> cr_end c \<le> snd f \<and> snd f \<le> cr_end c + int k) \<and>
    (\<forall>e\<in>set events. \<forall>n\<in>set (seq_of e). cr_end c + int k < n \<longrightarrow> lv_effects r \<noteq> [])"
proof -
  have "fold_sum (live_step parse True) events (live_start (sn_tail snap) (sn_head snap) (sn_cursor snap)) = Inr r"
    using assms(1-3) by (simp add: processAgentStreamEvents_def)
  from live_batch [OF assms(5) _ this] assms(4) show ?thesis
    by (auto simp: live_start_def batch_spec_def advanced_def)
qed

section \<open>Concrete batches\<close>

definition live_chunk :: "string \<Rightarrow> string \<Rightarrow> int \<Rightarrow> live_event" where
  "live_chunk s epoch seq = \<lparr>le_event = TimelineEvent (AssistantMessage s None) ''codex'' None None,
     le_seq = Some seq, le_epoch = Some epoch, le_timestamp = 0\<rparr>"

definition five_rows :: timeline_range where
  "five_rows = \<lparr>cr_epoch = ''e'', cr_start = 1, cr_end = 5, cr_retained = []\<rparr>"

definition synced_snapshot :: live_snapshot where
  "synced_snapshot = \<lparr>sn_tail = [], sn_head = [], sn_cursor = Some five_rows, sn_baseline = True,
     sn_detached = False\<rparr>"

definition example_batch :: "live_event list" where
  "example_batch = [live_chunk ''x'' ''e'' 6, live_chunk ''x'' ''e'' 6, live_chunk ''z'' ''e'' 8]"

definition returned :: "'e + 'a \<Rightarrow> bool" where
  "returned r = (case r of Inl _ \<Rightarrow> False | Inr _ \<Rightarrow> True)"

lemma returned_projr: "returned r \<Longrightarrow> r = Inr (projr r)"
  by (cases r) (simp_all add: returned_def)

theorem live_events_exactly_once_witness:
  "\<exists>r k. processAgentStreamEvents (\<lambda>_. []) example_batch synced_snapshot = Inr r \<and>
     lv_cursor r = Some (five_rows\<lparr>cr_end := 5 + int k\<rparr>) \<and>
     concat (map seq_of (admitted (Some five_rows) example_batch)) = [6..5 + int k] \<and> lv_effects r \<noteq> []"
proof -
  let ?r = "processAgentStreamEvents (\<lambda>_. []) example_batch synced_snapshot"
  have "returned ?r" by code_simp
  then have r: "?r = Inr (projr ?r)" by (rule returned_projr)
  have epoch: "\<forall>e\<in>set example_batch. of_epoch (cr_epoch five_rows) e" by code_simp
  have last: "live_chunk ''z'' ''e'' 8 \<in> set example_batch" "8 \<in> set (seq_of (live_chunk ''z'' ''e'' 8))"
    by (simp_all add: example_batch_def seq_of_def event_cursor_def live_chunk_def)
  have one: "concat (map seq_of (admitted (Some five_rows) example_batch)) = [6]" by code_simp
  from live_events_exactly_once [OF r _ _ _ epoch] obtain k where k:
    "lv_cursor (projr ?r) = Some (five_rows\<lparr>cr_end := cr_end five_rows + int k\<rparr>)"
    "concat (map seq_of (admitted (Some five_rows) example_batch)) = [cr_end five_rows + 1..cr_end five_rows + int k]"
    "\<forall>e\<in>set example_batch. \<forall>n\<in>set (seq_of e). cr_end five_rows + int k < n \<longrightarrow> lv_effects (projr ?r) \<noteq> []"
    by (auto simp: synced_snapshot_def)
  have "length [cr_end five_rows + 1..cr_end five_rows + int k] = length [6 :: int]" using k(2) one by metis
  then have "cr_end five_rows + int k < 8" by (simp add: five_rows_def)
  with k(3) last have "lv_effects (projr ?r) \<noteq> []" by blast
  then show ?thesis using r k(1,2) by (intro exI [of _ "projr ?r"] exI [of _ k]) (simp add: five_rows_def)
qed

section \<open>What the store keeps of a batch\<close>

text \<open>A lane that is not reported as changed is the lane it was.\<close>

definition flags_right :: "stream \<Rightarrow> stream \<Rightarrow> lane_result \<Rightarrow> bool" where
  "flags_right tail head r \<longleftrightarrow> (\<not> lr_changedTail r \<longrightarrow> lr_tail r = tail) \<and> (\<not> lr_changedHead r \<longrightarrow> lr_head r = head)"

lemma settled_same: "\<not> is_updated u \<Longrightarrow> settled u s = s"
  by (cases u) (simp_all add: is_updated_def)

lemma outcome_same: "outcome u s = Inr t \<Longrightarrow> \<not> is_updated u \<Longrightarrow> t = s"
  by (cases u) (simp_all add: outcome_def is_updated_def)

lemma unchanged_flags: "flags_right tail head (unchanged_lanes tail head)"
  by (simp add: flags_right_def unchanged_lanes_def)

lemma flush_flags: "flags_right tail head r \<Longrightarrow> flags_right tail head (flush_head r)"
  by (auto simp: flags_right_def flush_head_def Let_def settled_same)

lemma resume_flags: "flags_right tail head r \<Longrightarrow> flags_right tail head (resume_tail item r)"
  by (auto simp: flags_right_def resume_tail_def)

lemma to_tail_flags:
  "flags_right tail head r \<Longrightarrow> apply_to_tail event t src cur r = Inr x \<Longrightarrow> flags_right tail head x"
  by (auto simp: flags_right_def apply_to_tail_def Let_def bind_sum_Inr dest: outcome_same)

lemma completion_flags:
  "flags_right tail head r \<Longrightarrow> applyCompletionToTail event t src r = Inr x \<Longrightarrow> flags_right tail head x"
  by (auto simp: flags_right_def applyCompletionToTail_def Let_def bind_sum_Inr dest: outcome_same)

lemma to_head_flags:
  "flags_right tail head r \<Longrightarrow> apply_to_head parse item event t src cur r = Inr x \<Longrightarrow> flags_right tail head x"
  by (auto simp: flags_right_def apply_to_head_def Let_def bind_sum_Inr case_prod_unfold settled_same dest: outcome_same)

lemma across_flags:
  assumes "upsertUserMessageAcrossStream tail head m place pres pol = u"
  shows "\<not> ac_changedTail u \<Longrightarrow> ac_tail u = tail" "\<not> ac_changedHead u \<Longrightarrow> ac_head u = head"
  using assms by (auto simp: upsertUserMessageAcrossStream_def Let_def settled_same split: if_splits insert_policy.splits)

lemma at_head_flags: "flags_right tail head (canonical_at_head tail head c has turn)"
proof -
  define u where "u = upsertUserMessageAcrossStream tail head c (if has then InsertHead else InsertNone)
    PresentExisting CanonicalIncoming"
  show ?thesis
    using across_flags [OF u_def [symmetric]]
    by (auto simp: flags_right_def canonical_at_head_def Let_def settled_same simp flip: u_def)
qed

lemma at_tail_flags: "flags_right tail head (canonical_at_tail tail head c has turn)"
  by (auto simp: flags_right_def canonical_at_tail_def Let_def settled_same)

lemma applyStreamEvent_flags:
  assumes "applyStreamEvent parse tail head event t src cur w = Inr x"
  shows "flags_right tail head x"
proof (cases "applyCanonicalUserMessageEvent tail head event t cur w")
  case (Some result)
  with assms have "applyCanonicalUserMessageEvent tail head event t cur w = Some (Inr x)"
    by (simp add: applyStreamEvent_def)
  then show ?thesis
    by (auto simp: applyCanonicalUserMessageEvent_def Let_def case_prod_unfold bind_sum_Inr at_head_flags at_tail_flags
        split: agent_stream_event.splits timeline_item.splits if_splits)
next
  case None
  note u = unchanged_flags [of tail head]
  show ?thesis
  proof (cases "completes_turn event")
    case True
    with assms None have "applyCompletionToTail event t src (flush_head (unchanged_lanes tail head)) = Inr x"
      by (simp add: applyStreamEvent_def Let_def)
    then show ?thesis by (rule completion_flags [OF flush_flags [OF u]])
  next
    case False
    note f = resume_flags [OF u] resume_flags [OF flush_flags [OF u]]
    from assms None False show ?thesis
      by (auto simp: applyStreamEvent_def Let_def split: agent_stream_event.splits if_splits
          dest: to_head_flags [OF f(1)] to_head_flags [OF f(2)] to_tail_flags [OF f(1)] to_tail_flags [OF f(2)]
            to_tail_flags [OF u])
  qed
qed

lemma live_step_flags:
  assumes "of_epoch (cr_epoch c) e" "lv_cursor s = Some c" "live_step parse True e s = Inr r"
  shows "\<not> lv_changedTail r \<Longrightarrow> \<not> lv_changedTail s \<and> lv_tail r = lv_tail s"
    "\<not> lv_changedHead r \<Longrightarrow> \<not> lv_changedHead s \<and> lv_head r = lv_head s"
    "\<not> lv_cursorChanged r \<Longrightarrow> \<not> lv_cursorChanged s"
proof -
  let ?g = "gate_of True (Some c) e"
  from assms(2,3) obtain x where x: "gated_event parse True (lv_tail s) (lv_head s) ?g e = Inr x"
    and r: "r = join_live s \<lparr>lv_tail = lr_tail x, lv_head = lr_head x, lv_cursor = gt_cursor ?g,
        lv_changedTail = lr_changedTail x, lv_changedHead = lr_changedHead x,
        lv_cursorChanged = (gt_cursor ?g \<noteq> None), lv_acked = lr_acked x,
        lv_tasks = todo_snapshot ?g e, lv_effects = gt_effects ?g\<rparr>"
    by (auto simp: live_step_def processAgentStreamEvent_def map_sum_right_Inr Let_def)
  have "flags_right (lv_tail s) (lv_head s) x"
    using x no_reset [OF assms(1)] applyStreamEvent_flags unchanged_flags
    by (auto simp: gated_event_def split: if_splits)
  then show "\<not> lv_changedTail r \<Longrightarrow> \<not> lv_changedTail s \<and> lv_tail r = lv_tail s"
    "\<not> lv_changedHead r \<Longrightarrow> \<not> lv_changedHead s \<and> lv_head r = lv_head s"
    "\<not> lv_cursorChanged r \<Longrightarrow> \<not> lv_cursorChanged s"
    by (simp_all add: r join_live_def flags_right_def)
qed

lemma live_batch_flags:
  assumes "\<forall>e\<in>set events. of_epoch (cr_epoch c) e" "lv_cursor s = Some c"
    and "fold_sum (live_step parse True) events s = Inr r"
  shows "(\<not> lv_changedTail r \<longrightarrow> lv_tail r = lv_tail s) \<and> (\<not> lv_changedHead r \<longrightarrow> lv_head r = lv_head s) \<and>
    (lv_changedTail s \<longrightarrow> lv_changedTail r) \<and> (lv_changedHead s \<longrightarrow> lv_changedHead r)"
  using assms
proof (induction events arbitrary: c s)
  case (Cons e es)
  have e: "of_epoch (cr_epoch c) e" using Cons.prems(1) by simp
  from Cons.prems(3) obtain s1 where s1: "live_step parse True e s = Inr s1"
    "fold_sum (live_step parse True) es s1 = Inr r" by (auto simp: bind_sum_Inr)
  obtain c1 where c1: "lv_cursor s1 = Some c1" "cr_epoch c1 = cr_epoch c"
    using live_step_spec(1) [OF e Cons.prems(2) s1(1)] next_range_cases [OF e] by simp
  from Cons.IH [OF _ c1(1) s1(2)] Cons.prems(1) c1(2) have
    "(\<not> lv_changedTail r \<longrightarrow> lv_tail r = lv_tail s1) \<and> (\<not> lv_changedHead r \<longrightarrow> lv_head r = lv_head s1) \<and>
      (lv_changedTail s1 \<longrightarrow> lv_changedTail r) \<and> (lv_changedHead s1 \<longrightarrow> lv_changedHead r)" by simp
  with live_step_flags(1,2) [OF e Cons.prems(2) s1(1)] show ?case by auto
qed simp

text \<open>The session of an agent whose timeline is synchronised up to the cursor \<open>c\<close>.\<close>

definition synced_at :: "client_session \<Rightarrow> string \<Rightarrow> timeline_range \<Rightarrow> bool" where
  "synced_at s a c \<longleftrightarrow> cs_applied s a = Some True \<and> cs_hasNewer s a \<noteq> Some True \<and> cs_cursor s a = Some c"

lemma synced_snapshot_of:
  "synced_at s a c \<Longrightarrow> session_snapshot s a = \<lparr>sn_tail = tail_of s a, sn_head = head_of s a, sn_cursor = Some c,
     sn_baseline = True, sn_detached = False\<rparr>"
  by (simp add: synced_at_def session_snapshot_def selectAgentTimelineState_def)

lemma set_stream_lanes:
  "tail_of (setAgentStreamState a t h acked tasks s) a = default (tail_of s a) t"
  "head_of (setAgentStreamState a t h acked tasks s) a = default (head_of s a) h"
  "cs_applied (setAgentStreamState a t h acked tasks s) = cs_applied s"
  "cs_hasNewer (setAgentStreamState a t h acked tasks s) = cs_hasNewer s"
  "cs_cursor (setAgentStreamState a t h acked tasks s) = cs_cursor s"
  by (cases t; cases h; simp add: setAgentStreamState_def tail_of_def head_of_def non_empty_list_def)+

lemma commit_live_keeps:
  "tail_of (commit_live a r events s) a = (if lv_changedTail r then lv_tail r else tail_of s a)"
  "head_of (commit_live a r events s) a = (if lv_changedHead r then lv_head r else head_of s a)"
  "cs_applied (commit_live a r events s) = cs_applied s"
  "cs_hasNewer (commit_live a r events s) = cs_hasNewer s"
  "cs_cursor (commit_live a r events s) a =
     (if lv_cursorChanged r \<and> lv_cursor r \<noteq> None then next_cursor (cs_cursor s a) (the (lv_cursor r)) events
      else cs_cursor s a)"
proof -
  define s1 where "s1 = (if lv_changedTail r \<or> lv_changedHead r \<or> lv_acked r \<noteq> [] \<or> lv_tasks r \<noteq> None
    then setAgentStreamState a (if lv_changedTail r then Some (lv_tail r) else None)
      (if lv_changedHead r then Some (lv_head r) else None) (lv_acked r) (lv_tasks r) s else s)"
  have s1: "tail_of s1 a = (if lv_changedTail r then lv_tail r else tail_of s a)"
    "head_of s1 a = (if lv_changedHead r then lv_head r else head_of s a)"
    "cs_applied s1 = cs_applied s" "cs_hasNewer s1 = cs_hasNewer s" "cs_cursor s1 = cs_cursor s"
    by (simp_all add: s1_def set_stream_lanes)
  have c: "commit_live a r events s = (case (lv_cursorChanged r, lv_cursor r) of
      (True, Some c) \<Rightarrow> s1\<lparr>cs_cursor := (cs_cursor s1)(a := next_cursor (cs_cursor s1 a) c events)\<rparr> | _ \<Rightarrow> s1)"
    unfolding commit_live_def Let_def s1_def [symmetric] by (rule refl)
  have lanes: "tail_of (s1\<lparr>cs_cursor := f\<rparr>) a = tail_of s1 a" "head_of (s1\<lparr>cs_cursor := f\<rparr>) a = head_of s1 a" for f
    by (simp_all add: tail_of_def head_of_def)
  show "tail_of (commit_live a r events s) a = (if lv_changedTail r then lv_tail r else tail_of s a)"
    "head_of (commit_live a r events s) a = (if lv_changedHead r then lv_head r else head_of s a)"
    "cs_applied (commit_live a r events s) = cs_applied s"
    "cs_hasNewer (commit_live a r events s) = cs_hasNewer s"
    "cs_cursor (commit_live a r events s) a =
     (if lv_cursorChanged r \<and> lv_cursor r \<noteq> None then next_cursor (cs_cursor s a) (the (lv_cursor r)) events
      else cs_cursor s a)"
    unfolding c using s1 by (cases "lv_cursorChanged r"; cases "lv_cursor r"; simp add: lanes)+
qed

text \<open>A batch on a synchronised session, without the cursor that the store ends up with.\<close>

lemma session_live_lanes:
  assumes "synced_at s a c" and "\<forall>e\<in>set events. of_epoch (cr_epoch c) e"
    and "session_live parse a events s = Inr (s', fx)"
  shows "\<exists>k. concat (map seq_of (admitted (Some c) events)) = [cr_end c + 1..cr_end c + int k] \<and>
    fold_sum (apply_live parse) (admitted (Some c) events) (tail_of s a, head_of s a) =
      Inr (tail_of s' a, head_of s' a)"
proof -
  note snap = synced_snapshot_of [OF assms(1)]
  let ?start = "live_start (tail_of s a) (head_of s a) (Some c)"
  from assms(3) obtain r where r: "fold_sum (live_step parse True) events ?start = Inr r" "s' = commit_live a r events s"
    by (auto simp: session_live_def map_sum_right_Inr snap processAgentStreamEvents_def)
  have start: "lv_cursor ?start = Some c" "lv_tail ?start = tail_of s a" "lv_head ?start = head_of s a"
    by (simp_all add: live_start_def)
  from live_batch_flags [OF assms(2) start(1) r(1)] have
    lanes: "tail_of s' a = lv_tail r" "head_of s' a = lv_head r"
    by (auto simp: r(2) commit_live_keeps start)
  from live_batch [OF assms(2) start(1) r(1)] show ?thesis
    unfolding lanes start by (auto simp: batch_spec_def)
qed

text \<open>
  C37: on a synchronised timeline with the cursor \<open>c\<close>, take a batch whose last event lies inside the range of
  \<open>c\<close>.  Its admitted events carry the numbers after the cursor and the stored lanes are what they
  make of the old ones, but the stored cursor is still \<open>c\<close>: so the same batch, delivered
  again, applies all these events to the lanes a second time.
\<close>

theorem stale_last_event_forgets_cursor:
  assumes "synced_at s a c" and "\<forall>e\<in>set events. of_epoch (cr_epoch c) e"
    and "events \<noteq> []" and "inside_range c (last events)"
    and "session_live parse a events s = Inr (s', fx)"
  shows "cs_cursor s' a = Some c \<and>
    (\<exists>k. concat (map seq_of (admitted (Some c) events)) = [cr_end c + 1..cr_end c + int k]) \<and>
    fold_sum (apply_live parse) (admitted (Some c) events) (tail_of s a, head_of s a) =
      Inr (tail_of s' a, head_of s' a) \<and>
    (\<forall>s2 fx2. session_live parse a events s' = Inr (s2, fx2) \<longrightarrow>
      fold_sum (apply_live parse) (admitted (Some c) events) (tail_of s' a, head_of s' a) =
        Inr (tail_of s2 a, head_of s2 a))"
proof -
  from assms(5) obtain r where r: "s' = commit_live a r events s"
    by (auto simp: session_live_def map_sum_right_Inr)
  have "cs_cursor s a = Some c" using assms(1) by (simp add: synced_at_def)
  moreover have "last_opt events = Some (last events)" using assms(3) by (cases events) (simp_all add: last_opt_def)
  ultimately have c: "cs_cursor s' a = Some c" using assms(4) by (simp add: r commit_live_keeps next_cursor_def)
  then have "synced_at s' a c" using assms(1) by (simp add: synced_at_def r commit_live_keeps)
  with c session_live_lanes [OF assms(1,2,5)] session_live_lanes [OF _ assms(2)] show ?thesis by blast
qed

definition synced_session :: "timeline_range \<Rightarrow> client_session" where
  "synced_session c = \<lparr>cs_tail = Map.empty, cs_head = Map.empty, cs_tasks = Map.empty,
     cs_cursor = [''a'' \<mapsto> c], cs_hasOlder = Map.empty, cs_hasNewer = Map.empty,
     cs_applied = [''a'' \<mapsto> True], cs_generation = 0, cs_synced = Map.empty, cs_submissions = Map.empty\<rparr>"

definition submitted_row :: "string \<Rightarrow> stream_item" where
  "submitted_row c = \<lparr>si_id = c, si_cursor = None, si_turnId = None, si_timestamp = 0,
     si_body = UserRow (Some c) None ''hello'' None None\<rparr>"

definition assistant_row :: "string \<Rightarrow> int \<Rightarrow> stream_item" where
  "assistant_row s seq = \<lparr>si_id = s, si_cursor = Some \<lparr>tp_epoch = ''e'', tp_seq = seq\<rparr>, si_turnId = None,
     si_timestamp = 0, si_body = AssistantRow None s None None\<rparr>"

text \<open>The first text of a message on empty lanes, while it is one Markdown block.\<close>

lemma first_chunk:
  assumes "snd (normalizeChunk t)" and "length (splitMarkdownBlocks parse (fst (normalizeChunk t))) < 2"
  shows "\<exists>row. applyStreamEvent parse [] [] (TimelineEvent (AssistantMessage t m) p turn sq) ts src cur w =
      Inr \<lparr>lr_tail = [], lr_head = [row], lr_changedTail = False, lr_changedHead = True, lr_acked = []\<rparr> \<and>
    si_body row = AssistantRow (truthy m) (fst (normalizeChunk t)) None None"
proof -
  let ?e = "TimelineEvent (AssistantMessage t m) p turn sq"
  let ?chunk = "fst (normalizeChunk t)"
  have ne: "?chunk \<noteq> []" using assms(1) by (auto simp: normalizeChunk_def Let_def)
  have body: "\<exists>row. appendAssistantMessage [] t ts src m [] cur = Updated [row] \<and>
      si_body row = AssistantRow (truthy m) ?chunk None None"
    using assms(1) ne by (simp add: appendAssistantMessage_def case_prod_unfold Let_def)
  then obtain row0 where row0: "appendAssistantMessage [] t ts src m [] cur = Updated [row0]"
    "si_body row0 = AssistantRow (truthy m) ?chunk None None" by blast
  have fin: "finalizeActiveThoughts [row0] = Kept" by (simp add: finalizeActiveThoughts_def row0(2))
  have "\<exists>row. reduceStreamUpdate [] ?e ts src [] cur = Updated [row] \<and> si_body row = si_body row0"
    using row0 by (auto simp: reduceStreamUpdate_def finalized_def then_update_def fin applyTimelineTurnId_def
        truthy_def split: update.split option.split list.split)
  then obtain row where row: "reduceStreamUpdate [] ?e ts src [] cur = Updated [row]"
    "si_body row = AssistantRow (truthy m) ?chunk None None" using row0(2) by auto
  have active: "getActiveAssistantHeadIndex [] = None"
    by (simp add: getActiveAssistantHeadIndex_def find_last_index_def)
  have kept: "promoteCompletedAssistantBlocks parse [] [row] = (Kept, Kept)"
    using assms(2) row(2)
    by (auto simp: promoteCompletedAssistantBlocks_def Let_def getActiveAssistantHeadIndex_def find_last_index_def
        split: option.split)
  show ?thesis
    using row
    by (simp add: applyStreamEvent_def applyCanonicalUserMessageEvent_def Let_def shouldFlushHead_def resume_tail_def
        resumes_tail_def unchanged_lanes_def apply_to_head_def active reserved_ids_def outcome_def kept is_updated_def)
qed

text \<open>
  C36: on a synchronised timeline of one epoch, let the first event of another epoch arrive (its number is 1), a
  piece of an assistant message that is one Markdown block.  It is applied to empty lanes, but the store only
  writes the lanes that changed with respect to the empty ones: the cursor moves to the new epoch and the
  head becomes the one row of the event, while the tail keeps the rows of the old epoch.  The submissions stay
  as they were, so a message that is being sent and whose row was in the head is no longer shown.
\<close>

theorem new_epoch_mixes_streams:
  assumes "synced_at s a c" and "le_event e = TimelineEvent (AssistantMessage t m) p turn sq"
    and "le_seq e = Some 1" and "le_epoch e = Some d" and "d \<noteq> cr_epoch c"
    and "snd (normalizeChunk t)" and "length (splitMarkdownBlocks parse (fst (normalizeChunk t))) < 2"
  shows "\<exists>s' row. session_live parse a [e] s = Inr (s', []) \<and> cs_cursor s' a = Some (fresh_range d 1) \<and>
    tail_of s' a = tail_of s a \<and> head_of s' a = [row] \<and>
    si_body row = AssistantRow (truthy m) (fst (normalizeChunk t)) None None \<and> cs_submissions s' = cs_submissions s"
proof -
  have g: "gate_of True (Some c) e = gate_base\<lparr>gt_cursor := Some (fresh_range d 1), gt_reset := True\<rparr>"
    using assms(2-5) by (auto simp: gate_of_def processTimelineSequencingGate_def classifySessionTimelineSeq_def)
  from first_chunk [OF assms(6,7), of m p turn sq "le_timestamp e" Live "event_cursor e" TailLane] obtain row where
    row: "applyStreamEvent parse [] [] (le_event e) (le_timestamp e) Live (event_cursor e) TailLane =
      Inr \<lparr>lr_tail = [], lr_head = [row], lr_changedTail = False, lr_changedHead = True, lr_acked = []\<rparr>"
    "si_body row = AssistantRow (truthy m) (fst (normalizeChunk t)) None None"
    unfolding assms(2) by blast
  have todo: "todo_snapshot g e = None" for g by (simp add: todo_snapshot_def assms(2))
  let ?r = "\<lparr>lv_tail = [], lv_head = [row], lv_cursor = Some (fresh_range d 1), lv_changedTail = False,
    lv_changedHead = True, lv_cursorChanged = True, lv_acked = [], lv_tasks = None, lv_effects = []\<rparr>"
  have "processAgentStreamEvents parse [e] (session_snapshot s a) = Inr ?r"
    using row(1)
    by (simp add: synced_snapshot_of [OF assms(1)] processAgentStreamEvents_def live_start_def live_step_def
        processAgentStreamEvent_def g gated_event_def Let_def todo join_live_def acknowledge_all_def)
  then have l: "session_live parse a [e] s = Inr (commit_live a ?r [e] s, [])" by (simp add: session_live_def)
  have "\<not> inside_range c e" using assms(3-5) by (simp add: inside_range_def)
  then have "next_cursor (cs_cursor s a) (fresh_range d 1) [e] = Some (fresh_range d 1)"
    using assms(1,5) by (simp add: synced_at_def next_cursor_def last_opt_def fresh_range_def)
  moreover have "cs_submissions (commit_live a ?r [e] s) = cs_submissions s"
    by (simp add: commit_live_def setAgentStreamState_def observed_def observeMessageSubmissionCanonical_def)
  ultimately show ?thesis using l row(2) by (intro exI [of _ "commit_live a ?r [e] s"] exI [of _ row]) (simp add: commit_live_keeps)
qed

theorem new_epoch_mixes_streams_witness:
  "\<exists>s' row. session_live (\<lambda>_. []) ''a'' [live_chunk ''x'' ''new'' 1]
        ((synced_session five_rows)\<lparr>cs_tail := [''a'' \<mapsto> [assistant_row ''old'' 4]],
           cs_head := [''a'' \<mapsto> [submitted_row ''m'']]\<rparr>) = Inr (s', []) \<and>
     map_option cr_epoch (cs_cursor s' ''a'') = Some ''new'' \<and>
     tail_of s' ''a'' = [assistant_row ''old'' 4] \<and> head_of s' ''a'' = [row] \<and> si_text row = ''x''"
proof -
  let ?s = "(synced_session five_rows)\<lparr>cs_tail := [''a'' \<mapsto> [assistant_row ''old'' 4]],
    cs_head := [''a'' \<mapsto> [submitted_row ''m'']]\<rparr>"
  have s: "synced_at ?s ''a'' five_rows" "tail_of ?s ''a'' = [assistant_row ''old'' 4]"
    by (simp_all add: synced_at_def synced_session_def tail_of_def)
  have e: "le_event (live_chunk ''x'' ''new'' 1) = TimelineEvent (AssistantMessage ''x'' None) ''codex'' None None"
    "le_seq (live_chunk ''x'' ''new'' 1) = Some 1" "le_epoch (live_chunk ''x'' ''new'' 1) = Some ''new''"
    by (simp_all add: live_chunk_def)
  have d: "''new'' \<noteq> cr_epoch five_rows" by (simp add: five_rows_def)
  have n: "normalizeChunk ''x'' = (''x'', True)" by code_simp
  have b: "length (splitMarkdownBlocks (\<lambda>_. []) ''x'') < 2" by code_simp
  from new_epoch_mixes_streams [OF s(1) e d, of "\<lambda>_. []"] n b show ?thesis
    by (auto simp: s(2) fresh_range_def)
qed

theorem stale_last_event_forgets_cursor_witness:
  "\<exists>s'. map_sum_right fst (session_live (\<lambda>_. []) ''a'' [live_chunk ''x'' ''e'' 6, live_chunk ''w'' ''e'' 5]
       (synced_session five_rows)) = Inr s' \<and>
     cs_cursor s' ''a'' = Some five_rows \<and>
     concat (map seq_of (admitted (Some five_rows) [live_chunk ''x'' ''e'' 6, live_chunk ''w'' ''e'' 5])) = [6]"
proof -
  let ?b = "[live_chunk ''x'' ''e'' 6, live_chunk ''w'' ''e'' 5]"
  let ?r = "session_live (\<lambda>_. []) ''a'' ?b (synced_session five_rows)"
  have "returned ?r" by code_simp
  then obtain s' fx where r: "?r = Inr (s', fx)" by (cases ?r) (auto simp: returned_def)
  have s: "synced_at (synced_session five_rows) ''a'' five_rows" by (simp add: synced_at_def synced_session_def)
  have epoch: "\<forall>e\<in>set ?b. of_epoch (cr_epoch five_rows) e" by code_simp
  have last: "inside_range five_rows (last ?b)" by code_simp
  have one: "concat (map seq_of (admitted (Some five_rows) ?b)) = [6]" by code_simp
  from stale_last_event_forgets_cursor [OF s epoch _ last r] one r show ?thesis by auto
qed

end
