(* ===== verification/Stream_Coverage.thy ===== *)
theory Stream_Coverage
  imports Stream_Pages
begin

text \<open>
  The cursor of the client timeline as a set of sequence numbers: \<open>mergeTimelineCoverage\<close> adds exactly the
  numbers of a page, keeps the range the cursor ends in connected, and leaves the retained ranges apart.
\<close>

section \<open>Stable sorting\<close>

lemma js_insert_sorted:
  assumes "\<And>y. y \<in> set ys \<Longrightarrow> if cmp x y \<le> 0 then R x y else R y x" "transp R" "sorted_wrt R ys"
  shows "sorted_wrt R (js_insert cmp x ys)"
  using assms(1,3)
proof (induction ys)
  case (Cons y ys)
  have y: "if cmp x y \<le> 0 then R x y else R y x" using Cons.prems(1) [of y] by simp
  have "sorted_wrt R (js_insert cmp x ys)" using Cons by simp
  with y Cons.prems(2) show ?case
    by (cases "cmp x y \<le> 0") (auto intro: transpD [OF assms(2)])
qed simp

lemma js_sort_sorted:
  assumes "\<And>x y. if cmp x y \<le> 0 then R x y else R y x" "transp R"
  shows "sorted_wrt R (js_sort cmp xs)"
  using assms by (induction xs) (simp_all add: js_insert_sorted)

section \<open>Ranges\<close>

definition range_set :: "loaded_range \<Rightarrow> int set" where
  "range_set r = {rg_start r..rg_end r}"

definition ranges_set :: "loaded_range list \<Rightarrow> int set" where
  "ranges_set rs = (\<Union>r\<in>set rs. range_set r)"

definition proper :: "loaded_range \<Rightarrow> bool" where
  "proper r \<longleftrightarrow> rg_start r \<le> rg_end r"

definition apart :: "loaded_range \<Rightarrow> loaded_range \<Rightarrow> bool" where
  "apart l r \<longleftrightarrow> rg_end l + 1 < rg_start r"

definition separated :: "loaded_range list \<Rightarrow> bool" where
  "separated rs \<longleftrightarrow> (\<forall>r\<in>set rs. proper r) \<and> sorted_wrt apart rs"

definition covered :: "timeline_range \<Rightarrow> int set" where
  "covered c = {cr_start c..cr_end c} \<union> ranges_set (cr_retained c)"

lemma ranges_set_simps [simp]:
  "ranges_set [] = {}" "ranges_set (r # rs) = range_set r \<union> ranges_set rs"
  "ranges_set (rs @ ts) = ranges_set rs \<union> ranges_set ts"
  by (auto simp: ranges_set_def)

lemma sorted_starts: "sorted_wrt (\<lambda>l r. rg_start l \<le> rg_start r) (js_sort compare_ranges rs)"
  by (rule js_sort_sorted) (auto simp: compare_ranges_def transp_def)

lemma separated_snoc:
  "separated (rs @ [r]) \<longleftrightarrow> separated rs \<and> proper r \<and> (\<forall>l\<in>set rs. apart l r)"
  by (auto simp: separated_def sorted_wrt_append)

lemma coverage_step_adds:
  assumes "separated merged" "proper r" "\<forall>l\<in>set merged. rg_start l \<le> rg_start r"
  shows "separated (coverage_step r merged)"
    "ranges_set (coverage_step r merged) = ranges_set merged \<union> range_set r"
    "\<forall>l\<in>set (coverage_step r merged). rg_start l \<le> rg_start r"
proof -
  have "separated (coverage_step r merged) \<and>
      ranges_set (coverage_step r merged) = ranges_set merged \<union> range_set r \<and>
      (\<forall>l\<in>set (coverage_step r merged). rg_start l \<le> rg_start r)"
  proof (cases merged rule: rev_cases)
    case Nil
    then show ?thesis using assms by (simp add: coverage_step_def separated_def)
  next
    case (snoc ms m)
    have sep: "separated ms" "proper m" "\<forall>l\<in>set ms. apart l m" "rg_start m \<le> rg_start r"
      using assms snoc by (simp_all add: separated_snoc)
    show ?thesis
    proof (cases "rg_end m + 1 < rg_start r")
      case True
      then have "separated ((ms @ [m]) @ [r])"
        using assms(1,2) snoc sep by (subst separated_snoc) (auto simp: apart_def proper_def)
      with True assms(3) snoc show ?thesis by (auto simp: coverage_step_def)
    next
      case False
      let ?m = "m\<lparr>rg_end := max (rg_end m) (rg_end r)\<rparr>"
      have "range_set ?m = range_set m \<union> range_set r"
        using False sep(2,4) assms(2) by (auto simp: range_set_def proper_def)
      moreover have "proper ?m" "\<forall>l\<in>set ms. apart l ?m"
        using sep by (auto simp: proper_def apart_def)
      ultimately show ?thesis
        using False assms(3) snoc sep by (auto simp: coverage_step_def separated_snoc)
    qed
  qed
  then show "separated (coverage_step r merged)"
    "ranges_set (coverage_step r merged) = ranges_set merged \<union> range_set r"
    "\<forall>l\<in>set (coverage_step r merged). rg_start l \<le> rg_start r" by blast+
qed

lemma coverage_fold:
  assumes "sorted_wrt (\<lambda>l r. rg_start l \<le> rg_start r) rs" "\<forall>r\<in>set rs. proper r"
    and "separated merged" "\<forall>l\<in>set merged. \<forall>r\<in>set rs. rg_start l \<le> rg_start r"
  shows "separated (fold coverage_step rs merged) \<and>
    ranges_set (fold coverage_step rs merged) = ranges_set merged \<union> ranges_set rs"
  using assms
proof (induction rs arbitrary: merged)
  case (Cons r rs)
  note step = coverage_step_adds [OF Cons.prems(3), of r]
  have "separated (coverage_step r merged)"
    "ranges_set (coverage_step r merged) = ranges_set merged \<union> range_set r"
    "\<forall>l\<in>set (coverage_step r merged). rg_start l \<le> rg_start r"
    using step Cons.prems(2,4) by auto
  moreover from this(3) have "\<forall>l\<in>set (coverage_step r merged). \<forall>q\<in>set rs. rg_start l \<le> rg_start q"
    using Cons.prems(1) by fastforce
  ultimately show ?case using Cons.IH [of "coverage_step r merged"] Cons.prems(1,2) by auto
qed simp

lemma separated_gap:
  assumes "separated rs" "r \<in> set rs"
  shows "rg_end r + 1 \<notin> ranges_set rs" "rg_start r - 1 \<notin> ranges_set rs"
proof -
  have "rg_end r + 1 \<notin> range_set q \<and> rg_start r - 1 \<notin> range_set q" if q: "q \<in> set rs" for q
  proof -
    from q assms(2) obtain i j where ij: "rs ! i = r" "rs ! j = q" "i < length rs" "j < length rs"
      by (metis in_set_conv_nth)
    have p: "proper r" "proper q" using assms q by (auto simp: separated_def)
    consider "i = j" | "i < j" | "j < i" by linarith
    then show ?thesis
    proof cases
      case 1
      with ij show ?thesis by (auto simp: range_set_def)
    next
      case 2
      then have "apart r q" using assms(1) ij by (auto simp: separated_def sorted_wrt_iff_nth_less)
      with p show ?thesis by (auto simp: apart_def range_set_def proper_def)
    next
      case 3
      then have "apart q r" using assms(1) ij by (auto simp: separated_def sorted_wrt_iff_nth_less)
      with p show ?thesis by (auto simp: apart_def range_set_def proper_def)
    qed
  qed
  then show "rg_end r + 1 \<notin> ranges_set rs" "rg_start r - 1 \<notin> ranges_set rs"
    by (auto simp: ranges_set_def)
qed

lemma merged_ranges_facts:
  assumes "cr_start c \<le> cr_end c" "\<forall>r\<in>set (cr_retained c). proper r" "proper added"
  shows "separated (merged_ranges c added)"
    "ranges_set (merged_ranges c added) = covered c \<union> range_set added"
proof -
  let ?rs = "js_sort compare_ranges (current_range c # cr_retained c @ [added])"
  have set: "set ?rs = set (current_range c # cr_retained c @ [added])" by (rule set_js_sort)
  have "\<forall>r\<in>set ?rs. proper r" unfolding set using assms by (auto simp: proper_def current_range_def)
  from coverage_fold [OF sorted_starts this, of "[]"]
  have "separated (merged_ranges c added)" "ranges_set (merged_ranges c added) = ranges_set ?rs"
    by (simp_all add: merged_ranges_def separated_def)
  moreover have "ranges_set ?rs = covered c \<union> range_set added"
    unfolding ranges_set_def set
    by (auto simp: covered_def ranges_set_def range_set_def current_range_def)
  ultimately show "separated (merged_ranges c added)"
    "ranges_set (merged_ranges c added) = covered c \<union> range_set added" by simp_all
qed

lemma ranges_without_index:
  "i < length rs \<Longrightarrow> ranges_set rs = range_set (rs ! i) \<union> ranges_set (without_index i rs)"
  by (subst id_take_nth_drop [of i rs]) (auto simp: without_index_def)

lemma separated_without_index:
  assumes "separated rs"
  shows "separated (without_index i rs)"
proof -
  have "\<forall>x\<in>set (take i rs). \<forall>y\<in>set (drop i rs). apart x y"
    using assms sorted_wrt_append [of apart "take i rs" "drop i rs"] by (simp add: separated_def)
  moreover have "set (drop (i + 1) rs) \<subseteq> set (drop i rs)" by (rule set_drop_subset_set_drop) simp
  moreover have "set (without_index i rs) \<subseteq> set rs"
    by (auto simp: without_index_def dest: in_set_takeD in_set_dropD)
  moreover have "sorted_wrt apart (drop (i + 1) rs)" using assms by (simp add: separated_def sorted_wrt_drop)
  moreover have "sorted_wrt apart (take i rs)" using assms by (simp add: separated_def sorted_wrt_take)
  ultimately show ?thesis
    using assms by (auto simp: separated_def without_index_def sorted_wrt_append subset_iff)
qed

text \<open>
  C19: adding the range of a page to the cursor covers exactly the sequence numbers that were covered and
  those of the page; the connected range still contains the old one and reaches as far as the numbers are
  covered without a gap, and the retained ranges are ordered and apart from it and from each other.
\<close>

theorem coverage_merge_exact:
  assumes "cr_start c \<le> cr_end c" and "\<forall>r\<in>set (cr_retained c). rg_start r \<le> rg_end r"
    and "rg_start added \<le> rg_end added"
  shows "let c' = mergeTimelineCoverage c added in
    covered c' = covered c \<union> {rg_start added..rg_end added} \<and> cr_epoch c' = cr_epoch c \<and>
    cr_start c' \<le> cr_start c \<and> cr_end c \<le> cr_end c' \<and>
    cr_start c' - 1 \<notin> covered c' \<and> cr_end c' + 1 \<notin> covered c' \<and>
    separated (cr_retained c')"
proof -
  let ?m = "merged_ranges c added"
  have "\<forall>r\<in>set (cr_retained c). proper r" "proper added" using assms(2,3) by (simp_all add: proper_def)
  note m = merged_ranges_facts [OF assms(1) this]
  let ?P = "\<lambda>r. rg_start r \<le> cr_end c \<and> cr_end c \<le> rg_end r"
  have "cr_end c \<in> ranges_set ?m" using m(2) assms(1) by (simp add: covered_def)
  then obtain i where i: "find_index ?P ?m = Some i"
    by (cases "find_index ?P ?m") (auto simp: find_index_None ranges_set_def range_set_def)
  let ?r = "?m ! i"
  have r: "i < length ?m" "rg_start ?r \<le> cr_end c" "cr_end c \<le> rg_end ?r"
    using find_index_Some [OF i] by simp_all
  have c': "mergeTimelineCoverage c added = \<lparr>cr_epoch = cr_epoch c, cr_start = rg_start ?r,
      cr_end = rg_end ?r, cr_retained = without_index i ?m\<rparr>"
    by (simp add: mergeTimelineCoverage_def i Let_def)
  have cov: "covered (mergeTimelineCoverage c added) = ranges_set ?m"
    using ranges_without_index [OF r(1)] by (simp add: c' covered_def range_set_def)
  note gap = separated_gap [OF m(1) nth_mem [OF r(1)]]
  have "rg_start ?r \<le> cr_start c"
  proof (rule ccontr)
    assume "\<not> rg_start ?r \<le> cr_start c"
    then have "rg_start ?r - 1 \<in> {cr_start c..cr_end c}" using r(2) by simp
    with gap(2) m(2) show False by (simp add: covered_def)
  qed
  then show ?thesis
    using cov m r gap separated_without_index [OF m(1)] by (simp add: c' range_set_def Let_def)
qed

theorem coverage_merge_exact_witness:
  "covered (mergeTimelineCoverage
      \<lparr>cr_epoch = ''e'', cr_start = 10, cr_end = 12, cr_retained = [\<lparr>rg_start = 1, rg_end = 3, rg_hasOlder = None\<rparr>]\<rparr>
      \<lparr>rg_start = 4, rg_end = 9, rg_hasOlder = None\<rparr>) = {10..12} \<union> ({1..3} \<union> {}) \<union> {4..(9 :: int)}"
  using coverage_merge_exact [of "\<lparr>cr_epoch = ''e'', cr_start = 10, cr_end = 12,
      cr_retained = [\<lparr>rg_start = 1, rg_end = 3, rg_hasOlder = None\<rparr>]\<rparr>"
      "\<lparr>rg_start = 4, rg_end = 9, rg_hasOlder = None\<rparr>"]
  by (simp add: Let_def covered_def range_set_def)

end
