(* ===== verification/Stream_Submissions.thy ===== *)
theory Stream_Submissions
  imports Client_Session
begin

text \<open>
  Messages on their way: a page that replaces the stream keeps the row of every message that is being sent,
  and a submission ends when both the provider and the request have answered, in either order.
\<close>

section \<open>Rows of a client message\<close>

definition shows_client :: "string \<Rightarrow> stream_item \<Rightarrow> bool" where
  "shows_client c r \<longleftrightarrow> si_client r = Some c"

definition unsent :: "string \<Rightarrow> stream_item \<Rightarrow> bool" where
  "unsent c r \<longleftrightarrow> si_client r = Some c \<and> isUnreconciledLocalUserMessage r"

lemma shows_client_user: "shows_client c r \<Longrightarrow> si_user r"
  by (cases "si_body r") (auto simp: shows_client_def)

lemma unsent_shows: "unsent c r \<Longrightarrow> shows_client c r"
  by (simp add: unsent_def shows_client_def)

lemma merge_user_id [simp]: "si_id (merge_user PresentExisting existing incoming) = si_id existing"
  by (simp add: merge_user_def Let_def split: item_body.split)

lemma merge_user_client:
  assumes "shows_client c existing" "c \<noteq> []" "si_client incoming \<noteq> Some []"
    and "matchesUserMessage CanonicalIncoming existing incoming"
  shows "shows_client c (merge_user PresentExisting existing incoming)"
proof -
  from assms(1) obtain m s im u where b: "si_body existing = UserRow (Some c) m s im u"
    by (cases "si_body existing") (auto simp: shows_client_def)
  have c: "truthy (Some c) = Some c" using assms(2) by (cases c) simp_all
  have "truthy (or_else (si_client incoming) (Some c)) = Some c"
  proof (cases "si_client incoming")
    case (Some d)
    with assms(3) have "truthy (Some d) = Some d" by (cases d) simp_all
    with assms(4) Some b c show ?thesis by (simp add: matchesUserMessage_def)
  qed (simp add: c)
  then show ?thesis by (simp add: merge_user_def b shows_client_def)
qed

lemma without_index_update [simp]: "without_index i (xs[i := x]) = without_index i xs"
  by (simp add: without_index_def)

lemma mem_without_index: "x \<in> set xs \<Longrightarrow> i < length xs \<Longrightarrow> x = xs ! i \<or> x \<in> set (without_index i xs)"
  by (subst (asm) id_take_nth_drop [of i xs]) (auto simp: without_index_def)

lemma set_without_index: "set (without_index i xs) \<subseteq> set xs"
  by (auto simp: without_index_def dest: in_set_takeD in_set_dropD)

text \<open>What \<open>produceUserMessage\<close> returns when it finds a row.\<close>

lemma produce_matched:
  assumes "up_matched (produceUserMessage items item None PresentExisting CanonicalIncoming)"
  obtains i where "up_index (produceUserMessage items item None PresentExisting CanonicalIncoming) = i"
    "i < length items" "matchesUserMessage CanonicalIncoming (items ! i) item"
    "up_message (produceUserMessage items item None PresentExisting CanonicalIncoming) \<in>
       {items ! i, merge_user PresentExisting (items ! i) item}"
    "without_index i (settled (up_items (produceUserMessage items item None PresentExisting CanonicalIncoming)) items)
       = without_index i items"
proof -
  from assms obtain i where i: "matching_index CanonicalIncoming item items = Some i"
    by (auto simp: produceUserMessage_def split: option.splits)
  from find_index_Some [OF i [unfolded matching_index_def]] i that [of i] show ?thesis
    by (auto simp: produceUserMessage_def Let_def)
qed

section \<open>Replacing the stream\<close>

text \<open>
  \<open>known c ids s\<close>: while a page is confirmed, a message \<open>c\<close> has a row that is still to be matched or one in
  the new tail, and only rows of \<open>c\<close> carry one of the identifiers \<open>ids\<close>.
\<close>

definition only_for :: "string \<Rightarrow> string set \<Rightarrow> stream_item \<Rightarrow> bool" where
  "only_for c ids r \<longleftrightarrow> (si_id r \<in> ids \<longrightarrow> shows_client c r)"

definition known :: "string \<Rightarrow> string set \<Rightarrow> stream \<Rightarrow> replacing \<Rightarrow> bool" where
  "known c ids previousHead s \<longleftrightarrow>
     ((\<exists>r\<in>set (rs_unmatched s). unsent c r) \<or> (\<exists>r\<in>set (rs_head s). unsent c r) \<or>
      (\<exists>r\<in>set (rs_tail s). shows_client c r)) \<and>
     (\<forall>r\<in>set (rs_unmatched s @ rs_head s @ rs_tail s). only_for c ids r) \<and>
     set (rs_head s) \<subseteq> set previousHead"

lemma matched_message:
  assumes "up_matched (produceUserMessage items item None PresentExisting CanonicalIncoming)"
    and "c \<noteq> []" "si_client item \<noteq> Some []" "\<forall>r\<in>set items. only_for c ids r"
  defines "p \<equiv> produceUserMessage items item None PresentExisting CanonicalIncoming"
  shows "only_for c ids (up_message p)"
    "unsent c r \<Longrightarrow> r \<in> set items \<Longrightarrow> shows_client c (up_message p) \<or> r \<in> set (without_index (up_index p) items)"
    "without_index (up_index p) (settled (up_items p) items) = without_index (up_index p) items"
proof -
  from produce_matched [OF assms(1)] obtain i where i: "up_index p = i" "i < length items"
    "matchesUserMessage CanonicalIncoming (items ! i) item"
    "up_message p \<in> {items ! i, merge_user PresentExisting (items ! i) item}"
    "without_index i (settled (up_items p) items) = without_index i items"
    unfolding p_def by blast
  then show "without_index (up_index p) (settled (up_items p) items) = without_index (up_index p) items" by simp
  have keep: "shows_client c (items ! i) \<Longrightarrow> shows_client c (up_message p)"
    using merge_user_client [OF _ assms(2,3) i(3)] i(4) by auto
  have "si_id (up_message p) = si_id (items ! i)" using i(4) by auto
  then show "only_for c ids (up_message p)"
    using keep assms(4) i(2) by (auto simp: only_for_def)
  show "shows_client c (up_message p) \<or> r \<in> set (without_index (up_index p) items)"
    if "unsent c r" "r \<in> set items"
    using that mem_without_index [OF that(2) i(2)] keep i(1) unsent_shows by auto
qed

lemma replace_step_known:
  assumes "known c ids h0 s" "c \<noteq> []" "si_client item \<noteq> Some []" "only_for c ids item"
  shows "known c ids h0 (replace_step item s)"
proof -
  let ?t = "produceUserMessage (rs_unmatched s) item None PresentExisting CanonicalIncoming"
  let ?h = "produceUserMessage (rs_head s) item None PresentExisting CanonicalIncoming"
  consider "\<not> si_user item" | "si_user item" "up_matched ?t" | "si_user item" "\<not> up_matched ?t" "up_matched ?h"
    | "si_user item" "\<not> up_matched ?t" "\<not> up_matched ?h" by blast
  then show ?thesis
  proof cases
    case 2
    have only: "\<forall>r\<in>set (rs_unmatched s). only_for c ids r" using assms(1) by (simp add: known_def)
    note m = matched_message [OF 2(2) assms(2,3) only]
    show ?thesis
      using assms(1) m set_without_index [of "up_index ?t" "rs_unmatched s"] 2
      by (auto simp: known_def replace_step_def Let_def)
  next
    case 3
    have only: "\<forall>r\<in>set (rs_head s). only_for c ids r" using assms(1) by (simp add: known_def)
    note m = matched_message [OF 3(3) assms(2,3) only]
    show ?thesis
      using assms(1) m set_without_index [of "up_index ?h" "rs_head s"] 3
      by (auto simp: known_def replace_step_def Let_def)
  qed (use assms in \<open>auto simp: known_def replace_step_def Let_def\<close>)
qed

lemma confirmed_known:
  assumes "c \<noteq> []" "\<exists>r\<in>set (previousTail @ previousHead). unsent c r"
    and "\<forall>r\<in>set canonical. si_client r \<noteq> Some []"
    and "\<forall>r\<in>set (canonical @ previousTail @ previousHead). only_for c ids r"
  shows "known c ids previousHead (confirmed canonical previousTail previousHead)"
proof -
  let ?s = "\<lparr>rs_unmatched = filter (\<lambda>r. si_user r \<and> si_client r \<noteq> None) previousTail,
        rs_head = previousHead, rs_tail = [], rs_acked = []\<rparr>"
  have "known c ids previousHead ?s"
    using assms(2,4) shows_client_user [OF unsent_shows] by (auto simp: known_def unsent_def)
  moreover have "known c ids previousHead (fold replace_step xs s)"
    if "known c ids previousHead s" "set xs \<subseteq> set canonical" for xs s
    using that
  proof (induction xs arbitrary: s)
    case (Cons x xs)
    have "known c ids previousHead (replace_step x s)"
      using Cons.prems assms by (intro replace_step_known) auto
    with Cons show ?case by simp
  qed simp
  ultimately show ?thesis by (simp add: confirmed_def)
qed

section \<open>The live head\<close>

lemma mem_update_other: "x \<in> set xs \<Longrightarrow> i < length xs \<Longrightarrow> x \<noteq> xs ! i \<Longrightarrow> x \<in> set (xs[i := y])"
  by (metis in_set_conv_nth length_list_update nth_list_update_neq)

lemma not_user_simps:
  "is_plugin b \<Longrightarrow> \<not> is_user b" "call_data b = Some d \<Longrightarrow> \<not> is_user b"
  "todo_of p b = Some x \<Longrightarrow> \<not> is_user b" "compaction_parts b = Some y \<Longrightarrow> \<not> is_user b"
  "assistant_parts b = Some z \<Longrightarrow> \<not> is_user b"
  by (cases b; simp)+

text \<open>A row of the tail that is not a user message is replaced by one with the same identifier.\<close>

definition swapped :: "stream \<Rightarrow> stream \<Rightarrow> bool" where
  "swapped items items' \<longleftrightarrow> (\<exists>i x. i < length items \<and> \<not> si_user (items ! i) \<and> items' = items[i := x])"

lemma swapped_keeps: "swapped items items' \<Longrightarrow> r \<in> set items \<Longrightarrow> si_user r \<Longrightarrow> r \<in> set items'"
  by (auto simp: swapped_def intro: mem_update_other)

lemma retained_merges:
  assumes "mergeRetainedLifecycleItem tail r = Some tail'"
  shows "swapped tail tail' \<and> \<not> si_user r \<and>
    (\<forall>q\<in>set tail'. q \<in> set tail \<or> q = r \<or> (\<exists>p\<in>set tail. \<not> si_user p \<and> si_id q = si_id p))"
proof -
  have upd: ?thesis if "tail' = tail[i := x]" "i < length tail" "\<not> si_user (tail ! i)" "\<not> si_user r"
    "x = r \<or> si_id x = si_id (tail ! i)" for i x
    using that nth_mem [OF that(2)]
    by (auto simp: swapped_def dest!: set_update_subset_insert [THEN subsetD])
  show ?thesis
  proof (cases "is_plugin (si_body r)")
    case True
    with assms obtain i where "findExistingTimelineIdentityIndex tail (the (streamTimelineItemIdentity r)) = Some i"
      "is_plugin (si_body (tail ! i))" "tail' = tail[i := r]"
      by (auto simp: mergeRetainedLifecycleItem_def replaceTimelineIdentityItem_def Option.bind_eq_Some_conv
          split: option.splits if_splits)
    then show ?thesis
      using True find_index_Some not_user_simps(1)
      by (intro upd) (auto simp: findExistingTimelineIdentityIndex_def)
  next
    case False
    with assms have cur: "si_cursor r \<noteq> None" by (auto simp: mergeRetainedLifecycleItem_def split: if_splits)
    note e = assms [unfolded mergeRetainedLifecycleItem_def]
    show ?thesis
    proof (cases "si_body r")
      case (ToolRow payload)
      with e False cur obtain d i old where
        "findExistingTimelineIdentityIndex tail (agentToolCallIdentity (ad_callId d) (si_turnId r)) = Some i"
        "call_data (si_body (tail ! i)) = Some old"
        "tail' = tail[i := mergeAgentToolCallItem (tail ! i) old d (si_timestamp r) (si_cursor r)]"
        by (auto simp: merge_retained_call_def split: tool_payload.splits option.splits)
      then show ?thesis
        using ToolRow find_index_Some not_user_simps(2)
        by (intro upd) (auto simp: findExistingTimelineIdentityIndex_def mergeAgentToolCallItem_def with_cursor_def)
    next
      case (TodoRow p items a)
      with e False cur obtain x where x: "tail \<noteq> []" "todo_of p (si_body (last tail)) = Some x"
        "tail' = butlast tail @ [(last tail)\<lparr>si_cursor := si_cursor r, si_timestamp := si_timestamp r,
           si_body := TodoRow p items (snd x)\<rparr>]"
        by (auto simp: merge_retained_todo_def split: option.splits if_splits)
      let ?y = "(last tail)\<lparr>si_cursor := si_cursor r, si_timestamp := si_timestamp r,
           si_body := TodoRow p items (snd x)\<rparr>"
      have "tail' = tail[length tail - 1 := ?y]"
        using x(1,3) by (cases tail rule: rev_cases) simp_all
      moreover have "\<not> si_user (last tail)" using x(2) not_user_simps(3) by blast
      ultimately show ?thesis
        using x(1) TodoRow by (intro upd) (auto simp: last_conv_nth)
    next
      case (CompactionRow st tr pre)
      with e False cur obtain i where i: "find_index loading_compaction tail = Some i"
        "tail' = tail[i := complete_compaction tr pre (si_cursor r) (tail ! i)]"
        by (auto simp: merge_retained_compaction_def split: compaction_status.splits option.splits)
      then have "loading_compaction (tail ! i)" "i < length tail" using find_index_Some by blast+
      then show ?thesis
        using i CompactionRow not_user_simps(4)
        by (intro upd) (auto simp: loading_compaction_def complete_compaction_def with_cursor_def split: option.splits)
    qed (use e False cur in simp_all)
  qed
qed

lemma offered:
  assumes "offer_retained tail rs = (tail', rest)"
  shows "(r \<in> set tail \<longrightarrow> si_user r \<longrightarrow> r \<in> set tail') \<and> (r \<in> set rs \<longrightarrow> si_user r \<longrightarrow> r \<in> set rest)"
  using assms
proof (induction tail rs arbitrary: rest rule: offer_retained.induct)
  case (2 tail q rs)
  show ?case
  proof (cases "mergeRetainedLifecycleItem tail q")
    case None
    with 2 show ?thesis by (auto split: prod.splits)
  next
    case (Some t)
    with 2 retained_merges [OF Some] swapped_keeps [of tail t r] show ?thesis by auto
  qed
qed simp

lemma offered_only:
  assumes "offer_retained tail rs = (tail', rest)" "\<forall>q\<in>set (tail @ rs). only_for c ids q"
  shows "\<forall>q\<in>set tail'. only_for c ids q"
  using assms
proof (induction tail rs arbitrary: rest rule: offer_retained.induct)
  case (2 tail q rs)
  show ?case
  proof (cases "mergeRetainedLifecycleItem tail q")
    case None
    with 2 show ?thesis by (auto split: prod.splits)
  next
    case (Some t)
    have t: "\<forall>p\<in>set t. only_for c ids p"
      using retained_merges [OF Some] "2.prems"(2) shows_client_user
      by (fastforce simp: only_for_def)
    show ?thesis
      by (rule "2.IH"(2) [OF Some, of rest]) (use "2.prems" Some t in auto)
  qed
qed simp

lemma survives_joining:
  assumes "reconcileReplacementHeadAgainstTail tail (retained_head tail head preserve sending cov) = (tail', h)"
    and "q \<in> set tail' \<or> q \<in> set h" "\<not> si_assistant q"
  shows "q \<in> set (fst (preserveReplacementHead tail head preserve sending cov) @
      snd (preserveReplacementHead tail head preserve sending cov))"
proof (cases h)
  case Nil
  with assms show ?thesis by (simp add: preserveReplacementHead_def)
next
  case (Cons live rest)
  show ?thesis
  proof (cases "\<not> si_assistant live \<or> tail' = [] \<or> \<not> si_assistant (last tail')")
    case True
    with assms(1) Cons have "preserveReplacementHead tail head preserve sending cov = (tail', h)"
      by (simp only: preserveReplacementHead_def prod.case list.case if_True)
    with assms(2) show ?thesis by auto
  next
    case False
    have "q \<noteq> live" "q \<noteq> last tail'" using False assms(3) by blast+
    with assms(2) Cons False have "q \<in> set (butlast tail') \<or> q \<in> set rest"
      by (cases tail' rule: rev_cases) auto
    then show ?thesis
      using assms(1,2) Cons False by (auto simp only: preserveReplacementHead_def Let_def prod.case list.case
          if_False fst_conv snd_conv set_append Un_iff list.set insert_iff split: if_splits)
  qed
qed

lemma preserved_head:
  assumes "\<forall>q\<in>set (tail @ head). only_for c ids q"
    and "(\<exists>r\<in>set tail. shows_client c r) \<or> (\<exists>r\<in>set head. unsent c r \<and> si_id r \<in> ids)"
    and "preserve \<or> c \<in> set sending"
  shows "\<exists>r\<in>set (fst (preserveReplacementHead tail head preserve sending cov) @
      snd (preserveReplacementHead tail head preserve sending cov)). shows_client c r"
proof -
  let ?r = "retained_head tail head preserve sending cov"
  obtain tail' rest where off: "offer_retained tail ?r = (tail', rest)" by fastforce
  let ?h = "filter (\<lambda>r. si_assistant r \<or> si_id r \<notin> si_id ` set tail') rest"
  have "set ?r \<subseteq> set head" by (auto simp: retained_head_def)
  then have only: "\<forall>q\<in>set tail'. only_for c ids q" using assms(1) by (intro offered_only [OF off]) auto
  have shown: "(\<exists>q\<in>set tail'. shows_client c q) \<or> (\<exists>q\<in>set ?h. shows_client c q)"
    using assms(2)
  proof
    assume "\<exists>r\<in>set tail. shows_client c r"
    then show ?thesis using offered [OF off] shows_client_user by blast
  next
    assume "\<exists>r\<in>set head. unsent c r \<and> si_id r \<in> ids"
    then obtain r where r: "r \<in> set head" "unsent c r" "si_id r \<in> ids" by blast
    have u: "si_user r" using r(2) shows_client_user unsent_shows by blast
    have "r \<in> set ?r"
      using r u assms(3) by (auto simp: retained_head_def unsent_def isUnreconciledLocalUserMessage_def)
    then have rest: "r \<in> set rest" using offered [OF off] u by blast
    show ?thesis
    proof (cases "si_id r \<in> si_id ` set tail'")
      case True
      with only r(3) show ?thesis by (auto simp: only_for_def)
    next
      case False
      with rest r(2) show ?thesis using unsent_shows by auto
    qed
  qed
  have user: "shows_client c q \<Longrightarrow> \<not> si_assistant q" for q
    using not_user_simps(5) shows_client_user by blast
  have "reconcileReplacementHeadAgainstTail tail ?r = (tail', ?h)"
    by (simp only: reconcileReplacementHeadAgainstTail_def off Let_def prod.case)
  from survives_joining [OF this] shown user show ?thesis by blast
qed

text \<open>
  C8: a message that is being sent, or with continuity kept any message the daemon has not confirmed, still
  has a row after a page has replaced the stream, in the tail or in the head, whether the page confirmed it
  or not.  The condition is that no row of another message or kind carries its identifier.
\<close>

theorem replacement_keeps_unsent_message:
  assumes "\<exists>r\<in>set (previousTail @ previousHead). unsent c r" and "c \<noteq> []"
    and "preserve \<or> c \<in> set sending"
    and "\<forall>r\<in>set canonical. si_client r \<noteq> Some []"
    and "\<forall>r\<in>set (canonical @ previousTail @ previousHead). \<forall>q\<in>set previousHead.
       unsent c q \<and> si_id r = si_id q \<longrightarrow> si_client r = Some c"
  shows "let ((tail, head), acked) =
      replaceWithCanonicalStream canonical previousTail previousHead sending preserve cov
    in \<exists>r\<in>set (tail @ head). si_client r = Some c"
proof -
  let ?ids = "si_id ` {q \<in> set previousHead. unsent c q}"
  let ?s = "confirmed canonical previousTail previousHead"
  let ?t = "rs_tail ?s @ filter (preserve_local preserve sending) (rs_unmatched ?s)"
  let ?h = "filter (retain_beyond preserve sending cov) (rs_unmatched ?s) @ rs_head ?s"
  have "\<forall>r\<in>set (canonical @ previousTail @ previousHead). only_for c ?ids r"
    using assms(5) by (auto simp: only_for_def shows_client_def)
  from confirmed_known [OF assms(2,1,4) this] have k: "known c ?ids previousHead ?s" .
  have keep: "unsent c r \<Longrightarrow> preserve_local preserve sending r" for r
    using assms(3) by (auto simp: preserve_local_def unsent_def)
  have "(\<exists>r\<in>set ?t. shows_client c r) \<or> (\<exists>r\<in>set ?h. unsent c r \<and> si_id r \<in> ?ids)"
    using k keep unsent_shows by (fastforce simp: known_def)
  moreover have "\<forall>q\<in>set (?t @ ?h). only_for c ?ids q" using k by (auto simp: known_def)
  ultimately have "\<exists>r\<in>set (fst (preserveReplacementHead ?t ?h preserve sending cov) @
      snd (preserveReplacementHead ?t ?h preserve sending cov)). shows_client c r"
    using assms(3) by (intro preserved_head)
  then show ?thesis
    by (simp add: replaceWithCanonicalStream_def Let_def case_prod_unfold shows_client_def)
qed

definition local_row :: "string \<Rightarrow> stream_item" where
  "local_row c = \<lparr>si_id = c, si_cursor = None, si_turnId = None, si_timestamp = 0,
     si_body = UserRow (Some c) None ''hi'' None None\<rparr>"

definition confirmed_row :: "string \<Rightarrow> string \<Rightarrow> stream_item" where
  "confirmed_row c t = \<lparr>si_id = ''msg'', si_cursor = Some \<lparr>tp_epoch = ''e'', tp_seq = 1\<rparr>, si_turnId = None,
     si_timestamp = 0, si_body = UserRow (Some c) (Some ''msg'') t None None\<rparr>"

theorem replacement_keeps_unsent_message_witness:
  "let ((tail, head), acked) = replaceWithCanonicalStream [confirmed_row ''d'' ''ho''] [local_row ''d'']
      [local_row ''c''] [''c''] False \<lparr>cv_epoch = ''e'', cv_endSeq = Some 1\<rparr>
   in \<exists>r\<in>set (tail @ head). si_client r = Some ''c''"
  by (rule replacement_keeps_unsent_message)
    (simp_all add: unsent_def local_row_def confirmed_row_def isUnreconciledLocalUserMessage_def)

section \<open>Submissions\<close>

lemma other_submissions:
  assumes "\<forall>s\<in>set subs. sub_client s \<noteq> c"
  shows "find_index (\<lambda>s. sub_client s = c) (subs @ [s]) = (if sub_client s = c then Some (length subs) else None)"
    "observeMessageSubmissionCanonical subs [c] = subs" "filter (\<lambda>s. sub_client s \<noteq> c) subs = subs"
  using assms by (induction subs) (auto simp: observeMessageSubmissionCanonical_def)

lemma observe_append:
  "observeMessageSubmissionCanonical (xs @ ys) ids =
     observeMessageSubmissionCanonical xs ids @ observeMessageSubmissionCanonical ys ids"
  by (simp add: observeMessageSubmissionCanonical_def)

text \<open>
  C28: a submission ends when the daemon has accepted the request and the message was seen in the timeline, in
  either order, and leaves the others as they were; it counts as being sent until it is seen.  A rejection
  ends it in any case, and is reported as acceptance when the message was seen before.
\<close>

theorem submission_ends_in_any_order:
  assumes "beginMessageSubmission subs c = Inr subs'"
  shows "acceptMessageSubmission (observeMessageSubmissionCanonical subs' [c]) c = subs \<and>
    observeMessageSubmissionCanonical (acceptMessageSubmission subs' c) [c] = subs \<and>
    rejectMessageSubmission subs' c = (Rejected, subs) \<and>
    rejectMessageSubmission (observeMessageSubmissionCanonical subs' [c]) c = (Accepted, subs) \<and>
    c \<in> set (getSendingClientMessageIds (acceptMessageSubmission subs' c)) \<and>
    c \<notin> set (getSendingClientMessageIds (observeMessageSubmissionCanonical subs' [c]))"
proof -
  let ?s = "\<lparr>sub_client = c, sub_acknowledged = False, sub_settled = False\<rparr>"
  have none: "\<forall>s\<in>set subs. sub_client s \<noteq> c" and subs': "subs' = subs @ [?s]"
    using assms by (auto simp: beginMessageSubmission_def split: if_splits)
  note [simp] = other_submissions [OF none] without_index_def
  have seen: "observeMessageSubmissionCanonical subs' [c] = subs @ [?s\<lparr>sub_acknowledged := True\<rparr>]"
    by (simp add: subs' observe_append) (simp add: observeMessageSubmissionCanonical_def)
  have accepted: "acceptMessageSubmission subs' c = subs @ [?s\<lparr>sub_settled := True\<rparr>]"
    by (simp add: subs' acceptMessageSubmission_def)
  have "acceptMessageSubmission (observeMessageSubmissionCanonical subs' [c]) c = subs"
    by (simp add: seen acceptMessageSubmission_def)
  moreover have "observeMessageSubmissionCanonical (acceptMessageSubmission subs' c) [c] = subs"
    by (simp add: accepted observe_append) (simp add: observeMessageSubmissionCanonical_def)
  moreover have "rejectMessageSubmission subs' c = (Rejected, subs)"
    by (simp add: subs' rejectMessageSubmission_def)
  moreover have "rejectMessageSubmission (observeMessageSubmissionCanonical subs' [c]) c = (Accepted, subs)"
    by (simp add: seen rejectMessageSubmission_def)
  moreover have "c \<in> set (getSendingClientMessageIds (acceptMessageSubmission subs' c))"
    by (simp add: accepted getSendingClientMessageIds_def)
  moreover have "c \<notin> set (getSendingClientMessageIds (observeMessageSubmissionCanonical subs' [c]))"
    using none by (auto simp: seen getSendingClientMessageIds_def)
  ultimately show ?thesis by blast
qed

theorem submission_ends_in_any_order_witness:
  "acceptMessageSubmission (observeMessageSubmissionCanonical
     [\<lparr>sub_client = ''d'', sub_acknowledged = False, sub_settled = True\<rparr>,
      \<lparr>sub_client = ''c'', sub_acknowledged = False, sub_settled = False\<rparr>] [''c'']) ''c'' =
   [\<lparr>sub_client = ''d'', sub_acknowledged = False, sub_settled = True\<rparr>]"
  using submission_ends_in_any_order
    [of "[\<lparr>sub_client = ''d'', sub_acknowledged = False, sub_settled = True\<rparr>]" "''c''"
      "[\<lparr>sub_client = ''d'', sub_acknowledged = False, sub_settled = True\<rparr>,
        \<lparr>sub_client = ''c'', sub_acknowledged = False, sub_settled = False\<rparr>]"]
  by (simp add: beginMessageSubmission_def)

end
