(* ===== verification/Timeline_Requests.thy ===== *)
theory Timeline_Requests
  imports Stream_Responses
begin

text \<open>
  The daemon side of a timeline fetch: \<open>handleFetchAgentTimelineRequest\<close> of
  \<open>packages/server/src/server/session.ts\<close> and its helpers, over the timeline store (\<open>Timeline_Store\<close>) and the
  projected pages (\<open>Timeline_Pages\<close>).  Loading the agent and describing it to the client are outside; the
  request is answered with the timeline that the agent manager fetches from its store.  \<open>supported\<close> says
  which items the client can show.  The plans of \<open>timeline/timeline-sync-plan.ts\<close> are the requests that the
  client sends.
\<close>

section \<open>Requests\<close>

record timeline_request =
  fq_direction :: "fetch_direction option"
  fq_cursor :: "timeline_cursor option"
  fq_limit :: "rat option"
  fq_projection :: "projection_mode option"
  fq_mergeWindow :: bool

definition TIMELINE_FETCH_PAGE_SIZE :: rat where
  "TIMELINE_FETCH_PAGE_SIZE = 40"

definition planTimelineCatchUpAfter :: "string \<Rightarrow> int \<Rightarrow> timeline_request" where
  "planTimelineCatchUpAfter epoch seq =
     \<lparr>fq_direction = Some After, fq_cursor = Some \<lparr>cur_epoch = epoch, cur_seq = seq\<rparr>,
      fq_limit = Some TIMELINE_FETCH_PAGE_SIZE, fq_projection = Some Projected, fq_mergeWindow = False\<rparr>"

definition planTimelineTailFetch :: timeline_request where
  "planTimelineTailFetch =
     \<lparr>fq_direction = Some Tail, fq_cursor = None, fq_limit = Some TIMELINE_FETCH_PAGE_SIZE,
      fq_projection = Some Projected, fq_mergeWindow = False\<rparr>"

definition planTimelineResumeFetch :: "(string \<times> int) option \<Rightarrow> timeline_request" where
  "planTimelineResumeFetch rng = (case rng of
      None \<Rightarrow> planTimelineTailFetch | Some (epoch, endSeq) \<Rightarrow> planTimelineCatchUpAfter epoch endSeq)"

definition planTimelineOlderFetch :: "string \<Rightarrow> int \<Rightarrow> timeline_request" where
  "planTimelineOlderFetch epoch seq =
     (planTimelineCatchUpAfter epoch seq)\<lparr>fq_direction := Some Before\<rparr>"

definition planTimelinePromptJump :: "string \<Rightarrow> int \<Rightarrow> timeline_request" where
  "planTimelinePromptJump epoch seq =
     (planTimelineOlderFetch epoch (seq + \<lfloor>TIMELINE_FETCH_PAGE_SIZE / 2\<rfloor> + 1))\<lparr>fq_mergeWindow := True\<rparr>"

definition isTimelineCatchUpComplete :: "timeline_response \<Rightarrow> bool" where
  "isTimelineCatchUpComplete p =
     (if truthy (tr_error p) \<noteq> None then False else tr_direction p \<noteq> After \<or> \<not> tr_hasNewer p)"

section \<open>The answer of the daemon\<close>

definition chunk_item :: "timeline_item \<Rightarrow> bool" where
  "chunk_item item \<longleftrightarrow> (case item of AssistantMessage _ _ \<Rightarrow> True | Reasoning _ \<Rightarrow> True | _ \<Rightarrow> False)"

definition call_item :: "timeline_item \<Rightarrow> bool" where
  "call_item item \<longleftrightarrow> (case item of ToolCall _ \<Rightarrow> True | _ \<Rightarrow> False)"

definition shouldUseFullTimelineForProjectedPage :: "fetch_result \<Rightarrow> rat \<Rightarrow> bool" where
  "shouldUseFullTimelineForProjectedPage t pageLimit =
     (if fr_rows t = [] then False
      else if \<exists>r\<in>set (fr_rows t). call_item (row_item r) then True
      else if fr_hasOlder t \<and> chunk_item (row_item (hd (fr_rows t))) then True
      else if fr_hasNewer t \<and> chunk_item (row_item (last (fr_rows t))) then True
      else if \<not> fr_hasNewer t \<or> pageLimit = 0 then False
      else of_nat (length (projectTimelineRows (fr_rows t) Projected)) < pageLimit)"

record projection_selection =
  sel_timeline :: fetch_result
  sel_entries :: "projection_entry list"
  sel_start :: "int option"
  sel_end :: "int option"
  sel_hasOlder :: bool
  sel_hasNewer :: bool

definition selectCanonicalTimelineProjection :: "fetch_result \<Rightarrow> projection_selection" where
  "selectCanonicalTimelineProjection t =
     (let entries = projectTimelineRows (fr_rows t) Canonical in
      \<lparr>sel_timeline = t, sel_entries = entries, sel_start = map_option pe_seqStart (first_opt entries),
       sel_end = map_option pe_seqEnd (last_opt entries), sel_hasOlder = fr_hasOlder t,
       sel_hasNewer = fr_hasNewer t\<rparr>)"

definition full_options :: fetch_options where
  "full_options = \<lparr>fo_direction = Some Tail, fo_cursor = None, fo_limit = Some 0\<rparr>"

definition window_bounds :: "fetch_result \<Rightarrow> int \<times> int" where
  "window_bounds t = (win_minSeq (fr_window t), win_maxSeq (fr_window t))"

definition selectProjectedTimelineProjection ::
  "timeline_store \<Rightarrow> string \<Rightarrow> fetch_result \<Rightarrow> fetch_direction \<Rightarrow> timeline_cursor option \<Rightarrow> rat \<Rightarrow>
     store_error + projection_selection" where
  "selectProjectedTimelineProjection st agentId control direction cursor pageLimit =
     bind_sum
       (if shouldUseFullTimelineForProjectedPage control pageLimit then fetch st agentId full_options
        else Inr control)
       (\<lambda>t.
         let page = selectProjectedTimelinePage (fr_rows t) (Some (window_bounds t))
               (if fr_reset control then Tail else direction) (map_option cur_seq cursor) (Some pageLimit)
         in Inr \<lparr>sel_timeline = t, sel_entries = ps_entries page, sel_start = ps_startSeq page,
              sel_end = ps_endSeq page,
              sel_hasOlder = (ps_hasOlder page \<or>
                (case ps_startSeq page of None \<Rightarrow> False | Some s \<Rightarrow> win_minSeq (fr_window t) < s)),
              sel_hasNewer = ps_hasNewer page\<rparr>)"

definition request_direction :: "timeline_request \<Rightarrow> fetch_direction" where
  "request_direction q = default (if fq_cursor q \<noteq> None then After else Tail) (fq_direction q)"

definition request_limit :: "timeline_request \<Rightarrow> rat" where
  "request_limit q = default (if request_direction q = After then 0 else 200) (fq_limit q)"

definition request_projection :: "timeline_request \<Rightarrow> projection_mode" where
  "request_projection q = default Projected (fq_projection q)"

definition select_for_request ::
  "timeline_store \<Rightarrow> string \<Rightarrow> timeline_request \<Rightarrow> store_error + fetch_result \<times> projection_selection" where
  "select_for_request st agentId q =
     bind_sum (fetch st agentId \<lparr>fo_direction = Some (request_direction q), fo_cursor = fq_cursor q,
        fo_limit = Some (request_limit q)\<rparr>)
       (\<lambda>control.
         bind_sum
           (if request_projection q = Canonical then Inr (selectCanonicalTimelineProjection control)
            else selectProjectedTimelineProjection st agentId control (request_direction q) (fq_cursor q)
              (request_limit q))
           (\<lambda>sel. Inr (control, sel)))"

definition entry_payload :: "string \<Rightarrow> projection_entry \<Rightarrow> response_entry" where
  "entry_payload provider e = \<lparr>te_seqStart = pe_seqStart e, te_seqEnd = pe_seqEnd e,
     te_ranges = Some (pe_ranges e), te_provider = provider, te_turnId = pe_turnId e,
     te_item = pe_item e, te_timestamp = pe_timestamp e\<rparr>"

definition failed_request :: "timeline_request \<Rightarrow> string \<Rightarrow> timeline_response" where
  "failed_request q e =
     \<lparr>tr_direction = request_direction q, tr_projection = request_projection q, tr_reset = False,
      tr_epoch = [], tr_window = \<lparr>win_minSeq = 0, win_maxSeq = 0, win_nextSeq = 0\<rparr>, tr_start = None,
      tr_end = None, tr_entries = [], tr_error = Some e, tr_hasNewer = False, tr_hasOlder = False,
      tr_mergeWindow = fq_mergeWindow q\<rparr>"

text \<open>\<open>message\<close> is the text of an error of the store.\<close>

definition handleFetchAgentTimelineRequest ::
  "(store_error \<Rightarrow> string) \<Rightarrow> (timeline_item \<Rightarrow> bool) \<Rightarrow> string \<Rightarrow> timeline_store \<Rightarrow> string \<Rightarrow>
     timeline_request \<Rightarrow> timeline_response" where
  "handleFetchAgentTimelineRequest message supported provider st agentId q =
     (case select_for_request st agentId q of
        Inl e \<Rightarrow> failed_request q (message e)
      | Inr (control, sel) \<Rightarrow>
          \<lparr>tr_direction = request_direction q, tr_projection = request_projection q,
           tr_reset = fr_reset control, tr_epoch = fr_epoch (sel_timeline sel),
           tr_window = fr_window (sel_timeline sel), tr_start = sel_start sel, tr_end = sel_end sel,
           tr_entries = map (entry_payload provider)
             (filter (\<lambda>e. supported (pe_item e)) (sel_entries sel)),
           tr_error = None, tr_hasNewer = sel_hasNewer sel, tr_hasOlder = sel_hasOlder sel,
           tr_mergeWindow = fq_mergeWindow q\<rparr>)"

end
