(* ===== verification/Timeline_Sync.thy ===== *)
theory Timeline_Sync
  imports Timeline_Requests
begin

text \<open>
  \<open>createViewedTimelineSync\<close> of \<open>packages/app/src/timeline/viewed-timeline-sync.ts\<close>: which agents the client
  follows, and how it catches up with the daemon after it subscribed to them.  The closure's variables are the
  record \<open>view_sync\<close>; what it waits for outside (pages, the cache, the answer to a subscription, timers) is
  part of the record, and an answer is an event.  A function runs up to its \<open>await\<close>; \<open>Settling\<close> is the time
  between the end of a reconciliation and its \<open>finally\<close>, which is the event \<open>Settle\<close>.  The cursor that
  \<open>readCursor\<close> returns at an event is an argument of the step.
\<close>

section \<open>State\<close>

datatype delivery_mode = LegacyDelivery | SelectiveDelivery

datatype catch_up_status = CatchUpRunning | CatchUpComplete | CatchUpFailed

record catch_up_state =
  cu_generation :: nat
  cu_status :: catch_up_status
  cu_request :: "timeline_request option"
  cu_retry :: "nat option"
  cu_delay :: "nat option"

text \<open>The two functions that \<open>schedule\<close> is given.\<close>

datatype retry_timer = RetryAgent string nat | RetryMembership nat "string list"

text \<open>A \<open>fetchUntilCurrent\<close> that waits for its page or, with \<open>pf_latestTail\<close>, for the latest tail.\<close>

record pending_fetch =
  pf_agent :: string
  pf_generation :: nat
  pf_request :: timeline_request
  pf_overflow :: bool
  pf_latestTail :: bool

datatype reconcile_phase = ReconcileIdle | Subscribing nat "string list" | Settling

datatype sync_call = Demand "string list" | NotifyListeners | ReportError string

record view_sync =
  vs_sources :: "(string, string list) js_map"
  vs_catchUps :: "string \<rightharpoonup> catch_up_state"
  vs_generations :: "string \<rightharpoonup> nat"
  vs_pending :: "string \<rightharpoonup> timeline_request"
  vs_unready :: "string set"
  vs_errors :: "string \<rightharpoonup> string"
  vs_manual :: "string set"
  vs_loaded :: "string set"
  vs_loading :: "string set"
  vs_active :: bool
  vs_connected :: bool
  vs_mode :: delivery_mode
  vs_disposed :: bool
  vs_desired :: "string list"
  vs_acknowledged :: "string list"
  vs_generation :: nat
  vs_reconcile :: reconcile_phase
  vs_again :: bool
  vs_needsRetry :: bool
  vs_retryDelay :: "nat option"
  vs_memberTimer :: "nat option"
  vs_recent :: "string list"
  vs_fetches :: "pending_fetch list"
  vs_loads :: "string list"
  vs_timers :: "nat \<rightharpoonup> retry_timer \<times> nat"
  vs_nextTimer :: nat
  vs_log :: "sync_call list"

definition initial_sync :: "delivery_mode \<Rightarrow> view_sync" where
  "initial_sync mode =
     \<lparr>vs_sources = [], vs_catchUps = Map.empty, vs_generations = Map.empty, vs_pending = Map.empty,
      vs_unready = {}, vs_errors = Map.empty, vs_manual = {}, vs_loaded = {}, vs_loading = {},
      vs_active = True, vs_connected = False, vs_mode = mode, vs_disposed = False, vs_desired = [],
      vs_acknowledged = [], vs_generation = 0, vs_reconcile = ReconcileIdle, vs_again = False,
      vs_needsRetry = False, vs_retryDelay = None, vs_memberTimer = None, vs_recent = [],
      vs_fetches = [], vs_loads = [], vs_timers = Map.empty, vs_nextTimer = 0, vs_log = []\<rparr>"

section \<open>Small helpers\<close>

definition getNextRetryDelayMs :: "nat option \<Rightarrow> nat" where
  "getNextRetryDelayMs previous = (case previous of None \<Rightarrow> 1000 | Some d \<Rightarrow> min (d * 2) 30000)"

definition isSameCatchUpRequest :: "timeline_request option \<Rightarrow> timeline_request option \<Rightarrow> bool" where
  "isSameCatchUpRequest left right = (case (left, right) of
      (Some l, Some r) \<Rightarrow> fq_direction l = fq_direction r \<and>
        (fq_direction l \<noteq> Some After \<or> fq_cursor l = fq_cursor r)
    | _ \<Rightarrow> False)"

datatype catch_up_decision = KeepCatchUp | ParkCatchUp | ReplaceCatchUp

definition decideCatchUp :: "catch_up_state option \<Rightarrow> timeline_request \<Rightarrow> bool \<Rightarrow> catch_up_decision" where
  "decideCatchUp current request supersede = (case current of
      None \<Rightarrow> ReplaceCatchUp
    | Some cu \<Rightarrow>
        if supersede then
          (if cu_status cu = CatchUpRunning \<and> isSameCatchUpRequest (cu_request cu) (Some request)
           then KeepCatchUp
           else if cu_status cu = CatchUpRunning \<and>
             (case cu_request cu of None \<Rightarrow> False | Some q \<Rightarrow> fq_direction q = Some Tail)
           then ParkCatchUp
           else ReplaceCatchUp)
        else if cu_status cu = CatchUpRunning \<or> cu_status cu = CatchUpComplete then KeepCatchUp
        else ReplaceCatchUp)"

definition normalizeAgentIds :: "string list \<Rightarrow> string list" where
  "normalizeAgentIds ids = js_sort compare_text (filter (\<lambda>a. a \<noteq> []) (js_set ids))"

definition VIEWED_TIMELINE_HOT_AGENT_LIMIT :: nat where
  "VIEWED_TIMELINE_HOT_AGENT_LIMIT = 5"

definition visibleAgentIds :: "view_sync \<Rightarrow> string list" where
  "visibleAgentIds s = normalizeAgentIds (concat (map snd (vs_sources s)))"

definition hot_agents :: "string list \<Rightarrow> string list \<Rightarrow> string list" where
  "hot_agents visible recent = normalizeAgentIds (visible @
     take (VIEWED_TIMELINE_HOT_AGENT_LIMIT - length visible) (filter (\<lambda>a. a \<notin> set visible) recent))"

text \<open>The agents to follow, and \<open>recentlyViewedAgentIds\<close> afterwards.\<close>

definition selectHotAgentIds :: "string list \<Rightarrow> string list \<Rightarrow> string list \<times> string list" where
  "selectHotAgentIds visible recent =
     (let viewed = visible @ filter (\<lambda>a. a \<notin> set visible) recent; hot = hot_agents visible viewed
      in (hot, filter (\<lambda>a. a \<in> set hot) viewed))"

definition ownsCatchUp :: "view_sync \<Rightarrow> string \<Rightarrow> nat \<Rightarrow> bool" where
  "ownsCatchUp s a g \<longleftrightarrow> \<not> vs_disposed s \<and> vs_connected s \<and> a \<in> set (vs_desired s) \<and>
     a \<in> set (vs_acknowledged s) \<and> (case vs_catchUps s a of None \<Rightarrow> False | Some cu \<Rightarrow> cu_generation cu = g)"

definition logged :: "sync_call \<Rightarrow> view_sync \<Rightarrow> view_sync" where
  "logged c s = s\<lparr>vs_log := vs_log s @ [c]\<rparr>"

definition notify_if :: "bool \<Rightarrow> view_sync \<Rightarrow> view_sync" where
  "notify_if changed s = (if changed then logged NotifyListeners s else s)"

text \<open>\<open>cancelRetry?.()\<close>: the timer with the identifier, if it is still there, does not fire.\<close>

definition cancel_timer :: "nat option \<Rightarrow> view_sync \<Rightarrow> view_sync" where
  "cancel_timer t s = (case t of None \<Rightarrow> s | Some i \<Rightarrow> s\<lparr>vs_timers := (vs_timers s)(i := None)\<rparr>)"

definition cancel_member_timer :: "view_sync \<Rightarrow> view_sync" where
  "cancel_member_timer s = (cancel_timer (vs_memberTimer s) s)\<lparr>vs_memberTimer := None\<rparr>"

definition setVisibilityCatchUpReady :: "string \<Rightarrow> view_sync \<Rightarrow> view_sync" where
  "setVisibilityCatchUpReady a s =
     notify_if (a \<in> vs_unready s \<or> vs_errors s a \<noteq> None \<or> a \<in> vs_manual s)
       (s\<lparr>vs_unready := vs_unready s - {a}, vs_errors := (vs_errors s)(a := None),
          vs_manual := vs_manual s - {a}\<rparr>)"

definition setVisibilityCatchUpError :: "string list \<Rightarrow> string \<Rightarrow> view_sync \<Rightarrow> view_sync" where
  "setVisibilityCatchUpError ids e s =
     notify_if (\<exists>a\<in>set ids. a \<in> vs_manual s \<or> a \<in> vs_unready s \<or> vs_errors s a \<noteq> Some e)
       (s\<lparr>vs_manual := vs_manual s - set ids, vs_unready := vs_unready s - set ids,
          vs_errors := (\<lambda>a. if a \<in> set ids then Some e else vs_errors s a)\<rparr>)"

definition cancelCatchUp :: "string \<Rightarrow> view_sync \<Rightarrow> view_sync" where
  "cancelCatchUp a s =
     (let t = cancel_timer (Option.bind (vs_catchUps s a) cu_retry) s in
      t\<lparr>vs_generations := (vs_generations t)(a \<mapsto> default 0 (vs_generations t a) + 1),
        vs_catchUps := (vs_catchUps t)(a := None), vs_pending := (vs_pending t)(a := None)\<rparr>)"

section \<open>Catching up\<close>

text \<open>The part of \<open>fetchUntilCurrent\<close> before its first \<open>await\<close>.\<close>

definition fetchUntilCurrent :: "string \<Rightarrow> nat \<Rightarrow> timeline_request \<Rightarrow> bool \<Rightarrow> view_sync \<Rightarrow> view_sync" where
  "fetchUntilCurrent a g request overflow s =
     (if \<not> ownsCatchUp s a g then s
      else s\<lparr>vs_fetches := vs_fetches s @ [\<lparr>pf_agent = a, pf_generation = g, pf_request = request,
             pf_overflow = overflow, pf_latestTail = False\<rparr>]\<rparr>)"

definition ensureCacheLoaded :: "string \<Rightarrow> view_sync \<Rightarrow> view_sync" where
  "ensureCacheLoaded a s =
     (if a \<in> vs_loaded s \<or> a \<in> vs_loading s then s
      else s\<lparr>vs_loads := vs_loads s @ [a], vs_loading := insert a (vs_loading s)\<rparr>)"

definition owed :: "string \<Rightarrow> timeline_request option \<Rightarrow> view_sync \<Rightarrow> view_sync" where
  "owed a request s = (case request of
      None \<Rightarrow> s | Some q \<Rightarrow> s\<lparr>vs_pending := (vs_pending s)(a \<mapsto> q)\<rparr>)"

text \<open>\<open>startCatchUp\<close> once it has decided to replace the catch-up of the agent.\<close>

definition replace_catch_up ::
  "string \<Rightarrow> timeline_request \<Rightarrow> bool \<Rightarrow> bool \<Rightarrow> view_sync \<Rightarrow> view_sync" where
  "replace_catch_up a request supersede overflow s =
     (let current = vs_catchUps s a;
          s1 = cancel_timer (Option.bind current cu_retry) s;
          g = default 0 (vs_generations s1 a) + 1;
          delay = (case current of
              None \<Rightarrow> None
            | Some cu \<Rightarrow> if supersede \<or> cu_status cu \<noteq> CatchUpFailed then None else cu_delay cu)
      in fetchUntilCurrent a g request overflow
           (s1\<lparr>vs_generations := (vs_generations s1)(a \<mapsto> g),
               vs_catchUps := (vs_catchUps s1)(a \<mapsto> \<lparr>cu_generation = g, cu_status = CatchUpRunning,
                 cu_request = Some request, cu_retry = None, cu_delay = delay\<rparr>),
               vs_pending := (vs_pending s1)(a := None)\<rparr>))"

type_synonym cursor_reader = "string \<Rightarrow> (string \<times> int) option"

definition startCatchUp ::
  "cursor_reader \<Rightarrow> string \<Rightarrow> timeline_request option \<Rightarrow> bool \<Rightarrow> view_sync \<Rightarrow> view_sync" where
  "startCatchUp readCursor a request supersede s =
     (if \<not> vs_connected s \<or> a \<notin> set (vs_desired s) \<or> a \<notin> set (vs_acknowledged s) then owed a request s
      else if a \<notin> vs_loaded s then ensureCacheLoaded a (owed a request s)
      else
        let next = (case request of Some q \<Rightarrow> q | None \<Rightarrow> planTimelineResumeFetch (readCursor a)) in
        case decideCatchUp (vs_catchUps s a) next supersede of
          ParkCatchUp \<Rightarrow> s\<lparr>vs_pending := (vs_pending s)(a \<mapsto> next)\<rparr>
        | KeepCatchUp \<Rightarrow> s
        | ReplaceCatchUp \<Rightarrow>
            replace_catch_up a next supersede (request = None \<and> fq_direction next = Some After) s)"

definition complete_catch_up :: "string \<Rightarrow> nat \<Rightarrow> view_sync \<Rightarrow> view_sync" where
  "complete_catch_up a g s = s\<lparr>vs_catchUps := (vs_catchUps s)(a \<mapsto> \<lparr>cu_generation = g,
     cu_status = CatchUpComplete, cu_request = None, cu_retry = None, cu_delay = None\<rparr>)\<rparr>"

text \<open>The \<open>catch\<close> of \<open>fetchUntilCurrent\<close>.\<close>

definition fetch_failed :: "pending_fetch \<Rightarrow> string \<Rightarrow> view_sync \<Rightarrow> view_sync" where
  "fetch_failed f e s = (case vs_catchUps s (pf_agent f) of
      None \<Rightarrow> s
    | Some cu \<Rightarrow>
        if cu_generation cu \<noteq> pf_generation f then s
        else
          let a = pf_agent f; g = pf_generation f; d = getNextRetryDelayMs (cu_delay cu);
              i = vs_nextTimer s;
              s1 = s\<lparr>vs_timers := (vs_timers s)(i \<mapsto> (RetryAgent a g, d)), vs_nextTimer := i + 1,
                     vs_catchUps := (vs_catchUps s)(a \<mapsto> \<lparr>cu_generation = g, cu_status = CatchUpFailed,
                       cu_request = Some (pf_request f), cu_retry = Some i, cu_delay = Some d\<rparr>)\<rparr>
          in logged (ReportError e) (setVisibilityCatchUpError [a] e s1))"

text \<open>A page as \<open>fetchPage\<close> returns it: \<open>hasNewer\<close> and the end cursor.\<close>

type_synonym page_result = "bool \<times> (string \<times> int) option"

definition page_arrived :: "cursor_reader \<Rightarrow> pending_fetch \<Rightarrow> page_result \<Rightarrow> view_sync \<Rightarrow> view_sync" where
  "page_arrived readCursor f page s =
     (let a = pf_agent f; g = pf_generation f in
      if \<not> ownsCatchUp s a g then s
      else case page of
        (True, Some (epoch, seq)) \<Rightarrow>
          if pf_overflow f then s\<lparr>vs_fetches := vs_fetches s @ [f\<lparr>pf_latestTail := True\<rparr>]\<rparr>
          else fetchUntilCurrent a g (planTimelineCatchUpAfter epoch seq) False s
      | (True, None) \<Rightarrow>
          fetch_failed f (''Timeline page for '' @ a @ '' hasNewer without an end cursor'') s
      | (False, _) \<Rightarrow>
          let s1 = complete_catch_up a g s in
          case vs_pending s1 a of
            Some q \<Rightarrow> startCatchUp readCursor a (Some q) True s1
          | None \<Rightarrow> setVisibilityCatchUpReady a s1)"

definition latest_tail_arrived :: "pending_fetch \<Rightarrow> view_sync \<Rightarrow> view_sync" where
  "latest_tail_arrived f s =
     setVisibilityCatchUpReady (pf_agent f) (complete_catch_up (pf_agent f) (pf_generation f) s)"

definition start_owed :: "cursor_reader \<Rightarrow> string \<Rightarrow> view_sync \<Rightarrow> view_sync" where
  "start_owed readCursor a s =
     startCatchUp readCursor a (vs_pending s a) (vs_pending s a \<noteq> None) s"

definition cache_loaded :: "cursor_reader \<Rightarrow> string \<Rightarrow> string option \<Rightarrow> view_sync \<Rightarrow> view_sync" where
  "cache_loaded readCursor a failure s =
     (let s1 = (case failure of None \<Rightarrow> s | Some e \<Rightarrow> logged (ReportError e) s) in
      start_owed readCursor a
        (s1\<lparr>vs_loading := vs_loading s1 - {a}, vs_loaded := insert a (vs_loaded s1)\<rparr>))"

definition startAcknowledgedCatchUps :: "cursor_reader \<Rightarrow> view_sync \<Rightarrow> view_sync" where
  "startAcknowledgedCatchUps readCursor s = fold (start_owed readCursor) (vs_acknowledged s) s"

section \<open>Membership\<close>

text \<open>\<open>reconcileLatestMembership\<close> up to the answer to its subscription.\<close>

definition reconcileLatestMembership :: "view_sync \<Rightarrow> view_sync" where
  "reconcileLatestMembership s =
     (if vs_disposed s \<or> \<not> vs_connected s \<or> vs_mode s \<noteq> SelectiveDelivery then s\<lparr>vs_reconcile := Settling\<rparr>
      else if \<not> vs_needsRetry s \<and> vs_desired s = vs_acknowledged s then s\<lparr>vs_reconcile := Settling\<rparr>
      else s\<lparr>vs_needsRetry := False, vs_reconcile := Subscribing (vs_generation s) (vs_desired s)\<rparr>)"

definition reconcileMembership :: "view_sync \<Rightarrow> view_sync" where
  "reconcileMembership s =
     (if vs_reconcile s \<noteq> ReconcileIdle then s\<lparr>vs_again := True\<rparr>
      else if vs_disposed s \<or> \<not> vs_connected s then s
      else reconcileLatestMembership s)"

definition subscription_refused :: "nat \<Rightarrow> string list \<Rightarrow> string \<Rightarrow> view_sync \<Rightarrow> view_sync" where
  "subscription_refused g wanted e s =
     (let s1 = cancel_timer (vs_memberTimer s)
            (setVisibilityCatchUpError wanted e (s\<lparr>vs_needsRetry := True\<rparr>));
          d = getNextRetryDelayMs (vs_retryDelay s1); i = vs_nextTimer s1
      in logged (ReportError e)
           (s1\<lparr>vs_timers := (vs_timers s1)(i \<mapsto> (RetryMembership g wanted, d)), vs_nextTimer := i + 1,
               vs_memberTimer := Some i, vs_retryDelay := Some d, vs_reconcile := Settling\<rparr>))"

definition subscription_accepted :: "cursor_reader \<Rightarrow> nat \<Rightarrow> string list \<Rightarrow> view_sync \<Rightarrow> view_sync" where
  "subscription_accepted readCursor g wanted s =
     (let s1 = (cancel_member_timer s)\<lparr>vs_retryDelay := None\<rparr> in
      if vs_disposed s1 \<or> \<not> vs_connected s1 \<or> vs_mode s1 \<noteq> SelectiveDelivery
      then s1\<lparr>vs_reconcile := Settling\<rparr>
      else
        let s2 = s1\<lparr>vs_acknowledged := wanted\<rparr> in
        if g \<noteq> vs_generation s2 then reconcileLatestMembership s2
        else
          let s3 = startAcknowledgedCatchUps readCursor s2 in
          if vs_desired s3 \<noteq> vs_acknowledged s3 then reconcileLatestMembership s3
          else s3\<lparr>vs_reconcile := Settling\<rparr>)"

text \<open>The \<open>finally\<close> of \<open>reconcileMembership\<close>.\<close>

definition settle_reconcile :: "view_sync \<Rightarrow> view_sync" where
  "settle_reconcile s =
     (let s1 = s\<lparr>vs_reconcile := ReconcileIdle\<rparr>;
          live = (\<not> vs_disposed s1 \<and> vs_connected s1 \<and> vs_mode s1 = SelectiveDelivery)
      in if vs_again s1 \<and> live then reconcileMembership (s1\<lparr>vs_again := False\<rparr>)
         else if live \<and> \<not> vs_needsRetry s1 \<and> vs_desired s1 \<noteq> vs_acknowledged s1
         then reconcileMembership s1
         else s1)"

definition forget_agent :: "string \<Rightarrow> view_sync \<Rightarrow> view_sync" where
  "forget_agent a s =
     (let t = cancelCatchUp a s in
      t\<lparr>vs_unready := vs_unready t - {a}, vs_errors := (vs_errors t)(a := None),
        vs_manual := vs_manual t - {a}\<rparr>)"

definition follow_agent :: "string \<Rightarrow> view_sync \<Rightarrow> view_sync" where
  "follow_agent a s = ensureCacheLoaded a
     (s\<lparr>vs_unready := insert a (vs_unready s), vs_errors := (vs_errors s)(a := None),
        vs_manual := vs_manual s - {a}\<rparr>)"

text \<open>The change of members of \<open>commitDesiredMembership\<close>, before it tells the daemon.\<close>

definition change_members :: "string list \<Rightarrow> view_sync \<Rightarrow> view_sync" where
  "change_members next s =
     (let s1 = fold forget_agent (filter (\<lambda>a. a \<notin> set next) (vs_desired s)) s;
          s2 = fold follow_agent (filter (\<lambda>a. a \<notin> set (vs_desired s)) next) s1;
          s3 = cancel_member_timer s2
      in logged NotifyListeners
           ((logged (Demand next) (s3\<lparr>vs_desired := next\<rparr>))\<lparr>vs_generation := vs_generation s3 + 1\<rparr>))"

definition reset_status :: "string list \<Rightarrow> view_sync \<Rightarrow> bool \<times> view_sync" where
  "reset_status next s =
     (\<exists>a\<in>set next. a \<notin> vs_unready s \<or> vs_errors s a \<noteq> None \<or> a \<in> vs_manual s,
      s\<lparr>vs_unready := vs_unready s \<union> set next,
        vs_errors := (\<lambda>a. if a \<in> set next then None else vs_errors s a),
        vs_manual := vs_manual s - set next\<rparr>)"

definition commitDesiredMembership ::
  "cursor_reader \<Rightarrow> string list \<Rightarrow> bool \<Rightarrow> view_sync \<Rightarrow> view_sync" where
  "commitDesiredMembership readCursor next resetStatus s =
     (let (changed, s1) = (if resetStatus then reset_status next s else (False, s)) in
      if next = vs_desired s1 then notify_if changed s1
      else
        let s2 = change_members next s1 in
        if vs_mode s2 = LegacyDelivery then
          (let s3 = s2\<lparr>vs_acknowledged := (if vs_connected s2 then vs_desired s2 else [])\<rparr> in
           if vs_connected s3 then startAcknowledgedCatchUps readCursor s3 else s3)
        else reconcileMembership s2)"

definition publishVisibleMembership :: "cursor_reader \<Rightarrow> view_sync \<Rightarrow> view_sync" where
  "publishVisibleMembership readCursor s =
     (let visible = visibleAgentIds s in
      if \<not> vs_connected s \<or> vs_mode s \<noteq> SelectiveDelivery then
        (let shown = (if vs_active s then visible else []) in
         commitDesiredMembership readCursor shown False (s\<lparr>vs_recent := shown\<rparr>))
      else if \<not> vs_active s then s
      else
        let (hot, recent) = selectHotAgentIds visible (vs_recent s) in
        commitDesiredMembership readCursor hot False (s\<lparr>vs_recent := recent\<rparr>))"

section \<open>The interface\<close>

datatype timeline_view_status = ViewReady | ViewPending | ViewError | ViewRetrying

definition getAgentTimelineStatus :: "view_sync \<Rightarrow> string \<Rightarrow> timeline_view_status" where
  "getAgentTimelineStatus s a =
     (if a \<in> vs_manual s then ViewRetrying
      else if vs_errors s a \<noteq> None then ViewError
      else if a \<notin> set (vs_desired s) \<or> a \<in> vs_unready s then ViewPending
      else ViewReady)"

definition replaceVisibleAgentIds ::
  "cursor_reader \<Rightarrow> string \<Rightarrow> string list \<Rightarrow> view_sync \<Rightarrow> view_sync" where
  "replaceVisibleAgentIds readCursor source ids s =
     (let normalized = normalizeAgentIds ids in
      publishVisibleMembership readCursor
        (s\<lparr>vs_sources := (if normalized = [] then AList.delete source (vs_sources s)
             else AList.update source normalized (vs_sources s))\<rparr>))"

definition setActive :: "cursor_reader \<Rightarrow> bool \<Rightarrow> view_sync \<Rightarrow> view_sync" where
  "setActive readCursor v s =
     (if vs_active s = v then s else publishVisibleMembership readCursor (s\<lparr>vs_active := v\<rparr>))"

definition disconnect :: "cursor_reader \<Rightarrow> view_sync \<Rightarrow> view_sync" where
  "disconnect readCursor s =
     (let visible = (if vs_active s then visibleAgentIds s else []);
          s1 = commitDesiredMembership readCursor visible True (s\<lparr>vs_recent := visible\<rparr>);
          s2 = (cancel_member_timer s1)\<lparr>vs_retryDelay := None, vs_acknowledged := [],
                 vs_generation := vs_generation s1 + 1\<rparr>
      in fold cancelCatchUp (vs_desired s2) s2)"

definition setConnected :: "cursor_reader \<Rightarrow> bool \<Rightarrow> view_sync \<Rightarrow> view_sync" where
  "setConnected readCursor v s =
     (if vs_connected s = v then s
      else if \<not> v then disconnect readCursor (s\<lparr>vs_connected := False\<rparr>)
      else
        let s1 = s\<lparr>vs_connected := True, vs_generation := vs_generation s + 1\<rparr> in
        if vs_mode s1 = LegacyDelivery
        then startAcknowledgedCatchUps readCursor (s1\<lparr>vs_acknowledged := vs_desired s1\<rparr>)
        else reconcileMembership s1)"

definition setDeliveryMode :: "cursor_reader \<Rightarrow> delivery_mode \<Rightarrow> view_sync \<Rightarrow> view_sync" where
  "setDeliveryMode readCursor mode s =
     (if vs_mode s = mode then s
      else
        let s1 = (cancel_member_timer (s\<lparr>vs_mode := mode\<rparr>))\<lparr>vs_retryDelay := None, vs_needsRetry := False,
                   vs_generation := vs_generation s + 1\<rparr>;
            s2 = fold cancelCatchUp (vs_desired s1) s1;
            visible = (if vs_active s2 then visibleAgentIds s2 else []);
            s3 = logged (Demand visible) (s2\<lparr>vs_recent := visible, vs_desired := visible\<rparr>);
            s4 = logged NotifyListeners (s3\<lparr>vs_unready := set visible, vs_errors := Map.empty,
                   vs_manual := {},
                   vs_acknowledged := (if mode = LegacyDelivery \<and> vs_connected s3 then visible else [])\<rparr>)
        in if mode = SelectiveDelivery \<and> vs_connected s4 then reconcileMembership s4
           else if vs_connected s4 then startAcknowledgedCatchUps readCursor s4 else s4)"

definition recoverGap :: "cursor_reader \<Rightarrow> string \<Rightarrow> string \<Rightarrow> int \<Rightarrow> view_sync \<Rightarrow> view_sync" where
  "recoverGap readCursor a epoch endSeq s =
     (if a \<notin> set (vs_desired s) then s
      else startCatchUp readCursor a (Some (planTimelineCatchUpAfter epoch endSeq)) True s)"

definition retryVisibleAgentTimeline :: "cursor_reader \<Rightarrow> string \<Rightarrow> view_sync \<Rightarrow> view_sync" where
  "retryVisibleAgentTimeline readCursor a s =
     (if a \<notin> set (vs_desired s) \<or> a \<in> vs_manual s then s
      else
        let failed = (case vs_catchUps s a of
                Some cu \<Rightarrow> if cu_status cu = CatchUpFailed then Some cu else None | None \<Rightarrow> None);
            retryable = (vs_mode s = SelectiveDelivery \<and> vs_needsRetry s \<and> vs_connected s)
        in if failed = None \<and> \<not> retryable then s
           else
             let s1 = logged NotifyListeners (s\<lparr>vs_manual := insert a (vs_manual s)\<rparr>) in
             case failed of
               Some cu \<Rightarrow> startCatchUp readCursor a (cu_request cu) True (cancel_timer (cu_retry cu) s1)
             | None \<Rightarrow> reconcileMembership ((cancel_member_timer s1)\<lparr>vs_retryDelay := None,
                 vs_needsRetry := False\<rparr>))"

definition dispose_sync :: "view_sync \<Rightarrow> view_sync" where
  "dispose_sync s =
     (let s1 = (cancel_member_timer (s\<lparr>vs_disposed := True\<rparr>))\<lparr>vs_needsRetry := False,
             vs_retryDelay := None, vs_sources := [], vs_generation := vs_generation s + 1\<rparr>;
          s2 = fold cancelCatchUp (vs_desired s1) s1
      in logged NotifyListeners ((logged (Demand []) (s2\<lparr>vs_desired := []\<rparr>))\<lparr>vs_acknowledged := [],
           vs_recent := [], vs_loaded := {}, vs_loading := {}, vs_unready := {}, vs_errors := Map.empty,
           vs_manual := {}\<rparr>))"

definition timer_fired :: "cursor_reader \<Rightarrow> retry_timer \<Rightarrow> view_sync \<Rightarrow> view_sync" where
  "timer_fired readCursor t s = (case t of
      RetryAgent a g \<Rightarrow>
        (case vs_catchUps s a of
           None \<Rightarrow> s
         | Some cu \<Rightarrow> if cu_generation cu \<noteq> g \<or> cu_status cu \<noteq> CatchUpFailed then s
             else startCatchUp readCursor a None False s)
    | RetryMembership g wanted \<Rightarrow>
        let s1 = s\<lparr>vs_memberTimer := None\<rparr> in
        if vs_disposed s1 \<or> \<not> vs_connected s1 \<or> vs_generation s1 \<noteq> g \<or> vs_desired s1 \<noteq> wanted then s1
        else reconcileMembership s1)"

section \<open>Events\<close>

datatype sync_event =
    ReplaceVisible string "string list"
  | SetActive bool
  | SetConnected bool
  | SetDeliveryMode delivery_mode
  | RecoverGap string string int
  | RetryVisible string
  | Dispose
  | CacheLoaded string "string option"
  | PageArrived pending_fetch page_result
  | LatestTailArrived pending_fetch
  | FetchFailed pending_fetch string
  | Subscribed
  | SubscriptionRefused string
  | Settle
  | TimerFired nat

text \<open>An event takes place only when the sync waits for it; calls of the interface are always possible.\<close>

definition take_fetch :: "pending_fetch \<Rightarrow> (view_sync \<Rightarrow> view_sync) \<Rightarrow> view_sync \<Rightarrow> view_sync option" where
  "take_fetch f k s = (if f \<in> set (vs_fetches s)
     then Some (k (s\<lparr>vs_fetches := remove1 f (vs_fetches s)\<rparr>)) else None)"

fun sync_step :: "cursor_reader \<Rightarrow> sync_event \<Rightarrow> view_sync \<Rightarrow> view_sync option" where
  "sync_step rc (ReplaceVisible source ids) s = Some (replaceVisibleAgentIds rc source ids s)"
| "sync_step rc (SetActive v) s = Some (setActive rc v s)"
| "sync_step rc (SetConnected v) s = Some (setConnected rc v s)"
| "sync_step rc (SetDeliveryMode mode) s = Some (setDeliveryMode rc mode s)"
| "sync_step rc (RecoverGap a epoch seq) s = Some (recoverGap rc a epoch seq s)"
| "sync_step rc (RetryVisible a) s = Some (retryVisibleAgentTimeline rc a s)"
| "sync_step rc Dispose s = Some (dispose_sync s)"
| "sync_step rc (CacheLoaded a failure) s = (if a \<in> set (vs_loads s)
     then Some (cache_loaded rc a failure (s\<lparr>vs_loads := remove1 a (vs_loads s)\<rparr>)) else None)"
| "sync_step rc (PageArrived f page) s = (if pf_latestTail f then None
     else take_fetch f (page_arrived rc f page) s)"
| "sync_step rc (LatestTailArrived f) s = (if pf_latestTail f
     then take_fetch f (latest_tail_arrived f) s else None)"
| "sync_step rc (FetchFailed f e) s = take_fetch f (fetch_failed f e) s"
| "sync_step rc Subscribed s = (case vs_reconcile s of
     Subscribing g wanted \<Rightarrow> Some (subscription_accepted rc g wanted s) | _ \<Rightarrow> None)"
| "sync_step rc (SubscriptionRefused e) s = (case vs_reconcile s of
     Subscribing g wanted \<Rightarrow> Some (subscription_refused g wanted e s) | _ \<Rightarrow> None)"
| "sync_step rc Settle s = (if vs_reconcile s = Settling then Some (settle_reconcile s) else None)"
| "sync_step rc (TimerFired i) s = (case vs_timers s i of
     None \<Rightarrow> None
   | Some (t, d) \<Rightarrow> Some (timer_fired rc t (s\<lparr>vs_timers := (vs_timers s)(i := None)\<rparr>)))"

end
