(* ===== verification/Sync_Safety.thy ===== *)
theory Sync_Safety
  imports Timeline_Sync
begin

text \<open>
  The invariant of \<open>Timeline_Sync\<close>: a catch-up that runs has a fetch in flight, one that failed has a timer,
  and one that is complete owes nothing; the membership is settled, or something that will settle it is
  under way.
\<close>

section \<open>The invariant\<close>

definition begun :: "view_sync \<Rightarrow> string \<Rightarrow> bool" where
  "begun s a \<longleftrightarrow> (if a \<in> vs_loaded s then vs_catchUps s a \<noteq> None else a \<in> vs_loading s)"

definition asked :: "fetch_direction \<Rightarrow> catch_up_state \<Rightarrow> bool" where
  "asked d cu \<longleftrightarrow> (\<exists>q. cu_request cu = Some q \<and> fq_direction q = Some d)"

definition under_way :: "view_sync \<Rightarrow> string \<Rightarrow> catch_up_state \<Rightarrow> bool" where
  "under_way s a cu \<longleftrightarrow> (case cu_status cu of
      CatchUpRunning \<Rightarrow> (\<exists>f\<in>set (vs_fetches s). pf_agent f = a \<and> pf_generation f = cu_generation cu) \<and>
        (vs_pending s a \<noteq> None \<longrightarrow> asked Tail cu) \<and> cu_retry cu = None
    | CatchUpComplete \<Rightarrow> a \<notin> vs_unready s \<and> vs_pending s a = None \<and> cu_retry cu = None
    | CatchUpFailed \<Rightarrow> (\<exists>i d. cu_retry cu = Some i \<and>
        vs_timers s i = Some (RetryAgent a (cu_generation cu), d)))"

definition agent_ok :: "view_sync \<Rightarrow> string \<Rightarrow> bool" where
  "agent_ok s a \<longleftrightarrow> (\<forall>cu. vs_catchUps s a = Some cu \<longrightarrow>
     vs_connected s \<and> a \<in> set (vs_desired s) \<and> a \<in> set (vs_acknowledged s) \<and> a \<in> vs_loaded s \<and>
     under_way s a cu)"

definition timers_ok :: "(nat \<rightharpoonup> retry_timer \<times> nat) \<Rightarrow> nat \<Rightarrow> nat option \<Rightarrow> bool" where
  "timers_ok timers n member \<longleftrightarrow> (\<forall>i t. timers i = Some t \<longrightarrow> i < n) \<and>
     (\<forall>i. member = Some i \<longrightarrow> (\<exists>g w d. timers i = Some (RetryMembership g w, d))) \<and>
     (\<forall>i g w d. timers i = Some (RetryMembership g w, d) \<longrightarrow> member = Some i)"

definition fetch_ok :: "(string \<rightharpoonup> nat) \<Rightarrow> (string \<rightharpoonup> catch_up_state) \<Rightarrow> pending_fetch \<Rightarrow> bool" where
  "fetch_ok gens cus f \<longleftrightarrow> pf_generation f \<le> default 0 (gens (pf_agent f)) \<and>
     (pf_latestTail f \<longrightarrow> pf_overflow f) \<and>
     (\<forall>cu. cus (pf_agent f) = Some cu \<and> cu_generation cu = pf_generation f \<longrightarrow>
        cu_status cu = CatchUpRunning \<and> (pf_overflow f \<longrightarrow> asked After cu))"

text \<open>A catch-up fetches one page at a time.\<close>

definition one_fetch :: "pending_fetch list \<Rightarrow> bool" where
  "one_fetch fs \<longleftrightarrow> distinct (map (\<lambda>f. (pf_agent f, pf_generation f)) fs)"

definition base_ok :: "view_sync \<Rightarrow> bool" where
  "base_ok s \<longleftrightarrow> timers_ok (vs_timers s) (vs_nextTimer s) (vs_memberTimer s) \<and>
     (\<forall>f\<in>set (vs_fetches s). fetch_ok (vs_generations s) (vs_catchUps s) f) \<and>
     one_fetch (vs_fetches s) \<and> vs_loading s \<subseteq> set (vs_loads s) \<and> \<not> vs_disposed s"

definition no_subscription :: "view_sync \<Rightarrow> bool" where
  "no_subscription s \<longleftrightarrow> vs_reconcile s = ReconcileIdle \<or> vs_reconcile s = Settling"

definition retry_scheduled :: "view_sync \<Rightarrow> bool" where
  "retry_scheduled s \<longleftrightarrow> (\<exists>i d. vs_memberTimer s = Some i \<and>
     vs_timers s i = Some (RetryMembership (vs_generation s) (vs_desired s), d))"

definition settled_members :: "view_sync \<Rightarrow> bool" where
  "settled_members s \<longleftrightarrow> vs_mode s = LegacyDelivery \<or>
     no_subscription s \<and> \<not> vs_needsRetry s \<and> vs_acknowledged s = vs_desired s"

definition members_base :: "view_sync \<Rightarrow> bool" where
  "members_base s \<longleftrightarrow>
     (\<not> vs_connected s \<longrightarrow> vs_acknowledged s = []) \<and>
     (vs_connected s \<and> vs_mode s = LegacyDelivery \<longrightarrow> vs_acknowledged s = vs_desired s) \<and>
     (vs_connected s \<and> settled_members s \<longrightarrow> (\<forall>a\<in>set (vs_desired s). begun s a)) \<and>
     (\<forall>g w. vs_reconcile s = Subscribing g w \<longrightarrow> g \<le> vs_generation s \<and> \<not> vs_needsRetry s \<and>
        (g = vs_generation s \<longrightarrow> w = vs_desired s))"

text \<open>A client that is connected and not settled has asked, will ask again, or has a timer that does.\<close>

definition members_asked :: "view_sync \<Rightarrow> bool" where
  "members_asked s \<longleftrightarrow> vs_connected s \<and> vs_mode s = SelectiveDelivery \<longrightarrow>
     (\<forall>g w. vs_reconcile s = Subscribing g w \<and> g \<noteq> vs_generation s \<longrightarrow> vs_again s) \<and>
     (no_subscription s \<longrightarrow> vs_reconcile s = Settling \<and> vs_again s \<or>
        (if vs_needsRetry s then retry_scheduled s else vs_acknowledged s = vs_desired s))"

definition members_ok :: "view_sync \<Rightarrow> bool" where
  "members_ok s \<longleftrightarrow> members_base s \<and> members_asked s"

definition sync_ok :: "view_sync \<Rightarrow> bool" where
  "sync_ok s \<longleftrightarrow> base_ok s \<and> (\<forall>a. agent_ok s a) \<and> members_ok s"

text \<open>What the steps of a catch-up keep of the membership.\<close>

definition kept :: "view_sync \<Rightarrow> view_sync \<Rightarrow> bool" where
  "kept s t \<longleftrightarrow> vs_connected t = vs_connected s \<and> vs_mode t = vs_mode s \<and> vs_desired t = vs_desired s \<and>
     vs_acknowledged t = vs_acknowledged s \<and> vs_generation t = vs_generation s \<and>
     vs_reconcile t = vs_reconcile s \<and> vs_again t = vs_again s \<and> vs_needsRetry t = vs_needsRetry s \<and>
     vs_memberTimer t = vs_memberTimer s \<and>
     (\<forall>i g w d. vs_timers t i = Some (RetryMembership g w, d) \<longleftrightarrow>
        vs_timers s i = Some (RetryMembership g w, d)) \<and>
     (\<forall>a. vs_connected s \<and> a \<in> set (vs_desired s) \<and> a \<in> set (vs_acknowledged s) \<and> begun s a \<longrightarrow>
        begun t a)"

lemma kept_refl [simp]: "kept s s"
  by (simp add: kept_def)

lemma kept_trans: "kept s t \<Longrightarrow> kept t u \<Longrightarrow> kept s u"
  unfolding kept_def by metis

lemma members_ok_kept:
  assumes "members_ok s" "kept s t"
  shows "members_ok t"
proof -
  have sub: "no_subscription t = no_subscription s" and retry: "retry_scheduled t = retry_scheduled s"
    and settled: "settled_members t = settled_members s"
    using assms(2) by (simp_all add: kept_def no_subscription_def retry_scheduled_def settled_members_def)
  from assms(2) have eqs: "vs_connected t = vs_connected s" "vs_mode t = vs_mode s"
    "vs_desired t = vs_desired s" "vs_acknowledged t = vs_acknowledged s"
    "vs_generation t = vs_generation s" "vs_reconcile t = vs_reconcile s" "vs_again t = vs_again s"
    "vs_needsRetry t = vs_needsRetry s"
    and more: "\<And>a. vs_connected s \<Longrightarrow> a \<in> set (vs_desired s) \<Longrightarrow> a \<in> set (vs_acknowledged s) \<Longrightarrow>
      begun s a \<Longrightarrow> begun t a"
    by (simp_all add: kept_def)
  have "begun t a" if "vs_connected s" "settled_members s" "a \<in> set (vs_desired s)" for a
  proof (rule more [OF that(1,3)])
    show "a \<in> set (vs_acknowledged s)" using assms(1) that by (auto simp: members_ok_def members_base_def settled_members_def)
    show "begun s a" using assms(1) that unfolding members_ok_def members_base_def by blast
  qed
  then show ?thesis
    using assms(1) unfolding members_ok_def members_base_def members_asked_def sub retry settled eqs
    by blast
qed

section \<open>Fields\<close>

lemma logged_fields [simp]:
  "vs_sources (logged c s) = vs_sources s" "vs_catchUps (logged c s) = vs_catchUps s"
  "vs_generations (logged c s) = vs_generations s" "vs_pending (logged c s) = vs_pending s"
  "vs_unready (logged c s) = vs_unready s" "vs_errors (logged c s) = vs_errors s"
  "vs_manual (logged c s) = vs_manual s" "vs_loaded (logged c s) = vs_loaded s"
  "vs_loading (logged c s) = vs_loading s" "vs_active (logged c s) = vs_active s"
  "vs_connected (logged c s) = vs_connected s" "vs_mode (logged c s) = vs_mode s"
  "vs_disposed (logged c s) = vs_disposed s" "vs_desired (logged c s) = vs_desired s"
  "vs_acknowledged (logged c s) = vs_acknowledged s" "vs_generation (logged c s) = vs_generation s"
  "vs_reconcile (logged c s) = vs_reconcile s" "vs_again (logged c s) = vs_again s"
  "vs_needsRetry (logged c s) = vs_needsRetry s" "vs_retryDelay (logged c s) = vs_retryDelay s"
  "vs_memberTimer (logged c s) = vs_memberTimer s" "vs_fetches (logged c s) = vs_fetches s"
  "vs_loads (logged c s) = vs_loads s" "vs_timers (logged c s) = vs_timers s"
  "vs_nextTimer (logged c s) = vs_nextTimer s"
  by (simp_all add: logged_def)

text \<open>The invariant reads neither the log nor the sources, errors, manual retries and delays.\<close>

definition same_core :: "view_sync \<Rightarrow> view_sync \<Rightarrow> bool" where
  "same_core s t \<longleftrightarrow> vs_catchUps t = vs_catchUps s \<and> vs_generations t = vs_generations s \<and>
     vs_pending t = vs_pending s \<and> vs_unready t \<subseteq> vs_unready s \<and> vs_loaded t = vs_loaded s \<and>
     vs_loading t = vs_loading s \<and> vs_connected t = vs_connected s \<and> vs_mode t = vs_mode s \<and>
     vs_disposed t = vs_disposed s \<and> vs_desired t = vs_desired s \<and>
     vs_acknowledged t = vs_acknowledged s \<and> vs_generation t = vs_generation s \<and>
     vs_reconcile t = vs_reconcile s \<and> vs_again t = vs_again s \<and> vs_needsRetry t = vs_needsRetry s \<and>
     vs_memberTimer t = vs_memberTimer s \<and> vs_fetches t = vs_fetches s \<and> vs_loads t = vs_loads s \<and>
     vs_timers t = vs_timers s \<and> vs_nextTimer t = vs_nextTimer s"

lemma same_core_refl [simp]: "same_core s s" by (simp add: same_core_def)

lemma same_core_trans: "same_core s t \<Longrightarrow> same_core t u \<Longrightarrow> same_core s u"
  by (auto simp: same_core_def)

lemma same_core_logged [simp]: "same_core s (logged c s)"
  by (simp add: same_core_def)

lemma same_core_notify [simp]: "same_core s (notify_if b s)"
  by (simp add: notify_if_def)

lemma begun_same_core: "same_core s t \<Longrightarrow> begun t a = begun s a"
  by (simp add: same_core_def begun_def)

lemma under_way_same_core: "same_core s t \<Longrightarrow> under_way s a cu \<Longrightarrow> under_way t a cu"
  by (auto simp: same_core_def under_way_def split: catch_up_status.splits)

lemma agent_ok_same_core: "same_core s t \<Longrightarrow> agent_ok s a \<Longrightarrow> agent_ok t a"
  using under_way_same_core [of s t a] by (auto simp: same_core_def agent_ok_def)

lemma base_ok_same_core: "same_core s t \<Longrightarrow> base_ok s \<Longrightarrow> base_ok t"
  by (simp add: same_core_def base_ok_def)

lemma kept_same_core: "same_core s t \<Longrightarrow> kept s t"
  unfolding same_core_def kept_def begun_def by simp

lemma same_core_ready: "same_core s (setVisibilityCatchUpReady a s)"
  unfolding setVisibilityCatchUpReady_def
  by (rule same_core_trans [OF _ same_core_notify]) (auto simp: same_core_def)

lemma same_core_error: "same_core s (setVisibilityCatchUpError ids e s)"
  unfolding setVisibilityCatchUpError_def
  by (rule same_core_trans [OF _ same_core_notify]) (auto simp: same_core_def)

section \<open>Catch-ups\<close>

text \<open>What concerns one agent.\<close>

definition agent_kept :: "view_sync \<Rightarrow> view_sync \<Rightarrow> string \<Rightarrow> bool" where
  "agent_kept s t b \<longleftrightarrow> vs_connected t = vs_connected s \<and>
     (b \<in> set (vs_desired s) \<longrightarrow> b \<in> set (vs_desired t)) \<and>
     (b \<in> set (vs_acknowledged s) \<longrightarrow> b \<in> set (vs_acknowledged t)) \<and>
     (b \<in> vs_loaded s \<longrightarrow> b \<in> vs_loaded t) \<and> vs_catchUps t b = vs_catchUps s b \<and>
     vs_pending t b = vs_pending s b \<and> (b \<in> vs_unready t \<longrightarrow> b \<in> vs_unready s) \<and>
     (\<forall>f\<in>set (vs_fetches s). pf_agent f = b \<longrightarrow> f \<in> set (vs_fetches t)) \<and>
     (\<forall>i g d. vs_timers s i = Some (RetryAgent b g, d) \<longrightarrow> vs_timers t i = Some (RetryAgent b g, d))"

lemma agent_ok_kept:
  assumes "agent_ok s b" "agent_kept s t b"
  shows "agent_ok t b"
proof (cases "vs_catchUps s b")
  case None
  with assms(2) show ?thesis by (simp add: agent_ok_def agent_kept_def)
next
  case (Some cu)
  from assms(1) Some have u: "under_way s b cu" by (simp add: agent_ok_def)
  from assms(2) have k: "vs_pending t b = vs_pending s b" "b \<in> vs_unready t \<Longrightarrow> b \<in> vs_unready s"
    "\<And>f. f \<in> set (vs_fetches s) \<Longrightarrow> pf_agent f = b \<Longrightarrow> f \<in> set (vs_fetches t)"
    "\<And>i g d. vs_timers s i = Some (RetryAgent b g, d) \<Longrightarrow> vs_timers t i = Some (RetryAgent b g, d)"
    by (simp_all add: agent_kept_def)
  have "under_way t b cu"
  proof (cases "cu_status cu")
    case CatchUpRunning
    with u obtain f where "f \<in> set (vs_fetches s)" "pf_agent f = b" "pf_generation f = cu_generation cu"
      by (auto simp: under_way_def)
    with k(3) have "\<exists>f\<in>set (vs_fetches t). pf_agent f = b \<and> pf_generation f = cu_generation cu" by blast
    with u CatchUpRunning k(1) show ?thesis by (simp add: under_way_def)
  next
    case CatchUpComplete
    with u k(1,2) show ?thesis by (auto simp: under_way_def)
  next
    case CatchUpFailed
    with u k(4) show ?thesis by (auto simp: under_way_def)
  qed
  with assms Some show ?thesis by (simp add: agent_ok_def agent_kept_def)
qed

text \<open>The timer of an agent's catch-up belongs to the agent.\<close>

definition own_timer :: "view_sync \<Rightarrow> string \<Rightarrow> bool" where
  "own_timer s a \<longleftrightarrow> (\<forall>cu i t d. vs_catchUps s a = Some cu \<and> cu_retry cu = Some i \<and>
     vs_timers s i = Some (t, d) \<longrightarrow> (\<exists>g. t = RetryAgent a g))"

lemma agent_ok_own_timer: "agent_ok s a \<Longrightarrow> own_timer s a"
  unfolding agent_ok_def own_timer_def under_way_def
  by (clarify, erule_tac x = cu in allE) (auto split: catch_up_status.splits)

lemma cancel_timer_fields [simp]:
  "vs_catchUps (cancel_timer t s) = vs_catchUps s" "vs_generations (cancel_timer t s) = vs_generations s"
  "vs_pending (cancel_timer t s) = vs_pending s" "vs_unready (cancel_timer t s) = vs_unready s"
  "vs_loaded (cancel_timer t s) = vs_loaded s" "vs_loading (cancel_timer t s) = vs_loading s"
  "vs_connected (cancel_timer t s) = vs_connected s" "vs_mode (cancel_timer t s) = vs_mode s"
  "vs_disposed (cancel_timer t s) = vs_disposed s" "vs_desired (cancel_timer t s) = vs_desired s"
  "vs_acknowledged (cancel_timer t s) = vs_acknowledged s" "vs_generation (cancel_timer t s) = vs_generation s"
  "vs_reconcile (cancel_timer t s) = vs_reconcile s" "vs_again (cancel_timer t s) = vs_again s"
  "vs_needsRetry (cancel_timer t s) = vs_needsRetry s" "vs_memberTimer (cancel_timer t s) = vs_memberTimer s"
  "vs_fetches (cancel_timer t s) = vs_fetches s" "vs_loads (cancel_timer t s) = vs_loads s"
  "vs_nextTimer (cancel_timer t s) = vs_nextTimer s" "vs_retryDelay (cancel_timer t s) = vs_retryDelay s"
  by (simp_all add: cancel_timer_def split: option.splits)

lemma cancel_timer_timers:
  "vs_timers (cancel_timer t s) i = (if t = Some i then None else vs_timers s i)"
  by (simp add: cancel_timer_def split: option.splits)

lemma own_timer_cancelled:
  assumes "own_timer s a"
  shows "vs_timers (cancel_timer (Option.bind (vs_catchUps s a) cu_retry) s) i = Some (t, d) \<Longrightarrow>
      vs_timers s i = Some (t, d)"
    and "vs_timers s i = Some (t, d) \<Longrightarrow> (\<forall>g. t \<noteq> RetryAgent a g) \<Longrightarrow>
      vs_timers (cancel_timer (Option.bind (vs_catchUps s a) cu_retry) s) i = Some (t, d)"
  using assms by (fastforce simp: cancel_timer_timers own_timer_def Option.bind_eq_Some_conv split: if_splits)+

lemma cancel_own:
  assumes "base_ok s" "own_timer s a"
  defines "t \<equiv> cancel_timer (Option.bind (vs_catchUps s a) cu_retry) s"
  shows "base_ok t" "kept s t" "b \<noteq> a \<Longrightarrow> agent_ok s b \<Longrightarrow> agent_ok t b"
proof -
  note before = own_timer_cancelled(1) [OF assms(2), folded t_def]
  note still = own_timer_cancelled(2) [OF assms(2), folded t_def]
  have members: "vs_timers t i = Some (RetryMembership g w, d) \<longleftrightarrow> vs_timers s i = Some (RetryMembership g w, d)"
    for i g w d using before still by blast
  have fields: "vs_nextTimer t = vs_nextTimer s" "vs_memberTimer t = vs_memberTimer s"
    "vs_fetches t = vs_fetches s" "vs_generations t = vs_generations s" "vs_catchUps t = vs_catchUps s"
    "vs_loading t = vs_loading s" "vs_loads t = vs_loads s" "vs_disposed t = vs_disposed s"
    "vs_connected t = vs_connected s" "vs_desired t = vs_desired s" "vs_acknowledged t = vs_acknowledged s"
    "vs_loaded t = vs_loaded s" "vs_pending t = vs_pending s" "vs_unready t = vs_unready s"
    by (simp_all add: t_def)
  have "timers_ok (vs_timers s) (vs_nextTimer s) (vs_memberTimer s)" using assms(1) by (simp add: base_ok_def)
  then have "timers_ok (vs_timers t) (vs_nextTimer t) (vs_memberTimer t)"
    using before unfolding timers_ok_def fields members by fastforce
  then show "base_ok t" using assms(1) by (simp add: base_ok_def fields)
  show "kept s t" unfolding kept_def begun_def members by (simp add: t_def)
  assume b: "b \<noteq> a" "agent_ok s b"
  from b(2) show "agent_ok t b"
    by (rule agent_ok_kept) (use still b(1) in \<open>simp add: agent_kept_def fields\<close>)
qed

lemma fetchUntilCurrent_owned:
  "ownsCatchUp s a g \<Longrightarrow> fetchUntilCurrent a g q overflow s =
     s\<lparr>vs_fetches := vs_fetches s @ [\<lparr>pf_agent = a, pf_generation = g, pf_request = q,
       pf_overflow = overflow, pf_latestTail = False\<rparr>]\<rparr>"
  by (simp add: fetchUntilCurrent_def)

lemma replace_facts:
  fixes supersede :: bool
  assumes "base_ok s" "own_timer s a" "\<forall>b. b \<noteq> a \<longrightarrow> agent_ok s b"
    and "vs_connected s" "a \<in> set (vs_desired s)" "a \<in> set (vs_acknowledged s)" "a \<in> vs_loaded s"
    and "overflow \<longrightarrow> fq_direction q = Some After"
  defines "t \<equiv> replace_catch_up a q supersede overflow s"
  shows "base_ok t" "agent_ok t b" "kept s t" "vs_catchUps t a \<noteq> None"
proof -
  let ?s1 = "cancel_timer (Option.bind (vs_catchUps s a) cu_retry) s"
  let ?g = "default 0 (vs_generations s a) + 1"
  let ?delay = "case vs_catchUps s a of None \<Rightarrow> None
    | Some cu \<Rightarrow> if supersede \<or> cu_status cu \<noteq> CatchUpFailed then None else cu_delay cu"
  let ?cu = "\<lparr>cu_generation = ?g, cu_status = CatchUpRunning, cu_request = Some q, cu_retry = None,
    cu_delay = ?delay\<rparr>"
  let ?f = "\<lparr>pf_agent = a, pf_generation = ?g, pf_request = q, pf_overflow = overflow, pf_latestTail = False\<rparr>"
  let ?s2 = "?s1\<lparr>vs_generations := (vs_generations s)(a \<mapsto> ?g), vs_catchUps := (vs_catchUps s)(a \<mapsto> ?cu),
    vs_pending := (vs_pending s)(a := None)\<rparr>"
  note c = cancel_own [OF assms(1,2)]
  have "ownsCatchUp ?s2 a ?g"
    using assms by (simp add: ownsCatchUp_def base_ok_def)
  then have t: "t = ?s2\<lparr>vs_fetches := vs_fetches s @ [?f]\<rparr>"
    by (simp add: t_def replace_catch_up_def Let_def fetchUntilCurrent_owned)
  have "fetch_ok (vs_generations t) (vs_catchUps t) f"
    if "fetch_ok (vs_generations s) (vs_catchUps s) f" for f
    using that by (auto simp: fetch_ok_def t)
  moreover have "fetch_ok (vs_generations t) (vs_catchUps t) ?f"
    using assms(8) by (auto simp: fetch_ok_def t asked_def)
  moreover have "one_fetch (vs_fetches t)" if "one_fetch (vs_fetches s)"
    "\<forall>f\<in>set (vs_fetches s). fetch_ok (vs_generations s) (vs_catchUps s) f"
    using that by (force simp: one_fetch_def fetch_ok_def t)
  ultimately show "base_ok t" using assms(1) c(1) by (auto simp: base_ok_def t)
  have "kept ?s1 t" by (simp add: kept_def begun_def t)
  then show "kept s t" using c(2) kept_trans by blast
  show "vs_catchUps t a \<noteq> None" by (simp add: t)
  show "agent_ok t b"
  proof (cases "b = a")
    case True
    show ?thesis unfolding True t using assms(4-7) by (simp add: agent_ok_def under_way_def)
  next
    case False
    with c(3) assms(3) have "agent_ok ?s1 b" by blast
    then show ?thesis by (rule agent_ok_kept) (use False in \<open>simp add: t agent_kept_def\<close>)
  qed
qed

end
