(* ===== verification/Sync_Steps.thy ===== *)
theory Sync_Steps
  imports Sync_Safety
begin

text \<open>The steps of a catch-up keep the invariant of \<open>Sync_Safety\<close>.\<close>

definition catch_ups_ok :: "view_sync \<Rightarrow> bool" where
  "catch_ups_ok s \<longleftrightarrow> base_ok s \<and> (\<forall>b. agent_ok s b)"

lemma catch_ups_ok_same_core: "same_core s t \<Longrightarrow> catch_ups_ok s \<Longrightarrow> catch_ups_ok t"
  using base_ok_same_core agent_ok_same_core unfolding catch_ups_ok_def by blast

text \<open>\<open>goes s t\<close>: the step from \<open>s\<close> to \<open>t\<close> keeps the catch-ups in order and the membership as it is.\<close>

definition goes :: "view_sync \<Rightarrow> view_sync \<Rightarrow> bool" where
  "goes s t \<longleftrightarrow> (catch_ups_ok s \<longrightarrow> catch_ups_ok t) \<and> kept s t"

lemma goes_refl [simp]: "goes s s"
  by (simp add: goes_def)

lemma goes_trans: "goes s t \<Longrightarrow> goes t u \<Longrightarrow> goes s u"
  unfolding goes_def using kept_trans by blast

lemma goes_same_core: "same_core s t \<Longrightarrow> goes s t"
  unfolding goes_def using catch_ups_ok_same_core kept_same_core by blast

lemma sync_ok_goes: "sync_ok s \<Longrightarrow> goes s t \<Longrightarrow> sync_ok t"
  unfolding sync_ok_def goes_def catch_ups_ok_def using members_ok_kept by blast

lemma followed:
  assumes "catch_ups_ok s" "vs_catchUps s a \<noteq> None"
  shows "vs_connected s" "a \<in> set (vs_desired s)" "a \<in> set (vs_acknowledged s)" "a \<in> vs_loaded s"
  using assms by (auto simp: catch_ups_ok_def agent_ok_def)

lemma unfollowed:
  assumes "catch_ups_ok s" "\<not> vs_connected s \<or> a \<notin> set (vs_desired s) \<or> a \<notin> set (vs_acknowledged s) \<or> a \<notin> vs_loaded s"
  shows "vs_catchUps s a = None"
  using followed [OF assms(1)] assms(2) by blast

text \<open>A change of what is owed to an agent without a catch-up.\<close>

lemma owed_goes:
  assumes "catch_ups_ok s" "vs_catchUps s a = None"
  shows "goes s (owed a q s)"
proof (cases q)
  case None
  then show ?thesis by (simp add: owed_def)
next
  case (Some r)
  let ?t = "s\<lparr>vs_pending := (vs_pending s)(a \<mapsto> r)\<rparr>"
  have "agent_ok ?t b" for b
  proof (cases "b = a")
    case True
    with assms(2) show ?thesis by (simp add: agent_ok_def)
  next
    case False
    have "agent_ok s b" using assms(1) unfolding catch_ups_ok_def by blast
    then show ?thesis by (rule agent_ok_kept) (use False in \<open>simp add: agent_kept_def\<close>)
  qed
  moreover have "base_ok ?t" using assms(1) by (simp add: catch_ups_ok_def base_ok_def)
  moreover have "kept s ?t" by (simp add: kept_def begun_def)
  ultimately show ?thesis using Some by (simp add: goes_def catch_ups_ok_def owed_def)
qed

lemma ensure_goes: "goes s (ensureCacheLoaded a s)"
proof -
  let ?t = "s\<lparr>vs_loads := vs_loads s @ [a], vs_loading := insert a (vs_loading s)\<rparr>"
  have "agent_ok ?t b" if "agent_ok s b" for b
    by (rule agent_ok_kept [OF that]) (simp add: agent_kept_def)
  moreover have "base_ok ?t" if "base_ok s" using that by (auto simp: base_ok_def)
  moreover have "kept s ?t" by (simp add: kept_def begun_def)
  ultimately show ?thesis by (simp add: goes_def catch_ups_ok_def ensureCacheLoaded_def)
qed

lemma ensure_begun: "a \<notin> vs_loaded s \<Longrightarrow> begun (ensureCacheLoaded a s) a"
  by (simp add: ensureCacheLoaded_def begun_def)

lemma replace_goes:
  assumes "base_ok s" "own_timer s a" "\<forall>b. b \<noteq> a \<longrightarrow> agent_ok s b"
    and "vs_connected s" "a \<in> set (vs_desired s)" "a \<in> set (vs_acknowledged s)" "a \<in> vs_loaded s"
    and "overflow \<longrightarrow> fq_direction q = Some After"
  shows "catch_ups_ok (replace_catch_up a q supersede overflow s)"
    "kept s (replace_catch_up a q supersede overflow s)"
    "vs_catchUps (replace_catch_up a q supersede overflow s) a \<noteq> None"
  using replace_facts [OF assms] by (simp_all add: catch_ups_ok_def)

text \<open>A catch-up that is parked keeps what it owes.\<close>

lemma park_goes:
  assumes "vs_catchUps s a = Some cu" "cu_status cu = CatchUpRunning" "asked Tail cu"
  shows "goes s (s\<lparr>vs_pending := (vs_pending s)(a \<mapsto> q)\<rparr>)"
proof -
  let ?t = "s\<lparr>vs_pending := (vs_pending s)(a \<mapsto> q)\<rparr>"
  have "agent_ok ?t b" if ok: "\<forall>b. agent_ok s b" for b
  proof (cases "b = a")
    case True
    have "agent_ok s a" using ok by blast
    with True assms show ?thesis by (simp add: agent_ok_def under_way_def)
  next
    case False
    have "agent_ok s b" using ok by blast
    then show ?thesis by (rule agent_ok_kept) (use False in \<open>simp add: agent_kept_def\<close>)
  qed
  moreover have "base_ok ?t" if "base_ok s" using that by (auto simp: base_ok_def)
  moreover have "kept s ?t" by (simp add: kept_def begun_def)
  ultimately show ?thesis by (simp add: goes_def catch_ups_ok_def)
qed

lemma decide_park:
  "decideCatchUp c q supersede = ParkCatchUp \<Longrightarrow>
     \<exists>cu. c = Some cu \<and> cu_status cu = CatchUpRunning \<and> asked Tail cu"
  by (auto simp: decideCatchUp_def asked_def split: option.splits if_splits)

lemma decide_keep: "decideCatchUp c q supersede = KeepCatchUp \<Longrightarrow> c \<noteq> None"
  by (auto simp: decideCatchUp_def split: option.splits)

lemma start_goes: "catch_ups_ok s \<Longrightarrow> goes s (startCatchUp rc a q supersede s)"
proof -
  assume ok: "catch_ups_ok s"
  let ?next = "case q of Some r \<Rightarrow> r | None \<Rightarrow> planTimelineResumeFetch (rc a)"
  show ?thesis
  proof (cases "\<not> vs_connected s \<or> a \<notin> set (vs_desired s) \<or> a \<notin> set (vs_acknowledged s)")
    case True
    then have "vs_catchUps s a = None" by (intro unfollowed [OF ok]) blast
    with True ok owed_goes show ?thesis by (auto simp: startCatchUp_def)
  next
    case connected: False
    show ?thesis
    proof (cases "a \<in> vs_loaded s")
      case False
      then have "vs_catchUps s a = None" by (intro unfollowed [OF ok]) blast
      with connected False goes_trans [OF owed_goes [OF ok] ensure_goes] show ?thesis
        by (auto simp: startCatchUp_def)
    next
      case True
      show ?thesis
      proof (cases "decideCatchUp (vs_catchUps s a) ?next supersede")
        case KeepCatchUp
        with connected True show ?thesis by (simp add: startCatchUp_def Let_def)
      next
        case ParkCatchUp
        with decide_park park_goes connected True show ?thesis by (fastforce simp: startCatchUp_def Let_def)
      next
        case ReplaceCatchUp
        let ?t = "replace_catch_up a ?next supersede (q = None \<and> fq_direction ?next = Some After) s"
        have pre: "own_timer s a" "base_ok s" "\<forall>b. b \<noteq> a \<longrightarrow> agent_ok s b"
          using ok agent_ok_own_timer by (auto simp: catch_ups_ok_def)
        have "goes s ?t"
          unfolding goes_def
          by (intro conjI impI; rule replace_goes [OF pre(2,1,3)]) (use connected True in auto)
        moreover have "startCatchUp rc a q supersede s = ?t"
          using connected True ReplaceCatchUp by (simp add: startCatchUp_def Let_def)
        ultimately show ?thesis by simp
      qed
    qed
  qed
qed

lemma start_begun:
  assumes "catch_ups_ok s" "vs_connected s" "a \<in> set (vs_desired s)" "a \<in> set (vs_acknowledged s)"
  shows "begun (startCatchUp rc a q supersede s) a"
proof (cases "a \<in> vs_loaded s")
  case False
  then have "a \<notin> vs_loaded (owed a q s)" by (simp add: owed_def split: option.split)
  with False assms ensure_begun show ?thesis by (simp add: startCatchUp_def)
next
  case True
  let ?next = "case q of Some r \<Rightarrow> r | None \<Rightarrow> planTimelineResumeFetch (rc a)"
  show ?thesis
  proof (cases "decideCatchUp (vs_catchUps s a) ?next supersede")
    case KeepCatchUp
    with decide_keep True assms show ?thesis by (simp add: startCatchUp_def Let_def begun_def)
  next
    case ParkCatchUp
    with decide_park True assms show ?thesis by (fastforce simp: startCatchUp_def Let_def begun_def)
  next
    case ReplaceCatchUp
    let ?t = "replace_catch_up a ?next supersede (q = None \<and> fq_direction ?next = Some After) s"
    have ok: "own_timer s a" "base_ok s" "\<forall>b. b \<noteq> a \<longrightarrow> agent_ok s b"
      using assms(1) agent_ok_own_timer by (auto simp: catch_ups_ok_def)
    have "q = None \<and> fq_direction ?next = Some After \<longrightarrow> fq_direction ?next = Some After" by blast
    note r = replace_goes [OF ok(2,1,3) assms(2-4) True this]
    have "startCatchUp rc a q supersede s = ?t"
      using ReplaceCatchUp True assms by (simp add: startCatchUp_def Let_def)
    moreover have "catch_ups_ok ?t" "vs_catchUps ?t a \<noteq> None" using r by blast+
    ultimately show ?thesis using followed(4) by (auto simp: begun_def)
  qed
qed

lemma start_owed_goes: "catch_ups_ok s \<Longrightarrow> goes s (start_owed rc a s)"
  by (simp add: start_owed_def start_goes)

lemma goes_ok: "goes s t \<Longrightarrow> catch_ups_ok s \<Longrightarrow> catch_ups_ok t"
  by (simp add: goes_def)

lemma goes_fields:
  "goes s t \<Longrightarrow> vs_connected t = vs_connected s" "goes s t \<Longrightarrow> vs_desired t = vs_desired s"
  "goes s t \<Longrightarrow> vs_acknowledged t = vs_acknowledged s" 
  "goes s t \<Longrightarrow> vs_connected s \<Longrightarrow> a \<in> set (vs_desired s) \<Longrightarrow> a \<in> set (vs_acknowledged s) \<Longrightarrow>
     begun s a \<Longrightarrow> begun t a"
  "goes s t \<Longrightarrow> vs_mode t = vs_mode s" "goes s t \<Longrightarrow> vs_generation t = vs_generation s"
  "goes s t \<Longrightarrow> vs_reconcile t = vs_reconcile s" "goes s t \<Longrightarrow> vs_needsRetry t = vs_needsRetry s"
  "goes s t \<Longrightarrow> vs_again t = vs_again s" "goes s t \<Longrightarrow> vs_memberTimer t = vs_memberTimer s"
  by (simp_all add: goes_def kept_def)

lemma fold_owed:
  "catch_ups_ok s \<Longrightarrow> goes s (fold (start_owed rc) ids s)"
proof (induction ids arbitrary: s)
  case (Cons a ids)
  have "goes s (start_owed rc a s)" using Cons.prems by (rule start_owed_goes)
  with Cons goes_ok goes_trans show ?case by (fastforce simp: comp_def)
qed simp

lemma fold_owed_begun:
  assumes "catch_ups_ok s" "vs_connected s" "a \<in> set ids" "a \<in> set (vs_desired s)" "a \<in> set (vs_acknowledged s)"
  shows "begun (fold (start_owed rc) ids s) a"
  using assms
proof (induction ids arbitrary: s)
  case (Cons b ids)
  have g: "goes s (start_owed rc b s)" using Cons.prems(1) by (rule start_owed_goes)
  note ok = goes_ok [OF g Cons.prems(1)]
  show ?case
  proof (cases "a = b")
    case True
    have "begun (start_owed rc b s) b"
      unfolding start_owed_def using Cons.prems True by (intro start_begun) auto
    then have "begun (start_owed rc b s) a" using True by simp
    with goes_fields(4) [OF fold_owed [OF ok]] goes_fields(1-3) [OF g] Cons.prems show ?thesis by simp
  next
    case False
    with Cons.prems g ok goes_fields(1-3) [OF g] show ?thesis by (auto intro!: Cons.IH)
  qed
qed simp

lemma start_all:
  assumes "catch_ups_ok s"
  shows "goes s (startAcknowledgedCatchUps rc s)"
    "vs_connected s \<Longrightarrow> a \<in> set (vs_desired s) \<Longrightarrow> a \<in> set (vs_acknowledged s) \<Longrightarrow>
       begun (startAcknowledgedCatchUps rc s) a"
  using assms fold_owed fold_owed_begun by (simp_all add: startAcknowledgedCatchUps_def)

end
