(* ===== verification/Sync_Answers.thy ===== *)
theory Sync_Answers
  imports Sync_Steps
begin

text \<open>Pages, cached timelines and timers: what the answers to a catch-up keep.\<close>

section \<open>A page\<close>

text \<open>A page request that is answered was the only one of its catch-up.\<close>

abbreviation without_fetch :: "pending_fetch \<Rightarrow> view_sync \<Rightarrow> view_sync" where
  "without_fetch f s \<equiv> s\<lparr>vs_fetches := remove1 f (vs_fetches s)\<rparr>"

lemma without_fetch:
  assumes "catch_ups_ok s" "f \<in> set (vs_fetches s)"
  shows "base_ok (without_fetch f s)" "own_timer (without_fetch f s) a" "kept s (without_fetch f s)"
    "b \<noteq> pf_agent f \<Longrightarrow> agent_ok (without_fetch f s) b"
    "h \<in> set (remove1 f (vs_fetches s)) \<Longrightarrow>
       (pf_agent h, pf_generation h) \<noteq> (pf_agent f, pf_generation f)"
proof -
  have base: "base_ok s" and ok: "agent_ok s b" for b
    using assms(1) unfolding catch_ups_ok_def by blast+
  have "one_fetch (vs_fetches s)" using base by (simp add: base_ok_def)
  then have one: "one_fetch (remove1 f (vs_fetches s))" and "distinct (vs_fetches s)"
    and inj: "inj_on (\<lambda>f. (pf_agent f, pf_generation f)) (set (vs_fetches s))"
    by (simp_all add: one_fetch_def distinct_map inj_on_diff)
  then have removed: "set (remove1 f (vs_fetches s)) = set (vs_fetches s) - {f}" by simp
  then show "h \<in> set (remove1 f (vs_fetches s)) \<Longrightarrow>
      (pf_agent h, pf_generation h) \<noteq> (pf_agent f, pf_generation f)"
    using inj assms(2) by (auto dest: inj_onD)
  show "base_ok (without_fetch f s)" using base one removed by (simp add: base_ok_def)
  show "own_timer (without_fetch f s) a" using agent_ok_own_timer [OF ok] by (simp add: own_timer_def)
  show "kept s (without_fetch f s)" by (simp add: kept_def begun_def)
  show "agent_ok (without_fetch f s) b" if "b \<noteq> pf_agent f"
    by (rule agent_ok_kept [OF ok]) (use that removed in \<open>auto simp: agent_kept_def\<close>)
qed

lemma fetch_unowned:
  assumes "catch_ups_ok s" "f \<in> set (vs_fetches s)"
    and "\<forall>cu. vs_catchUps s (pf_agent f) = Some cu \<longrightarrow> cu_generation cu \<noteq> pf_generation f"
  shows "catch_ups_ok (without_fetch f s)"
proof -
  have ok: "agent_ok s (pf_agent f)" using assms(1) unfolding catch_ups_ok_def by blast
  have "agent_ok (without_fetch f s) (pf_agent f)"
  proof (cases "vs_catchUps s (pf_agent f)")
    case None
    then show ?thesis by (simp add: agent_ok_def)
  next
    case (Some cu)
    with assms(3) have "cu_generation cu \<noteq> pf_generation f" by blast
    moreover from ok Some have "under_way s (pf_agent f) cu" by (simp add: agent_ok_def)
    moreover have still: "h \<in> set (remove1 f (vs_fetches s))"
      if "h \<in> set (vs_fetches s)" "pf_generation h = cu_generation cu" for h
    proof -
      have "h \<noteq> f" using that(2) \<open>cu_generation cu \<noteq> pf_generation f\<close> by auto
      with that(1) show ?thesis by (simp add: in_set_remove1)
    qed
    ultimately have "under_way (without_fetch f s) (pf_agent f) cu"
      using still by (auto simp: under_way_def split: catch_up_status.splits)
    with ok Some show ?thesis by (simp add: agent_ok_def)
  qed
  with without_fetch(4) [OF assms(1,2)] have "\<forall>b. agent_ok (without_fetch f s) b" by metis
  with without_fetch(1) [OF assms(1,2)] show ?thesis by (simp only: catch_ups_ok_def simp_thms)
qed

lemma fetch_owned:
  assumes "catch_ups_ok s" "f \<in> set (vs_fetches s)"
    and "vs_catchUps s (pf_agent f) = Some cu" "cu_generation cu = pf_generation f"
  shows "cu_status cu = CatchUpRunning" "cu_retry cu = None"
    "pf_overflow f \<Longrightarrow> vs_pending s (pf_agent f) = None" "pf_latestTail f \<Longrightarrow> pf_overflow f"
    "ownsCatchUp s (pf_agent f) (pf_generation f)"
proof -
  have f: "fetch_ok (vs_generations s) (vs_catchUps s) f" and nd: "\<not> vs_disposed s"
    using assms(1,2) by (auto simp: catch_ups_ok_def base_ok_def)
  have ok: "agent_ok s (pf_agent f)" using assms(1) unfolding catch_ups_ok_def by blast
  with assms(3) have u: "under_way s (pf_agent f) cu" by (simp add: agent_ok_def)
  show run: "cu_status cu = CatchUpRunning" using f assms(3,4) by (auto simp: fetch_ok_def)
  show "cu_retry cu = None" using u run by (simp add: under_way_def)
  show "pf_latestTail f \<Longrightarrow> pf_overflow f" using f by (simp add: fetch_ok_def)
  show "vs_pending s (pf_agent f) = None" if "pf_overflow f"
  proof -
    have "asked After cu" using f assms(3,4) that by (auto simp: fetch_ok_def)
    then have "\<not> asked Tail cu" by (auto simp: asked_def)
    with u run show ?thesis by (auto simp: under_way_def)
  qed
  show "ownsCatchUp s (pf_agent f) (pf_generation f)"
    using nd followed [OF assms(1), of "pf_agent f"] assms(3,4) by (simp add: ownsCatchUp_def)
qed

text \<open>The next request of the same catch-up.\<close>

lemma next_fetch_goes:
  assumes "catch_ups_ok s" "f \<in> set (vs_fetches s)"
    and "vs_catchUps s (pf_agent f) = Some cu" "cu_generation cu = pf_generation f"
    and "pf_agent h = pf_agent f" "pf_generation h = pf_generation f"
    and "pf_latestTail h \<longrightarrow> pf_overflow h" "pf_overflow h \<longrightarrow> pf_overflow f"
  defines "t \<equiv> s\<lparr>vs_fetches := remove1 f (vs_fetches s) @ [h]\<rparr>"
  shows "goes s t"
proof -
  note w = without_fetch [OF assms(1,2)]
  have ok: "agent_ok s b" for b using assms(1) unfolding catch_ups_ok_def by blast
  have f: "fetch_ok (vs_generations s) (vs_catchUps s) f"
    using assms(1,2) by (auto simp: catch_ups_ok_def base_ok_def)
  then have h: "fetch_ok (vs_generations s) (vs_catchUps s) h"
    using assms(5-8) by (auto simp: fetch_ok_def)
  have "one_fetch (remove1 f (vs_fetches s))" using w(1) by (simp add: base_ok_def)
  then have "one_fetch (remove1 f (vs_fetches s) @ [h])"
    using w(5) assms(5,6) by (force simp: one_fetch_def)
  then have base: "base_ok t" using w(1) h by (auto simp: base_ok_def t_def)
  have "agent_ok t b" for b
  proof (cases "b = pf_agent f")
    case False
    have "agent_ok (without_fetch f s) b" using w(4) False by blast
    then show ?thesis by (rule agent_ok_kept) (simp add: agent_kept_def t_def)
  next
    case True
    from ok [of b] True assms(3) have u: "under_way s b cu" by (simp add: agent_ok_def)
    have run: "cu_status cu = CatchUpRunning" using fetch_owned(1) [OF assms(1-4)] .
    have "under_way t b cu" using u run assms(4-6) True by (auto simp: under_way_def t_def)
    with ok [of b] True assms(3) show ?thesis by (simp add: agent_ok_def t_def)
  qed
  then have "catch_ups_ok t" using base unfolding catch_ups_ok_def by blast
  moreover have "kept s t" by (simp add: kept_def begun_def t_def)
  ultimately show ?thesis by (simp add: goes_def)
qed


section \<open>What a page does\<close>

text \<open>The end of a catch-up: it is complete, and then starts again with what it owes or is ready.\<close>

lemma complete_facts:
  assumes "catch_ups_ok s" "f \<in> set (vs_fetches s)"
    and "vs_catchUps s (pf_agent f) = Some cu" "cu_generation cu = pf_generation f"
  defines "t \<equiv> complete_catch_up (pf_agent f) (pf_generation f) (without_fetch f s)"
  shows "base_ok t" "own_timer t (pf_agent f)" "b \<noteq> pf_agent f \<Longrightarrow> agent_ok t b" "kept s t"
proof -
  note w = without_fetch [OF assms(1,2)]
  have "fetch_ok (vs_generations t) (vs_catchUps t) h"
    if "h \<in> set (vs_fetches t)" "fetch_ok (vs_generations s) (vs_catchUps s) h" for h
    using that w(5) [of h] by (auto simp: fetch_ok_def t_def complete_catch_up_def)
  with w(1) show "base_ok t"
    by (simp add: base_ok_def t_def complete_catch_up_def)
  show "own_timer t (pf_agent f)" by (simp add: own_timer_def t_def complete_catch_up_def)
  show "agent_ok t b" if "b \<noteq> pf_agent f"
    by (rule agent_ok_kept [OF w(4) [OF that]])
      (use that in \<open>simp add: agent_kept_def t_def complete_catch_up_def\<close>)
  show "kept s t" by (simp add: kept_def begun_def t_def complete_catch_up_def)
qed

lemma ready_goes:
  assumes "catch_ups_ok s" "f \<in> set (vs_fetches s)"
    and "vs_catchUps s (pf_agent f) = Some cu" "cu_generation cu = pf_generation f"
    and "vs_pending s (pf_agent f) = None"
  shows "goes s (latest_tail_arrived f (without_fetch f s))"
proof -
  let ?a = "pf_agent f"
  let ?t = "complete_catch_up ?a (pf_generation f) (without_fetch f s)"
  let ?u = "setVisibilityCatchUpReady ?a ?t"
  note c = complete_facts [OF assms(1-4)]
  note same = same_core_ready [of ?t ?a]
  have "?a \<notin> vs_unready ?u"
    by (simp add: setVisibilityCatchUpReady_def notify_if_def)
  moreover have "vs_catchUps ?u ?a = Some \<lparr>cu_generation = pf_generation f, cu_status = CatchUpComplete,
      cu_request = None, cu_retry = None, cu_delay = None\<rparr>" "vs_pending ?u ?a = None"
    "vs_connected ?u = vs_connected s" "vs_desired ?u = vs_desired s"
    "vs_acknowledged ?u = vs_acknowledged s" "vs_loaded ?u = vs_loaded s"
    using same assms(5) by (simp_all add: same_core_def complete_catch_up_def)
  ultimately have "agent_ok ?u ?a"
    using followed [OF assms(1), of ?a] assms(3) by (simp add: agent_ok_def under_way_def)
  moreover have "agent_ok ?u b" if "b \<noteq> ?a" for b
    using agent_ok_same_core [OF same c(3) [OF that]] .
  ultimately have "\<forall>b. agent_ok ?u b" by metis
  with base_ok_same_core [OF same c(1)] have "catch_ups_ok ?u" by (simp only: catch_ups_ok_def simp_thms)
  with kept_trans [OF c(4) kept_same_core [OF same]] show ?thesis
    by (simp add: goes_def latest_tail_arrived_def)
qed

lemma timers_ok_add:
  assumes "timers_ok timers n member"
  shows "timers_ok (timers(n \<mapsto> (RetryAgent a g, d))) (n + 1) member" "timers n = None"
proof -
  have below: "i < n" if "timers i = Some t" for i t using assms that by (simp add: timers_ok_def)
  show free: "timers n = None"
  proof (cases "timers n")
    case (Some t)
    with below [of n] show ?thesis by simp
  qed
  have "\<exists>g w d. timers i = Some (RetryMembership g w, d)" if "member = Some i" for i
    using assms that by (simp add: timers_ok_def)
  moreover have "member = Some i" if "timers i = Some (RetryMembership g w, d)" for i g w d
    using assms that unfolding timers_ok_def by blast
  moreover have "i < n + 1" if "timers i = Some t" for i t using below [OF that] by simp
  ultimately show "timers_ok (timers(n \<mapsto> (RetryAgent a g, d))) (n + 1) member"
    using free unfolding timers_ok_def by (smt (verit) fun_upd_apply less_add_one option.inject
        option.distinct(1) prod.inject retry_timer.distinct(1))
qed

lemma failed_goes:
  assumes "catch_ups_ok s" "f \<in> set (vs_fetches s)"
  shows "goes s (fetch_failed f e (without_fetch f s))"
proof (cases "\<exists>cu. vs_catchUps s (pf_agent f) = Some cu \<and> cu_generation cu = pf_generation f")
  case False
  then have "fetch_failed f e (without_fetch f s) = without_fetch f s"
    by (auto simp: fetch_failed_def split: option.split)
  with False fetch_unowned [OF assms] without_fetch(3) [OF assms] show ?thesis by (auto simp: goes_def)
next
  case True
  then obtain cu where cu: "vs_catchUps s (pf_agent f) = Some cu" "cu_generation cu = pf_generation f"
    by blast
  let ?a = "pf_agent f" and ?g = "pf_generation f" and ?i = "vs_nextTimer s"
    and ?d = "getNextRetryDelayMs (cu_delay cu)"
  let ?t = "(without_fetch f s)\<lparr>vs_timers := (vs_timers s)(?i \<mapsto> (RetryAgent ?a ?g, ?d)),
     vs_nextTimer := ?i + 1, vs_catchUps := (vs_catchUps s)(?a \<mapsto> \<lparr>cu_generation = ?g,
       cu_status = CatchUpFailed, cu_request = Some (pf_request f), cu_retry = Some ?i,
       cu_delay = Some ?d\<rparr>)\<rparr>"
  note w = without_fetch [OF assms]
  have timers: "timers_ok (vs_timers s) ?i (vs_memberTimer s)"
    using assms(1) by (simp add: catch_ups_ok_def base_ok_def)
  then have free: "vs_timers s ?i = None" by (rule timers_ok_add)
  have "timers_ok (vs_timers ?t) (?i + 1) (vs_memberTimer s)"
    using timers_ok_add [OF timers] by simp
  moreover have "fetch_ok (vs_generations s) (vs_catchUps ?t) h"
    if "h \<in> set (remove1 f (vs_fetches s))" "fetch_ok (vs_generations s) (vs_catchUps s) h" for h
    using that w(5) [of h] by (auto simp: fetch_ok_def)
  ultimately have base: "base_ok ?t" using w(1) by (simp add: base_ok_def)
  have "agent_ok ?t b" for b
  proof (cases "b = ?a")
    case True
    then show ?thesis using followed [OF assms(1), of ?a] cu(1) by (simp add: agent_ok_def under_way_def)
  next
    case False
    show ?thesis by (rule agent_ok_kept [OF w(4) [OF False]])
      (use False free in \<open>auto simp: agent_kept_def\<close>)
  qed
  with base have ok: "catch_ups_ok ?t" unfolding catch_ups_ok_def by blast
  have "kept s ?t" using free by (auto simp: kept_def begun_def)
  with ok have "goes s ?t" by (simp add: goes_def)
  moreover have "fetch_failed f e (without_fetch f s) = logged (ReportError e) (setVisibilityCatchUpError [?a] e ?t)"
    using cu by (simp add: fetch_failed_def Let_def)
  moreover note goes_same_core [OF same_core_trans [OF same_core_error same_core_logged]]
  ultimately show ?thesis using goes_trans by presburger
qed


lemma start_complete_goes:
  assumes "catch_ups_ok s" "f \<in> set (vs_fetches s)"
    and "vs_catchUps s (pf_agent f) = Some cu" "cu_generation cu = pf_generation f"
  defines "t \<equiv> complete_catch_up (pf_agent f) (pf_generation f) (without_fetch f s)"
  shows "goes s (startCatchUp rc (pf_agent f) (Some q) True t)"
proof -
  let ?a = "pf_agent f"
  note c = complete_facts [OF assms(1-4), folded t_def]
  have at: "vs_connected t" "?a \<in> set (vs_desired t)" "?a \<in> set (vs_acknowledged t)" "?a \<in> vs_loaded t"
    using followed [OF assms(1), of ?a] assms(3) by (simp_all add: t_def complete_catch_up_def)
  have others: "\<forall>b. b \<noteq> ?a \<longrightarrow> agent_ok t b" using c(3) by blast
  have "decideCatchUp (vs_catchUps t ?a) q True = ReplaceCatchUp"
    by (simp add: t_def complete_catch_up_def decideCatchUp_def)
  then have "startCatchUp rc ?a (Some q) True t = replace_catch_up ?a q True False t"
    using at by (simp add: startCatchUp_def Let_def)
  moreover have "catch_ups_ok (replace_catch_up ?a q True False t)" "kept t (replace_catch_up ?a q True False t)"
    by (rule replace_goes [OF c(1,2) others at]; simp)+
  ultimately show ?thesis using kept_trans [OF c(4)] by (simp add: goes_def)
qed

lemma page_goes:
  assumes "catch_ups_ok s" "f \<in> set (vs_fetches s)"
  shows "goes s (page_arrived rc f page (without_fetch f s))"
proof (cases "ownsCatchUp (without_fetch f s) (pf_agent f) (pf_generation f)")
  case False
  then have "\<forall>cu. vs_catchUps s (pf_agent f) = Some cu \<longrightarrow> cu_generation cu \<noteq> pf_generation f"
    using fetch_owned(5) [OF assms] by (auto simp: ownsCatchUp_def)
  from fetch_unowned [OF assms this] without_fetch(3) [OF assms] False show ?thesis
    by (simp add: goes_def page_arrived_def Let_def)
next
  case True
  then obtain cu where cu: "vs_catchUps s (pf_agent f) = Some cu" "cu_generation cu = pf_generation f"
    by (auto simp: ownsCatchUp_def split: option.splits)
  obtain newer endc where page: "page = (newer, endc)" by (cases page)
  show ?thesis
  proof (cases newer)
    case False
    let ?t = "complete_catch_up (pf_agent f) (pf_generation f) (without_fetch f s)"
    have pending: "vs_pending ?t (pf_agent f) = vs_pending s (pf_agent f)" by (simp add: complete_catch_up_def)
    show ?thesis
    proof (cases "vs_pending s (pf_agent f)")
      case None
      with True page \<open>\<not> newer\<close> pending have "page_arrived rc f page (without_fetch f s)
          = latest_tail_arrived f (without_fetch f s)"
        by (simp add: page_arrived_def latest_tail_arrived_def Let_def)
      with ready_goes [OF assms cu None] show ?thesis by simp
    next
      case (Some q)
      with True page \<open>\<not> newer\<close> pending have "page_arrived rc f page (without_fetch f s)
          = startCatchUp rc (pf_agent f) (Some q) True ?t"
        by (simp add: page_arrived_def Let_def)
      with start_complete_goes [OF assms cu] show ?thesis by simp
    qed
  next
    case newer: True
    show ?thesis
    proof (cases endc)
      case None
      with True page newer failed_goes [OF assms] show ?thesis by (simp add: page_arrived_def Let_def)
    next
      case (Some c)
      obtain epoch seq where c: "c = (epoch, seq)" by (cases c)
      show ?thesis
      proof (cases "pf_overflow f")
        case True
        have "goes s (s\<lparr>vs_fetches := remove1 f (vs_fetches s) @ [f\<lparr>pf_latestTail := True\<rparr>]\<rparr>)"
          by (rule next_fetch_goes [OF assms cu]) (simp_all add: True)
        with True \<open>ownsCatchUp _ _ _\<close> page newer Some c show ?thesis by (simp add: page_arrived_def Let_def)
      next
        case False
        let ?h = "\<lparr>pf_agent = pf_agent f, pf_generation = pf_generation f,
          pf_request = planTimelineCatchUpAfter epoch seq, pf_overflow = False, pf_latestTail = False\<rparr>"
        have "goes s (s\<lparr>vs_fetches := remove1 f (vs_fetches s) @ [?h]\<rparr>)"
          by (rule next_fetch_goes [OF assms cu]) simp_all
        with False True page newer Some c show ?thesis
          by (simp add: page_arrived_def Let_def fetchUntilCurrent_def)
      qed
    qed
  qed
qed

lemma latest_tail_goes:
  assumes "catch_ups_ok s" "f \<in> set (vs_fetches s)" "pf_latestTail f"
    and "ownsCatchUp s (pf_agent f) (pf_generation f)"
  shows "goes s (latest_tail_arrived f (without_fetch f s))"
proof -
  obtain cu where cu: "vs_catchUps s (pf_agent f) = Some cu" "cu_generation cu = pf_generation f"
    using assms(4) by (auto simp: ownsCatchUp_def split: option.splits)
  from fetch_owned(3,4) [OF assms(1,2) cu] assms(3) have "vs_pending s (pf_agent f) = None" by blast
  then show ?thesis by (rule ready_goes [OF assms(1,2) cu])
qed


section \<open>The cache and the timer of a catch-up\<close>

lemma loaded_once: "A \<subseteq> set xs \<Longrightarrow> A - {a} \<subseteq> set (remove1 a xs)"
proof
  fix x
  assume "A \<subseteq> set xs" "x \<in> A - {a}"
  then have "x \<in> set xs" "x \<noteq> a" by auto
  then show "x \<in> set (remove1 a xs)" by (simp add: in_set_remove1)
qed

lemma cache_goes:
  assumes "catch_ups_ok s"
  shows "goes s (cache_loaded rc a failure (s\<lparr>vs_loads := remove1 a (vs_loads s)\<rparr>))"
proof -
  let ?s1 = "case failure of None \<Rightarrow> s | Some e \<Rightarrow> logged (ReportError e) s"
  let ?s2 = "?s1\<lparr>vs_loads := remove1 a (vs_loads s), vs_loading := vs_loading s - {a},
    vs_loaded := insert a (vs_loaded s)\<rparr>"
  have same: "same_core s ?s1" by (simp split: option.split)
  have ok1: "catch_ups_ok ?s1" by (rule catch_ups_ok_same_core [OF same assms])
  have f1: "vs_loads ?s1 = vs_loads s" "vs_loading ?s1 = vs_loading s" "vs_loaded ?s1 = vs_loaded s"
    "vs_connected ?s1 = vs_connected s" "vs_desired ?s1 = vs_desired s" "vs_acknowledged ?s1 = vs_acknowledged s"
    using same unfolding same_core_def by blast+
  have "base_ok ?s1" using ok1 unfolding catch_ups_ok_def by blast
  then have "vs_loading s \<subseteq> set (vs_loads s)" by (simp add: base_ok_def f1)
  then have "vs_loading s - {a} \<subseteq> set (remove1 a (vs_loads s))"
    by (rule loaded_once)
  with \<open>base_ok ?s1\<close> have base: "base_ok ?s2" by (simp add: base_ok_def f1)
  have "agent_ok ?s2 b" for b
  proof -
    have "agent_ok ?s1 b" using ok1 unfolding catch_ups_ok_def by blast
    then show ?thesis by (rule agent_ok_kept) (simp add: agent_kept_def f1)
  qed
  then have ok: "catch_ups_ok ?s2" using base unfolding catch_ups_ok_def by blast
  have g: "goes ?s2 (start_owed rc a ?s2)" using ok by (rule start_owed_goes)
  have eq: "cache_loaded rc a failure (s\<lparr>vs_loads := remove1 a (vs_loads s)\<rparr>) = start_owed rc a ?s2"
    by (cases failure) (simp_all add: cache_loaded_def logged_def, rule arg_cong [of _ _ "start_owed rc a"], simp)
  have begun: "begun (start_owed rc a ?s2) b"
    if "vs_connected s" "b \<in> set (vs_desired s)" "b \<in> set (vs_acknowledged s)" "begun s b" for b
  proof (cases "b = a")
    case True
    with that show ?thesis
      unfolding start_owed_def True by (intro start_begun [OF ok]) (simp_all add: f1)
  next
    case False
    have "begun ?s1 b" using begun_same_core [OF same] that(4) by simp
    then have "begun ?s2 b" using False f1(2) by (cases "b \<in> vs_loaded s") (simp_all add: begun_def f1(3))
    with goes_fields(4) [OF g] that show ?thesis by (simp add: f1)
  qed
  have "kept s (start_owed rc a ?s2)"
    using goes_fields [OF g] kept_same_core [OF same] g begun
    unfolding kept_def goes_def by simp
  with goes_ok [OF g ok] eq show ?thesis by (simp add: goes_def)
qed

lemma timers_ok_drop:
  assumes "timers_ok timers n member" "timers i = Some (RetryAgent a g, d)"
  shows "timers_ok (timers(i := None)) n member"
proof -
  have "i \<noteq> j" if "member = Some j" for j
    using assms that by (auto simp: timers_ok_def)
  moreover have "\<exists>g w d. timers j = Some (RetryMembership g w, d)" if "member = Some j" for j
    using assms(1) that by (simp add: timers_ok_def)
  moreover have "member = Some j" if "timers j = Some (RetryMembership g w, d)" for j g w d
    using assms(1) that unfolding timers_ok_def by blast
  moreover have "j < n" if "timers j = Some t" for j t using assms(1) that by (simp add: timers_ok_def)
  ultimately show ?thesis unfolding timers_ok_def
    by (smt (verit) fun_upd_apply option.distinct(1))
qed

lemma agent_timer_goes:
  assumes "catch_ups_ok s" "vs_timers s i = Some (RetryAgent a g, d)"
  shows "goes s (timer_fired rc (RetryAgent a g) (s\<lparr>vs_timers := (vs_timers s)(i := None)\<rparr>))"
proof -
  let ?t = "s\<lparr>vs_timers := (vs_timers s)(i := None)\<rparr>"
  have base: "base_ok s" and ok: "agent_ok s b" for b
    using assms(1) unfolding catch_ups_ok_def by blast+
  have "timers_ok (vs_timers s) (vs_nextTimer s) (vs_memberTimer s)" using base by (simp add: base_ok_def)
  then have "timers_ok (vs_timers ?t) (vs_nextTimer s) (vs_memberTimer s)"
    using timers_ok_drop [of "vs_timers s" _ _ i a g d] assms(2) by simp
  then have base': "base_ok ?t" using base by (simp add: base_ok_def)
  have others: "agent_ok ?t b" if "b \<noteq> a" for b
    by (rule agent_ok_kept [OF ok]) (use that assms(2) in \<open>auto simp: agent_kept_def\<close>)
  have kept: "kept s ?t" using assms(2) by (auto simp: kept_def begun_def)
  have own: "own_timer ?t a" using agent_ok_own_timer [OF ok [of a]] by (simp add: own_timer_def) blast
  show ?thesis
  proof (cases "\<exists>cu. vs_catchUps s a = Some cu \<and> cu_generation cu = g \<and> cu_status cu = CatchUpFailed")
    case False
    then have idle: "timer_fired rc (RetryAgent a g) ?t = ?t"
      by (auto simp: timer_fired_def split: option.split)
    have "agent_ok ?t a"
    proof (cases "vs_catchUps s a")
      case None
      then show ?thesis by (simp add: agent_ok_def)
    next
      case (Some cu)
      with ok [of a] have u: "under_way s a cu" by (simp add: agent_ok_def)
      have "under_way ?t a cu"
      proof (cases "cu_status cu")
        case CatchUpFailed
        with False Some have "cu_generation cu \<noteq> g" by blast
        moreover from u CatchUpFailed obtain j e where "cu_retry cu = Some j"
          "vs_timers s j = Some (RetryAgent a (cu_generation cu), e)" by (auto simp: under_way_def)
        moreover from calculation assms(2) have "j \<noteq> i" by auto
        ultimately show ?thesis using CatchUpFailed by (simp add: under_way_def)
      qed (use u in \<open>simp_all add: under_way_def\<close>)
      with ok [of a] Some show ?thesis by (simp add: agent_ok_def)
    qed
    with others have "\<forall>b. agent_ok ?t b" by metis
    with base' kept idle show ?thesis by (simp add: goes_def catch_ups_ok_def)
  next
    case True
    then obtain cu where cu: "vs_catchUps s a = Some cu" "cu_generation cu = g"
      "cu_status cu = CatchUpFailed" by blast
    let ?q = "planTimelineResumeFetch (rc a)"
    let ?u = "replace_catch_up a ?q False (fq_direction ?q = Some After) ?t"
    have f: "vs_connected ?t" "a \<in> set (vs_desired ?t)" "a \<in> set (vs_acknowledged ?t)" "a \<in> vs_loaded ?t"
      using followed [OF assms(1), of a] cu(1) by simp_all
    have "timer_fired rc (RetryAgent a g) ?t = ?u"
      using f cu by (simp add: timer_fired_def startCatchUp_def decideCatchUp_def Let_def)
    moreover have "\<forall>b. b \<noteq> a \<longrightarrow> agent_ok ?t b" using others by blast
    then have "catch_ups_ok ?u" "kept ?t ?u"
      by (rule replace_goes [OF base' own _ f]; simp)+
    ultimately show ?thesis using kept_trans [OF kept] by (simp add: goes_def)
  qed
qed

lemma recover_goes: "catch_ups_ok s \<Longrightarrow> goes s (recoverGap rc a epoch seq s)"
  by (simp add: recoverGap_def start_goes)

end
