(* ===== verification/Sync_Members.thy ===== *)
theory Sync_Members
  imports Sync_Answers
begin

text \<open>The change of members and the subscription that follows it.\<close>

section \<open>Agents that come and go\<close>

definition timers_owned :: "view_sync \<Rightarrow> bool" where
  "timers_owned s \<longleftrightarrow> base_ok s \<and> (\<forall>a. own_timer s a)"

lemma timers_owned: "catch_ups_ok s \<Longrightarrow> timers_owned s"
  using agent_ok_own_timer unfolding timers_owned_def catch_ups_ok_def by blast

text \<open>\<open>drops A s t\<close>: the step from \<open>s\<close> to \<open>t\<close> ends the catch-ups of the agents of \<open>A\<close> only.\<close>

definition drops :: "string set \<Rightarrow> view_sync \<Rightarrow> view_sync \<Rightarrow> bool" where
  "drops A s t \<longleftrightarrow> (timers_owned s \<longrightarrow> timers_owned t) \<and>
     vs_catchUps t = (\<lambda>b. if b \<in> A then None else vs_catchUps s b) \<and>
     vs_connected t = vs_connected s \<and> vs_mode t = vs_mode s \<and> vs_desired t = vs_desired s \<and>
     vs_acknowledged t = vs_acknowledged s \<and> vs_generation t = vs_generation s \<and>
     vs_reconcile t = vs_reconcile s \<and> vs_again t = vs_again s \<and> vs_needsRetry t = vs_needsRetry s \<and>
     vs_active t = vs_active s \<and> vs_sources t = vs_sources s \<and> vs_loaded t = vs_loaded s \<and>
     vs_loading s \<subseteq> vs_loading t \<and> (timers_owned s \<longrightarrow> (\<forall>b. agent_ok s b \<longrightarrow> agent_ok t b))"

lemma drops_refl: "drops {} s s"
  by (simp add: drops_def)

lemma drops_trans: "drops A s t \<Longrightarrow> drops B t u \<Longrightarrow> drops (A \<union> B) s u"
  unfolding drops_def by (intro conjI) (simp_all add: fun_eq_iff subset_trans [of "vs_loading s" "vs_loading t"])

lemma drops_fields:
  assumes "drops A s t"
  shows "vs_connected t = vs_connected s" "vs_mode t = vs_mode s" "vs_desired t = vs_desired s"
    "vs_acknowledged t = vs_acknowledged s" "vs_generation t = vs_generation s"
    "vs_reconcile t = vs_reconcile s" "vs_again t = vs_again s" "vs_needsRetry t = vs_needsRetry s"
    "vs_active t = vs_active s" "vs_sources t = vs_sources s" "vs_loaded t = vs_loaded s"
    "vs_loading s \<subseteq> vs_loading t"
    "vs_catchUps t b = (if b \<in> A then None else vs_catchUps s b)" "timers_owned s \<Longrightarrow> timers_owned t"
    "timers_owned s \<Longrightarrow> agent_ok s b \<Longrightarrow> agent_ok t b"
  using assms unfolding drops_def by simp_all

lemma own_timer_fields:
  "vs_catchUps t = vs_catchUps s \<Longrightarrow> vs_timers t = vs_timers s \<Longrightarrow> own_timer t a = own_timer s a"
  by (simp add: own_timer_def)

lemma cancelCatchUp_drops: "drops {a} s (cancelCatchUp a s)"
proof -
  let ?s1 = "cancel_timer (Option.bind (vs_catchUps s a) cu_retry) s"
  let ?t = "cancelCatchUp a s"
  have t: "?t = ?s1\<lparr>vs_generations := (vs_generations s)(a \<mapsto> default 0 (vs_generations s a) + 1),
      vs_catchUps := (vs_catchUps s)(a := None), vs_pending := (vs_pending s)(a := None)\<rparr>"
    by (simp add: cancelCatchUp_def Let_def)
  have fields: "vs_active ?s1 = vs_active s" "vs_sources ?s1 = vs_sources s"
    by (simp_all add: cancel_timer_def split: option.split)
  have kept: "timers_owned ?t \<and> (\<forall>b. agent_ok s b \<longrightarrow> agent_ok ?t b)" if "timers_owned s"
  proof -
    have base: "base_ok s" and own: "own_timer s b" for b using that unfolding timers_owned_def by blast+
    note c = cancel_own [OF base own [of a]]
    have "fetch_ok (vs_generations ?t) (vs_catchUps ?t) f"
      if "fetch_ok (vs_generations s) (vs_catchUps s) f" for f
      using that by (auto simp: fetch_ok_def t)
    then have "base_ok ?t" using c(1) by (simp add: base_ok_def t)
    moreover have "own_timer ?t b" for b
    proof (cases "b = a")
      case True
      then show ?thesis by (simp add: own_timer_def t)
    next
      case False
      with own [of b] own_timer_cancelled(1) [OF own [of a]] show ?thesis
        unfolding own_timer_def t by simp blast
    qed
    moreover have "agent_ok ?t b" if "agent_ok s b" for b
    proof (cases "b = a")
      case True
      then show ?thesis by (simp add: agent_ok_def t)
    next
      case False
      show ?thesis by (rule agent_ok_kept [OF c(3) [OF False that]]) (use False in \<open>simp add: agent_kept_def t\<close>)
    qed
    ultimately show ?thesis unfolding timers_owned_def by blast
  qed
  then show ?thesis unfolding drops_def by (intro conjI) (auto simp: t fields fun_eq_iff)
qed

lemma fold_drops:
  assumes "\<And>a s. drops {a} s (f a s)"
  shows "drops (set ids) s (fold f ids s)"
proof (induction ids arbitrary: s)
  case Nil
  then show ?case by (simp add: drops_refl)
next
  case (Cons a ids)
  from drops_trans [OF assms Cons] show ?case by (simp add: comp_def)
qed

text \<open>A step that leaves the catch-ups and what they rest on alone.\<close>

lemma drops_none:
  assumes "vs_catchUps t = vs_catchUps s" "vs_timers t = vs_timers s" "vs_fetches t = vs_fetches s"
    "vs_generations t = vs_generations s" "vs_pending t = vs_pending s" "vs_disposed t = vs_disposed s"
    "vs_nextTimer t = vs_nextTimer s" "vs_memberTimer t = vs_memberTimer s"
    "vs_connected t = vs_connected s" "vs_mode t = vs_mode s" "vs_desired t = vs_desired s"
    "vs_acknowledged t = vs_acknowledged s" "vs_generation t = vs_generation s"
    "vs_reconcile t = vs_reconcile s" "vs_again t = vs_again s" "vs_needsRetry t = vs_needsRetry s"
    "vs_active t = vs_active s" "vs_sources t = vs_sources s" "vs_loaded t = vs_loaded s"
    "vs_loading s \<subseteq> vs_loading t" "vs_loading s \<subseteq> set (vs_loads s) \<longrightarrow> vs_loading t \<subseteq> set (vs_loads t)"
    "\<forall>b. b \<in> vs_unready t \<and> vs_catchUps s b \<noteq> None \<longrightarrow> b \<in> vs_unready s"
  shows "drops {} s t"
proof -
  have "agent_ok t b" if "agent_ok s b" for b
  proof (cases "vs_catchUps s b")
    case None
    then show ?thesis by (simp add: agent_ok_def assms(1))
  next
    case (Some cu)
    show ?thesis by (rule agent_ok_kept [OF that]) (use assms Some in \<open>simp add: agent_kept_def\<close>)
  qed
  moreover have "timers_owned t" if "timers_owned s"
    using that assms(1-8,21) own_timer_fields [OF assms(1,2)] by (simp add: timers_owned_def base_ok_def)
  ultimately show ?thesis using assms unfolding drops_def by simp
qed

lemma forget_drops: "drops {a} s (forget_agent a s)"
proof -
  let ?t = "cancelCatchUp a s"
  have "drops {} ?t (forget_agent a s)"
    by (rule drops_none) (auto simp: forget_agent_def Let_def)
  from drops_trans [OF cancelCatchUp_drops this] show ?thesis by simp
qed

lemma follow_drops: "vs_catchUps s a = None \<Longrightarrow> drops {} s (follow_agent a s)"
  by (rule drops_none) (auto simp: follow_agent_def ensureCacheLoaded_def)

lemma follow_begun: "begun s b \<Longrightarrow> begun (follow_agent a s) b"
  by (cases "b \<in> vs_loaded s") (simp_all add: begun_def follow_agent_def ensureCacheLoaded_def)

lemma fold_follow:
  assumes "\<forall>a\<in>set ids. vs_catchUps s a = None"
  shows "drops {} s (fold follow_agent ids s)"
  using assms
proof (induction ids arbitrary: s)
  case Nil
  then show ?case by (simp add: drops_refl)
next
  case (Cons a ids)
  have d: "drops {} s (follow_agent a s)" using Cons.prems by (intro follow_drops) simp
  have "drops {} (follow_agent a s) (fold follow_agent ids (follow_agent a s))"
    using Cons.prems drops_fields(13) [OF d] by (intro Cons.IH) simp
  from drops_trans [OF d this] show ?case by (simp add: comp_def)
qed

lemma member_timer_drops: "drops {} s (cancel_member_timer s)"
proof -
  let ?t = "cancel_member_timer s"
  have fields: "vs_catchUps ?t = vs_catchUps s" "vs_fetches ?t = vs_fetches s"
    "vs_generations ?t = vs_generations s" "vs_pending ?t = vs_pending s" "vs_disposed ?t = vs_disposed s"
    "vs_nextTimer ?t = vs_nextTimer s" "vs_memberTimer ?t = None" "vs_unready ?t = vs_unready s"
    "vs_connected ?t = vs_connected s" "vs_mode ?t = vs_mode s" "vs_desired ?t = vs_desired s"
    "vs_acknowledged ?t = vs_acknowledged s" "vs_generation ?t = vs_generation s"
    "vs_reconcile ?t = vs_reconcile s" "vs_again ?t = vs_again s" "vs_needsRetry ?t = vs_needsRetry s"
    "vs_active ?t = vs_active s" "vs_sources ?t = vs_sources s" "vs_loaded ?t = vs_loaded s"
    "vs_loading ?t = vs_loading s" "vs_loads ?t = vs_loads s"
    "vs_timers ?t = (case vs_memberTimer s of None \<Rightarrow> vs_timers s | Some i \<Rightarrow> (vs_timers s)(i := None))"
    by (simp_all add: cancel_member_timer_def cancel_timer_def split: option.split)
  have kept: "timers_owned ?t \<and> (\<forall>b. agent_ok s b \<longrightarrow> agent_ok ?t b)" if "timers_owned s"
  proof -
    have base: "base_ok s" and own: "own_timer s b" for b using that unfolding timers_owned_def by blast+
    then have ok: "timers_ok (vs_timers s) (vs_nextTimer s) (vs_memberTimer s)" by (simp add: base_ok_def)
    have sub: "vs_timers ?t i = Some x \<Longrightarrow> vs_timers s i = Some x" for i x
      by (simp add: fields(22) split: option.splits if_splits)
    have agents: "vs_timers ?t i = Some (RetryAgent a g, d)" if "vs_timers s i = Some (RetryAgent a g, d)" for i a g d
    proof (cases "vs_memberTimer s")
      case (Some j)
      with ok have "\<exists>g w d. vs_timers s j = Some (RetryMembership g w, d)" by (simp add: timers_ok_def)
      with that Some show ?thesis by (auto simp: fields(22))
    qed (simp add: that fields(22))
    have members: "vs_timers ?t i \<noteq> Some (RetryMembership g w, d)" for i g w d
    proof
      assume a: "vs_timers ?t i = Some (RetryMembership g w, d)"
      from sub [OF a] ok have "vs_memberTimer s = Some i" unfolding timers_ok_def by blast
      with a show False by (simp add: fields(22))
    qed
    have "timers_ok (vs_timers ?t) (vs_nextTimer s) None"
      using ok sub members unfolding timers_ok_def by (meson option.distinct(1))
    then have "base_ok ?t" using base by (simp add: base_ok_def fields)
    moreover have "own_timer ?t b" for b
      using own [of b] sub unfolding own_timer_def fields(1) by blast
    moreover have "agent_ok ?t b" if "agent_ok s b" for b
      by (rule agent_ok_kept [OF that]) (use agents in \<open>simp add: agent_kept_def fields\<close>)
    ultimately show ?thesis unfolding timers_owned_def by blast
  qed
  then show ?thesis unfolding drops_def by (intro conjI) (simp_all add: fields)
qed


section \<open>The new membership\<close>

definition catch_ups_desired :: "view_sync \<Rightarrow> bool" where
  "catch_ups_desired s \<longleftrightarrow> (\<forall>a. vs_catchUps s a \<noteq> None \<longrightarrow> a \<in> set (vs_desired s))"

lemma catch_ups_desired: "catch_ups_ok s \<Longrightarrow> catch_ups_desired s"
  using followed(2) unfolding catch_ups_desired_def by blast

text \<open>The records that differ in the membership only have the same timers and requests.\<close>

lemma timers_owned_fields:
  assumes "vs_catchUps t = vs_catchUps s" "vs_timers t = vs_timers s" "vs_fetches t = vs_fetches s"
    "vs_generations t = vs_generations s" "vs_disposed t = vs_disposed s" "vs_nextTimer t = vs_nextTimer s"
    "vs_memberTimer t = vs_memberTimer s" "vs_loading t = vs_loading s" "vs_loads t = vs_loads s"
  shows "timers_owned t = timers_owned s"
  using assms own_timer_fields [OF assms(1,2)] by (simp add: timers_owned_def base_ok_def)

lemma agent_ok_fields:
  assumes "vs_catchUps t = vs_catchUps s" "vs_timers t = vs_timers s" "vs_fetches t = vs_fetches s"
    "vs_pending t = vs_pending s" "vs_unready t = vs_unready s" "vs_loaded t = vs_loaded s"
    "vs_connected t = vs_connected s"
    and "vs_catchUps s b \<noteq> None \<Longrightarrow> b \<in> set (vs_desired t) \<and> b \<in> set (vs_acknowledged t)"
    and "agent_ok s b"
  shows "agent_ok t b"
proof (cases "vs_catchUps s b")
  case None
  then show ?thesis by (simp add: agent_ok_def assms(1))
next
  case (Some cu)
  show ?thesis by (rule agent_ok_kept [OF assms(9)]) (use assms(1-7) assms(8) Some in \<open>simp add: agent_kept_def\<close>)
qed

lemma change_members:
  fixes wanted :: "string list"
  assumes "timers_owned s" "catch_ups_desired s"
  defines "t \<equiv> change_members wanted s"
  shows "timers_owned t" "vs_desired t = wanted" "vs_generation t = vs_generation s + 1"
    "vs_catchUps t b = (if b \<in> set wanted then vs_catchUps s b else None)"
    "vs_connected t = vs_connected s" "vs_mode t = vs_mode s" "vs_acknowledged t = vs_acknowledged s"
    "vs_reconcile t = vs_reconcile s" "vs_again t = vs_again s" "vs_needsRetry t = vs_needsRetry s"
    "agent_ok s b \<Longrightarrow> agent_ok t b" "catch_ups_desired t"
proof -
  let ?gone = "filter (\<lambda>a. a \<notin> set wanted) (vs_desired s)"
  let ?new = "filter (\<lambda>a. a \<notin> set (vs_desired s)) wanted"
  let ?s1 = "fold forget_agent ?gone s"
  let ?s2 = "fold follow_agent ?new ?s1"
  let ?s3 = "cancel_member_timer ?s2"
  have d1: "drops (set ?gone) s ?s1" by (rule fold_drops [OF forget_drops])
  have "\<forall>a\<in>set ?new. vs_catchUps ?s1 a = None"
    using assms(2) unfolding drops_fields(13) [OF d1] catch_ups_desired_def by auto
  then have d2: "drops {} ?s1 ?s2" by (rule fold_follow)
  from drops_trans [OF drops_trans [OF d1 d2] member_timer_drops]
  have d: "drops (set ?gone) s ?s3" by simp
  note f = drops_fields [OF d]
  have t: "t = logged NotifyListeners ((logged (Demand wanted) (?s3\<lparr>vs_desired := wanted\<rparr>))
      \<lparr>vs_generation := vs_generation ?s3 + 1\<rparr>)"
    by (simp add: t_def change_members_def Let_def)
  have cus: "vs_catchUps t b = (if b \<in> set wanted then vs_catchUps s b else None)" for b
    using assms(2) by (auto simp: t f(13) catch_ups_desired_def)
  then show "vs_catchUps t b = (if b \<in> set wanted then vs_catchUps s b else None)" .
  show "timers_owned t"
    using timers_owned_fields [of t ?s3] f(14) [OF assms(1)] by (simp add: t)
  show "vs_desired t = wanted" "vs_generation t = vs_generation s + 1" "vs_connected t = vs_connected s"
    "vs_mode t = vs_mode s" "vs_acknowledged t = vs_acknowledged s" "vs_reconcile t = vs_reconcile s"
    "vs_again t = vs_again s" "vs_needsRetry t = vs_needsRetry s"
    using f(1-8) by (simp_all add: t)
  show "catch_ups_desired t"
    using cus by (auto simp: catch_ups_desired_def t split: if_splits)
  assume ok: "agent_ok s b"
  show "agent_ok t b"
  proof (cases "vs_catchUps t b = None")
    case True
    then show ?thesis by (simp add: agent_ok_def)
  next
    case False
    then have b: "b \<in> set wanted" "vs_catchUps s b \<noteq> None" using cus [of b] by (auto split: if_splits)
    with ok have "b \<in> set (vs_acknowledged s)" by (auto simp: agent_ok_def)
    show ?thesis
      by (rule agent_ok_fields [OF _ _ _ _ _ _ _ _ f(15) [OF assms(1) ok]])
        (use b \<open>b \<in> set (vs_acknowledged s)\<close> f(4) in \<open>simp_all add: t\<close>)
  qed
qed

text \<open>What only concerns the subscription.\<close>

lemma catch_ups_ok_control:
  "catch_ups_ok (s\<lparr>vs_reconcile := p\<rparr>) = catch_ups_ok s"
  "catch_ups_ok (s\<lparr>vs_again := x\<rparr>) = catch_ups_ok s"
  "catch_ups_ok (s\<lparr>vs_needsRetry := x\<rparr>) = catch_ups_ok s"
  "catch_ups_ok (s\<lparr>vs_generation := g\<rparr>) = catch_ups_ok s"
  "catch_ups_ok (s\<lparr>vs_retryDelay := d\<rparr>) = catch_ups_ok s"
  "catch_ups_ok (s\<lparr>vs_recent := ids\<rparr>) = catch_ups_ok s"
  "catch_ups_ok (s\<lparr>vs_mode := m\<rparr>) = catch_ups_ok s"
  "catch_ups_ok (s\<lparr>vs_manual := A\<rparr>) = catch_ups_ok s"
  "catch_ups_ok (s\<lparr>vs_sources := sources\<rparr>) = catch_ups_ok s"
  "catch_ups_ok (s\<lparr>vs_active := x\<rparr>) = catch_ups_ok s"
  by (simp_all add: catch_ups_ok_def base_ok_def agent_ok_def under_way_def cong: catch_up_status.case_cong)

lemma latest_keeps: "catch_ups_ok (reconcileLatestMembership s) = catch_ups_ok s"
  by (simp add: reconcileLatestMembership_def catch_ups_ok_control)

lemma reconcile_keeps: "catch_ups_ok (reconcileMembership s) = catch_ups_ok s"
  by (simp add: reconcileMembership_def catch_ups_ok_control latest_keeps)

lemma begun_control [simp]:
  "begun (s\<lparr>vs_reconcile := p\<rparr>) a = begun s a" "begun (s\<lparr>vs_again := x\<rparr>) a = begun s a"
  "begun (s\<lparr>vs_needsRetry := x\<rparr>) a = begun s a" "begun (s\<lparr>vs_acknowledged := ids\<rparr>) a = begun s a"
  "begun (s\<lparr>vs_connected := x\<rparr>) a = begun s a" "begun (s\<lparr>vs_generation := g\<rparr>) a = begun s a"
  by (simp_all add: begun_def)

lemma latest_members:
  assumes "members_base s" "\<not> vs_disposed s"
    and "vs_connected s \<Longrightarrow> vs_mode s = SelectiveDelivery \<Longrightarrow> \<not> vs_needsRetry s \<Longrightarrow>
      vs_desired s = vs_acknowledged s \<Longrightarrow> \<forall>a\<in>set (vs_desired s). begun s a"
  shows "members_ok (reconcileLatestMembership s)"
proof -
  consider "\<not> vs_connected s" | "vs_connected s" "vs_mode s = LegacyDelivery"
    | "vs_connected s" "vs_mode s = SelectiveDelivery" "\<not> vs_needsRetry s" "vs_desired s = vs_acknowledged s"
    | "vs_connected s" "vs_mode s = SelectiveDelivery" "vs_needsRetry s \<or> vs_desired s \<noteq> vs_acknowledged s"
    by (metis delivery_mode.exhaust)
  then show ?thesis
  proof cases
    case 1
    then show ?thesis using assms(1)
      by (simp add: reconcileLatestMembership_def members_ok_def members_base_def members_asked_def)
  next
    case 2
    then have "\<forall>a\<in>set (vs_desired s). begun s a"
      using assms(1) by (simp add: members_base_def settled_members_def)
    with 2 show ?thesis using assms(1)
      by (simp add: reconcileLatestMembership_def members_ok_def members_base_def members_asked_def)
  next
    case 3
    then show ?thesis using assms
      by (simp add: reconcileLatestMembership_def members_ok_def members_base_def members_asked_def)
  next
    case 4
    then show ?thesis using assms(2)
      by (auto simp: reconcileLatestMembership_def members_ok_def members_base_def members_asked_def
          settled_members_def no_subscription_def)
  qed
qed

lemma reconcile_members:
  assumes "members_base s" "\<not> vs_disposed s"
  shows "members_ok (reconcileMembership s)"
proof (cases "vs_reconcile s = ReconcileIdle")
  case False
  have "members_base (s\<lparr>vs_again := True\<rparr>)"
    using assms(1) by (simp add: members_base_def settled_members_def no_subscription_def)
  moreover have "members_asked (s\<lparr>vs_again := True\<rparr>)"
    using False by (simp add: members_asked_def no_subscription_def)
  ultimately show ?thesis using False by (simp add: reconcileMembership_def members_ok_def)
next
  case True
  have "members_ok (reconcileLatestMembership s)"
    by (rule latest_members [OF assms])
      (use assms(1) True in \<open>simp add: members_base_def settled_members_def no_subscription_def\<close>)
  moreover have "members_ok s" if "\<not> vs_connected s"
    using assms(1) that by (simp add: members_ok_def members_asked_def)
  ultimately show ?thesis using assms(2) True by (simp add: reconcileMembership_def)
qed

end
