(* ===== verification/Sync_Commits.thy ===== *)
theory Sync_Commits
  imports Sync_Members
begin

text \<open>The operations of the interface that change the members keep the invariant of \<open>Sync_Safety\<close>.\<close>

section \<open>Membership and catch-ups together\<close>

definition subscription_behind :: "view_sync \<Rightarrow> bool" where
  "subscription_behind s \<longleftrightarrow> (\<forall>g w. vs_reconcile s = Subscribing g w \<longrightarrow> g \<le> vs_generation s \<and>
     \<not> vs_needsRetry s \<and> (g = vs_generation s \<longrightarrow> w = vs_desired s))"

lemma sync_ok_parts: "sync_ok s \<longleftrightarrow> catch_ups_ok s \<and> members_base s \<and> members_asked s"
  by (simp add: sync_ok_def catch_ups_ok_def members_ok_def)

lemma sync_okD:
  assumes "sync_ok s"
  shows "catch_ups_ok s" "members_base s" "members_asked s" "subscription_behind s" "\<not> vs_disposed s"
  using assms by (simp_all add: sync_ok_parts members_base_def subscription_behind_def catch_ups_ok_def base_ok_def)

lemma behind_next:
  assumes "subscription_behind s" "vs_reconcile t = vs_reconcile s" "vs_needsRetry t \<longrightarrow> vs_needsRetry s"
    "vs_generation s < vs_generation t"
  shows "subscription_behind t"
proof -
  have "g < vs_generation t \<and> \<not> vs_needsRetry t" if "vs_reconcile t = Subscribing g w" for g w
  proof -
    have "vs_reconcile s = Subscribing g w" using that assms(2) by simp
    with assms(1) have "g \<le> vs_generation s" "\<not> vs_needsRetry s" unfolding subscription_behind_def by blast+
    with assms(3,4) show ?thesis by simp
  qed
  then show ?thesis unfolding subscription_behind_def by (metis less_imp_le less_irrefl)
qed

lemma members_base_away:
  "\<not> vs_connected s \<Longrightarrow> members_base s \<longleftrightarrow> vs_acknowledged s = [] \<and> subscription_behind s"
  by (simp add: members_base_def subscription_behind_def)

lemma members_away: "\<not> vs_connected s \<Longrightarrow> members_asked s"
  by (simp add: members_asked_def)

lemma sync_ok_control:
  "sync_ok (s\<lparr>vs_recent := ids\<rparr>) = sync_ok s" "sync_ok (s\<lparr>vs_sources := sources\<rparr>) = sync_ok s"
  "sync_ok (s\<lparr>vs_active := x\<rparr>) = sync_ok s" "sync_ok (s\<lparr>vs_manual := A\<rparr>) = sync_ok s"
  by (simp_all add: sync_ok_parts catch_ups_ok_control members_base_def members_asked_def settled_members_def
      no_subscription_def retry_scheduled_def begun_def)

lemma sync_ok_logged: "sync_ok s \<Longrightarrow> sync_ok (logged c s)"
  by (rule sync_ok_goes [OF _ goes_same_core [OF same_core_logged]])

lemma nothing_followed:
  assumes "timers_owned s" "\<And>b. vs_catchUps s b = None"
  shows "catch_ups_ok s"
  using assms by (simp add: catch_ups_ok_def timers_owned_def agent_ok_def)

lemma start_all_ok:
  assumes "catch_ups_ok s" "vs_connected s" "vs_mode s = LegacyDelivery" "vs_acknowledged s = vs_desired s"
    and "subscription_behind s"
  shows "sync_ok (startAcknowledgedCatchUps rc s)"
proof -
  note g = start_all(1) [OF assms(1), of rc] and b = start_all(2) [OF assms(1,2), of _ rc]
  have "members_base (startAcknowledgedCatchUps rc s)"
    using assms(2-5) goes_fields(1-3,5-8) [OF g] b
    unfolding members_base_def subscription_behind_def by simp
  moreover have "members_asked (startAcknowledgedCatchUps rc s)"
    using assms(3) goes_fields(5) [OF g] by (simp add: members_asked_def)
  ultimately show ?thesis using goes_ok [OF g assms(1)] by (simp add: sync_ok_parts)
qed

lemma reconcile_ok:
  assumes "catch_ups_ok s" "members_base s"
  shows "sync_ok (reconcileMembership s)"
proof -
  have "\<not> vs_disposed s" using assms(1) by (simp add: catch_ups_ok_def base_ok_def)
  from reconcile_members [OF assms(2) this] reconcile_keeps [of s] assms(1) show ?thesis
    by (simp add: sync_ok_parts members_ok_def)
qed

section \<open>The commit\<close>

lemma change_members_ok: "catch_ups_ok s \<Longrightarrow> catch_ups_ok (change_members wanted s)"
proof -
  assume ok: "catch_ups_ok s"
  note c = change_members [where wanted = wanted, OF timers_owned [OF ok] catch_ups_desired [OF ok]]
  have "base_ok (change_members wanted s)" using c(1) unfolding timers_owned_def by blast
  moreover have "agent_ok s b" for b using ok unfolding catch_ups_ok_def by blast
  ultimately show ?thesis using c(11) by (simp add: catch_ups_ok_def)
qed

lemma commit_ok:
  assumes "sync_ok s"
    and "vs_connected s \<and> vs_mode s = SelectiveDelivery \<longrightarrow> vs_reconcile s \<noteq> Settling"
  shows "sync_ok (commitDesiredMembership rc wanted False s)"
proof (cases "wanted = vs_desired s")
  case True
  with assms(1) show ?thesis by (simp add: commitDesiredMembership_def notify_if_def)
next
  case changed: False
  let ?t = "change_members wanted s"
  note ok = sync_okD [OF assms(1)]
  note c = change_members [where wanted = wanted, OF timers_owned [OF ok(1)] catch_ups_desired [OF ok(1)]]
  have t: "catch_ups_ok ?t" by (rule change_members_ok [OF ok(1)])
  have behind: "subscription_behind ?t"
    by (rule behind_next [OF ok(4)]) (simp_all add: c)
  show ?thesis
  proof (cases "vs_mode s")
    case LegacyDelivery
    let ?u = "?t\<lparr>vs_acknowledged := (if vs_connected s then wanted else [])\<rparr>"
    have "agent_ok ?u b" for b
      by (rule agent_ok_fields [of _ ?t]) (use t followed [OF t, of b] c(2,5) in \<open>simp_all add: catch_ups_ok_def\<close>)
    moreover have "base_ok ?u" using t by (simp add: catch_ups_ok_def base_ok_def)
    ultimately have u: "catch_ups_ok ?u" by (simp add: catch_ups_ok_def)
    have bu: "subscription_behind ?u" using behind by (simp add: subscription_behind_def)
    show ?thesis
    proof (cases "vs_connected s")
      case True
      have "sync_ok (startAcknowledgedCatchUps rc ?u)"
        by (rule start_all_ok [OF u]) (use True LegacyDelivery c bu in simp_all)
      with True changed LegacyDelivery c(2,5,6) show ?thesis by (simp add: commitDesiredMembership_def Let_def)
    next
      case False
      with u bu c(5) have "sync_ok ?u" by (simp add: sync_ok_parts members_base_away members_away)
      with False changed LegacyDelivery c(2,5,6) show ?thesis by (simp add: commitDesiredMembership_def Let_def)
    qed
  next
    case SelectiveDelivery
    have "\<not> settled_members ?t" if "vs_connected s"
      using ok(3) assms(2) changed that SelectiveDelivery
      by (auto simp: settled_members_def members_asked_def no_subscription_def c)
    then have "\<not> (vs_connected s \<and> settled_members ?t)" by blast
    then have "members_base ?t"
      using ok(2) behind SelectiveDelivery c(5-7)
      unfolding members_base_def subscription_behind_def by auto
    with reconcile_ok [OF t this] changed SelectiveDelivery c(6) show ?thesis
      by (simp add: commitDesiredMembership_def Let_def)
  qed
qed

lemma publish_ok:
  assumes "sync_ok s"
    and "vs_connected s \<and> vs_mode s = SelectiveDelivery \<longrightarrow> vs_reconcile s \<noteq> Settling"
  shows "sync_ok (publishVisibleMembership rc s)"
proof -
  have "sync_ok (commitDesiredMembership rc ids False (s\<lparr>vs_recent := recent\<rparr>))" for ids recent
    by (rule commit_ok) (use assms in \<open>simp_all add: sync_ok_control\<close>)
  with assms(1) show ?thesis by (simp add: publishVisibleMembership_def Let_def split: prod.split)
qed

lemma replace_visible_ok:
  assumes "sync_ok s"
    and "vs_connected s \<and> vs_mode s = SelectiveDelivery \<longrightarrow> vs_reconcile s \<noteq> Settling"
  shows "sync_ok (replaceVisibleAgentIds rc source ids s)"
  unfolding replaceVisibleAgentIds_def Let_def
  by (rule publish_ok) (use assms in \<open>simp_all add: sync_ok_control\<close>)

lemma set_active_ok:
  assumes "sync_ok s"
    and "vs_connected s \<and> vs_mode s = SelectiveDelivery \<longrightarrow> vs_reconcile s \<noteq> Settling"
  shows "sync_ok (setActive rc v s)"
  unfolding setActive_def
  by (simp add: assms(1), intro impI, rule publish_ok) (use assms in \<open>simp_all add: sync_ok_control\<close>)


section \<open>Leaving and coming back\<close>

text \<open>A state without a connection, in which the catch-ups of the last one may still be there.\<close>

definition away_ok :: "view_sync \<Rightarrow> bool" where
  "away_ok s \<longleftrightarrow> timers_owned s \<and> catch_ups_desired s \<and> subscription_behind s \<and> \<not> vs_connected s"

lemma away_fields:
  assumes "away_ok s" "vs_catchUps t = vs_catchUps s" "vs_timers t = vs_timers s" "vs_fetches t = vs_fetches s"
    "vs_generations t = vs_generations s" "vs_disposed t = vs_disposed s" "vs_nextTimer t = vs_nextTimer s"
    "vs_memberTimer t = vs_memberTimer s" "vs_loading t = vs_loading s" "vs_loads t = vs_loads s"
    "vs_connected t = vs_connected s" "vs_desired t = vs_desired s" "vs_generation t = vs_generation s"
    "vs_reconcile t = vs_reconcile s" "vs_needsRetry t = vs_needsRetry s"
  shows "away_ok t"
  using assms(1,2,11-15) timers_owned_fields [OF assms(2-10)]
  by (simp add: away_ok_def catch_ups_desired_def subscription_behind_def)

lemma commit_away:
  assumes "away_ok s"
  shows "away_ok (commitDesiredMembership rc wanted True s)"
proof -
  obtain b s1 where r: "reset_status wanted s = (b, s1)" by fastforce
  have s1: "away_ok s1"
    by (rule away_fields [OF assms]) (use r in \<open>auto simp: reset_status_def\<close>)
  show ?thesis
  proof (cases "wanted = vs_desired s1")
    case True
    have "away_ok (notify_if b s1)"
      by (rule away_fields [OF s1]) (simp_all add: notify_if_def)
    with True r show ?thesis by (simp add: commitDesiredMembership_def)
  next
    case False
    let ?t = "change_members wanted s1"
    note a = s1 [unfolded away_ok_def]
    note c = change_members [where wanted = wanted, OF conjunct1 [OF a] conjunct1 [OF conjunct2 [OF a]]]
    have "subscription_behind ?t"
      by (rule behind_next [of s1]) (use a in \<open>simp_all add: c\<close>)
    with c a have t: "away_ok ?t" by (simp add: away_ok_def)
    have u: "away_ok (?t\<lparr>vs_acknowledged := ids\<rparr>)" "away_ok (?t\<lparr>vs_again := x\<rparr>)" for ids x
      by (rule away_fields [OF t]; simp)+
    have "\<not> vs_connected ?t" using t by (simp add: away_ok_def)
    with u t False r show ?thesis
      by (simp add: commitDesiredMembership_def reconcileMembership_def Let_def)
  qed
qed

lemma away_disconnected:
  assumes "away_ok s"
  shows "sync_ok (disconnect rc s)"
proof -
  let ?ids = "if vs_active s then visibleAgentIds s else []"
  let ?s1 = "commitDesiredMembership rc ?ids True (s\<lparr>vs_recent := ?ids\<rparr>)"
  let ?s2 = "cancel_member_timer ?s1"
  let ?s3 = "?s2\<lparr>vs_retryDelay := None, vs_acknowledged := [], vs_generation := vs_generation ?s1 + 1\<rparr>"
  let ?t = "fold cancelCatchUp (vs_desired ?s1) ?s3"
  have "away_ok (s\<lparr>vs_recent := ?ids\<rparr>)" by (rule away_fields [OF assms]) simp_all
  then have a1: "away_ok ?s1" by (rule commit_away)
  then have own: "timers_owned ?s1" and cus: "catch_ups_desired ?s1" and behind: "subscription_behind ?s1"
    and off: "\<not> vs_connected ?s1" unfolding away_ok_def by blast+
  note f2 = drops_fields [OF member_timer_drops [of ?s1]]
  have own3: "timers_owned ?s3" using timers_owned_fields [of ?s3 ?s2] f2(14) [OF own] by simp
  have d: "drops (set (vs_desired ?s1)) ?s3 ?t" by (rule fold_drops [OF cancelCatchUp_drops])
  note f = drops_fields [OF d]
  have "vs_catchUps ?t b = None" for b
    using cus f(13) [of b] f2(13) [of b] by (auto simp: catch_ups_desired_def)
  then have ok: "catch_ups_ok ?t" by (rule nothing_followed [OF f(14) [OF own3]])
  have "subscription_behind ?t"
    by (rule behind_next [OF behind]) (use f f2 in simp_all)
  then have "sync_ok ?t"
    using ok off f(1,4) f2(1) by (simp add: sync_ok_parts members_base_away members_away)
  moreover have "disconnect rc s = ?t" using f2(3) by (simp add: disconnect_def Let_def)
  ultimately show ?thesis by simp
qed

lemma no_catch_ups_away:
  assumes "catch_ups_ok s" "\<not> vs_connected s"
  shows "vs_catchUps s a = None"
  by (rule unfollowed [OF assms(1)]) (use assms(2) in blast)

lemma set_connected_ok:
  assumes "sync_ok s"
  shows "sync_ok (setConnected rc v s)"
proof -
  note ok = sync_okD [OF assms]
  consider "vs_connected s = v" | "vs_connected s" "\<not> v" | "\<not> vs_connected s" v by blast
  then show ?thesis
  proof cases
    case 1
    with assms show ?thesis by (simp add: setConnected_def)
  next
    case 2
    have "away_ok (s\<lparr>vs_connected := False\<rparr>)"
      using timers_owned [OF ok(1)] catch_ups_desired [OF ok(1)] ok(4)
        timers_owned_fields [of "s\<lparr>vs_connected := False\<rparr>" s]
      by (simp add: away_ok_def catch_ups_desired_def subscription_behind_def)
    from away_disconnected [OF this] 2 show ?thesis by (simp add: setConnected_def)
  next
    case 3
    let ?s1 = "s\<lparr>vs_connected := True, vs_generation := vs_generation s + 1\<rparr>"
    have none: "vs_catchUps s a = None" for a using no_catch_ups_away [OF ok(1)] 3 by blast
    have own: "timers_owned s" by (rule timers_owned [OF ok(1)])
    have behind: "subscription_behind (?s1\<lparr>vs_acknowledged := ids\<rparr>)" for ids
      by (rule behind_next [OF ok(4)]) simp_all
    have cu: "catch_ups_ok (?s1\<lparr>vs_acknowledged := ids\<rparr>)" for ids
      by (rule nothing_followed) (use own timers_owned_fields [of "?s1\<lparr>vs_acknowledged := ids\<rparr>" s] none in simp_all)
    have empty: "vs_acknowledged s = []" using ok(2) 3 by (simp add: members_base_def)
    then have s1: "?s1 = ?s1\<lparr>vs_acknowledged := []\<rparr>" by simp
    show ?thesis
    proof (cases "vs_mode s")
      case LegacyDelivery
      have "sync_ok (startAcknowledgedCatchUps rc (?s1\<lparr>vs_acknowledged := vs_desired s\<rparr>))"
        by (rule start_all_ok [OF cu]) (use LegacyDelivery behind in simp_all)
      with 3 LegacyDelivery show ?thesis by (simp add: setConnected_def Let_def)
    next
      case SelectiveDelivery
      have "members_base ?s1"
        using behind [of "[]"] SelectiveDelivery empty
        by (simp add: members_base_def subscription_behind_def settled_members_def)
      moreover have "catch_ups_ok ?s1" using cu [of "[]"] s1 by simp
      ultimately have "sync_ok (reconcileMembership ?s1)" by (intro reconcile_ok)
      with 3 SelectiveDelivery show ?thesis by (simp add: setConnected_def Let_def)
    qed
  qed
qed

end
