(* ===== verification/Sync_Runs.thy ===== *)
theory Sync_Runs
  imports Sync_Commits
begin

text \<open>The answers to a subscription, the mode and the retries; runs of the whole sync.\<close>

section \<open>The mode\<close>

lemma mode_ok:
  assumes "sync_ok s"
  shows "sync_ok (setDeliveryMode rc mode s)"
proof (cases "vs_mode s = mode")
  case True
  with assms show ?thesis by (simp add: setDeliveryMode_def)
next
  case False
  note ok = sync_okD [OF assms]
  define c where "c = cancel_member_timer (s\<lparr>vs_mode := mode\<rparr>)"
  define s1 where "s1 = c\<lparr>vs_retryDelay := None, vs_needsRetry := False, vs_generation := vs_generation s + 1\<rparr>"
  define s2 where "s2 = fold cancelCatchUp (vs_desired s1) s1"
  define ids where "ids = (if vs_active s2 then visibleAgentIds s2 else [])"
  define s3 where "s3 = logged (Demand ids) (s2\<lparr>vs_recent := ids, vs_desired := ids\<rparr>)"
  define s4 where "s4 = logged NotifyListeners (s3\<lparr>vs_unready := set ids, vs_errors := Map.empty, vs_manual := {},
    vs_acknowledged := (if mode = LegacyDelivery \<and> vs_connected s3 then ids else [])\<rparr>)"
  have own: "timers_owned (s\<lparr>vs_mode := mode\<rparr>)"
    using timers_owned [OF ok(1)] timers_owned_fields [of "s\<lparr>vs_mode := mode\<rparr>" s] by simp
  note fc = drops_fields [OF member_timer_drops [of "s\<lparr>vs_mode := mode\<rparr>"], folded c_def]
  have own1: "timers_owned s1" using timers_owned_fields [of s1 c] fc(14) [OF own] by (simp add: s1_def)
  have d: "drops (set (vs_desired s1)) s1 s2" unfolding s2_def by (rule fold_drops [OF cancelCatchUp_drops])
  note f = drops_fields [OF d]
  have f1: "vs_desired s1 = vs_desired s" "vs_catchUps s1 = vs_catchUps s" "vs_connected s1 = vs_connected s"
    "vs_mode s1 = mode" "vs_reconcile s1 = vs_reconcile s" "\<not> vs_needsRetry s1"
    "vs_generation s1 = vs_generation s + 1"
    using fc(1-8,13) by (simp_all add: s1_def fun_eq_iff)
  have none: "vs_catchUps s2 b = None" for b
    using catch_ups_desired [OF ok(1)] f(13) [of b] f1(1,2) by (auto simp: catch_ups_desired_def)
  have f4: "vs_catchUps s4 = vs_catchUps s2" "vs_timers s4 = vs_timers s2" "vs_fetches s4 = vs_fetches s2"
    "vs_generations s4 = vs_generations s2" "vs_disposed s4 = vs_disposed s2" "vs_nextTimer s4 = vs_nextTimer s2"
    "vs_memberTimer s4 = vs_memberTimer s2" "vs_loading s4 = vs_loading s2" "vs_loads s4 = vs_loads s2"
    "vs_connected s4 = vs_connected s" "vs_mode s4 = mode" "vs_reconcile s4 = vs_reconcile s"
    "\<not> vs_needsRetry s4" "vs_generation s4 = vs_generation s + 1" "vs_desired s4 = ids"
    "vs_acknowledged s4 = (if mode = LegacyDelivery \<and> vs_connected s then ids else [])"
    using f(1-8) f1 by (simp_all add: s4_def s3_def)
  have cu: "catch_ups_ok s4"
    by (rule nothing_followed) (use timers_owned_fields [OF f4(1-9)] f(14) [OF own1] none f4(1) in simp_all)
  have behind: "subscription_behind s4" by (rule behind_next [OF ok(4)]) (use f4 in simp_all)
  have t: "setDeliveryMode rc mode s = (if mode = SelectiveDelivery \<and> vs_connected s4 then reconcileMembership s4
      else if vs_connected s4 then startAcknowledgedCatchUps rc s4 else s4)"
    unfolding setDeliveryMode_def Let_def if_not_P [OF False]
    unfolding c_def [symmetric] s1_def [symmetric] s2_def [symmetric] ids_def [symmetric] s3_def [symmetric]
      s4_def [symmetric] by (rule refl)
  consider "\<not> vs_connected s" | "vs_connected s" "mode = LegacyDelivery" | "vs_connected s" "mode = SelectiveDelivery"
    by (cases mode) auto
  then show ?thesis
  proof cases
    case 1
    with cu behind f4(10,11,16) have "sync_ok s4" by (simp add: sync_ok_parts members_base_away members_away)
    with 1 f4(10,11) t show ?thesis by simp
  next
    case 2
    have "sync_ok (startAcknowledgedCatchUps rc s4)"
      by (rule start_all_ok [OF cu]) (use 2 f4 behind in simp_all)
    with 2 f4(10,11) t show ?thesis by simp
  next
    case 3
    then have "members_base s4"
      using behind f4(10,11,15,16) by (auto simp: members_base_def subscription_behind_def settled_members_def)
    with 3 f4(10,11) t reconcile_ok [OF cu] show ?thesis by simp
  qed
qed

section \<open>Retries\<close>

lemma retry_failed_goes:
  assumes "catch_ups_ok s" "vs_catchUps s a = Some cu" "cu_status cu = CatchUpFailed"
  shows "goes s (startCatchUp rc a (cu_request cu) True (cancel_timer (cu_retry cu) s))"
proof -
  let ?t = "cancel_timer (cu_retry cu) s"
  let ?q = "case cu_request cu of Some r \<Rightarrow> r | None \<Rightarrow> planTimelineResumeFetch (rc a)"
  let ?o = "cu_request cu = None \<and> fq_direction ?q = Some After"
  let ?u = "replace_catch_up a ?q True ?o ?t"
  have base: "base_ok s" and ok: "agent_ok s b" for b using assms(1) unfolding catch_ups_ok_def by blast+
  note own = agent_ok_own_timer [OF ok [of a]]
  have t: "Option.bind (vs_catchUps s a) cu_retry = cu_retry cu" using assms(2) by simp
  note c = cancel_own [OF base own, unfolded t]
  have own': "own_timer ?t a"
    using own own_timer_cancelled(1) [OF own, unfolded t] by (simp add: own_timer_def) blast
  have others: "\<forall>b. b \<noteq> a \<longrightarrow> agent_ok ?t b" using c(3) ok by blast
  have at: "vs_connected ?t" "a \<in> set (vs_desired ?t)" "a \<in> set (vs_acknowledged ?t)" "a \<in> vs_loaded ?t"
    using followed [OF assms(1), of a] assms(2) by simp_all
  have "startCatchUp rc a (cu_request cu) True ?t = ?u"
    using at assms(2,3) by (simp add: startCatchUp_def decideCatchUp_def Let_def)
  moreover have "?o \<longrightarrow> fq_direction ?q = Some After" by blast
  then have "catch_ups_ok ?u" "kept ?t ?u" by (rule replace_goes [OF c(1) own' others at])+
  ultimately show ?thesis using kept_trans [OF c(2)] by (simp add: goes_def)
qed

lemma drops_none_ok: "drops {} s t \<Longrightarrow> catch_ups_ok s \<Longrightarrow> catch_ups_ok t"
  using drops_fields(14,15) [of "{}" s t] timers_owned [of s]
  by (simp add: catch_ups_ok_def timers_owned_def)

lemma drops_begun:
  assumes "drops {} s t" "begun s a"
  shows "begun t a"
  using assms(2) drops_fields(11,12,13) [OF assms(1)] by (auto simp: begun_def split: if_splits)

lemma member_timer_off:
  assumes "catch_ups_ok s"
  shows "catch_ups_ok (cancel_member_timer s)" "begun s a \<Longrightarrow> begun (cancel_member_timer s) a"
  using drops_none_ok [OF member_timer_drops assms] drops_begun [OF member_timer_drops] by blast+

lemma retry_ok:
  assumes "sync_ok s" "\<not> (vs_needsRetry s \<and> vs_acknowledged s = vs_desired s)"
  shows "sync_ok (retryVisibleAgentTimeline rc a s)"
proof -
  let ?failed = "case vs_catchUps s a of
      Some cu \<Rightarrow> if cu_status cu = CatchUpFailed then Some cu else None | None \<Rightarrow> None"
  let ?retryable = "vs_mode s = SelectiveDelivery \<and> vs_needsRetry s \<and> vs_connected s"
  let ?s1 = "logged NotifyListeners (s\<lparr>vs_manual := insert a (vs_manual s)\<rparr>)"
  have s1: "sync_ok ?s1" by (rule sync_ok_logged) (use assms(1) in \<open>simp add: sync_ok_control\<close>)
  note ok = sync_okD [OF s1]
  consider "a \<notin> set (vs_desired s) \<or> a \<in> vs_manual s \<or> ?failed = None \<and> \<not> ?retryable"
    | cu where "a \<in> set (vs_desired s)" "a \<notin> vs_manual s" "?failed = Some cu"
    | "a \<in> set (vs_desired s)" "a \<notin> vs_manual s" "?failed = None" ?retryable
    by (cases ?failed) blast+
  then show ?thesis
  proof cases
    case 1
    then have "retryVisibleAgentTimeline rc a s = s"
      by (auto simp: retryVisibleAgentTimeline_def Let_def)
    with assms(1) show ?thesis by simp
  next
    case (2 cu)
    then have cu: "vs_catchUps s a = Some cu" "cu_status cu = CatchUpFailed"
      by (auto split: option.splits if_splits)
    then have "goes ?s1 (startCatchUp rc a (cu_request cu) True (cancel_timer (cu_retry cu) ?s1))"
      by (intro retry_failed_goes [OF ok(1)]) simp_all
    from sync_ok_goes [OF s1 this] 2(1,2) cu show ?thesis
      by (simp add: retryVisibleAgentTimeline_def Let_def)
  next
    case 3
    let ?c = "cancel_member_timer ?s1"
    let ?t = "?c\<lparr>vs_retryDelay := None, vs_needsRetry := False\<rparr>"
    note f = drops_fields [OF member_timer_drops [of ?s1]]
    have t: "catch_ups_ok ?t" using member_timer_off(1) [OF ok(1)] by (simp add: catch_ups_ok_control)
    have "vs_reconcile s \<noteq> Subscribing g w" for g w
      using sync_okD(4) [OF assms(1)] 3(4) by (auto simp: subscription_behind_def)
    then have "members_base ?t"
      using assms(2) 3(4) f by (simp add: members_base_def settled_members_def)
    from reconcile_ok [OF t this] 3 show ?thesis
      by (simp add: retryVisibleAgentTimeline_def Let_def)
  qed
qed

lemma member_timer_ok:
  assumes "sync_ok s" "vs_timers s i = Some (RetryMembership g w, d)"
  shows "sync_ok (timer_fired rc (RetryMembership g w) (s\<lparr>vs_timers := (vs_timers s)(i := None)\<rparr>))"
proof -
  note ok = sync_okD [OF assms(1)]
  have "timers_ok (vs_timers s) (vs_nextTimer s) (vs_memberTimer s)"
    using ok(1) by (simp add: catch_ups_ok_def base_ok_def)
  with assms(2) have i: "vs_memberTimer s = Some i" unfolding timers_ok_def by blast
  let ?t = "s\<lparr>vs_timers := (vs_timers s)(i := None), vs_memberTimer := None\<rparr>"
  have t: "?t = cancel_member_timer s" using i by (simp add: cancel_member_timer_def cancel_timer_def)
  note f = drops_fields [OF member_timer_drops [of s]]
  have cu: "catch_ups_ok ?t" unfolding t by (rule member_timer_off [OF ok(1)])
  have base: "members_base ?t"
    using ok(2) by (simp add: members_base_def settled_members_def no_subscription_def begun_def)
  show ?thesis
  proof (cases "vs_connected s \<and> vs_generation s = g \<and> vs_desired s = w")
    case True
    with ok(5) reconcile_ok [OF cu base] show ?thesis by (simp add: timer_fired_def Let_def)
  next
    case False
    have "\<not> retry_scheduled s" if "vs_connected s"
      using False that assms(2) i by (auto simp: retry_scheduled_def)
    then have "members_asked ?t"
      using ok(3) by (auto simp: members_asked_def no_subscription_def split: if_splits)
    with cu base have "sync_ok ?t" by (simp add: sync_ok_parts)
    with False show ?thesis by (auto simp: timer_fired_def Let_def)
  qed
qed


section \<open>The answer to a subscription\<close>

lemma accepted_ok:
  assumes "sync_ok s" "vs_reconcile s = Subscribing g w"
    and "g \<noteq> vs_generation s \<longrightarrow> w \<noteq> vs_desired s \<and> (\<forall>a. vs_catchUps s a \<noteq> None \<longrightarrow> a \<in> set w)"
  shows "sync_ok (subscription_accepted rc g w s)"
proof -
  note ok = sync_okD [OF assms(1)]
  let ?s1 = "(cancel_member_timer s)\<lparr>vs_retryDelay := None\<rparr>"
  note f = drops_fields [OF member_timer_drops [of s]]
  have cu1: "catch_ups_ok ?s1" using member_timer_off(1) [OF ok(1)] by (simp add: catch_ups_ok_control)
  have nd: "\<not> vs_disposed ?s1" using cu1 by (simp add: catch_ups_ok_def base_ok_def)
  have retry: "\<not> vs_needsRetry s" using ok(4) assms(2) by (simp add: subscription_behind_def)
  show ?thesis
  proof (cases "vs_connected s \<and> vs_mode s = SelectiveDelivery")
    case False
    let ?t = "?s1\<lparr>vs_reconcile := Settling\<rparr>"
    have "begun ?t a" if "vs_connected s" "a \<in> set (vs_desired s)" for a
    proof -
      have "vs_mode s = LegacyDelivery" using False that(1) by (cases "vs_mode s") auto
      then have "begun s a" using ok(2) that by (simp add: members_base_def settled_members_def)
      then show ?thesis using member_timer_off(2) [OF ok(1)] by (simp add: begun_def)
    qed
    then have "members_base ?t" using ok(2) f by (simp add: members_base_def)
    moreover have "members_asked ?t" using False f by (auto simp: members_asked_def)
    ultimately have "sync_ok ?t" using cu1 by (simp add: sync_ok_parts catch_ups_ok_control)
    with False f nd show ?thesis by (auto simp: subscription_accepted_def Let_def)
  next
    case live: True
    let ?s2 = "?s1\<lparr>vs_acknowledged := w\<rparr>"
    have within: "a \<in> set w" if "vs_catchUps s a \<noteq> None" for a
    proof (cases "g = vs_generation s")
      case True
      with ok(4) assms(2) have "w = vs_desired s" by (simp add: subscription_behind_def)
      with that catch_ups_desired [OF ok(1)] show ?thesis by (simp add: catch_ups_desired_def)
    qed (use assms(3) that in blast)
    have "agent_ok ?s2 b" for b
      by (rule agent_ok_fields [of _ ?s1])
        (use cu1 within [of b] f(3,13) followed(2) [OF ok(1), of b] in \<open>simp_all add: catch_ups_ok_def\<close>)
    moreover have "base_ok ?s2" using cu1 by (simp add: catch_ups_ok_def base_ok_def)
    ultimately have cu2: "catch_ups_ok ?s2" by (simp add: catch_ups_ok_def)
    show ?thesis
    proof (cases "g = vs_generation s")
      case False
      have "members_base ?s2"
        using live ok(4) assms(2) f
        by (simp add: members_base_def settled_members_def no_subscription_def subscription_behind_def)
      moreover have "vs_desired s \<noteq> w" using assms(3) False by blast
      ultimately have "members_ok (reconcileLatestMembership ?s2)"
        using nd f(3) by (intro latest_members) simp_all
      with cu2 have "sync_ok (reconcileLatestMembership ?s2)"
        by (simp add: sync_ok_parts members_ok_def latest_keeps)
      with live False f nd show ?thesis by (simp add: subscription_accepted_def Let_def)
    next
      case True
      let ?s3 = "startAcknowledgedCatchUps rc ?s2"
      let ?t = "?s3\<lparr>vs_reconcile := Settling\<rparr>"
      have w: "w = vs_desired s" using ok(4) assms(2) True by (simp add: subscription_behind_def)
      note g = start_all(1) [OF cu2, of rc] and b = start_all(2) [OF cu2, of _ rc]
      note gf = goes_fields [OF g]
      have "begun ?s3 a" if "a \<in> set w" for a
        using b [of a] live that w f by simp
      then have "members_base ?t"
        using live w gf f by (simp add: members_base_def)
      moreover have "members_asked ?t"
        using w gf f retry by (simp add: members_asked_def)
      ultimately have "sync_ok ?t"
        using goes_ok [OF g cu2] by (simp add: sync_ok_parts catch_ups_ok_control)
      with live True f nd w gf(2,3) show ?thesis by (simp add: subscription_accepted_def Let_def)
    qed
  qed
qed

lemma refused_ok:
  assumes "sync_ok s" "vs_reconcile s = Subscribing g w"
  shows "sync_ok (subscription_refused g w e s)"
proof -
  note ok = sync_okD [OF assms(1)]
  let ?s1 = "setVisibilityCatchUpError w e (s\<lparr>vs_needsRetry := True\<rparr>)"
  let ?c = "cancel_member_timer ?s1"
  let ?i = "vs_nextTimer ?s1" and ?d = "getNextRetryDelayMs (vs_retryDelay ?s1)"
  let ?t = "?c\<lparr>vs_timers := (vs_timers ?c)(?i \<mapsto> (RetryMembership g w, ?d)), vs_nextTimer := ?i + 1,
    vs_memberTimer := Some ?i, vs_retryDelay := Some ?d, vs_reconcile := Settling\<rparr>"
  have same: "same_core (s\<lparr>vs_needsRetry := True\<rparr>) ?s1" by (rule same_core_error)
  have f1: "vs_connected ?s1 = vs_connected s" "vs_mode ?s1 = vs_mode s" "vs_desired ?s1 = vs_desired s"
    "vs_acknowledged ?s1 = vs_acknowledged s" "vs_generation ?s1 = vs_generation s"
    "vs_again ?s1 = vs_again s" "vs_needsRetry ?s1"
    "vs_memberTimer ?s1 = vs_memberTimer s"
    using same by (simp_all add: same_core_def)
  have cu1: "catch_ups_ok ?s1"
    by (rule catch_ups_ok_same_core [OF same]) (use ok(1) in \<open>simp add: catch_ups_ok_control\<close>)
  have cu: "catch_ups_ok ?c" by (rule member_timer_off [OF cu1])
  note f = drops_fields [OF member_timer_drops [of ?s1]]
  have n: "vs_nextTimer ?c = ?i" "vs_memberTimer ?c = None"
    by (simp_all add: cancel_member_timer_def)
  have base: "base_ok ?c" and agents: "agent_ok ?c b" for b using cu unfolding catch_ups_ok_def by blast+
  have timers: "timers_ok (vs_timers ?c) ?i None" using base n by (simp add: base_ok_def)
  then have free: "vs_timers ?c ?i = None" by (rule timers_ok_add(2))
  have "timers_ok (vs_timers ?t) (?i + 1) (Some ?i)"
    using timers unfolding timers_ok_def by (auto simp: less_Suc_eq split: if_splits)
  then have "base_ok ?t" using base by (simp add: base_ok_def)
  moreover have "agent_ok ?t b" for b
    by (rule agent_ok_kept [OF agents]) (use free in \<open>auto simp: agent_kept_def\<close>)
  ultimately have "catch_ups_ok ?t" by (simp add: catch_ups_ok_def)
  moreover have "members_base ?t"
  proof -
    have "begun ?t a" if "vs_connected s" "vs_mode s = LegacyDelivery" "a \<in> set (vs_desired s)" for a
    proof -
      have "begun s a" using ok(2) that by (simp add: members_base_def settled_members_def)
      then have "begun ?s1 a" using begun_same_core [OF same] by simp
      then have "begun ?c a" by (rule member_timer_off(2) [OF cu1])
      then show ?thesis by (simp add: begun_def)
    qed
    then show ?thesis using ok(2) f f1 by (simp add: members_base_def settled_members_def)
  qed
  moreover have "members_asked ?t"
  proof (cases "g = vs_generation s")
    case True
    with ok(4) assms(2) have "w = vs_desired s" by (simp add: subscription_behind_def)
    with True f f1 show ?thesis by (simp add: members_asked_def retry_scheduled_def)
  next
    case False
    then have "vs_connected s \<and> vs_mode s = SelectiveDelivery \<longrightarrow> vs_again s"
      using ok(3) assms(2) by (simp add: members_asked_def)
    with f f1 show ?thesis by (simp add: members_asked_def)
  qed
  ultimately have "sync_ok ?t" by (simp add: sync_ok_parts)
  moreover have "subscription_refused g w e s = logged (ReportError e) ?t"
    using f1(8) by (simp add: subscription_refused_def Let_def cancel_member_timer_def)
  ultimately show ?thesis using sync_ok_logged by simp
qed

lemma settle_ok:
  assumes "sync_ok s" "vs_reconcile s = Settling"
  shows "sync_ok (settle_reconcile s)"
proof -
  note ok = sync_okD [OF assms(1)]
  let ?s1 = "s\<lparr>vs_reconcile := ReconcileIdle\<rparr>"
  have cu: "catch_ups_ok ?s1" "catch_ups_ok (?s1\<lparr>vs_again := False\<rparr>)"
    using ok(1) by (simp_all add: catch_ups_ok_control)
  have base: "members_base ?s1" "members_base (?s1\<lparr>vs_again := False\<rparr>)"
    using ok(2) assms(2) by (simp_all add: members_base_def settled_members_def no_subscription_def)
  let ?live = "vs_connected s \<and> vs_mode s = SelectiveDelivery"
  consider "vs_again s" ?live | "\<not> vs_again s" ?live "\<not> vs_needsRetry s" "vs_desired s \<noteq> vs_acknowledged s"
    | "\<not> ?live \<or> \<not> vs_again s \<and> (vs_needsRetry s \<or> vs_desired s = vs_acknowledged s)" by blast
  then show ?thesis
  proof cases
    case 1
    with ok(5) reconcile_ok [OF cu(2) base(2)] show ?thesis by (simp add: settle_reconcile_def Let_def)
  next
    case 2
    with ok(5) reconcile_ok [OF cu(1) base(1)] show ?thesis by (simp add: settle_reconcile_def Let_def)
  next
    case 3
    then have "members_asked ?s1"
      using ok(3) assms(2) by (auto simp: members_asked_def no_subscription_def retry_scheduled_def)
    with cu(1) base(1) have "sync_ok ?s1" by (simp add: sync_ok_parts)
    with 3 ok(5) show ?thesis by (auto simp: settle_reconcile_def Let_def)
  qed
qed


section \<open>Runs\<close>

text \<open>
  The events that the invariant allows.  While the sync settles nobody calls it; a latest tail arrives for
  the catch-up that asked for it; the daemon confirms the membership that is wanted, or one that leaves
  something to ask for and leaves out no agent that catches up; and a retry follows a membership that the
  daemon does not have.  \<open>Sync_Lost\<close> shows what the other events do.
\<close>

definition timely :: "view_sync \<Rightarrow> sync_event \<Rightarrow> bool" where
  "timely s e \<longleftrightarrow> (case e of
      ReplaceVisible source ids \<Rightarrow> vs_reconcile s \<noteq> Settling
    | SetActive v \<Rightarrow> vs_reconcile s \<noteq> Settling
    | RetryVisible a \<Rightarrow> \<not> (vs_needsRetry s \<and> vs_acknowledged s = vs_desired s)
    | LatestTailArrived f \<Rightarrow> ownsCatchUp s (pf_agent f) (pf_generation f)
    | Subscribed \<Rightarrow> (case vs_reconcile s of
          Subscribing g w \<Rightarrow> g = vs_generation s \<or>
            w \<noteq> vs_desired s \<and> (\<forall>a\<in>set (vs_desired s). vs_catchUps s a \<noteq> None \<longrightarrow> a \<in> set w)
        | _ \<Rightarrow> True)
    | Dispose \<Rightarrow> False
    | _ \<Rightarrow> True)"

inductive timely_reach :: "delivery_mode \<Rightarrow> view_sync \<Rightarrow> bool" for mode where
  start: "timely_reach mode (initial_sync mode)"
| step: "timely_reach mode s \<Longrightarrow> timely s e \<Longrightarrow> sync_step rc e s = Some t \<Longrightarrow> timely_reach mode t"

fun timely_run :: "(cursor_reader \<times> sync_event) list \<Rightarrow> view_sync \<Rightarrow> view_sync option" where
  "timely_run [] s = Some s"
| "timely_run ((rc, e) # es) s = (if timely s e then Option.bind (sync_step rc e s) (timely_run es) else None)"

lemma timely_run_reach:
  "timely_reach mode s \<Longrightarrow> timely_run es s = Some t \<Longrightarrow> timely_reach mode t"
  by (induction es s rule: timely_run.induct)
    (auto simp: Option.bind_eq_Some_conv split: if_splits intro: timely_reach.step)

lemma initial_ok: "sync_ok (initial_sync mode)"
  by (simp add: initial_sync_def sync_ok_parts catch_ups_ok_def base_ok_def timers_ok_def one_fetch_def
      agent_ok_def members_base_def members_asked_def)

lemma sync_step_ok:
  assumes "sync_ok s" "timely s e" "sync_step rc e s = Some t"
  shows "sync_ok t"
proof -
  note ok = sync_okD(1) [OF assms(1)] and go = sync_ok_goes [OF assms(1)]
  show ?thesis
  proof (cases e)
    case (CacheLoaded a failure)
    with assms(3) go [OF cache_goes [OF ok]] show ?thesis by (auto split: if_splits)
  next
    case (PageArrived f page)
    with assms(3) go [OF page_goes [OF ok]] show ?thesis by (cases page) (auto simp: take_fetch_def split: if_splits)
  next
    case (LatestTailArrived f)
    with assms(2,3) go [OF latest_tail_goes [OF ok]] show ?thesis
      by (auto simp: take_fetch_def timely_def split: if_splits)
  next
    case (FetchFailed f e)
    with assms(3) go [OF failed_goes [OF ok]] show ?thesis by (auto simp: take_fetch_def split: if_splits)
  next
    case Subscribed
    with assms(3) obtain g w where s: "vs_reconcile s = Subscribing g w" "t = subscription_accepted rc g w s"
      by (auto split: reconcile_phase.splits)
    have "g \<noteq> vs_generation s \<longrightarrow> w \<noteq> vs_desired s \<and> (\<forall>a. vs_catchUps s a \<noteq> None \<longrightarrow> a \<in> set w)"
      using assms(2) Subscribed s(1) catch_ups_desired [OF ok] by (auto simp: timely_def catch_ups_desired_def)
    from accepted_ok [OF assms(1) s(1) this] s(2) show ?thesis by simp
  next
    case (SubscriptionRefused e)
    with assms(3) refused_ok [OF assms(1)] show ?thesis by (auto split: reconcile_phase.splits)
  next
    case Settle
    with assms(3) settle_ok [OF assms(1)] show ?thesis by (auto split: if_splits)
  next
    case (TimerFired i)
    with assms(3) obtain x d where i: "vs_timers s i = Some (x, d)"
      "t = timer_fired rc x (s\<lparr>vs_timers := (vs_timers s)(i := None)\<rparr>)"
      by (auto split: option.splits)
    show ?thesis
    proof (cases x)
      case (RetryAgent a g)
      with i go [OF agent_timer_goes [OF ok]] show ?thesis by simp
    next
      case (RetryMembership g w)
      with i member_timer_ok [OF assms(1)] show ?thesis by simp
    qed
  next
    case (ReplaceVisible source ids)
    with assms(2,3) replace_visible_ok [OF assms(1)] show ?thesis by (auto simp: timely_def)
  next
    case (SetActive v)
    with assms(2,3) set_active_ok [OF assms(1)] show ?thesis by (auto simp: timely_def)
  next
    case (SetConnected v)
    with assms(3) set_connected_ok [OF assms(1)] show ?thesis by auto
  next
    case (SetDeliveryMode mode)
    with assms(3) mode_ok [OF assms(1)] show ?thesis by auto
  next
    case (RecoverGap a epoch seq)
    with assms(3) go [OF recover_goes [OF ok]] show ?thesis by auto
  next
    case (RetryVisible a)
    with assms(2,3) retry_ok [OF assms(1)] show ?thesis by (auto simp: timely_def)
  next
    case Dispose
    with assms(2) show ?thesis by (simp add: timely_def)
  qed
qed

lemma reach_ok: "timely_reach mode s \<Longrightarrow> sync_ok s"
  by (induction rule: timely_reach.induct) (auto intro: initial_ok sync_step_ok)

text \<open>Nothing that the sync waits for is left.\<close>

definition waits_for_nothing :: "view_sync \<Rightarrow> bool" where
  "waits_for_nothing s \<longleftrightarrow> vs_fetches s = [] \<and> vs_loads s = [] \<and> vs_reconcile s = ReconcileIdle \<and>
     (\<forall>i<vs_nextTimer s. vs_timers s i = None)"

lemma no_timer:
  assumes "sync_ok s" "waits_for_nothing s"
  shows "vs_timers s i = None"
proof (cases "vs_timers s i")
  case (Some t)
  with assms(1) have "i < vs_nextTimer s" by (simp add: sync_ok_def base_ok_def timers_ok_def)
  with assms(2) show ?thesis by (simp add: waits_for_nothing_def)
qed

lemma quiet_members:
  assumes "sync_ok s" "waits_for_nothing s" "vs_connected s"
  shows "vs_acknowledged s = vs_desired s" "\<forall>a\<in>set (vs_desired s). begun s a"
proof -
  note ok = sync_okD [OF assms(1)]
  have idle: "vs_reconcile s = ReconcileIdle" using assms(2) by (simp add: waits_for_nothing_def)
  have "\<not> retry_scheduled s" using no_timer [OF assms(1,2)] by (simp add: retry_scheduled_def)
  with ok(3) idle assms(3) have settled: "vs_mode s = SelectiveDelivery \<longrightarrow>
      \<not> vs_needsRetry s \<and> vs_acknowledged s = vs_desired s"
    by (auto simp: members_asked_def no_subscription_def split: if_splits)
  with ok(2) assms(3) show "vs_acknowledged s = vs_desired s"
    by (cases "vs_mode s") (simp_all add: members_base_def)
  have "settled_members s" using settled idle
    by (cases "vs_mode s") (simp_all add: settled_members_def no_subscription_def)
  with ok(2) assms(3) show "\<forall>a\<in>set (vs_desired s). begun s a" by (simp add: members_base_def)
qed

lemma quiet_complete:
  assumes "sync_ok s" "waits_for_nothing s" "begun s a"
  shows "\<exists>cu. vs_catchUps s a = Some cu \<and> cu_status cu = CatchUpComplete" "a \<notin> vs_unready s"
    "vs_pending s a = None"
proof -
  have "vs_loading s = {}" using assms(1,2) by (simp add: sync_ok_def base_ok_def waits_for_nothing_def)
  with assms(3) obtain cu where cu: "vs_catchUps s a = Some cu" by (auto simp: begun_def split: if_splits)
  have "agent_ok s a" using assms(1) unfolding sync_ok_def by blast
  with cu have u: "under_way s a cu" by (simp add: agent_ok_def)
  have "cu_status cu = CatchUpComplete"
    using u assms(2) no_timer [OF assms(1,2)]
    by (cases "cu_status cu") (auto simp: under_way_def waits_for_nothing_def)
  with u cu show "\<exists>cu. vs_catchUps s a = Some cu \<and> cu_status cu = CatchUpComplete" "a \<notin> vs_unready s"
    "vs_pending s a = None" by (auto simp: under_way_def)
qed


text \<open>
  C7: A viewed agent does not stay behind.  In a timely run that is connected and no longer waits for a
  page, a cached timeline, the answer to a subscription or a timer, the daemon follows exactly the agents
  that are wanted, each of them has caught up and owes nothing, and none is shown as pending.
\<close>

theorem viewed_timelines_caught_up:
  assumes "timely_reach mode s" "waits_for_nothing s" "vs_connected s" "a \<in> set (vs_desired s)"
  shows "vs_acknowledged s = vs_desired s \<and>
    (\<exists>cu. vs_catchUps s a = Some cu \<and> cu_status cu = CatchUpComplete) \<and>
    vs_pending s a = None \<and> getAgentTimelineStatus s a \<noteq> ViewPending"
proof -
  have ok: "sync_ok s" using assms(1) by (rule reach_ok)
  note m = quiet_members [OF ok assms(2,3)]
  have "begun s a" using m(2) assms(4) by blast
  with quiet_complete [OF ok assms(2)] m(1) assms(4) show ?thesis by (simp add: getAgentTimelineStatus_def)
qed

text \<open>
  A run of the selective mode: the agent is shown while its timeline is cached, its first page fails, and
  the retry returns it.
\<close>

definition retried_run :: "sync_event list" where
  "retried_run =
     [SetConnected True, Settle, ReplaceVisible ''pane'' [''a''], CacheLoaded ''a'' None, Subscribed,
      FetchFailed \<lparr>pf_agent = ''a'', pf_generation = 1, pf_request = planTimelineTailFetch,
        pf_overflow = False, pf_latestTail = False\<rparr> ''offline'',
      Settle, TimerFired 0,
      PageArrived \<lparr>pf_agent = ''a'', pf_generation = 2, pf_request = planTimelineTailFetch,
        pf_overflow = False, pf_latestTail = False\<rparr> (False, None)]"

definition retried_sync :: view_sync where
  "retried_sync = the (timely_run (map (Pair (\<lambda>_. None)) retried_run) (initial_sync SelectiveDelivery))"

lemma retried_sync_quiet:
  "timely_run (map (Pair (\<lambda>_. None)) retried_run) (initial_sync SelectiveDelivery) \<noteq> None"
  "vs_fetches retried_sync = [] \<and> vs_loads retried_sync = [] \<and> vs_reconcile retried_sync = ReconcileIdle"
  "vs_nextTimer retried_sync = 1 \<and> vs_timers retried_sync 0 = None"
  "vs_connected retried_sync \<and> vs_desired retried_sync = [''a'']"
  by code_simp+

lemma retried_sync_reach:
  "timely_reach SelectiveDelivery retried_sync" "waits_for_nothing retried_sync"
proof -
  obtain s where "timely_run (map (Pair (\<lambda>_. None)) retried_run) (initial_sync SelectiveDelivery) = Some s"
    using retried_sync_quiet(1) by auto
  then show "timely_reach SelectiveDelivery retried_sync"
    using timely_run_reach [OF timely_reach.start] by (simp add: retried_sync_def)
  show "waits_for_nothing retried_sync" using retried_sync_quiet(2,3) by (simp add: waits_for_nothing_def)
qed

theorem viewed_timelines_caught_up_witness:
  "timely_reach SelectiveDelivery retried_sync \<and> vs_acknowledged retried_sync = [''a''] \<and>
     getAgentTimelineStatus retried_sync ''a'' \<noteq> ViewPending"
  using viewed_timelines_caught_up [OF retried_sync_reach, of "''a''"] retried_sync_reach(1)
    retried_sync_quiet(4) by simp

end
