(* ===== verification/Sync_Lost.thy ===== *)
theory Sync_Lost
  imports Sync_Runs
begin

text \<open>
  Runs of \<open>viewed-timeline-sync.ts\<close> that leave a viewed agent behind: two of the events that \<open>timely\<close>
  excludes, and an error that neither a page nor a retry removes.
\<close>

fun sync_run :: "cursor_reader \<Rightarrow> sync_event list \<Rightarrow> view_sync \<Rightarrow> view_sync option" where
  "sync_run rc [] s = Some s"
| "sync_run rc (e # es) s = Option.bind (sync_step rc e s) (sync_run rc es)"

definition tail_fetch :: "string \<Rightarrow> nat \<Rightarrow> pending_fetch" where
  "tail_fetch a g = \<lparr>pf_agent = a, pf_generation = g, pf_request = planTimelineTailFetch,
     pf_overflow = False, pf_latestTail = False\<rparr>"

section \<open>A subscription that was superseded\<close>

definition superseded_run :: "sync_event list" where
  "superseded_run =
     [SetConnected True, Settle,
      ReplaceVisible ''pane'' [''a'', ''b'', ''c'', ''d'', ''e''],
      CacheLoaded ''a'' None, CacheLoaded ''b'' None, CacheLoaded ''c'' None, CacheLoaded ''d'' None,
      CacheLoaded ''e'' None,
      ReplaceVisible ''pane'' [''f''], CacheLoaded ''f'' None,
      ReplaceVisible ''pane'' [''a'', ''b'', ''c'', ''d'', ''e''],
      Subscribed, Settle, Settle]"

definition superseded_sync :: view_sync where
  "superseded_sync = the (sync_run (\<lambda>_. None) superseded_run (initial_sync SelectiveDelivery))"

lemma superseded_sync_facts:
  "sync_run (\<lambda>_. None) superseded_run (initial_sync SelectiveDelivery) \<noteq> None"
  "vs_fetches superseded_sync = [] \<and> vs_loads superseded_sync = [] \<and>
     vs_reconcile superseded_sync = ReconcileIdle \<and> vs_nextTimer superseded_sync = 0"
  "vs_connected superseded_sync"
  "vs_acknowledged superseded_sync = [''a'', ''b'', ''c'', ''d'', ''e'']"
  "vs_desired superseded_sync = [''a'', ''b'', ''c'', ''d'', ''e'']"
  "list_all (\<lambda>a. vs_catchUps superseded_sync a = None \<and> getAgentTimelineStatus superseded_sync a = ViewPending)
     [''a'', ''b'', ''c'', ''d'', ''e'']"
  by code_simp+

text \<open>
  C33: Members that change and change back while the daemon is asked are never caught up with.  The answer
  belongs to an older generation and the members are those that are wanted, so that nothing is asked and no
  catch-up starts: all five agents stay pending, although nothing is left to wait for.
\<close>

theorem superseded_subscription_stays_pending:
  "sync_run (\<lambda>_. None) superseded_run (initial_sync SelectiveDelivery) = Some superseded_sync \<and>
   vs_connected superseded_sync \<and> waits_for_nothing superseded_sync \<and>
   vs_acknowledged superseded_sync = vs_desired superseded_sync \<and>
   vs_desired superseded_sync = [''a'', ''b'', ''c'', ''d'', ''e''] \<and>
   list_all (\<lambda>a. vs_catchUps superseded_sync a = None \<and> getAgentTimelineStatus superseded_sync a = ViewPending)
     (vs_desired superseded_sync)"
proof -
  note f = superseded_sync_facts
  have "sync_run (\<lambda>_. None) superseded_run (initial_sync SelectiveDelivery) = Some superseded_sync"
    using f(1) by (auto simp: superseded_sync_def)
  moreover have "waits_for_nothing superseded_sync" using f(2) by (simp add: waits_for_nothing_def)
  ultimately show ?thesis unfolding f(4,5) using f(3,6) by simp
qed

section \<open>A latest tail that arrives late\<close>

definition late_fetch :: "bool \<Rightarrow> pending_fetch" where
  "late_fetch tail = \<lparr>pf_agent = ''a'', pf_generation = 1, pf_request = planTimelineCatchUpAfter ''e'' 5,
     pf_overflow = True, pf_latestTail = tail\<rparr>"

definition late_tail_run :: "sync_event list" where
  "late_tail_run =
     [SetConnected True, ReplaceVisible ''pane'' [''a''], CacheLoaded ''a'' None,
      PageArrived (late_fetch False) (True, Some (''e'', 45)),
      ReplaceVisible ''pane'' [], LatestTailArrived (late_fetch True), ReplaceVisible ''pane'' [''a'']]"

definition late_tail_sync :: view_sync where
  "late_tail_sync = the (sync_run (\<lambda>_. Some (''e'', 5)) late_tail_run (initial_sync LegacyDelivery))"

lemma late_tail_sync_facts:
  "sync_run (\<lambda>_. Some (''e'', 5)) late_tail_run (initial_sync LegacyDelivery) \<noteq> None"
  "vs_fetches late_tail_sync = [] \<and> vs_loads late_tail_sync = [] \<and>
     vs_reconcile late_tail_sync = ReconcileIdle \<and> vs_nextTimer late_tail_sync = 0"
  "vs_connected late_tail_sync \<and> vs_acknowledged late_tail_sync = [''a''] \<and> vs_desired late_tail_sync = [''a'']"
  "getAgentTimelineStatus late_tail_sync ''a'' = ViewPending"
  by code_simp+

text \<open>
  C34: The latest tail of an agent that was hidden meanwhile is taken for its next view.  The catch-up that was
  cancelled is recorded as complete, so that no page is fetched when the agent is shown again, and it stays
  pending although nothing is left to wait for.
\<close>

theorem late_tail_stays_pending:
  "sync_run (\<lambda>_. Some (''e'', 5)) late_tail_run (initial_sync LegacyDelivery) = Some late_tail_sync \<and>
   vs_connected late_tail_sync \<and> waits_for_nothing late_tail_sync \<and>
   vs_acknowledged late_tail_sync = [''a''] \<and> vs_desired late_tail_sync = [''a''] \<and>
   getAgentTimelineStatus late_tail_sync ''a'' = ViewPending"
proof -
  note f = late_tail_sync_facts
  have "sync_run (\<lambda>_. Some (''e'', 5)) late_tail_run (initial_sync LegacyDelivery) = Some late_tail_sync"
    using f(1) by (auto simp: late_tail_sync_def)
  moreover have "waits_for_nothing late_tail_sync" using f(2) by (simp add: waits_for_nothing_def)
  ultimately show ?thesis using f(3,4) by simp
qed

section \<open>An error that stays\<close>

definition stuck_error_run :: "sync_event list" where
  "stuck_error_run =
     [SetConnected True, Settle, ReplaceVisible ''pane'' [''a''], CacheLoaded ''a'' None, Subscribed, Settle,
      PageArrived (tail_fetch ''a'' 1) (False, None),
      ReplaceVisible ''pane'' [''a'', ''b''], CacheLoaded ''b'' None, SubscriptionRefused ''offline'', Settle,
      TimerFired 0, Subscribed, Settle,
      PageArrived (tail_fetch ''b'' 1) (False, None)]"

definition stuck_sync :: view_sync where
  "stuck_sync = the (timely_run (map (Pair (\<lambda>_. None)) stuck_error_run) (initial_sync SelectiveDelivery))"

lemma stuck_sync_facts:
  "timely_run (map (Pair (\<lambda>_. None)) stuck_error_run) (initial_sync SelectiveDelivery) \<noteq> None"
  "map_option cu_status (vs_catchUps stuck_sync ''a'') = Some CatchUpComplete"
  "\<not> vs_needsRetry stuck_sync"
  "getAgentTimelineStatus stuck_sync ''a'' = ViewError \<and> getAgentTimelineStatus stuck_sync ''b'' = ViewReady"
  by code_simp+

text \<open>
  C35: A refused subscription leaves an error on an agent that had caught up.  In a timely run the retry of the
  subscription succeeds and brings the new agent up to date; the old one has caught up too, but is still shown
  as failed, and the retry that the user asks for does nothing.
\<close>

theorem refused_subscription_leaves_an_error:
  "timely_reach SelectiveDelivery stuck_sync \<and>
   (\<exists>cu. vs_catchUps stuck_sync ''a'' = Some cu \<and> cu_status cu = CatchUpComplete) \<and>
   getAgentTimelineStatus stuck_sync ''b'' = ViewReady \<and>
   getAgentTimelineStatus stuck_sync ''a'' = ViewError \<and>
   sync_step rc (RetryVisible ''a'') stuck_sync = Some stuck_sync"
proof -
  note f = stuck_sync_facts
  have "timely_run (map (Pair (\<lambda>_. None)) stuck_error_run) (initial_sync SelectiveDelivery) = Some stuck_sync"
    using f(1) by (auto simp: stuck_sync_def)
  from timely_run_reach [OF timely_reach.start this] have "timely_reach SelectiveDelivery stuck_sync" .
  moreover obtain cu where "vs_catchUps stuck_sync ''a'' = Some cu" "cu_status cu = CatchUpComplete"
    using f(2) by auto
  ultimately show ?thesis using f(3,4) by (auto simp: retryVisibleAgentTimeline_def Let_def)
qed

end
