(* ===== verification/Spec2Isabelle.thy ===== *)
theory Spec2Isabelle
  imports
    Timeline_Items Timeline_Store Timeline_Projection Timeline_Pages
    Run_State Stream_Coalescer Versioned_Collection Cron
    Tab_Targets Layout_Sizes Layout_Normal Layout_Safety Layout_Content Layout_Reconcile
    Schedule_Claims Git_Scheduler Binary_Frames Jsonl_Frames Encrypted_Safety
    Stream_Text Stream_Rows Stream_Gate Stream_Coverage Stream_Submissions Timeline_Requests
    Sync_Lost
begin

text \<open>
  \<^bold>\<open>What the program is.\<close>  Paseo runs coding agents in a daemon (\<open>packages/server\<close>) and shows them in
  an app (\<open>packages/app\<close>).  Providers emit a stream of events per agent; the daemon coalesces the
  stream, stores the timeline rows it yields, projects rows into the entries clients page through,
  keeps a table of running turns, publishes a directory of agents as a versioned collection, and
  starts scheduled runs.  The app shows the timeline of an agent from pages of the daemon and live events, and
  keeps a layout of panes and tabs for every workspace.  The two talk
  over a channel that a relay only forwards: messages are encrypted end to end (\<open>packages/relay\<close>), and
  terminals and files travel in binary frames (\<open>packages/protocol\<close>).

  \<^bold>\<open>Theories and the code they model.\<close>
  \<^item> \<open>Prelude\<close>: lists, association lists in the order of a JavaScript \<open>Map\<close>, a stable sort; \<open>Paging\<close>:
    the locale of a log read through a cursor and the loop of a client that drains it;
    \<open>Js_Text\<close>: \<open>trim\<close>, \<open>split\<close>, decimal numerals.
  \<^item> \<open>Timeline_Items\<close>: \<open>agent-sdk-types.ts\<close>, \<open>agent-timeline-content.ts\<close> and \<open>timeline-identity.ts\<close>:
    the items and events, and the limits on their content.
  \<^item> \<open>Timeline_Store\<close>: \<open>agent-timeline-store.ts\<close>: rows with sequence numbers and an epoch per agent,
    appends, seeding, enrichment of submitted messages, and the three directions of \<open>fetch\<close>.
  \<^item> \<open>Timeline_Projection\<close> and \<open>Timeline_Pages\<close>: \<open>timeline-projection.ts\<close>: collapse by identity, merge
    of adjacent chunks, windows of projected entries, and the pages of a client.
  \<^item> \<open>Run_State\<close>: \<open>agent-run-state.ts\<close>: tracked runs, their waiters, and the asynchronous generator of
    a turn as a step function over its queue.
  \<^item> \<open>Stream_Coalescer\<close>: \<open>agent-stream-coalescer.ts\<close> with its timers; the flushed payloads are a log.
  \<^item> \<open>Versioned_Collection\<close>: \<open>directory-sync/internal/versioned-collection.ts\<close>.
  \<^item> \<open>Cron\<close>: \<open>cron-expression.ts\<close> and \<open>schedule/cron.ts\<close>.
  \<^item> \<open>Schedule_Store\<close>, \<open>Schedule_Service\<close>, \<open>Schedule_Runs\<close>: \<open>schedule/types.ts\<close>, \<open>schedule/store.ts\<close> and
    \<open>schedule/service.ts\<close>: records and schema, the operations on one schedule, and the service as an event
    system of requests, ticks, runs and restarts.  \<open>Schedule_Updates\<close> has the contract of an updater
    (\<open>schedule_change\<close>, \<open>schedule_edit\<close>) with its interpretations, \<open>Schedule_Safety\<close> the invariant of the events,
    \<open>Schedule_Settling\<close> the stronger one for cadences that can be computed, \<open>Schedule_Claims\<close> the properties.
  \<^item> \<open>Tab_Targets\<close>: \<open>workspace-tabs/identity.ts\<close>, \<open>model.ts\<close>, \<open>panels/panel-manifest.ts\<close> and the file
    locations of \<open>workspace/file-open\<close>: what a tab shows, its normal form, equality and id.
  \<^item> \<open>Layout_Tree\<close>, \<open>Layout_Ops\<close>, \<open>Layout_Normal\<close>: \<open>stores/workspace-layout-actions.ts\<close>: the tree of
    panes and groups and its traversals, the operations on a layout, and reading and writing it.
    \<open>Layout_Facts\<close> gives the effect of each tree operation on the sequence of panes, \<open>Layout_Sizes\<close>
    the clamped sizes, \<open>Layout_Invariant\<close> well-formedness per operation, \<open>Layout_Safety\<close> the layouts a
    workspace can reach, \<open>Layout_Content\<close> what happens to the tabs.  \<open>Layout_Reconcile\<close>: the pass that
    makes the agent and terminal tabs follow a snapshot of the server.
  \<^item> \<open>Stream_Ids\<close>, \<open>Stream_Items\<close>, \<open>Stream_Reduce\<close>, \<open>Stream_Events\<close>, \<open>Stream_Lanes\<close>, \<open>Stream_Replacement\<close>:
    \<open>types/stream.ts\<close> of the app: identifiers and Markdown blocks, rows and user messages, the reducers of each
    kind of row, events, the two lanes (a committed tail and a live head), and the replacement of a stream.
  \<^item> \<open>Stream_Pages\<close>, \<open>Stream_Responses\<close>, \<open>Stream_Live\<close>: \<open>timeline/session-stream-reducers.ts\<close>: cursors and
    loaded ranges, the response of the daemon to a fetch, the sequencing gate and the queue of live events.
  \<^item> \<open>Client_Session\<close>: \<open>composer/submission/model.ts\<close> and the slice of \<open>stores/session-store.ts\<close> that holds
    timelines and submissions.  \<open>Timeline_Requests\<close>: the answer of \<open>session.ts\<close> to a fetch.
  \<^item> \<open>Stream_Text\<close> (promotion keeps the text), \<open>Stream_Rows\<close> (tool calls, the end of a turn), \<open>Stream_Gate\<close>
    (live events), \<open>Stream_Coverage\<close> (loaded ranges) and \<open>Stream_Submissions\<close> (messages being sent) have the
    properties of the client timeline.
  \<^item> \<open>Timeline_Sync\<close>: \<open>timeline/viewed-timeline-sync.ts\<close>: which agents the app follows and how it catches up
    with them, as an event system over the calls of its interface and the answers it waits for.
    \<open>Sync_Safety\<close> states its invariant; \<open>Sync_Steps\<close> and \<open>Sync_Answers\<close> (catch-ups), \<open>Sync_Members\<close> and
    \<open>Sync_Commits\<close> (membership) and \<open>Sync_Runs\<close> (subscriptions, retries, whole runs) show that every event
    keeps it, and that no agent stays behind; \<open>Sync_Lost\<close> has runs of the code in which one does.
  \<^item> \<open>Git_Scheduler\<close>: \<open>utils/git-process-scheduler.ts\<close>: admission of git processes as an event system.
  \<^item> \<open>Js_Bytes\<close>, \<open>Js_Json\<close>: bytes, and \<open>JSON.stringify\<close> and \<open>JSON.parse\<close> on the values the code exchanges,
    with their round trip.
  \<^item> \<open>Binary_Frames\<close>: \<open>protocol/src/binary-frames\<close>: terminal and file transfer frames and their switch.
  \<^item> \<open>Jsonl_Frames\<close>: \<open>providers/jsonl-frame-decoder.ts\<close>: lines and chunked messages of a provider process.
  \<^item> \<open>Encrypted_Channel\<close>: \<open>relay/src/encrypted-channel.ts\<close>, \<open>crypto.ts\<close>, \<open>base64.ts\<close>: both ends of the channel.
    \<open>Encrypted_Link\<close> connects two honest ends, \<open>Encrypted_Safety\<close> puts one end against any transport.

  \<^bold>\<open>How state and effects appear.\<close>  A class is a record of its fields; a method takes and returns the
  record.  A \<open>Map\<close> is an association list in insertion order, a thrown error an \<open>Inl\<close> or a \<open>None\<close>, a
  callback a log of its calls.  Values from outside the sources (the clock, fresh identifiers,
  \<open>localeCompare\<close>, a fingerprint, \<open>Intl.DateTimeFormat\<close>, Base64, the text codecs and the cryptography of
  \<open>tweetnacl\<close>, the schemas of \<open>zod\<close>, the block ranges \<open>parse\<close> of \<open>markdown-it\<close>, \<open>new_Date\<close>) are arguments; what is assumed of them (\<open>platform_ok\<close>, \<open>env_ok\<close>,
  \<open>jsonl_env_ok\<close>) is satisfied by a concrete instance.  An asynchronous handler is one step up to its
  \<open>await\<close> and another after it; the steps interleave freely.  Reducers of the client return their argument when
  nothing changes and callers compare with \<open>!==\<close>: such a result is an \<open>update\<close>, with \<open>Kept\<close> for the argument.  Numbers that count or order
  are \<open>nat\<close> or \<open>int\<close>; the exactness bound of 2 to the 53 of JavaScript is not modelled.  The sizes of a layout are
  exact rationals: the rounding of the divisions of \<open>normalizeSizes\<close> and its test \<open>Number.isFinite\<close> are not modelled,
  and what is claimed of a second normalisation (in \<open>Layout_Normal\<close>) does not depend on sizes.

  \<^bold>\<open>What the lemmas show.\<close>  Each theory proves its invariant for every operation and then the
  behaviour seen from outside: a client that follows a cursor misses and repeats nothing
  (\<open>cursor_log\<close>, interpreted for the store and for projected pages), every projected entry accounts
  for its rows, a run settles once, coalescing keeps the text, a directory client converges to the
  collection (\<open>change_feed\<close>), the next run of a schedule is the first match, the schedule service keeps its
  schedules consistent and their history final through every interleaving, every layout that
  can be reached is well-formed and rearranging it loses no tab.  The git scheduler keeps its bound and
  comes to rest; two honest ends of an encrypted channel lose, repeat and corrupt nothing under every interleaving of
  handshake and traffic, and keep the order of the calls except that what a client sends once its channel is open may
  overtake what it queued before.  On the client, live events are applied once and in order, loaded ranges are exact, the
  rows of a tool call settle, promotion keeps every line, no page loses a message that is being sent, and a
  viewed agent is caught up with whenever nothing is left to wait for (for \<open>timely\<close> events, defined in \<open>Sync_Runs\<close>);
  theorems on the error paths and concrete runs show where the code falls short.  One end of a channel against any transport sends nothing in the clear; frames and chunked
  messages come back as they were sent, however the bytes are cut.

  \<^bold>\<open>Bounds and fuel.\<close>  Loops are structural or carry a measure; the growing window of
  \<open>selectTimelineWindowByProjectedLimit\<close>, the turn stream and the drain of a client use fuel, and a
  lemma shows that the fuel given reaches the result; so does the loop that moves an overdue schedule past
  the present (\<open>catch_up_loop\<close>).  The search of \<open>computeNextRunAt\<close> is bounded in
  the source by 366 days.  \<open>JSON_parse\<close> takes twice the length of the text as fuel, and more fuel changes
  nothing (\<open>parse_fuel_irrelevant\<close>).  The loop of \<open>clampNormalizedSizes\<close> ends because each round locks a size.

  \<open>free_suffix\<close>, the search of a free identifier, has as much fuel as there are identifiers, which is enough
  (\<open>createAssistantItemId_fresh\<close>).

  \<^bold>\<open>Not modelled.\<close>  Of the client timeline, the cache on disk and the view models are left out; of a
  response, the fields no reducer reads (\<open>collapsed\<close>, \<open>staleCursor\<close>, \<open>gap\<close>, the request id).  User
  interface, transport, persistence, the providers and the desktop shell are input and output around this
  core; they are listed with their reasons in the manifest.
\<close>

end
